(* ===== verification/C_Prelude.thy ===== *)
theory C_Prelude
  imports Main "HOL-Library.Monad_Syntax"
begin

text \<open>
  Shared vocabulary of the development: how C objects are represented, and the generic
  facts about them.

  \<^item> A character array is a \<open>string\<close> (a list of \<open>char\<close>), read as \<^emph>\<open>zero-extended\<close>: the bytes
    after the last element of the list are zero. The arrays of the program are static or
    initialised with \<^verbatim>\<open>{0}\<close>, so this is their initial contents (\<open>[]\<close>), and it is what
    \<^verbatim>\<open>memset(a, 0, sizeof a)\<close> restores. \<open>byte_at\<close> reads a byte, \<open>put_bytes\<close> is \<^verbatim>\<open>memcpy\<close> into
    the array at an offset. The size of an array is a constant of the model, and an access
    that leaves it is undefined behaviour.
  \<^item> A pointer into an array is an offset; the bytes it points at are \<open>drop off a\<close>.
    \<^verbatim>\<open>NULL\<close> is \<open>None\<close>. \<open>cstr\<close> is the C string at a pointer.
  \<^item> A computation that may have undefined behaviour, or may loop for ever, has an \<open>option\<close>
    type: \<open>None\<close> is \<^emph>\<open>no defined result\<close>. Error codes are values inside \<open>Some\<close>.
  \<^item> A linked list in a static array of nodes is a \<open>chain\<close> (or, with its back pointers, a
    \<open>dchain\<close>) of array indices.
\<close>

named_theorems c_simps \<open>rewriting facts about the C vocabulary\<close>

abbreviation NUL :: char where
  "NUL \<equiv> CHR 0x00"

section \<open>Character arrays\<close>

definition byte_at :: "string \<Rightarrow> nat \<Rightarrow> char" where
  "byte_at b i = (if i < length b then b ! i else NUL)"

definition put_bytes :: "string \<Rightarrow> nat \<Rightarrow> string \<Rightarrow> string" where
  "put_bytes b off s =
     take off (b @ replicate (off - length b) NUL) @ s @ drop (off + length s) b"

definition cstr :: "string \<Rightarrow> string" where
  "cstr s = takeWhile (\<lambda>c. c \<noteq> NUL) s"

lemma byte_at_simps [simp]:
  "byte_at [] i = NUL"
  "byte_at (c # cs) 0 = c"
  "byte_at (c # cs) (Suc i) = byte_at cs i"
  by (auto simp: byte_at_def)

lemma byte_at_append:
  "byte_at (a @ b) i = (if i < length a then a ! i else byte_at b (i - length a))"
  by (auto simp: byte_at_def nth_append)

lemma byte_at_drop [simp]: "byte_at (drop n b) i = byte_at b (n + i)"
  by (auto simp: byte_at_def)

lemma length_put_bytes [simp]:
  "length (put_bytes b off s) = max (length b) (off + length s)"
  by (auto simp: put_bytes_def)

lemma byte_at_put_bytes:
  "byte_at (put_bytes b off s) i =
     (if off \<le> i \<and> i < off + length s then s ! (i - off) else byte_at b i)"
proof -
  let ?pre = "take off (b @ replicate (off - length b) NUL)"
  have len: "length ?pre = off" by simp
  have pre: "?pre ! i = byte_at b i" if "i < off"
    using that by (auto simp: byte_at_def nth_append)
  show ?thesis
    unfolding put_bytes_def byte_at_append[of ?pre] byte_at_append[of s] len
    using pre by auto
qed

subsection \<open>C strings\<close>

lemma cstr_simps [simp]:
  "cstr [] = []"
  "cstr (c # cs) = (if c = NUL then [] else c # cstr cs)"
  by (auto simp: cstr_def)

lemma NUL_notin_cstr [simp]: "NUL \<notin> set (cstr s)"
  by (auto simp: cstr_def dest: set_takeWhileD)

lemma cstr_no_NUL: "NUL \<notin> set s \<Longrightarrow> cstr s = s"
  by (auto simp: cstr_def takeWhile_eq_all_conv)

lemma cstr_append_NUL [simp]: "cstr (s @ NUL # t) = cstr s"
  by (induction s) auto

lemma cstr_append_no_NUL: "NUL \<notin> set s \<Longrightarrow> cstr (s @ t) = s @ cstr t"
  by (induction s) auto

lemma length_cstr_le [simp]: "length (cstr s) \<le> length s"
  by (simp add: cstr_def length_takeWhile_le)

lemma cstr_nth: "i < length (cstr s) \<Longrightarrow> cstr s ! i = byte_at s i"
proof (induction s arbitrary: i)
  case Nil
  then show ?case by simp
next
  case (Cons c s)
  then show ?case by (cases i) (auto split: if_splits)
qed

lemma byte_at_cstr_end: "byte_at s (length (cstr s)) = NUL"
  by (induction s) auto

lemma cstr_not_NUL: "i < length (cstr s) \<Longrightarrow> byte_at s i \<noteq> NUL"
  by (metis NUL_notin_cstr cstr_nth nth_mem)

text \<open>A C string is determined by its bytes and its terminator.\<close>

lemma cstr_eqI:
  assumes "NUL \<notin> set t" and "\<And>i. i < length t \<Longrightarrow> byte_at s i = t ! i"
    and "byte_at s (length t) = NUL"
  shows "cstr s = t"
  using assms
proof (induction t arbitrary: s)
  case Nil
  then show ?case by (cases s) auto
next
  case (Cons c t)
  from Cons.prems(2)[of 0] Cons.prems(1) obtain s' where s: "s = c # s'" and "c \<noteq> NUL"
    by (cases s) auto
  have "cstr s' = t"
  proof (rule Cons.IH)
    show "NUL \<notin> set t" using Cons.prems(1) by simp
    show "byte_at s' i = t ! i" if "i < length t" for i
      using Cons.prems(2)[of "Suc i"] that s by simp
    show "byte_at s' (length t) = NUL"
      using Cons.prems(3) s by simp
  qed
  with s \<open>c \<noteq> NUL\<close> show ?case by simp
qed

lemma cstr_drop_cong:
  assumes "\<And>i. i \<le> length (cstr (drop p b)) \<Longrightarrow> byte_at b' (p + i) = byte_at b (p + i)"
  shows "cstr (drop p b') = cstr (drop p b)"
proof (rule cstr_eqI)
  show "NUL \<notin> set (cstr (drop p b))" by simp
next
  fix i assume i: "i < length (cstr (drop p b))"
  have "byte_at b (p + i) = cstr (drop p b) ! i"
    using i by (simp add: cstr_nth)
  with assms[of i] i show "byte_at (drop p b') i = cstr (drop p b) ! i" by simp
next
  have "byte_at (drop p b) (length (cstr (drop p b))) = NUL"
    by (rule byte_at_cstr_end)
  with assms show "byte_at (drop p b') (length (cstr (drop p b))) = NUL" by simp
qed

text \<open>Writing behind a string, or into fresh space, and reading it back.\<close>

lemma cstr_put_bytes_before:
  assumes "p + length (cstr (drop p b)) < off"
  shows "cstr (drop p (put_bytes b off s)) = cstr (drop p b)"
  by (rule cstr_drop_cong) (use assms in \<open>auto simp: byte_at_put_bytes\<close>)

lemma cstr_put_bytes_after:
  assumes "off + length s \<le> p"
  shows "cstr (drop p (put_bytes b off s)) = cstr (drop p b)"
  by (rule cstr_drop_cong) (use assms in \<open>auto simp: byte_at_put_bytes\<close>)

lemma cstr_put_bytes_same:
  assumes "NUL \<notin> set s" and "length b \<le> off + length s"
  shows "cstr (drop off (put_bytes b off s)) = s"
proof (rule cstr_eqI)
  show "byte_at (drop off (put_bytes b off s)) i = s ! i" if "i < length s" for i
    using that by (simp add: byte_at_put_bytes)
  show "byte_at (drop off (put_bytes b off s)) (length s) = NUL"
    using assms(2) by (simp add: byte_at_put_bytes byte_at_def)
qed (rule assms(1))

section \<open>Searching a list for the first match\<close>

text \<open>The index of the first element that satisfies a predicate.\<close>

fun first_index :: "('a \<Rightarrow> bool) \<Rightarrow> 'a list \<Rightarrow> nat option" where
  "first_index P [] = None"
| "first_index P (x # xs) = (if P x then Some 0 else map_option Suc (first_index P xs))"

lemma first_index_None: "first_index P xs = None \<longleftrightarrow> (\<forall>x \<in> set xs. \<not> P x)"
  by (induction xs) auto

lemma first_index_SomeD:
  "first_index P xs = Some i \<Longrightarrow> i < length xs \<and> P (xs ! i) \<and> (\<forall>j < i. \<not> P (xs ! j))"
proof (induction xs arbitrary: i)
  case Nil
  then show ?case by simp
next
  case (Cons x xs)
  then show ?case
    by (cases i) (auto split: if_splits simp: less_Suc_eq_0_disj)
qed

lemma first_index_SomeI:
  "i < length xs \<Longrightarrow> P (xs ! i) \<Longrightarrow> (\<And>j. j < i \<Longrightarrow> \<not> P (xs ! j)) \<Longrightarrow> first_index P xs = Some i"
proof (induction xs arbitrary: i)
  case Nil
  then show ?case by simp
next
  case (Cons x xs)
  show ?case
  proof (cases i)
    case 0
    with Cons.prems show ?thesis by simp
  next
    case (Suc k)
    have "first_index P xs = Some k"
    proof (rule Cons.IH)
      show "\<not> P (xs ! j)" if "j < k" for j
        using Cons.prems(3)[of "Suc j"] that Suc by simp
    qed (use Cons.prems Suc in auto)
    moreover have "\<not> P x" using Cons.prems(3)[of 0] Suc by simp
    ultimately show ?thesis using Suc by simp
  qed
qed

lemma first_index_append:
  "first_index P (xs @ ys) =
     (case first_index P xs of Some i \<Rightarrow> Some i
      | None \<Rightarrow> map_option (\<lambda>i. length xs + i) (first_index P ys))"
proof (induction xs)
  case Nil
  then show ?case by (cases "first_index P ys") auto
next
  case (Cons x xs)
  then show ?case by (cases "first_index P xs"; cases "first_index P ys") auto
qed

lemma first_index_map: "first_index P (map f xs) = first_index (\<lambda>x. P (f x)) xs"
  by (induction xs) auto

text \<open>Reading an array element after an assignment.\<close>

lemma nth_upd: "n < length xs \<Longrightarrow> xs[k := y] ! n = (if k = n then y else xs ! n)"
  by (cases "k = n") auto

section \<open>Linked lists in static arrays\<close>

text \<open>
  \<open>chain nxt p xs\<close>: following \<open>nxt\<close> from \<open>p\<close> visits the nodes \<open>xs\<close> and ends in \<^verbatim>\<open>NULL\<close>.
  \<open>dchain nxt prv q p xs\<close> says in addition that the back pointer of each node is the node
  before it, and \<open>q\<close> for the first.
\<close>

fun chain :: "(nat \<Rightarrow> nat option) \<Rightarrow> nat option \<Rightarrow> nat list \<Rightarrow> bool" where
  "chain nxt p [] = (p = None)"
| "chain nxt p (x # xs) = (p = Some x \<and> chain nxt (nxt x) xs)"

fun dchain ::
  "(nat \<Rightarrow> nat option) \<Rightarrow> (nat \<Rightarrow> nat option) \<Rightarrow> nat option \<Rightarrow> nat option \<Rightarrow> nat list \<Rightarrow> bool" where
  "dchain nxt prv q p [] = (p = None)"
| "dchain nxt prv q p (x # xs) =
     (p = Some x \<and> prv x = q \<and> dchain nxt prv (Some x) (nxt x) xs)"

text \<open>\<^verbatim>\<open>while(p->last) p = p->last;\<close> A walk that visits more nodes than the array has is endless,
  so the fuel of every walk is the size of the array.\<close>

fun list_end :: "nat \<Rightarrow> (nat \<Rightarrow> nat option) \<Rightarrow> nat \<Rightarrow> nat option" where
  "list_end 0 nxt p = None"
| "list_end (Suc n) nxt p = (case nxt p of None \<Rightarrow> Some p | Some q \<Rightarrow> list_end n nxt q)"

lemma dchain_imp_chain: "dchain nxt prv q p xs \<Longrightarrow> chain nxt p xs"
  by (induction xs arbitrary: p q) auto

lemma chain_unique: "chain nxt p xs \<Longrightarrow> chain nxt p ys \<Longrightarrow> xs = ys"
proof (induction xs arbitrary: p ys)
  case Nil
  then show ?case by (cases ys) auto
next
  case (Cons x xs)
  then show ?case by (cases ys) auto
qed

lemma chain_drop: "chain nxt p xs \<Longrightarrow> i < length xs \<Longrightarrow> chain nxt (Some (xs ! i)) (drop i xs)"
proof (induction xs arbitrary: p i)
  case Nil
  then show ?case by simp
next
  case (Cons x xs)
  then show ?case by (cases i) auto
qed

text \<open>A list that ends in \<^verbatim>\<open>NULL\<close> visits no node twice.\<close>

lemma chain_distinct: "chain nxt p xs \<Longrightarrow> distinct xs"
proof (rule ccontr)
  assume c: "chain nxt p xs" and "\<not> distinct xs"
  then obtain i j where ij: "i < j" "j < length xs" "xs ! i = xs ! j"
    by (metis distinct_conv_nth linorder_neqE_nat)
  then have "drop i xs = drop j xs"
    using chain_drop[OF c, of i] chain_drop[OF c, of j] chain_unique by simp
  then have "length (drop i xs) = length (drop j xs)" by simp
  with ij show False by simp
qed

lemma chain_length_le:
  assumes "chain nxt p xs" and "set xs \<subseteq> {..<n}"
  shows "length xs \<le> n"
  using card_mono[OF _ assms(2)] chain_distinct[OF assms(1)] by (simp add: distinct_card)

lemma chain_cong:
  "(\<And>x. x \<in> set xs \<Longrightarrow> nxt x = nxt' x) \<Longrightarrow> chain nxt p xs = chain nxt' p xs"
  by (induction xs arbitrary: p) auto

lemma dchain_cong:
  "(\<And>x. x \<in> set xs \<Longrightarrow> nxt x = nxt' x) \<Longrightarrow> (\<And>x. x \<in> set xs \<Longrightarrow> prv x = prv' x) \<Longrightarrow>
   dchain nxt prv q p xs = dchain nxt' prv' q p xs"
  by (induction xs arbitrary: p q) auto

lemma chain_hd: "chain nxt p xs \<Longrightarrow> p = (if xs = [] then None else Some (hd xs))"
  by (cases xs) auto

lemma chain_append:
  "chain nxt p (xs @ ys) \<longleftrightarrow>
     (if xs = [] then chain nxt p ys
      else p = Some (hd xs) \<and> (\<forall>i. Suc i < length xs \<longrightarrow> nxt (xs ! i) = Some (xs ! Suc i)) \<and>
           chain nxt (nxt (last xs)) ys)"
proof (induction xs arbitrary: p)
  case Nil
  then show ?case by simp
next
  case (Cons x xs)
  show ?case
  proof (cases xs)
    case Nil
    then show ?thesis by simp
  next
    case (Cons y zs)
    have all: "(\<forall>i. Suc i < length (x # xs) \<longrightarrow> nxt ((x # xs) ! i) = Some ((x # xs) ! Suc i))
        \<longleftrightarrow> nxt x = Some y \<and> (\<forall>i. Suc i < length xs \<longrightarrow> nxt (xs ! i) = Some (xs ! Suc i))"
      using Cons by (auto simp: less_Suc_eq_0_disj)
    show ?thesis unfolding all using Cons.IH[of "nxt x"] Cons by auto
  qed
qed

lemma list_end_chain:
  "chain nxt (Some x) xs \<Longrightarrow> length xs \<le> n \<Longrightarrow> list_end n nxt x = Some (last xs)"
proof (induction xs arbitrary: x n)
  case Nil
  then show ?case by simp
next
  case (Cons y ys)
  then obtain m where n: "n = Suc m" by (cases n) auto
  show ?case
  proof (cases ys)
    case Nil
    with Cons.prems n show ?thesis by simp
  next
    case ys: (Cons z zs)
    with Cons.prems have "chain nxt (Some z) ys" "nxt x = Some z" "x = y" by auto
    with Cons.IH[of z m] Cons.prems n ys show ?thesis by simp
  qed
qed

text \<open>Appending a node at the end of a doubly linked list.\<close>

lemma dchain_append_node:
  assumes "dchain nxt prv q p xs" and "xs \<noteq> []" and "distinct xs" and "z \<notin> set xs"
    and "nxt' z = None" and "nxt' (last xs) = Some z" and "prv' z = Some (last xs)"
    and "\<And>x. x \<in> set xs \<Longrightarrow> x \<noteq> last xs \<Longrightarrow> nxt' x = nxt x"
    and "\<And>x. x \<in> set xs \<Longrightarrow> prv' x = prv x"
  shows "dchain nxt' prv' q p (xs @ [z])"
  using assms
proof (induction xs arbitrary: p q)
  case Nil
  then show ?case by simp
next
  case (Cons x xs)
  show ?case
  proof (cases "xs = []")
    case True
    with Cons.prems show ?thesis by auto
  next
    case False
    with Cons.prems have "dchain nxt prv (Some x) (nxt x) xs" by simp
    from Cons.IH[OF this False] Cons.prems False
    have "dchain nxt' prv' (Some x) (nxt x) (xs @ [z])" by auto
    moreover have "x \<noteq> last xs" using Cons.prems(3) False by (metis distinct.simps(2) last_in_set)
    ultimately show ?thesis using Cons.prems False by auto
  qed
qed

text \<open>Appending a node at the end of a singly linked list.\<close>

lemma chain_snoc:
  assumes "chain nxt (Some p) xs" and "\<And>x. x \<in> set xs \<Longrightarrow> nxt' x = (if x = last xs then Some q else nxt x)" and "nxt' q = None"
  shows "chain nxt' (Some p) (xs @ [q])"
  using assms(1,2)
proof (induction xs arbitrary: p)
  case Nil
  then show ?case by simp
next
  case (Cons x xs)
  have d: "x \<notin> set xs" using chain_distinct[OF Cons.prems(1)] by simp
  show ?case
  proof (cases xs)
    case Nil
    then show ?thesis using Cons.prems assms(3) by auto
  next
    case (Cons y ys)
    then have "chain nxt (Some y) xs" "nxt x = Some y" using Cons.prems(1) by auto
    moreover have "nxt' z = (if z = last xs then Some q else nxt z)" if "z \<in> set xs" for z
      using that Cons.prems(2)[of z] Cons by simp
    moreover have "nxt' x = nxt x" using Cons.prems(2)[of x] Cons d by (metis last_ConsR last_in_set list.distinct(1) list.set_intros(1))
    ultimately show ?thesis using Cons.IH[of y] Cons.prems(1) by simp
  qed
qed

fun starts_with :: "'a \<Rightarrow> 'a list \<Rightarrow> bool" where
  "starts_with c [] = False"
| "starts_with c (x # xs) = (x = c)"

lemma starts_with_iff [simp]: "starts_with c xs \<longleftrightarrow> (\<exists>rest. xs = c # rest)"
  by (cases xs) auto

end
