(* ===== verification/Ini_Strings.thy ===== *)
theory Ini_Strings
  imports C_Prelude
begin

text \<open>
  The string helpers of \<^verbatim>\<open>v2.0.0/inifile.c\<close>: \<^verbatim>\<open>str_int_len\<close>, \<^verbatim>\<open>str_frist_constchar\<close> and
  \<^verbatim>\<open>find_frist_endchar\<close>, and the C library calls the file uses on buffers (\<^verbatim>\<open>memcmp\<close>,
  \<^verbatim>\<open>snprintf\<close> with \<^verbatim>\<open>"%s"\<close>, \<^verbatim>\<open>fgets\<close>). A \<^verbatim>\<open>char *\<close> argument is the bytes it points at (\<open>None\<close>
  for \<^verbatim>\<open>NULL\<close>); a returned pointer is the offset from the argument.
\<close>

section \<open>Character constants\<close>

definition CONTENT_NEELINE_SIGN :: char where "CONTENT_NEELINE_SIGN = CHR 0x0A"
definition CONTENT_SPACE_SIGN :: char where "CONTENT_SPACE_SIGN = CHR 0x20"
definition CONTENT_TAB_SIGN :: char where "CONTENT_TAB_SIGN = CHR 0x09"
definition CONTENT_LEFT_BRACKET :: char where "CONTENT_LEFT_BRACKET = CHR ''[''"
definition CONTENT_RIGHT_BRACKET :: char where "CONTENT_RIGHT_BRACKET = CHR '']''"
definition CONTENT_COMMA_SIGN :: char where "CONTENT_COMMA_SIGN = CHR '';''"
definition CONTENT_EQUALITY_SIGN :: char where "CONTENT_EQUALITY_SIGN = CHR ''=''"

lemmas content_defs =
  CONTENT_NEELINE_SIGN_def CONTENT_SPACE_SIGN_def CONTENT_TAB_SIGN_def
  CONTENT_LEFT_BRACKET_def CONTENT_RIGHT_BRACKET_def CONTENT_COMMA_SIGN_def
  CONTENT_EQUALITY_SIGN_def

text \<open>The test \<^verbatim>\<open>c == CONTENT_SPACE_SIGN || c == CONTENT_TAB_SIGN\<close> of the skipping loops.\<close>

definition is_blank :: "char \<Rightarrow> bool" where
  "is_blank c \<longleftrightarrow> c = CONTENT_SPACE_SIGN \<or> c = CONTENT_TAB_SIGN"

section \<open>The helpers\<close>

fun str_int_len :: "string option \<Rightarrow> nat" where
  "str_int_len None = 0"
| "str_int_len (Some []) = 0"
| "str_int_len (Some (c # cs)) = (if c = NUL then 0 else Suc (str_int_len (Some cs)))"

fun str_frist_constchar :: "string option \<Rightarrow> char \<Rightarrow> nat option" where
  "str_frist_constchar None c = None"
| "str_frist_constchar (Some []) c = None"
| "str_frist_constchar (Some (x # xs)) c =
     (if x = NUL then None else if x = c then Some 0
      else map_option Suc (str_frist_constchar (Some xs) c))"

fun find_frist_endchar :: "string \<Rightarrow> nat" where
  "find_frist_endchar [] = 0"
| "find_frist_endchar (c # cs) = (if c \<noteq> NUL then Suc (find_frist_endchar cs) else 0)"

text \<open>The loops that skip blanks forwards: the offset of the first byte that is no blank.\<close>

fun skip_blanks :: "string \<Rightarrow> nat" where
  "skip_blanks [] = 0"
| "skip_blanks (c # cs) = (if is_blank c then Suc (skip_blanks cs) else 0)"

text \<open>
  \<^verbatim>\<open>memcmp\<close>: the sign of the first difference, the bytes compared as \<^verbatim>\<open>unsigned char\<close> (C fixes
  only the sign). The arguments are the bytes compared, so both have the length given to the call.
\<close>

fun memcmp :: "string \<Rightarrow> string \<Rightarrow> int" where
  "memcmp (a # as) (b # bs) =
     (if a = b then memcmp as bs
      else if (of_char a :: nat) < of_char b then -1 else 1)"
| "memcmp _ _ = 0"

text \<open>\<^verbatim>\<open>snprintf(p, n + 1, "%s", s)\<close> stores at most \<open>n\<close> characters of the string and a \<^verbatim>\<open>NUL\<close>.\<close>

definition snprintf_s :: "nat \<Rightarrow> string \<Rightarrow> string" where
  "snprintf_s n s = take n (cstr s) @ [NUL]"

section \<open>Reading a file line by line\<close>

text \<open>
  \<^verbatim>\<open>fgets(line, n, fp)\<close> takes up to \<open>n - 1\<close> characters, stopping behind a newline.
  \<open>fgets_split k s\<close> splits what the stream still holds, for \<open>k = n - 1\<close>.
\<close>

fun fgets_split :: "nat \<Rightarrow> string \<Rightarrow> string \<times> string" where
  "fgets_split 0 s = ([], s)"
| "fgets_split (Suc k) [] = ([], [])"
| "fgets_split (Suc k) (c # cs) =
     (if c = CONTENT_NEELINE_SIGN then ([c], cs)
      else let (a, b) = fgets_split k cs in (c # a, b))"

lemma fgets_split_append: "fgets_split k s = (a, b) \<Longrightarrow> s = a @ b"
  by (induction k s arbitrary: a b rule: fgets_split.induct)
     (auto split: if_splits prod.splits)

lemma fgets_split_length: "fgets_split k s = (a, b) \<Longrightarrow> length a \<le> k"
  by (induction k s arbitrary: a b rule: fgets_split.induct)
     (auto split: if_splits prod.splits)

lemma fgets_split_progress:
  "fgets_split (Suc k) (c # cs) = (a, b) \<Longrightarrow> length b < Suc (length cs)"
  using fgets_split_append[of "Suc k" "c # cs" a b]
  by (auto split: if_splits prod.splits simp: Cons_eq_append_conv)

text \<open>The chunks that a loop \<^verbatim>\<open>while(fgets(line, n, fp) != NULL)\<close> sees, in order.\<close>

function fgets_chunks :: "nat \<Rightarrow> string \<Rightarrow> string list" where
  "fgets_chunks k s =
     (if s = [] \<or> k = 0 then []
      else let (a, b) = fgets_split k s in a # fgets_chunks k b)"
  by pat_completeness auto
termination
proof (relation "measure (length \<circ> snd)")
  fix k s x a b
  assume *: "\<not> (s = [] \<or> k = 0)" "x = fgets_split k s" "(a, b) = x"
  then obtain c cs k' where "s = c # cs" "k = Suc k'" by (cases s; cases k) auto
  with * fgets_split_progress[of k' c cs a b] show "((k, b), k, s) \<in> measure (length \<circ> snd)"
    by simp
qed simp

declare fgets_chunks.simps [simp del]

text \<open>\<^verbatim>\<open>fgets\<close> stores the chunk and a \<^verbatim>\<open>NUL\<close>; later bytes of the buffer keep their old value.\<close>

definition fgets_into :: "string \<Rightarrow> string \<Rightarrow> string" where
  "fgets_into line chunk = put_bytes line 0 (chunk @ [NUL])"

section \<open>What the helpers compute\<close>

lemma str_int_len_Some [simp]: "str_int_len (Some s) = length (cstr s)"
  by (induction s) auto

lemma find_frist_endchar_eq [simp]: "find_frist_endchar s = length (cstr s)"
  by (induction s) auto

lemma str_frist_constchar_Some:
  "str_frist_constchar (Some s) c = first_index (\<lambda>x. x = c) (cstr s)"
  by (induction s) auto

lemma str_frist_constchar_cases:
  "str_frist_constchar (Some s) c = (if c \<in> set (cstr s) then Some (length (takeWhile (\<lambda>x. x \<noteq> c) (cstr s))) else None)"
  by (induction s) auto

lemma skip_blanks_eq: "skip_blanks s = length (takeWhile is_blank s)"
  by (induction s) auto

lemma memcmp_refl [simp]: "memcmp s s = 0"
  by (induction s) auto

lemma of_char_nat_inject: "(of_char a :: nat) = of_char b \<longleftrightarrow> a = b"
  by simp

lemma memcmp_eq_0_iff:
  "length a = length b \<Longrightarrow> memcmp a b = 0 \<longleftrightarrow> a = b"
  by (induction a b rule: list_induct2) auto

lemma fgets_chunks_Nil [simp]: "fgets_chunks k [] = []"
  by (subst fgets_chunks.simps) simp

text \<open>No byte of the file is lost or repeated by the reading loop.\<close>

lemma concat_fgets_chunks: "0 < k \<Longrightarrow> concat (fgets_chunks k s) = s"
proof (induction k s rule: fgets_chunks.induct)
  case (1 k s)
  obtain a b where ab: "fgets_split k s = (a, b)" by fastforce
  show ?case
  proof (cases "s = []")
    case True
    then show ?thesis by simp
  next
    case False
    have "concat (fgets_chunks k b) = b"
      using 1 False ab by fastforce
    with False 1(2) ab fgets_split_append[OF ab] show ?thesis
      by (subst fgets_chunks.simps) simp
  qed
qed

lemma fgets_chunks_length: "a \<in> set (fgets_chunks k s) \<Longrightarrow> length a \<le> k"
proof (induction k s rule: fgets_chunks.induct)
  case (1 k s)
  obtain a' b where ab: "fgets_split k s = (a', b)" by fastforce
  from 1(2) have ne: "\<not> (s = [] \<or> k = 0)"
    by (subst (asm) fgets_chunks.simps) (auto split: if_splits)
  with 1(2) ab have "a = a' \<or> a \<in> set (fgets_chunks k b)"
    by (subst (asm) fgets_chunks.simps) auto
  then show ?case
    using 1(1)[OF ne ab[symmetric] refl] fgets_split_length[OF ab] by auto
qed

text \<open>Lines that end in a newline and fit the buffer come back one by one.\<close>

lemma fgets_split_line:
  "CONTENT_NEELINE_SIGN \<notin> set l \<Longrightarrow> length l < k \<Longrightarrow>
   fgets_split k (l @ CONTENT_NEELINE_SIGN # s) = (l @ [CONTENT_NEELINE_SIGN], s)"
proof (induction l arbitrary: k)
  case Nil
  then show ?case by (cases k) auto
next
  case (Cons c l)
  then obtain j where "k = Suc j" by (cases k) auto
  with Cons show ?case by auto
qed

lemma fgets_chunks_line:
  assumes "CONTENT_NEELINE_SIGN \<notin> set l" and "length l < k"
  shows "fgets_chunks k (l @ CONTENT_NEELINE_SIGN # s) =
           (l @ [CONTENT_NEELINE_SIGN]) # fgets_chunks k s"
  using fgets_split_line[OF assms, of s] assms(2)
  by (subst fgets_chunks.simps) auto

lemma fgets_into_Nil [simp]: "cstr (fgets_into [] c) = cstr c"
  by (simp add: fgets_into_def put_bytes_def)

lemma cstr_fgets_into [simp]: "cstr (fgets_into b c) = cstr c"
  by (simp add: fgets_into_def put_bytes_def)

end
