(* ===== verification/C_Files.thy ===== *)
theory C_Files
  imports C_Prelude
begin

text \<open>
  Files as the programs see them: opening, reading, writing, and the shell commands \<^verbatim>\<open>rm\<close> and \<^verbatim>\<open>mv\<close>.
\<close>

text \<open>
  The file system: the contents of each existing file, and the paths on which opening fails for
  lack of permission.
\<close>

record file_system =
  fs_files :: "string \<Rightarrow> string option"
  fs_denied :: "string \<Rightarrow> bool"

text \<open>\<^verbatim>\<open>access\<close> and \<^verbatim>\<open>fopen\<close> for reading: the file exists and its permissions allow it.\<close>

definition can_open :: "file_system \<Rightarrow> string \<Rightarrow> bool" where
  "can_open fs name \<longleftrightarrow> fs_files fs name \<noteq> None \<and> \<not> fs_denied fs name"

text \<open>
  The commands given to \<^verbatim>\<open>system\<close>, \<^verbatim>\<open>rm\<close> and \<^verbatim>\<open>mv\<close>, are modelled for names the shell reads as one plain word;
  for any other name nothing is known about the result. The directory is writable, so \<^verbatim>\<open>rm\<close> and
  \<^verbatim>\<open>mv\<close> succeed; a file that is gone denies nothing.
\<close>

definition plain_char :: "char \<Rightarrow> bool" where
  "plain_char c \<longleftrightarrow> (let n = (of_char c :: nat) in
     48 \<le> n \<and> n \<le> 57 \<or> 65 \<le> n \<and> n \<le> 90 \<or> 97 \<le> n \<and> n \<le> 122 \<or> c \<in> set ''/._-'')"

definition shell_plain :: "string \<Rightarrow> bool" where
  "shell_plain s \<longleftrightarrow> s \<noteq> [] \<and> hd s \<noteq> CHR ''-'' \<and> list_all plain_char s"

definition fs_remove :: "string \<Rightarrow> file_system \<Rightarrow> file_system" where
  "fs_remove p fs = fs\<lparr>fs_files := (fs_files fs)(p := None), fs_denied := (fs_denied fs)(p := False)\<rparr>"

definition fs_write :: "string \<Rightarrow> string \<Rightarrow> file_system \<Rightarrow> file_system" where
  "fs_write p c fs = fs\<lparr>fs_files := (fs_files fs)(p := Some c)\<rparr>"

definition fs_move :: "string \<Rightarrow> string \<Rightarrow> file_system \<Rightarrow> file_system" where
  "fs_move p q fs =
     (if fs_files fs p = None then fs
      else fs\<lparr>fs_files := (fs_files fs)(p := None, q := fs_files fs p),
              fs_denied := (fs_denied fs)(p := False, q := fs_denied fs p)\<rparr>)"

text \<open>\<^verbatim>\<open>getline\<close>: a line with its newline, and the rest. \<open>None\<close> is the end of the file.\<close>

definition getline :: "string \<Rightarrow> (string \<times> string) option" where
  "getline s =
     (if s = [] then None
      else case first_index (\<lambda>c. c = CHR 0x0A) s of
             None \<Rightarrow> Some (s, [])
           | Some i \<Rightarrow> Some (take (i + 1) s, drop (i + 1) s))"

lemma getline_shorter: "getline s = Some (l, r) \<Longrightarrow> length r < length s"
  by (auto simp: getline_def split: if_splits option.splits)

end
