(* ===== verification/Ini_State.thy ===== *)
theory Ini_State
  imports Ini_Strings C_Files
begin

text \<open>
  The data of \<^verbatim>\<open>v2.0.0/inifile.c\<close>: the return codes and sizes, the node types, and the static
  variables \<^verbatim>\<open>pool_mem\<close>, \<^verbatim>\<open>ini_array\<close>, \<^verbatim>\<open>section_array\<close> and \<^verbatim>\<open>keyval_array\<close>, gathered with the
  file system in one record \<open>ini_world\<close>.

  A \<^verbatim>\<open>const char *\<close> field only ever points into one of the two pools, so it is a region and an
  offset. A node pointer is the index of the node in its static array. The slot search of the
  three arrays is one contract, stated as a locale and interpreted for each array.
\<close>

section \<open>Sizes and return codes\<close>

definition MAX_OPERATION_FILE_NUM :: nat where "MAX_OPERATION_FILE_NUM = 2"
definition MAX_INIFILE_SECTION_NUM :: nat where "MAX_INIFILE_SECTION_NUM = 10"
definition MAX_KEYVALUE_UNDER_SECTION :: nat where "MAX_KEYVALUE_UNDER_SECTION = 10"
definition INIFILE_KEYVALUE_ARRAY_LEN :: nat where
  "INIFILE_KEYVALUE_ARRAY_LEN = MAX_INIFILE_SECTION_NUM * MAX_KEYVALUE_UNDER_SECTION"
definition INIFILE_SIZE_SPACE :: nat where "INIFILE_SIZE_SPACE = 1024 * 3"
definition INIFILE_MAX_CONTENT_LINELEN :: nat where "INIFILE_MAX_CONTENT_LINELEN = 1024"
definition INIFILE_SYSTEM_CMD_LEN :: nat where "INIFILE_SYSTEM_CMD_LEN = 512"
definition INIFILE_FILEALL_NAME_LEN :: nat where "INIFILE_FILEALL_NAME_LEN = 128"

definition INIFILE_NO_EXIST :: int where "INIFILE_NO_EXIST = -1"
definition INIFILE_FORMAT_ERROR :: int where "INIFILE_FORMAT_ERROR = -2"
definition INIFILE_ERROR_PARAMETER :: int where "INIFILE_ERROR_PARAMETER = -3"
definition INIFILE_NUM_OUT_ARRAY :: int where "INIFILE_NUM_OUT_ARRAY = -6"
definition INIFILE_MEMORY_POOL_ERROR :: int where "INIFILE_MEMORY_POOL_ERROR = -9"
definition INIFILE_MEMORY_POOL_OUT :: int where "INIFILE_MEMORY_POOL_OUT = -10"
definition INIFILE_SECTION_NOFOUND :: int where "INIFILE_SECTION_NOFOUND = -11"
definition INIFILE_KEYVALUE_NOFOUND :: int where "INIFILE_KEYVALUE_NOFOUND = -12"
definition INIFILE_SECTION_ALREAD :: int where "INIFILE_SECTION_ALREAD = -13"
definition INIFILE_KEYVALUE_ALREAD :: int where "INIFILE_KEYVALUE_ALREAD = -14"
definition INIFILE_REWRITE_ERROR :: int where "INIFILE_REWRITE_ERROR = -15"

definition STRUCT_NODE_IN_USED :: int where "STRUCT_NODE_IN_USED = 1"
definition STRUCT_NODE_UN_USED :: int where "STRUCT_NODE_UN_USED = 0"
definition INI_FILE_MEMORY_POOL_INTI :: int where "INI_FILE_MEMORY_POOL_INTI = 0"
definition INI_FILE_MEMORY_POOL_BACK :: int where "INI_FILE_MEMORY_POOL_BACK = 1"

lemmas size_defs =
  MAX_OPERATION_FILE_NUM_def MAX_INIFILE_SECTION_NUM_def MAX_KEYVALUE_UNDER_SECTION_def
  INIFILE_KEYVALUE_ARRAY_LEN_def INIFILE_SIZE_SPACE_def INIFILE_MAX_CONTENT_LINELEN_def
  INIFILE_SYSTEM_CMD_LEN_def INIFILE_FILEALL_NAME_LEN_def

lemmas code_defs =
  INIFILE_NO_EXIST_def INIFILE_FORMAT_ERROR_def INIFILE_ERROR_PARAMETER_def
  INIFILE_NUM_OUT_ARRAY_def INIFILE_MEMORY_POOL_ERROR_def INIFILE_MEMORY_POOL_OUT_def
  INIFILE_SECTION_NOFOUND_def INIFILE_KEYVALUE_NOFOUND_def INIFILE_SECTION_ALREAD_def
  INIFILE_KEYVALUE_ALREAD_def INIFILE_REWRITE_ERROR_def

lemmas flag_defs =
  STRUCT_NODE_IN_USED_def STRUCT_NODE_UN_USED_def
  INI_FILE_MEMORY_POOL_INTI_def INI_FILE_MEMORY_POOL_BACK_def

section \<open>The static variables\<close>

datatype pool_region = POOL | BACK_POOL

type_synonym ptr = "pool_region \<times> nat"

record MEMORY_POOL =
  pm_flag :: int
  pm_pool :: string
  pm_back_pool :: string
  pm_current :: "ptr option"
  pm_curr_len :: int

record INI_KEYVALUE =
  kv_flag :: int
  kv_key :: "ptr option"
  kv_value :: "ptr option"
  kv_pre :: "nat option"
  kv_last :: "nat option"

record INI_SETION =
  sec_flag :: int
  sec_sec :: "ptr option"
  sec_head :: "nat option"
  sec_pre :: "nat option"
  sec_last :: "nat option"

record INI_FILE =
  fil_flag :: int
  fil_name :: "ptr option"
  fil_head :: "nat option"

record ini_world =
  pool_mem :: MEMORY_POOL
  ini_array :: "INI_FILE list"
  section_array :: "INI_SETION list"
  keyval_array :: "INI_KEYVALUE list"
  ini_fs :: file_system

definition zero_keyvalue :: INI_KEYVALUE where
  "zero_keyvalue = \<lparr>kv_flag = 0, kv_key = None, kv_value = None, kv_pre = None, kv_last = None\<rparr>"

definition zero_section :: INI_SETION where
  "zero_section = \<lparr>sec_flag = 0, sec_sec = None, sec_head = None, sec_pre = None, sec_last = None\<rparr>"

definition zero_file :: INI_FILE where
  "zero_file = \<lparr>fil_flag = 0, fil_name = None, fil_head = None\<rparr>"

text \<open>The program starts with all static variables zero.\<close>

definition ini_start :: "file_system \<Rightarrow> ini_world" where
  "ini_start fs =
     \<lparr>pool_mem = \<lparr>pm_flag = 0, pm_pool = [], pm_back_pool = [], pm_current = None, pm_curr_len = 0\<rparr>,
      ini_array = replicate MAX_OPERATION_FILE_NUM zero_file,
      section_array = replicate MAX_INIFILE_SECTION_NUM zero_section,
      keyval_array = replicate INIFILE_KEYVALUE_ARRAY_LEN zero_keyvalue,
      ini_fs = fs\<rparr>"

text \<open>\<open>p->field\<close> and \<open>p->field = v\<close> for a pointer \<open>p\<close> into one of the arrays.\<close>

abbreviation kv_at :: "ini_world \<Rightarrow> nat \<Rightarrow> INI_KEYVALUE" where
  "kv_at w k \<equiv> keyval_array w ! k"

abbreviation sec_at :: "ini_world \<Rightarrow> nat \<Rightarrow> INI_SETION" where
  "sec_at w s \<equiv> section_array w ! s"

abbreviation fil_at :: "ini_world \<Rightarrow> nat \<Rightarrow> INI_FILE" where
  "fil_at w f \<equiv> ini_array w ! f"

definition upd_kv :: "nat \<Rightarrow> (INI_KEYVALUE \<Rightarrow> INI_KEYVALUE) \<Rightarrow> ini_world \<Rightarrow> ini_world" where
  "upd_kv k f w = w\<lparr>keyval_array := (keyval_array w)[k := f (kv_at w k)]\<rparr>"

definition upd_sec :: "nat \<Rightarrow> (INI_SETION \<Rightarrow> INI_SETION) \<Rightarrow> ini_world \<Rightarrow> ini_world" where
  "upd_sec s f w = w\<lparr>section_array := (section_array w)[s := f (sec_at w s)]\<rparr>"

definition upd_fil :: "nat \<Rightarrow> (INI_FILE \<Rightarrow> INI_FILE) \<Rightarrow> ini_world \<Rightarrow> ini_world" where
  "upd_fil i f w = w\<lparr>ini_array := (ini_array w)[i := f (fil_at w i)]\<rparr>"

lemma upd_kv_simps [simp]:
  "pool_mem (upd_kv k f w) = pool_mem w"
  "ini_array (upd_kv k f w) = ini_array w"
  "section_array (upd_kv k f w) = section_array w"
  "ini_fs (upd_kv k f w) = ini_fs w"
  "length (keyval_array (upd_kv k f w)) = length (keyval_array w)"
  "keyval_array (upd_kv k f w) = (keyval_array w)[k := f (kv_at w k)]"
  by (auto simp: upd_kv_def)

lemma upd_sec_simps [simp]:
  "pool_mem (upd_sec k g w) = pool_mem w"
  "ini_array (upd_sec k g w) = ini_array w"
  "keyval_array (upd_sec k g w) = keyval_array w"
  "ini_fs (upd_sec k g w) = ini_fs w"
  "length (section_array (upd_sec k g w)) = length (section_array w)"
  "section_array (upd_sec k g w) = (section_array w)[k := g (sec_at w k)]"
  by (auto simp: upd_sec_def)

lemma upd_fil_simps [simp]:
  "pool_mem (upd_fil k h w) = pool_mem w"
  "section_array (upd_fil k h w) = section_array w"
  "keyval_array (upd_fil k h w) = keyval_array w"
  "ini_fs (upd_fil k h w) = ini_fs w"
  "length (ini_array (upd_fil k h w)) = length (ini_array w)"
  "ini_array (upd_fil k h w) = (ini_array w)[k := h (fil_at w k)]"
  by (auto simp: upd_fil_def)

section \<open>Taking a slot\<close>

text \<open>
  The loops of \<^verbatim>\<open>get_index_ini_file\<close>, \<^verbatim>\<open>get_index_ini_section\<close> and \<^verbatim>\<open>get_index_ini_keyvalue\<close>: the
  first element whose flag is \<^verbatim>\<open>STRUCT_NODE_UN_USED\<close> is marked used and its index returned; with
  no such element the result is \<^verbatim>\<open>INIFILE_NUM_OUT_ARRAY\<close>.
\<close>

definition get_index_ini_file :: "ini_world \<Rightarrow> int \<times> ini_world" where
  "get_index_ini_file w =
     (case first_index (\<lambda>f. fil_flag f = STRUCT_NODE_UN_USED) (ini_array w) of
        Some i \<Rightarrow> (int i, upd_fil i (\<lambda>f. f\<lparr>fil_flag := STRUCT_NODE_IN_USED\<rparr>) w)
      | None \<Rightarrow> (INIFILE_NUM_OUT_ARRAY, w))"

definition get_index_ini_section :: "ini_world \<Rightarrow> int \<times> ini_world" where
  "get_index_ini_section w =
     (case first_index (\<lambda>s. sec_flag s = STRUCT_NODE_UN_USED) (section_array w) of
        Some i \<Rightarrow> (int i, upd_sec i (\<lambda>s. s\<lparr>sec_flag := STRUCT_NODE_IN_USED\<rparr>) w)
      | None \<Rightarrow> (INIFILE_NUM_OUT_ARRAY, w))"

definition get_index_ini_keyvalue :: "ini_world \<Rightarrow> int \<times> ini_world" where
  "get_index_ini_keyvalue w =
     (case first_index (\<lambda>k. kv_flag k = STRUCT_NODE_UN_USED) (keyval_array w) of
        Some i \<Rightarrow> (int i, upd_kv i (\<lambda>k. k\<lparr>kv_flag := STRUCT_NODE_IN_USED\<rparr>) w)
      | None \<Rightarrow> (INIFILE_NUM_OUT_ARRAY, w))"

text \<open>
  The contract the callers of a slot search rely on: an array of flags (read off the world), and
  an operation that marks the first free one.
\<close>

locale slot_array =
  fixes flags :: "'w \<Rightarrow> int list"
    and take_slot :: "'w \<Rightarrow> int \<times> 'w"
  assumes take_free: "first_index (\<lambda>x. x = STRUCT_NODE_UN_USED) (flags w) = Some i \<Longrightarrow>
      fst (take_slot w) = int i \<and> flags (snd (take_slot w)) = (flags w)[i := STRUCT_NODE_IN_USED]"
    and take_full: "first_index (\<lambda>x. x = STRUCT_NODE_UN_USED) (flags w) = None \<Longrightarrow>
      take_slot w = (INIFILE_NUM_OUT_ARRAY, w)"
begin

lemma take_slot_cases:
  obtains (full) "take_slot w = (INIFILE_NUM_OUT_ARRAY, w)" "\<forall>x \<in> set (flags w). x \<noteq> STRUCT_NODE_UN_USED"
  | (slot) i w' where "take_slot w = (int i, w')" "i < length (flags w)" "flags w ! i = STRUCT_NODE_UN_USED"
      "\<forall>j < i. flags w ! j \<noteq> STRUCT_NODE_UN_USED" "flags w' = (flags w)[i := STRUCT_NODE_IN_USED]"
proof (cases "first_index (\<lambda>x. x = STRUCT_NODE_UN_USED) (flags w)")
  case None
  then show ?thesis using full take_full by (auto simp: first_index_None)
next
  case (Some i)
  then show ?thesis
    using slot[of i "snd (take_slot w)"] take_free[OF Some] first_index_SomeD[OF Some]
    by (auto simp: prod_eq_iff)
qed

text \<open>A slot that was handed out is never handed out again until it is freed.\<close>

lemma take_slot_fresh:
  assumes "take_slot w = (int i, w')" and "take_slot w' = (int j, w'')"
  shows "i \<noteq> j"
proof -
  have "flags w' ! i = STRUCT_NODE_IN_USED" "i < length (flags w)"
    using assms(1) by (cases rule: take_slot_cases[of w]; auto simp: code_defs)+
  moreover have "flags w' ! j = STRUCT_NODE_UN_USED"
    using assms(2) by (cases rule: take_slot_cases[of w']) (auto simp: code_defs)
  ultimately show ?thesis by (auto simp: flag_defs)
qed

lemma take_slot_negative:
  "fst (take_slot w) < 0 \<longleftrightarrow> (\<forall>x \<in> set (flags w). x \<noteq> STRUCT_NODE_UN_USED)"
proof (cases rule: take_slot_cases[of w])
  case full
  then show ?thesis by (auto simp: code_defs)
next
  case (slot i w')
  then show ?thesis using nth_mem[OF slot(2)] by auto
qed

end

interpretation file_slots: slot_array "\<lambda>w. map fil_flag (ini_array w)" get_index_ini_file
  by unfold_locales (auto simp: get_index_ini_file_def first_index_map map_update)

interpretation section_slots: slot_array "\<lambda>w. map sec_flag (section_array w)" get_index_ini_section
  by unfold_locales (auto simp: get_index_ini_section_def first_index_map map_update)

interpretation keyval_slots: slot_array "\<lambda>w. map kv_flag (keyval_array w)" get_index_ini_keyvalue
  by unfold_locales (auto simp: get_index_ini_keyvalue_def first_index_map map_update)

end
