(* ===== verification/Ini_Pool.thy ===== *)
theory Ini_Pool
  imports Ini_State
begin

text \<open>
  The string pool of \<^verbatim>\<open>v2.0.0/inifile.c\<close>: \<^verbatim>\<open>ini_file_memory_init\<close>, \<^verbatim>\<open>storage_char_memory\<close> and the
  compaction \<^verbatim>\<open>ini_file_memory_adjust\<close>, which copies every string that is reached from the open
  files into the other pool. The pools are modelled byte by byte: nothing in the code writes the
  terminating \<^verbatim>\<open>NUL\<close> of a stored string, so whether a string reads back depends on the bytes
  around it.
\<close>

section \<open>Pool memory\<close>

definition region_bytes :: "MEMORY_POOL \<Rightarrow> pool_region \<Rightarrow> string" where
  "region_bytes pm r = (case r of POOL \<Rightarrow> pm_pool pm | BACK_POOL \<Rightarrow> pm_back_pool pm)"

definition set_region :: "MEMORY_POOL \<Rightarrow> pool_region \<Rightarrow> string \<Rightarrow> MEMORY_POOL" where
  "set_region pm r b = (case r of POOL \<Rightarrow> pm\<lparr>pm_pool := b\<rparr> | BACK_POOL \<Rightarrow> pm\<lparr>pm_back_pool := b\<rparr>)"

text \<open>The bytes behind a pointer, and the C string there.\<close>

definition deref :: "MEMORY_POOL \<Rightarrow> ptr \<Rightarrow> string" where
  "deref pm p = drop (snd p) (region_bytes pm (fst p))"

definition pool_string :: "MEMORY_POOL \<Rightarrow> ptr \<Rightarrow> string" where
  "pool_string pm p = cstr (deref pm p)"

text \<open>\<^verbatim>\<open>memcpy(pool_mem.current, bs, n)\<close>; a write that leaves the pool has no defined result.\<close>

definition pool_memcpy :: "MEMORY_POOL \<Rightarrow> string \<Rightarrow> MEMORY_POOL option" where
  "pool_memcpy pm bs =
     (case pm_current pm of
        None \<Rightarrow> None
      | Some (r, off) \<Rightarrow>
          if off + length bs \<le> INIFILE_SIZE_SPACE
          then Some (set_region pm r (put_bytes (region_bytes pm r) off bs))
          else None)"

text \<open>The same with the source in a pool: \<^verbatim>\<open>memcpy\<close> of overlapping objects is undefined.\<close>

definition overlaps :: "ptr \<Rightarrow> ptr \<Rightarrow> nat \<Rightarrow> bool" where
  "overlaps p q n \<longleftrightarrow> fst p = fst q \<and> snd p < snd q + n \<and> snd q < snd p + n"

definition pool_memcpy_ptr :: "MEMORY_POOL \<Rightarrow> ptr \<Rightarrow> nat \<Rightarrow> MEMORY_POOL option" where
  "pool_memcpy_ptr pm p n =
     (case pm_current pm of
        None \<Rightarrow> None
      | Some d \<Rightarrow> if overlaps d p n then None else pool_memcpy pm (take n (deref pm p)))"

text \<open>\<^verbatim>\<open>pool_mem.current += n\<close>\<close>

definition advance :: "MEMORY_POOL \<Rightarrow> nat \<Rightarrow> MEMORY_POOL" where
  "advance pm n = pm\<lparr>pm_current := map_option (\<lambda>(r, off). (r, off + n)) (pm_current pm)\<rparr>"

definition ini_file_memory_init :: "ini_world \<Rightarrow> ini_world" where
  "ini_file_memory_init w =
     (if pm_current (pool_mem w) = None
      then w\<lparr>pool_mem := (pool_mem w)\<lparr>pm_current := Some (POOL, 0), pm_curr_len := 0\<rparr>\<rparr>
      else w)"

section \<open>Compaction\<close>

text \<open>
  The block that \<^verbatim>\<open>ini_file_memory_adjust\<close> repeats for each of the four string fields: nothing for
  \<^verbatim>\<open>NULL\<close>; otherwise account for the string, give up when the pool is full, copy it to
  \<^verbatim>\<open>current\<close> and redirect the field. The result is the pool, the new field and whether to go on.
\<close>

definition adjust_field :: "MEMORY_POOL \<Rightarrow> ptr option \<Rightarrow> (MEMORY_POOL \<times> ptr option \<times> bool) option" where
  "adjust_field pm f =
     (case f of
        None \<Rightarrow> Some (pm, None, True)
      | Some p \<Rightarrow>
          (let len = str_int_len (Some (deref pm p));
               pm1 = pm\<lparr>pm_curr_len := pm_curr_len pm + (int len + 1)\<rparr>
           in if pm_curr_len pm1 \<ge> int INIFILE_SIZE_SPACE then Some (pm1, Some p, False)
              else do {
                pm2 \<leftarrow> pool_memcpy_ptr pm1 p len;
                Some (advance pm2 (len + 1), pm_current pm2, True)
              }))"

text \<open>\<^verbatim>\<open>while(p_keyval) { ... p_keyval = p_keyval->last; }\<close>\<close>

fun adjust_keyvals :: "nat \<Rightarrow> ini_world \<Rightarrow> nat option \<Rightarrow> (bool \<times> ini_world) option" where
  "adjust_keyvals n w None = Some (True, w)"
| "adjust_keyvals 0 w (Some k) = None"
| "adjust_keyvals (Suc n) w (Some k) = do {
     (pm1, key', ok1) \<leftarrow> adjust_field (pool_mem w) (kv_key (kv_at w k));
     let w1 = upd_kv k (\<lambda>x. x\<lparr>kv_key := key'\<rparr>) (w\<lparr>pool_mem := pm1\<rparr>);
     if \<not> ok1 then Some (False, w1) else do {
       (pm2, value', ok2) \<leftarrow> adjust_field (pool_mem w1) (kv_value (kv_at w1 k));
       let w2 = upd_kv k (\<lambda>x. x\<lparr>kv_value := value'\<rparr>) (w1\<lparr>pool_mem := pm2\<rparr>);
       if \<not> ok2 then Some (False, w2) else adjust_keyvals n w2 (kv_last (kv_at w2 k))
     }
   }"

text \<open>\<^verbatim>\<open>while(p_section) { ... p_section = p_section->last; }\<close>\<close>

fun adjust_sections :: "nat \<Rightarrow> ini_world \<Rightarrow> nat option \<Rightarrow> (bool \<times> ini_world) option" where
  "adjust_sections n w None = Some (True, w)"
| "adjust_sections 0 w (Some s) = None"
| "adjust_sections (Suc n) w (Some s) = do {
     (pm1, sec', ok1) \<leftarrow> adjust_field (pool_mem w) (sec_sec (sec_at w s));
     let w1 = upd_sec s (\<lambda>x. x\<lparr>sec_sec := sec'\<rparr>) (w\<lparr>pool_mem := pm1\<rparr>);
     if \<not> ok1 then Some (False, w1) else do {
       (ok2, w2) \<leftarrow> adjust_keyvals (length (keyval_array w1)) w1 (sec_head (sec_at w1 s));
       if \<not> ok2 then Some (False, w2) else adjust_sections n w2 (sec_last (sec_at w2 s))
     }
   }"

text \<open>
  The loop over the files, with \<open>i\<close> iterations left and \<open>f\<close> the index \<^verbatim>\<open>p_ini_file\<close> stands at:
  only the branch for an unused file advances \<^verbatim>\<open>p_ini_file\<close>.
\<close>

fun adjust_files :: "nat \<Rightarrow> ini_world \<Rightarrow> nat \<Rightarrow> (bool \<times> ini_world) option" where
  "adjust_files 0 w f = Some (True, w)"
| "adjust_files (Suc i) w f =
     (if fil_flag (fil_at w f) = STRUCT_NODE_UN_USED then adjust_files i w (Suc f)
      else do {
        (pm1, name', ok1) \<leftarrow> adjust_field (pool_mem w) (fil_name (fil_at w f));
        let w1 = upd_fil f (\<lambda>x. x\<lparr>fil_name := name'\<rparr>) (w\<lparr>pool_mem := pm1\<rparr>);
        if \<not> ok1 then Some (False, w1) else do {
          (ok2, w2) \<leftarrow> adjust_sections (length (section_array w1)) w1 (fil_head (fil_at w1 f));
          if \<not> ok2 then Some (False, w2) else adjust_files i w2 f
        }
      })"

definition switch_pool :: "MEMORY_POOL \<Rightarrow> MEMORY_POOL" where
  "switch_pool pm =
     (if pm_flag pm = INI_FILE_MEMORY_POOL_INTI
      then pm\<lparr>pm_current := Some (BACK_POOL, 0), pm_curr_len := 0, pm_flag := INI_FILE_MEMORY_POOL_BACK\<rparr>
      else pm\<lparr>pm_current := Some (POOL, 0), pm_curr_len := 0, pm_flag := INI_FILE_MEMORY_POOL_INTI\<rparr>)"

definition ini_file_memory_adjust :: "ini_world \<Rightarrow> (int \<times> ini_world) option" where
  "ini_file_memory_adjust w = do {
     (ok, w') \<leftarrow> adjust_files MAX_OPERATION_FILE_NUM (w\<lparr>pool_mem := switch_pool (pool_mem w)\<rparr>) 0;
     Some (if ok then 0 else INIFILE_MEMORY_POOL_ERROR, w')
   }"

section \<open>Storing a string\<close>

text \<open>
  \<^verbatim>\<open>storage_char_memory(dest, src, len)\<close> with \<open>bs\<close> the \<^verbatim>\<open>len\<close> bytes at \<^verbatim>\<open>src\<close>. The result is the return
  code, the pointer stored through \<^verbatim>\<open>dest\<close> (\<open>None\<close> when nothing is stored) and the new world. The
  pool lock is held throughout.
\<close>

definition store_at_current :: "string \<Rightarrow> ini_world \<Rightarrow> (int \<times> ptr option \<times> ini_world) option" where
  "store_at_current bs w = do {
     pm \<leftarrow> pool_memcpy (pool_mem w) bs;
     Some (0, pm_current pm, w\<lparr>pool_mem := advance pm (length bs + 1)\<rparr>)
   }"

definition account :: "nat \<Rightarrow> ini_world \<Rightarrow> ini_world" where
  "account len w =
     w\<lparr>pool_mem := (pool_mem w)\<lparr>pm_curr_len := pm_curr_len (pool_mem w) + (int len + 1)\<rparr>\<rparr>"

definition storage_char_memory :: "string \<Rightarrow> ini_world \<Rightarrow> (int \<times> ptr option \<times> ini_world) option" where
  "storage_char_memory bs w =
     (let w1 = account (length bs) w
      in if pm_curr_len (pool_mem w1) \<ge> int INIFILE_SIZE_SPACE
         then do {
           (ret, w2) \<leftarrow> ini_file_memory_adjust w1;
           if ret < 0 then Some (ret, None, w2)
           else let w3 = account (length bs) w2
                in if pm_curr_len (pool_mem w3) \<ge> int INIFILE_SIZE_SPACE
                   then Some (INIFILE_MEMORY_POOL_OUT, None, w3)
                   else store_at_current bs w3
         }
         else store_at_current bs w1)"

section \<open>The pool invariant\<close>

text \<open>
  \<open>pool_ok pm\<close>: \<^verbatim>\<open>current\<close> stands in the pool the flag names, at most \<^verbatim>\<open>curr_len\<close> bytes in, both pools
  end in a zero byte, and everything from \<^verbatim>\<open>current\<close> on is zero. A pointer is \<open>safe\<close> when its string
  with its terminator lies before \<^verbatim>\<open>current\<close>, or in the pool that is not being filled.
\<close>

definition active_region :: "MEMORY_POOL \<Rightarrow> pool_region" where
  "active_region pm = (if pm_flag pm = INI_FILE_MEMORY_POOL_INTI then POOL else BACK_POOL)"

definition cur_off :: "MEMORY_POOL \<Rightarrow> nat" where
  "cur_off pm = (case pm_current pm of None \<Rightarrow> 0 | Some p \<Rightarrow> snd p)"

definition pool_bounded :: "MEMORY_POOL \<Rightarrow> bool" where
  "pool_bounded pm \<longleftrightarrow>
     pm_current pm = Some (active_region pm, cur_off pm) \<and>
     int (cur_off pm) \<le> pm_curr_len pm \<and>
     cur_off pm < INIFILE_SIZE_SPACE \<and>
     length (pm_pool pm) < INIFILE_SIZE_SPACE \<and> length (pm_back_pool pm) < INIFILE_SIZE_SPACE"

definition pool_fresh :: "MEMORY_POOL \<Rightarrow> bool" where
  "pool_fresh pm \<longleftrightarrow> length (region_bytes pm (active_region pm)) \<le> cur_off pm"

definition pool_ok :: "MEMORY_POOL \<Rightarrow> bool" where
  "pool_ok pm \<longleftrightarrow> pool_bounded pm \<and> pool_fresh pm"

definition safe_ptr :: "MEMORY_POOL \<Rightarrow> ptr \<Rightarrow> bool" where
  "safe_ptr pm p \<longleftrightarrow>
     fst p \<noteq> active_region pm \<or> snd p + length (pool_string pm p) < cur_off pm"

definition safe_field :: "MEMORY_POOL \<Rightarrow> ptr option \<Rightarrow> bool" where
  "safe_field pm f \<longleftrightarrow> (case f of None \<Rightarrow> True | Some p \<Rightarrow> safe_ptr pm p)"

definition field_string :: "MEMORY_POOL \<Rightarrow> ptr option \<Rightarrow> string option" where
  "field_string pm f = map_option (pool_string pm) f"

text \<open>\<open>extends pm pm'\<close>: every pointer that is safe keeps its string and stays safe.\<close>

definition extends :: "MEMORY_POOL \<Rightarrow> MEMORY_POOL \<Rightarrow> bool" where
  "extends pm pm' \<longleftrightarrow>
     (\<forall>p. safe_ptr pm p \<longrightarrow> safe_ptr pm' p \<and> pool_string pm' p = pool_string pm p)"

lemma extends_refl [simp]: "extends pm pm"
  by (simp add: extends_def)

lemma extends_trans: "extends a b \<Longrightarrow> extends b c \<Longrightarrow> extends a c"
  by (auto simp: extends_def)

lemma extends_field:
  "extends pm pm' \<Longrightarrow> safe_field pm f \<Longrightarrow> safe_field pm' f \<and> field_string pm' f = field_string pm f"
  by (cases f) (auto simp: extends_def safe_field_def field_string_def)

lemma region_bytes_set_region [simp]:
  "region_bytes (set_region pm r b) r' = (if r' = r then b else region_bytes pm r')"
  by (cases r; cases r') (auto simp: region_bytes_def set_region_def)

lemma set_region_simps [simp]:
  "pm_flag (set_region pm r b) = pm_flag pm"
  "pm_current (set_region pm r b) = pm_current pm"
  "pm_curr_len (set_region pm r b) = pm_curr_len pm"
  "active_region (set_region pm r b) = active_region pm"
  "cur_off (set_region pm r b) = cur_off pm"
  by (cases r; auto simp: set_region_def active_region_def cur_off_def)+

lemma region_lengths:
  "length (pm_pool pm) < n \<and> length (pm_back_pool pm) < n \<longleftrightarrow> (\<forall>r. length (region_bytes pm r) < n)"
  by (metis (full_types) pool_region.exhaust pool_region.simps(3,4) region_bytes_def)

lemma set_len_simps [simp]:
  "region_bytes (pm\<lparr>pm_curr_len := n\<rparr>) r = region_bytes pm r"
  "active_region (pm\<lparr>pm_curr_len := n\<rparr>) = active_region pm"
  "cur_off (pm\<lparr>pm_curr_len := n\<rparr>) = cur_off pm"
  "pool_string (pm\<lparr>pm_curr_len := n\<rparr>) p = pool_string pm p"
  "safe_ptr (pm\<lparr>pm_curr_len := n\<rparr>) p = safe_ptr pm p"
  by (auto simp: pool_string_def deref_def region_bytes_def active_region_def cur_off_def
      safe_ptr_def split: pool_region.split)

lemma advance_simps [simp]:
  "pm_flag (advance pm n) = pm_flag pm"
  "pm_curr_len (advance pm n) = pm_curr_len pm"
  "region_bytes (advance pm n) r = region_bytes pm r"
  "pool_string (advance pm n) p = pool_string pm p"
  "active_region (advance pm n) = active_region pm"
  by (auto simp: advance_def active_region_def region_bytes_def pool_string_def deref_def
      split: pool_region.split)

lemma safe_ptr_string_in: "safe_ptr pm p \<Longrightarrow> fst p = active_region pm \<Longrightarrow>
    snd p + length (pool_string pm p) < cur_off pm"
  by (simp add: safe_ptr_def)

text \<open>
  The heart of the pool: putting \<open>bs\<close> at \<^verbatim>\<open>current\<close> with room for it. Nothing faults, the returned
  pointer reads \<open>bs\<close>, and every safe pointer is untouched.
\<close>

lemma pool_put:
  assumes ok: "pool_ok pm" and n: "NUL \<notin> set bs"
    and room: "pm_curr_len pm + (int (length bs) + 1) < int INIFILE_SIZE_SPACE"
    and pm1: "pm1 = pm\<lparr>pm_curr_len := pm_curr_len pm + (int (length bs) + 1)\<rparr>"
  obtains pm2 where "pool_memcpy pm1 bs = Some pm2" "pm_current pm2 = pm_current pm"
    "pool_ok (advance pm2 (length bs + 1))" "extends pm (advance pm2 (length bs + 1))"
    "\<exists>p. pm_current pm = Some p \<and> pool_string (advance pm2 (length bs + 1)) p = bs
        \<and> safe_ptr (advance pm2 (length bs + 1)) p"
    "pm_flag pm2 = pm_flag pm" "\<forall>r. r \<noteq> active_region pm \<longrightarrow> region_bytes pm2 r = region_bytes pm r"
    "pm_curr_len pm2 = pm_curr_len pm + (int (length bs) + 1)"
proof -
  let ?r = "active_region pm" and ?o = "cur_off pm"
  let ?b = "region_bytes pm ?r"
  let ?pm2 = "set_region pm1 ?r (put_bytes ?b ?o bs)"
  let ?pm3 = "advance ?pm2 (length bs + 1)"
  have cur: "pm_current pm = Some (?r, ?o)" and le: "int ?o \<le> pm_curr_len pm"
    and fresh: "length ?b \<le> ?o" and lens: "\<forall>r. length (region_bytes pm r) < INIFILE_SIZE_SPACE"
    using ok by (auto simp: pool_ok_def pool_bounded_def pool_fresh_def region_lengths)
  have pm1s: "pm_current pm1 = pm_current pm" "region_bytes pm1 = region_bytes pm"
    "active_region pm1 = ?r" "cur_off pm1 = ?o" "pm_flag pm1 = pm_flag pm"
    using pm1 by (auto simp: region_bytes_def active_region_def cur_off_def fun_eq_iff
        split: pool_region.split)
  have bound: "?o + (length bs + 1) < INIFILE_SIZE_SPACE" using room le by linarith
  have memcpy: "pool_memcpy pm1 bs = Some ?pm2"
    using bound cur pm1s by (simp add: pool_memcpy_def)
  have cur3: "pm_current ?pm3 = Some (?r, ?o + (length bs + 1))"
    using cur pm1s by (simp add: advance_def)
  have off3: "cur_off ?pm3 = ?o + (length bs + 1)"
    using cur3 by (simp add: cur_off_def)
  have bytes3: "region_bytes ?pm3 r = (if r = ?r then put_bytes ?b ?o bs else region_bytes pm r)" for r
    by (simp add: pm1s)
  have act3: "active_region ?pm3 = ?r" by (simp add: pm1s)
  have len3: "pm_curr_len ?pm3 = pm_curr_len pm + (int (length bs) + 1)" by (simp add: pm1)
  have str3: "pool_string ?pm3 p = cstr (drop (snd p) (region_bytes ?pm3 (fst p)))" for p
    by (simp add: pool_string_def deref_def)
  have own: "pool_string ?pm3 (?r, ?o) = bs"
    using n fresh by (simp add: pool_string_def deref_def pm1s cstr_put_bytes_same)
  have ok3: "pool_ok ?pm3"
    unfolding pool_ok_def pool_bounded_def pool_fresh_def region_lengths act3 off3 cur3 bytes3 len3
    using bound lens fresh room le by auto
  have ext: "extends pm ?pm3"
    unfolding extends_def
  proof (intro allI impI)
    fix p assume p: "safe_ptr pm p"
    have "pool_string ?pm3 p = pool_string pm p"
    proof (cases "fst p = ?r")
      case True
      with p have "snd p + length (cstr (drop (snd p) ?b)) < ?o"
        by (simp add: safe_ptr_def pool_string_def deref_def)
      with True show ?thesis
        unfolding str3 bytes3 by (simp add: pool_string_def deref_def cstr_put_bytes_before)
    next
      case False
      then show ?thesis unfolding str3 bytes3 by (simp add: pool_string_def deref_def)
    qed
    then show "safe_ptr ?pm3 p \<and> pool_string ?pm3 p = pool_string pm p"
      using p act3 off3 unfolding safe_ptr_def by (auto simp: pool_string_def deref_def)
  qed
  have safe: "safe_ptr ?pm3 (?r, ?o)"
    using own act3 off3 unfolding safe_ptr_def by simp
  show thesis
    by (rule that[OF memcpy])
       (use ok3 ext own safe cur pm1s in \<open>auto simp: pm1\<close>)
qed

section \<open>The world seen through its strings\<close>

text \<open>
  The view of a world replaces every string pointer by the string it reads. What the program
  means by its state is the view; compaction must not change it.
\<close>

definition file_view :: "MEMORY_POOL \<Rightarrow> INI_FILE \<Rightarrow> int \<times> string option \<times> nat option" where
  "file_view pm f = (fil_flag f, field_string pm (fil_name f), fil_head f)"

definition section_view ::
  "MEMORY_POOL \<Rightarrow> INI_SETION \<Rightarrow> int \<times> string option \<times> nat option \<times> nat option \<times> nat option" where
  "section_view pm s = (sec_flag s, field_string pm (sec_sec s), sec_head s, sec_pre s, sec_last s)"

definition keyval_view ::
  "MEMORY_POOL \<Rightarrow> INI_KEYVALUE \<Rightarrow> int \<times> string option \<times> string option \<times> nat option \<times> nat option" where
  "keyval_view pm k =
     (kv_flag k, field_string pm (kv_key k), field_string pm (kv_value k), kv_pre k, kv_last k)"

definition same_view :: "ini_world \<Rightarrow> ini_world \<Rightarrow> bool" where
  "same_view w w' \<longleftrightarrow>
     map (file_view (pool_mem w')) (ini_array w') = map (file_view (pool_mem w)) (ini_array w) \<and>
     map (section_view (pool_mem w')) (section_array w') = map (section_view (pool_mem w)) (section_array w) \<and>
     map (keyval_view (pool_mem w')) (keyval_array w') = map (keyval_view (pool_mem w)) (keyval_array w) \<and>
     ini_fs w' = ini_fs w"

definition fields_safe :: "ini_world \<Rightarrow> bool" where
  "fields_safe w \<longleftrightarrow>
     (\<forall>f \<in> set (ini_array w). safe_field (pool_mem w) (fil_name f)) \<and>
     (\<forall>s \<in> set (section_array w). safe_field (pool_mem w) (sec_sec s)) \<and>
     (\<forall>k \<in> set (keyval_array w). safe_field (pool_mem w) (kv_key k) \<and> safe_field (pool_mem w) (kv_value k))"

definition world_ok :: "ini_world \<Rightarrow> bool" where
  "world_ok w \<longleftrightarrow> pool_ok (pool_mem w) \<and> fields_safe w"

text \<open>The lists that the walks follow end, and stay inside the arrays.\<close>

abbreviation kv_nxt :: "ini_world \<Rightarrow> nat \<Rightarrow> nat option" where
  "kv_nxt w k \<equiv> kv_last (kv_at w k)"

abbreviation sec_nxt :: "ini_world \<Rightarrow> nat \<Rightarrow> nat option" where
  "sec_nxt w s \<equiv> sec_last (sec_at w s)"

definition kv_list :: "ini_world \<Rightarrow> nat option \<Rightarrow> nat list \<Rightarrow> bool" where
  "kv_list w p ks \<longleftrightarrow> chain (kv_nxt w) p ks \<and> set ks \<subseteq> {..<length (keyval_array w)}"

definition sec_list :: "ini_world \<Rightarrow> nat option \<Rightarrow> nat list \<Rightarrow> bool" where
  "sec_list w p ss \<longleftrightarrow> chain (sec_nxt w) p ss \<and> set ss \<subseteq> {..<length (section_array w)} \<and>
     (\<forall>s \<in> set ss. \<exists>ks. kv_list w (sec_head (sec_at w s)) ks)"

definition walkable :: "ini_world \<Rightarrow> bool" where
  "walkable w \<longleftrightarrow> length (ini_array w) = MAX_OPERATION_FILE_NUM \<and>
     (\<forall>f < length (ini_array w). \<exists>ss. sec_list w (fil_head (fil_at w f)) ss)"

text \<open>\<open>moved w w'\<close>: only string pointers changed, and they read the same strings.\<close>

definition moved :: "ini_world \<Rightarrow> ini_world \<Rightarrow> bool" where
  "moved w w' \<longleftrightarrow>
     (world_ok w \<longrightarrow> world_ok w' \<and> same_view w w' \<and>
        pm_flag (pool_mem w') = pm_flag (pool_mem w) \<and>
        (\<forall>r. r \<noteq> active_region (pool_mem w) \<longrightarrow>
             region_bytes (pool_mem w') r = region_bytes (pool_mem w) r))"

lemma moved_refl [simp]: "moved w w"
  by (simp add: moved_def same_view_def)

lemma moved_trans: "moved a b \<Longrightarrow> moved b c \<Longrightarrow> moved a c"
  by (auto simp: moved_def same_view_def active_region_def)

lemma map_eq_nthD: "map f xs = map g ys \<Longrightarrow> i < length ys \<Longrightarrow> f (xs ! i) = g (ys ! i)"
  by (metis length_map nth_map)

lemma same_view_kv:
  assumes "same_view w w'" and "k < length (keyval_array w)"
  shows "keyval_view (pool_mem w') (kv_at w' k) = keyval_view (pool_mem w) (kv_at w k)"
  using assms by (auto simp: same_view_def intro: map_eq_nthD)

lemma same_view_sec:
  assumes "same_view w w'" and "s < length (section_array w)"
  shows "section_view (pool_mem w') (sec_at w' s) = section_view (pool_mem w) (sec_at w s)"
  using assms by (auto simp: same_view_def intro: map_eq_nthD)

lemma same_view_fil:
  assumes "same_view w w'" and "f < length (ini_array w)"
  shows "file_view (pool_mem w') (fil_at w' f) = file_view (pool_mem w) (fil_at w f)"
  using assms by (auto simp: same_view_def intro: map_eq_nthD)

lemma same_view_lengths:
  assumes "same_view w w'"
  shows "length (ini_array w') = length (ini_array w)"
    "length (section_array w') = length (section_array w)"
    "length (keyval_array w') = length (keyval_array w)"
  using assms by (auto simp: same_view_def dest: map_eq_imp_length_eq)

lemma same_view_kv_list:
  assumes "same_view w w'" shows "kv_list w' p ks \<longleftrightarrow> kv_list w p ks"
proof (cases "set ks \<subseteq> {..<length (keyval_array w)}")
  case True
  then have "\<And>k. k \<in> set ks \<Longrightarrow> kv_nxt w' k = kv_nxt w k"
    using same_view_kv[OF assms] by (auto simp: keyval_view_def)
  then show ?thesis
    using chain_cong[of ks "kv_nxt w'" "kv_nxt w"] same_view_lengths[OF assms]
    by (simp add: kv_list_def)
qed (auto simp: kv_list_def same_view_lengths[OF assms])

lemma same_view_sec_list:
  assumes "same_view w w'" shows "sec_list w' p ss \<longleftrightarrow> sec_list w p ss"
proof (cases "set ss \<subseteq> {..<length (section_array w)}")
  case True
  then have *: "\<And>s. s \<in> set ss \<Longrightarrow> sec_nxt w' s = sec_nxt w s \<and> sec_head (sec_at w' s) = sec_head (sec_at w s)"
    using same_view_sec[OF assms] by (auto simp: section_view_def)
  then show ?thesis
    using chain_cong[of ss "sec_nxt w'" "sec_nxt w"] same_view_lengths[OF assms]
      same_view_kv_list[OF assms]
    by (simp add: sec_list_def cong: ball_cong)
qed (auto simp: sec_list_def same_view_lengths[OF assms])

lemma same_view_walkable:
  assumes "same_view w w'" shows "walkable w' \<longleftrightarrow> walkable w"
  using same_view_fil[OF assms] same_view_lengths[OF assms] same_view_sec_list[OF assms]
  by (auto simp: walkable_def file_view_def)

section \<open>Compaction keeps every string\<close>

lemma adjust_field_ok:
  assumes ok: "pool_ok pm" and safe: "safe_field pm f"
  obtains pm' f' b where "adjust_field pm f = Some (pm', f', b)" "pool_ok pm'" "extends pm pm'"
    "safe_field pm' f'" "field_string pm' f' = field_string pm f" "pm_flag pm' = pm_flag pm"
    "\<forall>r. r \<noteq> active_region pm \<longrightarrow> region_bytes pm' r = region_bytes pm r"
proof (cases f)
  case None
  with that[of pm None True] ok show ?thesis
    by (simp add: adjust_field_def safe_field_def)
next
  case (Some p)
  let ?s = "pool_string pm p"
  let ?pm1 = "pm\<lparr>pm_curr_len := pm_curr_len pm + (int (length ?s) + 1)\<rparr>"
  have sp: "safe_ptr pm p" using safe Some by (simp add: safe_field_def)
  show ?thesis
  proof (cases "pm_curr_len pm + (int (length ?s) + 1) < int INIFILE_SIZE_SPACE")
    case True
    obtain pm2 where pm2: "pool_memcpy ?pm1 ?s = Some pm2" "pm_current pm2 = pm_current pm"
      "pool_ok (advance pm2 (length ?s + 1))" "extends pm (advance pm2 (length ?s + 1))"
      "\<exists>q. pm_current pm = Some q \<and> pool_string (advance pm2 (length ?s + 1)) q = ?s
          \<and> safe_ptr (advance pm2 (length ?s + 1)) q"
      "pm_flag pm2 = pm_flag pm"
      "\<forall>r. r \<noteq> active_region pm \<longrightarrow> region_bytes pm2 r = region_bytes pm r"
      by (rule pool_put[OF ok _ True refl, of thesis]) (auto simp: pool_string_def)
    then obtain q where q: "pm_current pm = Some q" by blast
    have "q = (active_region pm, cur_off pm)"
      using ok q by (simp add: pool_ok_def pool_bounded_def)
    then have no: "\<not> overlaps q p (length ?s)"
      using sp by (cases p) (auto simp: overlaps_def safe_ptr_def)
    have deref1: "deref ?pm1 p = deref pm p"
      by (auto simp: deref_def region_bytes_def split: pool_region.split)
    have "take (length ?s) (deref pm p) = ?s"
      by (simp add: pool_string_def cstr_def flip: takeWhile_eq_take)
    then have "pool_memcpy_ptr ?pm1 p (length ?s) = Some pm2"
      using q no pm2(1) deref1 by (simp add: pool_memcpy_ptr_def)
    moreover have "str_int_len (Some (deref pm p)) = length ?s"
      by (simp add: pool_string_def)
    ultimately have "adjust_field pm f = Some (advance pm2 (length ?s + 1), Some q, True)"
      using Some True q pm2(2) by (simp add: adjust_field_def Let_def del: str_int_len_Some)
    from that[OF this] pm2 q Some show ?thesis
      by (auto simp: safe_field_def field_string_def)
  next
    case False
    have "adjust_field pm f = Some (?pm1, Some p, False)"
      using Some False by (simp add: adjust_field_def pool_string_def)
    moreover have "pool_ok ?pm1"
      using ok by (auto simp: pool_ok_def pool_bounded_def pool_fresh_def active_region_def
          cur_off_def region_bytes_def split: pool_region.split)
    ultimately show ?thesis
      using that[of ?pm1 "Some p" False] sp Some
      by (simp add: extends_def safe_field_def field_string_def)
  qed
qed

text \<open>Changing the pool under all fields, and then redirecting one field.\<close>

lemma moved_pool:
  assumes "pool_ok (pool_mem w) \<Longrightarrow> pool_ok pm' \<and> extends (pool_mem w) pm' \<and>
      pm_flag pm' = pm_flag (pool_mem w) \<and>
      (\<forall>r. r \<noteq> active_region (pool_mem w) \<longrightarrow> region_bytes pm' r = region_bytes (pool_mem w) r)"
  shows "moved w (w\<lparr>pool_mem := pm'\<rparr>)"
proof -
  { assume w: "world_ok w"
    then have ext: "extends (pool_mem w) pm'" using assms by (simp add: world_ok_def)
    have "fields_safe (w\<lparr>pool_mem := pm'\<rparr>)" "same_view w (w\<lparr>pool_mem := pm'\<rparr>)"
      using w extends_field[OF ext]
      by (auto simp: world_ok_def fields_safe_def same_view_def file_view_def section_view_def
          keyval_view_def)
  }
  then show ?thesis using assms by (auto simp: moved_def world_ok_def)
qed

lemma moved_upd_kv:
  assumes "safe_field (pool_mem w) f'"
    and "field_string (pool_mem w) f' = field_string (pool_mem w) (kv_key (kv_at w k))"
  shows "moved w (upd_kv k (\<lambda>x. x\<lparr>kv_key := f'\<rparr>) w)"
proof (cases "k < length (keyval_array w)")
  case True
  then have "keyval_view (pool_mem w) ((kv_at w k)\<lparr>kv_key := f'\<rparr>) = keyval_view (pool_mem w) (kv_at w k)"
    using assms(2) by (simp add: keyval_view_def)
  then show ?thesis
    using assms True
    by (auto simp: moved_def world_ok_def fields_safe_def same_view_def map_update list_update_same_conv
        dest!: set_update_subset_insert[THEN subsetD])
qed (simp add: upd_kv_def list_update_beyond)

lemma moved_upd_kv_value:
  assumes "safe_field (pool_mem w) f'"
    and "field_string (pool_mem w) f' = field_string (pool_mem w) (kv_value (kv_at w k))"
  shows "moved w (upd_kv k (\<lambda>x. x\<lparr>kv_value := f'\<rparr>) w)"
proof (cases "k < length (keyval_array w)")
  case True
  then have "keyval_view (pool_mem w) ((kv_at w k)\<lparr>kv_value := f'\<rparr>) = keyval_view (pool_mem w) (kv_at w k)"
    using assms(2) by (simp add: keyval_view_def)
  then show ?thesis
    using assms True
    by (auto simp: moved_def world_ok_def fields_safe_def same_view_def map_update list_update_same_conv
        dest!: set_update_subset_insert[THEN subsetD])
qed (simp add: upd_kv_def list_update_beyond)

lemma moved_upd_sec:
  assumes "safe_field (pool_mem w) f'"
    and "field_string (pool_mem w) f' = field_string (pool_mem w) (sec_sec (sec_at w k))"
  shows "moved w (upd_sec k (\<lambda>x. x\<lparr>sec_sec := f'\<rparr>) w)"
proof (cases "k < length (section_array w)")
  case True
  then have "section_view (pool_mem w) ((sec_at w k)\<lparr>sec_sec := f'\<rparr>) = section_view (pool_mem w) (sec_at w k)"
    using assms(2) by (simp add: section_view_def)
  then show ?thesis
    using assms True
    by (auto simp: moved_def world_ok_def fields_safe_def same_view_def map_update list_update_same_conv
        dest!: set_update_subset_insert[THEN subsetD])
qed (simp add: upd_sec_def list_update_beyond)

lemma moved_upd_fil:
  assumes "safe_field (pool_mem w) f'"
    and "field_string (pool_mem w) f' = field_string (pool_mem w) (fil_name (fil_at w k))"
  shows "moved w (upd_fil k (\<lambda>x. x\<lparr>fil_name := f'\<rparr>) w)"
proof (cases "k < length (ini_array w)")
  case True
  then have "file_view (pool_mem w) ((fil_at w k)\<lparr>fil_name := f'\<rparr>) = file_view (pool_mem w) (fil_at w k)"
    using assms(2) by (simp add: file_view_def)
  then show ?thesis
    using assms True
    by (auto simp: moved_def world_ok_def fields_safe_def same_view_def map_update list_update_same_conv
        dest!: set_update_subset_insert[THEN subsetD])
qed (simp add: upd_fil_def list_update_beyond)

lemma moved_world: "moved w w' \<Longrightarrow> world_ok w \<Longrightarrow> world_ok w' \<and> same_view w w'"
  by (simp add: moved_def)

lemma adjust_keyvals_moved:
  assumes "world_ok w" and "kv_list w p ks" and "length ks \<le> n"
  shows "\<exists>b w'. adjust_keyvals n w p = Some (b, w') \<and> moved w w'"
  using assms
proof (induction ks arbitrary: n w p)
  case Nil
  then show ?case by (auto simp: kv_list_def)
next
  case (Cons k ks)
  then obtain m where n: "n = Suc m" by (cases n) auto
  have p: "p = Some k" and k: "k < length (keyval_array w)"
    using Cons.prems(2) by (auto simp: kv_list_def)
  have pok: "pool_ok (pool_mem w)" and sf: "safe_field (pool_mem w) (kv_key (kv_at w k))"
    using Cons.prems(1) k by (auto simp: world_ok_def fields_safe_def)
  obtain pm1 key' ok1 where a1: "adjust_field (pool_mem w) (kv_key (kv_at w k)) = Some (pm1, key', ok1)"
    and e1: "pool_ok pm1" "extends (pool_mem w) pm1" "safe_field pm1 key'"
      "field_string pm1 key' = field_string (pool_mem w) (kv_key (kv_at w k))" "pm_flag pm1 = pm_flag (pool_mem w)"
      "\<forall>r. r \<noteq> active_region (pool_mem w) \<longrightarrow> region_bytes pm1 r = region_bytes (pool_mem w) r"
    by (rule adjust_field_ok[OF pok sf])
  define v1 where "v1 = w\<lparr>pool_mem := pm1\<rparr>"
  define w1 where "w1 = upd_kv k (\<lambda>x. x\<lparr>kv_key := key'\<rparr>) v1"
  have "moved w v1" unfolding v1_def by (rule moved_pool) (use e1 in auto)
  moreover have "moved v1 w1"
    unfolding w1_def
    by (rule moved_upd_kv) (use e1 extends_field[OF e1(2) sf] in \<open>auto simp: v1_def\<close>)
  ultimately have m1: "moved w w1" by (rule moved_trans)
  then have ok_w1: "world_ok w1" and sv1: "same_view w w1" using Cons.prems(1) moved_world by auto
  have kv1: "kv_value (kv_at w1 k) = kv_value (kv_at w k)" using k by (simp add: w1_def v1_def)
  have k1: "k < length (keyval_array w1)" using k by (simp add: w1_def v1_def)
  have pok1: "pool_ok (pool_mem w1)" and sf1: "safe_field (pool_mem w1) (kv_value (kv_at w1 k))"
    using ok_w1 k1 by (auto simp: world_ok_def fields_safe_def)
  obtain pm2 value' ok2 where a2: "adjust_field (pool_mem w1) (kv_value (kv_at w1 k)) = Some (pm2, value', ok2)"
    and e2: "pool_ok pm2" "extends (pool_mem w1) pm2" "safe_field pm2 value'"
      "field_string pm2 value' = field_string (pool_mem w1) (kv_value (kv_at w1 k))" "pm_flag pm2 = pm_flag (pool_mem w1)"
      "\<forall>r. r \<noteq> active_region (pool_mem w1) \<longrightarrow> region_bytes pm2 r = region_bytes (pool_mem w1) r"
    by (rule adjust_field_ok[OF pok1 sf1])
  define v2 where "v2 = w1\<lparr>pool_mem := pm2\<rparr>"
  define w2 where "w2 = upd_kv k (\<lambda>x. x\<lparr>kv_value := value'\<rparr>) v2"
  have "moved w1 v2" unfolding v2_def by (rule moved_pool) (use e2 in auto)
  moreover have "moved v2 w2"
    unfolding w2_def
    by (rule moved_upd_kv_value) (use e2 extends_field[OF e2(2) sf1] in \<open>auto simp: v2_def\<close>)
  ultimately have m2: "moved w w2" using m1 moved_trans by blast
  then have ok_w2: "world_ok w2" and sv2: "same_view w w2" using Cons.prems(1) moved_world by auto
  have "kv_list w2 (kv_nxt w k) ks"
    using Cons.prems(2) same_view_kv_list[OF sv2] by (auto simp: kv_list_def)
  moreover have "kv_nxt w2 k = kv_nxt w k"
    using same_view_kv[OF sv2 k] by (simp add: keyval_view_def)
  ultimately have "kv_list w2 (kv_nxt w2 k) ks" by simp
  from Cons.IH[OF ok_w2 this, of m] Cons.prems(3) n
  obtain b w' where "adjust_keyvals m w2 (kv_nxt w2 k) = Some (b, w')" "moved w2 w'" by auto
  moreover have "adjust_keyvals n w p =
      (if \<not> ok1 then Some (False, w1) else if \<not> ok2 then Some (False, w2)
       else adjust_keyvals m w2 (kv_nxt w2 k))"
    using a1 a2 unfolding n p w2_def v2_def w1_def v1_def by (simp add: Let_def)
  ultimately show ?case
    using m1 m2 moved_trans[OF m2, of w'] by (cases ok1; cases ok2) auto
qed

lemma kv_list_length: "kv_list w p ks \<Longrightarrow> length ks \<le> length (keyval_array w)"
  by (auto simp: kv_list_def intro: chain_length_le)

lemma sec_list_length: "sec_list w p ss \<Longrightarrow> length ss \<le> length (section_array w)"
  by (auto simp: sec_list_def intro: chain_length_le)

lemma adjust_sections_moved:
  assumes "world_ok w" and "sec_list w p ss" and "length ss \<le> n"
  shows "\<exists>b w'. adjust_sections n w p = Some (b, w') \<and> moved w w'"
  using assms
proof (induction ss arbitrary: n w p)
  case Nil
  then show ?case by (auto simp: sec_list_def)
next
  case (Cons s ss)
  then obtain m where n: "n = Suc m" by (cases n) auto
  have p: "p = Some s" and s: "s < length (section_array w)"
    using Cons.prems(2) by (auto simp: sec_list_def)
  have pok: "pool_ok (pool_mem w)" and sf: "safe_field (pool_mem w) (sec_sec (sec_at w s))"
    using Cons.prems(1) s by (auto simp: world_ok_def fields_safe_def)
  obtain pm1 sec' ok1 where a1: "adjust_field (pool_mem w) (sec_sec (sec_at w s)) = Some (pm1, sec', ok1)"
    and e1: "pool_ok pm1" "extends (pool_mem w) pm1" "safe_field pm1 sec'"
      "field_string pm1 sec' = field_string (pool_mem w) (sec_sec (sec_at w s))" "pm_flag pm1 = pm_flag (pool_mem w)"
      "\<forall>r. r \<noteq> active_region (pool_mem w) \<longrightarrow> region_bytes pm1 r = region_bytes (pool_mem w) r"
    by (rule adjust_field_ok[OF pok sf])
  define v1 where "v1 = w\<lparr>pool_mem := pm1\<rparr>"
  define w1 where "w1 = upd_sec s (\<lambda>x. x\<lparr>sec_sec := sec'\<rparr>) v1"
  have "moved w v1" unfolding v1_def by (rule moved_pool) (use e1 in auto)
  moreover have "moved v1 w1"
    unfolding w1_def
    by (rule moved_upd_sec) (use e1 extends_field[OF e1(2) sf] in \<open>auto simp: v1_def\<close>)
  ultimately have m1: "moved w w1" by (rule moved_trans)
  then have ok_w1: "world_ok w1" and sv1: "same_view w w1" using Cons.prems(1) moved_world by auto
  have h1: "sec_head (sec_at w1 s) = sec_head (sec_at w s)" using s by (simp add: w1_def v1_def)
  obtain ks where ks: "kv_list w1 (sec_head (sec_at w1 s)) ks"
    using Cons.prems(2) same_view_kv_list[OF sv1] h1 by (auto simp: sec_list_def)
  obtain ok2 w2 where a2: "adjust_keyvals (length (keyval_array w1)) w1 (sec_head (sec_at w1 s)) = Some (ok2, w2)"
    and "moved w1 w2"
    using adjust_keyvals_moved[OF ok_w1 ks kv_list_length[OF ks]] by auto
  then have m2: "moved w w2" using m1 moved_trans by blast
  then have ok_w2: "world_ok w2" and sv2: "same_view w w2" using Cons.prems(1) moved_world by auto
  have "sec_list w2 (sec_nxt w s) ss"
    using Cons.prems(2) same_view_sec_list[OF sv2] by (auto simp: sec_list_def)
  moreover have "sec_nxt w2 s = sec_nxt w s"
    using same_view_sec[OF sv2 s] by (simp add: section_view_def)
  ultimately have "sec_list w2 (sec_nxt w2 s) ss" by simp
  from Cons.IH[OF ok_w2 this, of m] Cons.prems(3) n
  obtain b w' where "adjust_sections m w2 (sec_nxt w2 s) = Some (b, w')" "moved w2 w'" by auto
  moreover have "adjust_sections n w p =
      (if \<not> ok1 then Some (False, w1) else if \<not> ok2 then Some (False, w2)
       else adjust_sections m w2 (sec_nxt w2 s))"
    using a1 a2 unfolding n p w1_def v1_def by (simp add: Let_def)
  ultimately show ?case
    using m1 m2 moved_trans[OF m2, of w'] by (cases ok1; cases ok2) auto
qed

lemma adjust_files_moved:
  assumes "world_ok w" and "walkable w" and "f + i \<le> MAX_OPERATION_FILE_NUM"
  shows "\<exists>b w'. adjust_files i w f = Some (b, w') \<and> moved w w'"
  using assms
proof (induction i arbitrary: w f)
  case 0
  then show ?case by auto
next
  case (Suc i)
  have f: "f < length (ini_array w)"
    using Suc.prems(2,3) by (simp add: walkable_def)
  show ?case
  proof (cases "fil_flag (fil_at w f) = STRUCT_NODE_UN_USED")
    case True
    then show ?thesis using Suc.IH[OF Suc.prems(1,2), of "Suc f"] Suc.prems(3) by simp
  next
    case False
    have pok: "pool_ok (pool_mem w)" and sf: "safe_field (pool_mem w) (fil_name (fil_at w f))"
      using Suc.prems(1) f by (auto simp: world_ok_def fields_safe_def)
    obtain pm1 name' ok1 where a1: "adjust_field (pool_mem w) (fil_name (fil_at w f)) = Some (pm1, name', ok1)"
      and e1: "pool_ok pm1" "extends (pool_mem w) pm1" "safe_field pm1 name'"
        "field_string pm1 name' = field_string (pool_mem w) (fil_name (fil_at w f))" "pm_flag pm1 = pm_flag (pool_mem w)"
        "\<forall>r. r \<noteq> active_region (pool_mem w) \<longrightarrow> region_bytes pm1 r = region_bytes (pool_mem w) r"
      by (rule adjust_field_ok[OF pok sf])
    define v1 where "v1 = w\<lparr>pool_mem := pm1\<rparr>"
    define w1 where "w1 = upd_fil f (\<lambda>x. x\<lparr>fil_name := name'\<rparr>) v1"
    have "moved w v1" unfolding v1_def by (rule moved_pool) (use e1 in auto)
    moreover have "moved v1 w1"
      unfolding w1_def
      by (rule moved_upd_fil) (use e1 extends_field[OF e1(2) sf] in \<open>auto simp: v1_def\<close>)
    ultimately have m1: "moved w w1" by (rule moved_trans)
    then have ok_w1: "world_ok w1" and sv1: "same_view w w1" using Suc.prems(1) moved_world by auto
    have "walkable w1" using same_view_walkable[OF sv1] Suc.prems(2) by simp
    then obtain ss where ss: "sec_list w1 (fil_head (fil_at w1 f)) ss"
      using f by (auto simp: walkable_def w1_def v1_def)
    obtain ok2 w2 where a2: "adjust_sections (length (section_array w1)) w1 (fil_head (fil_at w1 f)) = Some (ok2, w2)"
      and "moved w1 w2"
      using adjust_sections_moved[OF ok_w1 ss sec_list_length[OF ss]] by auto
    then have m2: "moved w w2" using m1 moved_trans by blast
    then have ok_w2: "world_ok w2" and sv2: "same_view w w2" using Suc.prems(1) moved_world by auto
    have "walkable w2" using same_view_walkable[OF sv2] Suc.prems(2) by simp
    then obtain b w' where "adjust_files i w2 f = Some (b, w')" "moved w2 w'"
      using Suc.IH[OF ok_w2, of f] Suc.prems(3) by fastforce
    moreover have "adjust_files (Suc i) w f =
        (if \<not> ok1 then Some (False, w1) else if \<not> ok2 then Some (False, w2)
         else adjust_files i w2 f)"
      using False a1 a2 unfolding w1_def v1_def by (simp add: Let_def)
    ultimately show ?thesis
      using m1 m2 moved_trans[OF m2, of w'] by (cases ok1; cases ok2) auto
  qed
qed

section \<open>The invariant between storage calls\<close>

text \<open>
  Until the first compaction the back pool is untouched and every string lives in \<^verbatim>\<open>pool\<close>. After
  it, strings of both pools may be in use, and a second compaction would copy into a pool that
  still holds some of them: \<open>room\<close> excludes it.
\<close>

definition live_ptr :: "MEMORY_POOL \<Rightarrow> ptr \<Rightarrow> bool" where
  "live_ptr pm p \<longleftrightarrow> safe_ptr pm p \<and> (pm_flag pm = INI_FILE_MEMORY_POOL_INTI \<longrightarrow> fst p = POOL)"

definition live_field :: "MEMORY_POOL \<Rightarrow> ptr option \<Rightarrow> bool" where
  "live_field pm f \<longleftrightarrow> (case f of None \<Rightarrow> True | Some p \<Rightarrow> live_ptr pm p)"

definition fields_live :: "ini_world \<Rightarrow> bool" where
  "fields_live w \<longleftrightarrow>
     (\<forall>f \<in> set (ini_array w). live_field (pool_mem w) (fil_name f)) \<and>
     (\<forall>s \<in> set (section_array w). live_field (pool_mem w) (sec_sec s)) \<and>
     (\<forall>k \<in> set (keyval_array w). live_field (pool_mem w) (kv_key k) \<and> live_field (pool_mem w) (kv_value k))"

definition store_inv :: "ini_world \<Rightarrow> bool" where
  "store_inv w \<longleftrightarrow>
     pool_ok (pool_mem w) \<and> fields_live w \<and> walkable w \<and>
     (pm_flag (pool_mem w) = INI_FILE_MEMORY_POOL_INTI \<longrightarrow> pm_back_pool (pool_mem w) = [])"

definition room :: "string \<Rightarrow> ini_world \<Rightarrow> bool" where
  "room bs w \<longleftrightarrow>
     pm_flag (pool_mem w) = INI_FILE_MEMORY_POOL_INTI \<or>
     pm_curr_len (pool_mem w) + (int (length bs) + 1) < int INIFILE_SIZE_SPACE"

text \<open>\<open>fits\<close>: the string goes into the active pool without compaction.\<close>

definition fits :: "nat \<Rightarrow> ini_world \<Rightarrow> bool" where
  "fits n w \<longleftrightarrow> pm_curr_len (pool_mem w) + (int n + 1) < int INIFILE_SIZE_SPACE"

lemma live_imp_safe_field: "live_field pm f \<Longrightarrow> safe_field pm f"
  by (auto simp: live_field_def safe_field_def live_ptr_def split: option.splits)

lemma store_inv_world_ok: "store_inv w \<Longrightarrow> world_ok w"
  by (auto simp: store_inv_def world_ok_def fields_safe_def fields_live_def intro: live_imp_safe_field)

lemma switch_pool_inti:
  assumes "pm_flag pm = INI_FILE_MEMORY_POOL_INTI"
  shows "active_region (switch_pool pm) = BACK_POOL" "cur_off (switch_pool pm) = 0"
    "pm_current (switch_pool pm) = Some (BACK_POOL, 0)" "pm_curr_len (switch_pool pm) = 0"
    "region_bytes (switch_pool pm) r = region_bytes pm r" "pool_string (switch_pool pm) p = pool_string pm p"
    "pm_flag (switch_pool pm) = INI_FILE_MEMORY_POOL_BACK"
  using assms
  by (auto simp: switch_pool_def active_region_def cur_off_def flag_defs region_bytes_def
      pool_string_def deref_def split: pool_region.split)

lemma switch_pool_moves:
  assumes inv: "store_inv w" and fl: "pm_flag (pool_mem w) = INI_FILE_MEMORY_POOL_INTI"
    and lens: "\<forall>r. length (region_bytes pm r) < INIFILE_SIZE_SPACE"
    and pm: "\<And>r. region_bytes pm r = region_bytes (pool_mem w) r" "pm_flag pm = pm_flag (pool_mem w)"
  defines "w0 \<equiv> w\<lparr>pool_mem := switch_pool pm\<rparr>"
  shows "world_ok w0" "same_view w w0"
proof -
  have str: "pool_string (switch_pool pm) p = pool_string (pool_mem w) p" for p
    using pm fl by (simp add: switch_pool_inti pool_string_def deref_def)
  have fs: "field_string (switch_pool pm) f = field_string (pool_mem w) f" for f
    by (cases f) (simp_all add: field_string_def str)
  have bck: "region_bytes (pool_mem w) BACK_POOL = []"
    using inv fl by (simp add: store_inv_def region_bytes_def)
  have "pool_ok (switch_pool pm)"
    unfolding pool_ok_def pool_bounded_def pool_fresh_def region_lengths
    using pm fl lens bck by (auto simp: switch_pool_inti size_defs)
  moreover have "safe_field (switch_pool pm) f" if "live_field (pool_mem w) f" for f
    using that fl pm(2)
    by (auto simp: live_field_def safe_field_def live_ptr_def safe_ptr_def switch_pool_inti
        split: option.splits)
  ultimately show "world_ok w0"
    using inv by (auto simp: w0_def world_ok_def fields_safe_def store_inv_def fields_live_def)
  show "same_view w w0"
    by (simp add: same_view_def w0_def file_view_def section_view_def keyval_view_def fs)
qed

text \<open>The first compaction never faults and changes no string that the program can read.\<close>

lemma adjust_ok:
  assumes inv: "store_inv w" and fl: "pm_flag (pool_mem w) = INI_FILE_MEMORY_POOL_INTI"
  obtains ret w' where "ini_file_memory_adjust (account n w) = Some (ret, w')" "store_inv w'" "same_view w w'"
    "pm_flag (pool_mem w') = INI_FILE_MEMORY_POOL_BACK" "ret = 0 \<or> ret < 0"
    "region_bytes (pool_mem w') POOL = region_bytes (pool_mem w) POOL"
proof -
  let ?pm = "pool_mem (account n w)"
  let ?w0 = "w\<lparr>pool_mem := switch_pool ?pm\<rparr>"
  have acc: "\<And>r. region_bytes ?pm r = region_bytes (pool_mem w) r" "pm_flag ?pm = pm_flag (pool_mem w)"
    by (auto simp: account_def)
  have lens: "\<forall>r. length (region_bytes ?pm r) < INIFILE_SIZE_SPACE"
    using inv acc by (auto simp: store_inv_def pool_ok_def pool_bounded_def region_lengths)
  have w0: "world_ok ?w0" "same_view w ?w0"
    using switch_pool_moves[OF inv fl lens acc] by auto
  have "walkable ?w0" using same_view_walkable[OF w0(2)] inv by (simp add: store_inv_def)
  then obtain b w' where a: "adjust_files MAX_OPERATION_FILE_NUM ?w0 0 = Some (b, w')" and m: "moved ?w0 w'"
    using adjust_files_moved[OF w0(1), of 0 MAX_OPERATION_FILE_NUM] by auto
  have fl0: "pm_flag ?pm = INI_FILE_MEMORY_POOL_INTI" using acc fl by simp
  have ok: "world_ok w'" and sv: "same_view ?w0 w'" and fl': "pm_flag (pool_mem w') = INI_FILE_MEMORY_POOL_BACK"
    and keep: "region_bytes (pool_mem w') POOL = region_bytes (pool_mem w) POOL"
    using m w0(1) switch_pool_inti[OF fl0] acc by (auto simp: moved_def)
  have sv': "same_view w w'" using w0(2) sv by (simp add: same_view_def)
  have "live_field (pool_mem w') f" if "safe_field (pool_mem w') f" for f
    using that fl' by (auto simp: live_field_def safe_field_def live_ptr_def flag_defs split: option.splits)
  then have "store_inv w'"
    using ok same_view_walkable[OF sv'] inv fl'
    by (auto simp: store_inv_def world_ok_def fields_live_def fields_safe_def flag_defs)
  moreover have "ini_file_memory_adjust (account n w) = Some (if b then 0 else INIFILE_MEMORY_POOL_ERROR, w')"
    using a by (simp add: ini_file_memory_adjust_def account_def)
  moreover have "(if b then 0 else INIFILE_MEMORY_POOL_ERROR) = 0 \<or> (if b then 0 else INIFILE_MEMORY_POOL_ERROR) < 0"
    by (simp add: code_defs)
  ultimately show thesis using that sv' fl' keep by blast
qed

lemma store_at_current_ok:
  assumes inv: "store_inv w" and n: "NUL \<notin> set bs" and fit: "fits (length bs) w"
  obtains p w' where "store_at_current bs (account (length bs) w) = Some (0, Some p, w')" "store_inv w'"
    "same_view w w'" "pm_flag (pool_mem w') = pm_flag (pool_mem w)" "live_ptr (pool_mem w') p"
    "pool_string (pool_mem w') p = bs"
    "\<And>q. live_ptr (pool_mem w) q \<Longrightarrow> live_ptr (pool_mem w') q \<and> pool_string (pool_mem w') q = pool_string (pool_mem w) q"
    "pm_curr_len (pool_mem w') = pm_curr_len (pool_mem w) + (int (length bs) + 1)"
    "ini_array w' = ini_array w" "section_array w' = section_array w" "keyval_array w' = keyval_array w" "ini_fs w' = ini_fs w"
proof -
  let ?pm = "pool_mem w"
  have ok: "pool_ok ?pm" using inv by (simp add: store_inv_def)
  have rm: "pm_curr_len ?pm + (int (length bs) + 1) < int INIFILE_SIZE_SPACE"
    using fit by (simp add: fits_def)
  obtain pm2 where a: "pool_memcpy (pool_mem (account (length bs) w)) bs = Some pm2" "pm_current pm2 = pm_current ?pm"
    and b: "pool_ok (advance pm2 (length bs + 1))" "extends ?pm (advance pm2 (length bs + 1))"
    and c: "\<exists>p. pm_current ?pm = Some p \<and> pool_string (advance pm2 (length bs + 1)) p = bs
        \<and> safe_ptr (advance pm2 (length bs + 1)) p"
    and d: "pm_flag pm2 = pm_flag ?pm" "\<forall>r. r \<noteq> active_region ?pm \<longrightarrow> region_bytes pm2 r = region_bytes ?pm r"
    and l: "pm_curr_len pm2 = pm_curr_len ?pm + (int (length bs) + 1)"
    by (rule pool_put[OF ok n rm, of "pool_mem (account (length bs) w)" thesis]) (auto simp: account_def)
  let ?pm3 = "advance pm2 (length bs + 1)"
  obtain p where p: "pm_current ?pm = Some p" "pool_string ?pm3 p = bs" "safe_ptr ?pm3 p" using c by blast
  have "p = (active_region ?pm, cur_off ?pm)" using ok p(1) by (simp add: pool_ok_def pool_bounded_def)
  then have lp: "live_ptr ?pm3 p" using p(3) d(1) by (simp add: live_ptr_def active_region_def)
  have frame: "live_ptr ?pm3 q \<and> pool_string ?pm3 q = pool_string ?pm q" if "live_ptr ?pm q" for q
    using that b(2)[unfolded extends_def, rule_format, of q] d(1) by (simp add: live_ptr_def)
  then have lf: "live_field ?pm3 f \<and> field_string ?pm3 f = field_string ?pm f" if "live_field ?pm f" for f
    using that by (cases f) (auto simp: live_field_def field_string_def)
  let ?w' = "w\<lparr>pool_mem := ?pm3\<rparr>"
  have sv: "same_view w ?w'"
    using lf inv by (auto simp: same_view_def store_inv_def fields_live_def file_view_def section_view_def keyval_view_def)
  have "pm_back_pool ?pm3 = []" if "pm_flag ?pm = INI_FILE_MEMORY_POOL_INTI"
    using inv that d(2)[rule_format, of BACK_POOL]
    by (simp add: store_inv_def active_region_def region_bytes_def advance_def)
  then have "store_inv ?w'"
    using inv b(1) lf same_view_walkable[OF sv] d(1)
    by (auto simp: store_inv_def fields_live_def)
  moreover have "store_at_current bs (account (length bs) w) = Some (0, Some p, ?w')"
    using a p(1) by (simp add: store_at_current_def account_def)
  ultimately show thesis using that[of p ?w'] sv lp p(2) frame d(1) l by simp
qed

lemma same_view_trans: "same_view a b \<Longrightarrow> same_view b c \<Longrightarrow> same_view a c"
  by (simp add: same_view_def)

lemma pool_string_POOL:
  "region_bytes pm' POOL = region_bytes pm POOL \<Longrightarrow> fst p = POOL \<Longrightarrow> pool_string pm' p = pool_string pm p"
  by (simp add: pool_string_def deref_def)

text \<open>
  \<^verbatim>\<open>storage_char_memory\<close> on every branch: it never faults; on success the new pointer reads the
  stored bytes; in every case the view of the world, and every pointer that was live, keep their
  strings.
\<close>

lemma storage_ok:
  assumes inv: "store_inv w" and n: "NUL \<notin> set bs" and rm: "room bs w"
  obtains ret q w' where "storage_char_memory bs w = Some (ret, q, w')" "store_inv w'" "same_view w w'"
    "ret = 0 \<and> (\<exists>p. q = Some p \<and> live_ptr (pool_mem w') p \<and> pool_string (pool_mem w') p = bs) \<or> ret < 0 \<and> q = None"
    "\<And>p. live_ptr (pool_mem w) p \<Longrightarrow> live_ptr (pool_mem w') p \<and> pool_string (pool_mem w') p = pool_string (pool_mem w) p"
proof (cases "fits (length bs) w")
  case True
  show thesis
  proof (rule store_at_current_ok[OF inv n True])
    fix p w' assume b: "store_at_current bs (account (length bs) w) = Some (0, Some p, w')" "store_inv w'"
      "same_view w w'" "live_ptr (pool_mem w') p" "pool_string (pool_mem w') p = bs"
      "\<And>q. live_ptr (pool_mem w) q \<Longrightarrow> live_ptr (pool_mem w') q \<and> pool_string (pool_mem w') q = pool_string (pool_mem w) q"
    have "storage_char_memory bs w = Some (0, Some p, w')"
      using b(1) True by (simp add: storage_char_memory_def Let_def fits_def account_def)
    then show thesis by (rule that[OF _ b(2,3) _ b(6)]) (use b(4,5) in auto)
  qed
next
  case False
  then have fl: "pm_flag (pool_mem w) = INI_FILE_MEMORY_POOL_INTI"
    and big: "\<not> pm_curr_len (pool_mem (account (length bs) w)) < int INIFILE_SIZE_SPACE"
    using rm by (auto simp: room_def fits_def account_def)
  obtain ret w2 where a: "ini_file_memory_adjust (account (length bs) w) = Some (ret, w2)" "store_inv w2" "same_view w w2"
    "pm_flag (pool_mem w2) = INI_FILE_MEMORY_POOL_BACK" "ret = 0 \<or> ret < 0"
    "region_bytes (pool_mem w2) POOL = region_bytes (pool_mem w) POOL"
    by (rule adjust_ok[OF inv fl])
  have frame: "live_ptr (pool_mem w2) p \<and> pool_string (pool_mem w2) p = pool_string (pool_mem w) p"
    if "live_ptr (pool_mem w) p" for p
    using that fl a(4) pool_string_POOL[OF a(6)]
    by (auto simp: live_ptr_def safe_ptr_def active_region_def flag_defs)
  consider "ret < 0" | "ret = 0" "fits (length bs) w2" | "ret = 0" "\<not> fits (length bs) w2" using a(5) by blast
  then show thesis
  proof cases
    case 1
    then have "storage_char_memory bs w = Some (ret, None, w2)"
      using a(1) big by (simp add: storage_char_memory_def Let_def)
    then show thesis using that a frame 1 by blast
  next
    case 2
    show thesis
    proof (rule store_at_current_ok[OF a(2) n 2(2)])
      fix p w' assume b: "store_at_current bs (account (length bs) w2) = Some (0, Some p, w')" "store_inv w'"
        "same_view w2 w'" "live_ptr (pool_mem w') p" "pool_string (pool_mem w') p = bs"
        "\<And>q. live_ptr (pool_mem w2) q \<Longrightarrow> live_ptr (pool_mem w') q \<and> pool_string (pool_mem w') q = pool_string (pool_mem w2) q"
      have "storage_char_memory bs w = Some (0, Some p, w')"
        using a(1) big b(1) 2 by (simp add: storage_char_memory_def Let_def fits_def account_def)
      then show thesis
        by (rule that[OF _ b(2) same_view_trans[OF a(3) b(3)]])
           (use b(4,5) b(6)[OF conjunct1[OF frame]] conjunct2[OF frame] in auto)
    qed
  next
    case 3
    let ?w3 = "account (length bs) w2"
    have "storage_char_memory bs w = Some (INIFILE_MEMORY_POOL_OUT, None, ?w3)"
      using a(1) big 3 by (simp add: storage_char_memory_def Let_def fits_def account_def)
    moreover have "live_field (pool_mem ?w3) f = live_field (pool_mem w2) f" for f
      by (auto simp: account_def live_field_def live_ptr_def split: option.split)
    moreover have fs: "field_string (pool_mem ?w3) f = field_string (pool_mem w2) f" for f
      by (cases f) (auto simp: account_def field_string_def)
    moreover have "same_view w2 ?w3"
      using fs by (simp add: same_view_def file_view_def section_view_def keyval_view_def account_def)
    moreover have "pool_ok (pool_mem ?w3)"
      using a(2) by (auto simp: store_inv_def pool_ok_def pool_bounded_def pool_fresh_def account_def)
    ultimately show thesis
      using that[of INIFILE_MEMORY_POOL_OUT None ?w3] a frame same_view_walkable[of w2 ?w3]
        same_view_trans[OF a(3)]
      by (auto simp: store_inv_def fields_live_def account_def live_ptr_def code_defs)
  qed
qed

section \<open>The pool as a string store\<close>

text \<open>What the parser and the update operations rely on.\<close>

locale string_store =
  fixes inv :: "'w \<Rightarrow> bool"
    and has_room :: "string \<Rightarrow> 'w \<Rightarrow> bool"
    and store :: "string \<Rightarrow> 'w \<Rightarrow> (int \<times> 'p option \<times> 'w) option"
    and live :: "'w \<Rightarrow> 'p \<Rightarrow> bool"
    and reads :: "'w \<Rightarrow> 'p \<Rightarrow> string"
  assumes store_total: "inv w \<Longrightarrow> has_room bs w \<Longrightarrow> NUL \<notin> set bs \<Longrightarrow> \<exists>ret q w'. store bs w = Some (ret, q, w')"
    and store_inv': "inv w \<Longrightarrow> has_room bs w \<Longrightarrow> NUL \<notin> set bs \<Longrightarrow> store bs w = Some (ret, q, w') \<Longrightarrow> inv w'"
    and store_result: "inv w \<Longrightarrow> has_room bs w \<Longrightarrow> NUL \<notin> set bs \<Longrightarrow> store bs w = Some (ret, q, w') \<Longrightarrow>
      ret = 0 \<and> (\<exists>p. q = Some p \<and> live w' p \<and> reads w' p = bs) \<or> ret < 0 \<and> q = None"
    and store_keeps: "inv w \<Longrightarrow> has_room bs w \<Longrightarrow> NUL \<notin> set bs \<Longrightarrow> store bs w = Some (ret, q, w') \<Longrightarrow>
      live w p \<Longrightarrow> live w' p \<and> reads w' p = reads w p"
begin

text \<open>
  Two strings stored one after the other, with a change \<open>g\<close> of the rest of the state between the
  calls: both read back.
\<close>

lemma store_two:
  assumes "inv w" and "has_room a w" and "NUL \<notin> set a" and "store a w = Some (0, p, w1)"
    and "inv w1 \<Longrightarrow> inv (g w1)" and "\<And>r. live w1 r \<Longrightarrow> live (g w1) r \<and> reads (g w1) r = reads w1 r"
    and "has_room b (g w1)" and "NUL \<notin> set b" and "store b (g w1) = Some (0, q, w2)"
  shows "\<exists>p' q'. p = Some p' \<and> q = Some q' \<and> reads w2 p' = a \<and> reads w2 q' = b \<and> live w2 p' \<and> live w2 q'"
proof -
  obtain p' where p: "p = Some p'" "live w1 p'" "reads w1 p' = a"
    using store_result[OF assms(1-4)] by auto
  have i1: "inv (g w1)" using assms(5) store_inv'[OF assms(1-4)] by simp
  obtain q' where q: "q = Some q'" "live w2 q'" "reads w2 q' = b"
    using store_result[OF i1 assms(7-9)] by auto
  have "live w2 p' \<and> reads w2 p' = a"
    using store_keeps[OF i1 assms(7-9)] assms(6)[OF p(2)] p(3) by auto
  with p q show ?thesis by auto
qed

end

interpretation pool_store: string_store store_inv room storage_char_memory
  "\<lambda>w. live_ptr (pool_mem w)" "\<lambda>w. pool_string (pool_mem w)"
proof unfold_locales
  fix w bs assume a: "store_inv w" "room bs w" "NUL \<notin> set bs"
  show "\<exists>ret q w'. storage_char_memory bs w = Some (ret, q, w')"
    by (rule storage_ok[OF a(1,3,2)]) blast
  fix ret q w' assume s: "storage_char_memory bs w = Some (ret, q, w')"
  show "store_inv w'"
    by (rule storage_ok[OF a(1,3,2)]) (use s in simp)
  show "ret = 0 \<and> (\<exists>p. q = Some p \<and> live_ptr (pool_mem w') p \<and> pool_string (pool_mem w') p = bs) \<or> ret < 0 \<and> q = None"
    by (rule storage_ok[OF a(1,3,2)]) (use s in simp)
  fix p assume "live_ptr (pool_mem w) p"
  then show "live_ptr (pool_mem w') p \<and> pool_string (pool_mem w') p = pool_string (pool_mem w) p"
    by (rule_tac storage_ok[OF a(1,3,2)]) (use s in simp)
qed

section \<open>Compaction and the second file\<close>

text \<open>The walks below a file touch no entry of \<^verbatim>\<open>ini_array\<close>.\<close>

lemma adjust_keyvals_files: "adjust_keyvals n w p = Some (b, w') \<Longrightarrow> ini_array w' = ini_array w"
proof (induction n arbitrary: w p)
  case 0
  then show ?case by (cases p) auto
next
  case (Suc n)
  show ?case
  proof (cases p)
    case None
    with Suc.prems show ?thesis by simp
  next
    case (Some k)
    with Suc.prems obtain pm1 key' ok1 where
      a1: "adjust_field (pool_mem w) (kv_key (kv_at w k)) = Some (pm1, key', ok1)"
      by (cases "adjust_field (pool_mem w) (kv_key (kv_at w k))") auto
    define w1 where "w1 = upd_kv k (\<lambda>x. x\<lparr>kv_key := key'\<rparr>) (w\<lparr>pool_mem := pm1\<rparr>)"
    have w1: "ini_array w1 = ini_array w" by (simp add: w1_def)
    have rest: "(if \<not> ok1 then Some (False, w1) else do {
       (pm2, value', ok2) \<leftarrow> adjust_field (pool_mem w1) (kv_value (kv_at w1 k));
       let w2 = upd_kv k (\<lambda>x. x\<lparr>kv_value := value'\<rparr>) (w1\<lparr>pool_mem := pm2\<rparr>);
       if \<not> ok2 then Some (False, w2) else adjust_keyvals n w2 (kv_last (kv_at w2 k))
     }) = Some (b, w')"
      using Suc.prems a1 unfolding Some w1_def by (simp add: Let_def)
    show ?thesis
    proof (cases ok1)
      case False
      with rest w1 show ?thesis by simp
    next
      case True
      with rest obtain pm2 value' ok2 where
        "adjust_field (pool_mem w1) (kv_value (kv_at w1 k)) = Some (pm2, value', ok2)"
        by (cases "adjust_field (pool_mem w1) (kv_value (kv_at w1 k))") auto
      with rest True w1 Suc.IH show ?thesis by (cases ok2) (auto simp: Let_def dest: Suc.IH)
    qed
  qed
qed

lemma adjust_sections_files: "adjust_sections n w p = Some (b, w') \<Longrightarrow> ini_array w' = ini_array w"
proof (induction n arbitrary: w p)
  case 0
  then show ?case by (cases p) auto
next
  case (Suc n)
  show ?case
  proof (cases p)
    case None
    with Suc.prems show ?thesis by simp
  next
    case (Some s)
    with Suc.prems obtain pm1 sec' ok1 where
      a1: "adjust_field (pool_mem w) (sec_sec (sec_at w s)) = Some (pm1, sec', ok1)"
      by (cases "adjust_field (pool_mem w) (sec_sec (sec_at w s))") auto
    define w1 where "w1 = upd_sec s (\<lambda>x. x\<lparr>sec_sec := sec'\<rparr>) (w\<lparr>pool_mem := pm1\<rparr>)"
    have w1: "ini_array w1 = ini_array w" by (simp add: w1_def)
    have rest: "(if \<not> ok1 then Some (False, w1) else do {
       (ok2, w2) \<leftarrow> adjust_keyvals (length (keyval_array w1)) w1 (sec_head (sec_at w1 s));
       if \<not> ok2 then Some (False, w2) else adjust_sections n w2 (sec_last (sec_at w2 s))
     }) = Some (b, w')"
      using Suc.prems a1 unfolding Some w1_def by (simp add: Let_def)
    show ?thesis
    proof (cases ok1)
      case False
      with rest w1 show ?thesis by simp
    next
      case True
      with rest obtain ok2 w2 where
        k: "adjust_keyvals (length (keyval_array w1)) w1 (sec_head (sec_at w1 s)) = Some (ok2, w2)"
        by (cases "adjust_keyvals (length (keyval_array w1)) w1 (sec_head (sec_at w1 s))") auto
      with rest True w1 adjust_keyvals_files[OF k] show ?thesis
        by (cases ok2) (auto dest: Suc.IH)
    qed
  qed
qed

lemma adjust_files_stuck:
  assumes "adjust_files i w 0 = Some (b, w')" and "fil_flag (fil_at w 0) \<noteq> STRUCT_NODE_UN_USED"
    and "length (ini_array w) = 2"
  shows "fil_at w' 1 = fil_at w 1"
  using assms
proof (induction i arbitrary: w)
  case 0
  then show ?case by simp
next
  case (Suc i)
  then obtain pm1 name' ok1 where a: "adjust_field (pool_mem w) (fil_name (fil_at w 0)) = Some (pm1, name', ok1)"
    by (auto simp: bind_eq_Some_conv)
  define w1 where "w1 = upd_fil 0 (\<lambda>x. x\<lparr>fil_name := name'\<rparr>) (w\<lparr>pool_mem := pm1\<rparr>)"
  have w1: "fil_at w1 1 = fil_at w 1" "fil_flag (fil_at w1 0) = fil_flag (fil_at w 0)" "length (ini_array w1) = 2"
    using Suc.prems(3) by (auto simp: w1_def)
  show ?case
  proof (cases ok1)
    case False
    then have "w' = w1" using Suc.prems a by (auto simp: w1_def Let_def)
    then show ?thesis using w1 by simp
  next
    case True
    then obtain ok2 w2 where b2: "adjust_sections (length (section_array w1)) w1 (fil_head (fil_at w1 0)) = Some (ok2, w2)"
      and rest: "(if \<not> ok2 then Some (False, w2) else adjust_files i w2 0) = Some (b, w')"
      using Suc.prems(1,2) a unfolding w1_def by (auto simp: Let_def bind_eq_Some_conv)
    have "ini_array w2 = ini_array w1" using adjust_sections_files[OF b2] .
    then show ?thesis using rest Suc.IH[of w2] w1 Suc.prems(2) by (cases ok2) auto
  qed
qed

end
