(* ===== verification/Ini_Line.thy ===== *)
theory Ini_Line
  imports Ini_Strings
begin

text \<open>
  The line classifier \<^verbatim>\<open>judge_ini_file_linetype\<close> of \<^verbatim>\<open>v2.0.0/inifile.c\<close>, and the reference
  classification it is equivalent to: strip the comment, then look which of \<^verbatim>\<open>[\<close> and \<^verbatim>\<open>=\<close> is left.
\<close>

datatype INI_FILE_LINE_TYPE = LINE_SECTION | LINE_KEYVALUE | LINE_NOTE | LINE_BLANK | LINE_ERROR

section \<open>The classifier\<close>

text \<open>
  \<^verbatim>\<open>while(pp < p_comma) { if(blank) pp++; else return LINE_ERROR; } return LINE_NOTE;\<close>
\<close>

function note_loop :: "string \<Rightarrow> nat \<Rightarrow> nat \<Rightarrow> INI_FILE_LINE_TYPE" where
  "note_loop line pp p_comma =
     (if pp < p_comma
      then if is_blank (byte_at line pp) then note_loop line (Suc pp) p_comma else LINE_ERROR
      else LINE_NOTE)"
  by pat_completeness auto
termination
  by (relation "measure (\<lambda>(line, pp, p_comma). p_comma - pp)") auto

declare note_loop.simps [simp del]

definition judge_ini_file_linetype :: "string \<Rightarrow> INI_FILE_LINE_TYPE" where
  "judge_ini_file_linetype line =
     (let pp = skip_blanks line
      in if byte_at line pp = CONTENT_NEELINE_SIGN then LINE_BLANK
      else let p_comma = str_frist_constchar (Some line) CONTENT_COMMA_SIGN;
               p_brack = str_frist_constchar (Some line) CONTENT_LEFT_BRACKET;
               p_equ = str_frist_constchar (Some line) CONTENT_EQUALITY_SIGN;
               q_brack = str_frist_constchar (Some line) CONTENT_RIGHT_BRACKET
      in case p_comma of
        Some c \<Rightarrow>
          (case (p_brack, p_equ) of
             (Some b, Some e) \<Rightarrow>
               if c < b \<and> c < e then note_loop line pp c
               else if c > b \<and> c > e then LINE_ERROR
               else if c > b
                 then (case q_brack of Some q \<Rightarrow> if q < c then LINE_SECTION else LINE_ERROR
                       | None \<Rightarrow> LINE_ERROR)
               else LINE_KEYVALUE
           | (Some b, None) \<Rightarrow>
               if c < b then note_loop line pp c
               else (case q_brack of Some q \<Rightarrow> if q < c then LINE_SECTION else LINE_ERROR
                     | None \<Rightarrow> LINE_ERROR)
           | (None, Some e) \<Rightarrow> if c < e then note_loop line pp c else LINE_KEYVALUE
           | (None, None) \<Rightarrow> note_loop line pp c)
      | None \<Rightarrow>
          (case (p_brack, p_equ) of
             (Some b, Some e) \<Rightarrow> LINE_ERROR
           | (Some b, None) \<Rightarrow>
               (case q_brack of Some q \<Rightarrow> if q > b then LINE_SECTION else LINE_ERROR
                | None \<Rightarrow> LINE_ERROR)
           | (None, Some e) \<Rightarrow> LINE_KEYVALUE
           | (None, None) \<Rightarrow> LINE_ERROR))"

section \<open>The reference classification\<close>

definition before_comma :: "string \<Rightarrow> string" where
  "before_comma s = takeWhile (\<lambda>c. c \<noteq> CONTENT_COMMA_SIGN) s"

definition line_class :: "string \<Rightarrow> INI_FILE_LINE_TYPE" where
  "line_class s =
     (let t = before_comma s
      in if (starts_with CONTENT_NEELINE_SIGN (dropWhile is_blank s)) then LINE_BLANK
         else if CONTENT_LEFT_BRACKET \<in> set t
           then (if CONTENT_EQUALITY_SIGN \<in> set t then LINE_ERROR
                 else if CONTENT_COMMA_SIGN \<in> set s
                   then (if CONTENT_RIGHT_BRACKET \<in> set t then LINE_SECTION else LINE_ERROR)
                 else if CONTENT_LEFT_BRACKET \<in> set (takeWhile (\<lambda>c. c \<noteq> CONTENT_RIGHT_BRACKET) s) \<and>
                         CONTENT_RIGHT_BRACKET \<in> set s then LINE_SECTION
                 else LINE_ERROR)
         else if CONTENT_EQUALITY_SIGN \<in> set t then LINE_KEYVALUE
         else if CONTENT_COMMA_SIGN \<in> set s \<and> list_all is_blank t then LINE_NOTE
         else LINE_ERROR)"

lemma first_index_Some_mem: "first_index (\<lambda>x. x = c) s = Some i \<Longrightarrow> c \<in> set s"
  by (drule first_index_SomeD) (auto dest: nth_mem)

lemma mem_takeWhile_first:
  assumes "c \<noteq> d"
  shows "c \<in> set (takeWhile (\<lambda>x. x \<noteq> d) s) \<longleftrightarrow>
    (\<exists>i. first_index (\<lambda>x. x = c) s = Some i \<and>
         (\<forall>j. first_index (\<lambda>x. x = d) s = Some j \<longrightarrow> i < j))"
proof (induction s)
  case Nil
  then show ?case by simp
next
  case (Cons x s)
  then show ?case using assms by auto
qed

lemma note_loop_eq:
  "pp \<le> c \<Longrightarrow> note_loop line pp c = (if \<forall>i. pp \<le> i \<and> i < c \<longrightarrow> is_blank (byte_at line i) then LINE_NOTE else LINE_ERROR)"
proof (induction line pp c rule: note_loop.induct)
  case (1 line pp c)
  show ?case
  proof (cases "pp < c \<and> is_blank (byte_at line pp)")
    case True
    have "(\<forall>i. pp \<le> i \<and> i < c \<longrightarrow> is_blank (byte_at line i)) \<longleftrightarrow>
          (\<forall>i. Suc pp \<le> i \<and> i < c \<longrightarrow> is_blank (byte_at line i))"
      using True by (metis Suc_leD Suc_leI le_neq_implies_less)
    then show ?thesis using 1 True by (simp add: note_loop.simps[of line pp c])
  next
    case False
    then show ?thesis by (auto simp: note_loop.simps[of line pp c])
  qed
qed

lemma not_blank_NUL [simp]: "\<not> is_blank NUL"
  by (simp add: is_blank_def content_defs)

lemma skip_blanks_cstr: "skip_blanks line = skip_blanks (cstr line)"
  by (induction line) auto

lemma byte_at_skip_blanks:
  "byte_at line (skip_blanks line) = c \<and> c \<noteq> NUL \<longleftrightarrow> c \<noteq> NUL \<and> (\<exists>r. dropWhile is_blank (cstr line) = c # r)"
  by (induction line) auto

lemma skip_blanks_le: "i < skip_blanks line \<Longrightarrow> is_blank (byte_at line i)"
proof (induction line arbitrary: i)
  case Nil
  then show ?case by simp
next
  case (Cons c cs)
  then show ?case by (cases i) (auto split: if_splits)
qed

lemma not_blank_at_skip: "\<not> is_blank (byte_at line (skip_blanks line))"
  by (induction line) auto

lemma comma_not_blank: "\<not> is_blank CONTENT_COMMA_SIGN"
  by (simp add: is_blank_def content_defs)

text \<open>Scanning for blanks up to the comment sign, from wherever the blanks end.\<close>

lemma note_loop_from_skip:
  assumes "first_index (\<lambda>x. x = CONTENT_COMMA_SIGN) (cstr line) = Some c"
  shows "note_loop line (skip_blanks line) c =
    (if list_all is_blank (before_comma (cstr line)) then LINE_NOTE else LINE_ERROR)"
proof -
  have c: "c < length (cstr line)" "cstr line ! c = CONTENT_COMMA_SIGN"
    "\<forall>j < c. cstr line ! j \<noteq> CONTENT_COMMA_SIGN"
    using first_index_SomeD[OF assms] by auto
  then have at: "byte_at line c = CONTENT_COMMA_SIGN" using cstr_nth by metis
  have le: "skip_blanks line \<le> c"
    using skip_blanks_le[of c line] at comma_not_blank by (metis not_le)
  have t: "before_comma (cstr line) = take c (cstr line)"
    unfolding before_comma_def using c by (intro takeWhile_eq_take_P_nth) auto
  have "(\<forall>i. skip_blanks line \<le> i \<and> i < c \<longrightarrow> is_blank (byte_at line i)) \<longleftrightarrow>
        (\<forall>i < c. is_blank (byte_at line i))"
    using skip_blanks_le by (metis not_le)
  also have "\<dots> \<longleftrightarrow> list_all is_blank (take c (cstr line))"
    using c(1) by (auto simp: list_all_length cstr_nth)
  finally show ?thesis using note_loop_eq[OF le] t by simp
qed

text \<open>The classifier agrees with the reference classification of the C string in the buffer.\<close>

lemma judge_eq_line_class_aux: "judge_ini_file_linetype line = line_class (cstr line)"
proof -
  let ?s = "cstr line"
  let ?fi = "\<lambda>c. first_index (\<lambda>x. x = c) ?s"
  have blank: "byte_at line (skip_blanks line) = CONTENT_NEELINE_SIGN \<longleftrightarrow>
      (\<exists>rest. dropWhile is_blank ?s = CONTENT_NEELINE_SIGN # rest)"
    using byte_at_skip_blanks[of line CONTENT_NEELINE_SIGN] by (simp add: content_defs)
  have neq: "CONTENT_LEFT_BRACKET \<noteq> CONTENT_COMMA_SIGN" "CONTENT_EQUALITY_SIGN \<noteq> CONTENT_COMMA_SIGN"
    "CONTENT_RIGHT_BRACKET \<noteq> CONTENT_COMMA_SIGN" "CONTENT_LEFT_BRACKET \<noteq> CONTENT_RIGHT_BRACKET"
    by (simp_all add: content_defs)
  note tw = mem_takeWhile_first[OF neq(1), of ?s] mem_takeWhile_first[OF neq(2), of ?s]
    mem_takeWhile_first[OF neq(3), of ?s] mem_takeWhile_first[OF neq(4), of ?s]
  have mem: "c \<in> set ?s \<longleftrightarrow> (\<exists>i. ?fi c = Some i)" for c
    by (cases "?fi c") (auto simp: first_index_None dest: first_index_Some_mem)
  have inj: "i \<noteq> j" if "?fi c = Some i" "?fi d = Some j" "c \<noteq> d" for c d i j
    using that first_index_SomeD by blast
  note ne = inj[OF _ _ neq(1)] inj[OF _ _ neq(2)] inj[OF _ _ neq(3)] inj[OF _ _ neq(4)]
  show ?thesis
  proof (cases "byte_at line (skip_blanks line) = CONTENT_NEELINE_SIGN")
    case True
    then show ?thesis using blank by (simp add: judge_ini_file_linetype_def line_class_def Let_def)
  next
    case False
    have nb: "\<not> (\<exists>rest. dropWhile is_blank ?s = CONTENT_NEELINE_SIGN # rest)" using False blank by simp
    note nl = note_loop_from_skip[of line, unfolded before_comma_def]
    note defs = judge_ini_file_linetype_def line_class_def Let_def str_frist_constchar_Some
      before_comma_def[of ?s] tw mem
    show ?thesis
    proof (cases "?fi CONTENT_COMMA_SIGN")
      case None
      then show ?thesis
        by (cases "?fi CONTENT_LEFT_BRACKET"; cases "?fi CONTENT_EQUALITY_SIGN";
            cases "?fi CONTENT_RIGHT_BRACKET") (simp_all add: defs False nb)
    next
      case (Some c)
      have d: "(i < c) = (\<not> c < i)" if "?fi x = Some i" "x \<noteq> CONTENT_COMMA_SIGN" for x i
        using inj[OF that(1) Some that(2)] by linarith
      show ?thesis
        using Some d[OF _ neq(1)] d[OF _ neq(2)] d[OF _ neq(3)] nl[OF Some]
        by (cases "?fi CONTENT_LEFT_BRACKET"; cases "?fi CONTENT_EQUALITY_SIGN";
            cases "?fi CONTENT_RIGHT_BRACKET") (simp_all add: defs False nb)
    qed
  qed
qed

end
