(* ===== verification/Ini_Parse.thy ===== *)
theory Ini_Parse
  imports Ini_Pool Ini_Line
begin

text \<open>
  Reading an ini file into the node arrays: the list searches \<^verbatim>\<open>find_keyvalue_unsect\<close> and
  \<^verbatim>\<open>find_inifile_section\<close>, the line parsers \<^verbatim>\<open>init_line_key_val\<close> and \<^verbatim>\<open>init_line_section\<close>,
  \<^verbatim>\<open>init_every_line_inifile\<close> and \<^verbatim>\<open>read_analys_ini_file\<close> of \<^verbatim>\<open>v2.0.0/inifile.c\<close>.

  A \<^verbatim>\<open>char *\<close> argument of a search is the contents of the string object it points at; the object
  has one more byte, its terminator. A line buffer is its zero-extended contents.
\<close>

section \<open>Searching the lists\<close>

text \<open>
  \<^verbatim>\<open>memcmp(p, name, len)\<close> for a string \<open>p\<close> in a pool: a null \<open>p\<close>, or a \<^verbatim>\<open>len\<close> beyond the object
  \<open>name\<close>, is undefined.
\<close>

definition memcmp_ptr :: "MEMORY_POOL \<Rightarrow> ptr option \<Rightarrow> string \<Rightarrow> nat \<Rightarrow> int option" where
  "memcmp_ptr pm p name len =
     (case p of
        None \<Rightarrow> None
      | Some q \<Rightarrow> if len > length name + 1 then None
                 else Some (memcmp (take len (deref pm q)) (take len (name @ [NUL]))))"

fun find_keyvalue_loop :: "nat \<Rightarrow> ini_world \<Rightarrow> nat option \<Rightarrow> string \<Rightarrow> int \<Rightarrow> nat option option" where
  "find_keyvalue_loop n w None key len = Some None"
| "find_keyvalue_loop 0 w (Some k) key len = None"
| "find_keyvalue_loop (Suc n) w (Some k) key len =
     (let c_len = str_int_len (map_option (deref (pool_mem w)) (kv_key (kv_at w k)))
      in if int c_len = len
         then do {
           ret \<leftarrow> memcmp_ptr (pool_mem w) (kv_key (kv_at w k)) key c_len;
           if ret = 0 then Some (Some k) else find_keyvalue_loop n w (kv_last (kv_at w k)) key len
         }
         else find_keyvalue_loop n w (kv_last (kv_at w k)) key len)"

definition find_keyvalue_unsect ::
  "ini_world \<Rightarrow> nat option \<Rightarrow> string option \<Rightarrow> int \<Rightarrow> nat option option" where
  "find_keyvalue_unsect w head key len =
     (case (head, key) of
        (Some k, Some s) \<Rightarrow>
          find_keyvalue_loop (length (keyval_array w)) w head s
            (if len \<le> 0 then int (str_int_len key) else len)
      | _ \<Rightarrow> Some None)"

fun find_section_loop :: "nat \<Rightarrow> ini_world \<Rightarrow> nat option \<Rightarrow> string \<Rightarrow> int \<Rightarrow> nat option option" where
  "find_section_loop n w None name len = Some None"
| "find_section_loop 0 w (Some s) name len = None"
| "find_section_loop (Suc n) w (Some s) name len =
     (let c_len = str_int_len (map_option (deref (pool_mem w)) (sec_sec (sec_at w s)))
      in if len = int c_len
         then do {
           ret \<leftarrow> memcmp_ptr (pool_mem w) (sec_sec (sec_at w s)) name c_len;
           if ret = 0 then Some (Some s) else find_section_loop n w (sec_last (sec_at w s)) name len
         }
         else find_section_loop n w (sec_last (sec_at w s)) name len)"

definition find_inifile_section ::
  "ini_world \<Rightarrow> nat option \<Rightarrow> string option \<Rightarrow> int \<Rightarrow> nat option option" where
  "find_inifile_section w head name len =
     (case (head, name) of
        (Some s, Some t) \<Rightarrow>
          find_section_loop (length (section_array w)) w head t
            (if len \<le> 0 then int (str_int_len name) else len)
      | _ \<Rightarrow> Some None)"

section \<open>Parsing a line\<close>

text \<open>
  The loops that step \<^verbatim>\<open>pp\<close> backwards over blanks. They have no lower bound in the code: a step
  below the first byte of the line reads outside the buffer.
\<close>

fun scan_back :: "(char \<Rightarrow> bool) \<Rightarrow> string \<Rightarrow> nat \<Rightarrow> nat option" where
  "scan_back P line 0 = (if P (byte_at line 0) then None else Some 0)"
| "scan_back P line (Suc i) = (if P (byte_at line (Suc i)) then scan_back P line i else Some (Suc i))"

definition is_blank_or_newline :: "char \<Rightarrow> bool" where
  "is_blank_or_newline c \<longleftrightarrow> c = CONTENT_NEELINE_SIGN \<or> c = CONTENT_TAB_SIGN \<or> c = CONTENT_SPACE_SIGN"

text \<open>The bytes from \<open>p\<close> to \<open>pp\<close> inclusive, as in \<^verbatim>\<open>len = pp - p + INIFILE_SPACE_CHAR_LEN\<close>.\<close>

definition span :: "string \<Rightarrow> nat \<Rightarrow> nat \<Rightarrow> string" where
  "span line p pp = map (byte_at line) [p..<Suc pp]"

text \<open>
  Where the key and the value of a line lie, for \<open>e\<close> the offset of its first \<^verbatim>\<open>=\<close> and \<open>c\<close> of its first
  \<^verbatim>\<open>;\<close>: the results are \<open>(p, pp)\<close> as they stand when they are compared.
\<close>

definition key_bounds :: "string \<Rightarrow> nat \<Rightarrow> (nat \<times> nat) option" where
  "key_bounds line e = do {
     let p = skip_blanks line;
     pp \<leftarrow> scan_back is_blank line (e - 1);
     Some (p, pp)
   }"

definition value_bounds :: "string \<Rightarrow> nat \<Rightarrow> nat option \<Rightarrow> (nat \<times> nat) option" where
  "value_bounds line e c = do {
     let pp = (case c of Some c \<Rightarrow> c | None \<Rightarrow> e + find_frist_endchar (drop e line));
     pp \<leftarrow> scan_back is_blank_or_newline line (pp - 1);
     let p = e + 1 + skip_blanks (drop (e + 1) line);
     Some (p, pp)
   }"

definition free_kv :: "nat \<Rightarrow> ini_world \<Rightarrow> ini_world" where
  "free_kv k w = upd_kv k (\<lambda>x. x\<lparr>kv_flag := STRUCT_NODE_UN_USED\<rparr>) w"

definition free_sec :: "nat \<Rightarrow> ini_world \<Rightarrow> ini_world" where
  "free_sec s w = upd_sec s (\<lambda>x. x\<lparr>sec_flag := STRUCT_NODE_UN_USED\<rparr>) w"

text \<open>The two halves of the body of \<^verbatim>\<open>init_line_key_val\<close>, for the slot \<open>k\<close>.\<close>

definition store_value_part :: "string \<Rightarrow> nat \<Rightarrow> nat option \<Rightarrow> nat \<Rightarrow> ini_world \<Rightarrow> (int \<times> ini_world) option" where
  "store_value_part line e c k w = do {
     (p, pp) \<leftarrow> value_bounds line e c;
     if pp < p then Some (INIFILE_FORMAT_ERROR, free_kv k w)
     else do {
       (ret, q, w1) \<leftarrow> storage_char_memory (span line p pp) w;
       if ret < 0 then Some (ret, free_kv k w1)
       else Some (int k, upd_kv k (\<lambda>x. x\<lparr>kv_value := q\<rparr>) w1)
     }
   }"

definition store_key_part :: "string \<Rightarrow> nat \<Rightarrow> nat option \<Rightarrow> nat \<Rightarrow> ini_world \<Rightarrow> (int \<times> ini_world) option" where
  "store_key_part line e c k w = do {
     (p, pp) \<leftarrow> key_bounds line e;
     if pp < p then Some (INIFILE_FORMAT_ERROR, free_kv k w)
     else do {
       (ret, q, w1) \<leftarrow> storage_char_memory (span line p pp) w;
       if ret < 0 then Some (ret, free_kv k w1)
       else store_value_part line e c k (upd_kv k (\<lambda>x. x\<lparr>kv_key := q\<rparr>) w1)
     }
   }"

definition init_line_key_val :: "string \<Rightarrow> ini_world \<Rightarrow> (int \<times> ini_world) option" where
  "init_line_key_val line w =
     (let p_equ = str_frist_constchar (Some line) CONTENT_EQUALITY_SIGN;
          p_comma = str_frist_constchar (Some line) CONTENT_COMMA_SIGN
      in if (case (p_comma, p_equ) of (Some c, Some e) \<Rightarrow> c < e | _ \<Rightarrow> False)
         then Some (INIFILE_FORMAT_ERROR, w)
         else case p_equ of
             Some e \<Rightarrow>
               if 0 < e
               then (let (index, w1) = get_index_ini_keyvalue w
                     in if index < 0 then Some (index, w1)
                        else store_key_part line e p_comma (nat index) w1)
               else Some (INIFILE_FORMAT_ERROR, w)
           | None \<Rightarrow> Some (INIFILE_FORMAT_ERROR, w))"

definition init_line_section :: "string \<Rightarrow> ini_world \<Rightarrow> (int \<times> ini_world) option" where
  "init_line_section line w =
     (let p_brack = str_frist_constchar (Some line) CONTENT_LEFT_BRACKET;
          q_brack = str_frist_constchar (Some line) CONTENT_RIGHT_BRACKET;
          (index, w1) = get_index_ini_section w
      in if index < 0 then Some (index, w1)
         else let s = nat index
         in case (p_brack, q_brack) of
              (Some b, Some q) \<Rightarrow>
                if b + 1 < q - 1
                then do {
                  (ret, p, w2) \<leftarrow> storage_char_memory (span line (b + 1) (q - 1)) w1;
                  if ret < 0 then Some (ret, free_sec s w2)
                  else Some (index, upd_sec s (\<lambda>x. x\<lparr>sec_sec := p\<rparr>) w2)
                }
                else Some (INIFILE_FORMAT_ERROR, free_sec s w1)
            | _ \<Rightarrow> Some (INIFILE_FORMAT_ERROR, free_sec s w1))"

section \<open>Linking what a line holds\<close>

text \<open>
  The end of a list, and the assignments that append a node there (\<^verbatim>\<open>p->last = n; n->pre = p;
  n->last = NULL;\<close>).
\<close>

definition section_end :: "ini_world \<Rightarrow> nat \<Rightarrow> nat option" where
  "section_end w s = list_end (length (section_array w)) (\<lambda>s. sec_last (sec_at w s)) s"

definition keyval_end :: "ini_world \<Rightarrow> nat \<Rightarrow> nat option" where
  "keyval_end w k = list_end (length (keyval_array w)) (\<lambda>k. kv_last (kv_at w k)) k"

definition link_section :: "nat \<Rightarrow> nat \<Rightarrow> ini_world \<Rightarrow> ini_world" where
  "link_section p n w =
     upd_sec n (\<lambda>x. x\<lparr>sec_pre := Some p, sec_last := None\<rparr>) (upd_sec p (\<lambda>x. x\<lparr>sec_last := Some n\<rparr>) w)"

definition link_keyval :: "nat \<Rightarrow> nat \<Rightarrow> ini_world \<Rightarrow> ini_world" where
  "link_keyval p n w =
     upd_kv n (\<lambda>x. x\<lparr>kv_pre := Some p, kv_last := None\<rparr>) (upd_kv p (\<lambda>x. x\<lparr>kv_last := Some n\<rparr>) w)"

text \<open>Appending to the list that starts at \<open>p_section\<close> (\<open>p_key\<close>), the head as it was read before.\<close>

definition attach_section :: "nat \<Rightarrow> nat option \<Rightarrow> nat \<Rightarrow> ini_world \<Rightarrow> ini_world option" where
  "attach_section f p_section n w =
     (case p_section of
        None \<Rightarrow> Some (upd_fil f (\<lambda>x. x\<lparr>fil_head := Some n\<rparr>) w)
      | Some s \<Rightarrow> do {
          e \<leftarrow> section_end w s;
          Some (link_section e n w)
        })"

definition attach_keyval :: "nat \<Rightarrow> nat option \<Rightarrow> nat \<Rightarrow> ini_world \<Rightarrow> ini_world option" where
  "attach_keyval s p_key n w =
     (case p_key of
        None \<Rightarrow> Some (upd_sec s (\<lambda>x. x\<lparr>sec_head := Some n\<rparr>) w)
      | Some k \<Rightarrow> do {
          e \<leftarrow> keyval_end w k;
          Some (link_keyval e n w)
        })"

text \<open>The case \<^verbatim>\<open>LINE_SECTION\<close> of \<^verbatim>\<open>init_every_line_inifile\<close>.\<close>

definition every_line_section :: "nat \<Rightarrow> string \<Rightarrow> ini_world \<Rightarrow> (int \<times> ini_world) option" where
  "every_line_section f line w = do {
     let p_section = fil_head (fil_at w f);
     (ret, w1) \<leftarrow> init_line_section line w;
     if ret < 0 then Some (ret, w1)
     else do {
       let n = nat ret;
       f_section \<leftarrow> find_inifile_section w1 p_section
                      (map_option (deref (pool_mem w1)) (sec_sec (sec_at w1 n))) 0;
       if f_section \<noteq> None then Some (INIFILE_FORMAT_ERROR, free_sec n w1)
       else do {
         w2 \<leftarrow> attach_section f p_section n w1;
         Some (ret, w2)
       }
     }
   }"

text \<open>The case \<^verbatim>\<open>LINE_KEYVALUE\<close>.\<close>

definition every_line_keyvalue :: "nat \<Rightarrow> string \<Rightarrow> ini_world \<Rightarrow> (int \<times> ini_world) option" where
  "every_line_keyvalue f line w =
     (case fil_head (fil_at w f) of
        None \<Rightarrow> Some (INIFILE_FORMAT_ERROR, w)
      | Some s0 \<Rightarrow> do {
          s \<leftarrow> section_end w s0;
          let p_key = sec_head (sec_at w s);
          (ret, w1) \<leftarrow> init_line_key_val line w;
          if ret < 0 then Some (ret, w1)
          else do {
            let n = nat ret;
            f_key \<leftarrow> find_keyvalue_unsect w1 p_key
                       (map_option (deref (pool_mem w1)) (kv_key (kv_at w1 n))) 0;
            if f_key \<noteq> None then Some (INIFILE_FORMAT_ERROR, free_kv n w1)
            else do {
              w2 \<leftarrow> attach_keyval s p_key n w1;
              Some (ret, w2)
            }
          }
        })"

definition init_every_line_inifile :: "nat \<Rightarrow> string \<Rightarrow> ini_world \<Rightarrow> (int \<times> ini_world) option" where
  "init_every_line_inifile f line w =
     (case judge_ini_file_linetype line of
        LINE_SECTION \<Rightarrow> every_line_section f line w
      | LINE_KEYVALUE \<Rightarrow> every_line_keyvalue f line w
      | LINE_NOTE \<Rightarrow> Some (0, w)
      | LINE_BLANK \<Rightarrow> Some (0, w)
      | LINE_ERROR \<Rightarrow> Some (INIFILE_FORMAT_ERROR, w))"

section \<open>Reading the file\<close>

text \<open>The loop over \<^verbatim>\<open>fgets\<close>; the buffer is all zero whenever \<^verbatim>\<open>fgets\<close> is called.\<close>

fun read_lines :: "nat \<Rightarrow> string list \<Rightarrow> int \<Rightarrow> ini_world \<Rightarrow> (int \<times> ini_world) option" where
  "read_lines f [] ret w = Some (ret, w)"
| "read_lines f (c # cs) ret w = do {
     (ret', w') \<leftarrow> init_every_line_inifile f (fgets_into [] c) w;
     if ret' < 0 then Some (ret', w') else read_lines f cs ret' w'
   }"

definition file_chunks :: "string \<Rightarrow> string list" where
  "file_chunks content = fgets_chunks (INIFILE_MAX_CONTENT_LINELEN - 1) content"

definition read_analys_ini_file :: "nat \<Rightarrow> string \<Rightarrow> ini_world \<Rightarrow> (int \<times> ini_world) option" where
  "read_analys_ini_file f name w =
     (if \<not> can_open (ini_fs w) name then Some (INIFILE_NO_EXIST, w)
      else read_lines f (file_chunks (the (fs_files (ini_fs w) name))) 0 w)"

end
