(* ===== verification/Ini_Rewrite.thy ===== *)
theory Ini_Rewrite
  imports Ini_Parse
begin

text \<open>
  Writing a change back to the ini file: \<^verbatim>\<open>delete_tmp_name_file\<close>, \<^verbatim>\<open>re_name_ini_file\<close>,
  \<^verbatim>\<open>re_write_ini_file\<close> and the three rewriters \<^verbatim>\<open>rewrite_after_update\<close>, \<^verbatim>\<open>rewrite_after_add\<close> and
  \<^verbatim>\<open>rewrite_after_delete\<close> of \<^verbatim>\<open>v2.0.0/inifile.c\<close>. Each copies the file line by line to
  \<^verbatim>\<open><name>.tmp\<close> and then replaces the file by the copy, or removes the copy on an error.
\<close>

section \<open>The parameter block\<close>

text \<open>
  \<^verbatim>\<open>INI_PARAMETER\<close> belongs to the caller, and the operations store the string lengths they compute
  in it, so it is part of what they return.
\<close>

record INI_PARAMETER =
  par_section :: "string option"
  par_section_len :: int
  par_key :: "string option"
  par_key_len :: int
  par_value :: "string option"
  par_value_len :: int

text \<open>\<^verbatim>\<open>if(p->x_len <= 0) p->x_len = str_int_len(p->x);\<close>\<close>

definition fill_section_len :: "INI_PARAMETER \<Rightarrow> INI_PARAMETER" where
  "fill_section_len p =
     (if par_section_len p \<le> 0 then p\<lparr>par_section_len := int (str_int_len (par_section p))\<rparr> else p)"

definition fill_key_len :: "INI_PARAMETER \<Rightarrow> INI_PARAMETER" where
  "fill_key_len p =
     (if par_key_len p \<le> 0 then p\<lparr>par_key_len := int (str_int_len (par_key p))\<rparr> else p)"

definition fill_value_len :: "INI_PARAMETER \<Rightarrow> INI_PARAMETER" where
  "fill_value_len p =
     (if par_value_len p \<le> 0 then p\<lparr>par_value_len := int (str_int_len (par_value p))\<rparr> else p)"

section \<open>Temporary files and the shell\<close>

definition tem_suff_name :: string where
  "tem_suff_name = ''.tmp''"

definition delete_tmp_name_file :: "string \<Rightarrow> file_system \<Rightarrow> file_system option" where
  "delete_tmp_name_file filename fs =
     (if length (''rm -rf '' @ filename @ tem_suff_name) < INIFILE_SYSTEM_CMD_LEN \<and> shell_plain filename
      then Some (fs_remove (filename @ tem_suff_name) fs)
      else None)"

definition re_name_ini_file :: "string \<Rightarrow> file_system \<Rightarrow> file_system option" where
  "re_name_ini_file filename fs =
     (if length (''rm -rf '' @ filename @ '' && mv '' @ filename @ tem_suff_name @ '' '' @ filename)
           < INIFILE_SYSTEM_CMD_LEN \<and> shell_plain filename
      then Some (fs_move (filename @ tem_suff_name) filename (fs_remove filename fs))
      else None)"

text \<open>\<^verbatim>\<open>sprintf(tmp_name, "%s%s", filename, tem_suff_name)\<close> into a buffer of 128 bytes.\<close>

definition make_tmp_name :: "string \<Rightarrow> string option" where
  "make_tmp_name filename =
     (if length (filename @ tem_suff_name) < INIFILE_FILEALL_NAME_LEN
      then Some (filename @ tem_suff_name) else None)"

text \<open>A write into a line buffer that keeps its terminator inside.\<close>

definition in_line :: "string \<Rightarrow> string option" where
  "in_line s = (if length s < INIFILE_MAX_CONTENT_LINELEN then Some s else None)"

section \<open>The copying loop\<close>

text \<open>
  The loop of the three rewriters. A step handles one chunk of the file: \<open>None\<close> is undefined,
  \<open>Inl ret\<close> is \<^verbatim>\<open>goto error_out\<close>, and \<open>Inr (s', out)\<close> goes on with the bytes \<open>out\<close> written.
\<close>

type_synonym 's line_step = "'s \<Rightarrow> string \<Rightarrow> (int + 's \<times> string) option"

fun copy_loop :: "'s line_step \<Rightarrow> 's \<Rightarrow> string list \<Rightarrow> (int option \<times> 's \<times> string) option" where
  "copy_loop step s [] = Some (None, s, [])"
| "copy_loop step s (c # cs) = do {
     r \<leftarrow> step s c;
     (case r of
        Inl ret \<Rightarrow> Some (Some ret, s, [])
      | Inr (s', out) \<Rightarrow> do {
          (err, s'', out') \<leftarrow> copy_loop step s' cs;
          Some (err, s'', out @ out')
        })
   }"

text \<open>
  The frame of the three rewriters: open both files, copy, and then finish at \<^verbatim>\<open>error_out\<close>.
  \<open>prefix_out\<close> is what is written ahead of the copy, and \<open>result\<close> reads the return value off the final
  state of the loop. The final state is part of the result, because a parameter length may be
  filled in inside the loop.
\<close>

definition finish_rewrite :: "string \<Rightarrow> int \<Rightarrow> file_system \<Rightarrow> (int \<times> file_system) option" where
  "finish_rewrite filename ret fs = do {
     fs' \<leftarrow> (if ret < 0 then delete_tmp_name_file filename fs else re_name_ini_file filename fs);
     Some (ret, fs')
   }"

definition opens_both :: "file_system \<Rightarrow> string \<Rightarrow> string \<Rightarrow> bool" where
  "opens_both fs filename tmp_name \<longleftrightarrow> can_open fs filename \<and> \<not> fs_denied fs tmp_name"

definition rewrite_file ::
  "'s line_step \<Rightarrow> 's \<Rightarrow> ('s \<Rightarrow> int) \<Rightarrow> string option \<Rightarrow> string \<Rightarrow> file_system \<Rightarrow> (int \<times> 's \<times> file_system) option" where
  "rewrite_file step s0 result prefix_out filename fs = do {
     tmp_name \<leftarrow> make_tmp_name filename;
     if \<not> opens_both fs filename tmp_name
     then do {
       (ret, fs') \<leftarrow> finish_rewrite filename INIFILE_NO_EXIST fs;
       Some (ret, s0, fs')
     }
     else do {
       pre \<leftarrow> prefix_out;
       (err, s, out) \<leftarrow> copy_loop step s0 (file_chunks (the (fs_files fs filename)));
       (ret, fs') \<leftarrow> finish_rewrite filename (case err of Some e \<Rightarrow> e | None \<Rightarrow> result s)
                      (fs_write tmp_name (pre @ out) fs);
       Some (ret, s, fs')
     }
   }"

text \<open>
  \<^verbatim>\<open>re_write_ini_file\<close> writes every line twice. It returns without closing or renaming anything on
  an open error.
\<close>

definition re_write_ini_file :: "string \<Rightarrow> file_system \<Rightarrow> (int \<times> file_system) option" where
  "re_write_ini_file filename fs = do {
     tmp_name \<leftarrow> make_tmp_name filename;
     if \<not> can_open fs filename then Some (INIFILE_NO_EXIST, fs)
     else if fs_denied fs tmp_name then Some (INIFILE_NO_EXIST, fs)
     else Some (0, fs_write tmp_name
            (concat (map (\<lambda>c. cstr c @ cstr c) (file_chunks (the (fs_files fs filename))))) fs)
   }"

section \<open>Matching a line\<close>

text \<open>
  \<^verbatim>\<open>q_char = p_char + len; if(*q_char is a stop) ret = memcmp(name, p_char, len);\<close>
  The result is \<open>Some None\<close> when there is no stop, and else the value of \<^verbatim>\<open>memcmp\<close>. Reading behind
  the line buffer, or behind \<open>name\<close>, is undefined.
\<close>

definition match_at :: "string \<Rightarrow> nat \<Rightarrow> string \<Rightarrow> int \<Rightarrow> (char \<Rightarrow> bool) \<Rightarrow> int option option" where
  "match_at line p_char name len stop =
     (let n = nat len; q_char = p_char + n
      in if q_char \<ge> INIFILE_MAX_CONTENT_LINELEN then None
         else if stop (byte_at line q_char)
         then if n > length name + 1 then None
              else Some (Some (memcmp (take n (name @ [NUL])) (map (byte_at line) [p_char..<q_char])))
         else Some None)"

definition stop_section :: "char \<Rightarrow> bool" where
  "stop_section c \<longleftrightarrow> c = CONTENT_RIGHT_BRACKET"

definition stop_key :: "char \<Rightarrow> bool" where
  "stop_key c \<longleftrightarrow> c = CONTENT_SPACE_SIGN \<or> c = CONTENT_TAB_SIGN \<or> c = CONTENT_EQUALITY_SIGN"

section \<open>rewrite\_after\_update\<close>

text \<open>
  The new line: everything up to the value, the new value, and behind a tab the old comment (which
  still has its newline), then a newline.
\<close>

definition updated_line :: "string \<Rightarrow> nat \<Rightarrow> string \<Rightarrow> int \<Rightarrow> string option" where
  "updated_line line equ value value_len = do {
     let p_value = equ + 1 + skip_blanks (drop (equ + 1) line);
     let mod_line = map (byte_at line) [0..<p_value];
     let mod_line = cstr mod_line @ take (nat value_len) (cstr value);
     mod_line \<leftarrow> in_line mod_line;
     mod_line \<leftarrow> (case str_frist_constchar (Some (drop p_value line)) CONTENT_COMMA_SIGN of
         None \<Rightarrow> Some mod_line
       | Some c \<Rightarrow> in_line (mod_line @ [CONTENT_TAB_SIGN] @ cstr (drop (p_value + c) line)));
     in_line (mod_line @ [CONTENT_NEELINE_SIGN])
   }"

text \<open>The state of the loop is \<open>(flag, mod_flag)\<close>.\<close>

definition update_step :: "INI_PARAMETER \<Rightarrow> (nat \<times> nat) line_step" where
  "update_step par = (\<lambda>(flag, mod_flag) chunk.
     let line = fgets_into [] chunk
     in if mod_flag \<noteq> 0 then Some (Inr ((flag, mod_flag), cstr line))
        else case judge_ini_file_linetype line of
          LINE_SECTION \<Rightarrow>
            (case str_frist_constchar (Some line) CONTENT_LEFT_BRACKET of
               None \<Rightarrow> Some (Inl INIFILE_REWRITE_ERROR)
             | Some b \<Rightarrow> do {
                 m \<leftarrow> match_at line (b + 1) (the (par_section par)) (par_section_len par) stop_section;
                 Some (Inr ((if m = Some 0 then 1 else flag, mod_flag), cstr line))
               })
        | LINE_KEYVALUE \<Rightarrow>
            if flag = 1
            then (case str_frist_constchar (Some line) CONTENT_EQUALITY_SIGN of
                None \<Rightarrow> Some (Inl INIFILE_REWRITE_ERROR)
              | Some e \<Rightarrow> do {
                  m \<leftarrow> match_at line (skip_blanks line) (the (par_key par)) (par_key_len par) stop_key;
                  if m = Some 0
                  then do {
                    line' \<leftarrow> updated_line line e (the (par_value par)) (par_value_len par);
                    Some (Inr ((flag, 1), line'))
                  }
                  else Some (Inr ((flag, mod_flag), cstr line))
                })
            else Some (Inr ((flag, mod_flag), cstr line))
        | LINE_NOTE \<Rightarrow> Some (Inr ((flag, mod_flag), cstr line))
        | LINE_BLANK \<Rightarrow> Some (Inr ((flag, mod_flag), cstr line))
        | LINE_ERROR \<Rightarrow> Some (Inl INIFILE_FORMAT_ERROR))"

definition rewrite_after_update ::
  "string \<Rightarrow> INI_PARAMETER \<Rightarrow> file_system \<Rightarrow> (int \<times> INI_PARAMETER \<times> file_system) option" where
  "rewrite_after_update filename par fs =
     (if par_section par = None \<or> par_key par = None \<or> par_value par = None
      then Some (INIFILE_ERROR_PARAMETER, par, fs)
      else do {
        let par' = fill_value_len (fill_key_len (fill_section_len par));
        (ret, _, fs') \<leftarrow> rewrite_file (update_step par') (0, 0) (\<lambda>_. 0) (Some []) filename fs;
        Some (ret, par', fs')
      })"

section \<open>rewrite\_after\_add\<close>

text \<open>\<^verbatim>\<open>snprintf\<close> of a string argument that may be null (undefined).\<close>

definition print_arg :: "string option \<Rightarrow> int \<Rightarrow> string option" where
  "print_arg s len = map_option (\<lambda>t. take (nat len) (cstr t)) s"

definition add_step :: "INI_PARAMETER \<Rightarrow> nat line_step" where
  "add_step par = (\<lambda>flag chunk.
     let line = fgets_into [] chunk
     in if flag \<noteq> 0 then Some (Inr (flag, cstr line))
        else case judge_ini_file_linetype line of
          LINE_SECTION \<Rightarrow>
            (case str_frist_constchar (Some line) CONTENT_LEFT_BRACKET of
               None \<Rightarrow> Some (Inl INIFILE_REWRITE_ERROR)
             | Some b \<Rightarrow> do {
                 m \<leftarrow> match_at line (b + 1) (the (par_section par)) (par_section_len par) stop_section;
                 if m = Some 0
                 then do {
                   key \<leftarrow> print_arg (par_key par) (par_key_len par);
                   value \<leftarrow> print_arg (par_value par) (par_value_len par);
                   line' \<leftarrow> in_line (cstr line @ key @ [CONTENT_TAB_SIGN, CONTENT_EQUALITY_SIGN, CONTENT_TAB_SIGN]
                                     @ value @ [CONTENT_NEELINE_SIGN]);
                   Some (Inr (1, line'))
                 }
                 else Some (Inr (flag, cstr line))
               })
        | LINE_KEYVALUE \<Rightarrow> Some (Inr (flag, cstr line))
        | LINE_NOTE \<Rightarrow> Some (Inr (flag, cstr line))
        | LINE_BLANK \<Rightarrow> Some (Inr (flag, cstr line))
        | LINE_ERROR \<Rightarrow> Some (Inl INIFILE_FORMAT_ERROR))"

text \<open>The line \<^verbatim>\<open>[section]\<close> and the empty line that a new section is announced with.\<close>

definition new_section_lines :: "INI_PARAMETER \<Rightarrow> string option" where
  "new_section_lines par = do {
     name \<leftarrow> print_arg (par_section par) (par_section_len par);
     in_line (CONTENT_LEFT_BRACKET # name @ [CONTENT_RIGHT_BRACKET, CONTENT_NEELINE_SIGN, CONTENT_NEELINE_SIGN])
   }"

definition rewrite_after_add ::
  "string \<Rightarrow> INI_PARAMETER \<Rightarrow> file_system \<Rightarrow> (int \<times> INI_PARAMETER \<times> file_system) option" where
  "rewrite_after_add filename par fs =
     (if par_section par = None then Some (INIFILE_ERROR_PARAMETER, par, fs)
      else do {
        let par1 = fill_section_len par;
        tmp_name \<leftarrow> make_tmp_name filename;
        if par_key par = None
        then do {
          (ret, _, fs') \<leftarrow> rewrite_file (add_step par1) 1 (\<lambda>_. 0) (new_section_lines par1) filename fs;
          Some (ret, par1, fs')
        }
        else do {
          let par2 = (if opens_both fs filename tmp_name then fill_value_len (fill_key_len par1) else par1);
          (ret, _, fs') \<leftarrow> rewrite_file (add_step par2) 0 (\<lambda>_. 0) (Some []) filename fs;
          Some (ret, par2, fs')
        }
      })"

section \<open>rewrite\_after\_delete\<close>

text \<open>
  The state of this loop: \<^verbatim>\<open>flag\<close>, \<^verbatim>\<open>ret\<close> (which keeps the last \<^verbatim>\<open>memcmp\<close>), the line buffer (the
  \<^verbatim>\<open>continue\<close>s skip the \<^verbatim>\<open>memset\<close>, so \<^verbatim>\<open>fgets\<close> may find old bytes in it) and the parameter, whose
  \<^verbatim>\<open>key_len\<close> is filled in inside the loop.
\<close>

record delete_state =
  ds_flag :: nat
  ds_ret :: int
  ds_line :: string
  ds_par :: INI_PARAMETER

text \<open>Falling out of the \<^verbatim>\<open>switch\<close>: the line is written and the buffer cleared.\<close>

definition delete_keep :: "delete_state \<Rightarrow> (int + delete_state \<times> string) option" where
  "delete_keep s = Some (Inr (s\<lparr>ds_line := []\<rparr>, cstr (ds_line s)))"

definition delete_section_line :: "delete_state \<Rightarrow> (int + delete_state \<times> string) option" where
  "delete_section_line s =
     (let line = ds_line s; par = ds_par s
      in case str_frist_constchar (Some line) CONTENT_LEFT_BRACKET of
           None \<Rightarrow> Some (Inl INIFILE_REWRITE_ERROR)
         | Some b \<Rightarrow>
             if ds_flag s = 1 then delete_keep (s\<lparr>ds_flag := 3\<rparr>)
             else if ds_flag s = 2 then delete_keep (s\<lparr>ds_flag := 3\<rparr>)
             else do {
               m \<leftarrow> match_at line (b + 1) (the (par_section par)) (par_section_len par) stop_section;
               (case m of
                  None \<Rightarrow> delete_keep s
                | Some ret \<Rightarrow>
                    if ret = 0
                    then Some (Inr (if par_key par \<noteq> None
                                    then s\<lparr>ds_ret := 0, ds_flag := 2, ds_par := fill_key_len par\<rparr>
                                    else s\<lparr>ds_ret := 0, ds_flag := 1\<rparr>, []))
                    else delete_keep (s\<lparr>ds_ret := ret\<rparr>))
             })"

definition delete_keyvalue_line :: "delete_state \<Rightarrow> (int + delete_state \<times> string) option" where
  "delete_keyvalue_line s =
     (let line = ds_line s; par = ds_par s
      in if ds_flag s = 1 then Some (Inr (s, []))
         else if ds_flag s = 2
         then (case str_frist_constchar (Some line) CONTENT_EQUALITY_SIGN of
             None \<Rightarrow> Some (Inl INIFILE_REWRITE_ERROR)
           | Some e \<Rightarrow> do {
               m \<leftarrow> match_at line (skip_blanks line) (the (par_key par)) (par_key_len par) stop_key;
               (case m of
                  None \<Rightarrow> delete_keep s
                | Some ret \<Rightarrow>
                    if ret = 0 then Some (Inr (s\<lparr>ds_ret := 0, ds_flag := 3\<rparr>, []))
                    else delete_keep (s\<lparr>ds_ret := ret\<rparr>))
             })
         else delete_keep s)"

definition delete_step :: "delete_state line_step" where
  "delete_step s0 chunk =
     (let s = s0\<lparr>ds_line := fgets_into (ds_line s0) chunk\<rparr>
      in if ds_flag s = 3 then delete_keep s
         else case judge_ini_file_linetype (ds_line s) of
           LINE_SECTION \<Rightarrow> delete_section_line s
         | LINE_KEYVALUE \<Rightarrow> delete_keyvalue_line s
         | LINE_NOTE \<Rightarrow> delete_keep s
         | LINE_BLANK \<Rightarrow> delete_keep s
         | LINE_ERROR \<Rightarrow> Some (Inl INIFILE_FORMAT_ERROR))"

definition delete_start :: "INI_PARAMETER \<Rightarrow> delete_state" where
  "delete_start par = \<lparr>ds_flag = 0, ds_ret = 0, ds_line = [], ds_par = par\<rparr>"

definition rewrite_after_delete ::
  "string \<Rightarrow> INI_PARAMETER \<Rightarrow> file_system \<Rightarrow> (int \<times> INI_PARAMETER \<times> file_system) option" where
  "rewrite_after_delete filename par fs =
     (if par_section par = None then Some (INIFILE_ERROR_PARAMETER, par, fs)
      else do {
        let par1 = fill_section_len par;
        (ret, s, fs') \<leftarrow> rewrite_file delete_step (delete_start par1) ds_ret (Some []) filename fs;
        Some (ret, ds_par s, fs')
      })"

end
