(* ===== verification/Ini_Api.thy ===== *)
theory Ini_Api
  imports Ini_Rewrite
begin

text \<open>
  The operations \<^verbatim>\<open>v2.0.0/inifile.h\<close> exports: \<^verbatim>\<open>init_ini_file\<close>, \<^verbatim>\<open>get_value_ofkey\<close>,
  \<^verbatim>\<open>update_value_ofkey\<close>, \<^verbatim>\<open>add_value_ofkey\<close>, \<^verbatim>\<open>delete_value_ofkey\<close>, \<^verbatim>\<open>delete_ini_section\<close>,
  \<^verbatim>\<open>add_ini_section\<close> and \<^verbatim>\<open>destroy_ini_source\<close>, with the test output \<^verbatim>\<open>ini_file_info_out\<close> and
  \<^verbatim>\<open>main\<close>. Each takes the world and returns it with the return value and, where the code writes
  through \<^verbatim>\<open>parameter\<close>, the parameter block. Every operation holds the lock of its file throughout, so
  it is one atomic step.
\<close>

section \<open>Releasing a file\<close>

definition valid_fd :: "int \<Rightarrow> bool" where
  "valid_fd fd \<longleftrightarrow> \<not> (fd < 0 \<or> fd \<ge> int MAX_OPERATION_FILE_NUM)"

text \<open>
  The loop that clears the keys below a section, in \<^verbatim>\<open>delete_ini_section\<close> and
  \<^verbatim>\<open>destroy_ini_source\<close>. It goes on to \<^verbatim>\<open>p->last\<close> first and then works on \<^verbatim>\<open>p->pre\<close>.
\<close>

fun clear_keyvals :: "nat \<Rightarrow> nat option \<Rightarrow> ini_world \<Rightarrow> ini_world option" where
  "clear_keyvals n None w = Some w"
| "clear_keyvals 0 (Some k) w = None"
| "clear_keyvals (Suc n) (Some k) w =
     (let w1 = upd_kv k (\<lambda>x. x\<lparr>kv_key := None, kv_value := None, kv_pre := None\<rparr>) w
      in case kv_last (kv_at w1 k) of
           Some k' \<Rightarrow>
             (case kv_pre (kv_at w1 k') of
                None \<Rightarrow> None
              | Some b \<Rightarrow> clear_keyvals n (Some k')
                  (upd_kv b (\<lambda>x. x\<lparr>kv_last := None, kv_flag := STRUCT_NODE_UN_USED\<rparr>) w1))
         | None \<Rightarrow> Some (upd_kv k (\<lambda>x. x\<lparr>kv_flag := STRUCT_NODE_UN_USED\<rparr>) w1))"

fun clear_sections :: "nat \<Rightarrow> nat option \<Rightarrow> ini_world \<Rightarrow> ini_world option" where
  "clear_sections n None w = Some w"
| "clear_sections 0 (Some s) w = None"
| "clear_sections (Suc n) (Some s) w = do {
     w0 \<leftarrow> clear_keyvals (length (keyval_array w)) (sec_head (sec_at w s)) w;
     let w1 = upd_sec s (\<lambda>x. x\<lparr>sec_sec := None, sec_head := None, sec_pre := None\<rparr>) w0;
     (case sec_last (sec_at w1 s) of
        Some s' \<Rightarrow>
          (case sec_pre (sec_at w1 s') of
             None \<Rightarrow> None
           | Some b \<Rightarrow> clear_sections n (Some s')
               (upd_sec b (\<lambda>x. x\<lparr>sec_last := None, sec_flag := STRUCT_NODE_UN_USED\<rparr>) w1))
      | None \<Rightarrow> Some (upd_sec s (\<lambda>x. x\<lparr>sec_flag := STRUCT_NODE_UN_USED\<rparr>) w1))
   }"

definition destroy_ini_source :: "int \<Rightarrow> ini_world \<Rightarrow> ini_world option" where
  "destroy_ini_source fd w =
     (if \<not> valid_fd fd then Some w
      else let f = nat fd
      in if fil_flag (fil_at w f) = STRUCT_NODE_IN_USED
         then do {
           w1 \<leftarrow> clear_sections (length (section_array w)) (fil_head (fil_at w f)) w;
           Some (upd_fil f (\<lambda>x. x\<lparr>fil_name := None, fil_head := None, fil_flag := STRUCT_NODE_UN_USED\<rparr>) w1)
         }
         else Some w)"

section \<open>Opening a file\<close>

text \<open>The first \<open>n\<close> bytes of a string object of the caller, terminator included.\<close>

definition arg_bytes :: "string \<Rightarrow> int \<Rightarrow> string option" where
  "arg_bytes s n = (if n > int (length s) + 1 then None else Some (take (nat n) (s @ [NUL])))"

definition init_ini_file :: "string option \<Rightarrow> int \<Rightarrow> ini_world \<Rightarrow> (int \<times> ini_world) option" where
  "init_ini_file filename len w =
     (let w0 = ini_file_memory_init w
      in case filename of
           None \<Rightarrow> Some (INIFILE_ERROR_PARAMETER, w0)
         | Some name \<Rightarrow>
             (let (index, w1) = get_index_ini_file w0
              in if index < 0 then Some (index, w1)
                 else do {
                   let f = nat index;
                   bs \<leftarrow> arg_bytes name (if len \<le> 0 then int (str_int_len filename) else len);
                   (ret, q, w2) \<leftarrow> storage_char_memory bs w1;
                   if ret < 0
                   then do { w3 \<leftarrow> destroy_ini_source index w2; Some (ret, w3) }
                   else do {
                     let w3 = upd_fil f (\<lambda>x. x\<lparr>fil_name := q\<rparr>) w2;
                     (ret', w4) \<leftarrow> read_analys_ini_file f (cstr name) w3;
                     if ret' < 0
                     then do { w5 \<leftarrow> destroy_ini_source index w4; Some (ret', w5) }
                     else Some (index, w4)
                   }
                 }))"

section \<open>Reading and changing values\<close>

text \<open>\<open>fd_section\<close> and \<open>sec_keyval\<close>: the two searches every operation starts with.\<close>

definition fd_section :: "int \<Rightarrow> INI_PARAMETER \<Rightarrow> ini_world \<Rightarrow> nat option option" where
  "fd_section fd par w =
     find_inifile_section w (fil_head (fil_at w (nat fd))) (par_section par) (par_section_len par)"

definition sec_keyval :: "nat \<Rightarrow> INI_PARAMETER \<Rightarrow> ini_world \<Rightarrow> nat option option" where
  "sec_keyval s par w = find_keyvalue_unsect w (sec_head (sec_at w s)) (par_key par) (par_key_len par)"

definition get_value_ofkey :: "int \<Rightarrow> INI_PARAMETER option \<Rightarrow> ini_world \<Rightarrow> ptr option option" where
  "get_value_ofkey fd parameter w =
     (case parameter of
        None \<Rightarrow> Some None
      | Some par \<Rightarrow>
          if \<not> valid_fd fd \<or> par_section par = None \<or> par_key par = None then Some None
          else do {
            p_section \<leftarrow> fd_section fd par w;
            (case p_section of
               None \<Rightarrow> Some None
             | Some s \<Rightarrow> do {
                 p_keyval \<leftarrow> sec_keyval s par w;
                 Some (case p_keyval of None \<Rightarrow> None | Some k \<Rightarrow> kv_value (kv_at w k))
               })
          })"

text \<open>The file name handed to a rewriter: a null name is undefined there.\<close>

definition file_name :: "nat \<Rightarrow> ini_world \<Rightarrow> string option" where
  "file_name f w = map_option (pool_string (pool_mem w)) (fil_name (fil_at w f))"

type_synonym rewriter = "string \<Rightarrow> INI_PARAMETER \<Rightarrow> file_system \<Rightarrow> (int \<times> INI_PARAMETER \<times> file_system) option"

definition call_rewrite ::
  "rewriter \<Rightarrow> int \<Rightarrow> INI_PARAMETER \<Rightarrow> ini_world \<Rightarrow> (int \<times> INI_PARAMETER option \<times> ini_world) option" where
  "call_rewrite rw fd par w = do {
     name \<leftarrow> file_name (nat fd) w;
     (ret, par', fs') \<leftarrow> rw name par (ini_fs w);
     Some (ret, Some par', w\<lparr>ini_fs := fs'\<rparr>)
   }"

definition update_value_ofkey ::
  "int \<Rightarrow> INI_PARAMETER option \<Rightarrow> ini_world \<Rightarrow> (int \<times> INI_PARAMETER option \<times> ini_world) option" where
  "update_value_ofkey fd parameter w =
     (case parameter of
        None \<Rightarrow> Some (INIFILE_ERROR_PARAMETER, None, w)
      | Some par \<Rightarrow>
          if \<not> valid_fd fd \<or> par_section par = None \<or> par_key par = None \<or> par_value par = None
          then Some (INIFILE_ERROR_PARAMETER, parameter, w)
          else do {
            p_section \<leftarrow> fd_section fd par w;
            (case p_section of
               None \<Rightarrow> Some (INIFILE_SECTION_NOFOUND, parameter, w)
             | Some s \<Rightarrow> do {
                 p_keyval \<leftarrow> sec_keyval s par w;
                 (case p_keyval of
                    None \<Rightarrow> Some (INIFILE_KEYVALUE_NOFOUND, parameter, w)
                  | Some k \<Rightarrow> do {
                      let par1 = fill_value_len par;
                      bs \<leftarrow> arg_bytes (the (par_value par1)) (par_value_len par1);
                      (ret, q, w1) \<leftarrow> storage_char_memory bs w;
                      if ret < 0 then Some (ret, Some par1, w1)
                      else call_rewrite rewrite_after_update fd par1
                             (upd_kv k (\<lambda>x. x\<lparr>kv_value := q\<rparr>) w1)
                    })
               })
          })"

text \<open>
  Appending in \<^verbatim>\<open>add_value_ofkey\<close> and \<^verbatim>\<open>add_ini_section\<close>: unlike the parser they do not clear the
  \<^verbatim>\<open>last\<close> pointer of the new node.
\<close>

definition append_keyval :: "nat \<Rightarrow> nat \<Rightarrow> ini_world \<Rightarrow> ini_world option" where
  "append_keyval s k w =
     (case sec_head (sec_at w s) of
        Some k0 \<Rightarrow> do {
          e \<leftarrow> keyval_end w k0;
          Some (upd_kv k (\<lambda>x. x\<lparr>kv_pre := Some e\<rparr>) (upd_kv e (\<lambda>x. x\<lparr>kv_last := Some k\<rparr>) w))
        }
      | None \<Rightarrow> Some (upd_sec s (\<lambda>x. x\<lparr>sec_head := Some k\<rparr>) w))"

definition append_section :: "nat \<Rightarrow> nat \<Rightarrow> ini_world \<Rightarrow> ini_world option" where
  "append_section f s w =
     (case fil_head (fil_at w f) of
        None \<Rightarrow> Some (upd_fil f (\<lambda>x. x\<lparr>fil_head := Some s\<rparr>) w)
      | Some s0 \<Rightarrow> do {
          e \<leftarrow> section_end w s0;
          Some (upd_sec s (\<lambda>x. x\<lparr>sec_pre := Some e\<rparr>) (upd_sec e (\<lambda>x. x\<lparr>sec_last := Some s\<rparr>) w))
        })"

text \<open>The line \<^verbatim>\<open>key=value\<close> that \<^verbatim>\<open>add_value_ofkey\<close> builds for the parser.\<close>

definition key_value_line :: "INI_PARAMETER \<Rightarrow> string option" where
  "key_value_line par = do {
     key \<leftarrow> print_arg (par_key par) (par_key_len par);
     value \<leftarrow> print_arg (par_value par) (par_value_len par);
     in_line (key @ [CONTENT_EQUALITY_SIGN] @ value)
   }"

definition add_value_ofkey ::
  "int \<Rightarrow> INI_PARAMETER option \<Rightarrow> ini_world \<Rightarrow> (int \<times> INI_PARAMETER option \<times> ini_world) option" where
  "add_value_ofkey fd parameter w =
     (case parameter of
        None \<Rightarrow> Some (INIFILE_ERROR_PARAMETER, None, w)
      | Some par \<Rightarrow>
          if \<not> valid_fd fd \<or> par_section par = None \<or> par_key par = None \<or> par_value par = None
          then Some (INIFILE_ERROR_PARAMETER, parameter, w)
          else do {
            p_section \<leftarrow> fd_section fd par w;
            (case p_section of
               None \<Rightarrow> Some (INIFILE_SECTION_NOFOUND, parameter, w)
             | Some s \<Rightarrow> do {
                 p_keyval \<leftarrow> sec_keyval s par w;
                 (case p_keyval of
                    Some k \<Rightarrow> Some (INIFILE_KEYVALUE_ALREAD, parameter, w)
                  | None \<Rightarrow> do {
                      let par1 = fill_value_len (fill_key_len par);
                      line \<leftarrow> key_value_line par1;
                      (ret, w1) \<leftarrow> init_line_key_val line w;
                      if ret < 0 then Some (ret, Some par1, w1)
                      else do {
                        w2 \<leftarrow> append_keyval s (nat ret) w1;
                        call_rewrite rewrite_after_add fd par1 w2
                      }
                    })
               })
          })"

text \<open>The pointer assignments that take a node out of its list.\<close>

definition unlink_keyval :: "nat \<Rightarrow> nat \<Rightarrow> ini_world \<Rightarrow> ini_world" where
  "unlink_keyval s k w =
     (let pre = kv_pre (kv_at w k);
          w1 = (case pre of
                  Some p \<Rightarrow> upd_kv p (\<lambda>x. x\<lparr>kv_last := kv_last (kv_at w k)\<rparr>) w
                | None \<Rightarrow> upd_sec s (\<lambda>x. x\<lparr>sec_head := kv_last (kv_at w k)\<rparr>) w)
      in case kv_last (kv_at w1 k) of
           Some n \<Rightarrow> upd_kv n (\<lambda>x. x\<lparr>kv_pre := kv_pre (kv_at w1 k)\<rparr>) w1
         | None \<Rightarrow> (case kv_pre (kv_at w1 k) of
               Some p \<Rightarrow> upd_kv p (\<lambda>x. x\<lparr>kv_last := None\<rparr>) w1
             | None \<Rightarrow> upd_sec s (\<lambda>x. x\<lparr>sec_head := None\<rparr>) w1))"

definition unlink_section :: "nat \<Rightarrow> nat \<Rightarrow> ini_world \<Rightarrow> ini_world" where
  "unlink_section f s w =
     (let pre = sec_pre (sec_at w s);
          w1 = (case pre of
                  Some p \<Rightarrow> upd_sec p (\<lambda>x. x\<lparr>sec_last := sec_last (sec_at w s)\<rparr>) w
                | None \<Rightarrow> upd_fil f (\<lambda>x. x\<lparr>fil_head := sec_last (sec_at w s)\<rparr>) w)
      in case sec_last (sec_at w1 s) of
           Some n \<Rightarrow> upd_sec n (\<lambda>x. x\<lparr>sec_pre := sec_pre (sec_at w1 s)\<rparr>) w1
         | None \<Rightarrow> (case sec_pre (sec_at w1 s) of
               Some p \<Rightarrow> upd_sec p (\<lambda>x. x\<lparr>sec_last := None\<rparr>) w1
             | None \<Rightarrow> upd_fil f (\<lambda>x. x\<lparr>fil_head := None\<rparr>) w1))"

text \<open>The assignments that clear the node itself.\<close>

definition release_keyval :: "nat \<Rightarrow> ini_world \<Rightarrow> ini_world" where
  "release_keyval k w =
     upd_kv k (\<lambda>x. x\<lparr>kv_pre := None, kv_last := None, kv_key := None, kv_value := None,
                     kv_flag := STRUCT_NODE_UN_USED\<rparr>) w"

definition release_section :: "nat \<Rightarrow> ini_world \<Rightarrow> ini_world" where
  "release_section s w =
     upd_sec s (\<lambda>x. x\<lparr>sec_pre := None, sec_last := None, sec_sec := None, sec_head := None,
                      sec_flag := STRUCT_NODE_UN_USED\<rparr>) w"

definition delete_value_ofkey ::
  "int \<Rightarrow> INI_PARAMETER option \<Rightarrow> ini_world \<Rightarrow> (int \<times> INI_PARAMETER option \<times> ini_world) option" where
  "delete_value_ofkey fd parameter w =
     (case parameter of
        None \<Rightarrow> Some (INIFILE_ERROR_PARAMETER, None, w)
      | Some par \<Rightarrow>
          if \<not> valid_fd fd \<or> par_section par = None \<or> par_key par = None
          then Some (INIFILE_ERROR_PARAMETER, parameter, w)
          else do {
            p_section \<leftarrow> fd_section fd par w;
            (case p_section of
               None \<Rightarrow> Some (INIFILE_SECTION_NOFOUND, parameter, w)
             | Some s \<Rightarrow> do {
                 p_keyval \<leftarrow> sec_keyval s par w;
                 (case p_keyval of
                    None \<Rightarrow> Some (INIFILE_KEYVALUE_NOFOUND, parameter, w)
                  | Some k \<Rightarrow>
                      call_rewrite rewrite_after_delete fd par (release_keyval k (unlink_keyval s k w)))
               })
          })"

definition delete_ini_section ::
  "int \<Rightarrow> INI_PARAMETER option \<Rightarrow> ini_world \<Rightarrow> (int \<times> INI_PARAMETER option \<times> ini_world) option" where
  "delete_ini_section fd parameter w =
     (case parameter of
        None \<Rightarrow> Some (INIFILE_ERROR_PARAMETER, None, w)
      | Some par \<Rightarrow>
          if \<not> valid_fd fd \<or> par_section par = None
          then Some (INIFILE_ERROR_PARAMETER, parameter, w)
          else do {
            p_section \<leftarrow> fd_section fd par w;
            (case p_section of
               None \<Rightarrow> Some (INIFILE_SECTION_NOFOUND, parameter, w)
             | Some s \<Rightarrow> do {
                 let w1 = unlink_section (nat fd) s w;
                 let p_keyval = sec_head (sec_at w1 s);
                 let w2 = release_section s w1;
                 w3 \<leftarrow> clear_keyvals (length (keyval_array w2)) p_keyval w2;
                 call_rewrite rewrite_after_delete fd par w3
               })
          })"

text \<open>The line \<^verbatim>\<open>[section]\<close> that \<^verbatim>\<open>add_ini_section\<close> builds for the parser.\<close>

definition section_line :: "INI_PARAMETER \<Rightarrow> string option" where
  "section_line par = do {
     name \<leftarrow> print_arg (par_section par) (par_section_len par);
     in_line (CONTENT_LEFT_BRACKET # name @ [CONTENT_RIGHT_BRACKET])
   }"

definition add_ini_section ::
  "int \<Rightarrow> INI_PARAMETER option \<Rightarrow> ini_world \<Rightarrow> (int \<times> INI_PARAMETER option \<times> ini_world) option" where
  "add_ini_section fd parameter w =
     (case parameter of
        None \<Rightarrow> Some (INIFILE_ERROR_PARAMETER, None, w)
      | Some par \<Rightarrow>
          if \<not> valid_fd fd \<or> par_section par = None
          then Some (INIFILE_ERROR_PARAMETER, parameter, w)
          else do {
            p_section \<leftarrow> fd_section fd par w;
            (case p_section of
               Some s \<Rightarrow> Some (INIFILE_SECTION_ALREAD, parameter, w)
             | None \<Rightarrow> do {
                 let par1 = fill_section_len par;
                 line \<leftarrow> section_line par1;
                 (ret, w1) \<leftarrow> init_line_section line w;
                 if ret < 0 then Some (ret, Some par1, w1)
                 else do {
                   w2 \<leftarrow> append_section (nat fd) (nat ret) w1;
                   call_rewrite rewrite_after_add fd par1 w2
                 }
               })
          })"

section \<open>The test program\<close>

datatype info_line = FileName string | SectionName string | KeyValue string string

fun info_keyvals :: "nat \<Rightarrow> ini_world \<Rightarrow> nat option \<Rightarrow> info_line list option" where
  "info_keyvals n w None = Some []"
| "info_keyvals 0 w (Some k) = None"
| "info_keyvals (Suc n) w (Some k) = do {
     key \<leftarrow> field_string (pool_mem w) (kv_key (kv_at w k));
     value \<leftarrow> field_string (pool_mem w) (kv_value (kv_at w k));
     rest \<leftarrow> info_keyvals n w (kv_last (kv_at w k));
     Some (KeyValue key value # rest)
   }"

fun info_sections :: "nat \<Rightarrow> ini_world \<Rightarrow> nat option \<Rightarrow> info_line list option" where
  "info_sections n w None = Some []"
| "info_sections 0 w (Some s) = None"
| "info_sections (Suc n) w (Some s) = do {
     let name = (case field_string (pool_mem w) (sec_sec (sec_at w s)) of
                   None \<Rightarrow> [] | Some t \<Rightarrow> [SectionName t]);
     ks \<leftarrow> info_keyvals (length (keyval_array w)) w (sec_head (sec_at w s));
     rest \<leftarrow> info_sections n w (sec_last (sec_at w s));
     Some (name @ ks @ rest)
   }"

definition ini_file_info_out :: "int \<Rightarrow> ini_world \<Rightarrow> info_line list option" where
  "ini_file_info_out fd w =
     (if \<not> valid_fd fd then Some []
      else let f = nat fd
      in if fil_flag (fil_at w f) = STRUCT_NODE_IN_USED
         then do {
           let name = (case file_name f w of None \<Rightarrow> [] | Some t \<Rightarrow> [FileName t]);
           rest \<leftarrow> info_sections (length (section_array w)) w (fil_head (fil_at w f));
           Some (name @ rest)
         }
         else Some [])"

text \<open>\<^verbatim>\<open>main\<close>, with its output; the part under \<^verbatim>\<open>#if 0\<close> is not compiled.\<close>

definition ini_main :: "ini_world \<Rightarrow> (int \<times> info_line list \<times> ini_world) option" where
  "ini_main w = do {
     (fd, w1) \<leftarrow> init_ini_file (Some ''conf/wc_db.conf'') 0 w;
     if fd < 0 then Some (fd, [], w1)
     else do {
       out1 \<leftarrow> ini_file_info_out fd w1;
       let par = \<lparr>par_section = Some ''jinyu'', par_section_len = 0, par_key = Some ''lover'',
                  par_key_len = 0, par_value = Some ''yunying'', par_value_len = 0\<rparr>;
       (ret, _, w2) \<leftarrow> add_value_ofkey fd (Some par) w1;
       out2 \<leftarrow> ini_file_info_out fd w2;
       w3 \<leftarrow> destroy_ini_source fd w2;
       Some (0, out1 @ out2, w3)
     }
   }"

end
