(* ===== verification/Node_Lists.thy ===== *)
theory Node_Lists
  imports C_Prelude
begin

text \<open>
  Doubly linked lists whose nodes live in one static array and are marked used or free by a flag:
  the sections of a file and the keys of a section in \<^verbatim>\<open>v2.0.0/inifile.c\<close>. \<open>node_lists\<close> is the
  invariant of such an array, for the lists \<open>L\<close> of its owners and a set \<open>P\<close> of nodes that are taken
  but in no list yet; the locale \<open>linked_nodes\<close> is the contract of the operations that take, free and remove
  a node, and \<open>appending_nodes\<close> adds one that appends.
\<close>

section \<open>Following a list\<close>

fun walk :: "nat \<Rightarrow> (nat \<Rightarrow> nat option) \<Rightarrow> nat option \<Rightarrow> nat list" where
  "walk n nxt None = []"
| "walk 0 nxt (Some x) = []"
| "walk (Suc n) nxt (Some x) = x # walk n nxt (nxt x)"

lemma walk_chain: "chain nxt p xs \<Longrightarrow> length xs \<le> n \<Longrightarrow> walk n nxt p = xs"
proof (induction xs arbitrary: p n)
  case Nil
  then show ?case by simp
next
  case (Cons x xs)
  then obtain m where "n = Suc m" by (cases n) auto
  with Cons show ?case by simp
qed

section \<open>Removing a node\<close>

lemma dchain_nxt_closed: "dchain nxt prv q p xs \<Longrightarrow> n \<in> set xs \<Longrightarrow> nxt n = Some m \<Longrightarrow> m \<in> set xs"
proof (induction xs arbitrary: p q)
  case Nil
  then show ?case by simp
next
  case (Cons x xs)
  then have d: "dchain nxt prv (Some x) (nxt x) xs" by simp
  show ?case
  proof (cases "n = x")
    case True
    with d Cons.prems(3) show ?thesis by (cases xs) auto
  next
    case False
    with Cons.IH[OF d] Cons.prems show ?thesis by simp
  qed
qed

lemma dchain_prv_closed:
  "dchain nxt prv q p xs \<Longrightarrow> n \<in> set xs \<Longrightarrow> n \<noteq> hd xs \<Longrightarrow> \<exists>y \<in> set (butlast xs). prv n = Some y"
proof (induction xs arbitrary: p q)
  case Nil
  then show ?case by simp
next
  case (Cons x xs)
  then have d: "dchain nxt prv (Some x) (nxt x) xs" and n: "n \<in> set xs" by auto
  then obtain y ys where xs: "xs = y # ys" by (cases xs) auto
  show ?case
  proof (cases "n = y")
    case True
    with d xs show ?thesis by simp
  next
    case False
    with Cons.IH[OF d n] xs show ?thesis by auto
  qed
qed

lemma dchain_prv_hd: "dchain nxt prv q p (x # xs) \<Longrightarrow> prv x = q"
  by simp

lemma dchain_remove:
  assumes "dchain nxt prv q p xs" and "distinct xs" and "n \<in> set xs" and "\<And>y. q = Some y \<Longrightarrow> y \<notin> set xs"
    and "\<And>x. x \<in> set xs \<Longrightarrow> x \<noteq> n \<Longrightarrow> nxt' x = (if prv n = Some x then nxt n else nxt x)"
    and "\<And>x. x \<in> set xs \<Longrightarrow> x \<noteq> n \<Longrightarrow> prv' x = (if nxt n = Some x then prv n else prv x)"
  shows "dchain nxt' prv' q (if n = hd xs then nxt n else p) (remove1 n xs)"
  using assms
proof (induction xs arbitrary: p q)
  case Nil
  then show ?case by simp
next
  case (Cons x xs)
  show ?case
  proof (cases "x = n")
    case True
    show ?thesis
    proof (cases xs)
      case Nil
      with True Cons.prems(1) show ?thesis by simp
    next
      case (Cons m ms)
      have q: "prv n = q" "nxt n = Some m" using Cons.prems(1) True Cons by auto
      have mne: "m \<noteq> n" "m \<notin> set ms" "n \<notin> set ms" using Cons.prems(2) True Cons by auto
      have nm: "nxt' m = nxt m" "prv' m = q"
        using Cons.prems(4,5,6) q mne Cons by auto
      have "nxt' y = nxt y" "prv' y = prv y" if "y \<in> set ms" for y
      proof -
        have "y \<noteq> n" "y \<noteq> m" "prv n \<noteq> Some y" using that mne Cons.prems(4)[of y] q(1) Cons by auto
        then show "nxt' y = nxt y" "prv' y = prv y" using Cons.prems(5,6)[of y] q(2) Cons that by auto
      qed
      then have "dchain nxt' prv' (Some m) (nxt m) ms = dchain nxt prv (Some m) (nxt m) ms"
        by (intro dchain_cong) auto
      with Cons.prems(1) True Cons q nm show ?thesis by simp
    qed
  next
    case False
    then have n: "n \<in> set xs" and d: "dchain nxt prv (Some x) (nxt x) xs" and x: "x \<notin> set xs"
      using Cons.prems by auto
    have px: "prv n = Some x \<longleftrightarrow> n = hd xs"
    proof (cases "n = hd xs")
      case True
      with d n show ?thesis by (cases xs) auto
    next
      case False
      then have "\<exists>y \<in> set xs. prv n = Some y"
        using dchain_prv_closed[OF d n] by (auto dest: in_set_butlastD)
      with False x show ?thesis by auto
    qed
    have nn: "nxt n \<noteq> Some x" using dchain_nxt_closed[OF d n] x by auto
    have "dchain nxt' prv' (Some x) (if n = hd xs then nxt n else nxt x) (remove1 n xs)"
      using Cons.IH[OF d _ n] Cons.prems(2,5,6) x by auto
    moreover have "nxt' x = (if n = hd xs then nxt n else nxt x)" "prv' x = prv x"
      using Cons.prems(5,6)[of x] False px nn by auto
    ultimately show ?thesis using False Cons.prems(1) by auto
  qed
qed

lemma dchain_prv_irrefl:
  "dchain nxt prv q p xs \<Longrightarrow> distinct xs \<Longrightarrow> (\<And>y. q = Some y \<Longrightarrow> y \<notin> set xs) \<Longrightarrow> n \<in> set xs \<Longrightarrow> prv n \<noteq> Some n"
proof (induction xs arbitrary: p q)
  case Nil
  then show ?case by simp
next
  case (Cons x xs)
  show ?case
  proof (cases "n = x")
    case True
    with Cons.prems(1,3) show ?thesis by (auto dest: dchain_prv_hd)
  next
    case False
    with Cons.IH[of "Some x" "nxt x"] Cons.prems(1,2,4) show ?thesis by auto
  qed
qed

lemma dchain_prv_ne:
  assumes d: "dchain nxt prv None p xs" and dis: "distinct xs" and n: "n \<in> set xs" and p: "prv n = Some y"
  shows "y \<in> set xs \<and> y \<noteq> n"
proof -
  have "n \<noteq> hd xs" using d n p by (cases xs) auto
  then show ?thesis
    using dchain_prv_closed[OF d n] dchain_prv_irrefl[OF d dis _ n] p by (auto dest: in_set_butlastD)
qed

lemma dchain_nxt_ne:
  assumes d: "dchain nxt prv q p xs" and dis: "distinct xs" and n: "n \<in> set xs" and m: "nxt n = Some m"
  shows "m \<in> set xs \<and> m \<noteq> n"
proof -
  obtain i where i: "i < length xs" "xs ! i = n" using n by (meson in_set_conv_nth)
  have c: "chain nxt (Some n) (drop i xs)" using chain_drop[OF dchain_imp_chain[OF d] i(1)] i(2) by simp
  then have "chain nxt (Some m) (drop (Suc i) xs)" using i m by (simp add: Cons_nth_drop_Suc[symmetric])
  moreover have "length (drop i xs) \<noteq> length (drop (Suc i) xs)" using i(1) by simp
  ultimately have "m \<noteq> n" using c chain_unique by metis
  then show ?thesis using dchain_nxt_closed[OF d n m] by simp
qed

section \<open>The invariant of a node array\<close>

definition node_lists ::
  "(nat \<Rightarrow> bool) \<Rightarrow> (nat \<Rightarrow> nat option) \<Rightarrow> (nat \<Rightarrow> nat option) \<Rightarrow> (nat \<Rightarrow> nat option) \<Rightarrow>
   nat \<Rightarrow> nat \<Rightarrow> (nat \<Rightarrow> nat list) \<Rightarrow> nat set \<Rightarrow> bool" where
  "node_lists used nxt prv head owners nodes L P \<longleftrightarrow>
     (\<forall>a < owners. dchain nxt prv None (head a) (L a) \<and> set (L a) \<subseteq> {..<nodes}) \<and>
     (\<forall>a < owners. \<forall>b < owners. a \<noteq> b \<longrightarrow> set (L a) \<inter> set (L b) = {}) \<and>
     (\<forall>n < nodes. if \<exists>a < owners. n \<in> set (L a) then used n \<and> n \<notin> P
                 else nxt n = None \<and> prv n = None \<and> used n = (n \<in> P))"

lemma node_listsD:
  assumes "node_lists used nxt prv head owners nodes L P"
  shows "\<And>a. a < owners \<Longrightarrow> dchain nxt prv None (head a) (L a)"
    and "\<And>a n. a < owners \<Longrightarrow> n \<in> set (L a) \<Longrightarrow> n < nodes"
    and "\<And>a b n. a < owners \<Longrightarrow> b < owners \<Longrightarrow> n \<in> set (L a) \<Longrightarrow> n \<in> set (L b) \<Longrightarrow> a = b"
    and "\<And>a n. a < owners \<Longrightarrow> n \<in> set (L a) \<Longrightarrow> used n \<and> n \<notin> P"
    and "\<And>n. n < nodes \<Longrightarrow> (\<And>a. a < owners \<Longrightarrow> n \<notin> set (L a)) \<Longrightarrow> nxt n = None \<and> prv n = None \<and> used n = (n \<in> P)"
proof -
  fix a assume "a < owners"
  then show "dchain nxt prv None (head a) (L a)" using assms unfolding node_lists_def by simp
next
  fix a n assume "a < owners" "n \<in> set (L a)"
  then show lt: "n < nodes" using assms unfolding node_lists_def by (meson lessThan_iff subsetD)
  show "used n \<and> n \<notin> P"
    using assms \<open>a < owners\<close> \<open>n \<in> set (L a)\<close> lt unfolding node_lists_def by metis
next
  fix a b n assume "a < owners" "b < owners" "n \<in> set (L a)" "n \<in> set (L b)"
  then show "a = b" using assms unfolding node_lists_def by (meson disjoint_iff)
next
  fix n assume "n < nodes" "\<And>a. a < owners \<Longrightarrow> n \<notin> set (L a)"
  then show "nxt n = None \<and> prv n = None \<and> used n = (n \<in> P)"
    using assms unfolding node_lists_def by metis
qed

lemma node_listsI:
  assumes "\<And>a. a < owners \<Longrightarrow> dchain nxt prv None (head a) (L a)"
    and "\<And>a n. a < owners \<Longrightarrow> n \<in> set (L a) \<Longrightarrow> n < nodes"
    and "\<And>a b n. a < owners \<Longrightarrow> b < owners \<Longrightarrow> n \<in> set (L a) \<Longrightarrow> n \<in> set (L b) \<Longrightarrow> a = b"
    and "\<And>a n. a < owners \<Longrightarrow> n \<in> set (L a) \<Longrightarrow> used n \<and> n \<notin> P"
    and "\<And>n. n < nodes \<Longrightarrow> (\<And>a. a < owners \<Longrightarrow> n \<notin> set (L a)) \<Longrightarrow> nxt n = None \<and> prv n = None \<and> used n = (n \<in> P)"
  shows "node_lists used nxt prv head owners nodes L P"
  unfolding node_lists_def
proof (intro conjI allI impI)
  fix n assume "n < nodes"
  then show "if \<exists>a < owners. n \<in> set (L a) then used n \<and> n \<notin> P else nxt n = None \<and> prv n = None \<and> used n = (n \<in> P)"
    using assms(4)[of _ n] assms(5)[of n] by auto
next
  fix a assume "a < owners"
  then show "dchain nxt prv None (head a) (L a)" "set (L a) \<subseteq> {..<nodes}" using assms(1,2) by auto
next
  fix a b assume "a < owners" "b < owners" "a \<noteq> b"
  then show "set (L a) \<inter> set (L b) = {}" using assms(3) by blast
qed

lemma node_lists_cong:
  assumes inv: "node_lists used nxt prv head owners nodes L P"
    and "\<And>n. n < nodes \<Longrightarrow> used' n = used n \<and> nxt' n = nxt n \<and> prv' n = prv n"
    and "\<And>a. a < owners \<Longrightarrow> head' a = head a"
  shows "node_lists used' nxt' prv' head' owners nodes L P"
proof (rule node_listsI)
  note D = node_listsD[OF inv]
  fix a assume a: "a < owners"
  have "dchain nxt' prv' None (head a) (L a) = dchain nxt prv None (head a) (L a)"
    by (intro dchain_cong) (use assms(2) D(2)[OF a] in auto)
  with D(1)[OF a] assms(3)[OF a] show "dchain nxt' prv' None (head' a) (L a)" by simp
  fix n assume n: "n \<in> set (L a)"
  show "used' n \<and> n \<notin> P" using D(4)[OF a n] assms(2)[OF D(2)[OF a n]] by simp
next
  fix n assume "n < nodes" "\<And>a. a < owners \<Longrightarrow> n \<notin> set (L a)"
  then show "nxt' n = None \<and> prv' n = None \<and> used' n = (n \<in> P)"
    using node_listsD(5)[OF inv] assms(2) by auto
qed (use node_listsD[OF inv] in auto)

lemma node_lists_distinct:
  "node_lists used nxt prv head owners nodes L P \<Longrightarrow> a < owners \<Longrightarrow> distinct (L a)"
  using node_listsD(1) dchain_imp_chain chain_distinct by blast

lemma node_lists_length:
  assumes "node_lists used nxt prv head owners nodes L P" and "a < owners"
  shows "length (L a) \<le> nodes"
  using chain_length_le[OF dchain_imp_chain[OF node_listsD(1)[OF assms]]] node_listsD(2)[OF assms] by auto

lemma node_lists_walk:
  assumes "node_lists used nxt prv head owners nodes L P" and "a < owners"
  shows "walk nodes nxt (head a) = L a"
  using walk_chain[OF dchain_imp_chain[OF node_listsD(1)[OF assms]]] node_lists_length[OF assms] by simp

lemma node_lists_end:
  assumes "node_lists used nxt prv head owners nodes L P" and "a < owners" and "head a = Some x"
  shows "L a \<noteq> [] \<and> list_end nodes nxt x = Some (last (L a))"
  using list_end_chain[of nxt x "L a" nodes] dchain_imp_chain[OF node_listsD(1)[OF assms(1,2)]]
    node_lists_length[OF assms(1,2)] assms(3) by (cases "L a") auto

lemma node_lists_take:
  assumes "node_lists used nxt prv head owners nodes L P" and "n < nodes" and "\<not> used n"
  shows "node_lists (used(n := True)) nxt prv head owners nodes L (insert n P)"
  by (rule node_listsI) (use assms node_listsD[OF assms(1)] in \<open>auto split: if_splits\<close>)

lemma node_lists_free:
  assumes "node_lists used nxt prv head owners nodes L P" and "n \<in> P"
  shows "node_lists (used(n := False)) nxt prv head owners nodes L (P - {n})"
proof (rule node_listsI)
  fix a m assume "a < owners" "m \<in> set (L a)"
  then show "(used(n := False)) m \<and> m \<notin> P - {n}"
    using node_listsD(4)[OF assms(1)] assms(2) by auto
qed (use assms node_listsD[OF assms(1)] in auto)

lemma node_lists_first:
  assumes inv: "node_lists used nxt prv head owners nodes L P" and "n \<in> P" and "n < nodes"
    and a: "a < owners" and h: "head a = None"
  shows "node_lists used nxt prv (head(a := Some n)) owners nodes (L(a := [n])) (P - {n})"
proof -
  note D = node_listsD[OF inv]
  have out: "n \<notin> set (L b)" if "b < owners" for b using D(4)[OF that] \<open>n \<in> P\<close> by auto
  have e: "L a = []" using D(1)[OF a] h by (cases "L a") auto
  have n: "nxt n = None" "prv n = None" "used n" using D(5)[OF \<open>n < nodes\<close> out] \<open>n \<in> P\<close> by auto
  show ?thesis
  proof (rule node_listsI)
    fix b assume b: "b < owners"
    show "dchain nxt prv None ((head(a := Some n)) b) ((L(a := [n])) b)" using D(1)[OF b] n by auto
  next
    fix b c m assume "b < owners" "c < owners" "m \<in> set ((L(a := [n])) b)" "m \<in> set ((L(a := [n])) c)"
    then show "b = c" using D(3) out by (auto split: if_splits)
  next
    fix m assume m: "m < nodes" "\<And>b. b < owners \<Longrightarrow> m \<notin> set ((L(a := [n])) b)"
    have "m \<notin> set (L b)" if "b < owners" for b using m(2)[OF that] e by (auto split: if_splits)
    then show "nxt m = None \<and> prv m = None \<and> used m = (m \<in> P - {n})"
      using D(5)[OF m(1)] m(2)[OF a] by auto
  next
    fix b m assume "b < owners" "m \<in> set ((L(a := [n])) b)"
    then show "used m \<and> m \<notin> P - {n}" using n D(4)[of b m] by (auto split: if_splits)
  next
    fix b m assume "b < owners" "m \<in> set ((L(a := [n])) b)"
    then show "m < nodes" using \<open>n < nodes\<close> D(2)[of b m] by (auto split: if_splits)
  qed
qed

lemma node_lists_append:
  assumes inv: "node_lists used nxt prv head owners nodes L P" and "n \<in> P" and "n < nodes"
    and a: "a < owners" and h: "L a \<noteq> []"
  shows "node_lists used (nxt(last (L a) := Some n)) (prv(n := Some (last (L a)))) head owners nodes
           (L(a := L a @ [n])) (P - {n})"
proof -
  note D = node_listsD[OF inv]
  let ?e = "last (L a)" and ?L = "L(a := L a @ [n])"
  have out: "n \<notin> set (L b)" if "b < owners" for b using D(4)[OF that] \<open>n \<in> P\<close> by auto
  have n: "nxt n = None" "prv n = None" "used n" using D(5)[OF \<open>n < nodes\<close> out] \<open>n \<in> P\<close> by auto
  have ea: "?e \<in> set (L a)" using h by simp
  have en: "?e \<noteq> n" using out[OF a] ea by auto
  show ?thesis
  proof (rule node_listsI)
    fix b assume b: "b < owners"
    show "dchain (nxt(?e := Some n)) (prv(n := Some ?e)) None (head b) (?L b)"
    proof (cases "b = a")
      case True
      show ?thesis unfolding True fun_upd_same
        by (rule dchain_append_node[OF D(1)[OF a] h node_lists_distinct[OF inv a] out[OF a]])
           (use out[OF a] en n in auto)
    next
      case False
      then have "?e \<notin> set (L b)" "n \<notin> set (L b)" using D(3)[OF a b ea] out[OF b] by auto
      then have "dchain (nxt(?e := Some n)) (prv(n := Some ?e)) None (head b) (L b) = dchain nxt prv None (head b) (L b)"
        by (intro dchain_cong) auto
      with False D(1)[OF b] show ?thesis by simp
    qed
  next
    fix b c m assume "b < owners" "c < owners" "m \<in> set (?L b)" "m \<in> set (?L c)"
    then show "b = c" using D(3) out by (auto split: if_splits)
  next
    fix m assume m: "m < nodes" "\<And>b. b < owners \<Longrightarrow> m \<notin> set (?L b)"
    have "m \<notin> set (L b)" if "b < owners" for b using m(2)[OF that] by (auto split: if_splits)
    then show "(nxt(?e := Some n)) m = None \<and> (prv(n := Some ?e)) m = None \<and> used m = (m \<in> P - {n})"
      using D(5)[OF m(1)] m(2)[OF a] ea by auto
  next
    fix b m assume "b < owners" "m \<in> set (?L b)"
    then show "used m \<and> m \<notin> P - {n}" using n D(4)[of b m] D(4)[OF a, of m] by (auto split: if_splits)
  next
    fix b m assume "b < owners" "m \<in> set (?L b)"
    then show "m < nodes" using \<open>n < nodes\<close> D(2)[of b m] D(2)[OF a, of m] by (auto split: if_splits)
  qed
qed

text \<open>Taking a node out, clearing its links and freeing it.\<close>

lemma node_lists_remove:
  assumes inv: "node_lists used nxt prv head owners nodes L P"
    and a: "a < owners" and n: "n \<in> set (L a)"
  shows "node_lists (used(n := False))
           ((case prv n of Some p \<Rightarrow> nxt(p := nxt n) | None \<Rightarrow> nxt)(n := None))
           ((case nxt n of Some m \<Rightarrow> prv(m := prv n) | None \<Rightarrow> prv)(n := None))
           (if prv n = None then head(a := nxt n) else head) owners nodes (L(a := remove1 n (L a))) P"
    (is "node_lists _ ?nxt ?prv ?head _ _ ?L _")
proof -
  note D = node_listsD[OF inv]
  have d: "dchain nxt prv None (head a) (L a)" and dis: "distinct (L a)"
    using D(1)[OF a] node_lists_distinct[OF inv a] by auto
  have ph: "prv n = None \<longleftrightarrow> n = hd (L a)"
  proof (cases "n = hd (L a)")
    case True
    with d n show ?thesis by (cases "L a") auto
  qed (use dchain_prv_closed[OF d n] in auto)
  have pin: "p \<in> set (L a)" if "prv n = Some p" for p
    using dchain_prv_closed[OF d n] that ph by (auto dest: in_set_butlastD)
  have nin: "m \<in> set (L a)" if "nxt n = Some m" for m by (rule dchain_nxt_closed[OF d n that])
  have others: "?nxt m = nxt m" "?prv m = prv m" if "m \<notin> set (L a)" for m
    using that n pin nin by (auto split: option.splits)
  have rem: "set (remove1 n (L a)) = set (L a) - {n}" using dis by (simp add: set_remove1_eq)
  have Lb: "m \<in> set (?L b) \<longleftrightarrow> m \<in> set (L b) \<and> m \<noteq> n" if "b < owners" for b m
    using rem D(3)[OF a that n] by auto
  have dn: "dchain ?nxt ?prv None (if n = hd (L a) then nxt n else head a) (remove1 n (L a))"
    by (rule dchain_remove[OF d dis n]) (auto split: option.splits)
  show ?thesis
  proof (rule node_listsI)
    fix b assume b: "b < owners"
    show "dchain ?nxt ?prv None (?head b) (?L b)"
    proof (cases "b = a")
      case True
      with dn ph show ?thesis by auto
    next
      case False
      have "dchain ?nxt ?prv None (head b) (L b) = dchain nxt prv None (head b) (L b)"
        by (intro dchain_cong others) (use D(3)[OF a b] False in auto)
      with False D(1)[OF b] show ?thesis by auto
    qed
  next
    fix m assume m: "m < nodes" "\<And>b. b < owners \<Longrightarrow> m \<notin> set (?L b)"
    show "?nxt m = None \<and> ?prv m = None \<and> (used(n := False)) m = (m \<in> P)"
    proof (cases "m = n")
      case True
      with D(4)[OF a n] show ?thesis by auto
    next
      case False
      then have "\<And>b. b < owners \<Longrightarrow> m \<notin> set (L b)" using m(2) Lb by blast
      with D(5)[OF m(1)] others[of m] a False show ?thesis by auto
    qed
  qed (use Lb D in auto)
qed

text \<open>Clearing all the nodes of some owners.\<close>

lemma node_lists_clear:
  assumes inv: "node_lists used nxt prv head owners nodes L P" and A: "\<And>a. a \<in> A \<Longrightarrow> a < owners"
    and n: "\<And>n a. n < nodes \<Longrightarrow> a \<in> A \<Longrightarrow> n \<in> set (L a) \<Longrightarrow> \<not> used' n \<and> nxt' n = None \<and> prv' n = None"
    and m: "\<And>n. n < nodes \<Longrightarrow> (\<And>a. a \<in> A \<Longrightarrow> n \<notin> set (L a)) \<Longrightarrow> used' n = used n \<and> nxt' n = nxt n \<and> prv' n = prv n"
    and h: "\<And>b. b < owners \<Longrightarrow> head' b = (if b \<in> A then None else head b)"
  shows "node_lists used' nxt' prv' head' owners nodes (\<lambda>b. if b \<in> A then [] else L b) P"
proof (rule node_listsI)
  note D = node_listsD[OF inv]
  fix b assume b: "b < owners"
  have out: "n \<notin> set (L a)" if "b \<notin> A" "n \<in> set (L b)" "a \<in> A" for n a
    using D(3)[OF b A[OF that(3)] that(2)] that(1,3) by auto
  have "nxt' n = nxt n" "prv' n = prv n" if "b \<notin> A" "n \<in> set (L b)" for n
    using m[OF D(2)[OF b that(2)] out[OF that]] by auto
  then have "dchain nxt' prv' None (head b) (L b) = dchain nxt prv None (head b) (L b)" if "b \<notin> A"
    by (intro dchain_cong) (use that in auto)
  then show "dchain nxt' prv' None (head' b) (if b \<in> A then [] else L b)" using D(1)[OF b] h[OF b] by auto
  fix n assume "n \<in> set (if b \<in> A then [] else L b)"
  then have nb: "n \<in> set (L b)" "b \<notin> A" by (auto split: if_splits)
  then show "used' n \<and> n \<notin> P" "n < nodes"
    using D(4)[OF b nb(1)] D(2)[OF b nb(1)] m[OF D(2)[OF b nb(1)] out[OF nb(2,1)]] by auto
next
  note D = node_listsD[OF inv]
  fix n assume l: "n < nodes" and out: "\<And>b. b < owners \<Longrightarrow> n \<notin> set (if b \<in> A then [] else L b)"
  show "nxt' n = None \<and> prv' n = None \<and> used' n = (n \<in> P)"
  proof (cases "\<exists>a \<in> A. n \<in> set (L a)")
    case True
    then obtain a where "a \<in> A" "n \<in> set (L a)" by auto
    with n[OF l this] D(4)[OF A[OF this(1)] this(2)] show ?thesis by auto
  next
    case False
    then have "n \<notin> set (L b)" if "b < owners" for b using out[OF that] by (auto split: if_splits)
    with D(5)[OF l] m[OF l] False show ?thesis by auto
  qed
next
  fix b c n assume "b < owners" "c < owners" "n \<in> set (if b \<in> A then [] else L b)" "n \<in> set (if c \<in> A then [] else L c)"
  then show "b = c" using node_listsD(3)[OF inv, of b c n] by (auto split: if_splits)
qed

section \<open>The contract of the list operations\<close>

text \<open>
  A world with an array of nodes: what the slot search and the removal do to
  the flags and the links. \<open>owners\<close> and \<open>nodes\<close> are the numbers of owners and of nodes.
\<close>

locale linked_nodes =
  fixes used :: "'w \<Rightarrow> nat \<Rightarrow> bool"
    and nxt prv head :: "'w \<Rightarrow> nat \<Rightarrow> nat option"
    and owners nodes :: nat
    and okay :: "'w \<Rightarrow> bool"
    and take_node :: "'w \<Rightarrow> int \<times> 'w"
    and free_node :: "nat \<Rightarrow> 'w \<Rightarrow> 'w"
    and remove_node :: "nat \<Rightarrow> nat \<Rightarrow> 'w \<Rightarrow> 'w"
  assumes take_law: "okay w \<Longrightarrow> take_node w = (i, w') \<Longrightarrow> 0 \<le> i \<Longrightarrow>
        nat i < nodes \<and> \<not> used w (nat i) \<and> okay w' \<and> used w' = (used w)(nat i := True) \<and>
        nxt w' = nxt w \<and> prv w' = prv w \<and> head w' = head w"
    and take_fail: "take_node w = (i, w') \<Longrightarrow> i < 0 \<Longrightarrow> w' = w"
    and free_law: "okay w \<Longrightarrow> n < nodes \<Longrightarrow> okay (free_node n w) \<and>
        used (free_node n w) = (used w)(n := False) \<and>
        nxt (free_node n w) = nxt w \<and> prv (free_node n w) = prv w \<and> head (free_node n w) = head w"
    and remove_law: "okay w \<Longrightarrow> a < owners \<Longrightarrow> n < nodes \<Longrightarrow>
        (\<And>p. prv w n = Some p \<Longrightarrow> p < nodes \<and> p \<noteq> n) \<Longrightarrow> (\<And>m. nxt w n = Some m \<Longrightarrow> m < nodes \<and> m \<noteq> n) \<Longrightarrow>
        okay (remove_node a n w) \<and> used (remove_node a n w) = (used w)(n := False) \<and>
        nxt (remove_node a n w) = (case prv w n of Some p \<Rightarrow> (nxt w)(p := nxt w n) | None \<Rightarrow> nxt w)(n := None) \<and>
        prv (remove_node a n w) = (case nxt w n of Some m \<Rightarrow> (prv w)(m := prv w n) | None \<Rightarrow> prv w)(n := None) \<and>
        head (remove_node a n w) = (if prv w n = None then (head w)(a := nxt w n) else head w)"
begin

lemma take_lists:
  assumes "okay w" and "node_lists (used w) (nxt w) (prv w) (head w) owners nodes L P"
    and "take_node w = (i, w')" and "0 \<le> i"
  shows "node_lists (used w') (nxt w') (prv w') (head w') owners nodes L (insert (nat i) P)"
  using take_law[OF assms(1,3,4)] node_lists_take[OF assms(2), of "nat i"] by simp

lemma free_lists:
  assumes "okay w" and "node_lists (used w) (nxt w) (prv w) (head w) owners nodes L P" and "n \<in> P" and "n < nodes"
  shows "node_lists (used (free_node n w)) (nxt (free_node n w)) (prv (free_node n w)) (head (free_node n w))
           owners nodes L (P - {n})"
  using free_law[OF assms(1,4)] node_lists_free[OF assms(2,3)] by simp

lemma remove_lists:
  assumes "okay w" and inv: "node_lists (used w) (nxt w) (prv w) (head w) owners nodes L P"
    and a: "a < owners" and n: "n \<in> set (L a)"
  shows "okay (remove_node a n w) \<and>
    node_lists (used (remove_node a n w)) (nxt (remove_node a n w)) (prv (remove_node a n w))
      (head (remove_node a n w)) owners nodes (L(a := remove1 n (L a))) P"
proof -
  note D = node_listsD[OF inv]
  have d: "dchain (nxt w) (prv w) None (head w a) (L a)" by (rule D(1)[OF a])
  have dis: "distinct (L a)" by (rule node_lists_distinct[OF inv a])
  have "p < nodes \<and> p \<noteq> n" if p: "prv w n = Some p" for p
    using dchain_prv_ne[OF d dis n p] D(2)[OF a] by auto
  moreover have "m < nodes \<and> m \<noteq> n" if m: "nxt w n = Some m" for m
    using dchain_nxt_ne[OF d dis n m] D(2)[OF a] by auto
  ultimately show ?thesis
    using remove_law[OF assms(1) a D(2)[OF a n]] node_lists_remove[OF inv a n] by simp
qed

end

text \<open>An append operation over such an array: the parser and the exported operations each have one.\<close>

locale appending_nodes = linked_nodes used nxt prv head owners nodes okay take_node free_node remove_node
  for used :: "'w \<Rightarrow> nat \<Rightarrow> bool"
    and nxt prv head :: "'w \<Rightarrow> nat \<Rightarrow> nat option"
    and owners nodes :: nat
    and okay :: "'w \<Rightarrow> bool"
    and take_node :: "'w \<Rightarrow> int \<times> 'w"
    and free_node :: "nat \<Rightarrow> 'w \<Rightarrow> 'w"
    and remove_node :: "nat \<Rightarrow> nat \<Rightarrow> 'w \<Rightarrow> 'w" +
  fixes append_node :: "nat \<Rightarrow> nat \<Rightarrow> 'w \<Rightarrow> 'w option"
  assumes append_first: "okay w \<Longrightarrow> a < owners \<Longrightarrow> n < nodes \<Longrightarrow> head w a = None \<Longrightarrow>
        \<exists>w'. append_node a n w = Some w' \<and> okay w' \<and> used w' = used w \<and> nxt w' = nxt w \<and> prv w' = prv w \<and>
             head w' = (head w)(a := Some n)"
    and append_last: "okay w \<Longrightarrow> a < owners \<Longrightarrow> n < nodes \<Longrightarrow> head w a = Some x \<Longrightarrow>
        list_end nodes (nxt w) x = Some e \<Longrightarrow> e < nodes \<Longrightarrow> e \<noteq> n \<Longrightarrow> nxt w n = None \<Longrightarrow>
        \<exists>w'. append_node a n w = Some w' \<and> okay w' \<and> used w' = used w \<and> nxt w' = (nxt w)(e := Some n) \<and>
             prv w' = (prv w)(n := Some e) \<and> head w' = head w"
begin

lemma append_lists:
  assumes "okay w" and inv: "node_lists (used w) (nxt w) (prv w) (head w) owners nodes L P"
    and "n \<in> P" and n: "n < nodes" and a: "a < owners"
  shows "\<exists>w'. append_node a n w = Some w' \<and> okay w' \<and>
    node_lists (used w') (nxt w') (prv w') (head w') owners nodes (L(a := L a @ [n])) (P - {n})"
proof (cases "head w a")
  case None
  then have "L a = []" using node_listsD(1)[OF inv a] by (cases "L a") auto
  then show ?thesis
    using append_first[OF assms(1) a n None] node_lists_first[OF inv assms(3) n a None] by auto
next
  case (Some x)
  note e = node_lists_end[OF inv a Some]
  have "last (L a) \<in> set (L a)" using e by simp
  then have "last (L a) < nodes" "last (L a) \<noteq> n" "nxt w n = None"
    using node_listsD(2,4)[OF inv a, of "last (L a)"] node_listsD(5)[OF inv n] node_listsD(4)[OF inv _, of _ n]
      \<open>n \<in> P\<close> by blast+
  then show ?thesis
    using append_last[OF assms(1) a n Some conjunct2[OF e]] node_lists_append[OF inv assms(3) n a conjunct1[OF e]] by auto
qed

end

end
