(* ===== verification/Ini_Inv.thy ===== *)
theory Ini_Inv
  imports Ini_Api Node_Lists "HOL-Library.AList"
begin

text \<open>
  The invariant of the v2 library and its abstraction. The section array and the key array are two
  node arrays in the sense of \<open>linked_nodes\<close>: the interpretations here prove the contract for the
  append and remove operations of the parser and of the exported operations.
\<close>

section \<open>The two node arrays\<close>

definition okay_world :: "ini_world \<Rightarrow> bool" where
  "okay_world w \<longleftrightarrow> length (ini_array w) = MAX_OPERATION_FILE_NUM \<and>
     length (section_array w) = MAX_INIFILE_SECTION_NUM \<and>
     length (keyval_array w) = INIFILE_KEYVALUE_ARRAY_LEN"

abbreviation sec_used :: "ini_world \<Rightarrow> nat \<Rightarrow> bool" where
  "sec_used w s \<equiv> sec_flag (sec_at w s) \<noteq> STRUCT_NODE_UN_USED"

abbreviation kv_used :: "ini_world \<Rightarrow> nat \<Rightarrow> bool" where
  "kv_used w k \<equiv> kv_flag (kv_at w k) \<noteq> STRUCT_NODE_UN_USED"

abbreviation sec_prv :: "ini_world \<Rightarrow> nat \<Rightarrow> nat option" where
  "sec_prv w s \<equiv> sec_pre (sec_at w s)"

abbreviation sec_first :: "ini_world \<Rightarrow> nat \<Rightarrow> nat option" where
  "sec_first w f \<equiv> fil_head (fil_at w f)"

abbreviation kv_prv :: "ini_world \<Rightarrow> nat \<Rightarrow> nat option" where
  "kv_prv w k \<equiv> kv_pre (kv_at w k)"

abbreviation kv_first :: "ini_world \<Rightarrow> nat \<Rightarrow> nat option" where
  "kv_first w s \<equiv> sec_head (sec_at w s)"

definition attach_section_here :: "nat \<Rightarrow> nat \<Rightarrow> ini_world \<Rightarrow> ini_world option" where
  "attach_section_here f n w = attach_section f (sec_first w f) n w"

definition attach_keyval_here :: "nat \<Rightarrow> nat \<Rightarrow> ini_world \<Rightarrow> ini_world option" where
  "attach_keyval_here s n w = attach_keyval s (kv_first w s) n w"

definition remove_section :: "nat \<Rightarrow> nat \<Rightarrow> ini_world \<Rightarrow> ini_world" where
  "remove_section f s w = release_section s (unlink_section f s w)"

definition remove_keyval :: "nat \<Rightarrow> nat \<Rightarrow> ini_world \<Rightarrow> ini_world" where
  "remove_keyval s k w = release_keyval k (unlink_keyval s k w)"

lemma fun_upd_nth: "k < length xs \<Longrightarrow> (\<lambda>i. g (xs[k := v] ! i)) = (\<lambda>i. g (xs ! i))(k := g v)"
  by (auto simp: fun_eq_iff nth_list_update)

lemma get_index_section_law:
  assumes "okay_world w" and "get_index_ini_section w = (i, w')" and "0 \<le> i"
  shows "nat i < MAX_INIFILE_SECTION_NUM" "\<not> sec_used w (nat i)"
    "w' = upd_sec (nat i) (\<lambda>s. s\<lparr>sec_flag := STRUCT_NODE_IN_USED\<rparr>) w"
  using assms
  by (auto simp: get_index_ini_section_def okay_world_def code_defs split: option.splits dest: first_index_SomeD)

lemma get_index_keyvalue_law:
  assumes "okay_world w" and "get_index_ini_keyvalue w = (i, w')" and "0 \<le> i"
  shows "nat i < INIFILE_KEYVALUE_ARRAY_LEN" "\<not> kv_used w (nat i)"
    "w' = upd_kv (nat i) (\<lambda>s. s\<lparr>kv_flag := STRUCT_NODE_IN_USED\<rparr>) w"
  using assms
  by (auto simp: get_index_ini_keyvalue_def okay_world_def code_defs split: option.splits dest: first_index_SomeD)

lemmas append_defs =
  append_section_def append_keyval_def attach_section_here_def attach_keyval_here_def
  attach_section_def attach_keyval_def link_section_def link_keyval_def section_end_def keyval_end_def

lemmas remove_defs =
  remove_section_def release_section_def unlink_section_def
  remove_keyval_def release_keyval_def unlink_keyval_def

lemma used_flags [simp]: "STRUCT_NODE_IN_USED \<noteq> STRUCT_NODE_UN_USED"
  by (simp add: flag_defs)

lemma get_index_section_fail: "get_index_ini_section w = (i, w') \<Longrightarrow> i < 0 \<Longrightarrow> w' = w"
  by (auto simp: get_index_ini_section_def split: option.splits)

lemma get_index_keyvalue_fail: "get_index_ini_keyvalue w = (i, w') \<Longrightarrow> i < 0 \<Longrightarrow> w' = w"
  by (auto simp: get_index_ini_keyvalue_def split: option.splits)

interpretation sections: linked_nodes sec_used sec_nxt sec_prv sec_first
  MAX_OPERATION_FILE_NUM MAX_INIFILE_SECTION_NUM okay_world get_index_ini_section free_sec remove_section
proof (unfold_locales, goal_cases)
  case (1 w i w')
  note l = get_index_section_law[OF 1]
  with 1(1) show ?case by (auto simp: okay_world_def fun_eq_iff nth_list_update)
next
  case (2 w i w')
  then show ?case by (rule get_index_section_fail)
next
  case (3 w n)
  then show ?case by (auto simp: okay_world_def free_sec_def fun_eq_iff nth_list_update)
next
  case (4 w a n)
  then show ?case
    by (cases "sec_prv w n"; cases "sec_nxt w n")
       (auto simp: okay_world_def remove_defs Let_def fun_eq_iff nth_list_update)
qed

interpretation keyvals: linked_nodes kv_used kv_nxt kv_prv kv_first
  MAX_INIFILE_SECTION_NUM INIFILE_KEYVALUE_ARRAY_LEN okay_world get_index_ini_keyvalue free_kv remove_keyval
proof (unfold_locales, goal_cases)
  case (1 w i w')
  note l = get_index_keyvalue_law[OF 1]
  with 1(1) show ?case by (auto simp: okay_world_def fun_eq_iff nth_list_update)
next
  case (2 w i w')
  then show ?case by (rule get_index_keyvalue_fail)
next
  case (3 w n)
  then show ?case by (auto simp: okay_world_def free_kv_def fun_eq_iff nth_list_update)
next
  case (4 w a n)
  then show ?case
    by (cases "kv_prv w n"; cases "kv_nxt w n")
       (auto simp: okay_world_def remove_defs Let_def fun_eq_iff nth_list_update)
qed

interpretation api_sections: appending_nodes sec_used sec_nxt sec_prv sec_first
  MAX_OPERATION_FILE_NUM MAX_INIFILE_SECTION_NUM okay_world get_index_ini_section free_sec remove_section append_section
  by unfold_locales (auto simp: okay_world_def append_defs fun_eq_iff nth_list_update)

interpretation api_keyvals: appending_nodes kv_used kv_nxt kv_prv kv_first
  MAX_INIFILE_SECTION_NUM INIFILE_KEYVALUE_ARRAY_LEN okay_world get_index_ini_keyvalue free_kv remove_keyval append_keyval
  by unfold_locales (auto simp: okay_world_def append_defs fun_eq_iff nth_list_update)

interpretation parser_sections: appending_nodes sec_used sec_nxt sec_prv sec_first
  MAX_OPERATION_FILE_NUM MAX_INIFILE_SECTION_NUM okay_world get_index_ini_section free_sec remove_section attach_section_here
  by unfold_locales (auto simp: okay_world_def append_defs fun_eq_iff nth_list_update)

interpretation parser_keyvals: appending_nodes kv_used kv_nxt kv_prv kv_first
  MAX_INIFILE_SECTION_NUM INIFILE_KEYVALUE_ARRAY_LEN okay_world get_index_ini_keyvalue free_kv remove_keyval attach_keyval_here
  by unfold_locales (auto simp: okay_world_def append_defs fun_eq_iff nth_list_update)

section \<open>The invariant\<close>

text \<open>
  \<open>SS f\<close> are the sections of file \<open>f\<close>, \<open>KK s\<close> the keys of section \<open>s\<close>; \<open>SP\<close> and \<open>KP\<close> are the nodes
  that were handed out and are in no list yet.
\<close>

definition sec_lists :: "ini_world \<Rightarrow> (nat \<Rightarrow> nat list) \<Rightarrow> nat set \<Rightarrow> bool" where
  "sec_lists w SS SP \<longleftrightarrow> node_lists (sec_used w) (sec_nxt w) (sec_prv w) (sec_first w)
     MAX_OPERATION_FILE_NUM MAX_INIFILE_SECTION_NUM SS SP"

definition kv_lists :: "ini_world \<Rightarrow> (nat \<Rightarrow> nat list) \<Rightarrow> nat set \<Rightarrow> bool" where
  "kv_lists w KK KP \<longleftrightarrow> node_lists (kv_used w) (kv_nxt w) (kv_prv w) (kv_first w)
     MAX_INIFILE_SECTION_NUM INIFILE_KEYVALUE_ARRAY_LEN KK KP"

definition shape :: "ini_world \<Rightarrow> (nat \<Rightarrow> nat list) \<Rightarrow> (nat \<Rightarrow> nat list) \<Rightarrow> nat set \<Rightarrow> nat set \<Rightarrow> bool" where
  "shape w SS KK SP KP \<longleftrightarrow>
     okay_world w \<and> sec_lists w SS SP \<and> kv_lists w KK KP \<and>
     (\<forall>s < MAX_INIFILE_SECTION_NUM. (\<forall>f < MAX_OPERATION_FILE_NUM. s \<notin> set (SS f)) \<longrightarrow> KK s = []) \<and>
     (\<forall>f < MAX_OPERATION_FILE_NUM. fil_flag (fil_at w f) \<noteq> STRUCT_NODE_IN_USED \<longrightarrow>
        fil_flag (fil_at w f) = STRUCT_NODE_UN_USED \<and> SS f = [])"

text \<open>Every listed node has its strings.\<close>

definition filled :: "ini_world \<Rightarrow> (nat \<Rightarrow> nat list) \<Rightarrow> (nat \<Rightarrow> nat list) \<Rightarrow> bool" where
  "filled w SS KK \<longleftrightarrow>
     (\<forall>f < MAX_OPERATION_FILE_NUM. \<forall>s \<in> set (SS f). sec_sec (sec_at w s) \<noteq> None) \<and>
     (\<forall>s < MAX_INIFILE_SECTION_NUM. \<forall>k \<in> set (KK s).
        kv_key (kv_at w k) \<noteq> None \<and> kv_value (kv_at w k) \<noteq> None)"

definition ini_inv :: "ini_world \<Rightarrow> bool" where
  "ini_inv w \<longleftrightarrow> store_inv w \<and> (\<exists>SS KK. shape w SS KK {} {} \<and> filled w SS KK)"

section \<open>The document a file holds\<close>

type_synonym ini_doc = "(string \<times> (string \<times> string) list) list"

definition sec_name :: "ini_world \<Rightarrow> nat \<Rightarrow> string" where
  "sec_name w s = the (field_string (pool_mem w) (sec_sec (sec_at w s)))"

definition kv_pair :: "ini_world \<Rightarrow> nat \<Rightarrow> string \<times> string" where
  "kv_pair w k = (the (field_string (pool_mem w) (kv_key (kv_at w k))),
                  the (field_string (pool_mem w) (kv_value (kv_at w k))))"

definition doc_of :: "ini_world \<Rightarrow> (nat \<Rightarrow> nat list) \<Rightarrow> (nat \<Rightarrow> nat list) \<Rightarrow> nat \<Rightarrow> ini_doc" where
  "doc_of w SS KK f = map (\<lambda>s. (sec_name w s, map (kv_pair w) (KK s))) (SS f)"

text \<open>The same read off the world: the abstraction function of the library.\<close>

definition doc :: "ini_world \<Rightarrow> nat \<Rightarrow> ini_doc" where
  "doc w f = doc_of w (\<lambda>f. walk MAX_INIFILE_SECTION_NUM (sec_nxt w) (sec_first w f))
                      (\<lambda>s. walk INIFILE_KEYVALUE_ARRAY_LEN (kv_nxt w) (kv_first w s)) f"

fun del_first :: "'a \<Rightarrow> ('a \<times> 'b) list \<Rightarrow> ('a \<times> 'b) list" where
  "del_first a [] = []"
| "del_first a ((b, v) # xs) = (if a = b then xs else (b, v) # del_first a xs)"

definition doc_get :: "string \<Rightarrow> string \<Rightarrow> ini_doc \<Rightarrow> string option" where
  "doc_get s k d = (case map_of d s of None \<Rightarrow> None | Some kvs \<Rightarrow> map_of kvs k)"

definition doc_update :: "string \<Rightarrow> string \<Rightarrow> string \<Rightarrow> ini_doc \<Rightarrow> ini_doc" where
  "doc_update s k v d = AList.map_entry s (AList.map_entry k (\<lambda>_. v)) d"

definition doc_add :: "string \<Rightarrow> string \<Rightarrow> string \<Rightarrow> ini_doc \<Rightarrow> ini_doc" where
  "doc_add s k v d = AList.map_entry s (\<lambda>kvs. kvs @ [(k, v)]) d"

definition doc_delete :: "string \<Rightarrow> string \<Rightarrow> ini_doc \<Rightarrow> ini_doc" where
  "doc_delete s k d = AList.map_entry s (del_first k) d"

section \<open>Consequences of the invariant\<close>

lemma shapeD:
  assumes "shape w SS KK SP KP"
  shows "okay_world w"
    and "node_lists (sec_used w) (sec_nxt w) (sec_prv w) (sec_first w) MAX_OPERATION_FILE_NUM MAX_INIFILE_SECTION_NUM SS SP"
    and "node_lists (kv_used w) (kv_nxt w) (kv_prv w) (kv_first w) MAX_INIFILE_SECTION_NUM INIFILE_KEYVALUE_ARRAY_LEN KK KP"
    and "\<And>s. s < MAX_INIFILE_SECTION_NUM \<Longrightarrow> (\<And>f. f < MAX_OPERATION_FILE_NUM \<Longrightarrow> s \<notin> set (SS f)) \<Longrightarrow> KK s = []"
    and "\<And>f. f < MAX_OPERATION_FILE_NUM \<Longrightarrow> fil_flag (fil_at w f) \<noteq> STRUCT_NODE_IN_USED \<Longrightarrow>
           fil_flag (fil_at w f) = STRUCT_NODE_UN_USED \<and> SS f = []"
  using assms by (auto simp: shape_def sec_lists_def kv_lists_def)

lemma doc_eq:
  assumes "shape w SS KK SP KP" and f: "f < MAX_OPERATION_FILE_NUM"
  shows "doc w f = doc_of w SS KK f"
proof -
  note D = shapeD[OF assms(1)]
  have "s < MAX_INIFILE_SECTION_NUM" if "s \<in> set (SS f)" for s by (rule node_listsD(2)[OF D(2) f that])
  then show ?thesis
    using node_lists_walk[OF D(2) f] node_lists_walk[OF D(3)] by (auto simp: doc_def doc_of_def)
qed

lemma shape_walkable:
  assumes "shape w SS KK SP KP"
  shows "walkable w"
  unfolding walkable_def
proof (intro conjI allI impI)
  note D = shapeD[OF assms]
  have len: "length (ini_array w) = MAX_OPERATION_FILE_NUM" "length (section_array w) = MAX_INIFILE_SECTION_NUM"
    "length (keyval_array w) = INIFILE_KEYVALUE_ARRAY_LEN" using D(1) by (auto simp: okay_world_def)
  show "length (ini_array w) = MAX_OPERATION_FILE_NUM" by (rule len)
  fix f assume "f < length (ini_array w)"
  then have f: "f < MAX_OPERATION_FILE_NUM" using len by simp
  have "sec_list w (sec_first w f) (SS f)"
    unfolding sec_list_def kv_list_def len
  proof (intro conjI ballI)
    show "chain (sec_nxt w) (sec_first w f) (SS f)" by (rule dchain_imp_chain[OF node_listsD(1)[OF D(2) f]])
    show "set (SS f) \<subseteq> {..<MAX_INIFILE_SECTION_NUM}" using node_listsD(2)[OF D(2) f] by auto
    fix s assume "s \<in> set (SS f)"
    then have s: "s < MAX_INIFILE_SECTION_NUM" by (rule node_listsD(2)[OF D(2) f])
    have "chain (kv_nxt w) (kv_first w s) (KK s)" by (rule dchain_imp_chain[OF node_listsD(1)[OF D(3) s]])
    moreover have "set (KK s) \<subseteq> {..<INIFILE_KEYVALUE_ARRAY_LEN}" using node_listsD(2)[OF D(3) s] by auto
    ultimately show "\<exists>ks. chain (kv_nxt w) (kv_first w s) ks \<and> set ks \<subseteq> {..<INIFILE_KEYVALUE_ARRAY_LEN}" by blast
  qed
  then show "\<exists>ss. sec_list w (sec_first w f) ss" by blast
qed

text \<open>What the pool does is invisible in the lists and in the documents.\<close>

lemma shape_same_view:
  assumes "same_view w w'" and "shape w SS KK SP KP"
  shows "shape w' SS KK SP KP"
proof -
  note D = shapeD[OF assms(2)] and L = same_view_lengths[OF assms(1)]
  have len: "length (ini_array w) = MAX_OPERATION_FILE_NUM" "length (section_array w) = MAX_INIFILE_SECTION_NUM"
    "length (keyval_array w) = INIFILE_KEYVALUE_ARRAY_LEN" using D(1) by (auto simp: okay_world_def)
  note V = same_view_fil[OF assms(1), unfolded file_view_def len] same_view_sec[OF assms(1), unfolded section_view_def len]
    same_view_kv[OF assms(1), unfolded keyval_view_def len]
  have "sec_lists w' SS SP" unfolding sec_lists_def by (rule node_lists_cong[OF D(2)]) (use V in auto)
  moreover have "kv_lists w' KK KP" unfolding kv_lists_def by (rule node_lists_cong[OF D(3)]) (use V in auto)
  moreover have "okay_world w'" using len L by (simp add: okay_world_def)
  ultimately show ?thesis using D(4,5) V by (auto simp: shape_def)
qed

lemma doc_of_same_view:
  assumes "same_view w w'" and "shape w SS KK SP KP" and f: "f < MAX_OPERATION_FILE_NUM"
  shows "doc_of w' SS KK f = doc_of w SS KK f"
proof -
  note D = shapeD[OF assms(2)]
  have len: "length (section_array w) = MAX_INIFILE_SECTION_NUM"
    "length (keyval_array w) = INIFILE_KEYVALUE_ARRAY_LEN" using D(1) by (auto simp: okay_world_def)
  have "sec_name w' s = sec_name w s \<and> map (kv_pair w') (KK s) = map (kv_pair w) (KK s)" if s: "s \<in> set (SS f)" for s
    using same_view_sec[OF assms(1), of s] same_view_kv[OF assms(1)] node_listsD(2)[OF D(2) f s]
      node_listsD(2)[OF D(3)] len
    by (auto simp: sec_name_def kv_pair_def section_view_def keyval_view_def)
  then show ?thesis by (simp add: doc_of_def)
qed

lemma filled_same_view:
  assumes "same_view w w'" and "shape w SS KK SP KP" and "filled w SS KK"
  shows "filled w' SS KK"
proof -
  note D = shapeD[OF assms(2)]
  have len: "length (section_array w) = MAX_INIFILE_SECTION_NUM"
    "length (keyval_array w) = INIFILE_KEYVALUE_ARRAY_LEN" using D(1) by (auto simp: okay_world_def)
  have S: "sec_sec (sec_at w' s) = None \<longleftrightarrow> sec_sec (sec_at w s) = None" if "s < MAX_INIFILE_SECTION_NUM" for s
    using same_view_sec[OF assms(1), of s] that len by (auto simp: section_view_def field_string_def)
  have K: "kv_key (kv_at w' k) = None \<longleftrightarrow> kv_key (kv_at w k) = None"
      "kv_value (kv_at w' k) = None \<longleftrightarrow> kv_value (kv_at w k) = None" if "k < INIFILE_KEYVALUE_ARRAY_LEN" for k
    using same_view_kv[OF assms(1), of k] that len by (auto simp: keyval_view_def field_string_def)
  show ?thesis unfolding filled_def
    using assms(3) S K node_listsD(2)[OF D(2)] node_listsD(2)[OF D(3)] unfolding filled_def by metis
qed

section \<open>The searches\<close>

text \<open>The string a caller names with a buffer and a length.\<close>

definition arg_string :: "string \<Rightarrow> int \<Rightarrow> string" where
  "arg_string s len = (if len \<le> 0 then cstr s else take (nat len) (s @ [NUL]))"

definition arg_ok :: "string \<Rightarrow> int \<Rightarrow> bool" where
  "arg_ok s len \<longleftrightarrow> len \<le> int (length s) + 1"

lemma take_length_cstr: "take (length (cstr s)) s = cstr s"
  by (induction s) auto

lemma take_length_cstr_append: "take (length (cstr s)) (s @ t) = cstr s"
  by (simp add: take_length_cstr)

lemma arg_string_take:
  assumes "arg_ok s len"
  shows "take (length (arg_string s len)) (s @ [NUL]) = arg_string s len"
    and "length (arg_string s len) \<le> length s + 1"
    and "(if len \<le> 0 then int (str_int_len (Some s)) else len) = int (length (arg_string s len))"
proof -
  have l: "length (arg_string s len) = (if len \<le> 0 then length (cstr s) else nat len)"
    using assms by (auto simp: arg_string_def arg_ok_def)
  show "take (length (arg_string s len)) (s @ [NUL]) = arg_string s len"
    unfolding l by (auto simp: arg_string_def take_length_cstr)
  show "length (arg_string s len) \<le> length s + 1" "(if len \<le> 0 then int (str_int_len (Some s)) else len) = int (length (arg_string s len))"
    using assms le_trans[OF length_cstr_le[of s], of "Suc (length s)"] unfolding l by (auto simp: arg_ok_def)
qed

lemma memcmp_ptr_eq:
  assumes "length (pool_string pm q) = length t" and "take (length t) (s @ [NUL]) = t" and "length t \<le> length s + 1"
  shows "\<exists>r. memcmp_ptr pm (Some q) s (length t) = Some r \<and> (r = 0 \<longleftrightarrow> pool_string pm q = t)"
proof -
  have "take (length t) (deref pm q) = pool_string pm q"
    using assms(1) take_length_cstr[of "deref pm q"] by (simp add: pool_string_def)
  then show ?thesis using assms memcmp_eq_0_iff[of "pool_string pm q" t] by (simp add: memcmp_ptr_def)
qed

lemma find_section_loop_eq:
  assumes "chain (sec_nxt w) p ss" and "length ss \<le> n" and "\<forall>s \<in> set ss. sec_sec (sec_at w s) \<noteq> None"
    and "take (length t) (nm @ [NUL]) = t" and "length t \<le> length nm + 1"
  shows "find_section_loop n w p nm (int (length t)) = Some (List.find (\<lambda>s. sec_name w s = t) ss)"
  using assms(1-3)
proof (induction ss arbitrary: p n)
  case Nil
  then show ?case by simp
next
  case (Cons s ss)
  then obtain m q where n: "n = Suc m" and q: "sec_sec (sec_at w s) = Some q" by (cases n) auto
  have nm: "sec_name w s = pool_string (pool_mem w) q" by (simp add: sec_name_def q field_string_def)
  have IH: "find_section_loop m w (sec_nxt w s) nm (int (length t)) = Some (List.find (\<lambda>s. sec_name w s = t) ss)"
    using Cons.IH[of "sec_nxt w s" m] Cons.prems n by simp
  show ?case
  proof (cases "length (pool_string (pool_mem w) q) = length t")
    case True
    then obtain r where "memcmp_ptr (pool_mem w) (Some q) nm (length t) = Some r" "r = 0 \<longleftrightarrow> pool_string (pool_mem w) q = t"
      using memcmp_ptr_eq[OF True assms(4,5)] by blast
    with IH True nm q n Cons.prems(1) show ?thesis by (auto simp: pool_string_def Let_def)
  next
    case False
    then have "pool_string (pool_mem w) q \<noteq> t" by auto
    with IH False nm q n Cons.prems(1) show ?thesis by (auto simp: pool_string_def Let_def)
  qed
qed

lemma find_keyvalue_loop_eq:
  assumes "chain (kv_nxt w) p ks" and "length ks \<le> n" and "\<forall>k \<in> set ks. kv_key (kv_at w k) \<noteq> None"
    and "take (length t) (nm @ [NUL]) = t" and "length t \<le> length nm + 1"
  shows "find_keyvalue_loop n w p nm (int (length t)) = Some (List.find (\<lambda>k. fst (kv_pair w k) = t) ks)"
  using assms(1-3)
proof (induction ks arbitrary: p n)
  case Nil
  then show ?case by simp
next
  case (Cons k ks)
  then obtain m q where n: "n = Suc m" and q: "kv_key (kv_at w k) = Some q" by (cases n) auto
  have nm: "fst (kv_pair w k) = pool_string (pool_mem w) q" by (simp add: kv_pair_def q field_string_def)
  have IH: "find_keyvalue_loop m w (kv_nxt w k) nm (int (length t)) = Some (List.find (\<lambda>k. fst (kv_pair w k) = t) ks)"
    using Cons.IH[of "kv_nxt w k" m] Cons.prems n by simp
  show ?case
  proof (cases "length (pool_string (pool_mem w) q) = length t")
    case True
    then obtain r where "memcmp_ptr (pool_mem w) (Some q) nm (length t) = Some r" "r = 0 \<longleftrightarrow> pool_string (pool_mem w) q = t"
      using memcmp_ptr_eq[OF True assms(4,5)] by blast
    with IH True nm q n Cons.prems(1) show ?thesis by (auto simp: pool_string_def Let_def)
  next
    case False
    then have "pool_string (pool_mem w) q \<noteq> t" by auto
    with IH False nm q n Cons.prems(1) show ?thesis by (auto simp: pool_string_def Let_def)
  qed
qed

end
