(* ===== verification/Ini_Refine.thy ===== *)
theory Ini_Refine
  imports Ini_Inv
begin

text \<open>
  The exported operations of v2 refine operations on the abstract document: reading, updating,
  adding and deleting values, deleting and adding sections, and releasing a file.
\<close>

section \<open>Association lists given by keyed nodes\<close>

lemma map_of_keyed: "map_of (map (\<lambda>x. (nm x, g x)) xs) a = map_option g (List.find (\<lambda>x. nm x = a) xs)"
  by (induction xs) auto

lemma find_SomeD: "List.find P xs = Some x \<Longrightarrow> x \<in> set xs \<and> P x"
  by (induction xs) (auto split: if_splits)

lemma map_entry_keyed:
  assumes "distinct xs" and "List.find (\<lambda>x. nm x = a) xs = Some y"
    and "\<And>x. x \<in> set xs \<Longrightarrow> g' x = (if x = y then h (g x) else g x)"
  shows "map (\<lambda>x. (nm x, g' x)) xs = AList.map_entry a h (map (\<lambda>x. (nm x, g x)) xs)"
  using assms
proof (induction xs)
  case Nil
  then show ?case by simp
next
  case (Cons x xs)
  show ?case
  proof (cases "nm x = a")
    case True
    then have "y = x" using Cons.prems(2) by simp
    then have "map (\<lambda>x. (nm x, g' x)) xs = map (\<lambda>x. (nm x, g x)) xs"
      using Cons.prems(1,3) by auto
    with True \<open>y = x\<close> Cons.prems(3)[of x] show ?thesis by simp
  next
    case False
    then have f: "List.find (\<lambda>x. nm x = a) xs = Some y" using Cons.prems(2) by simp
    then have "y \<in> set xs" by (auto dest: find_SomeD)
    then have "g' x = g x" using Cons.prems(1) Cons.prems(3)[of x] by auto
    with False Cons.IH[OF _ f] Cons.prems(1,3) show ?thesis by auto
  qed
qed

lemma del_first_keyed:
  assumes "distinct xs" and "List.find (\<lambda>x. nm x = a) xs = Some y"
  shows "map (\<lambda>x. (nm x, g x)) (remove1 y xs) = del_first a (map (\<lambda>x. (nm x, g x)) xs)"
  using assms by (induction xs) (auto split: if_splits dest: find_SomeD)

section \<open>The searches of an operation\<close>

lemma valid_fd_lt: "valid_fd fd \<Longrightarrow> nat fd < MAX_OPERATION_FILE_NUM"
  by (auto simp: valid_fd_def size_defs)

lemma fd_section_eq:
  assumes sh: "shape w SS KK SP KP" and fi: "filled w SS KK" and fd: "valid_fd fd"
    and nm: "par_section par = Some nm" and ok: "arg_ok nm (par_section_len par)"
  shows "fd_section fd par w =
    Some (List.find (\<lambda>s. sec_name w s = arg_string nm (par_section_len par)) (SS (nat fd)))"
proof -
  note D = shapeD[OF sh] and f = valid_fd_lt[OF fd]
  have c: "chain (sec_nxt w) (sec_first w (nat fd)) (SS (nat fd))"
    by (rule dchain_imp_chain[OF node_listsD(1)[OF D(2) f]])
  have len: "length (SS (nat fd)) \<le> length (section_array w)"
    using node_lists_length[OF D(2) f] D(1) by (simp add: okay_world_def)
  have ne: "\<forall>s \<in> set (SS (nat fd)). sec_sec (sec_at w s) \<noteq> None" using fi f by (auto simp: filled_def)
  note A = arg_string_take[OF ok]
  show ?thesis
  proof (cases "sec_first w (nat fd)")
    case None
    with c show ?thesis by (cases "SS (nat fd)") (auto simp: fd_section_def find_inifile_section_def)
  next
    case (Some x)
    then show ?thesis
      using find_section_loop_eq[OF c len ne A(1,2)]
      by (simp only: fd_section_def find_inifile_section_def nm A(3) option.case prod.case)
  qed
qed

lemma sec_keyval_eq:
  assumes sh: "shape w SS KK SP KP" and fi: "filled w SS KK" and s: "s < MAX_INIFILE_SECTION_NUM"
    and nm: "par_key par = Some nm" and ok: "arg_ok nm (par_key_len par)"
  shows "sec_keyval s par w =
    Some (List.find (\<lambda>k. fst (kv_pair w k) = arg_string nm (par_key_len par)) (KK s))"
proof -
  note D = shapeD[OF sh]
  have c: "chain (kv_nxt w) (kv_first w s) (KK s)"
    by (rule dchain_imp_chain[OF node_listsD(1)[OF D(3) s]])
  have len: "length (KK s) \<le> length (keyval_array w)"
    using node_lists_length[OF D(3) s] D(1) by (simp add: okay_world_def)
  have ne: "\<forall>k \<in> set (KK s). kv_key (kv_at w k) \<noteq> None" using fi s by (auto simp: filled_def)
  note A = arg_string_take[OF ok]
  show ?thesis
  proof (cases "kv_first w s")
    case None
    with c show ?thesis by (cases "KK s") (auto simp: sec_keyval_def find_keyvalue_unsect_def)
  next
    case (Some x)
    then show ?thesis
      using find_keyvalue_loop_eq[OF c len ne A(1,2)]
      by (simp only: sec_keyval_def find_keyvalue_unsect_def nm A(3) option.case prod.case)
  qed
qed

lemma map_of_kv_pair:
  "map_of (map (kv_pair w) ks) b = map_option (\<lambda>k. snd (kv_pair w k)) (List.find (\<lambda>k. fst (kv_pair w k) = b) ks)"
  by (induction ks) auto

lemma doc_get_find:
  assumes "shape w SS KK SP KP" and "f < MAX_OPERATION_FILE_NUM"
  shows "doc_get a b (doc w f) =
    (case List.find (\<lambda>s. sec_name w s = a) (SS f) of None \<Rightarrow> None
     | Some s \<Rightarrow> map_option (\<lambda>k. snd (kv_pair w k)) (List.find (\<lambda>k. fst (kv_pair w k) = b) (KK s)))"
  unfolding doc_get_def doc_eq[OF assms] doc_of_def map_of_keyed
  by (auto simp: map_of_kv_pair split: option.splits)

section \<open>Reading a value\<close>

lemma get_value_refines_aux:
  assumes inv: "ini_inv w" and fd: "valid_fd fd"
    and s: "par_section par = Some s" "arg_ok s (par_section_len par)"
    and k: "par_key par = Some k" "arg_ok k (par_key_len par)"
  shows "\<exists>r. get_value_ofkey fd (Some par) w = Some r \<and>
    map_option (pool_string (pool_mem w)) r =
      doc_get (arg_string s (par_section_len par)) (arg_string k (par_key_len par)) (doc w (nat fd))"
proof -
  obtain SS KK where sh: "shape w SS KK {} {}" and fi: "filled w SS KK" using inv by (auto simp: ini_inv_def)
  note f = valid_fd_lt[OF fd] and F = fd_section_eq[OF sh fi fd s]
  note G = doc_get_find[OF sh f, of "arg_string s (par_section_len par)" "arg_string k (par_key_len par)"]
  show ?thesis
  proof (cases "List.find (\<lambda>x. sec_name w x = arg_string s (par_section_len par)) (SS (nat fd))")
    case None
    then show ?thesis using F G fd s k by (auto simp: get_value_ofkey_def)
  next
    case (Some x)
    then have x: "x \<in> set (SS (nat fd))" by (auto dest: find_SomeD)
    then have xl: "x < MAX_INIFILE_SECTION_NUM" by (rule node_listsD(2)[OF shapeD(2)[OF sh] f])
    note K = sec_keyval_eq[OF sh fi xl k]
    show ?thesis
    proof (cases "List.find (\<lambda>y. fst (kv_pair w y) = arg_string k (par_key_len par)) (KK x)")
      case None
      then show ?thesis using F G K Some fd s k by (auto simp: get_value_ofkey_def)
    next
      case y: (Some y)
      then have "y \<in> set (KK x)" by (auto dest: find_SomeD)
      then obtain q where "kv_value (kv_at w y) = Some q" using fi xl unfolding filled_def by blast
      then show ?thesis using F G K Some y fd s k
        by (intro exI[of _ "Some q"]) (simp add: get_value_ofkey_def kv_pair_def field_string_def)
    qed
  qed
qed

section \<open>Changing one node\<close>

lemma ball_list_update: "\<forall>x \<in> set xs. P x \<Longrightarrow> P y \<Longrightarrow> \<forall>x \<in> set (xs[i := y]). P x"
  using set_update_subset_insert[of xs i y] by auto

lemma fields_live_upd_kv:
  "fields_live w \<Longrightarrow> live_field (pool_mem w) (kv_key (g (kv_at w k))) \<Longrightarrow>
   live_field (pool_mem w) (kv_value (g (kv_at w k))) \<Longrightarrow> fields_live (upd_kv k g w)"
  unfolding fields_live_def upd_kv_simps by (intro conjI ball_list_update) auto

lemma fields_live_upd_sec:
  "fields_live w \<Longrightarrow> live_field (pool_mem w) (sec_sec (g (sec_at w k))) \<Longrightarrow> fields_live (upd_sec k g w)"
  unfolding fields_live_def upd_sec_simps by (intro conjI ball_list_update) auto

lemma fields_live_upd_fil:
  "fields_live w \<Longrightarrow> live_field (pool_mem w) (fil_name (g (fil_at w k))) \<Longrightarrow> fields_live (upd_fil k g w)"
  unfolding fields_live_def upd_fil_simps by (intro conjI ball_list_update) auto

lemma live_fieldI:
  assumes "fields_live w"
  shows "k < length (keyval_array w) \<Longrightarrow> live_field (pool_mem w) (kv_key (kv_at w k)) \<and> live_field (pool_mem w) (kv_value (kv_at w k))"
    and "s < length (section_array w) \<Longrightarrow> live_field (pool_mem w) (sec_sec (sec_at w s))"
    and "f < length (ini_array w) \<Longrightarrow> live_field (pool_mem w) (fil_name (fil_at w f))"
  using assms by (auto simp: fields_live_def)

lemma live_field_simps [simp]: "live_field pm None" "live_field pm (Some p) = live_ptr pm p"
  by (auto simp: live_field_def)

lemma store_inv_same_pool:
  assumes "store_inv w" and "pool_mem w' = pool_mem w" and "fields_live w'" and "shape w' SS KK SP KP"
  shows "store_inv w'"
  using assms shape_walkable[OF assms(4)] by (simp add: store_inv_def)

lemma okay_lengths:
  assumes "okay_world w"
  shows "length (ini_array w) = MAX_OPERATION_FILE_NUM" "length (section_array w) = MAX_INIFILE_SECTION_NUM"
    "length (keyval_array w) = INIFILE_KEYVALUE_ARRAY_LEN"
  using assms by (auto simp: okay_world_def)

text \<open>Assigning a string field changes no list.\<close>

lemma shape_upd_kv:
  assumes "shape w SS KK SP KP"
    and "\<And>x. kv_flag (g x) = kv_flag x \<and> kv_pre (g x) = kv_pre x \<and> kv_last (g x) = kv_last x"
  shows "shape (upd_kv k g w) SS KK SP KP"
proof -
  note D = shapeD[OF assms(1)]
  have "kv_lists (upd_kv k g w) KK KP" unfolding kv_lists_def
    by (rule node_lists_cong[OF D(3)]) (use assms(2) okay_lengths[OF D(1)] in \<open>auto simp: nth_upd\<close>)
  with assms(1) show ?thesis by (simp add: shape_def okay_world_def sec_lists_def)
qed

lemma shape_upd_sec:
  assumes "shape w SS KK SP KP"
    and "\<And>x. sec_flag (g x) = sec_flag x \<and> sec_pre (g x) = sec_pre x \<and> sec_last (g x) = sec_last x \<and> sec_head (g x) = sec_head x"
  shows "shape (upd_sec k g w) SS KK SP KP"
proof -
  note D = shapeD[OF assms(1)]
  have "sec_lists (upd_sec k g w) SS SP" unfolding sec_lists_def
    by (rule node_lists_cong[OF D(2)]) (use assms(2) okay_lengths[OF D(1)] in \<open>auto simp: nth_upd\<close>)
  moreover have "kv_lists (upd_sec k g w) KK KP" unfolding kv_lists_def
    by (rule node_lists_cong[OF D(3)]) (use assms(2) okay_lengths[OF D(1)] in \<open>auto simp: nth_upd\<close>)
  ultimately show ?thesis using assms(1) by (simp add: shape_def okay_world_def)
qed

lemma shape_upd_fil:
  assumes "shape w SS KK SP KP" and "\<And>x. fil_flag (g x) = fil_flag x \<and> fil_head (g x) = fil_head x"
  shows "shape (upd_fil k g w) SS KK SP KP"
proof -
  note D = shapeD[OF assms(1)]
  have "sec_lists (upd_fil k g w) SS SP" unfolding sec_lists_def
    by (rule node_lists_cong[OF D(2)]) (use assms(2) okay_lengths[OF D(1)] in \<open>auto simp: nth_upd\<close>)
  moreover have "fil_flag (fil_at (upd_fil k g w) f) = fil_flag (fil_at w f)" if "f < MAX_OPERATION_FILE_NUM" for f
    using assms(2) okay_lengths[OF D(1)] that by (auto simp: nth_upd)
  ultimately show ?thesis using assms(1) by (auto simp: shape_def okay_world_def kv_lists_def)
qed

text \<open>Storing a string through the pool, in a world with the invariant.\<close>

lemma store_step:
  assumes st: "store_inv w" and sh: "shape w SS KK SP KP" and fi: "filled w SS KK"
    and "NUL \<notin> set bs" and "room bs w"
  obtains ret q w' where "storage_char_memory bs w = Some (ret, q, w')" "store_inv w'" "shape w' SS KK SP KP"
    "filled w' SS KK" "\<And>f. f < MAX_OPERATION_FILE_NUM \<Longrightarrow> doc_of w' SS KK f = doc_of w SS KK f"
    "ret = 0 \<and> (\<exists>p. q = Some p \<and> live_ptr (pool_mem w') p \<and> pool_string (pool_mem w') p = bs) \<or> ret < 0 \<and> q = None"
    "same_view w w'"
proof (rule storage_ok[OF st assms(4,5)])
  fix ret q w' assume a: "storage_char_memory bs w = Some (ret, q, w')" "store_inv w'" "same_view w w'"
    "ret = 0 \<and> (\<exists>p. q = Some p \<and> live_ptr (pool_mem w') p \<and> pool_string (pool_mem w') p = bs) \<or> ret < 0 \<and> q = None"
  show thesis
    by (rule that[OF a(1,2) shape_same_view[OF a(3) sh] filled_same_view[OF a(3) sh fi] _ a(4,3)])
       (rule doc_of_same_view[OF a(3) sh])
qed

section \<open>Updating a value\<close>

lemma arg_bytes_fill:
  assumes "arg_ok v len"
  shows "arg_bytes v (if len \<le> 0 then int (str_int_len (Some v)) else len) = Some (arg_string v len)"
  using arg_string_take[OF assms] unfolding arg_bytes_def by (simp only:) simp

lemma kv_owner:
  assumes "shape w SS KK SP KP" and "k \<in> set (KK s)" and "s < MAX_INIFILE_SECTION_NUM"
    and "k \<in> set (KK t)" and "t < MAX_INIFILE_SECTION_NUM"
  shows "t = s"
  using node_listsD(3)[OF shapeD(3)[OF assms(1)] assms(5,3,4,2)] .

lemma set_value_ok:
  assumes st: "store_inv w" and sh: "shape w SS KK SP KP" and fi: "filled w SS KK"
    and f: "f < MAX_OPERATION_FILE_NUM"
    and s: "List.find (\<lambda>x. sec_name w x = a) (SS f) = Some s"
    and k: "List.find (\<lambda>y. fst (kv_pair w y) = b) (KK s) = Some k"
    and q: "live_ptr (pool_mem w) q" "pool_string (pool_mem w) q = v"
  defines "w' \<equiv> upd_kv k (\<lambda>x. x\<lparr>kv_value := Some q\<rparr>) w"
  shows "store_inv w'" "shape w' SS KK SP KP" "filled w' SS KK"
    "\<And>g. g < MAX_OPERATION_FILE_NUM \<Longrightarrow>
       doc_of w' SS KK g = (if g = f then doc_update a b v (doc_of w SS KK f) else doc_of w SS KK g)"
proof -
  note D = shapeD[OF sh] and L = okay_lengths[OF shapeD(1)[OF sh]]
  have sf: "s \<in> set (SS f)" and ks: "k \<in> set (KK s)" using s k by (auto dest: find_SomeD)
  have sl: "s < MAX_INIFILE_SECTION_NUM" by (rule node_listsD(2)[OF D(2) f sf])
  have kl: "k < INIFILE_KEYVALUE_ARRAY_LEN" by (rule node_listsD(2)[OF D(3) sl ks])
  show sh': "shape w' SS KK SP KP" unfolding w'_def by (rule shape_upd_kv[OF sh]) simp
  have "fields_live w" using st by (simp add: store_inv_def)
  then have "fields_live w'" unfolding w'_def
    using live_fieldI(1)[OF \<open>fields_live w\<close>, of k] kl L q by (intro fields_live_upd_kv) auto
  then show "store_inv w'" by (intro store_inv_same_pool[OF st _ _ sh']) (simp_all add: w'_def)
  have pair: "kv_pair w' y = (fst (kv_pair w y), if y = k then v else snd (kv_pair w y))" if "y < INIFILE_KEYVALUE_ARRAY_LEN" for y
    using that L q by (auto simp: kv_pair_def w'_def nth_upd field_string_def)
  have nm: "sec_name w' x = sec_name w x" for x by (simp add: sec_name_def w'_def)
  show "filled w' SS KK"
    using fi L kl node_listsD(2)[OF D(3)] unfolding filled_def w'_def by (auto simp: nth_upd) 
  have inner: "map (kv_pair w') (KK t) = (if t = s then AList.map_entry b (\<lambda>_. v) (map (kv_pair w) (KK s)) else map (kv_pair w) (KK t))"
    if t: "t < MAX_INIFILE_SECTION_NUM" for t
  proof (cases "t = s")
    case True
    have "map (\<lambda>y. (fst (kv_pair w y), if y = k then v else snd (kv_pair w y))) (KK s) =
          AList.map_entry b (\<lambda>_. v) (map (\<lambda>y. (fst (kv_pair w y), snd (kv_pair w y))) (KK s))"
      by (rule map_entry_keyed[OF node_lists_distinct[OF D(3) sl] k]) simp
    with True pair node_listsD(2)[OF D(3) sl] show ?thesis by (simp cong: map_cong)
  next
    case False
    then have "k \<notin> set (KK t)" using kv_owner[OF sh ks sl] t by blast
    with False pair node_listsD(2)[OF D(3) t] show ?thesis by (auto simp: prod_eq_iff)
  qed
  fix g assume g: "g < MAX_OPERATION_FILE_NUM"
  have gl: "x < MAX_INIFILE_SECTION_NUM" if "x \<in> set (SS g)" for x by (rule node_listsD(2)[OF D(2) g that])
  show "doc_of w' SS KK g = (if g = f then doc_update a b v (doc_of w SS KK f) else doc_of w SS KK g)"
  proof (cases "g = f")
    case True
    show ?thesis unfolding doc_of_def doc_update_def True nm
      by simp (rule map_entry_keyed[OF node_lists_distinct[OF D(2) f] s], use inner gl True in auto)
  next
    case False
    then have "s \<notin> set (SS g)" using node_listsD(3)[OF D(2) f g sf] by auto
    with False inner gl show ?thesis by (auto simp: doc_of_def nm)
  qed
qed

text \<open>
  \<^verbatim>\<open>update_value_ofkey\<close> in memory: the new value is stored and the document updated, or the pool
  gives up and nothing changes. What happens to the file is the business of
  \<^verbatim>\<open>rewrite_after_update\<close>.
\<close>

lemma update_memory:
  assumes inv: "ini_inv w" and fd: "valid_fd fd"
    and s: "par_section par = Some s" "arg_ok s (par_section_len par)"
    and k: "par_key par = Some k" "arg_ok k (par_key_len par)"
    and v: "par_value par = Some v" "arg_ok v (par_value_len par)" "NUL \<notin> set (arg_string v (par_value_len par))"
    and rm: "room (arg_string v (par_value_len par)) w"
    and found: "doc_get (arg_string s (par_section_len par)) (arg_string k (par_key_len par)) (doc w (nat fd)) \<noteq> None"
  shows "\<exists>ret w1. ini_inv w1 \<and> ini_fs w1 = ini_fs w \<and> file_name (nat fd) w1 = file_name (nat fd) w \<and>
    (\<forall>g < MAX_OPERATION_FILE_NUM. g \<noteq> nat fd \<longrightarrow> doc w1 g = doc w g) \<and>
    (ret < 0 \<and> doc w1 (nat fd) = doc w (nat fd) \<and>
       update_value_ofkey fd (Some par) w = Some (ret, Some (fill_value_len par), w1) \<or>
     doc w1 (nat fd) = doc_update (arg_string s (par_section_len par)) (arg_string k (par_key_len par))
                         (arg_string v (par_value_len par)) (doc w (nat fd)) \<and>
       update_value_ofkey fd (Some par) w = call_rewrite rewrite_after_update fd (fill_value_len par) w1)"
proof -
  obtain SS KK where sh: "shape w SS KK {} {}" and fi: "filled w SS KK" and st: "store_inv w"
    using inv by (auto simp: ini_inv_def)
  note f = valid_fd_lt[OF fd] and F = fd_section_eq[OF sh fi fd s]
  let ?a = "arg_string s (par_section_len par)" and ?b = "arg_string k (par_key_len par)"
  let ?v = "arg_string v (par_value_len par)"
  obtain x y where x: "List.find (\<lambda>x. sec_name w x = ?a) (SS (nat fd)) = Some x"
    and y: "List.find (\<lambda>y. fst (kv_pair w y) = ?b) (KK x) = Some y"
    using found doc_get_find[OF sh f] by (auto split: option.splits)
  have xl: "x < MAX_INIFILE_SECTION_NUM" using x node_listsD(2)[OF shapeD(2)[OF sh] f] by (auto dest: find_SomeD)
  note K = sec_keyval_eq[OF sh fi xl k]
  have bs: "arg_bytes (the (par_value (fill_value_len par))) (par_value_len (fill_value_len par)) = Some ?v"
    using arg_bytes_fill[OF v(2)] v(1) by (auto simp: fill_value_len_def split: if_splits)
  obtain ret q w' where a: "storage_char_memory ?v w = Some (ret, q, w')" "store_inv w'" "shape w' SS KK {} {}"
    "filled w' SS KK" "\<And>f. f < MAX_OPERATION_FILE_NUM \<Longrightarrow> doc_of w' SS KK f = doc_of w SS KK f"
    "ret = 0 \<and> (\<exists>p. q = Some p \<and> live_ptr (pool_mem w') p \<and> pool_string (pool_mem w') p = ?v) \<or> ret < 0 \<and> q = None"
    "same_view w w'"
    by (rule store_step[OF st sh fi v(3) rm]) blast
  have dq: "doc w' g = doc w g" if "g < MAX_OPERATION_FILE_NUM" for g
    using doc_eq[OF sh that] doc_eq[OF a(3) that] a(5)[OF that] by simp
  have fsn: "ini_fs w' = ini_fs w" "file_name (nat fd) w' = file_name (nat fd) w"
    using a(7) same_view_fil[OF a(7), of "nat fd"] f okay_lengths[OF shapeD(1)[OF sh]]
    by (auto simp: same_view_def file_name_def file_view_def field_string_def)
  have run: "update_value_ofkey fd (Some par) w =
      (if ret < 0 then Some (ret, Some (fill_value_len par), w')
       else call_rewrite rewrite_after_update fd (fill_value_len par) (upd_kv y (\<lambda>z. z\<lparr>kv_value := q\<rparr>) w'))"
    using fd s k v F K x y bs a(1) by (simp add: update_value_ofkey_def)
  show ?thesis
  proof (cases "ret < 0")
    case True
    have "ini_inv w'" using a(2-4) by (auto simp: ini_inv_def)
    with True run dq f fsn show ?thesis by (intro exI[of _ ret] exI[of _ w']) auto
  next
    case False
    then obtain p where p: "q = Some p" "live_ptr (pool_mem w') p" "pool_string (pool_mem w') p = ?v" using a(6) by auto
    let ?w1 = "upd_kv y (\<lambda>z. z\<lparr>kv_value := Some p\<rparr>) w'"
    have nm: "sec_name w' z = sec_name w z" if "z \<in> set (SS (nat fd))" for z
      using same_view_sec[OF a(7), of z] node_listsD(2)[OF shapeD(2)[OF sh] f that] okay_lengths[OF shapeD(1)[OF sh]]
      by (simp add: sec_name_def section_view_def)
    have kp: "kv_pair w' z = kv_pair w z" if "z \<in> set (KK x)" for z
      using same_view_kv[OF a(7), of z] node_listsD(2)[OF shapeD(3)[OF sh] xl that] okay_lengths[OF shapeD(1)[OF sh]]
      by (simp add: kv_pair_def keyval_view_def)
    have x': "List.find (\<lambda>x. sec_name w' x = ?a) (SS (nat fd)) = Some x"
      using x nm by (simp cong: find_cong)
    have y': "List.find (\<lambda>y. fst (kv_pair w' y) = ?b) (KK x) = Some y" using y kp by (simp cong: find_cong)
    note R = set_value_ok[OF a(2-4) f x' y' p(2,3)]
    have "ini_inv ?w1" using R(1-3) by (auto simp: ini_inv_def)
    moreover have "doc ?w1 g = (if g = nat fd then doc_update ?a ?b ?v (doc w (nat fd)) else doc w g)"
      if "g < MAX_OPERATION_FILE_NUM" for g
      using R(4)[OF that] doc_eq[OF R(2) that] doc_eq[OF sh that] doc_eq[OF sh f] a(5) f that by simp
    ultimately show ?thesis using False run f fsn p(1)
      by (intro exI[of _ ret] exI[of _ ?w1]) (auto simp: file_name_def)
  qed
qed

end
