(* ===== verification/Ini_Delete.thy ===== *)
theory Ini_Delete
  imports Ini_Refine
begin

text \<open>
  Deleting in memory: \<^verbatim>\<open>delete_value_ofkey\<close>, \<^verbatim>\<open>delete_ini_section\<close> and \<^verbatim>\<open>destroy_ini_source\<close> unlink
  their nodes, clear them and give their slots back; every other document is untouched.
\<close>

section \<open>Removing one key\<close>

lemma remove_keyval_frame:
  "pool_mem (remove_keyval s k w) = pool_mem w" "ini_array (remove_keyval s k w) = ini_array w"
  "ini_fs (remove_keyval s k w) = ini_fs w"
  "length (section_array (remove_keyval s k w)) = length (section_array w)"
  "length (keyval_array (remove_keyval s k w)) = length (keyval_array w)"
  by (auto simp: remove_defs Let_def split: option.splits)

lemma remove_keyval_sections:
  "t < length (section_array w) \<Longrightarrow>
     sec_sec (sec_at (remove_keyval s k w) t) = sec_sec (sec_at w t) \<and>
     sec_flag (sec_at (remove_keyval s k w) t) = sec_flag (sec_at w t) \<and>
     sec_prv (remove_keyval s k w) t = sec_prv w t \<and> sec_nxt (remove_keyval s k w) t = sec_nxt w t"
  by (auto simp: remove_defs Let_def nth_upd split: option.splits)

lemma remove_keyval_strings:
  "j < length (keyval_array w) \<Longrightarrow> j \<noteq> k \<Longrightarrow>
     kv_key (kv_at (remove_keyval s k w) j) = kv_key (kv_at w j) \<and>
     kv_value (kv_at (remove_keyval s k w) j) = kv_value (kv_at w j)"
  "k < length (keyval_array w) \<Longrightarrow> kv_key (kv_at (remove_keyval s k w) k) = None \<and>
     kv_value (kv_at (remove_keyval s k w) k) = None"
  by (auto simp: remove_defs Let_def nth_upd split: option.splits)

lemma fields_live_by_index:
  assumes "pool_mem w' = pool_mem w" and "fields_live w"
    and "length (ini_array w') = length (ini_array w)" "length (section_array w') = length (section_array w)"
    "length (keyval_array w') = length (keyval_array w)"
    and "\<And>f. f < length (ini_array w) \<Longrightarrow> fil_name (fil_at w' f) \<in> {None, fil_name (fil_at w f)}"
    and "\<And>s. s < length (section_array w) \<Longrightarrow> sec_sec (sec_at w' s) \<in> {None, sec_sec (sec_at w s)}"
    and "\<And>k. k < length (keyval_array w) \<Longrightarrow> kv_key (kv_at w' k) \<in> {None, kv_key (kv_at w k)} \<and>
           kv_value (kv_at w' k) \<in> {None, kv_value (kv_at w k)}"
  shows "fields_live w'"
  unfolding fields_live_def all_set_conv_all_nth assms(1,3,4,5)
  using live_fieldI[OF assms(2)] assms(6-8) by (metis insertE live_field_simps(1) singletonD)

lemma remove_key_ok:
  assumes st: "store_inv w" and sh: "shape w SS KK SP KP" and fi: "filled w SS KK"
    and f: "f < MAX_OPERATION_FILE_NUM"
    and s: "List.find (\<lambda>x. sec_name w x = a) (SS f) = Some s"
    and k: "List.find (\<lambda>y. fst (kv_pair w y) = b) (KK s) = Some k"
  defines "w' \<equiv> remove_keyval s k w" and "KK' \<equiv> KK(s := remove1 k (KK s))"
  shows "store_inv w'" "shape w' SS KK' SP KP" "filled w' SS KK'"
    "\<And>g. g < MAX_OPERATION_FILE_NUM \<Longrightarrow>
       doc_of w' SS KK' g = (if g = f then doc_delete a b (doc_of w SS KK f) else doc_of w SS KK g)"
proof -
  note D = shapeD[OF sh] and L = okay_lengths[OF shapeD(1)[OF sh]]
  have sf: "s \<in> set (SS f)" and ks: "k \<in> set (KK s)" using s k by (auto dest: find_SomeD)
  have sl: "s < MAX_INIFILE_SECTION_NUM" by (rule node_listsD(2)[OF D(2) f sf])
  have kl: "k < INIFILE_KEYVALUE_ARRAY_LEN" by (rule node_listsD(2)[OF D(3) sl ks])
  note R = keyvals.remove_lists[OF D(1,3) sl ks, folded w'_def KK'_def]
  have "sec_lists w' SS SP" unfolding sec_lists_def
    by (rule node_lists_cong[OF D(2)]) (use L remove_keyval_sections[of _ w s k] in \<open>auto simp: w'_def remove_keyval_frame\<close>)
  then show sh': "shape w' SS KK' SP KP"
    using R D(4,5) sf f by (auto simp: shape_def kv_lists_def KK'_def w'_def remove_keyval_frame)
  have kvs: "kv_key (kv_at w' j) \<in> {None, kv_key (kv_at w j)} \<and> kv_value (kv_at w' j) \<in> {None, kv_value (kv_at w j)}"
    if "j < length (keyval_array w)" for j
    using that remove_keyval_strings(1)[of j w k s] remove_keyval_strings(2)[of k w s] unfolding w'_def by (cases "j = k") auto
  have "fields_live w'"
    by (rule fields_live_by_index[of w' w])
       (use st kvs remove_keyval_sections[of _ w s k] in \<open>simp_all add: w'_def remove_keyval_frame store_inv_def\<close>)
  then show "store_inv w'" by (intro store_inv_same_pool[OF st _ _ sh']) (simp_all add: w'_def remove_keyval_frame)
  have pair: "kv_pair w' y = kv_pair w y" if "y < INIFILE_KEYVALUE_ARRAY_LEN" "y \<noteq> k" for y
    using that L remove_keyval_strings(1)[of y w k s] by (simp add: kv_pair_def w'_def remove_keyval_frame)
  have nm: "sec_name w' x = sec_name w x" if "x < MAX_INIFILE_SECTION_NUM" for x
    using that L remove_keyval_sections[of x w s k] by (simp add: sec_name_def w'_def remove_keyval_frame)
  have mem: "y \<in> set (KK' t) \<longleftrightarrow> y \<in> set (KK t) \<and> y \<noteq> k" if "t < MAX_INIFILE_SECTION_NUM" for y t
    using kv_owner[OF sh ks sl _ that] node_lists_distinct[OF D(3) sl] by (auto simp: KK'_def set_remove1_eq)
  show "filled w' SS KK'" unfolding filled_def
  proof (intro conjI allI impI ballI)
    fix g x assume g: "g < MAX_OPERATION_FILE_NUM" "x \<in> set (SS g)"
    then show "sec_sec (sec_at w' x) \<noteq> None"
      using fi remove_keyval_sections[of x w s k] node_listsD(2)[OF D(2) g] L unfolding filled_def w'_def by simp
  next
    fix t y assume t: "t < MAX_INIFILE_SECTION_NUM" "y \<in> set (KK' t)"
    then have y: "y \<in> set (KK t)" "y \<noteq> k" using mem by auto
    then have "kv_key (kv_at w y) \<noteq> None \<and> kv_value (kv_at w y) \<noteq> None" using fi t(1) unfolding filled_def by blast
    then show "kv_key (kv_at w' y) \<noteq> None" "kv_value (kv_at w' y) \<noteq> None"
      using remove_keyval_strings(1)[of y w k s] y node_listsD(2)[OF D(3) t(1) y(1)] L unfolding w'_def by auto
  qed
  have inner: "map (kv_pair w') (KK' t) = (if t = s then del_first b (map (kv_pair w) (KK s)) else map (kv_pair w) (KK t))"
    if t: "t < MAX_INIFILE_SECTION_NUM" for t
  proof -
    have "map (kv_pair w') (KK' t) = map (kv_pair w) (KK' t)"
      using pair mem[OF t] node_listsD(2)[OF D(3) t] by auto
    moreover have "map (kv_pair w) (remove1 k (KK s)) = del_first b (map (kv_pair w) (KK s))"
      using del_first_keyed[OF node_lists_distinct[OF D(3) sl] k, of "\<lambda>y. snd (kv_pair w y)"] by simp
    ultimately show ?thesis by (simp add: KK'_def del: map_eq_conv split: if_splits)
  qed
  fix g assume g: "g < MAX_OPERATION_FILE_NUM"
  have gl: "x < MAX_INIFILE_SECTION_NUM" if "x \<in> set (SS g)" for x by (rule node_listsD(2)[OF D(2) g that])
  have d: "doc_of w' SS KK' g = map (\<lambda>x. (sec_name w x, map (kv_pair w') (KK' x))) (SS g)"
    using nm gl by (simp add: doc_of_def)
  show "doc_of w' SS KK' g = (if g = f then doc_delete a b (doc_of w SS KK f) else doc_of w SS KK g)"
  proof (cases "g = f")
    case True
    show ?thesis unfolding d unfolding doc_delete_def True doc_of_def
      by simp (rule map_entry_keyed[OF node_lists_distinct[OF D(2) f] s], use inner gl True in auto)
  next
    case False
    then have "s \<notin> set (SS g)" using node_listsD(3)[OF D(2) f g sf] by auto
    with False inner gl d show ?thesis by (auto simp: doc_of_def)
  qed
qed

text \<open>\<^verbatim>\<open>delete_value_ofkey\<close> in memory, on every branch.\<close>

lemma delete_memory:
  assumes inv: "ini_inv w" and fd: "valid_fd fd"
    and s: "par_section par = Some s" "arg_ok s (par_section_len par)"
    and k: "par_key par = Some k" "arg_ok k (par_key_len par)"
  defines "a \<equiv> arg_string s (par_section_len par)" and "b \<equiv> arg_string k (par_key_len par)"
  shows "map_of (doc w (nat fd)) a = None \<Longrightarrow>
           delete_value_ofkey fd (Some par) w = Some (INIFILE_SECTION_NOFOUND, Some par, w)"
    and "map_of (doc w (nat fd)) a \<noteq> None \<Longrightarrow> doc_get a b (doc w (nat fd)) = None \<Longrightarrow>
           delete_value_ofkey fd (Some par) w = Some (INIFILE_KEYVALUE_NOFOUND, Some par, w)"
    and "doc_get a b (doc w (nat fd)) \<noteq> None \<Longrightarrow>
      \<exists>w1. delete_value_ofkey fd (Some par) w = call_rewrite rewrite_after_delete fd par w1 \<and> ini_inv w1 \<and>
        ini_fs w1 = ini_fs w \<and> file_name (nat fd) w1 = file_name (nat fd) w \<and>
        (\<forall>g < MAX_OPERATION_FILE_NUM. doc w1 g = (if g = nat fd then doc_delete a b (doc w g) else doc w g))"
proof -
  obtain SS KK where sh: "shape w SS KK {} {}" and fi: "filled w SS KK" and st: "store_inv w"
    using inv by (auto simp: ini_inv_def)
  note f = valid_fd_lt[OF fd] and F = fd_section_eq[OF sh fi fd s, folded a_def]
  have m: "map_of (doc w (nat fd)) a = map_option (\<lambda>s. map (kv_pair w) (KK s)) (List.find (\<lambda>s. sec_name w s = a) (SS (nat fd)))"
    unfolding doc_eq[OF sh f] doc_of_def map_of_keyed ..
  show "map_of (doc w (nat fd)) a = None \<Longrightarrow>
     delete_value_ofkey fd (Some par) w = Some (INIFILE_SECTION_NOFOUND, Some par, w)"
    using m F fd s k by (simp add: delete_value_ofkey_def)
  have K: "sec_keyval x par w = Some (List.find (\<lambda>y. fst (kv_pair w y) = b) (KK x))"
    if "List.find (\<lambda>x. sec_name w x = a) (SS (nat fd)) = Some x" for x
    unfolding b_def using sec_keyval_eq[OF sh fi _ k, of x] node_listsD(2)[OF shapeD(2)[OF sh] f, of x] that by (auto dest: find_SomeD)
  show "map_of (doc w (nat fd)) a \<noteq> None \<Longrightarrow> doc_get a b (doc w (nat fd)) = None \<Longrightarrow>
     delete_value_ofkey fd (Some par) w = Some (INIFILE_KEYVALUE_NOFOUND, Some par, w)"
    using m F K fd s k doc_get_find[OF sh f, of a b] by (auto simp: delete_value_ofkey_def)
  assume "doc_get a b (doc w (nat fd)) \<noteq> None"
  then obtain x y where x: "List.find (\<lambda>x. sec_name w x = a) (SS (nat fd)) = Some x"
    and y: "List.find (\<lambda>y. fst (kv_pair w y) = b) (KK x) = Some y"
    using doc_get_find[OF sh f, of a b] by (auto split: option.splits)
  let ?w1 = "remove_keyval x y w"
  note R = remove_key_ok[OF st sh fi f x y]
  have "delete_value_ofkey fd (Some par) w = call_rewrite rewrite_after_delete fd par ?w1"
    using fd s k F K[OF x] x y by (simp add: delete_value_ofkey_def remove_keyval_def)
  moreover have "ini_inv ?w1" using R(1-3) by (auto simp: ini_inv_def)
  moreover have "doc ?w1 g = (if g = nat fd then doc_delete a b (doc w g) else doc w g)" if "g < MAX_OPERATION_FILE_NUM" for g
    using R(4)[OF that] doc_eq[OF R(2) that] doc_eq[OF sh that] by auto
  ultimately show "\<exists>w1. delete_value_ofkey fd (Some par) w = call_rewrite rewrite_after_delete fd par w1 \<and> ini_inv w1 \<and>
        ini_fs w1 = ini_fs w \<and> file_name (nat fd) w1 = file_name (nat fd) w \<and>
        (\<forall>g < MAX_OPERATION_FILE_NUM. doc w1 g = (if g = nat fd then doc_delete a b (doc w g) else doc w g))"
    by (intro exI[of _ ?w1]) (auto simp: file_name_def remove_keyval_frame)
qed

section \<open>Clearing lists\<close>

lemma zero_keyvalueI:
  "kv_last x = None \<Longrightarrow> x\<lparr>kv_key := None, kv_value := None, kv_pre := None, kv_flag := STRUCT_NODE_UN_USED\<rparr> = zero_keyvalue"
  "x\<lparr>kv_key := None, kv_value := None, kv_pre := None, kv_last := None, kv_flag := STRUCT_NODE_UN_USED\<rparr> = zero_keyvalue"
  by (cases x; simp add: zero_keyvalue_def flag_defs)+

lemma zero_sectionI:
  "sec_last x = None \<Longrightarrow> x\<lparr>sec_sec := None, sec_head := None, sec_pre := None, sec_flag := STRUCT_NODE_UN_USED\<rparr> = zero_section"
  "x\<lparr>sec_sec := None, sec_head := None, sec_pre := None, sec_last := None, sec_flag := STRUCT_NODE_UN_USED\<rparr> = zero_section"
  by (cases x; simp add: zero_section_def flag_defs)+

lemma clear_keyvals_ok:
  assumes "dchain (kv_nxt w) (kv_prv w) q p ks" and "distinct ks" and "set ks \<subseteq> {..<length (keyval_array w)}"
    and "length ks \<le> n"
  shows "\<exists>kva. clear_keyvals n p w = Some (w\<lparr>keyval_array := kva\<rparr>) \<and> length kva = length (keyval_array w) \<and>
    (\<forall>j < length (keyval_array w). kva ! j = (if j \<in> set ks then zero_keyvalue else kv_at w j))"
  using assms
proof (induction ks arbitrary: w q p n)
  case Nil
  then show ?case by (intro exI[of _ "keyval_array w"]) simp
next
  case (Cons k ks)
  then obtain m where n: "n = Suc m" by (cases n) auto
  have kl: "k < length (keyval_array w)" and p: "p = Some k" using Cons.prems by auto
  let ?w1 = "upd_kv k (\<lambda>x. x\<lparr>kv_key := None, kv_value := None, kv_pre := None\<rparr>) w"
  show ?case
  proof (cases ks)
    case Nil
    then have "kv_nxt ?w1 k = None" using Cons.prems(1) kl by simp
    then have "clear_keyvals n p w = Some (upd_kv k (\<lambda>x. x\<lparr>kv_flag := STRUCT_NODE_UN_USED\<rparr>) ?w1)"
      using n p by (simp add: Let_def)
    then show ?thesis using Nil kl \<open>kv_nxt ?w1 k = None\<close>
      by (intro exI[of _ "(keyval_array w)[k := zero_keyvalue]"])
         (auto simp: nth_upd upd_kv_def zero_keyvalueI)
  next
    case (Cons k' ks')
    have nx: "kv_nxt w k = Some k'" "kv_prv w k' = Some k" "k' \<noteq> k" "k' < length (keyval_array w)"
      using Cons.prems Cons by auto
    let ?w2 = "upd_kv k (\<lambda>x. x\<lparr>kv_last := None, kv_flag := STRUCT_NODE_UN_USED\<rparr>) ?w1"
    have run: "clear_keyvals n p w = clear_keyvals m (Some k') ?w2"
      using n p nx kl by (simp add: Let_def nth_upd)
    have w2: "keyval_array ?w2 = (keyval_array w)[k := zero_keyvalue]" "?w2\<lparr>keyval_array := kva\<rparr> = w\<lparr>keyval_array := kva\<rparr>" for kva
      using kl by (auto simp: upd_kv_def zero_keyvalueI)
    have "dchain (kv_nxt ?w2) (kv_prv ?w2) (Some k) (Some k') ks = dchain (kv_nxt w) (kv_prv w) (Some k) (Some k') ks"
      using Cons.prems(2,3) unfolding w2 by (intro dchain_cong) (auto simp: nth_upd)
    then have "dchain (kv_nxt ?w2) (kv_prv ?w2) (Some k) (Some k') ks" using Cons.prems(1) nx by simp
    from Cons.IH[OF this, of m] Cons.prems n w2(1) obtain kva where
      "clear_keyvals m (Some k') ?w2 = Some (?w2\<lparr>keyval_array := kva\<rparr>)" "length kva = length (keyval_array w)"
      "\<forall>j < length (keyval_array w). kva ! j = (if j \<in> set ks then zero_keyvalue else (keyval_array w)[k := zero_keyvalue] ! j)"
      by auto
    with run w2(2) kl show ?thesis by (intro exI[of _ kva]) (auto simp: nth_upd)
  qed
qed

text \<open>
  Clearing all sections of a list: the nodes of the sections and of all their keys are zero, and
  nothing else changes.
\<close>

lemma clear_sections_ok:
  assumes "dchain (sec_nxt w) (sec_prv w) q p ss" and "distinct ss" and "set ss \<subseteq> {..<length (section_array w)}"
    and "length ss \<le> n"
    and "\<And>s. s \<in> set ss \<Longrightarrow> dchain (kv_nxt w) (kv_prv w) None (kv_first w s) (KK s) \<and>
           distinct (KK s) \<and> set (KK s) \<subseteq> {..<length (keyval_array w)}"
    and "\<And>s t. s \<in> set ss \<Longrightarrow> t \<in> set ss \<Longrightarrow> s \<noteq> t \<Longrightarrow> set (KK s) \<inter> set (KK t) = {}"
  shows "\<exists>sa kva. clear_sections n p w = Some (w\<lparr>section_array := sa, keyval_array := kva\<rparr>) \<and>
    length sa = length (section_array w) \<and> length kva = length (keyval_array w) \<and>
    (\<forall>i < length (section_array w). sa ! i = (if i \<in> set ss then zero_section else sec_at w i)) \<and>
    (\<forall>j < length (keyval_array w). kva ! j = (if \<exists>s \<in> set ss. j \<in> set (KK s) then zero_keyvalue else kv_at w j))"
  using assms
proof (induction ss arbitrary: w q p n)
  case Nil
  then show ?case by (intro exI[of _ "section_array w"] exI[of _ "keyval_array w"]) simp
next
  case (Cons s ss)
  then obtain m where n: "n = Suc m" by (cases n) auto
  have sl: "s < length (section_array w)" and p: "p = Some s" using Cons.prems by auto
  have ks: "dchain (kv_nxt w) (kv_prv w) None (kv_first w s) (KK s)" "distinct (KK s)" "set (KK s) \<subseteq> {..<length (keyval_array w)}"
    using Cons.prems(5)[of s] by auto
  have kn: "length (KK s) \<le> length (keyval_array w)"
    using chain_length_le[OF dchain_imp_chain[OF ks(1)] ks(3)] .
  obtain kva where k: "clear_keyvals (length (keyval_array w)) (kv_first w s) w = Some (w\<lparr>keyval_array := kva\<rparr>)"
    "length kva = length (keyval_array w)"
    "\<forall>j < length (keyval_array w). kva ! j = (if j \<in> set (KK s) then zero_keyvalue else kv_at w j)"
    using clear_keyvals_ok[OF ks kn] by auto
  let ?w1 = "upd_sec s (\<lambda>x. x\<lparr>sec_sec := None, sec_head := None, sec_pre := None\<rparr>) (w\<lparr>keyval_array := kva\<rparr>)"
  show ?case
  proof (cases ss)
    case Nil
    then have "sec_nxt ?w1 s = None" using Cons.prems(1) sl by simp
    then have "clear_sections n p w = Some (upd_sec s (\<lambda>x. x\<lparr>sec_flag := STRUCT_NODE_UN_USED\<rparr>) ?w1)"
      using n p k(1) by (simp add: Let_def)
    then show ?thesis using Nil sl k \<open>sec_nxt ?w1 s = None\<close>
      by (intro exI[of _ "(section_array w)[s := zero_section]"] exI[of _ kva])
         (auto simp: nth_upd upd_sec_def zero_sectionI)
  next
    case (Cons s' ss')
    have nx: "sec_nxt w s = Some s'" "sec_prv w s' = Some s" "s' \<noteq> s" "s' < length (section_array w)"
      using Cons.prems Cons by auto
    let ?w2 = "upd_sec s (\<lambda>x. x\<lparr>sec_last := None, sec_flag := STRUCT_NODE_UN_USED\<rparr>) ?w1"
    have run: "clear_sections n p w = clear_sections m (Some s') ?w2"
      using n p nx sl k(1) by (simp add: Let_def nth_upd)
    have w2: "section_array ?w2 = (section_array w)[s := zero_section]" "keyval_array ?w2 = kva"
      "?w2\<lparr>section_array := sa, keyval_array := kva'\<rparr> = w\<lparr>section_array := sa, keyval_array := kva'\<rparr>" for sa kva'
      using sl by (auto simp: upd_sec_def zero_sectionI)
    have "dchain (sec_nxt ?w2) (sec_prv ?w2) (Some s) (Some s') ss = dchain (sec_nxt w) (sec_prv w) (Some s) (Some s') ss"
      using Cons.prems(2,3) unfolding w2 by (intro dchain_cong) (auto simp: nth_upd)
    then have d2: "dchain (sec_nxt ?w2) (sec_prv ?w2) (Some s) (Some s') ss" using Cons.prems(1) nx by simp
    have kv2: "dchain (kv_nxt ?w2) (kv_prv ?w2) None (kv_first ?w2 t) (KK t) \<and> distinct (KK t) \<and>
        set (KK t) \<subseteq> {..<length (keyval_array ?w2)}" if t: "t \<in> set ss" for t
    proof -
      have ts: "t \<noteq> s" "t < length (section_array w)" using Cons.prems(2,3) t by auto
      have dis: "set (KK t) \<inter> set (KK s) = {}" using Cons.prems(6)[of t s] t ts by auto
      note T = Cons.prems(5)[of t]
      have same: "kva ! y = kv_at w y" if "y \<in> set (KK t)" for y
      proof -
        have "y < length (keyval_array w)" "y \<notin> set (KK s)" using T t that dis by auto
        then show ?thesis using k(3) by simp
      qed
      have "dchain (kv_nxt ?w2) (kv_prv ?w2) None (kv_first w t) (KK t) = dchain (kv_nxt w) (kv_prv w) None (kv_first w t) (KK t)"
        unfolding w2 by (intro dchain_cong) (use same in auto)
      moreover have "kv_first ?w2 t = kv_first w t" unfolding w2 using ts by (simp add: nth_upd)
      ultimately show ?thesis using T t w2(2) k(2) by simp
    qed
    from Cons.IH[OF d2 _ _ _ kv2, of m] Cons.prems(2,3,4,6) n w2(1,2) k(2) obtain sa kva' where
      "clear_sections m (Some s') ?w2 = Some (?w2\<lparr>section_array := sa, keyval_array := kva'\<rparr>)"
      "length sa = length (section_array w)" "length kva' = length (keyval_array w)"
      "\<forall>i < length (section_array w). sa ! i = (if i \<in> set ss then zero_section else (section_array w)[s := zero_section] ! i)"
      "\<forall>j < length (keyval_array w). kva' ! j = (if \<exists>s \<in> set ss. j \<in> set (KK s) then zero_keyvalue else kva ! j)"
      by auto
    with run w2(3) k(3) sl show ?thesis by (intro exI[of _ sa] exI[of _ kva']) (auto simp: nth_upd)
  qed
qed

section \<open>Releasing a file\<close>

text \<open>
  \<^verbatim>\<open>destroy_ini_source\<close> gives back every slot of the file: its document is gone, the other files keep
  theirs, and the invariant (a slot is used exactly when a list holds it) is kept.
\<close>

lemma destroy_ok:
  assumes st: "store_inv w" and sh: "shape w SS KK {} {}" and fi: "filled w SS KK"
    and f: "f < MAX_OPERATION_FILE_NUM" and u: "fil_flag (fil_at w f) = STRUCT_NODE_IN_USED"
  shows "\<exists>w'. destroy_ini_source (int f) w = Some w' \<and> ini_inv w' \<and> ini_fs w' = ini_fs w \<and>
    fil_at w' f = zero_file \<and> doc w' f = [] \<and> pool_mem w' = pool_mem w \<and>
    (\<forall>g < MAX_OPERATION_FILE_NUM. g \<noteq> f \<longrightarrow> doc w' g = doc w g \<and> fil_at w' g = fil_at w g)"
proof -
  note D = shapeD[OF sh] and L = okay_lengths[OF shapeD(1)[OF sh]]
  have sl: "s < MAX_INIFILE_SECTION_NUM" if "g < MAX_OPERATION_FILE_NUM" "s \<in> set (SS g)" for g s
    by (rule node_listsD(2)[OF D(2) that])
  have kk: "dchain (kv_nxt w) (kv_prv w) None (kv_first w s) (KK s) \<and> distinct (KK s) \<and> set (KK s) \<subseteq> {..<length (keyval_array w)}"
    if "s \<in> set (SS f)" for s
    using node_listsD(1,2)[OF D(3) sl[OF f that]] node_lists_distinct[OF D(3) sl[OF f that]] L by auto
  have kd: "set (KK s) \<inter> set (KK t) = {}" if "s \<in> set (SS f)" "t \<in> set (SS f)" "s \<noteq> t" for s t
    using kv_owner[OF sh _ sl[OF f that(1)] _ sl[OF f that(2)]] that(3) by blast
  obtain sa kva where c: "clear_sections (length (section_array w)) (sec_first w f) w = Some (w\<lparr>section_array := sa, keyval_array := kva\<rparr>)"
    "length sa = MAX_INIFILE_SECTION_NUM" "length kva = INIFILE_KEYVALUE_ARRAY_LEN"
    "\<forall>i < MAX_INIFILE_SECTION_NUM. sa ! i = (if i \<in> set (SS f) then zero_section else sec_at w i)"
    "\<forall>j < INIFILE_KEYVALUE_ARRAY_LEN. kva ! j = (if \<exists>s \<in> set (SS f). j \<in> set (KK s) then zero_keyvalue else kv_at w j)"
    using clear_sections_ok[OF node_listsD(1)[OF D(2) f] node_lists_distinct[OF D(2) f] _ _ kk kd, of "length (section_array w)"]
      sl[OF f] node_lists_length[OF D(2) f] L by auto
  let ?w' = "upd_fil f (\<lambda>x. x\<lparr>fil_name := None, fil_head := None, fil_flag := STRUCT_NODE_UN_USED\<rparr>)
               (w\<lparr>section_array := sa, keyval_array := kva\<rparr>)"
  let ?SS = "\<lambda>g. if g \<in> {f} then [] else SS g" and ?KK = "\<lambda>s. if s \<in> set (SS f) then [] else KK s"
  have fz: "fil_at ?w' f = zero_file" "\<And>g. g \<noteq> f \<Longrightarrow> fil_at ?w' g = fil_at w g"
    using f L by (auto simp: zero_file_def flag_defs)
  have run: "destroy_ini_source (int f) w = Some ?w'"
    using c(1) u f by (simp add: destroy_ini_source_def valid_fd_def)
  have zs: "sec_flag zero_section = STRUCT_NODE_UN_USED" "sec_pre zero_section = None" "sec_last zero_section = None"
    "sec_head zero_section = None" "sec_sec zero_section = None" by (auto simp: zero_section_def flag_defs)
  have zk: "kv_flag zero_keyvalue = STRUCT_NODE_UN_USED" "kv_pre zero_keyvalue = None" "kv_last zero_keyvalue = None"
    "kv_key zero_keyvalue = None" "kv_value zero_keyvalue = None" by (auto simp: zero_keyvalue_def flag_defs)
  have S: "sec_lists ?w' ?SS {}" unfolding sec_lists_def
    by (rule node_lists_clear[OF D(2)]) (use f c(4) zs fz in \<open>auto simp: zero_file_def\<close>)
  have K: "kv_lists ?w' ?KK {}" unfolding kv_lists_def
    by (rule node_lists_clear[OF D(3)]) (use sl[OF f] c(4,5) zs zk in auto)
  have sh': "shape ?w' ?SS ?KK {} {}"
    unfolding shape_def okay_world_def
  proof (intro conjI allI impI S K)
    fix g assume g: "g < MAX_OPERATION_FILE_NUM" "fil_flag (fil_at ?w' g) \<noteq> STRUCT_NODE_IN_USED"
    then show "fil_flag (fil_at ?w' g) = STRUCT_NODE_UN_USED" "?SS g = []"
      using D(5)[OF g(1)] fz by (cases "g = f"; simp add: zero_file_def flag_defs)+
  next
    fix s assume "s < MAX_INIFILE_SECTION_NUM" "\<forall>g < MAX_OPERATION_FILE_NUM. s \<notin> set (?SS g)"
    then show "?KK s = []" using D(4)[of s] by (auto split: if_splits)
  qed (use L c(2,3) in auto)
  have fi': "filled ?w' ?SS ?KK" unfolding filled_def
  proof (intro conjI allI impI ballI)
    fix g s assume g: "g < MAX_OPERATION_FILE_NUM" "s \<in> set (?SS g)"
    then have "s \<in> set (SS g)" "s \<notin> set (SS f)" using node_listsD(3)[OF D(2) f g(1), of s] by (auto split: if_splits)
    then show "sec_sec (sec_at ?w' s) \<noteq> None" using fi g(1) c(4) sl[OF g(1)] unfolding filled_def by auto
  next
    fix s k assume s: "s < MAX_INIFILE_SECTION_NUM" "k \<in> set (?KK s)"
    then have k: "k \<in> set (KK s)" "s \<notin> set (SS f)" by (auto split: if_splits)
    then have "\<not> (\<exists>t \<in> set (SS f). k \<in> set (KK t))" using kv_owner[OF sh k(1) s(1)] sl[OF f] by blast
    then have "kv_at ?w' k = kv_at w k" using c(5) node_listsD(2)[OF D(3) s(1) k(1)] by simp
    then show "kv_key (kv_at ?w' k) \<noteq> None" "kv_value (kv_at ?w' k) \<noteq> None"
      using fi s(1) k(1) unfolding filled_def by auto
  qed
  have "fields_live ?w'"
    by (rule fields_live_by_index[of _ w])
       (use st L c fz zs zk in \<open>auto simp: store_inv_def nth_upd zero_file_def\<close>)
  then have st': "store_inv ?w'" by (intro store_inv_same_pool[OF st _ _ sh']) simp_all
  have "doc ?w' g = doc w g" if g: "g < MAX_OPERATION_FILE_NUM" "g \<noteq> f" for g
  proof -
    have "sec_name ?w' s = sec_name w s \<and> ?KK s = KK s \<and> map (kv_pair ?w') (KK s) = map (kv_pair w) (KK s)" if s: "s \<in> set (SS g)" for s
    proof -
      have so: "s \<notin> set (SS f)" using node_listsD(3)[OF D(2) f g(1)] s g(2) by auto
      have "kva ! k = kv_at w k" if "k \<in> set (KK s)" for k
        using c(5) kv_owner[OF sh that sl[OF g(1) s]] sl[OF f] so node_listsD(2)[OF D(3) sl[OF g(1) s] that] by (metis (full_types))
      then show ?thesis using so c(4) sl[OF g(1) s] by (auto simp: sec_name_def kv_pair_def)
    qed
    then show ?thesis unfolding doc_eq[OF sh' g(1)] doc_eq[OF sh g(1)] using g(2) by (simp add: doc_of_def)
  qed
  moreover have "doc ?w' f = []" using doc_eq[OF sh' f] by (simp add: doc_of_def)
  ultimately show ?thesis using run st' sh' fi' fz unfolding ini_inv_def by (intro exI[of _ ?w']) auto
qed

section \<open>Removing a section\<close>

lemma remove_section_frame:
  "pool_mem (remove_section f s w) = pool_mem w" "keyval_array (remove_section f s w) = keyval_array w"
  "ini_fs (remove_section f s w) = ini_fs w"
  "length (section_array (remove_section f s w)) = length (section_array w)"
  "length (ini_array (remove_section f s w)) = length (ini_array w)"
  by (auto simp: remove_defs Let_def split: option.splits)

lemma remove_section_strings:
  "g < length (ini_array w) \<Longrightarrow> fil_name (fil_at (remove_section f s w) g) = fil_name (fil_at w g) \<and>
     fil_flag (fil_at (remove_section f s w) g) = fil_flag (fil_at w g)"
  "t < length (section_array w) \<Longrightarrow> t \<noteq> s \<Longrightarrow>
     sec_sec (sec_at (remove_section f s w) t) = sec_sec (sec_at w t) \<and> kv_first (remove_section f s w) t = kv_first w t"
  "s < length (section_array w) \<Longrightarrow>
     sec_sec (sec_at (remove_section f s w) s) = None \<and> kv_first (remove_section f s w) s = None"
  by (auto simp: remove_defs Let_def nth_upd split: option.splits)

lemma unlink_section_head: "kv_first (unlink_section f s w) s = kv_first w s" if "s < length (section_array w)"
  using that by (auto simp: unlink_section_def Let_def nth_upd split: option.splits)

definition drop_section :: "nat \<Rightarrow> nat \<Rightarrow> ini_world \<Rightarrow> ini_world option" where
  "drop_section f s w = clear_keyvals (length (keyval_array w)) (kv_first w s) (remove_section f s w)"

lemma drop_section_ok:
  assumes st: "store_inv w" and sh: "shape w SS KK {} {}" and fi: "filled w SS KK"
    and f: "f < MAX_OPERATION_FILE_NUM" and s: "List.find (\<lambda>x. sec_name w x = a) (SS f) = Some s"
  defines "SS' \<equiv> SS(f := remove1 s (SS f))" and "KK' \<equiv> (\<lambda>t. if t \<in> {s} then [] else KK t)"
  shows "\<exists>w'. drop_section f s w = Some w' \<and> store_inv w' \<and> shape w' SS' KK' {} {} \<and> filled w' SS' KK' \<and>
    ini_fs w' = ini_fs w \<and> pool_mem w' = pool_mem w \<and>
    (\<forall>g < MAX_OPERATION_FILE_NUM. fil_name (fil_at w' g) = fil_name (fil_at w g) \<and>
       doc_of w' SS' KK' g = (if g = f then del_first a (doc_of w SS KK f) else doc_of w SS KK g))"
proof -
  note D = shapeD[OF sh] and L = okay_lengths[OF shapeD(1)[OF sh]]
  have sf: "s \<in> set (SS f)" using s by (auto dest: find_SomeD)
  have sl: "s < MAX_INIFILE_SECTION_NUM" by (rule node_listsD(2)[OF D(2) f sf])
  let ?w1 = "remove_section f s w"
  note R = sections.remove_lists[OF D(1,2) f sf, folded SS'_def]
  have kd: "dchain (kv_nxt ?w1) (kv_prv ?w1) None (kv_first w s) (KK s)"
    using node_listsD(1)[OF D(3) sl] by (simp add: remove_section_frame)
  have ksub: "set (KK s) \<subseteq> {..<INIFILE_KEYVALUE_ARRAY_LEN}" using node_listsD(2)[OF D(3) sl] by auto
  obtain kva where c: "clear_keyvals (length (keyval_array w)) (kv_first w s) ?w1 = Some (?w1\<lparr>keyval_array := kva\<rparr>)"
    "length kva = INIFILE_KEYVALUE_ARRAY_LEN"
    "\<forall>j < INIFILE_KEYVALUE_ARRAY_LEN. kva ! j = (if j \<in> set (KK s) then zero_keyvalue else kv_at w j)"
    using clear_keyvals_ok[OF kd node_lists_distinct[OF D(3) sl] _ node_lists_length[OF D(3) sl]] ksub L
    by (auto simp: remove_section_frame cong: if_cong)
  let ?w' = "?w1\<lparr>keyval_array := kva\<rparr>"
  have zk: "kv_flag zero_keyvalue = STRUCT_NODE_UN_USED" "kv_pre zero_keyvalue = None" "kv_last zero_keyvalue = None"
    "kv_key zero_keyvalue = None" "kv_value zero_keyvalue = None" by (auto simp: zero_keyvalue_def flag_defs)
  have S: "sec_lists ?w' SS' {}" using R by (simp add: sec_lists_def)
  have hd: "kv_first ?w1 t = (if t \<in> {s} then None else kv_first w t)" if "t < MAX_INIFILE_SECTION_NUM" for t
    using that L remove_section_strings(2)[of t w s f] remove_section_strings(3)[of s w f] by auto
  have K: "kv_lists ?w' KK' {}" unfolding kv_lists_def KK'_def
    by (rule node_lists_clear[OF D(3)]) (use sl c(3) zk hd in auto)
  have SS'm: "t \<in> set (SS' g) \<longleftrightarrow> t \<in> set (SS g) \<and> t \<noteq> s" if "g < MAX_OPERATION_FILE_NUM" for g t
    using node_listsD(3)[OF D(2) f that sf] node_lists_distinct[OF D(2) f] by (auto simp: SS'_def set_remove1_eq)
  have sh': "shape ?w' SS' KK' {} {}"
    unfolding shape_def
  proof (intro conjI allI impI S K)
    show "okay_world ?w'" using R c(2) by (auto simp: okay_world_def)
    fix t assume "t < MAX_INIFILE_SECTION_NUM" "\<forall>g < MAX_OPERATION_FILE_NUM. t \<notin> set (SS' g)"
    then show "KK' t = []" using D(4)[of t] SS'm by (auto simp: KK'_def)
  next
    fix g assume g: "g < MAX_OPERATION_FILE_NUM" "fil_flag (fil_at ?w' g) \<noteq> STRUCT_NODE_IN_USED"
    then show "fil_flag (fil_at ?w' g) = STRUCT_NODE_UN_USED" "SS' g = []"
      using D(5)[OF g(1)] remove_section_strings(1)[of g w f s] L by (auto simp: SS'_def)
  qed
  have keep: "kva ! k = kv_at w k" if "t < MAX_INIFILE_SECTION_NUM" "k \<in> set (KK' t)" for t k
    using c(3) kv_owner[OF sh _ sl _ that(1), of k] node_listsD(2)[OF D(3) that(1), of k] that(2)
    by (auto simp: KK'_def split: if_splits)
  have secs: "sec_sec (sec_at ?w1 t) = sec_sec (sec_at w t)" if "g < MAX_OPERATION_FILE_NUM" "t \<in> set (SS' g)" for g t
    using remove_section_strings(2)[of t w s f] L SS'm[OF that(1)] that node_listsD(2)[OF D(2) that(1)] by auto
  have fi': "filled ?w' SS' KK'" unfolding filled_def
  proof (intro conjI allI impI ballI)
    fix g t assume g: "g < MAX_OPERATION_FILE_NUM" "t \<in> set (SS' g)"
    then show "sec_sec (sec_at ?w' t) \<noteq> None"
      using secs[OF g] SS'm[OF g(1)] fi unfolding filled_def by simp
  next
    fix t k assume t: "t < MAX_INIFILE_SECTION_NUM" "k \<in> set (KK' t)"
    then have "k \<in> set (KK t)" by (auto simp: KK'_def split: if_splits)
    then show "kv_key (kv_at ?w' k) \<noteq> None" "kv_value (kv_at ?w' k) \<noteq> None"
      using keep[OF t] fi t(1) unfolding filled_def by auto
  qed
  have zz: "sec_sec (sec_at ?w1 t) \<in> {None, sec_sec (sec_at w t)}" if "t < length (section_array w)" for t
    using that remove_section_strings(2)[of t w s f] remove_section_strings(3)[of s w f] by (cases "t = s") auto
  have "fields_live ?w'"
    by (rule fields_live_by_index[of _ w])
       (use st L c(2,3) zk zz remove_section_strings(1)[of _ w f s] in \<open>auto simp: remove_section_frame store_inv_def\<close>)
  then have st': "store_inv ?w'" by (intro store_inv_same_pool[OF st _ _ sh']) (simp_all add: remove_section_frame)
  have "doc_of ?w' SS' KK' g = (if g = f then del_first a (doc_of w SS KK f) else doc_of w SS KK g)"
    if g: "g < MAX_OPERATION_FILE_NUM" for g
  proof -
    have "sec_name ?w' t = sec_name w t \<and> map (kv_pair ?w') (KK' t) = map (kv_pair w) (KK t)" if t: "t \<in> set (SS' g)" for t
      using secs[OF g t] keep[OF node_listsD(2)[OF D(2) g]] SS'm[OF g] t
      by (auto simp: sec_name_def kv_pair_def KK'_def remove_section_frame)
    then have d: "doc_of ?w' SS' KK' g = map (\<lambda>t. (sec_name w t, map (kv_pair w) (KK t))) (SS' g)"
      by (simp add: doc_of_def)
    show ?thesis
      unfolding d using del_first_keyed[OF node_lists_distinct[OF D(2) f] s, of "\<lambda>t. map (kv_pair w) (KK t)"]
      by (simp add: SS'_def doc_of_def del: map_eq_conv)
  qed
  then show ?thesis
    unfolding drop_section_def using c(1) st' sh' fi' remove_section_strings(1)[of _ w f s] L
    by (intro exI[of _ ?w']) (auto simp: remove_section_frame)
qed

text \<open>\<^verbatim>\<open>delete_ini_section\<close> in memory.\<close>

lemma delete_section_memory:
  assumes inv: "ini_inv w" and fd: "valid_fd fd"
    and s: "par_section par = Some s" "arg_ok s (par_section_len par)"
  defines "a \<equiv> arg_string s (par_section_len par)"
  shows "map_of (doc w (nat fd)) a = None \<Longrightarrow>
           delete_ini_section fd (Some par) w = Some (INIFILE_SECTION_NOFOUND, Some par, w)"
    and "map_of (doc w (nat fd)) a \<noteq> None \<Longrightarrow>
      \<exists>w1. delete_ini_section fd (Some par) w = call_rewrite rewrite_after_delete fd par w1 \<and> ini_inv w1 \<and>
        ini_fs w1 = ini_fs w \<and> file_name (nat fd) w1 = file_name (nat fd) w \<and>
        (\<forall>g < MAX_OPERATION_FILE_NUM. doc w1 g = (if g = nat fd then del_first a (doc w g) else doc w g))"
proof -
  obtain SS KK where sh: "shape w SS KK {} {}" and fi: "filled w SS KK" and st: "store_inv w"
    using inv by (auto simp: ini_inv_def)
  note f = valid_fd_lt[OF fd] and F = fd_section_eq[OF sh fi fd s, folded a_def] and L = okay_lengths[OF shapeD(1)[OF sh]]
  have m: "map_of (doc w (nat fd)) a = map_option (\<lambda>s. map (kv_pair w) (KK s)) (List.find (\<lambda>s. sec_name w s = a) (SS (nat fd)))"
    unfolding doc_eq[OF sh f] doc_of_def map_of_keyed ..
  show "map_of (doc w (nat fd)) a = None \<Longrightarrow>
     delete_ini_section fd (Some par) w = Some (INIFILE_SECTION_NOFOUND, Some par, w)"
    using m F fd s by (simp add: delete_ini_section_def)
  assume "map_of (doc w (nat fd)) a \<noteq> None"
  then obtain x where x: "List.find (\<lambda>x. sec_name w x = a) (SS (nat fd)) = Some x" using m by auto
  have xl: "x < MAX_INIFILE_SECTION_NUM" using x node_listsD(2)[OF shapeD(2)[OF sh] f] by (auto dest: find_SomeD)
  obtain w1 SS' KK' where w1: "drop_section (nat fd) x w = Some w1" "store_inv w1" "shape w1 SS' KK' {} {}" "filled w1 SS' KK'"
    "ini_fs w1 = ini_fs w" "pool_mem w1 = pool_mem w"
    "\<forall>g < MAX_OPERATION_FILE_NUM. fil_name (fil_at w1 g) = fil_name (fil_at w g) \<and>
       doc_of w1 SS' KK' g = (if g = nat fd then del_first a (doc_of w SS KK (nat fd)) else doc_of w SS KK g)"
    using drop_section_ok[OF st sh fi f x] by blast
  have "delete_ini_section fd (Some par) w = call_rewrite rewrite_after_delete fd par w1"
    using fd s F x w1(1) unlink_section_head[of x w "nat fd"] xl L
    by (simp add: delete_ini_section_def drop_section_def remove_section_def remove_section_frame[unfolded remove_section_def])
  moreover have "doc w1 g = (if g = nat fd then del_first a (doc w g) else doc w g)" if "g < MAX_OPERATION_FILE_NUM" for g
    using w1(7) that doc_eq[OF w1(3) that] doc_eq[OF sh that] by auto
  moreover have "ini_inv w1" using w1(2-4) by (auto simp: ini_inv_def)
  ultimately show "\<exists>w1. delete_ini_section fd (Some par) w = call_rewrite rewrite_after_delete fd par w1 \<and> ini_inv w1 \<and>
        ini_fs w1 = ini_fs w \<and> file_name (nat fd) w1 = file_name (nat fd) w \<and>
        (\<forall>g < MAX_OPERATION_FILE_NUM. doc w1 g = (if g = nat fd then del_first a (doc w g) else doc w g))"
    using w1 f by (intro exI[of _ w1]) (auto simp: file_name_def)
qed

end
