(* ===== verification/Ini_Text.thy ===== *)
theory Ini_Text
  imports Ini_Parse
begin

text \<open>
  What a line says, as functions of its text: the section name between the brackets, the key before
  and the value behind the first equality sign, with blanks trimmed and the comment cut off. The
  pointer arithmetic of \<^verbatim>\<open>init_line_key_val\<close> and \<^verbatim>\<open>init_line_section\<close> computes exactly these.
\<close>

section \<open>The text of a line\<close>

definition trim_r :: "('a \<Rightarrow> bool) \<Rightarrow> 'a list \<Rightarrow> 'a list" where
  "trim_r P xs = rev (dropWhile P (rev xs))"

definition until :: "char \<Rightarrow> string \<Rightarrow> string" where
  "until c s = takeWhile (\<lambda>x. x \<noteq> c) s"

definition behind :: "char \<Rightarrow> string \<Rightarrow> string" where
  "behind c s = tl (dropWhile (\<lambda>x. x \<noteq> c) s)"

definition key_text :: "string \<Rightarrow> string" where
  "key_text s = trim_r is_blank (dropWhile is_blank (until CONTENT_EQUALITY_SIGN s))"

definition value_text :: "string \<Rightarrow> string" where
  "value_text s =
     trim_r is_blank_or_newline
       (dropWhile is_blank (until CONTENT_COMMA_SIGN (behind CONTENT_EQUALITY_SIGN s)))"

definition section_text :: "string \<Rightarrow> string" where
  "section_text s = until CONTENT_RIGHT_BRACKET (behind CONTENT_LEFT_BRACKET s)"

section \<open>Trimming by scanning\<close>

lemma scan_back_Some:
  "scan_back P line i = Some j \<longleftrightarrow> j \<le> i \<and> \<not> P (byte_at line j) \<and> (\<forall>k. j < k \<and> k \<le> i \<longrightarrow> P (byte_at line k))"
proof (induction i)
  case 0
  then show ?case by (cases j) auto
next
  case (Suc i)
  show ?case
  proof (cases "P (byte_at line (Suc i))")
    case True
    have "(\<forall>k. j < k \<and> k \<le> Suc i \<longrightarrow> P (byte_at line k)) \<longleftrightarrow> (\<forall>k. j < k \<and> k \<le> i \<longrightarrow> P (byte_at line k))"
      using True by (metis le_Suc_eq)
    with True Suc show ?thesis by (auto simp: le_Suc_eq)
  next
    case False
    then show ?thesis by (auto simp: le_Suc_eq)
  qed
qed

lemma scan_back_exists: "\<not> P (byte_at line k) \<Longrightarrow> k \<le> i \<Longrightarrow> \<exists>j. scan_back P line i = Some j \<and> k \<le> j"
  by (induction i) (auto simp: le_Suc_eq)

lemma trim_r_take:
  assumes "j < length xs" and "\<not> P (xs ! j)" and "\<And>k. j < k \<Longrightarrow> k < length xs \<Longrightarrow> P (xs ! k)"
  shows "trim_r P xs = take (Suc j) xs"
proof -
  have "\<forall>x \<in> set (drop (Suc j) xs). P x"
    using assms(3) by (auto simp: in_set_conv_nth)
  then have "dropWhile P (rev (drop (Suc j) xs) @ rev (take (Suc j) xs)) = dropWhile P (rev (take (Suc j) xs))"
    by (intro dropWhile_append2) auto
  also have "\<dots> = rev (take (Suc j) xs)"
    using assms(1,2) by (simp add: take_Suc_conv_app_nth)
  finally show ?thesis by (simp add: trim_r_def rev_append[symmetric])
qed

lemma trim_r_Nil: "trim_r P xs = [] \<longleftrightarrow> (\<forall>x \<in> set xs. P x)"
  by (simp add: trim_r_def)

lemma dropWhile_skip: "dropWhile P xs = drop (length (takeWhile P xs)) xs"
  by (simp add: dropWhile_eq_drop)

lemma byte_at_line:
  "i < length (cstr line) \<Longrightarrow> byte_at line i = cstr line ! i"
  by (simp add: cstr_nth)

lemma cstr_drop_le: "n \<le> length (cstr s) \<Longrightarrow> cstr (drop n s) = drop n (cstr s)"
proof (induction s arbitrary: n)
  case Nil
  then show ?case by simp
next
  case (Cons c s)
  then show ?case by (cases n) (auto split: if_splits)
qed

lemma span_cstr: "pp < length (cstr line) \<Longrightarrow> span line p pp = drop p (take (Suc pp) (cstr line))"
  unfolding span_def by (rule nth_equalityI) (auto simp: byte_at_line simp del: upt_Suc)

text \<open>
  Trimming a field of a line: the field are the bytes from \<open>a\<close> to before \<open>b\<close>, \<open>p\<close> is where the blanks
  at its start end, \<open>pp\<close> where those at its end begin.
\<close>

lemma trimmed_span:
  assumes b: "b \<le> length (cstr line)" and p: "p = a + length (takeWhile P (drop a line))"
    and j: "a \<le> pp" "pp < b" "\<not> Q (byte_at line pp)" "\<And>k. pp < k \<Longrightarrow> k < b \<Longrightarrow> Q (byte_at line k)"
    and PQ: "\<And>c. P c \<Longrightarrow> Q c"
  shows "p \<le> pp \<and> span line p pp = trim_r Q (dropWhile P (drop a (take b (cstr line))))"
proof -
  let ?R = "drop a (take b (cstr line))"
  have R: "?R ! i = byte_at line (a + i)" "length ?R = b - a" if "i < b - a" for i
    using that b byte_at_line[of "a + i" line] by auto
  have len: "length (cstr line) \<le> length line" by simp
  have "\<not> P (byte_at line pp)" using PQ j(3) by blast
  then have le: "length (takeWhile P (drop a line)) \<le> pp - a"
    using j b len nth_length_takeWhile[of P "drop a line"]
      set_takeWhileD[of "drop a line ! (pp - a)" P "drop a line"]
    by (metis (no_types, lifting) byte_at_def le_add_diff_inverse le_neq_implies_less le_trans less_imp_le linorder_not_le
        nth_drop nth_mem takeWhile_nth)
  then have pp: "p \<le> pp" using p j(1) by linarith
  have tk: "length (takeWhile P ?R) = length (takeWhile P (drop a line))"
  proof -
    let ?n = "length (takeWhile P (drop a line))"
    have bytes: "?R ! i = drop a line ! i" if "i < b - a" for i
    proof -
      have "a + i < length line" using that b len by linarith
      then show ?thesis using R(1)[OF that] by (simp add: byte_at_def)
    qed
    have "takeWhile P ?R = take ?n ?R"
    proof (rule takeWhile_eq_take_P_nth)
      fix i assume "i < ?n" "i < length ?R"
      then show "P (?R ! i)" using bytes[of i] nth_mem[of i "takeWhile P (drop a line)"]
        by (metis R(2) length_drop length_take set_takeWhileD takeWhile_nth min.commute order.strict_trans1 length_takeWhile_le
            b min.absorb2)
    next
      assume "?n < length ?R"
      then have n: "?n < b - a" using R(2)[of 0] by auto
      then have "?n < length (drop a line)" using b len by (metis length_drop diff_le_mono le_trans less_le_trans)
      then show "\<not> P (?R ! ?n)" using bytes[OF n] nth_length_takeWhile[of P "drop a line"] by metis
    qed
    then show ?thesis using le j(1,2) R(2)[of 0] by simp
  qed
  have d: "dropWhile P ?R = drop (p - a) ?R" unfolding dropWhile_skip tk p by simp
  have dn: "drop (p - a) ?R ! i = byte_at line (p + i)" if "i < b - p" for i
  proof -
    have "p + i < length (cstr line)" "p + i < b" "a \<le> p" using that b p by auto
    then show ?thesis using byte_at_line[of "p + i" line] by (simp add: add.commute)
  qed
  have "trim_r Q (drop (p - a) ?R) = take (Suc (pp - p)) (drop (p - a) ?R)"
  proof (rule trim_r_take)
    show "pp - p < length (drop (p - a) ?R)" using pp j b p by auto
    then show "\<not> Q (drop (p - a) ?R ! (pp - p))" using dn[of "pp - p"] pp j by auto
    fix k assume "pp - p < k" "k < length (drop (p - a) ?R)"
    then show "Q (drop (p - a) ?R ! k)" using dn[of k] j(4)[of "p + k"] pp p b by auto
  qed
  also have "\<dots> = drop p (take (Suc pp) (cstr line))"
    using pp p j b by (auto simp: take_drop Suc_diff_le min_def not_less Suc_le_eq add.commute)
  finally show ?thesis using pp d span_cstr[of pp line p] j(2) b by simp
qed

section \<open>What the parsers read\<close>

lemma until_take: "first_index (\<lambda>x. x = c) s = Some e \<Longrightarrow> until c s = take e s"
  unfolding until_def by (drule first_index_SomeD) (auto intro!: takeWhile_eq_take_P_nth)

lemma until_all: "first_index (\<lambda>x. x = c) s = None \<Longrightarrow> until c s = s"
  by (auto simp: until_def first_index_None takeWhile_eq_all_conv)

lemma behind_drop: "first_index (\<lambda>x. x = c) s = Some e \<Longrightarrow> behind c s = drop (Suc e) s"
proof -
  assume e: "first_index (\<lambda>x. x = c) s = Some e"
  have "length (takeWhile (\<lambda>x. x \<noteq> c) s) = e"
    using until_take[OF e] first_index_SomeD[OF e] by (simp add: until_def)
  then show ?thesis by (simp add: behind_def dropWhile_eq_drop tl_drop drop_Suc)
qed

text \<open>
  A key line has a defined parse when some character before its equality sign is no blank (otherwise
  the backward scan leaves the buffer), or when it starts with the equality sign.
\<close>

definition key_scannable :: "string \<Rightarrow> bool" where
  "key_scannable s \<longleftrightarrow> until CONTENT_EQUALITY_SIGN s = [] \<or> key_text s \<noteq> []"

lemma key_text_Nil: "key_text s = [] \<longleftrightarrow> (\<forall>c \<in> set (until CONTENT_EQUALITY_SIGN s). is_blank c)"
proof -
  have "(\<forall>x \<in> set (dropWhile is_blank xs). is_blank x) \<longleftrightarrow> (\<forall>x \<in> set xs. is_blank x)" for xs
    by (metis dropWhile_eq_Nil_conv empty_iff hd_dropWhile hd_in_set list.set(1))
  then show ?thesis by (simp add: key_text_def trim_r_Nil)
qed

lemma key_bounds_text:
  assumes e: "first_index (\<lambda>x. x = CONTENT_EQUALITY_SIGN) (cstr line) = Some e" and "0 < e"
    and k: "key_text (cstr line) \<noteq> []"
  shows "\<exists>p pp. key_bounds line e = Some (p, pp) \<and> p \<le> pp \<and> span line p pp = key_text (cstr line)"
proof -
  note E = first_index_SomeD[OF e]
  have "\<exists>i < e. \<not> is_blank (cstr line ! i)"
  proof -
    obtain c where "c \<in> set (take e (cstr line))" "\<not> is_blank c"
      using k unfolding key_text_Nil until_take[OF e] by blast
    then show ?thesis by (metis in_set_conv_nth length_take min_less_iff_conj nth_take)
  qed
  then obtain i where i: "i < e" "\<not> is_blank (byte_at line i)" using E byte_at_line[of _ line] by (metis order.strict_trans)
  then obtain pp where pp: "scan_back is_blank line (e - 1) = Some pp"
    using scan_back_exists[of is_blank line i "e - 1"] by (metis Suc_pred' \<open>0 < e\<close> less_Suc_eq_le One_nat_def)
  then have s: "pp < e" "\<not> is_blank (byte_at line pp)" "\<And>k. pp < k \<Longrightarrow> k < e \<Longrightarrow> is_blank (byte_at line k)"
    using \<open>0 < e\<close> unfolding scan_back_Some by auto
  have "skip_blanks line \<le> pp \<and> span line (skip_blanks line) pp = trim_r is_blank (dropWhile is_blank (drop 0 (take e (cstr line))))"
    by (rule trimmed_span) (use E s in \<open>auto simp: skip_blanks_eq\<close>)
  then show ?thesis using pp until_take[OF e] by (simp add: key_bounds_def key_text_def)
qed

lemma blank_imp: "is_blank c \<Longrightarrow> is_blank_or_newline c"
  by (auto simp: is_blank_def is_blank_or_newline_def)

lemma equality_not_blank: "\<not> is_blank_or_newline CONTENT_EQUALITY_SIGN"
  by (simp add: is_blank_or_newline_def content_defs)

lemma value_bounds_text:
  assumes e: "first_index (\<lambda>x. x = CONTENT_EQUALITY_SIGN) (cstr line) = Some e"
    and c: "first_index (\<lambda>x. x = CONTENT_COMMA_SIGN) (cstr line) = c" and ce: "\<And>i. c = Some i \<Longrightarrow> e < i"
  shows "\<exists>p pp. value_bounds line e c = Some (p, pp) \<and>
    (if value_text (cstr line) = [] then pp < p else p \<le> pp \<and> span line p pp = value_text (cstr line))"
proof -
  note E = first_index_SomeD[OF e]
  define b where "b = (case c of Some i \<Rightarrow> i | None \<Rightarrow> length (cstr line))"
  have b: "e < b" "b \<le> length (cstr line)"
    using E ce first_index_SomeD[of "\<lambda>x. x = CONTENT_COMMA_SIGN" "cstr line"] c by (auto simp: b_def split: option.splits)
  have cd: "cstr (drop e line) = drop e (cstr line)" using E by (metis cstr_drop_le less_imp_le)
  have R: "until CONTENT_COMMA_SIGN (behind CONTENT_EQUALITY_SIGN (cstr line)) = drop (Suc e) (take b (cstr line))"
  proof (cases c)
    case None
    then have "CONTENT_COMMA_SIGN \<notin> set (drop (Suc e) (cstr line))"
      using c by (auto simp: first_index_None dest: in_set_dropD)
    with None show ?thesis using behind_drop[OF e] by (auto simp: b_def until_def takeWhile_eq_all_conv)
  next
    case (Some i)
    note I = first_index_SomeD[OF c[unfolded Some]]
    have "takeWhile (\<lambda>x. x \<noteq> CONTENT_COMMA_SIGN) (drop (Suc e) (cstr line)) = take (i - Suc e) (drop (Suc e) (cstr line))"
      using I ce[OF Some] by (intro takeWhile_eq_take_P_nth) auto
    with Some show ?thesis using behind_drop[OF e] by (simp add: b_def until_def drop_take)
  qed
  let ?p = "e + 1 + skip_blanks (drop (e + 1) line)"
  have ee: "\<not> is_blank_or_newline (byte_at line e)" using E byte_at_line[of e line] equality_not_blank by simp
  have "e \<le> b - 1" using b by simp
  with ee obtain pp where pp: "scan_back is_blank_or_newline line (b - 1) = Some pp" "e \<le> pp"
    using scan_back_exists[of is_blank_or_newline line e "b - 1"] by blast
  then have s: "pp < b" "\<not> is_blank_or_newline (byte_at line pp)" "\<And>k. pp < k \<Longrightarrow> k < b \<Longrightarrow> is_blank_or_newline (byte_at line k)"
    using b unfolding scan_back_Some by auto
  have vb: "value_bounds line e c = Some (?p, pp)"
    using pp cd E by (cases c) (auto simp: value_bounds_def b_def)
  show ?thesis
  proof (cases "pp = e")
    case True
    have "is_blank_or_newline x" if x: "x \<in> set (drop (Suc e) (take b (cstr line)))" for x
    proof -
      obtain i where "i < b - Suc e" "x = cstr line ! (Suc e + i)"
        using x b by (auto simp: in_set_conv_nth)
      then show ?thesis using s(3)[of "Suc e + i"] True b byte_at_line[of "Suc e + i" line] by auto
    qed
    then have "value_text (cstr line) = []"
      unfolding value_text_def R trim_r_Nil by (auto dest: set_dropWhileD)
    with True vb show ?thesis by auto
  next
    case False
    have m: "?p \<le> pp \<and> span line ?p pp = trim_r is_blank_or_newline (dropWhile is_blank (drop (Suc e) (take b (cstr line))))"
      by (rule trimmed_span[OF b(2)]) (use False pp(2) s blank_imp in \<open>auto simp: skip_blanks_eq\<close>)
    then have v: "?p \<le> pp \<and> span line ?p pp = value_text (cstr line)" unfolding value_text_def R .
    then have "value_text (cstr line) \<noteq> []" by (auto simp: span_def)
    with v vb show ?thesis by auto
  qed
qed

lemma section_bounds_text:
  assumes b: "first_index (\<lambda>x. x = CONTENT_LEFT_BRACKET) (cstr line) = Some b"
    and q: "first_index (\<lambda>x. x = CONTENT_RIGHT_BRACKET) (cstr line) = Some q" and bq: "b < q"
  shows "section_text (cstr line) = drop (Suc b) (take q (cstr line))"
    and "Suc b < q \<Longrightarrow> span line (b + 1) (q - 1) = section_text (cstr line)"
proof -
  note B = first_index_SomeD[OF b] and Q = first_index_SomeD[OF q]
  have "takeWhile (\<lambda>x. x \<noteq> CONTENT_RIGHT_BRACKET) (drop (Suc b) (cstr line)) = take (q - Suc b) (drop (Suc b) (cstr line))"
    using Q bq by (intro takeWhile_eq_take_P_nth) auto
  then show t: "section_text (cstr line) = drop (Suc b) (take q (cstr line))"
    unfolding section_text_def behind_drop[OF b] until_def by (simp add: drop_take)
  show "Suc b < q \<Longrightarrow> span line (b + 1) (q - 1) = section_text (cstr line)"
    using t Q span_cstr[of "q - 1" line "b + 1"] by auto
qed

end
