(* ===== verification/Ini_Load.thy ===== *)
theory Ini_Load
  imports Ini_Delete Ini_Text
begin

text \<open>
  Loading a file refines parsing its lines: \<open>line_effect\<close> says what a line does to the document,
  \<open>parse_lines\<close> runs it over the lines, and \<^verbatim>\<open>init_every_line_inifile\<close>, \<^verbatim>\<open>read_analys_ini_file\<close> and
  \<^verbatim>\<open>init_ini_file\<close> build exactly that document in the node arrays, or report an error and leave the
  other files alone.
\<close>

section \<open>Parsing, abstractly\<close>

definition section_ok :: "string \<Rightarrow> bool" where
  "section_ok s \<longleftrightarrow> CONTENT_LEFT_BRACKET \<in> set (until CONTENT_RIGHT_BRACKET s) \<and>
     CONTENT_RIGHT_BRACKET \<in> set s \<and> 2 \<le> length (section_text s)"

definition section_effect :: "string \<Rightarrow> ini_doc \<Rightarrow> ini_doc option" where
  "section_effect s d =
     (if section_ok s \<and> section_text s \<notin> fst ` set d then Some (d @ [(section_text s, [])]) else None)"

definition keyvalue_effect :: "string \<Rightarrow> ini_doc \<Rightarrow> ini_doc option" where
  "keyvalue_effect s d =
     (if d \<noteq> [] \<and> key_text s \<noteq> [] \<and> value_text s \<noteq> [] \<and> key_text s \<notin> fst ` set (snd (last d))
      then Some (butlast d @ [(fst (last d), snd (last d) @ [(key_text s, value_text s)])])
      else None)"

definition line_effect :: "string \<Rightarrow> ini_doc \<Rightarrow> ini_doc option" where
  "line_effect s =
     (case line_class s of
        LINE_SECTION \<Rightarrow> section_effect s
      | LINE_KEYVALUE \<Rightarrow> keyvalue_effect s
      | LINE_NOTE \<Rightarrow> Some
      | LINE_BLANK \<Rightarrow> Some
      | LINE_ERROR \<Rightarrow> (\<lambda>_. None))"

fun parse_lines :: "string list \<Rightarrow> ini_doc \<Rightarrow> ini_doc option" where
  "parse_lines [] d = Some d"
| "parse_lines (l # ls) d = (case line_effect l d of None \<Rightarrow> None | Some d' \<Rightarrow> parse_lines ls d')"

definition parse_text :: "string \<Rightarrow> ini_doc option" where
  "parse_text content = parse_lines (map cstr (file_chunks content)) []"

section \<open>Slots and strings\<close>

definition state :: "ini_world \<Rightarrow> (nat \<Rightarrow> nat list) \<Rightarrow> (nat \<Rightarrow> nat list) \<Rightarrow> nat set \<Rightarrow> nat set \<Rightarrow> bool" where
  "state w SS KK SP KP \<longleftrightarrow> store_inv w \<and> shape w SS KK SP KP \<and> filled w SS KK"

definition same_docs :: "ini_world \<Rightarrow> ini_world \<Rightarrow> (nat \<Rightarrow> nat list) \<Rightarrow> (nat \<Rightarrow> nat list) \<Rightarrow> bool" where
  "same_docs w w' SS KK \<longleftrightarrow>
     (\<forall>g < MAX_OPERATION_FILE_NUM. \<forall>s \<in> set (SS g). sec_name w' s = sec_name w s \<and>
        (\<forall>k \<in> set (KK s). kv_pair w' k = kv_pair w k))"

lemma same_docs_refl [simp]: "same_docs w w SS KK"
  by (simp add: same_docs_def)

lemma same_docs_trans: "same_docs a b SS KK \<Longrightarrow> same_docs b c SS KK \<Longrightarrow> same_docs a c SS KK"
  by (auto simp: same_docs_def)

lemma same_docs_doc_of: "same_docs w w' SS KK \<Longrightarrow> g < MAX_OPERATION_FILE_NUM \<Longrightarrow> doc_of w' SS KK g = doc_of w SS KK g"
  by (auto simp: same_docs_def doc_of_def)

lemma same_docs_view:
  assumes "same_view w w'" and "shape w SS KK SP KP"
  shows "same_docs w w' SS KK"
proof -
  note D = shapeD[OF assms(2)] and L = okay_lengths[OF shapeD(1)[OF assms(2)]]
  have "sec_name w' s = sec_name w s" if "s < MAX_INIFILE_SECTION_NUM" for s
    using same_view_sec[OF assms(1), of s] that L by (simp add: sec_name_def section_view_def)
  moreover have "kv_pair w' k = kv_pair w k" if "k < INIFILE_KEYVALUE_ARRAY_LEN" for k
    using same_view_kv[OF assms(1), of k] that L by (simp add: kv_pair_def keyval_view_def)
  ultimately show ?thesis unfolding same_docs_def using node_listsD(2)[OF D(2)] node_listsD(2)[OF D(3)] by blast
qed

text \<open>The bytes a step may take from the pool.\<close>

definition budget :: "nat \<Rightarrow> ini_world \<Rightarrow> bool" where
  "budget n w \<longleftrightarrow> pm_curr_len (pool_mem w) + int n < int INIFILE_SIZE_SPACE"

lemma store_fits:
  assumes "state w SS KK SP KP" and "NUL \<notin> set bs" and "budget (length bs + 1) w"
  obtains p w' where "storage_char_memory bs w = Some (0, Some p, w')" "state w' SS KK SP KP" "same_docs w w' SS KK"
    "live_ptr (pool_mem w') p" "pool_string (pool_mem w') p = bs"
    "pm_curr_len (pool_mem w') = pm_curr_len (pool_mem w) + (int (length bs) + 1)"
    "ini_array w' = ini_array w" "section_array w' = section_array w" "keyval_array w' = keyval_array w" "ini_fs w' = ini_fs w"
    "\<And>q. live_ptr (pool_mem w) q \<Longrightarrow> live_ptr (pool_mem w') q \<and> pool_string (pool_mem w') q = pool_string (pool_mem w) q"
    "\<And>g. g < MAX_OPERATION_FILE_NUM \<Longrightarrow> file_name g w' = file_name g w"
proof -
  have st: "store_inv w" "shape w SS KK SP KP" "filled w SS KK" using assms(1) by (auto simp: state_def)
  have fit: "fits (length bs) w" using assms(3) by (simp add: fits_def budget_def add.commute)
  show thesis
  proof (rule store_at_current_ok[OF st(1) assms(2) fit])
    fix p w' assume a: "store_at_current bs (account (length bs) w) = Some (0, Some p, w')" "store_inv w'"
      "same_view w w'" "live_ptr (pool_mem w') p" "pool_string (pool_mem w') p = bs"
      "\<And>q. live_ptr (pool_mem w) q \<Longrightarrow> live_ptr (pool_mem w') q \<and> pool_string (pool_mem w') q = pool_string (pool_mem w) q"
      "pm_curr_len (pool_mem w') = pm_curr_len (pool_mem w) + (int (length bs) + 1)"
      "ini_array w' = ini_array w" "section_array w' = section_array w" "keyval_array w' = keyval_array w" "ini_fs w' = ini_fs w"
    have "storage_char_memory bs w = Some (0, Some p, w')"
      using a(1) fit by (simp add: storage_char_memory_def Let_def fits_def account_def)
    moreover have "state w' SS KK SP KP"
      using a(2) shape_same_view[OF a(3) st(2)] filled_same_view[OF a(3) st(2,3)] by (simp add: state_def)
    moreover have "file_name g w' = file_name g w" if "g < MAX_OPERATION_FILE_NUM" for g
      using same_view_fil[OF a(3), of g] that okay_lengths[OF shapeD(1)[OF st(2)]]
      by (simp add: file_name_def file_view_def field_string_def)
    ultimately show thesis using that a same_docs_view[OF a(3) st(2)] by blast
  qed
qed

lemma take_section_ok:
  assumes st: "state w SS KK {} {}" and g: "get_index_ini_section w = (i, w')" and "0 \<le> i"
  shows "state w' SS KK {nat i} {}" "same_docs w w' SS KK" "nat i < MAX_INIFILE_SECTION_NUM" "KK (nat i) = []"
    "pool_mem w' = pool_mem w" "ini_array w' = ini_array w" "ini_fs w' = ini_fs w" "keyval_array w' = keyval_array w"
proof -
  have s: "store_inv w" "shape w SS KK {} {}" "filled w SS KK" using st by (auto simp: state_def)
  note D = shapeD[OF s(2)] and L = okay_lengths[OF shapeD(1)[OF s(2)]]
  note G = get_index_section_law[OF D(1) g \<open>0 \<le> i\<close>]
  show "pool_mem w' = pool_mem w" "ini_array w' = ini_array w" "ini_fs w' = ini_fs w" "keyval_array w' = keyval_array w"
    "nat i < MAX_INIFILE_SECTION_NUM" using G by auto
  have out: "nat i \<notin> set (SS f)" if "f < MAX_OPERATION_FILE_NUM" for f using node_listsD(4)[OF D(2) that] G(2) by blast
  then show k0: "KK (nat i) = []" using D(4)[OF G(1)] by blast
  have S: "sec_lists w' SS {nat i}"
    using sections.take_lists[OF D(1,2) g \<open>0 \<le> i\<close>] by (simp add: sec_lists_def)
  have K: "kv_lists w' KK {}" unfolding kv_lists_def
    by (rule node_lists_cong[OF D(3)]) (use G L in \<open>auto simp: nth_upd\<close>)
  have sh: "shape w' SS KK {nat i} {}"
    using S K D(4,5) L G(3) by (auto simp: shape_def okay_world_def)
  have same: "sec_sec (sec_at w' t) = sec_sec (sec_at w t)" if "t < MAX_INIFILE_SECTION_NUM" for t
    using that L G(3) by (auto simp: nth_upd)
  show "same_docs w w' SS KK" using same node_listsD(2)[OF D(2)] G(3) by (auto simp: same_docs_def sec_name_def kv_pair_def)
  have "fields_live w'" by (rule fields_live_by_index[of _ w]) (use s(1) same L G(3) in \<open>auto simp: store_inv_def\<close>)
  then have "store_inv w'" by (intro store_inv_same_pool[OF s(1) _ _ sh]) (simp_all add: G(3))
  moreover have "filled w' SS KK" using s(3) same node_listsD(2)[OF D(2)] G(3) unfolding filled_def by auto
  ultimately show "state w' SS KK {nat i} {}" using sh by (simp add: state_def)
qed

section \<open>A section line\<close>

text \<open>Naming a node that is in no list yet, and giving a node back.\<close>

lemma set_section_name_ok:
  assumes st: "state w SS KK {n} {}" and n: "n < MAX_INIFILE_SECTION_NUM" and p: "live_ptr (pool_mem w) p"
  defines "w' \<equiv> upd_sec n (\<lambda>x. x\<lparr>sec_sec := Some p\<rparr>) w"
  shows "state w' SS KK {n} {}" "same_docs w w' SS KK"
proof -
  have s: "store_inv w" "shape w SS KK {n} {}" "filled w SS KK" using st by (auto simp: state_def)
  note D = shapeD[OF s(2)] and L = okay_lengths[OF shapeD(1)[OF s(2)]]
  have sh: "shape w' SS KK {n} {}" unfolding w'_def by (rule shape_upd_sec[OF s(2)]) simp
  have out: "t \<noteq> n" if "f < MAX_OPERATION_FILE_NUM" "t \<in> set (SS f)" for f t using node_listsD(4)[OF D(2) that] by auto
  have at: "sec_at w' t = sec_at w t" if "f < MAX_OPERATION_FILE_NUM" "t \<in> set (SS f)" for f t
    using out[OF that] by (auto simp: w'_def)
  show "same_docs w w' SS KK" unfolding same_docs_def using at by (simp add: sec_name_def kv_pair_def) (simp add: w'_def)
  have "fields_live w'" unfolding w'_def by (rule fields_live_upd_sec) (use s(1) p in \<open>auto simp: store_inv_def\<close>)
  then have "store_inv w'" by (intro store_inv_same_pool[OF s(1) _ _ sh]) (simp_all add: w'_def)
  moreover have "filled w' SS KK" using s(3) at unfolding filled_def by (simp add: w'_def)
  ultimately show "state w' SS KK {n} {}" using sh by (simp add: state_def)
qed

lemma free_section_ok:
  assumes st: "state w SS KK {n} {}" and n: "n < MAX_INIFILE_SECTION_NUM"
  shows "state (free_sec n w) SS KK {} {}" "same_docs w (free_sec n w) SS KK"
proof -
  let ?w' = "free_sec n w"
  have s: "store_inv w" "shape w SS KK {n} {}" "filled w SS KK" using st by (auto simp: state_def)
  note D = shapeD[OF s(2)] and L = okay_lengths[OF shapeD(1)[OF s(2)]]
  have same: "sec_sec (sec_at ?w' t) = sec_sec (sec_at w t)" "kv_first ?w' t = kv_first w t" if "t < MAX_INIFILE_SECTION_NUM" for t
    using that L by (auto simp: free_sec_def nth_upd)
  have S: "sec_lists ?w' SS {}" using sections.free_lists[OF D(1,2) _ n] by (simp add: sec_lists_def)
  have K: "kv_lists ?w' KK {}" unfolding kv_lists_def
    by (rule node_lists_cong[OF D(3)]) (use same in \<open>auto simp: free_sec_def\<close>)
  have sh: "shape ?w' SS KK {} {}" using S K D(4,5) L by (auto simp: shape_def okay_world_def free_sec_def)
  show "same_docs w ?w' SS KK"
    using same node_listsD(2)[OF D(2)] by (auto simp: same_docs_def sec_name_def kv_pair_def free_sec_def)
  have "fields_live ?w'" by (rule fields_live_by_index[of _ w]) (use s(1) same L in \<open>auto simp: store_inv_def free_sec_def\<close>)
  then have "store_inv ?w'" by (intro store_inv_same_pool[OF s(1) _ _ sh]) (simp_all add: free_sec_def)
  moreover have "filled ?w' SS KK" using s(3) same node_listsD(2)[OF D(2)] unfolding filled_def by (auto simp: free_sec_def)
  ultimately show "state ?w' SS KK {} {}" using sh by (simp add: state_def)
qed

lemma free_sec_simps [simp]:
  "pool_mem (free_sec n w) = pool_mem w" "ini_array (free_sec n w) = ini_array w"
  "keyval_array (free_sec n w) = keyval_array w" "ini_fs (free_sec n w) = ini_fs w"
  by (auto simp: free_sec_def)

text \<open>When the pool has room: a slot is missing, or the line names no section, or a fresh node has the name.\<close>

lemma init_line_section_ok:
  assumes st: "state w SS KK {} {}" and bud: "budget (length (cstr line)) w"
  obtains (full) "init_line_section line w = Some (INIFILE_NUM_OUT_ARRAY, w)"
  | (bad) w' where "init_line_section line w = Some (INIFILE_FORMAT_ERROR, w')" "\<not> section_ok (cstr line)"
      "state w' SS KK {} {}" "same_docs w w' SS KK" "pool_mem w' = pool_mem w" "ini_array w' = ini_array w" "ini_fs w' = ini_fs w"
  | (fresh) n w' where "init_line_section line w = Some (int n, w')" "section_ok (cstr line)"
      "state w' SS KK {n} {}" "same_docs w w' SS KK" "n < MAX_INIFILE_SECTION_NUM" "KK n = []"
      "\<exists>p. sec_sec (sec_at w' n) = Some p" "sec_name w' n = section_text (cstr line)"
      "pm_curr_len (pool_mem w') \<le> pm_curr_len (pool_mem w) + int (length (cstr line))"
      "ini_array w' = ini_array w" "ini_fs w' = ini_fs w" "\<And>g. g < MAX_OPERATION_FILE_NUM \<Longrightarrow> file_name g w' = file_name g w"
proof -
  let ?s = "cstr line"
  obtain i w1 where g: "get_index_ini_section w = (i, w1)" by fastforce
  let ?b = "first_index (\<lambda>x. x = CONTENT_LEFT_BRACKET) ?s" and ?q = "first_index (\<lambda>x. x = CONTENT_RIGHT_BRACKET) ?s"
  have ne: "CONTENT_LEFT_BRACKET \<noteq> CONTENT_RIGHT_BRACKET" by (simp add: content_defs)
  have mem: "CONTENT_RIGHT_BRACKET \<in> set ?s \<longleftrightarrow> ?q \<noteq> None" by (auto simp: first_index_None)
  have ok: "section_ok ?s \<longleftrightarrow> (\<exists>b q. ?b = Some b \<and> ?q = Some q \<and> b + 1 < q - 1)"
  proof -
    have "2 \<le> length (section_text ?s) \<longleftrightarrow> b + 1 < q - 1" if "?b = Some b" "?q = Some q" "b < q" for b q
      using section_bounds_text(1)[OF that] first_index_SomeD[OF that(2)] that(3) by auto
    then show ?thesis
      unfolding section_ok_def until_def mem_takeWhile_first[OF ne] mem by (auto; force)
  qed
  show thesis
  proof (cases "i < 0")
    case True
    then have "i = INIFILE_NUM_OUT_ARRAY" using g by (auto simp: get_index_ini_section_def split: option.splits)
    with True full g get_index_section_fail[OF g True] show thesis by (simp add: init_line_section_def)
  next
    case False
    then have i: "0 \<le> i" by simp
    note T = take_section_ok[OF st g i]
    show thesis
    proof (cases "section_ok ?s")
      case False
      then have "init_line_section line w = Some (INIFILE_FORMAT_ERROR, free_sec (nat i) w1)"
        using g i ok by (auto simp: init_line_section_def str_frist_constchar_Some Let_def split: option.splits)
      then show thesis
        by (rule bad) (use False T free_section_ok[OF T(1,3)] same_docs_trans in auto)
    next
      case True
      then obtain b q where bq: "?b = Some b" "?q = Some q" "b + 1 < q - 1" using ok by blast
      note X = section_bounds_text[OF bq(1,2)]
      have t: "section_text ?s = drop (Suc b) (take q ?s)" "span line (b + 1) (q - 1) = section_text ?s" using X bq(3) by auto
      have "NUL \<notin> set (section_text ?s)" unfolding t(1) by (meson NUL_notin_cstr in_set_dropD in_set_takeD)
      moreover have "budget (length (section_text ?s) + 1) w1"
        using bud T(5) first_index_SomeD[OF bq(2)] bq(3) unfolding t(1) budget_def by auto
      ultimately obtain p w2 where w2: "storage_char_memory (section_text ?s) w1 = Some (0, Some p, w2)" "state w2 SS KK {nat i} {}"
        "same_docs w1 w2 SS KK" "live_ptr (pool_mem w2) p" "pool_string (pool_mem w2) p = section_text ?s"
        "pm_curr_len (pool_mem w2) = pm_curr_len (pool_mem w1) + (int (length (section_text ?s)) + 1)"
        "ini_array w2 = ini_array w1" "ini_fs w2 = ini_fs w1" "section_array w2 = section_array w1"
        "\<And>g. g < MAX_OPERATION_FILE_NUM \<Longrightarrow> file_name g w2 = file_name g w1"
        by (rule store_fits[OF T(1)]) blast
      let ?w3 = "upd_sec (nat i) (\<lambda>x. x\<lparr>sec_sec := Some p\<rparr>) w2"
      note N = set_section_name_ok[OF w2(2) T(3) w2(4)]
      have l: "nat i < length (section_array w2)"
        using T(3) w2(2) by (simp add: state_def shape_def okay_world_def)
      have "init_line_section line w = Some (int (nat i), ?w3)"
        using g i bq t(2) w2(1) by (simp add: init_line_section_def str_frist_constchar_Some)
      then show thesis
      proof (rule fresh)
        show "section_ok ?s" by (rule True)
        show "same_docs w ?w3 SS KK" using T(2) w2(3) N(2) same_docs_trans by blast
        show "pm_curr_len (pool_mem ?w3) \<le> pm_curr_len (pool_mem w) + int (length ?s)"
          using w2(6) T(5) first_index_SomeD[OF bq(2)] bq(3) unfolding t(1) by auto
        show "file_name g ?w3 = file_name g w" if "g < MAX_OPERATION_FILE_NUM" for g
          using w2(10)[OF that] T(5,6) by (simp add: file_name_def)
      qed (use N T w2 l in \<open>auto simp: sec_name_def field_string_def\<close>)
    qed
  qed
qed

text \<open>Linking a named node: the section appears, empty, at the end of the document.\<close>

lemma linked_section_ok:
  assumes st: "state w SS KK {n} {}" and n: "n < MAX_INIFILE_SECTION_NUM" "KK n = []" "sec_sec (sec_at w n) \<noteq> None"
    and f: "f < MAX_OPERATION_FILE_NUM" "fil_flag (fil_at w f) = STRUCT_NODE_IN_USED"
    and l: "okay_world w'" "sec_lists w' (SS(f := SS f @ [n])) {}"
    and fr: "pool_mem w' = pool_mem w" "keyval_array w' = keyval_array w"
    and sec: "\<And>t. t < MAX_INIFILE_SECTION_NUM \<Longrightarrow> sec_sec (sec_at w' t) = sec_sec (sec_at w t) \<and> kv_first w' t = kv_first w t"
    and fil: "\<And>g. g < MAX_OPERATION_FILE_NUM \<Longrightarrow> fil_flag (fil_at w' g) = fil_flag (fil_at w g) \<and> fil_name (fil_at w' g) = fil_name (fil_at w g)"
  shows "ini_inv w' \<and> (\<forall>g < MAX_OPERATION_FILE_NUM. doc w' g = (if g = f then doc w f @ [(sec_name w n, [])] else doc w g))"
proof -
  let ?SS = "SS(f := SS f @ [n])"
  have s: "store_inv w" "shape w SS KK {n} {}" "filled w SS KK" using st by (auto simp: state_def)
  note D = shapeD[OF s(2)] and L = okay_lengths[OF shapeD(1)[OF s(2)]] and L' = okay_lengths[OF l(1)]
  have K: "kv_lists w' KK {}" unfolding kv_lists_def
    by (rule node_lists_cong[OF D(3)]) (use sec fr in auto)
  have sh: "shape w' ?SS KK {} {}" unfolding shape_def
  proof (intro conjI l K allI impI)
    fix t assume "t < MAX_INIFILE_SECTION_NUM" "\<forall>g < MAX_OPERATION_FILE_NUM. t \<notin> set (?SS g)"
    then show "KK t = []" using D(4)[of t] by (auto split: if_splits)
  next
    fix g assume "g < MAX_OPERATION_FILE_NUM" "fil_flag (fil_at w' g) \<noteq> STRUCT_NODE_IN_USED"
    then show "fil_flag (fil_at w' g) = STRUCT_NODE_UN_USED" "?SS g = []" using D(5)[of g] fil[of g] f(2) by auto
  qed
  have m: "t < MAX_INIFILE_SECTION_NUM" if "g < MAX_OPERATION_FILE_NUM" "t \<in> set (?SS g)" for g t
    using that n(1) node_listsD(2)[OF D(2) that(1), of t] by (auto split: if_splits)
  have fi: "filled w' ?SS KK" unfolding filled_def
  proof (intro conjI allI impI ballI)
    fix g t assume g: "g < MAX_OPERATION_FILE_NUM" "t \<in> set (?SS g)"
    then have "t \<in> set (SS g) \<or> t = n" by (auto split: if_splits)
    then show "sec_sec (sec_at w' t) \<noteq> None" using sec[OF m[OF g]] s(3) g(1) n(3) unfolding filled_def by auto
  qed (use s(3) fr in \<open>auto simp: filled_def\<close>)
  have "fields_live w'"
    by (rule fields_live_by_index[of _ w]) (use s(1) sec fil fr L L' in \<open>auto simp: store_inv_def\<close>)
  then have "store_inv w'" by (rule store_inv_same_pool[OF s(1) fr(1) _ sh])
  moreover have "doc w' g = (if g = f then doc w f @ [(sec_name w n, [])] else doc w g)" if g: "g < MAX_OPERATION_FILE_NUM" for g
  proof -
    have "doc_of w' ?SS KK g = doc_of w ?SS KK g"
      using sec m[OF g] fr by (auto simp: doc_of_def sec_name_def kv_pair_def)
    then show ?thesis
      unfolding doc_eq[OF sh g] doc_eq[OF s(2) g] doc_eq[OF s(2) f(1)] using n(2) by (auto simp: doc_of_def)
  qed
  ultimately show ?thesis using sh fi by (auto simp: ini_inv_def)
qed

lemma attach_section_ok:
  assumes st: "state w SS KK {n} {}" and n: "n < MAX_INIFILE_SECTION_NUM" "KK n = []" "sec_sec (sec_at w n) \<noteq> None"
    and f: "f < MAX_OPERATION_FILE_NUM" "fil_flag (fil_at w f) = STRUCT_NODE_IN_USED"
    and op: "op = attach_section_here \<or> op = append_section"
  shows "\<exists>w'. op f n w = Some w' \<and> ini_inv w' \<and> pool_mem w' = pool_mem w \<and> ini_fs w' = ini_fs w \<and>
    (\<forall>g < MAX_OPERATION_FILE_NUM. fil_flag (fil_at w' g) = fil_flag (fil_at w g) \<and> fil_name (fil_at w' g) = fil_name (fil_at w g) \<and>
       doc w' g = (if g = f then doc w f @ [(sec_name w n, [])] else doc w g))"
proof -
  have sh: "shape w SS KK {n} {}" using st by (simp add: state_def)
  note D = shapeD[OF sh] and L = okay_lengths[OF shapeD(1)[OF sh]]
  obtain w' where w': "op f n w = Some w'" "okay_world w'" "sec_lists w' (SS(f := SS f @ [n])) {}"
    using parser_sections.append_lists[OF D(1,2) _ n(1) f(1)] api_sections.append_lists[OF D(1,2) _ n(1) f(1)] op
    by (auto simp: sec_lists_def)
  have fr: "pool_mem w' = pool_mem w" "keyval_array w' = keyval_array w" "ini_fs w' = ini_fs w"
    using w'(1) op by (auto simp: append_defs bind_eq_Some_conv split: option.splits)
  have sec: "sec_sec (sec_at w' t) = sec_sec (sec_at w t) \<and> kv_first w' t = kv_first w t" if "t < MAX_INIFILE_SECTION_NUM" for t
    using w'(1) op that L by (auto simp: append_defs bind_eq_Some_conv nth_upd split: option.splits)
  have fil: "fil_flag (fil_at w' g) = fil_flag (fil_at w g) \<and> fil_name (fil_at w' g) = fil_name (fil_at w g)" if "g < MAX_OPERATION_FILE_NUM" for g
    using w'(1) op that L by (auto simp: append_defs bind_eq_Some_conv nth_upd split: option.splits)
  note R = linked_section_ok[OF st n f w'(2,3) fr(1,2) sec fil]
  then show ?thesis using w'(1) fr fil by (intro exI[of _ w']) blast
qed

lemma find_section_here:
  assumes "state w SS KK SP KP" and f: "f < MAX_OPERATION_FILE_NUM" and p: "sec_sec (sec_at w n) = Some p"
  shows "find_inifile_section w (sec_first w f) (map_option (deref (pool_mem w)) (sec_sec (sec_at w n))) 0 =
    Some (List.find (\<lambda>s. sec_name w s = sec_name w n) (SS f))"
proof -
  have s: "shape w SS KK SP KP" "filled w SS KK" using assms(1) by (auto simp: state_def)
  note D = shapeD[OF s(1)] and L = okay_lengths[OF shapeD(1)[OF s(1)]]
  let ?t = "pool_string (pool_mem w) p"
  have t: "take (length ?t) (deref (pool_mem w) p @ [NUL]) = ?t" "length ?t \<le> length (deref (pool_mem w) p) + 1"
    by (auto simp: pool_string_def take_length_cstr le_SucI)
  have c: "chain (sec_nxt w) (sec_first w f) (SS f)" by (rule dchain_imp_chain[OF node_listsD(1)[OF D(2) f]])
  have ne: "\<forall>s \<in> set (SS f). sec_sec (sec_at w s) \<noteq> None" using s(2) f by (auto simp: filled_def)
  have len: "length (SS f) \<le> length (section_array w)" using node_lists_length[OF D(2) f] L by simp
  have nm: "sec_name w n = ?t" by (simp add: sec_name_def p field_string_def)
  show ?thesis
  proof (cases "sec_first w f")
    case None
    with c show ?thesis by (cases "SS f") (auto simp: find_inifile_section_def)
  next
    case (Some x)
    with find_section_loop_eq[OF c len ne t] nm p show ?thesis
      by (simp add: find_inifile_section_def pool_string_def)
  qed
qed

text \<open>
  \<open>loads f n eff w ret w'\<close>: a step on file \<open>f\<close> had the effect \<open>eff\<close> on its document, took at most \<open>n\<close> bytes
  of the pool, and touched nothing else. Where \<open>eff\<close> is undefined the return value is an error and the
  document is unchanged; where it is defined the only error is that a node array is full.
\<close>

definition loads :: "nat \<Rightarrow> nat \<Rightarrow> (ini_doc \<Rightarrow> ini_doc option) \<Rightarrow> ini_world \<Rightarrow> int \<Rightarrow> ini_world \<Rightarrow> bool" where
  "loads f n eff w ret w' \<longleftrightarrow>
     ini_inv w' \<and> ini_fs w' = ini_fs w \<and> pm_curr_len (pool_mem w') \<le> pm_curr_len (pool_mem w) + int n \<and>
     (\<forall>g < MAX_OPERATION_FILE_NUM. fil_flag (fil_at w' g) = fil_flag (fil_at w g) \<and> file_name g w' = file_name g w \<and>
        (g \<noteq> f \<longrightarrow> doc w' g = doc w g)) \<and>
     (case eff (doc w f) of
        None \<Rightarrow> (ret = INIFILE_FORMAT_ERROR \<or> ret = INIFILE_NUM_OUT_ARRAY) \<and> doc w' f = doc w f
      | Some d \<Rightarrow> 0 \<le> ret \<and> doc w' f = d \<or> ret = INIFILE_NUM_OUT_ARRAY \<and> doc w' f = doc w f)"

lemma state_ini_inv: "state w SS KK {} {} \<Longrightarrow> ini_inv w"
  by (auto simp: state_def ini_inv_def)

lemma state_doc:
  "state w SS KK SP KP \<Longrightarrow> f < MAX_OPERATION_FILE_NUM \<Longrightarrow> doc w f = doc_of w SS KK f"
  by (auto simp: state_def doc_eq)

lemma same_docs_doc:
  assumes "state w SS KK SP KP" and "state w' SS KK SP' KP'" and "same_docs w w' SS KK" and "g < MAX_OPERATION_FILE_NUM"
  shows "doc w' g = doc w g"
  using state_doc[OF assms(1,4)] state_doc[OF assms(2,4)] same_docs_doc_of[OF assms(3,4)] by simp

lemma find_None_fst:
  "List.find (\<lambda>s. nm s = a) xs = None \<longleftrightarrow> a \<notin> fst ` set (map (\<lambda>s. (nm s, g s)) xs)"
  by (induction xs) auto

lemma every_line_section_ok:
  assumes inv: "ini_inv w" and f: "f < MAX_OPERATION_FILE_NUM" "fil_flag (fil_at w f) = STRUCT_NODE_IN_USED"
    and bud: "budget (length (cstr line)) w"
  shows "\<exists>ret w'. every_line_section f line w = Some (ret, w') \<and>
    loads f (length (cstr line)) (section_effect (cstr line)) w ret w'"
proof -
  obtain SS KK where st: "state w SS KK {} {}" using inv by (auto simp: ini_inv_def state_def)
  show ?thesis
  proof (rule init_line_section_ok[OF st bud])
    assume a: "init_line_section line w = Some (INIFILE_NUM_OUT_ARRAY, w)"
    then show ?thesis
      using inv by (auto simp: every_line_section_def loads_def code_defs split: option.splits)
  next
    fix w' assume a: "init_line_section line w = Some (INIFILE_FORMAT_ERROR, w')" "\<not> section_ok (cstr line)"
      "state w' SS KK {} {}" "same_docs w w' SS KK" "pool_mem w' = pool_mem w" "ini_array w' = ini_array w" "ini_fs w' = ini_fs w"
    have "every_line_section f line w = Some (INIFILE_FORMAT_ERROR, w')" using a(1) by (simp add: every_line_section_def code_defs)
    moreover have "loads f (length (cstr line)) (section_effect (cstr line)) w INIFILE_FORMAT_ERROR w'"
      using a same_docs_doc[OF st a(3,4)] state_ini_inv[OF a(3)] f(1) by (simp add: loads_def section_effect_def file_name_def)
    ultimately show ?thesis by blast
  next
    fix n w' assume a: "init_line_section line w = Some (int n, w')" "section_ok (cstr line)"
      "state w' SS KK {n} {}" "same_docs w w' SS KK" "n < MAX_INIFILE_SECTION_NUM" "KK n = []"
      "\<exists>p. sec_sec (sec_at w' n) = Some p" "sec_name w' n = section_text (cstr line)"
      "pm_curr_len (pool_mem w') \<le> pm_curr_len (pool_mem w) + int (length (cstr line))"
      "ini_array w' = ini_array w" "ini_fs w' = ini_fs w" "\<And>g. g < MAX_OPERATION_FILE_NUM \<Longrightarrow> file_name g w' = file_name g w"
    note dd = same_docs_doc[OF st a(3,4)]
    obtain p where p: "sec_sec (sec_at w' n) = Some p" using a(7) by blast
    let ?F = "List.find (\<lambda>s. sec_name w' s = sec_name w' n) (SS f)"
    have find: "find_inifile_section w' (sec_first w f) (map_option (deref (pool_mem w')) (sec_sec (sec_at w' n))) 0 = Some ?F"
      using find_section_here[OF a(3) f(1) p] a(10) by simp
    have dup: "?F = None \<longleftrightarrow> section_text (cstr line) \<notin> fst ` set (doc w f)"
      using state_doc[OF a(3) f(1)] dd[OF f(1)] a(8) find_None_fst[of "sec_name w'" _ "SS f" "\<lambda>s. map (kv_pair w') (KK s)"]
      by (simp add: doc_of_def)
    show ?thesis
    proof (cases "?F = None")
      case False
      note fr = free_section_ok[OF a(3,5)]
      have "every_line_section f line w = Some (INIFILE_FORMAT_ERROR, free_sec n w')"
        using a(1) find False by (auto simp: every_line_section_def)
      moreover have "doc (free_sec n w') g = doc w g" if "g < MAX_OPERATION_FILE_NUM" for g
        using same_docs_doc[OF a(3) fr(1,2) that] dd[OF that] by simp
      ultimately show ?thesis
        using False dup fr state_ini_inv[OF fr(1)] a(9-12) f(1)
        by (auto simp: loads_def section_effect_def file_name_def intro!: exI[of _ INIFILE_FORMAT_ERROR])
    next
      case True
      obtain w'' where w'': "attach_section_here f n w' = Some w''" "ini_inv w''" "pool_mem w'' = pool_mem w'" "ini_fs w'' = ini_fs w'"
        "\<forall>g < MAX_OPERATION_FILE_NUM. fil_flag (fil_at w'' g) = fil_flag (fil_at w' g) \<and> fil_name (fil_at w'' g) = fil_name (fil_at w' g) \<and>
           doc w'' g = (if g = f then doc w' f @ [(sec_name w' n, [])] else doc w' g)"
        using attach_section_ok[OF a(3,5,6) _ f(1), of attach_section_here] p a(10) f(2) by auto
      have "attach_section f (sec_first w f) n w' = Some w''" using w''(1) a(10) by (simp add: attach_section_here_def)
      then have "every_line_section f line w = Some (int n, w'')" using a(1) find True by (simp add: every_line_section_def)
      moreover have "loads f (length (cstr line)) (section_effect (cstr line)) w (int n) w''"
        using w'' a dd True dup f(1) by (auto simp: loads_def section_effect_def file_name_def)
      ultimately show ?thesis by blast
    qed
  qed
qed

end
