(* ===== verification/Ini_LoadKv.thy ===== *)
theory Ini_LoadKv
  imports Ini_Load
begin

text \<open>
  Loading a key line: \<^verbatim>\<open>init_line_key_val\<close> takes a slot, stores the trimmed key and value, and the
  node is linked behind the last key of a section.
\<close>

section \<open>Slots and strings\<close>

lemma same_docs_kvI:
  assumes "shape w SS KK SP KP" and "pool_mem w' = pool_mem w" and "section_array w' = section_array w"
    and "\<And>t j. t < MAX_INIFILE_SECTION_NUM \<Longrightarrow> j \<in> set (KK t) \<Longrightarrow>
           kv_key (kv_at w' j) = kv_key (kv_at w j) \<and> kv_value (kv_at w' j) = kv_value (kv_at w j)"
  shows "same_docs w w' SS KK"
  unfolding same_docs_def
proof (intro allI impI ballI conjI)
  fix g s assume g: "g < MAX_OPERATION_FILE_NUM" "s \<in> set (SS g)"
  show "sec_name w' s = sec_name w s" using assms(2,3) by (simp add: sec_name_def)
  fix k assume "k \<in> set (KK s)"
  with assms(2) assms(4)[OF node_listsD(2)[OF shapeD(2)[OF assms(1)] g]] show "kv_pair w' k = kv_pair w k"
    by (simp add: kv_pair_def)
qed

lemma take_keyval_ok:
  assumes st: "state w SS KK {} {}" and g: "get_index_ini_keyvalue w = (i, w')" and "0 \<le> i"
  shows "state w' SS KK {} {nat i}" "same_docs w w' SS KK" "nat i < INIFILE_KEYVALUE_ARRAY_LEN"
    "pool_mem w' = pool_mem w" "ini_array w' = ini_array w" "ini_fs w' = ini_fs w" "section_array w' = section_array w"
proof -
  have s: "store_inv w" "shape w SS KK {} {}" "filled w SS KK" using st by (auto simp: state_def)
  note D = shapeD[OF s(2)] and L = okay_lengths[OF shapeD(1)[OF s(2)]]
  note G = get_index_keyvalue_law[OF D(1) g \<open>0 \<le> i\<close>]
  show "pool_mem w' = pool_mem w" "ini_array w' = ini_array w" "ini_fs w' = ini_fs w" "section_array w' = section_array w"
    "nat i < INIFILE_KEYVALUE_ARRAY_LEN" using G by auto
  have K: "kv_lists w' KK {nat i}"
    using keyvals.take_lists[OF D(1,3) g \<open>0 \<le> i\<close>] by (simp add: kv_lists_def)
  have sh: "shape w' SS KK {} {nat i}"
    using K D(2,4,5) L G(3) by (auto simp: shape_def okay_world_def sec_lists_def)
  have same: "kv_key (kv_at w' k) = kv_key (kv_at w k) \<and> kv_value (kv_at w' k) = kv_value (kv_at w k)"
    if "k < INIFILE_KEYVALUE_ARRAY_LEN" for k using that L G(3) by (auto simp: nth_upd)
  show "same_docs w w' SS KK" by (rule same_docs_kvI[OF s(2)]) (use same node_listsD(2)[OF D(3)] G(3) in auto)
  have "fields_live w'" by (rule fields_live_by_index[of _ w]) (use s(1) same L G(3) in \<open>auto simp: store_inv_def\<close>)
  then have "store_inv w'" by (intro store_inv_same_pool[OF s(1) _ _ sh]) (simp_all add: G(3))
  moreover have "filled w' SS KK" using s(3) same node_listsD(2)[OF D(3)] G(3) unfolding filled_def by auto
  ultimately show "state w' SS KK {} {nat i}" using sh by (simp add: state_def)
qed

text \<open>Assigning the strings of a node that is in no list yet.\<close>

lemma set_pending_kv_ok:
  assumes st: "state w SS KK {} {k}" and k: "k < INIFILE_KEYVALUE_ARRAY_LEN" and p: "live_ptr (pool_mem w) p"
    and g: "g = (\<lambda>x. x\<lparr>kv_key := Some p\<rparr>) \<or> g = (\<lambda>x. x\<lparr>kv_value := Some p\<rparr>)"
  shows "state (upd_kv k g w) SS KK {} {k}" "same_docs w (upd_kv k g w) SS KK"
proof -
  let ?w' = "upd_kv k g w"
  have s: "store_inv w" "shape w SS KK {} {k}" "filled w SS KK" using st by (auto simp: state_def)
  note D = shapeD[OF s(2)] and L = okay_lengths[OF shapeD(1)[OF s(2)]]
  have sh: "shape ?w' SS KK {} {k}" by (rule shape_upd_kv[OF s(2)]) (use g in auto)
  have at: "kv_at ?w' j = kv_at w j" if "t < MAX_INIFILE_SECTION_NUM" "j \<in> set (KK t)" for t j
    using node_listsD(4)[OF D(3) that] by auto
  show "same_docs w ?w' SS KK" by (rule same_docs_kvI[OF s(2)]) (simp_all add: at del: upd_kv_simps(6))
  have "fields_live w" using s(1) by (simp add: store_inv_def)
  then have "fields_live ?w'"
    using live_fieldI(1)[OF \<open>fields_live w\<close>, of k] k L g p by (intro fields_live_upd_kv) auto
  then have "store_inv ?w'" by (intro store_inv_same_pool[OF s(1) _ _ sh]) simp_all
  moreover have "filled ?w' SS KK" using s(3) at unfolding filled_def by (simp del: upd_kv_simps(6))
  ultimately show "state ?w' SS KK {} {k}" using sh by (simp add: state_def)
qed

lemma free_kv_simps [simp]:
  "pool_mem (free_kv n w) = pool_mem w" "ini_array (free_kv n w) = ini_array w"
  "section_array (free_kv n w) = section_array w" "ini_fs (free_kv n w) = ini_fs w"
  by (auto simp: free_kv_def)

lemma free_keyval_ok:
  assumes st: "state w SS KK {} {k}" and k: "k < INIFILE_KEYVALUE_ARRAY_LEN"
  shows "state (free_kv k w) SS KK {} {}" "same_docs w (free_kv k w) SS KK"
proof -
  let ?w' = "free_kv k w"
  have s: "store_inv w" "shape w SS KK {} {k}" "filled w SS KK" using st by (auto simp: state_def)
  note D = shapeD[OF s(2)] and L = okay_lengths[OF shapeD(1)[OF s(2)]]
  have same: "kv_key (kv_at ?w' j) = kv_key (kv_at w j) \<and> kv_value (kv_at ?w' j) = kv_value (kv_at w j)"
    if "j < INIFILE_KEYVALUE_ARRAY_LEN" for j
    using that L by (auto simp: free_kv_def nth_upd)
  have K: "kv_lists ?w' KK {}" using keyvals.free_lists[OF D(1,3) _ k] by (simp add: kv_lists_def)
  have sh: "shape ?w' SS KK {} {}" using K D(2,4,5) L by (auto simp: shape_def okay_world_def free_kv_def sec_lists_def)
  show "same_docs w ?w' SS KK" by (rule same_docs_kvI[OF s(2)]) (use same node_listsD(2)[OF D(3)] in auto)
  have "fields_live ?w'" by (rule fields_live_by_index[of _ w]) (use s(1) same L in \<open>auto simp: store_inv_def free_kv_def\<close>)
  then have "store_inv ?w'" by (intro store_inv_same_pool[OF s(1) _ _ sh]) simp_all
  moreover have "filled ?w' SS KK" using s(3) same node_listsD(2)[OF D(3)] unfolding filled_def by auto
  ultimately show "state ?w' SS KK {} {}" using sh by (simp add: state_def)
qed

section \<open>A key line\<close>

lemma trim_r_length: "length (trim_r P xs) \<le> length xs"
  unfolding trim_r_def by (metis length_dropWhile_le length_rev)

lemma key_value_length:
  assumes e: "first_index (\<lambda>x. x = CONTENT_EQUALITY_SIGN) s = Some e"
  shows "length (key_text s) \<le> e" "length (value_text s) + e < length s"
proof -
  note E = first_index_SomeD[OF e]
  have "length (key_text s) \<le> length (until CONTENT_EQUALITY_SIGN s)"
    unfolding key_text_def by (meson trim_r_length length_dropWhile_le le_trans)
  then show "length (key_text s) \<le> e" using until_take[OF e] by simp
  have "length (value_text s) \<le> length (behind CONTENT_EQUALITY_SIGN s)"
    unfolding value_text_def until_def by (meson trim_r_length length_dropWhile_le length_takeWhile_le le_trans)
  then show "length (value_text s) + e < length s" using behind_drop[OF e] E by auto
qed

lemma trim_r_set: "x \<in> set (trim_r P xs) \<Longrightarrow> x \<in> set xs"
  unfolding trim_r_def by (auto dest: set_dropWhileD)

lemma behind_set: "x \<in> set (behind c s) \<Longrightarrow> x \<in> set s"
  unfolding behind_def by (metis list.set_sel(2) set_dropWhileD tl_Nil)

lemma key_value_set: "x \<in> set (key_text s) \<Longrightarrow> x \<in> set s" "x \<in> set (value_text s) \<Longrightarrow> x \<in> set s"
  unfolding key_text_def value_text_def until_def
  by (blast dest: trim_r_set set_dropWhileD set_takeWhileD behind_set)+

lemma key_value_NUL: "NUL \<notin> set (key_text (cstr l))" "NUL \<notin> set (value_text (cstr l))"
  using key_value_set NUL_notin_cstr by blast+

definition keyval_ok :: "string \<Rightarrow> bool" where
  "keyval_ok s \<longleftrightarrow> CONTENT_EQUALITY_SIGN \<in> set (until CONTENT_COMMA_SIGN s) \<and> key_text s \<noteq> [] \<and> value_text s \<noteq> []"

definition unchanged :: "ini_world \<Rightarrow> ini_world \<Rightarrow> nat \<Rightarrow> bool" where
  "unchanged w w' n \<longleftrightarrow> ini_fs w' = ini_fs w \<and> ini_array w' = ini_array w \<and> section_array w' = section_array w \<and>
     pm_curr_len (pool_mem w') \<le> pm_curr_len (pool_mem w) + int n \<and>
     (\<forall>g < MAX_OPERATION_FILE_NUM. file_name g w' = file_name g w)"

lemma unchanged_trans: "unchanged a b m \<Longrightarrow> unchanged b c n \<Longrightarrow> unchanged a c (m + n)"
  by (auto simp: unchanged_def)

lemma store_fits_unchanged:
  assumes "state w SS KK SP KP" and "NUL \<notin> set bs" and "budget (length bs + 1) w"
  obtains p w' where "storage_char_memory bs w = Some (0, Some p, w')" "state w' SS KK SP KP" "same_docs w w' SS KK"
    "live_ptr (pool_mem w') p" "pool_string (pool_mem w') p = bs" "unchanged w w' (length bs + 1)"
    "section_array w' = section_array w" "keyval_array w' = keyval_array w"
    "\<And>q. live_ptr (pool_mem w) q \<Longrightarrow> live_ptr (pool_mem w') q \<and> pool_string (pool_mem w') q = pool_string (pool_mem w) q"
proof (rule store_fits[OF assms])
  fix p w' assume a: "storage_char_memory bs w = Some (0, Some p, w')" "state w' SS KK SP KP" "same_docs w w' SS KK"
    "live_ptr (pool_mem w') p" "pool_string (pool_mem w') p = bs"
    "pm_curr_len (pool_mem w') = pm_curr_len (pool_mem w) + (int (length bs) + 1)"
    "ini_array w' = ini_array w" "section_array w' = section_array w" "keyval_array w' = keyval_array w" "ini_fs w' = ini_fs w"
    "\<And>q. live_ptr (pool_mem w) q \<Longrightarrow> live_ptr (pool_mem w') q \<and> pool_string (pool_mem w') q = pool_string (pool_mem w) q"
    "\<And>g. g < MAX_OPERATION_FILE_NUM \<Longrightarrow> file_name g w' = file_name g w"
  have "unchanged w w' (length bs + 1)" using a(6,7,8,10,12) by (simp add: unchanged_def)
  then show thesis by (rule that[OF a(1-5) _ a(8,9) a(11)])
qed

lemma unchanged_upd_kv [simp]: "unchanged w (upd_kv k g w') n = unchanged w w' n"
  by (simp add: unchanged_def file_name_def)

lemma unchanged_free_kv [simp]: "unchanged w (free_kv k w') n = unchanged w w' n"
  by (simp add: unchanged_def file_name_def)

lemma unchanged_mono: "unchanged a b m \<Longrightarrow> m \<le> n \<Longrightarrow> unchanged a b n"
  by (auto simp: unchanged_def)

text \<open>The second half: the key is stored in the node \<open>k\<close>, the value is to come.\<close>

lemma store_value_part_ok:
  assumes st: "state w SS KK {} {k}" and k: "k < INIFILE_KEYVALUE_ARRAY_LEN" and key: "kv_key (kv_at w k) = Some p" "live_ptr (pool_mem w) p"
    and e: "first_index (\<lambda>x. x = CONTENT_EQUALITY_SIGN) (cstr line) = Some e"
    and c: "first_index (\<lambda>x. x = CONTENT_COMMA_SIGN) (cstr line) = c" "\<And>i. c = Some i \<Longrightarrow> e < i"
    and bud: "budget (length (value_text (cstr line)) + 1) w"
  shows "\<exists>w'. same_docs w w' SS KK \<and> unchanged w w' (length (value_text (cstr line)) + 1) \<and>
    (if value_text (cstr line) = []
     then store_value_part line e c k w = Some (INIFILE_FORMAT_ERROR, w') \<and> state w' SS KK {} {}
     else store_value_part line e c k w = Some (int k, w') \<and> state w' SS KK {} {k} \<and>
          kv_pair w' k = (pool_string (pool_mem w) p, value_text (cstr line)) \<and>
          kv_key (kv_at w' k) \<noteq> None \<and> kv_value (kv_at w' k) \<noteq> None)"
proof -
  let ?v = "value_text (cstr line)"
  obtain a b where ab: "value_bounds line e c = Some (a, b)" "if ?v = [] then b < a else a \<le> b \<and> span line a b = ?v"
    using value_bounds_text[OF e c] by blast
  show ?thesis
  proof (cases "?v = []")
    case True
    then have "store_value_part line e c k w = Some (INIFILE_FORMAT_ERROR, free_kv k w)" using ab by (simp add: store_value_part_def)
    then show ?thesis using True free_keyval_ok[OF st k] by (intro exI[of _ "free_kv k w"]) (simp add: unchanged_def file_name_def)
  next
    case False
    then have sp: "a \<le> b" "span line a b = ?v" using ab(2) by auto
    obtain q w1 where w1: "storage_char_memory ?v w = Some (0, Some q, w1)" "state w1 SS KK {} {k}" "same_docs w w1 SS KK"
      "live_ptr (pool_mem w1) q" "pool_string (pool_mem w1) q = ?v" "unchanged w w1 (length ?v + 1)" "keyval_array w1 = keyval_array w"
      "\<And>q. live_ptr (pool_mem w) q \<Longrightarrow> live_ptr (pool_mem w1) q \<and> pool_string (pool_mem w1) q = pool_string (pool_mem w) q"
      by (rule store_fits_unchanged[OF st key_value_NUL(2) bud]) blast
    let ?g = "\<lambda>x. x\<lparr>kv_value := Some q\<rparr>"
    note S = set_pending_kv_ok[OF w1(2) k w1(4), of ?g]
    have kl: "k < length (keyval_array w1)" using k w1(2) by (simp add: state_def shape_def okay_world_def)
    have run: "store_value_part line e c k w = Some (int k, upd_kv k ?g w1)"
      using ab sp w1(1) by (simp add: store_value_part_def)
    have "kv_pair (upd_kv k ?g w1) k = (pool_string (pool_mem w) p, ?v)"
      using kl w1(5,7) w1(8)[OF key(2)] key(1) by (simp add: kv_pair_def field_string_def)
    moreover have "kv_key (kv_at (upd_kv k ?g w1) k) \<noteq> None" "kv_value (kv_at (upd_kv k ?g w1) k) \<noteq> None"
      using kl w1(7) key(1) by auto
    moreover have "same_docs w (upd_kv k ?g w1) SS KK" using same_docs_trans[OF w1(3)] S(2) by blast
    ultimately show ?thesis using False run S(1) w1(6) by (intro exI[of _ "upd_kv k ?g w1"]) (simp del: upd_kv_simps(6))
  qed
qed

lemma init_line_key_val_ok:
  assumes st: "state w SS KK {} {}" and bud: "budget (length (cstr line) + 1) w" and sc: "key_scannable (cstr line)"
  obtains (full) "init_line_key_val line w = Some (INIFILE_NUM_OUT_ARRAY, w)"
  | (bad) w' where "init_line_key_val line w = Some (INIFILE_FORMAT_ERROR, w')" "\<not> keyval_ok (cstr line)"
      "state w' SS KK {} {}" "same_docs w w' SS KK" "unchanged w w' (length (cstr line) + 1)"
  | (fresh) k w' where "init_line_key_val line w = Some (int k, w')" "keyval_ok (cstr line)"
      "state w' SS KK {} {k}" "same_docs w w' SS KK" "unchanged w w' (length (cstr line) + 1)" "k < INIFILE_KEYVALUE_ARRAY_LEN"
      "kv_pair w' k = (key_text (cstr line), value_text (cstr line))"
      "kv_key (kv_at w' k) \<noteq> None" "kv_value (kv_at w' k) \<noteq> None"
proof -
  let ?s = "cstr line" and ?k = "key_text (cstr line)" and ?v = "value_text (cstr line)"
  let ?e = "first_index (\<lambda>x. x = CONTENT_EQUALITY_SIGN) ?s" and ?c = "first_index (\<lambda>x. x = CONTENT_COMMA_SIGN) ?s"
  have ne: "CONTENT_EQUALITY_SIGN \<noteq> CONTENT_COMMA_SIGN" by (simp add: content_defs)
  have eb: "CONTENT_EQUALITY_SIGN \<in> set (until CONTENT_COMMA_SIGN ?s) \<longleftrightarrow> (\<exists>e. ?e = Some e \<and> (\<forall>c. ?c = Some c \<longrightarrow> e < c))"
    unfolding until_def by (rule mem_takeWhile_first[OF ne])
  have diff: "c \<noteq> e" if "?e = Some e" "?c = Some c" for e c
    using first_index_SomeD[OF that(1)] first_index_SomeD[OF that(2)] ne by auto
  show thesis
  proof (cases "\<exists>e. ?e = Some e \<and> 0 < e \<and> (\<forall>c. ?c = Some c \<longrightarrow> e < c)")
    case False
    have "init_line_key_val line w = Some (INIFILE_FORMAT_ERROR, w)"
      using False diff by (auto simp: init_line_key_val_def str_frist_constchar_Some Let_def not_less le_less split: option.splits)
    moreover have "\<not> keyval_ok ?s"
    proof
      assume "keyval_ok ?s"
      then obtain e where e: "?e = Some e" "\<forall>c. ?c = Some c \<longrightarrow> e < c" "?k \<noteq> []" unfolding keyval_ok_def eb by blast
      with False have "e = 0" by auto
      then show False using key_value_length(1)[OF e(1)] e(3) by simp
    qed
    ultimately show thesis using bad[of w] st by (simp add: unchanged_def)
  next
    case True
    then obtain e where e: "?e = Some e" "0 < e" "\<And>c. ?c = Some c \<Longrightarrow> e < c" by blast
    have kne: "?k \<noteq> []" using sc e(2) until_take[OF e(1)] first_index_SomeD[OF e(1)] by (auto simp: key_scannable_def)
    note len = key_value_length[OF e(1)]
    obtain i w1 where g: "get_index_ini_keyvalue w = (i, w1)" by fastforce
    have step: "init_line_key_val line w = (if i < 0 then Some (i, w1) else store_key_part line e ?c (nat i) w1)"
      using e g by (auto simp: init_line_key_val_def str_frist_constchar_Some Let_def split: option.splits)
    show thesis
    proof (cases "i < 0")
      case True
      then have "i = INIFILE_NUM_OUT_ARRAY" using g by (auto simp: get_index_ini_keyvalue_def split: option.splits)
      with True full step get_index_keyvalue_fail[OF g True] show thesis by simp
    next
      case False
      then have i: "0 \<le> i" by simp
      note T = take_keyval_ok[OF st g i]
      obtain a b where ab: "key_bounds line e = Some (a, b)" "a \<le> b" "span line a b = ?k"
        using key_bounds_text[OF e(1,2) kne] by blast
      have "budget (length ?k + 1) w1" using bud T(4) len by (simp add: budget_def)
      then obtain p w2 where w2: "storage_char_memory ?k w1 = Some (0, Some p, w2)" "state w2 SS KK {} {nat i}" "same_docs w1 w2 SS KK"
        "live_ptr (pool_mem w2) p" "pool_string (pool_mem w2) p = ?k" "unchanged w1 w2 (length ?k + 1)"
        by (rule store_fits_unchanged[OF T(1) key_value_NUL(1)]) blast
      let ?w3 = "upd_kv (nat i) (\<lambda>x. x\<lparr>kv_key := Some p\<rparr>) w2"
      note S = set_pending_kv_ok[OF w2(2) T(3) w2(4), of "\<lambda>x. x\<lparr>kv_key := Some p\<rparr>"]
      have kl: "nat i < length (keyval_array w2)" using T(3) w2(2) by (simp add: state_def shape_def okay_world_def)
      have b3: "budget (length ?v + 1) ?w3" using bud T(4) len w2(6) by (simp add: budget_def unchanged_def)
      obtain w4 where w4: "same_docs ?w3 w4 SS KK" "unchanged ?w3 w4 (length ?v + 1)"
        "if ?v = [] then store_value_part line e ?c (nat i) ?w3 = Some (INIFILE_FORMAT_ERROR, w4) \<and> state w4 SS KK {} {}
         else store_value_part line e ?c (nat i) ?w3 = Some (int (nat i), w4) \<and> state w4 SS KK {} {nat i} \<and>
          kv_pair w4 (nat i) = (pool_string (pool_mem ?w3) p, ?v) \<and>
          kv_key (kv_at w4 (nat i)) \<noteq> None \<and> kv_value (kv_at w4 (nat i)) \<noteq> None"
        using store_value_part_ok[OF S(1) T(3) _ _ e(1) refl e(3) b3, of p] w2(4) kl by (auto simp: S)
      have run: "init_line_key_val line w = store_value_part line e ?c (nat i) ?w3"
        using step i ab w2(1) by (simp add: store_key_part_def)
      have "unchanged w w1 0" using T(4-7) by (simp add: unchanged_def file_name_def)
      then have "unchanged w w2 (0 + (length ?k + 1))" by (rule unchanged_trans[OF _ w2(6)])
      then have "unchanged w w4 (0 + (length ?k + 1) + (length ?v + 1))"
        by (intro unchanged_trans[OF _ w4(2)]) simp
      then have un: "unchanged w w4 (length ?s + 1)" by (rule unchanged_mono) (use len in linarith)
      have sd: "same_docs w w4 SS KK"
        using T(2) w2(3) S(2) w4(1) same_docs_trans by blast
      have ok: "keyval_ok ?s \<longleftrightarrow> ?v \<noteq> []" unfolding keyval_ok_def eb using e kne by auto
      show thesis
      proof (cases "?v = []")
        case True
        then show thesis using bad[of w4] run w4(3) sd un ok by simp
      next
        case False
        then show thesis using fresh[of "nat i" w4] run w4(3) sd un ok T(3) w2(5) by simp
      qed
    qed
  qed
qed

section \<open>Linking a key\<close>

definition with_key :: "ini_world \<Rightarrow> (nat \<Rightarrow> nat list) \<Rightarrow> (nat \<Rightarrow> nat list) \<Rightarrow> nat \<Rightarrow> nat \<Rightarrow> nat \<Rightarrow> ini_doc" where
  "with_key w SS KK s k g =
     map (\<lambda>t. (sec_name w t, map (kv_pair w) (KK t) @ (if t = s then [kv_pair w k] else []))) (SS g)"

lemma linked_keyval_ok:
  assumes st: "state w SS KK {} {k}" and k: "k < INIFILE_KEYVALUE_ARRAY_LEN" "kv_key (kv_at w k) \<noteq> None" "kv_value (kv_at w k) \<noteq> None"
    and s: "s < MAX_INIFILE_SECTION_NUM" "f < MAX_OPERATION_FILE_NUM" "s \<in> set (SS f)"
    and l: "okay_world w'" "kv_lists w' (KK(s := KK s @ [k])) {}"
    and fr: "pool_mem w' = pool_mem w" "ini_array w' = ini_array w"
    and sec: "\<And>t. t < MAX_INIFILE_SECTION_NUM \<Longrightarrow> sec_sec (sec_at w' t) = sec_sec (sec_at w t) \<and>
        sec_flag (sec_at w' t) = sec_flag (sec_at w t) \<and> sec_nxt w' t = sec_nxt w t \<and> sec_prv w' t = sec_prv w t"
    and kv: "\<And>j. j < INIFILE_KEYVALUE_ARRAY_LEN \<Longrightarrow> kv_key (kv_at w' j) = kv_key (kv_at w j) \<and> kv_value (kv_at w' j) = kv_value (kv_at w j)"
  shows "ini_inv w' \<and> (\<forall>g < MAX_OPERATION_FILE_NUM. doc w' g = with_key w SS KK s k g)"
proof -
  let ?KK = "KK(s := KK s @ [k])"
  have s0: "store_inv w" "shape w SS KK {} {k}" "filled w SS KK" using st by (auto simp: state_def)
  note D = shapeD[OF s0(2)] and L = okay_lengths[OF shapeD(1)[OF s0(2)]] and L' = okay_lengths[OF l(1)]
  have S: "sec_lists w' SS {}" unfolding sec_lists_def
    by (rule node_lists_cong[OF D(2)]) (use sec fr in auto)
  have sh: "shape w' SS ?KK {} {}" unfolding shape_def
  proof (intro conjI l S allI impI)
    fix t assume "t < MAX_INIFILE_SECTION_NUM" "\<forall>g < MAX_OPERATION_FILE_NUM. t \<notin> set (SS g)"
    then show "?KK t = []" using D(4)[of t] s by auto
  next
    fix g assume "g < MAX_OPERATION_FILE_NUM" "fil_flag (fil_at w' g) \<noteq> STRUCT_NODE_IN_USED"
    then show "fil_flag (fil_at w' g) = STRUCT_NODE_UN_USED" "SS g = []" using D(5)[of g] fr(2) by auto
  qed
  have m: "j < INIFILE_KEYVALUE_ARRAY_LEN" if "t < MAX_INIFILE_SECTION_NUM" "j \<in> set (?KK t)" for t j
    using that k(1) node_listsD(2)[OF D(3) that(1), of j] by (auto split: if_splits)
  have fi: "filled w' SS ?KK" unfolding filled_def
  proof (intro conjI allI impI ballI)
    fix t j assume t: "t < MAX_INIFILE_SECTION_NUM" "j \<in> set (?KK t)"
    then have "j \<in> set (KK t) \<or> j = k" by (auto split: if_splits)
    then show "kv_key (kv_at w' j) \<noteq> None" "kv_value (kv_at w' j) \<noteq> None"
      using kv[OF m[OF t]] s0(3) t(1) k(2,3) unfolding filled_def by auto
  next
    fix g t assume "g < MAX_OPERATION_FILE_NUM" "t \<in> set (SS g)"
    then show "sec_sec (sec_at w' t) \<noteq> None"
      using sec[OF node_listsD(2)[OF D(2)]] s0(3) unfolding filled_def by simp
  qed
  have "fields_live w'"
    by (rule fields_live_by_index[of _ w]) (use s0(1) sec kv fr L L' in \<open>auto simp: store_inv_def\<close>)
  then have "store_inv w'" by (rule store_inv_same_pool[OF s0(1) fr(1) _ sh])
  moreover have "doc w' g = with_key w SS KK s k g" if g: "g < MAX_OPERATION_FILE_NUM" for g
  proof -
    have "kv_pair w' j = kv_pair w j" if "t \<in> set (SS g)" "j \<in> set (?KK t)" for t j
      using kv[OF m[OF node_listsD(2)[OF D(2) g that(1)] that(2)]] fr(1) by (simp add: kv_pair_def)
    moreover have "sec_name w' t = sec_name w t" if "t \<in> set (SS g)" for t
      using sec[OF node_listsD(2)[OF D(2) g that]] fr(1) by (simp add: sec_name_def)
    ultimately show ?thesis
      unfolding doc_eq[OF sh g] by (auto simp: doc_of_def with_key_def)
  qed
  ultimately show ?thesis using sh fi by (auto simp: ini_inv_def)
qed

lemma attach_keyval_ok:
  assumes st: "state w SS KK {} {k}" and k: "k < INIFILE_KEYVALUE_ARRAY_LEN" "kv_key (kv_at w k) \<noteq> None" "kv_value (kv_at w k) \<noteq> None"
    and s: "s < MAX_INIFILE_SECTION_NUM" "f < MAX_OPERATION_FILE_NUM" "s \<in> set (SS f)"
    and op: "op = attach_keyval_here \<or> op = append_keyval"
  shows "\<exists>w'. op s k w = Some w' \<and> ini_inv w' \<and> pool_mem w' = pool_mem w \<and> ini_fs w' = ini_fs w \<and> ini_array w' = ini_array w \<and>
    (\<forall>g < MAX_OPERATION_FILE_NUM. doc w' g = with_key w SS KK s k g)"
proof -
  have sh: "shape w SS KK {} {k}" using st by (simp add: state_def)
  note D = shapeD[OF sh] and L = okay_lengths[OF shapeD(1)[OF sh]]
  obtain w' where w': "op s k w = Some w'" "okay_world w'" "kv_lists w' (KK(s := KK s @ [k])) {}"
    using parser_keyvals.append_lists[OF D(1,3) _ k(1) s(1)] api_keyvals.append_lists[OF D(1,3) _ k(1) s(1)] op
    by (auto simp: kv_lists_def)
  have fr: "pool_mem w' = pool_mem w" "ini_array w' = ini_array w" "ini_fs w' = ini_fs w"
    using w'(1) op by (auto simp: append_defs bind_eq_Some_conv split: option.splits)
  have sec: "sec_sec (sec_at w' t) = sec_sec (sec_at w t) \<and> sec_flag (sec_at w' t) = sec_flag (sec_at w t) \<and>
      sec_nxt w' t = sec_nxt w t \<and> sec_prv w' t = sec_prv w t" if "t < MAX_INIFILE_SECTION_NUM" for t
    using w'(1) op that L by (auto simp: append_defs bind_eq_Some_conv nth_upd split: option.splits)
  have kv: "kv_key (kv_at w' j) = kv_key (kv_at w j) \<and> kv_value (kv_at w' j) = kv_value (kv_at w j)" if "j < INIFILE_KEYVALUE_ARRAY_LEN" for j
    using w'(1) op that L by (auto simp: append_defs bind_eq_Some_conv nth_upd split: option.splits)
  show ?thesis using linked_keyval_ok[OF st k s w'(2,3) fr(1,2) sec kv] w'(1) fr by (intro exI[of _ w']) blast
qed

lemma find_keyvalue_here:
  assumes "state w SS KK SP KP" and s: "s < MAX_INIFILE_SECTION_NUM" and k: "kv_key (kv_at w k) \<noteq> None"
  shows "find_keyvalue_unsect w (kv_first w s) (map_option (deref (pool_mem w)) (kv_key (kv_at w k))) 0 =
    Some (List.find (\<lambda>j. fst (kv_pair w j) = fst (kv_pair w k)) (KK s))"
proof -
  have s0: "shape w SS KK SP KP" "filled w SS KK" using assms(1) by (auto simp: state_def)
  note D = shapeD[OF s0(1)] and L = okay_lengths[OF shapeD(1)[OF s0(1)]]
  obtain p where p: "kv_key (kv_at w k) = Some p" using k by blast
  let ?t = "pool_string (pool_mem w) p"
  have t: "take (length ?t) (deref (pool_mem w) p @ [NUL]) = ?t" "length ?t \<le> length (deref (pool_mem w) p) + 1"
    by (auto simp: pool_string_def take_length_cstr le_SucI)
  have c: "chain (kv_nxt w) (kv_first w s) (KK s)" by (rule dchain_imp_chain[OF node_listsD(1)[OF D(3) s]])
  have ne: "\<forall>j \<in> set (KK s). kv_key (kv_at w j) \<noteq> None" using s0(2) s by (auto simp: filled_def)
  have len: "length (KK s) \<le> length (keyval_array w)" using node_lists_length[OF D(3) s] L by simp
  have nm: "fst (kv_pair w k) = ?t" by (simp add: kv_pair_def p field_string_def)
  show ?thesis
  proof (cases "kv_first w s")
    case None
    with c show ?thesis by (cases "KK s") (auto simp: find_keyvalue_unsect_def)
  next
    case (Some x)
    with find_keyvalue_loop_eq[OF c len ne t] nm p show ?thesis
      by (simp add: find_keyvalue_unsect_def pool_string_def)
  qed
qed

lemma section_end_ok:
  assumes "state w SS KK SP KP" and f: "f < MAX_OPERATION_FILE_NUM"
  shows "sec_first w f = None \<longleftrightarrow> SS f = []"
    and "sec_first w f = Some x \<Longrightarrow> section_end w x = Some (last (SS f))"
proof -
  have sh: "shape w SS KK SP KP" using assms(1) by (simp add: state_def)
  note D = shapeD[OF sh] and L = okay_lengths[OF shapeD(1)[OF sh]]
  show "sec_first w f = None \<longleftrightarrow> SS f = []" using chain_hd[OF dchain_imp_chain[OF node_listsD(1)[OF D(2) f]]] by auto
  show "sec_first w f = Some x \<Longrightarrow> section_end w x = Some (last (SS f))"
    using node_lists_end[OF D(2) f] L by (simp add: section_end_def)
qed

text \<open>A key linked to the last section of a file.\<close>

lemma with_key_last:
  assumes "distinct (SS f)" and "SS f \<noteq> []"
  shows "with_key w SS KK (last (SS f)) k f =
    butlast (doc_of w SS KK f) @ [(fst (last (doc_of w SS KK f)), snd (last (doc_of w SS KK f)) @ [kv_pair w k])]"
proof -
  obtain ts t where t: "SS f = ts @ [t]" using assms(2) by (metis append_butlast_last_id)
  with assms(1) show ?thesis by (auto simp: with_key_def doc_of_def)
qed

lemma with_key_other: "s \<notin> set (SS g) \<Longrightarrow> with_key w SS KK s k g = doc_of w SS KK g"
  by (auto simp: with_key_def doc_of_def)

lemma find_pair_None: "List.find (\<lambda>j. fst (kv_pair w j) = a) ks = None \<longleftrightarrow> a \<notin> fst ` set (map (kv_pair w) ks)"
  by (induction ks) auto

end
