(* ===== verification/Ini_Read.thy ===== *)
theory Ini_Read
  imports Ini_LoadKv
begin

text \<open>
  Reading whole files: one line, all lines, and \<^verbatim>\<open>init_ini_file\<close>. The node arrays hold exactly the
  document that \<open>parse_text\<close> finds in the file.
\<close>

lemma loads_mono: "loads f m eff w ret w' \<Longrightarrow> m \<le> n \<Longrightarrow> loads f n eff w ret w'"
  by (auto simp: loads_def)

lemma loads_failed:
  assumes "ini_inv w'" and "unchanged w w' n" and "\<And>g. g < MAX_OPERATION_FILE_NUM \<Longrightarrow> doc w' g = doc w g"
    and "f < MAX_OPERATION_FILE_NUM"
    and "ret = INIFILE_NUM_OUT_ARRAY \<or> ret = INIFILE_FORMAT_ERROR \<and> eff (doc w f) = None"
  shows "loads f n eff w ret w'"
  using assms by (auto simp: loads_def unchanged_def split: option.splits)

lemma every_line_keyvalue_ok:
  assumes inv: "ini_inv w" and f: "f < MAX_OPERATION_FILE_NUM"
    and bud: "budget (length (cstr line) + 1) w" and sc: "key_scannable (cstr line)"
    and eq: "CONTENT_EQUALITY_SIGN \<in> set (until CONTENT_COMMA_SIGN (cstr line))"
  shows "\<exists>ret w'. every_line_keyvalue f line w = Some (ret, w') \<and>
    loads f (length (cstr line) + 1) (keyvalue_effect (cstr line)) w ret w'"
proof -
  obtain SS KK where st: "state w SS KK {} {}" using inv by (auto simp: ini_inv_def state_def)
  have sh: "shape w SS KK {} {}" using st by (simp add: state_def)
  note D = shapeD[OF sh]
  let ?eff = "keyvalue_effect (cstr line)" and ?n = "length (cstr line) + 1"
  have un: "unchanged w w ?n" by (simp add: unchanged_def)
  have dw: "doc w f = doc_of w SS KK f" by (rule state_doc[OF st f])
  show ?thesis
  proof (cases "sec_first w f")
    case None
    then have "doc w f = []" using section_end_ok(1)[OF st f] dw by (simp add: doc_of_def)
    then have "loads f ?n ?eff w INIFILE_FORMAT_ERROR w"
      by (intro loads_failed[OF inv un _ f]) (auto simp: keyvalue_effect_def)
    then show ?thesis using None by (simp add: every_line_keyvalue_def)
  next
    case (Some x)
    have ne: "SS f \<noteq> []" using section_end_ok(1)[OF st f] Some by auto
    let ?s = "last (SS f)"
    have sf: "?s \<in> set (SS f)" using ne by simp
    have sl: "?s < MAX_INIFILE_SECTION_NUM" by (rule node_listsD(2)[OF D(2) f sf])
    note e = section_end_ok(2)[OF st f Some]
    show ?thesis
    proof (rule init_line_key_val_ok[OF st bud sc])
      assume "init_line_key_val line w = Some (INIFILE_NUM_OUT_ARRAY, w)"
      then have "every_line_keyvalue f line w = Some (INIFILE_NUM_OUT_ARRAY, w)"
        using Some e by (simp add: every_line_keyvalue_def code_defs)
      then show ?thesis using loads_failed[OF inv un _ f, of INIFILE_NUM_OUT_ARRAY ?eff] by auto
    next
      fix w' assume a: "init_line_key_val line w = Some (INIFILE_FORMAT_ERROR, w')" "\<not> keyval_ok (cstr line)"
        "state w' SS KK {} {}" "same_docs w w' SS KK" "unchanged w w' ?n"
      have "every_line_keyvalue f line w = Some (INIFILE_FORMAT_ERROR, w')"
        using Some e a(1) by (simp add: every_line_keyvalue_def code_defs)
      moreover have "?eff (doc w f) = None" using a(2) eq by (auto simp: keyvalue_effect_def keyval_ok_def)
      ultimately show ?thesis
        using loads_failed[OF state_ini_inv[OF a(3)] a(5) same_docs_doc[OF st a(3,4)] f] by blast
    next
      fix k w' assume a: "init_line_key_val line w = Some (int k, w')" "keyval_ok (cstr line)"
        "state w' SS KK {} {k}" "same_docs w w' SS KK" "unchanged w w' ?n" "k < INIFILE_KEYVALUE_ARRAY_LEN"
        "kv_pair w' k = (key_text (cstr line), value_text (cstr line))"
        "kv_key (kv_at w' k) \<noteq> None" "kv_value (kv_at w' k) \<noteq> None"
      note dd = same_docs_doc[OF st a(3,4)]
      have hd: "kv_first w ?s = kv_first w' ?s"
        using a(5) by (simp add: unchanged_def)
      let ?F = "List.find (\<lambda>j. fst (kv_pair w' j) = fst (kv_pair w' k)) (KK ?s)"
      have find: "find_keyvalue_unsect w' (kv_first w ?s) (map_option (deref (pool_mem w')) (kv_key (kv_at w' k))) 0 = Some ?F"
        using find_keyvalue_here[OF a(3) sl a(8)] hd by simp
      have docf: "doc w f = doc_of w' SS KK f" using dd[OF f] state_doc[OF a(3) f] by simp
      have lst: "last (doc w f) = (sec_name w' ?s, map (kv_pair w') (KK ?s))" "doc w f \<noteq> []"
        using docf ne by (auto simp: doc_of_def last_map)
      have dup: "?F = None \<longleftrightarrow> key_text (cstr line) \<notin> fst ` set (snd (last (doc w f)))"
        unfolding find_pair_None lst using a(7) by simp
      show ?thesis
      proof (cases "?F = None")
        case False
        note fr = free_keyval_ok[OF a(3,6)]
        have "every_line_keyvalue f line w = Some (INIFILE_FORMAT_ERROR, free_kv k w')"
          using a(1) find False Some e by (auto simp: every_line_keyvalue_def)
        moreover have "doc (free_kv k w') g = doc w g" if "g < MAX_OPERATION_FILE_NUM" for g
          using same_docs_doc[OF a(3) fr(1,2) that] dd[OF that] by simp
        moreover have "?eff (doc w f) = None" using False dup by (simp add: keyvalue_effect_def)
        ultimately show ?thesis
          using loads_failed[OF state_ini_inv[OF fr(1)] _ _ f, of w ?n INIFILE_FORMAT_ERROR ?eff] a(5) by auto
      next
        case True
        obtain w'' where w'': "attach_keyval_here ?s k w' = Some w''" "ini_inv w''" "pool_mem w'' = pool_mem w'"
          "ini_fs w'' = ini_fs w'" "ini_array w'' = ini_array w'" "\<forall>g < MAX_OPERATION_FILE_NUM. doc w'' g = with_key w' SS KK ?s k g"
          using attach_keyval_ok[OF a(3,6,8,9) sl f sf, of attach_keyval_here] by auto
        have run: "every_line_keyvalue f line w = Some (int k, w'')"
          using a(1) find True Some e w''(1) hd by (simp add: every_line_keyvalue_def attach_keyval_here_def)
        have "doc w'' f = butlast (doc w f) @ [(fst (last (doc w f)), snd (last (doc w f)) @ [kv_pair w' k])]"
          using w''(6) f with_key_last[of SS f w' KK k, OF node_lists_distinct[OF D(2) f] ne] dd[OF f] state_doc[OF a(3) f] by simp
        then have "?eff (doc w f) = Some (doc w'' f)"
          using True dup lst(2) a(2,7) by (simp add: keyvalue_effect_def keyval_ok_def)
        moreover have "doc w'' g = doc w g" if g: "g < MAX_OPERATION_FILE_NUM" "g \<noteq> f" for g
          using w''(6) with_key_other[of ?s SS g w' KK k] node_listsD(3)[OF D(2) f g(1) sf] g dd[OF g(1)] state_doc[OF a(3) g(1)] by auto
        moreover have "ini_fs w'' = ini_fs w" "pm_curr_len (pool_mem w'') \<le> pm_curr_len (pool_mem w) + int ?n"
          "\<forall>g < MAX_OPERATION_FILE_NUM. fil_flag (fil_at w'' g) = fil_flag (fil_at w g) \<and> file_name g w'' = file_name g w"
          using a(5) w''(3-5) by (auto simp: unchanged_def file_name_def)
        ultimately have "loads f ?n ?eff w (int k) w''" using w''(2) by (simp add: loads_def)
        then show ?thesis using run by blast
      qed
    qed
  qed
qed

section \<open>One line\<close>

text \<open>A line whose parse does not scan backwards out of the buffer.\<close>

definition defined_line :: "string \<Rightarrow> bool" where
  "defined_line s \<longleftrightarrow> (line_class s = LINE_KEYVALUE \<longrightarrow> key_scannable s)"

lemma line_class_keyvalue:
  "line_class s = LINE_KEYVALUE \<Longrightarrow> CONTENT_EQUALITY_SIGN \<in> set (until CONTENT_COMMA_SIGN s)"
  by (auto simp: line_class_def Let_def before_comma_def until_def split: if_splits)

lemma init_every_line_ok:
  assumes inv: "ini_inv w" and f: "f < MAX_OPERATION_FILE_NUM" "fil_flag (fil_at w f) = STRUCT_NODE_IN_USED"
    and bud: "budget (length (cstr line) + 1) w" and d: "defined_line (cstr line)"
  shows "\<exists>ret w'. init_every_line_inifile f line w = Some (ret, w') \<and>
    loads f (length (cstr line) + 1) (line_effect (cstr line)) w ret w'"
proof (cases "line_class (cstr line)")
  case LINE_SECTION
  have "budget (length (cstr line)) w" using bud by (simp add: budget_def)
  then obtain ret w' where "every_line_section f line w = Some (ret, w')" "loads f (length (cstr line)) (section_effect (cstr line)) w ret w'"
    using every_line_section_ok[OF inv f] by blast
  with LINE_SECTION show ?thesis
    by (auto simp: init_every_line_inifile_def judge_eq_line_class_aux line_effect_def intro: loads_mono)
next
  case LINE_KEYVALUE
  with every_line_keyvalue_ok[OF inv f(1) bud _ line_class_keyvalue] d show ?thesis
    by (auto simp: init_every_line_inifile_def judge_eq_line_class_aux line_effect_def defined_line_def)
qed (use inv in \<open>auto simp: init_every_line_inifile_def judge_eq_line_class_aux line_effect_def loads_def code_defs\<close>)

section \<open>All lines\<close>

text \<open>As \<open>loads\<close>, except that after an error the file may hold a part of the document.\<close>

definition reads :: "nat \<Rightarrow> ini_doc option \<Rightarrow> ini_world \<Rightarrow> int \<Rightarrow> ini_world \<Rightarrow> bool" where
  "reads f parsed w ret w' \<longleftrightarrow>
     ini_inv w' \<and> ini_fs w' = ini_fs w \<and>
     (\<forall>g < MAX_OPERATION_FILE_NUM. fil_flag (fil_at w' g) = fil_flag (fil_at w g) \<and> file_name g w' = file_name g w \<and>
        (g \<noteq> f \<longrightarrow> doc w' g = doc w g)) \<and>
     (case parsed of
        None \<Rightarrow> ret = INIFILE_FORMAT_ERROR \<or> ret = INIFILE_NUM_OUT_ARRAY
      | Some d \<Rightarrow> 0 \<le> ret \<and> doc w' f = d \<or> ret = INIFILE_NUM_OUT_ARRAY)"

definition text_cost :: "string list \<Rightarrow> nat" where
  "text_cost ls = sum_list (map (\<lambda>l. length l + 1) ls)"

lemma read_lines_ok:
  assumes "ini_inv w" and f: "f < MAX_OPERATION_FILE_NUM" and "fil_flag (fil_at w f) = STRUCT_NODE_IN_USED"
    and "budget (text_cost (map cstr cs)) w" and "list_all defined_line (map cstr cs)" and "0 \<le> r"
  shows "\<exists>ret w'. read_lines f cs r w = Some (ret, w') \<and> reads f (parse_lines (map cstr cs) (doc w f)) w ret w'"
  using assms(1,3-6)
proof (induction cs arbitrary: r w)
  case Nil
  then show ?case by (auto simp: reads_def)
next
  case (Cons c cs)
  have b: "budget (length (cstr (fgets_into [] c)) + 1) w" using Cons.prems(3) by (simp add: text_cost_def budget_def)
  obtain ret w' where r: "init_every_line_inifile f (fgets_into [] c) w = Some (ret, w')"
    "loads f (length (cstr c) + 1) (line_effect (cstr c)) w ret w'"
    using init_every_line_ok[OF Cons.prems(1) f Cons.prems(2) b] Cons.prems(4) by auto
  show ?case
  proof (cases "ret < 0")
    case True
    then have "read_lines f (c # cs) r w = Some (ret, w')" using r(1) by simp
    moreover have "reads f (parse_lines (map cstr (c # cs)) (doc w f)) w ret w'"
      using r(2) True by (auto simp: reads_def loads_def code_defs split: option.splits)
    ultimately show ?thesis by blast
  next
    case False
    then obtain d where d: "line_effect (cstr c) (doc w f) = Some d" "doc w' f = d"
      using r(2) by (auto simp: loads_def code_defs split: option.splits)
    have b': "budget (text_cost (map cstr cs)) w'"
      using Cons.prems(3) r(2) by (simp add: loads_def budget_def text_cost_def)
    obtain ret'' w'' where ih: "read_lines f cs ret w' = Some (ret'', w'')" "reads f (parse_lines (map cstr cs) (doc w' f)) w' ret'' w''"
      using Cons.IH[of w' ret] r(2) Cons.prems(2,4) b' f False by (auto simp: loads_def)
    have "read_lines f (c # cs) r w = Some (ret'', w'')" using r(1) False ih(1) by simp
    moreover have "reads f (parse_lines (map cstr (c # cs)) (doc w f)) w ret'' w''"
      using ih(2) r(2) d by (auto simp: reads_def loads_def)
    ultimately show ?thesis by blast
  qed
qed

section \<open>Opening a file\<close>

lemma ini_inv_start: "ini_inv (ini_file_memory_init (ini_start fs))"
proof -
  let ?w = "ini_file_memory_init (ini_start fs)"
  have sh: "shape ?w (\<lambda>_. []) (\<lambda>_. []) {} {}"
    by (auto simp: shape_def okay_world_def sec_lists_def kv_lists_def node_lists_def ini_file_memory_init_def ini_start_def
        zero_file_def zero_section_def zero_keyvalue_def flag_defs)
  have "pool_ok (pool_mem ?w)"
    by (auto simp: pool_ok_def pool_bounded_def pool_fresh_def ini_file_memory_init_def ini_start_def active_region_def
        cur_off_def region_bytes_def flag_defs size_defs)
  moreover have "fields_live ?w"
    by (auto simp: fields_live_def ini_file_memory_init_def ini_start_def zero_file_def zero_section_def zero_keyvalue_def)
  ultimately have "store_inv ?w" using shape_walkable[OF sh]
    by (simp add: store_inv_def ini_file_memory_init_def ini_start_def)
  moreover have "filled ?w (\<lambda>_. []) (\<lambda>_. [])" by (simp add: filled_def)
  ultimately show ?thesis using sh unfolding ini_inv_def by blast
qed

lemma get_index_file_law:
  assumes "okay_world w" and "get_index_ini_file w = (i, w')" and "0 \<le> i"
  shows "nat i < MAX_OPERATION_FILE_NUM" "fil_flag (fil_at w (nat i)) = STRUCT_NODE_UN_USED"
    "w' = upd_fil (nat i) (\<lambda>s. s\<lparr>fil_flag := STRUCT_NODE_IN_USED\<rparr>) w"
  using assms
  by (auto simp: get_index_ini_file_def okay_world_def code_defs split: option.splits dest: first_index_SomeD)

text \<open>Taking a file slot: the new file is open and empty.\<close>

lemma take_file_ok:
  assumes st: "state w SS KK {} {}" and g: "get_index_ini_file w = (i, w')" and "0 \<le> i"
  shows "state w' SS KK {} {}" "same_docs w w' SS KK" "SS (nat i) = []" "fil_flag (fil_at w' (nat i)) = STRUCT_NODE_IN_USED"
    "pool_mem w' = pool_mem w" "ini_fs w' = ini_fs w"
    "\<And>h. h < MAX_OPERATION_FILE_NUM \<Longrightarrow> h \<noteq> nat i \<Longrightarrow> fil_at w' h = fil_at w h"
    "\<And>h. h < MAX_OPERATION_FILE_NUM \<Longrightarrow> fil_name (fil_at w' h) = fil_name (fil_at w h)"
proof -
  have s: "store_inv w" "shape w SS KK {} {}" "filled w SS KK" using st by (auto simp: state_def)
  note D = shapeD[OF s(2)] and L = okay_lengths[OF shapeD(1)[OF s(2)]]
  note G = get_index_file_law[OF D(1) g \<open>0 \<le> i\<close>]
  show e: "SS (nat i) = []" using D(5)[OF G(1)] G(2) by (simp add: flag_defs)
  show u: "fil_flag (fil_at w' (nat i)) = STRUCT_NODE_IN_USED" using G(1,3) L by simp
  show o: "fil_at w' h = fil_at w h" if "h < MAX_OPERATION_FILE_NUM" "h \<noteq> nat i" for h using that G(3) by simp
  show nm: "fil_name (fil_at w' h) = fil_name (fil_at w h)" if "h < MAX_OPERATION_FILE_NUM" for h using that G(3) L by (simp add: nth_upd)
  show "pool_mem w' = pool_mem w" "ini_fs w' = ini_fs w" using G(3) by auto
  have S: "sec_lists w' SS {}" unfolding sec_lists_def
    by (rule node_lists_cong[OF D(2)]) (use G(3) L in \<open>auto simp: nth_upd\<close>)
  have sh: "shape w' SS KK {} {}" unfolding shape_def
  proof (intro conjI S allI impI)
    fix h assume h: "h < MAX_OPERATION_FILE_NUM" "fil_flag (fil_at w' h) \<noteq> STRUCT_NODE_IN_USED"
    then have "h \<noteq> nat i" using u by auto
    then show "fil_flag (fil_at w' h) = STRUCT_NODE_UN_USED" "SS h = []" using D(5)[OF h(1)] o[OF h(1)] h(2) by auto
  qed (use D(3,4) L G(3) in \<open>auto simp: okay_world_def kv_lists_def\<close>)
  have "fields_live w'" by (rule fields_live_by_index[of _ w]) (use s(1) nm L G(3) in \<open>auto simp: store_inv_def\<close>)
  then have "store_inv w'" by (intro store_inv_same_pool[OF s(1) _ _ sh]) (simp_all add: G(3))
  moreover have "filled w' SS KK" using s(3) G(3) by (simp add: filled_def)
  ultimately show "state w' SS KK {} {}" using sh by (simp add: state_def)
  show "same_docs w w' SS KK" by (rule same_docs_kvI[OF s(2)]) (use G(3) in auto)
qed

text \<open>Naming the file.\<close>

lemma set_file_name_ok:
  assumes st: "state w SS KK {} {}" and f: "f < MAX_OPERATION_FILE_NUM" and p: "live_ptr (pool_mem w) p"
  defines "w' \<equiv> upd_fil f (\<lambda>x. x\<lparr>fil_name := Some p\<rparr>) w"
  shows "state w' SS KK {} {}" "same_docs w w' SS KK" "file_name f w' = Some (pool_string (pool_mem w) p)"
    "\<And>h. h < MAX_OPERATION_FILE_NUM \<Longrightarrow> fil_flag (fil_at w' h) = fil_flag (fil_at w h)"
proof -
  have s: "store_inv w" "shape w SS KK {} {}" "filled w SS KK" using st by (auto simp: state_def)
  note L = okay_lengths[OF shapeD(1)[OF s(2)]]
  have sh: "shape w' SS KK {} {}" unfolding w'_def by (rule shape_upd_fil[OF s(2)]) simp
  have "fields_live w'" unfolding w'_def by (rule fields_live_upd_fil) (use s(1) p in \<open>auto simp: store_inv_def\<close>)
  then have "store_inv w'" by (intro store_inv_same_pool[OF s(1) _ _ sh]) (simp_all add: w'_def)
  moreover have "filled w' SS KK" using s(3) by (simp add: filled_def w'_def)
  ultimately show "state w' SS KK {} {}" using sh by (simp add: state_def)
  show "same_docs w w' SS KK" by (rule same_docs_kvI[OF s(2)]) (auto simp: w'_def)
  show "file_name f w' = Some (pool_string (pool_mem w) p)" using f L by (simp add: file_name_def w'_def)
  show "fil_flag (fil_at w' h) = fil_flag (fil_at w h)" if "h < MAX_OPERATION_FILE_NUM" for h
    using that L by (simp add: w'_def nth_upd)
qed

text \<open>
  \<^verbatim>\<open>init_ini_file\<close>: on success the new file holds the parsed document; on an error everything is as
  before the call.
\<close>

definition opened :: "string \<Rightarrow> string \<Rightarrow> ini_world \<Rightarrow> int \<Rightarrow> ini_world \<Rightarrow> bool" where
  "opened path stored w ret w' \<longleftrightarrow>
     0 \<le> ret \<and> nat ret < MAX_OPERATION_FILE_NUM \<and>
     fil_flag (fil_at w (nat ret)) = STRUCT_NODE_UN_USED \<and> fil_flag (fil_at w' (nat ret)) = STRUCT_NODE_IN_USED \<and>
     file_name (nat ret) w' = Some stored \<and> can_open (ini_fs w) path \<and>
     parse_text (the (fs_files (ini_fs w) path)) = Some (doc w' (nat ret)) \<and>
     (\<forall>g < MAX_OPERATION_FILE_NUM. g \<noteq> nat ret \<longrightarrow> doc w' g = doc w g \<and> fil_flag (fil_at w' g) = fil_flag (fil_at w g) \<and>
        file_name g w' = file_name g w)"

definition not_opened :: "string \<Rightarrow> ini_world \<Rightarrow> int \<Rightarrow> ini_world \<Rightarrow> bool" where
  "not_opened path w ret w' \<longleftrightarrow>
     (ret = INIFILE_NUM_OUT_ARRAY \<or>
      ret = INIFILE_NO_EXIST \<and> \<not> can_open (ini_fs w) path \<or>
      ret = INIFILE_FORMAT_ERROR \<and> can_open (ini_fs w) path \<and> parse_text (the (fs_files (ini_fs w) path)) = None) \<and>
     (\<forall>g < MAX_OPERATION_FILE_NUM. doc w' g = doc w g \<and> fil_flag (fil_at w' g) = fil_flag (fil_at w g))"

lemma free_file_empty:
  assumes "ini_inv w" and "f < MAX_OPERATION_FILE_NUM" and "fil_flag (fil_at w f) = STRUCT_NODE_UN_USED"
  shows "doc w f = []"
proof -
  obtain SS KK where sh: "shape w SS KK {} {}" using assms(1) by (auto simp: ini_inv_def)
  then have "SS f = []" using shapeD(5)[OF sh assms(2)] assms(3) by (simp add: flag_defs)
  then show ?thesis using doc_eq[OF sh assms(2)] by (simp add: doc_of_def)
qed

lemma init_ini_file_ok:
  assumes inv: "ini_inv (ini_file_memory_init w)"
    and nm: "arg_ok name len" "NUL \<notin> set (arg_string name len)"
    and bud: "budget (length (arg_string name len) + 1 +
        (case fs_files (ini_fs w) (cstr name) of None \<Rightarrow> 0 | Some c \<Rightarrow> text_cost (map cstr (file_chunks c)))) (ini_file_memory_init w)"
    and def: "\<And>c. fs_files (ini_fs w) (cstr name) = Some c \<Longrightarrow> list_all defined_line (map cstr (file_chunks c))"
  shows "\<exists>ret w'. init_ini_file (Some name) len w = Some (ret, w') \<and> ini_inv w' \<and> ini_fs w' = ini_fs w \<and>
    (opened (cstr name) (arg_string name len) (ini_file_memory_init w) ret w' \<or>
     not_opened (cstr name) (ini_file_memory_init w) ret w')"
proof -
  define w0 where "w0 = ini_file_memory_init w"
  have fs0: "ini_fs w0 = ini_fs w" by (simp add: w0_def ini_file_memory_init_def)
  note inv = inv[folded w0_def] and bud = bud[folded w0_def]
  obtain SS KK where st: "state w0 SS KK {} {}" using inv by (auto simp: ini_inv_def state_def)
  obtain i w1 where g: "get_index_ini_file w0 = (i, w1)" by fastforce
  let ?bs = "arg_string name len" and ?p = "cstr name"
  have ab: "arg_bytes name (if len \<le> 0 then int (str_int_len (Some name)) else len) = Some ?bs" by (rule arg_bytes_fill[OF nm(1)])
  show ?thesis
  proof (cases "i < 0")
    case True
    then have "i = INIFILE_NUM_OUT_ARRAY" "w1 = w0" using g by (auto simp: get_index_ini_file_def split: option.splits)
    then have "init_ini_file (Some name) len w = Some (i, w0)" using g True by (simp add: init_ini_file_def w0_def Let_def)
    then show ?thesis using \<open>i = INIFILE_NUM_OUT_ARRAY\<close> inv fs0 by (auto simp: not_opened_def w0_def)
  next
    case False
    then have i: "0 \<le> i" by simp
    let ?f = "nat i"
    have ok0: "okay_world w0" using st by (simp add: state_def shape_def)
    note G = get_index_file_law[OF ok0 g i] and T = take_file_ok[OF st g i]
    have "budget (length ?bs + 1) w1" using bud T(5) by (simp add: budget_def)
    then obtain p w2 where w2: "storage_char_memory ?bs w1 = Some (0, Some p, w2)" "state w2 SS KK {} {}" "same_docs w1 w2 SS KK"
      "live_ptr (pool_mem w2) p" "pool_string (pool_mem w2) p = ?bs" "unchanged w1 w2 (length ?bs + 1)"
      by (rule store_fits_unchanged[OF T(1) nm(2)]) blast
    define w3 where "w3 = upd_fil ?f (\<lambda>x. x\<lparr>fil_name := Some p\<rparr>) w2"
    note S = set_file_name_ok[OF w2(2) G(1) w2(4), folded w3_def]
    have inv3: "ini_inv w3" by (rule state_ini_inv[OF S(1)])
    have docs3: "doc w3 g = doc w0 g" if "g < MAX_OPERATION_FILE_NUM" for g
      using same_docs_doc[OF st S(1) _ that] T(2) w2(3) S(2) same_docs_trans by blast
    have e3: "doc w3 ?f = []" using docs3[OF G(1)] free_file_empty[OF inv G(1,2)] by simp
    have flags3: "fil_flag (fil_at w3 g) = (if g = ?f then STRUCT_NODE_IN_USED else fil_flag (fil_at w0 g))" if "g < MAX_OPERATION_FILE_NUM" for g
      using S(4)[OF that] w2(6) T(4,7) that by (auto simp: unchanged_def)
    have names3: "file_name g w3 = file_name g w0" if "g < MAX_OPERATION_FILE_NUM" "g \<noteq> ?f" for g
    proof -
      have "file_name g w3 = file_name g w2" using that by (simp add: file_name_def w3_def)
      also have "\<dots> = file_name g w1" using w2(6) that by (simp add: unchanged_def)
      also have "\<dots> = file_name g w0" using T(5,8) that by (simp add: file_name_def)
      finally show ?thesis .
    qed
    have fs3: "ini_fs w3 = ini_fs w" using w2(6) T(6) fs0 by (simp add: w3_def unchanged_def)
    have run: "init_ini_file (Some name) len w = do {
         (ret', w4) \<leftarrow> read_analys_ini_file ?f ?p w3;
         if ret' < 0 then do { w5 \<leftarrow> destroy_ini_source i w4; Some (ret', w5) } else Some (i, w4) }"
      using g i ab w2(1) by (simp add: init_ini_file_def w0_def[symmetric] w3_def Let_def)
    have undo: "\<exists>w'. init_ini_file (Some name) len w = Some (ret, w') \<and> ini_inv w' \<and> ini_fs w' = ini_fs w \<and>
        (\<forall>g < MAX_OPERATION_FILE_NUM. doc w' g = doc w0 g \<and> fil_flag (fil_at w' g) = fil_flag (fil_at w0 g))"
      if r: "read_analys_ini_file ?f ?p w3 = Some (ret, w4)" "ret < 0" "ini_inv w4" "ini_fs w4 = ini_fs w"
        "\<forall>g < MAX_OPERATION_FILE_NUM. fil_flag (fil_at w4 g) = fil_flag (fil_at w3 g) \<and> (g \<noteq> ?f \<longrightarrow> doc w4 g = doc w3 g)" for ret w4
    proof -
      obtain SS4 KK4 where "store_inv w4" "shape w4 SS4 KK4 {} {}" "filled w4 SS4 KK4" using r(3) by (auto simp: ini_inv_def)
      from destroy_ok[OF this G(1)] r(5) flags3[OF G(1)] G(1) obtain w' where
        w': "destroy_ini_source (int ?f) w4 = Some w'" "ini_inv w'" "ini_fs w' = ini_fs w4" "fil_at w' ?f = zero_file" "doc w' ?f = []"
        "\<forall>g < MAX_OPERATION_FILE_NUM. g \<noteq> ?f \<longrightarrow> doc w' g = doc w4 g \<and> fil_at w' g = fil_at w4 g" by auto
      have "doc w' g = doc w0 g \<and> fil_flag (fil_at w' g) = fil_flag (fil_at w0 g)" if "g < MAX_OPERATION_FILE_NUM" for g
        using w'(4-6) r(5) flags3[OF that] docs3[OF that] e3 G(2) that by (cases "g = ?f") (auto simp: zero_file_def flag_defs)
      moreover have "init_ini_file (Some name) len w = Some (ret, w')" using run r(1,2) w'(1) i by simp
      ultimately show ?thesis using w'(2,3) r(4) by auto
    qed
    show ?thesis
    proof (cases "can_open (ini_fs w) ?p")
      case False
      then have "read_analys_ini_file ?f ?p w3 = Some (INIFILE_NO_EXIST, w3)" using fs3 by (simp add: read_analys_ini_file_def)
      from undo[OF this _ inv3 fs3] False fs0 show ?thesis by (auto simp: not_opened_def code_defs w0_def)
    next
      case True
      then obtain c where c: "fs_files (ini_fs w) ?p = Some c" by (auto simp: can_open_def)
      have b3: "budget (text_cost (map cstr (file_chunks c))) w3"
        using bud w2(6) T(5) by (simp add: c budget_def unchanged_def w3_def)
      have "fil_flag (fil_at w3 ?f) = STRUCT_NODE_IN_USED" using flags3[OF G(1)] by simp
      from read_lines_ok[OF inv3 G(1) this b3 def[OF c], of 0] obtain ret w4 where
        r: "read_lines ?f (file_chunks c) 0 w3 = Some (ret, w4)" "reads ?f (parse_text c) w3 ret w4"
        by (auto simp: e3 parse_text_def)
      have ra: "read_analys_ini_file ?f ?p w3 = Some (ret, w4)" using True c fs3 r(1) by (simp add: read_analys_ini_file_def)
      show ?thesis
      proof (cases "ret < 0")
        case neg: True
        have "ret = INIFILE_NUM_OUT_ARRAY \<or> ret = INIFILE_FORMAT_ERROR \<and> parse_text c = None"
          using r(2) neg by (auto simp: reads_def split: option.splits)
        with undo[OF ra neg] r(2) fs3 True c fs0 show ?thesis by (auto simp: reads_def not_opened_def w0_def)
      next
        case False
        then have p4: "parse_text c = Some (doc w4 ?f)" using r(2) by (auto simp: reads_def code_defs split: option.splits)
        have "opened ?p ?bs w0 i w4"
          using i G(1,2) r(2) flags3 names3 docs3 S(3) w2(5) True c p4 fs0
          by (auto simp: opened_def reads_def)
        then show ?thesis using run ra False r(2) fs3 by (auto simp: reads_def w0_def)
      qed
    qed
  qed
qed

end
