(* ===== verification/Ini_Add.thy ===== *)
theory Ini_Add
  imports Ini_Read
begin

text \<open>
  Adding in memory: \<^verbatim>\<open>add_value_ofkey\<close> parses the line \<^verbatim>\<open>key=value\<close> it builds and appends the node to its
  section; \<^verbatim>\<open>add_ini_section\<close> does the same with \<^verbatim>\<open>[section]\<close>.
\<close>

section \<open>Adding a key\<close>

lemma with_key_found:
  assumes "distinct (SS f)" and "List.find (\<lambda>x. sec_name w x = a) (SS f) = Some s"
  shows "with_key w SS KK s k f = doc_add a (fst (kv_pair w k)) (snd (kv_pair w k)) (doc_of w SS KK f)"
  unfolding with_key_def doc_add_def doc_of_def
  by (rule map_entry_keyed[OF assms]) simp

text \<open>The line that is parsed, for a parameter block whose lengths are filled in.\<close>

definition add_line :: "INI_PARAMETER \<Rightarrow> string" where
  "add_line par = take (nat (par_key_len par)) (cstr (the (par_key par))) @ CONTENT_EQUALITY_SIGN #
     take (nat (par_value_len par)) (cstr (the (par_value par)))"

lemma cstr_add_line [simp]: "cstr (add_line par) = add_line par"
proof (rule cstr_no_NUL)
  have "NUL \<notin> set (take n (cstr s))" for n s by (meson NUL_notin_cstr in_set_takeD)
  moreover have "NUL \<noteq> CONTENT_EQUALITY_SIGN" by (simp add: content_defs)
  ultimately show "NUL \<notin> set (add_line par)" by (auto simp: add_line_def)
qed

lemma key_value_line_eq:
  "par_key par = Some k \<Longrightarrow> par_value par = Some v \<Longrightarrow> length (add_line par) < INIFILE_MAX_CONTENT_LINELEN \<Longrightarrow>
   key_value_line par = Some (add_line par)"
  by (simp add: key_value_line_def print_arg_def in_line_def add_line_def)

lemma fill_simps [simp]:
  "par_section (fill_key_len p) = par_section p" "par_key (fill_key_len p) = par_key p" "par_value (fill_key_len p) = par_value p"
  "par_section_len (fill_key_len p) = par_section_len p" "par_value_len (fill_key_len p) = par_value_len p"
  "par_section (fill_value_len p) = par_section p" "par_key (fill_value_len p) = par_key p" "par_value (fill_value_len p) = par_value p"
  "par_section_len (fill_value_len p) = par_section_len p" "par_key_len (fill_value_len p) = par_key_len p"
  "par_section (fill_section_len p) = par_section p" "par_key (fill_section_len p) = par_key p" "par_value (fill_section_len p) = par_value p"
  "par_key_len (fill_section_len p) = par_key_len p" "par_value_len (fill_section_len p) = par_value_len p"
  by (auto simp: fill_key_len_def fill_value_len_def fill_section_len_def)

lemma add_memory:
  assumes inv: "ini_inv w" and fd: "valid_fd fd"
    and s: "par_section par = Some s" "arg_ok s (par_section_len par)"
    and k: "par_key par = Some k" "arg_ok k (par_key_len par)" and v: "par_value par = Some v"
  defines "a \<equiv> arg_string s (par_section_len par)" and "b \<equiv> arg_string k (par_key_len par)"
    and "par1 \<equiv> fill_value_len (fill_key_len par)"
  assumes L: "length (add_line par1) < INIFILE_MAX_CONTENT_LINELEN" "key_scannable (add_line par1)"
    and bud: "budget (length (add_line par1) + 1) w"
    and sec: "map_of (doc w (nat fd)) a \<noteq> None" and new: "doc_get a b (doc w (nat fd)) = None"
  shows "\<exists>ret w1. ini_inv w1 \<and> ini_fs w1 = ini_fs w \<and> file_name (nat fd) w1 = file_name (nat fd) w \<and>
    (\<forall>g < MAX_OPERATION_FILE_NUM. g \<noteq> nat fd \<longrightarrow> doc w1 g = doc w g) \<and>
    ((ret = INIFILE_NUM_OUT_ARRAY \<or> ret = INIFILE_FORMAT_ERROR \<and> \<not> keyval_ok (add_line par1)) \<and>
       doc w1 (nat fd) = doc w (nat fd) \<and> add_value_ofkey fd (Some par) w = Some (ret, Some par1, w1) \<or>
     keyval_ok (add_line par1) \<and>
       doc w1 (nat fd) = doc_add a (key_text (add_line par1)) (value_text (add_line par1)) (doc w (nat fd)) \<and>
       add_value_ofkey fd (Some par) w = call_rewrite rewrite_after_add fd par1 w1)"
proof -
  obtain SS KK where st: "state w SS KK {} {}" using inv by (auto simp: ini_inv_def state_def)
  have s0: "store_inv w" "shape w SS KK {} {}" "filled w SS KK" using st by (auto simp: state_def)
  note D = shapeD[OF s0(2)] and f = valid_fd_lt[OF fd] and F = fd_section_eq[OF s0(2,3) fd s, folded a_def]
  have m: "map_of (doc w (nat fd)) a = map_option (\<lambda>s. map (kv_pair w) (KK s)) (List.find (\<lambda>s. sec_name w s = a) (SS (nat fd)))"
    unfolding doc_eq[OF s0(2) f] doc_of_def map_of_keyed ..
  then obtain x where x: "List.find (\<lambda>x. sec_name w x = a) (SS (nat fd)) = Some x" using sec by auto
  then have xf: "x \<in> set (SS (nat fd))" by (auto dest: find_SomeD)
  have xl: "x < MAX_INIFILE_SECTION_NUM" by (rule node_listsD(2)[OF D(2) f xf])
  have K: "sec_keyval x par w = Some None"
    using sec_keyval_eq[OF s0(2,3) xl k, folded b_def] new doc_get_find[OF s0(2) f, of a b] x by simp
  have kl: "key_value_line par1 = Some (add_line par1)" using key_value_line_eq[OF _ _ L(1)] k(1) v by (simp add: par1_def)
  have run: "add_value_ofkey fd (Some par) w = do {
      (ret, w1) \<leftarrow> init_line_key_val (add_line par1) w;
      if ret < 0 then Some (ret, Some par1, w1)
      else do { w2 \<leftarrow> append_keyval x (nat ret) w1; call_rewrite rewrite_after_add fd par1 w2 } }"
    using fd s k v F K x kl by (simp add: add_value_ofkey_def par1_def[symmetric] Let_def)
  have ok: "budget (length (cstr (add_line par1)) + 1) w" "key_scannable (cstr (add_line par1))" using bud L(2) by simp_all
  show ?thesis
  proof (rule init_line_key_val_ok[OF st ok]; (unfold cstr_add_line)?)
    assume "init_line_key_val (add_line par1) w = Some (INIFILE_NUM_OUT_ARRAY, w)"
    then show ?thesis using run inv by (intro exI[of _ INIFILE_NUM_OUT_ARRAY] exI[of _ w]) (simp add: code_defs)
  next
    fix w' assume a': "init_line_key_val (add_line par1) w = Some (INIFILE_FORMAT_ERROR, w')" "\<not> keyval_ok (add_line par1)"
      "state w' SS KK {} {}" "same_docs w w' SS KK" "unchanged w w' (length (add_line par1) + 1)"
    show ?thesis
      using run a'(1,2,5) state_ini_inv[OF a'(3)] same_docs_doc[OF st a'(3,4)] f
      by (intro exI[of _ INIFILE_FORMAT_ERROR] exI[of _ w']) (simp add: code_defs unchanged_def)
  next
    fix j w' assume a': "init_line_key_val (add_line par1) w = Some (int j, w')" "keyval_ok (add_line par1)"
      "state w' SS KK {} {j}" "same_docs w w' SS KK" "unchanged w w' (length (add_line par1) + 1)" "j < INIFILE_KEYVALUE_ARRAY_LEN"
      "kv_pair w' j = (key_text (add_line par1), value_text (add_line par1))"
      "kv_key (kv_at w' j) \<noteq> None" "kv_value (kv_at w' j) \<noteq> None"
    note dd = same_docs_doc[OF st a'(3,4)]
    obtain w'' where w'': "append_keyval x j w' = Some w''" "ini_inv w''" "pool_mem w'' = pool_mem w'" "ini_fs w'' = ini_fs w'"
      "ini_array w'' = ini_array w'" "\<forall>g < MAX_OPERATION_FILE_NUM. doc w'' g = with_key w' SS KK x j g"
      using attach_keyval_ok[OF a'(3,6,8,9) xl f xf, of append_keyval] by auto
    have nm: "sec_name w' t = sec_name w t" if "t \<in> set (SS (nat fd))" for t using a'(4) f that by (auto simp: same_docs_def)
    have x': "List.find (\<lambda>x. sec_name w' x = a) (SS (nat fd)) = Some x" using x nm by (simp cong: find_cong)
    have "doc w'' (nat fd) = doc_add a (key_text (add_line par1)) (value_text (add_line par1)) (doc w (nat fd))"
      using w''(6) f with_key_found[of SS "nat fd" w' a x KK j, OF node_lists_distinct[OF D(2) f] x'] a'(7) dd[OF f] state_doc[OF a'(3) f] by simp
    moreover have "doc w'' g = doc w g" if g: "g < MAX_OPERATION_FILE_NUM" "g \<noteq> nat fd" for g
      using w''(6) with_key_other[of x SS g w' KK j] node_listsD(3)[OF D(2) f g(1) xf] g dd[OF g(1)] state_doc[OF a'(3) g(1)] by auto
    moreover have "ini_fs w'' = ini_fs w" "file_name (nat fd) w'' = file_name (nat fd) w"
      using a'(5) w''(3-5) f by (auto simp: unchanged_def file_name_def)
    ultimately show ?thesis using run a'(1,2) w''(1,2) by (intro exI[of _ 0] exI[of _ w'']) simp
  qed
qed

section \<open>Adding a section\<close>

definition add_section_line :: "INI_PARAMETER \<Rightarrow> string" where
  "add_section_line par = CONTENT_LEFT_BRACKET # take (nat (par_section_len par)) (cstr (the (par_section par))) @ [CONTENT_RIGHT_BRACKET]"

lemma cstr_add_section_line [simp]: "cstr (add_section_line par) = add_section_line par"
proof (rule cstr_no_NUL)
  have "NUL \<notin> set (take n (cstr s))" for n s by (meson NUL_notin_cstr in_set_takeD)
  then show "NUL \<notin> set (add_section_line par)" by (auto simp: add_section_line_def content_defs)
qed

text \<open>
  The name that is looked up is the argument; the name that is stored is what the parser reads
  back from the line, so the two are named apart.
\<close>

lemma add_section_memory:
  assumes inv: "ini_inv w" and fd: "valid_fd fd" and u: "fil_flag (fil_at w (nat fd)) = STRUCT_NODE_IN_USED"
    and s: "par_section par = Some s" "arg_ok s (par_section_len par)"
  defines "a \<equiv> arg_string s (par_section_len par)" and "par1 \<equiv> fill_section_len par"
  assumes L: "length (add_section_line par1) < INIFILE_MAX_CONTENT_LINELEN"
    and bud: "budget (length (add_section_line par1)) w"
    and new: "map_of (doc w (nat fd)) a = None"
  shows "\<exists>ret w1. ini_inv w1 \<and> ini_fs w1 = ini_fs w \<and> file_name (nat fd) w1 = file_name (nat fd) w \<and>
    (\<forall>g < MAX_OPERATION_FILE_NUM. g \<noteq> nat fd \<longrightarrow> doc w1 g = doc w g) \<and>
    ((ret = INIFILE_NUM_OUT_ARRAY \<or> ret = INIFILE_FORMAT_ERROR \<and> \<not> section_ok (add_section_line par1)) \<and>
       doc w1 (nat fd) = doc w (nat fd) \<and> add_ini_section fd (Some par) w = Some (ret, Some par1, w1) \<or>
     section_ok (add_section_line par1) \<and>
       doc w1 (nat fd) = doc w (nat fd) @ [(section_text (add_section_line par1), [])] \<and>
       add_ini_section fd (Some par) w = call_rewrite rewrite_after_add fd par1 w1)"
proof -
  obtain SS KK where st: "state w SS KK {} {}" using inv by (auto simp: ini_inv_def state_def)
  have s0: "store_inv w" "shape w SS KK {} {}" "filled w SS KK" using st by (auto simp: state_def)
  note D = shapeD[OF s0(2)] and f = valid_fd_lt[OF fd] and F = fd_section_eq[OF s0(2,3) fd s, folded a_def]
  have "map_of (doc w (nat fd)) a = map_option (\<lambda>s. map (kv_pair w) (KK s)) (List.find (\<lambda>s. sec_name w s = a) (SS (nat fd)))"
    unfolding doc_eq[OF s0(2) f] doc_of_def map_of_keyed ..
  then have x: "List.find (\<lambda>x. sec_name w x = a) (SS (nat fd)) = None" using new by simp
  have sl: "section_line par1 = Some (add_section_line par1)"
    using L s(1) by (simp add: section_line_def print_arg_def in_line_def add_section_line_def par1_def)
  have run: "add_ini_section fd (Some par) w = do {
      (ret, w1) \<leftarrow> init_line_section (add_section_line par1) w;
      if ret < 0 then Some (ret, Some par1, w1)
      else do { w2 \<leftarrow> append_section (nat fd) (nat ret) w1; call_rewrite rewrite_after_add fd par1 w2 } }"
    using fd s F x sl by (simp add: add_ini_section_def par1_def[symmetric] Let_def)
  have ok: "budget (length (cstr (add_section_line par1))) w" using bud by simp
  show ?thesis
  proof (rule init_line_section_ok[OF st ok]; (unfold cstr_add_section_line)?)
    assume "init_line_section (add_section_line par1) w = Some (INIFILE_NUM_OUT_ARRAY, w)"
    then show ?thesis using run inv by (intro exI[of _ INIFILE_NUM_OUT_ARRAY] exI[of _ w]) (simp add: code_defs)
  next
    fix w' assume a': "init_line_section (add_section_line par1) w = Some (INIFILE_FORMAT_ERROR, w')" "\<not> section_ok (add_section_line par1)"
      "state w' SS KK {} {}" "same_docs w w' SS KK" "pool_mem w' = pool_mem w" "ini_array w' = ini_array w" "ini_fs w' = ini_fs w"
    show ?thesis
      using run a'(1,2,5-7) state_ini_inv[OF a'(3)] same_docs_doc[OF st a'(3,4)] f
      by (intro exI[of _ INIFILE_FORMAT_ERROR] exI[of _ w']) (simp add: code_defs file_name_def)
  next
    fix n w' assume a': "init_line_section (add_section_line par1) w = Some (int n, w')" "section_ok (add_section_line par1)"
      "state w' SS KK {n} {}" "same_docs w w' SS KK" "n < MAX_INIFILE_SECTION_NUM" "KK n = []"
      "\<exists>p. sec_sec (sec_at w' n) = Some p" "sec_name w' n = section_text (add_section_line par1)"
      "pm_curr_len (pool_mem w') \<le> pm_curr_len (pool_mem w) + int (length (add_section_line par1))"
      "ini_array w' = ini_array w" "ini_fs w' = ini_fs w" "\<And>g. g < MAX_OPERATION_FILE_NUM \<Longrightarrow> file_name g w' = file_name g w"
    note dd = same_docs_doc[OF st a'(3,4)]
    obtain w'' where w'': "append_section (nat fd) n w' = Some w''" "ini_inv w''" "pool_mem w'' = pool_mem w'" "ini_fs w'' = ini_fs w'"
      "\<forall>g < MAX_OPERATION_FILE_NUM. fil_flag (fil_at w'' g) = fil_flag (fil_at w' g) \<and> fil_name (fil_at w'' g) = fil_name (fil_at w' g) \<and>
         doc w'' g = (if g = nat fd then doc w' (nat fd) @ [(sec_name w' n, [])] else doc w' g)"
      using attach_section_ok[OF a'(3,5,6) _ f, of append_section] a'(7,10) u by auto
    show ?thesis
      using run a'(1,2,8,11,12) w'' dd f by (intro exI[of _ 0] exI[of _ w'']) (auto simp: file_name_def)
  qed
qed

end
