(* ===== verification/Ini_File.thy ===== *)
theory Ini_File
  imports Ini_Add
begin

text \<open>
  The files the rewriters leave behind. A well-formed ini text is a list of lines that each end in a
  newline and fit the line buffer with room to spare; on such a text the rewriters are total, and
  parsing their output gives the changed document.
\<close>

section \<open>Texts\<close>

definition text_of :: "string list \<Rightarrow> string" where
  "text_of ls = concat (map (\<lambda>l. l @ [CONTENT_NEELINE_SIGN]) ls)"

definition plain_line :: "nat \<Rightarrow> string \<Rightarrow> bool" where
  "plain_line n l \<longleftrightarrow> CONTENT_NEELINE_SIGN \<notin> set l \<and> NUL \<notin> set l \<and> length l + n < INIFILE_MAX_CONTENT_LINELEN"

abbreviation ended :: "string \<Rightarrow> string" where
  "ended l \<equiv> l @ [CONTENT_NEELINE_SIGN]"

lemma text_of_simps [simp]: "text_of [] = []" "text_of (l # ls) = l @ CONTENT_NEELINE_SIGN # text_of ls"
  by (auto simp: text_of_def)

lemma text_of_append: "text_of (a @ b) = text_of a @ text_of b"
  by (simp add: text_of_def)

lemma file_chunks_text:
  assumes "\<And>l. l \<in> set ls \<Longrightarrow> plain_line 1 l"
  shows "file_chunks (text_of ls) = map ended ls"
  using assms
proof (induction ls)
  case Nil
  then show ?case by (simp add: file_chunks_def)
next
  case (Cons l ls)
  have "CONTENT_NEELINE_SIGN \<notin> set l" "length l < INIFILE_MAX_CONTENT_LINELEN - 1"
    using Cons.prems[of l] by (auto simp: plain_line_def)
  from fgets_chunks_line[OF this, of "text_of ls"] Cons show ?case by (simp add: file_chunks_def)
qed

lemma plain_mono: "plain_line n l \<Longrightarrow> m \<le> n \<Longrightarrow> plain_line m l"
  by (auto simp: plain_line_def)

lemma cstr_ended: "plain_line n l \<Longrightarrow> cstr (ended l) = ended l"
  by (rule cstr_no_NUL) (auto simp: plain_line_def content_defs)

lemma parse_text_lines:
  assumes "\<And>l. l \<in> set ls \<Longrightarrow> plain_line 1 l"
  shows "parse_text (text_of ls) = parse_lines (map ended ls) []"
proof -
  have "map cstr (map ended ls) = map ended ls" using assms cstr_ended by auto
  then show ?thesis by (simp add: parse_text_def file_chunks_text[OF assms] del: map_map)
qed

lemma fgets_into_zero: "fgets_into [] c = c @ [NUL]"
  by (simp add: fgets_into_def put_bytes_def)

lemma byte_at_fresh: "byte_at (fgets_into [] c) i = (if i < length c then c ! i else NUL)"
  by (auto simp: fgets_into_zero byte_at_def nth_append)

section \<open>Replacing a file\<close>

lemma tmp_name_differs: "filename \<noteq> filename @ tem_suff_name"
  by (simp add: tem_suff_name_def)

definition rewritable :: "string \<Rightarrow> file_system \<Rightarrow> bool" where
  "rewritable filename fs \<longleftrightarrow> shell_plain filename \<and> length (filename @ tem_suff_name) < INIFILE_FILEALL_NAME_LEN \<and>
     opens_both fs filename (filename @ tem_suff_name)"

text \<open>
  A successful rewrite: the file has the new contents, the temporary file is gone, and no other
  file is touched.
\<close>

definition replaced :: "string \<Rightarrow> string \<Rightarrow> file_system \<Rightarrow> file_system \<Rightarrow> bool" where
  "replaced filename content fs fs' \<longleftrightarrow>
     fs_files fs' = (fs_files fs)(filename := Some content, filename @ tem_suff_name := None)"

lemma rewrite_file_ok:
  assumes rw: "rewritable filename fs" and pre: "pre = Some p"
    and c: "copy_loop step s0 (file_chunks (the (fs_files fs filename))) = Some (None, s, out)" and r: "0 \<le> result s"
  shows "\<exists>fs'. rewrite_file step s0 result pre filename fs = Some (result s, s, fs') \<and> replaced filename (p @ out) fs fs'"
proof -
  let ?t = "filename @ tem_suff_name"
  have t: "make_tmp_name filename = Some ?t" using rw by (simp add: rewritable_def make_tmp_name_def)
  have len: "length filename < 124" using rw by (simp add: rewritable_def size_defs tem_suff_name_def)
  then have "re_name_ini_file filename (fs_write ?t (p @ out) fs) = Some (fs_move ?t filename (fs_remove filename (fs_write ?t (p @ out) fs)))"
    using rw by (simp add: re_name_ini_file_def rewritable_def size_defs tem_suff_name_def)
  then show ?thesis
    using t rw c r pre tmp_name_differs[of filename]
    by (auto simp: rewrite_file_def rewritable_def finish_rewrite_def replaced_def fs_move_def fs_remove_def fs_write_def)
qed

section \<open>Matching names in a line\<close>

definition matches :: "string \<Rightarrow> nat \<Rightarrow> string \<Rightarrow> (char \<Rightarrow> bool) \<Rightarrow> bool" where
  "matches s p t stop \<longleftrightarrow> p + length t < length s \<and> stop (s ! (p + length t)) \<and> take (length t) (drop p s) = t"

lemma match_at_ok:
  assumes "take (length t) (nm @ [NUL]) = t" and "length t \<le> length nm + 1" and "\<not> stop NUL"
    and "p + length t < INIFILE_MAX_CONTENT_LINELEN"
  shows "\<exists>m. match_at (fgets_into [] s) p nm (int (length t)) stop = Some m \<and> (m = Some 0 \<longleftrightarrow> matches s p t stop)"
proof (cases "p + length t < length s \<and> stop (s ! (p + length t))")
  case True
  then have bytes: "map (byte_at (fgets_into [] s)) [p..<p + length t] = take (length t) (drop p s)"
    by (intro nth_equalityI) (auto simp: byte_at_fresh)
  have "match_at (fgets_into [] s) p nm (int (length t)) stop = Some (Some (memcmp t (take (length t) (drop p s))))"
    using assms True bytes by (simp add: match_at_def byte_at_fresh)
  moreover have "memcmp t (take (length t) (drop p s)) = 0 \<longleftrightarrow> t = take (length t) (drop p s)"
    using True by (intro memcmp_eq_0_iff) auto
  ultimately show ?thesis using True by (auto simp: matches_def)
next
  case False
  then have "match_at (fgets_into [] s) p nm (int (length t)) stop = Some None"
    using assms by (auto simp: match_at_def byte_at_fresh Let_def)
  then show ?thesis using False by (auto simp: matches_def)
qed

lemma section_matches:
  assumes b: "first_index (\<lambda>x. x = CONTENT_LEFT_BRACKET) s = Some b" and ok: "section_ok s"
    and a: "CONTENT_RIGHT_BRACKET \<notin> set a"
  shows "matches s (b + 1) a stop_section \<longleftrightarrow> section_text s = a"
proof -
  have sd: "section_text s = takeWhile (\<lambda>x. x \<noteq> CONTENT_RIGHT_BRACKET) (drop (Suc b) s)"
    by (simp add: section_text_def behind_drop[OF b] until_def)
  have ne: "CONTENT_LEFT_BRACKET \<noteq> CONTENT_RIGHT_BRACKET" by (simp add: content_defs)
  have "CONTENT_LEFT_BRACKET \<in> set (takeWhile (\<lambda>x. x \<noteq> CONTENT_RIGHT_BRACKET) s)" "CONTENT_RIGHT_BRACKET \<in> set s"
    using ok by (auto simp: section_ok_def until_def)
  then have r: "CONTENT_RIGHT_BRACKET \<in> set (drop (Suc b) s)"
  proof -
    obtain q where q: "first_index (\<lambda>x. x = CONTENT_RIGHT_BRACKET) s = Some q"
      using ok by (cases "first_index (\<lambda>x. x = CONTENT_RIGHT_BRACKET) s") (auto simp: section_ok_def first_index_None)
    moreover have "b < q" using ok b q unfolding section_ok_def until_def mem_takeWhile_first[OF ne] by simp
    ultimately have q: "first_index (\<lambda>x. x = CONTENT_RIGHT_BRACKET) s = Some q" "b < q" by auto
    note Q = first_index_SomeD[OF q(1)]
    then have "drop (Suc b) s ! (q - Suc b) = CONTENT_RIGHT_BRACKET" "q - Suc b < length (drop (Suc b) s)" using q(2) by auto
    then show ?thesis by (metis nth_mem)
  qed
  let ?d = "drop (Suc b) s" and ?n = "length a"
  show ?thesis
  proof
    assume "matches s (b + 1) a stop_section"
    then have m: "Suc b + ?n < length s" "?d ! ?n = CONTENT_RIGHT_BRACKET" "take ?n ?d = a"
      by (auto simp: matches_def stop_section_def)
    then have "?d = a @ CONTENT_RIGHT_BRACKET # drop (Suc ?n) ?d"
      by (metis append_take_drop_id Cons_nth_drop_Suc length_drop less_diff_conv add.commute)
    then show "section_text s = a" unfolding sd using a by (metis (mono_tags, lifting) takeWhile_append2 takeWhile.simps(2) append_Nil2)
  next
    assume t: "section_text s = a"
    have "?d = a @ dropWhile (\<lambda>x. x \<noteq> CONTENT_RIGHT_BRACKET) ?d" using t sd by (metis takeWhile_dropWhile_id)
    moreover have "dropWhile (\<lambda>x. x \<noteq> CONTENT_RIGHT_BRACKET) ?d \<noteq> []" using r by auto
    moreover have "hd (dropWhile (\<lambda>x. x \<noteq> CONTENT_RIGHT_BRACKET) ?d) = CONTENT_RIGHT_BRACKET"
      using hd_dropWhile[of "\<lambda>x. x \<noteq> CONTENT_RIGHT_BRACKET" ?d] calculation(2) by auto
    ultimately obtain z where z: "?d = a @ CONTENT_RIGHT_BRACKET # z" by (metis list.collapse)
    then have "?n < length ?d" "?d ! ?n = CONTENT_RIGHT_BRACKET" "take ?n ?d = a" by auto
    then show "matches s (b + 1) a stop_section" by (simp add: matches_def stop_section_def)
  qed
qed

text \<open>The shape of a key line: blanks, the key, blanks, the sign, and the rest.\<close>

lemma trim_r_decomp: "\<exists>r. xs = trim_r P xs @ r \<and> (\<forall>x \<in> set r. P x)"
proof -
  have "rev xs = takeWhile P (rev xs) @ dropWhile P (rev xs)" by simp
  then have "xs = rev (dropWhile P (rev xs)) @ rev (takeWhile P (rev xs))" by (metis rev_append rev_rev_ident)
  then show ?thesis by (intro exI[of _ "rev (takeWhile P (rev xs))"]) (auto simp: trim_r_def dest: set_takeWhileD)
qed

lemma trim_r_last: "trim_r P xs \<noteq> [] \<Longrightarrow> \<not> P (last (trim_r P xs))"
  unfolding trim_r_def by (metis hd_dropWhile last_rev rev_is_Nil_conv)

lemma split_first: "c \<in> set s \<Longrightarrow> s = until c s @ c # behind c s"
proof -
  assume "c \<in> set s"
  then have "dropWhile (\<lambda>x. x \<noteq> c) s \<noteq> []" "hd (dropWhile (\<lambda>x. x \<noteq> c) s) = c"
    using hd_dropWhile[of "\<lambda>x. x \<noteq> c" s] by auto
  then have "dropWhile (\<lambda>x. x \<noteq> c) s = c # behind c s" unfolding behind_def by (metis list.collapse)
  then show ?thesis unfolding until_def by (metis takeWhile_dropWhile_id)
qed

lemma until_notin: "c \<notin> set (until c s)"
  by (auto simp: until_def dest: set_takeWhileD)

lemma until_append: "c \<notin> set a \<Longrightarrow> until c (a @ b) = a @ until c b"
  unfolding until_def by (rule takeWhile_append2) auto

lemma behind_append: "c \<notin> set a \<Longrightarrow> behind c (a @ c # b) = b"
  unfolding behind_def by (subst dropWhile_append2) auto

lemma key_decomp:
  assumes "CONTENT_EQUALITY_SIGN \<in> set s" and "key_text s \<noteq> []"
  obtains bl bl2 where "s = bl @ key_text s @ bl2 @ CONTENT_EQUALITY_SIGN # behind CONTENT_EQUALITY_SIGN s"
    "\<forall>c \<in> set bl. is_blank c" "\<forall>c \<in> set bl2. is_blank c" "CONTENT_EQUALITY_SIGN \<notin> set (key_text s)"
    "\<not> is_blank (hd (key_text s))" "\<not> is_blank (last (key_text s))" "skip_blanks s = length bl"
proof -
  let ?u = "until CONTENT_EQUALITY_SIGN s" and ?d = "dropWhile is_blank (until CONTENT_EQUALITY_SIGN s)"
  obtain r where r: "?d = key_text s @ r" "\<forall>x \<in> set r. is_blank x"
    using trim_r_decomp[of ?d is_blank] by (auto simp: key_text_def)
  let ?bl = "takeWhile is_blank ?u"
  have u: "?u = ?bl @ key_text s @ r" using r(1) by (metis takeWhile_dropWhile_id)
  have s: "s = ?bl @ key_text s @ r @ CONTENT_EQUALITY_SIGN # behind CONTENT_EQUALITY_SIGN s"
    using split_first[OF assms(1)] u by (metis append.assoc)
  have hd: "\<not> is_blank (hd (key_text s))" using r(1) assms(2) hd_dropWhile[of is_blank ?u] by auto
  have bl: "\<forall>c \<in> set ?bl. is_blank c" by (auto dest: set_takeWhileD)
  have "skip_blanks s = length ?bl"
    unfolding skip_blanks_eq
    by (subst s, subst takeWhile_append2) (use bl hd assms(2) in \<open>auto simp: neq_Nil_conv\<close>)
  moreover have "CONTENT_EQUALITY_SIGN \<notin> set (key_text s)" using until_notin[of CONTENT_EQUALITY_SIGN s] u by (metis Un_iff set_append)
  moreover have "\<not> is_blank (last (key_text s))" using trim_r_last assms(2) by (auto simp: key_text_def)
  ultimately show thesis using that[OF s bl r(2)] hd by blast
qed

definition clean_key :: "string \<Rightarrow> bool" where
  "clean_key b \<longleftrightarrow> b \<noteq> [] \<and> \<not> is_blank (last b) \<and> CONTENT_EQUALITY_SIGN \<notin> set b"

text \<open>The key \<open>K\<close> of a line is taken for \<open>b\<close> when \<open>b\<close> is a prefix of it that a blank follows.\<close>

definition blank_extension :: "string \<Rightarrow> string \<Rightarrow> bool" where
  "blank_extension b K \<longleftrightarrow> (\<exists>c r. K = b @ c # r \<and> is_blank c)"

lemma key_matches:
  assumes eq: "CONTENT_EQUALITY_SIGN \<in> set s" and ne: "key_text s \<noteq> []" and b: "clean_key b"
  shows "matches s (skip_blanks s) b stop_key \<longleftrightarrow> key_text s = b \<or> blank_extension b (key_text s)"
proof -
  let ?K = "key_text s"
  obtain bl bl2 where d: "s = bl @ ?K @ bl2 @ CONTENT_EQUALITY_SIGN # behind CONTENT_EQUALITY_SIGN s"
    "\<forall>c \<in> set bl2. is_blank c" "CONTENT_EQUALITY_SIGN \<notin> set ?K" "skip_blanks s = length bl"
    by (rule key_decomp[OF eq ne]) blast
  let ?R = "?K @ bl2 @ CONTENT_EQUALITY_SIGN # behind CONTENT_EQUALITY_SIGN s"
  have drop: "drop (length bl) s = ?R" by (subst d(1)) simp
  have len: "length s = length bl + length ?R" by (subst d(1)) simp
  have nth: "s ! (length bl + i) = ?R ! i" if "i < length ?R" for i by (subst d(1)) (use that in \<open>simp add: nth_append\<close>)
  have m: "matches s (skip_blanks s) b stop_key \<longleftrightarrow> (\<exists>c z. ?R = b @ c # z \<and> stop_key c)"
  proof
    assume "matches s (skip_blanks s) b stop_key"
    then have a: "length b < length ?R" "stop_key (?R ! length b)" "take (length b) ?R = b"
      using nth[of "length b"] unfolding matches_def d(4) drop len by auto
    then have "?R = b @ ?R ! length b # drop (Suc (length b)) ?R" by (metis append_take_drop_id Cons_nth_drop_Suc)
    with a(2) show "\<exists>c z. ?R = b @ c # z \<and> stop_key c" by blast
  next
    assume "\<exists>c z. ?R = b @ c # z \<and> stop_key c"
    then obtain c z where cz: "?R = b @ c # z" "stop_key c" by blast
    then have "length b < length ?R" "?R ! length b = c" "take (length b) ?R = b" by auto
    then show "matches s (skip_blanks s) b stop_key" using cz(2) nth unfolding matches_def d(4) drop len by simp
  qed
  have stops: "stop_key c \<longleftrightarrow> is_blank c \<or> c = CONTENT_EQUALITY_SIGN" for c by (auto simp: stop_key_def is_blank_def)
  show ?thesis unfolding m
  proof
    assume "\<exists>c z. ?R = b @ c # z \<and> stop_key c"
    then obtain c z where cz: "b @ c # z = ?K @ bl2 @ CONTENT_EQUALITY_SIGN # behind CONTENT_EQUALITY_SIGN s" "stop_key c" by metis
    then consider (long) us where "b = ?K @ us" "us @ c # z = bl2 @ CONTENT_EQUALITY_SIGN # behind CONTENT_EQUALITY_SIGN s"
      | (short) us where "b @ us = ?K" "c # z = us @ bl2 @ CONTENT_EQUALITY_SIGN # behind CONTENT_EQUALITY_SIGN s"
      by (auto simp: append_eq_append_conv2)
    then show "?K = b \<or> blank_extension b ?K"
    proof cases
      case (long us)
      have "us = []"
      proof (rule ccontr)
        assume u: "us \<noteq> []"
        have "CONTENT_EQUALITY_SIGN \<notin> set us" using b long(1) by (auto simp: clean_key_def)
        then have "set us \<subseteq> set bl2"
          using long(2) by (auto simp: append_eq_append_conv2 append_eq_Cons_conv Cons_eq_append_conv)
        then have "is_blank (last us)" using u d(2) by (meson last_in_set subsetD)
        then show False using b long(1) u by (simp add: clean_key_def)
      qed
      with long show ?thesis by simp
    next
      case (short us)
      show ?thesis
      proof (cases us)
        case Nil
        with short show ?thesis by simp
      next
        case (Cons y ys)
        then have "c = y" "y \<in> set ?K" using short by (auto simp flip: short(1))
        then have "is_blank c" using d(3) cz(2) by (auto simp: stops)
        then have "?K = b @ c # ys \<and> is_blank c" using short(1) Cons \<open>c = y\<close> by simp
        then show ?thesis unfolding blank_extension_def by blast
      qed
    qed
  next
    assume "?K = b \<or> blank_extension b ?K"
    then show "\<exists>c z. ?R = b @ c # z \<and> stop_key c"
    proof
      assume "?K = b"
      then show ?thesis using d(2) by (cases bl2) (auto simp: stops)
    next
      assume "blank_extension b ?K"
      then show ?thesis by (auto simp: blank_extension_def stops)
    qed
  qed
qed

end
