(* ===== verification/Ini_UpdateFile.thy ===== *)
theory Ini_UpdateFile
  imports Ini_File
begin

text \<open>
  \<^verbatim>\<open>rewrite_after_update\<close> on a well-formed text: the file it leaves parses to the updated document.
\<close>

section \<open>How documents grow while they are parsed\<close>

lemma butlast_prefix: "\<exists>e. d = butlast d @ e"
  by (cases d rule: rev_cases) auto

lemma line_effect_butlast: "line_effect l d = Some d' \<Longrightarrow> \<exists>e. butlast d' = butlast d @ e"
  using butlast_prefix[of d]
  by (auto simp: line_effect_def section_effect_def keyvalue_effect_def butlast_append
      split: INI_FILE_LINE_TYPE.splits if_splits)

lemma parse_lines_butlast: "parse_lines ls d = Some D \<Longrightarrow> \<exists>e. D = butlast d @ e"
proof (induction ls arbitrary: d)
  case Nil
  then show ?case using butlast_prefix[of d] by simp
next
  case (Cons l ls)
  then obtain d' where "line_effect l d = Some d'" "parse_lines ls d' = Some D" by (auto split: option.splits)
  with Cons.IH line_effect_butlast[of l d d'] show ?case by fastforce
qed

lemma map_of_last:
  assumes "d \<noteq> []" and "map_of d a = Some kvs"
  shows "\<exists>z. map_of (butlast d @ [(fst (last d), snd (last d) @ y)]) a = Some (kvs @ z)"
proof -
  obtain e n k where d: "d = e @ [(n, k)]" using assms(1) by (metis append_butlast_last_id surj_pair)
  show ?thesis using assms(2) unfolding d by (cases "map_of e a") (auto simp: map_add_def split: if_splits)
qed

lemma line_effect_persist:
  "line_effect l d = Some d' \<Longrightarrow> map_of d a = Some kvs \<Longrightarrow> \<exists>z. map_of d' a = Some (kvs @ z)"
  using map_of_last[of d a kvs]
  by (auto simp: line_effect_def section_effect_def keyvalue_effect_def
      split: INI_FILE_LINE_TYPE.splits if_splits)

lemma parse_lines_persist:
  "parse_lines ls d = Some D \<Longrightarrow> map_of d a = Some kvs \<Longrightarrow> \<exists>z. map_of D a = Some (kvs @ z)"
proof (induction ls arbitrary: d kvs)
  case Nil
  then show ?case by auto
next
  case (Cons l ls)
  then obtain d' where d': "line_effect l d = Some d'" "parse_lines ls d' = Some D" by (auto split: option.splits)
  then obtain z where "map_of d' a = Some (kvs @ z)" using line_effect_persist Cons.prems(2) by blast
  with Cons.IH[OF d'(2)] show ?case by fastforce
qed

section \<open>Updating commutes with parsing\<close>

lemma map_entry_append_in:
  "a \<in> fst ` set xs \<Longrightarrow> AList.map_entry a f (xs @ ys) = AList.map_entry a f xs @ ys"
  by (induction xs) auto

lemma map_entry_append_notin:
  "a \<notin> fst ` set xs \<Longrightarrow> AList.map_entry a f (xs @ ys) = xs @ AList.map_entry a f ys"
  by (induction xs) auto

lemma fst_map_entry [simp]: "fst ` set (AList.map_entry a f xs) = fst ` set xs"
  by (induction xs) auto

lemma map_entry_Nil_iff [simp]: "AList.map_entry a f xs = [] \<longleftrightarrow> xs = []"
  by (cases xs) auto

lemma doc_get_mem: "doc_get a b d \<noteq> None \<longleftrightarrow> (\<exists>kvs. map_of d a = Some kvs \<and> b \<in> fst ` set kvs)"
  by (auto simp: doc_get_def split: option.splits dest: weak_map_of_SomeI map_of_SomeD intro: rev_image_eqI)

text \<open>Appending to the last section after the update, or before it.\<close>

lemma doc_update_last:
  assumes "d \<noteq> []" and "doc_get a b d \<noteq> None"
  shows "doc_update a b v (butlast d @ [(fst (last d), snd (last d) @ y)]) =
    butlast (doc_update a b v d) @ [(fst (last (doc_update a b v d)), snd (last (doc_update a b v d)) @ y)]"
    and "fst ` set (snd (last (doc_update a b v d))) = fst ` set (snd (last d))"
proof -
  obtain e n k where d: "d = e @ [(n, k)]" using assms(1) by (metis append_butlast_last_id surj_pair)
  show "doc_update a b v (butlast d @ [(fst (last d), snd (last d) @ y)]) =
    butlast (doc_update a b v d) @ [(fst (last (doc_update a b v d)), snd (last (doc_update a b v d)) @ y)]"
  proof (cases "a \<in> fst ` set e")
    case True
    then show ?thesis by (simp add: d doc_update_def map_entry_append_in)
  next
    case False
    then have "map_of d a = (if a = n then Some k else None)" unfolding d by (auto simp: map_add_def map_of_eq_None_iff[THEN iffD2] split: option.splits)
    then have "a = n" "b \<in> fst ` set k" using assms(2) unfolding doc_get_mem by (auto split: if_splits)
    with False show ?thesis by (simp add: d doc_update_def map_entry_append_notin map_entry_append_in)
  qed
  show "fst ` set (snd (last (doc_update a b v d))) = fst ` set (snd (last d))"
    unfolding d doc_update_def
    by (cases "a \<in> fst ` set e") (auto simp: map_entry_append_in map_entry_append_notin)
qed

lemma doc_update_names [simp]: "fst ` set (doc_update a b v d) = fst ` set d" "doc_update a b v d = [] \<longleftrightarrow> d = []"
  by (auto simp: doc_update_def)

lemma doc_update_append:
  "doc_get a b d \<noteq> None \<Longrightarrow> doc_update a b v (d @ x) = doc_update a b v d @ x"
  unfolding doc_update_def doc_get_mem by (rule map_entry_append_in) (auto dest: map_of_SomeD intro: rev_image_eqI)

lemma line_effect_update:
  assumes "doc_get a b d \<noteq> None"
  shows "line_effect l (doc_update a b v d) = map_option (doc_update a b v) (line_effect l d)"
proof (cases "d = []")
  case True
  with assms show ?thesis by (simp add: doc_get_def)
next
  case False
  show ?thesis
    by (cases "line_class l")
       (simp_all add: line_effect_def section_effect_def keyvalue_effect_def doc_update_last[OF False assms]
        doc_update_append[OF assms] False)
qed

lemma line_effect_get: "doc_get a b d \<noteq> None \<Longrightarrow> line_effect l d = Some d' \<Longrightarrow> doc_get a b d' \<noteq> None"
  unfolding doc_get_mem using line_effect_persist by fastforce

lemma parse_lines_update:
  assumes "doc_get a b d \<noteq> None" and "parse_lines ls d = Some D"
  shows "parse_lines ls (doc_update a b v d) = Some (doc_update a b v D)"
  using assms
proof (induction ls arbitrary: d)
  case Nil
  then show ?case by simp
next
  case (Cons l ls)
  then obtain d' where d': "line_effect l d = Some d'" "parse_lines ls d' = Some D" by (auto split: option.splits)
  with Cons.IH[OF line_effect_get[OF Cons.prems(1) d'(1)] d'(2)] line_effect_update[OF Cons.prems(1)] show ?case by simp
qed

section \<open>The new line\<close>

definition new_lines :: "string \<Rightarrow> string \<Rightarrow> string list" where
  "new_lines l v =
     (let rest = behind CONTENT_EQUALITY_SIGN l;
          start = until CONTENT_EQUALITY_SIGN l @ CONTENT_EQUALITY_SIGN # takeWhile is_blank rest @ v
      in if CONTENT_COMMA_SIGN \<in> set rest
         then [start @ CONTENT_TAB_SIGN # CONTENT_COMMA_SIGN # behind CONTENT_COMMA_SIGN rest, []]
         else [start])"

definition clean_value :: "string \<Rightarrow> bool" where
  "clean_value v \<longleftrightarrow> v \<noteq> [] \<and> \<not> is_blank (hd v) \<and> \<not> is_blank_or_newline (last v) \<and> CONTENT_COMMA_SIGN \<notin> set v \<and>
     CONTENT_LEFT_BRACKET \<notin> set v \<and> CONTENT_NEELINE_SIGN \<notin> set v \<and> NUL \<notin> set v"

lemma content_neq [simp]:
  "CONTENT_NEELINE_SIGN \<noteq> CONTENT_TAB_SIGN" "CONTENT_NEELINE_SIGN \<noteq> CONTENT_LEFT_BRACKET"
  "CONTENT_NEELINE_SIGN \<noteq> CONTENT_RIGHT_BRACKET" "CONTENT_NEELINE_SIGN \<noteq> CONTENT_COMMA_SIGN"
  "CONTENT_NEELINE_SIGN \<noteq> CONTENT_EQUALITY_SIGN" "CONTENT_NEELINE_SIGN \<noteq> NUL"
  "CONTENT_TAB_SIGN \<noteq> CONTENT_NEELINE_SIGN" "CONTENT_TAB_SIGN \<noteq> CONTENT_LEFT_BRACKET"
  "CONTENT_TAB_SIGN \<noteq> CONTENT_RIGHT_BRACKET" "CONTENT_TAB_SIGN \<noteq> CONTENT_COMMA_SIGN"
  "CONTENT_TAB_SIGN \<noteq> CONTENT_EQUALITY_SIGN" "CONTENT_TAB_SIGN \<noteq> NUL"
  "CONTENT_LEFT_BRACKET \<noteq> CONTENT_NEELINE_SIGN" "CONTENT_LEFT_BRACKET \<noteq> CONTENT_TAB_SIGN"
  "CONTENT_LEFT_BRACKET \<noteq> CONTENT_RIGHT_BRACKET" "CONTENT_LEFT_BRACKET \<noteq> CONTENT_COMMA_SIGN"
  "CONTENT_LEFT_BRACKET \<noteq> CONTENT_EQUALITY_SIGN" "CONTENT_LEFT_BRACKET \<noteq> NUL"
  "CONTENT_RIGHT_BRACKET \<noteq> CONTENT_NEELINE_SIGN" "CONTENT_RIGHT_BRACKET \<noteq> CONTENT_TAB_SIGN"
  "CONTENT_RIGHT_BRACKET \<noteq> CONTENT_LEFT_BRACKET" "CONTENT_RIGHT_BRACKET \<noteq> CONTENT_COMMA_SIGN"
  "CONTENT_RIGHT_BRACKET \<noteq> CONTENT_EQUALITY_SIGN" "CONTENT_RIGHT_BRACKET \<noteq> NUL"
  "CONTENT_COMMA_SIGN \<noteq> CONTENT_NEELINE_SIGN" "CONTENT_COMMA_SIGN \<noteq> CONTENT_TAB_SIGN"
  "CONTENT_COMMA_SIGN \<noteq> CONTENT_LEFT_BRACKET" "CONTENT_COMMA_SIGN \<noteq> CONTENT_RIGHT_BRACKET"
  "CONTENT_COMMA_SIGN \<noteq> CONTENT_EQUALITY_SIGN" "CONTENT_COMMA_SIGN \<noteq> NUL"
  "CONTENT_EQUALITY_SIGN \<noteq> CONTENT_NEELINE_SIGN" "CONTENT_EQUALITY_SIGN \<noteq> CONTENT_TAB_SIGN"
  "CONTENT_EQUALITY_SIGN \<noteq> CONTENT_LEFT_BRACKET" "CONTENT_EQUALITY_SIGN \<noteq> CONTENT_RIGHT_BRACKET"
  "CONTENT_EQUALITY_SIGN \<noteq> CONTENT_COMMA_SIGN" "CONTENT_EQUALITY_SIGN \<noteq> NUL"
  "NUL \<noteq> CONTENT_NEELINE_SIGN" "NUL \<noteq> CONTENT_TAB_SIGN"
  "NUL \<noteq> CONTENT_LEFT_BRACKET" "NUL \<noteq> CONTENT_RIGHT_BRACKET"
  "NUL \<noteq> CONTENT_COMMA_SIGN" "NUL \<noteq> CONTENT_EQUALITY_SIGN" "NUL \<noteq> CONTENT_SPACE_SIGN"
  by (simp_all add: content_defs)

lemma content_blank [simp]:
  "\<not> is_blank CONTENT_NEELINE_SIGN" "\<not> is_blank CONTENT_EQUALITY_SIGN" "\<not> is_blank CONTENT_COMMA_SIGN"
  "is_blank_or_newline CONTENT_NEELINE_SIGN" "is_blank_or_newline CONTENT_TAB_SIGN" "is_blank CONTENT_TAB_SIGN"
  "\<not> is_blank CONTENT_LEFT_BRACKET"
  by (simp_all add: content_defs is_blank_def is_blank_or_newline_def)

lemma ended_until: "c \<in> set l \<Longrightarrow> until c (ended l) = until c l" "c \<in> set l \<Longrightarrow> behind c (ended l) = ended (behind c l)"
proof -
  assume c: "c \<in> set l"
  then show "until c (ended l) = until c l" unfolding until_def by (simp add: takeWhile_append1)
  show "behind c (ended l) = ended (behind c l)"
    using split_first[OF c] behind_append[OF until_notin, of c l "ended (behind c l)"] by (metis append.assoc append_Cons)
qed

lemma line_class_keyvalue_iff:
  "line_class s = LINE_KEYVALUE \<longleftrightarrow>
     \<not> (\<exists>r. dropWhile is_blank s = CONTENT_NEELINE_SIGN # r) \<and>
     CONTENT_LEFT_BRACKET \<notin> set (until CONTENT_COMMA_SIGN s) \<and> CONTENT_EQUALITY_SIGN \<in> set (until CONTENT_COMMA_SIGN s)"
  by (auto simp: line_class_def Let_def before_comma_def until_def)

text \<open>A key line, cut at its equality sign.\<close>

lemma key_line_split:
  assumes pl: "plain_line n l" and cl: "line_class (ended l) = LINE_KEYVALUE"
  shows "CONTENT_EQUALITY_SIGN \<in> set l" "l = until CONTENT_EQUALITY_SIGN l @ CONTENT_EQUALITY_SIGN # behind CONTENT_EQUALITY_SIGN l"
    "CONTENT_COMMA_SIGN \<notin> set (until CONTENT_EQUALITY_SIGN l)" "CONTENT_LEFT_BRACKET \<notin> set (until CONTENT_EQUALITY_SIGN l)"
proof -
  have K: "CONTENT_LEFT_BRACKET \<notin> set (until CONTENT_COMMA_SIGN (ended l))"
    "CONTENT_EQUALITY_SIGN \<in> set (until CONTENT_COMMA_SIGN (ended l))" using cl unfolding line_class_keyvalue_iff by auto
  then have "CONTENT_EQUALITY_SIGN \<in> set (ended l)" by (auto simp: until_def dest: set_takeWhileD)
  then show eq: "CONTENT_EQUALITY_SIGN \<in> set l" by auto
  show sp: "l = until CONTENT_EQUALITY_SIGN l @ CONTENT_EQUALITY_SIGN # behind CONTENT_EQUALITY_SIGN l" by (rule split_first[OF eq])
  show nc: "CONTENT_COMMA_SIGN \<notin> set (until CONTENT_EQUALITY_SIGN l)"
  proof
    assume c: "CONTENT_COMMA_SIGN \<in> set (until CONTENT_EQUALITY_SIGN l)"
    then have "until CONTENT_COMMA_SIGN (ended l) = until CONTENT_COMMA_SIGN (until CONTENT_EQUALITY_SIGN l)"
      by (subst sp) (simp add: until_def takeWhile_append1)
    then have "CONTENT_EQUALITY_SIGN \<in> set (until CONTENT_EQUALITY_SIGN l)"
      using K(2) by (auto simp: until_def dest: set_takeWhileD)
    then show False using until_notin by blast
  qed
  have "until CONTENT_COMMA_SIGN (ended l) = until CONTENT_EQUALITY_SIGN l @ until CONTENT_COMMA_SIGN (CONTENT_EQUALITY_SIGN # behind CONTENT_EQUALITY_SIGN l @ [CONTENT_NEELINE_SIGN])"
    by (subst sp) (simp add: until_append[OF nc])
  then show "CONTENT_LEFT_BRACKET \<notin> set (until CONTENT_EQUALITY_SIGN l)" using K(1) by simp
qed

lemma trim_value:
  assumes v: "clean_value v" and bl: "\<forall>c \<in> set bl. is_blank c" and z: "is_blank_or_newline z"
  shows "trim_r is_blank_or_newline (dropWhile is_blank (bl @ v @ [z])) = v"
proof -
  have "dropWhile is_blank (bl @ v @ [z]) = v @ [z]"
    using v bl by (subst dropWhile_append2) (auto simp: clean_value_def neq_Nil_conv)
  moreover have "dropWhile is_blank_or_newline (rev v) = rev v"
    using v by (cases v rule: rev_cases) (auto simp: clean_value_def)
  ultimately show ?thesis using z by (simp add: trim_r_def)
qed

lemma start_line_meaning:
  assumes pl: "plain_line n l" and cl: "line_class (ended l) = LINE_KEYVALUE" and k: "key_text (ended l) \<noteq> []"
    and v: "clean_value v" and bl: "\<forall>c \<in> set bl. is_blank c"
    and t: "t = [CONTENT_NEELINE_SIGN] \<or> t = CONTENT_TAB_SIGN # CONTENT_COMMA_SIGN # x"
  defines "s \<equiv> until CONTENT_EQUALITY_SIGN l @ CONTENT_EQUALITY_SIGN # bl @ v @ t"
  shows "line_class s = LINE_KEYVALUE" "key_text s = key_text (ended l)" "value_text s = v"
proof -
  let ?U = "until CONTENT_EQUALITY_SIGN l"
  note S = key_line_split[OF pl cl]
  have uu: "until CONTENT_EQUALITY_SIGN (ended l) = ?U" by (rule ended_until(1)[OF S(1)])
  have us: "until CONTENT_EQUALITY_SIGN s = ?U"
    unfolding s_def using until_append[OF until_notin, of CONTENT_EQUALITY_SIGN l] by (simp add: until_def)
  then show key: "key_text s = key_text (ended l)" using uu by (simp add: key_text_def)
  have bh: "behind CONTENT_EQUALITY_SIGN s = bl @ v @ t" unfolding s_def by (rule behind_append[OF until_notin])
  have blc: "CONTENT_COMMA_SIGN \<notin> set bl" "CONTENT_LEFT_BRACKET \<notin> set bl" using bl by auto
  obtain z where z: "until CONTENT_COMMA_SIGN (bl @ v @ t) = bl @ v @ [z]" "is_blank_or_newline z" "z \<noteq> CONTENT_LEFT_BRACKET"
  proof (cases "t = [CONTENT_NEELINE_SIGN]")
    case True
    have "until CONTENT_COMMA_SIGN (bl @ v @ t) = bl @ v @ [CONTENT_NEELINE_SIGN]"
      using blc v True by (simp add: until_append clean_value_def) (simp add: until_def)
    then show thesis by (rule that) simp_all
  next
    case False
    then have "until CONTENT_COMMA_SIGN (bl @ v @ t) = bl @ v @ [CONTENT_TAB_SIGN]"
      using blc v t by (simp add: until_append clean_value_def) (simp add: until_def)
    then show thesis by (rule that) simp_all
  qed
  show "value_text s = v" unfolding value_text_def bh z(1) by (rule trim_value[OF v bl z(2)])
  have uc: "until CONTENT_COMMA_SIGN s = ?U @ CONTENT_EQUALITY_SIGN # bl @ v @ [z]"
    unfolding s_def until_append[OF S(3)] using z(1) by (simp add: until_def)
  have nb: "\<not> (\<exists>r. dropWhile is_blank s = CONTENT_NEELINE_SIGN # r)"
  proof
    assume "\<exists>r. dropWhile is_blank s = CONTENT_NEELINE_SIGN # r"
    moreover have "\<not> (\<forall>c \<in> set ?U. is_blank c)" using k key_text_Nil[of "ended l"] uu by simp
    ultimately obtain r where "dropWhile is_blank ?U @ CONTENT_EQUALITY_SIGN # bl @ v @ t = CONTENT_NEELINE_SIGN # r" "dropWhile is_blank ?U \<noteq> []"
      unfolding s_def by (auto simp: dropWhile_append1 dropWhile_eq_Nil_conv)
    then have "CONTENT_NEELINE_SIGN \<in> set ?U" by (metis append_is_Nil_conv hd_append2 hd_in_set list.sel(1) set_dropWhileD)
    then show False using pl by (auto simp: plain_line_def until_def dest: set_takeWhileD)
  qed
  show "line_class s = LINE_KEYVALUE"
    unfolding line_class_keyvalue_iff uc using nb S(4) blc(2) z(3) v by (auto simp: clean_value_def)
qed

lemma new_lines_cases:
  assumes "plain_line n l"
  obtains (plain) bl where "new_lines l v = [until CONTENT_EQUALITY_SIGN l @ CONTENT_EQUALITY_SIGN # bl @ v]"
      "bl = takeWhile is_blank (behind CONTENT_EQUALITY_SIGN l)" "CONTENT_COMMA_SIGN \<notin> set (behind CONTENT_EQUALITY_SIGN l)"
  | (comment) bl x where "new_lines l v = [until CONTENT_EQUALITY_SIGN l @ CONTENT_EQUALITY_SIGN # bl @ v @ CONTENT_TAB_SIGN # CONTENT_COMMA_SIGN # x, []]"
      "bl = takeWhile is_blank (behind CONTENT_EQUALITY_SIGN l)" "CONTENT_COMMA_SIGN \<in> set (behind CONTENT_EQUALITY_SIGN l)"
      "x = behind CONTENT_COMMA_SIGN (behind CONTENT_EQUALITY_SIGN l)"
  by (cases "CONTENT_COMMA_SIGN \<in> set (behind CONTENT_EQUALITY_SIGN l)") (auto simp: new_lines_def Let_def intro: that)

lemma blank_line: "line_effect (ended []) d = Some d"
  by (simp add: line_effect_def line_class_def)

text \<open>The new lines say what the old line said, with the new value.\<close>

lemma new_lines_effect:
  assumes pl: "plain_line n l" and cl: "line_class (ended l) = LINE_KEYVALUE" and k: "key_text (ended l) \<noteq> []" and v: "clean_value v"
    and d: "d \<noteq> []" "key_text (ended l) \<notin> fst ` set (snd (last d))"
  shows "parse_lines (map ended (new_lines l v)) d =
    Some (butlast d @ [(fst (last d), snd (last d) @ [(key_text (ended l), v)])])"
proof (cases rule: new_lines_cases[OF pl, of v])
  case (1 bl)
  have "\<forall>c \<in> set bl. is_blank c" unfolding 1(2) by (auto dest: set_takeWhileD)
  note M = start_line_meaning[OF pl cl k v this, of "[CONTENT_NEELINE_SIGN]" "[]"]
  show ?thesis unfolding 1(1) using M d k v by (simp add: line_effect_def keyvalue_effect_def clean_value_def)
next
  case (2 bl x)
  have "\<forall>c \<in> set bl. is_blank c" unfolding 2(2) by (auto dest: set_takeWhileD)
  note M = start_line_meaning[OF pl cl k v this, of "CONTENT_TAB_SIGN # CONTENT_COMMA_SIGN # ended x" "ended x"]
  show ?thesis unfolding 2(1) using M d k v blank_line by (simp add: line_effect_def keyvalue_effect_def clean_value_def)
qed

lemma takeWhile_length_mono: "(\<And>x. P x \<Longrightarrow> Q x) \<Longrightarrow> length (takeWhile P xs) \<le> length (takeWhile Q xs)"
  by (induction xs) auto

lemma new_lines_plain:
  assumes pl: "plain_line (length v + 5) l" and eq: "CONTENT_EQUALITY_SIGN \<in> set l" and v: "clean_value v" and m: "m \<in> set (new_lines l v)"
  shows "plain_line 1 m"
proof -
  let ?r = "behind CONTENT_EQUALITY_SIGN l"
  have s: "l = until CONTENT_EQUALITY_SIGN l @ CONTENT_EQUALITY_SIGN # ?r" by (rule split_first[OF eq])
  have sub: "set (until CONTENT_EQUALITY_SIGN l) \<subseteq> set l" "set ?r \<subseteq> set l" "set (takeWhile is_blank ?r) \<subseteq> set ?r"
    by (auto simp: until_def dest: set_takeWhileD behind_set)
  have len: "length l = length (until CONTENT_EQUALITY_SIGN l) + 1 + length ?r" by (subst s) simp
  show ?thesis
  proof (cases rule: new_lines_cases[OF pl, of v])
    case (1 bl)
    have "length bl \<le> length ?r" unfolding 1(2) by (rule length_takeWhile_le)
    moreover have "c \<notin> set (until CONTENT_EQUALITY_SIGN l) \<and> c \<notin> set bl" if "c \<notin> set l" for c using that sub 1(2) by blast
    ultimately show ?thesis using m 1(1) pl v len by (auto simp: plain_line_def clean_value_def)
  next
    case (2 bl x)
    have rx: "?r = until CONTENT_COMMA_SIGN ?r @ CONTENT_COMMA_SIGN # x" unfolding 2(4) by (rule split_first[OF 2(3)])
    have "set x \<subseteq> set l" unfolding 2(4) by (auto dest!: behind_set)
    moreover have "length bl + 1 + length x \<le> length ?r"
    proof -
      have "length bl \<le> length (until CONTENT_COMMA_SIGN ?r)"
        unfolding 2(2) until_def by (rule takeWhile_length_mono) auto
      then show ?thesis using arg_cong[OF rx, of length] by simp
    qed
    moreover have "c \<notin> set (until CONTENT_EQUALITY_SIGN l) \<and> c \<notin> set bl" if "c \<notin> set l" for c using that sub 2(2) by blast
    ultimately show ?thesis using m 2(1) pl v len by (auto simp: plain_line_def clean_value_def size_defs)
  qed
qed

section \<open>The rewriting loop\<close>

lemma take_map_byte_at:
  assumes "n \<le> length s"
  shows "map (byte_at (fgets_into [] s)) [0..<n] = take n s"
  by (rule nth_equalityI) (use assms in \<open>auto simp: byte_at_fresh\<close>)

lemma drop_fresh: "n \<le> length s \<Longrightarrow> drop n (fgets_into [] s) = drop n s @ [NUL]"
  by (simp add: fgets_into_zero)

lemma skip_blanks_line: "skip_blanks (l @ CONTENT_NEELINE_SIGN # t) = length (takeWhile is_blank l)"
  by (induction l) auto

lemma updated_line_eq:
  assumes pl: "plain_line (length v + 5) l" and cl: "line_class (ended l) = LINE_KEYVALUE"
    and e: "first_index (\<lambda>x. x = CONTENT_EQUALITY_SIGN) (ended l) = Some e"
    and v: "take (nat vl) (cstr vs) = v" and cv: "clean_value v"
  shows "updated_line (fgets_into [] (ended l)) e vs vl = Some (text_of (new_lines l v))"
proof -
  note S = key_line_split[OF pl cl]
  let ?U = "until CONTENT_EQUALITY_SIGN l" and ?r = "behind CONTENT_EQUALITY_SIGN l"
  let ?line = "fgets_into [] (ended l)"
  have E: "e = length ?U" "e < length l"
  proof -
    have "?U = take e (ended l)" using until_take[OF e] ended_until(1)[OF S(1)] by simp
    then show "e = length ?U" using first_index_SomeD[OF e] by simp
    then show "e < length l" by (subst S(2)) simp
  qed
  let ?bl = "takeWhile is_blank ?r"
  let ?p = "e + 1 + length ?bl"
  have d1: "drop (e + 1) (ended l) = ended ?r" unfolding E(1) by (subst S(2)) simp
  have sk: "skip_blanks (drop (e + 1) ?line) = length ?bl"
    using drop_fresh[of "e + 1" "ended l"] E(2) d1 by (simp add: skip_blanks_line)
  have pr: "length ?bl \<le> length ?r" by (rule length_takeWhile_le)
  have len: "length l = length ?U + 1 + length ?r" by (subst S(2)) simp
  have l': "ended l = (?U @ CONTENT_EQUALITY_SIGN # ?bl) @ ended (dropWhile is_blank ?r)"
    using S(2) takeWhile_dropWhile_id[of is_blank ?r] by (metis append.assoc append_Cons)
  have lp: "?p = length (?U @ CONTENT_EQUALITY_SIGN # ?bl)" using E(1) by simp
  have tk: "take ?p (ended l) = ?U @ CONTENT_EQUALITY_SIGN # ?bl" by (metis l' lp append_eq_conv_conj)
  have d2: "drop ?p (ended l) = ended (dropWhile is_blank ?r)" by (metis l' lp append_eq_conv_conj)
  have nn: "NUL \<notin> set (ended l)" using pl by (simp add: plain_line_def)
  have ml: "cstr (map (byte_at ?line) [0..<?p]) = ?U @ CONTENT_EQUALITY_SIGN # ?bl"
  proof -
    have "?p \<le> length (ended l)" using len pr E(1) by simp
    then have "map (byte_at ?line) [0..<?p] = take ?p (ended l)" by (rule take_map_byte_at)
    moreover have "NUL \<notin> set (take ?p (ended l))" using nn by (meson in_set_takeD)
    ultimately show ?thesis using tk cstr_no_NUL by metis
  qed
  have dl: "drop ?p ?line = ended (dropWhile is_blank ?r) @ [NUL]"
    using drop_fresh[of ?p "ended l"] d2 len pr E(1) by simp
  have nr: "NUL \<notin> set (ended (dropWhile is_blank ?r))" using nn d2 by (metis in_set_dropD)
  have fi: "str_frist_constchar (Some (drop ?p ?line)) CONTENT_COMMA_SIGN = first_index (\<lambda>x. x = CONTENT_COMMA_SIGN) (ended (dropWhile is_blank ?r))"
    unfolding str_frist_constchar_Some dl using nr by (simp add: cstr_append_no_NUL cstr_no_NUL)
  let ?start = "?U @ CONTENT_EQUALITY_SIGN # ?bl @ v"
  have lim: "length l + (length v + 5) < INIFILE_MAX_CONTENT_LINELEN" using pl by (simp add: plain_line_def)
  have cm: "CONTENT_COMMA_SIGN \<in> set (dropWhile is_blank ?r) \<longleftrightarrow> CONTENT_COMMA_SIGN \<in> set ?r"
  proof -
    have "CONTENT_COMMA_SIGN \<notin> set ?bl" by (auto dest: set_takeWhileD)
    then show ?thesis by (metis Un_iff set_append takeWhile_dropWhile_id)
  qed
  show ?thesis
  proof (cases "CONTENT_COMMA_SIGN \<in> set ?r")
    case False
    then have "first_index (\<lambda>x. x = CONTENT_COMMA_SIGN) (ended (dropWhile is_blank ?r)) = None"
      using cm by (auto simp: first_index_None)
    then show ?thesis
      unfolding updated_line_def Let_def sk ml v fi using False lim len pr
      by (simp add: in_line_def new_lines_def Let_def)
  next
    case True
    let ?x = "behind CONTENT_COMMA_SIGN ?r"
    have bx: "behind CONTENT_COMMA_SIGN (dropWhile is_blank ?r) = ?x"
    proof -
      have nb: "CONTENT_COMMA_SIGN \<notin> set ?bl" by (auto dest: set_takeWhileD)
      have "?r = ?bl @ until CONTENT_COMMA_SIGN (dropWhile is_blank ?r) @ CONTENT_COMMA_SIGN # behind CONTENT_COMMA_SIGN (dropWhile is_blank ?r)"
        using split_first[of CONTENT_COMMA_SIGN "dropWhile is_blank ?r"] True cm by (metis takeWhile_dropWhile_id)
      then show ?thesis
        using behind_append[of CONTENT_COMMA_SIGN "?bl @ until CONTENT_COMMA_SIGN (dropWhile is_blank ?r)"] nb until_notin
        by (metis Un_iff append.assoc set_append)
    qed
    obtain c where c: "first_index (\<lambda>x. x = CONTENT_COMMA_SIGN) (ended (dropWhile is_blank ?r)) = Some c"
      using True cm by (cases "first_index (\<lambda>x. x = CONTENT_COMMA_SIGN) (ended (dropWhile is_blank ?r))") (auto simp: first_index_None)
    note C = first_index_SomeD[OF c]
    have "drop c (ended (dropWhile is_blank ?r)) = CONTENT_COMMA_SIGN # ended ?x"
    proof -
      have "drop (Suc c) (ended (dropWhile is_blank ?r)) = ended ?x"
        using behind_drop[OF c] ended_until(2)[of CONTENT_COMMA_SIGN "dropWhile is_blank ?r"] True cm bx by simp
      then show ?thesis using C by (metis Cons_nth_drop_Suc)
    qed
    then have dc: "cstr (drop (?p + c) ?line) = CONTENT_COMMA_SIGN # ended ?x"
    proof -
      have "drop (?p + c) ?line = CONTENT_COMMA_SIGN # ended ?x @ [NUL]"
        using dl C \<open>drop c (ended (dropWhile is_blank ?r)) = CONTENT_COMMA_SIGN # ended ?x\<close>
        by (metis (no_types, lifting) add.commute append_Cons drop_append drop_drop less_imp_le_nat diff_is_0_eq' drop0)
      moreover have "NUL \<notin> set (CONTENT_COMMA_SIGN # ended ?x)"
        using nr \<open>drop c (ended (dropWhile is_blank ?r)) = CONTENT_COMMA_SIGN # ended ?x\<close> by (metis in_set_dropD)
      ultimately show ?thesis by (metis append_Cons cstr_append_no_NUL cstr_simps(1) cstr_simps(2) append_Nil2)
    qed
    have lx: "length ?bl + 1 + length ?x \<le> length ?r"
    proof -
      have "length ?bl \<le> length (until CONTENT_COMMA_SIGN ?r)" unfolding until_def by (rule takeWhile_length_mono) auto
      then show ?thesis using arg_cong[OF split_first[OF True], of length] by simp
    qed
    show ?thesis
      unfolding updated_line_def Let_def sk ml v fi c option.case dc using True lim len lx
      by (simp add: in_line_def new_lines_def Let_def)
  qed
qed

text \<open>The parameter block that reaches the loop names the section \<open>a\<close>, the key \<open>b\<close> and the value \<open>v\<close>.\<close>

definition names_section :: "INI_PARAMETER \<Rightarrow> string \<Rightarrow> bool" where
  "names_section par a \<longleftrightarrow> (\<exists>s. par_section par = Some s \<and> take (length a) (s @ [NUL]) = a \<and> length a \<le> length s + 1) \<and>
     par_section_len par = int (length a)"

definition names_key :: "INI_PARAMETER \<Rightarrow> string \<Rightarrow> bool" where
  "names_key par b \<longleftrightarrow> (\<exists>k. par_key par = Some k \<and> take (length b) (k @ [NUL]) = b \<and> length b \<le> length k + 1) \<and>
     par_key_len par = int (length b)"

definition names_value :: "INI_PARAMETER \<Rightarrow> string \<Rightarrow> bool" where
  "names_value par v \<longleftrightarrow> (\<exists>x. par_value par = Some x \<and> take (nat (par_value_len par)) (cstr x) = v)"

lemma chunk_line:
  assumes "plain_line n l"
  shows "cstr (fgets_into [] (ended l)) = ended l"
    "str_frist_constchar (Some (fgets_into [] (ended l))) c = first_index (\<lambda>x. x = c) (ended l)"
    "judge_ini_file_linetype (fgets_into [] (ended l)) = line_class (ended l)"
    "skip_blanks (fgets_into [] (ended l)) = skip_blanks (ended l)"
proof -
  have n: "NUL \<notin> set (ended l)" using assms by (simp add: plain_line_def)
  then show c: "cstr (fgets_into [] (ended l)) = ended l" by (simp add: fgets_into_zero cstr_append_no_NUL)
  then show "str_frist_constchar (Some (fgets_into [] (ended l))) c = first_index (\<lambda>x. x = c) (ended l)"
    "judge_ini_file_linetype (fgets_into [] (ended l)) = line_class (ended l)"
    by (simp_all add: str_frist_constchar_Some judge_eq_line_class_aux)
  show "skip_blanks (fgets_into [] (ended l)) = skip_blanks (ended l)"
    using skip_blanks_line[of l "[NUL]"] skip_blanks_line[of l "[]"] by (simp add: fgets_into_zero)
qed

lemma section_line_match:
  assumes pl: "plain_line (length a + 1) l" and ok: "section_ok (ended l)" and a: "CONTENT_RIGHT_BRACKET \<notin> set a"
    and par: "names_section par a"
  shows "\<exists>c m. first_index (\<lambda>x. x = CONTENT_LEFT_BRACKET) (ended l) = Some c \<and>
    match_at (fgets_into [] (ended l)) (c + 1) (the (par_section par)) (par_section_len par) stop_section = Some m \<and>
    (m = Some 0 \<longleftrightarrow> section_text (ended l) = a)"
proof -
  have "CONTENT_LEFT_BRACKET \<in> set (ended l)" using ok by (auto simp: section_ok_def until_def dest: set_takeWhileD)
  then obtain c where c: "first_index (\<lambda>x. x = CONTENT_LEFT_BRACKET) (ended l) = Some c"
    by (cases "first_index (\<lambda>x. x = CONTENT_LEFT_BRACKET) (ended l)") (auto simp: first_index_None)
  have "c < length l" using first_index_SomeD[OF c] by (auto simp: nth_append split: if_splits)
  then have "c + 1 + length a < INIFILE_MAX_CONTENT_LINELEN" using pl by (simp add: plain_line_def)
  then show ?thesis
    using match_at_ok[of a "the (par_section par)" stop_section "c + 1" "ended l"] par c section_matches[OF c ok a]
    by (auto simp: names_section_def stop_section_def)
qed

lemma key_line_match:
  assumes pl: "plain_line (length b + 1) l" and cl: "line_class (ended l) = LINE_KEYVALUE" and k: "key_text (ended l) \<noteq> []"
    and b: "clean_key b" and par: "names_key par b"
  shows "\<exists>e m. first_index (\<lambda>x. x = CONTENT_EQUALITY_SIGN) (ended l) = Some e \<and>
    match_at (fgets_into [] (ended l)) (skip_blanks (ended l)) (the (par_key par)) (par_key_len par) stop_key = Some m \<and>
    (m = Some 0 \<longleftrightarrow> key_text (ended l) = b \<or> blank_extension b (key_text (ended l)))"
proof -
  have eq: "CONTENT_EQUALITY_SIGN \<in> set (ended l)" using key_line_split(1)[OF pl cl] by simp
  then obtain e where e: "first_index (\<lambda>x. x = CONTENT_EQUALITY_SIGN) (ended l) = Some e"
    by (cases "first_index (\<lambda>x. x = CONTENT_EQUALITY_SIGN) (ended l)") (auto simp: first_index_None)
  have "skip_blanks (ended l) \<le> length l" using skip_blanks_line[of l "[]"] length_takeWhile_le[of is_blank l] by simp
  then have "skip_blanks (ended l) + length b < INIFILE_MAX_CONTENT_LINELEN" using pl by (simp add: plain_line_def)
  then show ?thesis
    using match_at_ok[of b "the (par_key par)" stop_key "skip_blanks (ended l)" "ended l"] par e key_matches[OF eq k b]
    by (auto simp: names_key_def stop_key_def)
qed

lemma update_step_section:
  assumes "plain_line (length a + 1) l" "section_ok (ended l)" "CONTENT_RIGHT_BRACKET \<notin> set a" "names_section par a"
    and "line_class (ended l) = LINE_SECTION"
  shows "update_step par (f, 0) (ended l) = Some (Inr ((if section_text (ended l) = a then 1 else f, 0), ended l))"
  using section_line_match[OF assms(1-4)] assms(5) chunk_line[OF assms(1)]
  by (auto simp: update_step_def Let_def)

lemma update_step_keyvalue:
  assumes pl: "plain_line (length b + length v + 5) l" and k: "key_text (ended l) \<noteq> []" and b: "clean_key b" "names_key par b"
    and v: "names_value par v" "clean_value v" and cl: "line_class (ended l) = LINE_KEYVALUE"
  shows "update_step par (1, 0) (ended l) =
    (if key_text (ended l) = b \<or> blank_extension b (key_text (ended l))
     then Some (Inr ((1, 1), text_of (new_lines l v))) else Some (Inr ((1, 0), ended l)))"
proof -
  have p1: "plain_line (length b + 1) l" and p2: "plain_line (length v + 5) l" using pl by (auto intro: plain_mono)
  obtain e m where e: "first_index (\<lambda>x. x = CONTENT_EQUALITY_SIGN) (ended l) = Some e"
    and m: "match_at (fgets_into [] (ended l)) (skip_blanks (ended l)) (the (par_key par)) (par_key_len par) stop_key = Some m"
      "m = Some 0 \<longleftrightarrow> key_text (ended l) = b \<or> blank_extension b (key_text (ended l))"
    using key_line_match[OF p1 cl k b] by blast
  have "updated_line (fgets_into [] (ended l)) e (the (par_value par)) (par_value_len par) = Some (text_of (new_lines l v))"
    using v(1) updated_line_eq[OF p2 cl e _ v(2)] by (auto simp: names_value_def)
  then show ?thesis using e m cl chunk_line[OF pl] by (auto simp: update_step_def Let_def)
qed

lemma update_step_other:
  assumes "plain_line n l" "line_class (ended l) = LINE_NOTE \<or> line_class (ended l) = LINE_BLANK \<or> line_class (ended l) = LINE_KEYVALUE \<and> f = 0"
  shows "update_step par (f, 0) (ended l) = Some (Inr ((f, 0), ended l))"
  using assms(2) chunk_line[OF assms(1)] by (auto simp: update_step_def Let_def)

lemma update_loop_done:
  assumes "\<And>l. l \<in> set ls \<Longrightarrow> plain_line 1 l"
  shows "copy_loop (update_step par) (f, Suc m) (map ended ls) = Some (None, (f, Suc m), text_of ls)"
  using assms
proof (induction ls)
  case (Cons l ls)
  have "update_step par (f, Suc m) (ended l) = Some (Inr ((f, Suc m), ended l))"
    using chunk_line[OF Cons.prems[of l]] by (auto simp: update_step_def Let_def)
  with Cons show ?case by simp
qed simp

text \<open>What the loop achieves from a state in which the document read so far is \<open>d\<close>.\<close>

definition update_result :: "INI_PARAMETER \<Rightarrow> nat \<Rightarrow> string list \<Rightarrow> ini_doc \<Rightarrow> ini_doc \<Rightarrow> bool" where
  "update_result par f ls d D' \<longleftrightarrow> (\<exists>st ls'. copy_loop (update_step par) (f, 0) (map ended ls) = Some (None, st, text_of ls') \<and>
     (\<forall>l \<in> set ls'. plain_line 1 l) \<and> parse_lines (map ended ls') d = Some D')"

lemma update_result_keep:
  assumes "update_step par (f, 0) (ended l) = Some (Inr ((f', 0), ended l))" and "line_effect (ended l) d = Some d'"
    and "plain_line 1 l" and "update_result par f' ls d' D'"
  shows "update_result par f (l # ls) d D'"
proof -
  obtain st ls' where "copy_loop (update_step par) (f', 0) (map ended ls) = Some (None, st, text_of ls')"
    "\<forall>l \<in> set ls'. plain_line 1 l" "parse_lines (map ended ls') d' = Some D'"
    using assms(4) by (auto simp: update_result_def)
  then show ?thesis unfolding update_result_def using assms(1-3)
    by (intro exI[of _ st] exI[of _ "l # ls'"]) simp
qed

text \<open>The facts about the request that the whole loop shares.\<close>

definition update_request :: "INI_PARAMETER \<Rightarrow> string \<Rightarrow> string \<Rightarrow> string \<Rightarrow> bool" where
  "update_request par a b v \<longleftrightarrow> names_section par a \<and> names_key par b \<and> names_value par v \<and>
     CONTENT_RIGHT_BRACKET \<notin> set a \<and> clean_key b \<and> clean_value v"

text \<open>No key of section \<open>a\<close> is \<open>b\<close> followed by a blank.\<close>

definition unambiguous :: "string \<Rightarrow> string \<Rightarrow> ini_doc \<Rightarrow> bool" where
  "unambiguous a b D \<longleftrightarrow> (case map_of D a of None \<Rightarrow> True | Some kvs \<Rightarrow> (\<forall>K \<in> fst ` set kvs. \<not> blank_extension b K))"

lemma map_of_append_notin: "a \<notin> fst ` set xs \<Longrightarrow> map_of (xs @ ys) a = map_of ys a"
  by (auto simp: map_add_def map_of_eq_None_iff[THEN iffD2] split: option.splits)

lemma parse_lines_append: "parse_lines (xs @ ys) d = Option.bind (parse_lines xs d) (parse_lines ys)"
  by (induction xs arbitrary: d) (auto split: option.splits)

text \<open>Inside section \<open>a\<close>, ahead of key \<open>b\<close>.\<close>

lemma update_key_line:
  assumes rq: "update_request par a b v" and ls: "\<And>m. m \<in> set (l # ls) \<Longrightarrow> plain_line (length a + length b + length v + 5) m"
    and cl: "line_class (ended l) = LINE_KEYVALUE" and key: "key_text (ended l) = b" and k: "b \<noteq> []"
    and d: "d \<noteq> []" "fst (last d) = a" "a \<notin> fst ` set (butlast d)" "b \<notin> fst ` set (snd (last d))"
    and ef: "line_effect (ended l) d = Some d'" and ps: "parse_lines (map ended ls) d' = Some D"
  shows "update_result par 1 (l # ls) d (doc_update a b v D)"
proof -
  have R: "clean_key b" "names_key par b" "names_value par v" "clean_value v" using rq by (auto simp: update_request_def)
  have p: "plain_line (length b + length v + 5) l" "plain_line (length v + 5) l" using ls[of l] by (auto intro: plain_mono)
  have st: "update_step par (1, 0) (ended l) = Some (Inr ((1, 1), text_of (new_lines l v)))"
    using update_step_keyvalue[OF p(1) _ R cl] key k by simp
  have dn: "copy_loop (update_step par) (1, 1) (map ended ls) = Some (None, (1, 1), text_of ls)"
    using update_loop_done[of ls par 1 0] ls plain_mono[OF ls, of _ 1] by simp
  obtain e k0 where de: "d = e @ [(a, k0)]" using d(1,2) by (metis append_butlast_last_id surj_pair fst_conv)
  have d': "d' = e @ [(a, k0 @ [(b, value_text (ended l))])]"
    using ef cl key unfolding line_effect_def keyvalue_effect_def by (auto simp: de split: if_splits)
  have upd: "doc_update a b v d' = e @ [(a, k0 @ [(b, v)])]"
    using d(3,4) unfolding d' doc_update_def by (simp add: de map_entry_append_notin)
  have got: "doc_get a b d' \<noteq> None" using d(3) unfolding d' doc_get_mem by (auto simp: de map_of_append_notin simp del: map_of_append)
  have "parse_lines (map ended (new_lines l v)) d = Some (doc_update a b v d')"
    using new_lines_effect[OF p(1) cl _ R(4) d(1)] d(4) key k unfolding upd by (simp add: de)
  then have "parse_lines (map ended (new_lines l v @ ls)) d = Some (doc_update a b v D)"
    using parse_lines_update[OF got ps] by (simp add: parse_lines_append)
  moreover have "plain_line 1 m" if "m \<in> set (new_lines l v @ ls)" for m
    using that new_lines_plain[OF p(2) key_line_split(1)[OF p(1) cl] R(4)] plain_mono[OF ls, of m 1] by auto
  moreover have "copy_loop (update_step par) (1, 0) (map ended (l # ls)) = Some (None, (1, 1), text_of (new_lines l v @ ls))"
    using st dn by (simp add: text_of_append)
  ultimately show ?thesis unfolding update_result_def by blast
qed

lemma update_inside:
  assumes rq: "update_request par a b v" and un: "unambiguous a b D" and got: "doc_get a b D \<noteq> None"
  shows "(\<And>l. l \<in> set ls \<Longrightarrow> plain_line (length a + length b + length v + 5) l) \<Longrightarrow>
    d \<noteq> [] \<Longrightarrow> fst (last d) = a \<Longrightarrow> a \<notin> fst ` set (butlast d) \<Longrightarrow> b \<notin> fst ` set (snd (last d)) \<Longrightarrow>
    parse_lines (map ended ls) d = Some D \<Longrightarrow> update_result par 1 ls d (doc_update a b v D)"
proof (induction ls arbitrary: d)
  case Nil
  then obtain e k0 where "D = e @ [(a, k0)]" by (simp, metis append_butlast_last_id surj_pair fst_conv)
  with Nil have "doc_get a b D = None" by (auto simp: doc_get_def map_of_append_notin map_of_eq_None_iff simp del: map_of_append)
  with got show ?case by simp
next
  case (Cons l ls)
  obtain e k0 where de: "d = e @ [(a, k0)]" using Cons.prems(2,3) by (metis append_butlast_last_id surj_pair fst_conv)
  have ae: "a \<notin> fst ` set e" "b \<notin> fst ` set k0" using Cons.prems(4,5) by (auto simp: de)
  obtain d' where ef: "line_effect (ended l) d = Some d'" and ps: "parse_lines (map ended ls) d' = Some D"
    using Cons.prems(6) by (auto split: option.splits)
  have R: "clean_key b" "names_key par b" "names_value par v" "clean_value v" "CONTENT_RIGHT_BRACKET \<notin> set a" "names_section par a"
    using rq by (auto simp: update_request_def)
  have pl: "plain_line (length a + length b + length v + 5) l" using Cons.prems(1) by simp
  then have p: "plain_line (length b + length v + 5) l" "plain_line 1 l" by (auto intro: plain_mono)
  have tl: "\<And>l. l \<in> set ls \<Longrightarrow> plain_line (length a + length b + length v + 5) l" using Cons.prems(1) by simp
  show ?case
  proof (cases "line_class (ended l)")
    case LINE_SECTION
    then have "d' = d @ [(section_text (ended l), [])]" using ef by (auto simp: line_effect_def section_effect_def split: if_splits)
    then obtain x where "D = d @ x" using parse_lines_butlast[OF ps] by auto
    then have "map_of D a = Some k0" using ae by (simp add: de map_of_append_notin del: map_of_append)
    with ae(2) have "doc_get a b D = None" by (simp add: doc_get_def map_of_eq_None_iff)
    with got show ?thesis by simp
  next
    case LINE_KEYVALUE
    let ?K = "key_text (ended l)"
    have d': "d' = e @ [(a, k0 @ [(?K, value_text (ended l))])]" and K: "?K \<noteq> []"
      using ef LINE_KEYVALUE unfolding line_effect_def keyvalue_effect_def by (auto simp: de split: if_splits)
    show ?thesis
    proof (cases "?K = b")
      case True
      then show ?thesis using update_key_line[OF rq _ LINE_KEYVALUE True _ Cons.prems(2-5) ef ps] Cons.prems(1) K by blast
    next
      case False
      have "map_of d' a = Some (k0 @ [(?K, value_text (ended l))])" using ae by (simp add: d' map_of_append_notin del: map_of_append)
      then obtain z where "map_of D a = Some (k0 @ [(?K, value_text (ended l))] @ z)" using parse_lines_persist[OF ps] by fastforce
      then have "\<not> blank_extension b ?K" using un by (simp add: unambiguous_def)
      then have "update_step par (1, 0) (ended l) = Some (Inr ((1, 0), ended l))"
        using update_step_keyvalue[OF p(1) K R(1-4) LINE_KEYVALUE] False by simp
      moreover have "update_result par 1 ls d' (doc_update a b v D)"
        using Cons.IH[OF tl _ _ _ _ ps] ae False by (simp add: d')
      ultimately show ?thesis by (rule update_result_keep[OF _ ef p(2)])
    qed
  next
    case LINE_ERROR
    then show ?thesis using ef by (simp add: line_effect_def)
  next
    case LINE_NOTE
    then have "d' = d" using ef by (simp add: line_effect_def)
    then show ?thesis using update_step_other[OF p(2), of 1 par] LINE_NOTE Cons.IH[OF tl Cons.prems(2-5)] ps
      by (intro update_result_keep[OF _ ef p(2)]) auto
  next
    case LINE_BLANK
    then have "d' = d" using ef by (simp add: line_effect_def)
    then show ?thesis using update_step_other[OF p(2), of 1 par] LINE_BLANK Cons.IH[OF tl Cons.prems(2-5)] ps
      by (intro update_result_keep[OF _ ef p(2)]) auto
  qed
qed

text \<open>Ahead of section \<open>a\<close>.\<close>

lemma update_outside:
  assumes rq: "update_request par a b v" and un: "unambiguous a b D" and got: "doc_get a b D \<noteq> None"
  shows "(\<And>l. l \<in> set ls \<Longrightarrow> plain_line (length a + length b + length v + 5) l) \<Longrightarrow> a \<notin> fst ` set d \<Longrightarrow>
    parse_lines (map ended ls) d = Some D \<Longrightarrow> update_result par 0 ls d (doc_update a b v D)"
proof (induction ls arbitrary: d)
  case Nil
  then have "map_of D a = None" by (simp add: map_of_eq_None_iff)
  with got show ?case by (simp add: doc_get_def)
next
  case (Cons l ls)
  obtain d' where ef: "line_effect (ended l) d = Some d'" and ps: "parse_lines (map ended ls) d' = Some D"
    using Cons.prems(3) by (auto split: option.splits)
  have R: "CONTENT_RIGHT_BRACKET \<notin> set a" "names_section par a" using rq by (auto simp: update_request_def)
  have pl: "plain_line (length a + length b + length v + 5) l" using Cons.prems(1) by simp
  then have p: "plain_line (length a + 1) l" "plain_line 1 l" by (auto intro: plain_mono)
  have tl: "\<And>l. l \<in> set ls \<Longrightarrow> plain_line (length a + length b + length v + 5) l" using Cons.prems(1) by simp
  show ?case
  proof (cases "line_class (ended l)")
    case LINE_SECTION
    then have ok: "section_ok (ended l)" and d': "d' = d @ [(section_text (ended l), [])]"
      using ef by (auto simp: line_effect_def section_effect_def split: if_splits)
    note st = update_step_section[OF p(1) ok R LINE_SECTION, of 0]
    have "update_result par (if section_text (ended l) = a then 1 else 0) ls d' (doc_update a b v D)"
      using update_inside[OF rq un got tl _ _ _ _ ps] Cons.IH[OF tl _ ps] Cons.prems(2) by (auto simp: d')
    then show ?thesis by (rule update_result_keep[OF st ef p(2)])
  next
    case LINE_KEYVALUE
    then have "fst ` set d' = fst ` set d"
      using ef by (cases d rule: rev_cases) (auto simp: line_effect_def keyvalue_effect_def split: if_splits)
    then have "update_result par 0 ls d' (doc_update a b v D)" using Cons.IH[OF tl _ ps] Cons.prems(2) by simp
    then show ?thesis using update_step_other[OF p(2), of 0 par] LINE_KEYVALUE by (intro update_result_keep[OF _ ef p(2)]) auto
  next
    case LINE_ERROR
    then show ?thesis using ef by (simp add: line_effect_def)
  next
    case LINE_NOTE
    then have "d' = d" using ef by (simp add: line_effect_def)
    then show ?thesis using update_step_other[OF p(2), of 0 par] LINE_NOTE Cons.IH[OF tl Cons.prems(2)] ps
      by (intro update_result_keep[OF _ ef p(2)]) auto
  next
    case LINE_BLANK
    then have "d' = d" using ef by (simp add: line_effect_def)
    then show ?thesis using update_step_other[OF p(2), of 0 par] LINE_BLANK Cons.IH[OF tl Cons.prems(2)] ps
      by (intro update_result_keep[OF _ ef p(2)]) auto
  qed
qed

section \<open>The file after an update\<close>

text \<open>A parameter block whose three strings are \<open>a\<close>, \<open>b\<close> and \<open>v\<close>.\<close>

definition update_args :: "INI_PARAMETER \<Rightarrow> string \<Rightarrow> string \<Rightarrow> string \<Rightarrow> bool" where
  "update_args par a b v \<longleftrightarrow> (\<exists>s k x. par_section par = Some s \<and> par_key par = Some k \<and> par_value par = Some x \<and>
     arg_ok s (par_section_len par) \<and> arg_ok k (par_key_len par) \<and> arg_ok x (par_value_len par) \<and>
     a = arg_string s (par_section_len par) \<and> b = arg_string k (par_key_len par) \<and> v = arg_string x (par_value_len par))"

lemma take_cstr: "NUL \<notin> set (take n x) \<Longrightarrow> take n (cstr x) = take n x"
  by (induction x arbitrary: n) (auto simp: cstr_def take_Cons' split: if_splits)

lemma arg_string_value:
  assumes "arg_ok x len" and "NUL \<notin> set (arg_string x len)"
  shows "take (nat (if len \<le> 0 then int (str_int_len (Some x)) else len)) (cstr x) = arg_string x len"
proof (cases "len \<le> 0")
  case False
  then have t: "arg_string x len = take (nat len) (x @ [NUL])" by (simp add: arg_string_def)
  have "take (nat len) (x @ [NUL]) = take (nat len) x"
    using assms(2) unfolding t by (cases "nat len \<le> length x") auto
  moreover have "NUL \<notin> set (take (nat len) x)" using assms(2) calculation t by simp
  then have "take (nat len) (cstr x) = take (nat len) x" by (rule take_cstr)
  ultimately show ?thesis using False t by simp
qed (simp add: arg_string_def)

lemma update_args_request:
  assumes "update_args par a b v" "CONTENT_RIGHT_BRACKET \<notin> set a" "clean_key b" "clean_value v"
  shows "update_request (fill_value_len (fill_key_len (fill_section_len par))) a b v"
proof -
  obtain s k x where P: "par_section par = Some s" "par_key par = Some k" "par_value par = Some x"
    "arg_ok s (par_section_len par)" "arg_ok k (par_key_len par)" "arg_ok x (par_value_len par)"
    "a = arg_string s (par_section_len par)" "b = arg_string k (par_key_len par)" "v = arg_string x (par_value_len par)"
    using assms(1) by (auto simp: update_args_def)
  have "NUL \<notin> set (arg_string x (par_value_len par))" using assms(4) P(9) by (simp add: clean_value_def)
  note V = arg_string_value[OF P(6) this] and S = arg_string_take[OF P(4)] and K = arg_string_take[OF P(5)]
  show ?thesis
    unfolding update_request_def names_section_def names_key_def names_value_def
    using assms(2-4) P(1-3) S K V unfolding P(7-9)
    by (auto simp: fill_section_len_def fill_key_len_def fill_value_len_def split: if_splits)
qed

text \<open>
  \<^verbatim>\<open>rewrite_after_update\<close> on a well-formed file that has the key: it succeeds, the new file is again a
  list of lines, and it parses to the updated document.
\<close>

lemma rewrite_after_update_ok:
  assumes rw: "rewritable filename fs" and tx: "fs_files fs filename = Some (text_of ls)"
    and ls: "\<And>l. l \<in> set ls \<Longrightarrow> plain_line (length a + length b + length v + 5) l"
    and D: "parse_text (text_of ls) = Some D" and got: "doc_get a b D \<noteq> None" and un: "unambiguous a b D"
    and args: "update_args par a b v" "CONTENT_RIGHT_BRACKET \<notin> set a" "clean_key b" "clean_value v"
  shows "\<exists>par' fs' content. rewrite_after_update filename par fs = Some (0, par', fs') \<and>
    replaced filename content fs fs' \<and> parse_text content = Some (doc_update a b v D)"
proof -
  let ?par = "fill_value_len (fill_key_len (fill_section_len par))"
  have p1: "plain_line 1 l" if "l \<in> set ls" for l using plain_mono[OF ls[OF that], of 1] by simp
  have "parse_lines (map ended ls) [] = Some D" using D parse_text_lines[of ls] p1 by simp
  then have "update_result ?par 0 ls [] (doc_update a b v D)"
    using update_outside[OF update_args_request[OF args] un got ls, of ls "[]"] by simp
  then obtain st ls' where c: "copy_loop (update_step ?par) (0, 0) (map ended ls) = Some (None, st, text_of ls')"
    and ls': "\<forall>l \<in> set ls'. plain_line 1 l" "parse_lines (map ended ls') [] = Some (doc_update a b v D)"
    by (auto simp: update_result_def)
  have "file_chunks (the (fs_files fs filename)) = map ended ls" using file_chunks_text[of ls] p1 tx by simp
  then obtain fs' where "rewrite_file (update_step ?par) (0, 0) (\<lambda>_. 0) (Some []) filename fs = Some (0, st, fs')"
    and "replaced filename (text_of ls') fs fs'"
    using rewrite_file_ok[OF rw, of "Some []" "[]" "update_step ?par" "(0, 0)" st "text_of ls'" "\<lambda>_. 0"] c by auto
  moreover have "parse_text (text_of ls') = Some (doc_update a b v D)" using parse_text_lines[of ls'] ls' by simp
  ultimately show ?thesis using args(1) by (auto simp: rewrite_after_update_def update_args_def Let_def)
qed

end
