(* ===== verification/Ini_Sync.thy ===== *)
theory Ini_Sync
  imports Ini_UpdateFile
begin

text \<open>
  Memory and file together: the state invariant does not look at the file system, and after an
  operation of the interface the file on disk parses to the document in memory.
\<close>

section \<open>The file system is a frame\<close>

lemma kv_list_fs [simp]: "kv_list (w\<lparr>ini_fs := x\<rparr>) p ks = kv_list w p ks"
  by (simp add: kv_list_def)

lemma sec_list_fs [simp]: "sec_list (w\<lparr>ini_fs := x\<rparr>) p ss = sec_list w p ss"
  by (simp add: sec_list_def)

lemma ini_inv_fs [simp]: "ini_inv (w\<lparr>ini_fs := x\<rparr>) = ini_inv w"
proof -
  have "store_inv (w\<lparr>ini_fs := x\<rparr>) = store_inv w" by (simp add: store_inv_def fields_live_def walkable_def)
  moreover have "shape (w\<lparr>ini_fs := x\<rparr>) SS KK {} {} = shape w SS KK {} {}" for SS KK
    by (simp add: shape_def okay_world_def sec_lists_def kv_lists_def)
  moreover have "filled (w\<lparr>ini_fs := x\<rparr>) SS KK = filled w SS KK" for SS KK by (simp add: filled_def)
  ultimately show ?thesis by (simp add: ini_inv_def)
qed

lemma doc_fs [simp]: "doc (w\<lparr>ini_fs := x\<rparr>) f = doc w f"
  by (simp add: doc_def doc_of_def sec_name_def kv_pair_def)

section \<open>Updating a value\<close>

lemma update_args_filled: "update_args par a b v \<Longrightarrow> update_args (fill_value_len par) a b v"
proof -
  assume "update_args par a b v"
  then obtain s k x where P: "par_section par = Some s" "par_key par = Some k" "par_value par = Some x"
    "arg_ok s (par_section_len par)" "arg_ok k (par_key_len par)" "arg_ok x (par_value_len par)"
    "a = arg_string s (par_section_len par)" "b = arg_string k (par_key_len par)" "v = arg_string x (par_value_len par)"
    by (auto simp: update_args_def)
  have "arg_string x (int (length (cstr x))) = cstr x"
    using take_length_cstr[of x] by (auto simp: arg_string_def)
  moreover have "int (length (cstr x)) \<le> int (length x) + 1" using length_cstr_le[of x] by linarith
  ultimately show ?thesis using P
    by (auto simp: update_args_def fill_value_len_def arg_ok_def arg_string_def)
qed

text \<open>The file behind slot \<open>f\<close> is a list of lines that parses to the document in memory.\<close>

definition in_sync :: "nat \<Rightarrow> nat \<Rightarrow> ini_world \<Rightarrow> bool" where
  "in_sync n f w \<longleftrightarrow> (\<exists>name ls. file_name f w = Some name \<and> rewritable name (ini_fs w) \<and>
     fs_files (ini_fs w) name = Some (text_of ls) \<and> (\<forall>l \<in> set ls. plain_line n l) \<and>
     parse_text (text_of ls) = Some (doc w f))"

lemma update_sync:
  assumes inv: "ini_inv w" and fd: "valid_fd fd" and sync: "in_sync (length a + length b + length v + 5) (nat fd) w"
    and args: "update_args par a b v" "CONTENT_RIGHT_BRACKET \<notin> set a" "clean_key b" "clean_value v"
    and got: "doc_get a b (doc w (nat fd)) \<noteq> None" and un: "unambiguous a b (doc w (nat fd))" and rm: "room v w"
  shows "\<exists>ret par' w'. update_value_ofkey fd (Some par) w = Some (ret, par', w') \<and> ini_inv w' \<and>
    (\<forall>g < MAX_OPERATION_FILE_NUM. g \<noteq> nat fd \<longrightarrow> doc w' g = doc w g) \<and>
    (ret < 0 \<and> doc w' (nat fd) = doc w (nat fd) \<and> ini_fs w' = ini_fs w \<or>
     ret = 0 \<and> doc w' (nat fd) = doc_update a b v (doc w (nat fd)) \<and>
     (\<exists>name content. file_name (nat fd) w = Some name \<and> replaced name content (ini_fs w) (ini_fs w') \<and>
        parse_text content = Some (doc w' (nat fd))))"
proof -
  obtain s k x where P: "par_section par = Some s" "par_key par = Some k" "par_value par = Some x"
    "arg_ok s (par_section_len par)" "arg_ok k (par_key_len par)" "arg_ok x (par_value_len par)"
    and E: "a = arg_string s (par_section_len par)" "b = arg_string k (par_key_len par)" "v = arg_string x (par_value_len par)"
    using args(1) by (auto simp: update_args_def)
  have nn: "NUL \<notin> set v" using args(4) by (simp add: clean_value_def)
  obtain name ls where N: "file_name (nat fd) w = Some name" "rewritable name (ini_fs w)"
    "fs_files (ini_fs w) name = Some (text_of ls)" "\<forall>l \<in> set ls. plain_line (length a + length b + length v + 5) l"
    "parse_text (text_of ls) = Some (doc w (nat fd))"
    using sync by (auto simp: in_sync_def)
  from update_memory[OF inv fd P(1,4) P(2,5) P(3,6), folded E, OF nn rm got]
  obtain ret w1 where W: "ini_inv w1" "ini_fs w1 = ini_fs w" "file_name (nat fd) w1 = file_name (nat fd) w"
    "\<forall>g < MAX_OPERATION_FILE_NUM. g \<noteq> nat fd \<longrightarrow> doc w1 g = doc w g"
    and R: "ret < 0 \<and> doc w1 (nat fd) = doc w (nat fd) \<and>
        update_value_ofkey fd (Some par) w = Some (ret, Some (fill_value_len par), w1) \<or>
      doc w1 (nat fd) = doc_update a b v (doc w (nat fd)) \<and>
        update_value_ofkey fd (Some par) w = call_rewrite rewrite_after_update fd (fill_value_len par) w1"
    by blast
  from R show ?thesis
  proof (elim disjE conjE)
    assume "ret < 0" "doc w1 (nat fd) = doc w (nat fd)"
      "update_value_ofkey fd (Some par) w = Some (ret, Some (fill_value_len par), w1)"
    then show ?thesis using W by (intro exI conjI) auto
  next
    assume d: "doc w1 (nat fd) = doc_update a b v (doc w (nat fd))"
      and u: "update_value_ofkey fd (Some par) w = call_rewrite rewrite_after_update fd (fill_value_len par) w1"
    obtain par' fs' content where F: "rewrite_after_update name (fill_value_len par) (ini_fs w) = Some (0, par', fs')"
      "replaced name content (ini_fs w) fs'" "parse_text content = Some (doc_update a b v (doc w (nat fd)))"
      using rewrite_after_update_ok[OF N(2,3) _ N(5) got un update_args_filled[OF args(1)] args(2-4)] N(4) by blast
    then have "update_value_ofkey fd (Some par) w = Some (0, Some par', w1\<lparr>ini_fs := fs'\<rparr>)"
      using u W(2,3) N(1) by (simp add: call_rewrite_def)
    then show ?thesis using W d F N(1)
      by (intro exI[of _ 0] exI[of _ "Some par'"] exI[of _ "w1\<lparr>ini_fs := fs'\<rparr>"]) auto
  qed
qed

section \<open>Arguments\<close>

text \<open>The section and the key that a parameter block names.\<close>

definition section_arg :: "INI_PARAMETER \<Rightarrow> string \<Rightarrow> bool" where
  "section_arg par a \<longleftrightarrow> (case par_section par of None \<Rightarrow> False
     | Some s \<Rightarrow> arg_ok s (par_section_len par) \<and> a = arg_string s (par_section_len par))"

definition key_arg :: "INI_PARAMETER \<Rightarrow> string \<Rightarrow> bool" where
  "key_arg par b \<longleftrightarrow> (case par_key par of None \<Rightarrow> False
     | Some k \<Rightarrow> arg_ok k (par_key_len par) \<and> b = arg_string k (par_key_len par))"

lemma section_argE:
  assumes "section_arg par a"
  obtains s where "par_section par = Some s" "arg_ok s (par_section_len par)" "a = arg_string s (par_section_len par)"
  using assms by (auto simp: section_arg_def split: option.splits)

lemma key_argE:
  assumes "key_arg par b"
  obtains k where "par_key par = Some k" "arg_ok k (par_key_len par)" "b = arg_string k (par_key_len par)"
  using assms by (auto simp: key_arg_def split: option.splits)

text \<open>The memory of \<open>w1\<close> differs from that of \<open>w\<close> in the document of slot \<open>f\<close> only, which is now \<open>d\<close>.\<close>

definition only_doc :: "nat \<Rightarrow> ini_doc \<Rightarrow> ini_world \<Rightarrow> ini_world \<Rightarrow> bool" where
  "only_doc f d w w1 \<longleftrightarrow> ini_inv w1 \<and> ini_fs w1 = ini_fs w \<and> file_name f w1 = file_name f w \<and>
     (\<forall>g < MAX_OPERATION_FILE_NUM. doc w1 g = (if g = f then d else doc w g))"

lemma only_docI:
  "ini_inv w1 \<and> ini_fs w1 = ini_fs w \<and> file_name f w1 = file_name f w \<and>
     (\<forall>g < MAX_OPERATION_FILE_NUM. doc w1 g = (if g = f then F (doc w g) else doc w g)) \<Longrightarrow>
   only_doc f (F (doc w f)) w w1"
  by (auto simp: only_doc_def)

end
