(* ===== verification/Ini_Sample.thy ===== *)
theory Ini_Sample
  imports Ini_Sync
begin

text \<open>
  A small ini file and the state after it has been opened: the concrete input on which the
  statements about the interface are applied.
\<close>

definition sample_text :: string where
  "sample_text = text_of [''[main]'', ''name = joe ;owner'', ''age=7'', ''[net]'', ''port=80'']"

definition sample_doc :: ini_doc where
  "sample_doc = [(''main'', [(''name'', ''joe''), (''age'', ''7'')]), (''net'', [(''port'', ''80'')])]"

definition sample_fs :: file_system where
  "sample_fs = \<lparr>fs_files = (\<lambda>_. None)(''a.ini'' := Some sample_text), fs_denied = (\<lambda>_. False)\<rparr>"

definition sample_world :: ini_world where
  "sample_world = snd (the (init_ini_file (Some ''a.ini'') 0 (ini_start sample_fs)))"

definition sample_par :: "string \<Rightarrow> string \<Rightarrow> string \<Rightarrow> INI_PARAMETER" where
  "sample_par s k v = \<lparr>par_section = Some s, par_section_len = 0, par_key = Some k, par_key_len = 0,
     par_value = Some v, par_value_len = 0\<rparr>"

lemma sample_parse: "parse_text sample_text = Some sample_doc"
  by code_simp

lemma sample_lines: "list_all defined_line (map cstr (file_chunks sample_text))"
  by code_simp

lemma sample_cost: "text_cost (map cstr (file_chunks sample_text)) \<le> 200"
  by code_simp

lemma sample_opens:
  "case init_ini_file (Some ''a.ini'') 0 (ini_start sample_fs) of
     Some (ret, w) \<Rightarrow> ret = 0 \<and> pm_curr_len (pool_mem w) < 100 \<and> pm_flag (pool_mem w) = INI_FILE_MEMORY_POOL_INTI
   | None \<Rightarrow> False"
  by code_simp

lemma sample_init:
  "init_ini_file (Some ''a.ini'') 0 (ini_start sample_fs) = Some (0, sample_world)"
  "pm_curr_len (pool_mem sample_world) < 100" "pm_flag (pool_mem sample_world) = INI_FILE_MEMORY_POOL_INTI"
  using sample_opens by (auto simp: sample_world_def split: option.splits prod.splits)

lemma sample_file: "fs_files sample_fs ''a.ini'' = Some sample_text" "can_open sample_fs ''a.ini''"
  by (simp_all add: sample_fs_def can_open_def)

lemma sample_name: "cstr ''a.ini'' = ''a.ini''" "arg_string ''a.ini'' 0 = ''a.ini''" "arg_ok ''a.ini'' 0"
  by (simp_all add: arg_string_def arg_ok_def cstr_def)

lemma memory_init_fs [simp]: "ini_fs (ini_file_memory_init w) = ini_fs w"
  by (simp add: ini_file_memory_init_def)

lemma start_fs [simp]: "ini_fs (ini_start fs) = fs"
  by (simp add: ini_start_def)

lemma sample_budget: "budget 1000 (ini_file_memory_init (ini_start fs))"
  by (simp add: budget_def ini_file_memory_init_def ini_start_def size_defs)

lemma sample_state:
  "ini_inv sample_world" "ini_fs sample_world = sample_fs" "fil_flag (fil_at sample_world 0) = STRUCT_NODE_IN_USED"
  "file_name 0 sample_world = Some ''a.ini''" "doc sample_world 0 = sample_doc"
proof -
  have "budget (length (arg_string ''a.ini'' 0) + 1 + text_cost (map cstr (file_chunks sample_text))) (ini_file_memory_init (ini_start sample_fs))"
    using sample_budget[of sample_fs] sample_cost by (simp add: budget_def sample_name)
  then have "\<exists>ret w'. init_ini_file (Some ''a.ini'') 0 (ini_start sample_fs) = Some (ret, w') \<and> ini_inv w' \<and>
      ini_fs w' = ini_fs (ini_start sample_fs) \<and>
      (opened (cstr ''a.ini'') (arg_string ''a.ini'' 0) (ini_file_memory_init (ini_start sample_fs)) ret w' \<or>
       not_opened (cstr ''a.ini'') (ini_file_memory_init (ini_start sample_fs)) ret w')"
    by (intro init_ini_file_ok) (use ini_inv_start sample_lines sample_file in \<open>auto simp: sample_name\<close>)
  then have "ini_inv sample_world" "ini_fs sample_world = sample_fs"
    "opened ''a.ini'' ''a.ini'' (ini_file_memory_init (ini_start sample_fs)) 0 sample_world"
    using sample_init(1) by (auto simp: sample_name not_opened_def code_defs)
  then show "ini_inv sample_world" "ini_fs sample_world = sample_fs" "fil_flag (fil_at sample_world 0) = STRUCT_NODE_IN_USED"
    "file_name 0 sample_world = Some ''a.ini''" "doc sample_world 0 = sample_doc"
    using sample_parse sample_file by (simp_all add: opened_def)
qed

lemma sample_sync: "in_sync 100 0 sample_world"
proof -
  have "rewritable ''a.ini'' sample_fs" by code_simp
  moreover have "list_all (plain_line 100) [''[main]'', ''name = joe ;owner'', ''age=7'', ''[net]'', ''port=80'']" by code_simp
  ultimately show ?thesis
    unfolding in_sync_def using sample_state sample_file sample_parse
    by (intro exI[of _ "''a.ini''"] exI[of _ "[''[main]'', ''name = joe ;owner'', ''age=7'', ''[net]'', ''port=80'']"])
       (auto simp: sample_text_def list_all_iff)
qed

lemma sample_room: "length s < 1000 \<Longrightarrow> room s sample_world" "n < 1000 \<Longrightarrow> budget n sample_world"
  using sample_init(2,3) by (auto simp: room_def budget_def size_defs)

end
