(* ===== verification/Ngx_Pool.thy ===== *)
theory Ngx_Pool
  imports C_Prelude
begin

text \<open>
  The memory pool of \<^verbatim>\<open>module_function/memory_pool.c\<close> (after nginx): blocks that are filled from
  their \<^verbatim>\<open>last\<close> pointer upwards, a list of large allocations, and a list of cleanup handlers.

  Addresses and sizes are natural numbers below $2^{64}$; subtraction of sizes and alignment are
  written out modulo $2^{64}$. The objects behind pointers are in one map per structure type. The C
  allocator is a parameter \<open>mal\<close> of the operations: from the list of live allocations and the size it
  gives an address, or \<open>None\<close> when \<^verbatim>\<open>malloc\<close> fails. \<open>None\<close> as the result of an operation is undefined
  behaviour (a write outside an allocation, or a pointer to no object).
\<close>

unbundle bit_operations_syntax

section \<open>Sizes and alignment\<close>

definition size_sub :: "nat \<Rightarrow> nat \<Rightarrow> nat" where
  "size_sub a b = nat ((int a - int b) mod 2 ^ 64)"

definition NGX_ALIGNMENT :: nat where "NGX_ALIGNMENT = 8"
definition NGX_MAX_ALLOC_FROM_POOL :: nat where "NGX_MAX_ALLOC_FROM_POOL = 4096 - 1"
definition NGX_DEFAULT_POOL_SIZE :: nat where "NGX_DEFAULT_POOL_SIZE = 16 * 1024"

definition ngx_align_ptr :: "nat \<Rightarrow> nat \<Rightarrow> nat" where
  "ngx_align_ptr p a = nat (((int p + (int a - 1)) mod 2 ^ 64) AND NOT (int a - 1))"

text \<open>Structure sizes of the LP64 data model.\<close>

definition sizeof_ngx_pool_data_t :: nat where "sizeof_ngx_pool_data_t = 32"
definition sizeof_ngx_pool_t :: nat where "sizeof_ngx_pool_t = 64"
definition sizeof_ngx_pool_large_t :: nat where "sizeof_ngx_pool_large_t = 16"
definition sizeof_ngx_pool_cleanup_t :: nat where "sizeof_ngx_pool_cleanup_t = 24"

lemmas ngx_sizes =
  NGX_ALIGNMENT_def NGX_MAX_ALLOC_FROM_POOL_def sizeof_ngx_pool_data_t_def sizeof_ngx_pool_t_def
  sizeof_ngx_pool_large_t_def sizeof_ngx_pool_cleanup_t_def

section \<open>State\<close>

text \<open>The handler of a cleanup entry: the two of this file, or one of the user.\<close>

datatype ngx_pool_cleanup_pt = CleanupFile | DeleteFile | UserHandler nat

record ngx_pool_cleanup_t =
  c_handler :: "ngx_pool_cleanup_pt option"
  c_data :: "nat option"
  c_next :: "nat option"

record ngx_pool_large_t =
  l_next :: "nat option"
  l_alloc :: "nat option"

record ngx_pool_data_t =
  d_last :: nat
  d_end :: nat
  d_next :: "nat option"
  d_failed :: nat

text \<open>The fields of \<^verbatim>\<open>ngx_pool_s\<close> behind its first member \<^verbatim>\<open>d\<close>, which lies at the same address.\<close>

record ngx_pool_t =
  p_max :: nat
  p_current :: nat
  p_large :: "nat option"
  p_cleanup :: "nat option"

record ngx_pool_cleanup_file_t =
  f_fd :: int
  f_name :: string

datatype ngx_event = EvClose int | EvUnlink string | EvCall nat "nat option"

record ngx_mem =
  m_live :: "(nat \<times> nat) list"
  m_bytes :: "nat \<Rightarrow> nat"
  m_blocks :: "nat \<rightharpoonup> ngx_pool_data_t"
  m_pools :: "nat \<rightharpoonup> ngx_pool_t"
  m_larges :: "nat \<rightharpoonup> ngx_pool_large_t"
  m_cleanups :: "nat \<rightharpoonup> ngx_pool_cleanup_t"
  m_files :: "nat \<rightharpoonup> ngx_pool_cleanup_file_t"
  m_events :: "ngx_event list"

type_synonym malloc = "(nat \<times> nat) list \<Rightarrow> nat \<Rightarrow> nat option"

section \<open>The C allocator\<close>

definition ngx_alloc :: "malloc \<Rightarrow> nat \<Rightarrow> ngx_mem \<Rightarrow> nat option \<times> ngx_mem" where
  "ngx_alloc mal sz h =
     (case mal (m_live h) sz of
        None \<Rightarrow> (None, h)
      | Some p \<Rightarrow> (Some p, h\<lparr>m_live := (p, sz) # m_live h\<rparr>))"

definition mem_zero :: "nat \<Rightarrow> nat \<Rightarrow> ngx_mem \<Rightarrow> ngx_mem" where
  "mem_zero p sz h = h\<lparr>m_bytes := (\<lambda>a. if p \<le> a \<and> a < p + sz then 0 else m_bytes h a)\<rparr>"

definition ngx_calloc :: "malloc \<Rightarrow> nat \<Rightarrow> ngx_mem \<Rightarrow> nat option \<times> ngx_mem" where
  "ngx_calloc mal sz h =
     (case ngx_alloc mal sz h of
        (None, h') \<Rightarrow> (None, h')
      | (Some p, h') \<Rightarrow> (Some p, mem_zero p sz h'))"

text \<open>\<^verbatim>\<open>free\<close>: of the null pointer nothing happens, of an address that is not allocated it is undefined.\<close>

definition c_free :: "nat option \<Rightarrow> ngx_mem \<Rightarrow> ngx_mem option" where
  "c_free p h =
     (case p of
        None \<Rightarrow> Some h
      | Some a \<Rightarrow> if a \<in> fst ` set (m_live h)
                 then Some (h\<lparr>m_live := filter (\<lambda>x. fst x \<noteq> a) (m_live h)\<rparr>) else None)"

section \<open>Creating a pool\<close>

definition ngx_create_pool :: "malloc \<Rightarrow> nat \<Rightarrow> ngx_mem \<Rightarrow> (nat option \<times> ngx_mem) option" where
  "ngx_create_pool mal sz h =
     (case ngx_alloc mal sz h of
        (None, h') \<Rightarrow> Some (None, h')
      | (Some p, h') \<Rightarrow>
          if sz < sizeof_ngx_pool_t then None
          else
            let sz' = size_sub sz sizeof_ngx_pool_t;
                d = \<lparr>d_last = p + sizeof_ngx_pool_t, d_end = p + sz, d_next = None, d_failed = 0\<rparr>;
                s = \<lparr>p_max = (if sz' < NGX_MAX_ALLOC_FROM_POOL then sz' else NGX_MAX_ALLOC_FROM_POOL),
                     p_current = p, p_large = None, p_cleanup = None\<rparr>
            in Some (Some p, h'\<lparr>m_blocks := (m_blocks h')(p \<mapsto> d), m_pools := (m_pools h')(p \<mapsto> s)\<rparr>))"

section \<open>Small allocations\<close>

definition set_last :: "nat \<Rightarrow> nat \<Rightarrow> ngx_mem \<Rightarrow> ngx_mem" where
  "set_last p v h = h\<lparr>m_blocks := (m_blocks h)(p := map_option (\<lambda>d. d\<lparr>d_last := v\<rparr>) (m_blocks h p))\<rparr>"

text \<open>The \<^verbatim>\<open>do\<close> loop of \<^verbatim>\<open>ngx_palloc_small\<close>; \<open>Some (None, h)\<close> is leaving it with \<^verbatim>\<open>p == NULL\<close>.\<close>

partial_function (option) small_loop :: "nat \<Rightarrow> nat \<Rightarrow> bool \<Rightarrow> ngx_mem \<Rightarrow> (nat option \<times> ngx_mem) option" where
  "small_loop p sz align h =
     (case m_blocks h p of
        None \<Rightarrow> None
      | Some d \<Rightarrow>
          let m = (if align then ngx_align_ptr (d_last d) NGX_ALIGNMENT else d_last d)
          in if size_sub (d_end d) m \<ge> sz
             then Some (Some m, set_last p (m + sz) h)
             else (case d_next d of None \<Rightarrow> Some (None, h) | Some q \<Rightarrow> small_loop q sz align h))"

text \<open>
  \<^verbatim>\<open>for (p = pool->current; p->d.next; p = p->d.next) if (p->d.failed++ > 4) pool->current = p->d.next;\<close>
  with the last block and the new \<^verbatim>\<open>current\<close> as results.
\<close>

partial_function (option) failed_loop :: "nat \<Rightarrow> nat \<Rightarrow> ngx_mem \<Rightarrow> (nat \<times> nat \<times> ngx_mem) option" where
  "failed_loop p cur h =
     (case m_blocks h p of
        None \<Rightarrow> None
      | Some d \<Rightarrow>
          (case d_next d of
             None \<Rightarrow> Some (p, cur, h)
           | Some q \<Rightarrow>
               failed_loop q (if d_failed d > 4 then q else cur)
                 (h\<lparr>m_blocks := (m_blocks h)(p \<mapsto> d\<lparr>d_failed := (d_failed d + 1) mod 2 ^ 32\<rparr>)\<rparr>)))"

definition set_next :: "nat \<Rightarrow> nat \<Rightarrow> ngx_mem \<Rightarrow> ngx_mem" where
  "set_next p q h = h\<lparr>m_blocks := (m_blocks h)(p := map_option (\<lambda>d. d\<lparr>d_next := Some q\<rparr>) (m_blocks h p))\<rparr>"

definition set_current :: "nat \<Rightarrow> nat \<Rightarrow> ngx_mem \<Rightarrow> ngx_mem" where
  "set_current pool c h = h\<lparr>m_pools := (m_pools h)(pool := map_option (\<lambda>s. s\<lparr>p_current := c\<rparr>) (m_pools h pool))\<rparr>"

definition ngx_palloc_block :: "malloc \<Rightarrow> nat \<Rightarrow> nat \<Rightarrow> ngx_mem \<Rightarrow> (nat option \<times> ngx_mem) option" where
  "ngx_palloc_block mal pool sz h = do {
     s \<leftarrow> m_pools h pool;
     d \<leftarrow> m_blocks h pool;
     let psize = size_sub (d_end d) pool;
     (case ngx_alloc mal psize h of
        (None, h') \<Rightarrow> Some (None, h')
      | (Some new, h') \<Rightarrow>
          if psize < sizeof_ngx_pool_data_t then None
          else do {
            let m = ngx_align_ptr (new + sizeof_ngx_pool_data_t) NGX_ALIGNMENT;
            let nd = \<lparr>d_last = m + sz, d_end = new + psize, d_next = None, d_failed = 0\<rparr>;
            (p, cur, h'') \<leftarrow> failed_loop (p_current s) (p_current s) (h'\<lparr>m_blocks := (m_blocks h')(new \<mapsto> nd)\<rparr>);
            Some (Some m, set_next p new (set_current pool cur h''))
          })
   }"

definition ngx_palloc_small :: "malloc \<Rightarrow> nat \<Rightarrow> nat \<Rightarrow> bool \<Rightarrow> ngx_mem \<Rightarrow> (nat option \<times> ngx_mem) option" where
  "ngx_palloc_small mal pool sz align h = do {
     s \<leftarrow> m_pools h pool;
     (m, h') \<leftarrow> small_loop (p_current s) sz align h;
     (case m of Some a \<Rightarrow> Some (Some a, h') | None \<Rightarrow> ngx_palloc_block mal pool sz h')
   }"

section \<open>Large allocations\<close>

text \<open>
  The search for a free entry: \<open>Some (Some l)\<close> is an entry whose allocation was freed; the search
  gives up behind the fifth entry.
\<close>

function large_slot :: "nat \<Rightarrow> nat option \<Rightarrow> ngx_mem \<Rightarrow> nat option option" where
  "large_slot n l h =
     (case l of
        None \<Rightarrow> Some None
      | Some a \<Rightarrow>
          (case m_larges h a of
             None \<Rightarrow> None
           | Some e \<Rightarrow>
               if l_alloc e = None then Some (Some a)
               else if n > 3 then Some None
               else large_slot (n + 1) (l_next e) h))"
  by pat_completeness auto
termination by (relation "measure (\<lambda>(n, l, h). 5 - n)") auto

declare large_slot.simps [simp del]

definition set_alloc :: "nat \<Rightarrow> nat option \<Rightarrow> ngx_mem \<Rightarrow> ngx_mem" where
  "set_alloc l a h = h\<lparr>m_larges := (m_larges h)(l := map_option (\<lambda>e. e\<lparr>l_alloc := a\<rparr>) (m_larges h l))\<rparr>"

text \<open>\<^verbatim>\<open>large->alloc = p; large->next = pool->large; pool->large = large;\<close>\<close>

definition push_large :: "nat \<Rightarrow> nat \<Rightarrow> nat \<Rightarrow> ngx_mem \<Rightarrow> ngx_mem option" where
  "push_large pool large p h = do {
     s \<leftarrow> m_pools h pool;
     Some (h\<lparr>m_larges := (m_larges h)(large \<mapsto> \<lparr>l_next = p_large s, l_alloc = Some p\<rparr>),
              m_pools := (m_pools h)(pool \<mapsto> s\<lparr>p_large := Some large\<rparr>)\<rparr>)
   }"

text \<open>The common end of \<^verbatim>\<open>ngx_palloc_large\<close> and \<^verbatim>\<open>ngx_pmemalign\<close>.\<close>

definition new_large :: "malloc \<Rightarrow> nat \<Rightarrow> nat \<Rightarrow> ngx_mem \<Rightarrow> (nat option \<times> ngx_mem) option" where
  "new_large mal pool p h = do {
     (large, h') \<leftarrow> ngx_palloc_small mal pool sizeof_ngx_pool_large_t True h;
     (case large of
        None \<Rightarrow> do { h'' \<leftarrow> c_free (Some p) h'; Some (None, h'') }
      | Some l \<Rightarrow> do { h'' \<leftarrow> push_large pool l p h'; Some (Some p, h'') })
   }"

definition ngx_palloc_large :: "malloc \<Rightarrow> nat \<Rightarrow> nat \<Rightarrow> ngx_mem \<Rightarrow> (nat option \<times> ngx_mem) option" where
  "ngx_palloc_large mal pool sz h =
     (case ngx_alloc mal sz h of
        (None, h') \<Rightarrow> Some (None, h')
      | (Some p, h') \<Rightarrow> do {
          s \<leftarrow> m_pools h' pool;
          slot \<leftarrow> large_slot 0 (p_large s) h';
          (case slot of
             Some l \<Rightarrow> Some (Some p, set_alloc l (Some p) h')
           | None \<Rightarrow> new_large mal pool p h')
        })"

definition ngx_pmemalign :: "malloc \<Rightarrow> nat \<Rightarrow> nat \<Rightarrow> ngx_mem \<Rightarrow> (nat option \<times> ngx_mem) option" where
  "ngx_pmemalign mal pool sz h =
     (case ngx_alloc mal sz h of
        (None, h') \<Rightarrow> Some (None, h')
      | (Some p, h') \<Rightarrow> new_large mal pool p h')"

definition ngx_palloc :: "malloc \<Rightarrow> nat \<Rightarrow> nat \<Rightarrow> ngx_mem \<Rightarrow> (nat option \<times> ngx_mem) option" where
  "ngx_palloc mal pool sz h = do {
     s \<leftarrow> m_pools h pool;
     if sz \<le> p_max s then ngx_palloc_small mal pool sz True h else ngx_palloc_large mal pool sz h
   }"

definition ngx_pnalloc :: "malloc \<Rightarrow> nat \<Rightarrow> nat \<Rightarrow> ngx_mem \<Rightarrow> (nat option \<times> ngx_mem) option" where
  "ngx_pnalloc mal pool sz h = do {
     s \<leftarrow> m_pools h pool;
     if sz \<le> p_max s then ngx_palloc_small mal pool sz False h else ngx_palloc_large mal pool sz h
   }"

definition ngx_pcalloc :: "malloc \<Rightarrow> nat \<Rightarrow> nat \<Rightarrow> ngx_mem \<Rightarrow> (nat option \<times> ngx_mem) option" where
  "ngx_pcalloc mal pool sz h = do {
     (p, h') \<leftarrow> ngx_palloc mal pool sz h;
     Some (p, case p of None \<Rightarrow> h' | Some a \<Rightarrow> mem_zero a sz h')
   }"

section \<open>Freeing\<close>

partial_function (option) pfree_loop :: "nat option \<Rightarrow> nat option \<Rightarrow> ngx_mem \<Rightarrow> (int \<times> ngx_mem) option" where
  "pfree_loop l p h =
     (case l of
        None \<Rightarrow> Some (- 5, h)
      | Some a \<Rightarrow>
          (case m_larges h a of
             None \<Rightarrow> None
           | Some e \<Rightarrow>
               if p = l_alloc e
               then do { h' \<leftarrow> c_free (l_alloc e) h; Some (0, set_alloc a None h') }
               else pfree_loop (l_next e) p h))"

definition ngx_pfree :: "nat \<Rightarrow> nat option \<Rightarrow> ngx_mem \<Rightarrow> (int \<times> ngx_mem) option" where
  "ngx_pfree pool p h = do { s \<leftarrow> m_pools h pool; pfree_loop (p_large s) p h }"

partial_function (option) free_larges :: "nat option \<Rightarrow> ngx_mem \<Rightarrow> ngx_mem option" where
  "free_larges l h =
     (case l of
        None \<Rightarrow> Some h
      | Some a \<Rightarrow> do {
          e \<leftarrow> m_larges h a;
          h' \<leftarrow> (if l_alloc e \<noteq> None then c_free (l_alloc e) h else Some h);
          free_larges (l_next e) h'
        })"

text \<open>\<^verbatim>\<open>for (p = pool, n = pool->d.next; ; p = n, n = n->d.next) { free(p); if (n == NULL) break; }\<close>\<close>

partial_function (option) free_blocks :: "nat \<Rightarrow> nat option \<Rightarrow> ngx_mem \<Rightarrow> ngx_mem option" where
  "free_blocks p n h = do {
     h' \<leftarrow> c_free (Some p) h;
     (case n of
        None \<Rightarrow> Some h'
      | Some q \<Rightarrow> do { d \<leftarrow> m_blocks h' q; free_blocks q (d_next d) h' })
   }"

section \<open>Cleanup handlers\<close>

definition ngx_pool_cleanup_file :: "nat option \<Rightarrow> ngx_mem \<Rightarrow> ngx_mem option" where
  "ngx_pool_cleanup_file data h = do {
     a \<leftarrow> data;
     c \<leftarrow> m_files h a;
     Some (h\<lparr>m_events := m_events h @ [EvClose (f_fd c)]\<rparr>)
   }"

definition ngx_pool_delete_file :: "nat option \<Rightarrow> ngx_mem \<Rightarrow> ngx_mem option" where
  "ngx_pool_delete_file data h = do {
     a \<leftarrow> data;
     c \<leftarrow> m_files h a;
     Some (h\<lparr>m_events := m_events h @ [EvUnlink (f_name c), EvClose (f_fd c)]\<rparr>)
   }"

fun call_handler :: "ngx_pool_cleanup_pt \<Rightarrow> nat option \<Rightarrow> ngx_mem \<Rightarrow> ngx_mem option" where
  "call_handler CleanupFile data h = ngx_pool_cleanup_file data h"
| "call_handler DeleteFile data h = ngx_pool_delete_file data h"
| "call_handler (UserHandler i) data h = Some (h\<lparr>m_events := m_events h @ [EvCall i data]\<rparr>)"

definition ngx_pool_cleanup_add :: "malloc \<Rightarrow> nat \<Rightarrow> nat \<Rightarrow> ngx_mem \<Rightarrow> (nat option \<times> ngx_mem) option" where
  "ngx_pool_cleanup_add mal p sz h = do {
     (c, h1) \<leftarrow> ngx_palloc mal p sizeof_ngx_pool_cleanup_t h;
     (case c of
        None \<Rightarrow> Some (None, h1)
      | Some a \<Rightarrow> do {
          (data, h2) \<leftarrow> (if sz \<noteq> 0 then ngx_palloc mal p sz h1 else Some (None, h1));
          if sz \<noteq> 0 \<and> data = None then Some (None, h2)
          else do {
            s \<leftarrow> m_pools h2 p;
            Some (Some a,
              h2\<lparr>m_cleanups := (m_cleanups h2)(a \<mapsto> \<lparr>c_handler = None, c_data = data, c_next = p_cleanup s\<rparr>),
                 m_pools := (m_pools h2)(p \<mapsto> s\<lparr>p_cleanup := Some a\<rparr>)\<rparr>)
          }
        })
   }"

partial_function (option) run_cleanups :: "nat option \<Rightarrow> ngx_mem \<Rightarrow> ngx_mem option" where
  "run_cleanups c h =
     (case c of
        None \<Rightarrow> Some h
      | Some a \<Rightarrow> do {
          e \<leftarrow> m_cleanups h a;
          h' \<leftarrow> (case c_handler e of None \<Rightarrow> Some h | Some f \<Rightarrow> call_handler f (c_data e) h);
          run_cleanups (c_next e) h'
        })"

partial_function (option) run_file_loop :: "nat option \<Rightarrow> int \<Rightarrow> ngx_mem \<Rightarrow> ngx_mem option" where
  "run_file_loop c fd h =
     (case c of
        None \<Rightarrow> Some h
      | Some a \<Rightarrow> do {
          e \<leftarrow> m_cleanups h a;
          if c_handler e = Some CleanupFile
          then do {
            d \<leftarrow> c_data e;
            cf \<leftarrow> m_files h d;
            if f_fd cf = fd
            then do {
              h' \<leftarrow> call_handler CleanupFile (c_data e) h;
              Some (h'\<lparr>m_cleanups := (m_cleanups h')(a \<mapsto> e\<lparr>c_handler := None\<rparr>)\<rparr>)
            }
            else run_file_loop (c_next e) fd h
          }
          else run_file_loop (c_next e) fd h
        })"

definition ngx_pool_run_cleanup_file :: "nat \<Rightarrow> int \<Rightarrow> ngx_mem \<Rightarrow> ngx_mem option" where
  "ngx_pool_run_cleanup_file p fd h = do { s \<leftarrow> m_pools h p; run_file_loop (p_cleanup s) fd h }"

section \<open>Resetting and destroying a pool\<close>

definition ngx_destroy_pool :: "nat \<Rightarrow> ngx_mem \<Rightarrow> ngx_mem option" where
  "ngx_destroy_pool pool h = do {
     s \<leftarrow> m_pools h pool;
     h1 \<leftarrow> run_cleanups (p_cleanup s) h;
     s1 \<leftarrow> m_pools h1 pool;
     h2 \<leftarrow> free_larges (p_large s1) h1;
     d \<leftarrow> m_blocks h2 pool;
     free_blocks pool (d_next d) h2
   }"

partial_function (option) reset_blocks :: "nat option \<Rightarrow> ngx_mem \<Rightarrow> ngx_mem option" where
  "reset_blocks p h =
     (case p of
        None \<Rightarrow> Some h
      | Some b \<Rightarrow> do {
          d \<leftarrow> m_blocks h b;
          reset_blocks (d_next d)
            (h\<lparr>m_blocks := (m_blocks h)(b \<mapsto> d\<lparr>d_last := b + sizeof_ngx_pool_t, d_failed := 0\<rparr>)\<rparr>)
        })"

definition ngx_reset_pool :: "nat \<Rightarrow> ngx_mem \<Rightarrow> ngx_mem option" where
  "ngx_reset_pool pool h = do {
     s \<leftarrow> m_pools h pool;
     h1 \<leftarrow> free_larges (p_large s) h;
     h2 \<leftarrow> reset_blocks (Some pool) h1;
     s2 \<leftarrow> m_pools h2 pool;
     Some (h2\<lparr>m_pools := (m_pools h2)(pool \<mapsto> s2\<lparr>p_current := pool, p_large := None\<rparr>)\<rparr>)
   }"

end
