(* ===== verification/Ngx_Inv.thy ===== *)
theory Ngx_Inv
  imports Ngx_Pool
begin

text \<open>
  The representation invariant of a memory pool, and what small allocations do to it: memory that is
  handed out lies inside a live block of the pool and apart from everything handed out before.
\<close>

section \<open>Alignment and size arithmetic\<close>

lemma and_not_7: "(k :: int) AND NOT 7 = k div 8 * 8"
proof -
  have "k AND NOT (mask 3) = push_bit 3 (drop_bit 3 k)"
    by (rule bit_eqI) (auto simp: bit_simps)
  then show ?thesis by (simp add: mask_eq_exp_minus_1 push_bit_eq_mult drop_bit_eq_div)
qed

lemma align_8:
  assumes "p + 7 < 2 ^ 64"
  shows "ngx_align_ptr p NGX_ALIGNMENT = (p + 7) div 8 * 8"
proof -
  have "(int p + 7) mod 2 ^ 64 = int (p + 7)" using assms by simp
  then have "ngx_align_ptr p NGX_ALIGNMENT = nat (int (p + 7) div 8 * 8)"
    unfolding ngx_align_ptr_def NGX_ALIGNMENT_def using and_not_7[of "int (p + 7)"] by simp
  also have "\<dots> = (p + 7) div 8 * 8" by (metis int_ops(3) nat_int nat_mult_distrib of_nat_numeral zdiv_int of_nat_mult)
  finally show ?thesis .
qed

lemma align_bounds:
  assumes "p \<le> e" and "e mod 8 = 0" and "e \<le> 2 ^ 63"
  shows "p \<le> ngx_align_ptr p NGX_ALIGNMENT" "ngx_align_ptr p NGX_ALIGNMENT \<le> e" "ngx_align_ptr p NGX_ALIGNMENT mod 8 = 0"
proof -
  have "p + 7 < 2 ^ 64" using assms by simp
  note A = align_8[OF this]
  show "p \<le> ngx_align_ptr p NGX_ALIGNMENT" "ngx_align_ptr p NGX_ALIGNMENT mod 8 = 0" unfolding A by auto
  obtain k where k: "e = 8 * k" using assms(2) by (auto elim: dvdE simp: mod_eq_0_iff_dvd)
  have "(p + 7) div 8 \<le> (8 * k + 7) div 8" by (rule div_le_mono) (use assms(1) k in simp)
  also have "\<dots> = k" by simp
  finally have "(p + 7) div 8 * 8 \<le> e" using k by simp
  then show "ngx_align_ptr p NGX_ALIGNMENT \<le> e" unfolding A .
qed

lemma size_sub_le: "b \<le> a \<Longrightarrow> a < 2 ^ 64 \<Longrightarrow> size_sub a b = a - b"
  unfolding size_sub_def by (metis int_nat_eq mod_pos_pos_trivial nat_int nat_less_le of_nat_0_le_iff of_nat_diff of_nat_less_numeral_power_cancel_iff diff_le_self le_less_trans)

section \<open>The allocator\<close>

text \<open>
  What the pool relies on: \<^verbatim>\<open>malloc\<close> returns a non-null address aligned for every type, in the lower
  half of the address space, whose block overlaps no live allocation.
\<close>

definition apart :: "nat \<times> nat \<Rightarrow> nat \<times> nat \<Rightarrow> bool" where
  "apart x y \<longleftrightarrow> fst x \<noteq> fst y \<and> (fst x + snd x \<le> fst y \<or> fst y + snd y \<le> fst x)"

definition good_malloc :: "malloc \<Rightarrow> bool" where
  "good_malloc mal \<longleftrightarrow> (\<forall>live n a. mal live n = Some a \<longrightarrow>
     0 < a \<and> a mod 16 = 0 \<and> a + n \<le> 2 ^ 63 \<and> (\<forall>y \<in> set live. apart (a, n) y))"

definition live_ok :: "(nat \<times> nat) list \<Rightarrow> bool" where
  "live_ok live \<longleftrightarrow> distinct (map fst live) \<and> (\<forall>x \<in> set live. \<forall>y \<in> set live. x \<noteq> y \<longrightarrow> apart x y)"

lemma live_okD: "live_ok live \<Longrightarrow> (a, n) \<in> set live \<Longrightarrow> (b, m) \<in> set live \<Longrightarrow> a \<noteq> b \<Longrightarrow> a + n \<le> b \<or> b + m \<le> a"
  unfolding live_ok_def apart_def by (metis fst_conv snd_conv)

lemma apart_sym: "apart x y \<Longrightarrow> apart y x"
  by (auto simp: apart_def)

lemma ngx_alloc_ok:
  assumes "good_malloc mal" and "live_ok (m_live h)"
  obtains "ngx_alloc mal n h = (None, h)"
  | a where "ngx_alloc mal n h = (Some a, h\<lparr>m_live := (a, n) # m_live h\<rparr>)" "live_ok ((a, n) # m_live h)"
      "0 < a" "a mod 16 = 0" "a + n \<le> 2 ^ 63" "a \<notin> fst ` set (m_live h)"
proof (cases "mal (m_live h) n")
  case None
  then show thesis using that(1) by (simp add: ngx_alloc_def)
next
  case (Some a)
  then have A: "0 < a" "a mod 16 = 0" "a + n \<le> 2 ^ 63" "\<forall>y \<in> set (m_live h). apart (a, n) y"
    using assms(1) by (auto simp: good_malloc_def)
  have "a \<notin> fst ` set (m_live h)" using A(4) by (auto simp: apart_def)
  moreover have "live_ok ((a, n) # m_live h)"
    using assms(2) A(4) apart_sym calculation unfolding live_ok_def by auto
  ultimately show thesis using that(2) A(1-3) Some by (simp add: ngx_alloc_def)
qed

section \<open>The representation of a pool\<close>

abbreviation block_next :: "ngx_mem \<Rightarrow> nat \<Rightarrow> nat option" where
  "block_next h b \<equiv> d_next (the (m_blocks h b))"

abbreviation large_next :: "ngx_mem \<Rightarrow> nat \<Rightarrow> nat option" where
  "large_next h l \<equiv> l_next (the (m_larges h l))"

abbreviation block_last :: "ngx_mem \<Rightarrow> nat \<Rightarrow> nat" where
  "block_last h b \<equiv> d_last (the (m_blocks h b))"

definition block_ok :: "ngx_mem \<Rightarrow> nat \<Rightarrow> nat \<Rightarrow> bool" where
  "block_ok h ps b \<longleftrightarrow> (\<exists>d. m_blocks h b = Some d \<and> d_end d = b + ps \<and> b + 32 \<le> d_last d \<and> d_last d \<le> b + ps) \<and>
     (b, ps) \<in> set (m_live h) \<and> b mod 16 = 0 \<and> b + ps \<le> 2 ^ 63"

text \<open>The allocations that the entries \<open>ls\<close> hold.\<close>

definition allocs :: "ngx_mem \<Rightarrow> nat list \<Rightarrow> nat list" where
  "allocs h ls = List.map_filter (\<lambda>l. l_alloc (the (m_larges h l))) ls"

definition blocks_ok :: "ngx_mem \<Rightarrow> nat \<Rightarrow> nat \<Rightarrow> nat list \<Rightarrow> bool" where
  "blocks_ok h pool ps bs \<longleftrightarrow> 64 \<le> ps \<and> ps mod 8 = 0 \<and> chain (block_next h) (Some pool) bs \<and> (\<forall>b \<in> set bs. block_ok h ps b)"

definition larges_ok :: "ngx_mem \<Rightarrow> nat list \<Rightarrow> nat list \<Rightarrow> bool" where
  "larges_ok h bs ls \<longleftrightarrow> (\<forall>l \<in> set ls. m_larges h l \<noteq> None \<and> (\<exists>b \<in> set bs. b \<le> l \<and> l < block_last h b)) \<and>
     distinct (allocs h ls) \<and> set (allocs h ls) \<subseteq> fst ` set (m_live h) - set bs"

definition pool_rep :: "ngx_mem \<Rightarrow> nat \<Rightarrow> nat \<Rightarrow> nat list \<Rightarrow> nat list \<Rightarrow> bool" where
  "pool_rep h pool ps bs ls \<longleftrightarrow> live_ok (m_live h) \<and> blocks_ok h pool ps bs \<and> larges_ok h bs ls \<and>
     (\<exists>s. m_pools h pool = Some s \<and> p_current s \<in> set bs \<and> p_max s + 64 \<le> ps \<and> chain (large_next h) (p_large s) ls)"

definition pool_inv :: "ngx_mem \<Rightarrow> nat \<Rightarrow> bool" where
  "pool_inv h pool \<longleftrightarrow> (\<exists>ps bs ls. pool_rep h pool ps bs ls)"

text \<open>The bytes a pool has handed out, with its own headers: the lower part of each block, and the large allocations.\<close>

definition region :: "nat \<Rightarrow> nat \<Rightarrow> nat set" where
  "region a n = {a..<a + n}"

definition live_bytes :: "ngx_mem \<Rightarrow> nat set" where
  "live_bytes h = (\<Union>(a, n) \<in> set (m_live h). region a n)"

definition given :: "ngx_mem \<Rightarrow> nat list \<Rightarrow> nat list \<Rightarrow> nat set" where
  "given h bs ls = (\<Union>b \<in> set bs. {b..<block_last h b}) \<union>
     (\<Union>(a, n) \<in> {x \<in> set (m_live h). fst x \<in> set (allocs h ls)}. region a n)"

lemma block_aligned: "block_ok h ps b \<Longrightarrow> ps mod 8 = 0 \<Longrightarrow> (b + ps) mod 8 = 0"
proof -
  assume "block_ok h ps b" "ps mod 8 = 0"
  then have "b mod 16 = 0" by (simp add: block_ok_def)
  then have "b mod 8 = 0" by presburger
  with \<open>ps mod 8 = 0\<close> show ?thesis by presburger
qed

lemma blocks_okD:
  assumes "blocks_ok h pool ps bs" and "b \<in> set bs"
  obtains d where "m_blocks h b = Some d" "d_end d = b + ps" "b + 32 \<le> d_last d" "d_last d \<le> b + ps"
    "(b, ps) \<in> set (m_live h)" "b mod 16 = 0" "b + ps \<le> 2 ^ 63" "(b + ps) mod 8 = 0"
proof -
  have ok: "block_ok h ps b" "ps mod 8 = 0" using assms by (auto simp: blocks_ok_def)
  note al = block_aligned[OF ok]
  obtain d where "m_blocks h b = Some d" "d_end d = b + ps" "b + 32 \<le> d_last d" "d_last d \<le> b + ps"
    and "(b, ps) \<in> set (m_live h)" "b mod 16 = 0" "b + ps \<le> 2 ^ 63"
    using ok(1) unfolding block_ok_def by metis
  then show thesis using al by (rule that)
qed

section \<open>The loops over the blocks\<close>

lemma small_loop_ok:
  assumes "chain (block_next h) (Some p) xs" and "\<forall>b \<in> set xs. block_ok h ps b" and "ps mod 8 = 0"
  shows "small_loop p sz align h = Some (None, h) \<or>
    (\<exists>m b. small_loop p sz align h = Some (Some m, set_last b (m + sz) h) \<and>
       b \<in> set xs \<and> block_last h b \<le> m \<and> m + sz \<le> b + ps \<and> (align \<longrightarrow> m mod 8 = 0))"
  using assms(1,2)
proof (induction xs arbitrary: p)
  case Nil
  then show ?case by simp
next
  case (Cons x xs)
  then have px: "p = x" and ch: "chain (block_next h) (block_next h x) xs" by auto
  have ok: "block_ok h ps x" using Cons.prems(2) by simp
  then obtain d where d: "m_blocks h x = Some d" "d_end d = x + ps" "x + 32 \<le> d_last d" "d_last d \<le> x + ps" "x + ps \<le> 2 ^ 63"
    unfolding block_ok_def by blast
  have al: "(x + ps) mod 8 = 0" by (rule block_aligned[OF ok assms(3)])
  define m where m_def: "m = (if align then ngx_align_ptr (d_last d) NGX_ALIGNMENT else d_last d)"
  have m: "d_last d \<le> m" "m \<le> x + ps" "align \<longrightarrow> m mod 8 = 0"
    using align_bounds[OF d(4) al d(5)] d(4) by (auto simp: m_def)
  have s: "size_sub (d_end d) m = x + ps - m" unfolding d(2) by (rule size_sub_le) (use m(2) d(5) in auto)
  show ?case
  proof (cases "sz \<le> x + ps - m")
    case True
    then have r: "small_loop p sz align h = Some (Some m, set_last x (m + sz) h)"
      unfolding px by (subst small_loop.simps) (simp add: d(1) Let_def s m_def[symmetric])
    have le: "m + sz \<le> x + ps" using m(2) True by simp
    show ?thesis using r m(1,3) d(1) le by auto
  next
    case False
    then have st: "small_loop p sz align h = (case d_next d of None \<Rightarrow> Some (None, h) | Some q \<Rightarrow> small_loop q sz align h)"
      unfolding px by (subst small_loop.simps) (simp add: d(1) Let_def s m_def[symmetric])
    show ?thesis
    proof (cases "d_next d")
      case None
      then show ?thesis using st by simp
    next
      case (Some q)
      then have "chain (block_next h) (Some q) xs" using ch d(1) by simp
      from Cons.IH[OF this] Cons.prems(2) st Some show ?thesis by auto
    qed
  qed
qed

text \<open>The blocks of \<open>h'\<close> are those of \<open>h\<close> up to their failure counters.\<close>

definition counted :: "ngx_mem \<Rightarrow> ngx_mem \<Rightarrow> bool" where
  "counted h h' \<longleftrightarrow> (\<exists>B. h' = h\<lparr>m_blocks := B\<rparr> \<and>
     (\<forall>b. map_option (\<lambda>d. d\<lparr>d_failed := 0\<rparr>) (B b) = map_option (\<lambda>d. d\<lparr>d_failed := 0\<rparr>) (m_blocks h b)))"

lemma counted_refl [simp]: "counted h h"
  unfolding counted_def by (intro exI[of _ "m_blocks h"]) simp

lemma counted_step:
  "m_blocks h p = Some d \<Longrightarrow> counted (h\<lparr>m_blocks := (m_blocks h)(p \<mapsto> d\<lparr>d_failed := x\<rparr>)\<rparr>) h' \<Longrightarrow> counted h h'"
proof -
  assume d: "m_blocks h p = Some d" and "counted (h\<lparr>m_blocks := (m_blocks h)(p \<mapsto> d\<lparr>d_failed := x\<rparr>)\<rparr>) h'"
  then obtain B where B: "h' = h\<lparr>m_blocks := B\<rparr>"
    "\<forall>b. map_option (\<lambda>d. d\<lparr>d_failed := 0\<rparr>) (B b) =
      map_option (\<lambda>d. d\<lparr>d_failed := 0\<rparr>) (((m_blocks h)(p \<mapsto> d\<lparr>d_failed := x\<rparr>)) b)"
    by (auto simp: counted_def)
  have "map_option (\<lambda>d. d\<lparr>d_failed := 0\<rparr>) (B b) = map_option (\<lambda>d. d\<lparr>d_failed := 0\<rparr>) (m_blocks h b)" for b
    using B(2)[rule_format, of b] d by (cases "b = p") auto
  with B(1) show ?thesis unfolding counted_def by blast
qed

lemma failed_loop_ok:
  assumes "chain (block_next h) (Some p) xs" and "\<And>b. b \<in> set xs \<Longrightarrow> m_blocks h b \<noteq> None"
  shows "\<exists>cur' h'. failed_loop p cur h = Some (last xs, cur', h') \<and> (cur' = cur \<or> cur' \<in> set xs) \<and> counted h h'"
  using assms
proof (induction xs arbitrary: p cur h)
  case Nil
  then show ?case by simp
next
  case (Cons x xs)
  then have px: "p = x" and ch: "chain (block_next h) (block_next h x) xs" by auto
  have nx: "x \<notin> set xs" using chain_distinct[OF Cons.prems(1)] by simp
  obtain d where d: "m_blocks h x = Some d" using Cons.prems(2) by auto
  show ?case
  proof (cases "d_next d")
    case None
    then have "xs = []" using ch d by (cases xs) auto
    then show ?thesis unfolding px by (subst failed_loop.simps) (simp add: d None)
  next
    case (Some q)
    let ?h = "h\<lparr>m_blocks := (m_blocks h)(x \<mapsto> d\<lparr>d_failed := (d_failed d + 1) mod 2 ^ 32\<rparr>)\<rparr>"
    have ne: "xs \<noteq> []" "q \<in> set xs" using ch d Some by (cases xs; auto)+
    have "chain (block_next ?h) (Some q) xs"
      using ch d Some nx by (subst chain_cong[of xs "block_next ?h" "block_next h"]) auto
    moreover have "m_blocks ?h b \<noteq> None" if "b \<in> set xs" for b using that Cons.prems(2) by auto
    ultimately obtain cur' h' where "failed_loop q (if d_failed d > 4 then q else cur) ?h = Some (last xs, cur', h')"
      "cur' = (if d_failed d > 4 then q else cur) \<or> cur' \<in> set xs" "counted ?h h'"
      using Cons.IH by blast
    moreover have "failed_loop p cur h = failed_loop q (if d_failed d > 4 then q else cur) ?h"
      unfolding px by (subst failed_loop.simps) (simp add: d Some)
    ultimately show ?thesis using counted_step[OF d] ne by (auto split: if_splits)
  qed
qed

lemma counted_simps:
  assumes "counted h h'"
  shows "m_live h' = m_live h" "m_pools h' = m_pools h" "m_larges h' = m_larges h"
    "m_blocks h' b = None \<longleftrightarrow> m_blocks h b = None"
    "m_blocks h b = Some d \<Longrightarrow> \<exists>x. m_blocks h' b = Some (d\<lparr>d_failed := x\<rparr>)"
    "m_bytes h' = m_bytes h" "m_cleanups h' = m_cleanups h" "m_files h' = m_files h" "m_events h' = m_events h"
proof -
  obtain B where B: "h' = h\<lparr>m_blocks := B\<rparr>"
    "map_option (\<lambda>d. d\<lparr>d_failed := 0\<rparr>) (B b) = map_option (\<lambda>d. d\<lparr>d_failed := 0\<rparr>) (m_blocks h b)" for b
    using assms by (auto simp: counted_def)
  show "m_live h' = m_live h" "m_pools h' = m_pools h" "m_larges h' = m_larges h"
    "m_bytes h' = m_bytes h" "m_cleanups h' = m_cleanups h" "m_files h' = m_files h" "m_events h' = m_events h"
    by (simp_all add: B(1))
  show "m_blocks h' b = None \<longleftrightarrow> m_blocks h b = None" using B(2)[of b] by (cases "B b"; cases "m_blocks h b") (auto simp: B(1))
  assume "m_blocks h b = Some d"
  then obtain y where y: "B b = Some y" "y\<lparr>d_failed := 0\<rparr> = d\<lparr>d_failed := 0\<rparr>" using B(2)[of b] by (cases "B b") auto
  have "y = (y\<lparr>d_failed := 0\<rparr>)\<lparr>d_failed := d_failed y\<rparr>" by simp
  then have "y = d\<lparr>d_failed := d_failed y\<rparr>" using y(2) by simp
  then show "\<exists>x. m_blocks h' b = Some (d\<lparr>d_failed := x\<rparr>)" using y(1) B(1) by auto
qed

section \<open>Appending a block\<close>

text \<open>The effect of \<^verbatim>\<open>ngx_palloc_block\<close>: one more block at the end, from which the memory is taken.\<close>

lemma palloc_block_ok:
  assumes rep: "pool_rep h pool ps bs ls" and mal: "good_malloc mal" and sz: "sz + 32 \<le> ps"
  shows "ngx_palloc_block mal pool sz h = Some (None, h) \<or>
    (\<exists>new h'. ngx_palloc_block mal pool sz h = Some (Some (new + 32), h') \<and> pool_rep h' pool ps (bs @ [new]) ls \<and>
       new \<notin> fst ` set (m_live h) \<and> new mod 16 = 0 \<and> m_live h' = (new, ps) # m_live h \<and> m_larges h' = m_larges h \<and>
       (\<exists>c. m_pools h' = m_pools (set_current pool c h)) \<and>
       block_last h' new = new + 32 + sz \<and> (\<forall>b \<in> set bs. block_last h' b = block_last h b))"
proof -
  obtain s where lv: "live_ok (m_live h)" and bl: "blocks_ok h pool ps bs" and lg: "larges_ok h bs ls"
    and s: "m_pools h pool = Some s" "p_current s \<in> set bs" "p_max s + 64 \<le> ps" "chain (large_next h) (p_large s) ls"
    using rep by (auto simp: pool_rep_def)
  have ps: "64 \<le> ps" "ps mod 8 = 0" and ch: "chain (block_next h) (Some pool) bs" using bl by (auto simp: blocks_ok_def)
  have pin: "pool \<in> set bs" using ch by (cases bs) auto
  obtain d where d: "m_blocks h pool = Some d" "d_end d = pool + ps" "pool + ps \<le> 2 ^ 63" by (rule blocks_okD[OF bl pin])
  have psz: "size_sub (d_end d) pool = ps" unfolding d(2) by (subst size_sub_le) (use d(3) in auto)
  show ?thesis
  proof (cases rule: ngx_alloc_ok[OF mal lv, of ps])
    case 1
    then have "ngx_palloc_block mal pool sz h = Some (None, h)"
      unfolding ngx_palloc_block_def using s(1) d(1) psz by (simp add: Let_def)
    then show ?thesis by blast
  next
    case (2 new)
    have al: "ngx_align_ptr (new + 32) NGX_ALIGNMENT = new + 32"
    proof -
      have "new + 32 + 7 < 2 ^ 64" using 2(5) ps by simp
      moreover have "(new + 32 + 7) div 8 * 8 = new + 32" using 2(4) by presburger
      ultimately show ?thesis using align_8 by metis
    qed
    have nb: "new \<notin> set bs"
    proof
      assume "new \<in> set bs"
      then have "(new, ps) \<in> set (m_live h)" by (rule blocks_okD[OF bl])
      then show False using 2(6) by (metis fst_conv imageI)
    qed
    let ?nd = "\<lparr>d_last = new + 32 + sz, d_end = new + ps, d_next = None, d_failed = 0\<rparr>"
    let ?h1 = "h\<lparr>m_live := (new, ps) # m_live h, m_blocks := (m_blocks h)(new \<mapsto> ?nd)\<rparr>"
    obtain i where i: "i < length bs" "bs ! i = p_current s" using s(2) by (auto simp: in_set_conv_nth)
    have "chain (block_next h) (Some (p_current s)) (drop i bs)" using chain_drop[OF ch i(1)] i(2) by simp
    then have "chain (block_next ?h1) (Some (p_current s)) (drop i bs)"
      using nb by (subst chain_cong[of _ _ "block_next h"]) (auto dest: in_set_dropD)
    moreover have "m_blocks ?h1 b \<noteq> None" if "b \<in> set (drop i bs)" for b
      using that bl by (auto simp: blocks_ok_def block_ok_def dest!: in_set_dropD)
    ultimately obtain cur h2 where f: "failed_loop (p_current s) (p_current s) ?h1 = Some (last (drop i bs), cur, h2)"
      "cur = p_current s \<or> cur \<in> set (drop i bs)" "counted ?h1 h2"
      using failed_loop_ok by blast
    have lst: "last (drop i bs) = last bs" using i(1) by simp
    have cur: "cur \<in> set bs" using f(2) s(2) by (auto dest: in_set_dropD)
    let ?h' = "set_next (last bs) new (set_current pool cur h2)"
    have r: "ngx_palloc_block mal pool sz h = Some (Some (new + 32), ?h')"
      unfolding ngx_palloc_block_def using s(1) d(1) psz 2(1) f(1) lst al ps
      by (simp add: Let_def sizeof_ngx_pool_data_t_def)
    note C = counted_simps[OF f(3)]
    have B: "m_blocks ?h' b = map_option (\<lambda>d. if b = last bs then d\<lparr>d_next := Some new\<rparr> else d) (m_blocks h2 b)" for b
      by (cases "m_blocks h2 b") (auto simp: set_next_def set_current_def)
    have lb: "last bs \<in> set bs" using pin by (cases bs) auto
    have nd: "block_last ?h' new = new + 32 + sz" "block_next ?h' new = None" "\<exists>d. m_blocks ?h' new = Some d \<and> d_end d = new + ps \<and> d_last d = new + 32 + sz"
    proof -
      obtain x where x: "m_blocks h2 new = Some (?nd\<lparr>d_failed := x\<rparr>)" using C(5)[of new ?nd] by auto
      have "new \<noteq> last bs" using nb lb by auto
      then show "block_last ?h' new = new + 32 + sz" "block_next ?h' new = None"
        "\<exists>d. m_blocks ?h' new = Some d \<and> d_end d = new + ps \<and> d_last d = new + 32 + sz"
        using x B[of new] by auto
    qed
    have ob: "\<exists>d'. m_blocks ?h' b = Some d' \<and> d_last d' = d_last d \<and> d_end d' = d_end d \<and> d_next d' = (if b = last bs then Some new else d_next d)"
      if "b \<in> set bs" "m_blocks h b = Some d" for b d
    proof -
      have "m_blocks ?h1 b = Some d" using that nb by auto
      then obtain x where "m_blocks h2 b = Some (d\<lparr>d_failed := x\<rparr>)" using C(5) by blast
      then show ?thesis using B[of b] by auto
    qed
    have L: "m_live ?h' = (new, ps) # m_live h" "m_larges ?h' = m_larges h" "m_pools ?h' = (m_pools h)(pool \<mapsto> s\<lparr>p_current := cur\<rparr>)"
      using C(1-3) s(1) by (auto simp: set_next_def set_current_def)
    have old: "block_ok h ps b" if "b \<in> set bs" for b using bl that by (simp add: blocks_ok_def)
    have last_eq: "block_last ?h' b = block_last h b" "block_next ?h' b = (if b = last bs then Some new else block_next h b)" if "b \<in> set bs" for b
      using old[OF that] ob[OF that] unfolding block_ok_def by auto
    have "chain (block_next ?h') (Some pool) (bs @ [new])" by (rule chain_snoc[OF ch]) (use last_eq(2) nd(2) in auto)
    moreover have "block_ok ?h' ps b" if "b \<in> set (bs @ [new])" for b
      using that nd(3) 2(4,5) sz L(1) old[of b] ob[of b] unfolding block_ok_def by (cases "b = new") auto
    ultimately have "blocks_ok ?h' pool ps (bs @ [new])" using ps by (simp add: blocks_ok_def)
    moreover have "larges_ok ?h' (bs @ [new]) ls"
      unfolding larges_ok_def
    proof (intro conjI ballI)
      fix l assume "l \<in> set ls"
      then obtain b where "m_larges h l \<noteq> None" "b \<in> set bs" "b \<le> l" "l < block_last h b" using lg by (auto simp: larges_ok_def)
      then show "m_larges ?h' l \<noteq> None" "\<exists>b \<in> set (bs @ [new]). b \<le> l \<and> l < block_last ?h' b"
        using L(2) last_eq(1) by auto
    qed (use lg 2(6) L in \<open>auto simp: larges_ok_def allocs_def\<close>)
    ultimately have "pool_rep ?h' pool ps (bs @ [new]) ls"
      using 2(2) L s cur by (simp add: pool_rep_def)
    moreover have "m_pools ?h' = m_pools (set_current pool cur h)" using L(3) s(1) by (simp add: set_current_def)
    ultimately show ?thesis using r 2(4,6) L(1,2) nd(1) last_eq(1)
      by - (rule disjI2, rule exI[of _ new], rule exI[of _ ?h'], auto)
  qed
qed

section \<open>Taking memory from an existing block\<close>

lemma set_last_simps [simp]:
  "m_live (set_last b v h) = m_live h" "m_pools (set_last b v h) = m_pools h" "m_larges (set_last b v h) = m_larges h"
  "block_next (set_last b v h) c = block_next h c"
  by (cases "m_blocks h b"; auto simp: set_last_def)+

lemma set_last_blocks: "m_blocks (set_last b v h) c = (if c = b then map_option (\<lambda>d. d\<lparr>d_last := v\<rparr>) (m_blocks h b) else m_blocks h c)"
  by (simp add: set_last_def)

lemma set_last_rep:
  assumes rep: "pool_rep h pool ps bs ls" and b: "b \<in> set bs" and v: "block_last h b \<le> v" "v \<le> b + ps"
  shows "pool_rep (set_last b v h) pool ps bs ls"
proof -
  have bl: "blocks_ok h pool ps bs" and lg: "larges_ok h bs ls" using rep by (auto simp: pool_rep_def)
  obtain d where d: "m_blocks h b = Some d" "b + 32 \<le> d_last d" by (rule blocks_okD[OF bl b])
  have ge: "block_last h c \<le> block_last (set_last b v h) c" for c using v(1) by (simp add: set_last_blocks d(1))
  have "block_ok (set_last b v h) ps c" if "c \<in> set bs" for c
    using bl that v d by (auto simp: blocks_ok_def block_ok_def set_last_blocks)
  then have "blocks_ok (set_last b v h) pool ps bs" using bl by (simp add: blocks_ok_def)
  moreover have "larges_ok (set_last b v h) bs ls"
    using lg less_le_trans[OF _ ge] unfolding larges_ok_def allocs_def by (simp, blast)
  ultimately show ?thesis using rep by (simp add: pool_rep_def)
qed

lemma block_region:
  assumes bl: "blocks_ok h pool ps bs" and b: "b \<in> set bs"
  shows "{b..<block_last h b} \<subseteq> region b ps"
  by (rule blocks_okD[OF bl b]) (auto simp: region_def)

text \<open>Behind the filled part of a block nothing has been handed out.\<close>

lemma above_last_free:
  assumes rep: "pool_rep h pool ps bs ls" and b: "b \<in> set bs" and m: "block_last h b \<le> m" "m + n \<le> b + ps"
  shows "region m n \<inter> given h bs ls = {}"
proof -
  have lv: "live_ok (m_live h)" and bl: "blocks_ok h pool ps bs" and lg: "larges_ok h bs ls" using rep by (auto simp: pool_rep_def)
  obtain d where d: "m_blocks h b = Some d" "b + 32 \<le> d_last d" "(b, ps) \<in> set (m_live h)" by (rule blocks_okD[OF bl b])
  then have bm: "(b, ps) \<in> set (m_live h)" "b \<le> m" using m(1) by auto
  have "x \<notin> {c..<block_last h c}" if x: "x \<in> region m n" and c: "c \<in> set bs" for x c
  proof (cases "c = b")
    case True
    then show ?thesis using x m by (auto simp: region_def)
  next
    case False
    have "(c, ps) \<in> set (m_live h)" by (rule blocks_okD[OF bl c])
    then have "b + ps \<le> c \<or> c + ps \<le> b" using live_okD[OF lv bm(1)] False by blast
    then show ?thesis using x m bm block_region[OF bl c] by (auto simp: region_def)
  qed
  moreover have "x \<notin> region a k" if x: "x \<in> region m n" and a: "(a, k) \<in> set (m_live h)" "a \<in> set (allocs h ls)" for x a k
  proof -
    have "a \<noteq> b" using lg a(2) b by (auto simp: larges_ok_def)
    then have "b + ps \<le> a \<or> a + k \<le> b" using live_okD[OF lv bm(1) a(1)] by blast
    then show ?thesis using x m bm by (auto simp: region_def)
  qed
  ultimately show ?thesis unfolding given_def by fastforce
qed

lemma given_mono:
  assumes "set bs \<subseteq> set bs'" and "\<And>b. b \<in> set bs \<Longrightarrow> block_last h b \<le> block_last h' b"
    and "set (m_live h) \<subseteq> set (m_live h')" and "set (allocs h ls) \<subseteq> set (allocs h' ls')"
  shows "given h bs ls \<subseteq> given h' bs' ls'"
proof -
  have "{b..<block_last h b} \<subseteq> {b..<block_last h' b}" if "b \<in> set bs" for b using assms(2)[OF that] by auto
  then show ?thesis unfolding given_def using assms(1,3,4) by (intro Un_mono UN_mono) auto
qed

text \<open>What an allocation of \<open>n\<close> bytes promises.\<close>

definition took :: "ngx_mem \<Rightarrow> nat list \<Rightarrow> nat list \<Rightarrow> nat option \<Rightarrow> nat \<Rightarrow> ngx_mem \<Rightarrow> nat list \<Rightarrow> nat list \<Rightarrow> bool" where
  "took h bs ls r n h' bs' ls' \<longleftrightarrow> given h bs ls \<subseteq> given h' bs' ls' \<and> set bs \<subseteq> set bs' \<and>
     (case r of None \<Rightarrow> True
      | Some m \<Rightarrow> region m n \<inter> given h bs ls = {} \<and> region m n \<subseteq> given h' bs' ls' \<and> region m n \<subseteq> live_bytes h')"

lemma small_took:
  assumes rep: "pool_rep h pool ps bs ls" and b: "b \<in> set bs" and m: "block_last h b \<le> m" "m + n \<le> b + ps"
  shows "took h bs ls (Some m) n (set_last b (m + n) h) bs ls"
proof -
  have bl: "blocks_ok h pool ps bs" using rep by (simp add: pool_rep_def)
  obtain d where d: "m_blocks h b = Some d" "(b, ps) \<in> set (m_live h)" "b + 32 \<le> d_last d" by (rule blocks_okD[OF bl b])
  have "given h bs ls \<subseteq> given (set_last b (m + n) h) bs ls"
    by (rule given_mono) (use m d in \<open>auto simp: set_last_blocks allocs_def\<close>)
  moreover have "region m n \<subseteq> given (set_last b (m + n) h) bs ls"
    using b m d unfolding given_def region_def by (auto simp: set_last_blocks intro!: bexI[of _ b])
  moreover have "region m n \<subseteq> live_bytes (set_last b (m + n) h)"
    using d m unfolding live_bytes_def region_def by (auto intro!: bexI[of _ "(b, ps)"])
  ultimately show ?thesis using above_last_free[OF rep b m] by (simp add: took_def)
qed

lemma new_block_took:
  assumes rep: "pool_rep h pool ps bs ls" and rep': "pool_rep h' pool ps (bs @ [new]) ls" and nn: "new \<notin> fst ` set (m_live h)"
    and L: "m_live h' = (new, ps) # m_live h" "m_larges h' = m_larges h" and sz: "sz + 32 \<le> ps"
    and B: "block_last h' new = new + 32 + sz" "\<forall>b \<in> set bs. block_last h' b = block_last h b"
  shows "took h bs ls (Some (new + 32)) sz h' (bs @ [new]) ls"
proof -
  have lv': "live_ok (m_live h')" and bl: "blocks_ok h pool ps bs" using rep rep' by (auto simp: pool_rep_def)
  have al: "allocs h' ls = allocs h ls" using L(2) by (simp add: allocs_def)
  have other: "x \<notin> region new ps" if x: "x \<in> region b k" and b: "(b, k) \<in> set (m_live h)" for x b k
  proof -
    have "b \<noteq> new" using nn b by (metis fst_conv imageI)
    then have "new + ps \<le> b \<or> b + k \<le> new" using live_okD[OF lv', of new ps b k] L(1) b by auto
    then show ?thesis using x by (auto simp: region_def)
  qed
  have "x \<notin> {b..<block_last h b}" if x: "x \<in> region new ps" and b: "b \<in> set bs" for x b
  proof -
    have "(b, ps) \<in> set (m_live h)" by (rule blocks_okD[OF bl b])
    then show ?thesis using other[of x b ps] x block_region[OF bl b] by blast
  qed
  moreover have "region (new + 32) sz \<subseteq> region new ps" using sz by (auto simp: region_def)
  ultimately have "region (new + 32) sz \<inter> given h bs ls = {}" using other unfolding given_def by fastforce
  moreover have "given h bs ls \<subseteq> given h' (bs @ [new]) ls" by (rule given_mono) (use B L al in auto)
  moreover have "region (new + 32) sz \<subseteq> given h' (bs @ [new]) ls" using B(1) unfolding given_def region_def by auto
  moreover have "region (new + 32) sz \<subseteq> live_bytes h'" using L(1) sz unfolding live_bytes_def region_def by auto
  ultimately show ?thesis by (simp add: took_def subset_insertI)
qed

text \<open>Memory that was just taken is no block of the pool.\<close>

lemma took_no_block:
  assumes rep: "pool_rep h pool ps bs ls" and tk: "took h bs ls (Some m) sz h' bs' ls'" and "0 < sz"
  shows "m \<notin> set bs"
proof
  assume m: "m \<in> set bs"
  have "blocks_ok h pool ps bs" using rep by (simp add: pool_rep_def)
  then obtain d where "m_blocks h m = Some d" "m + 32 \<le> d_last d" using m by (rule blocks_okD)
  then have "m \<in> given h bs ls" using m unfolding given_def by force
  moreover have "m \<in> region m sz" using assms(3) by (simp add: region_def)
  ultimately show False using tk by (auto simp: took_def)
qed

section \<open>Small allocations\<close>

lemma current_chain:
  assumes "chain nxt p bs" and "c \<in> set bs"
  shows "\<exists>xs. chain nxt (Some c) xs \<and> set xs \<subseteq> set bs"
proof -
  obtain i where "i < length bs" "bs ! i = c" using assms(2) by (auto simp: in_set_conv_nth)
  then show ?thesis using chain_drop[OF assms(1), of i] by (intro exI[of _ "drop i bs"]) (auto dest: in_set_dropD)
qed

lemma palloc_small_ok:
  assumes rep: "pool_rep h pool ps bs ls" and mal: "good_malloc mal" and sz: "sz + 32 \<le> ps"
  shows "\<exists>r h' bs'. ngx_palloc_small mal pool sz align h = Some (r, h') \<and> pool_rep h' pool ps bs' ls \<and>
    took h bs ls r sz h' bs' ls \<and> m_larges h' = m_larges h \<and> (\<exists>c. m_pools h' = m_pools (set_current pool c h)) \<and>
    set (m_live h) \<subseteq> set (m_live h') \<and> (r = None \<longrightarrow> h' = h) \<and> set bs' \<inter> fst ` set (m_live h) \<subseteq> set bs \<and>
    (\<forall>m. r = Some m \<longrightarrow> (align \<longrightarrow> m mod 8 = 0) \<and> (0 < sz \<longrightarrow> m \<notin> set bs' \<and> (\<exists>b \<in> set bs'. b \<le> m \<and> m < block_last h' b)))"
proof -
  obtain s where lv: "live_ok (m_live h)" and bl: "blocks_ok h pool ps bs"
    and s: "m_pools h pool = Some s" "p_current s \<in> set bs"
    using rep by (auto simp: pool_rep_def)
  have ch: "chain (block_next h) (Some pool) bs" "ps mod 8 = 0" using bl by (auto simp: blocks_ok_def)
  obtain xs where xs: "chain (block_next h) (Some (p_current s)) xs" "set xs \<subseteq> set bs" using current_chain[OF ch(1) s(2)] by blast
  have "\<forall>b \<in> set xs. block_ok h ps b" using xs(2) bl by (auto simp: blocks_ok_def)
  from small_loop_ok[OF xs(1) this ch(2), of sz align] show ?thesis
  proof (elim disjE exE conjE)
    assume n: "small_loop (p_current s) sz align h = Some (None, h)"
    then have e: "ngx_palloc_small mal pool sz align h = ngx_palloc_block mal pool sz h"
      by (simp add: ngx_palloc_small_def s(1))
    from palloc_block_ok[OF rep mal sz] show ?thesis
    proof (elim disjE exE conjE)
      assume "ngx_palloc_block mal pool sz h = Some (None, h)"
      moreover have "m_pools h = m_pools (set_current pool (p_current s) h)" using s(1) by (simp add: set_current_def map_upd_triv)
      ultimately show ?thesis using e rep by (intro exI[of _ None] exI[of _ h] exI[of _ bs]) (auto simp: took_def)
    next
      fix new h' c assume r: "ngx_palloc_block mal pool sz h = Some (Some (new + 32), h')"
        and rep': "pool_rep h' pool ps (bs @ [new]) ls" and nn: "new \<notin> fst ` set (m_live h)" "new mod 16 = 0"
        and L: "m_live h' = (new, ps) # m_live h" "m_larges h' = m_larges h" "m_pools h' = m_pools (set_current pool c h)"
        and B: "block_last h' new = new + 32 + sz" "\<forall>b \<in> set bs. block_last h' b = block_last h b"
      note tk = new_block_took[OF rep rep' nn(1) L(1,2) sz B]
      moreover have "new + 32 \<notin> set (bs @ [new])" if "0 < sz" using took_no_block[OF rep tk that] by simp
      moreover have "(new + 32) mod 8 = 0" using nn(2) by presburger
      ultimately show ?thesis using e r rep' L B(1) nn(1)
        by (intro exI[of _ "Some (new + 32)"] exI[of _ h'] exI[of _ "bs @ [new]"]) auto
    qed
  next
    fix m b assume r: "small_loop (p_current s) sz align h = Some (Some m, set_last b (m + sz) h)"
      and b: "b \<in> set xs" "block_last h b \<le> m" "m + sz \<le> b + ps" "align \<longrightarrow> m mod 8 = 0"
    have bb: "b \<in> set bs" using b(1) xs(2) by blast
    note rep' = set_last_rep[OF rep bb _ b(3)] and tk = small_took[OF rep bb b(2,3)]
    obtain d where d: "m_blocks h b = Some d" "b + 32 \<le> d_last d" by (rule blocks_okD[OF bl bb])
    have "m \<notin> set bs" if "0 < sz" using took_no_block[OF rep tk that] .
    moreover have "\<exists>c \<in> set bs. c \<le> m \<and> m < block_last (set_last b (m + sz) h) c" if "0 < sz"
      using bb b(2) d that by (intro bexI[of _ b]) (auto simp: set_last_blocks)
    moreover have "ngx_palloc_small mal pool sz align h = Some (Some m, set_last b (m + sz) h)"
      using r by (simp add: ngx_palloc_small_def s(1))
    moreover have "m_pools h = m_pools (set_current pool (p_current s) h)" using s(1) by (simp add: set_current_def map_upd_triv)
    ultimately show ?thesis using rep' tk b
      by (intro exI[of _ "Some m"] exI[of _ "set_last b (m + sz) h"] exI[of _ bs]) auto
  qed
qed

end
