(* ===== verification/Ngx_Alloc.thy ===== *)
theory Ngx_Alloc
  imports Ngx_Inv
begin

text \<open>
  Large allocations, and the allocation functions of the pool interface: each keeps the
  representation of the pool and hands out memory that nobody else has.
\<close>

section \<open>The list of large allocations\<close>

lemma allocs_simps [simp]:
  "allocs h [] = []"
  "allocs h (l # ls) = (case l_alloc (the (m_larges h l)) of None \<Rightarrow> allocs h ls | Some a \<Rightarrow> a # allocs h ls)"
  by (simp_all add: allocs_def List.map_filter_simps split: option.splits)

lemma allocs_cong: "(\<And>l. l \<in> set ls \<Longrightarrow> m_larges h' l = m_larges h l) \<Longrightarrow> allocs h' ls = allocs h ls"
  by (induction ls) (auto split: option.splits)

lemma large_slot_ok:
  assumes "chain (large_next h) l ls" and "\<forall>a \<in> set ls. m_larges h a \<noteq> None"
  shows "large_slot n l h = Some None \<or>
    (\<exists>a \<in> set ls. large_slot n l h = Some (Some a) \<and> l_alloc (the (m_larges h a)) = None)"
  using assms
proof (induction ls arbitrary: n l)
  case Nil
  then show ?case by (simp add: large_slot.simps)
next
  case (Cons a ls)
  then obtain e where e: "m_larges h a = Some e" "l = Some a" by auto
  then have "chain (large_next h) (l_next e) ls" using Cons.prems(1) by simp
  then have "large_slot (n + 1) (l_next e) h = Some None \<or>
    (\<exists>a \<in> set ls. large_slot (n + 1) (l_next e) h = Some (Some a) \<and> l_alloc (the (m_larges h a)) = None)"
    using Cons.IH Cons.prems(2) by simp
  moreover have "large_slot n l h =
    (if l_alloc e = None then Some (Some a) else if n > 3 then Some None else large_slot (n + 1) (l_next e) h)"
    using e by (subst large_slot.simps) simp
  ultimately show ?case using e by auto
qed

lemma set_alloc_larges: "m_larges (set_alloc a v h) l = (if l = a then map_option (\<lambda>e. e\<lparr>l_alloc := v\<rparr>) (m_larges h a) else m_larges h l)"
  by (simp add: set_alloc_def)

lemma set_alloc_simps [simp]:
  "m_live (set_alloc a v h) = m_live h" "m_blocks (set_alloc a v h) = m_blocks h" "m_pools (set_alloc a v h) = m_pools h"
  "large_next (set_alloc a v h) l = large_next h l"
  by (cases "m_larges h a"; auto simp: set_alloc_def)+

lemma allocs_set_alloc_other: "a \<notin> set ls \<Longrightarrow> allocs (set_alloc a v h) ls = allocs h ls"
  by (induction ls) (auto simp: set_alloc_larges split: option.splits)

lemma allocs_fill:
  assumes "distinct ls" and "a \<in> set ls" and "m_larges h a \<noteq> None" and "l_alloc (the (m_larges h a)) = None"
  shows "set (allocs (set_alloc a (Some p) h) ls) = insert p (set (allocs h ls)) \<and>
    (distinct (allocs h ls) \<longrightarrow> p \<notin> set (allocs h ls) \<longrightarrow> distinct (allocs (set_alloc a (Some p) h) ls))"
  using assms
proof (induction ls)
  case (Cons l ls)
  show ?case
  proof (cases "l = a")
    case True
    then show ?thesis using Cons.prems allocs_set_alloc_other[of a ls "Some p" h] by (auto simp: set_alloc_larges)
  next
    case False
    then have "a \<in> set ls" "distinct ls" using Cons.prems by auto
    with Cons.IH Cons.prems False show ?thesis by (auto simp: set_alloc_larges split: option.splits)
  qed
qed simp

section \<open>A fresh allocation beside the pool\<close>

text \<open>More live memory does not disturb a pool.\<close>

lemma live_more_rep:
  assumes rep: "pool_rep h pool ps bs ls" and "live_ok (x # m_live h)"
  shows "pool_rep (h\<lparr>m_live := x # m_live h\<rparr>) pool ps bs ls"
proof -
  let ?h = "h\<lparr>m_live := x # m_live h\<rparr>"
  have "block_ok ?h ps b" if "block_ok h ps b" for b using that by (simp add: block_ok_def)
  then have "blocks_ok ?h pool ps bs" using rep by (simp add: pool_rep_def blocks_ok_def)
  moreover have "larges_ok ?h bs ls" using rep by (auto simp: pool_rep_def larges_ok_def allocs_def)
  ultimately show ?thesis using rep assms(2) by (simp add: pool_rep_def)
qed

lemma outside_given:
  assumes rep: "pool_rep h pool ps bs ls" and lv: "live_ok ((p, n) # m_live h)" and p: "p \<notin> fst ` set (m_live h)"
  shows "region p n \<inter> given h bs ls = {}" "p \<notin> set bs" "p \<notin> set (allocs h ls)"
proof -
  have bl: "blocks_ok h pool ps bs" and lg: "larges_ok h bs ls" using rep by (auto simp: pool_rep_def)
  have live: "(b, ps) \<in> set (m_live h)" if "b \<in> set bs" for b by (rule blocks_okD[OF bl that])
  then show "p \<notin> set bs" using p by (metis fst_conv imageI)
  show "p \<notin> set (allocs h ls)" using lg p by (auto simp: larges_ok_def)
  have off: "x \<notin> region b k" if x: "x \<in> region p n" and b: "(b, k) \<in> set (m_live h)" for x b k
  proof -
    have "b \<noteq> p" using p b by (metis fst_conv imageI)
    then have "p + n \<le> b \<or> b + k \<le> p" using live_okD[OF lv, of p n b k] b by auto
    then show ?thesis using x by (auto simp: region_def)
  qed
  have "x \<notin> {b..<block_last h b}" if "x \<in> region p n" "b \<in> set bs" for x b
    using off[OF that(1) live[OF that(2)]] block_region[OF bl that(2)] by blast
  then show "region p n \<inter> given h bs ls = {}" using off unfolding given_def by fastforce
qed

lemma given_alloc:
  "a \<in> set (allocs h ls) \<Longrightarrow> (a, n) \<in> set (m_live h) \<Longrightarrow> region a n \<subseteq> given h bs ls \<and> region a n \<subseteq> live_bytes h"
  unfolding given_def live_bytes_def by fastforce

section \<open>Filling a free entry\<close>

lemma fill_slot_ok:
  assumes rep: "pool_rep h pool ps bs ls" and lv: "live_ok ((p, n) # m_live h)" and p: "p \<notin> fst ` set (m_live h)"
    and a: "a \<in> set ls" "l_alloc (the (m_larges h a)) = None"
  defines "h' \<equiv> set_alloc a (Some p) (h\<lparr>m_live := (p, n) # m_live h\<rparr>)"
  shows "pool_rep h' pool ps bs ls \<and> took h bs ls (Some p) n h' bs ls"
proof -
  let ?h1 = "h\<lparr>m_live := (p, n) # m_live h\<rparr>"
  note rep1 = live_more_rep[OF rep lv] and out = outside_given[OF rep lv p]
  obtain s where lg: "larges_ok ?h1 bs ls" and bl: "blocks_ok ?h1 pool ps bs"
    and s: "m_pools ?h1 pool = Some s" "chain (large_next ?h1) (p_large s) ls" "p_current s \<in> set bs" "p_max s + 64 \<le> ps"
    using rep1 by (auto simp: pool_rep_def)
  have same: "allocs ?h1 ls = allocs h ls" by (simp add: allocs_def)
  have al: "set (allocs h' ls) = insert p (set (allocs h ls))" "distinct (allocs h' ls)"
    using allocs_fill[OF chain_distinct[OF s(2)] a(1), of ?h1 p] a out(3) lg unfolding h'_def larges_ok_def same by auto
  have "\<forall>l \<in> set ls. m_larges h' l \<noteq> None \<and> (\<exists>b \<in> set bs. b \<le> l \<and> l < block_last h' b)"
    using lg unfolding h'_def larges_ok_def by (auto simp: set_alloc_larges)
  then have "larges_ok h' bs ls" using lg al out(2) unfolding larges_ok_def same h'_def by auto
  moreover have "blocks_ok h' pool ps bs" using bl unfolding h'_def by (simp add: blocks_ok_def block_ok_def)
  ultimately have "pool_rep h' pool ps bs ls" using s lv unfolding h'_def by (simp add: pool_rep_def)
  moreover have "given h bs ls \<subseteq> given h' bs ls" by (rule given_mono) (use al in \<open>auto simp: h'_def\<close>)
  moreover have "region p n \<subseteq> given h' bs ls \<and> region p n \<subseteq> live_bytes h'"
    by (rule given_alloc) (use al in \<open>auto simp: h'_def\<close>)
  ultimately show ?thesis using out(1) by (simp add: took_def)
qed

section \<open>Adding an entry\<close>

lemma larges_given:
  assumes "larges_ok h bs ls" and "l \<in> set ls"
  shows "l \<in> given h bs ls"
  using assms unfolding larges_ok_def given_def by fastforce

text \<open>The allocation \<open>p\<close> enters the list through an entry at the address \<open>l\<close>, which the pool has just handed out.\<close>

lemma push_large_ok:
  assumes rep: "pool_rep h pool ps bs ls" and l: "l \<notin> set ls" "\<exists>b \<in> set bs. b \<le> l \<and> l < block_last h b"
    and p: "(p, n) \<in> set (m_live h)" "p \<notin> set bs" "p \<notin> set (allocs h ls)"
  shows "\<exists>h'. push_large pool l p h = Some h' \<and> pool_rep h' pool ps bs (l # ls) \<and> given h bs ls \<subseteq> given h' bs (l # ls) \<and>
    region p n \<subseteq> given h' bs (l # ls) \<and> region p n \<subseteq> live_bytes h'"
proof -
  obtain s where lv: "live_ok (m_live h)" and bl: "blocks_ok h pool ps bs" and lg: "larges_ok h bs ls"
    and s: "m_pools h pool = Some s" "p_current s \<in> set bs" "p_max s + 64 \<le> ps" "chain (large_next h) (p_large s) ls"
    using rep by (auto simp: pool_rep_def)
  let ?h' = "h\<lparr>m_larges := (m_larges h)(l \<mapsto> \<lparr>l_next = p_large s, l_alloc = Some p\<rparr>),
              m_pools := (m_pools h)(pool \<mapsto> s\<lparr>p_large := Some l\<rparr>)\<rparr>"
  have "allocs ?h' ls = allocs h ls" by (rule allocs_cong) (use l(1) in auto)
  then have al: "allocs ?h' (l # ls) = p # allocs h ls" by simp
  have "chain (large_next ?h') (p_large s) ls" using s(4) l(1) by (subst chain_cong[of ls _ "large_next h"]) auto
  moreover have "larges_ok ?h' bs (l # ls)"
    unfolding larges_ok_def al using lg l(2) p(2,3) imageI[OF p(1), of fst] by (auto simp: larges_ok_def)
  moreover have "blocks_ok ?h' pool ps bs" using bl by (simp add: blocks_ok_def block_ok_def)
  ultimately have "pool_rep ?h' pool ps bs (l # ls)" using lv s by (simp add: pool_rep_def)
  moreover have "given h bs ls \<subseteq> given ?h' bs (l # ls)" by (rule given_mono) (use al in auto)
  moreover have "region p n \<subseteq> given ?h' bs (l # ls) \<and> region p n \<subseteq> live_bytes ?h'"
    by (rule given_alloc) (use al p in auto)
  ultimately show ?thesis using s(1) by (simp add: push_large_def)
qed

text \<open>An allocation function keeps the pool and hands out memory.\<close>

definition allocates :: "ngx_mem \<Rightarrow> nat \<Rightarrow> nat \<Rightarrow> nat list \<Rightarrow> nat list \<Rightarrow> nat \<Rightarrow> (nat option \<times> ngx_mem) option \<Rightarrow> bool" where
  "allocates h pool ps bs ls n res \<longleftrightarrow> (\<exists>r h' bs' ls'. res = Some (r, h') \<and> pool_rep h' pool ps bs' ls' \<and> took h bs ls r n h' bs' ls')"

lemma allocatesI: "res = Some (r, h') \<Longrightarrow> pool_rep h' pool ps bs' ls' \<Longrightarrow> took h bs ls r n h' bs' ls' \<Longrightarrow> allocates h pool ps bs ls n res"
  unfolding allocates_def by blast

lemma free_fresh:
  "p \<notin> fst ` set (m_live h) \<Longrightarrow> c_free (Some p) (h\<lparr>m_live := (p, n) # m_live h\<rparr>) = Some h"
proof -
  assume p: "p \<notin> fst ` set (m_live h)"
  then have "filter (\<lambda>x. fst x \<noteq> p) (m_live h) = m_live h" by (intro filter_True) (metis imageI)
  then show ?thesis by (simp add: c_free_def)
qed

lemma new_large_ok:
  assumes rep: "pool_rep h pool ps bs ls" and mal: "good_malloc mal"
    and lv: "live_ok ((p, n) # m_live h)" and p: "p \<notin> fst ` set (m_live h)"
  shows "allocates h pool ps bs ls n (new_large mal pool p (h\<lparr>m_live := (p, n) # m_live h\<rparr>))"
proof -
  let ?h1 = "h\<lparr>m_live := (p, n) # m_live h\<rparr>"
  note rep1 = live_more_rep[OF rep lv] and out = outside_given[OF rep lv p]
  have g1: "given ?h1 bs ls = given h bs ls"
    using out(3) by (auto simp: given_def allocs_def region_def)
  have ps: "sizeof_ngx_pool_large_t + 32 \<le> ps" using rep by (auto simp: pool_rep_def blocks_ok_def ngx_sizes)
  obtain r h2 bs2 where S: "ngx_palloc_small mal pool sizeof_ngx_pool_large_t True ?h1 = Some (r, h2)"
    "pool_rep h2 pool ps bs2 ls" "took ?h1 bs ls r sizeof_ngx_pool_large_t h2 bs2 ls" "m_larges h2 = m_larges ?h1"
    "set (m_live ?h1) \<subseteq> set (m_live h2)" "r = None \<longrightarrow> h2 = ?h1"
    "\<forall>m. r = Some m \<longrightarrow> (True \<longrightarrow> m mod 8 = 0) \<and> (0 < sizeof_ngx_pool_large_t \<longrightarrow> m \<notin> set bs2 \<and> (\<exists>b \<in> set bs2. b \<le> m \<and> m < block_last h2 b))"
    "set bs2 \<inter> fst ` set (m_live ?h1) \<subseteq> set bs"
    using palloc_small_ok[OF rep1 mal ps, of True] by blast
  show ?thesis
  proof (cases r)
    case None
    then have "new_large mal pool p ?h1 = Some (None, h)"
      using S(1,6) free_fresh[OF p] by (simp add: new_large_def)
    then show ?thesis using rep by (rule allocatesI) (simp add: took_def)
  next
    case (Some l)
    have lg: "larges_ok ?h1 bs ls" using rep1 by (simp add: pool_rep_def)
    have "l \<in> region l sizeof_ngx_pool_large_t" by (simp add: region_def ngx_sizes)
    then have ll: "l \<notin> set ls" using S(3) Some larges_given[OF lg] by (auto simp: took_def)
    have pb: "p \<notin> set bs2" using S(8) out(2) by auto
    have pa: "p \<notin> set (allocs h2 ls)" using out(3) S(4) by (simp add: allocs_def)
    have pl: "(p, n) \<in> set (m_live h2)" using S(5) by auto
    have lb: "\<exists>b \<in> set bs2. b \<le> l \<and> l < block_last h2 b" using S(7) Some by (simp add: ngx_sizes)
    obtain h' where P: "push_large pool l p h2 = Some h'" "pool_rep h' pool ps bs2 (l # ls)"
      "given h2 bs2 ls \<subseteq> given h' bs2 (l # ls)" "region p n \<subseteq> given h' bs2 (l # ls)" "region p n \<subseteq> live_bytes h'"
      using push_large_ok[OF S(2) ll lb pl pb pa] by blast
    have "new_large mal pool p ?h1 = Some (Some p, h')" using S(1) Some P(1) by (simp add: new_large_def)
    moreover have "took h bs ls (Some p) n h' bs2 (l # ls)" using P S(3) out(1) g1 by (auto simp: took_def)
    ultimately show ?thesis using P(2) by (blast intro: allocatesI)
  qed
qed

section \<open>The allocation functions\<close>

lemma palloc_large_ok:
  assumes rep: "pool_rep h pool ps bs ls" and mal: "good_malloc mal"
  shows "allocates h pool ps bs ls n (ngx_palloc_large mal pool n h)"
proof -
  obtain s where lv: "live_ok (m_live h)" and lg: "larges_ok h bs ls"
    and s: "m_pools h pool = Some s" "chain (large_next h) (p_large s) ls"
    using rep by (auto simp: pool_rep_def)
  show ?thesis
  proof (cases rule: ngx_alloc_ok[OF mal lv, of n])
    case 1
    then have "ngx_palloc_large mal pool n h = Some (None, h)" by (simp add: ngx_palloc_large_def)
    then show ?thesis using rep by (rule allocatesI) (simp add: took_def)
  next
    case (2 p)
    let ?h1 = "h\<lparr>m_live := (p, n) # m_live h\<rparr>"
    have "chain (large_next ?h1) (p_large s) ls" "\<forall>a \<in> set ls. m_larges ?h1 a \<noteq> None"
      using s(2) lg by (auto simp: larges_ok_def)
    from large_slot_ok[OF this, of 0] show ?thesis
    proof (elim disjE bexE conjE)
      assume "large_slot 0 (p_large s) ?h1 = Some None"
      then have "ngx_palloc_large mal pool n h = new_large mal pool p ?h1" using 2(1) s(1) by (simp add: ngx_palloc_large_def)
      then show ?thesis using new_large_ok[OF rep mal 2(2,6)] by simp
    next
      fix a assume a: "a \<in> set ls" "large_slot 0 (p_large s) ?h1 = Some (Some a)" "l_alloc (the (m_larges ?h1 a)) = None"
      then have "ngx_palloc_large mal pool n h = Some (Some p, set_alloc a (Some p) ?h1)" using 2(1) s(1) by (simp add: ngx_palloc_large_def)
      then show ?thesis using fill_slot_ok[OF rep 2(2,6) a(1)] a(3) by (auto intro: allocatesI)
    qed
  qed
qed

lemma palloc_small_allocates:
  assumes "pool_rep h pool ps bs ls" and "good_malloc mal" and "sz + 32 \<le> ps"
  shows "allocates h pool ps bs ls sz (ngx_palloc_small mal pool sz align h)"
  using palloc_small_ok[OF assms, of align] by (auto simp: allocates_def)

lemma palloc_ok:
  assumes rep: "pool_rep h pool ps bs ls" and mal: "good_malloc mal"
  shows "allocates h pool ps bs ls n (ngx_palloc mal pool n h)" "allocates h pool ps bs ls n (ngx_pnalloc mal pool n h)"
proof -
  obtain s where s: "m_pools h pool = Some s" "p_max s + 64 \<le> ps" using rep by (auto simp: pool_rep_def)
  then show "allocates h pool ps bs ls n (ngx_palloc mal pool n h)" "allocates h pool ps bs ls n (ngx_pnalloc mal pool n h)"
    using palloc_small_allocates[OF rep mal, of n] palloc_large_ok[OF rep mal, of n] by (auto simp: ngx_palloc_def ngx_pnalloc_def)
qed

lemma pmemalign_ok:
  assumes rep: "pool_rep h pool ps bs ls" and mal: "good_malloc mal"
  shows "allocates h pool ps bs ls n (ngx_pmemalign mal pool n h)"
proof -
  have lv: "live_ok (m_live h)" using rep by (simp add: pool_rep_def)
  show ?thesis
  proof (cases rule: ngx_alloc_ok[OF mal lv, of n])
    case 1
    then have "ngx_pmemalign mal pool n h = Some (None, h)" by (simp add: ngx_pmemalign_def)
    then show ?thesis using rep by (rule allocatesI) (simp add: took_def)
  next
    case (2 p)
    then show ?thesis using new_large_ok[OF rep mal 2(2,6)] by (simp add: ngx_pmemalign_def)
  qed
qed

lemma mem_zero_rep [simp]: "pool_rep (mem_zero a n h) pool ps bs ls = pool_rep h pool ps bs ls"
  by (simp add: mem_zero_def pool_rep_def blocks_ok_def block_ok_def larges_ok_def allocs_def)

lemma mem_zero_given [simp]: "given (mem_zero a n h) bs ls = given h bs ls" "live_bytes (mem_zero a n h) = live_bytes h"
  by (simp_all add: mem_zero_def given_def allocs_def live_bytes_def)

lemma pcalloc_ok:
  assumes rep: "pool_rep h pool ps bs ls" and mal: "good_malloc mal"
  shows "\<exists>r h' bs' ls'. ngx_pcalloc mal pool n h = Some (r, h') \<and> pool_rep h' pool ps bs' ls' \<and> took h bs ls r n h' bs' ls' \<and>
    (\<forall>m. r = Some m \<longrightarrow> (\<forall>a \<in> region m n. m_bytes h' a = 0))"
proof -
  obtain r h' bs' ls' where A: "ngx_palloc mal pool n h = Some (r, h')" "pool_rep h' pool ps bs' ls'" "took h bs ls r n h' bs' ls'"
    using palloc_ok(1)[OF rep mal, of n] by (auto simp: allocates_def)
  show ?thesis
  proof (cases r)
    case None
    then show ?thesis using A by (auto simp: ngx_pcalloc_def)
  next
    case (Some m)
    then have "ngx_pcalloc mal pool n h = Some (Some m, mem_zero m n h')" using A(1) by (simp add: ngx_pcalloc_def)
    moreover have "took h bs ls (Some m) n (mem_zero m n h') bs' ls'" using A(3) Some by (simp add: took_def)
    moreover have "\<forall>a \<in> region m n. m_bytes (mem_zero m n h') a = 0" by (simp add: mem_zero_def region_def)
    ultimately show ?thesis using A(2) by (intro exI[of _ "Some m"] exI[of _ "mem_zero m n h'"] exI[of _ bs'] exI[of _ ls']) auto
  qed
qed

section \<open>Creating a pool\<close>

lemma create_pool_ok:
  assumes mal: "good_malloc mal" and lv: "live_ok (m_live h)" and n: "64 \<le> n" "n mod 8 = 0"
  shows "ngx_create_pool mal n h = Some (None, h) \<or>
    (\<exists>p h'. ngx_create_pool mal n h = Some (Some p, h') \<and> pool_rep h' p n [p] [] \<and> given h' [p] [] = region p 64 \<and>
       m_live h' = (p, n) # m_live h)"
proof (cases rule: ngx_alloc_ok[OF mal lv, of n])
  case 1
  then show ?thesis by (simp add: ngx_create_pool_def)
next
  case (2 p)
  have "n < 2 ^ 64" using 2(5) by simp
  then have sz: "size_sub n 64 = n - 64" using n(1) by (rule size_sub_le[rotated])
  obtain h' where h': "ngx_create_pool mal n h = Some (Some p, h')" "m_live h' = (p, n) # m_live h"
    "m_blocks h' p = Some \<lparr>d_last = p + 64, d_end = p + n, d_next = None, d_failed = 0\<rparr>"
    "\<exists>s. m_pools h' p = Some s \<and> p_current s = p \<and> p_max s \<le> n - 64 \<and> p_large s = None"
    using 2(1) n(1) sz by (simp add: ngx_create_pool_def ngx_sizes Let_def)
  have "block_ok h' n p" unfolding block_ok_def using h' 2(4,5) n by simp
  then have "blocks_ok h' p n [p]" using h' n by (simp add: blocks_ok_def)
  then have "pool_rep h' p n [p] []" using h' 2(2) n by (auto simp: pool_rep_def larges_ok_def)
  moreover have "given h' [p] [] = region p 64" using h' by (simp add: given_def region_def)
  ultimately show ?thesis using h' by auto
qed

end
