(* ===== verification/Ngx_Free.thy ===== *)
theory Ngx_Free
  imports Ngx_Alloc
begin

text \<open>
  Giving memory back: freeing one large allocation, resetting a pool and destroying it. No allocation
  is freed twice, and destroying frees exactly what the pool holds.
\<close>

section \<open>Freeing one allocation\<close>

lemma pfree_loop_ok:
  assumes "chain (large_next h) l ls" and "\<forall>a \<in> set ls. m_larges h a \<noteq> None"
  shows "p \<notin> set (allocs h ls) \<Longrightarrow> pfree_loop l (Some p) h = Some (- 5, h)"
    and "p \<in> set (allocs h ls) \<Longrightarrow> p \<in> fst ` set (m_live h) \<Longrightarrow>
      \<exists>a \<in> set ls. l_alloc (the (m_larges h a)) = Some p \<and>
        pfree_loop l (Some p) h = Some (0, set_alloc a None (h\<lparr>m_live := filter (\<lambda>x. fst x \<noteq> p) (m_live h)\<rparr>))"
proof -
  have "(p \<notin> set (allocs h ls) \<longrightarrow> pfree_loop l (Some p) h = Some (- 5, h)) \<and>
    (p \<in> set (allocs h ls) \<and> p \<in> fst ` set (m_live h) \<longrightarrow>
      (\<exists>a \<in> set ls. l_alloc (the (m_larges h a)) = Some p \<and>
        pfree_loop l (Some p) h = Some (0, set_alloc a None (h\<lparr>m_live := filter (\<lambda>x. fst x \<noteq> p) (m_live h)\<rparr>))))"
    using assms
  proof (induction ls arbitrary: l)
    case Nil
    then show ?case by (simp add: pfree_loop.simps)
  next
    case (Cons a ls)
    then obtain e where e: "m_larges h a = Some e" "l = Some a" by auto
    have st: "pfree_loop l (Some p) h = (if Some p = l_alloc e then do { h' \<leftarrow> c_free (l_alloc e) h; Some (0, set_alloc a None h') }
        else pfree_loop (l_next e) (Some p) h)"
      using e by (subst pfree_loop.simps) simp
    have "chain (large_next h) (l_next e) ls" using Cons.prems(1) e by simp
    note IH = Cons.IH[OF this] 
    show ?case
    proof (cases "l_alloc e = Some p")
      case True
      then show ?thesis using st e by (auto simp: c_free_def)
    next
      case False
      then have "p \<in> set (allocs h (a # ls)) \<longleftrightarrow> p \<in> set (allocs h ls)" using e by (auto split: option.splits)
      then show ?thesis using st e IH Cons.prems(2) False by auto
    qed
  qed
  then show "p \<notin> set (allocs h ls) \<Longrightarrow> pfree_loop l (Some p) h = Some (- 5, h)"
    and "p \<in> set (allocs h ls) \<Longrightarrow> p \<in> fst ` set (m_live h) \<Longrightarrow>
      \<exists>a \<in> set ls. l_alloc (the (m_larges h a)) = Some p \<and>
        pfree_loop l (Some p) h = Some (0, set_alloc a None (h\<lparr>m_live := filter (\<lambda>x. fst x \<noteq> p) (m_live h)\<rparr>))"
    by auto
qed

lemma allocs_clear:
  assumes "distinct ls" and "a \<in> set ls" and "l_alloc (the (m_larges h a)) = Some p" and "m_larges h a \<noteq> None" and "distinct (allocs h ls)"
  shows "set (allocs (set_alloc a None h) ls) = set (allocs h ls) - {p} \<and> distinct (allocs (set_alloc a None h) ls)"
  using assms
proof (induction ls)
  case (Cons l ls)
  show ?case
  proof (cases "l = a")
    case True
    then show ?thesis using Cons.prems allocs_set_alloc_other[of a ls None h] by (auto simp: set_alloc_larges)
  next
    case False
    then have "a \<in> set ls" "distinct ls" "distinct (allocs h ls)" using Cons.prems by (auto split: option.splits)
    moreover from this Cons.prems have "p \<in> set (allocs h ls)"
      by (induction ls) (auto split: option.splits)
    ultimately show ?thesis using Cons.IH Cons.prems False by (auto simp: set_alloc_larges split: option.splits)
  qed
qed simp

lemma live_ok_filter: "live_ok L \<Longrightarrow> live_ok (filter P L)"
  by (auto simp: live_ok_def distinct_map intro: inj_on_subset)

lemma blocks_ok_live:
  assumes "blocks_ok h pool ps bs" and "\<And>b. b \<in> set bs \<Longrightarrow> (b, ps) \<in> set (m_live h')" and "m_blocks h' = m_blocks h"
  shows "blocks_ok h' pool ps bs"
  using assms by (simp add: blocks_ok_def block_ok_def)

lemma pfree_ok:
  assumes rep: "pool_rep h pool ps bs ls"
  shows "p \<notin> set (allocs h ls) \<Longrightarrow> ngx_pfree pool (Some p) h = Some (- 5, h)"
    and "p \<in> set (allocs h ls) \<Longrightarrow> \<exists>h'. ngx_pfree pool (Some p) h = Some (0, h') \<and> pool_rep h' pool ps bs ls \<and>
      m_live h' = filter (\<lambda>x. fst x \<noteq> p) (m_live h) \<and> set (allocs h' ls) = set (allocs h ls) - {p}"
proof -
  obtain s where lv: "live_ok (m_live h)" and bl: "blocks_ok h pool ps bs" and lg: "larges_ok h bs ls"
    and s: "m_pools h pool = Some s" "p_current s \<in> set bs" "p_max s + 64 \<le> ps" "chain (large_next h) (p_large s) ls"
    using rep by (auto simp: pool_rep_def)
  have ex: "\<forall>a \<in> set ls. m_larges h a \<noteq> None" using lg by (simp add: larges_ok_def)
  note P = pfree_loop_ok[OF s(4) ex, of p]
  show "p \<notin> set (allocs h ls) \<Longrightarrow> ngx_pfree pool (Some p) h = Some (- 5, h)" using P(1) s(1) by (simp add: ngx_pfree_def)
  assume p: "p \<in> set (allocs h ls)"
  then have pl: "p \<in> fst ` set (m_live h)" "p \<notin> set bs" using lg by (auto simp: larges_ok_def)
  let ?h1 = "h\<lparr>m_live := filter (\<lambda>x. fst x \<noteq> p) (m_live h)\<rparr>"
  obtain a where a: "a \<in> set ls" "l_alloc (the (m_larges h a)) = Some p"
    "pfree_loop (p_large s) (Some p) h = Some (0, set_alloc a None ?h1)" using P(2)[OF p pl(1)] by blast
  let ?h' = "set_alloc a None ?h1"
  have same: "allocs ?h1 ls = allocs h ls" by (rule allocs_cong) simp
  have al: "set (allocs ?h' ls) = set (allocs h ls) - {p} \<and> distinct (allocs ?h' ls)"
    using allocs_clear[OF chain_distinct[OF s(4)] a(1), of ?h1 p] a(1,2) ex lg unfolding same by (auto simp: larges_ok_def)
  have "(b, ps) \<in> set (m_live ?h')" if "b \<in> set bs" for b
  proof -
    have "(b, ps) \<in> set (m_live h)" by (rule blocks_okD[OF bl that])
    then show ?thesis using that pl(2) by auto
  qed
  then have "blocks_ok ?h' pool ps bs" using blocks_ok_live[OF bl, of ?h'] by simp
  moreover have "larges_ok ?h' bs ls" using lg al by (auto simp: larges_ok_def set_alloc_larges image_iff)
  ultimately have "pool_rep ?h' pool ps bs ls" using live_ok_filter[OF lv] s by (simp add: pool_rep_def)
  then show "\<exists>h'. ngx_pfree pool (Some p) h = Some (0, h') \<and> pool_rep h' pool ps bs ls \<and>
      m_live h' = filter (\<lambda>x. fst x \<noteq> p) (m_live h) \<and> set (allocs h' ls) = set (allocs h ls) - {p}"
    using a(3) s(1) al by (auto simp: ngx_pfree_def)
qed

section \<open>Freeing everything\<close>

lemma live_without:
  assumes "p \<notin> S" and "S \<subseteq> fst ` set L"
  shows "S \<subseteq> fst ` set (filter (\<lambda>x. fst x \<noteq> p) L)"
proof
  fix x assume "x \<in> S"
  then obtain y where "y \<in> set L" "fst y = x" "x \<noteq> p" using assms by blast
  then show "x \<in> fst ` set (filter (\<lambda>x. fst x \<noteq> p) L)" by auto
qed

lemma free_larges_ok:
  assumes "chain (large_next h) l ls" and "\<forall>a \<in> set ls. m_larges h a \<noteq> None" and "distinct (allocs h ls)"
    and "set (allocs h ls) \<subseteq> fst ` set (m_live h)"
  shows "free_larges l h = Some (h\<lparr>m_live := filter (\<lambda>x. fst x \<notin> set (allocs h ls)) (m_live h)\<rparr>)"
  using assms
proof (induction ls arbitrary: l h)
  case Nil
  then show ?case by (simp add: free_larges.simps)
next
  case (Cons a ls)
  then obtain e where e: "m_larges h a = Some e" "l = Some a" by auto
  show ?case
  proof (cases "l_alloc e")
    case None
    have "free_larges l h = free_larges (l_next e) h" using e None by (subst free_larges.simps) simp
    then show ?thesis using Cons.IH[of h "l_next e"] Cons.prems e None by simp
  next
    case (Some p)
    let ?h = "h\<lparr>m_live := filter (\<lambda>x. fst x \<noteq> p) (m_live h)\<rparr>"
    have p: "p \<in> fst ` set (m_live h)" "p \<notin> set (allocs h ls)" using Cons.prems(3,4) e Some by auto
    have "free_larges l h = free_larges (l_next e) ?h" using e Some p(1) by (subst free_larges.simps) (simp add: c_free_def)
    moreover have same: "allocs ?h ls = allocs h ls" by (rule allocs_cong) simp
    moreover have "set (allocs h ls) \<subseteq> fst ` set (m_live ?h)" using live_without[OF p(2), of "m_live h"] Cons.prems(4) e Some by simp
    ultimately show ?thesis using Cons.IH[of ?h "l_next e"] Cons.prems e Some by (simp add: conj_commute)
  qed
qed

lemma free_blocks_ok:
  assumes "chain (block_next h) (Some p) (p # xs)" and "\<forall>b \<in> set (p # xs). m_blocks h b \<noteq> None"
    and "set (p # xs) \<subseteq> fst ` set (m_live h)"
  shows "free_blocks p (block_next h p) h = Some (h\<lparr>m_live := filter (\<lambda>x. fst x \<notin> set (p # xs)) (m_live h)\<rparr>)"
  using assms
proof (induction xs arbitrary: p h)
  case Nil
  then show ?case by (subst free_blocks.simps) (simp add: c_free_def)
next
  case (Cons q xs)
  let ?h = "h\<lparr>m_live := filter (\<lambda>x. fst x \<noteq> p) (m_live h)\<rparr>"
  have n: "block_next h p = Some q" using Cons.prems(1) by simp
  obtain d where d: "m_blocks h q = Some d" using Cons.prems(2) by auto
  have "p \<notin> set (q # xs)" using chain_distinct[OF Cons.prems(1)] by simp
  then have "set (q # xs) \<subseteq> fst ` set (m_live ?h)" using live_without[of p "set (q # xs)" "m_live h"] Cons.prems(3) by simp
  moreover have "free_blocks p (block_next h p) h = free_blocks q (block_next ?h q) ?h"
    using Cons.prems(3) n d by (subst free_blocks.simps) (simp add: c_free_def)
  ultimately show ?case using Cons.IH[of ?h q] Cons.prems(1,2) by (simp add: conj_commute)
qed

section \<open>Resetting\<close>

lemma reset_blocks_ok:
  assumes "chain (block_next h) p bs" and "\<forall>b \<in> set bs. m_blocks h b \<noteq> None"
  shows "reset_blocks p h = Some (h\<lparr>m_blocks := (\<lambda>b. if b \<in> set bs
    then map_option (\<lambda>d. d\<lparr>d_last := b + 64, d_failed := 0\<rparr>) (m_blocks h b) else m_blocks h b)\<rparr>)"
  using assms
proof (induction bs arbitrary: p h)
  case Nil
  then show ?case by (simp add: reset_blocks.simps)
next
  case (Cons b bs)
  then obtain d where d: "m_blocks h b = Some d" "p = Some b" by auto
  have nb: "b \<notin> set bs" using chain_distinct[OF Cons.prems(1)] by simp
  let ?h = "h\<lparr>m_blocks := (m_blocks h)(b \<mapsto> d\<lparr>d_last := b + 64, d_failed := 0\<rparr>)\<rparr>"
  have "reset_blocks p h = reset_blocks (d_next d) ?h" using d by (subst reset_blocks.simps) (simp add: ngx_sizes)
  moreover have "chain (block_next ?h) (d_next d) bs"
    using Cons.prems(1) d nb by (subst chain_cong[of bs _ "block_next h"]) auto
  ultimately show ?case using Cons.IH[of ?h "d_next d"] Cons.prems(2) d nb by (auto intro!: arg_cong[of _ _ "\<lambda>B. h\<lparr>m_blocks := B\<rparr>"])
qed

lemma reset_pool_ok:
  assumes rep: "pool_rep h pool ps bs ls"
  shows "\<exists>h'. ngx_reset_pool pool h = Some h' \<and> pool_rep h' pool ps bs [] \<and> given h' bs [] = (\<Union>b \<in> set bs. region b 64) \<and>
    m_live h' = filter (\<lambda>x. fst x \<notin> set (allocs h ls)) (m_live h)"
proof -
  obtain s where lv: "live_ok (m_live h)" and bl: "blocks_ok h pool ps bs" and lg: "larges_ok h bs ls"
    and s: "m_pools h pool = Some s" "p_max s + 64 \<le> ps" "chain (large_next h) (p_large s) ls"
    using rep by (auto simp: pool_rep_def)
  have ch: "chain (block_next h) (Some pool) bs" "64 \<le> ps" "ps mod 8 = 0" using bl by (auto simp: blocks_ok_def)
  let ?h1 = "h\<lparr>m_live := filter (\<lambda>x. fst x \<notin> set (allocs h ls)) (m_live h)\<rparr>"
  let ?B = "\<lambda>b. if b \<in> set bs then map_option (\<lambda>d. d\<lparr>d_last := b + 64, d_failed := 0\<rparr>) (m_blocks h b) else m_blocks h b"
  let ?h' = "?h1\<lparr>m_blocks := ?B, m_pools := (m_pools h)(pool \<mapsto> s\<lparr>p_current := pool, p_large := None\<rparr>)\<rparr>"
  have ex: "\<forall>b \<in> set bs. m_blocks h b \<noteq> None" using bl by (auto simp: blocks_ok_def block_ok_def)
  have "free_larges (p_large s) h = Some ?h1" by (rule free_larges_ok[OF s(3)]) (use lg in \<open>auto simp: larges_ok_def\<close>)
  moreover have "reset_blocks (Some pool) ?h1 = Some (?h1\<lparr>m_blocks := ?B\<rparr>)"
    using reset_blocks_ok[of ?h1 "Some pool" bs] ch(1) ex by (simp cong: if_cong)
  ultimately have r: "ngx_reset_pool pool h = Some ?h'" using s(1) by (simp add: ngx_reset_pool_def)
  have pin: "pool \<in> set bs" using ch(1) by (cases bs) auto
  have nx: "block_next ?h' b = block_next h b" "block_last ?h' b = b + 64" if "b \<in> set bs" for b
    using that bl by (auto simp: blocks_ok_def block_ok_def)
  have "chain (block_next ?h') (Some pool) bs" using ch(1) nx(1) by (subst chain_cong[of bs _ "block_next h"]) auto
  moreover have "block_ok ?h' ps b" if b: "b \<in> set bs" for b
  proof -
    obtain d where "m_blocks h b = Some d" "d_end d = b + ps" "(b, ps) \<in> set (m_live h)" "b mod 16 = 0" "b + ps \<le> 2 ^ 63"
      by (rule blocks_okD[OF bl b])
    moreover have "b \<notin> set (allocs h ls)" using lg b by (auto simp: larges_ok_def)
    ultimately show ?thesis using b ch(2) by (simp add: block_ok_def)
  qed
  ultimately have "blocks_ok ?h' pool ps bs" using ch(2,3) by (simp add: blocks_ok_def)
  then have "pool_rep ?h' pool ps bs []"
    using live_ok_filter[OF lv] s(2) pin by (simp add: pool_rep_def larges_ok_def)
  moreover have "given ?h' bs [] = (\<Union>b \<in> set bs. region b 64)" using nx(2) by (simp add: given_def region_def)
  ultimately show ?thesis using r by auto
qed

section \<open>Destroying\<close>

abbreviation cleanup_next :: "ngx_mem \<Rightarrow> nat \<Rightarrow> nat option" where
  "cleanup_next h c \<equiv> c_next (the (m_cleanups h c))"

text \<open>A cleanup list whose entries exist, and whose file handlers have their data.\<close>

definition cleanups_ok :: "ngx_mem \<Rightarrow> nat list \<Rightarrow> bool" where
  "cleanups_ok h cs \<longleftrightarrow> (\<forall>c \<in> set cs. \<exists>e. m_cleanups h c = Some e \<and>
     (c_handler e = Some CleanupFile \<or> c_handler e = Some DeleteFile \<longrightarrow> (\<exists>a. c_data e = Some a \<and> m_files h a \<noteq> None)))"

definition fired :: "ngx_mem \<Rightarrow> nat \<Rightarrow> ngx_event list" where
  "fired h c = (let e = the (m_cleanups h c) in
     case c_handler e of
       None \<Rightarrow> []
     | Some CleanupFile \<Rightarrow> [EvClose (f_fd (the (m_files h (the (c_data e)))))]
     | Some DeleteFile \<Rightarrow> [EvUnlink (f_name (the (m_files h (the (c_data e))))), EvClose (f_fd (the (m_files h (the (c_data e)))))]
     | Some (UserHandler i) \<Rightarrow> [EvCall i (c_data e)])"

lemma fired_events [simp]: "fired (h\<lparr>m_events := x\<rparr>) = fired h"
  by (simp add: fired_def fun_eq_iff Let_def split: option.splits ngx_pool_cleanup_pt.splits)

lemma run_cleanups_ok:
  assumes "chain (cleanup_next h) c cs" and "cleanups_ok h cs"
  shows "run_cleanups c h = Some (h\<lparr>m_events := m_events h @ concat (map (fired h) cs)\<rparr>)"
  using assms
proof (induction cs arbitrary: c h)
  case Nil
  then show ?case by (simp add: run_cleanups.simps)
next
  case (Cons a cs)
  then obtain e where e: "m_cleanups h a = Some e" "c = Some a"
    "c_handler e = Some CleanupFile \<or> c_handler e = Some DeleteFile \<longrightarrow> (\<exists>a. c_data e = Some a \<and> m_files h a \<noteq> None)"
    by (auto simp: cleanups_ok_def)
  let ?h = "h\<lparr>m_events := m_events h @ fired h a\<rparr>"
  have "(case c_handler e of None \<Rightarrow> Some h | Some f \<Rightarrow> call_handler f (c_data e) h) = Some ?h"
    using e by (auto simp: fired_def ngx_pool_cleanup_file_def ngx_pool_delete_file_def split: option.splits ngx_pool_cleanup_pt.splits)
  then have "run_cleanups c h = run_cleanups (c_next e) ?h" using e(1,2) by (subst run_cleanups.simps) simp
  moreover have "chain (cleanup_next ?h) (c_next e) cs"
    using Cons.prems(1) e by simp
  moreover have "cleanups_ok ?h cs" using Cons.prems(2) by (simp add: cleanups_ok_def)
  ultimately show ?case using Cons.IH[of ?h "c_next e"] by simp
qed

lemma destroy_pool_ok:
  assumes rep: "pool_rep h pool ps bs ls" and s: "m_pools h pool = Some s"
    and cl: "chain (cleanup_next h) (p_cleanup s) cs" "cleanups_ok h cs"
  shows "\<exists>h'. ngx_destroy_pool pool h = Some h' \<and> m_events h' = m_events h @ concat (map (fired h) cs) \<and>
    m_live h' = filter (\<lambda>x. fst x \<notin> set bs \<union> set (allocs h ls)) (m_live h)"
proof -
  have bl: "blocks_ok h pool ps bs" and lg: "larges_ok h bs ls" and pl: "chain (large_next h) (p_large s) ls"
    using rep s by (auto simp: pool_rep_def)
  have ch: "chain (block_next h) (Some pool) bs" using bl by (simp add: blocks_ok_def)
  then obtain xs where bs: "bs = pool # xs" by (cases bs) auto
  let ?h1 = "h\<lparr>m_events := m_events h @ concat (map (fired h) cs)\<rparr>"
  let ?h2 = "?h1\<lparr>m_live := filter (\<lambda>x. fst x \<notin> set (allocs h ls)) (m_live h)\<rparr>"
  have r1: "run_cleanups (p_cleanup s) h = Some ?h1" by (rule run_cleanups_ok[OF cl])
  have same: "allocs ?h1 ls = allocs h ls" by (rule allocs_cong) simp
  have r2: "free_larges (p_large s) ?h1 = Some ?h2"
    using free_larges_ok[of ?h1 "p_large s" ls] pl lg unfolding same by (auto simp: larges_ok_def)
  have "b \<in> fst ` set (m_live ?h2)" if "b \<in> set bs" for b
  proof -
    have "(b, ps) \<in> set (m_live h)" by (rule blocks_okD[OF bl that])
    moreover have "b \<notin> set (allocs h ls)" using lg that by (auto simp: larges_ok_def)
    ultimately have "(b, ps) \<in> set (m_live ?h2)" by simp
    then show ?thesis by (metis fst_conv imageI)
  qed
  then have r3: "free_blocks pool (block_next ?h2 pool) ?h2 = Some (?h2\<lparr>m_live := filter (\<lambda>x. fst x \<notin> set bs) (m_live ?h2)\<rparr>)"
    unfolding bs using ch bl bs by (intro free_blocks_ok) (auto simp: blocks_ok_def block_ok_def)
  obtain d where "m_blocks h pool = Some d" using bl bs by (auto simp: blocks_ok_def block_ok_def)
  then have "ngx_destroy_pool pool h = Some (?h2\<lparr>m_live := filter (\<lambda>x. fst x \<notin> set bs) (m_live ?h2)\<rparr>)"
    using s r1 r2 r3 by (simp add: ngx_destroy_pool_def)
  then show ?thesis by (auto intro: arg_cong[of _ _ "\<lambda>P. filter P (m_live h)"] simp: fun_eq_iff)
qed

end
