(* ===== verification/Ngx_Correct.thy ===== *)
theory Ngx_Correct
  imports Ngx_Free
begin

text \<open>
  The statements about the memory pool, with a concrete allocator on which they are applied.
\<close>

declare small_loop.simps [code] failed_loop.simps [code] pfree_loop.simps [code] free_larges.simps [code]
  free_blocks.simps [code] run_cleanups.simps [code] run_file_loop.simps [code] reset_blocks.simps [code]

section \<open>A concrete allocator\<close>

text \<open>The next multiple of 16 behind all live allocations.\<close>

fun top_of :: "(nat \<times> nat) list \<Rightarrow> nat" where
  "top_of [] = 0"
| "top_of ((a, n) # L) = max (a + n) (top_of L)"

definition bump_malloc :: malloc where
  "bump_malloc live n = (let a = 16 * (top_of live div 16 + 1) in if a + n \<le> 2 ^ 63 then Some a else None)"

lemma top_of_ge: "(a, n) \<in> set L \<Longrightarrow> a + n \<le> top_of L"
  by (induction L rule: top_of.induct) auto

lemma bump_good: "good_malloc bump_malloc"
proof -
  have "apart (a, n) y" if "y \<in> set live" "a = 16 * (top_of live div 16 + 1)" for live n a y
  proof -
    have "top_of live < a" unfolding that(2) by (metis dividend_less_div_times mult.commute zero_less_numeral add.commute Suc_eq_plus1 mult_Suc_right)
    then show ?thesis using top_of_ge[of "fst y" "snd y" live] that(1) by (auto simp: apart_def)
  qed
  then show ?thesis unfolding good_malloc_def bump_malloc_def by (auto simp: Let_def split: if_splits)
qed

definition empty_mem :: ngx_mem where
  "empty_mem = \<lparr>m_live = [], m_bytes = (\<lambda>_. 0), m_blocks = (\<lambda>_. None), m_pools = (\<lambda>_. None), m_larges = (\<lambda>_. None),
     m_cleanups = (\<lambda>_. None), m_files = (\<lambda>_. None), m_events = []\<rparr>"

lemma empty_live: "live_ok (m_live empty_mem)"
  by (simp add: empty_mem_def live_ok_def)

definition sample_pool :: ngx_mem where
  "sample_pool = snd (the (ngx_create_pool bump_malloc 128 empty_mem))"

lemma sample_create: "ngx_create_pool bump_malloc 128 empty_mem = Some (Some 16, sample_pool)"
  unfolding sample_pool_def by (simp add: ngx_create_pool_def ngx_alloc_def bump_malloc_def empty_mem_def ngx_sizes Let_def)

lemma sample_pool_rep: "pool_rep sample_pool 16 128 [16] []"
  using create_pool_ok[OF bump_good empty_live, of 128] by (simp add: sample_create)

lemma sample_pool_header: "m_pools sample_pool 16 = Some \<lparr>p_max = 64, p_current = 16, p_large = None, p_cleanup = None\<rparr>"
  by (simp add: sample_pool_def ngx_create_pool_def ngx_alloc_def bump_malloc_def empty_mem_def ngx_sizes Let_def size_sub_def)

text \<open>The same pool with one large allocation at 160, entered at 80.\<close>

definition sample_large :: ngx_mem where
  "sample_large = empty_mem\<lparr>m_live := [(160, 500), (16, 128)],
     m_blocks := [16 \<mapsto> \<lparr>d_last = 96, d_end = 144, d_next = None, d_failed = 0\<rparr>],
     m_larges := [80 \<mapsto> \<lparr>l_next = None, l_alloc = Some 160\<rparr>],
     m_cleanups := [100 \<mapsto> \<lparr>c_handler = Some CleanupFile, c_data = Some 120, c_next = None\<rparr>],
     m_files := [120 \<mapsto> \<lparr>f_fd = 3, f_name = ''x''\<rparr>],
     m_pools := [16 \<mapsto> \<lparr>p_max = 64, p_current = 16, p_large = Some 80, p_cleanup = Some 100\<rparr>]\<rparr>"

lemma sample_large_rep: "pool_rep sample_large 16 128 [16] [80]"
  by (simp add: pool_rep_def sample_large_def live_ok_def apart_def blocks_ok_def block_ok_def larges_ok_def)

section \<open>Allocating\<close>

lemma given_live:
  assumes rep: "pool_rep h pool ps bs ls"
  shows "given h bs ls \<subseteq> live_bytes h"
proof -
  have bl: "blocks_ok h pool ps bs" using rep by (simp add: pool_rep_def)
  have "{b..<block_last h b} \<subseteq> live_bytes h" if b: "b \<in> set bs" for b
  proof -
    have "(b, ps) \<in> set (m_live h)" by (rule blocks_okD[OF bl b])
    then show ?thesis using block_region[OF bl b] unfolding live_bytes_def by fastforce
  qed
  then show ?thesis unfolding given_def live_bytes_def by fastforce
qed

text \<open>A run of allocations with \<^verbatim>\<open>ngx_palloc\<close>: the addresses handed out, with their sizes.\<close>

fun palloc_all :: "malloc \<Rightarrow> nat \<Rightarrow> nat list \<Rightarrow> ngx_mem \<Rightarrow> ((nat \<times> nat) list \<times> ngx_mem) option" where
  "palloc_all mal pool [] h = Some ([], h)"
| "palloc_all mal pool (n # ns) h = do {
     (r, h1) \<leftarrow> ngx_palloc mal pool n h;
     (rs, h2) \<leftarrow> palloc_all mal pool ns h1;
     Some ((case r of None \<Rightarrow> rs | Some m \<Rightarrow> (m, n) # rs), h2)
   }"

definition disjoint_regions :: "(nat \<times> nat) list \<Rightarrow> bool" where
  "disjoint_regions rs \<longleftrightarrow> sorted_wrt (\<lambda>x y. region (fst x) (snd x) \<inter> region (fst y) (snd y) = {}) rs"

definition regions :: "(nat \<times> nat) list \<Rightarrow> nat set" where
  "regions rs = (\<Union>(a, n) \<in> set rs. region a n)"

lemma palloc_all_ok:
  assumes mal: "good_malloc mal"
  shows "pool_rep h pool ps bs ls \<Longrightarrow> \<exists>rs h' bs' ls'. palloc_all mal pool ns h = Some (rs, h') \<and> pool_rep h' pool ps bs' ls' \<and>
    disjoint_regions rs \<and> regions rs \<inter> given h bs ls = {} \<and> given h bs ls \<subseteq> given h' bs' ls' \<and> regions rs \<subseteq> given h' bs' ls'"
proof (induction ns arbitrary: h bs ls)
  case Nil
  then show ?case by (auto simp: disjoint_regions_def regions_def)
next
  case (Cons n ns)
  obtain r h1 bs1 ls1 where A: "ngx_palloc mal pool n h = Some (r, h1)" "pool_rep h1 pool ps bs1 ls1" "took h bs ls r n h1 bs1 ls1"
    using palloc_ok(1)[OF Cons.prems mal, of n] by (auto simp: allocates_def)
  obtain rs h2 bs2 ls2 where B: "palloc_all mal pool ns h1 = Some (rs, h2)" "pool_rep h2 pool ps bs2 ls2"
    "disjoint_regions rs" "regions rs \<inter> given h1 bs1 ls1 = {}" "given h1 bs1 ls1 \<subseteq> given h2 bs2 ls2" "regions rs \<subseteq> given h2 bs2 ls2"
    using Cons.IH[OF A(2)] by blast
  show ?case
  proof (cases r)
    case None
    then show ?thesis using A B by (intro exI[of _ rs] exI[of _ h2] exI[of _ bs2] exI[of _ ls2]) (auto simp: took_def)
  next
    case (Some m)
    have T: "region m n \<inter> given h bs ls = {}" "region m n \<subseteq> given h1 bs1 ls1" "given h bs ls \<subseteq> given h1 bs1 ls1"
      using A(3) Some by (auto simp: took_def)
    have "region m n \<inter> region (fst x) (snd x) = {}" if "x \<in> set rs" for x
      using that T(2) B(4) by (force simp: regions_def)
    then have "disjoint_regions ((m, n) # rs)" using B(3) by (simp add: disjoint_regions_def)
    moreover have "regions ((m, n) # rs) = region m n \<union> regions rs" by (auto simp: regions_def)
    ultimately show ?thesis using A(1) B T Some
      by (intro exI[of _ "(m, n) # rs"] exI[of _ h2] exI[of _ bs2] exI[of _ ls2]) auto
  qed
qed

text \<open>
  C18. Memory handed out never overlaps. For any sequence of requests, \<^verbatim>\<open>ngx_palloc\<close> is defined on a pool
  in its representation, keeps the representation, and the regions it hands out are pairwise disjoint,
  disjoint from everything the pool handed out before, and inside live memory.
\<close>

theorem palloc_disjoint:
  assumes "good_malloc mal" and "pool_rep h pool ps bs ls"
  shows "\<exists>rs h' bs' ls'. palloc_all mal pool ns h = Some (rs, h') \<and> pool_rep h' pool ps bs' ls' \<and>
    disjoint_regions rs \<and> regions rs \<inter> given h bs ls = {} \<and> regions rs \<subseteq> live_bytes h'"
  using palloc_all_ok[OF assms, of ns] given_live by blast

theorem palloc_disjoint_witness:
  "\<exists>rs h' bs' ls'. palloc_all bump_malloc 16 [8, 40, 40, 500] sample_pool = Some (rs, h') \<and> pool_rep h' 16 128 bs' ls' \<and>
    disjoint_regions rs \<and> regions rs \<inter> given sample_pool [16] [] = {} \<and> regions rs \<subseteq> live_bytes h'"
  by (rule palloc_disjoint[OF bump_good sample_pool_rep])

text \<open>
  The other allocation functions. \<^verbatim>\<open>ngx_pnalloc\<close>, \<^verbatim>\<open>ngx_pmemalign\<close> and \<^verbatim>\<open>ngx_pcalloc\<close> also keep the
  representation and hand out fresh live memory, and what \<^verbatim>\<open>ngx_pcalloc\<close> hands out is zero.
\<close>

lemma other_allocators_fresh:
  assumes "good_malloc mal" and "pool_rep h pool ps bs ls"
  shows "allocates h pool ps bs ls n (ngx_pnalloc mal pool n h) \<and> allocates h pool ps bs ls n (ngx_pmemalign mal pool n h) \<and>
    (\<exists>r h' bs' ls'. ngx_pcalloc mal pool n h = Some (r, h') \<and> pool_rep h' pool ps bs' ls' \<and> took h bs ls r n h' bs' ls' \<and>
       (\<forall>m. r = Some m \<longrightarrow> (\<forall>a \<in> region m n. m_bytes h' a = 0)))"
  using palloc_ok(2)[OF assms(2,1)] pmemalign_ok[OF assms(2,1)] pcalloc_ok[OF assms(2,1)] by blast

lemma other_allocators_fresh_witness:
  "allocates sample_pool 16 128 [16] [] 24 (ngx_pnalloc bump_malloc 16 24 sample_pool) \<and>
    allocates sample_pool 16 128 [16] [] 24 (ngx_pmemalign bump_malloc 16 24 sample_pool) \<and>
    (\<exists>r h' bs' ls'. ngx_pcalloc bump_malloc 16 24 sample_pool = Some (r, h') \<and> pool_rep h' 16 128 bs' ls' \<and>
       took sample_pool [16] [] r 24 h' bs' ls' \<and> (\<forall>m. r = Some m \<longrightarrow> (\<forall>a \<in> region m 24. m_bytes h' a = 0)))"
  by (rule other_allocators_fresh[OF bump_good sample_pool_rep])



text \<open>
  A pool whose size is no multiple of 8 overflows. In a pool of 101 bytes with one byte left, the
  aligned address of the next allocation lies behind the end of the block, the unsigned difference wraps
  around, and \<^verbatim>\<open>ngx_palloc\<close> hands out memory outside of every live allocation.
\<close>

lemma unaligned_pool_overflows:
  "(case ngx_create_pool bump_malloc 101 empty_mem of
      Some (Some p, h) \<Rightarrow>
        (case ngx_pnalloc bump_malloc p 36 h of
           Some (Some a, h1) \<Rightarrow>
             (case ngx_palloc bump_malloc p 1 h1 of
                Some (Some m, h2) \<Rightarrow> p + 101 < m \<and> m_live h2 = [(p, 101)]
              | _ \<Rightarrow> False)
         | _ \<Rightarrow> False)
    | _ \<Rightarrow> False)"
proof -
  define d where "d = \<lparr>d_last = 80, d_end = 117, d_next = None, d_failed = 0\<rparr>"
  define h where "h = empty_mem\<lparr>m_live := [(16, 101)], m_blocks := [16 \<mapsto> d],
    m_pools := [16 \<mapsto> \<lparr>p_max = 37, p_current = 16, p_large = None, p_cleanup = None\<rparr>]\<rparr>"
  have "ngx_create_pool bump_malloc 101 empty_mem = Some (Some 16, h)"
    by (simp add: h_def d_def ngx_create_pool_def ngx_alloc_def bump_malloc_def empty_mem_def ngx_sizes Let_def size_sub_def)
  moreover have "ngx_pnalloc bump_malloc 16 36 h = Some (Some 80, set_last 16 116 h)"
    by (simp add: h_def ngx_pnalloc_def ngx_palloc_small_def) (subst small_loop.simps, simp add: d_def size_sub_def)
  moreover have "ngx_palloc bump_malloc 16 1 (set_last 16 116 h) = Some (Some 120, set_last 16 121 (set_last 16 116 h))"
    using align_8[of 116]
    by (simp add: h_def ngx_palloc_def ngx_palloc_small_def) (subst small_loop.simps, simp add: d_def set_last_blocks size_sub_def)
  ultimately show ?thesis by (simp add: h_def)
qed


section \<open>Giving memory back\<close>

text \<open>
  Freeing one allocation. \<^verbatim>\<open>ngx_pfree\<close> of an address that is no large allocation of the pool returns
  the error code and changes nothing; otherwise exactly this allocation is freed, and the pool forgets it.
\<close>

lemma pfree_frees_one:
  assumes "pool_rep h pool ps bs ls"
  shows "if p \<in> set (allocs h ls)
    then \<exists>h'. ngx_pfree pool (Some p) h = Some (0, h') \<and> pool_rep h' pool ps bs ls \<and>
      m_live h' = filter (\<lambda>x. fst x \<noteq> p) (m_live h) \<and> set (allocs h' ls) = set (allocs h ls) - {p}
    else ngx_pfree pool (Some p) h = Some (- 5, h)"
  using pfree_ok[OF assms, of p] by simp

lemma pfree_frees_one_witness:
  "\<exists>h'. ngx_pfree 16 (Some 160) sample_large = Some (0, h') \<and> pool_rep h' 16 128 [16] [80] \<and>
    m_live h' = [(16, 128)] \<and> set (allocs h' [80]) = {}"
  using pfree_frees_one[OF sample_large_rep, of 160] by (simp add: sample_large_def)

text \<open>
  Resetting. \<^verbatim>\<open>ngx_reset_pool\<close> frees exactly the large allocations and leaves a pool with the same
  blocks of which only the headers are in use.
\<close>

lemma reset_pool_empties:
  assumes "pool_rep h pool ps bs ls"
  shows "\<exists>h'. ngx_reset_pool pool h = Some h' \<and> pool_rep h' pool ps bs [] \<and> given h' bs [] = (\<Union>b \<in> set bs. region b 64) \<and>
    m_live h' = filter (\<lambda>x. fst x \<notin> set (allocs h ls)) (m_live h)"
  by (rule reset_pool_ok[OF assms])

lemma reset_pool_empties_witness:
  "\<exists>h'. ngx_reset_pool 16 sample_large = Some h' \<and> pool_rep h' 16 128 [16] [] \<and> given h' [16] [] = region 16 64 \<and>
    m_live h' = [(16, 128)]"
  using reset_pool_empties[OF sample_large_rep] by (simp add: sample_large_def)

text \<open>
  Destroying. \<^verbatim>\<open>ngx_destroy_pool\<close> runs the cleanup handlers, the latest first, and then frees every
  block and every large allocation of the pool exactly once, and nothing else.
\<close>

theorem destroy_pool_frees_all:
  assumes "pool_rep h pool ps bs ls" and "m_pools h pool = Some s"
    and "chain (cleanup_next h) (p_cleanup s) cs" and "cleanups_ok h cs"
  shows "\<exists>h'. ngx_destroy_pool pool h = Some h' \<and> m_events h' = m_events h @ concat (map (fired h) cs) \<and>
    m_live h' = filter (\<lambda>x. fst x \<notin> set bs \<union> set (allocs h ls)) (m_live h)"
  by (rule destroy_pool_ok[OF assms])

theorem destroy_pool_frees_all_witness:
  "\<exists>h'. ngx_destroy_pool 16 sample_large = Some h' \<and> m_events h' = [EvClose 3] \<and> m_live h' = []"
  using destroy_pool_frees_all[OF sample_large_rep, of "\<lparr>p_max = 64, p_current = 16, p_large = Some 80, p_cleanup = Some 100\<rparr>" "[100]"]
  by (simp add: sample_large_def cleanups_ok_def fired_def empty_mem_def)

end
