(* ===== verification/Thread_Pool.thy ===== *)
theory Thread_Pool
  imports C_Prelude
begin

text \<open>
  The thread pool of \<^verbatim>\<open>module_function/frame_thread_pool.c\<close>: a ring of job slots guarded by two
  semaphores, worker threads in \<^verbatim>\<open>thread_routine\<close> and callers of \<^verbatim>\<open>frame_add_job_queue\<close>.

  A thread is a program point together with its local variables, and a step runs one thread to its next
  access to shared data: a semaphore operation, a section under one of the mutexes, or an access to a
  slot. The system steps relate states of the whole process; the two operations are also composed into
  functions for the case in which only one thread runs.
\<close>

section \<open>State\<close>

text \<open>A function pointer is a number; the data pointer is a number too.\<close>

record THREAD_POOL_JOB =
  job_call :: "nat option"
  job_arg :: "nat option"

definition empty_job :: THREAD_POOL_JOB where
  "empty_job = \<lparr>job_call = None, job_arg = None\<rparr>"

text \<open>\<open>q_head\<close> is \<open>None\<close> once the queue has been freed.\<close>

record FRAME_THREAD_POOL =
  max_thread_num :: nat
  sleep_thread_num :: int
  is_quit :: bool
  job_free_sem :: nat
  job_valid_sem :: nat
  push_index :: nat
  pop_index :: nat
  job_queue_size :: nat
  q_head :: "THREAD_POOL_JOB list option"

section \<open>Semaphores and indices\<close>

definition wait_job_free :: "FRAME_THREAD_POOL \<Rightarrow> FRAME_THREAD_POOL option" where
  "wait_job_free p = (if job_free_sem p = 0 then None else Some (p\<lparr>job_free_sem := job_free_sem p - 1\<rparr>))"

definition wait_job_valid :: "FRAME_THREAD_POOL \<Rightarrow> FRAME_THREAD_POOL option" where
  "wait_job_valid p = (if job_valid_sem p = 0 then None else Some (p\<lparr>job_valid_sem := job_valid_sem p - 1\<rparr>))"

definition post_job_free_num :: "FRAME_THREAD_POOL \<Rightarrow> FRAME_THREAD_POOL" where
  "post_job_free_num p = p\<lparr>job_free_sem := job_free_sem p + 1\<rparr>"

definition post_job_valid_num :: "FRAME_THREAD_POOL \<Rightarrow> FRAME_THREAD_POOL" where
  "post_job_valid_num p = p\<lparr>job_valid_sem := job_valid_sem p + 1\<rparr>"

definition next_index :: "nat \<Rightarrow> nat \<Rightarrow> nat" where
  "next_index n i = (if i + 1 = n then 0 else i + 1)"

text \<open>The sections under \<^verbatim>\<open>job_free_lock\<close> and \<^verbatim>\<open>job_valid_lock\<close>.\<close>

definition take_push_index :: "FRAME_THREAD_POOL \<Rightarrow> nat \<times> FRAME_THREAD_POOL" where
  "take_push_index p = (push_index p, p\<lparr>push_index := next_index (job_queue_size p) (push_index p)\<rparr>)"

definition take_pop_index :: "FRAME_THREAD_POOL \<Rightarrow> nat \<times> FRAME_THREAD_POOL" where
  "take_pop_index p = (pop_index p, p\<lparr>pop_index := next_index (job_queue_size p) (pop_index p)\<rparr>)"

text \<open>The two functions as a whole; \<open>None\<close> is waiting.\<close>

definition get_free_job_index :: "FRAME_THREAD_POOL \<Rightarrow> (nat \<times> FRAME_THREAD_POOL) option" where
  "get_free_job_index p = map_option take_push_index (wait_job_free p)"

definition get_valid_job_index :: "FRAME_THREAD_POOL \<Rightarrow> (nat \<times> FRAME_THREAD_POOL) option" where
  "get_valid_job_index p = map_option take_pop_index (wait_job_valid p)"

definition frame_threadpool_sleep :: "FRAME_THREAD_POOL \<Rightarrow> FRAME_THREAD_POOL" where
  "frame_threadpool_sleep p = p\<lparr>sleep_thread_num := sleep_thread_num p + 1\<rparr>"

definition frame_threadpool_wakeup :: "FRAME_THREAD_POOL \<Rightarrow> FRAME_THREAD_POOL" where
  "frame_threadpool_wakeup p = p\<lparr>sleep_thread_num := sleep_thread_num p - 1\<rparr>"

definition frame_threadpool_sleep_num :: "FRAME_THREAD_POOL \<Rightarrow> int" where
  "frame_threadpool_sleep_num p = sleep_thread_num p"

definition slot :: "FRAME_THREAD_POOL \<Rightarrow> nat \<Rightarrow> THREAD_POOL_JOB option" where
  "slot p i = (case q_head p of None \<Rightarrow> None | Some q \<Rightarrow> if i < length q then Some (q ! i) else None)"

definition set_slot :: "nat \<Rightarrow> THREAD_POOL_JOB \<Rightarrow> FRAME_THREAD_POOL \<Rightarrow> FRAME_THREAD_POOL" where
  "set_slot i j p = p\<lparr>q_head := map_option (\<lambda>q. q[i := j]) (q_head p)\<rparr>"

section \<open>Threads\<close>

text \<open>
  The program points of \<^verbatim>\<open>thread_routine\<close>. \<open>Fault\<close> is an access to a slot that is not there, and
  \<open>Exited\<close> is \<^verbatim>\<open>pthread_exit\<close>.
\<close>

datatype worker = Sleep | WaitValid | TakePop | Wakeup nat | Fetch nat | Running nat | Clear nat | PostFree | CheckQuit | Exited | Fault

text \<open>One step of a worker: its next point, the pool, and the jobs that were called. \<open>None\<close> is waiting, or no step at all.\<close>

fun worker_step :: "worker \<Rightarrow> FRAME_THREAD_POOL \<Rightarrow> (worker \<times> FRAME_THREAD_POOL \<times> THREAD_POOL_JOB list) option" where
  "worker_step Sleep p = Some (WaitValid, frame_threadpool_sleep p, [])"
| "worker_step WaitValid p = map_option (\<lambda>p'. (TakePop, p', [])) (wait_job_valid p)"
| "worker_step TakePop p = (case take_pop_index p of (i, p') \<Rightarrow> Some (Wakeup i, p', []))"
| "worker_step (Wakeup i) p = Some (Fetch i, frame_threadpool_wakeup p, [])"
| "worker_step (Fetch i) p =
     (case slot p i of
        None \<Rightarrow> Some (Fault, p, [])
      | Some j \<Rightarrow> if job_call j \<noteq> None then Some (Running i, p, [j]) else Some (Clear i, p, []))"
| "worker_step (Running i) p = Some (Clear i, p, [])"
| "worker_step (Clear i) p =
     (case slot p i of
        None \<Rightarrow> Some (Fault, p, [])
      | Some j \<Rightarrow> Some (PostFree, set_slot i empty_job p, []))"
| "worker_step PostFree p = Some (CheckQuit, post_job_free_num p, [])"
| "worker_step CheckQuit p = Some (if is_quit p then Exited else Sleep, p, [])"
| "worker_step Exited p = None"
| "worker_step Fault p = None"

text \<open>
  The program points of \<^verbatim>\<open>frame_add_job_queue\<close>; \<open>Added\<close> is the end of the function, which returns no
  value there, and \<open>Refused\<close> is \<^verbatim>\<open>return -1\<close>.
\<close>

datatype producer = Submit THREAD_POOL_JOB | WaitFree THREAD_POOL_JOB | TakePush THREAD_POOL_JOB | Write nat THREAD_POOL_JOB
  | PostValid | Added | Refused | PFault

fun producer_step :: "producer \<Rightarrow> FRAME_THREAD_POOL \<Rightarrow> (producer \<times> FRAME_THREAD_POOL) option" where
  "producer_step (Submit j) p = Some (if is_quit p then Refused else WaitFree j, p)"
| "producer_step (WaitFree j) p = map_option (Pair (TakePush j)) (wait_job_free p)"
| "producer_step (TakePush j) p = (case take_push_index p of (i, p') \<Rightarrow> Some (Write i j, p'))"
| "producer_step (Write i j) p =
     (case slot p i of None \<Rightarrow> Some (PFault, p) | Some _ \<Rightarrow> Some (PostValid, set_slot i j p))"
| "producer_step PostValid p = Some (Added, post_job_valid_num p)"
| "producer_step Added p = None"
| "producer_step Refused p = None"
| "producer_step PFault p = None"

section \<open>Setting up and destroying\<close>

text \<open>
  \<^verbatim>\<open>frame_threadpool_init\<close>, with the outcome of the two \<^verbatim>\<open>malloc\<close>s and of the \<^verbatim>\<open>pthread_create\<close>s as
  arguments. The slots come from \<^verbatim>\<open>malloc\<close> and are not cleared; they are arguments as well. The result
  has the workers that were started.
\<close>

definition frame_threadpool_init ::
  "nat \<Rightarrow> bool \<Rightarrow> THREAD_POOL_JOB list option \<Rightarrow> (nat \<Rightarrow> bool) \<Rightarrow> int \<times> FRAME_THREAD_POOL \<times> worker list" where
  "frame_threadpool_init thread_size ids_ok queue create_ok =
     (let zero = \<lparr>max_thread_num = thread_size, sleep_thread_num = 0, is_quit = False, job_free_sem = 0, job_valid_sem = 0,
                  push_index = 0, pop_index = 0, job_queue_size = 0, q_head = None\<rparr>
      in if \<not> ids_ok then (- 1, zero, [])
         else case queue of
           None \<Rightarrow> (- 1, zero, [])
         | Some q \<Rightarrow>
             let p = zero\<lparr>q_head := Some (take thread_size q), job_queue_size := thread_size, job_free_sem := thread_size\<rparr>;
                 started = takeWhile create_ok [0..<thread_size]
             in if length started = thread_size then (0, p, replicate thread_size Sleep)
                else (- 1, p\<lparr>q_head := None\<rparr>, replicate (length started) Sleep))"

text \<open>\<^verbatim>\<open>frame_threadpool_destroy\<close> posts once per slot and frees the queue without waiting for the workers.\<close>

definition frame_threadpool_destroy :: "FRAME_THREAD_POOL \<Rightarrow> FRAME_THREAD_POOL" where
  "frame_threadpool_destroy p =
     (post_job_valid_num ^^ job_queue_size p) (p\<lparr>is_quit := True\<rparr>)\<lparr>q_head := None\<rparr>"

section \<open>The system\<close>

record thread_system =
  sys_pool :: FRAME_THREAD_POOL
  sys_workers :: "worker list"
  sys_producers :: "producer list"
  sys_ran :: "THREAD_POOL_JOB list"

inductive sys_step :: "thread_system \<Rightarrow> thread_system \<Rightarrow> bool" where
  worker: "i < length (sys_workers s) \<Longrightarrow> worker_step (sys_workers s ! i) (sys_pool s) = Some (w, p, js) \<Longrightarrow>
    sys_step s (s\<lparr>sys_pool := p, sys_workers := (sys_workers s)[i := w], sys_ran := sys_ran s @ js\<rparr>)"
| producer: "i < length (sys_producers s) \<Longrightarrow> producer_step (sys_producers s ! i) (sys_pool s) = Some (r, p) \<Longrightarrow>
    sys_step s (s\<lparr>sys_pool := p, sys_producers := (sys_producers s)[i := r]\<rparr>)"

inductive_cases sys_stepE: "sys_step s s'"

definition start_system :: "nat \<Rightarrow> THREAD_POOL_JOB list \<Rightarrow> THREAD_POOL_JOB list \<Rightarrow> thread_system" where
  "start_system n q js = (case frame_threadpool_init n True (Some q) (\<lambda>_. True) of
     (_, p, ws) \<Rightarrow> \<lparr>sys_pool = p, sys_workers = ws, sys_producers = map Submit js, sys_ran = []\<rparr>)"

text \<open>A schedule names the thread of each step: \<open>Inl\<close> a worker, \<open>Inr\<close> a producer.\<close>

fun run_schedule :: "(nat + nat) list \<Rightarrow> thread_system \<Rightarrow> thread_system option" where
  "run_schedule [] s = Some s"
| "run_schedule (Inl i # ts) s =
     (if i < length (sys_workers s)
      then (case worker_step (sys_workers s ! i) (sys_pool s) of
              None \<Rightarrow> None
            | Some (w, p, js) \<Rightarrow>
                run_schedule ts (s\<lparr>sys_pool := p, sys_workers := (sys_workers s)[i := w], sys_ran := sys_ran s @ js\<rparr>))
      else None)"
| "run_schedule (Inr i # ts) s =
     (if i < length (sys_producers s)
      then (case producer_step (sys_producers s ! i) (sys_pool s) of
              None \<Rightarrow> None
            | Some (r, p) \<Rightarrow> run_schedule ts (s\<lparr>sys_pool := p, sys_producers := (sys_producers s)[i := r]\<rparr>))
      else None)"

lemma run_schedule_reach: "run_schedule ts s = Some s' \<Longrightarrow> sys_step\<^sup>*\<^sup>* s s'"
proof (induction ts s rule: run_schedule.induct)
  case (2 i ts s)
  then show ?case by (auto split: if_splits option.splits intro: converse_rtranclp_into_rtranclp sys_step.worker)
next
  case (3 i ts s)
  then show ?case by (auto split: if_splits option.splits intro: converse_rtranclp_into_rtranclp sys_step.producer)
qed auto

end
