(* ===== verification/Thread_Inv.thy ===== *)
theory Thread_Inv
  imports Thread_Pool
begin

text \<open>
  What holds in every reachable state of the thread pool, and the queue that it is when its operations
  do not overlap.
\<close>

section \<open>Conservation of slots\<close>

text \<open>A thread holds a slot between its semaphore wait and its post.\<close>

fun worker_load :: "worker \<Rightarrow> nat" where
  "worker_load Sleep = 0"
| "worker_load WaitValid = 0"
| "worker_load CheckQuit = 0"
| "worker_load Exited = 0"
| "worker_load Fault = 0"
| "worker_load _ = 1"

fun producer_load :: "producer \<Rightarrow> nat" where
  "producer_load (TakePush j) = 1"
| "producer_load (Write i j) = 1"
| "producer_load PostValid = 1"
| "producer_load _ = 0"

fun worker_sleeps :: "worker \<Rightarrow> nat" where
  "worker_sleeps WaitValid = 1"
| "worker_sleeps TakePop = 1"
| "worker_sleeps (Wakeup i) = 1"
| "worker_sleeps _ = 0"

fun worker_ok :: "nat \<Rightarrow> worker \<Rightarrow> bool" where
  "worker_ok n (Wakeup i) = (i < n)"
| "worker_ok n (Fetch i) = (i < n)"
| "worker_ok n (Running i) = (i < n)"
| "worker_ok n (Clear i) = (i < n)"
| "worker_ok n Exited = False"
| "worker_ok n Fault = False"
| "worker_ok n _ = True"

fun producer_ok :: "nat \<Rightarrow> producer \<Rightarrow> bool" where
  "producer_ok n (Write i j) = (i < n)"
| "producer_ok n Refused = False"
| "producer_ok n PFault = False"
| "producer_ok n _ = True"

abbreviation load :: "thread_system \<Rightarrow> nat" where
  "load s \<equiv> sum_list (map worker_load (sys_workers s)) + sum_list (map producer_load (sys_producers s))"

definition pool_live :: "FRAME_THREAD_POOL \<Rightarrow> bool" where
  "pool_live p \<longleftrightarrow> 0 < job_queue_size p \<and> push_index p < job_queue_size p \<and> pop_index p < job_queue_size p \<and> \<not> is_quit p \<and>
     (\<exists>q. q_head p = Some q \<and> length q = job_queue_size p)"

definition sys_inv :: "nat \<Rightarrow> thread_system \<Rightarrow> bool" where
  "sys_inv n s \<longleftrightarrow> pool_live (sys_pool s) \<and> job_queue_size (sys_pool s) = n \<and>
     list_all (worker_ok n) (sys_workers s) \<and> list_all (producer_ok n) (sys_producers s) \<and>
     job_free_sem (sys_pool s) + job_valid_sem (sys_pool s) + load s = n \<and>
     sleep_thread_num (sys_pool s) = int (sum_list (map worker_sleeps (sys_workers s)))"

lemmas pool_op_defs = wait_job_free_def wait_job_valid_def post_job_free_num_def post_job_valid_num_def
  take_push_index_def take_pop_index_def frame_threadpool_sleep_def frame_threadpool_wakeup_def set_slot_def

lemma next_index_less: "i < n \<Longrightarrow> next_index n i < n"
  by (auto simp: next_index_def)

lemma pool_live_slot: "pool_live p \<Longrightarrow> i < job_queue_size p \<Longrightarrow> slot p i = None \<longleftrightarrow> False"
  by (auto simp: pool_live_def slot_def)

text \<open>What one step of a thread does to the counters.\<close>

lemma worker_step_ok:
  assumes "pool_live p" and "worker_ok (job_queue_size p) w" and "worker_step w p = Some (w', p', js)"
  shows "pool_live p' \<and> job_queue_size p' = job_queue_size p \<and> worker_ok (job_queue_size p) w' \<and>
    job_free_sem p' + job_valid_sem p' + worker_load w' = job_free_sem p + job_valid_sem p + worker_load w \<and>
    sleep_thread_num p' + int (worker_sleeps w) = sleep_thread_num p + int (worker_sleeps w')"
  using assms
  by (cases w) (auto simp: pool_live_def pool_op_defs slot_def next_index_less split: if_splits option.splits)

lemma producer_step_ok:
  assumes "pool_live p" and "producer_ok (job_queue_size p) r" and "producer_step r p = Some (r', p')"
  shows "pool_live p' \<and> job_queue_size p' = job_queue_size p \<and> producer_ok (job_queue_size p) r' \<and>
    job_free_sem p' + job_valid_sem p' + producer_load r' = job_free_sem p + job_valid_sem p + producer_load r \<and>
    sleep_thread_num p' = sleep_thread_num p"
  using assms
  by (cases r) (auto simp: pool_live_def pool_op_defs slot_def next_index_less split: if_splits option.splits)

lemma sum_list_update_nat:
  fixes f :: "'a \<Rightarrow> nat"
  assumes "i < length xs"
  shows "sum_list (map f (xs[i := y])) + f (xs ! i) = sum_list (map f xs) + f y"
  using assms
proof (induction xs arbitrary: i)
  case (Cons x xs)
  then show ?case by (cases i) auto
qed simp

lemma list_all_update: "list_all P xs \<Longrightarrow> P y \<Longrightarrow> list_all P (xs[i := y])"
  using set_update_subset_insert[of xs i y] by (auto simp: list_all_iff)

lemma sys_step_inv: "sys_step s s' \<Longrightarrow> sys_inv n s \<Longrightarrow> sys_inv n s'"
proof (induction rule: sys_step.induct)
  case (worker i s w p js)
  let ?v = "sys_workers s ! i"
  have I: "pool_live (sys_pool s)" "job_queue_size (sys_pool s) = n" using worker(3) by (auto simp: sys_inv_def)
  have "worker_ok n ?v" using worker by (auto simp: sys_inv_def list_all_length)
  from worker_step_ok[OF I(1) _ worker(2)] this I(2)
  have S: "pool_live p" "job_queue_size p = n" "worker_ok n w"
    "job_free_sem p + job_valid_sem p + worker_load w = job_free_sem (sys_pool s) + job_valid_sem (sys_pool s) + worker_load ?v"
    "sleep_thread_num p + int (worker_sleeps ?v) = sleep_thread_num (sys_pool s) + int (worker_sleeps w)"
    by auto
  from sum_list_update_nat[OF worker(1), of worker_load w] sum_list_update_nat[OF worker(1), of worker_sleeps w] S worker(3)
  show ?case by (simp add: sys_inv_def list_all_update)
next
  case (producer i s r p)
  let ?v = "sys_producers s ! i"
  have I: "pool_live (sys_pool s)" "job_queue_size (sys_pool s) = n" using producer(3) by (auto simp: sys_inv_def)
  have "producer_ok n ?v" using producer by (auto simp: sys_inv_def list_all_length)
  from producer_step_ok[OF I(1) _ producer(2)] this I(2)
  have S: "pool_live p" "job_queue_size p = n" "producer_ok n r"
    "job_free_sem p + job_valid_sem p + producer_load r = job_free_sem (sys_pool s) + job_valid_sem (sys_pool s) + producer_load ?v"
    "sleep_thread_num p = sleep_thread_num (sys_pool s)"
    by auto
  from sum_list_update_nat[OF producer(1), of producer_load r] S producer(3) show ?case
    by (simp add: sys_inv_def list_all_update)
qed

lemma sum_list_map_zero: "(\<And>x. x \<in> set xs \<Longrightarrow> f x = (0::nat)) \<Longrightarrow> sum_list (map f xs) = 0"
  by (induction xs) auto

lemma start_inv:
  assumes "0 < n" and "n \<le> length q"
  shows "sys_inv n (start_system n q js)"
proof -
  have "sum_list (map producer_load (map Submit js)) = 0" by (rule sum_list_map_zero) auto
  moreover have "sum_list (map worker_load (replicate n Sleep)) = 0" "sum_list (map worker_sleeps (replicate n Sleep)) = 0"
    by (rule sum_list_map_zero; auto)+
  moreover have "takeWhile (\<lambda>_. True) [0..<n] = [0..<n]" by (rule takeWhile_eq_all_conv[THEN iffD2]) simp
  ultimately show ?thesis using assms
    by (simp del: takeWhile_eq_all_conv add: start_system_def frame_threadpool_init_def sys_inv_def pool_live_def Let_def list_all_iff)
qed

lemma reach_inv: "sys_step\<^sup>*\<^sup>* s s' \<Longrightarrow> sys_inv n s \<Longrightarrow> sys_inv n s'"
  by (induction rule: rtranclp_induct) (auto dest: sys_step_inv)

text \<open>
  C20. Every reachable state of the running pool: the semaphores and the slots that threads hold add up
  to the size of the queue, all indices are in range (so no slot access faults), and the sleep counter
  is the number of workers that wait for a job.
\<close>

theorem pool_invariant:
  assumes "0 < n" and "n \<le> length q" and "sys_step\<^sup>*\<^sup>* (start_system n q js) s"
  shows "sys_inv n s"
  using reach_inv[OF assms(3) start_inv[OF assms(1,2)]] .

definition job :: "nat \<Rightarrow> THREAD_POOL_JOB" where
  "job k = \<lparr>job_call = Some k, job_arg = None\<rparr>"

theorem pool_invariant_witness: "sys_inv 2 (start_system 2 [empty_job, empty_job] [job 1])"
  by (rule pool_invariant[of 2 "[empty_job, empty_job]" "[job 1]"]) simp_all

section \<open>Progress\<close>

definition stuck :: "thread_system \<Rightarrow> bool" where
  "stuck s \<longleftrightarrow> (\<forall>w \<in> set (sys_workers s). worker_step w (sys_pool s) = None) \<and>
     (\<forall>r \<in> set (sys_producers s). producer_step r (sys_pool s) = None)"

lemma stuck_no_step: "stuck s \<longleftrightarrow> (\<nexists>s'. sys_step s s')"
proof
  assume "stuck s"
  then show "\<nexists>s'. sys_step s s'" by (auto simp: stuck_def elim!: sys_stepE)
next
  assume n: "\<nexists>s'. sys_step s s'"
  show "stuck s" unfolding stuck_def
  proof (intro conjI ballI)
    fix w assume "w \<in> set (sys_workers s)"
    then obtain i where i: "i < length (sys_workers s)" "sys_workers s ! i = w" by (auto simp: in_set_conv_nth)
    show "worker_step w (sys_pool s) = None"
    proof (rule ccontr)
      assume "worker_step w (sys_pool s) \<noteq> None"
      then obtain v p js where "worker_step w (sys_pool s) = Some (v, p, js)" by auto
      then show False using n sys_step.worker[of i s v p js] i by blast
    qed
  next
    fix r assume "r \<in> set (sys_producers s)"
    then obtain i where i: "i < length (sys_producers s)" "sys_producers s ! i = r" by (auto simp: in_set_conv_nth)
    show "producer_step r (sys_pool s) = None"
    proof (rule ccontr)
      assume "producer_step r (sys_pool s) \<noteq> None"
      then obtain v p where "producer_step r (sys_pool s) = Some (v, p)" by auto
      then show False using n sys_step.producer[of i s v p] i by blast
    qed
  qed
qed

lemma stuck_worker:
  assumes "pool_live p" "worker_ok (job_queue_size p) w" "worker_step w p = None"
  shows "w = WaitValid \<and> job_valid_sem p = 0"
  using assms pool_live_slot[OF assms(1)]
  by (cases w) (auto simp: wait_job_valid_def take_pop_index_def split: if_splits option.splits)

lemma stuck_producer:
  assumes "pool_live p" "producer_ok (job_queue_size p) r" "producer_step r p = None"
  shows "r = Added \<or> (\<exists>j. r = WaitFree j) \<and> job_free_sem p = 0"
  using assms pool_live_slot[OF assms(1)]
  by (cases r) (auto simp: wait_job_free_def take_push_index_def split: if_splits option.splits)

text \<open>
  C21. No deadlock. A reachable state from which no thread can take a step has every caller of
  \<^verbatim>\<open>frame_add_job_queue\<close> finished and every worker waiting for a job that was not submitted: nobody is
  left waiting for a free slot.
\<close>

theorem pool_no_deadlock:
  assumes "0 < n" and "n \<le> length q" and "sys_step\<^sup>*\<^sup>* (start_system n q js) s" and "\<nexists>s'. sys_step s s'" and "sys_workers s \<noteq> []"
  shows "set (sys_producers s) \<subseteq> {Added} \<and> set (sys_workers s) \<subseteq> {WaitValid} \<and> job_valid_sem (sys_pool s) = 0"
proof -
  have inv: "sys_inv n s" using reach_inv[OF assms(3) start_inv[OF assms(1,2)]] .
  have st: "stuck s" using assms(4) stuck_no_step by blast
  have P: "pool_live (sys_pool s)" "job_queue_size (sys_pool s) = n" using inv by (auto simp: sys_inv_def)
  have W: "w = WaitValid \<and> job_valid_sem (sys_pool s) = 0" if "w \<in> set (sys_workers s)" for w
    using stuck_worker[OF P(1)] st that inv P(2) by (auto simp: stuck_def sys_inv_def list_all_iff)
  have R: "r = Added \<or> (\<exists>j. r = WaitFree j) \<and> job_free_sem (sys_pool s) = 0" if "r \<in> set (sys_producers s)" for r
    using stuck_producer[OF P(1)] st that inv P(2) by (auto simp: stuck_def sys_inv_def list_all_iff)
  have v: "job_valid_sem (sys_pool s) = 0" using W assms(5) by (metis list.set_sel(1))
  have "sum_list (map worker_load (sys_workers s)) = 0" by (rule sum_list_map_zero) (auto dest: W)
  moreover have "sum_list (map producer_load (sys_producers s)) = 0" by (rule sum_list_map_zero) (auto dest: R)
  ultimately have "job_free_sem (sys_pool s) = n" using inv v unfolding sys_inv_def by linarith
  then have "r = Added" if "r \<in> set (sys_producers s)" for r using R[OF that] assms(1) by auto
  then show ?thesis using W v by auto
qed

text \<open>The schedule in which one job is submitted, and taken by the first of two workers.\<close>

definition one_job_schedule :: "(nat + nat) list" where
  "one_job_schedule = replicate 5 (Inr 0) @ replicate 10 (Inl 0) @ [Inl 1]"

lemma one_job_run:
  "case run_schedule one_job_schedule (start_system 2 [empty_job, empty_job] [job 1]) of
     None \<Rightarrow> False | Some s \<Rightarrow> stuck s \<and> sys_workers s \<noteq> [] \<and> sys_ran s = [job 1]"
  by code_simp

theorem pool_no_deadlock_witness:
  "\<exists>s. sys_step\<^sup>*\<^sup>* (start_system 2 [empty_job, empty_job] [job 1]) s \<and> sys_ran s = [job 1] \<and>
     set (sys_producers s) \<subseteq> {Added} \<and> set (sys_workers s) \<subseteq> {WaitValid} \<and> job_valid_sem (sys_pool s) = 0"
proof -
  obtain s where s: "run_schedule one_job_schedule (start_system 2 [empty_job, empty_job] [job 1]) = Some s"
    "stuck s" "sys_workers s \<noteq> []" "sys_ran s = [job 1]"
    using one_job_run by (auto split: option.splits)
  have r: "sys_step\<^sup>*\<^sup>* (start_system 2 [empty_job, empty_job] [job 1]) s" using run_schedule_reach[OF s(1)] .
  have n: "\<nexists>s'. sys_step s s'" using s(2) stuck_no_step by blast
  show ?thesis using pool_no_deadlock[OF _ _ r n s(3)] r s(4) by auto
qed

section \<open>A job that is lost\<close>

text \<open>
  Three jobs, submitted one after the other, with two workers: the first job runs long, the second
  finishes and frees its slot, the third is put into the slot of the first (whose index comes next),
  and then the first worker clears that slot.
\<close>

definition lost_job_schedule :: "(nat + nat) list" where
  "lost_job_schedule = replicate 5 (Inr 0) @ replicate 5 (Inr 1) @ replicate 5 (Inl 0) @ replicate 8 (Inl 1) @
     replicate 5 (Inr 2) @ replicate 5 (Inl 0) @ replicate 10 (Inl 1)"

lemma lost_job_run:
  "case run_schedule lost_job_schedule (start_system 2 [empty_job, empty_job] [job 1, job 2, job 3]) of
     None \<Rightarrow> False
   | Some s \<Rightarrow> stuck s \<and> set (sys_producers s) = {Added} \<and> sys_ran s = [job 1, job 2] \<and> q_head (sys_pool s) = Some [empty_job, empty_job]"
  by code_simp

text \<open>
  The pool can lose a job. With two workers there is a run in which three jobs are submitted, one
  after the other, all submissions succeed, and the system comes to rest with the third job neither run
  nor stored in any slot.
\<close>

lemma pool_loses_a_job:
  "\<exists>s. sys_step\<^sup>*\<^sup>* (start_system 2 [empty_job, empty_job] [job 1, job 2, job 3]) s \<and> (\<nexists>s'. sys_step s s') \<and>
     set (sys_producers s) = {Added} \<and> sys_ran s = [job 1, job 2] \<and> q_head (sys_pool s) = Some [empty_job, empty_job]"
proof -
  obtain s where s: "run_schedule lost_job_schedule (start_system 2 [empty_job, empty_job] [job 1, job 2, job 3]) = Some s"
    "stuck s" "set (sys_producers s) = {Added}" "sys_ran s = [job 1, job 2]" "q_head (sys_pool s) = Some [empty_job, empty_job]"
    using lost_job_run by (auto split: option.splits)
  then show ?thesis using run_schedule_reach[OF s(1)] stuck_no_step by blast
qed

fun worker_run :: "nat \<Rightarrow> worker \<Rightarrow> FRAME_THREAD_POOL \<Rightarrow> worker \<times> FRAME_THREAD_POOL" where
  "worker_run 0 w p = (w, p)"
| "worker_run (Suc k) w p = (case worker_step w p of None \<Rightarrow> (w, p) | Some (w', p', _) \<Rightarrow> worker_run k w' p')"

lemma post_valid_iter: "(post_job_valid_num ^^ k) p = p\<lparr>job_valid_sem := job_valid_sem p + k\<rparr>"
  by (induction k) (auto simp: post_job_valid_num_def)

text \<open>
  Destroying the pool frees the queue under the workers: a worker that waits for a job is woken by
  the posts of \<^verbatim>\<open>frame_threadpool_destroy\<close> and then reads a slot of the freed queue.
\<close>

lemma destroy_faults_workers:
  assumes "0 < job_queue_size p"
  shows "fst (worker_run 4 WaitValid (frame_threadpool_destroy p)) = Fault"
  using assms
  by (simp add: frame_threadpool_destroy_def post_valid_iter eval_nat_numeral pool_op_defs slot_def)

lemma destroy_faults_workers_witness:
  "fst (worker_run 4 WaitValid (frame_threadpool_destroy (sys_pool (start_system 2 [empty_job, empty_job] [])))) = Fault"
  by (rule destroy_faults_workers) (simp add: start_system_def frame_threadpool_init_def Let_def eval_nat_numeral)

end
