(* ===== verification/Thread_Queue.thy ===== *)
theory Thread_Queue
  imports Thread_Inv
begin

text \<open>
  The two operations of the pool without interleaving: a bounded queue. The interface is a locale; the
  pool is an instance of it.
\<close>

section \<open>Bounded queues\<close>

locale bounded_fifo =
  fixes put :: "'s \<Rightarrow> 'a \<Rightarrow> 's option" and get :: "'s \<Rightarrow> ('a \<times> 's) option"
    and items :: "'s \<Rightarrow> 'a list" and capacity :: "'s \<Rightarrow> nat" and ok :: "'s \<Rightarrow> bool"
  assumes put_room: "ok s \<Longrightarrow> length (items s) < capacity s \<Longrightarrow>
      \<exists>s'. put s x = Some s' \<and> ok s' \<and> items s' = items s @ [x] \<and> capacity s' = capacity s"
    and put_full: "ok s \<Longrightarrow> length (items s) = capacity s \<Longrightarrow> put s x = None"
    and get_first: "ok s \<Longrightarrow> items s = x # xs \<Longrightarrow>
      \<exists>s'. get s = Some (x, s') \<and> ok s' \<and> items s' = xs \<and> capacity s' = capacity s"
    and get_empty: "ok s \<Longrightarrow> items s = [] \<Longrightarrow> get s = None"
    and within: "ok s \<Longrightarrow> length (items s) \<le> capacity s"

fun put_all :: "('s \<Rightarrow> 'a \<Rightarrow> 's option) \<Rightarrow> 'a list \<Rightarrow> 's \<Rightarrow> 's option" where
  "put_all put [] s = Some s"
| "put_all put (x # xs) s = Option.bind (put s x) (put_all put xs)"

fun get_all :: "('s \<Rightarrow> ('a \<times> 's) option) \<Rightarrow> nat \<Rightarrow> 's \<Rightarrow> ('a list \<times> 's) option" where
  "get_all get 0 s = Some ([], s)"
| "get_all get (Suc n) s =
     (case get s of None \<Rightarrow> None | Some (x, s') \<Rightarrow> map_option (\<lambda>(xs, s''). (x # xs, s'')) (get_all get n s'))"

context bounded_fifo
begin

lemma put_all_items:
  "ok s \<Longrightarrow> length (items s) + length xs \<le> capacity s \<Longrightarrow>
     \<exists>s'. put_all put xs s = Some s' \<and> ok s' \<and> items s' = items s @ xs \<and> capacity s' = capacity s"
proof (induction xs arbitrary: s)
  case (Cons x xs)
  then obtain s' where "put s x = Some s'" "ok s'" "items s' = items s @ [x]" "capacity s' = capacity s"
    using put_room[of s x] by auto
  with Cons.IH[of s'] Cons.prems show ?case by auto
qed auto

lemma get_all_items:
  "ok s \<Longrightarrow> items s = xs @ ys \<Longrightarrow> \<exists>s'. get_all get (length xs) s = Some (xs, s') \<and> ok s' \<and> items s' = ys \<and> capacity s' = capacity s"
proof (induction xs arbitrary: s)
  case (Cons x xs)
  then obtain s' where "get s = Some (x, s')" "ok s'" "items s' = xs @ ys" "capacity s' = capacity s"
    using get_first[of s x "xs @ ys"] by auto
  with Cons.IH[of s'] show ?case by auto
qed auto

lemma first_in_first_out:
  assumes "ok s" and "items s = []" and "length xs \<le> capacity s"
  shows "\<exists>s' s''. put_all put xs s = Some s' \<and> get_all get (length xs) s' = Some (xs, s'') \<and> ok s'' \<and> items s'' = []"
proof -
  obtain s' where s': "put_all put xs s = Some s'" "ok s'" "items s' = xs @ []" using put_all_items[of s xs] assms by auto
  then show ?thesis using get_all_items[OF s'(2,3)] by blast
qed

end

section \<open>The operations as a whole\<close>

text \<open>\<^verbatim>\<open>frame_add_job_queue\<close>: \<open>None\<close> is waiting (or a fault), and the return value is missing when a job was added.\<close>

definition frame_add_job_queue :: "THREAD_POOL_JOB \<Rightarrow> FRAME_THREAD_POOL \<Rightarrow> (int option \<times> FRAME_THREAD_POOL) option" where
  "frame_add_job_queue tp_job p =
     (if is_quit p then Some (Some (- 1), p)
      else do {
        (index, p1) \<leftarrow> get_free_job_index p;
        _ \<leftarrow> slot p1 index;
        Some (None, post_job_valid_num (set_slot index tp_job p1))
      })"

text \<open>One round of \<^verbatim>\<open>thread_routine\<close>, with the slot it worked on.\<close>

definition thread_round :: "FRAME_THREAD_POOL \<Rightarrow> (THREAD_POOL_JOB \<times> FRAME_THREAD_POOL) option" where
  "thread_round p = do {
     (index, p1) \<leftarrow> get_valid_job_index (frame_threadpool_sleep p);
     let p2 = frame_threadpool_wakeup p1;
     curr_job \<leftarrow> slot p2 index;
     Some (curr_job, post_job_free_num (set_slot index empty_job p2))
   }"

text \<open>They are what the step functions do when no other thread runs in between.\<close>

fun producer_run :: "nat \<Rightarrow> producer \<Rightarrow> FRAME_THREAD_POOL \<Rightarrow> producer \<times> FRAME_THREAD_POOL" where
  "producer_run 0 r p = (r, p)"
| "producer_run (Suc k) r p = (case producer_step r p of None \<Rightarrow> (r, p) | Some (r', p') \<Rightarrow> producer_run k r' p')"

lemma add_job_steps:
  "frame_add_job_queue j p = Some (None, p') \<Longrightarrow> producer_run 5 (Submit j) p = (Added, p')"
  by (auto simp: frame_add_job_queue_def get_free_job_index_def eval_nat_numeral bind_eq_Some_conv
      split: if_splits option.splits prod.splits)

lemma round_steps:
  assumes "thread_round p = Some (j, p')" and "job_call j \<noteq> None"
  shows "worker_run 8 Sleep p = (CheckQuit, p')"
proof -
  obtain p0 i p1 where s: "wait_job_valid (frame_threadpool_sleep p) = Some p0" "take_pop_index p0 = (i, p1)"
    "slot (frame_threadpool_wakeup p1) i = Some j" "p' = post_job_free_num (set_slot i empty_job (frame_threadpool_wakeup p1))"
    using assms(1) by (auto simp: thread_round_def get_valid_job_index_def bind_eq_Some_conv Let_def)
  then show ?thesis using assms(2) by (simp add: eval_nat_numeral)
qed

section \<open>The pool is a bounded queue\<close>

definition queue_ok :: "FRAME_THREAD_POOL \<Rightarrow> bool" where
  "queue_ok p \<longleftrightarrow> pool_live p \<and> job_free_sem p + job_valid_sem p = job_queue_size p \<and>
     push_index p = (pop_index p + job_valid_sem p) mod job_queue_size p"

definition pending :: "FRAME_THREAD_POOL \<Rightarrow> THREAD_POOL_JOB list" where
  "pending p = map (\<lambda>k. the (q_head p) ! ((pop_index p + k) mod job_queue_size p)) [0..<job_valid_sem p]"

definition add_job :: "FRAME_THREAD_POOL \<Rightarrow> THREAD_POOL_JOB \<Rightarrow> FRAME_THREAD_POOL option" where
  "add_job p j = map_option snd (frame_add_job_queue j p)"

lemma next_index_mod: "i < n \<Longrightarrow> next_index n i = (i + 1) mod n"
  by (auto simp: next_index_def)

lemma mod_shift_neq:
  assumes "a < b" and "b < n" 
  shows "(i + a) mod n \<noteq> (i + b) mod (n::nat)"
proof
  assume e: "(i + a) mod n = (i + b) mod n"
  have "n dvd (i + b) - (i + a)" using e assms(1) by (metis mod_eq_dvd_iff_nat add_le_cancel_left less_imp_le)
  then have "n dvd b - a" by simp
  then show False using assms by (auto dest: dvd_imp_le)
qed

lemma add_job_room:
  assumes ok: "queue_ok p" and r: "job_valid_sem p < job_queue_size p"
  shows "\<exists>p'. frame_add_job_queue j p = Some (None, p') \<and> queue_ok p' \<and> pending p' = pending p @ [j] \<and>
    job_queue_size p' = job_queue_size p"
proof -
  let ?n = "job_queue_size p" and ?i = "push_index p" and ?v = "job_valid_sem p"
  obtain q where q: "q_head p = Some q" "length q = ?n" and lt: "?i < ?n" "pop_index p < ?n" "\<not> is_quit p" "0 < ?n"
    and f: "job_free_sem p + ?v = ?n" and i: "?i = (pop_index p + ?v) mod ?n"
    using ok by (auto simp: queue_ok_def pool_live_def)
  let ?p' = "p\<lparr>job_free_sem := job_free_sem p - 1, push_index := next_index ?n ?i, q_head := Some (q[?i := j]), job_valid_sem := ?v + 1\<rparr>"
  have "frame_add_job_queue j p = Some (None, ?p')"
    using lt q f r by (simp add: frame_add_job_queue_def get_free_job_index_def pool_op_defs slot_def)
  moreover have "queue_ok ?p'"
  proof -
    have "next_index ?n ?i = (pop_index p + (?v + 1)) mod ?n" using next_index_mod[OF lt(1)] i by (simp add: mod_Suc_eq)
    then show ?thesis using lt q f r next_index_less[OF lt(1)] by (auto simp: queue_ok_def pool_live_def)
  qed
  moreover have "pending ?p' = pending p @ [j]"
  proof -
    have "q[?i := j] ! ((pop_index p + k) mod ?n) = q ! ((pop_index p + k) mod ?n)" if "k < ?v" for k
      using mod_shift_neq[OF that r, of "pop_index p"] i by simp
    moreover have "q[?i := j] ! ((pop_index p + ?v) mod ?n) = j" using i lt(1) q(2) by simp
    ultimately show ?thesis using q by (simp add: pending_def)
  qed
  ultimately show ?thesis by (intro exI[of _ ?p']) simp
qed

lemma round_first:
  assumes ok: "queue_ok p" and r: "0 < job_valid_sem p"
  shows "\<exists>p'. thread_round p = Some (hd (pending p), p') \<and> queue_ok p' \<and> pending p' = tl (pending p) \<and>
    job_queue_size p' = job_queue_size p"
proof -
  let ?n = "job_queue_size p" and ?i = "pop_index p" and ?v = "job_valid_sem p"
  obtain q where q: "q_head p = Some q" "length q = ?n" and lt: "?i < ?n" "push_index p < ?n" "\<not> is_quit p" "0 < ?n"
    and f: "job_free_sem p + ?v = ?n" and i: "push_index p = (?i + ?v) mod ?n"
    using ok by (auto simp: queue_ok_def pool_live_def)
  let ?p' = "p\<lparr>job_valid_sem := ?v - 1, pop_index := next_index ?n ?i, q_head := Some (q[?i := empty_job]), job_free_sem := job_free_sem p + 1\<rparr>"
  obtain v where v: "?v = Suc v" using r by (cases ?v) auto
  have pend: "pending p = map (\<lambda>k. q ! ((?i + k) mod ?n)) [0..<Suc v]" by (simp add: pending_def q(1) v)
  have h: "hd (pending p) = q ! ?i" "tl (pending p) = map (\<lambda>k. q ! ((?i + Suc k) mod ?n)) [0..<v]"
    unfolding pend upt_conv_Cons[OF zero_less_Suc] using lt(1) by (simp_all add: map_Suc_upt[symmetric] del: upt_Suc)
  have "thread_round p = Some (hd (pending p), ?p')"
    using lt q v h(1) by (simp add: thread_round_def get_valid_job_index_def pool_op_defs slot_def)
  moreover have "queue_ok ?p'"
  proof -
    have "(next_index ?n ?i + v) mod ?n = push_index p" unfolding next_index_mod[OF lt(1)] i v by (simp add: mod_simps)
    then show ?thesis using lt q f v next_index_less[OF lt(1)] by (auto simp: queue_ok_def pool_live_def)
  qed
  moreover have "pending ?p' = tl (pending p)"
  proof -
    have "q[?i := empty_job] ! ((next_index ?n ?i + k) mod ?n) = q ! ((?i + Suc k) mod ?n)" if "k < v" for k
    proof -
      have "(next_index ?n ?i + k) mod ?n = (?i + Suc k) mod ?n" unfolding next_index_mod[OF lt(1)] by (simp add: mod_simps)
      moreover have "(?i + Suc k) mod ?n \<noteq> ?i" using mod_shift_neq[of 0 "Suc k" ?n ?i] that f v lt(1) by auto
      ultimately show ?thesis by simp
    qed
    then show ?thesis using v unfolding h(2) by (simp add: pending_def)
  qed
  ultimately show ?thesis by (intro exI[of _ ?p']) simp
qed

interpretation jobs: bounded_fifo add_job thread_round pending job_queue_size queue_ok
proof unfold_locales
  fix p :: FRAME_THREAD_POOL and j j' js
  assume ok: "queue_ok p"
  have len: "length (pending p) = job_valid_sem p" by (simp add: pending_def)
  show "length (pending p) \<le> job_queue_size p" using ok by (simp add: len queue_ok_def)
  show "\<exists>p'. add_job p j = Some p' \<and> queue_ok p' \<and> pending p' = pending p @ [j] \<and> job_queue_size p' = job_queue_size p"
    if "length (pending p) < job_queue_size p"
    using add_job_room[OF ok, of j] that by (auto simp: add_job_def len)
  show "add_job p j = None" if "length (pending p) = job_queue_size p"
    using that ok by (simp add: add_job_def frame_add_job_queue_def get_free_job_index_def wait_job_free_def len queue_ok_def pool_live_def)
  show "\<exists>p'. thread_round p = Some (j', p') \<and> queue_ok p' \<and> pending p' = js \<and> job_queue_size p' = job_queue_size p"
    if "pending p = j' # js"
  proof -
    have "0 < job_valid_sem p" using that len by (metis length_Cons zero_less_Suc)
    from round_first[OF ok this] that show ?thesis by auto
  qed
  show "thread_round p = None" if "pending p = []"
    using that len by (simp add: thread_round_def get_valid_job_index_def wait_job_valid_def frame_threadpool_sleep_def)
qed

text \<open>
  C22. Without interleaving the pool is a bounded queue: jobs that are added to an idle pool, at most as
  many as it has slots, are all accepted and are run in the order in which they were added.
\<close>

theorem pool_fifo:
  assumes "queue_ok p" and "pending p = []" and "length js \<le> job_queue_size p"
  shows "\<exists>p' p''. put_all add_job js p = Some p' \<and> get_all thread_round (length js) p' = Some (js, p'') \<and>
    queue_ok p'' \<and> pending p'' = []"
  by (rule jobs.first_in_first_out[OF assms])

lemma sample_queue: "queue_ok (sys_pool (start_system 2 [empty_job, empty_job] []))" "pending (sys_pool (start_system 2 [empty_job, empty_job] [])) = []"
  "job_queue_size (sys_pool (start_system 2 [empty_job, empty_job] [])) = 2"
  by (simp_all add: start_system_def frame_threadpool_init_def Let_def eval_nat_numeral queue_ok_def pool_live_def pending_def)

theorem pool_fifo_witness:
  "\<exists>p' p''. put_all add_job [job 1, job 2] (sys_pool (start_system 2 [empty_job, empty_job] [])) = Some p' \<and>
    get_all thread_round (length [job 1, job 2]) p' = Some ([job 1, job 2], p'') \<and> queue_ok p'' \<and> pending p'' = []"
  by (rule pool_fifo[OF sample_queue(1,2)]) (simp add: sample_queue)

end
