(* ===== verification/Frame_Tool.thy ===== *)
theory Frame_Tool
  imports Ini_Strings C_Files "HOL-Library.Word" "HOL-Library.Sublist"
begin

unbundle bit_operations_syntax

text \<open>
  The helpers of \<^verbatim>\<open>module_function/frame_tool.c\<close>: searching in strings, file sizes, copying a file, the
  lock file that admits one instance of the program, listing a directory, and running a command.
  What the operating system answers (\<^verbatim>\<open>open\<close>, \<^verbatim>\<open>flock\<close>, \<^verbatim>\<open>getpwuid\<close>, \<^verbatim>\<open>readdir\<close>, \<^verbatim>\<open>system\<close>) is an argument.
\<close>

section \<open>Strings\<close>

fun frame_end_charstr :: "string \<Rightarrow> nat" where
  "frame_end_charstr [] = 0"
| "frame_end_charstr (c # cs) = (if c \<noteq> NUL then Suc (frame_end_charstr cs) else 0)"

fun frame_strlen :: "string option \<Rightarrow> nat" where
  "frame_strlen None = 0"
| "frame_strlen (Some []) = 0"
| "frame_strlen (Some (c # cs)) = (if c \<noteq> NUL then Suc (frame_strlen (Some cs)) else 0)"

definition is_digit :: "char \<Rightarrow> bool" where
  "is_digit c \<longleftrightarrow> 48 \<le> (of_char c :: nat) \<and> (of_char c :: nat) \<le> 57"

definition is_sign :: "char \<Rightarrow> bool" where
  "is_sign c \<longleftrightarrow> (of_char c :: nat) = 43 \<or> (of_char c :: nat) = 45"

text \<open>
  The loop of \<^verbatim>\<open>framestr_isall_digital\<close>. A sign is skipped only while \<^verbatim>\<open>flag\<close> is 0, and the byte behind
  it, which may be the terminator, is tested in the same round.
\<close>

fun isall_digital_loop :: "nat \<Rightarrow> string \<Rightarrow> nat" where
  "isall_digital_loop flag [] = flag"
| "isall_digital_loop flag (c # cs) =
     (if c = NUL then flag
      else if is_sign c
      then (if flag = 0
            then (case cs of
                    [] \<Rightarrow> 0
                  | d # ds \<Rightarrow> if \<not> is_digit d then 0 else isall_digital_loop (flag + 2) ds)
            else 0)
      else if \<not> is_digit c then 0
      else isall_digital_loop (flag + 1) cs)"

definition framestr_isall_digital :: "string \<Rightarrow> nat" where
  "framestr_isall_digital str = isall_digital_loop 0 str"

fun constchar_loop :: "string \<Rightarrow> char \<Rightarrow> nat option" where
  "constchar_loop [] c = None"
| "constchar_loop (x # xs) c =
     (if x = NUL then None else if x = c then Some 0 else map_option Suc (constchar_loop xs c))"

definition framestr_frist_constchar :: "string option \<Rightarrow> char \<Rightarrow> nat option" where
  "framestr_frist_constchar str c = (case str of None \<Rightarrow> None | Some s \<Rightarrow> constchar_loop s c)"

fun start_digital_loop :: "string \<Rightarrow> nat" where
  "start_digital_loop [] = 0"
| "start_digital_loop (c # cs) = (if c = NUL \<or> is_digit c then 0 else Suc (start_digital_loop cs))"

definition framestr_start_digital_char :: "string option \<Rightarrow> nat option" where
  "framestr_start_digital_char str = map_option start_digital_loop str"

fun end_digital_loop :: "string \<Rightarrow> nat" where
  "end_digital_loop [] = 0"
| "end_digital_loop (c # cs) = (if c = NUL \<or> \<not> is_digit c then 0 else Suc (end_digital_loop cs))"

definition framestr_end_digital_char :: "string option \<Rightarrow> nat option" where
  "framestr_end_digital_char str = map_option end_digital_loop str"

text \<open>\<^verbatim>\<open>framestr_last_constchar\<close> looks at the terminator first.\<close>

fun last_constchar_loop :: "string \<Rightarrow> char \<Rightarrow> nat \<Rightarrow> nat option" where
  "last_constchar_loop s c 0 = (if byte_at s 0 = c then Some 0 else None)"
| "last_constchar_loop s c (Suc p) = (if byte_at s (Suc p) = c then Some (Suc p) else last_constchar_loop s c p)"

definition framestr_last_constchar :: "string option \<Rightarrow> char \<Rightarrow> nat option" where
  "framestr_last_constchar str c =
     (case str of None \<Rightarrow> None | Some s \<Rightarrow> last_constchar_loop s c (frame_end_charstr s))"

text \<open>The \<^verbatim>\<open>for\<close> loop of \<^verbatim>\<open>framestr_first_conststr\<close>: the number of bytes that agree, at most \<open>n\<close>.\<close>

fun match_count :: "nat \<Rightarrow> string \<Rightarrow> string \<Rightarrow> nat" where
  "match_count 0 p q = 0"
| "match_count (Suc n) p q =
     (if byte_at p 0 = byte_at q 0 then Suc (match_count n (tl p) (tl q)) else 0)"

lemma constchar_loop_length: "constchar_loop s c = Some k \<Longrightarrow> k < length s"
  by (induction s arbitrary: k) (auto split: if_splits)

text \<open>The \<^verbatim>\<open>do\<close> loop, on the bytes from \<^verbatim>\<open>p\<close> on; the result is the distance from \<^verbatim>\<open>p\<close>.\<close>

function conststr_loop :: "string \<Rightarrow> string \<Rightarrow> nat option" where
  "conststr_loop p tar =
     (case framestr_frist_constchar (Some p) (byte_at tar 0) of
        None \<Rightarrow> None
      | Some k \<Rightarrow>
          let p' = drop k p; q_len = frame_strlen (Some tar) in
          if q_len > frame_strlen (Some p') then None
          else if match_count q_len p' tar = q_len then Some k
          else map_option (\<lambda>i. k + 1 + i) (conststr_loop (drop (k + 1) p) tar))"
  by pat_completeness auto
termination
  by (relation "measure (length \<circ> fst)") (auto simp: framestr_frist_constchar_def dest: constchar_loop_length)

declare conststr_loop.simps [simp del]

definition framestr_first_conststr :: "string option \<Rightarrow> string \<Rightarrow> nat option" where
  "framestr_first_conststr str tar =
     (case str of
        None \<Rightarrow> None
      | Some s \<Rightarrow> if frame_strlen (Some tar) > frame_strlen (Some s) then None else conststr_loop s tar)"

section \<open>Files and the system\<close>

text \<open>The conversion \<^verbatim>\<open>(int)\<close> of an \<^verbatim>\<open>off_t\<close>.\<close>

definition c_int :: "int \<Rightarrow> int" where
  "c_int i = sint (word_of_int i :: 32 word)"

definition get_local_file_size :: "file_system \<Rightarrow> string \<Rightarrow> int" where
  "get_local_file_size fs path =
     (case fs_files fs path of
        None \<Rightarrow> 0
      | Some content \<Rightarrow> if c_int (int (length content)) \<le> 0 then 0 else c_int (int (length content)))"

text \<open>The loop of \<^verbatim>\<open>copy_file_to_targetfile\<close>: what is left to read, and what has been written.\<close>

function copy_blocks :: "string \<Rightarrow> string \<Rightarrow> string" where
  "copy_blocks rest out =
     (let buf = take 1024 rest in if length buf > 0 then copy_blocks (drop 1024 rest) (out @ buf) else out)"
  by pat_completeness auto
termination by (relation "measure (length \<circ> fst)") auto

declare copy_blocks.simps [simp del]

text \<open>
  \<^verbatim>\<open>fopen(dest, "wab")\<close> truncates: the C library reads the first letter and ignores the others it does
  not know there. The source is read after the destination has been truncated.
\<close>

definition copy_file_to_targetfile :: "string \<Rightarrow> string \<Rightarrow> file_system \<Rightarrow> file_system" where
  "copy_file_to_targetfile src_file dest_file fs =
     (if fs_files fs src_file = None then fs
      else if \<not> can_open fs src_file then fs
      else if fs_denied fs dest_file then fs
      else let fs1 = fs_write dest_file [] fs
           in fs_write dest_file (copy_blocks (the (fs_files fs1 src_file)) []) fs1)"

text \<open>
  The lock file. The answers of \<^verbatim>\<open>open\<close> and \<^verbatim>\<open>flock\<close> are arguments, the latter with whether \<^verbatim>\<open>errno\<close> is
  \<^verbatim>\<open>EWOULDBLOCK\<close>; the state is \<^verbatim>\<open>mutex_filelock\<close>. Releasing yields the descriptors that are unlocked and
  closed.
\<close>

definition lock_mutex_file :: "int \<Rightarrow> int \<Rightarrow> bool \<Rightarrow> int \<times> int" where
  "lock_mutex_file opened rc would_block = (if rc \<noteq> 0 \<and> would_block then (rc, opened) else (0, opened))"

definition release_mutex_file :: "int \<Rightarrow> int list \<times> int" where
  "release_mutex_file mutex_filelock =
     (if mutex_filelock > 0 then ([mutex_filelock], 0) else ([], mutex_filelock))"

text \<open>The first byte in memory of a 32-bit integer.\<close>

definition first_byte :: "bool \<Rightarrow> 32 word \<Rightarrow> 8 word" where
  "first_byte little a = (if little then ucast a else ucast (drop_bit 24 a))"

definition cpu_isbig_endian :: "bool \<Rightarrow> int" where
  "cpu_isbig_endian little = (if first_byte little 1 = 1 then 0 else 1)"

text \<open>
  \<^verbatim>\<open>current_user_name\<close>, with the \<^verbatim>\<open>pw_name\<close> that \<^verbatim>\<open>getpwuid\<close> finds. A missing entry is dereferenced. The
  result is \<^verbatim>\<open>NULL\<close>, or the bytes of \<^verbatim>\<open>name\<close> after the copy.
\<close>

definition current_user_name :: "string option \<Rightarrow> string \<Rightarrow> int \<Rightarrow> string option option" where
  "current_user_name pw_name name len =
     (case pw_name of
        None \<Rightarrow> None
      | Some pw \<Rightarrow>
          if int (frame_strlen (Some pw)) \<ge> len then Some None
          else Some (Some (put_bytes name 0 (cstr pw @ [NUL]))))"

text \<open>What \<^verbatim>\<open>frame_call_shell_cmd\<close> reports; it returns 0 in every case.\<close>

datatype shell_report = SystemError | ScriptOk | ScriptFailed int | NotExited int

definition WIFEXITED :: "int \<Rightarrow> bool" where
  "WIFEXITED status \<longleftrightarrow> status AND 0x7f = 0"

definition WEXITSTATUS :: "int \<Rightarrow> int" where
  "WEXITSTATUS status = drop_bit 8 (status AND 0xff00)"

definition frame_call_shell_cmd :: "int \<Rightarrow> int \<times> shell_report" where
  "frame_call_shell_cmd status =
     (0, if status = -1 then SystemError
         else if WIFEXITED status
         then (if WEXITSTATUS status = 0 then ScriptOk else ScriptFailed (WEXITSTATUS status))
         else NotExited (WEXITSTATUS status))"

definition MAC_FULL_PATH_LEN :: nat where
  "MAC_FULL_PATH_LEN = 1024"

text \<open>
  \<^verbatim>\<open>foreach_filedir_under_folder\<close>: the lines it prints. The argument \<open>opendir\<close> gives the entries of a
  folder in the order of \<^verbatim>\<open>readdir\<close>, with whether an entry is a folder. An empty path reads the byte
  ahead of \<^verbatim>\<open>folder_path\<close>, and a folder that cannot be opened is given to \<^verbatim>\<open>readdir\<close> as \<^verbatim>\<open>NULL\<close>.
\<close>

datatype dir_line = Folder string | File int string | LongName string

definition dir_entry_line :: "file_system \<Rightarrow> string \<Rightarrow> string \<times> bool \<Rightarrow> dir_line" where
  "dir_entry_line fs dir_path entry =
     (case entry of (d_name, is_dir) \<Rightarrow>
        if is_dir then Folder d_name
        else if length (dir_path @ d_name) < MAC_FULL_PATH_LEN
        then File (get_local_file_size fs (dir_path @ d_name)) d_name
        else LongName d_name)"

definition foreach_filedir_under_folder ::
  "(string \<Rightarrow> (string \<times> bool) list option) \<Rightarrow> file_system \<Rightarrow> string option \<Rightarrow> dir_line list option" where
  "foreach_filedir_under_folder opendir fs dir_path =
     (case dir_path of
        None \<Rightarrow> Some []
      | Some path \<Rightarrow>
          let dir = cstr path; len = frame_strlen (Some path) in
          if len \<ge> MAC_FULL_PATH_LEN - 1 then Some []
          else if len = 0 then None
          else let folder_path = (if dir ! (len - 1) \<noteq> CHR ''/'' then dir @ ''/'' else dir)
               in map_option (map (dir_entry_line fs dir)) (opendir folder_path))"

section \<open>What the string functions compute\<close>

lemma frame_end_charstr_eq [simp]: "frame_end_charstr s = length (cstr s)"
  by (induction s) auto

lemma frame_strlen_Some [simp]: "frame_strlen (Some s) = length (cstr s)"
  by (induction s) auto

lemma framestr_frist_constchar_eq:
  "framestr_frist_constchar (Some s) c = first_index (\<lambda>x. x = c) (cstr s)"
  unfolding framestr_frist_constchar_def by (induction s) auto

text \<open>A number with an optional sign.\<close>

fun signed_digits :: "string \<Rightarrow> bool" where
  "signed_digits [] = False"
| "signed_digits (c # cs) = (if is_sign c then cs \<noteq> [] \<and> list_all is_digit cs else list_all is_digit (c # cs))"

lemma digit_no_sign: "is_digit c \<Longrightarrow> \<not> is_sign c"
  by (auto simp: is_digit_def is_sign_def)

lemma NUL_kind [simp]: "\<not> is_digit NUL" "\<not> is_sign NUL"
  by (auto simp: is_digit_def is_sign_def)

lemma isall_digital_tail:
  "0 < flag \<Longrightarrow> isall_digital_loop flag s = (if list_all is_digit (cstr s) then flag + length (cstr s) else 0)"
proof (induction s arbitrary: flag)
  case (Cons c s)
  then show ?case by (cases "is_sign c") (auto dest: digit_no_sign)
qed simp

lemma framestr_isall_digital_eq:
  "framestr_isall_digital s = (if signed_digits (cstr s) then length (cstr s) else 0)"
proof (cases s)
  case (Cons c cs)
  then show ?thesis
    by (cases cs) (auto simp: framestr_isall_digital_def isall_digital_tail dest: digit_no_sign)
qed (simp add: framestr_isall_digital_def)

text \<open>The last position of a byte, the terminator included.\<close>

lemma last_constchar_loop_Some:
  "last_constchar_loop s c p = Some i \<longleftrightarrow> i \<le> p \<and> byte_at s i = c \<and> (\<forall>j. i < j \<and> j \<le> p \<longrightarrow> byte_at s j \<noteq> c)"
  by (induction p) (auto simp: le_Suc_eq)

lemma framestr_last_constchar_Some:
  "framestr_last_constchar (Some s) c = Some i \<longleftrightarrow>
     i \<le> length (cstr s) \<and> byte_at s i = c \<and> (\<forall>j. i < j \<and> j \<le> length (cstr s) \<longrightarrow> byte_at s j \<noteq> c)"
  by (simp add: framestr_last_constchar_def last_constchar_loop_Some)

subsection \<open>Searching a substring\<close>

text \<open>The reference: the first position at which \<open>t\<close> is a prefix of what follows.\<close>

fun find_sub :: "'a list \<Rightarrow> 'a list \<Rightarrow> nat option" where
  "find_sub t [] = (if t = [] then Some 0 else None)"
| "find_sub t (x # xs) = (if prefix t (x # xs) then Some 0 else map_option Suc (find_sub t xs))"

lemma find_sub_short: "length xs < length t \<Longrightarrow> find_sub t xs = None"
  by (induction xs) (auto dest: prefix_length_le)

lemma find_sub_skip:
  "t \<noteq> [] \<Longrightarrow> hd t \<notin> set pre \<Longrightarrow> find_sub t (pre @ xs) = map_option ((+) (length pre)) (find_sub t xs)"
proof (induction pre)
  case Nil
  then show ?case by (cases "find_sub t xs") auto
next
  case (Cons c pre)
  then have "\<not> prefix t (c # (pre @ xs))" by (cases t) auto
  then show ?case using Cons by (cases "find_sub t xs") auto
qed

lemma match_count_full: "match_count n p q = n \<longleftrightarrow> (\<forall>i < n. byte_at p i = byte_at q i)"
proof (induction n p q rule: match_count.induct)
  case (2 n p q)
  have *: "byte_at (tl xs) i = byte_at xs (Suc i)" for xs :: string and i by (cases xs) auto
  show ?case using 2 by (auto simp: * less_Suc_eq_0_disj)
qed simp

lemma match_count_prefix:
  assumes "length (cstr q) \<le> length (cstr p)"
  shows "match_count (length (cstr q)) p q = length (cstr q) \<longleftrightarrow> prefix (cstr q) (cstr p)"
proof -
  have "match_count (length (cstr q)) p q = length (cstr q) \<longleftrightarrow> (\<forall>i < length (cstr q). cstr p ! i = cstr q ! i)"
    unfolding match_count_full using assms by (simp add: cstr_nth)
  also have "\<dots> \<longleftrightarrow> take (length (cstr q)) (cstr p) = cstr q"
    using assms by (auto simp: list_eq_iff_nth_eq)
  also have "\<dots> \<longleftrightarrow> prefix (cstr q) (cstr p)" by (metis append_eq_conv_conj prefixE prefixI take_is_prefix)
  finally show ?thesis .
qed

lemma first_index_split:
  assumes "first_index (\<lambda>x. x = c) xs = Some k"
  shows "xs = take k xs @ c # drop (Suc k) xs" "c \<notin> set (take k xs)"
  using first_index_SomeD[OF assms] by (auto simp: id_take_nth_drop in_set_conv_nth)

lemma cstr_drop: "k \<le> length (cstr s) \<Longrightarrow> cstr (drop k s) = drop k (cstr s)"
proof (induction s arbitrary: k)
  case (Cons c s)
  then show ?case by (cases k) (auto split: if_splits)
qed simp

lemma conststr_loop_eq:
  assumes "cstr tar \<noteq> []"
  shows "conststr_loop p tar = find_sub (cstr tar) (cstr p)"
proof (induction "length p" arbitrary: p rule: less_induct)
  case less
  have hd: "byte_at tar 0 = hd (cstr tar)" using assms by (cases tar) (auto split: if_splits)
  show ?case
  proof (cases "framestr_frist_constchar (Some p) (byte_at tar 0)")
    case None
    then have "hd (cstr tar) \<notin> set (cstr p)" by (auto simp: framestr_frist_constchar_eq first_index_None hd)
    then have "find_sub (cstr tar) (cstr p) = None"
      using find_sub_skip[of "cstr tar" "cstr p" "[]"] assms by simp
    then show ?thesis using None by (simp add: conststr_loop.simps[of p])
  next
    case (Some k)
    let ?t = "cstr tar" and ?s = "cstr p"
    have plus_fun: "(+) (Suc k) = (\<lambda>i. Suc (k + i))" by auto
    have fi: "first_index (\<lambda>x. x = hd ?t) ?s = Some k" using Some by (simp add: framestr_frist_constchar_eq hd)
    have k: "k < length ?s" using first_index_SomeD[OF fi] by simp
    have d: "cstr (drop k p) = drop k ?s" "cstr (drop (Suc k) p) = drop (Suc k) ?s" using k by (auto simp: cstr_drop)
    have "find_sub ?t ?s = map_option ((+) k) (find_sub ?t (drop k ?s))"
      using find_sub_skip[OF assms first_index_split(2)[OF fi], of "drop k ?s"] k by simp
    moreover have "drop k ?s = ?s ! k # drop (Suc k) ?s" using k by (simp add: Cons_nth_drop_Suc)
    moreover have "conststr_loop (drop (Suc k) p) tar = find_sub ?t (drop (Suc k) ?s)"
      using less[of "drop (Suc k) p"] order.strict_trans2[OF k length_cstr_le] d(2) by simp
    ultimately show ?thesis
      using Some match_count_prefix[of tar "drop k p"] find_sub_short[of "drop k ?s" ?t]
      by (auto simp: conststr_loop.simps[of p] d Let_def option.map_comp comp_def plus_fun)
  qed
qed

text \<open>
  C40. \<^verbatim>\<open>framestr_first_conststr\<close> finds the first occurrence: for a nonempty target it is the reference
  search, the first position at which the target is a prefix of the rest of the string, and \<^verbatim>\<open>NULL\<close>
  when there is none; for an empty target it is \<^verbatim>\<open>NULL\<close>.
\<close>

theorem first_conststr_finds_first:
  "framestr_first_conststr (Some s) tar = (if cstr tar = [] then None else find_sub (cstr tar) (cstr s))"
proof (cases "cstr tar = []")
  case True
  then have "byte_at tar 0 = NUL" by (cases tar) (auto split: if_splits)
  then have "framestr_frist_constchar (Some s) (byte_at tar 0) = None"
    by (auto simp: framestr_frist_constchar_eq first_index_None)
  then show ?thesis using True by (simp add: framestr_first_conststr_def conststr_loop.simps[of s])
next
  case False
  then show ?thesis by (simp add: framestr_first_conststr_def conststr_loop_eq find_sub_short)
qed

section \<open>Sizes and copies\<close>

lemma c_int_eq: "c_int i = (let n = i mod 2 ^ 32 in if n < 2 ^ 31 then n else n - 2 ^ 32)"
proof -
  have "c_int i = (i + 2 ^ 31) mod 2 ^ 32 - 2 ^ 31" by (simp add: c_int_def int_word_sint)
  also have "(i + 2 ^ 31) mod 2 ^ 32 = (i mod 2 ^ 32 + 2 ^ 31) mod 2 ^ 32" by (simp add: mod_add_left_eq)
  also have "\<dots> = (if i mod 2 ^ 32 < 2 ^ 31 then i mod 2 ^ 32 + 2 ^ 31 else i mod 2 ^ 32 - 2 ^ 31)"
    using pos_mod_bound[of "2 ^ 32" i] by (simp add: mod_pos_pos_trivial mod_pos_geq)
  finally show ?thesis by (auto simp: Let_def)
qed

text \<open>
  \<^verbatim>\<open>get_local_file_size\<close> returns a value between 0 and \<open>2\<^sup>3\<^sup>1 - 1\<close> that is the size of the file modulo
  \<open>2\<^sup>3\<^sup>2\<close>, or 0 where that is not below \<open>2\<^sup>3\<^sup>1\<close>: it is the size for every file below 2 GiB, 0 for a missing
  file, and wrong beyond.
\<close>

lemma file_size_bounds:
  "get_local_file_size fs path =
     (case fs_files fs path of
        None \<Rightarrow> 0
      | Some content \<Rightarrow>
          let n = int (length content) mod 2 ^ 32 in if n < 2 ^ 31 then n else 0)"
  using pos_mod_bound[of "2 ^ 32"] by (auto simp: get_local_file_size_def c_int_eq Let_def not_less split: option.splits)

lemma copy_blocks_eq: "copy_blocks rest out = out @ rest"
proof (induction rest out rule: copy_blocks.induct)
  case (1 rest out)
  then show ?case by (cases "rest = []") (simp_all add: copy_blocks.simps[of rest out] copy_blocks.simps[of "[]"])
qed

text \<open>
  \<^verbatim>\<open>copy_file_to_targetfile\<close> changes no other file, gives the destination exactly the contents of
  the source when both can be opened, and changes nothing when one cannot; a file that is copied onto
  itself is emptied.
\<close>

lemma copy_file_copies:
  "copy_file_to_targetfile src_file dest_file fs =
     (if can_open fs src_file \<and> \<not> fs_denied fs dest_file
      then fs_write dest_file (if src_file = dest_file then [] else the (fs_files fs src_file)) fs
      else fs)"
  by (auto simp: copy_file_to_targetfile_def can_open_def fs_write_def copy_blocks_eq)

end
