(* ===== verification/Http_Message.thy ===== *)
theory Http_Message
  imports Frame_Tool
begin

text \<open>
  The messages of \<^verbatim>\<open>module_function/http_applayer.c\<close>, and what the program uses of the C library to print and
  read numbers: the \<^verbatim>\<open>%d\<close> of \<^verbatim>\<open>snprintf\<close> and \<^verbatim>\<open>atoi\<close>.
\<close>

section \<open>Numbers as text\<close>

text \<open>\<^verbatim>\<open>%d\<close>.\<close>

definition digit_char :: "nat \<Rightarrow> char" where
  "digit_char d = char_of (48 + d)"

fun dec_nat :: "nat \<Rightarrow> string" where
  "dec_nat n = (if n < 10 then [digit_char n] else dec_nat (n div 10) @ [digit_char (n mod 10)])"

declare dec_nat.simps [simp del]

definition dec_int :: "int \<Rightarrow> string" where
  "dec_int i = (if i < 0 then ''-'' @ dec_nat (nat (- i)) else dec_nat (nat i))"

text \<open>
  \<^verbatim>\<open>atoi\<close>: white space, a sign, digits. The second component is the number of bytes that belong to the
  number, the byte behind them is read as well. A value that is no \<^verbatim>\<open>int\<close> is undefined.
\<close>

definition is_space :: "char \<Rightarrow> bool" where
  "is_space c \<longleftrightarrow> (of_char c :: nat) = 32 \<or> 9 \<le> (of_char c :: nat) \<and> (of_char c :: nat) \<le> 13"

definition digit_val :: "char \<Rightarrow> nat" where
  "digit_val c = of_char c - 48"

definition digits_val :: "string \<Rightarrow> nat" where
  "digits_val ds = foldl (\<lambda>n d. 10 * n + digit_val d) 0 ds"

definition int_range :: "int \<Rightarrow> bool" where
  "int_range i \<longleftrightarrow> - (2 ^ 31) \<le> i \<and> i < 2 ^ 31"

definition atoi_scan :: "string \<Rightarrow> int \<times> nat" where
  "atoi_scan s =
     (let blanks = takeWhile is_space s; rest = dropWhile is_space s;
          signed = (case rest of [] \<Rightarrow> False | c # cs \<Rightarrow> is_sign c);
          ds = takeWhile is_digit (if signed then tl rest else rest);
          n = int (digits_val ds)
      in (if signed \<and> (of_char (hd rest) :: nat) = 45 then - n else n,
          length blanks + (if signed then 1 else 0) + length ds))"

definition atoi :: "string \<Rightarrow> int option" where
  "atoi s = (case atoi_scan s of (i, n) \<Rightarrow> if int_range i then Some i else None)"

lemma of_char_digit_char [simp]: "d < 10 \<Longrightarrow> (of_char (digit_char d) :: nat) = 48 + d"
  by (simp add: digit_char_def)

lemma digit_char_kind [simp]:
  assumes "d < 10"
  shows "is_digit (digit_char d)" "\<not> is_space (digit_char d)" "\<not> is_sign (digit_char d)" "digit_val (digit_char d) = d"
    "digit_char d \<noteq> NUL"
proof -
  have d: "(of_char (digit_char d) :: nat) = 48 + d" "d \<le> 9" using assms by auto
  then show "is_digit (digit_char d)" "\<not> is_space (digit_char d)" "\<not> is_sign (digit_char d)" "digit_val (digit_char d) = d"
    by (auto simp: is_digit_def is_space_def is_sign_def digit_val_def)
  show "digit_char d \<noteq> NUL" using d(1) by (intro notI) simp
qed

lemma dec_nat_digits: "list_all is_digit (dec_nat n)"
proof (induction n rule: dec_nat.induct)
  case (1 n)
  then show ?case by (subst dec_nat.simps) auto
qed

lemma dec_nat_nonempty [simp]: "dec_nat n \<noteq> []"
  by (subst dec_nat.simps) simp

lemma digits_val_dec_nat [simp]: "digits_val (dec_nat n) = n"
proof (induction n rule: dec_nat.induct)
  case (1 n)
  then show ?case by (subst dec_nat.simps) (auto simp: digits_val_def)
qed

lemma dec_nat_length: "n < 10 ^ k \<Longrightarrow> 0 < k \<Longrightarrow> length (dec_nat n) \<le> k"
proof (induction n arbitrary: k rule: dec_nat.induct)
  case (1 n)
  show ?case
  proof (cases "n < 10")
    case False
    then have k: "1 < k" using 1(2,3) by (cases "k = 1") auto
    then have "n div 10 < 10 ^ (k - 1)" using 1(2) by (simp add: less_mult_imp_div_less power_eq_if)
    then have "length (dec_nat (n div 10)) \<le> k - 1" using 1(1)[OF False] k by simp
    then show ?thesis using False k by (subst dec_nat.simps) simp
  qed (use 1(3) in \<open>subst dec_nat.simps, simp\<close>)
qed

lemma digit_no_space: "is_digit c \<Longrightarrow> \<not> is_space c"
  by (auto simp: is_digit_def is_space_def)

lemma digit_no_NUL: "is_digit c \<Longrightarrow> c \<noteq> NUL"
  by (auto simp: is_digit_def)

lemma dec_nat_hd: "\<exists>d ds. dec_nat n = d # ds \<and> is_digit d \<and> list_all is_digit ds"
  using dec_nat_digits[of n] by (cases "dec_nat n") auto

text \<open>Reading a number behind which no digit follows gives the number that was printed.\<close>

lemma atoi_scan_dec:
  assumes "case rest of [] \<Rightarrow> True | c # cs \<Rightarrow> \<not> is_digit c"
  shows "atoi_scan (dec_nat n @ rest) = (int n, length (dec_nat n))"
proof -
  obtain d ds where d: "dec_nat n = d # ds" "is_digit d" "list_all is_digit ds" using dec_nat_hd by blast
  have "takeWhile is_digit (dec_nat n @ rest) = dec_nat n"
    using dec_nat_digits[of n] assms by (subst takeWhile_append2) (auto simp: list_all_iff split: list.splits)
  moreover have "takeWhile is_space (dec_nat n @ rest) = []" "dropWhile is_space (dec_nat n @ rest) = dec_nat n @ rest"
    using d digit_no_space by auto
  moreover have "\<not> is_sign d" using d(2) digit_no_sign by blast
  ultimately show ?thesis using d(1) by (simp add: atoi_scan_def Let_def) (metis append_Cons digits_val_dec_nat)
qed

lemma atoi_dec: "n < 2 ^ 31 \<Longrightarrow> atoi (dec_nat n) = Some (int n)"
  using atoi_scan_dec[of "[]" n] by (simp add: atoi_def int_range_def)

section \<open>Messages\<close>

definition crlf :: string where
  "crlf = [CHR 0x0D, CHR 0x0A]"

text \<open>
  \<^verbatim>\<open>snprintf(buf, len, ...)\<close> with a positive length: the text is cut to the buffer, and the result is its full length.
\<close>

definition snprintf :: "string \<Rightarrow> nat \<Rightarrow> string \<Rightarrow> int \<times> string" where
  "snprintf buf len txt =
     (int (length txt), if len = 0 then buf else put_bytes buf 0 (take (len - 1) txt @ [NUL]))"

definition make_http_post_json :: "string \<Rightarrow> nat \<Rightarrow> string \<Rightarrow> string \<Rightarrow> int \<times> string" where
  "make_http_post_json h_buf len path body_str =
     (let h_buf_len = frame_strlen (Some body_str)
      in snprintf h_buf len (''POST '' @ cstr path @ '' HTTP/1.1'' @ crlf @
        ''User-Agent: ES-HTTP-API'' @ crlf @
        ''Content-type: application/json;charset=UTF-8'' @ crlf @
        ''Host: 127.0.0.0:80'' @ crlf @
        ''Accept: application/json, image/gif, image/jpeg, *; q=.2, *//*; q=.2'' @ crlf @
        ''Connection: keep-alive'' @ crlf @
        ''Content-Length: '' @ dec_nat h_buf_len @ crlf @ crlf @ cstr body_str))"

definition make_http_post_text :: "string \<Rightarrow> nat \<Rightarrow> string \<Rightarrow> string \<Rightarrow> int \<times> string" where
  "make_http_post_text h_buf len path body_str =
     (let h_buf_len = frame_strlen (Some body_str)
      in snprintf h_buf len (''POST '' @ cstr path @ '' HTTP/1.1'' @ crlf @
        ''User-Agent: ES-HTTP-API'' @ crlf @
        ''Content-type: application/json;charset=UTF-8'' @ crlf @
        ''Host: 127.0.0.0:80'' @ crlf @
        ''Accept: text/html, image/gif, image/jpeg, *; q=.2, *//*; q=.2'' @ crlf @
        ''Connection: keep-alive'' @ crlf @
        ''Content-Length: '' @ dec_nat h_buf_len @ crlf @ crlf @ cstr body_str))"

text \<open>The lines from \<^verbatim>\<open>Upgrade-Insecure-Requests\<close> on are not separated.\<close>

definition make_http_get_test :: "string \<Rightarrow> nat \<Rightarrow> string \<Rightarrow> int \<times> string" where
  "make_http_get_test h_buf len path =
     snprintf h_buf len (''GET '' @ cstr path @ '' HTTP/1.1'' @ crlf @
       ''Host: 127.0.0.0:80'' @ crlf @
       ''Connection: keep-alive'' @ crlf @
       ''Upgrade-Insecure-Requests: 1'' @
       ''User-Agent: Mozilla/5.0 (Windows NT 6.1; Win64; x64) AppleWebKit/537.36 (KHTML, like Gecko) Chrome/59.0.3071.86 Safari/537.36'' @
       ''Accept: text/html,application/xhtml+xml,application/xml;q=0.9,image/webp,image/apng,*/*;q=0.8'' @
       ''Accept-Encoding: gzip, deflate'' @
       ''Accept-Language: zh-CN,zh;q=0.8'')"

record MAKE_HTTP_MESSAGE =
  msg_head :: "string option"
  msg_buf :: "string option"
  msg_path :: "string option"
  msg_body :: "string option"
  msg_ip :: "string option"
  msg_buf_len :: int
  msg_port :: nat

definition request_head :: "string \<Rightarrow> string \<Rightarrow> string \<Rightarrow> nat \<Rightarrow> string" where
  "request_head h p ip port =
     cstr h @ '' '' @ cstr p @ '' HTTP/1.1'' @ crlf @
     ''User-Agent: ES-HTTP-API'' @ crlf @
     ''Content-type: application/json;charset=UTF-8'' @ crlf @
     ''Host: '' @ cstr ip @ '':'' @ dec_nat port @ crlf @
     ''Accept: application/json; charset=UTF-8'' @ crlf @
     ''Connection: keep-alive'' @ crlf"

text \<open>The text of a request with a body.\<close>

definition request_text :: "string \<Rightarrow> string \<Rightarrow> string \<Rightarrow> nat \<Rightarrow> string \<Rightarrow> string" where
  "request_text h p ip port b =
     request_head h p ip port @ ''Content-Length: '' @ dec_nat (frame_strlen (Some b)) @ crlf @ crlf @ cstr b"

text \<open>
  \<^verbatim>\<open>make_es_http_message\<close>. Without a body the format has the conversion \<^verbatim>\<open>%0\<close> followed by a carriage return, which
  the C standard does not define, and no result is defined.
\<close>

definition make_es_http_message :: "MAKE_HTTP_MESSAGE \<Rightarrow> (int \<times> MAKE_HTTP_MESSAGE) option" where
  "make_es_http_message param =
     (case (msg_head param, msg_buf param, msg_path param, msg_ip param) of
        (Some h, Some buf, Some p, Some ip) \<Rightarrow>
          if msg_buf_len param \<le> 0 \<or> msg_port param = 0 then Some (- 1, param)
          else (case msg_body param of
                  Some b \<Rightarrow>
                    let res = snprintf buf (nat (msg_buf_len param)) (request_text h p ip (msg_port param) b)
                    in Some (fst res, param\<lparr>msg_buf := Some (snd res)\<rparr>)
                | None \<Rightarrow> None)
      | _ \<Rightarrow> Some (- 1, param))"

lemma dec_nat_no_NUL [simp]: "NUL \<notin> set (dec_nat n)"
  using dec_nat_digits[of n] by (auto simp: list_all_iff is_digit_def)

lemma request_text_no_NUL [simp]: "NUL \<notin> set (request_text h p ip port b)"
  by (simp add: request_text_def request_head_def crlf_def)

lemma request_text_nonempty [simp]: "request_text h p ip port b \<noteq> []"
  by (simp add: request_text_def request_head_def)

text \<open>A buffer that is longer than the returned length holds the whole request.\<close>

lemma make_es_http_message_fits:
  assumes "msg_head param = Some h" "msg_buf param = Some buf" "msg_path param = Some p" "msg_ip param = Some ip"
    "msg_body param = Some b" "msg_port param \<noteq> 0" "int (length (request_text h p ip (msg_port param) b)) < msg_buf_len param"
  shows "\<exists>buf'. make_es_http_message param = Some (int (length (request_text h p ip (msg_port param) b)), param\<lparr>msg_buf := Some buf'\<rparr>)
    \<and> cstr buf' = request_text h p ip (msg_port param) b"
proof -
  let ?t = "request_text h p ip (msg_port param) b"
  have len: "msg_buf_len param > 0" using assms(7) by linarith
  then have fit: "take (nat (msg_buf_len param) - 1) ?t = ?t" using assms(7) by (intro take_all) linarith
  have res: "make_es_http_message param =
      Some (int (length ?t), param\<lparr>msg_buf := Some (put_bytes buf 0 (?t @ [NUL]))\<rparr>)"
    using assms(1-6) len fit by (simp add: make_es_http_message_def snprintf_def Let_def)
  have "cstr (put_bytes buf 0 (?t @ [NUL])) = ?t"
    by (rule cstr_eqI) (auto simp: byte_at_put_bytes nth_append)
  then show ?thesis using res by blast
qed

end
