(* ===== verification/Key_Value.thy ===== *)
theory Key_Value
  imports Frame_Tool Node_Lists
begin

text \<open>
  The singly linked lists of \<^verbatim>\<open>module_function/key_value_part.c\<close> and \<^verbatim>\<open>module_function/es_obj_info.c\<close>: appending a
  node behind the head or the tail, and searching a value. The nodes belong to the caller and are kept in
  a map; a node that is not there cannot be read.
\<close>

section \<open>Definitions\<close>

record KEY_VALUE_NODE =
  key_f :: "string option"
  value_f :: "string option"
  next_f :: "nat option"

record OBJ_INFO =
  obj_index :: "string option"
  obj_type :: "string option"
  obj_id :: "string option"
  obj_head :: "nat option"
  obj_next :: "nat option"

type_synonym kv_nodes = "nat \<Rightarrow> KEY_VALUE_NODE option"
type_synonym obj_nodes = "nat \<Rightarrow> OBJ_INFO option"

text \<open>\<^verbatim>\<open>while(tail->next_) tail = tail->next_; tail->next_ = node;\<close>\<close>

partial_function (option) kv_append_loop :: "nat \<Rightarrow> nat option \<Rightarrow> kv_nodes \<Rightarrow> kv_nodes option" where
  "kv_append_loop tail node h =
     (case h tail of
        None \<Rightarrow> None
      | Some t \<Rightarrow> (case next_f t of
          None \<Rightarrow> Some (h(tail \<mapsto> t\<lparr>next_f := node\<rparr>))
        | Some n \<Rightarrow> kv_append_loop n node h))"

definition add_keyvalue_after_head :: "nat option \<Rightarrow> nat option \<Rightarrow> kv_nodes \<Rightarrow> (nat option \<times> kv_nodes) option" where
  "add_keyvalue_after_head head node h =
     (case head of
        None \<Rightarrow> Some (node, h)
      | Some p \<Rightarrow> map_option (Pair head) (kv_append_loop p node h))"

text \<open>
  \<^verbatim>\<open>memcmp\<close> is called for keys of the same length only; a \<^verbatim>\<open>NULL\<close> key has length 0, and then nothing is
  compared. The result is the \<^verbatim>\<open>value_\<close> pointer.
\<close>

partial_function (option) find_value_loop :: "kv_nodes \<Rightarrow> nat option \<Rightarrow> string option \<Rightarrow> string option option" where
  "find_value_loop h node key =
     (case node of
        None \<Rightarrow> Some None
      | Some p \<Rightarrow> (case h p of
          None \<Rightarrow> None
        | Some n \<Rightarrow>
            if frame_strlen (key_f n) = frame_strlen key \<and>
               memcmp (take (frame_strlen key) (case key_f n of None \<Rightarrow> [] | Some k \<Rightarrow> k))
                      (take (frame_strlen key) (case key of None \<Rightarrow> [] | Some k \<Rightarrow> k)) = 0
            then Some (value_f n) else find_value_loop h (next_f n) key))"

definition find_value_after_head :: "kv_nodes \<Rightarrow> nat option \<Rightarrow> string option \<Rightarrow> string option option" where
  "find_value_after_head h head key = (case head of None \<Rightarrow> Some None | Some p \<Rightarrow> find_value_loop h head key)"

partial_function (option) obj_append_loop :: "nat \<Rightarrow> nat option \<Rightarrow> obj_nodes \<Rightarrow> obj_nodes option" where
  "obj_append_loop tail node h =
     (case h tail of
        None \<Rightarrow> None
      | Some t \<Rightarrow> (case obj_next t of
          None \<Rightarrow> Some (h(tail \<mapsto> t\<lparr>obj_next := node\<rparr>))
        | Some n \<Rightarrow> obj_append_loop n node h))"

definition add_objinfo_after_head :: "nat option \<Rightarrow> nat option \<Rightarrow> obj_nodes \<Rightarrow> (nat option \<times> obj_nodes) option" where
  "add_objinfo_after_head head node h =
     (case head of
        None \<Rightarrow> Some (node, h)
      | Some p \<Rightarrow> map_option (Pair head) (obj_append_loop p node h))"

definition add_objinfo_after_tail :: "nat option \<Rightarrow> nat option \<Rightarrow> obj_nodes \<Rightarrow> (nat option \<times> obj_nodes) option" where
  "add_objinfo_after_tail tail node h =
     (case tail of
        None \<Rightarrow> Some (tail, h)
      | Some p \<Rightarrow> (case h p of None \<Rightarrow> None | Some t \<Rightarrow> Some (node, h(p \<mapsto> t\<lparr>obj_next := node\<rparr>))))"

declare kv_append_loop.simps [code] and find_value_loop.simps [code] and obj_append_loop.simps [code]

section \<open>Appending\<close>

text \<open>
  The contract of an append operation over singly linked nodes: a new head where there was none, and
  otherwise one changed link, of the last node. Both node types have such an operation.
\<close>

locale appended_chain =
  fixes nxt :: "'h \<Rightarrow> nat \<Rightarrow> nat option" and live :: "'h \<Rightarrow> nat \<Rightarrow> bool"
    and append :: "nat option \<Rightarrow> nat option \<Rightarrow> 'h \<Rightarrow> (nat option \<times> 'h) option"
  assumes append_none: "append None (Some n) h = Some (Some n, h)"
    and append_last: "chain (nxt h) (Some p) xs \<Longrightarrow> (\<And>x. x \<in> set xs \<Longrightarrow> live h x) \<Longrightarrow>
      \<exists>h'. append (Some p) (Some n) h = Some (Some p, h') \<and> nxt h' = (nxt h)(last xs := Some n) \<and> live h' = live h"
begin

lemma append_chain:
  assumes "chain (nxt h) p xs" and "\<And>x. x \<in> set xs \<Longrightarrow> live h x" and "n \<notin> set xs" and "nxt h n = None"
  shows "\<exists>p' h'. append p (Some n) h = Some (p', h') \<and> chain (nxt h') p' (xs @ [n]) \<and> live h' = live h"
proof (cases p)
  case None
  then have "xs = []" using assms(1) by (cases xs) auto
  then show ?thesis using None append_none assms(4) by auto
next
  case (Some q)
  obtain h' where h': "append (Some q) (Some n) h = Some (Some q, h')" "nxt h' = (nxt h)(last xs := Some n)" "live h' = live h"
    using append_last[of h q xs] assms(1,2) Some by blast
  have "xs \<noteq> []" using assms(1) Some by (cases xs) auto
  then have "n \<noteq> last xs" using assms(3) by auto
  then have "chain (nxt h') (Some q) (xs @ [n])"
    by (intro chain_snoc[of "nxt h"]) (use assms(1,4) Some h'(2) in auto)
  then show ?thesis using Some h' by blast
qed

end

definition kv_link :: "kv_nodes \<Rightarrow> nat \<Rightarrow> nat option" where
  "kv_link h x = Option.bind (h x) next_f"

definition obj_link :: "obj_nodes \<Rightarrow> nat \<Rightarrow> nat option" where
  "obj_link h x = Option.bind (h x) obj_next"

lemma kv_append_loop_ok:
  "chain (kv_link h) (Some p) xs \<Longrightarrow> (\<And>x. x \<in> set xs \<Longrightarrow> h x \<noteq> None) \<Longrightarrow>
   kv_append_loop p node h = Some (h(last xs \<mapsto> (the (h (last xs)))\<lparr>next_f := node\<rparr>))"
proof (induction xs arbitrary: p)
  case (Cons x xs)
  then obtain t where t: "h x = Some t" "p = x" by fastforce
  show ?case
  proof (cases xs)
    case Nil
    then show ?thesis using Cons.prems t by (simp add: kv_append_loop.simps[of x] kv_link_def fun_eq_iff)
  next
    case (Cons y ys)
    moreover have "kv_link h x = next_f t" using t by (simp add: kv_link_def)
    ultimately have "next_f t = Some y" "chain (kv_link h) (Some y) xs" using Cons.prems(1) t by auto
    then show ?thesis using Cons.IH[of y] Cons.prems(2) t Cons by (simp add: kv_append_loop.simps[of x])
  qed
qed simp

lemma obj_append_loop_ok:
  "chain (obj_link h) (Some p) xs \<Longrightarrow> (\<And>x. x \<in> set xs \<Longrightarrow> h x \<noteq> None) \<Longrightarrow>
   obj_append_loop p node h = Some (h(last xs \<mapsto> (the (h (last xs)))\<lparr>obj_next := node\<rparr>))"
proof (induction xs arbitrary: p)
  case (Cons x xs)
  then obtain t where t: "h x = Some t" "p = x" by fastforce
  show ?case
  proof (cases xs)
    case Nil
    then show ?thesis using Cons.prems t by (simp add: obj_append_loop.simps[of x] obj_link_def fun_eq_iff)
  next
    case (Cons y ys)
    moreover have "obj_link h x = obj_next t" using t by (simp add: obj_link_def)
    ultimately have "obj_next t = Some y" "chain (obj_link h) (Some y) xs" using Cons.prems(1) t by auto
    then show ?thesis using Cons.IH[of y] Cons.prems(2) t Cons by (simp add: obj_append_loop.simps[of x])
  qed
qed simp

lemma last_live: "chain nxt (Some p) xs \<Longrightarrow> (\<And>x. x \<in> set xs \<Longrightarrow> h x \<noteq> None) \<Longrightarrow> \<exists>t. h (last xs) = Some t"
  by (cases "xs = []") auto

interpretation kv_chain: appended_chain kv_link "\<lambda>h x. h x \<noteq> None" add_keyvalue_after_head
proof (unfold_locales, goal_cases)
  case (2 h p xs n)
  obtain t where t: "h (last xs) = Some t" using last_live[OF 2(1), of h] 2(2) by blast
  have "kv_append_loop p (Some n) h = Some (h(last xs \<mapsto> t\<lparr>next_f := Some n\<rparr>))" using kv_append_loop_ok[OF 2] t by simp
  then show ?case using t
    by (intro exI[of _ "h(last xs \<mapsto> t\<lparr>next_f := Some n\<rparr>)"]) (auto simp: add_keyvalue_after_head_def kv_link_def fun_eq_iff)
qed (simp add: add_keyvalue_after_head_def)

interpretation obj_chain: appended_chain obj_link "\<lambda>h x. h x \<noteq> None" add_objinfo_after_head
proof (unfold_locales, goal_cases)
  case (2 h p xs n)
  obtain t where t: "h (last xs) = Some t" using last_live[OF 2(1), of h] 2(2) by blast
  have "obj_append_loop p (Some n) h = Some (h(last xs \<mapsto> t\<lparr>obj_next := Some n\<rparr>))" using obj_append_loop_ok[OF 2] t by simp
  then show ?case using t
    by (intro exI[of _ "h(last xs \<mapsto> t\<lparr>obj_next := Some n\<rparr>)"]) (auto simp: add_objinfo_after_head_def obj_link_def fun_eq_iff)
qed (simp add: add_objinfo_after_head_def)

lemma add_objinfo_after_tail_ok:
  assumes "chain (obj_link h) p xs" "xs \<noteq> []" "\<And>x. x \<in> set xs \<Longrightarrow> h x \<noteq> None" "n \<notin> set xs" "obj_link h n = None"
  shows "\<exists>h'. add_objinfo_after_tail (Some (last xs)) (Some n) h = Some (Some n, h') \<and> chain (obj_link h') p (xs @ [n])"
proof -
  obtain q where q: "p = Some q" using assms(1,2) by (cases xs) auto
  obtain t where t: "h (last xs) = Some t" using assms(2,3) last_in_set by blast
  let ?h = "h(last xs \<mapsto> t\<lparr>obj_next := Some n\<rparr>)"
  have "n \<noteq> last xs" using assms(2,4) by auto
  then have "chain (obj_link ?h) (Some q) (xs @ [n])"
    by (intro chain_snoc[of "obj_link h"]) (use assms(1,5) q in \<open>auto simp: obj_link_def\<close>)
  then show ?thesis using t q by (simp add: add_objinfo_after_tail_def)
qed

section \<open>Searching\<close>

lemma memcmp_take_eq: "length (cstr a) = length (cstr b) \<Longrightarrow>
   memcmp (take (length (cstr b)) a) (take (length (cstr b)) b) = 0 \<longleftrightarrow> cstr a = cstr b"
proof -
  have t: "take (length (cstr s)) s = cstr s" for s :: string by (simp add: cstr_def takeWhile_eq_take[symmetric])
  have z: "length a = length b \<Longrightarrow> memcmp a b = 0 \<longleftrightarrow> a = b" for a b by (induction a b rule: memcmp.induct) auto
  assume "length (cstr a) = length (cstr b)"
  then show ?thesis using t[of a] t[of b] z[of "cstr a" "cstr b"] by simp
qed

definition kv_pair :: "kv_nodes \<Rightarrow> nat \<Rightarrow> string \<times> string option" where
  "kv_pair h x = (case h x of Some n \<Rightarrow> (cstr (the (key_f n)), value_f n))"

text \<open>
  \<^verbatim>\<open>find_value_after_head\<close> on a well-formed list returns the value of the first node whose key is the
  given one, and \<^verbatim>\<open>NULL\<close> when there is none.
\<close>

lemma find_value_is_lookup:
  assumes "chain (kv_link h) head xs" and "list_all (\<lambda>x. \<exists>n k. h x = Some n \<and> key_f n = Some k) xs"
  shows "find_value_after_head h head (Some key) = Some (Option.bind (map_of (map (kv_pair h) xs) (cstr key)) (\<lambda>v. v))"
proof -
  have "find_value_loop h head (Some key) = Some (Option.bind (map_of (map (kv_pair h) xs) (cstr key)) (\<lambda>v. v))"
    using assms
  proof (induction xs arbitrary: head)
    case Nil
    then show ?case by (simp add: find_value_loop.simps)
  next
    case (Cons x xs)
    then obtain n k where n: "h x = Some n" "key_f n = Some k" by auto
    have "kv_link h x = next_f n" using n by (simp add: kv_link_def)
    then have c: "chain (kv_link h) (next_f n) xs" "head = Some x" using Cons.prems(1) by auto
    have IH: "find_value_loop h (next_f n) (Some key) = Some (Option.bind (map_of (map (kv_pair h) xs) (cstr key)) (\<lambda>v. v))"
      by (rule Cons.IH[OF c(1)]) (use Cons.prems(2) in simp)
    have "frame_strlen (key_f n) = frame_strlen (Some key) \<and> memcmp (take (frame_strlen (Some key)) k) (take (frame_strlen (Some key)) key) = 0 \<longleftrightarrow> cstr k = cstr key"
      using memcmp_take_eq[of k key] n(2) by auto
    moreover have "kv_pair h x = (cstr k, value_f n)" using n by (simp add: kv_pair_def)
    ultimately show ?case using n c(2) IH by (auto simp: find_value_loop.simps[of h "Some x"])
  qed
  then show ?thesis using assms(1) by (cases head) (auto simp: find_value_after_head_def find_value_loop.simps)
qed

definition sample_nodes :: kv_nodes where
  "sample_nodes = [1 \<mapsto> \<lparr>key_f = Some ''id'', value_f = Some ''7'', next_f = Some 2\<rparr>,
     2 \<mapsto> \<lparr>key_f = Some ''name'', value_f = Some ''bob'', next_f = None\<rparr>]"

lemma find_value_is_lookup_witness: "find_value_after_head sample_nodes (Some 1) (Some ''name'') = Some (Some ''bob'')"
  using find_value_is_lookup[of sample_nodes "Some 1" "[1, 2]" "''name''"]
  by (simp add: sample_nodes_def kv_link_def kv_pair_def)

end
