(* ===== verification/Es_Head.thy ===== *)
theory Es_Head
  imports Http_Message Key_Value
begin

text \<open>
  The answers of the Elasticsearch client in \<^verbatim>\<open>module_function/es_http_api.c\<close>: the response slot, the head of an
  HTTP answer (\<^verbatim>\<open>analysis_http_head_str\<close>), and the buffer the received bytes are collected in
  (\<^verbatim>\<open>memory_char_move_bit\<close>).

  A slot has its own memory pool. Of the pool only the nodes that are linked to each other and the number
  of allocations are kept; the \<open>k\<close>-th allocation succeeds if \<open>alloc k\<close>, and a node has the number of its
  allocation as its address. Strings are kept where the pointer to them is.
\<close>

section \<open>The response slot\<close>

record HTTP_HEAD_INFO =
  ver_f :: "string option"
  note_f :: "string option"
  ret_f :: int
  body_len_f :: int
  head_f :: "nat option"

record ES_SEARCH_RESULT =
  total_f :: int
  shead_f :: "nat option"
  stail_f :: "nat option"

datatype VERB_METHOD = GET_METHOD | POST_METHOD | PUT_METHOD | HEAD_METHOD | DELETE_METHOD

record ES_REQUEST =
  path_str :: "string option"
  query_str :: "string option"
  body_str :: "string option"
  verb_f :: VERB_METHOD

record es_mem =
  kv_heap :: kv_nodes
  obj_heap :: obj_nodes
  allocs :: nat

record ES_RESPOND =
  sta_f :: int
  http_f :: "HTTP_HEAD_INFO option"
  message_f :: "string option"
  err_message_f :: "string option"
  search_f :: "ES_SEARCH_RESULT option"
  mem_f :: "es_mem option"
  req_f :: "ES_REQUEST option"
  req_buf_f :: "string option"
  call_f :: "nat option"

definition empty_es_mem :: es_mem where
  "empty_es_mem = \<lparr>kv_heap = Map.empty, obj_heap = Map.empty, allocs = 0\<rparr>"

definition zero_head :: HTTP_HEAD_INFO where
  "zero_head = \<lparr>ver_f = None, note_f = None, ret_f = 0, body_len_f = 0, head_f = None\<rparr>"

text \<open>\<^verbatim>\<open>ngx_pnalloc(res->mem, n)\<close>: the address, and the pool afterwards.\<close>

definition es_alloc :: "(nat \<Rightarrow> bool) \<Rightarrow> es_mem \<Rightarrow> nat option \<times> es_mem" where
  "es_alloc alloc m = (if alloc (allocs m) then Some (allocs m) else None, m\<lparr>allocs := allocs m + 1\<rparr>)"

text \<open>Allocating room for a string and copying it there. An empty string is not copied
  and leaves the pointer \<^verbatim>\<open>NULL\<close>; without the outer \<open>Some\<close> the allocation has failed.\<close>

definition copy_str :: "(nat \<Rightarrow> bool) \<Rightarrow> string \<Rightarrow> es_mem \<Rightarrow> string option option \<times> es_mem" where
  "copy_str alloc s m =
     (if s = [] then (Some None, m)
      else case es_alloc alloc m of (a, m') \<Rightarrow> (map_option (\<lambda>_. Some s) a, m'))"

definition slice :: "string \<Rightarrow> nat \<Rightarrow> nat \<Rightarrow> string" where
  "slice s a b = take (b - a) (drop a s)"

section \<open>The head of an answer\<close>

text \<open>
  How the analysis goes on: a failed allocation, \<^verbatim>\<open>goto head_nofull\<close>, or the next position with the head so
  far.
\<close>

datatype head_result = MallocError HTTP_HEAD_INFO es_mem | NoFull es_mem | Proceed nat HTTP_HEAD_INFO es_mem

text \<open>The version: the bytes before the first space.\<close>

definition head_version :: "(nat \<Rightarrow> bool) \<Rightarrow> string \<Rightarrow> HTTP_HEAD_INFO \<Rightarrow> es_mem \<Rightarrow> head_result" where
  "head_version alloc str http m =
     (case framestr_frist_constchar (Some str) (CHR '' '') of
        None \<Rightarrow> NoFull m
      | Some p \<Rightarrow> (case copy_str alloc (slice str 0 p) m of
          (None, m') \<Rightarrow> MallocError http m'
        | (Some v, m') \<Rightarrow> Proceed (p + 1) (http\<lparr>ver_f := v\<rparr>) m'))"

text \<open>
  The status code, through \<^verbatim>\<open>tmp_char[32]\<close>: more bytes than that overflow the array, and a number that fills it
  has no byte behind it.
\<close>

definition head_status :: "string \<Rightarrow> nat \<Rightarrow> HTTP_HEAD_INFO \<Rightarrow> es_mem \<Rightarrow> head_result option" where
  "head_status str q http m =
     (case framestr_frist_constchar (Some (drop q str)) (CHR '' '') of
        None \<Rightarrow> Some (NoFull m)
      | Some d \<Rightarrow>
          if d = 0 then Some (Proceed (q + 1) http m)
          else let tmp_char = slice str q (q + d) in
               if d > 32 \<or> snd (atoi_scan tmp_char) \<ge> 32 then None
               else map_option (\<lambda>i. Proceed (q + d + 1) (http\<lparr>ret_f := i\<rparr>) m) (atoi tmp_char))"

definition head_note :: "(nat \<Rightarrow> bool) \<Rightarrow> string \<Rightarrow> nat \<Rightarrow> HTTP_HEAD_INFO \<Rightarrow> es_mem \<Rightarrow> head_result" where
  "head_note alloc str q http m =
     (case framestr_first_conststr (Some (drop q str)) crlf of
        None \<Rightarrow> NoFull m
      | Some d \<Rightarrow> (case copy_str alloc (slice str q (q + d)) m of
          (None, m') \<Rightarrow> MallocError http m'
        | (Some v, m') \<Rightarrow> Proceed (q + d + 2) (http\<lparr>note_f := v\<rparr>) m'))"

text \<open>\<^verbatim>\<open>while(*p_colon == 32 || *p_colon == 9) p_colon++;\<close>\<close>

fun skip_head_blanks :: "string \<Rightarrow> nat" where
  "skip_head_blanks [] = 0"
| "skip_head_blanks (c # cs) = (if c = CHR '' '' \<or> c = CHR 0x09 then Suc (skip_head_blanks cs) else 0)"

text \<open>One header line, from \<open>q\<close> to \<open>p\<close> with its colon at \<open>colon\<close>: the node and its address.\<close>

definition header_node ::
  "(nat \<Rightarrow> bool) \<Rightarrow> string \<Rightarrow> nat \<Rightarrow> nat \<Rightarrow> nat \<Rightarrow> es_mem \<Rightarrow> (nat \<times> KEY_VALUE_NODE) option \<times> es_mem" where
  "header_node alloc str q colon p m =
     (case es_alloc alloc m of
        (None, m1) \<Rightarrow> (None, m1)
      | (Some x, m1) \<Rightarrow> (case copy_str alloc (slice str q colon) m1 of
          (None, m2) \<Rightarrow> (None, m2)
        | (Some key, m2) \<Rightarrow>
            let v = colon + 1 + skip_head_blanks (drop (colon + 1) str) in
            (case copy_str alloc (slice str v p) m2 of
               (None, m3) \<Rightarrow> (None, m3)
             | (Some val, m3) \<Rightarrow> (Some (x, \<lparr>key_f = key, value_f = val, next_f = None\<rparr>), m3))))"

lemma find_sub_length: "t \<noteq> [] \<Longrightarrow> find_sub t xs = Some k \<Longrightarrow> k + length t \<le> length xs"
  by (induction xs arbitrary: k) (auto split: if_splits dest: prefix_length_le)

lemma first_crlf_eq: "framestr_first_conststr (Some s) crlf = find_sub crlf (cstr s)"
proof -
  have "cstr crlf = crlf" "crlf \<noteq> []" by (auto simp: crlf_def)
  then show ?thesis by (simp add: framestr_first_conststr_def conststr_loop_eq find_sub_short)
qed

lemma crlf_len: "length crlf = 2" "crlf \<noteq> []"
  by (auto simp: crlf_def)

lemma conststr_crlf_length: "framestr_first_conststr (Some s) crlf = Some d \<Longrightarrow> d + 2 \<le> length s"
  using find_sub_length[of crlf "cstr s" d] by (simp add: first_crlf_eq crlf_len order_trans[OF _ length_cstr_le])

text \<open>
  The loop over the header lines. It ends at the first line without a colon, which is left behind, or where
  no line end is found.
\<close>

function header_loop :: "(nat \<Rightarrow> bool) \<Rightarrow> string \<Rightarrow> nat \<Rightarrow> HTTP_HEAD_INFO \<Rightarrow> es_mem \<Rightarrow> head_result option" where
  "header_loop alloc str q http m =
     (case framestr_first_conststr (Some (drop q str)) crlf of
        None \<Rightarrow> Some (Proceed q http m)
      | Some d \<Rightarrow> (case framestr_frist_constchar (Some (drop q str)) (CHR '':'') of
          None \<Rightarrow> Some (Proceed (q + d + 2) http m)
        | Some c \<Rightarrow>
            if c < d
            then (case header_node alloc str q (q + c) (q + d) m of
                    (None, m') \<Rightarrow> Some (MallocError http m')
                  | (Some (x, node), m') \<Rightarrow>
                      (case add_keyvalue_after_head (head_f http) (Some x) ((kv_heap m')(x \<mapsto> node)) of
                         None \<Rightarrow> None
                       | Some (hd', h) \<Rightarrow> header_loop alloc str (q + d + 2) (http\<lparr>head_f := hd'\<rparr>) (m'\<lparr>kv_heap := h\<rparr>)))
            else Some (Proceed (q + d + 2) http m)))"
  by pat_completeness auto
termination
  by (relation "measure (\<lambda>(alloc, str, q, http, m). length str - q)") (auto dest!: conststr_crlf_length)

declare header_loop.simps [simp del]

text \<open>\<^verbatim>\<open>Content-Length\<close>, and the distance the analysis has moved.\<close>

definition head_length :: "nat \<Rightarrow> HTTP_HEAD_INFO \<Rightarrow> es_mem \<Rightarrow> head_result option" where
  "head_length q http m =
     (case find_value_after_head (kv_heap m) (head_f http) (Some ''Content-Length'') of
        None \<Rightarrow> None
      | Some None \<Rightarrow> Some (NoFull m)
      | Some (Some v) \<Rightarrow> map_option (\<lambda>n. Proceed q (http\<lparr>body_len_f := n\<rparr>) m) (atoi (cstr v)))"

definition and_then :: "head_result \<Rightarrow> (nat \<Rightarrow> HTTP_HEAD_INFO \<Rightarrow> es_mem \<Rightarrow> head_result option) \<Rightarrow> head_result option" where
  "and_then r f = (case r of Proceed q http m \<Rightarrow> f q http m | _ \<Rightarrow> Some r)"

definition analysis_http_head_str ::
  "(nat \<Rightarrow> bool) \<Rightarrow> string \<Rightarrow> ES_RESPOND \<Rightarrow> int \<Rightarrow> (int \<times> ES_RESPOND \<times> int) option" where
  "analysis_http_head_str alloc str res bit_move =
     (case (http_f res, mem_f res) of
        (Some _, _) \<Rightarrow> Some (- 3, res, bit_move)
      | (None, None) \<Rightarrow> None
      | (None, Some m) \<Rightarrow> (case es_alloc alloc m of
          (None, m0) \<Rightarrow> Some (- 1, res\<lparr>mem_f := Some m0\<rparr>, bit_move)
        | (Some _, m0) \<Rightarrow> do {
            r1 \<leftarrow> Some (head_version alloc str zero_head m0);
            r2 \<leftarrow> and_then r1 (head_status str);
            r3 \<leftarrow> and_then r2 (\<lambda>q http m. Some (head_note alloc str q http m));
            r4 \<leftarrow> and_then r3 (header_loop alloc str);
            r5 \<leftarrow> and_then r4 head_length;
            Some (case r5 of
                    MallocError http m' \<Rightarrow> (- 1, res\<lparr>http_f := Some http, mem_f := Some m'\<rparr>, bit_move)
                  | NoFull m' \<Rightarrow> (1, res\<lparr>http_f := None, mem_f := Some m'\<rparr>, bit_move)
                  | Proceed q http m' \<Rightarrow> (0, res\<lparr>http_f := Some http, mem_f := Some m'\<rparr>, bit_move + int q))
          }))"

section \<open>The receive buffer\<close>

text \<open>\<^verbatim>\<open>for(i = 0; i < buf_len; i++) { *p_char = *q_char; p_char++; q_char++; }\<close>\<close>

fun move_loop :: "nat \<Rightarrow> nat \<Rightarrow> nat \<Rightarrow> string \<Rightarrow> string" where
  "move_loop 0 p q b = b"
| "move_loop (Suc n) p q b = move_loop n (p + 1) (q + 1) (put_bytes b p [byte_at b q])"

text \<open>A string that fills the buffer has no end in it, and a negative distance leaves it.\<close>

definition memory_char_move_bit :: "string \<Rightarrow> int \<Rightarrow> nat \<Rightarrow> string option" where
  "memory_char_move_bit begin_b dist be_size =
     (if dist \<ge> int be_size then Some begin_b
      else if frame_strlen (Some begin_b) \<ge> be_size then None
      else if dist \<ge> int (frame_strlen (Some begin_b)) then Some (put_bytes begin_b 0 (replicate (nat dist) NUL))
      else if dist < 0 then None
      else let q = nat dist; buf_len = frame_strlen (Some (drop q begin_b)) in
           if buf_len \<ge> be_size then Some begin_b
           else Some (put_bytes (move_loop buf_len 0 q begin_b) buf_len (replicate (be_size - buf_len) NUL)))"

lemma move_loop_bytes:
  "p \<le> q \<Longrightarrow> byte_at (move_loop n p q b) i = (if p \<le> i \<and> i < p + n then byte_at b (q + (i - p)) else byte_at b i)"
proof (induction n arbitrary: p q b)
  case (Suc n)
  then show ?case by (simp add: Suc.IH[of "Suc p" "Suc q"] byte_at_put_bytes) (auto simp: not_less_eq_eq Suc_diff_Suc)
qed auto

lemma move_bit_inside:
  assumes "k < length (cstr b)" and "length (cstr b) < be_size"
  shows "\<exists>b'. memory_char_move_bit b (int k) be_size = Some b' \<and> cstr b' = drop k (cstr b)"
proof -
  let ?s = "drop k (cstr b)"
  have fits: "length ?s < be_size" using assms by simp
  let ?b = "put_bytes (move_loop (length ?s) 0 k b) (length ?s) (replicate (be_size - length ?s) NUL)"
  have len: "length (cstr (drop k b)) = length ?s" using assms(1) by (simp add: cstr_drop)
  have res: "memory_char_move_bit b (int k) be_size = Some ?b"
    using assms len fits by (simp add: memory_char_move_bit_def Let_def del: length_drop)
  have "cstr ?b = ?s"
  proof (rule cstr_eqI)
    show "NUL \<notin> set ?s" using NUL_notin_cstr in_set_dropD by fast
    show "byte_at ?b i = ?s ! i" if "i < length ?s" for i
      using that by (simp add: byte_at_put_bytes move_loop_bytes cstr_nth)
    show "byte_at ?b (length ?s) = NUL" using fits by (simp add: byte_at_put_bytes)
  qed
  then show ?thesis using res by blast
qed

lemma cstr_zeroed: "length (cstr b) \<le> k \<Longrightarrow> cstr (put_bytes b 0 (replicate k NUL)) = []"
  by (rule cstr_eqI) (cases k, auto simp: byte_at_put_bytes, cases b, auto split: if_splits)

lemma move_bit_drops:
  assumes "k < be_size" and "length (cstr b) < be_size"
  shows "\<exists>b'. memory_char_move_bit b (int k) be_size = Some b' \<and> cstr b' = drop k (cstr b)"
proof (cases "k < length (cstr b)")
  case True
  then show ?thesis using assms by (intro move_bit_inside)
next
  case False
  then show ?thesis using assms by (auto simp: memory_char_move_bit_def cstr_zeroed)
qed

section \<open>Reading a printed head\<close>

definition header_line :: "string \<times> string \<Rightarrow> string" where
  "header_line kv = fst kv @ '': '' @ snd kv @ crlf"

definition head_text :: "string \<Rightarrow> nat \<Rightarrow> string \<Rightarrow> (string \<times> string) list \<Rightarrow> string" where
  "head_text ver code note hs = ver @ '' '' @ dec_nat code @ '' '' @ note @ crlf @ concat (map header_line hs) @ crlf"

definition plain_text :: "char set \<Rightarrow> string \<Rightarrow> bool" where
  "plain_text bad s \<longleftrightarrow> s \<noteq> [] \<and> list_all (\<lambda>c. c \<noteq> NUL \<and> c \<notin> bad) s"

definition plain_header :: "string \<times> string \<Rightarrow> bool" where
  "plain_header kv \<longleftrightarrow> plain_text {CHR 0x0D, CHR '':''} (fst kv) \<and> plain_text {CHR 0x0D} (snd kv) \<and>
     hd (snd kv) \<noteq> CHR '' '' \<and> hd (snd kv) \<noteq> CHR 0x09"

lemma frist_constchar_at:
  assumes "list_all (\<lambda>x. x \<noteq> NUL \<and> x \<noteq> c) s" and "c \<noteq> NUL"
  shows "framestr_frist_constchar (Some (s @ c # r)) c = Some (length s)"
  using assms by (induction s) (auto simp: framestr_frist_constchar_def)

lemma first_crlf_at:
  assumes "list_all (\<lambda>x. x \<noteq> NUL \<and> x \<noteq> CHR 0x0D) s"
  shows "framestr_first_conststr (Some (s @ crlf @ r)) crlf = Some (length s)"
proof -
  have s: "NUL \<notin> set s" "CHR 0x0D \<notin> set s" using assms by (auto simp: list_all_iff)
  have c: "cstr (s @ crlf @ r) = s @ crlf @ cstr r" using s(1) by (simp add: cstr_append_no_NUL crlf_def)
  have "find_sub crlf (s @ crlf @ cstr r) = Some (length s)"
    using find_sub_skip[of crlf s "crlf @ cstr r"] s(2) by (simp add: crlf_def)
  then show ?thesis by (simp add: first_crlf_eq c)
qed

lemma slice_middle [simp]: "slice (a @ s @ r) (length a) (length a + length s) = s"
  by (simp add: slice_def)

lemma slice_start [simp]: "slice (s @ r) 0 (length s) = s"
  by (simp add: slice_def)

lemma copy_str_ok [simp]:
  "s \<noteq> [] \<Longrightarrow> copy_str (\<lambda>_. True) s m = (Some (Some s), m\<lparr>allocs := allocs m + 1\<rparr>)"
  by (simp add: copy_str_def es_alloc_def)

subsection \<open>Header lines\<close>

text \<open>What an append does not change: the keys and the values.\<close>

definition header_data :: "kv_nodes \<Rightarrow> nat \<Rightarrow> (string option \<times> string option) option" where
  "header_data h x = map_option (\<lambda>n. (key_f n, value_f n)) (h x)"

text \<open>The list at \<open>p\<close> holds the headers \<open>hs\<close>; its nodes are below \<open>n\<close>.\<close>

definition head_list :: "kv_nodes \<Rightarrow> nat \<Rightarrow> nat option \<Rightarrow> (string \<times> string) list \<Rightarrow> bool" where
  "head_list h n p hs \<longleftrightarrow> (\<exists>xs. chain (kv_link h) p xs \<and> (\<forall>x \<in> set xs. x < n) \<and>
     map (header_data h) xs = map (\<lambda>(k, v). Some (Some k, Some v)) hs)"

lemma kv_append_data: "chain (kv_link h) p xs \<Longrightarrow> (\<And>x. x \<in> set xs \<Longrightarrow> h x \<noteq> None) \<Longrightarrow>
   add_keyvalue_after_head p node h = Some (p', h') \<Longrightarrow> header_data h' = header_data h"
proof (cases p)
  case (Some q)
  assume a: "chain (kv_link h) p xs" "\<And>x. x \<in> set xs \<Longrightarrow> h x \<noteq> None" "add_keyvalue_after_head p node h = Some (p', h')"
  then obtain t where "h (last xs) = Some t" using last_live[of _ q xs h] Some by blast
  then show ?thesis using kv_append_loop_ok[of h q xs node] a Some
    by (auto simp: add_keyvalue_after_head_def header_data_def)
qed (auto simp: add_keyvalue_after_head_def)

lemma head_list_append:
  assumes "head_list h n p hs" and "n \<le> x" and "h' = h(x \<mapsto> \<lparr>key_f = Some k, value_f = Some v, next_f = None\<rparr>)" and "x < n'"
  shows "\<exists>p' h''. add_keyvalue_after_head p (Some x) h' = Some (p', h'') \<and> head_list h'' n' p' (hs @ [(k, v)])"
proof -
  obtain xs where xs: "chain (kv_link h) p xs" "\<forall>y \<in> set xs. y < n" "map (header_data h) xs = map (\<lambda>(k, v). Some (Some k, Some v)) hs"
    using assms(1) by (auto simp: head_list_def)
  have new: "x \<notin> set xs" using xs(2) assms(2) by auto
  have same: "header_data h' y = header_data h y" "kv_link h' y = kv_link h y" if "y \<in> set xs" for y
    using that new assms(3) by (auto simp: header_data_def kv_link_def)
  have live: "h' y \<noteq> None" if "y \<in> set xs" for y
  proof -
    have "header_data h y \<in> set (map (header_data h) xs)" using that by simp
    then show ?thesis unfolding xs(3) using same(1)[OF that] by (auto simp: header_data_def)
  qed
  have c: "chain (kv_link h') p xs" using xs(1) same(2) chain_cong by metis
  moreover have "kv_link h' x = None" using assms(3) by (simp add: kv_link_def)
  ultimately obtain p' h'' where app: "add_keyvalue_after_head p (Some x) h' = Some (p', h'')" "chain (kv_link h'') p' (xs @ [x])"
    using kv_chain.append_chain[OF c live new] by blast
  have "header_data h'' = header_data h'" using kv_append_data[OF c live app(1)] .
  moreover have "header_data h' x = Some (Some k, Some v)" using assms(3) by (simp add: header_data_def)
  ultimately have "map (header_data h'') (xs @ [x]) = map (\<lambda>(k, v). Some (Some k, Some v)) (hs @ [(k, v)])"
    using xs(3) same(1) by (simp add: map_eq_conv[symmetric] cong: map_cong)
  moreover have "\<forall>y \<in> set (xs @ [x]). y < n'" using xs(2) assms(2,4) by (auto dest!: bspec)
  ultimately show ?thesis using app unfolding head_list_def by blast
qed

lemma plain_list: "plain_text bad s \<Longrightarrow> s \<noteq> []" "plain_text bad s \<Longrightarrow> c \<in> bad \<Longrightarrow> list_all (\<lambda>x. x \<noteq> NUL \<and> x \<noteq> c) s"
  by (auto simp: plain_text_def list_all_iff)

lemma skip_blanks_none: "s \<noteq> [] \<Longrightarrow> hd s \<noteq> CHR '' '' \<Longrightarrow> hd s \<noteq> CHR 0x09 \<Longrightarrow> skip_head_blanks (CHR '' '' # s @ r) = 1"
  by (cases s) auto

lemma header_node_ok:
  assumes "plain_header (k, v)" and "str = pre @ header_line (k, v) @ rest" and "q = length pre"
  shows "header_node (\<lambda>_. True) str q (q + length k) (q + length k + 2 + length v) m =
     (Some (allocs m, \<lparr>key_f = Some k, value_f = Some v, next_f = None\<rparr>), m\<lparr>allocs := allocs m + 3\<rparr>)"
proof -
  have kv: "k \<noteq> []" "v \<noteq> []" "hd v \<noteq> CHR '' ''" "hd v \<noteq> CHR 0x09" using assms(1) plain_list(1) by (auto simp: plain_header_def)
  have "slice str q (q + length k) = k" using assms(2,3) by (simp add: header_line_def)
  moreover have "drop (q + length k + 1) str = CHR '' '' # v @ crlf @ rest" using assms(2,3) by (simp add: header_line_def)
  moreover have "slice str (q + length k + 2) (q + length k + 2 + length v) = v"
    using assms(2,3) by (simp add: slice_def header_line_def)
  ultimately show ?thesis using kv skip_blanks_none[OF kv(2-4)]
    by (simp add: header_node_def es_alloc_def numeral_3_eq_3)
qed

lemma header_loop_end: "header_loop alloc (pre @ crlf @ rest) (length pre) http m = Some (Proceed (length pre + 2) http m)"
  using first_crlf_at[of "[]" rest]
  by (subst header_loop.simps) (auto split: option.splits simp: header_loop.simps)

lemma header_loop_line:
  assumes "plain_header (k, v)" and "str = pre @ header_line (k, v) @ rest" and "head_list (kv_heap m) (allocs m) (head_f http) hs"
  shows "\<exists>p h. header_loop (\<lambda>_. True) str (length pre) http m =
      header_loop (\<lambda>_. True) str (length (pre @ header_line (k, v))) (http\<lparr>head_f := p\<rparr>) (m\<lparr>allocs := allocs m + 3, kv_heap := h\<rparr>) \<and>
      head_list h (allocs m + 3) p (hs @ [(k, v)])"
proof -
  let ?line = "k @ '': '' @ v"
  have str: "drop (length pre) str = ?line @ crlf @ rest" using assms(2) by (simp add: header_line_def)
  have kv: "plain_text {CHR 0x0D, CHR '':''} k" "plain_text {CHR 0x0D} v" using assms(1) by (auto simp: plain_header_def)
  have "list_all (\<lambda>x. x \<noteq> NUL \<and> x \<noteq> CHR 0x0D) ?line" using plain_list(2)[OF kv(1)] plain_list(2)[OF kv(2)] by simp
  then have line: "framestr_first_conststr (Some (drop (length pre) str)) crlf = Some (length k + 2 + length v)"
    unfolding str by (subst first_crlf_at) auto
  have colon: "framestr_frist_constchar (Some (drop (length pre) str)) (CHR '':'') = Some (length k)"
    using frist_constchar_at[of "CHR '':''" k "CHR '' '' # v @ crlf @ rest"] plain_list(2)[OF kv(1)] str by simp
  obtain p h where app: "add_keyvalue_after_head (head_f http) (Some (allocs m))
      ((kv_heap m)(allocs m \<mapsto> \<lparr>key_f = Some k, value_f = Some v, next_f = None\<rparr>)) = Some (p, h)"
    "head_list h (allocs m + 3) p (hs @ [(k, v)])"
    using head_list_append[OF assms(3) order_refl refl, of "allocs m + 3" k v] by auto
  have len: "length (pre @ header_line (k, v)) = length pre + (length k + 2 + length v) + 2"
    by (simp add: header_line_def crlf_def)
  have "header_loop (\<lambda>_. True) str (length pre) http m =
      header_loop (\<lambda>_. True) str (length (pre @ header_line (k, v))) (http\<lparr>head_f := p\<rparr>) (m\<lparr>allocs := allocs m + 3, kv_heap := h\<rparr>)"
    unfolding len using line colon app(1) header_node_ok[OF assms(1,2) refl, of m]
    by (subst header_loop.simps) (simp add: add.assoc)
  then show ?thesis using app(2) by blast
qed

lemma header_loop_ok:
  assumes "list_all plain_header hs" and "head_list (kv_heap m) (allocs m) (head_f http) hs0"
  shows "\<exists>p m'. header_loop (\<lambda>_. True) (pre @ concat (map header_line hs) @ crlf @ rest) (length pre) http m =
      Some (Proceed (length (pre @ concat (map header_line hs) @ crlf)) (http\<lparr>head_f := p\<rparr>) m') \<and>
      head_list (kv_heap m') (allocs m') p (hs0 @ hs)"
  using assms
proof (induction hs arbitrary: pre http m hs0)
  case Nil
  then show ?case using header_loop_end[of _ pre rest http m]
    by (intro exI[of _ "head_f http"] exI[of _ m]) (simp add: crlf_len)
next
  case (Cons kv hs)
  obtain k v where kv: "kv = (k, v)" by (cases kv)
  let ?str = "pre @ concat (map header_line (kv # hs)) @ crlf @ rest"
  obtain p h where step: "header_loop (\<lambda>_. True) ?str (length pre) http m =
      header_loop (\<lambda>_. True) ?str (length (pre @ header_line kv)) (http\<lparr>head_f := p\<rparr>) (m\<lparr>allocs := allocs m + 3, kv_heap := h\<rparr>)"
    "head_list h (allocs m + 3) p (hs0 @ [kv])"
    using header_loop_line[of k v ?str pre "concat (map header_line hs) @ crlf @ rest" m http hs0] Cons.prems kv by auto
  have "list_all plain_header hs" using Cons.prems(1) by simp
  then show ?case
    using Cons.IH[of "m\<lparr>allocs := allocs m + 3, kv_heap := h\<rparr>" "http\<lparr>head_f := p\<rparr>" "hs0 @ [kv]" "pre @ header_line kv"] step
    by simp
qed

subsection \<open>The whole head\<close>

lemma head_version_ok:
  assumes "plain_text {CHR '' ''} ver"
  shows "head_version (\<lambda>_. True) (ver @ CHR '' '' # rest) http m =
    Proceed (length ver + 1) (http\<lparr>ver_f := Some ver\<rparr>) (m\<lparr>allocs := allocs m + 1\<rparr>)"
  using frist_constchar_at[of "CHR '' ''" ver rest] plain_list[OF assms] by (simp add: head_version_def)

lemma head_status_ok:
  assumes "code < 2 ^ 31"
  shows "head_status (pre @ dec_nat code @ CHR '' '' # rest) (length pre) http m =
    Some (Proceed (length (pre @ dec_nat code) + 1) (http\<lparr>ret_f := int code\<rparr>) m)"
proof -
  let ?d = "dec_nat code"
  have "list_all (\<lambda>x. x \<noteq> NUL \<and> x \<noteq> CHR '' '') ?d"
    using dec_nat_digits[of code] by (auto simp: list_all_iff is_digit_def)
  then have "framestr_frist_constchar (Some (?d @ CHR '' '' # rest)) (CHR '' '') = Some (length ?d)"
    by (intro frist_constchar_at) auto
  moreover have "length ?d \<le> 10" using assms by (intro dec_nat_length) auto
  moreover have "snd (atoi_scan ?d) = length ?d" using atoi_scan_dec[of "[]" code] by simp
  ultimately show ?thesis using atoi_dec[OF assms] by (simp add: head_status_def Let_def)
qed

lemma head_note_ok:
  assumes "plain_text {CHR 0x0D} note"
  shows "head_note (\<lambda>_. True) (pre @ note @ crlf @ rest) (length pre) http m =
    Proceed (length (pre @ note @ crlf)) (http\<lparr>note_f := Some note\<rparr>) (m\<lparr>allocs := allocs m + 1\<rparr>)"
  using first_crlf_at[of "note" rest] plain_list[OF assms] by (simp add: head_note_def crlf_len)

lemma head_list_map:
  assumes "head_list h n p hs" "list_all plain_header hs"
  shows "find_value_after_head h p (Some key) = Some (map_of hs (cstr key))"
proof -
  obtain xs where xs: "chain (kv_link h) p xs" "map (header_data h) xs = map (\<lambda>(k, v). Some (Some k, Some v)) hs"
    using assms(1) by (auto simp: head_list_def)
  have "list_all (\<lambda>x. \<exists>n k. h x = Some n \<and> key_f n = Some k) xs \<and> map (kv_pair h) xs = map (\<lambda>(k, v). (k, Some v)) hs"
    using xs(2) assms(2)
  proof (induction xs arbitrary: hs)
    case (Cons x xs)
    then obtain k v hs' where hs: "hs = (k, v) # hs'" by (cases hs) auto
    then obtain n where "h x = Some n" "key_f n = Some k" "value_f n = Some v" using Cons.prems(1) by (auto simp: header_data_def)
    moreover have "cstr k = k" using Cons.prems(2) hs by (auto simp: plain_header_def plain_text_def list_all_iff intro: cstr_no_NUL)
    ultimately show ?case using Cons.IH[of hs'] Cons.prems hs by (auto simp: kv_pair_def)
  qed simp
  moreover have "map_of (map (\<lambda>(k, v). (k, Some v)) hs) c = map_option Some (map_of hs c)" for c
    by (induction hs) auto
  ultimately show ?thesis using find_value_is_lookup[OF xs(1), of key] by (cases "map_of hs (cstr key)") auto
qed

lemma http_head_round_trip:
  assumes "plain_text {CHR '' ''} ver" "code < 2 ^ 31" "plain_text {CHR 0x0D} note" "list_all plain_header hs"
    and "map_of hs ''Content-Length'' = Some (dec_nat len)" "len < 2 ^ 31"
    and "http_f res = None" "mem_f res = Some m"
  shows "\<exists>p m'. analysis_http_head_str (\<lambda>_. True) (head_text ver code note hs @ rest) res move =
      Some (0, res\<lparr>http_f := Some \<lparr>ver_f = Some ver, note_f = Some note, ret_f = int code, body_len_f = int len, head_f = p\<rparr>,
                   mem_f := Some m'\<rparr>, move + int (length (head_text ver code note hs)))
    \<and> head_list (kv_heap m') (allocs m') p hs"
proof -
  let ?str = "head_text ver code note hs @ rest" and ?cs = "concat (map header_line hs)"
  let ?p1 = "ver @ '' ''" and ?p2 = "ver @ '' '' @ dec_nat code @ '' ''" and ?p3 = "ver @ '' '' @ dec_nat code @ '' '' @ note @ crlf"
  let ?h2 = "zero_head\<lparr>ver_f := Some ver, ret_f := int code\<rparr>" and ?h3 = "zero_head\<lparr>ver_f := Some ver, ret_f := int code, note_f := Some note\<rparr>"
  let ?m1 = "m\<lparr>allocs := allocs m + 2\<rparr>" and ?m2 = "m\<lparr>allocs := allocs m + 3\<rparr>"
  have v: "head_version (\<lambda>_. True) ?str zero_head (m\<lparr>allocs := allocs m + 1\<rparr>) = Proceed (length ?p1) (zero_head\<lparr>ver_f := Some ver\<rparr>) ?m1"
    using head_version_ok[OF assms(1)] by (simp add: head_text_def)
  have s: "head_status ?str (length ?p1) (zero_head\<lparr>ver_f := Some ver\<rparr>) ?m1 = Some (Proceed (length ?p2) ?h2 ?m1)"
    using head_status_ok[OF assms(2), of ?p1] by (simp add: head_text_def)
  have n: "head_note (\<lambda>_. True) ?str (length ?p2) ?h2 ?m1 = Proceed (length ?p3) ?h3 ?m2"
    using head_note_ok[OF assms(3), of ?p2] by (simp add: head_text_def numeral_3_eq_3 crlf_len)
  have "head_list (kv_heap ?m2) (allocs ?m2) (head_f ?h3) []" by (simp add: head_list_def zero_head_def)
  then obtain p m' where l: "header_loop (\<lambda>_. True) ?str (length ?p3) ?h3 ?m2 =
      Some (Proceed (length (head_text ver code note hs)) (?h3\<lparr>head_f := p\<rparr>) m')" "head_list (kv_heap m') (allocs m') p hs"
    using header_loop_ok[OF assms(4), of ?m2 ?h3 "[]" ?p3 rest] by (auto simp: head_text_def)
  have "head_length (length (head_text ver code note hs)) (?h3\<lparr>head_f := p\<rparr>) m' =
      Some (Proceed (length (head_text ver code note hs)) (?h3\<lparr>head_f := p, body_len_f := int len\<rparr>) m')"
    using head_list_map[OF l(2) assms(4), of "''Content-Length''"] assms(5) atoi_dec[OF assms(6)]
    by (simp add: head_length_def cstr_no_NUL)
  then show ?thesis using v s n l assms(7,8)
    by (intro exI[of _ p] exI[of _ m']) (simp add: analysis_http_head_str_def es_alloc_def and_then_def zero_head_def)
qed

definition fresh_respond :: ES_RESPOND where
  "fresh_respond = \<lparr>sta_f = 0, http_f = None, message_f = None, err_message_f = None, search_f = None, mem_f = Some empty_es_mem,
     req_f = None, req_buf_f = None, call_f = None\<rparr>"

definition sample_headers :: "(string \<times> string) list" where
  "sample_headers = [(''Content-Type'', ''text/plain''), (''Content-Length'', ''5'')]"

text \<open>
  An answer whose head has not arrived completely is taken for complete once it has a line with the
  length: the rest of the head is then read as the body.
\<close>

lemma cut_head_accepted:
  "map_option (\<lambda>(ret, res, move). (ret, map_option body_len_f (http_f res), move))
     (analysis_http_head_str (\<lambda>_. True) (''HTTP/1.1 200 OK'' @ crlf @ ''Content-Length: 5'' @ crlf @ ''Serv'') fresh_respond 0) =
   Some (0, Some 5, 36)"
  by code_simp

end
