(* ===== verification/Tcp_Socket.thy ===== *)
theory Tcp_Socket
  imports C_Prelude "HOL-Library.Word"
begin

text \<open>
  Sending and receiving in \<^verbatim>\<open>module_function/socket_api.c\<close>. What \<^verbatim>\<open>send\<close> and \<^verbatim>\<open>recv\<close> answer is an argument.
\<close>

section \<open>Sending\<close>

text \<open>
  \<^verbatim>\<open>tcp_client_send\<close>, with the results of \<^verbatim>\<open>send\<close> in a list. \<^verbatim>\<open>s_len\<close> is unsigned, so that \<^verbatim>\<open>s_len < 0\<close> never holds, the \<^verbatim>\<open>switch\<close> is never
  reached, and an error is added to \<^verbatim>\<open>len\<close> as \<open>2\<^sup>3\<^sup>2 - 1\<close>. \<open>SendWild\<close> is a read outside of the buffer, and \<open>SendMore\<close> needs another result.
\<close>

datatype sent = Sent "32 word" | SendWild | SendMore

fun send_loop :: "32 word \<Rightarrow> int list \<Rightarrow> 32 word \<Rightarrow> 32 word \<Rightarrow> nat \<Rightarrow> sent" where
  "send_loop n_len rs len s_len cp =
     (if len < n_len
      then let cp' = cp + unat s_len; s_len' = n_len - len in
           if cp' + unat s_len' > unat n_len then SendWild
           else case rs of
                  [] \<Rightarrow> SendMore
                | r # rs' \<Rightarrow> let s = word_of_int r in send_loop n_len rs' (len + s) s cp'
      else Sent len)"

declare send_loop.simps [simp del]

definition tcp_client_send :: "string \<Rightarrow> int list \<Rightarrow> sent" where
  "tcp_client_send s_buf rs = send_loop (word_of_nat (length (cstr s_buf))) rs 0 0 0"

section \<open>Receiving\<close>

text \<open>
  \<^verbatim>\<open>tcp_client_recv\<close>: the return value and the received bytes. The call is repeated after \<^verbatim>\<open>EINTR\<close>; \<^verbatim>\<open>EAGAIN\<close> is reported as a length beyond
  the buffer, and every other error as the result of \<^verbatim>\<open>recv\<close>. \<open>None\<close> needs another answer.
\<close>

datatype recv_answer = Received string | EINTR | EAGAIN | OtherErrno

fun tcp_client_recv :: "recv_answer list \<Rightarrow> nat \<Rightarrow> (int \<times> string) option" where
  "tcp_client_recv [] len = None"
| "tcp_client_recv (Received bs # as) len = Some (int (length (take len bs)), take len bs)"
| "tcp_client_recv (EINTR # as) len = tcp_client_recv as len"
| "tcp_client_recv (EAGAIN # as) len = Some (int len + 1, [])"
| "tcp_client_recv (OtherErrno # as) len = Some (- 1, [])"

section \<open>What sending does\<close>

lemma send_loop_result: "send_loop n rs len s cp = Sent v \<Longrightarrow> n \<le> v"
proof (induction n rs len s cp rule: send_loop.induct)
  case (1 n rs len s cp)
  then show ?case
    by (subst (asm) (2) send_loop.simps) (auto simp: Let_def split: if_splits list.splits)
qed

lemma tcp_client_send_nonzero:
  assumes "tcp_client_send b rs = Sent v" and "cstr b \<noteq> []" and "length (cstr b) < 2 ^ 31"
  shows "v \<noteq> 0"
proof
  assume "v = 0"
  then have "(word_of_nat (length (cstr b)) :: 32 word) = 0"
    using send_loop_result assms(1) unfolding tcp_client_send_def by fastforce
  then have "unat (word_of_nat (length (cstr b)) :: 32 word) = 0" by simp
  then have "length (cstr b) mod 2 ^ 32 = 0" by (simp only: unat_of_nat) simp
  then show False using assms(2,3) by simp
qed

text \<open>What \<^verbatim>\<open>send\<close> answers while \<open>n\<close> bytes are left: at least one, and not more than that.\<close>

fun send_answers :: "int \<Rightarrow> int list \<Rightarrow> bool" where
  "send_answers n [] \<longleftrightarrow> True"
| "send_answers n (r # rs) \<longleftrightarrow> n = 0 \<or> 0 < r \<and> r \<le> n \<and> send_answers (n - r) rs"

lemma send_loop_completes:
  assumes "send_answers (int n - int (unat len)) rs" "n - unat len \<le> length rs" "unat len \<le> n" "n < 2 ^ 31" "cp + unat s_len = unat len"
  shows "send_loop (word_of_nat n) rs len s_len cp = Sent (word_of_nat n)"
  using assms
proof (induction rs arbitrary: len s_len cp)
  case Nil
  then have "len = word_of_nat n" by (simp add: word_unat_eq_iff unat_of_nat)
  then show ?case by (simp add: send_loop.simps[of _ "[]"])
next
  case (Cons r rs)
  let ?N = "word_of_nat n :: 32 word" and ?s = "word_of_int r :: 32 word"
  have N: "unat ?N = n" using Cons.prems(4) by (simp add: unat_of_nat)
  show ?case
  proof (cases "unat len = n")
    case True
    then have "len = ?N" using N by (simp add: word_unat_eq_iff)
    then show ?thesis by (simp add: send_loop.simps[of _ "r # rs"])
  next
    case False
    then have lt: "len < ?N" using Cons.prems(3) N by (simp add: word_less_nat_alt)
    have r: "0 < r" "r \<le> int n - int (unat len)" "send_answers (int n - int (unat len) - r) rs"
    proof -
      have "int n - int (unat len) \<noteq> 0" using False by linarith
      then show "0 < r" "r \<le> int n - int (unat len)" "send_answers (int n - int (unat len) - r) rs"
        using Cons.prems(1) unfolding send_answers.simps by blast+
    qed
    define k where "k = nat r"
    have k: "r = int k" "unat len + k \<le> n" using r(1,2) unfolding k_def by linarith+
    have s: "unat ?s = k" using k Cons.prems(4) by (simp add: unat_of_nat)
    have left: "unat (?N - len) = n - unat len" using unat_sub[OF less_imp_le[OF lt]] N by simp
    have sum: "unat (len + ?s) = unat len + k" using s k(2) Cons.prems(4) by (simp add: unat_plus_if')
    have left_over: "int n - int (unat (len + ?s)) = int n - int (unat len) - r" using sum k(1) by linarith
    have "send_loop ?N rs (len + ?s) ?s (unat len) = Sent ?N"
    proof (rule Cons.IH)
      show "send_answers (int n - int (unat (len + ?s))) rs" using r(3) left_over by argo
      show "n - unat (len + ?s) \<le> length rs" using Cons.prems(2) r(1) k unfolding sum by simp
    qed (use sum s k Cons.prems(4) in simp_all)
    then show ?thesis using lt left N Cons.prems(3,5) by (simp add: send_loop.simps[of _ "r # rs"] Let_def)
  qed
qed



text \<open>An error behind a first part is not noticed: the next part is read 4 GiB behind the buffer.\<close>

lemma tcp_send_error_wild: "tcp_client_send ''abc'' [2, - 1] = SendWild"
  by (simp add: tcp_client_send_def send_loop.simps[of _ "[2, - 1]"] send_loop.simps[of _ "[- 1]"] send_loop.simps[of _ "[]"])

end
