(* ===== verification/Es_Ring.thy ===== *)
theory Es_Ring
  imports Es_Head Tcp_Socket
begin

text \<open>
  The asynchronous queries of \<^verbatim>\<open>module_function/es_http_api.c\<close>: a ring of ten response slots that four kinds of
  threads pass on to each other with semaphores. Callers of \<^verbatim>\<open>es_query_asynchronous\<close> fill a slot under a mutex,
  \<^verbatim>\<open>es_server_send\<close> sends the request, \<^verbatim>\<open>es_server_recv\<close> collects the answer, and \<^verbatim>\<open>es_asynchronous_callback\<close> calls
  back and frees the slot.

  A thread is a program point, and a step runs it to its next access to shared data. What the network
  answers is chosen by the environment, and so is what the analysis of the received bytes makes of them:
  its result may be any value, and it may leave any answer in the slot.
\<close>

section \<open>State\<close>

definition ES_RESPOND_ARRAY_LEN :: nat where
  "ES_RESPOND_ARRAY_LEN = 10"

definition ES_RESPOND_ARRAY_ALL_LEN :: nat where
  "ES_RESPOND_ARRAY_ALL_LEN = ES_RESPOND_ARRAY_LEN + 1"

definition SOCKET_BUFF_LEN :: nat where
  "SOCKET_BUFF_LEN = 1024"

text \<open>The fields of \<^verbatim>\<open>es_info\<close>, and \<^verbatim>\<open>es_res_array\<close>. A mutex is the number of the thread that holds it.\<close>

record ES_SERVER_INFO =
  ip_addr :: string
  port_f :: nat
  is_run :: bool
  is_over :: bool
  insert_index :: int
  send_index :: int
  recv_index :: int
  call_index :: int
  free_num :: nat
  send_num :: nat
  recv_num :: nat
  call_num :: nat
  asyn_mutex :: "nat option"
  bloc_mutex :: "nat option"
  es_res_array :: "ES_RESPOND list"

definition verb_str :: "VERB_METHOD \<Rightarrow> string" where
  "verb_str v = (case v of GET_METHOD \<Rightarrow> ''GET'' | POST_METHOD \<Rightarrow> ''POST'' | PUT_METHOD \<Rightarrow> ''PUT''
     | HEAD_METHOD \<Rightarrow> ''HEAD'' | DELETE_METHOD \<Rightarrow> ''DELETE'')"

definition zero_respond :: ES_RESPOND where
  "zero_respond = \<lparr>sta_f = 0, http_f = None, message_f = None, err_message_f = None, search_f = None, mem_f = None,
     req_f = None, req_buf_f = None, call_f = None\<rparr>"

definition upd_slot :: "nat \<Rightarrow> (ES_RESPOND \<Rightarrow> ES_RESPOND) \<Rightarrow> ES_SERVER_INFO \<Rightarrow> ES_SERVER_INFO" where
  "upd_slot i f st = st\<lparr>es_res_array := (es_res_array st)[i := f (es_res_array st ! i)]\<rparr>"

section \<open>The indices\<close>

definition ring_next :: "int \<Rightarrow> int" where
  "ring_next i = (if i + 1 \<ge> int ES_RESPOND_ARRAY_LEN then 0 else i + 1)"

text \<open>The wait of each function; \<open>None\<close> is waiting.\<close>

definition wait_free :: "ES_SERVER_INFO \<Rightarrow> ES_SERVER_INFO option" where
  "wait_free st = (if free_num st = 0 then None else Some (st\<lparr>free_num := free_num st - 1\<rparr>))"

definition wait_send :: "ES_SERVER_INFO \<Rightarrow> ES_SERVER_INFO option" where
  "wait_send st = (if send_num st = 0 then None else Some (st\<lparr>send_num := send_num st - 1\<rparr>))"

definition wait_recv :: "ES_SERVER_INFO \<Rightarrow> ES_SERVER_INFO option" where
  "wait_recv st = (if recv_num st = 0 then None else Some (st\<lparr>recv_num := recv_num st - 1\<rparr>))"

definition wait_call :: "ES_SERVER_INFO \<Rightarrow> ES_SERVER_INFO option" where
  "wait_call st = (if call_num st = 0 then None else Some (st\<lparr>call_num := call_num st - 1\<rparr>))"

text \<open>What each function does behind its wait.\<close>

definition take_insert :: "ES_SERVER_INFO \<Rightarrow> int \<times> ES_SERVER_INFO" where
  "take_insert st = (insert_index st, st\<lparr>insert_index := ring_next (insert_index st)\<rparr>)"

definition take_send :: "ES_SERVER_INFO \<Rightarrow> int \<times> ES_SERVER_INFO" where
  "take_send st = (if is_over st then (- 1, st) else (send_index st, st\<lparr>send_index := ring_next (send_index st)\<rparr>))"

definition take_recv :: "ES_SERVER_INFO \<Rightarrow> int \<times> ES_SERVER_INFO" where
  "take_recv st = (if is_over st then (- 1, st) else (recv_index st, st\<lparr>recv_index := ring_next (recv_index st)\<rparr>))"

definition take_call :: "ES_SERVER_INFO \<Rightarrow> int \<times> ES_SERVER_INFO" where
  "take_call st = (if is_over st then (- 1, st) else (call_index st, st\<lparr>call_index := ring_next (call_index st)\<rparr>))"

definition get_insert_index :: "ES_SERVER_INFO \<Rightarrow> (int \<times> ES_SERVER_INFO) option" where
  "get_insert_index st = map_option take_insert (wait_free st)"

definition get_send_index :: "ES_SERVER_INFO \<Rightarrow> (int \<times> ES_SERVER_INFO) option" where
  "get_send_index st = map_option take_send (wait_send st)"

definition get_recv_index :: "ES_SERVER_INFO \<Rightarrow> (int \<times> ES_SERVER_INFO) option" where
  "get_recv_index st = map_option take_recv (wait_recv st)"

definition get_call_index :: "ES_SERVER_INFO \<Rightarrow> (int \<times> ES_SERVER_INFO) option" where
  "get_call_index st = map_option take_call (wait_call st)"

section \<open>Filling a slot\<close>

text \<open>
  The \<^verbatim>\<open>do\<close> loop that allocates a longer buffer until the message fits. The result is the buffer, or \<open>None\<close>
  where an allocation fails. A message that is refused leaves the new buffer as it came from the pool, and
  no result is defined.
\<close>

definition sized :: "MAKE_HTTP_MESSAGE \<Rightarrow> nat \<Rightarrow> MAKE_HTTP_MESSAGE" where
  "sized par len = par\<lparr>msg_buf := Some [], msg_buf_len := int len\<rparr>"

lemma sized_result:
  "make_es_http_message (sized par len) = Some (ret, par') \<Longrightarrow> \<not> ret < int len \<Longrightarrow>
   ret = int (length (request_text (the (msg_head par)) (the (msg_path par)) (the (msg_ip par)) (msg_port par) (the (msg_body par))))"
  by (auto simp: make_es_http_message_def sized_def snprintf_def Let_def split: option.splits if_splits)

function req_buf_loop :: "(nat \<Rightarrow> bool) \<Rightarrow> MAKE_HTTP_MESSAGE \<Rightarrow> nat \<Rightarrow> es_mem \<Rightarrow> (string option \<times> es_mem) option" where
  "req_buf_loop alloc par i m =
     (let str_len = SOCKET_BUFF_LEN * (i + 1) in
      if \<not> int_range (int str_len) then None
      else case es_alloc alloc m of
        (None, m') \<Rightarrow> Some (None, m')
      | (Some _, m') \<Rightarrow> (case make_es_http_message (sized par str_len) of
          None \<Rightarrow> None
        | Some (ret, par') \<Rightarrow>
            if ret < int str_len then (if ret < 0 then None else Some (msg_buf par', m'))
            else req_buf_loop alloc par (i + 1) m'))"
  by pat_completeness auto
termination
proof (relation "measure (\<lambda>(alloc, par, i, m). length (request_text (the (msg_head par)) (the (msg_path par)) (the (msg_ip par))
    (msg_port par) (the (msg_body par))) - i)", goal_cases)
  case 2
  then show ?case by (auto dest!: sized_result simp: SOCKET_BUFF_LEN_def)
qed simp

declare req_buf_loop.simps [simp del]

text \<open>\<^verbatim>\<open>frame_strlen(s) + 1\<close> bytes are allocated and the string is copied; a \<^verbatim>\<open>NULL\<close> string is left out.\<close>

definition dup_str :: "(nat \<Rightarrow> bool) \<Rightarrow> string option \<Rightarrow> es_mem \<Rightarrow> string option option \<times> es_mem" where
  "dup_str alloc s m =
     (case s of
        None \<Rightarrow> (Some None, m)
      | Some t \<Rightarrow> (case es_alloc alloc m of (a, m') \<Rightarrow> (map_option (\<lambda>_. Some (cstr t)) a, m')))"

text \<open>The text of \<^verbatim>\<open>sprintf(path_str, ...)\<close>; the array has 1024 bytes.\<close>

definition query_path :: "ES_REQUEST \<Rightarrow> string" where
  "query_path req = cstr (the (path_str req)) @ (case query_str req of None \<Rightarrow> [] | Some q \<Rightarrow> cstr q)"

definition query_message :: "ES_SERVER_INFO \<Rightarrow> ES_REQUEST \<Rightarrow> MAKE_HTTP_MESSAGE" where
  "query_message st req = \<lparr>msg_head = Some (verb_str (verb_f req)), msg_buf = None, msg_path = Some (query_path req),
     msg_body = body_str req, msg_ip = Some (ip_addr st), msg_buf_len = 0, msg_port = port_f st\<rparr>"

text \<open>
  \<^verbatim>\<open>es_query_asynchronous\<close> between the index and the new status: the slot, and whether every allocation has
  succeeded.
\<close>

definition fill_slot ::
  "(nat \<Rightarrow> bool) \<Rightarrow> ES_SERVER_INFO \<Rightarrow> ES_REQUEST \<Rightarrow> nat option \<Rightarrow> ES_RESPOND \<Rightarrow> (bool \<times> ES_RESPOND) option" where
  "fill_slot alloc st req call res =
     (case mem_f res of
        None \<Rightarrow> None
      | Some m0 \<Rightarrow>
          let res0 = res\<lparr>call_f := call\<rparr> in
          (case es_alloc alloc m0 of
             (None, m1) \<Rightarrow> Some (False, res0\<lparr>mem_f := Some m1\<rparr>)
           | (Some _, m1) \<Rightarrow> (case dup_str alloc (path_str req) m1 of
               (None, m2) \<Rightarrow> Some (False, res0\<lparr>mem_f := Some m2\<rparr>)
             | (Some p, m2) \<Rightarrow> (case dup_str alloc (query_str req) m2 of
                 (None, m3) \<Rightarrow> Some (False, res0\<lparr>mem_f := Some m3\<rparr>)
               | (Some q, m3) \<Rightarrow> (case dup_str alloc (body_str req) m3 of
                   (None, m4) \<Rightarrow> Some (False, res0\<lparr>mem_f := Some m4\<rparr>)
                 | (Some b, m4) \<Rightarrow>
                     if length (query_path req) \<ge> SOCKET_BUFF_LEN then None
                     else (case req_buf_loop alloc (query_message st req) 0 m4 of
                             None \<Rightarrow> None
                           | Some (None, m5) \<Rightarrow> Some (False, res0\<lparr>mem_f := Some m5\<rparr>)
                           | Some (Some buf, m5) \<Rightarrow>
                               Some (True, res0\<lparr>mem_f := Some m5, req_f := Some \<lparr>path_str = p, query_str = q, body_str = b, verb_f = verb_f req\<rparr>,
                                 req_buf_f := Some buf\<rparr>)))))))"

text \<open>The slot at \<^verbatim>\<open>error_out\<close>; \<^verbatim>\<open>ngx_reset_pool\<close> empties the pool.\<close>

definition reset_slot :: "ES_RESPOND \<Rightarrow> ES_RESPOND" where
  "reset_slot res = res\<lparr>sta_f := 0, call_f := None, http_f := None, err_message_f := None, message_f := None, search_f := None,
     req_f := None, req_buf_f := None, mem_f := map_option (\<lambda>_. empty_es_mem) (mem_f res)\<rparr>"

text \<open>\<^verbatim>\<open>inside_release_es_respond\<close> up to the post: without a running server the pool is destroyed.\<close>

definition release_slot :: "bool \<Rightarrow> ES_RESPOND \<Rightarrow> ES_RESPOND" where
  "release_slot running res = res\<lparr>sta_f := 0, call_f := None, http_f := None, message_f := None, err_message_f := None, search_f := None,
     req_f := None, req_buf_f := None, mem_f := (if running then map_option (\<lambda>_. empty_es_mem) (mem_f res) else None)\<rparr>"

definition inside_release_es_respond :: "nat \<Rightarrow> ES_SERVER_INFO \<Rightarrow> ES_SERVER_INFO" where
  "inside_release_es_respond i st =
     (let st' = upd_slot i (release_slot (is_run st)) st
      in if is_run st' then st'\<lparr>free_num := free_num st' + 1\<rparr> else st')"

text \<open>
  \<^verbatim>\<open>es_query_asynchronous\<close> as a whole, when no other thread runs: the result and the state, and \<open>None\<close> when it
  waits or has no defined result. \<open>me\<close> is the calling thread. The return for a negative index keeps the mutex.
\<close>

definition lock_asyn :: "nat \<Rightarrow> ES_SERVER_INFO \<Rightarrow> ES_SERVER_INFO option" where
  "lock_asyn me st = (if asyn_mutex st = None then Some (st\<lparr>asyn_mutex := Some me\<rparr>) else None)"

definition es_query_asynchronous ::
  "(nat \<Rightarrow> bool) \<Rightarrow> nat \<Rightarrow> ES_REQUEST \<Rightarrow> nat option \<Rightarrow> ES_SERVER_INFO \<Rightarrow> (int \<times> ES_SERVER_INFO) option" where
  "es_query_asynchronous alloc me req call st =
     (if path_str req = None then Some (- 3, st)
      else if \<not> is_run st then Some (- 2, st)
      else do {
        st1 \<leftarrow> lock_asyn me st;
        (index, st2) \<leftarrow> get_insert_index st1;
        if index < 0 then Some (- 2, st2)
        else do {
          (ok, res) \<leftarrow> fill_slot alloc st2 req call (es_res_array st2 ! nat index);
          let st3 = upd_slot (nat index) (\<lambda>_. res) st2;
          Some (if ok
                then (0, (upd_slot (nat index) (\<lambda>r. r\<lparr>sta_f := 1\<rparr>) st3)\<lparr>send_num := send_num st3 + 1, asyn_mutex := None\<rparr>)
                else (- 1, (upd_slot (nat index) reset_slot st3)
                  \<lparr>insert_index := insert_index st3 - 1, free_num := free_num st3 + 1, asyn_mutex := None\<rparr>))
        }
      })"

section \<open>Threads\<close>

text \<open>
  A caller of \<^verbatim>\<open>es_query_asynchronous\<close>, in the order of the function; \<open>CUndo\<close> is \<^verbatim>\<open>error_out\<close>. The third component of a step are
  the requests it hands over, with their callback and their text.
\<close>

datatype es_caller = CQuery ES_REQUEST "nat option" | CLock ES_REQUEST "nat option" | CWait ES_REQUEST "nat option"
  | CTake ES_REQUEST "nat option" | CFill nat ES_REQUEST "nat option" | CReady nat | CPost nat | CUndo nat | CPostFree
  | CUnlock int | CReturned int | CFault

type_synonym es_log = "(nat option \<times> string) list"

definition slot_entry :: "ES_RESPOND \<Rightarrow> nat option \<times> string" where
  "slot_entry res = (call_f res, cstr (the (req_buf_f res)))"

fun es_caller_step :: "(nat \<Rightarrow> bool) \<Rightarrow> nat \<Rightarrow> es_caller \<Rightarrow> ES_SERVER_INFO \<Rightarrow> (es_caller \<times> ES_SERVER_INFO \<times> es_log) option" where
  "es_caller_step alloc me (CQuery req call) st =
     Some (if path_str req = None then CReturned (- 3) else if \<not> is_run st then CReturned (- 2) else CLock req call, st, [])"
| "es_caller_step alloc me (CLock req call) st = map_option (\<lambda>st'. (CWait req call, st', [])) (lock_asyn me st)"
| "es_caller_step alloc me (CWait req call) st = map_option (\<lambda>st'. (CTake req call, st', [])) (wait_free st)"
| "es_caller_step alloc me (CTake req call) st =
     (case take_insert st of (i, st') \<Rightarrow> Some (if i < 0 then CReturned (- 2) else CFill (nat i) req call, st', []))"
| "es_caller_step alloc me (CFill i req call) st =
     Some (case fill_slot alloc st req call (es_res_array st ! i) of
             None \<Rightarrow> (CFault, st, [])
           | Some (ok, res) \<Rightarrow> (if ok then CReady i else CUndo i, upd_slot i (\<lambda>_. res) st, []))"
| "es_caller_step alloc me (CReady i) st = Some (CPost i, upd_slot i (\<lambda>r. r\<lparr>sta_f := 1\<rparr>) st, [])"
| "es_caller_step alloc me (CPost i) st = Some (CUnlock 0, st\<lparr>send_num := send_num st + 1\<rparr>, [slot_entry (es_res_array st ! i)])"
| "es_caller_step alloc me (CUndo i) st =
     Some (CPostFree, (upd_slot i reset_slot st)\<lparr>insert_index := insert_index st - 1\<rparr>, [])"
| "es_caller_step alloc me CPostFree st = Some (CUnlock (- 1), st\<lparr>free_num := free_num st + 1\<rparr>, [])"
| "es_caller_step alloc me (CUnlock r) st = Some (CReturned r, st\<lparr>asyn_mutex := None\<rparr>, [])"
| "es_caller_step alloc me (CReturned r) st = None"
| "es_caller_step alloc me CFault st = None"

text \<open>
  The sender, with the results of \<^verbatim>\<open>send\<close> and of \<^verbatim>\<open>es_server_connect\<close>. It posts before it writes the status. The third
  component of a step are the texts that were sent.
\<close>

datatype es_sender = SWait | STake | SSend nat | SPost nat | SMark nat | SConnect | SEnd | SFault

fun es_sender_step :: "int list \<Rightarrow> int \<Rightarrow> es_sender \<Rightarrow> ES_SERVER_INFO \<Rightarrow> (es_sender \<times> ES_SERVER_INFO \<times> string list) option" where
  "es_sender_step rs conn SWait st = map_option (\<lambda>st'. (STake, st', [])) (wait_send st)"
| "es_sender_step rs conn STake st = (case take_send st of (i, st') \<Rightarrow> Some (if i < 0 then SEnd else SSend (nat i), st', []))"
| "es_sender_step rs conn (SSend i) st =
     (case req_buf_f (es_res_array st ! i) of
        None \<Rightarrow> Some (SFault, st, [])
      | Some b \<Rightarrow> (case tcp_client_send b rs of
          SendMore \<Rightarrow> None
        | SendWild \<Rightarrow> Some (SFault, st, [])
        | Sent n \<Rightarrow> if n = 0 then Some (SConnect, st, []) else Some (SPost i, st, [cstr b])))"
| "es_sender_step rs conn (SPost i) st = Some (SMark i, st\<lparr>recv_num := recv_num st + 1\<rparr>, [])"
| "es_sender_step rs conn (SMark i) st = Some (SWait, upd_slot i (\<lambda>r. r\<lparr>sta_f := 2\<rparr>) st, [])"
| "es_sender_step rs conn SConnect st = Some (if conn < 0 then SEnd else SWait, st, [])"
| "es_sender_step rs conn SEnd st = None"
| "es_sender_step rs conn SFault st = None"

text \<open>
  The receiver. A round at \<open>RRecv i\<close> reconnects, is told to try again, or analyses what is in its buffer: the
  result of \<^verbatim>\<open>analysis_es_recv_str\<close>, with a slot that has the answer. The result 0 of a reconnection is taken for the
  end of the answer.
\<close>

datatype recv_outcome = Reconnect int | Again | Analysed int ES_RESPOND

datatype es_receiver = RWait | RTake | RRecv nat | RDone nat | RPost nat | REnd

definition put_answer :: "ES_RESPOND \<Rightarrow> ES_RESPOND \<Rightarrow> ES_RESPOND" where
  "put_answer a res = res\<lparr>http_f := http_f a, message_f := message_f a, err_message_f := err_message_f a, search_f := search_f a, mem_f := mem_f a\<rparr>"

fun es_receiver_step :: "recv_outcome \<Rightarrow> es_receiver \<Rightarrow> ES_SERVER_INFO \<Rightarrow> (es_receiver \<times> ES_SERVER_INFO) option" where
  "es_receiver_step out RWait st = map_option (Pair RTake) (wait_recv st)"
| "es_receiver_step out RTake st = (case take_recv st of (i, st') \<Rightarrow> Some (if i < 0 then REnd else RRecv (nat i), st'))"
| "es_receiver_step out (RRecv i) st =
     Some (case out of
             Reconnect r \<Rightarrow> (if r < 0 then REnd else if r = 0 then RDone i else RRecv i, st)
           | Again \<Rightarrow> (RRecv i, st)
           | Analysed ret a \<Rightarrow>
               let st' = upd_slot i (put_answer a) st in
               if ret = - 1 then (REnd, st'\<lparr>is_run := False\<rparr>)
               else (if ret = 0 \<or> ret < 0 \<and> ret \<noteq> - 4 then RDone i else RRecv i, st'))"
| "es_receiver_step out (RDone i) st = Some (RPost i, upd_slot i (\<lambda>r. r\<lparr>sta_f := 3\<rparr>) st)"
| "es_receiver_step out (RPost i) st = Some (RWait, st\<lparr>call_num := call_num st + 1\<rparr>)"
| "es_receiver_step out REnd st = None"

text \<open>The callback thread; the third component of a step are the callbacks it runs.\<close>

datatype es_callback = KWait | KTake | KCall nat | KRelease nat | KPost | KEnd

fun es_callback_step :: "es_callback \<Rightarrow> ES_SERVER_INFO \<Rightarrow> (es_callback \<times> ES_SERVER_INFO \<times> nat list) option" where
  "es_callback_step KWait st = map_option (\<lambda>st'. (KTake, st', [])) (wait_call st)"
| "es_callback_step KTake st = (case take_call st of (i, st') \<Rightarrow> Some (if i < 0 then KEnd else KCall (nat i), st', []))"
| "es_callback_step (KCall i) st = Some (KRelease i, st, case call_f (es_res_array st ! i) of None \<Rightarrow> [] | Some c \<Rightarrow> [c])"
| "es_callback_step (KRelease i) st = Some (KPost, upd_slot i (release_slot (is_run st)) st, [])"
| "es_callback_step KPost st = Some (KWait, if is_run st then st\<lparr>free_num := free_num st + 1\<rparr> else st, [])"
| "es_callback_step KEnd st = None"

section \<open>The system\<close>

record es_system =
  es_st :: ES_SERVER_INFO
  es_callers :: "es_caller list"
  es_sender_th :: es_sender
  es_receiver_th :: es_receiver
  es_callback_th :: es_callback
  es_queued :: es_log
  es_sent :: "string list"
  es_called :: "nat list"

text \<open>The steps in an environment in which the allocations of a request behave like a function of \<open>A\<close>.\<close>

inductive es_step :: "(nat \<Rightarrow> bool) set \<Rightarrow> es_system \<Rightarrow> es_system \<Rightarrow> bool" for A where
  caller: "i < length (es_callers s) \<Longrightarrow> alloc \<in> A \<Longrightarrow> es_caller_step alloc i (es_callers s ! i) (es_st s) = Some (c, st, qs) \<Longrightarrow>
    es_step A s (s\<lparr>es_st := st, es_callers := (es_callers s)[i := c], es_queued := es_queued s @ qs\<rparr>)"
| sender: "es_sender_step rs conn (es_sender_th s) (es_st s) = Some (t, st, bs) \<Longrightarrow>
    es_step A s (s\<lparr>es_st := st, es_sender_th := t, es_sent := es_sent s @ bs\<rparr>)"
| receiver: "es_receiver_step out (es_receiver_th s) (es_st s) = Some (r, st) \<Longrightarrow>
    es_step A s (s\<lparr>es_st := st, es_receiver_th := r\<rparr>)"
| callback: "es_callback_step (es_callback_th s) (es_st s) = Some (k, st, cs) \<Longrightarrow>
    es_step A s (s\<lparr>es_st := st, es_callback_th := k, es_called := es_called s @ cs\<rparr>)"

inductive_cases es_stepE: "es_step A s s'"

text \<open>
  \<^verbatim>\<open>es_server_init\<close> on the static slots, with the results of the two \<^verbatim>\<open>socket\<close>s and \<^verbatim>\<open>connect\<close>s and of the pools. The outer \<open>None\<close>
  is an address that does not fit its 16 bytes; the inner one is the end of the function, which has no \<^verbatim>\<open>return\<close>.
\<close>

definition zero_info :: "ES_RESPOND list \<Rightarrow> ES_SERVER_INFO" where
  "zero_info slots = \<lparr>ip_addr = [], port_f = 0, is_run = False, is_over = False, insert_index = 0, send_index = 0, recv_index = 0,
     call_index = 0, free_num = 0, send_num = 0, recv_num = 0, call_num = 0, asyn_mutex = None, bloc_mutex = None, es_res_array = slots\<rparr>"

definition es_server_init ::
  "string option \<Rightarrow> nat \<Rightarrow> int \<Rightarrow> int \<Rightarrow> int \<Rightarrow> int \<Rightarrow> (nat \<Rightarrow> bool) \<Rightarrow> ES_RESPOND list \<Rightarrow> (int option \<times> ES_SERVER_INFO) option" where
  "es_server_init ip port fd fd_b conn conn_b pools slots =
     (let st = zero_info slots in
      case ip of
        None \<Rightarrow> Some (Some (- 1), st)
      | Some a \<Rightarrow>
          if fd < 0 then Some (Some fd, st)
          else if fd_b < 0 then Some (Some fd_b, st)
          else if frame_strlen (Some a) \<ge> 16 then None
          else let st1 = st\<lparr>is_run := True, ip_addr := cstr a, port_f := port\<rparr> in
               if conn < 0 then Some (Some conn, st1)
               else if conn_b < 0 then Some (Some conn_b, st1)
               else let n = length (takeWhile pools [0..<ES_RESPOND_ARRAY_ALL_LEN]);
                        st2 = st1\<lparr>free_num := ES_RESPOND_ARRAY_LEN,
                          es_res_array := map (\<lambda>r. r\<lparr>mem_f := Some empty_es_mem\<rparr>) (take n slots) @ drop n slots\<rparr>
                    in Some (if n < ES_RESPOND_ARRAY_ALL_LEN then Some (- 1) else None, st2))"

definition es_start :: "string \<Rightarrow> nat \<Rightarrow> (ES_REQUEST \<times> nat option) list \<Rightarrow> es_system" where
  "es_start ip port reqs =
     \<lparr>es_st = (case es_server_init (Some ip) port 3 4 0 0 (\<lambda>_. True) (replicate ES_RESPOND_ARRAY_ALL_LEN zero_respond) of
         Some (_, st) \<Rightarrow> st | None \<Rightarrow> zero_info []),
      es_callers = map (\<lambda>(req, call). CQuery req call) reqs, es_sender_th = SWait, es_receiver_th = RWait, es_callback_th = KWait,
      es_queued = [], es_sent = [], es_called = []\<rparr>"

text \<open>A schedule of steps, with the choices of the environment.\<close>

datatype es_turn = TCaller nat "nat \<Rightarrow> bool" | TSender "int list" int | TReceiver recv_outcome | TCallback

fun es_turn_step :: "es_turn \<Rightarrow> es_system \<Rightarrow> es_system option" where
  "es_turn_step (TCaller i alloc) s =
     (if i < length (es_callers s)
      then map_option (\<lambda>(c, st, qs). s\<lparr>es_st := st, es_callers := (es_callers s)[i := c], es_queued := es_queued s @ qs\<rparr>)
             (es_caller_step alloc i (es_callers s ! i) (es_st s))
      else None)"
| "es_turn_step (TSender rs conn) s =
     map_option (\<lambda>(t, st, bs). s\<lparr>es_st := st, es_sender_th := t, es_sent := es_sent s @ bs\<rparr>) (es_sender_step rs conn (es_sender_th s) (es_st s))"
| "es_turn_step (TReceiver out) s =
     map_option (\<lambda>(r, st). s\<lparr>es_st := st, es_receiver_th := r\<rparr>) (es_receiver_step out (es_receiver_th s) (es_st s))"
| "es_turn_step TCallback s =
     map_option (\<lambda>(k, st, cs). s\<lparr>es_st := st, es_callback_th := k, es_called := es_called s @ cs\<rparr>) (es_callback_step (es_callback_th s) (es_st s))"

fun es_run :: "es_turn list \<Rightarrow> es_system \<Rightarrow> es_system option" where
  "es_run [] s = Some s"
| "es_run (t # ts) s = Option.bind (es_turn_step t s) (es_run ts)"

fun turn_in :: "(nat \<Rightarrow> bool) set \<Rightarrow> es_turn \<Rightarrow> bool" where
  "turn_in A (TCaller i alloc) \<longleftrightarrow> alloc \<in> A"
| "turn_in A _ \<longleftrightarrow> True"

lemma es_turn_step_sound: "es_turn_step t s = Some s' \<Longrightarrow> turn_in A t \<Longrightarrow> es_step A s s'"
  by (cases t) (auto split: if_splits intro: es_step.intros)

lemma es_run_reach: "es_run ts s = Some s' \<Longrightarrow> list_all (turn_in A) ts \<Longrightarrow> (es_step A)\<^sup>*\<^sup>* s s'"
  by (induction ts arbitrary: s) (auto split: bind_splits intro: es_turn_step_sound converse_rtranclp_into_rtranclp)

end
