(* ===== verification/Es_Ring_Inv.thy ===== *)
theory Es_Ring_Inv
  imports Es_Ring
begin

text \<open>
  The invariant of the ring of response slots, for an environment in which allocations succeed. A run has
  handed over \<open>q\<close> requests; the sender has taken \<open>S\<close> of them, the receiver \<open>R\<close> and the callback thread \<open>K\<close>. All
  indices and semaphores are functions of these counters and of where the threads are, and the slots from the
  oldest one that is not free up to the newest hold the requests in order.
\<close>

section \<open>Requests\<close>

lemma make_message_text:
  assumes "make_es_http_message (sized par len) = Some (ret, par')" "ret < int len" "\<not> ret < 0"
  shows "\<exists>b. msg_buf par' = Some b \<and> cstr b \<noteq> [] \<and> length (cstr b) < len"
proof -
  obtain h p ip b where par: "msg_head par = Some h" "msg_path par = Some p" "msg_ip par = Some ip" "msg_body par = Some b" "msg_port par \<noteq> 0"
    using assms(1,3) by (auto simp: make_es_http_message_def sized_def split: option.splits if_splits)
  let ?t = "request_text h p ip (msg_port par) b"
  have "ret = int (length ?t)"
    using assms(1,3) par by (auto simp: make_es_http_message_def sized_def snprintf_def Let_def split: if_splits)
  then have "int (length ?t) < int len" using assms(2) by simp
  then show ?thesis
    using make_es_http_message_fits[of "sized par len" h "[]" p ip b] par assms(1) by (auto simp: sized_def)
qed

lemma req_buf_loop_ok:
  "req_buf_loop (\<lambda>_. True) par i m = Some (x, m') \<Longrightarrow> \<exists>b. x = Some b \<and> cstr b \<noteq> [] \<and> length (cstr b) < 2 ^ 31"
proof (induction "\<lambda>_ :: nat. True" par i m arbitrary: x m' rule: req_buf_loop.induct)
  case (1 par i m)
  let ?n = "SOCKET_BUFF_LEN * (i + 1)"
  have n: "?n < 2 ^ 31" using 1(2) by (subst (asm) req_buf_loop.simps) (auto simp: int_range_def Let_def split: if_splits)
  from 1(2) obtain ret par' where r: "make_es_http_message (sized par ?n) = Some (ret, par')"
    by (subst (asm) req_buf_loop.simps) (auto simp: es_alloc_def Let_def split: if_splits option.splits)
  show ?case
  proof (cases "ret < int ?n")
    case True
    then have "\<not> ret < 0" "x = msg_buf par'" using 1(2) r
      by (subst (asm) req_buf_loop.simps, auto simp: es_alloc_def Let_def split: if_splits)+
    then show ?thesis using make_message_text[OF r True] n by (auto intro: less_trans)
  next
    case False
    then show ?thesis using 1 r
      by (subst (asm) (2) req_buf_loop.simps) (auto simp: es_alloc_def Let_def split: if_splits)
  qed
qed

text \<open>A slots_filled slot has the callback and a request that can be sent.\<close>

definition slots_filled :: "ES_RESPOND \<Rightarrow> bool" where
  "slots_filled res \<longleftrightarrow> (\<exists>b. req_buf_f res = Some b \<and> cstr b \<noteq> [] \<and> length (cstr b) < 2 ^ 31)"

lemma es_fill_slot_ok:
  "fill_slot (\<lambda>_. True) st req call res = Some (ok, res') \<Longrightarrow> ok \<and> slots_filled res'"
  by (auto simp: fill_slot_def slots_filled_def Let_def es_alloc_def dup_str_def split: option.splits if_splits dest!: req_buf_loop_ok)

section \<open>The invariant\<close>

text \<open>The callers inside the mutex.\<close>

fun inside :: "es_caller \<Rightarrow> bool" where
  "inside (CQuery _ _) = False"
| "inside (CLock _ _) = False"
| "inside (CReturned _) = False"
| "inside _ = True"

definition lock_ok :: "es_system \<Rightarrow> bool" where
  "lock_ok s \<longleftrightarrow> (\<forall>j < length (es_callers s). inside (es_callers s ! j) \<longleftrightarrow> asyn_mutex (es_st s) = Some j) \<and>
     (\<forall>j. asyn_mutex (es_st s) = Some j \<longrightarrow> j < length (es_callers s))"

definition holder :: "es_system \<Rightarrow> es_caller" where
  "holder s = (case asyn_mutex (es_st s) of None \<Rightarrow> CReturned 0 | Some j \<Rightarrow> es_callers s ! j)"

text \<open>What a thread has taken from a semaphore or a ring and not yet passed on.\<close>

fun c_waited :: "es_caller \<Rightarrow> nat" where
  "c_waited (CTake _ _) = 1"
| "c_waited (CFill _ _ _) = 1"
| "c_waited (CReady _) = 1"
| "c_waited (CPost _) = 1"
| "c_waited CFault = 1"
| "c_waited _ = 0"

fun c_taken :: "es_caller \<Rightarrow> nat" where
  "c_taken (CTake _ _) = 0"
| "c_taken c = c_waited c"

fun s_take :: "es_sender \<Rightarrow> nat" where
  "s_take STake = 1" | "s_take _ = 0"

fun s_unsent :: "es_sender \<Rightarrow> nat" where
  "s_unsent (SSend _) = 1" | "s_unsent SFault = 1" | "s_unsent _ = 0"

fun s_hold :: "es_sender \<Rightarrow> nat" where
  "s_hold (SPost _) = 1" | "s_hold t = s_unsent t"

fun r_take :: "es_receiver \<Rightarrow> nat" where
  "r_take RTake = 1" | "r_take _ = 0"

fun r_hold :: "es_receiver \<Rightarrow> nat" where
  "r_hold RWait = 0" | "r_hold RTake = 0" | "r_hold _ = 1"

fun k_take :: "es_callback \<Rightarrow> nat" where
  "k_take KTake = 1" | "k_take _ = 0"

fun k_uncalled :: "es_callback \<Rightarrow> nat" where
  "k_uncalled (KCall _) = 1" | "k_uncalled _ = 0"

fun k_hold :: "es_callback \<Rightarrow> nat" where
  "k_hold (KRelease _) = 1" | "k_hold k = k_uncalled k"

fun k_post :: "es_callback \<Rightarrow> nat" where
  "k_post KPost = 1" | "k_post _ = 0"

text \<open>The indices and the semaphores.\<close>

definition counts_ok :: "es_system \<Rightarrow> nat \<Rightarrow> nat \<Rightarrow> nat \<Rightarrow> bool" where
  "counts_ok s S R K \<longleftrightarrow>
     insert_index (es_st s) = int ((length (es_queued s) + c_taken (holder s)) mod 10) \<and>
     send_index (es_st s) = int (S mod 10) \<and> recv_index (es_st s) = int (R mod 10) \<and> call_index (es_st s) = int (K mod 10) \<and>
     send_num (es_st s) + s_take (es_sender_th s) + S = length (es_queued s) \<and>
     recv_num (es_st s) + r_take (es_receiver_th s) + R + s_hold (es_sender_th s) = S \<and>
     call_num (es_st s) + k_take (es_callback_th s) + K + r_hold (es_receiver_th s) = R \<and>
     k_hold (es_callback_th s) \<le> K \<and>
     free_num (es_st s) + c_waited (holder s) + length (es_queued s) + k_hold (es_callback_th s) + k_post (es_callback_th s) \<le> K + 10 \<and>
     (is_run (es_st s) \<longrightarrow>
       free_num (es_st s) + c_waited (holder s) + length (es_queued s) + k_hold (es_callback_th s) + k_post (es_callback_th s) = K + 10)"

text \<open>The slots the threads work on.\<close>

fun c_slot :: "es_caller \<Rightarrow> nat \<Rightarrow> ES_RESPOND list \<Rightarrow> bool" where
  "c_slot (CFill i _ _) q rs \<longleftrightarrow> i = q mod 10"
| "c_slot (CReady i) q rs \<longleftrightarrow> i = q mod 10 \<and> slots_filled (rs ! i)"
| "c_slot (CPost i) q rs \<longleftrightarrow> i = q mod 10 \<and> slots_filled (rs ! i)"
| "c_slot (CUndo i) q rs \<longleftrightarrow> False"
| "c_slot CPostFree q rs \<longleftrightarrow> False"
| "c_slot _ q rs \<longleftrightarrow> True"

fun s_slot :: "es_sender \<Rightarrow> nat \<Rightarrow> bool" where
  "s_slot (SSend i) n \<longleftrightarrow> i = (n - 1) mod 10"
| "s_slot (SPost i) n \<longleftrightarrow> i = (n - 1) mod 10"
| "s_slot (SMark i) n \<longleftrightarrow> i < 10"
| "s_slot SConnect n \<longleftrightarrow> False"
| "s_slot SEnd n \<longleftrightarrow> False"
| "s_slot _ n \<longleftrightarrow> True"

fun r_slot :: "es_receiver \<Rightarrow> nat \<Rightarrow> bool" where
  "r_slot (RRecv i) n \<longleftrightarrow> i = (n - 1) mod 10"
| "r_slot (RDone i) n \<longleftrightarrow> i = (n - 1) mod 10"
| "r_slot (RPost i) n \<longleftrightarrow> i = (n - 1) mod 10"
| "r_slot _ n \<longleftrightarrow> True"

fun k_slot :: "es_callback \<Rightarrow> nat \<Rightarrow> bool" where
  "k_slot (KCall i) n \<longleftrightarrow> i = (n - 1) mod 10"
| "k_slot (KRelease i) n \<longleftrightarrow> i = (n - 1) mod 10"
| "k_slot KEnd n \<longleftrightarrow> False"
| "k_slot _ n \<longleftrightarrow> True"

text \<open>The slots from position \<open>lo\<close> of the run on hold the requests.\<close>

definition slots_ok :: "ES_RESPOND list \<Rightarrow> es_log \<Rightarrow> nat \<Rightarrow> bool" where
  "slots_ok rs qs lo \<longleftrightarrow> (\<forall>k. lo \<le> k \<and> k < length qs \<longrightarrow> slots_filled (rs ! (k mod 10)) \<and> slot_entry (rs ! (k mod 10)) = qs ! k)"

definition ring_inv :: "es_system \<Rightarrow> nat \<Rightarrow> nat \<Rightarrow> nat \<Rightarrow> bool" where
  "ring_inv s S R K \<longleftrightarrow> lock_ok s \<and> \<not> is_over (es_st s) \<and> length (es_res_array (es_st s)) = 11 \<and> counts_ok s S R K \<and>
     c_slot (holder s) (length (es_queued s)) (es_res_array (es_st s)) \<and>
     s_slot (es_sender_th s) S \<and> r_slot (es_receiver_th s) R \<and> k_slot (es_callback_th s) K \<and>
     slots_ok (es_res_array (es_st s)) (es_queued s) (K - k_hold (es_callback_th s)) \<and>
     es_sent s = map snd (take (S - s_unsent (es_sender_th s)) (es_queued s)) \<and>
     es_called s = List.map_filter fst (take (K - k_uncalled (es_callback_th s)) (es_queued s))"

lemma ring_next_mod [simp]: "ring_next (int (k mod 10)) = int (Suc k mod 10)"
  by (auto simp: ring_next_def ES_RESPOND_ARRAY_LEN_def mod_Suc)

lemma filled_upd [simp]:
  "slots_filled (r\<lparr>sta_f := x\<rparr>) = slots_filled r" "slot_entry (r\<lparr>sta_f := x\<rparr>) = slot_entry r"
  "slots_filled (put_answer a r) = slots_filled r" "slot_entry (put_answer a r) = slot_entry r"
  by (auto simp: slots_filled_def slot_entry_def put_answer_def)

text \<open>A change that keeps the request of a slot keeps the slots.\<close>

lemma nth_upd_same:
  assumes "\<And>r. g (f r) = g r"
  shows "g (rs[i := f (rs ! i)] ! j) = g (rs ! j)"
  by (cases "i < length rs"; cases "i = j") (simp_all add: assms list_update_beyond)

lemma slots_ok_upd:
  "(\<And>r. slots_filled (f r) = slots_filled r) \<Longrightarrow> (\<And>r. slot_entry (f r) = slot_entry r) \<Longrightarrow> slots_ok (rs[i := f (rs ! i)]) qs lo = slots_ok rs qs lo"
  unfolding slots_ok_def by (simp add: nth_upd_same[of slots_filled f] nth_upd_same[of slot_entry f])

lemma c_slot_upd: "(\<And>r. slots_filled (f r) = slots_filled r) \<Longrightarrow> c_slot c q (rs[i := f (rs ! i)]) = c_slot c q rs"
  by (cases c) (simp_all add: nth_upd_same[of slots_filled f])

text \<open>Two positions less than ten apart have different slots.\<close>

lemma mod_ten_differ: "a < b \<Longrightarrow> b < a + 10 \<Longrightarrow> a mod 10 \<noteq> (b :: nat) mod 10"
proof
  assume "a < b" "b < a + 10" "a mod 10 = b mod 10"
  then have "10 dvd b - a" by (simp add: mod_eq_dvd_iff_nat[symmetric])
  then show False using \<open>a < b\<close> \<open>b < a + 10\<close> by (auto dest: dvd_imp_le)
qed

section \<open>The threads keep it\<close>

lemma holder_same [simp]:
  "holder (s\<lparr>es_sender_th := t\<rparr>) = holder s" "holder (s\<lparr>es_receiver_th := r\<rparr>) = holder s" "holder (s\<lparr>es_callback_th := k\<rparr>) = holder s"
  "holder (s\<lparr>es_sent := bs\<rparr>) = holder s" "holder (s\<lparr>es_called := cs\<rparr>) = holder s" "holder (s\<lparr>es_queued := qs\<rparr>) = holder s"
  "asyn_mutex st = asyn_mutex (es_st s) \<Longrightarrow> holder (s\<lparr>es_st := st\<rparr>) = holder s"
  by (auto simp: holder_def split: option.splits)

lemma lock_ok_same [simp]:
  "lock_ok (s\<lparr>es_sender_th := t\<rparr>) = lock_ok s" "lock_ok (s\<lparr>es_receiver_th := r\<rparr>) = lock_ok s" "lock_ok (s\<lparr>es_callback_th := k\<rparr>) = lock_ok s"
  "lock_ok (s\<lparr>es_sent := bs\<rparr>) = lock_ok s" "lock_ok (s\<lparr>es_called := cs\<rparr>) = lock_ok s" "lock_ok (s\<lparr>es_queued := qs\<rparr>) = lock_ok s"
  "asyn_mutex st = asyn_mutex (es_st s) \<Longrightarrow> lock_ok (s\<lparr>es_st := st\<rparr>) = lock_ok s"
  by (auto simp: lock_ok_def)

lemma wait_Some:
  "wait_free st = Some st' \<longleftrightarrow> (\<exists>n. free_num st = Suc n \<and> st' = st\<lparr>free_num := n\<rparr>)"
  "wait_send st = Some st' \<longleftrightarrow> (\<exists>n. send_num st = Suc n \<and> st' = st\<lparr>send_num := n\<rparr>)"
  "wait_recv st = Some st' \<longleftrightarrow> (\<exists>n. recv_num st = Suc n \<and> st' = st\<lparr>recv_num := n\<rparr>)"
  "wait_call st = Some st' \<longleftrightarrow> (\<exists>n. call_num st = Suc n \<and> st' = st\<lparr>call_num := n\<rparr>)"
  by (cases "free_num st"; cases "send_num st"; cases "recv_num st"; cases "call_num st";
      auto simp: wait_free_def wait_send_def wait_recv_def wait_call_def)+

lemma sender_keeps:
  assumes "ring_inv s S R K" and step: "es_sender_step rs conn (es_sender_th s) (es_st s) = Some (t, st, bs)"
  shows "\<exists>S'. ring_inv (s\<lparr>es_st := st, es_sender_th := t, es_sent := es_sent s @ bs\<rparr>) S' R K"
proof (cases "es_sender_th s")
  case SWait
  then obtain n where "t = STake" "send_num (es_st s) = Suc n" "st = (es_st s)\<lparr>send_num := n\<rparr>" "bs = []"
    using step by (auto simp: wait_Some)
  then show ?thesis using assms(1) SWait
    by (intro exI[of _ S]) (simp add: ring_inv_def counts_ok_def)
next
  case STake
  then have "t = SSend (nat (send_index (es_st s)))" "st = (es_st s)\<lparr>send_index := ring_next (send_index (es_st s))\<rparr>" "bs = []"
    using step assms(1) by (auto simp: take_send_def ring_inv_def counts_ok_def)
  then show ?thesis using assms(1) STake
    by (intro exI[of _ "Suc S"]) (simp add: ring_inv_def counts_ok_def)
next
  case (SPost i)
  then have "t = SMark i" "st = (es_st s)\<lparr>recv_num := recv_num (es_st s) + 1\<rparr>" "bs = []" using step by auto
  then show ?thesis using assms(1) SPost
    by (intro exI[of _ S]) (simp add: ring_inv_def counts_ok_def)
next
  case (SMark i)
  then have "t = SWait" "st = upd_slot i (\<lambda>r. r\<lparr>sta_f := 2\<rparr>) (es_st s)" "bs = []" using step by auto
  then show ?thesis using assms(1) SMark
    by (intro exI[of _ S]) (simp add: ring_inv_def counts_ok_def upd_slot_def slots_ok_upd c_slot_upd)
next
  case (SSend i)
  have S: "S > 0" "i = (S - 1) mod 10" "K - k_hold (es_callback_th s) \<le> S - 1" "S - 1 < length (es_queued s)"
    using assms(1) SSend by (auto simp: ring_inv_def counts_ok_def)
  then have slot: "slots_filled (es_res_array (es_st s) ! i)" "slot_entry (es_res_array (es_st s) ! i) = es_queued s ! (S - 1)"
    using assms(1) by (auto simp: ring_inv_def slots_ok_def)
  then obtain b where b: "req_buf_f (es_res_array (es_st s) ! i) = Some b" "cstr b \<noteq> []" "length (cstr b) < 2 ^ 31"
    by (auto simp: slots_filled_def)
  show ?thesis
  proof (cases "tcp_client_send b rs")
    case (Sent v)
    then have "v \<noteq> 0" using tcp_client_send_nonzero b by blast
    then have r: "t = SPost i" "st = es_st s" "bs = [cstr b]" using step SSend b Sent by auto
    have "take S (es_queued s) = take (S - 1) (es_queued s) @ [es_queued s ! (S - 1)]"
      using S(1,4) take_Suc_conv_app_nth[of "S - 1" "es_queued s"] by simp
    moreover have "snd (es_queued s ! (S - 1)) = cstr b" using slot(2) b(1) by (auto simp: slot_entry_def dest: sym)
    ultimately show ?thesis using assms(1) SSend r
      by (intro exI[of _ S]) (simp add: ring_inv_def counts_ok_def)
  next
    case SendWild
    then have "t = SFault" "st = es_st s" "bs = []" using step SSend b by auto
    then show ?thesis using assms(1) SSend by (intro exI[of _ S]) (simp add: ring_inv_def counts_ok_def)
  qed (use step SSend b in auto)
qed (use assms in \<open>auto simp: ring_inv_def\<close>)

lemma receiver_keeps:
  assumes "ring_inv s S R K" and step: "es_receiver_step out (es_receiver_th s) (es_st s) = Some (r, st)"
  shows "\<exists>R'. ring_inv (s\<lparr>es_st := st, es_receiver_th := r\<rparr>) S R' K"
proof (cases "es_receiver_th s")
  case RWait
  then obtain n where "r = RTake" "recv_num (es_st s) = Suc n" "st = (es_st s)\<lparr>recv_num := n\<rparr>"
    using step by (auto simp: wait_Some)
  then show ?thesis using assms(1) RWait
    by (intro exI[of _ R]) (simp add: ring_inv_def counts_ok_def)
next
  case RTake
  then have "r = RRecv (nat (recv_index (es_st s)))" "st = (es_st s)\<lparr>recv_index := ring_next (recv_index (es_st s))\<rparr>"
    using step assms(1) by (auto simp: take_recv_def ring_inv_def counts_ok_def)
  then show ?thesis using assms(1) RTake
    by (intro exI[of _ "Suc R"]) (simp add: ring_inv_def counts_ok_def)
next
  case (RRecv i)
  have inv: "ring_inv (s\<lparr>es_st := st', es_receiver_th := r'\<rparr>) S R K"
    if "st' = es_st s \<or> (\<exists>a. st' = upd_slot i (put_answer a) (es_st s)) \<or> (\<exists>a. st' = (upd_slot i (put_answer a) (es_st s))\<lparr>is_run := False\<rparr>)"
      and "r' = REnd \<or> r' = RDone i \<or> r' = RRecv i" for st' r'
    using assms(1) that RRecv unfolding ring_inv_def counts_ok_def
    by (elim disjE exE) (simp_all add: upd_slot_def slots_ok_upd c_slot_upd)
  show ?thesis using step RRecv
    by (intro exI[of _ R] inv) (auto simp: Let_def split: recv_outcome.splits if_splits)
next
  case (RDone i)
  then have "r = RPost i" "st = upd_slot i (\<lambda>r. r\<lparr>sta_f := 3\<rparr>) (es_st s)" using step by auto
  then show ?thesis using assms(1) RDone
    by (intro exI[of _ R]) (simp add: ring_inv_def counts_ok_def upd_slot_def slots_ok_upd c_slot_upd)
next
  case (RPost i)
  then have "r = RWait" "st = (es_st s)\<lparr>call_num := call_num (es_st s) + 1\<rparr>" using step by auto
  then show ?thesis using assms(1) RPost
    by (intro exI[of _ R]) (simp add: ring_inv_def counts_ok_def)
qed (use step in auto)

lemma slots_ok_other:
  assumes "slots_ok rs qs lo" and "\<And>k. lo \<le> k \<Longrightarrow> k < length qs \<Longrightarrow> i \<noteq> k mod 10"
  shows "slots_ok (rs[i := x]) qs lo"
  using assms by (auto simp: slots_ok_def)

lemma callback_keeps:
  assumes "ring_inv s S R K" and step: "es_callback_step (es_callback_th s) (es_st s) = Some (k, st, cs)"
  shows "\<exists>K'. ring_inv (s\<lparr>es_st := st, es_callback_th := k, es_called := es_called s @ cs\<rparr>) S R K'"
proof (cases "es_callback_th s")
  case KWait
  then obtain n where "k = KTake" "call_num (es_st s) = Suc n" "st = (es_st s)\<lparr>call_num := n\<rparr>" "cs = []"
    using step by (auto simp: wait_Some)
  then show ?thesis using assms(1) KWait
    by (intro exI[of _ K]) (simp add: ring_inv_def counts_ok_def)
next
  case KTake
  then have "k = KCall (nat (call_index (es_st s)))" "st = (es_st s)\<lparr>call_index := ring_next (call_index (es_st s))\<rparr>" "cs = []"
    using step assms(1) by (auto simp: take_call_def ring_inv_def counts_ok_def)
  then show ?thesis using assms(1) KTake
    by (intro exI[of _ "Suc K"]) (simp add: ring_inv_def counts_ok_def)
next
  case (KCall i)
  have K: "K > 0" "i = (K - 1) mod 10" "K - 1 < length (es_queued s)"
    using assms(1) KCall by (auto simp: ring_inv_def counts_ok_def)
  then have slot: "slot_entry (es_res_array (es_st s) ! i) = es_queued s ! (K - 1)"
    using assms(1) KCall by (auto simp: ring_inv_def slots_ok_def)
  have r: "k = KRelease i" "st = es_st s" "cs = (case fst (es_queued s ! (K - 1)) of None \<Rightarrow> [] | Some c \<Rightarrow> [c])"
    using step KCall slot[symmetric] by (auto simp: slot_entry_def)
  have "take K (es_queued s) = take (K - 1) (es_queued s) @ [es_queued s ! (K - 1)]"
    using K(1,3) take_Suc_conv_app_nth[of "K - 1" "es_queued s"] by simp
  then have "List.map_filter fst (take K (es_queued s)) = List.map_filter fst (take (K - 1) (es_queued s)) @ cs"
    using r(3) by (simp add: List.map_filter_def split: option.splits)
  then show ?thesis using assms(1) KCall r(1,2)
    by (intro exI[of _ K]) (simp add: ring_inv_def counts_ok_def)
next
  case (KRelease i)
  have K: "K > 0" "i = (K - 1) mod 10" "length (es_queued s) + c_waited (holder s) < K + 10"
    using assms(1) KRelease by (auto simp: ring_inv_def counts_ok_def)
  have r: "k = KPost" "st = upd_slot i (release_slot (is_run (es_st s))) (es_st s)" "cs = []" using step KRelease by auto
  let ?rs = "es_res_array (es_st s)" and ?x = "release_slot (is_run (es_st s)) (es_res_array (es_st s) ! i)"
  have "slots_ok ?rs (es_queued s) K" using assms(1) by (auto simp: ring_inv_def slots_ok_def)
  then have slots: "slots_ok (?rs[i := ?x]) (es_queued s) K" using K mod_ten_differ[of "K - 1"] by (intro slots_ok_other) auto
  have "c_slot (holder s) (length (es_queued s)) (?rs[i := ?x])"
  proof -
    have "K - 1 < length (es_queued s)" using assms(1) KRelease by (auto simp: ring_inv_def counts_ok_def)
    then have "c_waited (holder s) = 1 \<Longrightarrow> i \<noteq> length (es_queued s) mod 10"
      using mod_ten_differ[of "K - 1" "length (es_queued s)"] K by auto
    then show ?thesis using assms(1) by (cases "holder s") (auto simp: ring_inv_def)
  qed
  then show ?thesis using assms(1) KRelease r slots
    by (intro exI[of _ K]) (simp add: ring_inv_def counts_ok_def upd_slot_def)
next
  case KPost
  then have "k = KWait" "cs = []"
    "st = (if is_run (es_st s) then (es_st s)\<lparr>free_num := free_num (es_st s) + 1\<rparr> else es_st s)"
    using step by auto
  then show ?thesis using assms(1) KPost
    by (intro exI[of _ K]) (simp add: ring_inv_def counts_ok_def)
qed (use step in auto)

subsection \<open>The callers\<close>

abbreviation caller_moves :: "es_system \<Rightarrow> nat \<Rightarrow> es_caller \<Rightarrow> ES_SERVER_INFO \<Rightarrow> es_log \<Rightarrow> es_system" where
  "caller_moves s i c st qs \<equiv> s\<lparr>es_st := st, es_callers := (es_callers s)[i := c], es_queued := es_queued s @ qs\<rparr>"

lemma lock_ok_holder:
  assumes "lock_ok s" "i < length (es_callers s)" "inside (es_callers s ! i)"
  shows "asyn_mutex (es_st s) = Some i" "holder s = es_callers s ! i"
  using assms by (auto simp: lock_ok_def holder_def)

text \<open>The holder of the mutex moves and keeps it.\<close>

lemma caller_inside:
  assumes "lock_ok s" "i < length (es_callers s)" "inside (es_callers s ! i)" "inside c" "asyn_mutex st = asyn_mutex (es_st s)"
  shows "lock_ok (caller_moves s i c st qs)" "holder (caller_moves s i c st qs) = c"
  using assms lock_ok_holder(1)[OF assms(1-3)] by (auto simp: lock_ok_def holder_def nth_list_update)

text \<open>A caller outside moves and stays outside.\<close>

lemma caller_outside:
  assumes "lock_ok s" "i < length (es_callers s)" "\<not> inside (es_callers s ! i)" "\<not> inside c" "st = es_st s"
  shows "lock_ok (caller_moves s i c st qs)" "holder (caller_moves s i c st qs) = holder s"
  using assms by (auto simp: lock_ok_def holder_def nth_list_update split: option.splits)

text \<open>A caller takes the mutex, or gives it back.\<close>

lemma caller_locks:
  assumes "lock_ok s" "i < length (es_callers s)" "asyn_mutex (es_st s) = None" "inside c" "asyn_mutex st = Some i"
  shows "lock_ok (caller_moves s i c st qs)" "holder (caller_moves s i c st qs) = c"
  using assms by (auto simp: lock_ok_def holder_def nth_list_update)

lemma caller_unlocks:
  assumes "lock_ok s" "i < length (es_callers s)" "inside (es_callers s ! i)" "\<not> inside c" "asyn_mutex st = None"
  shows "lock_ok (caller_moves s i c st qs)" "holder (caller_moves s i c st qs) = CReturned 0"
  using assms lock_ok_holder(1)[OF assms(1-3)] by (auto simp: lock_ok_def holder_def nth_list_update)

lemma slots_ok_snoc:
  assumes "slots_ok rs qs lo" "slots_filled (rs ! (length qs mod 10))" "e = slot_entry (rs ! (length qs mod 10))"
  shows "slots_ok rs (qs @ [e]) lo"
  using assms by (auto simp: slots_ok_def nth_append less_Suc_eq)

lemma caller_keeps:
  assumes inv: "ring_inv s S R K" and i: "i < length (es_callers s)"
    and step: "es_caller_step (\<lambda>_. True) i (es_callers s ! i) (es_st s) = Some (c, st, qs)"
  shows "ring_inv (caller_moves s i c st qs) S R K"
proof -
  have lock: "lock_ok s" using inv by (simp add: ring_inv_def)
  note ins = caller_inside[OF lock i] and out = caller_outside[OF lock i] and hold = lock_ok_holder[OF lock i]
  show ?thesis
  proof (cases "es_callers s ! i")
    case (CQuery req call)
    then have "\<not> inside c" "st = es_st s" "qs = []" using step by (auto split: if_splits)
    then show ?thesis using inv out[of c st qs] CQuery by (simp add: ring_inv_def counts_ok_def)
  next
    case (CLock req call)
    then have r: "asyn_mutex (es_st s) = None" "c = CWait req call" "st = (es_st s)\<lparr>asyn_mutex := Some i\<rparr>" "qs = []"
      using step by (auto simp: lock_asyn_def split: if_splits)
    then show ?thesis using inv caller_locks[OF lock i r(1), of c st qs] by (simp add: ring_inv_def counts_ok_def holder_def)
  next
    case (CWait req call)
    then obtain n where r: "free_num (es_st s) = Suc n" "c = CTake req call" "st = (es_st s)\<lparr>free_num := n\<rparr>" "qs = []"
      using step by (auto simp: wait_Some)
    then show ?thesis using inv ins[of c st qs] hold CWait by (simp add: ring_inv_def counts_ok_def)
  next
    case (CTake req call)
    have h: "holder s = CTake req call" using hold CTake by simp
    have idx: "insert_index (es_st s) = int (length (es_queued s) mod 10)" using inv h by (simp add: ring_inv_def counts_ok_def)
    then have r: "c = CFill (length (es_queued s) mod 10) req call" "qs = []"
      "st = (es_st s)\<lparr>insert_index := int (Suc (length (es_queued s)) mod 10)\<rparr>"
      using step CTake by (auto simp: take_insert_def)
    then show ?thesis using inv ins[of c st qs] h CTake by (simp add: ring_inv_def counts_ok_def)
  next
    case (CFill j req call)
    then have h: "holder s = CFill j req call" using hold by simp
    show ?thesis
    proof (cases "fill_slot (\<lambda>_. True) (es_st s) req call (es_res_array (es_st s) ! j)")
      case None
      then have "c = CFault" "st = es_st s" "qs = []" using step CFill by auto
      then show ?thesis using inv ins[of c st qs] h CFill by (simp add: ring_inv_def counts_ok_def)
    next
      case (Some r)
      then obtain res where res: "slots_filled res" "c = CReady j" "st = upd_slot j (\<lambda>_. res) (es_st s)" "qs = []"
        using step CFill es_fill_slot_ok by (cases r) fastforce
      have q: "j = length (es_queued s) mod 10" "length (es_queued s) < K - k_hold (es_callback_th s) + 10" "j < 11"
        using inv h by (auto simp: ring_inv_def counts_ok_def)
      then have "j \<noteq> k mod 10" if "K - k_hold (es_callback_th s) \<le> k" "k < length (es_queued s)" for k
        using mod_ten_differ[of k "length (es_queued s)"] that by auto
      then have "slots_ok ((es_res_array (es_st s))[j := res]) (es_queued s) (K - k_hold (es_callback_th s))"
        using inv by (intro slots_ok_other) (auto simp: ring_inv_def)
      then show ?thesis using inv ins[of c st qs] h CFill res q(1,3) by (simp add: ring_inv_def counts_ok_def upd_slot_def)
    qed
  next
    case (CReady j)
    then have r: "c = CPost j" "st = upd_slot j (\<lambda>r. r\<lparr>sta_f := 1\<rparr>) (es_st s)" "qs = []" using step by auto
    have "slots_filled (es_res_array (es_st s) ! (length (es_queued s) mod 10))" using inv hold CReady by (auto simp: ring_inv_def)
    then show ?thesis using inv ins[of c st qs] hold CReady r
      by (simp add: ring_inv_def counts_ok_def upd_slot_def slots_ok_upd nth_upd_same[of slots_filled])
  next
    case (CPost j)
    then have r: "c = CUnlock 0" "st = (es_st s)\<lparr>send_num := send_num (es_st s) + 1\<rparr>" "qs = [slot_entry (es_res_array (es_st s) ! j)]"
      using step by auto
    have "slots_filled (es_res_array (es_st s) ! (length (es_queued s) mod 10))" using inv hold CPost by (auto simp: ring_inv_def)
    then show ?thesis using inv ins[of c st qs] hold CPost r
      by (simp add: ring_inv_def counts_ok_def slots_ok_snoc)
  next
    case (CUnlock r)
    then have r: "c = CReturned r" "st = (es_st s)\<lparr>asyn_mutex := None\<rparr>" "qs = []" using step by auto
    then show ?thesis using inv caller_unlocks[OF lock i, of c st qs] hold CUnlock
      by (simp add: ring_inv_def counts_ok_def)
  qed (use inv step hold in \<open>auto simp: ring_inv_def\<close>)
qed

subsection \<open>All reachable states\<close>

lemma takeWhile_all [simp]: "takeWhile (\<lambda>_. True) xs = xs"
  by (induction xs) auto

lemma ring_start:
  assumes "length (cstr ip) < 16"
  shows "ring_inv (es_start ip port reqs) 0 0 0"
  using assms
  by (auto simp: ring_inv_def es_start_def es_server_init_def zero_info_def lock_ok_def holder_def counts_ok_def slots_ok_def
      ES_RESPOND_ARRAY_ALL_LEN_def ES_RESPOND_ARRAY_LEN_def List.map_filter_def Let_def split: prod.splits)

lemma ring_reach:
  assumes "(es_step {\<lambda>_. True})\<^sup>*\<^sup>* (es_start ip port reqs) s" and "length (cstr ip) < 16"
  shows "\<exists>S R K. ring_inv s S R K"
  using assms(1)
proof (induction rule: rtranclp_induct)
  case base
  then show ?case using ring_start[OF assms(2)] by blast
next
  case (step s s')
  from step(2) show ?case
  proof (cases rule: es_step.cases)
    case (caller i alloc c st qs)
    then show ?thesis using step.IH caller_keeps by (metis singletonD)
  qed (use step.IH sender_keeps receiver_keeps callback_keeps in metis)+
qed


text \<open>The slots the threads work on, but for the late write of the status by the sender.\<close>

fun caller_slots :: "es_caller \<Rightarrow> nat list" where
  "caller_slots (CFill i _ _) = [i]"
| "caller_slots (CReady i) = [i]"
| "caller_slots (CPost i) = [i]"
| "caller_slots (CUndo i) = [i]"
| "caller_slots _ = []"

fun sender_slots :: "es_sender \<Rightarrow> nat list" where
  "sender_slots (SSend i) = [i]"
| "sender_slots (SPost i) = [i]"
| "sender_slots _ = []"

fun receiver_slots :: "es_receiver \<Rightarrow> nat list" where
  "receiver_slots (RRecv i) = [i]"
| "receiver_slots (RDone i) = [i]"
| "receiver_slots (RPost i) = [i]"
| "receiver_slots _ = []"

fun callback_slots :: "es_callback \<Rightarrow> nat list" where
  "callback_slots (KCall i) = [i]"
| "callback_slots (KRelease i) = [i]"
| "callback_slots _ = []"

definition held_slots :: "es_system \<Rightarrow> nat list" where
  "held_slots s = concat (map caller_slots (es_callers s)) @ sender_slots (es_sender_th s) @
     receiver_slots (es_receiver_th s) @ callback_slots (es_callback_th s)"

lemma caller_slots_inside: "\<not> inside c \<Longrightarrow> caller_slots c = []"
  by (cases c) auto

lemma caller_slots_holder:
  assumes "lock_ok s"
  shows "concat (map caller_slots (es_callers s)) = caller_slots (holder s)"
proof (cases "asyn_mutex (es_st s)")
  case None
  then have "\<forall>c \<in> set (es_callers s). caller_slots c = []"
    using assms caller_slots_inside by (auto simp: lock_ok_def in_set_conv_nth)
  then show ?thesis using None by (simp add: holder_def)
next
  case (Some j)
  then have j: "j < length (es_callers s)" using assms by (auto simp: lock_ok_def)
  have other: "caller_slots (es_callers s ! i) = []" if "i < length (es_callers s)" "i \<noteq> j" for i
    using assms that Some caller_slots_inside by (fastforce simp: lock_ok_def)
  have "concat (map caller_slots (take j (es_callers s))) = []" "concat (map caller_slots (drop (Suc j) (es_callers s))) = []"
    using other by (auto simp: in_set_conv_nth)
  moreover have "es_callers s = take j (es_callers s) @ es_callers s ! j # drop (Suc j) (es_callers s)"
    using j by (rule id_take_nth_drop)
  ultimately have "concat (map caller_slots (es_callers s)) = caller_slots (es_callers s ! j)"
    by (metis append.right_neutral append_Nil concat.simps(2) concat_append list.simps(9) map_append)
  then show ?thesis using Some by (simp add: holder_def)
qed

text \<open>The slots come from different positions of the run, and those positions lie within ten of each other.\<close>

lemma positions:
  fixes q S R K :: nat
  assumes "cl = [] \<or> cl = [q mod 10] \<and> cw = 1" "sl = [] \<or> sl = [(S - 1) mod 10] \<and> sh = 1"
    "rl = [] \<or> rl = [(R - 1) mod 10] \<and> rh = 1" "kl = [] \<or> kl = [(K - 1) mod 10] \<and> kh = 1"
    and "S \<le> q" "R + sh \<le> S" "K + rh \<le> R" "kh \<le> K" "cw + q + kh \<le> K + 10"
  shows "\<exists>ps. cl @ sl @ rl @ kl = map (\<lambda>p. p mod 10) ps \<and> distinct ps \<and> set ps \<subseteq> {K - kh..<K - kh + 10}"
proof -
  let ?ps = "(if cl = [] then [] else [q]) @ (if sl = [] then [] else [S - 1]) @ (if rl = [] then [] else [R - 1]) @ (if kl = [] then [] else [K - 1])"
  have "cl @ sl @ rl @ kl = map (\<lambda>p. p mod 10) ?ps" using assms(1-4) by auto
  moreover have "distinct ?ps" using assms by auto
  moreover have "set ?ps \<subseteq> {K - kh..<K - kh + 10}" using assms by auto
  ultimately show ?thesis by blast
qed

lemma distinct_mod_ten: "distinct ps \<Longrightarrow> set ps \<subseteq> {lo..<lo + 10} \<Longrightarrow> distinct (map (\<lambda>p. p mod 10) (ps :: nat list))"
proof -
  assume "distinct ps" and ps: "set ps \<subseteq> {lo..<lo + 10}"
  moreover have "inj_on (\<lambda>p. p mod 10) {lo..<lo + 10}" by (rule linorder_inj_onI) (auto dest: mod_ten_differ)
  ultimately show ?thesis by (auto simp: distinct_map intro: inj_on_subset)
qed


end
