(* ===== verification/Es_Race.thy ===== *)
theory Es_Race
  imports Es_Ring_Inv
begin

text \<open>
  What the ring of \<^verbatim>\<open>es_http_api.c\<close> does not keep: the status of a slot, and the insertion index when an allocation
  fails. The runs that show it are evaluated.
\<close>

section \<open>A run\<close>

definition sample_request :: ES_REQUEST where
  "sample_request = \<lparr>path_str = Some ''/i/_search'', query_str = None, body_str = Some ''{}'', verb_f = POST_METHOD\<rparr>"

text \<open>
  One caller queues a request, the sender sends it and posts, and the receiver and the callback thread finish it
  before the sender writes the status.
\<close>

definition sample_schedule :: "es_turn list" where
  "sample_schedule = replicate 8 (TCaller 0 (\<lambda>_. True)) @ replicate 4 (TSender [204] 0) @
     replicate 5 (TReceiver (Analysed 0 zero_respond)) @ replicate 5 TCallback"

definition sample_start :: es_system where
  "sample_start = es_start ''10.0.0.1'' 80 [(sample_request, Some 7)]"

definition sample_view :: "es_system \<Rightarrow> nat list \<times> nat \<times> int \<times> bool" where
  "sample_view s = (es_called s, free_num (es_st s), sta_f (es_res_array (es_st s) ! 0), call_f (es_res_array (es_st s) ! 0) = None)"

lemma sample_run: "map_option sample_view (es_run sample_schedule sample_start) = Some ([7], 10, 0, True)"
  by code_simp

lemma sample_run_late: "map_option sample_view (es_run (sample_schedule @ [TSender [] 0]) sample_start) = Some ([7], 10, 2, True)"
  by code_simp

lemma sample_reach:
  obtains s where "(es_step {\<lambda>_. True})\<^sup>*\<^sup>* sample_start s" "es_called s = [7]" "free_num (es_st s) = 10" "sta_f (es_res_array (es_st s) ! 0) = 2"
proof -
  obtain s where s: "es_run (sample_schedule @ [TSender [] 0]) sample_start = Some s" "sample_view s = ([7], 10, 2, True)"
    using sample_run_late by auto
  have "list_all (turn_in {\<lambda>_. True}) (sample_schedule @ [TSender [] 0])" by (simp add: sample_schedule_def list_all_iff)
  then show ?thesis using that es_run_reach[OF s(1)] s(2) by (auto simp: sample_view_def)
qed



section \<open>The status\<close>

text \<open>
  \<^verbatim>\<open>es_server_send\<close> posts \<^verbatim>\<open>recv_num\<close> before it writes the status: there is a run in which the request has been answered,
  called back and released, all ten slots are free again, and the slot of the request has the status 2.
\<close>

lemma es_status_goes_stale:
  "\<exists>s. (es_step {\<lambda>_. True})\<^sup>*\<^sup>* sample_start s \<and> es_called s = [7] \<and> free_num (es_st s) = 10 \<and> sta_f (es_res_array (es_st s) ! 0) = 2"
  by (rule sample_reach) blast

section \<open>A failed allocation\<close>

text \<open>The function as a whole is a caller that runs alone.\<close>

inductive caller_alone :: "(nat \<Rightarrow> bool) \<Rightarrow> nat \<Rightarrow> es_caller \<Rightarrow> ES_SERVER_INFO \<Rightarrow> es_caller \<Rightarrow> ES_SERVER_INFO \<Rightarrow> bool" for alloc me where
  stop: "caller_alone alloc me c st c st"
| move: "es_caller_step alloc me c st = Some (c', st', qs) \<Longrightarrow> caller_alone alloc me c' st' c'' st'' \<Longrightarrow> caller_alone alloc me c st c'' st''"

lemma caller_filled:
  assumes "fill_slot alloc st req call (es_res_array st ! i) = Some (ok, res)" and "st3 = upd_slot i (\<lambda>_. res) st"
  shows "caller_alone alloc me (CFill i req call) st (CReturned (if ok then 0 else - 1))
    (if ok then (upd_slot i (\<lambda>r. r\<lparr>sta_f := 1\<rparr>) st3)\<lparr>send_num := send_num st3 + 1, asyn_mutex := None\<rparr>
     else (upd_slot i reset_slot st3)\<lparr>insert_index := insert_index st3 - 1, free_num := free_num st3 + 1, asyn_mutex := None\<rparr>)"
proof (cases ok)
  case True
  have "caller_alone alloc me (CReady i) st3 (CReturned 0)
      ((upd_slot i (\<lambda>r. r\<lparr>sta_f := 1\<rparr>) st3)\<lparr>send_num := send_num st3 + 1, asyn_mutex := None\<rparr>)"
    by (rule caller_alone.move, simp, rule caller_alone.move, simp, rule caller_alone.move, simp, simp add: upd_slot_def caller_alone.stop)
  then show ?thesis using True assms by (auto intro: caller_alone.move)
next
  case False
  have "caller_alone alloc me (CUndo i) st3 (CReturned (- 1))
      ((upd_slot i reset_slot st3)\<lparr>insert_index := insert_index st3 - 1, free_num := free_num st3 + 1, asyn_mutex := None\<rparr>)"
    by (rule caller_alone.move, simp, rule caller_alone.move, simp, rule caller_alone.move, simp, simp add: upd_slot_def caller_alone.stop)
  then show ?thesis using False assms by (auto intro: caller_alone.move)
qed

lemma es_query_asynchronous_alone:
  assumes "es_query_asynchronous alloc me req call st = Some (r, st')"
  shows "caller_alone alloc me (CQuery req call) st (CReturned r) st'"
proof (cases "path_str req = None \<or> \<not> is_run st")
  case True
  then show ?thesis using assms by (intro caller_alone.move[OF _ caller_alone.stop]) (auto simp: es_query_asynchronous_def split: if_splits)
next
  case False
  then obtain st1 index st2 where l: "lock_asyn me st = Some st1" "get_insert_index st1 = Some (index, st2)"
    using assms by (auto simp: es_query_asynchronous_def split: bind_splits)
  then obtain st2' where w: "wait_free st1 = Some st2'" "take_insert st2' = (index, st2)" by (auto simp: get_insert_index_def)
  have "caller_alone alloc me (if index < 0 then CReturned (- 2) else CFill (nat index) req call) st2 (CReturned r) st'"
  proof (cases "index < 0")
    case True
    then have "r = - 2" "st' = st2" using assms False l by (auto simp: es_query_asynchronous_def)
    then show ?thesis using True by (simp add: caller_alone.stop)
  next
    case i: False
    then obtain ok res where f: "fill_slot alloc st2 req call (es_res_array st2 ! nat index) = Some (ok, res)"
      using assms False l by (auto simp: es_query_asynchronous_def split: bind_splits)
    show ?thesis using caller_filled[OF f refl, of me] assms False l i f by (cases ok) (auto simp: es_query_asynchronous_def Let_def)
  qed
  then show ?thesis using False l w
    by (auto intro!: caller_alone.move[of _ _ "CQuery req call"] caller_alone.move[of _ _ "CLock req call"]
      caller_alone.move[of _ _ "CWait req call"] caller_alone.move[of _ _ "CTake req call"])
qed

text \<open>
  C28. \<^verbatim>\<open>es_query_asynchronous\<close> takes the insertion index back with a plain decrement when an allocation fails. For the last
  slot of the ring it then is -1: the next call returns -2 without giving the mutex back, and every call after
  that waits for ever.
\<close>

theorem es_alloc_failure_locks_out:
  assumes "insert_index st = 9" "is_run st" "asyn_mutex st = None" "free_num st > 0" "length (es_res_array st) = 11"
    and "mem_f (es_res_array st ! 9) = Some m" "\<not> alloc (allocs m)" "path_str req \<noteq> None" "path_str req' \<noteq> None" "path_str req'' \<noteq> None"
  shows "\<exists>st1 st2. es_query_asynchronous alloc me req call st = Some (- 1, st1) \<and> insert_index st1 = - 1 \<and>
    es_query_asynchronous alloc' me' req' call' st1 = Some (- 2, st2) \<and> asyn_mutex st2 = Some me' \<and>
    es_query_asynchronous alloc'' me'' req'' call'' st2 = None"
  using assms
  by (simp add: es_query_asynchronous_def lock_asyn_def get_insert_index_def wait_free_def take_insert_def ring_next_def
      ES_RESPOND_ARRAY_LEN_def fill_slot_def es_alloc_def upd_slot_def Let_def)

definition full_turn :: ES_SERVER_INFO where
  "full_turn = (es_st sample_start)\<lparr>insert_index := 9\<rparr>"

theorem es_alloc_failure_locks_out_witness:
  "\<exists>st1 st2. es_query_asynchronous (\<lambda>_. False) 0 sample_request None full_turn = Some (- 1, st1) \<and> insert_index st1 = - 1 \<and>
    es_query_asynchronous (\<lambda>_. True) 1 sample_request None st1 = Some (- 2, st2) \<and> asyn_mutex st2 = Some 1 \<and>
    es_query_asynchronous (\<lambda>_. True) 2 sample_request None st2 = None"
proof (rule es_alloc_failure_locks_out)
  show "insert_index full_turn = 9" "is_run full_turn" "asyn_mutex full_turn = None" "free_num full_turn > 0" "length (es_res_array full_turn) = 11"
    by code_simp+
  show "mem_f (es_res_array full_turn ! 9) = Some empty_es_mem"
    by (simp add: full_turn_def sample_start_def es_start_def es_server_init_def zero_info_def ES_RESPOND_ARRAY_ALL_LEN_def ES_RESPOND_ARRAY_LEN_def
        Let_def)
qed (simp_all add: sample_request_def)

end
