(* ===== verification/Es_Json.thy ===== *)
theory Es_Json
  imports Es_Head
begin

text \<open>
  The body of an answer: \<^verbatim>\<open>analysis_http_json_str\<close> of \<^verbatim>\<open>module_function/es_http_api.c\<close>, which collects a message in pieces or
  takes the objects of a search result from the text, and \<^verbatim>\<open>analysis_es_recv_str\<close>, which begins with the head where
  there is none yet.

  Positions are offsets in the text. The memory of a message comes from the pool as it is: \<open>fresh\<close> are the bytes that
  were in it. \<open>room\<close> is what the array has from the beginning of the text on; a copy from beyond it is undefined.
\<close>

section \<open>Searching from a position\<close>

definition find_char :: "string \<Rightarrow> char \<Rightarrow> nat \<Rightarrow> nat option" where
  "find_char str c p = map_option ((+) p) (framestr_frist_constchar (Some (drop p str)) c)"

definition find_str :: "string \<Rightarrow> string \<Rightarrow> nat \<Rightarrow> nat option" where
  "find_str str t p = map_option ((+) p) (framestr_first_conststr (Some (drop p str)) t)"

definition digit_start :: "string \<Rightarrow> nat \<Rightarrow> nat" where
  "digit_start str p = p + the (framestr_start_digital_char (Some (drop p str)))"

definition digit_end :: "string \<Rightarrow> nat \<Rightarrow> nat" where
  "digit_end str p = p + the (framestr_end_digital_char (Some (drop p str)))"

text \<open>\<open>if(q && q < p)\<close>, for a pointer that was searched.\<close>

definition before :: "nat option \<Rightarrow> nat \<Rightarrow> bool" where
  "before q p \<longleftrightarrow> (case q of None \<Rightarrow> False | Some i \<Rightarrow> i < p)"

section \<open>Values\<close>

text \<open>The text between the quote at \<open>left\<close> and the next one, if that comes before \<open>stop\<close>.\<close>

definition quoted :: "(nat \<Rightarrow> bool) \<Rightarrow> string \<Rightarrow> nat \<Rightarrow> nat \<Rightarrow> es_mem \<Rightarrow> string option option \<times> es_mem" where
  "quoted alloc str left stop m =
     (case find_char str (CHR 0x22) (left + 1) of
        None \<Rightarrow> (Some None, m)
      | Some right \<Rightarrow> if right < stop then copy_str alloc (slice str (left + 1) right) m else (Some None, m))"

text \<open>The digits behind the colon.\<close>

definition digits :: "(nat \<Rightarrow> bool) \<Rightarrow> string \<Rightarrow> nat \<Rightarrow> nat \<Rightarrow> es_mem \<Rightarrow> string option option \<times> es_mem" where
  "digits alloc str colon comma m =
     (let left = digit_start str colon; right = digit_end str left in
      if left < comma \<and> right \<le> comma then copy_str alloc (slice str left right) m else (Some None, m))"

text \<open>
  One of \<^verbatim>\<open>_index\<close>, \<^verbatim>\<open>_type\<close> and \<^verbatim>\<open>_id\<close>, searched from \<open>p\<close> and used only before the brace at \<open>lb\<close>. The second component is where the
  search for the next one begins.
\<close>

definition object_attr ::
  "(nat \<Rightarrow> bool) \<Rightarrow> string \<Rightarrow> string \<Rightarrow> nat option \<Rightarrow> nat \<Rightarrow> es_mem \<Rightarrow> string option option \<times> nat option \<times> es_mem" where
  "object_attr alloc str name p lb m =
     (case Option.bind p (find_str str name) of
        None \<Rightarrow> (Some None, None, m)
      | Some p' \<Rightarrow>
          if p' < lb
          then let comma = (case find_char str (CHR '','') p' of None \<Rightarrow> lb | Some c \<Rightarrow> if c > lb then lb else c);
                   (v, m') =
                     (case find_char str (CHR '':'') p' of
                        None \<Rightarrow> (Some None, m)
                      | Some colon \<Rightarrow>
                          if colon < comma
                          then (case find_char str (CHR 0x22) colon of
                                  None \<Rightarrow> digits alloc str colon comma m
                                | Some left \<Rightarrow> if left > comma then digits alloc str colon comma m
                                                else quoted alloc str left comma m)
                          else (Some None, m))
               in (v, Some (comma + 1), m')
          else (Some None, Some p', m))"

text \<open>A key and a value between \<open>p\<close> and \<open>comma\<close>, with the colon between them; \<open>None\<close> is a failed allocation.\<close>

definition member_node ::
  "(nat \<Rightarrow> bool) \<Rightarrow> string \<Rightarrow> nat \<Rightarrow> nat \<Rightarrow> nat \<Rightarrow> es_mem \<Rightarrow> (nat \<times> KEY_VALUE_NODE) option \<times> es_mem" where
  "member_node alloc str p colon comma m =
     (case es_alloc alloc m of
        (None, m1) \<Rightarrow> (None, m1)
      | (Some x, m1) \<Rightarrow>
          (case (case find_char str (CHR 0x22) p of
                   None \<Rightarrow> (Some None, m1)
                 | Some left \<Rightarrow> if left < colon then quoted alloc str left colon m1 else (Some None, m1)) of
             (None, m2) \<Rightarrow> (None, m2)
           | (Some key, m2) \<Rightarrow>
               (case (case find_char str (CHR 0x22) colon of
                        None \<Rightarrow> digits alloc str colon comma m2
                      | Some left \<Rightarrow> if left < comma then quoted alloc str left comma m2 else digits alloc str colon comma m2) of
                  (None, m3) \<Rightarrow> (None, m3)
                | (Some val, m3) \<Rightarrow> (Some (x, \<lparr>key_f = key, value_f = val, next_f = None\<rparr>), m3))))"

lemma find_char_bounds: "find_char str c p = Some q \<Longrightarrow> p \<le> q \<and> q < length str"
  by (auto simp: find_char_def framestr_frist_constchar_def dest!: constchar_loop_length)

text \<open>
  The loop over the members of an object up to \<open>rb\<close>: the pool afterwards, and whether all allocations have
  succeeded. The outer \<open>None\<close> is a broken list.
\<close>

function member_loop :: "(nat \<Rightarrow> bool) \<Rightarrow> string \<Rightarrow> nat \<Rightarrow> nat \<Rightarrow> nat \<Rightarrow> es_mem \<Rightarrow> (bool \<times> es_mem) option" where
  "member_loop alloc str obj rb p m =
     (let (comma, is_obj_end) = (case find_char str (CHR '','') p of
            None \<Rightarrow> (rb, True) | Some c \<Rightarrow> if c > rb then (rb, True) else (c, False));
          colon = find_char str (CHR '':'') p
      in if before colon comma
         then (case member_node alloc str p (the colon) comma m of
                 (None, m') \<Rightarrow> Some (False, m')
               | (Some (x, node), m') \<Rightarrow>
                   (case obj_heap m' obj of
                      None \<Rightarrow> None
                    | Some ob \<Rightarrow> (case add_keyvalue_after_head (obj_head ob) (Some x) ((kv_heap m')(x \<mapsto> node)) of
                        None \<Rightarrow> None
                      | Some (hd', h) \<Rightarrow>
                          let m'' = m'\<lparr>kv_heap := h, obj_heap := (obj_heap m')(obj \<mapsto> ob\<lparr>obj_head := hd'\<rparr>)\<rparr>
                          in if is_obj_end then Some (True, m'') else member_loop alloc str obj rb (comma + 1) m'')))
         else if is_obj_end then Some (True, m) else member_loop alloc str obj rb (comma + 1) m)"
  by pat_completeness auto
termination
  by (relation "measure (\<lambda>(alloc, str, obj, rb, p, m). length str - p)")
    (auto split: option.splits if_splits dest!: find_char_bounds)

declare member_loop.simps [simp del]

section \<open>Objects\<close>

text \<open>How the objects of a piece of text end: a failed allocation, a text of another form, or the position behind the last object. All
  have the search result, the pool, and how far the text has been used up.\<close>

datatype object_result = ObjMalloc ES_SEARCH_RESULT es_mem nat | ObjFormat ES_SEARCH_RESULT es_mem | ObjDone nat ES_SEARCH_RESULT es_mem nat

text \<open>Linking a new object to the result.\<close>

definition link_object :: "nat \<Rightarrow> ES_SEARCH_RESULT \<Rightarrow> obj_nodes \<Rightarrow> (ES_SEARCH_RESULT \<times> obj_nodes) option" where
  "link_object x search h =
     (if shead_f search = None
      then map_option (\<lambda>(hd', h'). (search\<lparr>shead_f := hd', stail_f := Some x\<rparr>, h')) (add_objinfo_after_head (shead_f search) (Some x) h)
      else map_option (\<lambda>(tl', h'). (search\<lparr>stail_f := tl'\<rparr>, h')) (add_objinfo_after_tail (stail_f search) (Some x) h))"

text \<open>
  One object between the braces at \<open>lb\<close> and \<open>lb2\<close> and the end \<open>rb\<close> of its members. The result says
  whether all allocations have succeeded; the outer \<open>None\<close> is a broken list.
\<close>

definition read_object ::
  "(nat \<Rightarrow> bool) \<Rightarrow> string \<Rightarrow> nat \<Rightarrow> nat \<Rightarrow> nat \<Rightarrow> ES_SEARCH_RESULT \<Rightarrow> es_mem \<Rightarrow> (bool \<times> ES_SEARCH_RESULT \<times> es_mem) option" where
  "read_object alloc str lb lb2 rb search m =
     (case es_alloc alloc m of
        (None, m1) \<Rightarrow> Some (False, search, m1)
      | (Some x, m1) \<Rightarrow> (case object_attr alloc str ''_index'' (Some lb) lb2 m1 of
          (None, _, m2) \<Rightarrow> Some (False, search, m2)
        | (Some idx, p1, m2) \<Rightarrow> (case object_attr alloc str ''_type'' p1 lb2 m2 of
            (None, _, m3) \<Rightarrow> Some (False, search, m3)
          | (Some ty, p2, m3) \<Rightarrow> (case object_attr alloc str ''_id'' p2 lb2 m3 of
              (None, _, m4) \<Rightarrow> Some (False, search, m4)
            | (Some ident, _, m4) \<Rightarrow> do {
                let ob = \<lparr>obj_index = idx, obj_type = ty, obj_id = ident, obj_head = None, obj_next = None\<rparr>;
                (search', h) \<leftarrow> link_object x search ((obj_heap m4)(x \<mapsto> ob));
                (ok, m5) \<leftarrow> member_loop alloc str x rb lb2 (m4\<lparr>obj_heap := h\<rparr>);
                Some (ok, search', m5)
              }))))"

text \<open>
  The loop over the objects from position \<open>q\<close>. \<open>next\<close> is where the next answer begins, and \<open>used\<close> how far the text has been used
  up so far.
\<close>

function object_loop ::
  "(nat \<Rightarrow> bool) \<Rightarrow> string \<Rightarrow> nat option \<Rightarrow> nat \<Rightarrow> nat \<Rightarrow> ES_SEARCH_RESULT \<Rightarrow> es_mem \<Rightarrow> object_result option" where
  "object_loop alloc str next q used search m =
     (case find_char str (CHR ''{'') q of
        None \<Rightarrow> Some (ObjDone q search m used)
      | Some lb \<Rightarrow>
          if before next lb then Some (ObjDone q search m used)
          else (case find_char str (CHR ''}'') lb of
            None \<Rightarrow> Some (ObjDone q search m used)
          | Some rb \<Rightarrow> (case find_char str (CHR ''}'') (rb + 1) of
              None \<Rightarrow> Some (ObjDone q search m used)
            | Some end_obj \<Rightarrow>
                let lb2 = find_char str (CHR ''{'') (lb + 1) in
                if before lb2 (rb + 1)
                then (case read_object alloc str lb (the lb2) (rb + 1) search m of
                        None \<Rightarrow> None
                      | Some (False, search', m') \<Rightarrow> Some (ObjMalloc search' m' used)
                      | Some (True, search', m') \<Rightarrow> object_loop alloc str next (end_obj + 1) (end_obj + 1) search' m')
                else Some (ObjFormat search m))))"
  by pat_completeness auto
termination
  by (relation "measure (\<lambda>(alloc, str, next, q, used, search, m). length str - q)") (auto dest!: find_char_bounds)

declare object_loop.simps [simp del]

text \<open>The end of both branches that read objects: \<^verbatim>\<open>ret\<close>, and how far the text has been used up.\<close>

definition rest_used :: "string \<Rightarrow> nat option \<Rightarrow> nat" where
  "rest_used str next = (case next of Some p \<Rightarrow> p | None \<Rightarrow> frame_strlen (Some str))"

definition search_objects ::
  "(nat \<Rightarrow> bool) \<Rightarrow> string \<Rightarrow> nat option \<Rightarrow> nat \<Rightarrow> nat \<Rightarrow> ES_SEARCH_RESULT \<Rightarrow> es_mem \<Rightarrow> (int \<times> nat \<times> ES_SEARCH_RESULT \<times> es_mem) option" where
  "search_objects alloc str next q used search m =
     map_option (\<lambda>r. case r of
         ObjMalloc search' m' used' \<Rightarrow> (- 1, used', search', m')
       | ObjFormat search' m' \<Rightarrow> (- 2, rest_used str next, search', m')
       | ObjDone q' search' m' used' \<Rightarrow>
           if find_char str (CHR '']'') q' \<noteq> None then (0, rest_used str next, search', m') else (1, q', search', m'))
       (object_loop alloc str next q used search m)"

section \<open>Messages\<close>

text \<open>More of a message that has begun: the result, how far the text has been used up, and the message.\<close>

definition continue_text :: "string \<Rightarrow> int \<Rightarrow> string \<Rightarrow> (int \<times> nat \<times> string) option" where
  "continue_text str body_len old =
     (let buf_len = frame_strlen (Some str); copy_len = body_len - int (frame_strlen (Some old)); p = frame_end_charstr old in
      if copy_len > int buf_len then Some (1, buf_len, put_bytes old p (slice str 0 buf_len))
      else if copy_len < 0 then None
      else Some (0, nat copy_len, put_bytes old p (slice str 0 (nat copy_len))))"

text \<open>The bytes of the array from a position on, as far as it goes.\<close>

definition array_bytes :: "nat \<Rightarrow> string \<Rightarrow> nat \<Rightarrow> nat \<Rightarrow> string option" where
  "array_bytes room str q n = (if q + n \<le> room then Some (take n (drop q str @ replicate n NUL)) else None)"

text \<open>
  The beginning of a message, where \<open>used\<close> of the text has been used up before. The outer \<open>None\<close> is undefined; the message is \<open>None\<close>
  where the allocation fails, as it does for a negative size.
\<close>

definition begin_text ::
  "(nat \<Rightarrow> bool) \<Rightarrow> string \<Rightarrow> nat \<Rightarrow> string \<Rightarrow> nat \<Rightarrow> nat \<Rightarrow> int \<Rightarrow> es_mem \<Rightarrow> (int \<times> nat \<times> string option \<times> es_mem) option" where
  "begin_text alloc fresh room str q used body_len m =
     (let buf_len = frame_strlen (Some str) in
      case es_alloc (\<lambda>k. alloc k \<and> body_len + 1 \<ge> 0) m of
        (None, m') \<Rightarrow> Some (- 1, used, None, m')
      | (Some _, m') \<Rightarrow>
          if int buf_len > body_len
          then (if body_len < 0 then None
                else map_option (\<lambda>bs. (0, nat body_len, Some (put_bytes fresh 0 bs), m')) (array_bytes room str q (nat body_len)))
          else map_option (\<lambda>bs. (1, buf_len, Some (put_bytes fresh 0 bs), m')) (array_bytes room str q buf_len))"

section \<open>The body\<close>

text \<open>
  The search for \<^verbatim>\<open>hits\<close> and \<^verbatim>\<open>total\<close> in a new answer: a failed allocation, no objects yet (with the position that has been reached,
  what is used up, and the search result if there is one), or objects from a position on. \<^verbatim>\<open>tmp_char\<close> has 32 bytes.
\<close>

datatype hits_result = HitsMalloc es_mem | NoHits nat nat "ES_SEARCH_RESULT option" es_mem | Hits nat nat ES_SEARCH_RESULT es_mem

definition find_total :: "(nat \<Rightarrow> bool) \<Rightarrow> string \<Rightarrow> nat \<Rightarrow> es_mem \<Rightarrow> hits_result option" where
  "find_total alloc str colon m =
     (let p = digit_start str colon; q = digit_end str p in
      case es_alloc alloc m of
        (None, m') \<Rightarrow> Some (HitsMalloc m')
      | (Some _, m') \<Rightarrow> do {
          total \<leftarrow> (if q - p > 0 then (if q - p \<ge> 32 then None else atoi (slice str p q)) else Some 0);
          let search = \<lparr>total_f = total, shead_f = None, stail_f = None\<rparr>;
          Some (case find_str str ''hits'' q of
                  None \<Rightarrow> NoHits q p (Some search) m'
                | Some h \<Rightarrow> Hits (h + 4) p search m')
        })"

definition find_hits :: "(nat \<Rightarrow> bool) \<Rightarrow> string \<Rightarrow> es_mem \<Rightarrow> hits_result option" where
  "find_hits alloc str m =
     (case find_char str (CHR ''{'') 0 of
        None \<Rightarrow> Some (NoHits 0 0 None m)
      | Some lb \<Rightarrow> (case find_str str ''hits'' lb of
          None \<Rightarrow> Some (NoHits lb 0 None m)
        | Some h \<Rightarrow> (case find_str str ''total'' (h + 4) of
            None \<Rightarrow> Some (NoHits (h + 4) 0 None m)
          | Some t \<Rightarrow> (case find_char str (CHR '':'') (t + 5) of
              None \<Rightarrow> Some (NoHits (t + 5) 0 None m)
            | Some colon \<Rightarrow> find_total alloc str colon m))))"

text \<open>The last branch: an answer of which nothing has been kept yet.\<close>

definition new_body ::
  "(nat \<Rightarrow> bool) \<Rightarrow> string \<Rightarrow> nat \<Rightarrow> string \<Rightarrow> nat option \<Rightarrow> HTTP_HEAD_INFO \<Rightarrow> ES_RESPOND \<Rightarrow> es_mem \<Rightarrow> (int \<times> nat \<times> ES_RESPOND) option" where
  "new_body alloc fresh room str next http res m =
     (if ret_f http < 200 \<or> ret_f http \<ge> 300
      then map_option (\<lambda>(ret, used, txt, m'). (ret, used, res\<lparr>err_message_f := txt, mem_f := Some m'\<rparr>))
             (begin_text alloc fresh room str 0 0 (body_len_f http) m)
      else if body_len_f http < 90
      then map_option (\<lambda>(ret, used, txt, m'). (ret, used, res\<lparr>message_f := txt, mem_f := Some m'\<rparr>))
             (begin_text alloc fresh room str 0 0 (body_len_f http) m)
      else do {
        hits \<leftarrow> find_hits alloc str m;
        (case hits of
           HitsMalloc m' \<Rightarrow> Some (- 1, 0, res\<lparr>mem_f := Some m'\<rparr>)
         | Hits q used search m' \<Rightarrow>
             map_option (\<lambda>(ret, used', search', m''). (ret, used', res\<lparr>search_f := Some search', mem_f := Some m''\<rparr>))
               (search_objects alloc str next q used search m')
         | NoHits q used search m' \<Rightarrow>
             if frame_strlen (Some str) \<ge> 1024
             then map_option (\<lambda>(ret, used', txt, m''). (ret, used', res\<lparr>search_f := search, message_f := txt, mem_f := Some m''\<rparr>))
                    (begin_text alloc fresh room str q used (body_len_f http) m')
             else Some (1, used, res\<lparr>search_f := search, mem_f := Some m'\<rparr>))
      })"

definition analysis_http_json_str ::
  "(nat \<Rightarrow> bool) \<Rightarrow> string \<Rightarrow> nat \<Rightarrow> string \<Rightarrow> ES_RESPOND \<Rightarrow> int \<Rightarrow> (int \<times> ES_RESPOND \<times> int) option" where
  "analysis_http_json_str alloc fresh room str res bit_move =
     (let next = framestr_first_conststr (Some str) ''HTTP'' in
      map_option (\<lambda>(ret, used, res'). (ret, res', bit_move + int used))
        (case http_f res of
           None \<Rightarrow> Some (- 4, rest_used str next, res)
         | Some http \<Rightarrow>
             (case (message_f res, err_message_f res, search_f res, mem_f res) of
                (Some old, _, _, _) \<Rightarrow>
                  map_option (\<lambda>(ret, used, txt). (ret, used, res\<lparr>message_f := Some txt\<rparr>)) (continue_text str (body_len_f http) old)
              | (None, Some old, _, _) \<Rightarrow>
                  map_option (\<lambda>(ret, used, txt). (ret, used, res\<lparr>err_message_f := Some txt\<rparr>)) (continue_text str (body_len_f http) old)
              | (None, None, Some search, Some m) \<Rightarrow>
                  map_option (\<lambda>(ret, used, search', m'). (ret, used, res\<lparr>search_f := Some search', mem_f := Some m'\<rparr>))
                    (search_objects alloc str next 0 0 search m)
              | (None, None, None, Some m) \<Rightarrow> new_body alloc fresh room str next http res m
              | (None, None, _, None) \<Rightarrow> None)))"

text \<open>
  \<^verbatim>\<open>analysis_es_recv_str\<close>. A head is read from the first \<^verbatim>\<open>HTTP\<close> on, but what follows it is taken at its length from the beginning
  of the buffer.
\<close>

definition analysis_es_recv_str ::
  "(nat \<Rightarrow> bool) \<Rightarrow> string \<Rightarrow> nat \<Rightarrow> string \<Rightarrow> ES_RESPOND \<Rightarrow> (int \<times> ES_RESPOND \<times> int) option" where
  "analysis_es_recv_str alloc fresh room buf res =
     (case framestr_first_conststr (Some buf) ''HTTP'' of
        None \<Rightarrow> analysis_http_json_str alloc fresh room buf res 0
      | Some p \<Rightarrow>
          if http_f res = None
          then do {
            (ret, res', move) \<leftarrow> analysis_http_head_str alloc (drop p buf) res 0;
            if ret \<noteq> 0 then Some (ret, res', move)
            else analysis_http_json_str alloc fresh (room - nat move) (drop (nat move) buf) res' move
          }
          else analysis_http_json_str alloc fresh room buf res 0)"

section \<open>How far the text is used up\<close>

text \<open>Every position that is found lies in the text.\<close>

lemma find_char_le: "find_char str c p = Some q \<Longrightarrow> p \<le> length (cstr str) \<Longrightarrow> p \<le> q \<and> q < length (cstr str)"
  by (auto simp: find_char_def framestr_frist_constchar_eq cstr_drop dest!: first_index_SomeD)

lemma first_conststr_le: "cstr t \<noteq> [] \<Longrightarrow> framestr_first_conststr (Some s) t = Some d \<Longrightarrow> d + length (cstr t) \<le> length (cstr s)"
  by (auto simp: framestr_first_conststr_def conststr_loop_eq dest!: find_sub_length split: if_splits)

lemma find_str_le: "cstr t \<noteq> [] \<Longrightarrow> find_str str t p = Some q \<Longrightarrow> p \<le> length (cstr str) \<Longrightarrow> p \<le> q \<and> q + length (cstr t) \<le> length (cstr str)"
  by (auto simp: find_str_def cstr_drop dest!: first_conststr_le)

lemma start_digital_le: "start_digital_loop s \<le> length (cstr s)"
  by (induction s) auto

lemma end_digital_le: "end_digital_loop s \<le> length (cstr s)"
  by (induction s) auto

lemma digit_le:
  assumes "p \<le> length (cstr str)"
  shows "digit_start str p \<le> length (cstr str)" "digit_end str p \<le> length (cstr str)"
  using start_digital_le[of "drop p str"] end_digital_le[of "drop p str"] assms
  by (auto simp: digit_start_def digit_end_def framestr_start_digital_char_def framestr_end_digital_char_def cstr_drop)

lemma rest_used_le: "rest_used str (framestr_first_conststr (Some str) ''HTTP'') \<le> length (cstr str)"
  using first_conststr_le[of "''HTTP''" str] by (fastforce simp: rest_used_def split: option.splits)

lemma object_end_le:
  assumes "find_char str a q = Some lb" "find_char str b lb = Some rb" "find_char str c (rb + 1) = Some e" "q \<le> length (cstr str)"
  shows "e + 1 \<le> length (cstr str)"
proof -
  have "lb < length (cstr str)" using find_char_le[OF assms(1,4)] by simp
  then have "rb < length (cstr str)" using find_char_le[OF assms(2)] by simp
  then show ?thesis using find_char_le[OF assms(3)] by simp
qed

lemma object_loop_le:
  assumes "object_loop alloc str next q used search m = Some r" "q \<le> length (cstr str)" "used \<le> length (cstr str)"
  shows "case r of ObjMalloc s' m' u \<Rightarrow> u \<le> length (cstr str) | ObjFormat s' m' \<Rightarrow> True | ObjDone q' s' m' u \<Rightarrow> q' \<le> length (cstr str)"
  using assms
proof (induction alloc str "next" q used search m arbitrary: r rule: object_loop.induct)
  case (1 alloc str "next" q used search m)
  show ?case
  proof (cases "\<exists>lb rb e s' m'. find_char str (CHR ''{'') q = Some lb \<and> \<not> before next lb \<and> find_char str (CHR ''}'') lb = Some rb \<and>
      find_char str (CHR ''}'') (rb + 1) = Some e \<and> before (find_char str (CHR ''{'') (lb + 1)) (rb + 1) \<and>
      read_object alloc str lb (the (find_char str (CHR ''{'') (lb + 1))) (rb + 1) search m = Some (True, s', m')")
    case True
    then obtain lb rb e s' m' where c: "find_char str (CHR ''{'') q = Some lb" "\<not> before next lb" "find_char str (CHR ''}'') lb = Some rb"
      "find_char str (CHR ''}'') (rb + 1) = Some e" "before (find_char str (CHR ''{'') (lb + 1)) (rb + 1)"
      "read_object alloc str lb (the (find_char str (CHR ''{'') (lb + 1))) (rb + 1) search m = Some (True, s', m')" by blast
    have "object_loop alloc str next (e + 1) (e + 1) s' m' = Some r"
      using 1(2) c by (subst (asm) object_loop.simps) simp
    then show ?thesis using 1(1)[OF c(1-4) refl c(5,6)] object_end_le[OF c(1,3,4) 1(3)] by simp
  next
    case False
    then show ?thesis using 1(2-4) by (subst (asm) object_loop.simps) (auto simp: Let_def split: option.splits if_splits bool.splits)
  qed
qed

lemma search_objects_le:
  assumes "search_objects alloc str (framestr_first_conststr (Some str) ''HTTP'') q used search m = Some (ret, u, s', m')"
    "q \<le> length (cstr str)" "used \<le> length (cstr str)"
  shows "u \<le> length (cstr str)"
proof -
  obtain r where r: "object_loop alloc str (framestr_first_conststr (Some str) ''HTTP'') q used search m = Some r"
    using assms(1) by (auto simp: search_objects_def)
  show ?thesis using assms(1) r rest_used_le[of str] object_loop_le[OF r assms(2,3)]
    by (cases r) (auto simp: search_objects_def split: if_splits)
qed

lemma begin_text_le:
  "begin_text alloc fresh room str q used n m = Some (ret, u, txt, m') \<Longrightarrow> used \<le> length (cstr str) \<Longrightarrow> u \<le> length (cstr str)"
  by (auto simp: begin_text_def Let_def es_alloc_def split: option.splits if_splits)

lemma find_hits_le:
  assumes "find_hits alloc str m = Some r"
  shows "case r of HitsMalloc m' \<Rightarrow> True | NoHits q u s' m' \<Rightarrow> u \<le> length (cstr str) | Hits q u s' m' \<Rightarrow> q \<le> length (cstr str) \<and> u \<le> length (cstr str)"
proof (cases "\<exists>colon. colon \<le> length (cstr str) \<and> find_total alloc str colon m = Some r")
  case True
  then obtain colon where c: "colon \<le> length (cstr str)" "find_total alloc str colon m = Some r" by blast
  have p: "digit_start str colon \<le> length (cstr str)" using digit_le c(1) by blast
  then have "digit_end str (digit_start str colon) \<le> length (cstr str)" using digit_le by blast
  then show ?thesis using c(2) p find_str_le[of "''hits''" str]
    by (fastforce simp: find_total_def Let_def split: option.splits if_splits prod.splits bind_splits)
next
  case False
  have "find_total alloc str colon m \<noteq> Some r"
    if "find_char str (CHR ''{'') 0 = Some lb" "find_str str ''hits'' lb = Some h" "find_str str ''total'' (h + 4) = Some t"
      "find_char str (CHR '':'') (t + 5) = Some colon" for lb h t colon
  proof -
    have "lb \<le> length (cstr str)" using find_char_le[OF that(1)] by simp
    then have "h + 4 \<le> length (cstr str)" using find_str_le[OF _ that(2)] by simp
    then have "t + 5 \<le> length (cstr str)" using find_str_le[OF _ that(3)] by simp
    then show ?thesis using find_char_le[OF that(4)] False by auto
  qed
  then show ?thesis using assms by (auto simp: find_hits_def split: option.splits)
qed

lemma continue_text_le: "continue_text str n old = Some (ret, u, txt) \<Longrightarrow> u \<le> length (cstr str)"
  by (auto simp: continue_text_def Let_def split: if_splits)

lemma new_body_le:
  assumes "new_body alloc fresh room str (framestr_first_conststr (Some str) ''HTTP'') http res m = Some (ret, u, res')"
  shows "u \<le> length (cstr str)"
  using assms find_hits_le[of alloc str m]
  by (fastforce simp: new_body_def split: if_splits bind_splits hits_result.splits dest: begin_text_le search_objects_le)

lemma json_used:
  assumes "analysis_http_json_str alloc fresh room str res move = Some (ret, res', move')"
  shows "move \<le> move' \<and> move' \<le> move + int (length (cstr str))"
  using assms rest_used_le[of str]
  by (auto simp: analysis_http_json_str_def Let_def split: option.splits dest: continue_text_le search_objects_le new_body_le)

subsection \<open>The head\<close>

lemma first_crlf_le: "q \<le> length (cstr str) \<Longrightarrow> framestr_first_conststr (Some (drop q str)) crlf = Some d \<Longrightarrow> q + d + 2 \<le> length (cstr str)"
  using first_conststr_le[of crlf "drop q str" d] by (simp add: cstr_drop) (simp add: crlf_def)

lemma header_loop_le:
  assumes "header_loop alloc str q http m = Some r" "q \<le> length (cstr str)"
  shows "case r of Proceed q' http' m' \<Rightarrow> q' \<le> length (cstr str) | _ \<Rightarrow> True"
  using assms
proof (induction alloc str q http m arbitrary: r rule: header_loop.induct)
  case (1 alloc str q http m)
  show ?case
  proof (cases "framestr_first_conststr (Some (drop q str)) crlf")
    case None
    then show ?thesis using 1(2,3) by (auto simp: header_loop.simps[of alloc str q] split: head_result.splits)
  next
    case (Some d)
    note le = first_crlf_le[OF 1(3) Some]
    show ?thesis using 1(2) le Some 1(1)[OF Some]
      by (subst (asm) header_loop.simps) (fastforce split: option.splits if_splits prod.splits)
  qed
qed

text \<open>A step of the head that stays in the text.\<close>

definition stays :: "string \<Rightarrow> head_result \<Rightarrow> bool" where
  "stays str r \<longleftrightarrow> (case r of Proceed q http m \<Rightarrow> q \<le> length (cstr str) | _ \<Rightarrow> True)"

lemma frist_constchar_le:
  "q \<le> length (cstr str) \<Longrightarrow> framestr_frist_constchar (Some (drop q str)) c = Some d \<Longrightarrow> q + d + 1 \<le> length (cstr str)"
  by (auto simp: framestr_frist_constchar_eq cstr_drop dest!: first_index_SomeD)

lemma head_status_stays:
  assumes "q \<le> length (cstr str)" "head_status str q http m = Some r"
  shows "stays str r"
proof (cases "framestr_frist_constchar (Some (drop q str)) (CHR '' '')")
  case (Some d)
  then show ?thesis using assms(2) frist_constchar_le[OF assms(1) Some]
    by (auto simp: stays_def head_status_def Let_def split: if_splits)
qed (use assms in \<open>auto simp: stays_def head_status_def\<close>)

lemma head_steps_stay:
  "stays str (head_version alloc str http m)"
  "q \<le> length (cstr str) \<Longrightarrow> stays str (head_note alloc str q http m)"
  "q \<le> length (cstr str) \<Longrightarrow> header_loop alloc str q http m = Some r \<Longrightarrow> stays str r"
  "q \<le> length (cstr str) \<Longrightarrow> head_length q http m = Some r \<Longrightarrow> stays str r"
  using frist_constchar_le[of 0 str] first_crlf_le[of q str] header_loop_le[of alloc str q http m r]
  by (auto simp: stays_def head_version_def head_note_def head_length_def split: option.splits if_splits prod.splits head_result.splits)

lemma and_then_stays:
  assumes "and_then r f = Some r'" "stays str r"
    and "\<And>q http m. q \<le> length (cstr str) \<Longrightarrow> f q http m = Some r' \<Longrightarrow> stays str r'"
  shows "stays str r'"
  using assms by (cases r) (auto simp: and_then_def stays_def)

lemma head_used:
  assumes "analysis_http_head_str alloc str res move = Some (ret, res', move')"
  shows "move \<le> move' \<and> move' \<le> move + int (length (cstr str))"
proof (cases "http_f res = None \<and> (\<exists>m a m0. mem_f res = Some m \<and> es_alloc alloc m = (Some a, m0))")
  case True
  then obtain m a m0 where m: "mem_f res = Some m" "es_alloc alloc m = (Some a, m0)" "http_f res = None" by blast
  obtain r2 r3 r4 r5 where r: "and_then (head_version alloc str zero_head m0) (head_status str) = Some r2"
    "and_then r2 (\<lambda>q http m. Some (head_note alloc str q http m)) = Some r3" "and_then r3 (header_loop alloc str) = Some r4"
    "and_then r4 head_length = Some r5"
    "Some (ret, res', move') = Some (case r5 of
         MallocError http m' \<Rightarrow> (- 1, res\<lparr>http_f := Some http, mem_f := Some m'\<rparr>, move)
       | NoFull m' \<Rightarrow> (1, res\<lparr>http_f := None, mem_f := Some m'\<rparr>, move)
       | Proceed q http m' \<Rightarrow> (0, res\<lparr>http_f := Some http, mem_f := Some m'\<rparr>, move + int q))"
    using assms m by (auto simp: analysis_http_head_str_def split: bind_splits)
  have "stays str r2" by (rule and_then_stays[OF r(1)]) (auto intro: head_steps_stay head_status_stays)
  then have "stays str r3" by (rule and_then_stays[OF r(2)]) (auto intro: head_steps_stay)
  then have "stays str r4" by (rule and_then_stays[OF r(3)]) (auto intro: head_steps_stay)
  then have "stays str r5" by (rule and_then_stays[OF r(4)]) (auto intro: head_steps_stay)
  then show ?thesis using r(5) by (cases r5) (auto simp: stays_def)
next
  case False
  then show ?thesis using assms by (auto simp: analysis_http_head_str_def split: option.splits prod.splits)
qed

subsection \<open>Receiving\<close>

lemma recv_used:
  assumes "analysis_es_recv_str alloc fresh room buf res = Some (ret, res', move)"
  shows "0 \<le> move \<and> move \<le> int (length (cstr buf))"
proof (cases "framestr_first_conststr (Some buf) ''HTTP'' = None \<or> http_f res \<noteq> None")
  case True
  then have "analysis_http_json_str alloc fresh room buf res 0 = Some (ret, res', move)"
    using assms by (auto simp: analysis_es_recv_str_def split: option.splits)
  then show ?thesis using json_used by fastforce
next
  case False
  then obtain p ret1 res1 move1 where p: "framestr_first_conststr (Some buf) ''HTTP'' = Some p"
    and h: "analysis_http_head_str alloc (drop p buf) res 0 = Some (ret1, res1, move1)"
    and r: "ret1 \<noteq> 0 \<and> move = move1 \<or> analysis_http_json_str alloc fresh (room - nat move1) (drop (nat move1) buf) res1 move1 = Some (ret, res', move)"
    using assms by (auto simp: analysis_es_recv_str_def split: option.splits bind_splits if_splits)
  have "p \<le> length (cstr buf)" using first_conststr_le[OF _ p] by simp
  then have m: "0 \<le> move1" "move1 \<le> int (length (cstr buf))" using head_used[OF h] by (auto simp: cstr_drop)
  then have "length (cstr (drop (nat move1) buf)) = length (cstr buf) - nat move1" by (subst cstr_drop) auto
  then show ?thesis using r m json_used[of alloc fresh "room - nat move1" "drop (nat move1) buf" res1 move1 ret res' move] by auto
qed

definition AN_SOCKET_BUFF_LEN :: nat where
  "AN_SOCKET_BUFF_LEN = 2048"

text \<open>
  C27. Whatever text is in the receive buffer and whatever has been kept of an answer so far, \<^verbatim>\<open>analysis_es_recv_str\<close> uses up at most the text
  that is there, and \<^verbatim>\<open>memory_char_move_bit\<close> then leaves exactly the rest of it in the buffer.
\<close>

theorem es_recv_consumes:
  assumes "length (cstr an_buf) < AN_SOCKET_BUFF_LEN"
    and "analysis_es_recv_str alloc fresh AN_SOCKET_BUFF_LEN an_buf res = Some (ret, res', move)"
  shows "\<exists>n an_buf'. move = int n \<and> n \<le> length (cstr an_buf) \<and> memory_char_move_bit an_buf move AN_SOCKET_BUFF_LEN = Some an_buf' \<and>
    cstr an_buf' = drop n (cstr an_buf)"
proof -
  obtain n where n: "move = int n" "n \<le> length (cstr an_buf)" using recv_used[OF assms(2)] by (metis nonneg_int_cases of_nat_le_iff)
  then show ?thesis using move_bit_drops[of n AN_SOCKET_BUFF_LEN an_buf] assms(1) by auto
qed

end
