(* ===== verification/Es_Message.thy ===== *)
theory Es_Message
  imports Es_Json
begin

text \<open>
  Messages that arrive in pieces, and a search result that arrives at once: what \<^verbatim>\<open>analysis_http_json_str\<close> makes of them.
\<close>

section \<open>A message in pieces\<close>

text \<open>
  The pieces one after another, each as the contents of the receive buffer, up to the one that ends the answer. \<open>Inl\<close> is an
  answer that is not over.
\<close>

fun feed :: "(nat \<Rightarrow> bool) \<Rightarrow> nat \<Rightarrow> string list \<Rightarrow> ES_RESPOND \<Rightarrow> (ES_RESPOND + ES_RESPOND) option" where
  "feed alloc room [] res = Some (Inl res)"
| "feed alloc room (c # cs) res =
     (case analysis_http_json_str alloc [] room c res 0 of
        None \<Rightarrow> None
      | Some (ret, res', move) \<Rightarrow> if ret = 0 then Some (Inr res') else feed alloc room cs res')"

definition text_piece :: "string \<Rightarrow> bool" where
  "text_piece s \<longleftrightarrow> NUL \<notin> set s"

lemma put_bytes_end: "put_bytes s (length s) t = s @ t"
  by (simp add: put_bytes_def)

lemma put_bytes_empty: "put_bytes [] 0 t = t"
  by (simp add: put_bytes_def)

lemma continue_text_eq:
  assumes "text_piece old" "text_piece c" "length old \<le> n"
  shows "continue_text c (int n) old =
    Some (if length old + length c < n then (1, length c, old @ c) else (0, n - length old, take n (old @ c)))"
proof -
  have "nat (int n - int (length old)) = n - length old" by arith
  then show ?thesis using assms by (auto simp: continue_text_def text_piece_def cstr_no_NUL put_bytes_end slice_def Let_def)
qed

text \<open>More of a message that has begun.\<close>

lemma json_continue:
  assumes "http_f res = Some http" "body_len_f http = int n" "message_f res = Some old" "text_piece old" "text_piece c" "length old \<le> n"
  shows "analysis_http_json_str alloc fresh room c res move =
    (if length old + length c < n then Some (1, res\<lparr>message_f := Some (old @ c)\<rparr>, move + int (length c))
     else Some (0, res\<lparr>message_f := Some (take n (old @ c))\<rparr>, move + int (n - length old)))"
  using assms by (simp add: analysis_http_json_str_def continue_text_eq)

lemma feed_continue:
  assumes "http_f res = Some http" "body_len_f http = int n" "message_f res = Some old" "text_piece old" "list_all text_piece cs"
    and "length old \<le> n" "n \<le> length old + length (concat cs)" "cs \<noteq> []"
  shows "feed alloc room cs res = Some (Inr (res\<lparr>message_f := Some (take n (old @ concat cs))\<rparr>))"
  using assms
proof (induction cs arbitrary: old res)
  case (Cons c cs)
  have c: "text_piece c" "list_all text_piece cs" using Cons.prems(5) by auto
  note step = json_continue[OF Cons.prems(1-4) c(1) Cons.prems(6), of alloc "[]" room 0]
  show ?case
  proof (cases "length old + length c < n")
    case True
    then have "cs \<noteq> []" using Cons.prems(7) by auto
    moreover have "text_piece (old @ c)" using Cons.prems(4) c(1) by (simp add: text_piece_def)
    ultimately show ?thesis using step True Cons.IH[of "res\<lparr>message_f := Some (old @ c)\<rparr>" "old @ c"] Cons.prems c(2) by simp
  next
    case False
    then show ?thesis using step by simp
  qed
qed simp

text \<open>The first piece of a short answer.\<close>

definition short_answer :: "ES_RESPOND \<Rightarrow> nat \<Rightarrow> bool" where
  "short_answer res n \<longleftrightarrow> (case http_f res of
       None \<Rightarrow> False
     | Some http \<Rightarrow> 200 \<le> ret_f http \<and> ret_f http < 300 \<and> body_len_f http = int n \<and> n < 90) \<and>
     message_f res = None \<and> err_message_f res = None \<and> search_f res = None \<and> mem_f res \<noteq> None"

lemma begin_text_eq:
  assumes "text_piece c" "length c \<le> room"
  shows "begin_text (\<lambda>_. True) [] room c 0 0 (int n) m =
    Some (if n < length c then (0, n, Some (take n c), m\<lparr>allocs := allocs m + 1\<rparr>) else (1, length c, Some c, m\<lparr>allocs := allocs m + 1\<rparr>))"
  using assms by (simp add: begin_text_def es_alloc_def array_bytes_def text_piece_def cstr_no_NUL put_bytes_empty Let_def)

lemma json_begin:
  assumes "short_answer res n" "text_piece c" "length c \<le> room"
  obtains m where "analysis_http_json_str (\<lambda>_. True) [] room c res move =
    (if n < length c then Some (0, res\<lparr>message_f := Some (take n c), mem_f := Some m\<rparr>, move + int n)
     else Some (1, res\<lparr>message_f := Some c, mem_f := Some m\<rparr>, move + int (length c)))"
proof -
  obtain http m where r: "http_f res = Some http" "200 \<le> ret_f http" "ret_f http < 300" "body_len_f http = int n" "n < 90"
    "message_f res = None" "err_message_f res = None" "search_f res = None" "mem_f res = Some m"
    using assms(1) by (auto simp: short_answer_def split: option.splits)
  show ?thesis using that[of "m\<lparr>allocs := allocs m + 1\<rparr>"] r begin_text_eq[OF assms(2,3), of n m]
    by (simp add: analysis_http_json_str_def new_body_def)
qed


lemma es_exact_body_waits:
  assumes "short_answer res n" "text_piece c" "length c = n" "n \<le> room"
  shows "\<exists>res' m. res' = res\<lparr>message_f := Some c, mem_f := Some m\<rparr> \<and>
    analysis_http_json_str (\<lambda>_. True) [] room c res move = Some (1, res', move + int n)"
proof -
  obtain m where "analysis_http_json_str (\<lambda>_. True) [] room c res move = Some (1, res\<lparr>message_f := Some c, mem_f := Some m\<rparr>, move + int n)"
    using json_begin[OF assms(1,2), of room move] assms(3,4) by (metis order_less_irrefl)
  then show ?thesis by blast
qed

definition sample_respond :: ES_RESPOND where
  "sample_respond = fresh_respond\<lparr>http_f := Some \<lparr>ver_f = Some ''HTTP/1.1'', note_f = Some ''OK'', ret_f = 200, body_len_f = 5, head_f = None\<rparr>\<rparr>"

lemma sample_short: "short_answer sample_respond 5"
  by (simp add: short_answer_def sample_respond_def fresh_respond_def)


lemma sample_recv: "map_option (\<lambda>(ret, res, move). (ret, message_f res, move)) (analysis_es_recv_str (\<lambda>_. True) [] AN_SOCKET_BUFF_LEN ''hello!'' sample_respond) =
   Some (0, Some ''hello'', 5)"
  by code_simp

theorem es_recv_consumes_witness:
  "\<exists>res' an_buf'. analysis_es_recv_str (\<lambda>_. True) [] AN_SOCKET_BUFF_LEN ''hello!'' sample_respond = Some (0, res', 5) \<and>
     memory_char_move_bit ''hello!'' 5 AN_SOCKET_BUFF_LEN = Some an_buf' \<and> cstr an_buf' = ''!''"
proof -
  obtain res' where r: "analysis_es_recv_str (\<lambda>_. True) [] AN_SOCKET_BUFF_LEN ''hello!'' sample_respond = Some (0, res', 5)"
    using sample_recv by auto
  then show ?thesis using es_recv_consumes[OF _ r] by (auto simp: AN_SOCKET_BUFF_LEN_def)
qed

section \<open>An answer in one piece\<close>

lemma find_sub_prefix: "prefix t s \<Longrightarrow> find_sub t s = Some 0"
  by (cases s) auto

lemma head_text_begin: "head_text ver code note hs = ver @ CHR '' '' # drop (length ver + 1) (head_text ver code note hs)"
  by (simp add: head_text_def)

lemma first_http_head:
  assumes "prefix ''HTTP'' ver" "plain_text {CHR '' ''} ver"
  shows "framestr_first_conststr (Some (head_text ver code note hs @ c)) ''HTTP'' = Some 0"
proof -
  have "NUL \<notin> set ver" using assms(2) by (auto simp: plain_text_def list_all_iff)
  then have "cstr (head_text ver code note hs @ c) = ver @ cstr (CHR '' '' # drop (length ver + 1) (head_text ver code note hs) @ c)"
    by (subst head_text_begin) (simp add: cstr_append_no_NUL)
  then have p: "prefix ''HTTP'' (cstr (head_text ver code note hs @ c))" using assms(1) by (metis prefix_prefix)
  then show ?thesis using find_sub_prefix[OF p] prefix_length_le[OF p] by (simp add: framestr_first_conststr_def conststr_loop_eq)
qed



section \<open>A search result\<close>

text \<open>The text below has \<^verbatim>\<open>~\<close> for the quotes.\<close>

definition json :: "string \<Rightarrow> string" where
  "json s = map (\<lambda>c. if c = CHR ''~'' then CHR 0x22 else c) s"

definition sample_body :: string where
  "sample_body = json ''{~hits~:{~total~:2,~hits~:[{~_index~:~i~,~_type~:~t~,~_id~:~1~,~_source~:{~k~:~v~,~n~:12}},{~_index~:~j~,~_source~:{~k~:~w~}}]}}''"

definition hits_respond :: ES_RESPOND where
  "hits_respond = fresh_respond\<lparr>http_f := Some \<lparr>ver_f = None, note_f = None, ret_f = 200, body_len_f = 100, head_f = None\<rparr>\<rparr>"

fun members_list :: "nat \<Rightarrow> kv_nodes \<Rightarrow> nat option \<Rightarrow> (string option \<times> string option) list" where
  "members_list (Suc n) h (Some x) = (case h x of None \<Rightarrow> [] | Some k \<Rightarrow> (key_f k, value_f k) # members_list n h (next_f k))"
| "members_list _ h _ = []"

fun obj_list :: "nat \<Rightarrow> es_mem \<Rightarrow> nat option \<Rightarrow> (string option \<times> string option \<times> string option \<times> (string option \<times> string option) list) list" where
  "obj_list (Suc n) m (Some x) = (case obj_heap m x of None \<Rightarrow> []
     | Some ob \<Rightarrow> (obj_index ob, obj_type ob, obj_id ob, members_list 10 (kv_heap m) (obj_head ob)) # obj_list n m (obj_next ob))"
| "obj_list _ m _ = []"

definition hits_view where
  "hits_view r = (case r of None \<Rightarrow> None | Some (ret, res, move) \<Rightarrow> Some (ret, move, map_option total_f (search_f res),
     obj_list 10 (the (mem_f res)) (Option.bind (search_f res) shead_f)))"

lemma sample_hits: "hits_view (analysis_http_json_str (\<lambda>_. True) [] 2048 sample_body hits_respond 0) =
   Some (0, int (length sample_body), Some 2,
     [(Some ''i'', Some ''t'', Some ''1'', [(Some ''k'', Some ''v''), (Some ''n'', Some ''12'')]),
      (Some ''j'', None, None, [(Some ''k'', Some ''w'')])])"
  by code_simp

end
