(* ===== verification/Es_Block.thy ===== *)
theory Es_Block
  imports Es_Ring Es_Message
begin

text \<open>
  The blocking query of \<^verbatim>\<open>module_function/es_http_api.c\<close> with its own slot behind the ring, the release of that slot, and the end of
  the client.
\<close>

section \<open>Receiving into a slot\<close>

text \<open>
  One round with received bytes, in \<^verbatim>\<open>es_server_recv\<close> and in \<^verbatim>\<open>es_query_block\<close>: they are appended to the buffer, the buffer is analysed, and
  what has been used up is removed. Bytes that fill the buffer leave no end of the string.
\<close>

definition recv_round ::
  "(nat \<Rightarrow> bool) \<Rightarrow> string \<Rightarrow> string \<Rightarrow> string \<Rightarrow> ES_RESPOND \<Rightarrow> (int \<times> ES_RESPOND \<times> string) option" where
  "recv_round alloc fresh an_buf bytes res =
     (if frame_strlen (Some an_buf) + length bytes \<ge> AN_SOCKET_BUFF_LEN then None
      else do {
        let buf = put_bytes an_buf (frame_end_charstr an_buf) bytes;
        (ret, res', move) \<leftarrow> analysis_es_recv_str alloc fresh AN_SOCKET_BUFF_LEN buf res;
        an_buf' \<leftarrow> memory_char_move_bit buf move AN_SOCKET_BUFF_LEN;
        Some (ret, res', an_buf')
      })"

section \<open>The blocking query\<close>

definition lock_bloc :: "nat \<Rightarrow> ES_SERVER_INFO \<Rightarrow> ES_SERVER_INFO option" where
  "lock_bloc me st = (if bloc_mutex st = None then Some (st\<lparr>bloc_mutex := Some me\<rparr>) else None)"

definition block_path :: "ES_REQUEST \<Rightarrow> string" where
  "block_path req = cstr (the (path_str req)) @ (case query_str req of None \<Rightarrow> [] | Some q \<Rightarrow> ''/'' @ cstr q)"

text \<open>The rounds at \<^verbatim>\<open>send:\<close>, with the results of \<^verbatim>\<open>send\<close> and of the reconnection. \<open>False\<close> is \<^verbatim>\<open>error_out\<close>, and \<open>None\<close> waits or is undefined.\<close>

fun block_send :: "string \<Rightarrow> (int list \<times> int) list \<Rightarrow> bool option" where
  "block_send b [] = None"
| "block_send b ((rs, conn) # os) =
     (case tcp_client_send b rs of
        SendMore \<Rightarrow> None
      | SendWild \<Rightarrow> None
      | Sent n \<Rightarrow> if n \<noteq> 0 then Some True else if conn < 0 then Some False else block_send b os)"

text \<open>The rounds at \<^verbatim>\<open>recv:\<close>, each with the answers of \<^verbatim>\<open>recv\<close> and the result of the reconnection.\<close>

fun block_recv ::
  "(nat \<Rightarrow> bool) \<Rightarrow> string \<Rightarrow> (recv_answer list \<times> int) list \<Rightarrow> string \<Rightarrow> ES_RESPOND \<Rightarrow> (bool \<times> ES_RESPOND) option" where
  "block_recv alloc fresh [] an_buf res = None"
| "block_recv alloc fresh ((as, conn) # os) an_buf res =
     (case tcp_client_recv as (SOCKET_BUFF_LEN - 1) of
        None \<Rightarrow> None
      | Some (ret, bytes) \<Rightarrow>
          if ret \<le> 0 then (if conn < 0 then Some (False, res) else block_recv alloc fresh os an_buf res)
          else if ret \<le> int SOCKET_BUFF_LEN - 1
          then (case recv_round alloc fresh an_buf bytes res of
                  None \<Rightarrow> None
                | Some (ret', res', an_buf') \<Rightarrow> if ret' > 0 then block_recv alloc fresh os an_buf' res' else Some (True, res'))
          else block_recv alloc fresh os an_buf res)"

text \<open>
  \<^verbatim>\<open>es_query_block\<close>: the index of the returned slot, or \<open>None\<close> for \<^verbatim>\<open>NULL\<close>. The mutex stays locked when a slot is returned, until
  \<^verbatim>\<open>release_es_respond\<close>, and also at \<^verbatim>\<open>error_out\<close>.
\<close>

definition es_query_block ::
  "(nat \<Rightarrow> bool) \<Rightarrow> string \<Rightarrow> (int list \<times> int) list \<Rightarrow> (recv_answer list \<times> int) list \<Rightarrow> nat \<Rightarrow> ES_REQUEST \<Rightarrow> ES_SERVER_INFO \<Rightarrow>
   (nat option \<times> ES_SERVER_INFO) option" where
  "es_query_block alloc fresh sends recvs me req st =
     (if path_str req = None then Some (None, st)
      else if \<not> is_run st then Some (None, st)
      else do {
        st1 \<leftarrow> lock_bloc me st;
        let res = es_res_array st1 ! ES_RESPOND_ARRAY_LEN;
        let put = (\<lambda>r. upd_slot ES_RESPOND_ARRAY_LEN (\<lambda>_. r) st1);
        if length (block_path req) \<ge> SOCKET_BUFF_LEN then None
        else do {
          m \<leftarrow> mem_f res;
          (buf, m') \<leftarrow> req_buf_loop alloc ((query_message st1 req)\<lparr>msg_path := Some (block_path req)\<rparr>) 0 m;
          let res1 = res\<lparr>req_buf_f := buf, mem_f := Some m'\<rparr>;
          (case buf of
             None \<Rightarrow> Some (None, put res1)
           | Some b \<Rightarrow> do {
               ok \<leftarrow> block_send b sends;
               if \<not> ok then Some (None, put res1)
               else do {
                 (done, res2) \<leftarrow> block_recv alloc fresh recvs [] res1;
                 Some (if done then Some ES_RESPOND_ARRAY_LEN else None, put res2)
               }
             })
        }
      })"

definition release_es_respond :: "ES_SERVER_INFO \<Rightarrow> ES_SERVER_INFO" where
  "release_es_respond st = (upd_slot ES_RESPOND_ARRAY_LEN (release_slot (is_run st)) st)\<lparr>bloc_mutex := None\<rparr>"

section \<open>The end of the client\<close>

text \<open>
  \<^verbatim>\<open>es_server_destroy\<close> looks at a slot until it is free, at most six times, a second apart, and destroys its pool in any case. \<open>seen i e\<close> is
  the status it sees in slot \<open>i\<close> the \<open>e\<close>-th time. The first result is the number of seconds.
\<close>

function poll_slot :: "(nat \<Rightarrow> int) \<Rightarrow> nat \<Rightarrow> nat" where
  "poll_slot seen error_time = (if seen error_time \<noteq> 0 \<and> error_time < 5 then 1 + poll_slot seen (error_time + 1) else 0)"
  by pat_completeness auto
termination by (relation "measure (\<lambda>(seen, e). 5 - e)") auto

declare poll_slot.simps [simp del]

definition es_server_destroy :: "(nat \<Rightarrow> nat \<Rightarrow> int) \<Rightarrow> ES_SERVER_INFO \<Rightarrow> nat \<times> ES_SERVER_INFO" where
  "es_server_destroy seen st =
     (sum_list (map (\<lambda>i. poll_slot (seen i) 0) [0..<ES_RESPOND_ARRAY_ALL_LEN]),
      st\<lparr>is_run := False, is_over := True, es_res_array := map (\<lambda>r. r\<lparr>mem_f := None\<rparr>) (es_res_array st),
        send_num := send_num st + 1, recv_num := recv_num st + 1, call_num := call_num st + 1\<rparr>)"

section \<open>Properties\<close>

lemma poll_slot_le: "poll_slot seen e \<le> 5 - e"
proof (induction seen e rule: poll_slot.induct)
  case (1 seen e)
  then show ?case by (subst poll_slot.simps) auto
qed

text \<open>The client ends within 55 seconds, and then every waiting thread ends.\<close>

lemma es_server_destroy_ends:
  assumes "es_server_destroy seen st = (secs, st')"
  shows "secs \<le> 55"
    and "\<exists>st1. es_sender_step rs conn SWait st' = Some (STake, st1, []) \<and> es_sender_step rs conn STake st1 = Some (SEnd, st1, [])"
    and "\<exists>st1. es_receiver_step out RWait st' = Some (RTake, st1) \<and> es_receiver_step out RTake st1 = Some (REnd, st1)"
    and "\<exists>st1. es_callback_step KWait st' = Some (KTake, st1, []) \<and> es_callback_step KTake st1 = Some (KEnd, st1, [])"
proof -
  have "sum_list (map (\<lambda>i. poll_slot (seen i) 0) [0..<ES_RESPOND_ARRAY_ALL_LEN]) \<le> sum_list (map (\<lambda>i. 5) [0..<ES_RESPOND_ARRAY_ALL_LEN])"
    using poll_slot_le[of _ 0] by (intro sum_list_mono) auto
  then show "secs \<le> 55"
    using assms by (auto simp: es_server_destroy_def sum_list_triv ES_RESPOND_ARRAY_ALL_LEN_def ES_RESPOND_ARRAY_LEN_def)
qed (use assms in \<open>auto simp: es_server_destroy_def wait_send_def wait_recv_def wait_call_def take_send_def take_recv_def take_call_def\<close>)

text \<open>
  A blocking query that fails after it has taken the mutex never gives it back: every later query waits for ever.
\<close>

lemma es_block_error_keeps_mutex:
  assumes "es_query_block alloc fresh sends recvs me req st = Some (None, st')" "path_str req \<noteq> None" "is_run st"
    and "path_str req' \<noteq> None"
  shows "es_query_block alloc' fresh' sends' recvs' me' req' st' = None"
proof -
  have "bloc_mutex st' = Some me" "is_run st'" using assms(1-3)
    by (auto simp: es_query_block_def lock_bloc_def upd_slot_def Let_def split: if_splits bind_splits option.splits)
  then show ?thesis using assms(4) by (simp add: es_query_block_def lock_bloc_def)
qed

end
