(* ===== verification/Log_Mini.thy ===== *)
theory Log_Mini
  imports Http_Message
begin

text \<open>
  The logger of \<^verbatim>\<open>module_function/log_mini.c\<close>: levels, the name of a log file, writing a line to the open file, and rolling over to
  a new file. The clock (\<^verbatim>\<open>gmtime_r\<close>), the counts that \<^verbatim>\<open>fwrite_unlocked\<close> returns and the text that \<^verbatim>\<open>vsprintf\<close> makes of the arguments
  are arguments. What has been written to a stream counts as written to its file; the buffer of the stream is not
  modelled.
\<close>

section \<open>State\<close>

datatype LOG_LEVEL = TRACE | DEBUG | INFO | WARN | ERROR

primrec level_num :: "LOG_LEVEL \<Rightarrow> nat" where
  "level_num TRACE = 0"
| "level_num DEBUG = 1"
| "level_num INFO = 2"
| "level_num WARN = 3"
| "level_num ERROR = 4"

lemma level_num_inj: "level_num a = level_num b \<longleftrightarrow> a = b"
  by (cases a; cases b) auto

instantiation LOG_LEVEL :: linorder
begin

definition less_eq_LOG_LEVEL :: "LOG_LEVEL \<Rightarrow> LOG_LEVEL \<Rightarrow> bool" where
  "less_eq_LOG_LEVEL a b \<longleftrightarrow> level_num a \<le> level_num b"

definition less_LOG_LEVEL :: "LOG_LEVEL \<Rightarrow> LOG_LEVEL \<Rightarrow> bool" where
  "less_LOG_LEVEL a b \<longleftrightarrow> level_num a < level_num b"

instance
  by standard (auto simp: less_eq_LOG_LEVEL_def less_LOG_LEVEL_def level_num_inj)

end

primrec log_level_str :: "LOG_LEVEL \<Rightarrow> string" where
  "log_level_str TRACE = ''TRACE ''"
| "log_level_str DEBUG = ''DEBUG ''"
| "log_level_str INFO = ''INFO  ''"
| "log_level_str WARN = ''WARN  ''"
| "log_level_str ERROR = ''ERROR ''"

record log_tm =
  tm_year :: int
  tm_mon :: int
  tm_mday :: int
  tm_hour :: int
  tm_min :: int
  tm_sec :: int

text \<open>The functions that \<^verbatim>\<open>out\<close> and \<^verbatim>\<open>flu\<close> may point to.\<close>

datatype log_out = DefaultOut | FileOut

text \<open>
  \<^verbatim>\<open>log_recod\<close>, \<^verbatim>\<open>log_file_info\<close> and \<^verbatim>\<open>log_file_\<close>, with the standard output and the files. \<open>fp_f\<close> is the name of the open file. \<open>streams\<close> is the
  history of the streams that were opened, with what was written to each.
\<close>

record LOG_STATE =
  out_f :: "log_out option"
  time_zone :: int
  lev_f :: LOG_LEVEL
  fp_f :: "string option"
  writtenBytes :: nat
  rollSize :: nat
  base_file_name :: string
  log_stdout :: string
  log_fs :: file_system
  streams :: "(string \<times> string) list"

definition LOG_RECORD_FILE_NAMELEN :: nat where
  "LOG_RECORD_FILE_NAMELEN = 512"

definition LOG_RECORD_FILE_SUFFIXLEN :: nat where
  "LOG_RECORD_FILE_SUFFIXLEN = 64"

section \<open>The log file\<close>

text \<open>A failed assertion is \<open>None\<close>. \<^verbatim>\<open>fopen(filename, "ae")\<close> creates a file that is missing.\<close>

definition open_log_file :: "string \<Rightarrow> LOG_STATE \<Rightarrow> LOG_STATE option" where
  "open_log_file filename st =
     (if fp_f st \<noteq> None then None
      else if fs_denied (log_fs st) filename then Some st
      else Some (st\<lparr>fp_f := Some filename, writtenBytes := 0,
        log_fs := (case fs_files (log_fs st) filename of None \<Rightarrow> fs_write filename [] (log_fs st) | Some _ \<Rightarrow> log_fs st),
        streams := streams st @ [(filename, [])]\<rparr>))"

text \<open>The loop behind the first \<^verbatim>\<open>fwrite_unlocked\<close>: what it writes of the rest. When no more counts are given, everything is accepted.\<close>

fun append_loop :: "nat list \<Rightarrow> string \<Rightarrow> string" where
  "append_loop xs [] = []"
| "append_loop [] rest = rest"
| "append_loop (x # xs) rest = (if x = 0 then [] else take x rest @ append_loop xs (drop x rest))"

definition written_part :: "nat list \<Rightarrow> string \<Rightarrow> string" where
  "written_part xs line = (case xs of [] \<Rightarrow> line | n # xs' \<Rightarrow> take n line @ append_loop xs' (drop n line))"

definition stream_write :: "string \<Rightarrow> string \<Rightarrow> LOG_STATE \<Rightarrow> LOG_STATE" where
  "stream_write name s st =
     st\<lparr>log_fs := fs_write name ((case fs_files (log_fs st) name of None \<Rightarrow> [] | Some c \<Rightarrow> c) @ s) (log_fs st),
        streams := (if streams st = [] then [] else butlast (streams st) @ [(fst (last (streams st)), snd (last (streams st)) @ s)])\<rparr>"

definition file_append_log :: "nat list \<Rightarrow> string \<Rightarrow> LOG_STATE \<Rightarrow> LOG_STATE option" where
  "file_append_log xs line st =
     (case fp_f st of
        None \<Rightarrow> None
      | Some name \<Rightarrow> Some ((stream_write name (written_part xs line) st)\<lparr>writtenBytes := writtenBytes st + length line\<rparr>))"

definition close_log_file :: "LOG_STATE \<Rightarrow> LOG_STATE option" where
  "close_log_file st = (if fp_f st = None then None else Some (st\<lparr>fp_f := None, writtenBytes := 0\<rparr>))"

text \<open>\<^verbatim>\<open>%04d\<close> and \<^verbatim>\<open>%02d\<close>.\<close>

definition pad_dec :: "nat \<Rightarrow> int \<Rightarrow> string" where
  "pad_dec w i =
     (let s = dec_nat (nat \<bar>i\<bar>) in
      if i < 0 then ''-'' @ replicate (w - 1 - length s) (CHR ''0'') @ s else replicate (w - length s) (CHR ''0'') @ s)"

definition log_suffix :: "int \<Rightarrow> log_tm \<Rightarrow> string" where
  "log_suffix zone tm = ''.'' @ pad_dec 4 (tm_year tm + 1900) @ pad_dec 2 (tm_mon tm + 1) @ pad_dec 2 (tm_mday tm) @ ''-'' @
     pad_dec 2 (tm_hour tm + zone) @ pad_dec 2 (tm_min tm) @ pad_dec 2 (tm_sec tm) @ ''.log''"

text \<open>A name that does not fit is reported, and written all the same.\<close>

definition get_log_file_name :: "log_tm \<Rightarrow> LOG_STATE \<Rightarrow> string option" where
  "get_log_file_name tm st =
     (let name = cstr (base_file_name st) @ log_suffix (time_zone st) tm
      in if length name < LOG_RECORD_FILE_NAMELEN then Some name else None)"

definition log_file_roll_file :: "log_tm \<Rightarrow> LOG_STATE \<Rightarrow> LOG_STATE option" where
  "log_file_roll_file tm st = do {
     name \<leftarrow> get_log_file_name tm st;
     st1 \<leftarrow> (if fp_f st \<noteq> None then close_log_file st else Some st);
     open_log_file name st1
   }"

definition log_file_outpuut :: "nat list \<Rightarrow> log_tm \<Rightarrow> string \<Rightarrow> LOG_STATE \<Rightarrow> LOG_STATE option" where
  "log_file_outpuut xs tm msg st = do {
     st1 \<leftarrow> file_append_log xs msg st;
     if writtenBytes st1 > rollSize st1 then log_file_roll_file tm st1 else Some st1
   }"

section \<open>The interface\<close>

definition log_set_level :: "LOG_LEVEL \<Rightarrow> LOG_STATE \<Rightarrow> LOG_STATE" where
  "log_set_level le st = st\<lparr>lev_f := le\<rparr>"

definition log_time_set_timezone :: "int \<Rightarrow> LOG_STATE \<Rightarrow> LOG_STATE" where
  "log_time_set_timezone hour_diff st = (if - 12 \<le> hour_diff \<and> hour_diff \<le> 12 then st\<lparr>time_zone := hour_diff\<rparr> else st)"

text \<open>\<^verbatim>\<open>log_flush\<close> writes out what is buffered; without an open file its assertion fails.\<close>

definition log_flush :: "LOG_STATE \<Rightarrow> LOG_STATE option" where
  "log_flush st = (if out_f st = Some FileOut \<and> fp_f st = None then None else Some st)"

definition log_line :: "LOG_LEVEL \<Rightarrow> string \<Rightarrow> string \<Rightarrow> int \<Rightarrow> string \<Rightarrow> string" where
  "log_line level fil fun_name l_num text =
     fil @ '' :: '' @ fun_name @ ''() '' @ dec_int l_num @ '': '' @ log_level_str level @ '' '' @ text"

text \<open>The message is built in 4096 bytes.\<close>

definition log_msg ::
  "nat list \<Rightarrow> log_tm \<Rightarrow> LOG_LEVEL \<Rightarrow> string \<Rightarrow> string \<Rightarrow> int \<Rightarrow> string \<Rightarrow> LOG_STATE \<Rightarrow> LOG_STATE option" where
  "log_msg xs tm level fil fun_name l_num text st =
     (let st1 = (if out_f st = None then st\<lparr>out_f := Some DefaultOut, lev_f := INFO, time_zone := 8\<rparr> else st) in
      if level < lev_f st1 then Some st1
      else let msg = log_line level fil fun_name l_num text in
           if length msg \<ge> 4096 then None
           else if out_f st1 = Some FileOut then log_file_outpuut xs tm msg st1
           else Some (st1\<lparr>log_stdout := log_stdout st1 @ msg\<rparr>))"

text \<open>The name is copied without its end.\<close>

definition log_set_filename :: "log_tm \<Rightarrow> string \<Rightarrow> int \<Rightarrow> LOG_STATE \<Rightarrow> LOG_STATE option" where
  "log_set_filename tm name sz st =
     (if frame_strlen (Some name) + LOG_RECORD_FILE_SUFFIXLEN \<ge> LOG_RECORD_FILE_NAMELEN then Some st
      else log_file_roll_file tm (st\<lparr>base_file_name := put_bytes (base_file_name st) 0 (cstr name),
             rollSize := nat (sz mod 2 ^ 64), out_f := Some FileOut, time_zone := 8, lev_f := INFO\<rparr>))"

section \<open>What reaches the files\<close>

text \<open>One call of \<^verbatim>\<open>log\<close>, with what \<^verbatim>\<open>fwrite_unlocked\<close> accepts in it and the time at which it is made.\<close>

record log_call =
  c_counts :: "nat list"
  c_tm :: log_tm
  c_level :: LOG_LEVEL
  c_file :: string
  c_fun :: string
  c_num :: int
  c_text :: string

definition call_line :: "log_call \<Rightarrow> string" where
  "call_line c = log_line (c_level c) (c_file c) (c_fun c) (c_num c) (c_text c)"

fun log_calls :: "log_call list \<Rightarrow> LOG_STATE \<Rightarrow> LOG_STATE option" where
  "log_calls [] st = Some st"
| "log_calls (c # cs) st =
     Option.bind (log_msg (c_counts c) (c_tm c) (c_level c) (c_file c) (c_fun c) (c_num c) (c_text c) st) (log_calls cs)"

text \<open>The stream takes something in every call behind the first one, so that the line is written in the end.\<close>

definition counts_go_on :: "nat list \<Rightarrow> bool" where
  "counts_go_on xs \<longleftrightarrow> list_all (\<lambda>x. 0 < x) (tl xs)"

lemma append_loop_all: "list_all (\<lambda>x. 0 < x) xs \<Longrightarrow> append_loop xs rest = rest"
  by (induction xs rest rule: append_loop.induct) auto

lemma written_part_all: "counts_go_on xs \<Longrightarrow> written_part xs line = line"
  by (cases xs) (simp_all add: written_part_def counts_go_on_def append_loop_all)

text \<open>A time as \<^verbatim>\<open>gmtime_r\<close> gives it, in a year of four digits.\<close>

definition tm_ok :: "log_tm \<Rightarrow> bool" where
  "tm_ok tm \<longleftrightarrow> - 1900 \<le> tm_year tm \<and> tm_year tm < 8100 \<and> 0 \<le> tm_mon tm \<and> tm_mon tm < 12 \<and> 0 < tm_mday tm \<and> tm_mday tm \<le> 31 \<and>
     0 \<le> tm_hour tm \<and> tm_hour tm < 24 \<and> 0 \<le> tm_min tm \<and> tm_min tm < 60 \<and> 0 \<le> tm_sec tm \<and> tm_sec tm \<le> 60"

lemma pad_dec_length: "0 \<le> i \<Longrightarrow> i < 10 ^ w \<Longrightarrow> 0 < w \<Longrightarrow> length (pad_dec w i) = w"
  using dec_nat_length[of "nat i" w] by (simp add: pad_dec_def Let_def nat_less_iff)

lemma log_suffix_length: "tm_ok tm \<Longrightarrow> length (log_suffix 8 tm) = 20"
  by (simp add: log_suffix_def tm_ok_def pad_dec_length)

text \<open>The state of a logger that writes to files: \<open>orig\<close> are the files it began with, and \<open>ls\<close> the lines so far.\<close>

definition stream_text :: "string \<Rightarrow> (string \<times> string) list \<Rightarrow> string" where
  "stream_text f ss = concat (map snd (filter (\<lambda>s. fst s = f) ss))"

definition old_text :: "file_system \<Rightarrow> string \<Rightarrow> string" where
  "old_text orig f = (case fs_files orig f of None \<Rightarrow> [] | Some c \<Rightarrow> c)"

definition files_ok :: "file_system \<Rightarrow> LOG_STATE \<Rightarrow> bool" where
  "files_ok orig st \<longleftrightarrow> (\<forall>f. fs_files (log_fs st) f =
     (if f \<in> fst ` set (streams st) then Some (old_text orig f @ stream_text f (streams st)) else fs_files orig f))"

definition log_ok :: "file_system \<Rightarrow> string list \<Rightarrow> LOG_STATE \<Rightarrow> bool" where
  "log_ok orig ls st \<longleftrightarrow> out_f st = Some FileOut \<and> lev_f st = INFO \<and> time_zone st = 8 \<and> (\<forall>f. \<not> fs_denied (log_fs st) f) \<and>
     length (cstr (base_file_name st)) + LOG_RECORD_FILE_SUFFIXLEN < LOG_RECORD_FILE_NAMELEN \<and>
     (\<exists>old name s. streams st = old @ [(name, s)] \<and> fp_f st = Some name \<and> writtenBytes st = length s \<and> length s \<le> rollSize st \<and>
        list_all (\<lambda>(n, t). rollSize st < length t) old) \<and>
     concat (map snd (streams st)) = concat ls \<and> files_ok orig st"

lemma get_log_file_name_ok:
  assumes "tm_ok tm" "time_zone st = 8" "length (cstr (base_file_name st)) + LOG_RECORD_FILE_SUFFIXLEN < LOG_RECORD_FILE_NAMELEN"
  shows "\<exists>name. get_log_file_name tm st = Some name"
  using assms log_suffix_length[OF assms(1)]
  by (simp add: get_log_file_name_def LOG_RECORD_FILE_SUFFIXLEN_def LOG_RECORD_FILE_NAMELEN_def)

text \<open>Opening a stream, and writing to the last one.\<close>

lemma files_ok_open:
  assumes "files_ok orig st"
  shows "files_ok orig (st\<lparr>fp_f := x, writtenBytes := y,
    log_fs := (case fs_files (log_fs st) name of None \<Rightarrow> fs_write name [] (log_fs st) | Some _ \<Rightarrow> log_fs st),
    streams := streams st @ [(name, [])]\<rparr>)"
proof -
  have "name \<in> fst ` set (streams st) \<Longrightarrow> fs_files (log_fs st) name \<noteq> None" using assms by (simp add: files_ok_def)
  moreover have "name \<notin> fst ` set (streams st) \<Longrightarrow> stream_text name (streams st) = []"
    by (force simp: stream_text_def filter_empty_conv)
  ultimately show ?thesis using assms
    by (auto simp: files_ok_def fs_write_def stream_text_def old_text_def split: option.splits)
qed

lemma stream_write_eq:
  assumes "streams st = old @ [(name, s)]"
  shows "streams (stream_write name t st) = old @ [(name, s @ t)]"
  using assms by (simp add: stream_write_def)

lemma files_ok_write:
  assumes "files_ok orig st" "streams st = old @ [(name, s)]"
  shows "files_ok orig (stream_write name t st)"
proof -
  have old: "fs_files (log_fs st) name = Some (old_text orig name @ stream_text name (streams st))"
    using assms by (simp add: files_ok_def)
  have "fs_files (log_fs (stream_write name t st)) = (fs_files (log_fs st))(name \<mapsto> old_text orig name @ stream_text name (streams st) @ t)"
    using old by (simp add: stream_write_def fs_write_def)
  moreover have "stream_text f (streams (stream_write name t st)) = (if f = name then stream_text f (streams st) @ t else stream_text f (streams st))" for f
    by (simp add: stream_write_eq[OF assms(2)] assms(2) stream_text_def)
  moreover have "fst ` set (streams (stream_write name t st)) = fst ` set (streams st)" by (simp add: stream_write_eq[OF assms(2)] assms(2))
  ultimately show ?thesis using assms(1,2) by (simp add: files_ok_def)
qed

text \<open>A line of a level that is written goes to the open stream, and then the file is rolled if it is too long.\<close>

lemma log_file_outpuut_ok:
  assumes "log_ok orig ls st" "tm_ok tm" "counts_go_on xs"
  shows "\<exists>st'. log_file_outpuut xs tm msg st = Some st' \<and> log_ok orig (ls @ [msg]) st' \<and> rollSize st' = rollSize st"
proof -
  obtain old name s where s: "streams st = old @ [(name, s)]" "fp_f st = Some name" "writtenBytes st = length s" "length s \<le> rollSize st"
    "list_all (\<lambda>(n, t). rollSize st < length t) old" using assms(1) by (auto simp: log_ok_def)
  define st1 where "st1 = (stream_write name msg st)\<lparr>writtenBytes := length (s @ msg)\<rparr>"
  have app: "file_append_log xs msg st = Some st1" using s by (simp add: file_append_log_def written_part_all[OF assms(3)] st1_def)
  have str1: "streams st1 = old @ [(name, s @ msg)]" using stream_write_eq[OF s(1)] by (simp add: st1_def)
  have same: "out_f st1 = out_f st" "lev_f st1 = lev_f st" "time_zone st1 = time_zone st" "base_file_name st1 = base_file_name st"
    "rollSize st1 = rollSize st" "fp_f st1 = Some name" "writtenBytes st1 = length (s @ msg)" "fs_denied (log_fs st1) = fs_denied (log_fs st)"
    using s(2) by (simp_all add: st1_def stream_write_def fs_write_def)
  have files1: "files_ok orig st1"
    using files_ok_write[of orig st old name s msg] assms(1) s(1) by (simp add: st1_def log_ok_def files_ok_def)
  have text1: "concat (map snd (streams st1)) = concat (ls @ [msg])" using assms(1) str1 s(1) by (simp add: log_ok_def)
  show ?thesis
  proof (cases "rollSize st < length (s @ msg)")
    case False
    then have "log_ok orig (ls @ [msg]) st1" using assms(1) same files1 text1 str1 s(5) by (simp add: log_ok_def)
    then show ?thesis using app False same by (simp add: log_file_outpuut_def)
  next
    case True
    obtain new where new: "get_log_file_name tm st1 = Some new"
      using get_log_file_name_ok[OF assms(2), of st1] assms(1) same by (auto simp: log_ok_def)
    define st2 where "st2 = st1\<lparr>fp_f := None, writtenBytes := 0\<rparr>"
    define st3 where "st3 = st2\<lparr>fp_f := Some new, writtenBytes := 0,
      log_fs := (case fs_files (log_fs st2) new of None \<Rightarrow> fs_write new [] (log_fs st2) | Some _ \<Rightarrow> log_fs st2), streams := streams st2 @ [(new, [])]\<rparr>"
    have st2: "fp_f st2 = None" "log_fs st2 = log_fs st1" by (simp_all add: st2_def)
    have "\<not> fs_denied (log_fs st1) new" using assms(1) same by (simp add: log_ok_def)
    then have "open_log_file new st2 = Some st3" using st2 by (simp add: open_log_file_def st3_def)
    then have res: "log_file_outpuut xs tm msg st = Some st3"
      using app True same new by (simp add: log_file_outpuut_def log_file_roll_file_def close_log_file_def st2_def)
    have "files_ok orig st3" unfolding st3_def using files1 by (intro files_ok_open) (simp add: st2_def files_ok_def)
    moreover have "streams st3 = (old @ [(name, s @ msg)]) @ [(new, [])]" by (simp add: st3_def st2_def str1)
    moreover have "fs_denied (log_fs st3) = fs_denied (log_fs st1)" by (simp add: st3_def st2_def fs_write_def split: option.splits)
    ultimately have "log_ok orig (ls @ [msg]) st3"
      using assms(1) same text1 str1 s(5) True by (simp add: log_ok_def st3_def st2_def)
    then show ?thesis using res same by (simp add: st3_def st2_def)
  qed
qed

lemma log_msg_ok:
  assumes "log_ok orig ls st" "tm_ok (c_tm c)" "counts_go_on (c_counts c)" "length (call_line c) < 4096"
  shows "\<exists>st'. log_msg (c_counts c) (c_tm c) (c_level c) (c_file c) (c_fun c) (c_num c) (c_text c) st = Some st' \<and>
    log_ok orig (ls @ (if INFO \<le> c_level c then [call_line c] else [])) st' \<and> rollSize st' = rollSize st"
proof -
  have o: "out_f st = Some FileOut" "lev_f st = INFO" using assms(1) by (auto simp: log_ok_def)
  show ?thesis
  proof (cases "INFO \<le> c_level c")
    case True
    then show ?thesis using log_file_outpuut_ok[OF assms(1-3), of "call_line c"] o assms(4)
      by (simp add: log_msg_def Let_def call_line_def not_less[symmetric])
  next
    case False
    then show ?thesis using o assms(1) by (auto simp: log_msg_def not_le dest: leD)
  qed
qed

lemma log_calls_ok:
  assumes "log_ok orig ls st" "list_all (\<lambda>c. tm_ok (c_tm c) \<and> counts_go_on (c_counts c) \<and> length (call_line c) < 4096) cs"
  shows "\<exists>st'. log_calls cs st = Some st' \<and> log_ok orig (ls @ map call_line (filter (\<lambda>c. INFO \<le> c_level c) cs)) st' \<and> rollSize st' = rollSize st"
  using assms
proof (induction cs arbitrary: ls st)
  case (Cons c cs)
  obtain st1 where st1: "log_msg (c_counts c) (c_tm c) (c_level c) (c_file c) (c_fun c) (c_num c) (c_text c) st = Some st1"
    "log_ok orig (ls @ (if INFO \<le> c_level c then [call_line c] else [])) st1" "rollSize st1 = rollSize st"
    using log_msg_ok[OF Cons.prems(1), of c] Cons.prems(2) by auto
  show ?case using Cons.IH[OF st1(2)] Cons.prems(2) st1 by (auto split: if_splits)
qed simp

lemma log_set_filename_ok:
  assumes "fp_f st = None" "streams st = []" "base_file_name st = []" "\<And>f. \<not> fs_denied (log_fs st) f" "tm_ok tm"
    and "length (cstr name) + LOG_RECORD_FILE_SUFFIXLEN < LOG_RECORD_FILE_NAMELEN" "0 \<le> sz" "sz < 2 ^ 63"
  shows "\<exists>st'. log_set_filename tm name sz st = Some st' \<and> log_ok (log_fs st) [] st' \<and> rollSize st' = nat sz"
proof -
  define st1 where "st1 = st\<lparr>base_file_name := cstr name, rollSize := nat sz, out_f := Some FileOut, time_zone := 8, lev_f := INFO\<rparr>"
  have b: "put_bytes [] 0 (cstr name) = cstr name" "sz mod 2 ^ 64 = sz" "cstr (cstr name) = cstr name"
    using assms(7,8) by (auto simp: put_bytes_def cstr_no_NUL)
  have st1: "fp_f st1 = None" "streams st1 = []" "log_fs st1 = log_fs st" "time_zone st1 = 8" "base_file_name st1 = cstr name" "rollSize st1 = nat sz"
    "out_f st1 = Some FileOut" "lev_f st1 = INFO"
    using assms(1,2) by (simp_all add: st1_def)
  obtain new where new: "get_log_file_name tm st1 = Some new" using get_log_file_name_ok[OF assms(5), of st1] assms(6) st1 b(3) by auto
  let ?st2 = "st1\<lparr>fp_f := Some new, writtenBytes := 0,
    log_fs := (case fs_files (log_fs st1) new of None \<Rightarrow> fs_write new [] (log_fs st1) | Some _ \<Rightarrow> log_fs st1), streams := streams st1 @ [(new, [])]\<rparr>"
  have res: "log_set_filename tm name sz st = Some ?st2"
    using assms(3,4,6) new st1 b(1,2) by (simp add: log_set_filename_def log_file_roll_file_def open_log_file_def st1_def[symmetric])
  have "files_ok (log_fs st) st1" using st1 by (simp add: files_ok_def)
  then have "files_ok (log_fs st) ?st2" by (rule files_ok_open)
  moreover have "fs_denied (log_fs ?st2) f = fs_denied (log_fs st) f" for f using st1(3) by (simp add: fs_write_def split: option.splits)
  ultimately have "log_ok (log_fs st) [] ?st2" using st1 assms(4,6) b(3) by (simp add: log_ok_def)
  then show ?thesis using res st1 by simp
qed

text \<open>
  C30. From \<^verbatim>\<open>log_set_filename\<close> on, while the stream takes something in every repeated call, every line of a level that is logged is written completely, once and in order, also when it is accepted in parts: the texts of the
  streams one after another are the lines. A stream is left exactly when it is longer than the roll size, and each file
  has its old contents followed by what was written to it.
\<close>

theorem log_lines_kept:
  assumes "fp_f st = None" "streams st = []" "base_file_name st = []" "\<And>f. \<not> fs_denied (log_fs st) f" "tm_ok tm"
    and "length (cstr name) + 64 < 512" "0 \<le> sz" "sz < 2 ^ 63"
    and "list_all (\<lambda>c. tm_ok (c_tm c) \<and> counts_go_on (c_counts c) \<and> length (call_line c) < 4096) cs"
  shows "\<exists>st' old last_name s. Option.bind (log_set_filename tm name sz st) (log_calls cs) = Some st' \<and>
    streams st' = old @ [(last_name, s)] \<and> length s \<le> nat sz \<and> list_all (\<lambda>(n, t). nat sz < length t) old \<and>
    concat (map snd (streams st')) = concat (map call_line (filter (\<lambda>c. INFO \<le> c_level c) cs)) \<and>
    (\<forall>f. fs_files (log_fs st') f = (if f \<in> fst ` set (streams st') then Some (old_text (log_fs st) f @ stream_text f (streams st')) else fs_files (log_fs st) f))"
proof -
  obtain st1 where st1: "log_set_filename tm name sz st = Some st1" "log_ok (log_fs st) [] st1" "rollSize st1 = nat sz"
    using log_set_filename_ok[of st tm name sz] assms by (auto simp: LOG_RECORD_FILE_SUFFIXLEN_def LOG_RECORD_FILE_NAMELEN_def)
  obtain st' where "log_calls cs st1 = Some st'" "log_ok (log_fs st) (map call_line (filter (\<lambda>c. INFO \<le> c_level c) cs)) st'" "rollSize st' = nat sz"
    using log_calls_ok[OF st1(2) assms(9)] st1(3) by auto
  then show ?thesis using st1(1) by (auto simp: log_ok_def files_ok_def)
qed

definition log_start :: LOG_STATE where
  "log_start = \<lparr>out_f = None, time_zone = 0, lev_f = TRACE, fp_f = None, writtenBytes = 0, rollSize = 0, base_file_name = [], log_stdout = [],
     log_fs = \<lparr>fs_files = Map.empty, fs_denied = (\<lambda>_. False)\<rparr>, streams = []\<rparr>"

definition sample_tm :: log_tm where
  "sample_tm = \<lparr>tm_year = 117, tm_mon = 7, tm_mday = 9, tm_hour = 20, tm_min = 5, tm_sec = 0\<rparr>"

definition sample_call :: log_call where
  "sample_call = \<lparr>c_counts = [0, 5, 2], c_tm = sample_tm, c_level = WARN, c_file = ''a.c'', c_fun = ''main'', c_num = 3, c_text = ''low''\<rparr>"

theorem log_lines_kept_witness:
  "\<exists>st' old last_name s. Option.bind (log_set_filename sample_tm ''run'' 10 log_start) (log_calls [sample_call]) = Some st' \<and>
    streams st' = old @ [(last_name, s)] \<and> length s \<le> 10 \<and> list_all (\<lambda>(n, t). 10 < length t) old \<and>
    concat (map snd (streams st')) = call_line sample_call"
proof -
  have "dec_int 3 = ''3''" by code_simp
  then have "list_all (\<lambda>c. tm_ok (c_tm c) \<and> counts_go_on (c_counts c) \<and> length (call_line c) < 4096) [sample_call]"
    by (simp add: sample_call_def sample_tm_def tm_ok_def counts_go_on_def call_line_def log_line_def)
  moreover have "tm_ok sample_tm" by (simp add: sample_tm_def tm_ok_def)
  moreover have "INFO \<le> c_level sample_call" by (simp add: sample_call_def less_eq_LOG_LEVEL_def)
  ultimately show ?thesis
    using log_lines_kept[of log_start sample_tm "''run''" 10 "[sample_call]"] by (simp add: log_start_def) blast
qed

text \<open>The hour of the name is not reduced: at 20 hours UTC it is 28.\<close>

lemma log_name_hour: "log_suffix 8 sample_tm = ''.20170809-280500.log''"
  by code_simp

end
