(* ===== verification/Mac_Table.thy ===== *)
theory Mac_Table
  imports Frame_Tool
begin

text \<open>
  The converter of \<^verbatim>\<open>module_function/file_trans_tools.c\<close>: it reads lines with a six character prefix and a company from \<^verbatim>\<open>mac.txt\<close> and
  writes an SQL statement for each to \<^verbatim>\<open>term_comp.sql\<close>. The file has its own copies of two functions of \<^verbatim>\<open>frame_tool.c\<close>.
\<close>

section \<open>Definitions\<close>

definition quote :: string where
  "quote = [CHR 0x22]"

text \<open>The text of the statement; \<^verbatim>\<open>sql\<close> has 2048 bytes.\<close>

definition sql_text :: "string \<Rightarrow> string \<Rightarrow> string" where
  "sql_text mac com =
     ''INSERT INTO elefence_terminal_company (`machdr`,`company_en`,`company_cn`) VALUES('' @ quote @ mac @ quote @ '','' @
     quote @ com @ quote @ '','' @ quote @ com @ quote @ '') ON DUPLICATE KEY UPDATE `company_en` = '' @ quote @ com @ quote @ '';'' @ [CHR 0x0A]"

definition make_sql_sentence :: "string \<Rightarrow> string \<Rightarrow> string option" where
  "make_sql_sentence mac com = (let s = sql_text (cstr mac) (cstr com) in if length s < 2048 then Some s else None)"

text \<open>The loop that copies the prefix and puts a dash behind the second and the fourth character.\<close>

fun mac_loop :: "nat \<Rightarrow> string \<Rightarrow> string" where
  "mac_loop i [] = []"
| "mac_loop i (c # cs) = (if i < 6 then (if i > 0 \<and> i mod 2 = 1 \<and> i < 5 then c # CHR ''-'' # mac_loop (i + 1) cs else c # mac_loop (i + 1) cs) else [])"

text \<open>
  \<^verbatim>\<open>read_mac_file\<close> on the rest of the file, into arrays that are zero: the prefix and the company with the rest behind
  them, or \<open>Inl\<close> for the return of -1. A line of which the part behind the comma does not fit is undefined; without anything behind it the
  length of the copy is -1.
\<close>

function read_mac_file :: "string \<Rightarrow> (string + string \<times> string \<times> string) option" where
  "read_mac_file s =
     (case getline s of
        None \<Rightarrow> Some (Inl [])
      | Some (line, rest) \<Rightarrow>
          if length line < 6 then Some (Inl rest)
          else (case framestr_frist_constchar (Some line) (CHR '','') of
                  None \<Rightarrow> read_mac_file rest
                | Some seq \<Rightarrow>
                    if seq \<noteq> 6 then read_mac_file rest
                    else let com = cstr (drop (seq + 1) line); len = int (frame_strlen (Some (drop (seq + 1) line))) - 1 in
                         if len < 0 \<or> len > 1024 then None
                         else Some (Inr (mac_loop 0 line, take (nat len) com, rest))))"
  by pat_completeness auto
termination by (relation "measure length") (auto dest: getline_shorter)

declare read_mac_file.simps [simp del]

lemma read_mac_file_shorter: "read_mac_file s = Some (Inr (m, c, r)) \<Longrightarrow> length r < length s"
proof (induction s rule: read_mac_file.induct)
  case (1 s)
  obtain line rest where g: "getline s = Some (line, rest)"
    using 1(3) by (subst (asm) read_mac_file.simps) (auto split: option.splits)
  note less = getline_shorter[OF g] and step = 1(3)[unfolded read_mac_file.simps[of s] g option.case prod.case]
  show ?case
  proof (cases "framestr_frist_constchar (Some line) (CHR '','')")
    case None
    then show ?thesis using 1(1)[OF g] step less by (simp split: if_splits)
  next
    case (Some seq)
    then show ?thesis using 1(2)[OF g _ _ Some] step less by (cases "seq = 6") (simp_all add: Let_def split: if_splits)
  qed
qed

text \<open>\<^verbatim>\<open>trans_mac_sql_file\<close>: what is written to the output. A company of 1024 bytes has no end in its array.\<close>

function trans_mac_sql_file :: "string \<Rightarrow> string option" where
  "trans_mac_sql_file s =
     (case read_mac_file s of
        None \<Rightarrow> None
      | Some (Inl _) \<Rightarrow> Some []
      | Some (Inr (mac, com, rest)) \<Rightarrow>
          if length com \<ge> 1024 then None
          else do {
            sql \<leftarrow> make_sql_sentence mac com;
            out \<leftarrow> trans_mac_sql_file rest;
            Some (sql @ out)
          })"
  by pat_completeness auto
termination by (relation "measure length") (auto dest: read_mac_file_shorter)

declare trans_mac_sql_file.simps [simp del]

section \<open>The program\<close>

text \<open>
  \<^verbatim>\<open>init_open_file\<close>: which of the two files are open, and the file system, in which the output file has become empty. Behind the second \<^verbatim>\<open>fopen\<close> the first pointer is looked at
  again, so that an output file that cannot be opened goes unnoticed.
\<close>

definition init_open_file :: "file_system \<Rightarrow> bool \<times> bool \<times> file_system" where
  "init_open_file fs =
     (if \<not> can_open fs ''mac.txt'' then (False, False, fs)
      else if fs_denied fs ''term_comp.sql'' then (True, False, fs)
      else (True, True, fs\<lparr>fs_files := (fs_files fs)(''term_comp.sql'' \<mapsto> [])\<rparr>))"

text \<open>Reading from a file that is not open, and writing to one, are undefined; \<^verbatim>\<open>main\<close> does not look at the result of \<^verbatim>\<open>init_open_file\<close>.\<close>

definition converter_main :: "file_system \<Rightarrow> file_system option" where
  "converter_main fs =
     (case init_open_file fs of (can_read, can_write, fs1) \<Rightarrow>
        if \<not> can_read then None
        else do {
          out \<leftarrow> trans_mac_sql_file (the (fs_files fs ''mac.txt''));
          if can_write then Some (fs1\<lparr>fs_files := (fs_files fs1)(''term_comp.sql'' \<mapsto> out)\<rparr>)
          else if out = [] then Some fs1 else None
        })"

section \<open>What is written\<close>

definition is_line :: "string \<Rightarrow> bool" where
  "is_line l \<longleftrightarrow> (\<exists>s. l = s @ [CHR 0x0A] \<and> CHR 0x0A \<notin> set s \<and> NUL \<notin> set s)"

text \<open>A row of the table, its prefix and its company.\<close>

definition is_row :: "string \<Rightarrow> bool" where
  "is_row l \<longleftrightarrow> first_index (\<lambda>c. c = CHR '','') l = Some 6"

definition row_mac :: "string \<Rightarrow> string" where
  "row_mac l = take 2 l @ ''-'' @ take 2 (drop 2 l) @ ''-'' @ take 2 (drop 4 l)"

definition row_company :: "string \<Rightarrow> string" where
  "row_company l = butlast (drop 7 l)"

definition row_sql :: "string \<Rightarrow> string" where
  "row_sql l = sql_text (row_mac l) (row_company l)"

definition table_rows :: "string list \<Rightarrow> string list" where
  "table_rows ls = filter is_row (takeWhile (\<lambda>l. 6 \<le> length l) ls)"

lemma getline_line: "is_line l \<Longrightarrow> getline (l @ rest) = Some (l, rest)"
proof -
  assume "is_line l"
  then obtain s where s: "l = s @ [CHR 0x0A]" "CHR 0x0A \<notin> set s" by (auto simp: is_line_def)
  then have "first_index (\<lambda>c. c = CHR 0x0A) (l @ rest) = Some (length s)"
    by (intro first_index_SomeI) (auto simp: nth_append in_set_conv_nth)
  then show ?thesis using s(1) by (simp add: getline_def)
qed

lemma is_line_cstr: "is_line l \<Longrightarrow> NUL \<notin> set l" "is_line l \<Longrightarrow> cstr l = l" "is_line l \<Longrightarrow> cstr (drop k l) = drop k l"
  by (auto simp: is_line_def intro!: cstr_no_NUL dest: in_set_dropD)

lemma mac_loop_six:
  assumes "6 \<le> length l"
  shows "mac_loop 0 l = row_mac l"
proof -
  obtain a b c d e f r where "l = a # b # c # d # e # f # r"
    using assms by (auto simp: Suc_le_length_iff numeral_eq_Suc)
  then show ?thesis by (cases r) (simp_all add: row_mac_def)
qed

lemma read_mac_line:
  assumes "is_line l"
  shows "read_mac_file (l @ rest) =
    (if length l < 6 then Some (Inl rest) else if is_row l
     then (if length (row_company l) > 1024 then None else Some (Inr (row_mac l, row_company l, rest))) else read_mac_file rest)"
proof -
  have f: "framestr_frist_constchar (Some l) (CHR '','') = first_index (\<lambda>c. c = CHR '','') l"
    by (simp add: framestr_frist_constchar_eq is_line_cstr(2)[OF assms])
  have row: "7 < length l" if "is_row l"
  proof -
    have *: "6 < length l" "l ! 6 = CHR '',''" using first_index_SomeD[OF that[unfolded is_row_def]] by auto
    have "last l = CHR 0x0A" "l \<noteq> []" using assms by (auto simp: is_line_def)
    then have "l ! (length l - 1) = CHR 0x0A" by (simp add: last_conv_nth)
    then show ?thesis using * by (cases "length l = 7") auto
  qed
  have "int (length (drop 7 l)) - 1 = int (length (row_company l))" if "is_row l" using row[OF that] by (simp add: row_company_def)
  moreover have "take (length (row_company l)) (drop 7 l) = row_company l" by (simp add: row_company_def butlast_conv_take)
  ultimately show ?thesis
    using f row mac_loop_six[of l] is_line_cstr(3)[OF assms, of 7]
    by (subst read_mac_file.simps) (auto simp: getline_line[OF assms] is_row_def Let_def split: option.splits)
qed

lemma make_row_sql:
  "is_line l \<Longrightarrow> is_row l \<Longrightarrow> length (row_sql l) < 2048 \<Longrightarrow> make_sql_sentence (row_mac l) (row_company l) = Some (row_sql l)"
proof -
  assume l: "is_line l" and "is_row l" and fits: "length (row_sql l) < 2048"
  have "NUL \<notin> set (row_mac l)" "NUL \<notin> set (row_company l)"
    using is_line_cstr(1)[OF l] by (auto simp: row_mac_def row_company_def dest!: in_set_takeD in_set_dropD in_set_butlastD)
  then show ?thesis using fits by (simp add: make_sql_sentence_def row_sql_def cstr_no_NUL)
qed

text \<open>
  C31. The converter on a table of lines that end in a newline writes the statement of every row in front of the first line with fewer than six
  characters, in the order of the table and nothing else, when the company and the statement of every row fit their arrays.
\<close>

theorem mac_table_converted:
  assumes "\<forall>l\<in>set ls. is_line l \<and> (is_row l \<longrightarrow> length (row_company l) < 1024 \<and> length (row_sql l) < 2048)"
  shows "trans_mac_sql_file (concat ls) = Some (concat (map row_sql (table_rows ls)))"
  using assms
proof (induction ls)
  case Nil
  show ?case by (simp add: trans_mac_sql_file.simps[of "[]"] read_mac_file.simps[of "[]"] getline_def table_rows_def)
next
  case (Cons l ls)
  then have IH: "trans_mac_sql_file (concat ls) = Some (concat (map row_sql (table_rows ls)))" and l: "is_line l" by auto
  note r = read_mac_line[OF l, of "concat ls"]
  consider "length l < 6" | "6 \<le> length l" "\<not> is_row l" | "6 \<le> length l" "is_row l" by linarith
  then show ?case
  proof cases
    case 2
    have "trans_mac_sql_file (concat (l # ls)) = trans_mac_sql_file (concat ls)"
      using 2 r by (simp add: trans_mac_sql_file.simps[of "l @ concat ls"] trans_mac_sql_file.simps[of "concat ls"])
    then show ?thesis using IH 2 by (simp add: table_rows_def)
  next
    case 3
    then show ?thesis
      using r IH make_row_sql[OF l] Cons.prems by (subst trans_mac_sql_file.simps) (simp add: table_rows_def)
  qed (use r in \<open>simp add: trans_mac_sql_file.simps[of "l @ concat ls"] table_rows_def\<close>)
qed

lemmas mac_eval = is_row_def row_company_def row_sql_def row_mac_def sql_text_def table_rows_def quote_def

theorem mac_table_converted_witness:
  "trans_mac_sql_file (concat [''0080C2,IEEE'' @ [CHR 0x0A], ''comment'' @ [CHR 0x0A], [CHR 0x0A], ''0080C3,B'' @ [CHR 0x0A]]) =
   Some (sql_text ''00-80-C2'' ''IEEE'')"
  using mac_table_converted[of "[''0080C2,IEEE'' @ [CHR 0x0A], ''comment'' @ [CHR 0x0A], [CHR 0x0A], ''0080C3,B'' @ [CHR 0x0A]]"]
  by (simp add: mac_eval is_line_def)

text \<open>A last line without a newline loses the last character of its company, because the length is always reduced by one.\<close>

lemma mac_last_line_cut: "trans_mac_sql_file ''0080C2,IEEE'' = Some (sql_text ''00-80-C2'' ''IEE'')"
  by code_simp

text \<open>
  With both files the output file holds what the converter makes of the input, and nothing else changes. Without the input file, or with rows and no permission to write, the program is undefined.
\<close>

lemma converter_writes:
  assumes "fs_files fs ''mac.txt'' = Some s" "\<not> fs_denied fs ''mac.txt''" "\<not> fs_denied fs ''term_comp.sql''" "trans_mac_sql_file s = Some out"
  shows "converter_main fs = Some (fs\<lparr>fs_files := (fs_files fs)(''term_comp.sql'' \<mapsto> out)\<rparr>)"
  using assms by (simp add: converter_main_def init_open_file_def can_open_def)

lemma converter_undefined:
  "\<not> can_open fs ''mac.txt'' \<Longrightarrow> converter_main fs = None"
  "can_open fs ''mac.txt'' \<Longrightarrow> fs_denied fs ''term_comp.sql'' \<Longrightarrow> trans_mac_sql_file (the (fs_files fs ''mac.txt'')) = Some (c # cs) \<Longrightarrow> converter_main fs = None"
  by (simp_all add: converter_main_def init_open_file_def)

end
