(* ===== verification/Ack_Scan.thy ===== *)
theory Ack_Scan
  imports C_Prelude "HOL-Library.Word" "HOL-Library.Monad_Syntax"
begin

unbundle bit_operations_syntax

text \<open>
  The scan of \<^verbatim>\<open>module_function/tcp_ack_scan.c\<close>: it sends an ACK segment to the ports 0 to 1023 of a host through a raw socket and reports a
  port when the packet that comes back has the RST flag. Memory is a list of bytes; the machine is little endian. What the kernel answers is a
  record of arguments.
\<close>

section \<open>Bytes and headers\<close>

type_synonym byte = "8 word"

definition bytes16 :: "16 word \<Rightarrow> byte list" where
  "bytes16 w = [ucast w, ucast (drop_bit 8 w)]"

definition bytes32 :: "32 word \<Rightarrow> byte list" where
  "bytes32 w = [ucast w, ucast (drop_bit 8 w), ucast (drop_bit 16 w), ucast (drop_bit 24 w)]"

definition htons :: "16 word \<Rightarrow> 16 word" where
  "htons w = push_bit 8 w OR drop_bit 8 w"

definition htonl :: "32 word \<Rightarrow> 32 word" where
  "htonl w = push_bit 24 w OR push_bit 16 (take_bit 8 (drop_bit 8 w)) OR push_bit 8 (take_bit 8 (drop_bit 16 w)) OR drop_bit 24 w"

record tcphdr =
  tcp_source :: "16 word"
  tcp_dest :: "16 word"
  tcp_seq :: "32 word"
  tcp_ack_seq :: "32 word"
  tcp_res1 :: "4 word"
  tcp_doff :: "4 word"
  tcp_fin :: bool
  tcp_syn :: bool
  tcp_rst :: bool
  tcp_psh :: bool
  tcp_ack :: bool
  tcp_urg :: bool
  tcp_res2 :: "2 word"
  tcp_window :: "16 word"
  tcp_check :: "16 word"
  tcp_urg_ptr :: "16 word"

record iphdr =
  ip_ihl :: "4 word"
  ip_version :: "4 word"
  ip_tos :: byte
  ip_tot_len :: "16 word"
  ip_id :: "16 word"
  ip_frag_off :: "16 word"
  ip_ttl :: byte
  ip_protocol :: byte
  ip_check :: "16 word"
  ip_saddr :: "32 word"
  ip_daddr :: "32 word"

record csum_header =
  cs_source_address :: "32 word"
  cs_dest_address :: "32 word"
  cs_placeholder :: byte
  cs_protocol :: byte
  cs_tcp_length :: "16 word"
  cs_tcp :: tcphdr

text \<open>The bit fields of a byte start at its lowest bit.\<close>

definition flag_byte :: "tcphdr \<Rightarrow> byte" where
  "flag_byte t =
     of_bool (tcp_fin t) OR push_bit 1 (of_bool (tcp_syn t)) OR push_bit 2 (of_bool (tcp_rst t)) OR push_bit 3 (of_bool (tcp_psh t)) OR
     push_bit 4 (of_bool (tcp_ack t)) OR push_bit 5 (of_bool (tcp_urg t)) OR push_bit 6 (ucast (tcp_res2 t))"

definition tcphdr_bytes :: "tcphdr \<Rightarrow> byte list" where
  "tcphdr_bytes t =
     bytes16 (tcp_source t) @ bytes16 (tcp_dest t) @ bytes32 (tcp_seq t) @ bytes32 (tcp_ack_seq t) @
     [ucast (tcp_res1 t) OR push_bit 4 (ucast (tcp_doff t)), flag_byte t] @
     bytes16 (tcp_window t) @ bytes16 (tcp_check t) @ bytes16 (tcp_urg_ptr t)"

definition iphdr_bytes :: "iphdr \<Rightarrow> byte list" where
  "iphdr_bytes h =
     [ucast (ip_ihl h) OR push_bit 4 (ucast (ip_version h)), ip_tos h] @ bytes16 (ip_tot_len h) @ bytes16 (ip_id h) @
     bytes16 (ip_frag_off h) @ [ip_ttl h, ip_protocol h] @ bytes16 (ip_check h) @ bytes32 (ip_saddr h) @ bytes32 (ip_daddr h)"

definition csum_header_bytes :: "csum_header \<Rightarrow> byte list" where
  "csum_header_bytes p =
     bytes32 (cs_source_address p) @ bytes32 (cs_dest_address p) @ [cs_placeholder p, cs_protocol p] @ bytes16 (cs_tcp_length p) @
     tcphdr_bytes (cs_tcp p)"

section \<open>The checksum\<close>

text \<open>
  The sum is a \<^verbatim>\<open>long\<close>; \<^verbatim>\<open>nbytes\<close> is an \<^verbatim>\<open>int\<close>, so that at most \<open>2 ^ 30\<close> words of 16 bits are added and nothing overflows.
  Reading behind the memory is \<open>None\<close>.
\<close>

fun sum_loop :: "byte list \<Rightarrow> nat \<Rightarrow> nat \<Rightarrow> nat option" where
  "sum_loop ptr 0 s = Some s"
| "sum_loop ptr (Suc 0) s = (case ptr of [] \<Rightarrow> None | a # _ \<Rightarrow> Some (s + unat a))"
| "sum_loop ptr (Suc (Suc n)) s =
     (case ptr of a # b # r \<Rightarrow> sum_loop r n (s + unat (ucast a + 256 * ucast b :: 16 word)) | _ \<Rightarrow> None)"

definition checksum :: "byte list \<Rightarrow> nat \<Rightarrow> 16 word option" where
  "checksum ptr nbytes = do {
     s \<leftarrow> sum_loop ptr nbytes 0;
     let s = drop_bit 16 s + take_bit 16 s;
     let s = s + drop_bit 16 s;
     Some (NOT (word_of_nat s))
   }"

section \<open>The scan\<close>

text \<open>
  \<^verbatim>\<open>check_rst_flag\<close> on the buffer, of which the length of the packet is not looked at; the caller's buffer has 65536 bytes, so that the
  largest offset, 60 + 13, is inside.
\<close>

definition check_rst_flag :: "32 word \<Rightarrow> byte list \<Rightarrow> int" where
  "check_rst_flag dest_ip buffer =
     (if buffer ! 9 = 6
      then let iphdrlen = unat (buffer ! 0 AND 15) * 4; rst = bit (buffer ! (iphdrlen + 13)) 2 in
           if rst \<and> take 4 (drop 12 buffer) = bytes32 dest_ip then 1 else 0
      else 0)"

text \<open>
  What the kernel and the C library answer: the address of a string, the address \<^verbatim>\<open>get_source_ip\<close> finds, whether the two sockets are
  made and the option is set, the fresh buffer (\<open>None\<close> when there is no memory), and for every round whether the datagram is
  sent and which packet comes in (\<open>None\<close> for an error).
\<close>

record scan_env =
  inet_addr :: "string \<Rightarrow> 32 word"
  get_source_ip :: "32 word"
  send_socket :: bool
  set_hdrincl :: bool
  recv_socket :: bool
  malloc_buffer :: "byte list option"
  sendto :: "nat \<Rightarrow> bool"
  recvfrom :: "nat \<Rightarrow> byte list option"

text \<open>The outcome: what is returned, the static \<^verbatim>\<open>dest_ip\<close>, the datagrams handed to the kernel and the ports reported.\<close>

record scan_result =
  scan_return :: int
  scan_dest_ip :: "32 word"
  scan_sent :: "byte list list"
  scan_open :: "nat list"

definition scan_iphdr :: "32 word \<Rightarrow> 32 word \<Rightarrow> iphdr" where
  "scan_iphdr src dst =
     \<lparr>ip_ihl = 5, ip_version = 4, ip_tos = 0, ip_tot_len = 20 + 20, ip_id = htons 54321, ip_frag_off = htons 16384, ip_ttl = 64,
      ip_protocol = 6, ip_check = 0, ip_saddr = src, ip_daddr = dst\<rparr>"

definition scan_tcphdr :: tcphdr where
  "scan_tcphdr =
     \<lparr>tcp_source = htons 43591, tcp_dest = htons 8099, tcp_seq = htonl 1105024978, tcp_ack_seq = 0, tcp_res1 = 0, tcp_doff = word_of_nat (20 div 4),
      tcp_fin = False, tcp_syn = False, tcp_rst = False, tcp_psh = False, tcp_ack = True, tcp_urg = False, tcp_res2 = 0,
      tcp_window = htons 14600, tcp_check = 0, tcp_urg_ptr = 0\<rparr>"

definition datagram :: "iphdr \<Rightarrow> tcphdr \<Rightarrow> byte list" where
  "datagram iph tcph = iphdr_bytes iph @ tcphdr_bytes tcph"

text \<open>The segment of a round, with its checksum over the pseudo header.\<close>

definition round_tcphdr :: "32 word \<Rightarrow> 32 word \<Rightarrow> tcphdr \<Rightarrow> nat \<Rightarrow> tcphdr option" where
  "round_tcphdr src dst tcph i = do {
     let tcph = tcph\<lparr>tcp_dest := htons (word_of_nat i), tcp_check := 0\<rparr>;
     let psh = \<lparr>cs_source_address = src, cs_dest_address = dst, cs_placeholder = 0, cs_protocol = 6, cs_tcp_length = htons 20, cs_tcp = tcph\<rparr>;
     c \<leftarrow> checksum (csum_header_bytes psh) 32;
     Some (tcph\<lparr>tcp_check := c\<rparr>)
   }"

definition into_buffer :: "byte list \<Rightarrow> byte list \<Rightarrow> byte list" where
  "into_buffer pkt buffer = (let p = take 65536 pkt in p @ drop (length p) buffer)"

fun scan_loop :: "scan_env \<Rightarrow> 32 word \<Rightarrow> iphdr \<Rightarrow> tcphdr \<Rightarrow> byte list option \<Rightarrow> nat \<Rightarrow> nat \<Rightarrow> (int \<times> byte list list \<times> nat list) option" where
  "scan_loop env dst iph tcph buffer i 0 = Some (0, [], [])"
| "scan_loop env dst iph tcph buffer i (Suc n) = do {
     tcph \<leftarrow> round_tcphdr (get_source_ip env) dst tcph i;
     if \<not> sendto env i then Some (- 3, [], [])
     else (case (buffer, recvfrom env i) of
             (Some b, Some pkt) \<Rightarrow> do {
               let b = into_buffer pkt b;
               (ret, sent, ports) \<leftarrow> scan_loop env dst iph tcph (Some b) (i + 1) n;
               Some (ret, datagram iph tcph # sent, if check_rst_flag dst b > 0 then i # ports else ports)
             }
           | _ \<Rightarrow> Some (- 3, [datagram iph tcph], []))
   }"

definition tcp_ack_scan_server_port :: "scan_env \<Rightarrow> 32 word \<Rightarrow> string \<Rightarrow> scan_result option" where
  "tcp_ack_scan_server_port env dest_ip ip_addr =
     (if \<not> send_socket env then Some \<lparr>scan_return = - 3, scan_dest_ip = dest_ip, scan_sent = [], scan_open = []\<rparr>
      else do {
        let dst = (if inet_addr env ip_addr \<noteq> - 1 then inet_addr env ip_addr else dest_ip);
        let iph = scan_iphdr (get_source_ip env) dst;
        c \<leftarrow> checksum (iphdr_bytes iph) (unat (drop_bit 1 (ip_tot_len iph)));
        let iph = iph\<lparr>ip_check := c\<rparr>;
        if \<not> set_hdrincl env \<or> \<not> recv_socket env then Some \<lparr>scan_return = - 3, scan_dest_ip = dst, scan_sent = [], scan_open = []\<rparr>
        else do {
          (ret, sent, ports) \<leftarrow> scan_loop env dst iph scan_tcphdr (malloc_buffer env) 0 1024;
          Some \<lparr>scan_return = ret, scan_dest_ip = dst, scan_sent = sent, scan_open = ports\<rparr>
        }
      })"

section \<open>The sum of words\<close>

text \<open>The reference: the sum of the little endian words, the last of which may be a single byte.\<close>

fun word_sum :: "byte list \<Rightarrow> nat" where
  "word_sum [] = 0"
| "word_sum [a] = unat a"
| "word_sum (a # b # r) = unat a + 256 * unat b + word_sum r"

lemma byte_less: "unat (a :: byte) < 256"
  using unsigned_less[of a] by simp

lemma unat_pair: "unat (ucast (a :: byte) + 256 * ucast (b :: byte) :: 16 word) = unat a + 256 * unat b"
  using byte_less[of a] byte_less[of b] by (simp add: unat_word_ariths unsigned_ucast_eq take_bit_eq_mod)

lemma sum_loop_eq: "n \<le> length ptr \<Longrightarrow> sum_loop ptr n s = Some (s + word_sum (take n ptr))"
proof (induction ptr n s rule: sum_loop.induct)
  case (3 ptr n s)
  then obtain a b r where "ptr = a # b # r" by (auto simp: Suc_le_length_iff)
  then show ?case using 3 by (simp add: unat_pair)
qed (auto simp: Suc_le_length_iff)

lemma word_sum_append: "even (length a) \<Longrightarrow> word_sum (a @ b) = word_sum a + word_sum b"
  by (induction a rule: word_sum.induct) auto

lemma word_sum_le: "word_sum a \<le> 65535 * length a"
proof (induction a rule: word_sum.induct)
  case (2 a)
  then show ?case using byte_less[of a] by simp
next
  case (3 a b r)
  then show ?case using byte_less[of a] byte_less[of b] by simp
qed simp

lemma word_sum_bytes16: "word_sum (bytes16 w) = unat w"
proof -
  have "unat w < 65536" using unsigned_less[of w, where ?'a = nat] by simp
  then have "unat w div 256 < 256" by simp
  then have "unat (ucast (drop_bit 8 w) :: byte) = unat w div 256"
    by (simp add: unsigned_ucast_eq take_bit_eq_mod unat_div_distrib drop_bit_eq_div)
  moreover have "unat (ucast w :: byte) = unat w mod 256" by (simp add: unsigned_ucast_eq take_bit_eq_mod)
  ultimately show ?thesis by (simp add: bytes16_def)
qed

section \<open>Folding\<close>

definition folded :: "nat \<Rightarrow> nat" where
  "folded s = (let s = drop_bit 16 s + take_bit 16 s; s = s + drop_bit 16 s in take_bit 16 s)"

lemma folded_split:
  assumes "h < 65536" "l < 65536"
  shows "folded (65536 * h + l) = (if h + l < 65536 then h + l else h + l - 65535)"
proof -
  have f: "folded (65536 * h + l) = (h + l + (h + l) div 65536) mod 65536"
    using assms by (simp add: folded_def drop_bit_eq_div take_bit_eq_mod Let_def)
  show ?thesis
  proof (cases "h + l < 65536")
    case False
    then have "(h + l) div 65536 = 1" using assms by (intro div_nat_eqI) auto
    then have "folded (65536 * h + l) = (h + l + 1) mod 65536" using f by simp
    also have "\<dots> = h + l + 1 - 65536" using False assms by (subst mod_if) simp
    finally show ?thesis using False by simp
  qed (use f in simp)
qed

text \<open>The sum folded to sixteen bits is the sum in one's complement: congruent modulo 65535, and zero only for zero.\<close>

lemma folded_mod:
  assumes "s < 2 ^ 32"
  shows "folded s mod 65535 = s mod 65535" and "folded s = 0 \<longleftrightarrow> s = 0" and "folded s < 65536"
proof -
  define h l where "h = s div 65536" and "l = s mod 65536"
  have s: "s = 65536 * h + l" and less: "h < 65536" "l < 65536" using assms by (auto simp: h_def l_def)
  note f = folded_split[OF less, folded s]
  show "folded s = 0 \<longleftrightarrow> s = 0" "folded s < 65536" using f less s by auto
  have "\<exists>k. s = folded s + 65535 * k"
    using f s by (cases "h + l < 65536") (auto intro: exI[of _ h] exI[of _ "h + 1"])
  then show "folded s mod 65535 = s mod 65535" by (metis mod_mult_self2)
qed

lemma unat_not16: "unat (NOT w :: 16 word) = 65535 - unat w"
proof -
  have "NOT w = - 1 - w" by (simp add: not_eq_complement)
  moreover have "unat (- 1 - w) = unat (- 1 :: 16 word) - unat w" by (intro unat_sub) simp
  moreover have "unat (- 1 :: 16 word) = 65535" by (simp add: unsigned_minus_1_eq_mask mask_eq_exp_minus_1)
  ultimately show ?thesis by simp
qed

lemma checksum_some:
  assumes "n \<le> length ptr"
  obtains c where "checksum ptr n = Some c" and "unat c = 65535 - folded (word_sum (take n ptr))"
proof -
  let ?s = "let s = drop_bit 16 (word_sum (take n ptr)) + take_bit 16 (word_sum (take n ptr)) in s + drop_bit 16 s"
  have "checksum ptr n = Some (NOT (word_of_nat ?s))" using sum_loop_eq[OF assms, of 0] by (simp add: checksum_def Let_def)
  moreover have "unat (NOT (word_of_nat ?s) :: 16 word) = 65535 - folded (word_sum (take n ptr))"
    unfolding unat_not16 unsigned_of_nat folded_def Let_def by simp
  ultimately show ?thesis by (rule that)
qed

text \<open>A checksum put into a field that was zero makes the checksum of the whole zero.\<close>

lemma checksum_fills:
  assumes c: "checksum (a @ [0, 0] @ b) (length a + 2 + length b) = Some c" and even: "even (length a)"
    and small: "length a + 2 + length b < 65536"
  shows "checksum (a @ bytes16 c @ b) (length a + 2 + length b) = Some 0"
proof -
  define s where "s = word_sum a + word_sum b"
  let ?n = "length a + 2 + length b"
  have s: "word_sum (take ?n (a @ [0, 0] @ b)) = s" "word_sum (take ?n (a @ bytes16 c @ b)) = s + unat c"
    using even by (simp_all add: word_sum_append word_sum_bytes16 s_def bytes16_def flip: word_sum_bytes16)
  obtain d where d: "checksum (a @ bytes16 c @ b) ?n = Some d" "unat d = 65535 - folded (s + unat c)"
    using checksum_some[of ?n "a @ bytes16 c @ b"] s by (auto simp: bytes16_def)
  have c': "unat c = 65535 - folded s" using checksum_some[of ?n "a @ [0, 0] @ b"] s c by auto
  have "s \<le> 65535 * (length a + length b)" using word_sum_le[of a] word_sum_le[of b] by (simp add: s_def)
  also have "\<dots> \<le> 65535 * 65533" using small by simp
  finally have bound: "s < 2 ^ 32" "s + unat c < 2 ^ 32" using c' by simp_all
  note f = folded_mod[OF bound(1)] and g = folded_mod[OF bound(2)]
  have "(s + unat c) mod 65535 = (folded s + unat c) mod 65535" using f(1) by (metis mod_add_left_eq)
  then have "folded (s + unat c) mod 65535 = 0" using g(1) f(3) c' by simp
  moreover have "folded (s + unat c) \<noteq> 0" using g(2) f(2) c' by auto
  ultimately have "folded (s + unat c) = 65535" using g(3) by (auto simp: mod_eq_0_iff_dvd elim!: dvdE)
  then show ?thesis using d by (simp add: unat_eq_zero)
qed

section \<open>Every datagram is well formed\<close>

lemma byte_lengths [simp]:
  "length (bytes16 w) = 2" "length (bytes32 v) = 4" "length (tcphdr_bytes t) = 20" "length (iphdr_bytes h) = 20" "length (csum_header_bytes p) = 32"
  by (simp_all add: bytes16_def bytes32_def tcphdr_bytes_def iphdr_bytes_def csum_header_bytes_def)

definition pseudo_header :: "32 word \<Rightarrow> 32 word \<Rightarrow> byte list" where
  "pseudo_header src dst = bytes32 src @ bytes32 dst @ [0, 6, 0, 20]"

definition header_checked :: "byte list \<Rightarrow> bool" where
  "header_checked d \<longleftrightarrow> checksum (take 20 d) 20 = Some 0"

definition segment_checked :: "32 word \<Rightarrow> 32 word \<Rightarrow> byte list \<Rightarrow> bool" where
  "segment_checked src dst d \<longleftrightarrow> checksum (pseudo_header src dst @ drop 20 d) 32 = Some 0"

text \<open>The port in network byte order.\<close>

definition dest_port :: "byte list \<Rightarrow> nat" where
  "dest_port d = 256 * unat (d ! 22) + unat (d ! 23)"

lemma checksum_defined: "n \<le> length ptr \<Longrightarrow> \<exists>c. checksum ptr n = Some c"
  by (rule checksum_some) auto

lemma htons_bytes: "bytes16 (htons w) = rev (bytes16 w)"
  by (simp add: bytes16_def htons_def) (auto simp: bit_eq_iff bit_simps)

lemma scan_header_sizes: "unat (tcp_doff scan_tcphdr) * 4 = 20" "unat (ip_ihl (scan_iphdr src dst)) * 4 = 20"
  by (simp_all add: scan_tcphdr_def scan_iphdr_def)

lemma htons_20: "bytes16 (htons 20) = [0, 20]"
  unfolding htons_bytes by (simp add: bytes16_def drop_bit_eq_div)

lemma tcphdr_check_fills:
  assumes "checksum (pseudo_header src dst @ tcphdr_bytes t) 32 = Some c" and "tcp_check t = 0"
  shows "checksum (pseudo_header src dst @ tcphdr_bytes (t\<lparr>tcp_check := c\<rparr>)) 32 = Some 0"
proof -
  let ?a = "pseudo_header src dst @ take 16 (tcphdr_bytes t)"
  have "tcphdr_bytes (t\<lparr>tcp_check := d\<rparr>) = take 16 (tcphdr_bytes t) @ bytes16 d @ bytes16 (tcp_urg_ptr t)" for d
    by (simp add: tcphdr_bytes_def flag_byte_def bytes16_def bytes32_def)
  moreover have "t\<lparr>tcp_check := 0\<rparr> = t" using assms(2) by (cases t) simp
  ultimately have parts: "tcphdr_bytes t = take 16 (tcphdr_bytes t) @ bytes16 0 @ bytes16 (tcp_urg_ptr t)"
    "tcphdr_bytes (t\<lparr>tcp_check := c\<rparr>) = take 16 (tcphdr_bytes t) @ bytes16 c @ bytes16 (tcp_urg_ptr t)" by metis+
  have "checksum (?a @ bytes16 c @ bytes16 (tcp_urg_ptr t)) (length ?a + 2 + 2) = Some 0"
    using assms(1) checksum_fills[of ?a "bytes16 (tcp_urg_ptr t)" c]
    by (subst (asm) parts(1)) (simp add: pseudo_header_def bytes16_def)
  then show ?thesis unfolding parts(2) by (simp add: pseudo_header_def)
qed

lemma iphdr_check_fills:
  assumes "checksum (iphdr_bytes h) 20 = Some c" and "ip_check h = 0"
  shows "checksum (iphdr_bytes (h\<lparr>ip_check := c\<rparr>)) 20 = Some 0"
proof -
  have "iphdr_bytes (h\<lparr>ip_check := d\<rparr>) = take 10 (iphdr_bytes h) @ bytes16 d @ bytes32 (ip_saddr h) @ bytes32 (ip_daddr h)" for d
    by (simp add: iphdr_bytes_def bytes16_def bytes32_def)
  moreover have "h\<lparr>ip_check := 0\<rparr> = h" using assms(2) by (cases h) simp
  ultimately have parts: "iphdr_bytes h = take 10 (iphdr_bytes h) @ bytes16 0 @ bytes32 (ip_saddr h) @ bytes32 (ip_daddr h)"
    "iphdr_bytes (h\<lparr>ip_check := c\<rparr>) = take 10 (iphdr_bytes h) @ bytes16 c @ bytes32 (ip_saddr h) @ bytes32 (ip_daddr h)" by metis+
  show ?thesis
    using assms(1) checksum_fills[of "take 10 (iphdr_bytes h)" "bytes32 (ip_saddr h) @ bytes32 (ip_daddr h)" c]
    by (subst (asm) parts(1)) (simp add: parts(2) bytes16_def)
qed

lemma round_tcphdr_checked:
  obtains t where "round_tcphdr src dst tcph i = Some t"
    "checksum (pseudo_header src dst @ tcphdr_bytes t) 32 = Some 0" "tcp_dest t = htons (word_of_nat i)"
proof -
  let ?t = "tcph\<lparr>tcp_dest := htons (word_of_nat i), tcp_check := 0\<rparr>"
  obtain c where c: "checksum (pseudo_header src dst @ tcphdr_bytes ?t) 32 = Some c"
    using checksum_defined[of 32 "pseudo_header src dst @ tcphdr_bytes ?t"] by (auto simp: pseudo_header_def)
  have "round_tcphdr src dst tcph i = Some (?t\<lparr>tcp_check := c\<rparr>)"
    using c by (simp add: round_tcphdr_def csum_header_bytes_def pseudo_header_def htons_20)
  moreover have "tcp_dest (?t\<lparr>tcp_check := c\<rparr>) = htons (word_of_nat i)" by simp
  ultimately show ?thesis using that tcphdr_check_fills[OF c] by simp
qed

lemma scan_iphdr_checked:
  "checksum (iphdr_bytes (scan_iphdr src dst)) 20 = Some c \<Longrightarrow> checksum (iphdr_bytes (scan_iphdr src dst\<lparr>ip_check := c\<rparr>)) 20 = Some 0"
  by (erule iphdr_check_fills) (simp add: scan_iphdr_def)

lemma datagram_port: "tcp_dest t = htons (word_of_nat i) \<Longrightarrow> i < 65536 \<Longrightarrow> dest_port (datagram h t) = i"
proof -
  assume t: "tcp_dest t = htons (word_of_nat i)" and i: "i < 65536"
  have "datagram h t ! 22 = tcphdr_bytes t ! 2" "datagram h t ! 23 = tcphdr_bytes t ! 3"
    by (simp_all add: datagram_def nth_append)
  then have "datagram h t ! 22 = bytes16 (word_of_nat i) ! 1" "datagram h t ! 23 = bytes16 (word_of_nat i) ! 0"
    using t by (simp_all add: tcphdr_bytes_def htons_bytes nth_append) (simp_all add: bytes16_def)
  then have "dest_port (datagram h t) = word_sum (bytes16 (word_of_nat i))" by (simp add: dest_port_def bytes16_def)
  also have "\<dots> = i" using i by (simp add: word_sum_bytes16 unsigned_of_nat take_bit_eq_mod)
  finally show ?thesis .
qed

lemma scan_loop_checked:
  assumes h: "checksum (iphdr_bytes iph) 20 = Some 0" and "i + n \<le> 65536"
  obtains ret sent ports where "scan_loop env dst iph tcph buffer i n = Some (ret, sent, ports)"
    "list_all (\<lambda>d. header_checked d \<and> segment_checked (get_source_ip env) dst d) sent"
    "map dest_port sent = [i..<i + length sent]"
  using assms(2)
proof (induction n arbitrary: i tcph buffer thesis)
  case (Suc n)
  obtain t where t: "round_tcphdr (get_source_ip env) dst tcph i = Some t"
    "checksum (pseudo_header (get_source_ip env) dst @ tcphdr_bytes t) 32 = Some 0" "tcp_dest t = htons (word_of_nat i)"
    by (rule round_tcphdr_checked)
  let ?d = "datagram iph t"
  have d: "header_checked ?d" "segment_checked (get_source_ip env) dst ?d" "dest_port ?d = i"
    using h t(2) datagram_port[OF t(3), of iph] Suc.prems(2) by (simp_all add: header_checked_def segment_checked_def datagram_def)
  consider "\<not> sendto env i" | "sendto env i" "buffer = None \<or> recvfrom env i = None"
    | b pkt where "sendto env i" "buffer = Some b" "recvfrom env i = Some pkt"
    by (cases buffer; cases "recvfrom env i"; cases "sendto env i") auto
  then show ?case
  proof cases
    case 1
    then show ?thesis using t by (intro Suc.prems(1)) auto
  next
    case 2
    then show ?thesis using t d by (intro Suc.prems(1)[of "- 3" "[?d]" "[]"]) (auto split: option.splits)
  next
    case 3
    let ?b = "into_buffer pkt b"
    obtain ret sent ports where IH: "scan_loop env dst iph t (Some ?b) (i + 1) n = Some (ret, sent, ports)"
      "list_all (\<lambda>d. header_checked d \<and> segment_checked (get_source_ip env) dst d) sent"
      "map dest_port sent = [i + 1..<i + 1 + length sent]"
      using Suc.IH[where i = "i + 1" and tcph = t and buffer = "Some ?b"] Suc.prems(2) by auto
    show ?thesis
      using t d IH 3 by (intro Suc.prems(1)[of ret "?d # sent" "if check_rst_flag dst ?b > 0 then i # ports else ports"])
        (simp_all add: upt_conv_Cons del: upt_Suc)
  qed
qed simp

text \<open>
  C32. Whatever the kernel answers, the scan ends, the datagrams it hands to the kernel are for the ports 0, 1, 2 and so on in this order, and in
  each of them the checksum of the IP header and the checksum of the segment with its pseudo header verify, that is they sum to zero at the receiver.
\<close>

theorem ack_scan_datagrams_valid:
  "\<exists>r. tcp_ack_scan_server_port env dest_ip ip_addr = Some r \<and>
     list_all (\<lambda>d. header_checked d \<and> segment_checked (get_source_ip env) (scan_dest_ip r) d) (scan_sent r) \<and>
     map dest_port (scan_sent r) = [0..<length (scan_sent r)]"
proof -
  define dst where "dst = (if inet_addr env ip_addr \<noteq> - 1 then inet_addr env ip_addr else dest_ip)"
  let ?h = "scan_iphdr (get_source_ip env) dst"
  have len: "unat (drop_bit 1 (ip_tot_len ?h)) = 20" by (simp add: scan_iphdr_def)
  obtain c where c: "checksum (iphdr_bytes ?h) 20 = Some c" using checksum_defined[of 20 "iphdr_bytes ?h"] by auto
  obtain ret sent ports where "scan_loop env dst (?h\<lparr>ip_check := c\<rparr>) scan_tcphdr (malloc_buffer env) 0 1024 = Some (ret, sent, ports)"
    "list_all (\<lambda>d. header_checked d \<and> segment_checked (get_source_ip env) dst d) sent" "map dest_port sent = [0..<0 + length sent]"
    using scan_loop_checked[OF scan_iphdr_checked[OF c], of 0 1024 env dst scan_tcphdr "malloc_buffer env"] by auto
  then show ?thesis
    using c len by (simp add: tcp_ack_scan_server_port_def Let_def flip: dst_def)
qed

section \<open>Which ports are reported\<close>

text \<open>A packet as a host sends it: an IP header of \<^verbatim>\<open>ihl\<close> words with its options, a segment and what follows.\<close>

definition packet :: "iphdr \<Rightarrow> byte list \<Rightarrow> tcphdr \<Rightarrow> byte list \<Rightarrow> byte list" where
  "packet h options t payload = iphdr_bytes h @ options @ tcphdr_bytes t @ payload"

definition packet_ok :: "iphdr \<Rightarrow> byte list \<Rightarrow> byte list \<Rightarrow> bool" where
  "packet_ok h options payload \<longleftrightarrow> 20 + length options = unat (ip_ihl h) * 4 \<and> 40 + length options + length payload \<le> 65536"

definition resets :: "32 word \<Rightarrow> iphdr \<Rightarrow> tcphdr \<Rightarrow> bool" where
  "resets host h t \<longleftrightarrow> ip_protocol h = 6 \<and> tcp_rst t \<and> ip_saddr h = host"

lemma bytes32_inj: "bytes32 a = bytes32 b \<longleftrightarrow> a = b"
proof
  assume eq: "bytes32 a = bytes32 b"
  have eq_bit: "bit (ucast (drop_bit k a) :: byte) m = bit (ucast (drop_bit k b) :: byte) m" if "k \<in> {0, 8, 16, 24}" for k m
    using eq that by (auto simp: bytes32_def)
  show "a = b"
  proof (rule bit_word_eqI)
    fix n assume "n < LENGTH(32)"
    then consider "n < 8" | "n \<ge> 8" "n < 16" | "n \<ge> 16" "n < 24" | "n \<ge> 24" "n < 32" by fastforce
    then show "bit a n = bit b n"
      using eq_bit[of 0 n] eq_bit[of 8 "n - 8"] eq_bit[of 16 "n - 16"] eq_bit[of 24 "n - 24"] by cases (auto simp: bit_simps)
  qed
qed simp

lemma ihl_byte: "unat ((ucast (w :: 4 word) OR push_bit 4 (ucast (v :: 4 word)) :: byte) AND 15) = unat w"
proof -
  have "(ucast w OR push_bit 4 (ucast v) :: byte) AND 15 = take_bit 4 (ucast w OR push_bit 4 (ucast v))"
    by (simp add: take_bit_eq_mask mask_eq_exp_minus_1)
  also have "\<dots> = ucast w"
    by (rule bit_word_eqI) (auto simp: bit_simps dest: bit_imp_le_length)
  moreover have "unat w < 16" using unsigned_less[of w, where ?'a = nat] by simp
  ultimately show ?thesis by (simp add: unsigned_ucast_eq take_bit_eq_mod)
qed

lemma rst_bit: "bit (flag_byte t) 2 = tcp_rst t"
  by (auto simp: flag_byte_def bit_simps)

lemma check_rst_packet:
  assumes "20 + length options = unat (ip_ihl h) * 4"
  shows "check_rst_flag host (packet h options t payload @ rest) = (if resets host h t then 1 else 0)"
proof -
  let ?b = "packet h options t payload @ rest"
  have "?b ! 9 = ip_protocol h" "?b ! 0 = ucast (ip_ihl h) OR push_bit 4 (ucast (ip_version h))" "take 4 (drop 12 ?b) = bytes32 (ip_saddr h)"
    by (simp_all add: packet_def iphdr_bytes_def bytes16_def bytes32_def)
  moreover have "?b ! (20 + length options + 13) = flag_byte t"
    by (simp add: packet_def nth_append) (simp add: tcphdr_bytes_def bytes16_def bytes32_def)
  ultimately show ?thesis
    using assms by (auto simp: check_rst_flag_def Let_def resets_def ihl_byte bytes32_inj rst_bit)
qed

lemma into_buffer_packet: "packet_ok h options payload \<Longrightarrow> into_buffer (packet h options t payload) b =
    packet h options t payload @ drop (length (packet h options t payload)) b"
  by (simp only: into_buffer_def Let_def, subst (1 2) take_all) (auto simp: packet_ok_def packet_def)

lemma scan_loop_reports:
  assumes "\<forall>k\<in>{i..<i + n}. sendto env k \<and> recvfrom env k = Some (packet (iph_of k) (opts k) (seg k) (pay k)) \<and> packet_ok (iph_of k) (opts k) (pay k)"
  shows "\<exists>sent. scan_loop env dst iph tcph (Some b) i n = Some (0, sent, filter (\<lambda>k. resets dst (iph_of k) (seg k)) [i..<i + n]) \<and> length sent = n"
  using assms
proof (induction n arbitrary: i tcph b)
  case (Suc n)
  obtain t where t: "round_tcphdr (get_source_ip env) dst tcph i = Some t" by (rule round_tcphdr_checked)
  let ?b = "into_buffer (packet (iph_of i) (opts i) (seg i) (pay i)) b"
  have i: "sendto env i" "recvfrom env i = Some (packet (iph_of i) (opts i) (seg i) (pay i))" "packet_ok (iph_of i) (opts i) (pay i)"
    using Suc.prems by auto
  have "check_rst_flag dst ?b = (if resets dst (iph_of i) (seg i) then 1 else 0)"
    using i(3) check_rst_packet[of "opts i" "iph_of i"] into_buffer_packet[OF i(3)] by (simp add: packet_ok_def)
  moreover obtain sent where "scan_loop env dst iph t (Some ?b) (i + 1) n =
      Some (0, sent, filter (\<lambda>k. resets dst (iph_of k) (seg k)) [i + 1..<i + 1 + n])" "length sent = n"
    using Suc.IH[of "i + 1" t ?b] Suc.prems by auto
  ultimately show ?case using t i by (simp add: upt_conv_Cons del: upt_Suc)
qed simp

text \<open>
  When the sockets and the memory are granted and every round sends its datagram and receives a packet, the scan sends 1024 datagrams, returns 0,
  and reports exactly the ports in whose round the packet is a reset from the host.
\<close>

lemma ack_scan_reports_resets:
  assumes "send_socket env" "set_hdrincl env" "recv_socket env" "malloc_buffer env = Some b" "inet_addr env ip_addr = host" "host \<noteq> - 1"
    and "\<forall>k\<in>{0..<1024}. sendto env k \<and> recvfrom env k = Some (packet (iph_of k) (opts k) (seg k) (pay k)) \<and> packet_ok (iph_of k) (opts k) (pay k)"
  shows "\<exists>sent. tcp_ack_scan_server_port env dest_ip ip_addr =
      Some \<lparr>scan_return = 0, scan_dest_ip = host, scan_sent = sent, scan_open = filter (\<lambda>k. resets host (iph_of k) (seg k)) [0..<1024]\<rparr> \<and>
    length sent = 1024"
proof -
  let ?h = "scan_iphdr (get_source_ip env) host"
  have len: "unat (drop_bit 1 (ip_tot_len ?h)) = 20" by (simp add: scan_iphdr_def)
  obtain c where c: "checksum (iphdr_bytes ?h) 20 = Some c" using checksum_defined[of 20 "iphdr_bytes ?h"] by auto
  show ?thesis
    using scan_loop_reports[of 0 1024 env iph_of opts seg pay host "?h\<lparr>ip_check := c\<rparr>" scan_tcphdr b] assms c len
    by (auto simp: tcp_ack_scan_server_port_def Let_def)
qed

definition sample_iphdr :: iphdr where
  "sample_iphdr = scan_iphdr 7 9"

definition sample_scan :: scan_env where
  "sample_scan =
     \<lparr>inet_addr = \<lambda>_. 7, get_source_ip = 9, send_socket = True, set_hdrincl = True, recv_socket = True, malloc_buffer = Some [],
      sendto = \<lambda>_. True, recvfrom = \<lambda>k. Some (packet sample_iphdr [] (scan_tcphdr\<lparr>tcp_rst := k = 80\<rparr>) [])\<rparr>"

lemma filter_single: "filter (\<lambda>k. k = a) [0..<n] = (if a < n then [a] else [])"
  by (induction n) auto

lemma ack_scan_reports_resets_witness:
  "\<exists>sent. tcp_ack_scan_server_port sample_scan 0 ''10.0.0.7'' =
      Some \<lparr>scan_return = 0, scan_dest_ip = 7, scan_sent = sent, scan_open = [80]\<rparr> \<and> length sent = 1024"
proof -
  have "filter (\<lambda>k. k = 80) [0..<1024] = [80]" by (simp only: filter_single) simp
  then show ?thesis
    using ack_scan_reports_resets[of sample_scan "[]" "''10.0.0.7''" 7 "\<lambda>_. sample_iphdr" "\<lambda>_. []" "\<lambda>k. scan_tcphdr\<lparr>tcp_rst := k = 80\<rparr>" "\<lambda>_. []" 0]
    by (simp add: sample_scan_def packet_ok_def sample_iphdr_def scan_iphdr_def resets_def)
qed

end
