(* ===== verification/Ps_Setup.thy ===== *)
theory Ps_Setup
  imports Http_Message Ack_Scan
begin

text \<open>
  The set-up of the port scanner, \<^verbatim>\<open>portscan/ps_setup.c\<close>: command line, addresses and ports to scan, the list of jobs and the list of
  results. The lists grow and shrink at their top only, so that they are lists of nodes with the top first; \<^verbatim>\<open>malloc\<close> is taken to succeed, as the
  code does not look at it. \<^verbatim>\<open>gethostbyname\<close> is an argument that gives the first address of a host in dotted form, as \<^verbatim>\<open>push_ip\<close> stores it.
\<close>

section \<open>State\<close>

definition SYN_SCAN :: nat where "SYN_SCAN = 0"
definition NULL_SCAN :: nat where "NULL_SCAN = 1"
definition FIN_SCAN :: nat where "FIN_SCAN = 2"
definition XMAS_SCAN :: nat where "XMAS_SCAN = 3"
definition ACK_SCAN :: nat where "ACK_SCAN = 4"
definition UDP_SCAN :: nat where "UDP_SCAN = 5"

definition R_OPEN :: int where "R_OPEN = 0"
definition R_CLOSED :: int where "R_CLOSED = 1"
definition R_FILTERED :: int where "R_FILTERED = 2"
definition R_OPN_FIL :: int where "R_OPN_FIL = 3"
definition R_UNFILTERED :: int where "R_UNFILTERED = 4"

definition UNASSIGNED :: int where "UNASSIGNED = - 1"
definition NONE :: int where "NONE = - 2"

lemmas scan_kinds = SYN_SCAN_def NULL_SCAN_def FIN_SCAN_def XMAS_SCAN_def ACK_SCAN_def UDP_SCAN_def
lemmas result_kinds = R_OPEN_def R_CLOSED_def R_FILTERED_def R_OPN_FIL_def R_UNFILTERED_def UNASSIGNED_def NONE_def

record job_t =
  job_ip :: string
  job_portno :: int
  job_scan_type :: nat

record result_t =
  res_ip :: string
  res_service :: string
  res_result :: "int list"
  res_conclusion :: int
  res_portno :: int
  res_scan_type :: nat

record ps_state =
  ip_list :: "string list"
  port_list :: "int list"
  job_masterlist :: "job_t list"
  job_list :: "job_t list"
  result_masterlist :: "result_t list"
  ip_list_count :: int
  port_list_count :: int
  job_masterlist_count :: int
  job_list_count :: int
  result_list_count :: int
  scan_flags :: "int list"
  scan_mode :: int
  no_of_threads :: int

definition ps_start :: ps_state where
  "ps_start = \<lparr>ip_list = [], port_list = [], job_masterlist = [], job_list = [], result_masterlist = [], ip_list_count = 0,
     port_list_count = 0, job_masterlist_count = 0, job_list_count = 0, result_list_count = 0, scan_flags = replicate 6 0,
     scan_mode = UNASSIGNED, no_of_threads = 0\<rparr>"

text \<open>A run goes on with a state, ends the process, or is undefined.\<close>

datatype 'a ps_run = PsUndefined | PsExit int | PsRun 'a

fun ps_bind :: "'a ps_run \<Rightarrow> ('a \<Rightarrow> 'b ps_run) \<Rightarrow> 'b ps_run" where
  "ps_bind PsUndefined f = PsUndefined"
| "ps_bind (PsExit c) f = PsExit c"
| "ps_bind (PsRun a) f = f a"

definition ps_defined :: "'a option \<Rightarrow> 'a ps_run" where
  "ps_defined r = (case r of None \<Rightarrow> PsUndefined | Some a \<Rightarrow> PsRun a)"

lemma ps_bind_cong [fundef_cong]: "r = r' \<Longrightarrow> (\<And>a. r' = PsRun a \<Longrightarrow> f a = f' a) \<Longrightarrow> ps_bind r f = ps_bind r' f'"
  by (cases r') auto

section \<open>Lists\<close>

definition push_ip :: "(string \<Rightarrow> string option) \<Rightarrow> string \<Rightarrow> ps_state \<Rightarrow> ps_state" where
  "push_ip host data st =
     (case host data of
        None \<Rightarrow> st
      | Some ip \<Rightarrow> st\<lparr>ip_list := ip # ip_list st, ip_list_count := ip_list_count st + 1\<rparr>)"

definition push_port :: "int \<Rightarrow> ps_state \<Rightarrow> ps_state" where
  "push_port data st =
     (if data > 1024 \<or> data < 1 then st
      else st\<lparr>port_list := data # port_list st, port_list_count := port_list_count st + 1\<rparr>)"

definition push_job :: "string \<Rightarrow> int \<Rightarrow> nat \<Rightarrow> ps_state \<Rightarrow> ps_state" where
  "push_job data port sc st =
     st\<lparr>job_masterlist := \<lparr>job_ip = data, job_portno = port, job_scan_type = sc\<rparr> # job_masterlist st,
        job_masterlist_count := job_masterlist_count st + 1\<rparr>"

definition change_scan_mode :: "int \<Rightarrow> ps_state \<Rightarrow> ps_state" where
  "change_scan_mode scantype st =
     (let st1 = (if scantype \<noteq> NONE then st\<lparr>job_list := job_masterlist st, job_list_count := job_masterlist_count st\<rparr> else st)
      in st1\<lparr>scan_mode := scantype\<rparr>)"

definition get_next_job :: "ps_state \<Rightarrow> job_t option \<times> ps_state" where
  "get_next_job st =
     (case job_masterlist st of
        [] \<Rightarrow> (None, st)
      | j # js \<Rightarrow> (Some j, st\<lparr>job_masterlist := js, job_masterlist_count := job_masterlist_count st - 1\<rparr>))"

definition destroy_iplist :: "ps_state \<Rightarrow> ps_state" where
  "destroy_iplist st = st\<lparr>ip_list := [], ip_list_count := 0\<rparr>"

definition destroy_portlist :: "ps_state \<Rightarrow> ps_state" where
  "destroy_portlist st = st\<lparr>port_list := [], port_list_count := 0\<rparr>"

definition destroy_joblist :: "ps_state \<Rightarrow> ps_state" where
  "destroy_joblist st = st\<lparr>job_masterlist := [], job_list := [], job_list_count := 0, job_masterlist_count := 0\<rparr>"

definition destroy_results :: "ps_state \<Rightarrow> ps_state" where
  "destroy_results st = st\<lparr>result_masterlist := [], result_list_count := 0\<rparr>"

section \<open>Ports\<close>

text \<open>The words \<^verbatim>\<open>strtok\<close> finds one after another.\<close>

function tokens :: "string \<Rightarrow> string \<Rightarrow> string list" where
  "tokens seps s =
     (let s1 = dropWhile (\<lambda>c. c \<in> set seps) s in
      if s1 = [] then [] else takeWhile (\<lambda>c. c \<notin> set seps) s1 # tokens seps (dropWhile (\<lambda>c. c \<notin> set seps) s1))"
  by pat_completeness auto
termination
proof (relation "measure (\<lambda>(seps, s). length s)", goal_cases)
  case (2 seps s s1)
  then have "hd s1 \<notin> set seps" using hd_dropWhile[of "\<lambda>c. c \<in> set seps" s] by simp
  then have "length (dropWhile (\<lambda>c. c \<notin> set seps) s1) < length s1"
    using 2(2) length_dropWhile_le[of "\<lambda>c. c \<notin> set seps" "tl s1"] by (cases s1) auto
  then show ?case using 2(1) length_dropWhile_le[of "\<lambda>c. c \<in> set seps" s] by simp
qed simp

declare tokens.simps [simp del]

text \<open>What is left in the buffer as a string after \<^verbatim>\<open>strtok\<close> has cut it: the first word, with the separators in front of it.\<close>

definition strtok_left :: "string \<Rightarrow> string \<Rightarrow> string" where
  "strtok_left seps s =
     takeWhile (\<lambda>c. c \<in> set seps) s @ takeWhile (\<lambda>c. c \<notin> set seps) (dropWhile (\<lambda>c. c \<in> set seps) s)"

text \<open>
  The ports from a first to a last one. A text without a dash gives the address 1 to the second \<^verbatim>\<open>atoi\<close>; a last port of \<open>2 ^ 31 - 1\<close> has
  no successor.
\<close>

definition get_ports_range :: "string \<Rightarrow> ps_state \<Rightarrow> ps_state ps_run" where
  "get_ports_range word st =
     ps_bind (ps_defined (atoi word)) (\<lambda>init_val.
       case first_index (\<lambda>c. c = CHR ''-'') word of
         None \<Rightarrow> PsUndefined
       | Some p \<Rightarrow> ps_bind (ps_defined (atoi (drop (p + 1) word))) (\<lambda>end_val.
           if init_val \<le> end_val \<and> end_val = 2 ^ 31 - 1 then PsUndefined
           else PsRun (fold push_port [init_val..end_val] st)))"

fun ports_loop :: "string list \<Rightarrow> ps_state \<Rightarrow> ps_state ps_run" where
  "ports_loop [] st = PsRun st"
| "ports_loop (word # ws) st =
     ps_bind (if CHR ''-'' \<in> set word then get_ports_range word st
              else ps_bind (ps_defined (atoi word)) (\<lambda>p. PsRun (push_port p st))) (ports_loop ws)"

definition get_ports :: "string \<Rightarrow> ps_state \<Rightarrow> ps_state ps_run" where
  "get_ports port_args st = ports_loop (tokens '','' port_args) st"

section \<open>Addresses of a prefix\<close>

text \<open>\<^verbatim>\<open>pow\<close> is exact here; from \<open>2 ^ 31\<close> on the conversion to \<^verbatim>\<open>int\<close> is undefined.\<close>

definition get_hostcount :: "int \<Rightarrow> int ps_run" where
  "get_hostcount pfx =
     (if pfx > 32 then PsExit 1
      else if 32 - pfx \<ge> 31 then PsUndefined
      else PsRun (2 ^ nat (32 - pfx) - 2))"

text \<open>
  The loop that clears the bits of the netmask, from bit \<open>i\<close> down to bit 0. An index below zero is outside of the array.
\<close>

definition mask_byte :: "nat \<Rightarrow> int" where
  "mask_byte i =
     (let byte = int ((32 - i) div 8) in
      if i = 0 then byte - 1 else if i mod 8 = 0 then byte - int (i div 8) else byte)"

fun netmask_loop :: "nat \<Rightarrow> byte list \<Rightarrow> byte list option" where
  "netmask_loop 0 netmask = Some netmask"
| "netmask_loop (Suc i) netmask =
     (let byte = mask_byte i in
      if byte < 0 \<or> byte > 3 then None
      else netmask_loop i (netmask[nat byte := netmask ! nat byte AND NOT (push_bit (i mod 8) 1)]))"

definition from_bytes :: "byte list \<Rightarrow> 32 word" where
  "from_bytes bs = ucast (bs ! 0) OR push_bit 8 (ucast (bs ! 1)) OR push_bit 16 (ucast (bs ! 2)) OR push_bit 24 (ucast (bs ! 3))"

text \<open>\<^verbatim>\<open>%d.%d.%d.%d\<close>.\<close>

definition dotted :: "byte list \<Rightarrow> string" where
  "dotted bs = dec_nat (unat (bs ! 0)) @ ''.'' @ dec_nat (unat (bs ! 1)) @ ''.'' @ dec_nat (unat (bs ! 2)) @ ''.'' @ dec_nat (unat (bs ! 3))"

definition host_bytes :: "byte list \<Rightarrow> nat \<Rightarrow> byte list" where
  "host_bytes host i = bytes32 (from_bytes host OR htonl (word_of_nat i))"

definition push_host :: "(string \<Rightarrow> string option) \<Rightarrow> byte list \<Rightarrow> nat \<Rightarrow> ps_state \<Rightarrow> ps_state" where
  "push_host resolve host i st =
     (let name = dotted (host_bytes host i) in if resolve name \<noteq> None then push_ip resolve name st else st)"

definition address_bytes :: "string \<Rightarrow> byte list option" where
  "address_bytes ipAddress =
     (let words = take 4 (tokens ''.'' ipAddress) in
      if list_all (\<lambda>w. atoi w \<noteq> None) words
      then Some (map (\<lambda>w. word_of_int (the (atoi w))) words @ replicate (4 - length words) 0) else None)"

definition get_ipAdresses :: "(string \<Rightarrow> string option) \<Rightarrow> string \<Rightarrow> int \<Rightarrow> ps_state \<Rightarrow> ps_state ps_run" where
  "get_ipAdresses resolve ipAddress pfx st =
     ps_bind (ps_defined (address_bytes ipAddress)) (\<lambda>ip.
     ps_bind (get_hostcount pfx) (\<lambda>hostcount.
     ps_bind (ps_defined (netmask_loop (nat (32 - pfx)) (replicate 4 255))) (\<lambda>netmask.
       let host = map2 (\<lambda>a b. a AND b) ip netmask in
       PsRun (fold (push_host resolve host) [1..<nat hostcount + 1] st))))"


text \<open>
  \<^verbatim>\<open>read_ipAddresses\<close>: every line without its newline. The file is opened twice, first for reading and writing; what is read goes through
  \<^verbatim>\<open>strcspn\<close> and \<^verbatim>\<open>gethostbyname\<close> as a string.
\<close>

function ip_lines :: "(string \<Rightarrow> string option) \<Rightarrow> string \<Rightarrow> ps_state \<Rightarrow> ps_state" where
  "ip_lines resolve s st =
     (case getline s of
        None \<Rightarrow> st
      | Some (line, rest) \<Rightarrow>
          let name = cstr (takeWhile (\<lambda>c. c \<noteq> CHR 0x0A) line)
          in ip_lines resolve rest (if resolve name \<noteq> None then push_ip resolve name st else st))"
  by pat_completeness auto
termination by (relation "measure (\<lambda>(resolve, s, st). length s)") (auto dest: getline_shorter)

declare ip_lines.simps [simp del]

definition read_ipAddresses :: "(string \<Rightarrow> string option) \<Rightarrow> file_system \<Rightarrow> string \<Rightarrow> ps_state \<Rightarrow> int \<times> ps_state" where
  "read_ipAddresses resolve fs filename st =
     (if \<not> can_open fs filename then (1, st) else (0, ip_lines resolve (the (fs_files fs filename)) st))"

section \<open>Jobs\<close>

definition push_ports :: "nat \<Rightarrow> string \<Rightarrow> ps_state \<Rightarrow> ps_state" where
  "push_ports i ip st = fold (\<lambda>port. push_job ip port i) (port_list st) st"

definition jobs_of_scan :: "nat \<Rightarrow> ps_state \<Rightarrow> ps_state" where
  "jobs_of_scan i st = (if scan_flags st ! i = 0 then st else fold (push_ports i) (ip_list st) st)"

definition create_jobs :: "ps_state \<Rightarrow> ps_state ps_run" where
  "create_jobs st =
     (let st1 = fold jobs_of_scan [0..<6] st in
      if job_masterlist st1 = [] then PsExit 1 else PsRun st1)"

section \<open>Results\<close>

definition same_port :: "result_t \<Rightarrow> result_t \<Rightarrow> bool" where
  "same_port r result \<longleftrightarrow> res_portno r = res_portno result \<and> cstr (res_ip r) = cstr (res_ip result)"

text \<open>The conclusion after the six results have been looked at; \<open>10\<close> is no conclusion.\<close>

definition conclude :: "int \<Rightarrow> int list \<Rightarrow> int" where
  "conclude c rs = fold (\<lambda>r c. if r \<noteq> NONE then (if c < r then c else r) else c) rs c"

definition enter_result :: "result_t \<Rightarrow> result_t \<Rightarrow> result_t" where
  "enter_result result r =
     (let rs = (res_result r)[res_scan_type result := res_result result ! res_scan_type result]
      in r\<lparr>res_result := rs, res_conclusion := conclude (res_conclusion r) rs\<rparr>)"

definition new_result :: "result_t \<Rightarrow> result_t" where
  "new_result result = result\<lparr>res_result := replicate 6 NONE, res_conclusion := 10\<rparr>"

fun replace_result :: "result_t \<Rightarrow> result_t list \<Rightarrow> result_t list option" where
  "replace_result result [] = None"
| "replace_result result (r # rs) =
     (if same_port r result then Some (enter_result result r # rs) else map_option ((#) r) (replace_result result rs))"

definition push_result :: "result_t \<Rightarrow> ps_state \<Rightarrow> ps_state" where
  "push_result result st =
     (case replace_result result (result_masterlist st) of
        Some rs \<Rightarrow> st\<lparr>result_masterlist := rs\<rparr>
      | None \<Rightarrow> st\<lparr>result_masterlist := enter_result result (new_result result) # result_masterlist st,
                  result_list_count := result_list_count st + 1\<rparr>)"

section \<open>The command line\<close>

text \<open>What \<^verbatim>\<open>getopt_long\<close> delivers, one option after another.\<close>

datatype ps_opt = OptHelp | OptPorts string | OptIp string | OptPrefix string | OptFile string | OptSpeedup string
  | OptLogfile string | OptVerbose | OptScan string | OptOther

text \<open>
  The local variables of \<^verbatim>\<open>parse_args\<close>: three buffers of 100 bytes and the length of the prefix, which stays for a later option without one.
  \<^verbatim>\<open>scan_args\<close> is not set before \<open>--scan\<close>: it has what was on the stack.
\<close>

record ps_args =
  port_args :: string
  scan_args :: string
  prefix_len :: int

definition prefix_option :: "(string \<Rightarrow> string option) \<Rightarrow> string \<Rightarrow> ps_args \<times> ps_state \<Rightarrow> (ps_args \<times> ps_state) ps_run" where
  "prefix_option resolve arg = (\<lambda>(loc, st).
     case tokens ''/'' arg of
       [] \<Rightarrow> PsUndefined
     | ip # ws \<Rightarrow>
         ps_bind (case ws of [] \<Rightarrow> PsRun (prefix_len loc) | w # _ \<Rightarrow> ps_defined (atoi w)) (\<lambda>n.
         ps_bind (get_ipAdresses resolve ip n st) (\<lambda>st1. PsRun (loc\<lparr>prefix_len := n\<rparr>, st1))))"

fun parse_option ::
  "(string \<Rightarrow> string option) \<Rightarrow> file_system \<Rightarrow> ps_opt \<Rightarrow> ps_args \<times> ps_state \<Rightarrow> (ps_args \<times> ps_state) ps_run" where
  "parse_option resolve fs OptHelp (loc, st) = PsExit 0"
| "parse_option resolve fs (OptPorts a) (loc, st) =
     (if length a \<ge> 100 then PsUndefined
      else ps_bind (get_ports a st) (\<lambda>st1. PsRun (loc\<lparr>port_args := strtok_left '','' a\<rparr>, st1)))"
| "parse_option resolve fs (OptIp a) (loc, st) =
     (if length a \<ge> 100 then PsUndefined else PsRun (loc, if resolve a \<noteq> None then push_ip resolve a st else st))"
| "parse_option resolve fs (OptPrefix a) (loc, st) = (if length a \<ge> 100 then PsUndefined else prefix_option resolve a (loc, st))"
| "parse_option resolve fs (OptFile a) (loc, st) = PsRun (loc, snd (read_ipAddresses resolve fs a st))"
| "parse_option resolve fs (OptSpeedup a) (loc, st) = ps_bind (ps_defined (atoi a)) (\<lambda>n. PsRun (loc, st\<lparr>no_of_threads := n\<rparr>))"
| "parse_option resolve fs (OptLogfile a) (loc, st) = PsRun (loc, st)"
| "parse_option resolve fs OptVerbose (loc, st) = PsRun (loc, st)"
| "parse_option resolve fs (OptScan a) (loc, st) =
     (if length a \<ge> 100 then PsUndefined else PsRun (loc\<lparr>scan_args := a\<rparr>, st\<lparr>scan_flags := replicate 6 0\<rparr>))"
| "parse_option resolve fs OptOther (loc, st) = PsRun (loc, st)"

fun parse_options ::
  "(string \<Rightarrow> string option) \<Rightarrow> file_system \<Rightarrow> ps_opt list \<Rightarrow> ps_args \<times> ps_state \<Rightarrow> (ps_args \<times> ps_state) ps_run" where
  "parse_options resolve fs [] x = PsRun x"
| "parse_options resolve fs (opt # opts) x = ps_bind (parse_option resolve fs opt x) (parse_options resolve fs opts)"

definition scan_names :: "string list" where
  "scan_names = [''SYN'', ''NULL'', ''FIN'', ''XMAS'', ''ACK'', ''UDP'']"

definition scan_word :: "string \<Rightarrow> int list \<Rightarrow> int list" where
  "scan_word w fl = (case first_index (\<lambda>n. n = w) scan_names of None \<Rightarrow> fl | Some i \<Rightarrow> fl[i := 1])"

definition parse_args ::
  "(string \<Rightarrow> string option) \<Rightarrow> file_system \<Rightarrow> string \<Rightarrow> ps_opt list \<Rightarrow> string list \<Rightarrow> ps_state \<Rightarrow> ps_state ps_run" where
  "parse_args resolve fs stack opts rest st =
     ps_bind (parse_options resolve fs opts
        (\<lparr>port_args = ''1-1024'', scan_args = cstr stack, prefix_len = 0\<rparr>, st\<lparr>scan_flags := replicate 6 1, no_of_threads := 0\<rparr>))
       (\<lambda>(loc, st1).
          let scans = scan_args loc @ concat (map (\<lambda>a. '';'' @ a) rest) in
          if length scans \<ge> 100 then PsUndefined
          else ps_bind (if port_list st1 = [] then get_ports_range (port_args loc) st1 else PsRun st1)
            (\<lambda>st2. PsRun (st2\<lparr>scan_flags := fold scan_word (take 7 (tokens '';'' scans)) (scan_flags st2)\<rparr>)))"


section \<open>Addresses as numbers\<close>

definition addr_text :: "32 word \<Rightarrow> string" where
  "addr_text a = dotted (rev (bytes32 a))"

lemma dec_nat_no_dot: "CHR ''.'' \<notin> set (dec_nat n)"
  using dec_nat_digits[of n] by (auto simp: list_all_iff is_digit_def)

lemma tokens_cons:
  assumes "w \<noteq> []" "set w \<inter> set seps = {}" "r = [] \<or> hd r \<in> set seps"
  shows "tokens seps (w @ r) = w # tokens seps r"
proof -
  have d: "dropWhile (\<lambda>c. c \<in> set seps) (w @ r) = w @ r" using assms(1,2) by (cases w) auto
  have t: "takeWhile (\<lambda>c. c \<notin> set seps) (w @ r) = w" "dropWhile (\<lambda>c. c \<notin> set seps) (w @ r) = r"
    using assms(2,3) by (cases r; auto simp: takeWhile_append dropWhile_append)+
  show ?thesis by (subst tokens.simps) (simp add: d t Let_def assms(1))
qed

lemma tokens_sep: "c \<in> set seps \<Longrightarrow> tokens seps (c # r) = tokens seps r"
  by (subst (1 2) tokens.simps) simp

lemma tokens_nil [simp]: "tokens seps [] = []"
  by (subst tokens.simps) simp

lemma tokens_dotted: "tokens ''.'' (dotted [a, b, c, d]) = map (\<lambda>x. dec_nat (unat x)) [a, b, c, d]"
proof -
  have w: "tokens ''.'' (dec_nat n @ ''.'' @ r) = dec_nat n # tokens ''.'' r" for n r
    using tokens_cons[of "dec_nat n" "''.''" "''.'' @ r"] dec_nat_no_dot[of n] by (simp add: tokens_sep)
  have "tokens ''.'' (dec_nat n) = [dec_nat n]" for n
    using tokens_cons[of "dec_nat n" "''.''" "[]"] dec_nat_no_dot[of n] by simp
  then show ?thesis using w by (simp add: dotted_def)
qed

lemma address_bytes_text: "address_bytes (dotted [a, b, c, d]) = Some [a, b, c, d]"
proof -
  have "atoi (dec_nat (unat x)) = Some (int (unat x))" for x :: byte using atoi_dec[of "unat x"] byte_less[of x] by simp
  then show ?thesis unfolding address_bytes_def tokens_dotted by simp
qed

lemma bytes32_or: "bytes32 (a OR b) = map2 (\<lambda>x y. x OR y) (bytes32 a) (bytes32 b)"
  by (simp add: bytes32_def) (auto simp: bit_eq_iff bit_simps)

lemma bytes32_and: "bytes32 (a AND b) = map2 (\<lambda>x y. x AND y) (bytes32 a) (bytes32 b)"
  by (simp add: bytes32_def) (auto simp: bit_eq_iff bit_simps)

lemma bytes32_from_bytes: "bytes32 (from_bytes [a, b, c, d]) = [a, b, c, d]"
  by (auto simp: bytes32_def from_bytes_def bit_eq_iff bit_simps dest: bit_imp_le_length)

lemma htonl_bytes: "bytes32 (htonl w) = rev (bytes32 w)"
  by (auto simp: bytes32_def htonl_def bit_eq_iff bit_simps dest: bit_imp_le_length)


text \<open>The netmask is right for prefixes from 16 on.\<close>

lemma netmask_16:
  assumes "k \<le> 16"
  shows "netmask_loop k (replicate 4 255) = Some (rev (bytes32 (NOT (mask k))))"
proof -
  have "list_all (\<lambda>k. netmask_loop k (replicate 4 255) = Some (rev (bytes32 (NOT (mask k))))) [0..<17]" by code_simp
  then show ?thesis using assms by (auto simp: list_all_iff)
qed


definition network :: "32 word \<Rightarrow> nat \<Rightarrow> 32 word" where
  "network a k = a AND NOT (mask k)"

lemma host_bytes_eq:
  assumes "host = map2 (\<lambda>a b. a AND b) (rev (bytes32 a)) (rev (bytes32 (NOT (mask k))))"
  shows "dotted (host_bytes host i) = addr_text (network a k OR word_of_nat i)"
proof -
  have h: "host = rev (bytes32 (network a k))"
    by (simp add: assms network_def bytes32_and) (simp add: bytes32_def)
  have "bytes32 (from_bytes host) = host" unfolding h using bytes32_from_bytes by (simp add: bytes32_def)
  then have "host_bytes host i = rev (bytes32 (network a k OR word_of_nat i))"
    unfolding host_bytes_def bytes32_or htonl_bytes by (simp add: h) (simp add: bytes32_def)
  then show ?thesis by (simp add: addr_text_def)
qed

lemma fold_push_host:
  "fold (push_host resolve host) is st =
    (let new = List.map_filter resolve (map (\<lambda>i. dotted (host_bytes host i)) is)
     in st\<lparr>ip_list := rev new @ ip_list st, ip_list_count := ip_list_count st + int (length new)\<rparr>)"
proof (induction "is" arbitrary: st)
  case (Cons i "is")
  show ?case unfolding fold_simps comp_def Cons.IH
    by (auto simp: push_host_def push_ip_def map_filter_simps Let_def split: option.splits)
qed (simp add: map_filter_simps)

text \<open>
  C36. For an address in dotted form and a prefix length from 16 to 32, \<^verbatim>\<open>get_ipAdresses\<close> adds the hosts of that network that resolve, from the
  first to the one below the broadcast address, in ascending order and each once, and nothing else.
\<close>

theorem prefix_hosts_listed:
  assumes "16 \<le> n" "n \<le> 32"
  shows "get_ipAdresses resolve (addr_text a) n st =
    (let k = nat (32 - n); new = List.map_filter resolve (map (\<lambda>i. addr_text (network a k OR word_of_nat i)) [1..<2 ^ k - 1])
     in PsRun (st\<lparr>ip_list := rev new @ ip_list st, ip_list_count := ip_list_count st + int (length new)\<rparr>))"
proof -
  define k where "k = nat (32 - n)"
  have k: "k \<le> 16" "32 - n < 31" using assms by (auto simp: k_def)
  have "(2 :: int) ^ k - 2 = int (2 ^ k) - 2" by simp
  then have "nat ((2 :: int) ^ k - 2) = 2 ^ k - 2" by linarith
  then have "nat ((2 :: int) ^ k - 2) + 1 = 2 ^ k - 1 \<or> nat ((2 :: int) ^ k - 2) + 1 = 1 \<and> (2 :: nat) ^ k - 1 \<le> 1" by linarith
  then have "[1..<nat (2 ^ k - 2) + 1] = [1..<2 ^ k - 1]" by (auto simp del: upt_Suc)
  moreover have "address_bytes (addr_text a) = Some (rev (bytes32 a))"
    using address_bytes_text by (simp add: addr_text_def bytes32_def)
  moreover have "get_hostcount n = PsRun (2 ^ k - 2)" using k(2) assms by (simp add: get_hostcount_def k_def)
  ultimately show ?thesis using netmask_16[OF k(1)]
    by (simp add: get_ipAdresses_def ps_defined_def fold_push_host host_bytes_eq[OF refl] k_def[symmetric] Let_def)
qed

theorem prefix_hosts_listed_witness:
  "get_ipAdresses Some (addr_text 0x0A000107) 30 ps_start =
    PsRun (ps_start\<lparr>ip_list := [''10.0.1.6'', ''10.0.1.5''], ip_list_count := 2\<rparr>)"
proof -
  have "map (\<lambda>i. addr_text (network 0x0A000107 2 OR word_of_nat i)) [1..<3] = [''10.0.1.5'', ''10.0.1.6'']" by code_simp
  then show ?thesis using prefix_hosts_listed[of 30 Some "0x0A000107" ps_start] by (simp add: map_filter_simps ps_start_def)
qed

text \<open>
  A shorter prefix clears a bit of the wrong byte, as bit 16 goes to byte 0 instead of byte 1; below 8 the loop writes in front of the array.
\<close>

lemma short_prefix_masks: "netmask_loop 17 (replicate 4 255) = Some [254, 255, 0, 0]" "netmask_loop 25 (replicate 4 255) = None"
  by code_simp+

end
