(* ===== verification/Socket_Api.thy ===== *)
theory Socket_Api
  imports Tcp_Socket Ps_Setup
begin

text \<open>
  The rest of \<^verbatim>\<open>module_function/socket_api.c\<close>: options, sockets, addresses and names. Functions that only make system calls give the list of these calls; what a call
  answers is an argument.
\<close>

section \<open>System calls\<close>

datatype sock_option =
    SO_SNDTIMEO int int
  | SO_RCVTIMEO int int
  | TCP_NODELAY int
  | SO_REUSEADDR int
  | SO_REUSEPORT int
  | SO_KEEPALIVE int

datatype sock_family = AF_INET | AF_INET6

datatype sock_kind = SOCK_STREAM | SOCK_DGRAM

record sockaddr_in =
  sin_family :: sock_family
  sin_port :: "16 word"
  s_addr :: "32 word"

datatype sock_call =
    F_SETFL int "32 word"
  | F_SETFD int "32 word"
  | Setsockopt int sock_option
  | Socket sock_family sock_kind
  | Bind int sockaddr_in
  | Connect int sockaddr_in

definition O_NONBLOCK :: "32 word" where "O_NONBLOCK = 0x800"
definition FD_CLOEXEC :: "32 word" where "FD_CLOEXEC = 1"

section \<open>Options\<close>

text \<open>\<open>fl\<close> and \<open>fd_flags\<close> are the answers to \<^verbatim>\<open>F_GETFL\<close> and \<^verbatim>\<open>F_GETFD\<close>; -1 is an error and is not looked at.\<close>

definition setNonBlockAndCloseOnExec :: "int \<Rightarrow> 32 word \<Rightarrow> 32 word \<Rightarrow> sock_call list" where
  "setNonBlockAndCloseOnExec sockfd fl fd_flags = [F_SETFL sockfd (fl OR O_NONBLOCK), F_SETFD sockfd (fd_flags OR FD_CLOEXEC)]"

definition connect_time_out :: "int \<Rightarrow> int \<Rightarrow> int \<Rightarrow> sock_call list" where
  "connect_time_out fd out_sec out_us = [Setsockopt fd (SO_SNDTIMEO out_sec out_us)]"

definition recv_time_out :: "int \<Rightarrow> int \<Rightarrow> sock_call list" where
  "recv_time_out fd second = [Setsockopt fd (SO_RCVTIMEO second 0)]"

definition switch :: "int \<Rightarrow> int" where
  "switch onff = (if onff \<noteq> 0 then 1 else 0)"

definition setTcpNoDelay :: "int \<Rightarrow> int \<Rightarrow> sock_call list" where
  "setTcpNoDelay fd onff = [Setsockopt fd (TCP_NODELAY (switch onff))]"

definition setReuseAddr :: "int \<Rightarrow> int \<Rightarrow> sock_call list" where
  "setReuseAddr fd onff = [Setsockopt fd (SO_REUSEADDR (switch onff))]"

definition setReusePort :: "int \<Rightarrow> int \<Rightarrow> sock_call list" where
  "setReusePort fd onff = [Setsockopt fd (SO_REUSEPORT (switch onff))]"

definition setKeepAlive :: "int \<Rightarrow> int \<Rightarrow> sock_call list" where
  "setKeepAlive fd onff = [Setsockopt fd (SO_KEEPALIVE (switch onff))]"

section \<open>Sockets and addresses\<close>

text \<open>The value of these functions is what the call returns, so that the call is the whole function.\<close>

definition socket_tcp_ipv4 :: sock_call where "socket_tcp_ipv4 = Socket AF_INET SOCK_STREAM"
definition socket_tcp_ipv6 :: sock_call where "socket_tcp_ipv6 = Socket AF_INET6 SOCK_STREAM"
definition socket_udp_ipv4 :: sock_call where "socket_udp_ipv4 = Socket AF_INET SOCK_DGRAM"
definition socket_udp_ipv6 :: sock_call where "socket_udp_ipv6 = Socket AF_INET6 SOCK_DGRAM"

text \<open>\<open>inet\<close> is \<^verbatim>\<open>inet_addr\<close>; for a text that is not an address it gives 255.255.255.255, which is not looked at.\<close>

definition server_addr :: "(string \<Rightarrow> 32 word) \<Rightarrow> 16 word \<Rightarrow> string \<Rightarrow> sockaddr_in" where
  "server_addr inet port ip_str = \<lparr>sin_family = AF_INET, sin_port = htons port, s_addr = inet (cstr ip_str)\<rparr>"

definition bind_tcp_server :: "(string \<Rightarrow> 32 word) \<Rightarrow> int \<Rightarrow> 16 word \<Rightarrow> string \<Rightarrow> sock_call" where
  "bind_tcp_server inet s_fd port ip_str = Bind s_fd (server_addr inet port ip_str)"

definition connect_tcp_server :: "(string \<Rightarrow> 32 word) \<Rightarrow> int \<Rightarrow> 16 word \<Rightarrow> string \<Rightarrow> sock_call" where
  "connect_tcp_server inet s_fd port ip_str = Connect s_fd (server_addr inet port ip_str)"

text \<open>
  \<^verbatim>\<open>analy_ipstr_dns\<close> with the answer of \<^verbatim>\<open>gethostbyname\<close>: the result and the text in the buffer. \<^verbatim>\<open>inet_ntop\<close> needs room for the text and its
  zero byte; \<open>ntop6\<close> is its form of an IPv6 address.
\<close>

record hostent =
  h_addrtype :: "sock_family option"
  h_addr_list :: "byte list list"

definition inet_ntop :: "(byte list \<Rightarrow> string) \<Rightarrow> sock_family \<Rightarrow> byte list \<Rightarrow> nat \<Rightarrow> string option" where
  "inet_ntop ntop6 af bs len =
     (let t = (case af of AF_INET \<Rightarrow> dotted bs | AF_INET6 \<Rightarrow> ntop6 bs) in if length t < len then Some t else None)"

definition analy_ipstr_dns :: "(byte list \<Rightarrow> string) \<Rightarrow> hostent option \<Rightarrow> nat \<Rightarrow> int \<times> string option" where
  "analy_ipstr_dns ntop6 host str_len =
     (case host of
        None \<Rightarrow> (-1, None)
      | Some h \<Rightarrow>
          let p = (case (h_addrtype h, h_addr_list h) of (Some af, bs # _) \<Rightarrow> inet_ntop ntop6 af bs str_len | _ \<Rightarrow> None) in
          if p = None then (-1, None) else (0, p))"

section \<open>Connection data\<close>

record tcp_info =
  tcpi_retransmits :: "8 word"
  tcpi_rto :: "32 word"
  tcpi_ato :: "32 word"
  tcpi_snd_mss :: "32 word"
  tcpi_rcv_mss :: "32 word"
  tcpi_lost :: "32 word"
  tcpi_retrans :: "32 word"
  tcpi_rtt :: "32 word"
  tcpi_rttvar :: "32 word"
  tcpi_snd_ssthresh :: "32 word"
  tcpi_snd_cwnd :: "32 word"
  tcpi_total_retrans :: "32 word"

text \<open>The answer of \<^verbatim>\<open>getsockopt\<close>; in front of the call the record is set to zero, and so it is left by an error.\<close>

definition getTcpInfo :: "int \<times> tcp_info \<Rightarrow> int \<times> tcp_info" where
  "getTcpInfo answer =
     (if fst answer = 0 then answer
      else (fst answer, \<lparr>tcpi_retransmits = 0, tcpi_rto = 0, tcpi_ato = 0, tcpi_snd_mss = 0, tcpi_rcv_mss = 0, tcpi_lost = 0, tcpi_retrans = 0,
              tcpi_rtt = 0, tcpi_rttvar = 0, tcpi_snd_ssthresh = 0, tcpi_snd_cwnd = 0, tcpi_total_retrans = 0\<rparr>))"

definition info_text :: "tcp_info \<Rightarrow> string" where
  "info_text t =
     ''unrecovered='' @ dec_nat (unat (tcpi_retransmits t)) @ '' rto='' @ dec_nat (unat (tcpi_rto t)) @ '' ato='' @ dec_nat (unat (tcpi_ato t)) @
     '' snd_mss='' @ dec_nat (unat (tcpi_snd_mss t)) @ '' rcv_mss='' @ dec_nat (unat (tcpi_rcv_mss t)) @ '' lost='' @ dec_nat (unat (tcpi_lost t)) @
     '' retrans='' @ dec_nat (unat (tcpi_retrans t)) @ '' rtt='' @ dec_nat (unat (tcpi_rtt t)) @ '' rttvar='' @ dec_nat (unat (tcpi_rttvar t)) @
     '' sshthresh='' @ dec_nat (unat (tcpi_snd_ssthresh t)) @ '' cwnd='' @ dec_nat (unat (tcpi_snd_cwnd t)) @ '' total_retrans='' @ dec_nat (unat (tcpi_total_retrans t))"

text \<open>The result, and the string in the buffer when it was written; \<^verbatim>\<open>snprintf\<close> with no room writes nothing.\<close>

definition getTcpInfoString :: "int \<times> tcp_info \<Rightarrow> nat \<Rightarrow> int \<times> string option" where
  "getTcpInfoString answer len =
     (let (ret, tcpi) = getTcpInfo answer in (ret, if ret = 0 \<and> len > 0 then Some (take (len - 1) (info_text tcpi)) else None))"

section \<open>What is set\<close>

text \<open>The flag is set and the others are kept. After a failed \<^verbatim>\<open>F_GETFL\<close> every flag is set.\<close>

lemma nonblock_kept:
  "\<exists>g. setNonBlockAndCloseOnExec fd fl fl2 = [F_SETFL fd g, F_SETFD fd (fl2 OR 1)] \<and> (\<forall>n. bit g n \<longleftrightarrow> bit fl n \<or> n = 11)"
proof -
  have "bit (0x800 :: 32 word) n \<longleftrightarrow> n = 11" for n
  proof -
    have "(0x800 :: 32 word) = mask 12 XOR mask 11" by (simp add: mask_eq_decr_exp)
    then have "bit (0x800 :: 32 word) n \<longleftrightarrow> bit (mask 12 XOR mask 11 :: 32 word) n" by (rule arg_cong)
    also have "\<dots> \<longleftrightarrow> n = 11" by (auto simp: bit_xor_iff bit_mask_iff)
    finally show ?thesis .
  qed
  then show ?thesis by (simp add: setNonBlockAndCloseOnExec_def O_NONBLOCK_def FD_CLOEXEC_def bit_or_iff)
qed

lemma failed_flags_all_set: "setNonBlockAndCloseOnExec fd (-1) fl2 = [F_SETFL fd (-1), F_SETFD fd (fl2 OR 1)]"
  by (simp add: setNonBlockAndCloseOnExec_def FD_CLOEXEC_def)

text \<open>The text of an IPv4 address has at most 15 bytes, so that a buffer of 16 is enough for every host that has one.\<close>

lemma dns_first_address:
  assumes "h_addrtype h = Some AF_INET" "h_addr_list h = bs # rest" "16 \<le> str_len"
  shows "analy_ipstr_dns ntop6 (Some h) str_len = (0, Some (dotted bs))"
proof -
  have "length (dec_nat (unat b)) \<le> 3" for b :: byte using unsigned_less[where 'a = nat and w = b] by (intro dec_nat_length) simp_all
  from this[of "bs ! 0"] this[of "bs ! 1"] this[of "bs ! 2"] this[of "bs ! 3"] have "length (dotted bs) \<le> 15" by (simp add: dotted_def)
  then show ?thesis using assms by (simp add: analy_ipstr_dns_def inet_ntop_def)
qed

end
