(* ===== verification/Daemon.thy ===== *)
theory Daemon
  imports C_Prelude
begin

text \<open>
  Becoming a daemon, \<^verbatim>\<open>module_function/daemon_process.c\<close>. A process has its open descriptors with the files they stand for, its directory, its mask, and whether it leads a
  session; what the system calls answer is an argument.
\<close>

section \<open>Definitions\<close>

record process =
  p_fds :: "int \<Rightarrow> string option"
  p_leader :: bool
  p_cwd :: string
  p_umask :: int

datatype fork_result = ForkFails | Child | Parent

text \<open>The process that called goes on with a result, or ends.\<close>

datatype daemon_run = Returns int process | Exits int

definition daemon_process_init :: "fork_result \<Rightarrow> process \<Rightarrow> daemon_run" where
  "daemon_process_init forked p =
     (case forked of
        ForkFails \<Rightarrow> Returns (-1) p
      | Parent \<Rightarrow> Exits 0
      | Child \<Rightarrow> Returns 0 (p\<lparr>p_leader := True, p_cwd := ''/'', p_umask := 0, p_fds := (p_fds p)(0 := None, 1 := None, 2 := None)\<rparr>))"

text \<open>The answers to \<^verbatim>\<open>setsid\<close>, \<^verbatim>\<open>chdir\<close>, \<^verbatim>\<open>open\<close> (the descriptor), \<^verbatim>\<open>dup2\<close> and \<^verbatim>\<open>close\<close>.\<close>

record daemon_env =
  d_fork :: fork_result
  d_setsid :: bool
  d_chdir :: bool
  d_open :: "int option"
  d_dup2 :: "int \<Rightarrow> bool"
  d_close :: bool

fun dup_loop :: "daemon_env \<Rightarrow> int \<Rightarrow> int list \<Rightarrow> process \<Rightarrow> bool \<times> process" where
  "dup_loop e fd [] p = (True, p)"
| "dup_loop e fd (k # ks) p = (if d_dup2 e k then dup_loop e fd ks (p\<lparr>p_fds := (p_fds p)(k := p_fds p fd)\<rparr>) else (False, p))"

definition null_streams :: "daemon_env \<Rightarrow> process \<Rightarrow> daemon_run" where
  "null_streams e p =
     (case d_open e of
        None \<Rightarrow> Returns 0 p
      | Some fd \<Rightarrow>
          (case dup_loop e fd [0, 1, 2] (p\<lparr>p_fds := (p_fds p)(fd \<mapsto> ''/dev/null'')\<rparr>) of
             (False, p) \<Rightarrow> Returns (-1) p
           | (True, p) \<Rightarrow>
               if fd > 2 then (if d_close e then Returns 0 (p\<lparr>p_fds := (p_fds p)(fd := None)\<rparr>) else Returns (-1) p) else Returns 0 p))"

definition daemonize :: "int \<Rightarrow> int \<Rightarrow> daemon_env \<Rightarrow> process \<Rightarrow> daemon_run" where
  "daemonize nochdir noclose e p =
     (case d_fork e of
        ForkFails \<Rightarrow> Returns (-1) p
      | Parent \<Rightarrow> Exits 0
      | Child \<Rightarrow>
          if \<not> d_setsid e then Returns (-1) p
          else let p = p\<lparr>p_leader := True\<rparr> in
               if nochdir = 0 \<and> \<not> d_chdir e then Returns (-1) p
               else let p = (if nochdir = 0 then p\<lparr>p_cwd := ''/''\<rparr> else p) in
                    if noclose = 0 then null_streams e p else Returns 0 p)"

section \<open>What a daemon has\<close>

lemma null_streams_done:
  assumes "null_streams e p = Returns 0 p'" "d_open e = Some fd" "p_fds p fd = None" "0 \<le> fd"
  shows "p' = p\<lparr>p_fds := (p_fds p)(0 \<mapsto> ''/dev/null'', 1 \<mapsto> ''/dev/null'', 2 \<mapsto> ''/dev/null'')\<rparr>"
proof -
  have d: "d_dup2 e 0" "d_dup2 e 1" "d_dup2 e 2" "fd > 2 \<longrightarrow> d_close e" using assms(1,2) by (auto simp: null_streams_def split: if_splits)
  have "((p_fds p)(fd \<mapsto> n, 0 \<mapsto> n, 1 \<mapsto> n, 2 \<mapsto> n))(fd := None) = (p_fds p)(0 \<mapsto> n, 1 \<mapsto> n, 2 \<mapsto> n)" if "fd > 2" for n
    using that assms(3) by (auto simp: fun_eq_iff)
  moreover have "(p_fds p)(fd \<mapsto> n, 0 \<mapsto> n, 1 \<mapsto> n, 2 \<mapsto> n) = (p_fds p)(0 \<mapsto> n, 1 \<mapsto> n, 2 \<mapsto> n)" if "\<not> fd > 2" for n
  proof -
    have "fd \<in> {0, 1, 2}" using that assms(4) by auto
    then show ?thesis by (auto simp: fun_eq_iff)
  qed
  ultimately show ?thesis using assms(1,2) d by (auto simp: null_streams_def split: if_splits)
qed

text \<open>
  When \<^verbatim>\<open>daemonize\<close> returns 0 and \<^verbatim>\<open>/dev/null\<close> could be opened, the process leads a session, is in the root directory, its three standard streams are
  \<^verbatim>\<open>/dev/null\<close>, and no descriptor has been added to the others.
\<close>

theorem daemonize_done:
  assumes "daemonize 0 0 e p = Returns 0 p'" "d_open e = Some fd" "p_fds p fd = None" "0 \<le> fd"
  shows "p' = p\<lparr>p_leader := True, p_cwd := ''/'', p_fds := (p_fds p)(0 \<mapsto> ''/dev/null'', 1 \<mapsto> ''/dev/null'', 2 \<mapsto> ''/dev/null'')\<rparr>"
proof -
  have "null_streams e (p\<lparr>p_leader := True, p_cwd := ''/''\<rparr>) = Returns 0 p'"
    using assms(1) by (auto simp: daemonize_def Let_def split: fork_result.splits if_splits)
  from null_streams_done[OF this assms(2)] assms(3,4) show ?thesis by simp
qed

text \<open>When \<^verbatim>\<open>/dev/null\<close> cannot be opened the streams stay as they are and the result is still 0. After \<^verbatim>\<open>daemon_process_init\<close> the three descriptors are free.\<close>

lemma daemonize_keeps_streams:
  "d_fork e = Child \<Longrightarrow> d_setsid e \<Longrightarrow> d_chdir e \<Longrightarrow> d_open e = None \<Longrightarrow> daemonize 0 0 e p = Returns 0 (p\<lparr>p_leader := True, p_cwd := ''/''\<rparr>)"
  by (simp add: daemonize_def null_streams_def Let_def)

lemma init_frees_streams: "daemon_process_init Child p = Returns 0 p' \<Longrightarrow> k \<in> {0, 1, 2} \<Longrightarrow> p_fds p' k = None"
  by (auto simp: daemon_process_init_def)

end
