(* ===== verification/Ftp_List.thy ===== *)
theory Ftp_List
  imports Http_Message
begin

text \<open>
  Directory listings of the FTP client, \<^verbatim>\<open>module_function/ftp_curl_operation.c\<close>: the analysis of one line, and the callback that puts lines together
  from the pieces that arrive.
\<close>

section \<open>One line\<close>

datatype FILE_NAME_MODE = FILE_MODE | FOLDER_MODE

text \<open>\<^verbatim>\<open>*pp > 0\<close> for a signed \<^verbatim>\<open>char\<close>.\<close>

definition positive_char :: "char \<Rightarrow> bool" where
  "positive_char c \<longleftrightarrow> 0 < (of_char c :: nat) \<and> (of_char c :: nat) < 128"

text \<open>
  The loop of \<^verbatim>\<open>find_file_name_point\<close> behind the first byte: \<open>i\<close> is the position of \<^verbatim>\<open>pp\<close>, \<open>sp\<close> is \<^verbatim>\<open>sapce_flag\<close>, \<open>n\<close> is \<^verbatim>\<open>space_num\<close>, \<open>ps\<close> is \<^verbatim>\<open>p_size\<close>. The result is
  the position of the name and the value of \<^verbatim>\<open>*file_size\<close>; a size that is no \<^verbatim>\<open>int\<close> is undefined.
\<close>

fun name_loop :: "string \<Rightarrow> nat \<Rightarrow> string \<Rightarrow> bool \<Rightarrow> nat \<Rightarrow> nat option \<Rightarrow> int \<Rightarrow> (nat option \<times> int) option" where
  "name_loop line i [] sp n ps fsize = Some (None, fsize)"
| "name_loop line i (c # cs) sp n ps fsize =
     (if \<not> positive_char c then Some (None, fsize)
      else if c = CHR '' ''
      then if sp then name_loop line (i + 1) cs True n ps fsize
           else if n + 1 = 5
           then do {
             p \<leftarrow> ps;
             fsize' \<leftarrow> (if i - p < 16 then atoi (take (i - p) (drop p line)) else Some fsize);
             name_loop line (i + 1) cs True (n + 1) ps fsize'
           }
           else name_loop line (i + 1) cs True (n + 1) ps fsize
      else if n = 8 then Some (Some i, fsize)
      else name_loop line (i + 1) cs False n (if n = 4 \<and> ps = None then Some i else ps) fsize)"

text \<open>All callers pass the address of a size.\<close>

definition find_file_name_point :: "string \<Rightarrow> nat \<Rightarrow> int \<Rightarrow> (nat option \<times> int) option" where
  "find_file_name_point file_line key_byte fsize =
     (if frame_strlen (Some file_line) \<le> 49 then Some (None, fsize)
      else case file_line of
             [] \<Rightarrow> Some (None, fsize)
           | c # cs \<Rightarrow> if positive_char c \<and> of_char c = key_byte then name_loop file_line 1 cs False 0 None fsize else Some (None, fsize))"

section \<open>The pieces of a listing\<close>

definition BUFF_INCREASE_NUM_BASE :: nat where
  "BUFF_INCREASE_NUM_BASE = 1024"

type_synonym scan_call = "string \<times> int \<times> FILE_NAME_MODE"

text \<open>
  A line is tried as that of a folder and then as that of a file. \<^verbatim>\<open>call_function\<close> is never \<^verbatim>\<open>NULL\<close> here: \<^verbatim>\<open>scan_curl_ftp_folder\<close> sets it first. The calls
  are a list.
\<close>

definition report_line :: "string \<Rightarrow> int \<Rightarrow> (scan_call list \<times> int) option" where
  "report_line line fsize = do {
     (p, fsize) \<leftarrow> find_file_name_point line 100 fsize;
     case p of
       Some i \<Rightarrow> Some ([(drop i line, fsize, FOLDER_MODE)], fsize)
     | None \<Rightarrow> do {
         (q, fsize) \<leftarrow> find_file_name_point line 45 fsize;
         case q of
           Some i \<Rightarrow> Some ([(drop i line, fsize, FILE_MODE)], fsize)
         | None \<Rightarrow> Some ([], fsize)
       }
   }"

text \<open>The text in \<^verbatim>\<open>file_name_buff\<close>, and \<^verbatim>\<open>memcpy\<close> to its end; reading or writing outside of the 1024 bytes is undefined.\<close>

definition buff_text :: "string \<Rightarrow> string option" where
  "buff_text b = (if length (cstr b) < BUFF_INCREASE_NUM_BASE then Some (cstr b) else None)"

definition append_text :: "string \<Rightarrow> string \<Rightarrow> string option" where
  "append_text b s = do {
     txt \<leftarrow> buff_text b;
     if length txt + length s \<le> BUFF_INCREASE_NUM_BASE then Some (put_bytes b (length txt) s) else None
   }"

text \<open>The loop of the callback over the text that is left; the size of one line is kept when the next line has none.\<close>

function lines_loop :: "string \<Rightarrow> string \<Rightarrow> int \<Rightarrow> (scan_call list \<times> string) option" where
  "lines_loop p1 b fsize =
     (case first_index (\<lambda>c. c = CHR 0x0A) p1 of
        None \<Rightarrow> map_option (\<lambda>b1. ([], b1)) (append_text b p1)
      | Some k \<Rightarrow> do {
          b1 \<leftarrow> append_text b (take k p1);
          line \<leftarrow> buff_text b1;
          (calls, fsize) \<leftarrow> report_line line fsize;
          (calls2, b2) \<leftarrow> lines_loop (drop (k + 1) p1) [] fsize;
          Some (calls @ calls2, b2)
        })"
  by pat_completeness auto
termination
proof (relation "measure (\<lambda>(p1, b, fsize). length p1)", goal_cases)
  case (2 p1 b fsize k)
  then have "p1 \<noteq> []" by auto
  then show ?case by simp
qed simp

declare lines_loop.simps [simp del]

text \<open>
  The callback: whether \<^verbatim>\<open>malloc\<close> succeeds, the memory from the buffer on, and \<^verbatim>\<open>file_name_buff\<close>. The text is read up to the next zero byte, also where the
  data end before. The result for the library is always the number of bytes it has passed.
\<close>

definition curl_ftp_scanfile_callback :: "bool \<Rightarrow> string \<Rightarrow> string option \<Rightarrow> (scan_call list \<times> string option) option" where
  "curl_ftp_scanfile_callback mem_ok buffer file_name_buff =
     (case file_name_buff of
        None \<Rightarrow> if mem_ok then map_option (\<lambda>(calls, b). (calls, Some b)) (lines_loop (cstr buffer) [] 0) else Some ([], None)
      | Some b \<Rightarrow> map_option (\<lambda>(calls, b). (calls, Some b)) (lines_loop (cstr buffer) b 0))"

text \<open>What the library delivers during a transfer, and what \<^verbatim>\<open>scan_curl_ftp_folder\<close> does with the rest of the last line.\<close>

fun deliver :: "(bool \<times> string) list \<Rightarrow> string option \<Rightarrow> (scan_call list \<times> string option) option" where
  "deliver [] buff = Some ([], buff)"
| "deliver ((mem_ok, buffer) # ds) buff = do {
     (calls, buff) \<leftarrow> curl_ftp_scanfile_callback mem_ok buffer buff;
     (calls2, buff) \<leftarrow> deliver ds buff;
     Some (calls @ calls2, buff)
   }"

definition flush_line :: "string option \<Rightarrow> (scan_call list \<times> string option) option" where
  "flush_line buff =
     (case buff of
        None \<Rightarrow> Some ([], None)
      | Some b \<Rightarrow> do {
          line \<leftarrow> buff_text b;
          (calls, _) \<leftarrow> report_line line 0;
          Some (calls, Some [])
        })"

definition scan_listing :: "(bool \<times> string) list \<Rightarrow> string option \<Rightarrow> (scan_call list \<times> string option) option" where
  "scan_listing ds buff = do {
     (calls, buff) \<leftarrow> deliver ds buff;
     (calls2, buff) \<leftarrow> flush_line buff;
     Some (calls @ calls2, buff)
   }"

section \<open>Lines and pieces\<close>

text \<open>A text as its complete lines and the rest.\<close>

fun split_lines :: "string \<Rightarrow> string list \<times> string" where
  "split_lines [] = ([], [])"
| "split_lines (c # cs) =
     (case split_lines cs of (ls, r) \<Rightarrow>
        if c = CHR 0x0A then ([] # ls, r) else case ls of [] \<Rightarrow> ([], c # r) | l # ls' \<Rightarrow> ((c # l) # ls', r))"

lemma split_lines_append:
  "split_lines (s @ t) = (case split_lines s of (ls, r) \<Rightarrow> case split_lines (r @ t) of (ls2, r2) \<Rightarrow> (ls @ ls2, r2))"
proof (induction s)
  case (Cons c s)
  then show ?case
    by (cases "split_lines s"; cases "split_lines (snd (split_lines s) @ t)") (auto split: list.splits prod.splits)
qed simp

lemma split_lines_plain: "CHR 0x0A \<notin> set s \<Longrightarrow> split_lines s = ([], s)"
  by (induction s) auto

lemma split_lines_no_newline: "split_lines s = (ls, r) \<Longrightarrow> CHR 0x0A \<notin> set r \<and> (\<forall>l \<in> set ls. CHR 0x0A \<notin> set l)"
  by (induction s arbitrary: ls r) (auto split: prod.splits list.splits if_splits)

lemma split_lines_line: "CHR 0x0A \<notin> set l \<Longrightarrow> split_lines (l @ CHR 0x0A # t) = (l # fst (split_lines t), snd (split_lines t))"
  by (induction l) (auto split: prod.splits)

lemma split_lines_concat:
  "list_all (\<lambda>l. CHR 0x0A \<notin> set l) ls \<Longrightarrow> split_lines (concat (map (\<lambda>l. l @ [CHR 0x0A]) ls) @ t) = (ls @ fst (split_lines t), snd (split_lines t))"
  by (induction ls) (simp_all add: split_lines_line)

text \<open>The line that a rest without newline begins.\<close>

lemma split_lines_begin:
  assumes "CHR 0x0A \<notin> set r" "split_lines (r @ t) = (ls, r2)"
  shows "length r \<le> length (hd (ls @ [r2]))"
  using assms
proof (induction r arbitrary: ls r2)
  case (Cons c r)
  obtain ls1 r1 where l: "split_lines (r @ t) = (ls1, r1)" by fastforce
  then show ?case using Cons by (cases ls1) (auto split: list.splits)
qed simp

lemma split_lines_set: "split_lines s = (ls, r) \<Longrightarrow> set r \<union> set (concat ls) \<subseteq> set s"
proof (induction s arbitrary: ls r)
  case (Cons c s)
  obtain ls1 r1 where l: "split_lines s = (ls1, r1)" by fastforce
  then show ?case using Cons.IH[OF l] Cons.prems by (cases ls1) (auto split: if_splits; blast)+
qed simp

lemma split_lines_NUL: "NUL \<notin> set s \<Longrightarrow> split_lines s = (ls, r) \<Longrightarrow> NUL \<notin> set r"
  using split_lines_set by blast

lemma append_text_eq: "NUL \<notin> set b \<Longrightarrow> length b + length s < BUFF_INCREASE_NUM_BASE \<Longrightarrow> append_text b s = Some (b @ s)"
  by (simp add: append_text_def buff_text_def cstr_no_NUL put_bytes_def)

text \<open>A line whose report does not depend on what was read before it.\<close>

definition reports :: "string \<Rightarrow> scan_call list \<Rightarrow> bool" where
  "reports l calls \<longleftrightarrow> length l < BUFF_INCREASE_NUM_BASE \<and> (\<forall>fsize. \<exists>fsize'. report_line l fsize = Some (calls, fsize'))"

lemma lines_loop_lines:
  assumes "split_lines (b @ p1) = (ls, r)" "NUL \<notin> set (b @ p1)" "CHR 0x0A \<notin> set b" "list_all2 reports ls cs" "length r < BUFF_INCREASE_NUM_BASE"
  shows "lines_loop p1 b fsize = Some (concat cs, r)"
  using assms
proof (induction ls arbitrary: b p1 cs fsize)
  case Nil
  then have nl: "CHR 0x0A \<notin> set (b @ p1)"
  proof (rule_tac ccontr)
    assume "\<not> CHR 0x0A \<notin> set (b @ p1)"
    then obtain u v where "b @ p1 = u @ CHR 0x0A # v" "CHR 0x0A \<notin> set u" by (meson split_list_first)
    then show False using Nil.prems(1) split_lines_line[of u v] by simp
  qed
  then have "first_index (\<lambda>c. c = CHR 0x0A) p1 = None" by (auto simp: first_index_None)
  moreover have "r = b @ p1" using split_lines_plain[OF nl] Nil.prems(1) by simp
  ultimately show ?case using Nil.prems append_text_eq[of b p1] by (subst lines_loop.simps) simp
next
  case (Cons l ls)
  have "CHR 0x0A \<in> set p1" using split_lines_plain[of "b @ p1"] Cons.prems(1,3) by auto
  then obtain u v where p1: "p1 = u @ CHR 0x0A # v" "CHR 0x0A \<notin> set u" by (meson split_list_first)
  have "first_index (\<lambda>c. c = CHR 0x0A) u = None" using p1(2) unfolding first_index_None by metis
  then have "first_index (\<lambda>c. c = CHR 0x0A) p1 = Some (length u)" by (simp add: p1(1) first_index_append)
  moreover have l: "l = b @ u" "split_lines v = (ls, r)"
    using split_lines_line[of "b @ u" v] Cons.prems(1,3) p1 by (auto simp: prod_eq_iff)
  obtain c cs' where cs: "cs = c # cs'" "reports l c" "list_all2 reports ls cs'" using Cons.prems(4) by (auto simp: list_all2_Cons1)
  obtain fsize' where rep: "report_line l fsize = Some (c, fsize')" using cs(2) by (auto simp: reports_def)
  have "append_text b u = Some l" "buff_text l = Some l"
    using cs(2) Cons.prems(2) p1 l by (auto simp: reports_def append_text_eq buff_text_def cstr_no_NUL)
  moreover have "lines_loop v [] fsize' = Some (concat cs', r)" using Cons.prems(2,5) p1 l cs(3) by (intro Cons.IH) auto
  ultimately show ?case using p1 rep cs(1) by (subst lines_loop.simps) simp
qed

text \<open>
  However a listing is cut into pieces, the lines are reported as they are, and the rest of the last line stays in the buffer; a piece is the text up to the
  next zero byte.
\<close>

abbreviation pieces :: "(bool \<times> string) list \<Rightarrow> string" where
  "pieces ds \<equiv> concat (map (\<lambda>d. cstr (snd d)) ds)"

lemma deliver_lines:
  assumes "split_lines (b @ pieces ds) = (ls, r)" "NUL \<notin> set b" "CHR 0x0A \<notin> set b"
    and "list_all2 reports ls cs" "length r < BUFF_INCREASE_NUM_BASE"
  shows "deliver ds (Some b) = Some (concat cs, Some r)"
  using assms
proof (induction ds arbitrary: b ls cs)
  case Nil
  then show ?case using split_lines_plain[of b] by auto
next
  case (Cons d ds)
  obtain ok p where d: "d = (ok, p)" by fastforce
  obtain ls1 r1 where s1: "split_lines (b @ cstr p) = (ls1, r1)" by fastforce
  obtain ls2 where s2: "split_lines (r1 @ pieces ds) = (ls2, r)" "ls = ls1 @ ls2"
    using Cons.prems(1) split_lines_append[of "b @ cstr p" "pieces ds"] s1 d by (auto split: prod.splits)
  obtain cs1 cs2 where cs: "cs = cs1 @ cs2" "list_all2 reports ls1 cs1" "list_all2 reports ls2 cs2"
    using Cons.prems(4) s2(2) by (auto simp: list_all2_append1)
  have nul: "NUL \<notin> set (b @ cstr p)" using Cons.prems(2) by simp
  have r1: "CHR 0x0A \<notin> set r1" "NUL \<notin> set r1" using split_lines_no_newline[OF s1] split_lines_NUL[OF nul s1] by simp_all
  have "length r1 < BUFF_INCREASE_NUM_BASE"
    using split_lines_begin[OF r1(1) s2(1)] cs(3) Cons.prems(5) by (cases ls2) (auto simp: reports_def list_all2_Cons1)
  then have "lines_loop (cstr p) b 0 = Some (concat cs1, r1)" using lines_loop_lines[OF s1 nul Cons.prems(3) cs(2)] by auto
  moreover have "deliver ds (Some r1) = Some (concat cs2, Some r)" using Cons.prems(5) s2(1) r1 cs(3) by (intro Cons.IH) auto
  ultimately show ?case using cs(1) d by (simp add: curl_ftp_scanfile_callback_def)
qed

definition scan_ready :: "(bool \<times> string) list \<Rightarrow> string option \<Rightarrow> bool" where
  "scan_ready ds buff \<longleftrightarrow> buff = Some [] \<or> buff = None \<and> ds \<noteq> [] \<and> fst (hd ds)"

lemma scan_listing_lines:
  assumes "split_lines (pieces ds) = (ls, r)" "list_all2 reports (ls @ [r]) cs" "scan_ready ds buff"
  shows "scan_listing ds buff = Some (concat cs, Some [])"
proof -
  obtain cs1 c where cs: "cs = cs1 @ [c]" "list_all2 reports ls cs1" "reports r c"
    using assms(2) by (auto simp: list_all2_append1 list_all2_Cons1)
  have r: "length r < BUFF_INCREASE_NUM_BASE" "NUL \<notin> set r" using cs(3) split_lines_NUL[OF _ assms(1)] by (auto simp: reports_def)
  have some: "deliver ds (Some []) = Some (concat cs1, Some r)" using assms(1) cs(2) r(1) by (intro deliver_lines) auto
  have "deliver ds buff = deliver ds (Some [])"
    using assms(3) by (cases ds) (auto simp: curl_ftp_scanfile_callback_def scan_ready_def)
  moreover have "flush_line (Some r) = Some (c, Some [])"
  proof -
    obtain fsize where "report_line r 0 = Some (c, fsize)" using cs(3) by (auto simp: reports_def)
    then show ?thesis using r by (simp add: flush_line_def buff_text_def cstr_no_NUL)
  qed
  ultimately show ?thesis using some cs(1) by (simp add: scan_listing_def)
qed

section \<open>Printed listings\<close>

text \<open>A line as servers print it: eight fields, each with one blank or more behind it, and the name.\<close>

record ls_entry =
  le_mode :: FILE_NAME_MODE
  le_perm :: string
  le_links :: string
  le_owner :: string
  le_group :: string
  le_size :: nat
  le_month :: string
  le_day :: string
  le_time :: string
  le_name :: string
  le_pads :: "nat list"

fun mode_char :: "FILE_NAME_MODE \<Rightarrow> char" where
  "mode_char FOLDER_MODE = CHR ''d''"
| "mode_char FILE_MODE = CHR ''-''"

definition le_fields :: "ls_entry \<Rightarrow> string list" where
  "le_fields e = [le_links e, le_owner e, le_group e, dec_nat (le_size e), le_month e, le_day e, le_time e]"

definition padded :: "string list \<Rightarrow> nat list \<Rightarrow> string" where
  "padded fs ks = concat (map2 (\<lambda>f k. f @ replicate (Suc k) (CHR '' '')) fs ks)"

definition ls_prefix :: "ls_entry \<Rightarrow> string" where
  "ls_prefix e = mode_char (le_mode e) # padded (le_perm e # le_fields e) (le_pads e)"

definition ls_line :: "ls_entry \<Rightarrow> string" where
  "ls_line e = ls_prefix e @ le_name e"

definition word_char :: "char \<Rightarrow> bool" where
  "word_char c \<longleftrightarrow> positive_char c \<and> c \<noteq> CHR '' '' \<and> c \<noteq> CHR 0x0A"

definition ls_ok :: "ls_entry \<Rightarrow> bool" where
  "ls_ok e \<longleftrightarrow> length (le_pads e) = 8 \<and> list_all word_char (le_perm e) \<and> list_all (\<lambda>f. f \<noteq> [] \<and> list_all word_char f) (le_fields e) \<and>
     int (le_size e) < 2 ^ 31 \<and> le_name e \<noteq> [] \<and> word_char (hd (le_name e)) \<and> NUL \<notin> set (le_name e) \<and> CHR 0x0A \<notin> set (le_name e) \<and>
     49 < length (ls_line e) \<and> length (ls_line e) < BUFF_INCREASE_NUM_BASE"

lemma name_loop_word:
  "list_all word_char w \<Longrightarrow> n \<noteq> 8 \<Longrightarrow> w \<noteq> [] \<Longrightarrow>
    name_loop line i (w @ rest) sp n ps fsize = name_loop line (i + length w) rest False n (if n = 4 \<and> ps = None then Some i else ps) fsize"
proof (induction w arbitrary: i sp ps)
  case (Cons c w)
  then show ?case by (cases "w = []") (auto simp: word_char_def)
qed simp

lemma blank_positive [simp]: "positive_char (CHR '' '')"
  by (simp add: positive_char_def)

lemma name_loop_blanks: "name_loop line i (replicate k (CHR '' '') @ rest) True n ps fsize = name_loop line (i + k) rest True n ps fsize"
  by (induction k arbitrary: i) auto

lemma name_loop_field:
  assumes "list_all word_char w" "w \<noteq> [] \<or> \<not> sp" "n < 8" "n \<noteq> 4"
  shows "name_loop line i ((w @ replicate (Suc k) (CHR '' '')) @ rest) sp n ps fsize =
    name_loop line (i + length w + Suc k) rest True (n + 1) ps fsize"
  using assms name_loop_word[of w n line i "CHR '' '' # replicate k (CHR '' '') @ rest" sp ps fsize] name_loop_blanks
  by (cases "w = []") auto

lemma name_loop_fields:
  assumes "list_all (\<lambda>f. f \<noteq> [] \<and> list_all word_char f) fs" "length ks = length fs" "\<forall>j < length fs. n + j \<noteq> 4 \<and> n + j < 8"
  shows "name_loop line i (padded fs ks @ rest) True n ps fsize = name_loop line (i + length (padded fs ks)) rest True (n + length fs) ps fsize"
  using assms
proof (induction fs arbitrary: ks n i)
  case (Cons f fs)
  then obtain k ks' where ks: "ks = k # ks'" "length ks' = length fs" by (cases ks) auto
  have n: "n < 8" "n \<noteq> 4" using Cons.prems(3)[rule_format, of 0] by auto
  have "\<forall>j < length fs. n + 1 + j \<noteq> 4 \<and> n + 1 + j < 8" using Cons.prems(3)[rule_format, of "Suc j" for j] by auto
  then have "name_loop line (i + length f + Suc k) (padded fs ks' @ rest) True (n + 1) ps fsize =
      name_loop line (i + length f + Suc k + length (padded fs ks')) rest True (n + 1 + length fs) ps fsize"
    using Cons.prems(1) ks(2) by (intro Cons.IH) auto
  moreover have "name_loop line i (padded (f # fs) ks @ rest) True n ps fsize = name_loop line (i + length f + Suc k) (padded fs ks' @ rest) True (n + 1) ps fsize"
    using name_loop_field[of f True n line i k "padded fs ks' @ rest" ps fsize] Cons.prems(1) n ks by (simp add: padded_def)
  ultimately show ?case using ks by (simp add: padded_def add.assoc)
qed (simp add: padded_def)

lemma dec_nat_word: "list_all word_char (dec_nat n)"
  using dec_nat_digits[of n] by (auto simp: list_all_iff word_char_def positive_char_def is_digit_def)

lemma name_loop_size:
  assumes "sz < 2 ^ 31" "line = pre @ dec_nat sz @ replicate (Suc k) (CHR '' '') @ rest" "i = length pre"
  shows "name_loop line i ((dec_nat sz @ replicate (Suc k) (CHR '' '')) @ rest) True 4 None fsize =
    name_loop line (i + length (dec_nat sz) + Suc k) rest True 5 (Some i) (int sz)"
proof -
  have "name_loop line i ((dec_nat sz @ replicate (Suc k) (CHR '' '')) @ rest) True 4 None fsize =
      name_loop line (i + length (dec_nat sz)) (replicate (Suc k) (CHR '' '') @ rest) False 4 (Some i) fsize"
    using name_loop_word[of "dec_nat sz" 4 line i "replicate (Suc k) (CHR '' '') @ rest" True None fsize] dec_nat_word[of sz] by simp
  moreover have "length (dec_nat sz) < 16" using dec_nat_length[of sz 10] assms(1) by simp
  moreover have "take (length (dec_nat sz)) (drop i line) = dec_nat sz" using assms(2,3) by simp
  ultimately show ?thesis using atoi_dec[OF assms(1)] name_loop_blanks by simp
qed

lemma padded_set: "set (padded fs ks) \<subseteq> insert (CHR '' '') (set (concat fs))"
  by (auto simp: padded_def dest: set_zip_leftD)

lemma ls_line_set:
  assumes "ls_ok e"
  shows "NUL \<notin> set (ls_line e)" "CHR 0x0A \<notin> set (ls_line e)"
proof -
  have "set (concat (le_perm e # le_fields e)) \<subseteq> {c. word_char c}" using assms by (auto simp: ls_ok_def list_all_iff)
  moreover have "\<not> word_char NUL" "\<not> word_char (CHR 0x0A)" by (simp_all add: word_char_def positive_char_def)
  ultimately have "NUL \<notin> set (ls_prefix e)" "CHR 0x0A \<notin> set (ls_prefix e)"
    using padded_set[of "le_perm e # le_fields e" "le_pads e"] unfolding ls_prefix_def by (cases "le_mode e"; auto)+
  then show "NUL \<notin> set (ls_line e)" "CHR 0x0A \<notin> set (ls_line e)" using assms by (auto simp: ls_line_def ls_ok_def)
qed

text \<open>The line of an entry is read back.\<close>

lemma ls_name_found:
  assumes "ls_ok e"
  shows "find_file_name_point (ls_line e) (of_char (mode_char (le_mode e))) fsize = Some (Some (length (ls_prefix e)), int (le_size e))"
proof -
  let ?d = "dec_nat (le_size e)"
  obtain k0 k1 k2 k3 k4 k5 k6 k7 where ks: "le_pads e = [k0, k1, k2, k3, k4, k5, k6, k7]"
  proof -
    have "length (le_pads e) = 8" using assms by (simp add: ls_ok_def)
    then show thesis using that by (auto simp: numeral_eq_Suc length_Suc_conv)
  qed
  define a where "a = le_perm e @ replicate (Suc k0) (CHR '' '')"
  define b where "b = padded [le_links e, le_owner e, le_group e] [k1, k2, k3]"
  define c where "c = padded [le_month e, le_day e, le_time e] [k5, k6, k7]"
  let ?line = "ls_line e" and ?z = "?d @ replicate (Suc k4) (CHR '' '')"
  have pre: "ls_prefix e = mode_char (le_mode e) # a @ b @ ?z @ c"
    by (simp add: ls_prefix_def le_fields_def ks padded_def a_def b_def c_def)
  then have line: "?line = mode_char (le_mode e) # a @ b @ ?z @ c @ le_name e" by (simp add: ls_line_def)
  have w: "list_all word_char (le_perm e)" "list_all (\<lambda>f. f \<noteq> [] \<and> list_all word_char f) [le_links e, le_owner e, le_group e]"
    "list_all (\<lambda>f. f \<noteq> [] \<and> list_all word_char f) [le_month e, le_day e, le_time e]"
    using assms by (auto simp: ls_ok_def le_fields_def)
  have "name_loop ?line 1 (a @ b @ ?z @ c @ le_name e) False 0 None fsize = name_loop ?line (1 + length a) (b @ ?z @ c @ le_name e) True 1 None fsize"
    using name_loop_field[of "le_perm e" False 0 ?line 1 k0 "b @ ?z @ c @ le_name e" None fsize] w(1) by (simp add: a_def)
  also have "\<dots> = name_loop ?line (1 + length a + length b) (?z @ c @ le_name e) True 4 None fsize"
    using name_loop_fields[OF w(2), of "[k1, k2, k3]" 1 ?line "1 + length a" "?z @ c @ le_name e" None fsize] by (simp add: b_def eval_nat_numeral)
  also have "\<dots> = name_loop ?line (1 + length a + length b + length ?z) (c @ le_name e) True 5 (Some (1 + length a + length b)) (int (le_size e))"
    using name_loop_size[of "le_size e" ?line "mode_char (le_mode e) # a @ b" k4 "c @ le_name e" "1 + length a + length b" fsize] assms line
    by (simp add: ls_ok_def add.assoc)
  also have "\<dots> = name_loop ?line (1 + length a + length b + length ?z + length c) (le_name e) True 8 (Some (1 + length a + length b)) (int (le_size e))"
    using name_loop_fields[OF w(3), of "[k5, k6, k7]" 5 ?line "1 + length a + length b + length ?z" "le_name e" "Some (1 + length a + length b)"
      "int (le_size e)"] by (simp add: c_def)
  also have "\<dots> = Some (Some (length (ls_prefix e)), int (le_size e))"
    using assms pre by (cases "le_name e") (auto simp: ls_ok_def word_char_def)
  finally have loop: "name_loop ?line 1 (a @ b @ ?z @ c @ le_name e) False 0 None fsize = Some (Some (length (ls_prefix e)), int (le_size e))" .
  have "cstr ?line = ?line" using ls_line_set[OF assms] by (simp add: cstr_no_NUL)
  moreover have "positive_char (mode_char (le_mode e))" by (cases "le_mode e") (simp_all add: positive_char_def)
  ultimately show ?thesis using loop line assms by (simp add: find_file_name_point_def ls_ok_def)
qed

lemma ls_other_mode: "of_char (mode_char m) \<noteq> k \<Longrightarrow> find_file_name_point (mode_char m # cs) k fsize = Some (None, fsize)"
  by (auto simp: find_file_name_point_def)

definition le_call :: "ls_entry \<Rightarrow> scan_call" where
  "le_call e = (le_name e, int (le_size e), le_mode e)"

lemma ls_reports:
  assumes "ls_ok e"
  shows "reports (ls_line e) [le_call e]"
proof -
  have name: "drop (length (ls_prefix e)) (ls_line e) = le_name e" by (simp add: ls_line_def)
  have "report_line (ls_line e) fsize = Some ([le_call e], int (le_size e))" for fsize
  proof (cases "le_mode e")
    case FOLDER_MODE
    then show ?thesis using ls_name_found[OF assms, of fsize] name by (simp add: report_line_def le_call_def)
  next
    case FILE_MODE
    obtain cs where "ls_line e = mode_char FILE_MODE # cs" using FILE_MODE by (simp add: ls_line_def ls_prefix_def)
    then have "find_file_name_point (ls_line e) 100 fsize = Some (None, fsize)" using ls_other_mode[of FILE_MODE 100] by simp
    then show ?thesis using FILE_MODE ls_name_found[OF assms, of fsize] name by (simp add: report_line_def le_call_def)
  qed
  then show ?thesis using assms by (simp add: reports_def ls_ok_def)
qed

text \<open>
  The scan of a folder. When the server sends the lines of a list of entries, each with a newline behind it except perhaps the last, and the data arrive in
  any pieces with a zero byte behind each, the callback of the user is called exactly once for each entry, in their order, with its name, its size
  and whether it is a folder; the buffer is empty afterwards.
\<close>

lemma ftp_listing_reported:
  assumes "list_all ls_ok es" "scan_ready ds buff"
    and "pieces ds = concat (map (\<lambda>e. ls_line e @ [CHR 0x0A]) es) \<or> es \<noteq> [] \<and> pieces ds @ [CHR 0x0A] = concat (map (\<lambda>e. ls_line e @ [CHR 0x0A]) es)"
  shows "scan_listing ds buff = Some (map le_call es, Some [])"
proof -
  have body: "concat (map (\<lambda>e. ls_line e @ [CHR 0x0A]) xs) = concat (map (\<lambda>l. l @ [CHR 0x0A]) (map ls_line xs))" for xs by (simp add: comp_def)
  have nl: "list_all (\<lambda>l. CHR 0x0A \<notin> set l) (map ls_line xs)" if "list_all ls_ok xs" for xs
    using that ls_line_set(2) by (simp add: list_all_iff)
  have reps: "list_all2 reports (map ls_line xs) (map (\<lambda>e. [le_call e]) xs)" if "list_all ls_ok xs" for xs
    using that by (induction xs) (simp_all add: ls_reports)
  have empty: "reports [] []" by (simp add: reports_def report_line_def find_file_name_point_def BUFF_INCREASE_NUM_BASE_def)
  show ?thesis using assms(3)
  proof (elim disjE conjE)
    assume "pieces ds = concat (map (\<lambda>e. ls_line e @ [CHR 0x0A]) es)"
    then have "split_lines (pieces ds) = (map ls_line es, [])" using split_lines_concat[OF nl[OF assms(1)], of "[]"] by (simp add: body)
    then have "scan_listing ds buff = Some (concat (map (\<lambda>e. [le_call e]) es @ [[]]), Some [])"
      using reps[OF assms(1)] empty assms(2) by (intro scan_listing_lines) (auto intro: list_all2_appendI)
    then show ?thesis by simp
  next
    assume "es \<noteq> []" and p: "pieces ds @ [CHR 0x0A] = concat (map (\<lambda>e. ls_line e @ [CHR 0x0A]) es)"
    then obtain fs e where es: "es = fs @ [e]" by (cases es rule: rev_cases) auto
    then have ok: "list_all ls_ok fs" "ls_ok e" using assms(1) by auto
    have "pieces ds = concat (map (\<lambda>e. ls_line e @ [CHR 0x0A]) fs) @ ls_line e" using p es by simp
    then have "split_lines (pieces ds) = (map ls_line fs, ls_line e)"
      using split_lines_concat[OF nl[OF ok(1)], of "ls_line e"] split_lines_plain[OF ls_line_set(2)[OF ok(2)]] by (simp add: body)
    then have "scan_listing ds buff = Some (concat (map (\<lambda>e. [le_call e]) fs @ [[le_call e]]), Some [])"
      using reps[OF ok(1)] ls_reports[OF ok(2)] assms(2) by (intro scan_listing_lines) (auto intro: list_all2_appendI)
    then show ?thesis using es by simp
  qed
qed

definition sample_entry :: "FILE_NAME_MODE \<Rightarrow> nat \<Rightarrow> string \<Rightarrow> ls_entry" where
  "sample_entry mode sz name =
     \<lparr>le_mode = mode, le_perm = ''rw-r--r--'', le_links = ''1'', le_owner = ''503'', le_group = ''503'', le_size = sz, le_month = ''Apr'', le_day = ''17'',
      le_time = ''12:09'', le_name = name, le_pads = [3, 0, 5, 11, 0, 0, 0, 0]\<rparr>"

definition sample_listing :: string where
  "sample_listing = concat (map (\<lambda>e. ls_line e @ [CHR 0x0A]) [sample_entry FOLDER_MODE 40 ''data'', sample_entry FILE_MODE 39 ''a.bcp.ok''])"

abbreviation sample_entries :: "ls_entry list" where
  "sample_entries \<equiv> [sample_entry FOLDER_MODE 40 ''data'', sample_entry FILE_MODE 39 ''a.bcp.ok'']"

abbreviation sample_pieces :: "(bool \<times> string) list" where
  "sample_pieces \<equiv> [(True, take 30 sample_listing), (True, drop 30 sample_listing @ [NUL] @ ''left over'')]"

lemma sample_listing_ok: "list_all ls_ok sample_entries" "pieces sample_pieces = sample_listing" "scan_ready sample_pieces None"
proof -
  show "list_all ls_ok sample_entries" by code_simp
  show "pieces sample_pieces = sample_listing" by code_simp
qed (simp add: scan_ready_def)

section \<open>Lines that are lost\<close>

text \<open>A line of up to 49 bytes is never reported, and neither is a name whose first byte is not ASCII, since \<^verbatim>\<open>char\<close> is signed.\<close>

lemma short_line_lost: "length l \<le> 49 \<Longrightarrow> report_line l fsize = Some ([], fsize)"
  using length_cstr_le[of l] by (simp add: report_line_def find_file_name_point_def del: length_cstr_le)

lemma non_ascii_name_lost:
  "report_line (ls_prefix (sample_entry FILE_MODE 39 []) @ [CHR 0xE6, CHR 0x96, CHR 0x87]) 0 = Some ([], 39)"
  by code_simp

end
