(* ===== verification/Ps_Lists.thy ===== *)
theory Ps_Lists
  imports Ps_Setup
begin

text \<open>
  What the lists of the port scanner hold: the jobs are all combinations of scan, address and port, and the results are a table with one
  record for each address and port.
\<close>

section \<open>Jobs\<close>

definition scan_jobs :: "int list \<Rightarrow> string list \<Rightarrow> int list \<Rightarrow> nat \<Rightarrow> job_t list" where
  "scan_jobs flags ips ports i =
     (if flags ! i = 0 then [] else [\<lparr>job_ip = ip, job_portno = port, job_scan_type = i\<rparr>. ip \<leftarrow> ips, port \<leftarrow> ports])"

definition all_jobs :: "int list \<Rightarrow> string list \<Rightarrow> int list \<Rightarrow> job_t list" where
  "all_jobs flags ips ports = concat (map (scan_jobs flags ips ports) [0..<6])"

definition with_jobs :: "job_t list \<Rightarrow> ps_state \<Rightarrow> ps_state" where
  "with_jobs js st = st\<lparr>job_masterlist := rev js @ job_masterlist st, job_masterlist_count := job_masterlist_count st + int (length js)\<rparr>"

lemma with_jobs_simps [simp]:
  "port_list (with_jobs js st) = port_list st" "ip_list (with_jobs js st) = ip_list st" "scan_flags (with_jobs js st) = scan_flags st"
  "with_jobs [] st = st" "with_jobs ks (with_jobs js st) = with_jobs (js @ ks) st"
  by (simp_all add: with_jobs_def)

lemma push_ports_eq: "push_ports i ip st = with_jobs [\<lparr>job_ip = ip, job_portno = port, job_scan_type = i\<rparr>. port \<leftarrow> port_list st] st"
proof -
  have "fold (\<lambda>port. push_job ip port i) ports st = with_jobs [\<lparr>job_ip = ip, job_portno = port, job_scan_type = i\<rparr>. port \<leftarrow> ports] st" for ports
    by (induction ports arbitrary: st) (auto simp: push_job_def with_jobs_def)
  then show ?thesis by (simp add: push_ports_def)
qed

lemma jobs_of_scan_eq: "jobs_of_scan i st = with_jobs (scan_jobs (scan_flags st) (ip_list st) (port_list st) i) st"
proof -
  have "fold (push_ports i) ips st = with_jobs [\<lparr>job_ip = ip, job_portno = port, job_scan_type = i\<rparr>. ip \<leftarrow> ips, port \<leftarrow> port_list st] st" for ips
    by (induction ips arbitrary: st) (simp_all add: push_ports_eq)
  then show ?thesis by (simp add: jobs_of_scan_def scan_jobs_def)
qed

lemma create_jobs_eq:
  "create_jobs st = (let js = all_jobs (scan_flags st) (ip_list st) (port_list st) in
     if js = [] \<and> job_masterlist st = [] then PsExit 1 else PsRun (with_jobs js st))"
proof -
  have "fold jobs_of_scan is st = with_jobs (concat (map (scan_jobs (scan_flags st) (ip_list st) (port_list st)) is)) st" for "is"
    by (induction "is" arbitrary: st) (simp_all add: jobs_of_scan_eq)
  then have "fold jobs_of_scan [0..<6] st = with_jobs (all_jobs (scan_flags st) (ip_list st) (port_list st)) st"
    unfolding all_jobs_def .
  then show ?thesis by (auto simp: create_jobs_def Let_def with_jobs_def)
qed

section \<open>Results\<close>

definition res_key :: "result_t \<Rightarrow> string \<times> int" where
  "res_key r = (cstr (res_ip r), res_portno r)"

definition res_value :: "result_t \<Rightarrow> int" where
  "res_value r = res_result r ! res_scan_type r"

text \<open>The table after a sequence of results: the last value of each scan, and the least of all values there were.\<close>

definition last_value :: "result_t list \<Rightarrow> string \<times> int \<Rightarrow> nat \<Rightarrow> int" where
  "last_value ps k j = (let qs = filter (\<lambda>p. res_key p = k \<and> res_scan_type p = j) ps in if qs = [] then NONE else res_value (last qs))"

definition values_of :: "result_t list \<Rightarrow> string \<times> int \<Rightarrow> int set" where
  "values_of ps k = set (filter (\<lambda>v. v \<noteq> NONE) (map res_value (filter (\<lambda>p. res_key p = k) ps)))"

definition least_value :: "result_t list \<Rightarrow> string \<times> int \<Rightarrow> int" where
  "least_value ps k = Min (insert 10 (values_of ps k))"

definition result_ok :: "result_t list \<Rightarrow> result_t \<Rightarrow> bool" where
  "result_ok ps r \<longleftrightarrow> res_result r = map (last_value ps (res_key r)) [0..<6] \<and> res_conclusion r = least_value ps (res_key r)"

lemma same_port_key: "same_port r p \<longleftrightarrow> res_key r = res_key p"
  by (auto simp: same_port_def res_key_def)

lemma enter_result_key [simp]: "res_key (enter_result p r) = res_key r" "res_key (new_result p) = res_key p"
  by (simp_all add: enter_result_def new_result_def res_key_def Let_def)

lemma conclude_Min: "conclude c rs = Min (insert c (set (filter (\<lambda>r. r \<noteq> NONE) rs)))"
proof -
  have "conclude c rs = fold min (filter (\<lambda>r. r \<noteq> NONE) rs) c"
    by (induction rs arbitrary: c) (auto simp: conclude_def min_def)
  then show ?thesis using Min.set_eq_fold[of c "filter (\<lambda>r. r \<noteq> NONE) rs"] by simp
qed

lemma last_value_snoc: "last_value (ps @ [p]) k j = (if res_key p = k \<and> res_scan_type p = j then res_value p else last_value ps k j)"
  by (auto simp: last_value_def Let_def)

lemma values_of_snoc: "values_of (ps @ [p]) k = (if res_key p = k \<and> res_value p \<noteq> NONE then insert (res_value p) (values_of ps k) else values_of ps k)"
  by (auto simp: values_of_def)

lemma last_value_in: "last_value ps k j \<noteq> NONE \<Longrightarrow> last_value ps k j \<in> values_of ps k"
  by (induction ps rule: rev_induct) (auto simp: last_value_snoc values_of_snoc last_value_def[of "[]"] split: if_splits)


lemma finite_values [simp]: "finite (values_of ps k)"
  by (simp add: values_of_def)

lemma Min_insert_Min: "finite A \<Longrightarrow> A \<noteq> {} \<Longrightarrow> finite S \<Longrightarrow> Min (insert (Min A) S) = Min (A \<union> (S :: int set))"
  by (cases "S = {}") (simp_all add: Min_Un)

lemma enter_result_ok:
  assumes "res_result r = map (last_value ps (res_key r)) [0..<6]" "res_conclusion r = least_value ps (res_key r)"
    and "res_key r = res_key p" "res_scan_type p < 6"
  shows "result_ok (ps @ [p]) (enter_result p r)"
proof -
  let ?k = "res_key p" and ?rs = "(res_result r)[res_scan_type p := res_value p]"
  have rs: "?rs = map (last_value (ps @ [p]) ?k) [0..<6]"
    using assms by (intro nth_equalityI) (auto simp: nth_list_update last_value_snoc)
  have sub: "set (filter (\<lambda>v. v \<noteq> NONE) ?rs) \<subseteq> values_of (ps @ [p]) ?k"
    unfolding rs using last_value_in[of "ps @ [p]" ?k] by auto
  have new: "res_value p \<noteq> NONE \<Longrightarrow> res_value p \<in> set (filter (\<lambda>v. v \<noteq> NONE) ?rs)"
    using assms(1,4) set_update_memI[of "res_scan_type p" "res_result r" "res_value p"] by simp
  have "conclude (res_conclusion r) ?rs = Min (insert (Min (insert 10 (values_of ps ?k))) (set (filter (\<lambda>v. v \<noteq> NONE) ?rs)))"
    unfolding conclude_Min using assms(2,3) by (simp add: least_value_def)
  also have "\<dots> = Min (insert 10 (values_of ps ?k) \<union> set (filter (\<lambda>v. v \<noteq> NONE) ?rs))"
    by (rule Min_insert_Min) simp_all
  also have "insert 10 (values_of ps ?k) \<union> set (filter (\<lambda>v. v \<noteq> NONE) ?rs) = insert 10 (values_of (ps @ [p]) ?k)"
    using sub new by (auto simp: values_of_snoc simp del: set_filter split: if_splits)
  finally have "conclude (res_conclusion r) ?rs = least_value (ps @ [p]) ?k" by (simp add: least_value_def)
  then show ?thesis using rs assms(3) by (simp add: result_ok_def enter_result_def Let_def res_key_def res_value_def)
qed

lemma result_ok_other: "result_ok ps r \<Longrightarrow> res_key r \<noteq> res_key p \<Longrightarrow> result_ok (ps @ [p]) r"
  by (auto simp: result_ok_def last_value_snoc least_value_def values_of_snoc)

lemma replace_result_eq:
  assumes "distinct (map res_key rs)"
  shows "replace_result p rs =
    (if res_key p \<in> res_key ` set rs then Some (map (\<lambda>r. if res_key r = res_key p then enter_result p r else r) rs) else None)"
  using assms
proof (induction rs)
  case (Cons r rs)
  have "map (\<lambda>r. if res_key r = res_key p then enter_result p r else r) rs = rs" if "res_key r = res_key p"
    using Cons.prems that by (intro map_idI) (auto simp: image_iff)
  then show ?case using Cons by (auto simp: same_port_key)
qed simp

text \<open>
  Whatever results are entered one after another, in any order of addresses, ports and scans, the list of results is a table with exactly
  one record for each address and port that occurred; each record has for every scan the last value entered, or none, and its conclusion is the least
  of all values entered for it (10 when there was none).
\<close>

lemma results_are_a_table:
  assumes "result_masterlist st = []" "result_list_count st = 0" "list_all (\<lambda>p. res_scan_type p < 6) ps"
  shows "\<exists>rs. result_masterlist (fold push_result ps st) = rs \<and> distinct (map res_key rs) \<and> set (map res_key rs) = set (map res_key ps) \<and>
    list_all (result_ok ps) rs \<and> result_list_count (fold push_result ps st) = int (length rs)"
  using assms(3)
proof (induction ps rule: rev_induct)
  case Nil
  show ?case using assms(1,2) by simp
next
  case (snoc p ps)
  let ?st = "fold push_result ps st" and ?rs = "result_masterlist (fold push_result ps st)"
  have IH: "distinct (map res_key ?rs)" "set (map res_key ?rs) = set (map res_key ps)" "list_all (result_ok ps) ?rs"
    "result_list_count ?st = int (length ?rs)" and p: "res_scan_type p < 6" using snoc by auto
  note upd = replace_result_eq[OF IH(1), of p]
  show ?case
  proof (cases "res_key p \<in> res_key ` set ?rs")
    case True
    define new where "new = map (\<lambda>r. if res_key r = res_key p then enter_result p r else r) ?rs"
    have keys: "map res_key new = map res_key ?rs" by (simp add: new_def)
    have img: "res_key ` set new = res_key ` set ?rs" using arg_cong[OF keys, of set] by (simp only: set_map)
    have "set (map res_key new) = set (map res_key (ps @ [p]))"
      unfolding keys IH(2) using True IH(2) by (simp add: insert_absorb)
    moreover have "list_all (result_ok (ps @ [p])) new"
      using IH(3) enter_result_ok[of _ ps p] result_ok_other[of ps _ p] p by (auto simp: new_def list_all_iff result_ok_def)
    moreover have "fold push_result (ps @ [p]) st = ?st\<lparr>result_masterlist := new\<rparr>" "length new = length ?rs"
      using upd True by (simp_all add: push_result_def[of p] new_def)
    ultimately show ?thesis using IH(1,4) keys img by simp
  next
    case False
    then have "\<forall>x\<in>set ps. res_key x \<noteq> res_key p" using IH(2) by (metis image_eqI set_map)
    then have none: "last_value ps (res_key p) j = NONE" "values_of ps (res_key p) = {}" for j
      by (auto simp: last_value_def values_of_def Let_def filter_empty_conv)
    then have "map (last_value ps (res_key p)) [0..<6] = replicate 6 NONE" by (intro nth_equalityI) simp_all
    then have "result_ok (ps @ [p]) (enter_result p (new_result p))"
      using p none(2) enter_result_ok[of "new_result p" ps p] by (simp add: least_value_def) (simp add: new_result_def)
    moreover have "list_all (result_ok (ps @ [p])) ?rs"
      using IH(3) False result_ok_other[of ps _ p] by (metis (no_types, lifting) image_eqI list_all_iff)
    ultimately show ?thesis using upd False IH by (simp add: push_result_def[of p])
  qed
qed

end
