(* ===== verification/Ps_Packet.thy ===== *)
theory Ps_Packet
  imports Ps_Setup
begin

text \<open>
  The packets of the port scanner, \<^verbatim>\<open>portscan/ps_prepare.c\<close>. The headers are those of \<^verbatim>\<open>tcp_ack_scan.c\<close>; an address is what \<^verbatim>\<open>inet_addr\<close> makes of
  its text.
\<close>

section \<open>The checksum\<close>

text \<open>The sum has 32 bits here.\<close>

fun csum_loop :: "byte list \<Rightarrow> nat \<Rightarrow> 32 word \<Rightarrow> 32 word option" where
  "csum_loop ptr 0 csum = Some csum"
| "csum_loop ptr (Suc 0) csum = (case ptr of [] \<Rightarrow> None | a # _ \<Rightarrow> Some (csum + ucast a))"
| "csum_loop ptr (Suc (Suc n)) csum =
     (case ptr of a # b # r \<Rightarrow> csum_loop r n (csum + ucast (ucast a + 256 * ucast b :: 16 word)) | _ \<Rightarrow> None)"

definition calculate_tcpcsum :: "byte list \<Rightarrow> nat \<Rightarrow> 16 word option" where
  "calculate_tcpcsum ptr pktlen = do {
     csum \<leftarrow> csum_loop ptr pktlen 0;
     let csum = drop_bit 16 csum + (csum AND 0xFFFF);
     let csum = csum + drop_bit 16 csum;
     Some (NOT (ucast csum))
   }"

section \<open>The packets\<close>

definition flags_of_scan :: "nat \<Rightarrow> tcphdr \<Rightarrow> tcphdr" where
  "flags_of_scan scan_type t =
     (if scan_type = SYN_SCAN then t\<lparr>tcp_syn := True\<rparr>
      else if scan_type = NULL_SCAN then t
      else if scan_type = FIN_SCAN then t\<lparr>tcp_fin := True\<rparr>
      else if scan_type = XMAS_SCAN then t\<lparr>tcp_fin := True, tcp_psh := True, tcp_urg := True\<rparr>
      else if scan_type = ACK_SCAN then t\<lparr>tcp_ack := True\<rparr>
      else t)"

definition pkt_iphdr :: "32 word \<Rightarrow> 32 word \<Rightarrow> iphdr" where
  "pkt_iphdr src dst =
     \<lparr>ip_ihl = 5, ip_version = 4, ip_tos = 0, ip_tot_len = 20 + 20, ip_id = htons 9999, ip_frag_off = htons 0, ip_ttl = 64,
      ip_protocol = 6, ip_check = 0, ip_saddr = src, ip_daddr = dst\<rparr>"

definition pkt_tcphdr :: "int \<Rightarrow> int \<Rightarrow> tcphdr" where
  "pkt_tcphdr src_port dst_port =
     \<lparr>tcp_source = htons (word_of_int src_port), tcp_dest = htons (word_of_int dst_port), tcp_seq = htonl 9999999, tcp_ack_seq = 0, tcp_res1 = 0,
      tcp_doff = word_of_nat (20 div 4), tcp_fin = False, tcp_syn = False, tcp_rst = False, tcp_psh = False, tcp_ack = False, tcp_urg = False, tcp_res2 = 0,
      tcp_window = htons 14600, tcp_check = 0, tcp_urg_ptr = 0\<rparr>"

text \<open>The datagram of 4096 bytes, zero behind the two headers.\<close>

definition prepare_tcp_pkt :: "(string \<Rightarrow> 32 word) \<Rightarrow> string \<Rightarrow> int \<Rightarrow> string \<Rightarrow> int \<Rightarrow> nat \<Rightarrow> byte list option" where
  "prepare_tcp_pkt inet dst_ip dst_port src_ip src_port scan_type = do {
     let iph = pkt_iphdr (inet src_ip) (inet dst_ip);
     c \<leftarrow> calculate_tcpcsum (iphdr_bytes iph) (unat (drop_bit 1 (ip_tot_len iph)));
     let iph = iph\<lparr>ip_check := c\<rparr>;
     let tcph = flags_of_scan scan_type (pkt_tcphdr src_port dst_port);
     let psh = \<lparr>cs_source_address = inet src_ip, cs_dest_address = inet dst_ip, cs_placeholder = 0, cs_protocol = 6,
                cs_tcp_length = htons 20, cs_tcp = tcph\<rparr>;
     c \<leftarrow> calculate_tcpcsum (csum_header_bytes psh) 32;
     Some (iphdr_bytes iph @ tcphdr_bytes (tcph\<lparr>tcp_check := c\<rparr>) @ replicate 4056 0)
   }"

definition char_bytes :: "string \<Rightarrow> byte list" where
  "char_bytes s = map of_char s"

text \<open>
  A DNS query: the bytes of the buffer of 4096 and the length that is reported. The bit fields of the header begin at the lowest bit, so that
  \<^verbatim>\<open>rd\<close> is the highest bit of the third byte.
\<close>

definition dns_flags :: byte where
  "dns_flags = push_bit 7 1"

definition prepare_dnsquery_pkt :: "string \<Rightarrow> 16 word \<Rightarrow> (byte list \<times> nat) option" where
  "prepare_dnsquery_pkt host query_type =
     (let name = cstr host; len = 12 + (length name + 1) + 4 in
      if len > 4096 then None
      else Some (bytes16 (htons 1234) @ [dns_flags, 0] @ bytes16 (htons 1) @ replicate 6 0 @ char_bytes name @ [0] @
                 bytes16 (htons query_type) @ bytes16 (htons 1) @ replicate (4096 - len) 0, len))"

text \<open>The loop copies the same letter to the same place twenty times.\<close>

definition prepare_udp_pkt_with_payload :: "byte list" where
  "prepare_udp_pkt_with_payload = char_bytes ''a'' @ replicate 29 0"

section \<open>The checksum of both programs\<close>

lemma csum_loop_sum_loop:
  "sum_loop ptr n s = Some t \<Longrightarrow> t < 2 ^ 32 \<Longrightarrow> csum_loop ptr n (word_of_nat s) = Some (word_of_nat t)"
proof (induction ptr n s rule: sum_loop.induct)
  case (2 ptr s)
  then show ?case by (auto split: list.splits)
next
  case (3 ptr n s)
  then obtain a b r where p: "ptr = a # b # r" by (auto split: list.splits)
  have "(ucast v :: 32 word) = word_of_nat (unat v)" for v :: "16 word" by simp
  then show ?case using 3 p by simp
qed simp

lemma drop_word_of_nat: "x < 2 ^ 32 \<Longrightarrow> drop_bit 16 (word_of_nat x :: 32 word) = word_of_nat (drop_bit 16 x)"
  by (simp only: word_unat_eq_iff unsigned_drop_bit_eq unsigned_of_nat) (simp add: take_bit_eq_mod drop_bit_eq_div)

lemma and_word_of_nat: "(word_of_nat x :: 32 word) AND 0xFFFF = word_of_nat (take_bit 16 x)"
proof -
  have "(0xFFFF :: 32 word) = mask 16" by (simp add: mask_eq_exp_minus_1)
  then have "(word_of_nat x :: 32 word) AND 0xFFFF = take_bit 16 (word_of_nat x)" by (simp add: take_bit_eq_mask)
  then show ?thesis by (simp add: take_bit_of_nat)
qed

lemma ucast_word_of_nat: "ucast (word_of_nat x :: 32 word) = (word_of_nat x :: 16 word)"
  by (rule bit_word_eqI) (auto simp: bit_simps)

lemma calculate_tcpcsum_checksum:
  assumes "n \<le> length ptr" "n < 65536"
  shows "calculate_tcpcsum ptr n = checksum ptr n"
proof -
  define s t where "s = word_sum (take n ptr)" and "t = drop_bit 16 s + take_bit 16 s"
  have "s \<le> 65535 * n" using word_sum_le[of "take n ptr"] assms(1) by (simp add: s_def)
  then have s: "s < 2 ^ 32" using assms(2) by simp
  then have t: "t < 2 ^ 32" by (simp add: t_def drop_bit_eq_div take_bit_eq_mod)
  have loop: "sum_loop ptr n 0 = Some s" using sum_loop_eq[OF assms(1), of 0] by (simp add: s_def)
  then have "csum_loop ptr n 0 = Some (word_of_nat s)" using csum_loop_sum_loop[of ptr n 0 s] s by simp
  moreover have "drop_bit 16 (word_of_nat s :: 32 word) + (word_of_nat s AND 0xFFFF) = word_of_nat t"
    using drop_word_of_nat[OF s] by (simp add: and_word_of_nat t_def)
  moreover have "(word_of_nat t :: 32 word) + drop_bit 16 (word_of_nat t) = word_of_nat (t + drop_bit 16 t)"
    using drop_word_of_nat[OF t] by simp
  ultimately show ?thesis
    using loop by (simp only: calculate_tcpcsum_def checksum_def Let_def Option.bind.simps ucast_word_of_nat t_def[symmetric])
qed

text \<open>Both checksums of a packet verify.\<close>

lemma flags_of_scan_check [simp]: "tcp_check (flags_of_scan sc t) = tcp_check t" "tcp_urg_ptr (flags_of_scan sc t) = tcp_urg_ptr t"
  "tcp_dest (flags_of_scan sc t) = tcp_dest t"
  by (simp_all add: flags_of_scan_def)

lemma tcp_packet_checked:
  obtains d where "prepare_tcp_pkt inet dst_ip dst_port src_ip src_port sc = Some (d @ replicate 4056 0)" "length d = 40"
    "header_checked d" "segment_checked (inet src_ip) (inet dst_ip) d"
proof -
  let ?h = "pkt_iphdr (inet src_ip) (inet dst_ip)" and ?t = "flags_of_scan sc (pkt_tcphdr src_port dst_port)"
  let ?p = "pseudo_header (inet src_ip) (inet dst_ip)"
  have len: "unat (drop_bit 1 (ip_tot_len ?h)) = 20" by (simp add: pkt_iphdr_def)
  obtain c where c: "checksum (iphdr_bytes ?h) 20 = Some c" using checksum_defined[of 20 "iphdr_bytes ?h"] by auto
  obtain e where e: "checksum (?p @ tcphdr_bytes ?t) 32 = Some e"
    using checksum_defined[of 32 "?p @ tcphdr_bytes ?t"] by (auto simp: pseudo_header_def)
  let ?d = "iphdr_bytes (?h\<lparr>ip_check := c\<rparr>) @ tcphdr_bytes (?t\<lparr>tcp_check := e\<rparr>)"
  have "checksum (iphdr_bytes (?h\<lparr>ip_check := c\<rparr>)) 20 = Some 0" by (rule iphdr_check_fills[OF c]) (simp add: pkt_iphdr_def)
  moreover have "checksum (?p @ tcphdr_bytes (?t\<lparr>tcp_check := e\<rparr>)) 32 = Some 0"
    by (rule tcphdr_check_fills[OF e]) (simp add: pkt_tcphdr_def)
  moreover have "prepare_tcp_pkt inet dst_ip dst_port src_ip src_port sc = Some (?d @ replicate 4056 0)"
    using c e len by (simp add: prepare_tcp_pkt_def calculate_tcpcsum_checksum csum_header_bytes_def pseudo_header_def htons_20)
  ultimately show ?thesis by (intro that[of ?d]) (simp_all add: header_checked_def segment_checked_def)
qed

text \<open>
  The header of a DNS query says that it is an answer: \<^verbatim>\<open>rd\<close> stands where the protocol has the flag \<^verbatim>\<open>QR\<close>, and the name is sent as text.
\<close>

lemma dns_query_is_answer: "map_option (\<lambda>(b, n). (take 18 b, n)) (prepare_dnsquery_pkt ''www.google.com'' 1) =
    Some ([4, 210, 128, 0, 0, 1, 0, 0, 0, 0, 0, 0, 119, 119, 119, 46, 103, 111], 31)"
  by code_simp

end
