(* ===== verification/Ps_Version.thy ===== *)
theory Ps_Version
  imports Ps_Setup
begin

text \<open>
  The detection of service versions, \<^verbatim>\<open>portscan/ps_version.c\<close>: the list of versions found, and the conversation with a service, whose answers
  are arguments. A version has an array of 50 bytes; a text that does not fit, or is not set, is undefined.
\<close>

section \<open>The list of versions\<close>

record servver_result_t =
  ver_ip :: string
  ver_version :: "string list"

definition serv_ports :: "int list" where
  "serv_ports = [22, 24, 43, 80, 110, 143]"

definition port_index :: "int \<Rightarrow> nat" where
  "port_index portno = (case first_index (\<lambda>p. p = portno) serv_ports of None \<Rightarrow> 6 | Some i \<Rightarrow> i)"

text \<open>For another port the index is 6, and a record of the address is read outside of its array.\<close>

fun version_missing :: "string \<Rightarrow> nat \<Rightarrow> servver_result_t list \<Rightarrow> bool option" where
  "version_missing ip i [] = Some True"
| "version_missing ip i (r # rs) =
     (if cstr ip = cstr (ver_ip r)
      then (if i \<ge> 6 then None else if cstr (ver_version r ! i) \<noteq> [] then Some False else version_missing ip i rs)
      else version_missing ip i rs)"

definition isversion_needed :: "int \<Rightarrow> string \<Rightarrow> servver_result_t list \<Rightarrow> bool option" where
  "isversion_needed portno ip rs = version_missing ip (port_index portno) rs"

text \<open>\<^verbatim>\<open>push_servver_result\<close> with the one text of the new result that is looked at.\<close>

fun update_version :: "string \<Rightarrow> nat \<Rightarrow> string \<Rightarrow> servver_result_t list \<Rightarrow> servver_result_t list option" where
  "update_version ip i v [] = None"
| "update_version ip i v (r # rs) =
     (if cstr (ver_ip r) = cstr ip then Some (r\<lparr>ver_version := (ver_version r)[i := v]\<rparr> # rs)
      else map_option ((#) r) (update_version ip i v rs))"

definition push_servver_result :: "string \<Rightarrow> nat \<Rightarrow> string \<Rightarrow> servver_result_t list \<Rightarrow> servver_result_t list" where
  "push_servver_result ip i v rs =
     (case update_version ip i v rs of
        Some rs' \<Rightarrow> rs'
      | None \<Rightarrow> \<lparr>ver_ip = ip, ver_version = (replicate 6 [])[i := v]\<rparr> # rs)"

section \<open>The conversation\<close>

text \<open>
  \<^verbatim>\<open>sendData\<close> with what \<^verbatim>\<open>write\<close> returns: the bytes that have gone out, and whether it succeeds. When no more results are given,
  everything is accepted.
\<close>

fun sendData :: "int list \<Rightarrow> string \<Rightarrow> bool \<times> string \<times> int list" where
  "sendData ws [] = (True, [], ws)"
| "sendData [] data = (True, data, [])"
| "sendData (w # ws) data =
     (if w > 0 then (case sendData ws (drop (nat w) data) of (ok, out, ws') \<Rightarrow> (ok, take (nat w) data @ out, ws')) else (False, [], ws))"

text \<open>\<^verbatim>\<open>sendHttpQuery\<close>: the file goes out in pieces of at most 1024 bytes.\<close>

function http_blocks :: "int list \<Rightarrow> string \<Rightarrow> bool \<times> string" where
  "http_blocks ws content =
     (if content = [] then (True, [])
      else case sendData ws (take 1024 content) of
             (False, out, _) \<Rightarrow> (False, out)
           | (True, out, ws') \<Rightarrow> (case http_blocks ws' (drop 1024 content) of (ok, out2) \<Rightarrow> (ok, out @ out2)))"
  by pat_completeness auto
termination by (relation "measure (\<lambda>(ws, content). length content)") auto

declare http_blocks.simps [simp del]

definition sendHttpQuery :: "file_system \<Rightarrow> string \<Rightarrow> int list \<Rightarrow> bool \<times> string" where
  "sendHttpQuery fs filename ws = (if can_open fs filename then http_blocks ws (the (fs_files fs filename)) else (False, []))"

text \<open>\<^verbatim>\<open>recvData\<close> of at most 250 bytes; \<open>None\<close> is a failure or the end of the stream.\<close>

definition recvData :: "string option \<Rightarrow> string option" where
  "recvData answer = (case answer of None \<Rightarrow> None | Some bs \<Rightarrow> if bs = [] then None else Some (take 250 bs))"

section \<open>Reading the version\<close>

text \<open>The loop that copies a line: with its end, and one byte more when there is no newline.\<close>

definition version_line :: "string \<Rightarrow> string option" where
  "version_line s =
     (let line = takeWhile (\<lambda>c. c \<noteq> CHR 0x0A) (cstr s); n = (if CHR 0x0A \<in> set (cstr s) then length line + 1 else length line + 2)
      in if n \<le> 50 then Some line else None)"

definition version_fits :: "string \<Rightarrow> string option" where
  "version_fits s = (if length s < 50 then Some s else None)"

definition smtp_version :: "string \<Rightarrow> string option" where
  "smtp_version buf =
     (case drop 2 (take 6 (tokens '' '' (cstr buf))) of
        [] \<Rightarrow> None
      | [a] \<Rightarrow> version_fits (a @ '' '')
      | [a, b] \<Rightarrow> version_fits (a @ '' '' @ b @ '' '')
      | [a, b, c] \<Rightarrow> version_fits (a @ '' '' @ b @ '' '' @ c @ '' '')
      | a # b # c # d # _ \<Rightarrow> version_fits (a @ '' '' @ b @ '' '' @ c @ '' '' @ d))"

definition pop_version :: "string \<Rightarrow> string option" where
  "pop_version buf = (case tokens '' '' (cstr buf) of a # b # _ \<Rightarrow> version_fits b | _ \<Rightarrow> None)"

text \<open>The copy of the answer has no end, so that the fifth word has to end inside of it.\<close>

definition imap_version :: "string \<Rightarrow> string option" where
  "imap_version buf =
     (let ws = tokens '' '' (cstr buf) in
      if length ws > 5 \<or> length ws = 5 \<and> last (cstr buf) = CHR '' '' then version_fits (''Version: '' @ ws ! 3) else None)"

text \<open>\<^verbatim>\<open>strstr\<close> and a step behind the name. The buffer of 300 bytes is zero behind what was received.\<close>

definition version_behind :: "string \<Rightarrow> nat \<Rightarrow> string \<Rightarrow> string option" where
  "version_behind name n buf =
     (case framestr_first_conststr (Some buf) name of None \<Rightarrow> None | Some p \<Rightarrow> version_line (drop (p + n) buf))"

text \<open>What the network answers, and the results of the writes.\<close>

record ver_env =
  v_socket :: bool
  v_host :: bool
  v_connect :: bool
  v_writes :: "int list"
  v_answer :: "string option"
  v_fs :: file_system

text \<open>The part behind the connection: \<open>None\<close> is undefined, \<open>Some None\<close> a failure, and otherwise there is a text to enter.\<close>

definition read_version :: "ver_env \<Rightarrow> int \<Rightarrow> string option option" where
  "read_version env portno =
     (let sent = (if portno = 43 then fst (sendData (v_writes env) (''dagwood'' @ replicate 3 NUL))
                  else if portno = 80 then fst (sendHttpQuery (v_fs env) ''httprequest'' (v_writes env)) else True) in
      if \<not> sent then Some None
      else (case recvData (v_answer env) of
              None \<Rightarrow> Some None
            | Some buf \<Rightarrow> map_option Some
                (if portno = 22 then version_line buf
                 else if portno = 24 then smtp_version buf
                 else if portno = 110 then pop_version buf
                 else if portno = 143 then imap_version buf
                 else if portno = 43 then version_behind ''Server Version'' 15 buf
                 else version_behind ''Server'' 8 buf)))"

text \<open>\<^verbatim>\<open>version_detection\<close> for one of the six ports.\<close>

definition version_detection :: "ver_env \<Rightarrow> int \<Rightarrow> string \<Rightarrow> servver_result_t list \<Rightarrow> (bool \<times> servver_result_t list) option" where
  "version_detection env portno dest_ip rs =
     (if portno \<notin> set serv_ports then None
      else if \<not> v_socket env \<or> \<not> v_host env then Some (False, rs)
      else if \<not> v_connect env then Some (False, push_servver_result dest_ip (port_index portno) ''UNKNOWN'' rs)
      else (case read_version env portno of
              None \<Rightarrow> None
            | Some None \<Rightarrow> Some (False, rs)
            | Some (Some v) \<Rightarrow> Some (True, push_servver_result dest_ip (port_index portno) v rs)))"

section \<open>A version is detected once\<close>

lemma port_index_less: "portno \<in> set serv_ports \<Longrightarrow> port_index portno < 6"
  by (auto simp: port_index_def serv_ports_def)

lemma version_missing_pushed:
  assumes "i < 6" "list_all (\<lambda>r. length (ver_version r) = 6) rs" "cstr v \<noteq> []"
  shows "version_missing ip i (push_servver_result ip i v rs) = Some False"
proof -
  have "update_version ip i v rs = Some rs' \<Longrightarrow> version_missing ip i rs' = Some False" for rs'
    using assms by (induction rs arbitrary: rs') (auto split: if_splits)
  then show ?thesis using assms(1,3) by (auto simp: push_servver_result_def split: option.splits)
qed

text \<open>After a successful detection of a version that is not empty it is not needed any more.\<close>

lemma version_needed_once:
  assumes "version_detection env portno ip rs = Some (True, rs')" "read_version env portno = Some (Some v)" "cstr v \<noteq> []"
    and "list_all (\<lambda>r. length (ver_version r) = 6) rs"
  shows "isversion_needed portno ip rs' = Some False"
  using assms version_missing_pushed[OF port_index_less _ assms(3), of portno rs ip]
  by (auto simp: version_detection_def isversion_needed_def split: if_splits)

text \<open>A first line of 50 bytes from a server on port 22 overflows its array.\<close>

lemma long_banner_overflows: "v_answer env = Some (replicate 50 (CHR ''S'') @ [CHR 0x0A]) \<Longrightarrow> read_version env 22 = None"
  by (simp add: read_version_def recvData_def version_line_def cstr_no_NUL takeWhile_append)

end
