(* ===== verification/Ps_Scan.thy ===== *)
theory Ps_Scan
  imports Ps_Lists Ps_Packet Ps_Version
begin

text \<open>
  The scan of \<^verbatim>\<open>portscan/ps_scan.c\<close>: how an answer is classified, the scan one job after another with the packet capture library, and the job of a
  thread with its own sockets. What the network and the C library answer is an argument.
\<close>

section \<open>Results\<close>

text \<open>\<^verbatim>\<open>prepare_rslt\<close>; the callers set the kind of scan to the one they pass. \<open>serv\<close> is \<^verbatim>\<open>getservbyport\<close>, for UDP or for TCP.\<close>

definition prepare_rslt :: "(int \<Rightarrow> bool \<Rightarrow> string option) \<Rightarrow> string \<Rightarrow> int \<Rightarrow> nat \<Rightarrow> result_t" where
  "prepare_rslt serv ip portno scn_mode =
     \<lparr>res_ip = ip,
      res_service = take 80 (case serv portno (scn_mode = UDP_SCAN) of None \<Rightarrow> ''Unassigned'' | Some name \<Rightarrow> name),
      res_result = replicate 6 NONE, res_conclusion = NONE, res_portno = portno, res_scan_type = scn_mode\<rparr>"

definition job_result :: "(int \<Rightarrow> bool \<Rightarrow> string option) \<Rightarrow> job_t \<Rightarrow> int \<Rightarrow> int \<Rightarrow> result_t" where
  "job_result serv job portno v =
     (let r = prepare_rslt serv (job_ip job) portno (job_scan_type job)
      in r\<lparr>res_result := (res_result r)[job_scan_type job := v]\<rparr>)"

text \<open>The value when there is no answer.\<close>

definition silent_value :: "nat \<Rightarrow> int" where
  "silent_value sc = (if sc = SYN_SCAN \<or> sc = ACK_SCAN then R_FILTERED else R_OPN_FIL)"

section \<open>An answer\<close>

definition byte_of :: "byte list \<Rightarrow> nat \<Rightarrow> byte option" where
  "byte_of bs i = (if i < length bs then Some (bs ! i) else None)"

definition port_of :: "byte list \<Rightarrow> nat \<Rightarrow> int option" where
  "port_of bs i = do { a \<leftarrow> byte_of bs i; b \<leftarrow> byte_of bs (i + 1); Some (256 * int (unat a) + int (unat b)) }"

definition icmp_answer :: "(int \<Rightarrow> bool \<Rightarrow> string option) \<Rightarrow> job_t \<Rightarrow> byte list \<Rightarrow> nat \<Rightarrow> ps_state \<Rightarrow> ps_state option" where
  "icmp_answer serv job bs q st = do {
     ty \<leftarrow> byte_of bs q;
     if ty \<noteq> 3 then Some st
     else do {
       code \<leftarrow> byte_of bs (q + 1);
       Some (if code \<in> {1, 2, 9, 10, 13} then push_result (job_result serv job (job_portno job) R_FILTERED) st
             else if code = 3
             then push_result (job_result serv job (job_portno job) (if job_scan_type job = UDP_SCAN then R_CLOSED else R_OPN_FIL)) st
             else st)
     }
   }"

text \<open>The result is entered for the port the segment comes from; without the flags that are looked at it has no value.\<close>

definition tcp_value :: "nat \<Rightarrow> byte \<Rightarrow> int" where
  "tcp_value sc flags =
     (if bit flags 2 then (if sc = ACK_SCAN then R_UNFILTERED else R_CLOSED)
      else if bit flags 1 \<and> bit flags 4 then R_OPEN else NONE)"

definition tcp_answer :: "(int \<Rightarrow> bool \<Rightarrow> string option) \<Rightarrow> job_t \<Rightarrow> byte list \<Rightarrow> nat \<Rightarrow> ps_state \<Rightarrow> ps_state option" where
  "tcp_answer serv job bs q st = do {
     d \<leftarrow> byte_of bs (q + 12);
     if unat (drop_bit 4 d) * 4 < 20 then Some st
     else do {
       source \<leftarrow> port_of bs q;
       flags \<leftarrow> byte_of bs (q + 13);
       Some (push_result (job_result serv job source (tcp_value (job_scan_type job) flags)) st)
     }
   }"

definition udp_answer :: "(int \<Rightarrow> bool \<Rightarrow> string option) \<Rightarrow> job_t \<Rightarrow> byte list \<Rightarrow> nat \<Rightarrow> ps_state \<Rightarrow> ps_state option" where
  "udp_answer serv job bs q st = do {
     source \<leftarrow> port_of bs q;
     Some (if source = job_portno job then push_result (job_result serv job (job_portno job) R_OPEN) st else st)
   }"

text \<open>\<^verbatim>\<open>got_packet\<close>, behind an Ethernet header when the packet was captured. A read outside of the packet is undefined.\<close>

definition got_packet :: "(int \<Rightarrow> bool \<Rightarrow> string option) \<Rightarrow> job_t \<Rightarrow> bool \<Rightarrow> byte list \<Rightarrow> ps_state \<Rightarrow> ps_state option" where
  "got_packet serv job captured pkt st = do {
     let e = (if captured then 14 else 0);
     v \<leftarrow> byte_of pkt e;
     let iph_len = unat (v AND 15) * 4;
     if iph_len < 20 then Some st
     else do {
       _ \<leftarrow> byte_of pkt (e + 15);
       protocol \<leftarrow> byte_of pkt (e + 9);
       if protocol = 1 then icmp_answer serv job pkt (e + iph_len) st
       else if protocol = 6 then tcp_answer serv job pkt (e + iph_len) st
       else if protocol = 17 then udp_answer serv job pkt (e + iph_len) st
       else Some st
     }
   }"

section \<open>The datagram of a job\<close>

definition DNS_PORT :: int where
  "DNS_PORT = 53"

definition PORT_NO :: int where
  "PORT_NO = 12345"

text \<open>
  \<^verbatim>\<open>ps_default\<close> sends 20 bytes of every UDP packet, also of the DNS query; \<^verbatim>\<open>ps_threaded\<close> sends the whole query.
\<close>

definition job_datagram :: "bool \<Rightarrow> (string \<Rightarrow> 32 word) \<Rightarrow> string \<Rightarrow> int \<Rightarrow> job_t \<Rightarrow> byte list option" where
  "job_datagram threaded inet localip src_port job =
     (if job_scan_type job \<noteq> UDP_SCAN
      then map_option (take 40) (prepare_tcp_pkt inet (job_ip job) (job_portno job) localip src_port (job_scan_type job))
      else if job_portno job = DNS_PORT
      then map_option (\<lambda>(packet, pktlen). take (if threaded then pktlen else 20) packet) (prepare_dnsquery_pkt ''www.google.com'' 1)
      else Some (take 20 prepare_udp_pkt_with_payload))"

section \<open>One job after another\<close>

text \<open>What comes of one round of a job: the datagram cannot be sent, or \<^verbatim>\<open>pcap_dispatch\<close> is ended by the alarm, gives a packet, or gives nothing.\<close>

datatype capture = SendFails | Timeout | Captured "byte list" | NoCapture

definition MAX_RETRY_COUNT :: nat where
  "MAX_RETRY_COUNT = 3"

text \<open>What goes out on the wire: address, port and bytes.\<close>

type_synonym wire = "(string \<times> int \<times> byte list) list"

text \<open>The rounds of a job with the datagram \<open>d\<close>; \<open>None\<close> is undefined, or asks for another round.\<close>

fun job_rounds :: "(int \<Rightarrow> bool \<Rightarrow> string option) \<Rightarrow> job_t \<Rightarrow> byte list \<Rightarrow> nat \<Rightarrow> capture list \<Rightarrow> ps_state \<Rightarrow> (ps_state \<times> wire) option" where
  "job_rounds serv job d count [] st = None"
| "job_rounds serv job d count (SendFails # cs) st = Some (st, [])"
| "job_rounds serv job d count (NoCapture # cs) st = Some (st, [(job_ip job, job_portno job, d)])"
| "job_rounds serv job d count (Captured p # cs) st =
     map_option (\<lambda>st1. (st1, [(job_ip job, job_portno job, d)])) (got_packet serv job True p st)"
| "job_rounds serv job d count (Timeout # cs) st =
     map_option (\<lambda>(st1, out). (st1, (job_ip job, job_portno job, d) # out))
       (if count + 1 = MAX_RETRY_COUNT
        then Some (push_result (job_result serv job (job_portno job) (silent_value (job_scan_type job))) st, [])
        else job_rounds serv job d (count + 1) cs st)"

definition detect_version :: "ver_env \<Rightarrow> job_t \<Rightarrow> servver_result_t list \<Rightarrow> servver_result_t list option" where
  "detect_version env job vs =
     (if job_portno job \<in> set serv_ports
      then do {
        needed \<leftarrow> isversion_needed (job_portno job) (job_ip job) vs;
        if needed then map_option snd (version_detection env (job_portno job) (job_ip job) vs) else Some vs
      }
      else Some vs)"

text \<open>The answers during a job: whether the socket is made, the rounds, and the conversation for the version.\<close>

record job_run =
  run_socket :: bool
  run_rounds :: "capture list"
  run_version :: ver_env

fun ps_default ::
  "(int \<Rightarrow> bool \<Rightarrow> string option) \<Rightarrow> (string \<Rightarrow> 32 word) \<Rightarrow> string \<Rightarrow> job_run list \<Rightarrow> ps_state \<Rightarrow> servver_result_t list \<Rightarrow>
   (ps_state \<times> servver_result_t list \<times> wire) ps_run" where
  "ps_default serv inet localip [] st vs =
     (case get_next_job st of (None, st1) \<Rightarrow> PsRun (st1, vs, []) | (Some job, st1) \<Rightarrow> PsUndefined)"
| "ps_default serv inet localip (r # rs) st vs =
     (case get_next_job st of
        (None, st1) \<Rightarrow> PsRun (st1, vs, [])
      | (Some job, st1) \<Rightarrow>
          ps_bind (ps_defined (job_datagram False inet localip PORT_NO job)) (\<lambda>d.
          if \<not> run_socket r then PsExit 1
          else ps_bind (ps_defined (job_rounds serv job d 0 (run_rounds r) st1)) (\<lambda>(st2, out).
               ps_bind (ps_defined (detect_version (run_version r) job vs)) (\<lambda>vs1.
               ps_bind (ps_default serv inet localip rs st2 vs1) (\<lambda>(st3, vs2, out2). PsRun (st3, vs2, out @ out2))))))"

section \<open>The job of a thread\<close>

text \<open>
  What \<^verbatim>\<open>poll\<close> reports: an error or the end of the time, or the packets on the two sockets with the milliseconds since the start.
\<close>

datatype poll_event = PollFails | PollReady "byte list option" "byte list option" int

definition fill_buffer :: "byte list \<Rightarrow> byte list \<Rightarrow> byte list" where
  "fill_buffer pkt buf = take 1024 pkt @ drop (length (take 1024 pkt)) buf"

definition source_text :: "byte list \<Rightarrow> string" where
  "source_text buf = dotted (take 4 (drop 12 buf))"

definition from_job :: "job_t \<Rightarrow> int \<Rightarrow> byte list \<Rightarrow> bool" where
  "from_job job tport buf =
     (let q = unat (buf ! 0 AND 15) * 4 in
      source_text buf = cstr (job_ip job) \<and> port_of buf q = Some (job_portno job) \<and> port_of buf (q + 2) = Some tport)"

text \<open>
  The loop over the events: \<open>None\<close> asks for another one, \<open>Some None\<close> is \<^verbatim>\<open>RETRY\<close>, and otherwise there is the buffer with the packet. A packet that is not
  the expected one is followed by another \<^verbatim>\<open>poll\<close> only when a second has passed since the start.
\<close>

fun wait_answer :: "job_t \<Rightarrow> int \<Rightarrow> int \<Rightarrow> poll_event list \<Rightarrow> byte list option option" where
  "wait_answer job tport ms [] = None"
| "wait_answer job tport ms (PollFails # es) = Some None"
| "wait_answer job tport ms (PollReady tcp icmp d # es) =
     (let other = (if ms - d < 4000 then wait_answer job tport (ms - d) es else Some None);
          buf = (case tcp of None \<Rightarrow> replicate 1024 0 | Some p \<Rightarrow> fill_buffer p (replicate 1024 0));
          icmp_part = (case icmp of
              None \<Rightarrow> wait_answer job tport ms es
            | Some p \<Rightarrow>
                let b = fill_buffer p buf in
                if b ! (unat (b ! 0 AND 15) * 4) \<noteq> 3 \<or> source_text b \<noteq> cstr (job_ip job) then other else Some (Some b))
      in case tcp of
           None \<Rightarrow> icmp_part
         | Some p \<Rightarrow>
             if unat (buf ! 0 AND 15) * 4 < 20 then other
             else if buf ! 9 = 6 \<or> buf ! 9 = 17 then (if from_job job tport buf then Some (Some buf) else other)
             else icmp_part)"

text \<open>
  One attempt of a thread: whether its sockets are made, whether \<^verbatim>\<open>bind\<close> and \<^verbatim>\<open>sendto\<close> succeed, and the events.
\<close>

record attempt =
  att_sockets :: bool
  att_bind :: bool
  att_send :: bool
  att_events :: "poll_event list"

text \<open>One attempt after another, the first and three more; a failing \<^verbatim>\<open>sendto\<close> is only reported.\<close>

fun thread_job ::
  "(int \<Rightarrow> bool \<Rightarrow> string option) \<Rightarrow> job_t \<Rightarrow> byte list \<Rightarrow> int \<Rightarrow> nat \<Rightarrow> attempt list \<Rightarrow> ps_state \<Rightarrow> (ps_state \<times> wire) ps_run" where
  "thread_job serv job d tport retry [] st = PsUndefined"
| "thread_job serv job d tport retry (a # as) st =
     (if \<not> att_sockets a \<or> \<not> att_bind a then PsExit 1
      else let sent = (if att_send a then [(job_ip job, job_portno job, d)] else []) in
           ps_bind
             (ps_bind (ps_defined (wait_answer job tport 4000 (att_events a))) (\<lambda>action.
              case action of
                None \<Rightarrow>
                  if retry < MAX_RETRY_COUNT then thread_job serv job d tport (retry + 1) as st
                  else PsRun (push_result (job_result serv job (job_portno job) (silent_value (job_scan_type job))) st, [])
              | Some buf \<Rightarrow> ps_bind (ps_defined (got_packet serv job False buf st)) (\<lambda>st1. PsRun (st1, []))))
             (\<lambda>(st1, out). PsRun (st1, sent @ out)))"

text \<open>A thread: whether the lock around \<^verbatim>\<open>get_next_job\<close> works, the attempts, and the conversation for the version. Here it is alone.\<close>

record thread_run =
  trun_lock :: bool
  trun_attempts :: "attempt list"
  trun_version :: ver_env

fun ps_threaded ::
  "(int \<Rightarrow> bool \<Rightarrow> string option) \<Rightarrow> (string \<Rightarrow> 32 word) \<Rightarrow> string \<Rightarrow> int \<Rightarrow> thread_run list \<Rightarrow> ps_state \<Rightarrow> servver_result_t list \<Rightarrow>
   (ps_state \<times> servver_result_t list \<times> wire) ps_run" where
  "ps_threaded serv inet localip thread_id [] st vs = PsUndefined"
| "ps_threaded serv inet localip thread_id (r # rs) st vs =
     (if \<not> trun_lock r then PsExit 1
      else case get_next_job st of
        (None, st1) \<Rightarrow> PsRun (st1, vs, [])
      | (Some job, st1) \<Rightarrow>
          ps_bind (ps_defined (job_datagram True inet localip (PORT_NO + thread_id) job)) (\<lambda>d.
          ps_bind (thread_job serv job d (PORT_NO + thread_id) 0 (trun_attempts r) st1) (\<lambda>(st2, out).
          ps_bind (ps_defined (detect_version (trun_version r) job vs)) (\<lambda>vs1.
          ps_bind (ps_threaded serv inet localip thread_id rs st2 vs1) (\<lambda>(st3, vs2, out2). PsRun (st3, vs2, out @ out2))))))"

section \<open>Time\<close>

text \<open>\<^verbatim>\<open>timeval_diff\<close>: seconds and microseconds of the difference, and the whole in microseconds.\<close>

function usec_loop :: "int \<Rightarrow> int \<Rightarrow> int \<times> int" where
  "usec_loop sec usec = (if usec < 0 then usec_loop (sec - 1) (usec + 1000000) else (sec, usec))"
  by pat_completeness auto
termination by (relation "measure (\<lambda>(sec, usec). nat (- usec))") auto

declare usec_loop.simps [simp del]

definition timeval_diff :: "int \<times> int \<Rightarrow> int \<times> int \<Rightarrow> (int \<times> int) \<times> int" where
  "timeval_diff end_time start_time =
     (let (sec, usec) = usec_loop (fst end_time - fst start_time) (snd end_time - snd start_time) in ((sec, usec), 1000000 * sec + usec))"

definition get_timediff :: "int \<times> int \<Rightarrow> int \<times> int \<Rightarrow> int" where
  "get_timediff now start = fst (fst (timeval_diff now start)) * 1000"

lemma usec_loop_keeps: "usec_loop sec usec = (s, u) \<Longrightarrow> 1000000 * s + u = 1000000 * sec + usec \<and> 0 \<le> u \<and> (usec < 1000000 \<longrightarrow> u < 1000000)"
proof (induction sec usec rule: usec_loop.induct)
  case (1 sec usec)
  then show ?case by (subst (asm) (2) usec_loop.simps) (auto split: if_splits)
qed


section \<open>How answers are classified\<close>

definition seg_port :: "tcphdr \<Rightarrow> int" where
  "seg_port t = int (unat (htons (tcp_source t)))"

definition seg_value :: "nat \<Rightarrow> tcphdr \<Rightarrow> int" where
  "seg_value sc t =
     (if tcp_rst t then (if sc = ACK_SCAN then R_UNFILTERED else R_CLOSED) else if tcp_syn t \<and> tcp_ack t then R_OPEN else NONE)"

lemma tcp_value_flags: "tcp_value sc (flag_byte t) = seg_value sc t"
proof -
  have "bit (flag_byte t) 2 = tcp_rst t" "bit (flag_byte t) 1 = tcp_syn t" "bit (flag_byte t) 4 = tcp_ack t"
    by (auto simp: flag_byte_def bit_simps)
  then show ?thesis by (simp add: tcp_value_def seg_value_def)
qed

lemma doff_byte: "unat (drop_bit 4 (ucast (r :: 4 word) OR push_bit 4 (ucast (d :: 4 word)) :: byte)) = unat d"
proof -
  have "drop_bit 4 (ucast r OR push_bit 4 (ucast d) :: byte) = ucast d"
    by (rule bit_word_eqI) (auto simp: bit_simps dest: bit_imp_le_length)
  moreover have "unat d < 16" using unsigned_less[of d, where ?'a = nat] by simp
  ultimately show ?thesis by (simp add: unsigned_ucast_eq take_bit_eq_mod)
qed

lemma seg_port_bytes: "256 * int (unat (bytes16 w ! 0)) + int (unat (bytes16 w ! 1)) = int (unat (htons w))"
proof -
  have "unat (htons w) = word_sum (rev (bytes16 w))" by (simp add: word_sum_bytes16 flip: htons_bytes)
  also have "\<dots> = unat (bytes16 w ! 1) + 256 * unat (bytes16 w ! 0)" by (simp add: bytes16_def)
  finally show ?thesis by simp
qed

lemma got_tcp_packet:
  assumes "length eth = (if captured then 14 else 0)" "20 + length options = unat (ip_ihl h) * 4" "ip_protocol h = 6" "5 \<le> unat (tcp_doff t)"
  shows "got_packet serv job captured (eth @ packet h options t payload) st =
    Some (push_result (job_result serv job (seg_port t) (seg_value (job_scan_type job) t)) st)"
proof -
  let ?b = "eth @ packet h options t payload" and ?e = "length eth" and ?q = "length eth + unat (ip_ihl h) * 4"
  have q: "?q = length eth + (20 + length options)" using assms(2) by simp
  have ip: "byte_of ?b ?e = Some (ucast (ip_ihl h) OR push_bit 4 (ucast (ip_version h)))" "byte_of ?b (?e + 9) = Some (ip_protocol h)"
    "\<exists>x. byte_of ?b (?e + 15) = Some x"
    by (simp_all add: byte_of_def packet_def nth_append iphdr_bytes_def bytes16_def bytes32_def)
  have seg: "byte_of ?b (?q + i) = Some (tcphdr_bytes t ! i)" if "i < 20" for i
    unfolding q using that by (simp add: byte_of_def packet_def nth_append)
  have at: "tcphdr_bytes t ! 12 = ucast (tcp_res1 t) OR push_bit 4 (ucast (tcp_doff t))" "tcphdr_bytes t ! 13 = flag_byte t"
    "tcphdr_bytes t ! 0 = bytes16 (tcp_source t) ! 0" "tcphdr_bytes t ! 1 = bytes16 (tcp_source t) ! 1"
    by (simp_all add: tcphdr_bytes_def bytes16_def bytes32_def)
  have "unat (drop_bit 4 (tcphdr_bytes t ! 12)) = unat (tcp_doff t)" unfolding at by (rule doff_byte)
  moreover have "port_of ?b ?q = Some (seg_port t)"
    using seg[of 0] seg[of 1] seg_port_bytes[of "tcp_source t"] unfolding at seg_port_def by (simp add: port_of_def)
  ultimately have "tcp_answer serv job ?b ?q st = Some (push_result (job_result serv job (seg_port t) (seg_value (job_scan_type job) t)) st)"
    using seg[of 12] seg[of 13] assms(4) at(2) by (simp add: tcp_answer_def tcp_value_flags)
  then show ?thesis using ip assms(2,3) unfolding assms(1) by (auto simp: got_packet_def ihl_byte)
qed

text \<open>How a job is settled: by silence, or by a segment after fewer than three timeouts.\<close>

datatype job_outcome = Silent | Answered tcphdr

fun settled :: "capture list \<Rightarrow> job_outcome \<Rightarrow> bool" where
  "settled cs Silent \<longleftrightarrow> (\<exists>ds. cs = replicate 3 Timeout @ ds)"
| "settled cs (Answered t) \<longleftrightarrow>
     (\<exists>k eth h options payload ds. k < 3 \<and> cs = replicate k Timeout @ Captured (eth @ packet h options t payload) # ds \<and>
        length eth = 14 \<and> 20 + length options = unat (ip_ihl h) * 4 \<and> ip_protocol h = 6 \<and> 5 \<le> unat (tcp_doff t))"

fun outcome_result :: "(int \<Rightarrow> bool \<Rightarrow> string option) \<Rightarrow> job_t \<Rightarrow> job_outcome \<Rightarrow> result_t" where
  "outcome_result serv job Silent = job_result serv job (job_portno job) (silent_value (job_scan_type job))"
| "outcome_result serv job (Answered t) = job_result serv job (seg_port t) (seg_value (job_scan_type job) t)"

text \<open>How often the datagram of a job is sent.\<close>

definition tries :: "capture list \<Rightarrow> nat" where
  "tries cs = min 3 (length (takeWhile ((=) Timeout) cs) + 1)"

lemma job_rounds_wait:
  "c + k < 3 \<Longrightarrow> job_rounds serv job d c (replicate k Timeout @ cs) st =
    map_option (\<lambda>(st1, out). (st1, replicate k (job_ip job, job_portno job, d) @ out)) (job_rounds serv job d (c + k) cs st)"
proof (induction k arbitrary: c)
  case 0
  then show ?case by (simp add: option.map_id0[unfolded id_def])
next
  case (Suc k)
  then show ?case using Suc.IH[of "c + 1"] by (simp add: MAX_RETRY_COUNT_def option.map_comp comp_def case_prod_beta)
qed

lemma job_rounds_settled:
  assumes "settled cs out"
  shows "job_rounds serv job d 0 cs st =
    Some (push_result (outcome_result serv job out) st, replicate (tries cs) (job_ip job, job_portno job, d))"
proof (cases out)
  case Silent
  then obtain ds where cs: "cs = replicate 2 Timeout @ Timeout # ds" using assms by (auto simp: numeral_eq_Suc)
  then have "tries cs = 3" by (simp add: tries_def numeral_eq_Suc)
  then show ?thesis using Silent cs job_rounds_wait[of 0 2 serv job d "Timeout # ds" st] by (simp add: MAX_RETRY_COUNT_def numeral_eq_Suc)
next
  case (Answered t)
  then obtain k p ds where k: "k < 3" "cs = replicate k Timeout @ Captured p # ds" and
    p: "got_packet serv job True p st = Some (push_result (outcome_result serv job out) st)"
    using assms got_tcp_packet[where captured = True] by auto
  then have "tries cs = k + 1" by (simp add: tries_def takeWhile_append)
  then show ?thesis using k p job_rounds_wait[of 0 k serv job d "Captured p # ds" st] by (simp add: replicate_append_same)
qed

lemma version_missing_defined: "i < 6 \<Longrightarrow> \<exists>b. version_missing ip i vs = Some b"
  by (induction vs) auto

lemma detect_version_defined:
  assumes "job_portno job \<in> set serv_ports \<Longrightarrow> read_version env (job_portno job) \<noteq> None"
  shows "\<exists>vs'. detect_version env job vs = Some vs'"
proof (cases "job_portno job \<in> set serv_ports")
  case True
  obtain b where "isversion_needed (job_portno job) (job_ip job) vs = Some b"
    using version_missing_defined[OF port_index_less[OF True]] by (auto simp: isversion_needed_def)
  then show ?thesis using True assms by (auto simp: detect_version_def version_detection_def split: option.splits)
qed (simp add: detect_version_def)

lemma push_result_jobs: "push_result r (st\<lparr>job_masterlist := js, job_masterlist_count := n\<rparr>) =
    (push_result r st)\<lparr>job_masterlist := js, job_masterlist_count := n\<rparr>"
  by (simp add: push_result_def split: option.splits)

lemma push_results_jobs: "(fold push_result ps (st\<lparr>job_masterlist := js, job_masterlist_count := n\<rparr>))\<lparr>job_masterlist := [], job_masterlist_count := 0\<rparr> =
    (fold push_result ps st)\<lparr>job_masterlist := [], job_masterlist_count := 0\<rparr>"
  by (induction ps arbitrary: st) (simp_all add: push_result_jobs)

lemma push_results_lists:
  "ip_list (fold push_result ps st) = ip_list st \<and> port_list (fold push_result ps st) = port_list st \<and> no_of_threads (fold push_result ps st) = no_of_threads st"
  by (induction ps arbitrary: st) (simp_all add: push_result_def split: option.split)

lemma outcome_result_scan: "res_scan_type (outcome_result serv job out) = job_scan_type job"
  by (cases out) (simp_all add: job_result_def prepare_rslt_def Let_def)

lemma all_jobs_scan: "j \<in> set (all_jobs flags ips ports) \<Longrightarrow> job_scan_type j < 6"
  by (auto simp: all_jobs_def scan_jobs_def split: if_splits)

section \<open>The contract of a scanner\<close>

text \<open>
  What \<^verbatim>\<open>ps_default\<close> and a thread have in common: a scanner takes the first job, and when the job is settled it enters the result of its outcome and
  goes on. \<open>good\<close> says that a run settles a job, \<open>sent\<close> what it sends, and \<open>ending\<close> is the run after the last job.
\<close>

locale job_scanner =
  fixes serv :: "int \<Rightarrow> bool \<Rightarrow> string option"
    and scan :: "'r list \<Rightarrow> ps_state \<Rightarrow> servver_result_t list \<Rightarrow> (ps_state \<times> servver_result_t list \<times> wire) ps_run"
    and good :: "job_t \<Rightarrow> 'r \<Rightarrow> job_outcome \<Rightarrow> bool"
    and sent :: "job_t \<Rightarrow> 'r \<Rightarrow> wire"
    and ending :: "'r list"
  assumes scan_end: "job_masterlist st = [] \<Longrightarrow> scan ending st vs = PsRun (st, vs, [])"
    and scan_job: "job_masterlist st = job # js \<Longrightarrow> good job r out \<Longrightarrow> \<exists>vs1. scan (r # rs) st vs =
      ps_bind (scan rs ((push_result (outcome_result serv job out) st)\<lparr>job_masterlist := js, job_masterlist_count := job_masterlist_count st - 1\<rparr>) vs1)
        (\<lambda>(st1, vs2, w). PsRun (st1, vs2, sent job r @ w))"
begin

lemma scan_classifies:
  assumes "job_masterlist st = map fst xs" "job_masterlist_count st = int (length xs)" "list_all (\<lambda>(job, r, out). good job r out) xs"
  shows "\<exists>vs'. scan (map (fst \<circ> snd) xs @ ending) st vs =
    PsRun ((fold push_result (map (\<lambda>(job, r, out). outcome_result serv job out) xs) st)\<lparr>job_masterlist := [], job_masterlist_count := 0\<rparr>,
      vs', concat (map (\<lambda>(job, r, out). sent job r) xs))"
  using assms
proof (induction xs arbitrary: st vs)
  case Nil
  then show ?case by (simp add: scan_end)
next
  case (Cons x xs)
  obtain job r out where x: "x = (job, r, out)" by (cases x)
  let ?st1 = "(push_result (outcome_result serv job out) st)\<lparr>job_masterlist := map fst xs, job_masterlist_count := job_masterlist_count st - 1\<rparr>"
  obtain vs1 where step: "scan (r # map (fst \<circ> snd) xs @ ending) st vs =
      ps_bind (scan (map (fst \<circ> snd) xs @ ending) ?st1 vs1) (\<lambda>(st1, vs2, w). PsRun (st1, vs2, sent job r @ w))"
    using scan_job[of st job "map fst xs" r out] Cons.prems(1,3) x by fastforce
  have "\<exists>vs'. scan (map (fst \<circ> snd) xs @ ending) ?st1 vs1 =
      PsRun ((fold push_result (map (\<lambda>(job, r, out). outcome_result serv job out) xs) ?st1)\<lparr>job_masterlist := [], job_masterlist_count := 0\<rparr>,
        vs', concat (map (\<lambda>(job, r, out). sent job r) xs))"
    using Cons.prems(2,3) x by (intro Cons.IH) auto
  then show ?case using step x by (auto simp: push_results_jobs comp_def)
qed

lemma scan_run:
  assumes "job_masterlist st = []" "job_masterlist_count st = 0" "result_masterlist st = []" "result_list_count st = 0"
    and "xs \<noteq> []" "map fst xs = rev (all_jobs (scan_flags st) (ip_list st) (port_list st))"
    and "list_all (\<lambda>(job, r, out). good job r out) xs" and "ps = map (\<lambda>(job, r, out). outcome_result serv job out) xs"
    and "st1 = with_jobs (all_jobs (scan_flags st) (ip_list st) (port_list st)) st"
    and "st2 = (fold push_result ps st1)\<lparr>job_masterlist := [], job_masterlist_count := 0\<rparr>"
  shows "create_jobs st = PsRun st1 \<and>
    (\<exists>vs'. scan (map (fst \<circ> snd) xs @ ending) st1 vs = PsRun (st2, vs', concat (map (\<lambda>(job, r, out). sent job r) xs))) \<and>
    distinct (map res_key (result_masterlist st2)) \<and> set (map res_key (result_masterlist st2)) = set (map res_key ps) \<and>
    list_all (result_ok ps) (result_masterlist st2)"
proof -
  let ?js = "all_jobs (scan_flags st) (ip_list st) (port_list st)"
  have "?js \<noteq> []" using assms(5,6) by (metis map_is_Nil_conv rev_is_Nil_conv)
  then have c: "create_jobs st = PsRun st1" by (simp add: create_jobs_eq Let_def assms(9))
  have "length xs = length ?js" using assms(6) by (metis length_map length_rev)
  then have "job_masterlist st1 = map fst xs" "job_masterlist_count st1 = int (length xs)" using assms(1,2,6) by (simp_all add: with_jobs_def assms(9))
  then have d: "\<exists>vs'. scan (map (fst \<circ> snd) xs @ ending) st1 vs = PsRun (st2, vs', concat (map (\<lambda>(job, r, out). sent job r) xs))"
    using scan_classifies[of st1 xs vs] assms(7,8,10) by blast
  have "res_scan_type p < 6" if p: "p \<in> set ps" for p
  proof -
    obtain job r out where x: "(job, r, out) \<in> set xs" "p = outcome_result serv job out" using p unfolding assms(8) by auto
    then have "job \<in> set ?js" using assms(6) by (metis fst_conv image_eqI set_map set_rev)
    then show ?thesis using x(2) all_jobs_scan by (simp add: outcome_result_scan)
  qed
  then have "\<exists>rs. result_masterlist (fold push_result ps st1) = rs \<and> distinct (map res_key rs) \<and> set (map res_key rs) = set (map res_key ps) \<and>
      list_all (result_ok ps) rs \<and> result_list_count (fold push_result ps st1) = int (length rs)"
    using assms(3,4) by (intro results_are_a_table) (simp_all add: with_jobs_def list_all_iff assms(9))
  then show ?thesis using c d by (simp add: assms(10))
qed

lemma scan_table:
  assumes "job_masterlist st = []" "job_masterlist_count st = 0" "result_masterlist st = []" "result_list_count st = 0"
    and "xs \<noteq> []" "map fst xs = rev (all_jobs (scan_flags st) (ip_list st) (port_list st))"
    and "list_all (\<lambda>(job, r, out). good job r out) xs" and "ps = map (\<lambda>(job, r, out). outcome_result serv job out) xs"
  shows "\<exists>st1 st2 vs'. create_jobs st = PsRun st1 \<and>
    scan (map (fst \<circ> snd) xs @ ending) st1 vs = PsRun (st2, vs', concat (map (\<lambda>(job, r, out). sent job r) xs)) \<and> job_masterlist st2 = [] \<and>
    distinct (map res_key (result_masterlist st2)) \<and> set (map res_key (result_masterlist st2)) = set (map res_key ps) \<and>
    list_all (result_ok ps) (result_masterlist st2)"
  using scan_run[OF assms refl refl, of vs] by fastforce

end

lemma job_datagram_defined: "\<exists>d. job_datagram threaded inet localip port job = Some d"
proof -
  obtain d where "prepare_tcp_pkt inet (job_ip job) (job_portno job) localip port (job_scan_type job) = Some (d @ replicate 4056 0)"
    by (rule tcp_packet_checked)
  moreover have "prepare_dnsquery_pkt ''www.google.com'' 1 \<noteq> None" by (simp add: prepare_dnsquery_pkt_def cstr_no_NUL Let_def)
  ultimately show ?thesis by (auto simp: job_datagram_def)
qed

definition job_bytes :: "bool \<Rightarrow> (string \<Rightarrow> 32 word) \<Rightarrow> string \<Rightarrow> int \<Rightarrow> job_t \<Rightarrow> byte list" where
  "job_bytes threaded inet localip port job = the (job_datagram threaded inet localip port job)"

lemma job_datagram_eq: "job_datagram threaded inet localip port job = Some (job_bytes threaded inet localip port job)"
  using job_datagram_defined[of threaded inet localip port job] by (auto simp: job_bytes_def)

definition talk_ok :: "ver_env \<Rightarrow> job_t \<Rightarrow> bool" where
  "talk_ok env job \<longleftrightarrow> (job_portno job \<in> set serv_ports \<longrightarrow> read_version env (job_portno job) \<noteq> None)"

definition run_settles :: "job_t \<Rightarrow> job_run \<Rightarrow> job_outcome \<Rightarrow> bool" where
  "run_settles job r out \<longleftrightarrow> run_socket r \<and> settled (run_rounds r) out \<and> talk_ok (run_version r) job"

definition run_sends :: "(string \<Rightarrow> 32 word) \<Rightarrow> string \<Rightarrow> job_t \<Rightarrow> job_run \<Rightarrow> wire" where
  "run_sends inet localip job r = replicate (tries (run_rounds r)) (job_ip job, job_portno job, job_bytes False inet localip PORT_NO job)"

interpretation sequential: job_scanner serv "ps_default serv inet localip" run_settles "run_sends inet localip" "[]"
proof
  fix st :: ps_state and vs :: "servver_result_t list"
  assume "job_masterlist st = []"
  then show "ps_default serv inet localip [] st vs = PsRun (st, vs, [])" by (simp add: get_next_job_def)
next
  fix st :: ps_state and job js r out rs and vs :: "servver_result_t list"
  assume j: "job_masterlist st = job # js" and good: "run_settles job r out"
  obtain vs1 where v: "detect_version (run_version r) job vs = Some vs1"
    using good detect_version_defined[of job "run_version r" vs] by (auto simp: run_settles_def talk_ok_def)
  have "ps_default serv inet localip (r # rs) st vs =
      ps_bind (ps_default serv inet localip rs
        ((push_result (outcome_result serv job out) st)\<lparr>job_masterlist := js, job_masterlist_count := job_masterlist_count st - 1\<rparr>) vs1)
        (\<lambda>(st1, vs2, w). PsRun (st1, vs2, run_sends inet localip job r @ w))"
    using j good v by (simp add: get_next_job_def run_settles_def ps_defined_def job_datagram_eq job_rounds_settled[of "run_rounds r" out] push_result_jobs run_sends_def)
  then show "\<exists>vs1. ps_default serv inet localip (r # rs) st vs =
      ps_bind (ps_default serv inet localip rs
        ((push_result (outcome_result serv job out) st)\<lparr>job_masterlist := js, job_masterlist_count := job_masterlist_count st - 1\<rparr>) vs1)
        (\<lambda>(st1, vs2, w). PsRun (st1, vs2, run_sends inet localip job r @ w))" by blast
qed

section \<open>A thread alone\<close>

definition failed_attempt :: "job_t \<Rightarrow> int \<Rightarrow> attempt \<Rightarrow> bool" where
  "failed_attempt job tport a \<longleftrightarrow> att_sockets a \<and> att_bind a \<and> wait_answer job tport 4000 (att_events a) = Some None"

fun thread_settled :: "job_t \<Rightarrow> int \<Rightarrow> attempt list \<Rightarrow> job_outcome \<Rightarrow> bool" where
  "thread_settled job tport as Silent \<longleftrightarrow> (\<exists>bs cs. as = bs @ cs \<and> length bs = 4 \<and> list_all (failed_attempt job tport) bs)"
| "thread_settled job tport as (Answered t) \<longleftrightarrow>
     (\<exists>bs a cs h options payload. as = bs @ a # cs \<and> length bs < 4 \<and> list_all (failed_attempt job tport) bs \<and> att_sockets a \<and> att_bind a \<and>
        wait_answer job tport 4000 (att_events a) = Some (Some (packet h options t payload)) \<and>
        20 + length options = unat (ip_ihl h) * 4 \<and> ip_protocol h = 6 \<and> 5 \<le> unat (tcp_doff t))"

definition attempts_send :: "job_t \<Rightarrow> byte list \<Rightarrow> int \<Rightarrow> attempt list \<Rightarrow> wire" where
  "attempts_send job d tport as =
     (let n = min 4 (length (takeWhile (failed_attempt job tport) as) + 1)
      in map (\<lambda>_. (job_ip job, job_portno job, d)) (filter att_send (take n as)))"

lemma thread_job_wait:
  assumes "list_all (failed_attempt job tport) bs" "c + length bs \<le> 3"
  shows "thread_job serv job d tport c (bs @ as) st = ps_bind (thread_job serv job d tport (c + length bs) as st)
    (\<lambda>(st1, out). PsRun (st1, map (\<lambda>_. (job_ip job, job_portno job, d)) (filter att_send bs) @ out))"
  using assms
proof (induction bs arbitrary: c)
  case Nil
  then show ?case by (cases "thread_job serv job d tport c as st") auto
next
  case (Cons b bs)
  then have "thread_job serv job d tport (c + 1) (bs @ as) st = ps_bind (thread_job serv job d tport (c + 1 + length bs) as st)
      (\<lambda>(st1, out). PsRun (st1, map (\<lambda>_. (job_ip job, job_portno job, d)) (filter att_send bs) @ out))"
    by (intro Cons.IH) simp_all
  then show ?case using Cons.prems
    by (cases "thread_job serv job d tport (c + 1 + length bs) as st") (auto simp: failed_attempt_def ps_defined_def MAX_RETRY_COUNT_def Let_def)
qed

lemma thread_job_settled:
  assumes "thread_settled job tport as out"
  shows "thread_job serv job d tport 0 as st = PsRun (push_result (outcome_result serv job out) st, attempts_send job d tport as)"
proof (cases out)
  case Silent
  then obtain bs cs where b: "as = bs @ cs" "length bs = 4" "list_all (failed_attempt job tport) bs" using assms by auto
  then obtain ds a where d: "bs = ds @ [a]" "length ds = 3" by (cases bs rule: rev_cases) auto
  have fa: "failed_attempt job tport a" "list_all (failed_attempt job tport) ds" using b d by auto
  have "thread_job serv job d tport 3 (a # cs) st =
      PsRun (push_result (outcome_result serv job out) st, if att_send a then [(job_ip job, job_portno job, d)] else [])"
    using fa(1) Silent by (auto simp: failed_attempt_def ps_defined_def MAX_RETRY_COUNT_def)
  moreover have "takeWhile (failed_attempt job tport) as = bs @ takeWhile (failed_attempt job tport) cs"
    using b by (simp add: takeWhile_append list_all_iff)
  ultimately show ?thesis using thread_job_wait[OF fa(2), of 0 serv d "a # cs" st] b d by (simp add: attempts_send_def Let_def)
next
  case (Answered t)
  then obtain bs a cs h options payload where a: "as = bs @ a # cs" "length bs < 4" "list_all (failed_attempt job tport) bs" "att_sockets a" "att_bind a"
      and w: "wait_answer job tport 4000 (att_events a) = Some (Some (packet h options t payload))"
      and h: "20 + length options = unat (ip_ihl h) * 4" "ip_protocol h = 6" "5 \<le> unat (tcp_doff t)"
    using assms by auto
  have "got_packet serv job False (packet h options t payload) st = Some (push_result (outcome_result serv job out) st)"
    using got_tcp_packet[where captured = False and eth = "[]"] h Answered by simp
  then have "thread_job serv job d tport (length bs) (a # cs) st =
      PsRun (push_result (outcome_result serv job out) st, if att_send a then [(job_ip job, job_portno job, d)] else [])"
    using a w by (auto simp: ps_defined_def)
  moreover have "takeWhile (failed_attempt job tport) as = bs"
    using a w by (simp add: takeWhile_append list_all_iff failed_attempt_def)
  ultimately show ?thesis using thread_job_wait[OF a(3), of 0 serv d "a # cs" st] a by (simp add: attempts_send_def Let_def)
qed

definition thread_settles :: "int \<Rightarrow> job_t \<Rightarrow> thread_run \<Rightarrow> job_outcome \<Rightarrow> bool" where
  "thread_settles thread_id job r out \<longleftrightarrow>
     trun_lock r \<and> thread_settled job (PORT_NO + thread_id) (trun_attempts r) out \<and> talk_ok (trun_version r) job"

definition thread_sends :: "(string \<Rightarrow> 32 word) \<Rightarrow> string \<Rightarrow> int \<Rightarrow> job_t \<Rightarrow> thread_run \<Rightarrow> wire" where
  "thread_sends inet localip thread_id job r =
     attempts_send job (job_bytes True inet localip (PORT_NO + thread_id) job) (PORT_NO + thread_id) (trun_attempts r)"

definition no_talk :: ver_env where
  "no_talk = \<lparr>v_socket = False, v_host = False, v_connect = False, v_writes = [], v_answer = None,
     v_fs = \<lparr>fs_files = Map.empty, fs_denied = \<lambda>_. False\<rparr>\<rparr>"

definition last_run :: thread_run where
  "last_run = \<lparr>trun_lock = True, trun_attempts = [], trun_version = no_talk\<rparr>"

interpretation one_thread: job_scanner serv "ps_threaded serv inet localip thread_id" "thread_settles thread_id" "thread_sends inet localip thread_id" "[last_run]"
proof
  fix st :: ps_state and vs :: "servver_result_t list"
  assume "job_masterlist st = []"
  then show "ps_threaded serv inet localip thread_id [last_run] st vs = PsRun (st, vs, [])" by (simp add: get_next_job_def last_run_def)
next
  fix st :: ps_state and job js r out rs and vs :: "servver_result_t list"
  assume j: "job_masterlist st = job # js" and good: "thread_settles thread_id job r out"
  obtain vs1 where v: "detect_version (trun_version r) job vs = Some vs1"
    using good detect_version_defined[of job "trun_version r" vs] by (auto simp: thread_settles_def talk_ok_def)
  have "ps_threaded serv inet localip thread_id (r # rs) st vs =
      ps_bind (ps_threaded serv inet localip thread_id rs
        ((push_result (outcome_result serv job out) st)\<lparr>job_masterlist := js, job_masterlist_count := job_masterlist_count st - 1\<rparr>) vs1)
        (\<lambda>(st1, vs2, w). PsRun (st1, vs2, thread_sends inet localip thread_id job r @ w))"
    using j good v by (simp add: get_next_job_def thread_settles_def ps_defined_def job_datagram_eq thread_job_settled[of job "PORT_NO + thread_id" "trun_attempts r" out] push_result_jobs thread_sends_def)
  then show "\<exists>vs1. ps_threaded serv inet localip thread_id (r # rs) st vs =
      ps_bind (ps_threaded serv inet localip thread_id rs
        ((push_result (outcome_result serv job out) st)\<lparr>job_masterlist := js, job_masterlist_count := job_masterlist_count st - 1\<rparr>) vs1)
        (\<lambda>(st1, vs2, w). PsRun (st1, vs2, thread_sends inet localip thread_id job r @ w))" by blast
qed

section \<open>A whole scan\<close>

definition sample_segment :: tcphdr where
  "sample_segment = (pkt_tcphdr 22 12345)\<lparr>tcp_syn := True, tcp_ack := True\<rparr>"

definition sample_job :: "int \<Rightarrow> job_t" where
  "sample_job port = \<lparr>job_ip = ''10.0.0.7'', job_portno = port, job_scan_type = SYN_SCAN\<rparr>"

definition sample_talk :: ver_env where
  "sample_talk = \<lparr>v_socket = True, v_host = True, v_connect = True, v_writes = [], v_answer = Some ''SSH-2.0'',
     v_fs = \<lparr>fs_files = Map.empty, fs_denied = \<lambda>_. False\<rparr>\<rparr>"

definition sample_cases :: "(job_t \<times> job_run \<times> job_outcome) list" where
  "sample_cases =
     [(sample_job 22, \<lparr>run_socket = True,
         run_rounds = [Timeout, Captured (replicate 14 0 @ packet (pkt_iphdr 7 9) [] sample_segment [])], run_version = sample_talk\<rparr>,
       Answered sample_segment),
      (sample_job 23, \<lparr>run_socket = True, run_rounds = [Timeout, Timeout, Timeout], run_version = sample_talk\<rparr>, Silent)]"

lemma sample_settled:
  "settled [Timeout, Captured (replicate 14 0 @ packet (pkt_iphdr 7 9) [] sample_segment [])] (Answered sample_segment)"
  "settled [Timeout, Timeout, Timeout] Silent"
proof -
  have "[Timeout, Captured (replicate 14 0 @ packet (pkt_iphdr 7 9) [] sample_segment [])] =
      replicate 1 Timeout @ Captured (replicate 14 0 @ packet (pkt_iphdr 7 9) [] sample_segment []) # []" by simp
  moreover have "5 \<le> unat (tcp_doff sample_segment)" "20 + length [] = unat (ip_ihl (pkt_iphdr 7 9)) * 4" "ip_protocol (pkt_iphdr 7 9) = 6"
    by (simp_all add: sample_segment_def pkt_tcphdr_def pkt_iphdr_def)
  ultimately show "settled [Timeout, Captured (replicate 14 0 @ packet (pkt_iphdr 7 9) [] sample_segment [])] (Answered sample_segment)"
    using length_replicate[of 14 "0 :: byte"] by (metis settled.simps(2) less_numeral_extra(1) one_less_numeral_iff semiring_norm(77))
qed (simp add: numeral_eq_Suc)

definition sample_setup :: ps_state where
  "sample_setup = ps_start\<lparr>ip_list := [''10.0.0.7''], ip_list_count := 1, port_list := [23, 22], port_list_count := 2, scan_flags := [1, 0, 0, 0, 0, 0]\<rparr>"

lemma sample_cases_settle: "list_all (\<lambda>(job, r, out). run_settles job r out) sample_cases"
proof -
  have "read_version sample_talk 22 \<noteq> None" by code_simp
  then show ?thesis using sample_settled by (simp add: sample_cases_def sample_job_def serv_ports_def run_settles_def talk_ok_def)
qed

lemma sample_cases_jobs: "map fst sample_cases = rev (all_jobs (scan_flags sample_setup) (ip_list sample_setup) (port_list sample_setup))"
  by (simp add: sample_cases_def sample_setup_def all_jobs_def scan_jobs_def sample_job_def SYN_SCAN_def upt_rec)

lemma sample_cases_keys:
  "set (map res_key (map (\<lambda>(job, r, out). outcome_result (\<lambda>_ _. None) job out) sample_cases)) = {(''10.0.0.7'', 22), (''10.0.0.7'', 23)}"
  by code_simp

lemma sample_cases_sends: "length (concat (map (\<lambda>(job, r, out). run_sends inet localip job r) sample_cases)) = 5"
  by (simp add: sample_cases_def run_sends_def tries_def)

text \<open>
  C34. A scan from the list of jobs to the table of results. The jobs are all combinations of a chosen scan, an address and a port; when the socket of each
  is made, each is settled by silence or by a TCP segment, and no version text is too long, the scan takes every job once, sends the datagram of the job
  to its address once for every round there is, at most three times, and leaves a table with exactly one record for every address and port that a result
  was for. A record has the last value of every scan: filtered or open-filtered after three timeouts, otherwise open, closed or unfiltered by the flags of
  the segment; its conclusion is the least of its values.
\<close>

theorem ps_scan_table:
  assumes "job_masterlist st = []" "job_masterlist_count st = 0" "result_masterlist st = []" "result_list_count st = 0"
    and "xs \<noteq> []" "map fst xs = rev (all_jobs (scan_flags st) (ip_list st) (port_list st))"
    and "list_all (\<lambda>(job, r, out). run_settles job r out) xs" and "ps = map (\<lambda>(job, r, out). outcome_result serv job out) xs"
  shows "\<exists>st1 st2 vs'. create_jobs st = PsRun st1 \<and>
    ps_default serv inet localip (map (fst \<circ> snd) xs) st1 vs = PsRun (st2, vs', concat (map (\<lambda>(job, r, out). run_sends inet localip job r) xs)) \<and>
    job_masterlist st2 = [] \<and> distinct (map res_key (result_masterlist st2)) \<and>
    set (map res_key (result_masterlist st2)) = set (map res_key ps) \<and> list_all (result_ok ps) (result_masterlist st2)"
  using sequential.scan_table[OF assms] by simp

theorem ps_scan_table_witness:
  "\<exists>st1 st2 vs' w. create_jobs sample_setup = PsRun st1 \<and>
    ps_default (\<lambda>_ _. None) (\<lambda>_. 7) ''10.0.0.1'' (map (fst \<circ> snd) sample_cases) st1 [] = PsRun (st2, vs', w) \<and> length w = 5 \<and>
    set (map res_key (result_masterlist st2)) = {(''10.0.0.7'', 22), (''10.0.0.7'', 23)}"
proof -
  have "sample_cases \<noteq> []" "job_masterlist sample_setup = []" "job_masterlist_count sample_setup = 0" "result_masterlist sample_setup = []"
    "result_list_count sample_setup = 0" by (simp_all add: sample_cases_def sample_setup_def ps_start_def)
  then show ?thesis
    using ps_scan_table[OF _ _ _ _ _ sample_cases_jobs sample_cases_settle refl, of "\<lambda>_ _. None" "\<lambda>_. 7" "''10.0.0.1''" "[]"] sample_cases_keys
      sample_cases_sends[of "\<lambda>_. 7" "''10.0.0.1''"] by metis
qed

text \<open>A thread that is alone leaves the same table.\<close>

lemma thread_table:
  assumes "job_masterlist st = []" "job_masterlist_count st = 0" "result_masterlist st = []" "result_list_count st = 0"
    and "xs \<noteq> []" "map fst xs = rev (all_jobs (scan_flags st) (ip_list st) (port_list st))"
    and "list_all (\<lambda>(job, r, out). thread_settles thread_id job r out) xs" and "ps = map (\<lambda>(job, r, out). outcome_result serv job out) xs"
  shows "\<exists>st1 st2 vs'. create_jobs st = PsRun st1 \<and>
    ps_threaded serv inet localip thread_id (map (fst \<circ> snd) xs @ [last_run]) st1 vs =
      PsRun (st2, vs', concat (map (\<lambda>(job, r, out). thread_sends inet localip thread_id job r) xs)) \<and>
    job_masterlist st2 = [] \<and> distinct (map res_key (result_masterlist st2)) \<and>
    set (map res_key (result_masterlist st2)) = set (map res_key ps) \<and> list_all (result_ok ps) (result_masterlist st2)"
  using one_thread.scan_table[OF assms] .

section \<open>Limits\<close>

text \<open>A UDP scan of port 53 sends only the first 20 of the 31 bytes of its query when there are no threads.\<close>

lemma dns_query_cut: "\<exists>d. job_datagram False inet ip 12345 \<lparr>job_ip = ''10.0.0.7'', job_portno = 53, job_scan_type = UDP_SCAN\<rparr> = Some d \<and> length d = 20"
    "\<exists>d. job_datagram True inet ip 12345 \<lparr>job_ip = ''10.0.0.7'', job_portno = 53, job_scan_type = UDP_SCAN\<rparr> = Some d \<and> length d = 31"
  by (simp_all add: job_datagram_def DNS_PORT_def prepare_dnsquery_pkt_def cstr_no_NUL char_bytes_def Let_def)

text \<open>
  A thread that gets the packet of somebody else during the first second ends its attempt, because the time that is left is then not below four
  seconds.
\<close>

lemma foreign_packet_ends_attempt:
  assumes "buf = fill_buffer p (replicate 1024 0)" "20 \<le> unat (buf ! 0 AND 15) * 4" "buf ! 9 = 6" "\<not> from_job job tport buf"
  shows "wait_answer job tport 4000 (PollReady (Some p) icmp 0 # es) = Some None"
  using assms by (simp add: Let_def)

section \<open>The capture session\<close>

text \<open>
  \<^verbatim>\<open>prepare_sniffing_session\<close> with the answers of \<^verbatim>\<open>libpcap\<close>: the default device, its network, whether it can be opened, and whether the filter can be compiled and installed. A network
  that is not found is taken to be zero. The text of the filter goes into an array of 50 bytes.
\<close>

record pcap_env =
  pcap_lookupdev :: "string option"
  pcap_lookupnet :: "(32 word \<times> 32 word) option"
  pcap_open_live :: bool
  pcap_compile :: "string \<Rightarrow> 32 word \<Rightarrow> bool"
  pcap_setfilter :: bool

record pcap_session =
  ses_dev :: string
  ses_snaplen :: int
  ses_promisc :: int
  ses_timeout :: int
  ses_filter :: string

definition filter_text :: "int \<Rightarrow> string" where
  "filter_text src_port = ''dst port '' @ dec_int src_port @ '' or ip proto '' @ [CHR 0x5C] @ ''icmp''"

definition prepare_sniffing_session :: "pcap_env \<Rightarrow> int \<Rightarrow> int \<Rightarrow> pcap_session ps_run" where
  "prepare_sniffing_session e src_port read_timeout =
     (let filter_exp = filter_text src_port in
      if length filter_exp \<ge> 50 then PsUndefined
      else case pcap_lookupdev e of
             None \<Rightarrow> PsExit 1
           | Some dev \<Rightarrow>
               let netmask = (case pcap_lookupnet e of None \<Rightarrow> 0 | Some (devip, netmask) \<Rightarrow> netmask) in
               if \<not> pcap_open_live e then PsExit 1
               else if \<not> pcap_compile e filter_exp netmask then PsExit 1
               else if \<not> pcap_setfilter e then PsExit 1
               else PsRun \<lparr>ses_dev = dev, ses_snaplen = 1518, ses_promisc = 0, ses_timeout = read_timeout, ses_filter = filter_exp\<rparr>)"

text \<open>The filter of every port fits, so that the session is made or the program ends.\<close>

lemma session_filter_fits:
  assumes "0 \<le> src_port" "src_port < 65536"
  shows "length (filter_text src_port) < 50 \<and> prepare_sniffing_session e src_port t \<noteq> PsUndefined"
proof -
  have "length (dec_nat (nat src_port)) \<le> 5" using assms by (intro dec_nat_length) simp_all
  then have "length (filter_text src_port) < 50" using assms(1) by (simp add: filter_text_def dec_int_def)
  then show ?thesis by (simp add: prepare_sniffing_session_def Let_def split: option.split)
qed

end
