(* ===== verification/Ps_Threads.thy ===== *)
theory Ps_Threads
  imports Ps_Scan
begin

text \<open>
  The threads of the port scanner together: \<^verbatim>\<open>ps_threaded\<close> of \<^verbatim>\<open>portscan/ps_scan.c\<close>, with \<^verbatim>\<open>push_result\<close> of \<^verbatim>\<open>portscan/ps_setup.c\<close> in the steps in which it
  reads and writes shared memory. Jobs are taken under a lock; results are entered without one. The records are nodes with an address,
  because two threads may hold the same one.
\<close>

section \<open>The steps\<close>

text \<open>
  The shared memory: the lists of \<open>ps_state\<close> except for the results, the nodes, the next free address, the addresses of the list of results from the
  top on, their counter, and (only for the statements below) the jobs that were taken and the results that were entered.
\<close>

record scan_mem =
  mem_st :: ps_state
  mem_node :: "nat \<Rightarrow> result_t"
  mem_fresh :: nat
  mem_top :: "nat list"
  mem_count :: int
  mem_taken :: "job_t list"
  mem_pushed :: "result_t list"

definition mem_table :: "scan_mem \<Rightarrow> result_t list" where
  "mem_table m = map (mem_node m) (mem_top m)"

text \<open>Where a thread is; from \<open>Searching\<close> on it is inside of \<^verbatim>\<open>push_result\<close>. The next pointer of a new node is the list behind it.\<close>

datatype tpc =
    Fetch
  | Working job_t
  | Searching result_t
  | Making result_t
  | Linking result_t nat "nat list"
  | Counting result_t nat
  | CountWriting result_t nat int
  | Entering result_t nat
  | Concluding nat nat
  | Writing nat nat int
  | Finished

text \<open>What the network decides: a result for a port, or none; version detection works on other memory.\<close>

datatype answer = Answer int int | NoAnswer

fun thread_step :: "(int \<Rightarrow> bool \<Rightarrow> string option) \<Rightarrow> answer \<Rightarrow> tpc \<Rightarrow> scan_mem \<Rightarrow> (tpc \<times> scan_mem) option" where
  "thread_step serv an Fetch m =
     (case get_next_job (mem_st m) of
        (None, st) \<Rightarrow> Some (Finished, m\<lparr>mem_st := st\<rparr>)
      | (Some job, st) \<Rightarrow> Some (Working job, m\<lparr>mem_st := st, mem_taken := mem_taken m @ [job]\<rparr>))"
| "thread_step serv an (Working job) m =
     (case an of
        NoAnswer \<Rightarrow> Some (Fetch, m)
      | Answer portno v \<Rightarrow> Some (Searching (job_result serv job portno v), m))"
| "thread_step serv an (Searching r) m =
     (case find (\<lambda>a. same_port (mem_node m a) r) (mem_top m) of None \<Rightarrow> Some (Making r, m) | Some a \<Rightarrow> Some (Entering r a, m))"
| "thread_step serv an (Making r) m =
     (let a = mem_fresh m in
      Some (Linking r a (mem_top m), m\<lparr>mem_fresh := a + 1, mem_node := (mem_node m)(a := new_result r)\<rparr>))"
| "thread_step serv an (Linking r a rest) m = Some (Counting r a, m\<lparr>mem_top := a # rest\<rparr>)"
| "thread_step serv an (Counting r a) m = Some (CountWriting r a (mem_count m), m)"
| "thread_step serv an (CountWriting r a c) m = Some (Entering r a, m\<lparr>mem_count := c + 1\<rparr>)"
| "thread_step serv an (Entering r a) m =
     Some (Concluding a 0, m\<lparr>mem_node := (mem_node m)(a := (mem_node m a)
         \<lparr>res_result := (res_result (mem_node m a))[res_scan_type r := res_result r ! res_scan_type r]\<rparr>), mem_pushed := mem_pushed m @ [r]\<rparr>)"
| "thread_step serv an (Concluding a i) m =
     (if i < 6
      then let v = res_result (mem_node m a) ! i; c = res_conclusion (mem_node m a) in
           Some (if v \<noteq> NONE then Writing a i (if c < v then c else v) else Concluding a (i + 1), m)
      else Some (Fetch, m))"
| "thread_step serv an (Writing a i v) m =
     Some (Concluding a (i + 1), m\<lparr>mem_node := (mem_node m)(a := (mem_node m a)\<lparr>res_conclusion := v\<rparr>)\<rparr>)"
| "thread_step serv an Finished m = None"

text \<open>All threads together: any of them makes the next step.\<close>

inductive scan_step :: "(int \<Rightarrow> bool \<Rightarrow> string option) \<Rightarrow> tpc list \<times> scan_mem \<Rightarrow> tpc list \<times> scan_mem \<Rightarrow> bool" for serv where
  one_thread: "i < length ts \<Longrightarrow> thread_step serv an (ts ! i) m = Some (t, m') \<Longrightarrow> scan_step serv (ts, m) (ts[i := t], m')"

inductive_cases scan_stepE: "scan_step serv (ts, m) (ts', m')"

definition mem_start :: "ps_state \<Rightarrow> scan_mem" where
  "mem_start st = \<lparr>mem_st = st, mem_node = (\<lambda>_. \<lparr>res_ip = [], res_service = [], res_result = [], res_conclusion = 0, res_portno = 0, res_scan_type = 0\<rparr>),
     mem_fresh = 0, mem_top = [], mem_count = 0, mem_taken = [], mem_pushed = []\<rparr>"

section \<open>What holds in every run\<close>

text \<open>A result that belongs to a job.\<close>

definition result_of_job :: "(int \<Rightarrow> bool \<Rightarrow> string option) \<Rightarrow> job_t set \<Rightarrow> result_t \<Rightarrow> bool" where
  "result_of_job serv js r \<longleftrightarrow> (\<exists>job\<in>js. \<exists>portno v. r = job_result serv job portno v)"

text \<open>A record is sound: every value has been entered for its scan, and its conclusion is 10 or some value that has been entered.\<close>

definition record_sound :: "result_t list \<Rightarrow> result_t \<Rightarrow> bool" where
  "record_sound ps r \<longleftrightarrow> length (res_result r) = 6 \<and>
     (\<forall>j < 6. res_result r ! j = NONE \<or> (\<exists>p \<in> set ps. res_key p = res_key r \<and> res_scan_type p = j \<and> res_value p = res_result r ! j)) \<and>
     res_conclusion r \<in> insert 10 (values_of ps (res_key r))"

fun thread_ok :: "(int \<Rightarrow> bool \<Rightarrow> string option) \<Rightarrow> scan_mem \<Rightarrow> tpc \<Rightarrow> bool" where
  "thread_ok serv m Fetch \<longleftrightarrow> True"
| "thread_ok serv m (Working job) \<longleftrightarrow> job \<in> set (mem_taken m)"
| "thread_ok serv m (Searching r) \<longleftrightarrow> result_of_job serv (set (mem_taken m)) r"
| "thread_ok serv m (Making r) \<longleftrightarrow> result_of_job serv (set (mem_taken m)) r"
| "thread_ok serv m (Linking r a rest) \<longleftrightarrow> result_of_job serv (set (mem_taken m)) r \<and> a < mem_fresh m \<and>
     res_key (mem_node m a) = res_key r \<and> distinct (a # rest) \<and> set rest \<subseteq> {..<mem_fresh m}"
| "thread_ok serv m (Counting r a) \<longleftrightarrow> result_of_job serv (set (mem_taken m)) r \<and> a < mem_fresh m \<and> res_key (mem_node m a) = res_key r"
| "thread_ok serv m (CountWriting r a c) \<longleftrightarrow> result_of_job serv (set (mem_taken m)) r \<and> a < mem_fresh m \<and> res_key (mem_node m a) = res_key r"
| "thread_ok serv m (Entering r a) \<longleftrightarrow> result_of_job serv (set (mem_taken m)) r \<and> a < mem_fresh m \<and> res_key (mem_node m a) = res_key r"
| "thread_ok serv m (Concluding a i) \<longleftrightarrow> a < mem_fresh m"
| "thread_ok serv m (Writing a i v) \<longleftrightarrow> a < mem_fresh m \<and> v \<in> insert 10 (values_of (mem_pushed m) (res_key (mem_node m a)))"
| "thread_ok serv m Finished \<longleftrightarrow> job_masterlist (mem_st m) = []"

definition mem_ok :: "(int \<Rightarrow> bool \<Rightarrow> string option) \<Rightarrow> job_t list \<Rightarrow> scan_mem \<Rightarrow> bool" where
  "mem_ok serv js m \<longleftrightarrow> mem_taken m @ job_masterlist (mem_st m) = js \<and> distinct (mem_top m) \<and> set (mem_top m) \<subseteq> {..<mem_fresh m} \<and>
     (\<forall>a < mem_fresh m. record_sound (mem_pushed m) (mem_node m a)) \<and> list_all (result_of_job serv (set (mem_taken m))) (mem_pushed m)"

text \<open>How the memory may change: what a thread relies on stays.\<close>

definition mem_grows :: "scan_mem \<Rightarrow> scan_mem \<Rightarrow> bool" where
  "mem_grows m m' \<longleftrightarrow> mem_fresh m \<le> mem_fresh m' \<and> set (mem_taken m) \<subseteq> set (mem_taken m') \<and> set (mem_pushed m) \<subseteq> set (mem_pushed m') \<and>
     (\<forall>a < mem_fresh m. res_key (mem_node m' a) = res_key (mem_node m a)) \<and> (job_masterlist (mem_st m) = [] \<longrightarrow> job_masterlist (mem_st m') = [])"

lemma values_of_mono: "set ps \<subseteq> set qs \<Longrightarrow> values_of ps k \<subseteq> values_of qs k"
  by (auto simp: values_of_def)

lemma record_sound_mono: "record_sound ps r \<Longrightarrow> set ps \<subseteq> set qs \<Longrightarrow> record_sound qs r"
  using values_of_mono[of ps qs "res_key r"] unfolding record_sound_def by blast

lemma result_of_job_mono: "result_of_job serv js r \<Longrightarrow> js \<subseteq> ks \<Longrightarrow> result_of_job serv ks r"
  by (auto simp: result_of_job_def)

lemma thread_ok_mono:
  assumes "thread_ok serv m t" "mem_grows m m'"
  shows "thread_ok serv m' t"
proof (cases t)
  case (Writing a i v)
  then show ?thesis using assms values_of_mono[of "mem_pushed m" "mem_pushed m'" "res_key (mem_node m a)"] by (auto simp: mem_grows_def)
qed (use assms result_of_job_mono in \<open>auto simp: mem_grows_def\<close>)

lemma key_update [simp]: "res_key (r\<lparr>res_result := rs\<rparr>) = res_key r" "res_key (r\<lparr>res_conclusion := c\<rparr>) = res_key r"
  by (simp_all add: res_key_def)

lemma new_result_sound: "record_sound ps (new_result r)"
  by (simp add: record_sound_def new_result_def nth_Cons')

lemma enter_sound:
  assumes "record_sound ps r" "res_key r = res_key p" "p \<in> set ps"
  shows "record_sound ps (r\<lparr>res_result := (res_result r)[res_scan_type p := res_result p ! res_scan_type p]\<rparr>)"
proof -
  let ?rs = "(res_result r)[res_scan_type p := res_result p ! res_scan_type p]"
  have "?rs ! j = NONE \<or> (\<exists>q \<in> set ps. res_key q = res_key r \<and> res_scan_type q = j \<and> res_value q = ?rs ! j)" if "j < 6" for j
  proof (cases "j = res_scan_type p")
    case True
    then show ?thesis using assms that by (intro disjI2 bexI[of _ p]) (auto simp: record_sound_def res_value_def)
  qed (use assms(1) that in \<open>auto simp: record_sound_def\<close>)
  then show ?thesis using assms(1) by (simp add: record_sound_def)
qed

lemma conclude_sound: "record_sound ps r \<Longrightarrow> v \<in> insert 10 (values_of ps (res_key r)) \<Longrightarrow> record_sound ps (r\<lparr>res_conclusion := v\<rparr>)"
  by (simp add: record_sound_def)

lemma sound_value: "record_sound ps r \<Longrightarrow> i < 6 \<Longrightarrow> res_result r ! i \<noteq> NONE \<Longrightarrow> res_result r ! i \<in> values_of ps (res_key r)"
proof -
  assume "record_sound ps r" "i < 6" "res_result r ! i \<noteq> NONE"
  then obtain p where "p \<in> set ps" "res_key p = res_key r" "res_value p = res_result r ! i" "res_value p \<noteq> NONE"
    by (auto simp: record_sound_def)
  then show ?thesis by (force simp: values_of_def)
qed

lemma get_next_job_list: "get_next_job st = (j, st') \<Longrightarrow>
    (case j of None \<Rightarrow> job_masterlist st = [] \<and> st' = st | Some job \<Rightarrow> job_masterlist st = job # job_masterlist st')"
  by (auto simp: get_next_job_def split: list.splits)

lemma thread_step_ok:
  assumes "thread_step serv an t m = Some (t', m')" "mem_ok serv js m" "thread_ok serv m t"
  shows "mem_ok serv js m' \<and> thread_ok serv m' t' \<and> mem_grows m m'"
proof (cases t)
  case Fetch
  obtain j st where g: "get_next_job (mem_st m) = (j, st)" by fastforce
  show ?thesis
  proof (cases j)
    case None
    then show ?thesis using assms Fetch g get_next_job_list[OF g] by (auto simp: mem_grows_def)
  next
    case (Some job)
    then have m': "t' = Working job" "m' = m\<lparr>mem_st := st, mem_taken := mem_taken m @ [job]\<rparr>" using assms(1) Fetch g by auto
    have "list_all (result_of_job serv (set (mem_taken m'))) (mem_pushed m)"
      using assms(2) result_of_job_mono[of serv "set (mem_taken m)" _ "set (mem_taken m')"] m' by (auto simp: mem_ok_def list_all_iff)
    then show ?thesis using assms(2) get_next_job_list[OF g] Some m' by (auto simp: mem_ok_def mem_grows_def)
  qed
next
  case (Working job)
  then show ?thesis using assms by (auto simp: mem_grows_def result_of_job_def split: answer.splits) blast
next
  case (Searching r)
  then show ?thesis using assms
    by (auto simp: mem_grows_def mem_ok_def find_Some_iff same_port_key subset_iff split: option.splits)
next
  case (Making r)
  then show ?thesis using assms new_result_sound[of "mem_pushed m" r]
    by (auto simp: mem_grows_def mem_ok_def Let_def subset_iff less_Suc_eq)
next
  case (Linking r a rest)
  then show ?thesis using assms by (auto simp: mem_grows_def mem_ok_def)
next
  case (Counting r a)
  then show ?thesis using assms by (auto simp: mem_grows_def mem_ok_def)
next
  case (CountWriting r a c)
  then show ?thesis using assms by (auto simp: mem_grows_def mem_ok_def)
next
  case (Entering r a)
  let ?n = "(mem_node m a)\<lparr>res_result := (res_result (mem_node m a))[res_scan_type r := res_result r ! res_scan_type r]\<rparr>"
  have sound: "record_sound (mem_pushed m @ [r]) (mem_node m b)" if "b < mem_fresh m" for b
    using assms(2) that record_sound_mono[of "mem_pushed m" "mem_node m b" "mem_pushed m @ [r]"] by (auto simp: mem_ok_def)
  have "record_sound (mem_pushed m @ [r]) ?n" using enter_sound[of "mem_pushed m @ [r]" "mem_node m a" r] sound Entering assms(3) by simp
  then show ?thesis using assms Entering sound by (auto simp: mem_grows_def mem_ok_def)
next
  case (Concluding a i)
  then have "record_sound (mem_pushed m) (mem_node m a)" using assms(2,3) by (simp add: mem_ok_def)
  then show ?thesis using assms Concluding sound_value[of "mem_pushed m" "mem_node m a" i]
    by (auto simp: mem_grows_def Let_def record_sound_def split: if_splits)
next
  case (Writing a i v)
  then show ?thesis using assms conclude_sound[of "mem_pushed m" "mem_node m a" v] by (auto simp: mem_grows_def mem_ok_def)
qed (use assms in simp)

text \<open>The steps that are left: at most 27 for a job and one for the end of a thread.\<close>

fun pc_weight :: "tpc \<Rightarrow> nat" where
  "pc_weight Fetch = 1"
| "pc_weight (Working job) = 27"
| "pc_weight (Searching r) = 26"
| "pc_weight (Making r) = 25"
| "pc_weight (Linking r a rest) = 24"
| "pc_weight (Counting r a) = 23"
| "pc_weight (CountWriting r a c) = 22"
| "pc_weight (Entering r a) = 21"
| "pc_weight (Concluding a i) = 2 + 3 * (6 - i)"
| "pc_weight (Writing a i v) = 3 + 3 * (5 - i)"
| "pc_weight Finished = 0"

definition steps_left :: "tpc list \<times> scan_mem \<Rightarrow> nat" where
  "steps_left s = 27 * length (job_masterlist (mem_st (snd s))) + sum_list (map pc_weight (fst s))"

lemma thread_step_weight:
  assumes "thread_step serv an t m = Some (t', m')"
  shows "27 * length (job_masterlist (mem_st m')) + pc_weight t' < 27 * length (job_masterlist (mem_st m)) + pc_weight t"
proof (cases t)
  case Fetch
  then show ?thesis using assms get_next_job_list[of "mem_st m"] by (auto split: option.splits prod.splits)
next
  case (Concluding a i)
  then show ?thesis using assms by (auto simp: Let_def split: if_splits)
qed (use assms in \<open>auto simp: Let_def split: answer.splits option.splits\<close>)

lemma sum_list_weight_update: "i < length ts \<Longrightarrow> sum_list (map pc_weight (ts[i := t])) + pc_weight (ts ! i) = sum_list (map pc_weight ts) + pc_weight t"
  by (induction ts arbitrary: i) (auto split: nat.splits)

lemma scan_step_weight: "scan_step serv s s' \<Longrightarrow> steps_left s' < steps_left s"
proof (induction rule: scan_step.induct)
  case (one_thread i ts an m t m')
  then show ?case using thread_step_weight[OF one_thread(2)] sum_list_weight_update[OF one_thread(1), of t] by (simp add: steps_left_def)
qed

lemma thread_step_enabled: "t \<noteq> Finished \<Longrightarrow> \<exists>t' m'. thread_step serv an t m = Some (t', m')"
  by (cases t) (auto simp: Let_def split: option.splits prod.splits answer.splits)

lemma scan_stuck: "\<nexists>s'. scan_step serv (ts, m) s' \<Longrightarrow> list_all ((=) Finished) ts"
proof (rule ccontr)
  assume stuck: "\<nexists>s'. scan_step serv (ts, m) s'" and "\<not> list_all ((=) Finished) ts"
  then obtain i where i: "i < length ts" "ts ! i \<noteq> Finished" by (auto simp: list_all_length)
  then obtain t m' where "thread_step serv NoAnswer (ts ! i) m = Some (t, m')" using thread_step_enabled by blast
  then show False using stuck scan_step.one_thread[OF i(1)] by blast
qed

definition scan_ok :: "(int \<Rightarrow> bool \<Rightarrow> string option) \<Rightarrow> nat \<Rightarrow> job_t list \<Rightarrow> tpc list \<times> scan_mem \<Rightarrow> bool" where
  "scan_ok serv n js s \<longleftrightarrow> length (fst s) = n \<and> mem_ok serv js (snd s) \<and> list_all (thread_ok serv (snd s)) (fst s)"

lemma scan_step_ok:
  assumes "scan_step serv s s'" "scan_ok serv n js s"
  shows "scan_ok serv n js s'"
  using assms
proof (induction rule: scan_step.induct)
  case (one_thread i ts an m t m')
  then have "mem_ok serv js m' \<and> thread_ok serv m' t \<and> mem_grows m m'"
    by (intro thread_step_ok[OF one_thread(2)]) (auto simp: scan_ok_def list_all_length)
  then show ?case using one_thread thread_ok_mono by (auto simp: scan_ok_def list_all_length nth_list_update)
qed

lemma scan_start_ok: "scan_ok serv n (job_masterlist st) (replicate n Fetch, mem_start st)"
  by (simp add: scan_ok_def mem_ok_def mem_start_def list_all_iff)

lemma scan_run_ok:
  assumes "(scan_step serv ^^ k) s s'" "scan_ok serv n js s"
  shows "scan_ok serv n js s' \<and> k + steps_left s' \<le> steps_left s"
  using assms
proof (induction k arbitrary: s')
  case (Suc k)
  then obtain u where "(scan_step serv ^^ k) s u" "scan_step serv u s'" by auto
  then show ?case using Suc.IH[of u] Suc.prems(2) scan_step_ok scan_step_weight[of serv u s'] by fastforce
qed simp


text \<open>Two threads with one job each, one step after the other.\<close>

fun run_schedule :: "(int \<Rightarrow> bool \<Rightarrow> string option) \<Rightarrow> (nat \<times> answer) list \<Rightarrow> tpc list \<times> scan_mem \<Rightarrow> (tpc list \<times> scan_mem) option" where
  "run_schedule serv [] s = Some s"
| "run_schedule serv ((i, an) # is) (ts, m) =
     (if i < length ts
      then (case thread_step serv an (ts ! i) m of None \<Rightarrow> None | Some (t, m') \<Rightarrow> run_schedule serv is (ts[i := t], m'))
      else None)"

lemma run_schedule_steps: "run_schedule serv is s = Some s' \<Longrightarrow> (scan_step serv ^^ length is) s s'"
proof (induction serv "is" s rule: run_schedule.induct)
  case (2 serv i an "is" ts m)
  then obtain t m' where "i < length ts" "thread_step serv an (ts ! i) m = Some (t, m')" "(scan_step serv ^^ length is) (ts[i := t], m') s'"
    by (auto split: if_splits option.splits)
  then show ?case using relpowp_Suc_I2[of "scan_step serv" "(ts, m)" "(ts[i := t], m')" "length is" s'] scan_step.one_thread[of i ts serv an m t m'] by simp
qed simp

definition two_jobs :: ps_state where
  "two_jobs = ps_start\<lparr>job_masterlist := [sample_job 22, sample_job 23], job_masterlist_count := 2\<rparr>"

text \<open>Both threads have read the same top before either writes it.\<close>

definition both_link :: "(nat \<times> answer) list" where
  "both_link = map (\<lambda>i. (i, Answer (if i = 0 then 22 else 23) R_OPEN)) ([0, 1, 0, 1, 0, 1, 0, 1, 0, 1, 0, 1, 0, 1, 0, 1] @ replicate 9 0 @ replicate 9 1)"

definition lost_run :: "(tpc list \<times> scan_mem) option" where
  "lost_run = run_schedule (\<lambda>_ _. None) both_link (replicate 2 Fetch, mem_start two_jobs)"

lemma lost_run_end:
  "map_option (\<lambda>(ts, m). (ts, mem_taken m, map res_portno (mem_pushed m), map res_portno (mem_table m), mem_count m)) lost_run =
    Some ([Finished, Finished], [sample_job 22, sample_job 23], [22, 23], [23], 1)"
  by code_simp

lemma lost_run_reached:
  obtains m where "(scan_step (\<lambda>_ _. None) ^^ length both_link) (replicate 2 Fetch, mem_start two_jobs) ([Finished, Finished], m)"
    "mem_taken m = [sample_job 22, sample_job 23]" "map res_portno (mem_pushed m) = [22, 23]" "map res_portno (mem_table m) = [23]" "mem_count m = 1"
  using lost_run_end run_schedule_steps that unfolding lost_run_def by (force simp: map_option_case split: option.splits)


text \<open>Of two results that are entered at the same time one is lost, and the counter counts only one.\<close>

lemma threads_lose_result:
  "\<exists>m. (scan_step (\<lambda>_ _. None) ^^ length both_link) (replicate 2 Fetch, mem_start two_jobs) ([Finished, Finished], m) \<and>
    map res_portno (mem_pushed m) = [22, 23] \<and> map res_portno (mem_table m) = [23] \<and> mem_count m = 1"
  using lost_run_reached by metis

section \<open>Without interruption\<close>

text \<open>The steps of one thread from where it enters a result, when no other thread is scheduled, are \<^verbatim>\<open>push_result\<close>.\<close>

inductive alone :: "(int \<Rightarrow> bool \<Rightarrow> string option) \<Rightarrow> tpc \<Rightarrow> scan_mem \<Rightarrow> tpc \<Rightarrow> scan_mem \<Rightarrow> bool" for serv where
  here: "alone serv t m t m"
| on: "thread_step serv NoAnswer t m = Some (t1, m1) \<Longrightarrow> alone serv t1 m1 t2 m2 \<Longrightarrow> alone serv t m t2 m2"

lemma alone_concluding:
  assumes "length (res_result (mem_node m a)) = 6" "i \<le> 6"
  shows "alone serv (Concluding a i) m Fetch (m\<lparr>mem_node := (mem_node m)(a := (mem_node m a)
    \<lparr>res_conclusion := conclude (res_conclusion (mem_node m a)) (drop i (res_result (mem_node m a)))\<rparr>)\<rparr>)"
  using assms
proof (induction "6 - i" arbitrary: i m)
  case 0
  then have "i = 6" by simp
  moreover have "m\<lparr>mem_node := (mem_node m)(a := (mem_node m a)\<lparr>res_conclusion := conclude (res_conclusion (mem_node m a)) []\<rparr>)\<rparr> = m"
    by (cases m) (simp add: conclude_def)
  moreover have "alone serv (Concluding a 6) m Fetch m" by (rule alone.on[OF _ alone.here]) simp
  ultimately show ?case using 0(2) by (simp del: fun_upd_apply)
next
  case (Suc k)
  let ?v = "res_result (mem_node m a) ! i" and ?c = "res_conclusion (mem_node m a)"
  let ?d = "if ?v \<noteq> NONE then (if ?c < ?v then ?c else ?v) else ?c"
  let ?m = "m\<lparr>mem_node := (mem_node m)(a := (mem_node m a)\<lparr>res_conclusion := ?d\<rparr>)\<rparr>"
  have i: "i < 6" using Suc.hyps(2) by simp
  have "drop i (res_result (mem_node m a)) = ?v # drop (i + 1) (res_result (mem_node m a))" using i Suc.prems(1) by (simp add: Cons_nth_drop_Suc)
  then have c: "conclude ?c (drop i (res_result (mem_node m a))) = conclude ?d (drop (i + 1) (res_result (mem_node m a)))"
    by (simp add: conclude_def)
  have "alone serv (Concluding a (i + 1)) ?m Fetch (?m\<lparr>mem_node := (mem_node ?m)(a := (mem_node ?m a)
      \<lparr>res_conclusion := conclude (res_conclusion (mem_node ?m a)) (drop (i + 1) (res_result (mem_node ?m a)))\<rparr>)\<rparr>)"
    using Suc i by (intro Suc.hyps(1)) auto
  then have rest: "alone serv (Concluding a (i + 1)) ?m Fetch (m\<lparr>mem_node := (mem_node m)(a := (mem_node m a)
      \<lparr>res_conclusion := conclude ?c (drop i (res_result (mem_node m a)))\<rparr>)\<rparr>)" unfolding c by simp
  show ?case
  proof (cases "?v = NONE")
    case True
    then have "?m = m" by (cases m) simp
    then show ?thesis using rest True i by (intro alone.on[of serv "Concluding a i" m "Concluding a (i + 1)" m]) (auto simp: Let_def)
  next
    case False
    have "alone serv (Writing a i ?d) m Fetch (m\<lparr>mem_node := (mem_node m)(a := (mem_node m a)
        \<lparr>res_conclusion := conclude ?c (drop i (res_result (mem_node m a)))\<rparr>)\<rparr>)" by (rule alone.on[OF _ rest]) simp
    then show ?thesis using False i by (intro alone.on[of serv "Concluding a i" m "Writing a i ?d" m]) (auto simp: Let_def)
  qed
qed

lemma alone_entering:
  assumes "length (res_result (mem_node m a)) = 6"
  shows "alone serv (Entering r a) m Fetch (m\<lparr>mem_node := (mem_node m)(a := enter_result r (mem_node m a)), mem_pushed := mem_pushed m @ [r]\<rparr>)"
proof -
  let ?m = "m\<lparr>mem_node := (mem_node m)(a := (mem_node m a)
    \<lparr>res_result := (res_result (mem_node m a))[res_scan_type r := res_result r ! res_scan_type r]\<rparr>), mem_pushed := mem_pushed m @ [r]\<rparr>"
  have "alone serv (Concluding a 0) ?m Fetch (m\<lparr>mem_node := (mem_node m)(a := enter_result r (mem_node m a)), mem_pushed := mem_pushed m @ [r]\<rparr>)"
    using alone_concluding[of ?m a 0 serv] assms by (cases m) (simp add: enter_result_def Let_def)
  then show ?thesis by (rule alone.on[rotated]) simp
qed

lemma find_first_result:
  assumes "distinct as"
  shows "replace_result r (map f as) = (case find (\<lambda>a. same_port (f a) r) as of None \<Rightarrow> None | Some a \<Rightarrow> Some (map (f(a := enter_result r (f a))) as))"
  using assms
proof (induction as)
  case (Cons b as)
  have "find (\<lambda>a. same_port (f a) r) as = Some a \<Longrightarrow> a \<in> set as" for a by (auto simp: find_Some_iff)
  then show ?case using Cons by (auto split: option.splits)
qed simp

lemma push_alone:
  assumes "distinct (mem_top m)" "set (mem_top m) \<subseteq> {..<mem_fresh m}" "\<forall>a < mem_fresh m. length (res_result (mem_node m a)) = 6"
    and "st = (mem_st m)\<lparr>result_masterlist := mem_table m, result_list_count := mem_count m\<rparr>"
  shows "\<exists>m'. alone serv (Searching r) m Fetch m' \<and> mem_pushed m' = mem_pushed m @ [r] \<and>
    (mem_st m')\<lparr>result_masterlist := mem_table m', result_list_count := mem_count m'\<rparr> = push_result r st"
proof (cases "find (\<lambda>a. same_port (mem_node m a) r) (mem_top m)")
  case (Some a)
  let ?m = "m\<lparr>mem_node := (mem_node m)(a := enter_result r (mem_node m a)), mem_pushed := mem_pushed m @ [r]\<rparr>"
  have "a \<in> set (mem_top m)" using Some by (auto simp: find_Some_iff)
  then have "alone serv (Entering r a) m Fetch ?m" using assms(2,3) by (intro alone_entering) auto
  then have "alone serv (Searching r) m Fetch ?m" using Some by (intro alone.on[of serv "Searching r" m "Entering r a" m]) auto
  moreover have "push_result r st = (mem_st ?m)\<lparr>result_masterlist := mem_table ?m, result_list_count := mem_count ?m\<rparr>"
    using find_first_result[OF assms(1), of r "mem_node m"] Some by (simp add: push_result_def mem_table_def assms(4))
  ultimately show ?thesis by (intro exI[of _ ?m]) simp
next
  case None
  let ?a = "mem_fresh m"
  let ?m1 = "m\<lparr>mem_fresh := ?a + 1, mem_node := (mem_node m)(?a := new_result r)\<rparr>"
  let ?m2 = "?m1\<lparr>mem_top := ?a # mem_top m\<rparr>"
  let ?m3 = "?m2\<lparr>mem_count := mem_count m + 1\<rparr>"
  let ?m = "?m3\<lparr>mem_node := (mem_node ?m3)(?a := enter_result r (mem_node ?m3 ?a)), mem_pushed := mem_pushed m @ [r]\<rparr>"
  have "alone serv (Entering r ?a) ?m3 Fetch ?m" using alone_entering[of ?m3 ?a serv r] by (simp add: new_result_def)
  then have "alone serv (CountWriting r ?a (mem_count m)) ?m2 Fetch ?m" by (rule alone.on[rotated]) simp
  then have "alone serv (Counting r ?a) ?m2 Fetch ?m" by (rule alone.on[rotated]) simp
  then have "alone serv (Linking r ?a (mem_top m)) ?m1 Fetch ?m" by (rule alone.on[rotated]) simp
  then have "alone serv (Making r) m Fetch ?m" by (rule alone.on[rotated]) (simp add: Let_def)
  then have "alone serv (Searching r) m Fetch ?m" using None by (intro alone.on[of serv "Searching r" m "Making r" m]) auto
  moreover have "map (mem_node ?m) (mem_top m) = mem_table m" using assms(2) by (auto simp: mem_table_def)
  then have "push_result r st = (mem_st ?m)\<lparr>result_masterlist := mem_table ?m, result_list_count := mem_count ?m\<rparr>"
    using find_first_result[OF assms(1), of r "mem_node m"] None by (simp add: push_result_def mem_table_def assms(4))
  ultimately show ?thesis by (intro exI[of _ ?m]) simp
qed

end
