(* ===== verification/Ps_Report.thy ===== *)
theory Ps_Report
  imports Ps_Scan "HOL-Library.Multiset"
begin

text \<open>
  The report of the port scanner and its main program: the printing functions of \<^verbatim>\<open>portscan/ps_setup.c\<close> and \<^verbatim>\<open>portscan/ps_version.c\<close>, which make a text, and
  \<^verbatim>\<open>portscan/main.c\<close>, which puts the parts together.
\<close>

section \<open>Formats\<close>

definition nl :: string where "nl = [CHR 0x0A]"
definition tab :: string where "tab = [CHR 0x09]"

definition pad :: "nat \<Rightarrow> string \<Rightarrow> string" where
  "pad n s = s @ replicate (n - length s) CHR '' ''"

lemma length_pad [simp]: "length (pad n s) = max n (length s)"
  by (simp add: pad_def)

text \<open>A loop that prints and changes a state.\<close>

fun print_loop :: "('a \<Rightarrow> 's \<Rightarrow> string \<times> 's) \<Rightarrow> 'a list \<Rightarrow> 's \<Rightarrow> string \<times> 's" where
  "print_loop f [] s = ([], s)"
| "print_loop f (x # xs) s = (case f x s of (out, s1) \<Rightarrow> case print_loop f xs s1 of (out2, s2) \<Rightarrow> (out @ out2, s2))"

lemma print_loop_append:
  "print_loop f (xs @ ys) s = (case print_loop f xs s of (out, s1) \<Rightarrow> case print_loop f ys s1 of (out2, s2) \<Rightarrow> (out @ out2, s2))"
  by (induction xs arbitrary: s) (auto split: prod.splits)

lemma print_loop_nested: "print_loop (\<lambda>x. print_loop f (g x)) xs = print_loop f (concat (map g xs))"
proof
  show "print_loop (\<lambda>x. print_loop f (g x)) xs s = print_loop f (concat (map g xs)) s" for s
    by (induction xs arbitrary: s) (simp_all add: print_loop_append)
qed

lemma print_loop_filter: "print_loop (\<lambda>x s. if P x then f x s else ([], s)) xs = print_loop f (filter P xs)"
proof
  show "print_loop (\<lambda>x s. if P x then f x s else ([], s)) xs s = print_loop f (filter P xs) s" for s
    by (induction xs arbitrary: s) (auto split: prod.splits)
qed

section \<open>A record\<close>

definition verdict :: "int \<Rightarrow> string" where
  "verdict v =
     (if v = R_OPEN then ''Open'' else if v = R_CLOSED then ''Closed'' else if v = R_FILTERED then ''Filtered''
      else if v = R_OPN_FIL then ''Open|Filtered'' else if v = R_UNFILTERED then ''Unfiltered'' else [])"

definition scan_entry :: "nat \<Rightarrow> int \<Rightarrow> string" where
  "scan_entry i v =
     (if v \<noteq> NONE then [''SYN'', ''NULL'', ''FIN'', ''XMAS'', ''ACK'', ''UDP''] ! i else []) @
     (if verdict v = [] then [] else ''('' @ verdict v @ '') '')"

text \<open>The six scans; \<open>ret\<close> counts what is in the line.\<close>

definition entry_step :: "int list \<Rightarrow> nat \<Rightarrow> nat \<Rightarrow> string \<times> nat" where
  "entry_step rs i ret =
     (let t = scan_entry i (rs ! i); ret = ret + length t in
      if ret \<ge> 50 then (t @ nl @ replicate 40 CHR '' '', 0) else (t, ret))"

definition conclusion_text :: "int \<Rightarrow> string" where
  "conclusion_text c = (if verdict c = [] then [] else pad 15 (verdict c))"

definition print_record_t :: "result_t \<Rightarrow> string" where
  "print_record_t r =
     (let (out, ret) = print_loop (entry_step (res_result r)) [0..<6] 0 in
      pad 10 (dec_int (res_portno r)) @ pad 30 (take 30 (cstr (res_service r))) @ out @ replicate (60 - ret) CHR '' '' @
      conclusion_text (res_conclusion r) @ nl)"

section \<open>The report\<close>

definition table_header :: string where
  "table_header = pad 10 ''Port'' @ pad 30 ''Service Name (if applicable)'' @ pad 60 ''Results'' @ pad 20 ''Conclusion'' @ nl @ replicate 120 CHR ''-'' @ nl"

definition open_header :: string where
  "open_header = ''Open ports:'' @ nl @ table_header"

definition closed_header :: string where
  "closed_header = nl @ ''Closed/Filtered/Unfiltered ports:'' @ nl @ table_header"

text \<open>A record with the header in front of it that has not been printed; the state is \<^verbatim>\<open>printhdr_opn\<close> and \<^verbatim>\<open>printhdr_cld\<close>.\<close>

definition print_matching :: "int \<Rightarrow> result_t \<Rightarrow> bool \<times> bool \<Rightarrow> string \<times> bool \<times> bool" where
  "print_matching i r = (\<lambda>(opn, cld).
     if i = R_OPEN \<and> opn then (open_header @ print_record_t r, False, cld)
     else if i \<noteq> R_OPEN \<and> cld then (closed_header @ print_record_t r, opn, False)
     else (print_record_t r, opn, cld))"

definition print_results :: "ps_state \<Rightarrow> string" where
  "print_results st =
     concat (map (\<lambda>ip.
       ''IP address: '' @ cstr ip @ nl @
       fst (print_loop (\<lambda>i. print_loop (\<lambda>port. print_loop (\<lambda>r flags.
              if cstr ip = cstr (res_ip r) \<and> res_conclusion r = i \<and> res_portno r = port then print_matching i r flags else ([], flags))
            (result_masterlist st)) (port_list st)) [0, 1, 2, 3, 4, 5] (True, True)) @
       nl) (ip_list st))"

section \<open>The other lists\<close>

definition print_ip :: "ps_state \<Rightarrow> string" where
  "print_ip st = concat (map (\<lambda>ip. ''ipAddress : '' @ cstr ip @ nl) (ip_list st))"

definition print_port :: "ps_state \<Rightarrow> string" where
  "print_port st = concat (map (\<lambda>port. ''port : '' @ dec_int port @ nl) (port_list st))"

definition print_jobs :: "ps_state \<Rightarrow> string" where
  "print_jobs st = concat (map (\<lambda>job. ''ipAddress : '' @ cstr (job_ip job) @ nl @ ''port : '' @ dec_int (job_portno job) @ nl) (job_masterlist st))"

definition print_results_dummy :: "ps_state \<Rightarrow> string" where
  "print_results_dummy st =
     concat (map (\<lambda>r. ''IP   : '' @ cstr (res_ip r) @ nl @ ''port : '' @ dec_int (res_portno r) @ nl @
       ''Conclusion : '' @ dec_int (res_conclusion r) @ '' '' @ conclusion_text (res_conclusion r) @ nl) (result_masterlist st))"

definition MAX_THREADS :: int where
  "MAX_THREADS = 25"

definition capped :: "int \<Rightarrow> int" where
  "capped n = (if n > MAX_THREADS then MAX_THREADS else n)"

text \<open>With a count of one the address at the top is printed.\<close>

definition print_configurations :: "ps_state \<Rightarrow> string option" where
  "print_configurations st =
     (let target = (if ip_list_count st = 1 then (case ip_list st of [] \<Rightarrow> None | ip # _ \<Rightarrow> Some (''Target Ip-Address          : '' @ cstr ip @ nl))
                    else Some (''No of Ip-Addresses to scan : '' @ dec_int (ip_list_count st) @ nl)) in
      map_option (\<lambda>t.
        ''Scan Configurations'' @ nl @ t @
        ''No of Ports to scan        : '' @ dec_int (port_list_count st) @ nl @
        ''Scans to be performed      : '' @
        concat (map (\<lambda>i. if scan_flags st ! i = 0 then [] else [''SYN '', ''NULL '', ''FIN '', ''XMAS '', ''ACK '', ''UDP''] ! i) [0..<6]) @ nl @
        (if no_of_threads st \<noteq> 0 then ''No of threads              : '' @ dec_int (capped (no_of_threads st)) @ nl else [])) target)"

definition dashes :: string where
  "dashes = replicate 33 CHR ''-'' @ nl"

definition print_servver_result :: "servver_result_t list \<Rightarrow> string" where
  "print_servver_result vs =
     (if vs = [] then nl @ ''Service Detection is not done as given ports are not in required range!'' @ nl
      else nl @ ''SERVICE VERSION DETECTION RESULTS'' @ nl @ dashes @
        concat (map (\<lambda>v. nl @ ''IP ADDRESS : '' @ cstr (ver_ip v) @ nl @ dashes @ ''Port'' @ tab @ tab @ ''Service Version'' @ nl @ dashes @
          concat (map (\<lambda>i. if cstr (ver_version v ! i) \<noteq> [] then dec_int (serv_ports ! i) @ tab @ tab @ cstr (ver_version v ! i) @ nl else []) [0..<6]) @
          dashes) vs))"

definition destroy_servver_results :: "servver_result_t list \<Rightarrow> servver_result_t list" where
  "destroy_servver_results vs = []"

section \<open>The main program\<close>

text \<open>
  \<^verbatim>\<open>find_localip\<close>: the interfaces as \<^verbatim>\<open>getifaddrs\<close> gives them. One without an address is not looked for, and leads to a null pointer; the last
  \<^verbatim>\<open>eth0\<close> counts.
\<close>

datatype ifa_addr = NoAddr | InetAddr "byte list" | OtherAddr

fun ifa_loop :: "(string \<times> ifa_addr) list \<Rightarrow> string \<Rightarrow> string option" where
  "ifa_loop [] localip = Some localip"
| "ifa_loop ((name, a) # ifs) localip =
     (case a of
        NoAddr \<Rightarrow> None
      | InetAddr bs \<Rightarrow> ifa_loop ifs (if name = ''eth0'' then dotted bs else localip)
      | OtherAddr \<Rightarrow> ifa_loop ifs localip)"

definition find_localip :: "(string \<times> ifa_addr) list \<Rightarrow> string ps_run" where
  "find_localip ifs = ps_bind (ps_defined (ifa_loop ifs [])) (\<lambda>ip. if ip = [] then PsExit 1 else PsRun ip)"

text \<open>Behind the scan: the texts that are printed, and the lists that are left. \<open>took\<close> is the result of \<^verbatim>\<open>timeval_diff\<close>.\<close>

definition main_end :: "int \<times> int \<Rightarrow> ps_state \<Rightarrow> servver_result_t list \<Rightarrow> string \<times> ps_state \<times> servver_result_t list" where
  "main_end took st vs =
     (let st1 = destroy_joblist st in
      (nl @ ''Scan took '' @ dec_int (fst took) @ ''.'' @ dec_int (snd took) @ '' secs'' @ nl @ print_results st1 @ print_servver_result vs,
       destroy_results (destroy_portlist (destroy_iplist st1)), destroy_servver_results vs))"

text \<open>
  The whole program. \<open>threads\<close> is what the threads make of the state, from the number of threads and the address of the machine; \<^verbatim>\<open>Ps_Threads\<close> has their steps. The dots of
  the alarm handler are left out.
\<close>

record main_env =
  env_resolve :: "string \<Rightarrow> string option"
  env_fs :: file_system
  env_stack :: string
  env_opts :: "ps_opt list"
  env_rest :: "string list"
  env_ifs :: "(string \<times> ifa_addr) list"
  env_serv :: "int \<Rightarrow> bool \<Rightarrow> string option"
  env_inet :: "string \<Rightarrow> 32 word"
  env_runs :: "job_run list"
  env_threads :: "int \<Rightarrow> string \<Rightarrow> ps_state \<Rightarrow> (ps_state \<times> servver_result_t list \<times> wire) ps_run"
  env_start :: "int \<times> int"
  env_end :: "int \<times> int"

definition ps_main :: "main_env \<Rightarrow> (string \<times> ps_state \<times> servver_result_t list \<times> wire) ps_run" where
  "ps_main e =
     ps_bind (parse_args (env_resolve e) (env_fs e) (env_stack e) (env_opts e) (env_rest e) ps_start) (\<lambda>st.
     if ip_list st = [] then PsExit 1
     else ps_bind (create_jobs st) (\<lambda>st.
       ps_bind (find_localip (env_ifs e)) (\<lambda>localip.
       ps_bind (ps_defined (print_configurations st)) (\<lambda>conf.
       ps_bind (if no_of_threads st = 0 then ps_default (env_serv e) (env_inet e) localip (env_runs e) st []
                else env_threads e (capped (no_of_threads st)) localip (st\<lparr>no_of_threads := capped (no_of_threads st)\<rparr>)) (\<lambda>(st, vs, out).
       case main_end (fst (timeval_diff (env_end e) (env_start e))) st vs of
         (t, st', vs') \<Rightarrow> PsRun (conf @ ''Scanning..'' @ t, st', vs', out))))))"

section \<open>What the report says\<close>

text \<open>The records of an address with a conclusion, in the order of the ports, and a part of the report.\<close>

definition selected :: "ps_state \<Rightarrow> string \<Rightarrow> int \<Rightarrow> result_t list" where
  "selected st ip i =
     concat (map (\<lambda>port. filter (\<lambda>r. (cstr ip = cstr (res_ip r) \<and> res_conclusion r = i) \<and> res_portno r = port) (result_masterlist st)) (port_list st))"

definition report_part :: "string \<Rightarrow> result_t list \<Rightarrow> string" where
  "report_part hdr rs = (if rs = [] then [] else hdr @ concat (map print_record_t rs))"

definition printed :: "ps_state \<Rightarrow> string \<Rightarrow> result_t list" where
  "printed st ip = concat (map (selected st ip) [0, 1, 2, 3, 4, 5])"

lemma selected_conclusion: "r \<in> set (selected st ip i) \<Longrightarrow> res_conclusion r = i"
  by (auto simp: selected_def)

lemma print_opens:
  assumes "\<forall>r \<in> set rs. res_conclusion r = 0"
  shows "print_loop (\<lambda>r. print_matching (res_conclusion r) r) rs (opn, cld) =
    (if rs = [] then ([], opn, cld) else ((if opn then open_header else []) @ concat (map print_record_t rs), False, cld))"
  using assms by (induction rs arbitrary: opn) (auto simp: print_matching_def R_OPEN_def)

lemma print_others:
  assumes "\<forall>r \<in> set rs. res_conclusion r \<noteq> 0"
  shows "print_loop (\<lambda>r. print_matching (res_conclusion r) r) rs (opn, cld) =
    (if rs = [] then ([], opn, cld) else ((if cld then closed_header else []) @ concat (map print_record_t rs), opn, False))"
  using assms by (induction rs arbitrary: cld) (auto simp: print_matching_def R_OPEN_def)

lemma print_two_parts:
  assumes "\<forall>r \<in> set os. res_conclusion r = 0" "\<forall>r \<in> set cs. res_conclusion r \<noteq> 0"
  shows "fst (print_loop (\<lambda>r. print_matching (res_conclusion r) r) (os @ cs) (True, True)) = report_part open_header os @ report_part closed_header cs"
  unfolding print_loop_append print_opens[OF assms(1)] by (simp add: print_others[OF assms(2)] report_part_def)

lemma print_loops_flat:
  "print_loop (\<lambda>i. print_loop (\<lambda>port. print_loop (\<lambda>r flags.
      if cstr ip = cstr (res_ip r) \<and> res_conclusion r = i \<and> res_portno r = port then print_matching i r flags else ([], flags))
    (result_masterlist st)) (port_list st)) is flags =
   print_loop (\<lambda>r. print_matching (res_conclusion r) r) (concat (map (selected st ip) is)) flags"
proof -
  have "(\<lambda>r flags. if cstr ip = cstr (res_ip r) \<and> res_conclusion r = i \<and> res_portno r = port then print_matching i r flags else ([], flags)) =
      (\<lambda>r flags. if (cstr ip = cstr (res_ip r) \<and> res_conclusion r = i) \<and> res_portno r = port then print_matching (res_conclusion r) r flags else ([], flags))"
    for i port by (intro ext) auto
  then show ?thesis unfolding selected_def[abs_def] by (simp only: print_loop_filter print_loop_nested)
qed

text \<open>
  The report has for every address the open ports under their header, then the others under theirs, and no header without a record.
\<close>

lemma print_results_parts:
  "print_results st = concat (map (\<lambda>ip. ''IP address: '' @ cstr ip @ nl @ report_part open_header (selected st ip 0) @
     report_part closed_header (concat (map (selected st ip) [1, 2, 3, 4, 5])) @ nl) (ip_list st))"
proof -
  have "fst (print_loop (\<lambda>r. print_matching (res_conclusion r) r) (concat (map (selected st ip) [0, 1, 2, 3, 4, 5])) (True, True)) =
      report_part open_header (selected st ip 0) @ report_part closed_header (concat (map (selected st ip) [1, 2, 3, 4, 5]))" for ip
  proof -
    have "\<forall>r \<in> set (selected st ip 0). res_conclusion r = 0" "\<forall>r \<in> set (concat (map (selected st ip) [1, 2, 3, 4, 5])). res_conclusion r \<noteq> 0"
      by (auto dest: selected_conclusion)
    from print_two_parts[OF this] show ?thesis by simp
  qed
  then show ?thesis unfolding print_results_def print_loops_flat by simp
qed

lemma mset_by_key:
  assumes "distinct ks" "\<And>k. k \<in> set ks \<Longrightarrow> mset (g k) = filter_mset (\<lambda>r. P r \<and> f r = k) M"
  shows "mset (concat (map g ks)) = filter_mset (\<lambda>r. P r \<and> f r \<in> set ks) M"
  using assms
proof (induction ks)
  case (Cons k ks)
  have "filter_mset (\<lambda>r. P r \<and> f r = k) M + filter_mset (\<lambda>r. P r \<and> f r \<in> set ks) M = filter_mset (\<lambda>r. P r \<and> f r \<in> set (k # ks)) M"
    using Cons.prems(1) by (induction M) auto
  then show ?case using Cons by simp
qed simp

lemma printed_records:
  assumes "distinct (port_list st)"
  shows "mset (printed st ip) =
    {#r \<in># mset (result_masterlist st). cstr (res_ip r) = cstr ip \<and> res_portno r \<in> set (port_list st) \<and> 0 \<le> res_conclusion r \<and> res_conclusion r \<le> 5#}"
proof -
  let ?P = "\<lambda>r. cstr ip = cstr (res_ip r) \<and> res_portno r \<in> set (port_list st)"
  have "mset (selected st ip i) = filter_mset (\<lambda>r. ?P r \<and> res_conclusion r = i) (mset (result_masterlist st))" for i
  proof -
    have "mset (selected st ip i) = filter_mset (\<lambda>r. (cstr ip = cstr (res_ip r) \<and> res_conclusion r = i) \<and> res_portno r \<in> set (port_list st)) (mset (result_masterlist st))"
      unfolding selected_def using assms by (intro mset_by_key) simp_all
    also have "\<dots> = filter_mset (\<lambda>r. ?P r \<and> res_conclusion r = i) (mset (result_masterlist st))" by (rule filter_mset_cong) auto
    finally show ?thesis .
  qed
  then have "mset (printed st ip) = filter_mset (\<lambda>r. ?P r \<and> res_conclusion r \<in> set [0, 1, 2, 3, 4, 5]) (mset (result_masterlist st))"
    unfolding printed_def by (intro mset_by_key) simp_all
  also have "\<dots> = {#r \<in># mset (result_masterlist st). cstr (res_ip r) = cstr ip \<and> res_portno r \<in> set (port_list st) \<and> 0 \<le> res_conclusion r \<and> res_conclusion r \<le> 5#}"
    by (rule filter_mset_cong) auto
  finally show ?thesis .
qed

text \<open>The conclusion of a record always begins in column 100 of its line.\<close>

definition last_line :: "string \<Rightarrow> string" where
  "last_line s = rev (takeWhile (\<lambda>c. c \<noteq> CHR 0x0A) (rev s))"

lemma last_line_append: "last_line (s @ t) = (if CHR 0x0A \<in> set t then last_line t else last_line s @ t)"
proof (cases "CHR 0x0A \<in> set t")
  case False
  then have "takeWhile (\<lambda>c. c \<noteq> CHR 0x0A) (rev t @ rev s) = rev t @ takeWhile (\<lambda>c. c \<noteq> CHR 0x0A) (rev s)" by (intro takeWhile_append2) auto
  then show ?thesis using False by (simp add: last_line_def)
qed (simp add: last_line_def takeWhile_append1)

lemma last_line_nl: "last_line (nl @ replicate 40 CHR '' '') = replicate 40 CHR '' ''"
  by (subst last_line_append) (simp add: last_line_def nl_def)

lemma scan_entry_one_line: "i < 6 \<Longrightarrow> CHR 0x0A \<notin> set (scan_entry i v)"
proof -
  assume "i < 6"
  then have "i \<in> {0, 1, 2, 3, 4, 5}" by auto
  then show ?thesis by (auto simp: scan_entry_def verdict_def)
qed

lemma print_entries_column:
  assumes "print_loop (entry_step rs) is ret = (out, ret')" "\<forall>i \<in> set is. i < 6" "length (last_line s) = 40 + ret" "ret < 50"
  shows "length (last_line (s @ out)) = 40 + ret' \<and> ret' < 50"
  using assms
proof (induction "is" arbitrary: s ret out)
  case (Cons i "is")
  let ?t = "scan_entry i (rs ! i)"
  have t: "CHR 0x0A \<notin> set ?t" using Cons.prems(2) scan_entry_one_line by simp
  obtain o1 r1 o2 where e: "entry_step rs i ret = (o1, r1)" "print_loop (entry_step rs) is r1 = (o2, ret')" "out = o1 @ o2"
    using Cons.prems(1) by (auto split: prod.splits)
  have nlin: "CHR 0x0A \<in> set (nl @ replicate 40 CHR '' '')" by (simp add: nl_def)
  have "length (last_line (s @ o1)) = 40 + r1 \<and> r1 < 50"
  proof (cases "50 \<le> ret + length ?t")
    case True
    then have "o1 = ?t @ nl @ replicate 40 CHR '' ''" "r1 = 0" using e(1) by (simp_all add: entry_step_def Let_def)
    then show ?thesis using last_line_append[of "s @ ?t" "nl @ replicate 40 CHR '' ''"] nlin last_line_nl by simp
  next
    case False
    then have "o1 = ?t" "r1 = ret + length ?t" using e(1) by (auto simp: entry_step_def Let_def)
    then show ?thesis using t False Cons.prems(3) by (simp add: last_line_append)
  qed
  then show ?case using Cons.IH[OF e(2), of "s @ o1"] Cons.prems(2) e(3) by simp
qed simp

lemma conclusion_column:
  assumes "length (dec_int (res_portno r)) \<le> 10" "CHR 0x0A \<notin> set (dec_int (res_portno r))" "CHR 0x0A \<notin> set (cstr (res_service r))"
  shows "\<exists>body. print_record_t r = body @ conclusion_text (res_conclusion r) @ nl \<and> length (last_line body) = 100"
proof -
  let ?s = "pad 10 (dec_int (res_portno r)) @ pad 30 (take 30 (cstr (res_service r)))"
  obtain out ret where o: "print_loop (entry_step (res_result r)) [0..<6] 0 = (out, ret)" by fastforce
  have "CHR 0x0A \<notin> set ?s" using assms(2,3) by (auto simp: pad_def dest: in_set_takeD)
  then have "last_line ?s = ?s" using last_line_append[of "[]" ?s] by (simp add: last_line_def)
  then have "length (last_line (?s @ out)) = 40 + ret \<and> ret < 50" using assms(1) by (intro print_entries_column[OF o]) simp_all
  moreover have "last_line ((?s @ out) @ replicate (60 - ret) CHR '' '') = last_line (?s @ out) @ replicate (60 - ret) CHR '' ''"
    by (subst last_line_append) auto
  ultimately have "length (last_line ((?s @ out) @ replicate (60 - ret) CHR '' '')) = 100" by simp
  moreover have "print_record_t r = ((?s @ out) @ replicate (60 - ret) CHR '' '') @ conclusion_text (res_conclusion r) @ nl"
    using o by (simp add: print_record_t_def)
  ultimately show ?thesis by blast
qed

section \<open>The command line leaves the jobs and the results alone\<close>

definition same_lists :: "ps_state \<Rightarrow> ps_state \<Rightarrow> bool" where
  "same_lists st st' \<longleftrightarrow> job_masterlist st' = job_masterlist st \<and> job_masterlist_count st' = job_masterlist_count st \<and>
     result_masterlist st' = result_masterlist st \<and> result_list_count st' = result_list_count st"

lemma same_lists_trans: "same_lists a b \<Longrightarrow> same_lists b c \<Longrightarrow> same_lists a c"
  by (simp add: same_lists_def)

lemma same_lists_refl [simp]: "same_lists st st"
  by (simp add: same_lists_def)

lemma ps_bind_PsRun: "ps_bind r f = PsRun b \<longleftrightarrow> (\<exists>a. r = PsRun a \<and> f a = PsRun b)"
  by (cases r) auto

lemma ps_defined_PsRun: "ps_defined r = PsRun a \<longleftrightarrow> r = Some a"
  by (simp add: ps_defined_def split: option.split)

lemma same_lists_fold: "(\<And>x st. same_lists st (f x st)) \<Longrightarrow> same_lists st (fold f xs st)"
proof (induction xs arbitrary: st)
  case (Cons x xs)
  show ?case using same_lists_trans[OF Cons.prems[of st x] Cons.IH[OF Cons.prems, of "f x st"]] by simp
qed simp

lemma push_same_lists [simp]:
  "same_lists st (push_ip resolve name st)" "same_lists st (push_port p st)" "same_lists st (push_host resolve host i st)"
  by (simp_all add: push_host_def push_ip_def push_port_def same_lists_def Let_def split: option.split)

lemma get_ports_range_same: "get_ports_range word st = PsRun st' \<Longrightarrow> same_lists st st'"
  by (auto simp: get_ports_range_def ps_bind_PsRun intro!: same_lists_fold split: option.splits if_splits)

lemma ports_loop_same: "ports_loop ws st = PsRun st' \<Longrightarrow> same_lists st st'"
proof (induction ws arbitrary: st)
  case (Cons w ws)
  then show ?case by (auto simp: ps_bind_PsRun split: if_splits intro: same_lists_trans[OF get_ports_range_same] same_lists_trans[OF push_same_lists(2)])
qed simp

lemma get_ipAdresses_same: "get_ipAdresses resolve ip pfx st = PsRun st' \<Longrightarrow> same_lists st st'"
  by (auto simp: get_ipAdresses_def ps_bind_PsRun Let_def intro!: same_lists_fold)

lemma ip_lines_same: "same_lists st (ip_lines resolve s st)"
proof (induction resolve s st rule: ip_lines.induct)
  case (1 resolve s st)
  show ?case
  proof (cases "getline s")
    case None
    then show ?thesis by (subst ip_lines.simps) simp
  next
    case (Some lr)
    obtain line rest where l: "getline s = Some (line, rest)" using Some by (cases lr) simp
    let ?name = "cstr (takeWhile (\<lambda>c. c \<noteq> CHR 0x0A) line)"
    let ?st = "if resolve ?name \<noteq> None then push_ip resolve ?name st else st"
    have "same_lists ?st (ip_lines resolve rest ?st)" using 1[OF l refl refl] .
    moreover have "same_lists st ?st" by simp
    moreover have "ip_lines resolve s st = ip_lines resolve rest ?st" using l by (subst ip_lines.simps) (simp only: option.case prod.case Let_def)
    ultimately show ?thesis by (simp only: same_lists_trans)
  qed
qed

lemma parse_option_same: "parse_option resolve fs opt (loc, st) = PsRun (loc', st') \<Longrightarrow> same_lists st st'"
proof (cases opt)
  case (OptPrefix a)
  then show "parse_option resolve fs opt (loc, st) = PsRun (loc', st') \<Longrightarrow> ?thesis"
    by (auto simp: prefix_option_def ps_bind_PsRun dest: get_ipAdresses_same split: if_splits list.splits)
next
  case (OptPorts a)
  then show "parse_option resolve fs opt (loc, st) = PsRun (loc', st') \<Longrightarrow> ?thesis"
    by (auto simp: get_ports_def ps_bind_PsRun dest: ports_loop_same split: if_splits)
next
  case (OptFile a)
  then show "parse_option resolve fs opt (loc, st) = PsRun (loc', st') \<Longrightarrow> ?thesis"
    by (auto simp: read_ipAddresses_def ip_lines_same)
qed (auto simp: ps_bind_PsRun same_lists_def[of _ "_ \<lparr> no_of_threads := _ \<rparr>"] same_lists_def[of _ "_ \<lparr> scan_flags := _ \<rparr>"] split: if_splits)

lemma parse_options_same: "parse_options resolve fs opts (loc, st) = PsRun (loc', st') \<Longrightarrow> same_lists st st'"
proof (induction opts arbitrary: loc st)
  case (Cons opt opts)
  then show ?case by (auto simp: ps_bind_PsRun intro: same_lists_trans[OF parse_option_same])
qed simp

lemma parse_args_same: "parse_args resolve fs stack opts rest st = PsRun st' \<Longrightarrow> same_lists st st'"
proof -
  assume "parse_args resolve fs stack opts rest st = PsRun st'"
  then obtain loc st1 st2 fl where s: "parse_options resolve fs opts
        (\<lparr>port_args = ''1-1024'', scan_args = cstr stack, prefix_len = 0\<rparr>, st\<lparr>scan_flags := replicate 6 1, no_of_threads := 0\<rparr>) = PsRun (loc, st1)"
      "(if port_list st1 = [] then get_ports_range (port_args loc) st1 else PsRun st1) = PsRun st2" "st' = st2\<lparr>scan_flags := fl\<rparr>"
    by (auto simp: parse_args_def ps_bind_PsRun Let_def split: if_splits)
  have "same_lists st st1" using parse_options_same[OF s(1)] by (simp add: same_lists_def)
  moreover have "same_lists st1 st2" using s(2) by (auto dest: get_ports_range_same split: if_splits)
  ultimately show ?thesis using s(3) by (simp add: same_lists_def)
qed

section \<open>The program from its command line to its report\<close>

definition report :: "ps_state \<Rightarrow> string" where
  "report st = concat (map (\<lambda>ip. ''IP address: '' @ cstr ip @ nl @ report_part open_header (filter (\<lambda>r. res_conclusion r = 0) (printed st ip)) @
     report_part closed_header (filter (\<lambda>r. res_conclusion r \<noteq> 0) (printed st ip)) @ nl) (ip_list st))"

lemma filter_selected:
  "filter (\<lambda>r. res_conclusion r = k) (selected st ip i) = (if i = k then selected st ip i else [])"
  "filter (\<lambda>r. res_conclusion r \<noteq> k) (selected st ip i) = (if i = k then [] else selected st ip i)"
  by (auto simp: filter_id_conv filter_empty_conv dest: selected_conclusion)

lemma print_results_report: "print_results st = report st"
  unfolding print_results_parts report_def printed_def by (simp add: filter_selected)

lemma print_configurations_defined: "ip_list st \<noteq> [] \<Longrightarrow> \<exists>conf. print_configurations st = Some conf"
  unfolding print_configurations_def Let_def by (cases "ip_list st") simp_all


definition sample_main :: main_env where
  "sample_main = \<lparr>env_resolve = Some, env_fs = \<lparr>fs_files = Map.empty, fs_denied = \<lambda>_. False\<rparr>, env_stack = [],
     env_opts = [OptIp ''10.0.0.7'', OptPorts ''22,23'', OptScan ''SYN''], env_rest = [],
     env_ifs = [(''lo'', InetAddr [127, 0, 0, 1]), (''eth0'', InetAddr [10, 0, 0, 1])], env_serv = \<lambda>_ _. None, env_inet = \<lambda>_. 7,
     env_runs = map (fst \<circ> snd) sample_cases, env_threads = \<lambda>_ _ _. PsUndefined, env_start = (5, 900000), env_end = (8, 100000)\<rparr>"


end
