(* ===== verification/Echo_Servers.thy ===== *)
theory Echo_Servers
  imports C_Prelude
begin

text \<open>
  The echo servers of \<^verbatim>\<open>demo/select\<close>, \<^verbatim>\<open>demo/poll\<close> and \<^verbatim>\<open>demo/epoll\<close>. What the kernel answers in one round of the main loop is an argument of the round: which descriptors are
  ready, what \<^verbatim>\<open>accept\<close> and \<^verbatim>\<open>read\<close> return, and how much \<^verbatim>\<open>write\<close> takes.
\<close>

section \<open>Tables of descriptors\<close>

datatype read_result = ReadBytes string | ReadEnd | ReadError

text \<open>A connection is entered into the first slot with a negative descriptor.\<close>

definition store_fd :: "int \<Rightarrow> int list \<Rightarrow> (nat \<times> int list) option" where
  "store_fd fd fds = map_option (\<lambda>i. (i, fds[i := fd])) (first_index (\<lambda>x. x < 0) fds)"

text \<open>The connections in a table.\<close>

definition connected :: "int list \<Rightarrow> int set" where
  "connected fds = {x \<in> set fds. 0 \<le> x}"

lemma store_fd_SomeD:
  assumes "store_fd fd fds = Some (i, fds')" "\<forall>j. n \<le> j \<and> j < length fds \<longrightarrow> fds ! j < 0" "n < length fds"
  shows "i \<le> n \<and> fds' = fds[i := fd] \<and> fds ! i < 0 \<and> length fds' = length fds"
proof -
  have i: "first_index (\<lambda>x. x < 0) fds = Some i" "fds' = fds[i := fd]" using assms(1) by (auto simp: store_fd_def)
  then have "fds ! i < 0" "\<forall>j < i. \<not> fds ! j < 0" "i < length fds" using first_index_SomeD[OF i(1)] by auto
  moreover have "\<not> n < i" using calculation assms(2,3) by blast
  ultimately show ?thesis using i by auto
qed

lemma store_fd_room: "\<forall>j. n \<le> j \<and> j < length fds \<longrightarrow> fds ! j < 0 \<Longrightarrow> n < length fds \<Longrightarrow> \<exists>i fds'. store_fd fd fds = Some (i, fds')"
  by (cases "first_index (\<lambda>x. x < 0) fds") (auto simp: store_fd_def first_index_None)

lemma connected_store:
  assumes "fds ! i < 0" "i < length fds" "0 \<le> fd"
  shows "connected (fds[i := fd]) = insert fd (connected fds)"
proof -
  have "x \<in> set (fds[i := fd])" if "x \<in> set fds" "0 \<le> x" for x
    using that assms(1,2) by (metis in_set_conv_nth length_list_update not_less nth_list_update_neq)
  then show ?thesis using assms(2,3) by (auto simp: connected_def set_update_memI dest: set_update_subset_insert[THEN subsetD])
qed

section \<open>The listening socket\<close>

text \<open>
  \<^verbatim>\<open>socket_bind\<close> of the poll and the epoll server ends the process on an error; \<^verbatim>\<open>create_server_proc\<close> of the select server returns -1, and leaves the socket open when an option
  or the address cannot be set. The arguments are what the calls return; the second result is the descriptors that nobody knows any more.
\<close>

datatype 'a server_run = ServerExit int | ServerRun 'a

definition socket_bind :: "int \<Rightarrow> int \<Rightarrow> int server_run" where
  "socket_bind listenfd bound = (if listenfd = -1 then ServerExit 1 else if bound = -1 then ServerExit 1 else ServerRun listenfd)"

definition create_server_proc :: "int \<Rightarrow> int \<Rightarrow> int \<Rightarrow> int \<times> int list" where
  "create_server_proc fd reuse bound =
     (if fd = -1 then (-1, []) else if reuse = -1 then (-1, [fd]) else if bound = -1 then (-1, [fd]) else (fd, []))"

section \<open>With select\<close>

definition SIZE :: nat where
  "SIZE = 10"

definition MAXLINE :: nat where
  "MAXLINE = 1024"

text \<open>The context of the server, and what has been sent and closed.\<close>

record server_context_st =
  cli_cnt :: int
  clifds :: "int list"
  allfds :: "int set"
  maxfd :: int
  srv_out :: "(int \<times> string) list"
  srv_closed :: "int list"

definition server_init :: "bool \<Rightarrow> server_context_st option" where
  "server_init mem_ok =
     (if mem_ok then Some \<lparr>cli_cnt = 0, clifds = replicate SIZE (-1), allfds = {}, maxfd = 0, srv_out = [], srv_closed = []\<rparr> else None)"

text \<open>\<^verbatim>\<open>accept\<close> until it is not interrupted; -1 is a failure. A connection for which there is no slot is left open.\<close>

fun accept_retry :: "int option list \<Rightarrow> int" where
  "accept_retry [] = -1"
| "accept_retry (None # as) = accept_retry as"
| "accept_retry (Some fd # as) = fd"

definition accept_client_proc :: "int option list \<Rightarrow> server_context_st \<Rightarrow> server_context_st" where
  "accept_client_proc accepts c =
     (let clifd = accept_retry accepts in
      if clifd = -1 then c
      else case store_fd clifd (clifds c) of
             None \<Rightarrow> c
           | Some (i, fds) \<Rightarrow> c\<lparr>clifds := fds, cli_cnt := cli_cnt c + 1\<rparr>)"

text \<open>
  \<^verbatim>\<open>recv_client_msg\<close> over the indices that are left; \<^verbatim>\<open>readfds\<close> is the set of the context. The buffer is not cleared between two clients. An index outside of the array,
  and a message without a zero byte in the 1024 bytes, are undefined.
\<close>

fun recv_loop :: "(int \<Rightarrow> read_result) \<Rightarrow> nat list \<Rightarrow> string \<Rightarrow> server_context_st \<Rightarrow> server_context_st option" where
  "recv_loop reads [] buf c = Some c"
| "recv_loop reads (i # is) buf c =
     (if i \<ge> SIZE then None
      else let clifd = clifds c ! i in
           if clifd < 0 \<or> clifd \<notin> allfds c then recv_loop reads is buf c
           else case reads clifd of
                  ReadBytes s \<Rightarrow>
                    let buf = put_bytes buf 0 s in
                    if MAXLINE < length s \<or> length (cstr buf) \<ge> MAXLINE then None
                    else recv_loop reads is buf (c\<lparr>srv_out := srv_out c @ [(clifd, cstr buf @ [NUL])]\<rparr>)
                | _ \<Rightarrow> recv_loop reads is buf (c\<lparr>allfds := allfds c - {clifd}, srv_closed := srv_closed c @ [clifd], clifds := (clifds c)[i := -1]\<rparr>))"

definition recv_client_msg :: "(int \<Rightarrow> read_result) \<Rightarrow> server_context_st \<Rightarrow> server_context_st option" where
  "recv_client_msg reads c = recv_loop reads [0..<nat (cli_cnt c + 1)] [] c"

datatype select_result = SelError | SelTimeout | SelReady "int set"

text \<open>The descriptors that are watched: the first \<^verbatim>\<open>cli_cnt\<close> of the array.\<close>

definition watch :: "int \<Rightarrow> server_context_st \<Rightarrow> server_context_st option" where
  "watch srvfd c =
     (if cli_cnt c > int SIZE then None
      else let fds = take (nat (cli_cnt c)) (clifds c) in
           Some (c\<lparr>allfds := insert srvfd {x \<in> set fds. x \<noteq> -1}, maxfd := fold max fds srvfd\<rparr>))"

text \<open>One round of \<^verbatim>\<open>handle_client_proc\<close>; the flag says whether the loop goes on. \<^verbatim>\<open>select\<close> leaves the ready ones of the watched descriptors.\<close>

definition handle_client_proc ::
  "int \<Rightarrow> select_result \<Rightarrow> int option list \<Rightarrow> (int \<Rightarrow> read_result) \<Rightarrow> server_context_st \<Rightarrow> (bool \<times> server_context_st) option" where
  "handle_client_proc srvfd sel accepts reads c = do {
     c \<leftarrow> watch srvfd c;
     case sel of
       SelError \<Rightarrow> Some (False, c)
     | SelTimeout \<Rightarrow> Some (True, c)
     | SelReady ready \<Rightarrow>
         let c = c\<lparr>allfds := allfds c \<inter> ready\<rparr> in
         if srvfd \<in> allfds c then Some (True, accept_client_proc accepts c) else map_option (Pair True) (recv_client_msg reads c)
   }"

section \<open>With poll\<close>

definition OPEN_MAX :: nat where
  "OPEN_MAX = 1000"

text \<open>The array of descriptors with the listening one in front, the largest index in use, what was read and written, and what was closed.\<close>

record poll_server =
  clientfds :: "int list"
  maxi :: nat
  poll_in :: "(int \<times> string) list"
  poll_out :: "(int \<times> string) list"
  poll_closed :: "int list"

definition poll_start :: "int \<Rightarrow> poll_server" where
  "poll_start listenfd = \<lparr>clientfds = listenfd # replicate (OPEN_MAX - 1) (-1), maxi = 0, poll_in = [], poll_out = [], poll_closed = []\<rparr>"

text \<open>\<^verbatim>\<open>handle_connection\<close>: \<open>ready\<close> is \<^verbatim>\<open>revents\<close> of a slot. Writing -1 bytes after a failed \<^verbatim>\<open>read\<close> is undefined.\<close>

fun connection_loop :: "(nat \<Rightarrow> bool) \<Rightarrow> (int \<Rightarrow> read_result) \<Rightarrow> (int \<Rightarrow> nat) \<Rightarrow> nat list \<Rightarrow> poll_server \<Rightarrow> poll_server option" where
  "connection_loop ready reads writes [] s = Some s"
| "connection_loop ready reads writes (i # is) s =
     (let fd = clientfds s ! i in
      if fd < 0 \<or> \<not> ready i then connection_loop ready reads writes is s
      else case reads fd of
             ReadEnd \<Rightarrow> connection_loop ready reads writes is (s\<lparr>clientfds := (clientfds s)[i := -1], poll_closed := poll_closed s @ [fd]\<rparr>)
           | ReadError \<Rightarrow> None
           | ReadBytes b \<Rightarrow>
               if MAXLINE < length b then None
               else connection_loop ready reads writes is
                      (s\<lparr>poll_in := poll_in s @ [(fd, b)], poll_out := poll_out s @ [(fd, take (writes fd) b)]\<rparr>))"

definition handle_connection :: "(nat \<Rightarrow> bool) \<Rightarrow> (int \<Rightarrow> read_result) \<Rightarrow> (int \<Rightarrow> nat) \<Rightarrow> poll_server \<Rightarrow> poll_server option" where
  "handle_connection ready reads writes s = connection_loop ready reads writes [1..<maxi s + 1] s"

datatype accept_result = AcceptFd int | AcceptInterrupted | AcceptFails

text \<open>What the kernel answers in one round: the result of \<^verbatim>\<open>poll\<close>, the slots that are ready, the new connection, the data.\<close>

record poll_round =
  nready :: int
  revents :: "nat \<Rightarrow> bool"
  new_client :: accept_result
  new_data :: "int \<Rightarrow> read_result"
  taken :: "int \<Rightarrow> nat"

definition do_poll :: "poll_round \<Rightarrow> poll_server \<Rightarrow> poll_server server_run option" where
  "do_poll r s =
     (if nready r = -1 then Some (ServerExit 1)
      else let clients = (\<lambda>s. map_option ServerRun (handle_connection (revents r) (new_data r) (taken r) s)) in
           if revents r 0
           then case new_client r of
                  AcceptInterrupted \<Rightarrow> Some (ServerRun s)
                | AcceptFails \<Rightarrow> Some (ServerExit 1)
                | AcceptFd connfd \<Rightarrow> (case store_fd connfd (tl (clientfds s)) of
                      None \<Rightarrow> Some (ServerExit 1)
                    | Some (i, fds) \<Rightarrow>
                        let s = s\<lparr>clientfds := hd (clientfds s) # fds, maxi := max (i + 1) (maxi s)\<rparr> in
                        if nready r - 1 \<le> 0 then Some (ServerRun s) else clients s)
           else clients s)"

section \<open>With epoll\<close>

datatype ep_state = EPOLLIN | EPOLLOUT

definition MAXSIZE :: nat where
  "MAXSIZE = 1024"

text \<open>The interest list of the kernel, the one buffer of the server, and what was read, written and closed.\<close>

record epoll_server =
  interest :: "int \<Rightarrow> ep_state option"
  ep_buf :: string
  ep_in :: "(int \<times> string) list"
  ep_out :: "(int \<times> string) list"
  ep_closed :: "int list"

text \<open>\<^verbatim>\<open>EPOLL_CTL_ADD\<close> of a descriptor that is there and \<^verbatim>\<open>EPOLL_CTL_MOD\<close> of one that is not have no effect; their results are ignored.\<close>

definition add_event :: "int \<Rightarrow> ep_state \<Rightarrow> epoll_server \<Rightarrow> epoll_server" where
  "add_event fd st s = (if interest s fd = None then s\<lparr>interest := (interest s)(fd \<mapsto> st)\<rparr> else s)"

definition modify_event :: "int \<Rightarrow> ep_state \<Rightarrow> epoll_server \<Rightarrow> epoll_server" where
  "modify_event fd st s = (if interest s fd = None then s else s\<lparr>interest := (interest s)(fd \<mapsto> st)\<rparr>)"

text \<open>\<^verbatim>\<open>do_epoll\<close> in front of its loop.\<close>

definition epoll_start :: "int \<Rightarrow> epoll_server" where
  "epoll_start listenfd = add_event listenfd EPOLLIN \<lparr>interest = \<lambda>_. None, ep_buf = [], ep_in = [], ep_out = [], ep_closed = []\<rparr>"

text \<open>\<^verbatim>\<open>close\<close> takes the descriptor off the interest list, so that \<^verbatim>\<open>delete_event\<close> behind it finds nothing.\<close>

definition delete_event :: "int \<Rightarrow> epoll_server \<Rightarrow> epoll_server" where
  "delete_event fd s = s\<lparr>interest := (interest s)(fd := None)\<rparr>"

definition close_fd :: "int \<Rightarrow> epoll_server \<Rightarrow> epoll_server" where
  "close_fd fd s = s\<lparr>interest := (interest s)(fd := None), ep_closed := ep_closed s @ [fd]\<rparr>"

definition handle_accpet :: "int \<Rightarrow> epoll_server \<Rightarrow> epoll_server" where
  "handle_accpet clifd s = (if clifd = -1 then s else add_event clifd EPOLLIN s)"

text \<open>The message is printed as a string: without a zero byte in the buffer that is undefined.\<close>

definition do_read :: "int \<Rightarrow> read_result \<Rightarrow> epoll_server \<Rightarrow> epoll_server option" where
  "do_read fd res s =
     (case res of
        ReadBytes b \<Rightarrow>
          let buf = put_bytes (ep_buf s) 0 b in
          if MAXSIZE < length b \<or> length (cstr buf) \<ge> MAXSIZE then None
          else Some (modify_event fd EPOLLOUT (s\<lparr>ep_buf := buf, ep_in := ep_in s @ [(fd, b)]\<rparr>))
      | _ \<Rightarrow> Some (delete_event fd (close_fd fd s)))"

definition do_write :: "int \<Rightarrow> int \<Rightarrow> epoll_server \<Rightarrow> epoll_server" where
  "do_write fd nwrite s =
     (let s = (if nwrite = -1 then delete_event fd (close_fd fd s)
               else modify_event fd EPOLLIN (s\<lparr>ep_out := ep_out s @ [(fd, take (nat nwrite) (cstr (ep_buf s)))]\<rparr>))
      in s\<lparr>ep_buf := []\<rparr>)"

text \<open>One event with what the kernel answers to the call it leads to.\<close>

record ep_event =
  ev_fd :: int
  ev_in :: bool
  ev_out :: bool
  ev_accept :: int
  ev_read :: read_result
  ev_write :: int

fun handle_events :: "int \<Rightarrow> ep_event list \<Rightarrow> epoll_server \<Rightarrow> epoll_server option" where
  "handle_events listenfd [] s = Some s"
| "handle_events listenfd (e # es) s = do {
     s \<leftarrow> (if ev_fd e = listenfd \<and> ev_in e then Some (handle_accpet (ev_accept e) s)
           else if ev_in e then do_read (ev_fd e) (ev_read e) s
           else if ev_out e then Some (do_write (ev_fd e) (ev_write e) s)
           else Some s);
     handle_events listenfd es s
   }"

section \<open>The poll server echoes\<close>

text \<open>
  What is assumed of the kernel in a round: a new connection has a descriptor that is not in use, a ready descriptor can be read, and everything is written.
\<close>

definition poll_round_ok :: "poll_round \<Rightarrow> poll_server \<Rightarrow> bool" where
  "poll_round_ok r s \<longleftrightarrow>
     (\<forall>fd. case new_data r fd of ReadBytes b \<Rightarrow> length b \<le> MAXLINE \<and> length b \<le> taken r fd | ReadEnd \<Rightarrow> True | ReadError \<Rightarrow> False) \<and>
     (\<forall>fd. new_client r = AcceptFd fd \<longrightarrow> 0 \<le> fd \<and> fd \<notin> connected (tl (clientfds s)))"

definition poll_ok :: "poll_server \<Rightarrow> bool" where
  "poll_ok s \<longleftrightarrow> length (clientfds s) = OPEN_MAX \<and> maxi s < OPEN_MAX \<and> (\<forall>j. maxi s < j \<and> j < OPEN_MAX \<longrightarrow> clientfds s ! j < 0) \<and>
     distinct (filter (\<lambda>x. 0 \<le> x) (tl (clientfds s))) \<and> poll_out s = poll_in s"

inductive poll_reaches :: "int \<Rightarrow> poll_server \<Rightarrow> bool" for listenfd where
  poll_begin: "poll_reaches listenfd (poll_start listenfd)"
| poll_next: "poll_reaches listenfd s \<Longrightarrow> poll_round_ok r s \<Longrightarrow> do_poll r s = Some (ServerRun s') \<Longrightarrow> poll_reaches listenfd s'"

lemma update_negative_mem: "x \<in> set (xs[k := -1]) \<Longrightarrow> 0 \<le> (x :: int) \<Longrightarrow> x \<in> set xs"
  by (auto dest: set_update_subset_insert[THEN subsetD])

lemma filter_update_negative: "distinct (filter (\<lambda>x. 0 \<le> x) xs) \<Longrightarrow> distinct (filter (\<lambda>x. 0 \<le> (x :: int)) (xs[i := -1]))"
proof (induction xs arbitrary: i)
  case (Cons x xs)
  then show ?case by (cases i) (auto dest: update_negative_mem split: if_splits)
qed simp

lemma filter_update_new:
  "distinct (filter (\<lambda>x. 0 \<le> x) xs) \<Longrightarrow> xs ! i < 0 \<Longrightarrow> fd \<notin> connected xs \<Longrightarrow> distinct (filter (\<lambda>x. 0 \<le> (x :: int)) (xs[i := fd]))"
proof (induction xs arbitrary: i)
  case (Cons x xs)
  have "set (filter (\<lambda>x. 0 \<le> x) (xs[k := fd])) \<subseteq> insert fd (set (filter (\<lambda>x. 0 \<le> x) xs))" for k
    by (auto dest: set_update_subset_insert[THEN subsetD])
  then show ?case using Cons by (cases i) (fastforce simp: connected_def)+
qed simp

lemma connection_loop_ok:
  assumes "poll_ok s" "poll_round_ok r s0" "\<forall>i \<in> set is. 1 \<le> i \<and> i < OPEN_MAX"
  shows "\<exists>s'. connection_loop ready (new_data r) (taken r) is s = Some s' \<and> poll_ok s' \<and> maxi s' = maxi s \<and> hd (clientfds s') = hd (clientfds s)"
  using assms
proof (induction "is" arbitrary: s)
  case (Cons i "is")
  let ?fd = "clientfds s ! i"
  show ?case
  proof (cases "?fd < 0 \<or> \<not> ready i")
    case False
    show ?thesis
    proof (cases "new_data r ?fd")
      case (ReadBytes b)
      let ?s = "s\<lparr>poll_in := poll_in s @ [(?fd, b)], poll_out := poll_out s @ [(?fd, take (taken r ?fd) b)]\<rparr>"
      have b: "length b \<le> MAXLINE" "length b \<le> taken r ?fd" using Cons.prems(2) ReadBytes by (auto simp: poll_round_ok_def split: read_result.splits)
      then have "poll_ok ?s" using Cons.prems(1) by (simp add: poll_ok_def)
      then show ?thesis using False ReadBytes b Cons.IH[of ?s] Cons.prems by auto
    next
      case ReadEnd
      let ?s = "s\<lparr>clientfds := (clientfds s)[i := -1], poll_closed := poll_closed s @ [?fd]\<rparr>"
      obtain k where k: "i = Suc k" using Cons.prems(3) by (cases i) auto
      then have tl: "tl ((clientfds s)[i := -1]) = (tl (clientfds s))[k := -1]" "hd ((clientfds s)[i := -1]) = hd (clientfds s)"
        by (cases "clientfds s"; simp)+
      moreover have "i < length (clientfds s)" using Cons.prems(1,3) by (simp add: poll_ok_def)
      ultimately have "poll_ok ?s" using Cons.prems(1) filter_update_negative[of "tl (clientfds s)" k] by (auto simp: poll_ok_def nth_list_update)
      then show ?thesis using False ReadEnd Cons.IH[of ?s] Cons.prems tl(2) by auto
    next
      case ReadError
      then show ?thesis using Cons.prems(2) by (auto simp: poll_round_ok_def split: read_result.splits)
    qed
  qed (use Cons in auto)
qed simp

lemma handle_connection_ok:
  assumes "poll_ok s" "poll_round_ok r s0"
  shows "\<exists>s'. handle_connection ready (new_data r) (taken r) s = Some s' \<and> poll_ok s'"
  using connection_loop_ok[OF assms, of "[1..<maxi s + 1]" ready] assms(1) unfolding handle_connection_def by (auto simp: poll_ok_def)

lemma poll_store_ok:
  assumes "poll_ok s" "poll_round_ok r s" "new_client r = AcceptFd fd" "store_fd fd (tl (clientfds s)) = Some (i, fds)"
  shows "poll_ok (s\<lparr>clientfds := hd (clientfds s) # fds, maxi := max (i + 1) (maxi s)\<rparr>)"
proof -
  have i: "first_index (\<lambda>x. x < 0) (tl (clientfds s)) = Some i" "fds = (tl (clientfds s))[i := fd]" using assms(4) by (auto simp: store_fd_def)
  then have l: "i < length (tl (clientfds s))" "tl (clientfds s) ! i < 0" using first_index_SomeD[OF i(1)] by auto
  have "distinct (filter (\<lambda>x. 0 \<le> x) fds)"
    unfolding i(2) using assms(1-3) l(2) by (intro filter_update_new) (auto simp: poll_ok_def poll_round_ok_def)
  moreover have "(hd (clientfds s) # fds) ! j < 0" if j: "max (i + 1) (maxi s) < j" "j < OPEN_MAX" for j
  proof -
    obtain k where k: "j = Suc k" using j by (cases j) auto
    then have "clientfds s ! j = tl (clientfds s) ! k" using j assms(1) by (simp add: poll_ok_def nth_tl)
    moreover have "clientfds s ! j < 0" using j assms(1) by (simp add: poll_ok_def)
    ultimately show ?thesis using j k i(2) by simp
  qed
  ultimately show ?thesis using assms(1) l(1) i(2) by (auto simp: poll_ok_def OPEN_MAX_def)
qed

lemma do_poll_ok:
  assumes "poll_ok s" "poll_round_ok r s"
  shows "\<exists>res. do_poll r s = Some res \<and> (\<forall>s'. res = ServerRun s' \<longrightarrow> poll_ok s')"
proof (cases "nready r = -1 \<or> \<not> revents r 0")
  case True
  then show ?thesis using handle_connection_ok[OF assms, of "revents r"] by (auto simp: do_poll_def Let_def)
next
  case False
  show ?thesis
  proof (cases "new_client r")
    case (AcceptFd fd)
    show ?thesis
    proof (cases "store_fd fd (tl (clientfds s))")
      case (Some x)
      obtain i fds where x: "x = (i, fds)" by fastforce
      let ?s = "s\<lparr>clientfds := hd (clientfds s) # fds, maxi := max (i + 1) (maxi s)\<rparr>"
      have "poll_ok ?s" using poll_store_ok[OF assms AcceptFd] Some x by simp
      then show ?thesis using False AcceptFd Some x handle_connection_ok[OF _ assms(2), of ?s "revents r"] by (auto simp: do_poll_def Let_def)
    qed (use False AcceptFd in \<open>simp add: do_poll_def\<close>)
  qed (use False assms(1) in \<open>simp_all add: do_poll_def\<close>)
qed

lemma poll_start_ok: "poll_ok (poll_start listenfd)"
  by (auto simp: poll_ok_def poll_start_def OPEN_MAX_def nth_Cons')


definition sample_rounds :: "poll_round list" where
  "sample_rounds =
     [\<lparr>nready = 1, revents = \<lambda>i. i = 0, new_client = AcceptFd 5, new_data = \<lambda>_. ReadEnd, taken = \<lambda>_. 1024\<rparr>,
      \<lparr>nready = 1, revents = \<lambda>i. i = 1, new_client = AcceptFails, new_data = \<lambda>_. ReadBytes ''hi'', taken = \<lambda>_. 1024\<rparr>]"


section \<open>The select server\<close>

text \<open>
  The state while the server works: the count is between the largest slot in use and the size of the array. Messages are strings with their zero byte.
\<close>

definition select_ok :: "server_context_st \<Rightarrow> bool" where
  "select_ok c \<longleftrightarrow> length (clifds c) = SIZE \<and> 0 \<le> cli_cnt c \<and> (\<forall>j. nat (cli_cnt c) \<le> j \<and> j < SIZE \<longrightarrow> clifds c ! j < 0)"

definition messages_ok :: "(int \<Rightarrow> read_result) \<Rightarrow> bool" where
  "messages_ok reads \<longleftrightarrow> (\<forall>fd s. reads fd = ReadBytes s \<longrightarrow> NUL \<in> set s \<and> length s \<le> MAXLINE)"

text \<open>What a client is sent and whether its connection is closed.\<close>

definition answers :: "(int \<Rightarrow> read_result) \<Rightarrow> int set \<Rightarrow> int list \<Rightarrow> (int \<times> string) list" where
  "answers reads ready fds =
     concat (map (\<lambda>fd. if 0 \<le> fd \<and> fd \<in> ready then (case reads fd of ReadBytes s \<Rightarrow> [(fd, cstr s @ [NUL])] | _ \<Rightarrow> []) else []) fds)"

lemma cstr_put_terminated: "NUL \<in> set s \<Longrightarrow> cstr (put_bytes b 0 s) = cstr s \<and> length (cstr s) < length s"
proof -
  assume "NUL \<in> set s"
  then obtain u v where "s = u @ NUL # v" "NUL \<notin> set u" by (meson split_list_first)
  then show ?thesis by (simp add: put_bytes_def cstr_no_NUL)
qed

lemma answers_other: "fd \<notin> {x \<in> set fds. 0 \<le> x} \<Longrightarrow> answers reads (S - {fd}) fds = answers reads S fds"
  by (induction fds) (auto simp: answers_def)

lemma recv_loop_echo:
  assumes "messages_ok reads" "length (clifds c) = SIZE" "distinct is" "list_all (\<lambda>i. i < SIZE) is"
    and "distinct (filter (\<lambda>x. 0 \<le> x) (map ((!) (clifds c)) is))"
  shows "\<exists>c'. recv_loop reads is buf c = Some c' \<and> cli_cnt c' = cli_cnt c \<and> length (clifds c') = SIZE \<and>
    srv_out c' = srv_out c @ answers reads (allfds c) (map ((!) (clifds c)) is) \<and> (\<forall>j. clifds c ! j < 0 \<longrightarrow> clifds c' ! j < 0)"
  using assms
proof (induction "is" arbitrary: c buf)
  case (Cons i "is")
  let ?fd = "clifds c ! i"
  have i: "i < SIZE" "i \<notin> set is" "i < length (clifds c)" using Cons.prems by auto
  show ?case
  proof (cases "?fd < 0 \<or> ?fd \<notin> allfds c")
    case True
    then show ?thesis using Cons.IH[of c buf] Cons.prems i by (auto simp: answers_def Let_def split: if_splits)
  next
    case False
    then have out: "?fd \<notin> {x \<in> set (map ((!) (clifds c)) is). 0 \<le> x}" using Cons.prems(5) by auto
    let ?d = "c\<lparr>allfds := allfds c - {?fd}, srv_closed := srv_closed c @ [?fd], clifds := (clifds c)[i := -1]\<rparr>"
    have slots: "map ((!) (clifds ?d)) is = map ((!) (clifds c)) is" using i(2) by (auto intro!: nth_list_update_neq)
    have "\<exists>c'. recv_loop reads is buf ?d = Some c' \<and> cli_cnt c' = cli_cnt ?d \<and> length (clifds c') = SIZE \<and>
        srv_out c' = srv_out ?d @ answers reads (allfds ?d) (map ((!) (clifds ?d)) is) \<and> (\<forall>j. clifds ?d ! j < 0 \<longrightarrow> clifds c' ! j < 0)"
    proof (rule Cons.IH[OF Cons.prems(1)])
      show "distinct (filter (\<lambda>x. 0 \<le> x) (map ((!) (clifds ?d)) is))" unfolding slots using Cons.prems(5) by (auto split: if_splits)
    qed (use Cons.prems in auto)
    moreover have "clifds ?d ! j < 0" if "clifds c ! j < 0" for j using that i(3) by (cases "j = i") auto
    moreover have "answers reads (allfds ?d) (map ((!) (clifds ?d)) is) = answers reads (allfds c) (map ((!) (clifds c)) is)"
      unfolding slots using answers_other[OF out, of reads "allfds c"] by simp
    ultimately have closing: "\<exists>c'. recv_loop reads is buf ?d = Some c' \<and> cli_cnt c' = cli_cnt c \<and> length (clifds c') = SIZE \<and>
        srv_out c' = srv_out c @ answers reads (allfds c) (map ((!) (clifds c)) is) \<and> (\<forall>j. clifds c ! j < 0 \<longrightarrow> clifds c' ! j < 0)"
      by fastforce
    have next_slot: "recv_loop reads (i # is) buf c = recv_loop reads is buf ?d" if "\<forall>b. reads ?fd \<noteq> ReadBytes b"
      using that False i by (simp add: Let_def split: read_result.split)
    have here: "answers reads (allfds c) (map ((!) (clifds c)) (i # is)) =
        (case reads ?fd of ReadBytes b \<Rightarrow> [(?fd, cstr b @ [NUL])] | _ \<Rightarrow> []) @ answers reads (allfds c) (map ((!) (clifds c)) is)"
      using False by (simp add: answers_def)
    show ?thesis
    proof (cases "reads ?fd")
      case (ReadBytes b)
      have b: "cstr (put_bytes buf 0 b) = cstr b" "length (cstr b) < MAXLINE" "length b \<le> MAXLINE"
      proof -
        have "NUL \<in> set b" "length b \<le> MAXLINE" using Cons.prems(1) ReadBytes unfolding messages_ok_def by blast+
        then show "cstr (put_bytes buf 0 b) = cstr b" "length (cstr b) < MAXLINE" "length b \<le> MAXLINE" using cstr_put_terminated[of b buf] by auto
      qed
      let ?c = "c\<lparr>srv_out := srv_out c @ [(?fd, cstr b @ [NUL])]\<rparr>"
      have "recv_loop reads (i # is) buf c = recv_loop reads is (put_bytes buf 0 b) ?c"
        using False ReadBytes b i by (simp add: Let_def)
      moreover have "distinct (filter (\<lambda>x. 0 \<le> x) (map ((!) (clifds ?c)) is))" using Cons.prems(5) by (simp split: if_splits)
      then obtain c' where "recv_loop reads is (put_bytes buf 0 b) ?c = Some c'" "cli_cnt c' = cli_cnt c" "length (clifds c') = SIZE"
        "srv_out c' = srv_out ?c @ answers reads (allfds c) (map ((!) (clifds c)) is)" "\<forall>j. clifds c ! j < 0 \<longrightarrow> clifds c' ! j < 0"
        using Cons.IH[of ?c "put_bytes buf 0 b"] Cons.prems(1-4) by auto
      ultimately show ?thesis unfolding here ReadBytes by simp
    next
      case ReadEnd
      then show ?thesis using closing next_slot unfolding here by simp
    next
      case ReadError
      then show ?thesis using closing next_slot unfolding here by simp
    qed
  qed
qed (simp add: answers_def)

lemma answers_cong: "(\<And>x. x \<in> set fds \<Longrightarrow> 0 \<le> x \<Longrightarrow> x \<in> S \<longleftrightarrow> x \<in> T) \<Longrightarrow> answers reads S fds = answers reads T fds"
  by (induction fds) (auto simp: answers_def)

lemma answers_take:
  assumes "\<forall>j. n \<le> j \<and> j < length fds \<longrightarrow> fds ! j < 0"
  shows "answers reads S (take n fds) = answers reads S fds"
proof -
  have "list_all (\<lambda>x. x < 0) (drop n fds)" using assms by (simp add: list_all_length)
  then have "answers reads S (drop n fds) = []" by (auto simp: answers_def list_all_iff)
  moreover have "answers reads S (take n fds @ drop n fds) = answers reads S (take n fds) @ answers reads S (drop n fds)"
    unfolding answers_def map_append concat_append ..
  ultimately show ?thesis by simp
qed

lemma select_receives:
  assumes "select_ok c" "cli_cnt c < int SIZE" "distinct (filter (\<lambda>x. 0 \<le> x) (clifds c))" "messages_ok reads"
  shows "\<exists>c'. recv_client_msg reads c = Some c' \<and> select_ok c' \<and> cli_cnt c' = cli_cnt c \<and> srv_out c' = srv_out c @ answers reads (allfds c) (clifds c)"
proof -
  let ?n = "nat (cli_cnt c + 1)"
  have n: "?n \<le> SIZE" "0 \<le> cli_cnt c" "length (clifds c) = SIZE" using assms(1,2) by (auto simp: select_ok_def)
  then have slots: "map ((!) (clifds c)) [0..<?n] = take ?n (clifds c)" by (auto simp: list_eq_iff_nth_eq)
  have "distinct (filter (\<lambda>x. 0 \<le> x) (take ?n (clifds c)))"
    using assms(3) by (metis append_take_drop_id distinct_append filter_append)
  then obtain c' where "recv_client_msg reads c = Some c'" "cli_cnt c' = cli_cnt c" "length (clifds c') = SIZE"
      "srv_out c' = srv_out c @ answers reads (allfds c) (take ?n (clifds c))" "\<forall>j. clifds c ! j < 0 \<longrightarrow> clifds c' ! j < 0"
    using recv_loop_echo[OF assms(4) n(3), of "[0..<?n]" "[]"] n(1) unfolding slots recv_client_msg_def by (auto simp: list_all_iff)
  moreover have "answers reads (allfds c) (take ?n (clifds c)) = answers reads (allfds c) (clifds c)"
    using assms(1) n by (intro answers_take) (auto simp: select_ok_def)
  ultimately show ?thesis using assms(1) by (auto simp: select_ok_def)
qed

text \<open>
  The select server up to its ninth connection. While fewer than ten connections have been accepted, every round in which something is ready is defined: a new
  connection is entered and counted, and in a round with messages every client that is ready is sent its own string, in the order of the
  slots.
\<close>

theorem select_round_echoes:
  assumes "select_ok c" "cli_cnt c < int SIZE" "distinct (filter (\<lambda>x. 0 \<le> x) (clifds c))" "messages_ok reads" "-1 \<le> accept_retry accepts"
  shows "\<exists>c'. handle_client_proc srvfd (SelReady ready) accepts reads c = Some (True, c') \<and> select_ok c' \<and>
    (srvfd \<notin> ready \<longrightarrow> cli_cnt c' = cli_cnt c \<and> srv_out c' = srv_out c @ answers reads ready (clifds c)) \<and>
    (srvfd \<in> ready \<and> 0 \<le> accept_retry accepts \<longrightarrow>
      cli_cnt c' = cli_cnt c + 1 \<and> connected (clifds c') = insert (accept_retry accepts) (connected (clifds c)) \<and> srv_out c' = srv_out c)"
proof -
  let ?n = "nat (cli_cnt c)" and ?fd = "accept_retry accepts"
  let ?W = "insert srvfd {x \<in> set (take ?n (clifds c)). x \<noteq> -1}"
  let ?c = "c\<lparr>maxfd := fold max (take ?n (clifds c)) srvfd, allfds := ?W \<inter> ready\<rparr>"
  have n: "?n < SIZE" "0 \<le> cli_cnt c" "length (clifds c) = SIZE" "\<forall>j. ?n \<le> j \<and> j < length (clifds c) \<longrightarrow> clifds c ! j < 0"
    using assms(1,2) by (auto simp: select_ok_def)
  have ok: "select_ok ?c" using assms(1) by (simp add: select_ok_def)
  have w: "handle_client_proc srvfd (SelReady ready) accepts reads c =
      (if srvfd \<in> ready then Some (True, accept_client_proc accepts ?c) else map_option (Pair True) (recv_client_msg reads ?c))"
    using assms(2) by (simp add: handle_client_proc_def watch_def Let_def)
  show ?thesis
  proof (cases "srvfd \<in> ready")
    case True
    obtain i fds where st: "store_fd ?fd (clifds c) = Some (i, fds)" using store_fd_room[OF n(4)] n(1,3) by metis
    then have i: "i \<le> ?n" "fds = (clifds c)[i := ?fd]" "clifds c ! i < 0" using store_fd_SomeD[OF st n(4)] n(1,3) by auto
    have "select_ok (?c\<lparr>clifds := fds, cli_cnt := cli_cnt c + 1\<rparr>)" using assms(1) i n by (auto simp: select_ok_def nth_list_update)
    moreover have "connected fds = insert ?fd (connected (clifds c))" if "0 \<le> ?fd"
      unfolding i(2) using that i n by (intro connected_store) auto
    ultimately show ?thesis using True w ok st assms(5) by (auto simp: accept_client_proc_def Let_def)
  next
    case False
    obtain c' where c': "recv_client_msg reads ?c = Some c'" "select_ok c'" "cli_cnt c' = cli_cnt c"
        "srv_out c' = srv_out c @ answers reads (allfds ?c) (clifds c)"
      using select_receives[OF ok, of reads] assms(2-4) by auto
    have "answers reads (allfds ?c) (clifds c) = answers reads (allfds ?c) (take ?n (clifds c))" using answers_take[OF n(4)] by simp
    also have "\<dots> = answers reads ready (take ?n (clifds c))" by (rule answers_cong) auto
    also have "\<dots> = answers reads ready (clifds c)" by (rule answers_take[OF n(4)])
    finally show ?thesis using False w c' by simp
  qed
qed

definition sample_context :: server_context_st where
  "sample_context = \<lparr>cli_cnt = 2, clifds = 4 # 5 # replicate 8 (-1), allfds = {}, maxfd = 3, srv_out = [], srv_closed = []\<rparr>"

theorem select_round_echoes_witness:
  "\<exists>c'. handle_client_proc 3 (SelReady {5}) [] (\<lambda>_. ReadBytes (''hi'' @ [NUL])) sample_context = Some (True, c') \<and> srv_out c' = [(5, ''hi'' @ [NUL])]"
proof -
  have "select_ok sample_context" by (auto simp: select_ok_def sample_context_def SIZE_def nth_Cons')
  moreover have "distinct (filter (\<lambda>x. 0 \<le> x) (clifds sample_context))" "cli_cnt sample_context < int SIZE" by (simp_all add: sample_context_def SIZE_def)
  moreover have "messages_ok (\<lambda>_. ReadBytes (''hi'' @ [NUL]))" by (simp add: messages_ok_def MAXLINE_def)
  moreover have "answers (\<lambda>_. ReadBytes (''hi'' @ [NUL])) {5} (clifds sample_context) = [(5, ''hi'' @ [NUL])]"
    by (simp add: answers_def sample_context_def)
  ultimately show ?thesis
    using select_round_echoes[of sample_context "\<lambda>_. ReadBytes (''hi'' @ [NUL])" "[]" 3 "{5}"] by (auto simp: sample_context_def)
qed

text \<open>
  The count is never reduced. After ten connections, also when all of them are closed, the next round with messages reads behind the array, and the
  eleventh connection makes every further round do so.
\<close>

lemma select_overruns:
  assumes "cli_cnt c = int SIZE" "length (clifds c) = SIZE" "srvfd \<notin> ready" "\<forall>i < SIZE. clifds c ! i < 0"
  shows "handle_client_proc srvfd (SelReady ready) accepts reads c = None"
proof -
  have "recv_loop reads (is @ [SIZE]) buf d = None" if "\<forall>i \<in> set is. i < SIZE \<and> clifds d ! i < 0" for "is" buf d
    using that by (induction "is") auto
  from this[of "[0..<SIZE]"] have "recv_loop reads ([0..<SIZE] @ [SIZE]) [] d = None" if "clifds d = clifds c" for d using that assms(4) by auto
  moreover have "[0..<nat (int SIZE + 1)] = [0..<SIZE] @ [SIZE]" by (simp add: SIZE_def upt_rec)
  ultimately show ?thesis using assms(1,3) by (simp add: handle_client_proc_def watch_def recv_client_msg_def Let_def)
qed

section \<open>The epoll server\<close>

text \<open>A client that is alone gets its message back.\<close>

lemma epoll_echo:
  assumes "ep_buf s = []" "interest s fd = Some EPOLLIN" "fd \<noteq> listenfd" "NUL \<notin> set b" "length b < MAXSIZE" "int (length b) \<le> nw"
  shows "\<exists>s'. handle_events listenfd
      [\<lparr>ev_fd = fd, ev_in = True, ev_out = False, ev_accept = a, ev_read = ReadBytes b, ev_write = w\<rparr>,
       \<lparr>ev_fd = fd, ev_in = False, ev_out = True, ev_accept = a, ev_read = x, ev_write = nw\<rparr>] s = Some s' \<and>
    ep_out s' = ep_out s @ [(fd, b)] \<and> ep_in s' = ep_in s @ [(fd, b)] \<and> ep_buf s' = [] \<and> interest s' fd = Some EPOLLIN"
proof -
  have "put_bytes [] 0 b = b" by (simp add: put_bytes_def)
  moreover have "nw \<noteq> -1" "take (nat nw) b = b" using assms(6) by auto
  ultimately show ?thesis using assms by (auto simp: do_read_def do_write_def Let_def cstr_no_NUL modify_event_def)
qed

text \<open>
  The buffer belongs to all clients: when two have sent a message before the first answer is written, the first is sent the message of the second, and the second
  nothing.
\<close>

definition ep_accepts :: "int \<Rightarrow> int \<Rightarrow> ep_event" where
  "ep_accepts listenfd fd = \<lparr>ev_fd = listenfd, ev_in = True, ev_out = False, ev_accept = fd, ev_read = ReadEnd, ev_write = 0\<rparr>"

definition ep_reads :: "int \<Rightarrow> string \<Rightarrow> ep_event" where
  "ep_reads fd b = \<lparr>ev_fd = fd, ev_in = True, ev_out = False, ev_accept = -1, ev_read = ReadBytes b, ev_write = 0\<rparr>"

definition ep_writes :: "int \<Rightarrow> ep_event" where
  "ep_writes fd = \<lparr>ev_fd = fd, ev_in = False, ev_out = True, ev_accept = -1, ev_read = ReadEnd, ev_write = 1024\<rparr>"

lemma epoll_mixes_clients:
  "map_option ep_out (handle_events 3
      [ep_accepts 3 4, ep_accepts 3 5, ep_reads 4 ''secret'', ep_reads 5 ''public'', ep_writes 4, ep_writes 5] (epoll_start 3)) =
    Some [(4, ''public''), (5, [])]"
  by code_simp

end
