(* ===== verification/Xls_Reader.thy ===== *)
theory Xls_Reader
  imports C_Prelude "HOL-Library.Word"
begin

text \<open>
  The reader of spreadsheets in \<^verbatim>\<open>c_execl/CExecl.cpp\<close>. The library \<^verbatim>\<open>libxls\<close> is only there as a binary: what it finds in a file is the argument \<open>xls\<close> of the
  operations that open one. Handles are numbers; the object keeps which of them are open. \<open>None\<close> is a use of a pointer that is null, has not been set or was
  closed, and a copy behind the end of the buffer of the caller.
\<close>

section \<open>What the library gives\<close>

text \<open>The text of a cell may be missing; rows and columns are \<^verbatim>\<open>WORD\<close>s, and \<^verbatim>\<open>lastrow\<close> and \<^verbatim>\<open>lastcol\<close> are the last ones.\<close>

type_synonym xlsCell = "string option"

record xlsWorkSheet =
  lastrow :: "16 word"
  lastcol :: "16 word"
  xls_cell :: "16 word \<Rightarrow> 16 word \<Rightarrow> xlsCell option"

record xlsWorkBook =
  sheets_count :: "32 word"
  xls_getWorkSheet :: "int \<Rightarrow> xlsWorkSheet option"

type_synonym xls_library = "string \<Rightarrow> string \<Rightarrow> xlsWorkBook option"

section \<open>The object\<close>

text \<open>The constructors do not set the two pointers.\<close>

datatype handle = Unset | Null | Handle nat

record CExecl =
  m_pXWB :: handle
  m_pXWS :: handle
  m_strErrMsg :: string
  m_strCharSet :: string
  open_books :: "nat \<Rightarrow> xlsWorkBook option"
  open_sheets :: "nat \<Rightarrow> xlsWorkSheet option"
  next_handle :: nat

definition is_null :: "handle \<Rightarrow> bool option" where
  "is_null h = (case h of Unset \<Rightarrow> None | Null \<Rightarrow> Some True | Handle _ \<Rightarrow> Some False)"

definition book :: "CExecl \<Rightarrow> xlsWorkBook option" where
  "book x = (case m_pXWB x of Handle h \<Rightarrow> open_books x h | _ \<Rightarrow> None)"

definition sheet :: "CExecl \<Rightarrow> xlsWorkSheet option" where
  "sheet x = (case m_pXWS x of Handle h \<Rightarrow> open_sheets x h | _ \<Rightarrow> None)"

text \<open>A method: its return value and the object.\<close>

type_synonym 'a reader_op = "CExecl \<Rightarrow> ('a \<times> CExecl) option"

definition failed :: "string \<Rightarrow> int reader_op" where
  "failed msg x = Some (-1, x\<lparr>m_strErrMsg := msg\<rparr>)"

definition set_book :: "xlsWorkBook option \<Rightarrow> CExecl \<Rightarrow> CExecl" where
  "set_book b x =
     (case b of
        None \<Rightarrow> x\<lparr>m_pXWB := Null\<rparr>
      | Some b \<Rightarrow> x\<lparr>m_pXWB := Handle (next_handle x), open_books := (open_books x)(next_handle x \<mapsto> b), next_handle := next_handle x + 1\<rparr>)"

definition set_sheet :: "xlsWorkSheet option \<Rightarrow> CExecl \<Rightarrow> CExecl" where
  "set_sheet s x =
     (case s of
        None \<Rightarrow> x\<lparr>m_pXWS := Null\<rparr>
      | Some s \<Rightarrow> x\<lparr>m_pXWS := Handle (next_handle x), open_sheets := (open_sheets x)(next_handle x \<mapsto> s), next_handle := next_handle x + 1\<rparr>)"

definition xls_close_WS :: "CExecl \<Rightarrow> CExecl option" where
  "xls_close_WS x = (case m_pXWS x of Handle h \<Rightarrow> if open_sheets x h = None then None else Some (x\<lparr>open_sheets := (open_sheets x)(h := None)\<rparr>) | _ \<Rightarrow> None)"

definition xls_close_WB :: "CExecl \<Rightarrow> CExecl option" where
  "xls_close_WB x = (case m_pXWB x of Handle h \<Rightarrow> if open_books x h = None then None else Some (x\<lparr>open_books := (open_books x)(h := None)\<rparr>) | _ \<Rightarrow> None)"

section \<open>Opening and closing\<close>

definition OpenXLS_charset :: "xls_library \<Rightarrow> string \<Rightarrow> string \<Rightarrow> int reader_op" where
  "OpenXLS_charset xls sPath sCharSet x =
     (let b = xls sPath sCharSet; x = set_book b x in
      if b = None then failed ''Open execl failed!!!'' x else Some (0, x))"

definition OpenXLS :: "xls_library \<Rightarrow> string \<Rightarrow> int reader_op" where
  "OpenXLS xls sPath x = OpenXLS_charset xls sPath (m_strCharSet x) x"

definition OpenSheet :: "int \<Rightarrow> int reader_op" where
  "OpenSheet n x = do {
     b \<leftarrow> book x;
     let s = xls_getWorkSheet b n;
     let x = set_sheet s x;
     if s = None then failed ''Open Sheet failed!!!'' x else Some (0, x)
   }"

definition CExecl_new :: "string \<Rightarrow> CExecl" where
  "CExecl_new sCharSet =
     \<lparr>m_pXWB = Unset, m_pXWS = Unset, m_strErrMsg = [], m_strCharSet = sCharSet, open_books = \<lambda>_. None, open_sheets = \<lambda>_. None, next_handle = 0\<rparr>"

definition CExecl_path :: "xls_library \<Rightarrow> string \<Rightarrow> string \<Rightarrow> CExecl option" where
  "CExecl_path xls sPath sCharSet = map_option snd (OpenXLS xls sPath (CExecl_new sCharSet))"

definition CloseHandle :: "int reader_op" where
  "CloseHandle x = do {
     no_sheet \<leftarrow> is_null (m_pXWS x);
     x \<leftarrow> (if no_sheet then Some x else map_option (\<lambda>x. x\<lparr>m_pXWS := Null\<rparr>) (xls_close_WS x));
     no_book \<leftarrow> is_null (m_pXWB x);
     x \<leftarrow> (if no_book then Some x else map_option (\<lambda>x. x\<lparr>m_pXWB := Null\<rparr>) (xls_close_WB x));
     Some (0, x)
   }"

section \<open>Reading\<close>

definition cell_text :: "xlsCell \<Rightarrow> string" where
  "cell_text c = (case c of None \<Rightarrow> [] | Some s \<Rightarrow> cstr s)"

text \<open>The loops over the columns and the rows. Cells that are not there are left out of the row.\<close>

fun col_loop :: "xlsWorkSheet \<Rightarrow> nat \<Rightarrow> nat list \<Rightarrow> string list \<Rightarrow> string list" where
  "col_loop s iRow [] vecRow = vecRow"
| "col_loop s iRow (iCol # cols) vecRow =
     col_loop s iRow cols
       (case xls_cell s (word_of_nat iRow) (word_of_nat iCol) of None \<Rightarrow> vecRow | Some c \<Rightarrow> vecRow @ [cell_text c])"

fun row_loop :: "xlsWorkSheet \<Rightarrow> nat list \<Rightarrow> string list list \<Rightarrow> string list list" where
  "row_loop s [] vecSheet = vecSheet"
| "row_loop s (iRow # rows) vecSheet = row_loop s rows (vecSheet @ [col_loop s iRow [0..<unat (lastcol s) + 1] []])"

text \<open>The method has no \<^verbatim>\<open>return\<close> at its end: \<open>left\<close> is the value its caller finds.\<close>

definition GetSheetInfo :: "int \<Rightarrow> string list list \<Rightarrow> (int \<times> string list list) reader_op" where
  "GetSheetInfo left vecSheet x = do {
     null \<leftarrow> is_null (m_pXWS x);
     if null then map_option (\<lambda>(r, x). ((r, vecSheet), x)) (failed ''WorkSheet handle NULL!!!'' x)
     else do { s \<leftarrow> sheet x; Some ((left, row_loop s [0..<unat (lastrow s) + 1] vecSheet), x) }
   }"

text \<open>The loop over the sheets; a sheet that was open before is forgotten.\<close>

fun all_loop :: "nat list \<Rightarrow> string list list list \<Rightarrow> string list list list reader_op" where
  "all_loop [] vecCell x = Some (vecCell, x)"
| "all_loop (i # is) vecCell x = do {
     b \<leftarrow> book x;
     let x = set_sheet (xls_getWorkSheet b (int i)) x;
     s \<leftarrow> sheet x;
     let vecCell = vecCell @ [row_loop s [0..<unat (lastrow s) + 1] []];
     x \<leftarrow> xls_close_WS x;
     all_loop is vecCell (x\<lparr>m_pXWS := Null\<rparr>)
   }"

definition GetAllInfo :: "string list list list \<Rightarrow> (int \<times> string list list list) reader_op" where
  "GetAllInfo vecCell x = do {
     null \<leftarrow> is_null (m_pXWB x);
     if null then map_option (\<lambda>(r, x). ((r, vecCell), x)) (failed ''WorkBook handle NULL!!!'' x)
     else do {
       b \<leftarrow> book x;
       if unat (sheets_count b) \<ge> 2 ^ 31 then None
       else map_option (\<lambda>(v, x). ((0, v), x)) (all_loop [0..<unat (sheets_count b)] vecCell x)
     }
   }"

definition GetSheet :: "int reader_op" where
  "GetSheet x = do {
     null \<leftarrow> is_null (m_pXWB x);
     if null then failed ''Get the sheet failed,beacuse WorkBook handle NULL!!!'' x
     else do { b \<leftarrow> book x; Some (sint (sheets_count b), x) }
   }"

definition GetRow :: "int reader_op" where
  "GetRow x = do {
     null \<leftarrow> is_null (m_pXWS x);
     if null then failed ''Get the row failed,beacuse WorkSheet handle NULL!!!'' x
     else do { s \<leftarrow> sheet x; Some (uint (lastrow s), x) }
   }"

definition GetCol :: "int reader_op" where
  "GetCol x = do {
     null \<leftarrow> is_null (m_pXWS x);
     if null then failed ''Get the row failed,beacuse WorkSheet handle NULL!!!'' x
     else do { s \<leftarrow> sheet x; Some (uint (lastcol s), x) }
   }"

text \<open>
  The end of both \<^verbatim>\<open>GetCell\<close>s: the result with the text that was copied. \<open>room\<close> is the size of the buffer of the caller; row and column become \<^verbatim>\<open>WORD\<close>s in the call of
  \<^verbatim>\<open>xls_cell\<close>.
\<close>

definition copy_cell :: "nat \<Rightarrow> int \<Rightarrow> int \<Rightarrow> (int \<times> string option) reader_op" where
  "copy_cell room iRow iCol x = do {
     s \<leftarrow> sheet x;
     case xls_cell s (word_of_int iRow) (word_of_int iCol) of
       None \<Rightarrow> map_option (\<lambda>(r, x). ((r, None), x)) (failed ''Cell NULL!!!'' x)
     | Some c \<Rightarrow> if length (cell_text c) \<ge> room then None else Some ((0, Some (cell_text c)), x)
   }"

definition GetCell :: "nat \<Rightarrow> int \<Rightarrow> int \<Rightarrow> (int \<times> string option) reader_op" where
  "GetCell room iRow iCol x = do {
     null \<leftarrow> is_null (m_pXWS x);
     if null then map_option (\<lambda>(r, x). ((r, None), x)) (failed ''WorkSheet handle NULL!!!'' x)
     else do {
       (rows, x) \<leftarrow> GetRow x;
       (cols, x) \<leftarrow> GetCol x;
       if iRow \<ge> rows \<or> iCol \<ge> cols then map_option (\<lambda>(r, x). ((r, None), x)) (failed ''Row or Col is too large!!!'' x)
       else copy_cell room iRow iCol x
     }
   }"

text \<open>The bounds are those of the sheet that was open before, and the result of \<^verbatim>\<open>OpenSheet\<close> is not looked at.\<close>

definition GetCell_sheet :: "nat \<Rightarrow> int \<Rightarrow> int \<Rightarrow> int \<Rightarrow> (int \<times> string option) reader_op" where
  "GetCell_sheet room iSheet iRow iCol x = do {
     no_book \<leftarrow> is_null (m_pXWB x);
     if no_book then map_option (\<lambda>(r, x). ((r, None), x)) (failed ''WorkBook handle NULL!!!'' x)
     else do {
       no_sheet \<leftarrow> is_null (m_pXWS x);
       if no_sheet then map_option (\<lambda>(r, x). ((r, None), x)) (failed ''WorkSheet handle NULL!!!'' x)
       else do {
         (sheets, x) \<leftarrow> GetSheet x;
         (rows, x) \<leftarrow> GetRow x;
         (cols, x) \<leftarrow> GetCol x;
         if iSheet \<ge> sheets \<or> iRow \<ge> rows \<or> iCol \<ge> cols then map_option (\<lambda>(r, x). ((r, None), x)) (failed ''Sheet Row or Col is too large!!!'' x)
         else do { (r, x) \<leftarrow> OpenSheet iSheet x; copy_cell room iRow iCol x }
       }
     }
   }"

section \<open>What reading gives\<close>

text \<open>The table of a sheet: for every row the texts of the cells that are there.\<close>

definition sheet_table :: "xlsWorkSheet \<Rightarrow> string list list" where
  "sheet_table s =
     map (\<lambda>r. map cell_text (List.map_filter (\<lambda>c. xls_cell s (word_of_nat r) (word_of_nat c)) [0..<unat (lastcol s) + 1])) [0..<unat (lastrow s) + 1]"

lemma col_loop_texts: "col_loop s r cols v = v @ map cell_text (List.map_filter (\<lambda>c. xls_cell s (word_of_nat r) (word_of_nat c)) cols)"
  by (induction cols arbitrary: v) (simp_all split: option.split)

lemma row_loop_table: "row_loop s [0..<Suc (unat (lastrow s))] v = v @ sheet_table s"
proof -
  have "row_loop s rows v =
      v @ map (\<lambda>r. map cell_text (List.map_filter (\<lambda>c. xls_cell s (word_of_nat r) (word_of_nat c)) [0..<unat (lastcol s) + 1])) rows" for rows
    by (induction rows arbitrary: v) (simp_all add: col_loop_texts del: upt.simps)
  then show ?thesis unfolding sheet_table_def Suc_eq_plus1 by blast
qed

lemma sheet_is_null: "sheet x = Some s \<Longrightarrow> is_null (m_pXWS x) = Some False"
  by (simp add: sheet_def is_null_def split: handle.splits)

lemma book_is_null: "book x = Some b \<Longrightarrow> is_null (m_pXWB x) = Some False"
  by (simp add: book_def is_null_def split: handle.splits)

lemma set_sheet_fields:
  "book (set_sheet s x) = book x" "open_books (set_sheet s x) = open_books x" "sheet (set_sheet s x) = s" "m_pXWB (set_sheet s x) = m_pXWB x"
  by (simp_all add: set_sheet_def book_def sheet_def split: option.split handle.split)

lemma OpenSheet_opens:
  assumes "book x = Some b" "xls_getWorkSheet b n = Some s"
  shows "OpenSheet n x = Some (0, set_sheet (Some s) x) \<and> sheet (set_sheet (Some s) x) = Some s \<and> book (set_sheet (Some s) x) = Some b"
  using assms by (simp add: OpenSheet_def set_sheet_fields)

lemma GetSheetInfo_table: "sheet x = Some s \<Longrightarrow> GetSheetInfo left v x = Some ((left, v @ sheet_table s), x)"
  by (simp add: GetSheetInfo_def sheet_is_null row_loop_table del: upt.simps)

lemma GetCell_inside:
  assumes "sheet x = Some s" "iRow < uint (lastrow s)" "iCol < uint (lastcol s)"
  shows "GetCell room iRow iCol x = copy_cell room iRow iCol x"
  using assms by (simp add: GetCell_def sheet_is_null GetRow_def GetCol_def)

lemma all_loop_tables:
  assumes "book x = Some b" "\<forall>i \<in> set is. xls_getWorkSheet b (int i) = Some (f i)" "\<forall>h \<in> dom (open_sheets x). h < next_handle x" "is \<noteq> []"
  shows "\<exists>k. all_loop is v x = Some (v @ map (\<lambda>i. sheet_table (f i)) is, x\<lparr>m_pXWS := Null, next_handle := k\<rparr>)"
  using assms
proof (induction "is" arbitrary: v x)
  case (Cons i "is")
  let ?s = "f i" and ?h = "next_handle x"
  have new: "open_sheets x ?h = None" using Cons.prems(3) by (auto simp: dom_def)
  let ?x = "x\<lparr>m_pXWS := Null, next_handle := Suc ?h\<rparr>"
  have "xls_close_WS (set_sheet (Some ?s) x) = Some (set_sheet (Some ?s) x\<lparr>open_sheets := open_sheets x\<rparr>)"
    using new by (simp add: xls_close_WS_def set_sheet_def fun_upd_idem)
  moreover have "set_sheet (Some ?s) x\<lparr>open_sheets := open_sheets x, m_pXWS := Null\<rparr> = ?x" by (simp add: set_sheet_def)
  ultimately have step: "all_loop (i # is) v x = all_loop is (v @ [sheet_table ?s]) ?x"
    using Cons.prems(1,2) row_loop_table[of ?s "[]"] by (simp add: set_sheet_fields del: upt.simps)
  show ?case
  proof (cases "is = []")
    case False
    have "book ?x = Some b" using Cons.prems(1) by (simp add: book_def split: handle.splits)
    then show ?thesis using Cons.IH[of ?x "v @ [sheet_table ?s]"] False Cons.prems(2,3) step by (auto simp: less_Suc_eq)
  qed (use step in auto)
qed simp

text \<open>
  A session like the one of \<^verbatim>\<open>main.cpp\<close>, for a file whose sheets can all be read. After a sheet was opened \<^verbatim>\<open>GetSheetInfo\<close> gives its table, and \<^verbatim>\<open>GetCell\<close> the
  text of each cell above the last row and left of the last column; \<^verbatim>\<open>GetAllInfo\<close> gives the tables of all sheets in order. Closing is defined and leaves no file
  open; the sheet that was opened first stays open for ever.
\<close>

theorem reader_session:
  assumes "xls sPath sCharSet = Some b" "0 < sheets_count b" "unat (sheets_count b) < 2 ^ 31" "\<forall>i < unat (sheets_count b). xls_getWorkSheet b (int i) = Some (f i)"
    and "n < unat (sheets_count b)"
  shows "\<exists>x x1 x2 x3.
    CExecl_path xls sPath sCharSet = Some x \<and> OpenSheet (int n) x = Some (0, x1) \<and>
    GetSheetInfo left [] x1 = Some ((left, sheet_table (f n)), x1) \<and>
    (\<forall>r c room t. r < uint (lastrow (f n)) \<and> c < uint (lastcol (f n)) \<and> xls_cell (f n) (word_of_int r) (word_of_int c) = Some t \<and> length (cell_text t) < room \<longrightarrow>
      GetCell room r c x1 = Some ((0, Some (cell_text t)), x1)) \<and>
    GetAllInfo [] x1 = Some ((0, map (\<lambda>i. sheet_table (f i)) [0..<unat (sheets_count b)]), x2) \<and>
    CloseHandle x2 = Some (0, x3) \<and> open_books x3 = (\<lambda>_. None) \<and> open_sheets x3 = [1 \<mapsto> f n]"
proof -
  let ?x = "set_book (Some b) (CExecl_new sCharSet)"
  let ?x1 = "set_sheet (Some (f n)) ?x"
  let ?N = "unat (sheets_count b)"
  have N: "[0..<?N] \<noteq> []" using assms(5) by simp
  have x: "CExecl_path xls sPath sCharSet = Some ?x" "book ?x = Some b" "open_sheets ?x = (\<lambda>_. None)" "next_handle ?x = 1" "open_books ?x = [0 \<mapsto> b]" "m_pXWB ?x = Handle 0"
    using assms(1) by (simp_all add: CExecl_path_def OpenXLS_def OpenXLS_charset_def CExecl_new_def set_book_def book_def)
  have x1: "OpenSheet (int n) ?x = Some (0, ?x1)" "sheet ?x1 = Some (f n)" "book ?x1 = Some b" using OpenSheet_opens[OF x(2)] assms(4,5) by auto
  have x1': "open_sheets ?x1 = [1 \<mapsto> f n]" "next_handle ?x1 = 2" using x(3,4) by (simp_all add: set_sheet_def)
  obtain k where k: "all_loop [0..<?N] [] ?x1 = Some (map (\<lambda>i. sheet_table (f i)) [0..<?N], ?x1\<lparr>m_pXWS := Null, next_handle := k\<rparr>)"
    using all_loop_tables[OF x1(3), of "[0..<?N]" f "[]"] assms(4) x1' N by (auto split: if_splits)
  let ?x2 = "?x1\<lparr>m_pXWS := Null, next_handle := k\<rparr>"
  have all: "GetAllInfo [] ?x1 = Some ((0, map (\<lambda>i. sheet_table (f i)) [0..<?N]), ?x2)"
    using k x1(3) assms(3) by (simp add: GetAllInfo_def book_is_null)
  have books: "open_books ?x2 = [0 \<mapsto> b]" "m_pXWB ?x2 = Handle 0" "open_sheets ?x2 = [1 \<mapsto> f n]" using x(5,6) x1' by (simp_all add: set_sheet_fields)
  let ?x3 = "?x2\<lparr>open_books := \<lambda>_. None, m_pXWB := Null\<rparr>"
  have "CloseHandle ?x2 = Some (0, ?x3)" using books by (simp add: CloseHandle_def is_null_def xls_close_WB_def fun_upd_idem)
  moreover have "open_books ?x3 = (\<lambda>_. None)" "open_sheets ?x3 = [1 \<mapsto> f n]" using books by simp_all
  moreover have "GetCell room r c ?x1 = Some ((0, Some (cell_text t)), ?x1)"
    if "r < uint (lastrow (f n)) \<and> c < uint (lastcol (f n)) \<and> xls_cell (f n) (word_of_int r) (word_of_int c) = Some t \<and> length (cell_text t) < room" for r c room t
    using that GetCell_inside[OF x1(2)] x1(2) by (simp add: copy_cell_def)
  moreover have "GetSheetInfo left [] ?x1 = Some ((left, sheet_table (f n)), ?x1)" using GetSheetInfo_table[OF x1(2)] by simp
  ultimately show ?thesis using x(1) x1(1) all by blast
qed

text \<open>
  An object whose file was opened, or could not be opened, but that has never opened a sheet cannot be closed: the pointer to the sheet has no value. The last row and the last column of
  a sheet cannot be read with \<^verbatim>\<open>GetCell\<close>. A sheet that the library does not find makes \<^verbatim>\<open>GetCell\<close> with a sheet read through a null pointer.
\<close>

lemma close_without_sheet: "CExecl_path xls sPath sCharSet = Some x \<Longrightarrow> CloseHandle x = None"
  by (auto simp: CExecl_path_def OpenXLS_def OpenXLS_charset_def CExecl_new_def set_book_def CloseHandle_def is_null_def failed_def Let_def
    split: if_splits option.splits)

lemma last_row_refused:
  "sheet x = Some s \<Longrightarrow> GetCell room (uint (lastrow s)) c x = Some ((-1, None), x\<lparr>m_strErrMsg := ''Row or Col is too large!!!''\<rparr>)"
  by (simp add: GetCell_def sheet_is_null GetRow_def GetCol_def failed_def)

lemma missing_sheet_faults:
  assumes "book x = Some b" "sheet x = Some s" "iRow < uint (lastrow s)" "iCol < uint (lastcol s)" "iSheet < sint (sheets_count b)" "xls_getWorkSheet b iSheet = None"
  shows "GetCell_sheet room iSheet iRow iCol x = None"
  using assms
  by (simp add: GetCell_sheet_def sheet_is_null book_is_null GetSheet_def GetRow_def GetCol_def OpenSheet_def failed_def copy_cell_def set_sheet_def sheet_def)

end
