(* ===== verification/Lottery.thy ===== *)
theory Lottery
  imports C_Prelude "HOL-Library.Multiset"
begin

text \<open>
  \<^verbatim>\<open>module_function/lottery.c\<close>: resetting the balls, drawing, and \<^verbatim>\<open>bubble_sort\<close>. An array is a list, and an
  access outside it has no result. The answers of \<^verbatim>\<open>rand\<close> are an argument.
\<close>

section \<open>Definitions\<close>

definition RED_BALL_QUAN :: nat where "RED_BALL_QUAN = 6"
definition RED_MAX_BALL_NUN :: nat where "RED_MAX_BALL_NUN = 33"
definition BLUE_MAX_BALL_NUM :: nat where "BLUE_MAX_BALL_NUM = 16"
definition WIN_BALL_NUM :: nat where "WIN_BALL_NUM = 7"

definition read_at :: "int list \<Rightarrow> nat \<Rightarrow> int option" where
  "read_at a i = (if i < length a then Some (a ! i) else None)"

definition write_at :: "int list \<Rightarrow> nat \<Rightarrow> int \<Rightarrow> int list option" where
  "write_at a i v = (if i < length a then Some (a[i := v]) else None)"

text \<open>\<^verbatim>\<open>for(i = 1;i <= n;i++) a[i] = i;\<close> from index \<open>i\<close> on.\<close>

function reset_loop :: "nat \<Rightarrow> nat \<Rightarrow> int list \<Rightarrow> int list option" where
  "reset_loop i n a = (if i \<le> n then do { a \<leftarrow> write_at a i (int i); reset_loop (i + 1) n a } else Some a)"
  by pat_completeness auto
termination by (relation "measure (\<lambda>(i, n, a). Suc n - i)") auto

declare reset_loop.simps [simp del]

definition reset_red_ball :: "int list \<Rightarrow> int list option" where
  "reset_red_ball red_ball_num = reset_loop 1 RED_MAX_BALL_NUN red_ball_num"

definition reset_blue_ball :: "int list \<Rightarrow> int list option" where
  "reset_blue_ball blue_ball_num = reset_loop 1 BLUE_MAX_BALL_NUM blue_ball_num"

text \<open>\<^verbatim>\<open>rand()\<close> is not negative; a division by 0 has no result.\<close>

definition random_number :: "nat \<Rightarrow> nat \<Rightarrow> nat option" where
  "random_number r m = (if m = 0 then None else Some (r mod m))"

text \<open>The two loops of \<^verbatim>\<open>bubble_sort\<close>: one pass over the first elements, and the passes.\<close>

definition swap_step :: "int list \<Rightarrow> nat \<Rightarrow> int list option" where
  "swap_step a j = do {
     x \<leftarrow> read_at a j;
     y \<leftarrow> read_at a (j + 1);
     if x > y then do { a \<leftarrow> write_at a j y; write_at a (j + 1) x } else Some a
   }"

fun pass_loop :: "nat \<Rightarrow> nat \<Rightarrow> int list \<Rightarrow> int list option" where
  "pass_loop j 0 a = Some a"
| "pass_loop j (Suc n) a = do { a \<leftarrow> swap_step a j; pass_loop (j + 1) n a }"

fun sort_loop :: "nat \<Rightarrow> int list \<Rightarrow> int list option" where
  "sort_loop 0 a = Some a"
| "sort_loop (Suc m) a = do { a \<leftarrow> pass_loop 0 m a; sort_loop m a }"

text \<open>The pass \<open>i\<close> of \<open>num\<close> runs \<^verbatim>\<open>j\<close> up to \<open>num - i - 1\<close>, so \<open>sort_loop\<close> counts \<open>num - i\<close> down. A negative \<open>num\<close> does nothing.\<close>

definition bubble_sort :: "int list \<Rightarrow> int \<Rightarrow> int list option" where
  "bubble_sort a num = sort_loop (nat num) a"

text \<open>One note of \<^verbatim>\<open>lottery_num\<close>: the answers of \<^verbatim>\<open>rand\<close> come from a function of the round.\<close>

fun draw_loop :: "nat \<Rightarrow> (nat \<Rightarrow> nat) \<Rightarrow> nat \<Rightarrow> int list \<Rightarrow> int list \<Rightarrow> (int list \<times> int list) option" where
  "draw_loop 0 rnd i red win = Some (red, win)"
| "draw_loop (Suc n) rnd i red win = do {
     sub \<leftarrow> random_number (rnd i) (RED_MAX_BALL_NUN - i);
     x \<leftarrow> read_at red sub;
     win \<leftarrow> write_at win i x;
     tmp \<leftarrow> read_at red (RED_MAX_BALL_NUN - i - 1);
     red \<leftarrow> write_at red (RED_MAX_BALL_NUN - i - 1) x;
     red \<leftarrow> write_at red sub tmp;
     draw_loop n rnd (i + 1) red win
   }"

definition lottery_note :: "(nat \<Rightarrow> nat) \<Rightarrow> int list \<Rightarrow> int list \<Rightarrow> int list \<Rightarrow> (int list \<times> int list \<times> int list) option" where
  "lottery_note rnd red blue win = do {
     red \<leftarrow> reset_red_ball red;
     blue \<leftarrow> reset_blue_ball blue;
     (red, win) \<leftarrow> draw_loop RED_BALL_QUAN rnd 0 red win;
     sub \<leftarrow> random_number (rnd RED_BALL_QUAN) BLUE_MAX_BALL_NUM;
     b \<leftarrow> read_at blue sub;
     win \<leftarrow> write_at win RED_BALL_QUAN b;
     win \<leftarrow> bubble_sort win (int RED_BALL_QUAN);
     Some (red, blue, win)
   }"

text \<open>\<^verbatim>\<open>lottery_num\<close>: as many notes as asked for, with the numbers that are printed.\<close>

fun lottery_loop :: "nat \<Rightarrow> (nat \<Rightarrow> nat \<Rightarrow> nat) \<Rightarrow> int list \<times> int list \<times> int list \<Rightarrow> int list list option" where
  "lottery_loop 0 rnd st = Some []"
| "lottery_loop (Suc n) rnd (red, blue, win) = do {
     (red, blue, win) \<leftarrow> lottery_note (rnd n) red blue win;
     out \<leftarrow> lottery_loop n rnd (red, blue, win);
     Some (win # out)
   }"

definition lottery_num :: "int \<Rightarrow> (nat \<Rightarrow> nat \<Rightarrow> nat) \<Rightarrow> int list \<times> int list \<times> int list \<Rightarrow> int list list option" where
  "lottery_num note_num rnd st = lottery_loop (nat note_num) rnd st"

section \<open>Sorting\<close>

text \<open>One pass as a function on the segment it works on.\<close>

fun bubble :: "int list \<Rightarrow> int list" where
  "bubble (x # y # zs) = (if x > y then y # bubble (x # zs) else x # bubble (y # zs))"
| "bubble xs = xs"

lemma swap_step_eq:
  "swap_step (pre @ x # y # zs) (length pre) = Some (if x > y then pre @ y # x # zs else pre @ x # y # zs)"
proof -
  have "(pre @ y # y # zs)[Suc (length pre) := x] = pre @ y # x # zs" by (simp add: list_update_append)
  then show ?thesis by (simp add: swap_step_def read_at_def write_at_def nth_append)
qed

lemma pass_loop_eq:
  "length seg = Suc n \<Longrightarrow> pass_loop (length pre) n (pre @ seg @ post) = Some (pre @ bubble seg @ post)"
proof (induction n arbitrary: pre seg)
  case 0
  then obtain x where "seg = [x]" by (metis One_nat_def length_0_conv length_Suc_conv)
  then show ?case by simp
next
  case (Suc n)
  then obtain x y zs where seg: "seg = x # y # zs" by (metis length_Suc_conv)
  let ?a = "min x y" and ?b = "max x y"
  have "swap_step (pre @ seg @ post) (length pre) = Some (pre @ ?a # ?b # zs @ post)"
    using swap_step_eq[of pre x y "zs @ post"] seg by (simp add: min_def max_def)
  moreover have "pass_loop (length (pre @ [?a])) n ((pre @ [?a]) @ (?b # zs) @ post) = Some ((pre @ [?a]) @ bubble (?b # zs) @ post)"
    by (rule Suc.IH) (use Suc.prems seg in simp)
  ultimately show ?case using seg by (simp add: min_def max_def)
qed

lemma mset_bubble [simp]: "mset (bubble xs) = mset xs"
  by (induction xs rule: bubble.induct) auto

lemma bubble_length [simp]: "length (bubble xs) = length xs"
  by (induction xs rule: bubble.induct) auto

lemma bubble_last: "x \<in> set xs \<Longrightarrow> x \<le> last (bubble xs)"
proof (induction xs arbitrary: x rule: bubble.induct)
  case (1 a b zs)
  have ne: "bubble (c # zs) \<noteq> []" for c using bubble_length[of "c # zs"] by (metis length_0_conv list.distinct(1))
  show ?case
  proof (cases "a > b")
    case True
    then have "a \<le> last (bubble (a # zs))" "\<And>y. y \<in> set zs \<Longrightarrow> y \<le> last (bubble (a # zs))" using 1(1) by auto
    then show ?thesis using True 1(3) ne[of a] by auto
  next
    case False
    then have "b \<le> last (bubble (b # zs))" "\<And>y. y \<in> set zs \<Longrightarrow> y \<le> last (bubble (b # zs))" using 1(2) by auto
    then show ?thesis using False 1(3) ne[of b] by auto
  qed
qed auto

lemma sort_snoc_max:
  assumes "\<And>x. x \<in> set xs \<Longrightarrow> x \<le> m"
  shows "sort (xs @ [m]) = sort xs @ [m :: int]"
  by (rule properties_for_sort) (use assms in \<open>auto simp: sorted_append\<close>)

lemma sort_loop_eq: "length seg = m \<Longrightarrow> sort_loop m (seg @ post) = Some (sort seg @ post)"
proof (induction m arbitrary: seg post)
  case (Suc m)
  let ?b = "bubble seg"
  have ne: "?b \<noteq> []" using Suc.prems by (metis Zero_not_Suc bubble_length length_0_conv)
  have pass: "pass_loop 0 m (seg @ post) = Some (?b @ post)" using pass_loop_eq[of seg m "[]" post] Suc.prems by simp
  have split: "?b @ post = butlast ?b @ last ?b # post" using append_butlast_last_id[OF ne] by (metis append.assoc append_Cons append_Nil)
  have "sort_loop m (butlast ?b @ last ?b # post) = Some (sort (butlast ?b) @ last ?b # post)"
    by (rule Suc.IH) (use Suc.prems in simp)
  moreover have "sort (butlast ?b) @ [last ?b] = sort (butlast ?b @ [last ?b])"
    by (rule sort_snoc_max[symmetric]) (use bubble_last mset_eq_setD[OF mset_bubble] in \<open>blast dest: in_set_butlastD\<close>)
  then have "sort (butlast ?b) @ [last ?b] = sort ?b" using append_butlast_last_id[OF ne] by simp
  moreover have "sort ?b = sort seg" by (rule properties_for_sort) simp_all
  ultimately have "sort_loop m (?b @ post) = Some (sort seg @ post)" unfolding split by (metis append.assoc append_Cons append_Nil)
  then show ?case using pass by simp
qed simp

text \<open>
  \<^verbatim>\<open>bubble_sort(array, num)\<close> sorts the first \<open>num\<close> elements and leaves the others where they are, for every
  \<open>num\<close> up to the length of the array.
\<close>

theorem bubble_sort_sorts:
  assumes "0 \<le> num" and "num \<le> int (length a)"
  shows "bubble_sort a num = Some (sort (take (nat num) a) @ drop (nat num) a)"
  using sort_loop_eq[of "take (nat num) a" "nat num" "drop (nat num) a"] assms by (simp add: bubble_sort_def)

theorem bubble_sort_sorts_witness: "bubble_sort [5, 3, 4, 1] 3 = Some [3, 4, 5, 1]"
  using bubble_sort_sorts[of 3 "[5, 3, 4, 1]"] by (simp add: insort_key.simps)

section \<open>Drawing\<close>

lemma reset_loop_overruns: "i \<le> n \<Longrightarrow> length a \<le> n \<Longrightarrow> reset_loop i n a = None"
proof (induction i n a rule: reset_loop.induct)
  case (1 i n a)
  show ?case
  proof (cases "i < length a")
    case True
    then show ?thesis using 1 by (simp add: reset_loop.simps[of i] write_at_def)
  next
    case False
    then show ?thesis using 1(2) by (simp add: reset_loop.simps[of i] write_at_def)
  qed
qed

text \<open>The balls are numbered from 1, and the arrays from 0: the last write of both resets leaves its array.\<close>

lemma lottery_undefined:
  assumes "length red = RED_MAX_BALL_NUN" and "0 < n"
  shows "lottery_num n rnd (red, blue, win) = None"
proof -
  obtain k where "nat n = Suc k" using assms(2) by (cases "nat n") auto
  then show ?thesis using assms(1) reset_loop_overruns[of 1 RED_MAX_BALL_NUN red]
    by (simp add: lottery_num_def lottery_note_def reset_red_ball_def RED_MAX_BALL_NUN_def)
qed

end
