(* ===== verification/V1_Lists.thy ===== *)
theory V1_Lists
  imports Ini_Strings C_Files
begin

text \<open>
  The data of \<^verbatim>\<open>v1.0.0/inifile.c\<close> and its linked lists. Nodes come from \<^verbatim>\<open>malloc\<close>, so there is a heap:
  one map for the key nodes and one for the section nodes. An address that has been freed is no
  longer in its map, and reading or writing it is undefined. \<^verbatim>\<open>malloc\<close> never fails and never returns an
  address twice. The list structure of a section is owned by that section alone and is kept inside its
  node; the \<^verbatim>\<open>INI_FILE\<close> structure is passed and returned. The \<^verbatim>\<open>NULL\<close> tests on structures that always
  exist are left out.
\<close>

section \<open>Constants and types\<close>

definition MAX_STRING_LEN :: nat where "MAX_STRING_LEN = 64"
definition MAX_FILENAME_LEN :: nat where "MAX_FILENAME_LEN = 64"
definition MAX_FILLINE_LEN :: nat where "MAX_FILLINE_LEN = 128"

definition CONTENT_NEELINE :: char where "CONTENT_NEELINE = CHR 0x0A"
definition CONTENT_SPACE :: char where "CONTENT_SPACE = CHR 0x20"
definition CONTENT_TAB :: char where "CONTENT_TAB = CHR 0x09"
definition CONTENT_SECTION :: char where "CONTENT_SECTION = CHR 0x5B"
definition CONTENT_COMMA :: char where "CONTENT_COMMA = CHR 0x3B"
definition CONTENT_EQUALITY :: char where "CONTENT_EQUALITY = CHR 0x3D"

definition EMPTYLIST :: int where "EMPTYLIST = -5"
definition WRITEERROR :: int where "WRITEERROR = -4"
definition REPEATNODEKEY :: int where "REPEATNODEKEY = -3"
definition OPENFILEERROR :: int where "OPENFILEERROR = -2"
definition TOOLONG :: int where "TOOLONG = -1"
definition ERRORTYPR :: int where "ERRORTYPR = 0"
definition NODETYPE :: int where "NODETYPE = 1"
definition KEYVALUE :: int where "KEYVALUE = 2"
definition NOTESTYPE :: int where "NOTESTYPE = 3"

lemmas v1_sizes = MAX_STRING_LEN_def MAX_FILENAME_LEN_def MAX_FILLINE_LEN_def
lemmas v1_chars = CONTENT_NEELINE_def CONTENT_SPACE_def CONTENT_TAB_def CONTENT_SECTION_def CONTENT_COMMA_def
  CONTENT_EQUALITY_def
lemmas v1_codes = EMPTYLIST_def WRITEERROR_def REPEATNODEKEY_def OPENFILEERROR_def TOOLONG_def ERRORTYPR_def
  NODETYPE_def KEYVALUE_def NOTESTYPE_def

record KeyValueNode =
  kn_key :: string
  kn_value :: string
  kn_isNote :: int
  kn_pre :: "nat option"
  kn_next :: "nat option"

record ListkeyValueNode =
  kl_head :: "nat option"
  kl_tail :: "nat option"
  kl_len :: int

record IniFileNode =
  sn_section :: string
  sn_isNote :: int
  sn_list :: "ListkeyValueNode option"
  sn_pre :: "nat option"
  sn_next :: "nat option"

record INI_FILE_v1 =
  if_head :: "nat option"
  if_tail :: "nat option"
  if_fileName :: string
  if_len :: int

text \<open>
  The process: the heap, the files, and the answers that the next calls of \<^verbatim>\<open>write\<close> will give. When no
  answers are left, \<^verbatim>\<open>write\<close> writes everything.
\<close>

datatype write_answer = Wrote nat | Interrupted | Failed

record v1_world =
  kv_heap :: "nat \<Rightarrow> KeyValueNode option"
  sec_heap :: "nat \<Rightarrow> IniFileNode option"
  next_addr :: nat
  v1_fs :: file_system
  v1_writes :: "write_answer list"

section \<open>Memory\<close>

text \<open>\<^verbatim>\<open>malloc\<close> followed by \<^verbatim>\<open>memset\<close>.\<close>

definition zero_kv :: KeyValueNode where
  "zero_kv = \<lparr>kn_key = [], kn_value = [], kn_isNote = 0, kn_pre = None, kn_next = None\<rparr>"

definition zero_sec :: IniFileNode where
  "zero_sec = \<lparr>sn_section = [], sn_isNote = 0, sn_list = None, sn_pre = None, sn_next = None\<rparr>"

definition new_kv :: "v1_world \<Rightarrow> nat \<times> v1_world" where
  "new_kv w = (next_addr w, w\<lparr>kv_heap := (kv_heap w)(next_addr w \<mapsto> zero_kv), next_addr := next_addr w + 1\<rparr>)"

definition new_sec :: "v1_world \<Rightarrow> nat \<times> v1_world" where
  "new_sec w = (next_addr w, w\<lparr>sec_heap := (sec_heap w)(next_addr w \<mapsto> zero_sec), next_addr := next_addr w + 1\<rparr>)"

definition upd_kvn :: "nat \<Rightarrow> (KeyValueNode \<Rightarrow> KeyValueNode) \<Rightarrow> v1_world \<Rightarrow> v1_world option" where
  "upd_kvn a f w = (case kv_heap w a of None \<Rightarrow> None | Some n \<Rightarrow> Some (w\<lparr>kv_heap := (kv_heap w)(a \<mapsto> f n)\<rparr>))"

definition upd_secn :: "nat \<Rightarrow> (IniFileNode \<Rightarrow> IniFileNode) \<Rightarrow> v1_world \<Rightarrow> v1_world option" where
  "upd_secn a f w = (case sec_heap w a of None \<Rightarrow> None | Some n \<Rightarrow> Some (w\<lparr>sec_heap := (sec_heap w)(a \<mapsto> f n)\<rparr>))"

definition free_kvn :: "nat \<Rightarrow> v1_world \<Rightarrow> v1_world option" where
  "free_kvn a w = (if kv_heap w a = None then None else Some (w\<lparr>kv_heap := (kv_heap w)(a := None)\<rparr>))"

definition free_secn :: "nat \<Rightarrow> v1_world \<Rightarrow> v1_world option" where
  "free_secn a w = (if sec_heap w a = None then None else Some (w\<lparr>sec_heap := (sec_heap w)(a := None)\<rparr>))"

section \<open>The lists\<close>

definition listIniFileNode_init :: INI_FILE_v1 where
  "listIniFileNode_init = \<lparr>if_head = None, if_tail = None, if_fileName = [], if_len = 0\<rparr>"

definition listkeyValueNode_init :: ListkeyValueNode where
  "listkeyValueNode_init = \<lparr>kl_head = None, kl_tail = None, kl_len = 0\<rparr>"

text \<open>Both tests answer \<^verbatim>\<open>false\<close> for an empty list.\<close>

definition listIniFileNode_is_empty :: "INI_FILE_v1 \<Rightarrow> bool" where
  "listIniFileNode_is_empty list = (if if_head list = None then False else True)"

definition listkeyValueNode_is_empty :: "ListkeyValueNode \<Rightarrow> bool" where
  "listkeyValueNode_is_empty list = (if kl_head list = None then False else True)"

definition listIniFileNode_insert :: "nat \<Rightarrow> INI_FILE_v1 \<times> v1_world \<Rightarrow> (INI_FILE_v1 \<times> v1_world) option" where
  "listIniFileNode_insert node = (\<lambda>(list, w).
     if if_head list = None
     then do {
       w \<leftarrow> upd_secn node (\<lambda>n. n\<lparr>sn_pre := None, sn_next := None\<rparr>) w;
       Some (list\<lparr>if_head := Some node, if_tail := Some node, if_len := if_len list + 1\<rparr>, w)
     }
     else do {
       w \<leftarrow> upd_secn node (\<lambda>n. n\<lparr>sn_pre := if_tail list\<rparr>) w;
       t \<leftarrow> if_tail list;
       w \<leftarrow> upd_secn t (\<lambda>n. n\<lparr>sn_next := Some node\<rparr>) w;
       w \<leftarrow> upd_secn node (\<lambda>n. n\<lparr>sn_next := None\<rparr>) w;
       Some (list\<lparr>if_tail := Some node, if_len := if_len list + 1\<rparr>, w)
     })"

definition listkeyValueNode_insert :: "nat \<Rightarrow> ListkeyValueNode \<times> v1_world \<Rightarrow> (ListkeyValueNode \<times> v1_world) option" where
  "listkeyValueNode_insert node = (\<lambda>(list, w).
     if kl_head list = None
     then do {
       w \<leftarrow> upd_kvn node (\<lambda>n. n\<lparr>kn_pre := None, kn_next := None\<rparr>) w;
       Some (list\<lparr>kl_head := Some node, kl_tail := Some node, kl_len := kl_len list + 1\<rparr>, w)
     }
     else do {
       w \<leftarrow> upd_kvn node (\<lambda>n. n\<lparr>kn_pre := kl_tail list\<rparr>) w;
       t \<leftarrow> kl_tail list;
       w \<leftarrow> upd_kvn t (\<lambda>n. n\<lparr>kn_next := Some node\<rparr>) w;
       w \<leftarrow> upd_kvn node (\<lambda>n. n\<lparr>kn_next := None\<rparr>) w;
       Some (list\<lparr>kl_tail := Some node, kl_len := kl_len list + 1\<rparr>, w)
     })"

text \<open>The search \<^verbatim>\<open>while(p != NULL) { if(p == node) break; else p = p->next; }\<close>.\<close>

partial_function (option) find_kv :: "v1_world \<Rightarrow> nat option \<Rightarrow> nat \<Rightarrow> bool option" where
  "find_kv w p node =
     (case p of
        None \<Rightarrow> Some False
      | Some a \<Rightarrow> if a = node then Some True
          else (case kv_heap w a of None \<Rightarrow> None | Some n \<Rightarrow> find_kv w (kn_next n) node))"

partial_function (option) find_sec :: "v1_world \<Rightarrow> nat option \<Rightarrow> nat \<Rightarrow> bool option" where
  "find_sec w p node =
     (case p of
        None \<Rightarrow> Some False
      | Some a \<Rightarrow> if a = node then Some True
          else (case sec_heap w a of None \<Rightarrow> None | Some n \<Rightarrow> find_sec w (sn_next n) node))"

text \<open>Taking a node out of a list of at least two: the part of both deletions between the search and \<^verbatim>\<open>free\<close>.\<close>

definition unlink_kv :: "nat \<Rightarrow> ListkeyValueNode \<times> v1_world \<Rightarrow> (ListkeyValueNode \<times> v1_world) option" where
  "unlink_kv node = (\<lambda>(list, w). do {
     n \<leftarrow> kv_heap w node;
     (list, w) \<leftarrow> (case kn_pre n of
         Some p \<Rightarrow> do { w \<leftarrow> upd_kvn p (\<lambda>x. x\<lparr>kn_next := kn_next n\<rparr>) w; Some (list, w) }
       | None \<Rightarrow> do {
           let list = list\<lparr>kl_head := kn_next n\<rparr>;
           h \<leftarrow> kl_head list;
           w \<leftarrow> upd_kvn h (\<lambda>x. x\<lparr>kn_pre := None\<rparr>) w;
           Some (list, w)
         });
     n \<leftarrow> kv_heap w node;
     (case kn_next n of
         Some m \<Rightarrow> do { w \<leftarrow> upd_kvn m (\<lambda>x. x\<lparr>kn_pre := kn_pre n\<rparr>) w; Some (list, w) }
       | None \<Rightarrow> do {
           let list = list\<lparr>kl_tail := kn_pre n\<rparr>;
           t \<leftarrow> kl_tail list;
           w \<leftarrow> upd_kvn t (\<lambda>x. x\<lparr>kn_next := None\<rparr>) w;
           Some (list, w)
         })
   })"

definition unlink_sec :: "nat \<Rightarrow> INI_FILE_v1 \<times> v1_world \<Rightarrow> (INI_FILE_v1 \<times> v1_world) option" where
  "unlink_sec node = (\<lambda>(list, w). do {
     n \<leftarrow> sec_heap w node;
     (list, w) \<leftarrow> (case sn_pre n of
         Some p \<Rightarrow> do { w \<leftarrow> upd_secn p (\<lambda>x. x\<lparr>sn_next := sn_next n\<rparr>) w; Some (list, w) }
       | None \<Rightarrow> do {
           let list = list\<lparr>if_head := sn_next n\<rparr>;
           h \<leftarrow> if_head list;
           w \<leftarrow> upd_secn h (\<lambda>x. x\<lparr>sn_pre := None\<rparr>) w;
           Some (list, w)
         });
     n \<leftarrow> sec_heap w node;
     (case sn_next n of
         Some m \<Rightarrow> do { w \<leftarrow> upd_secn m (\<lambda>x. x\<lparr>sn_pre := sn_pre n\<rparr>) w; Some (list, w) }
       | None \<Rightarrow> do {
           let list = list\<lparr>if_tail := sn_pre n\<rparr>;
           t \<leftarrow> if_tail list;
           w \<leftarrow> upd_secn t (\<lambda>x. x\<lparr>sn_next := None\<rparr>) w;
           Some (list, w)
         })
   })"

definition listkeyValueNode_delete :: "nat \<Rightarrow> ListkeyValueNode \<times> v1_world \<Rightarrow> (ListkeyValueNode \<times> v1_world) option" where
  "listkeyValueNode_delete node = (\<lambda>(list, w). do {
     found \<leftarrow> find_kv w (kl_head list) node;
     if \<not> found then Some (list, w)
     else if kl_head list = kl_tail list \<and> kl_head list \<noteq> None
     then do { w \<leftarrow> free_kvn node w; Some (list\<lparr>kl_head := None, kl_tail := None\<rparr>, w) }
     else do {
       (list, w) \<leftarrow> unlink_kv node (list, w);
       w \<leftarrow> free_kvn node w;
       Some (list, w)
     }
   })"

text \<open>\<^verbatim>\<open>while(p_list->head && (p_list->head != p_list->tail))\<close>, and the free of the head behind it.\<close>

partial_function (option) deleteall_loop :: "nat option \<Rightarrow> nat option \<Rightarrow> v1_world \<Rightarrow> v1_world option" where
  "deleteall_loop head tail w =
     (if head \<noteq> tail
      then (case tail of
              None \<Rightarrow> None
            | Some node \<Rightarrow> (case kv_heap w node of
                None \<Rightarrow> None
              | Some n \<Rightarrow> deleteall_loop head (kn_pre n) (w\<lparr>kv_heap := (kv_heap w)(node := None)\<rparr>)))
      else (case head of None \<Rightarrow> None | Some node \<Rightarrow> free_kvn node w))"

text \<open>The list pointer is \<^verbatim>\<open>NULL\<close> afterwards in every case.\<close>

definition listkeyValueNode_deleteall :: "ListkeyValueNode option \<Rightarrow> v1_world \<Rightarrow> v1_world option" where
  "listkeyValueNode_deleteall list w =
     (case list of
        None \<Rightarrow> Some w
      | Some l \<Rightarrow> if \<not> listkeyValueNode_is_empty l then Some w else deleteall_loop (kl_head l) (kl_tail l) w)"

text \<open>The only node of a list is freed, and the list goes on pointing at it.\<close>

definition listIniFileNode_delete :: "nat \<Rightarrow> INI_FILE_v1 \<times> v1_world \<Rightarrow> (INI_FILE_v1 \<times> v1_world) option" where
  "listIniFileNode_delete node = (\<lambda>(list, w). do {
     found \<leftarrow> find_sec w (if_head list) node;
     if \<not> found then Some (list, w)
     else if if_head list = if_tail list
     then do { w \<leftarrow> free_secn node w; Some (list, w) }
     else do {
       (list, w) \<leftarrow> unlink_sec node (list, w);
       n \<leftarrow> sec_heap w node;
       w \<leftarrow> listkeyValueNode_deleteall (sn_list n) w;
       w \<leftarrow> free_secn node w;
       Some (list, w)
     }
   })"

declare find_kv.simps [code] and find_sec.simps [code] and deleteall_loop.simps [code]

end
