(* ===== verification/V1_Parse.thy ===== *)
theory V1_Parse
  imports V1_Lists
begin

text \<open>
  Reading an ini file in \<^verbatim>\<open>v1.0.0/inifile.c\<close>: the line functions, the searches, and
  \<^verbatim>\<open>initLineContext\<close> to \<^verbatim>\<open>readIniFile\<close>. The name fields of the nodes are arrays of 68 bytes.
\<close>

section \<open>Lines\<close>

fun spacetab_loop :: "string \<Rightarrow> nat option" where
  "spacetab_loop [] = Some 0"
| "spacetab_loop (c # cs) =
     (if c = CONTENT_SPACE \<or> c = CONTENT_TAB
      then (if byte_at cs 0 = NUL then None else map_option Suc (spacetab_loop cs))
      else Some 0)"

definition delete_spacetab_begin :: "string \<Rightarrow> nat option" where
  "delete_spacetab_begin line = (if byte_at line 0 = CONTENT_NEELINE then None else spacetab_loop line)"

fun equality_loop :: "string \<Rightarrow> nat \<Rightarrow> nat" where
  "equality_loop [] index = 0"
| "equality_loop (c # cs) index =
     (if c = CONTENT_EQUALITY then index else if byte_at cs 0 = NUL then 0 else equality_loop cs (index + 1))"

definition isKeyValueLine :: "string \<Rightarrow> nat" where
  "isKeyValueLine line = equality_loop line 0"

text \<open>
  \<^verbatim>\<open>copyBeginEnd\<close> into one of the arrays. A negative length becomes a huge \<^verbatim>\<open>size_t\<close> in the call of
  \<^verbatim>\<open>memcpy\<close>.
\<close>

definition NODE_STRING_LEN :: nat where
  "NODE_STRING_LEN = MAX_STRING_LEN + 4"

definition copyBeginEnd :: "string \<Rightarrow> string \<Rightarrow> int \<Rightarrow> int \<Rightarrow> string option" where
  "copyBeginEnd dest source b e =
     (if e < b \<or> e - b > int NODE_STRING_LEN then None
      else Some (put_bytes dest 0 (map (byte_at source) [nat b..<nat e])))"

text \<open>\<^verbatim>\<open>strlen\<close> on one of the arrays runs past it when it holds no terminator.\<close>

definition arr_str :: "string \<Rightarrow> string option" where
  "arr_str s = (if length (cstr s) < NODE_STRING_LEN then Some (cstr s) else None)"

section \<open>Searching\<close>

text \<open>\<^verbatim>\<open>while(com_len > len)\<close> over the bytes of the stored name behind the searched one.\<close>

fun blank_loop :: "string \<Rightarrow> bool" where
  "blank_loop [] = True"
| "blank_loop (c # cs) = (if c \<noteq> CONTENT_SPACE \<and> c \<noteq> CONTENT_TAB then False else blank_loop cs)"

text \<open>The comparison of both searches.\<close>

definition name_matches :: "string \<Rightarrow> string \<Rightarrow> bool option" where
  "name_matches stored name =
     (let len = length (cstr name) in
      if len > NODE_STRING_LEN then None
      else if memcmp (map (byte_at stored) [0..<len]) (cstr name) \<noteq> 0 then Some False
      else do {
        s \<leftarrow> arr_str stored;
        Some (if length s = len then True else if length s > len then blank_loop (drop len s) else False)
      })"

partial_function (option) key_loop :: "v1_world \<Rightarrow> nat option \<Rightarrow> string \<Rightarrow> nat option option" where
  "key_loop w p key =
     (case p of
        None \<Rightarrow> Some None
      | Some a \<Rightarrow> (case kv_heap w a of
          None \<Rightarrow> None
        | Some n \<Rightarrow> (case name_matches (kn_key n) key of
            None \<Rightarrow> None
          | Some m \<Rightarrow> if m then Some (Some a) else key_loop w (kn_next n) key)))"

definition findIniKeyValue :: "v1_world \<Rightarrow> nat \<Rightarrow> string \<Rightarrow> nat option option" where
  "findIniKeyValue w node key = do {
     n \<leftarrow> sec_heap w node;
     (case sn_list n of
        None \<Rightarrow> Some None
      | Some l \<Rightarrow> if \<not> listkeyValueNode_is_empty l then Some None else key_loop w (kl_head l) key)
   }"

partial_function (option) section_loop :: "v1_world \<Rightarrow> nat option \<Rightarrow> string \<Rightarrow> nat option option" where
  "section_loop w p section =
     (case p of
        None \<Rightarrow> Some None
      | Some a \<Rightarrow> (case sec_heap w a of
          None \<Rightarrow> None
        | Some n \<Rightarrow> (case name_matches (sn_section n) section of
            None \<Rightarrow> None
          | Some m \<Rightarrow> if m then Some (Some a) else section_loop w (sn_next n) section)))"

definition findIniFileNode :: "INI_FILE_v1 \<Rightarrow> v1_world \<Rightarrow> string \<Rightarrow> nat option option" where
  "findIniFileNode f w section =
     (if \<not> listIniFileNode_is_empty f then Some None else section_loop w (if_head f) section)"

section \<open>Building the lists\<close>

type_synonym v1_state = "INI_FILE_v1 \<times> v1_world"

definition initLineNode :: "string \<Rightarrow> v1_state \<Rightarrow> (int \<times> v1_state) option" where
  "initLineNode line = (\<lambda>(f, w). do {
     let (a, w) = new_sec w;
     sec \<leftarrow> copyBeginEnd [] line 1 (int (length (cstr line)) - 2);
     w \<leftarrow> upd_secn a (\<lambda>n. n\<lparr>sn_isNote := 0, sn_section := sec\<rparr>) w;
     name \<leftarrow> arr_str sec;
     found \<leftarrow> findIniFileNode f w name;
     if found \<noteq> None then do { w \<leftarrow> free_secn a w; Some (REPEATNODEKEY, f, w) }
     else do { st \<leftarrow> listIniFileNode_insert a (f, w); Some (0, st) }
   })"

text \<open>A comment ahead of all sections is a section node of its own.\<close>

definition note_section :: "string \<Rightarrow> v1_state \<Rightarrow> v1_state option" where
  "note_section line = (\<lambda>(f, w). do {
     let (a, w) = new_sec w;
     sec \<leftarrow> copyBeginEnd [] line 1 (int (length (cstr line)));
     w \<leftarrow> upd_secn a (\<lambda>n. n\<lparr>sn_isNote := 1, sn_section := sec\<rparr>) w;
     listIniFileNode_insert a (f, w)
   })"

text \<open>Appending a key node to the list of a section, which is created when it does not exist.\<close>

definition insert_key :: "nat \<Rightarrow> nat \<Rightarrow> v1_world \<Rightarrow> v1_world option" where
  "insert_key s a w = do {
     n \<leftarrow> sec_heap w s;
     (l, w) \<leftarrow> listkeyValueNode_insert a
        (case sn_list n of None \<Rightarrow> listkeyValueNode_init | Some l \<Rightarrow> l, w);
     upd_secn s (\<lambda>n. n\<lparr>sn_list := Some l\<rparr>) w
   }"

definition note_key :: "nat \<Rightarrow> string \<Rightarrow> v1_world \<Rightarrow> v1_world option" where
  "note_key s line w = do {
     let (a, w) = new_kv w;
     key \<leftarrow> copyBeginEnd [] line 1 (int (length (cstr line)));
     w \<leftarrow> upd_kvn a (\<lambda>n. n\<lparr>kn_isNote := 1, kn_key := key\<rparr>) w;
     insert_key s a w
   }"

definition initLineNotes :: "string \<Rightarrow> v1_state \<Rightarrow> v1_state option" where
  "initLineNotes line = (\<lambda>(f, w).
     case if_tail f of
       None \<Rightarrow> note_section line (f, w)
     | Some s \<Rightarrow> do {
         n \<leftarrow> sec_heap w s;
         if sn_isNote n = 1 then note_section line (f, w)
         else do { w \<leftarrow> note_key s line w; Some (f, w) }
       })"

text \<open>
  \<^verbatim>\<open>initLineKeyValue\<close> for a real section. The first key of a section is not searched for; the others are,
  ahead of the copy of the value.
\<close>

definition line_key_value :: "nat \<Rightarrow> string \<Rightarrow> nat \<Rightarrow> v1_world \<Rightarrow> (int \<times> v1_world) option" where
  "line_key_value s line index w = do {
     n \<leftarrow> sec_heap w s;
     let (a, w) = new_kv w;
     key \<leftarrow> copyBeginEnd [] line 0 (int index);
     w \<leftarrow> upd_kvn a (\<lambda>n. n\<lparr>kn_isNote := 0, kn_key := key\<rparr>) w;
     found \<leftarrow> (if sn_list n = None then Some None else do { k \<leftarrow> arr_str key; findIniKeyValue w s k });
     if found \<noteq> None then do { w \<leftarrow> free_kvn a w; Some (REPEATNODEKEY, w) }
     else do {
       val \<leftarrow> copyBeginEnd [] line (int index + 1) (int (length (cstr line)) - 1);
       w \<leftarrow> upd_kvn a (\<lambda>n. n\<lparr>kn_value := val\<rparr>) w;
       w \<leftarrow> insert_key s a w;
       Some (0, w)
     }
   }"

definition initLineKeyValue :: "string \<Rightarrow> nat \<Rightarrow> v1_state \<Rightarrow> (int \<times> v1_state) option" where
  "initLineKeyValue line index = (\<lambda>(f, w).
     case if_tail f of
       None \<Rightarrow> Some (0, f, w)
     | Some s \<Rightarrow> do {
         n \<leftarrow> sec_heap w s;
         if sn_isNote n = 1 then Some (0, f, w)
         else do { (ret, w) \<leftarrow> line_key_value s line index w; Some (ret, f, w) }
       })"

definition initLineContext :: "string \<Rightarrow> v1_state \<Rightarrow> (int \<times> v1_state) option" where
  "initLineContext line st =
     (case delete_spacetab_begin line of
        None \<Rightarrow> Some (ERRORTYPR, st)
      | Some k \<Rightarrow>
          let p_char = drop k line; index = isKeyValueLine line in
          if byte_at p_char 0 = CONTENT_NEELINE then Some (ERRORTYPR, st)
          else if byte_at p_char 0 = CONTENT_SECTION
          then (if length (cstr p_char) > MAX_STRING_LEN + 2 then Some (TOOLONG, st)
                else do {
                  (ret, st) \<leftarrow> initLineNode p_char st;
                  Some (if ret < 0 then ret else NODETYPE, st)
                })
          else if byte_at line 0 = CONTENT_COMMA
          then (if length (cstr line) > MAX_STRING_LEN then Some (TOOLONG, st)
                else do { st \<leftarrow> initLineNotes line st; Some (NOTESTYPE, st) })
          else if index > 0
          then (if length (cstr line) > MAX_FILLINE_LEN then Some (TOOLONG, st)
                else do {
                  (ret, st) \<leftarrow> initLineKeyValue line index st;
                  Some (if ret < 0 then ret else KEYVALUE, st)
                })
          else Some (ERRORTYPR, st))"

text \<open>The loop over \<^verbatim>\<open>fgets\<close>; the buffer is zero whenever \<^verbatim>\<open>fgets\<close> is called.\<close>

fun read_loop :: "string list \<Rightarrow> v1_state \<Rightarrow> (int \<times> v1_state) option" where
  "read_loop [] st = Some (0, st)"
| "read_loop (c # cs) st = do {
     (ret, st) \<leftarrow> initLineContext (fgets_into [] c) st;
     if ret < 0 then Some (ret, st) else read_loop cs st
   }"

definition v1_chunks :: "string \<Rightarrow> string list" where
  "v1_chunks content = fgets_chunks (MAX_FILLINE_LEN - 1) content"

text \<open>\<^verbatim>\<open>fopen(filename, "a+")\<close> creates a file that does not exist.\<close>

definition readIniFile :: "string \<Rightarrow> v1_state \<Rightarrow> (int \<times> v1_state) option" where
  "readIniFile filename = (\<lambda>(f, w).
     if fs_denied (v1_fs w) filename then Some (OPENFILEERROR, f, w)
     else case fs_files (v1_fs w) filename of
       None \<Rightarrow> Some (0, f, w\<lparr>v1_fs := fs_write filename [] (v1_fs w)\<rparr>)
     | Some content \<Rightarrow> read_loop (v1_chunks content) (f, w))"

declare key_loop.simps [code] and section_loop.simps [code]

end
