(* ===== verification/V1_Api.thy ===== *)
theory V1_Api
  imports V1_Parse
begin

text \<open>
  Writing the file back and the exported operations of \<^verbatim>\<open>v1.0.0/inifile.c\<close>. An \<^verbatim>\<open>INI_FILE *\<close> argument is
  \<open>None\<close> for \<^verbatim>\<open>NULL\<close>; the strings of \<^verbatim>\<open>INI_PARAMETER\<close> belong to the caller.
\<close>

section \<open>Writing the file\<close>

text \<open>
  The loop \<^verbatim>\<open>while(bytes_write=write(file_fd,ptr,buffersSize))\<close>: whether \<^verbatim>\<open>WRITEERROR\<close> is returned, the
  answers that are left, and the bytes that reach the file.
\<close>

fun write_loop :: "write_answer list \<Rightarrow> string \<Rightarrow> bool \<times> write_answer list \<times> string" where
  "write_loop [] ptr = (False, [], ptr)"
| "write_loop (Failed # as) ptr = (True, as, [])"
| "write_loop (Interrupted # as) ptr = write_loop as ptr"
| "write_loop (Wrote k # as) ptr =
     (let bytes = take k ptr in
      if bytes = [] \<or> bytes = ptr then (False, as, bytes)
      else case write_loop as (drop k ptr) of (err, as', out) \<Rightarrow> (err, as', bytes @ out))"

text \<open>The line of a node in the buffer of 132 bytes; \<^verbatim>\<open>strcat\<close> past its end is undefined.\<close>

definition in_buffer :: "string \<Rightarrow> string option" where
  "in_buffer s = (if length s < MAX_FILLINE_LEN + 4 then Some s else None)"

definition node_section_line :: "IniFileNode \<Rightarrow> string option" where
  "node_section_line n = do {
     name \<leftarrow> arr_str (sn_section n);
     in_buffer ([CONTENT_NEELINE] @
       (if sn_isNote n = 1 then [CONTENT_COMMA] @ name @ [CONTENT_NEELINE]
        else if sn_isNote n = 0 then [CONTENT_SECTION] @ name @ '']'' @ [CONTENT_NEELINE] else []))
   }"

definition node_key_line :: "KeyValueNode \<Rightarrow> string option" where
  "node_key_line n =
     (if kn_isNote n = 1
      then do { key \<leftarrow> arr_str (kn_key n); in_buffer ([CONTENT_COMMA] @ key @ [CONTENT_NEELINE]) }
      else if kn_isNote n = 0
      then do {
        key \<leftarrow> arr_str (kn_key n);
        val \<leftarrow> arr_str (kn_value n);
        in_buffer (key @ [CONTENT_EQUALITY] @ val @ [CONTENT_NEELINE])
      }
      else Some [])"

text \<open>Writing one buffer: \<open>True\<close> is \<^verbatim>\<open>return WRITEERROR\<close>.\<close>

definition write_buffer :: "string \<Rightarrow> string \<Rightarrow> v1_world \<Rightarrow> bool \<times> v1_world" where
  "write_buffer name buffer w =
     (case write_loop (v1_writes w) buffer of (err, as, out) \<Rightarrow>
        (err, w\<lparr>v1_writes := as, v1_fs := fs_write name (the (fs_files (v1_fs w) name) @ out) (v1_fs w)\<rparr>))"

partial_function (option) write_keys :: "string \<Rightarrow> nat option \<Rightarrow> v1_world \<Rightarrow> (bool \<times> v1_world) option" where
  "write_keys name q w =
     (case q of
        None \<Rightarrow> Some (False, w)
      | Some a \<Rightarrow> (case kv_heap w a of
          None \<Rightarrow> None
        | Some n \<Rightarrow> (case node_key_line n of
            None \<Rightarrow> None
          | Some buffer \<Rightarrow> (case write_buffer name buffer w of (err, w') \<Rightarrow>
              if err then Some (True, w') else write_keys name (kn_next n) w'))))"

partial_function (option) write_sections :: "string \<Rightarrow> nat option \<Rightarrow> v1_world \<Rightarrow> (int \<times> v1_world) option" where
  "write_sections name p w =
     (case p of
        None \<Rightarrow> Some (0, w)
      | Some a \<Rightarrow> (case sec_heap w a of
          None \<Rightarrow> None
        | Some n \<Rightarrow> (case node_section_line n of
            None \<Rightarrow> None
          | Some buffer \<Rightarrow> (case write_buffer name buffer w of (err, w') \<Rightarrow>
              if err then Some (WRITEERROR, w')
              else case (case sn_list n of None \<Rightarrow> Some (False, w') | Some l \<Rightarrow> write_keys name (kl_head l) w') of
                None \<Rightarrow> None
              | Some (err', w'') \<Rightarrow> if err' then Some (WRITEERROR, w'') else write_sections name (sn_next n) w''))))"

text \<open>
  \<^verbatim>\<open>updateIniFile\<close>. The file is opened with \<^verbatim>\<open>O_TRUNC\<close> and without \<^verbatim>\<open>O_CREAT\<close>. A name of 64 bytes has no
  terminator in \<^verbatim>\<open>fileName\<close>.
\<close>

definition updateIniFile :: "INI_FILE_v1 \<Rightarrow> v1_world \<Rightarrow> (int \<times> v1_world) option" where
  "updateIniFile f w =
     (if \<not> listIniFileNode_is_empty f then Some (EMPTYLIST, w)
      else if length (cstr (if_fileName f)) \<ge> MAX_FILENAME_LEN then None
      else let name = cstr (if_fileName f) in
        if \<not> can_open (v1_fs w) name then Some (OPENFILEERROR, w)
        else write_sections name (if_head f) (w\<lparr>v1_fs := fs_write name [] (v1_fs w)\<rparr>))"

section \<open>Releasing\<close>

partial_function (option) destory_loop :: "nat option \<Rightarrow> nat option \<Rightarrow> v1_world \<Rightarrow> v1_world option" where
  "destory_loop head tail w =
     (case tail of
        None \<Rightarrow> None
      | Some a \<Rightarrow> (case sec_heap w a of
          None \<Rightarrow> None
        | Some n \<Rightarrow> (case listkeyValueNode_deleteall (sn_list n) w of
            None \<Rightarrow> None
          | Some w' \<Rightarrow>
              let w'' = w'\<lparr>sec_heap := (sec_heap w')(a := None)\<rparr> in
              if tail \<noteq> head then destory_loop head (sn_pre n) w'' else Some w'')))"

definition destoryListIniFileNode :: "INI_FILE_v1 \<Rightarrow> v1_world \<Rightarrow> v1_world option" where
  "destoryListIniFileNode f w =
     (if \<not> listIniFileNode_is_empty f then Some w else destory_loop (if_head f) (if_tail f) w)"

section \<open>Parameters\<close>

record INI_PARAMETER_v1 =
  pr_section :: "string option"
  pr_section_len :: int
  pr_key :: "string option"
  pr_key_len :: int
  pr_value :: "string option"
  pr_value_len :: int

datatype METHOD_TYPE = initIniFile_type | getValueOfKey_type | updateValueOfKey_type | addValueOfKey_type
  | deleteValueOfKey_type | deleteSection_type | addSetction_type | exitOperationIniFile_type

definition bad_arg :: "string option \<Rightarrow> int \<Rightarrow> bool" where
  "bad_arg s len \<longleftrightarrow> s = None \<or> len \<le> 0 \<or> len > int MAX_STRING_LEN"

text \<open>\<^verbatim>\<open>p_char = s + len; if(*p_char != '\0') return false;\<close> \<open>None\<close> is reading through \<^verbatim>\<open>NULL\<close> or ahead of the string.\<close>

definition ends_at :: "string option \<Rightarrow> int \<Rightarrow> bool option" where
  "ends_at s len = (case s of None \<Rightarrow> None | Some t \<Rightarrow> if len < 0 then None else Some (byte_at t (nat len) = NUL))"

definition all_end :: "(string option \<times> int) list \<Rightarrow> bool option" where
  "all_end args = foldr (\<lambda>(s, len) r. do { e \<leftarrow> ends_at s len; if e then r else Some False }) args (Some True)"

definition ini_parameter_check :: "INI_PARAMETER_v1 \<Rightarrow> METHOD_TYPE \<Rightarrow> bool option" where
  "ini_parameter_check p type =
     (let s = (pr_section p, pr_section_len p); k = (pr_key p, pr_key_len p); v = (pr_value p, pr_value_len p) in
      case type of
        getValueOfKey_type \<Rightarrow>
          if case_prod bad_arg s \<or> case_prod bad_arg k then Some False else all_end [s, k]
      | updateValueOfKey_type \<Rightarrow>
          if case_prod bad_arg s \<or> case_prod bad_arg k \<or> case_prod bad_arg v then Some False else all_end [s, k, v]
      | addValueOfKey_type \<Rightarrow>
          if case_prod bad_arg s \<or> case_prod bad_arg k \<or> case_prod bad_arg v then Some False else all_end [s, k, v]
      | deleteValueOfKey_type \<Rightarrow>
          if case_prod bad_arg s \<or> case_prod bad_arg k then Some False else all_end [s, k]
      | deleteSection_type \<Rightarrow> if case_prod bad_arg s then Some False else all_end [s, k]
      | addSetction_type \<Rightarrow> if case_prod bad_arg s then Some False else all_end [s, k]
      | _ \<Rightarrow> Some False)"

section \<open>The exported operations\<close>

definition initIniFile :: "string option \<Rightarrow> int \<Rightarrow> v1_world \<Rightarrow> (INI_FILE_v1 option \<times> v1_world) option" where
  "initIniFile fileName len w =
     (case fileName of
        None \<Rightarrow> Some (None, w)
      | Some name \<Rightarrow>
          if len > int MAX_FILENAME_LEN \<or> len \<le> 0 then Some (None, w)
          else if byte_at name (nat len) \<noteq> NUL then Some (None, w)
          else if \<not> can_open (v1_fs w) (cstr name) then Some (None, w)
          else do {
            let f = listIniFileNode_init\<lparr>if_fileName := map (byte_at name) [0..<nat len]\<rparr>;
            (ret, f, w) \<leftarrow> readIniFile (cstr name) (f, w);
            Some (if ret < 0 then None else Some f, w)
          })"

text \<open>The result of \<^verbatim>\<open>getValueOfKey\<close> is the string at the returned pointer.\<close>

definition getValueOfKey :: "INI_FILE_v1 option \<Rightarrow> INI_PARAMETER_v1 \<Rightarrow> v1_world \<Rightarrow> string option option" where
  "getValueOfKey p_inifile par w =
     (case p_inifile of
        None \<Rightarrow> Some None
      | Some f \<Rightarrow> do {
          ok \<leftarrow> ini_parameter_check par getValueOfKey_type;
          if \<not> ok then Some None
          else do {
            p \<leftarrow> findIniFileNode f w (the (pr_section par));
            (case p of
               None \<Rightarrow> Some None
             | Some s \<Rightarrow> do {
                 q \<leftarrow> findIniKeyValue w s (the (pr_key par));
                 (case q of
                    None \<Rightarrow> Some None
                  | Some k \<Rightarrow> do {
                      n \<leftarrow> kv_heap w k;
                      Some (map_option (\<lambda>i. cstr (drop i (kn_value n))) (delete_spacetab_begin (kn_value n)))
                    })
               })
          }
        })"

text \<open>The bytes \<^verbatim>\<open>memcpy\<close> takes from an argument.\<close>

definition arg_bytes_v1 :: "string option \<Rightarrow> int \<Rightarrow> string" where
  "arg_bytes_v1 s len = map (byte_at (the s)) [0..<nat len]"

text \<open>The value that \<^verbatim>\<open>updateValueOfKey\<close> leaves in the array: only 64 of its 68 bytes are cleared.\<close>

definition new_value :: "string \<Rightarrow> INI_PARAMETER_v1 \<Rightarrow> string" where
  "new_value old par =
     put_bytes (put_bytes old 0 (replicate MAX_STRING_LEN NUL)) 0
       ([CONTENT_SPACE] @ arg_bytes_v1 (pr_value par) (pr_value_len par) @ [CONTENT_NEELINE])"

definition updateValueOfKey :: "INI_FILE_v1 option \<Rightarrow> INI_PARAMETER_v1 \<Rightarrow> v1_world \<Rightarrow> (int \<times> v1_world) option" where
  "updateValueOfKey p_inifile par w =
     (case p_inifile of
        None \<Rightarrow> Some (-1, w)
      | Some f \<Rightarrow> do {
          ok \<leftarrow> ini_parameter_check par updateValueOfKey_type;
          if \<not> ok then Some (-1, w)
          else do {
            p \<leftarrow> findIniFileNode f w (the (pr_section par));
            (case p of
               None \<Rightarrow> Some (-2, w)
             | Some s \<Rightarrow> do {
                 q \<leftarrow> findIniKeyValue w s (the (pr_key par));
                 (case q of
                    None \<Rightarrow> Some (-3, w)
                  | Some k \<Rightarrow> do {
                      w \<leftarrow> upd_kvn k (\<lambda>n. n\<lparr>kn_value := new_value (kn_value n) par\<rparr>) w;
                      (_, w) \<leftarrow> updateIniFile f w;
                      Some (0, w)
                    })
               })
          }
        })"

definition addValueOfKey :: "INI_FILE_v1 option \<Rightarrow> INI_PARAMETER_v1 \<Rightarrow> v1_world \<Rightarrow> (int \<times> v1_world) option" where
  "addValueOfKey p_inifile par w =
     (case p_inifile of
        None \<Rightarrow> Some (-1, w)
      | Some f \<Rightarrow> do {
          ok \<leftarrow> ini_parameter_check par addValueOfKey_type;
          if \<not> ok then Some (-1, w)
          else do {
            p \<leftarrow> findIniFileNode f w (the (pr_section par));
            (case p of
               None \<Rightarrow> Some (-2, w)
             | Some s \<Rightarrow> do {
                 q \<leftarrow> findIniKeyValue w s (the (pr_key par));
                 if q \<noteq> None then Some (-3, w)
                 else do {
                   let (a, w) = new_kv w;
                   w \<leftarrow> upd_kvn a (\<lambda>n. n\<lparr>
                          kn_key := arg_bytes_v1 (pr_key par) (pr_key_len par) @ [CONTENT_TAB],
                          kn_value := [CONTENT_SPACE] @ arg_bytes_v1 (pr_value par) (pr_value_len par) @ [CONTENT_NEELINE]\<rparr>) w;
                   w \<leftarrow> insert_key s a w;
                   (_, w) \<leftarrow> updateIniFile f w;
                   Some (0, w)
                 }
               })
          }
        })"

definition deleteValueOfKey :: "INI_FILE_v1 option \<Rightarrow> INI_PARAMETER_v1 \<Rightarrow> v1_world \<Rightarrow> (int \<times> v1_world) option" where
  "deleteValueOfKey p_inifile par w =
     (case p_inifile of
        None \<Rightarrow> Some (-1, w)
      | Some f \<Rightarrow> do {
          ok \<leftarrow> ini_parameter_check par deleteValueOfKey_type;
          if \<not> ok then Some (-1, w)
          else do {
            p \<leftarrow> findIniFileNode f w (the (pr_section par));
            (case p of
               None \<Rightarrow> Some (-2, w)
             | Some s \<Rightarrow> do {
                 q \<leftarrow> findIniKeyValue w s (the (pr_key par));
                 (case q of
                    None \<Rightarrow> Some (-3, w)
                  | Some k \<Rightarrow> do {
                      n \<leftarrow> sec_heap w s;
                      l \<leftarrow> sn_list n;
                      (l, w) \<leftarrow> listkeyValueNode_delete k (l, w);
                      w \<leftarrow> upd_secn s (\<lambda>n. n\<lparr>sn_list := Some l\<rparr>) w;
                      (_, w) \<leftarrow> updateIniFile f w;
                      Some (0, w)
                    })
               })
          }
        })"

text \<open>The two operations on sections also change the \<^verbatim>\<open>INI_FILE\<close> structure.\<close>

definition deleteSection :: "INI_FILE_v1 option \<Rightarrow> INI_PARAMETER_v1 \<Rightarrow> v1_world \<Rightarrow> (int \<times> INI_FILE_v1 option \<times> v1_world) option" where
  "deleteSection p_inifile par w =
     (case p_inifile of
        None \<Rightarrow> Some (-1, None, w)
      | Some f \<Rightarrow> do {
          ok \<leftarrow> ini_parameter_check par deleteSection_type;
          if \<not> ok then Some (-1, Some f, w)
          else do {
            p \<leftarrow> findIniFileNode f w (the (pr_section par));
            (case p of
               None \<Rightarrow> Some (-2, Some f, w)
             | Some s \<Rightarrow> do {
                 (f, w) \<leftarrow> listIniFileNode_delete s (f, w);
                 (_, w) \<leftarrow> updateIniFile f w;
                 Some (0, Some f, w)
               })
          }
        })"

definition addSetction :: "INI_FILE_v1 option \<Rightarrow> INI_PARAMETER_v1 \<Rightarrow> v1_world \<Rightarrow> (int \<times> INI_FILE_v1 option \<times> v1_world) option" where
  "addSetction p_inifile par w =
     (case p_inifile of
        None \<Rightarrow> Some (-1, None, w)
      | Some f \<Rightarrow> do {
          ok \<leftarrow> ini_parameter_check par addSetction_type;
          if \<not> ok then Some (-1, Some f, w)
          else do {
            p \<leftarrow> findIniFileNode f w (the (pr_section par));
            if p \<noteq> None then Some (-2, Some f, w)
            else do {
              let (a, w) = new_sec w;
              sec \<leftarrow> copyBeginEnd [] (the (pr_section par)) 0 (pr_section_len par);
              w \<leftarrow> upd_secn a (\<lambda>n. n\<lparr>sn_isNote := 0, sn_section := sec\<rparr>) w;
              name \<leftarrow> arr_str sec;
              p \<leftarrow> findIniFileNode f w name;
              if p \<noteq> None then do { w \<leftarrow> free_secn a w; Some (-1, Some f, w) }
              else do {
                (f, w) \<leftarrow> listIniFileNode_insert a (f, w);
                (_, w) \<leftarrow> updateIniFile f w;
                Some (0, Some f, w)
              }
            }
          }
        })"

definition exitOperationIniFile :: "INI_FILE_v1 option \<Rightarrow> v1_world \<Rightarrow> (int \<times> INI_FILE_v1 option \<times> v1_world) option" where
  "exitOperationIniFile p_inifile w =
     (case p_inifile of
        None \<Rightarrow> Some (-1, None, w)
      | Some f \<Rightarrow> do { w \<leftarrow> destoryListIniFileNode f w; Some (0, None, w) })"

declare write_keys.simps [code] and write_sections.simps [code] and destory_loop.simps [code]

end
