(* ===== verification/Heap_Lists.thy ===== *)
theory Heap_Lists
  imports Node_Lists
begin

text \<open>
  Doubly linked lists with a head and a tail pointer whose nodes are allocated one by one, as in
  \<^verbatim>\<open>v1.0.0/inifile.c\<close>. \<open>heap_list_ok\<close> says that the pointers form the list \<open>xs\<close> of live nodes. The locale
  \<open>heap_list\<close> is the contract of an operation that appends a node, \<open>heap_list_delete\<close> adds one that takes a
  node out of a list of at least two.
\<close>

definition heap_list_ok ::
  "(nat \<Rightarrow> nat option) \<Rightarrow> (nat \<Rightarrow> nat option) \<Rightarrow> nat option \<Rightarrow> nat option \<Rightarrow> (nat \<Rightarrow> 'd option) \<Rightarrow> nat list \<Rightarrow> bool" where
  "heap_list_ok nxt prv head tail data xs \<longleftrightarrow>
     dchain nxt prv None head xs \<and> tail = (if xs = [] then None else Some (last xs)) \<and>
     (\<forall>x \<in> set xs. data x \<noteq> None)"

lemma heap_list_okD:
  assumes "heap_list_ok nxt prv head tail data xs"
  shows "dchain nxt prv None head xs" "chain nxt head xs" "distinct xs"
    "tail = (if xs = [] then None else Some (last xs))" "\<And>x. x \<in> set xs \<Longrightarrow> data x \<noteq> None"
    "head = None \<longleftrightarrow> xs = []"
proof -
  show d: "dchain nxt prv None head xs" and "tail = (if xs = [] then None else Some (last xs))"
    and "\<And>x. x \<in> set xs \<Longrightarrow> data x \<noteq> None" using assms by (auto simp: heap_list_ok_def)
  show c: "chain nxt head xs" by (rule dchain_imp_chain[OF d])
  show "distinct xs" by (rule chain_distinct[OF c])
  show "head = None \<longleftrightarrow> xs = []" using c by (cases xs) auto
qed

lemma heap_list_ok_Nil [simp]: "heap_list_ok nxt prv head tail data [] \<longleftrightarrow> head = None \<and> tail = None"
  by (auto simp: heap_list_ok_def)

lemma heap_list_ok_cong:
  assumes "\<And>x. x \<in> set xs \<Longrightarrow> nxt' x = nxt x \<and> prv' x = prv x \<and> (data' x = None) = (data x = None)"
  shows "heap_list_ok nxt' prv' head tail data' xs = heap_list_ok nxt prv head tail data xs"
proof -
  have "dchain nxt' prv' None head xs = dchain nxt prv None head xs" by (rule dchain_cong) (use assms in auto)
  then show ?thesis using assms by (auto simp: heap_list_ok_def)
qed

lemma dchain_middle_prv: "dchain nxt prv q p (as @ n # bs) \<Longrightarrow> prv n = (if as = [] then q else Some (last as))"
  by (induction as arbitrary: p q) auto

lemma chain_first: "chain nxt (Some a) xs \<Longrightarrow> \<exists>ys. xs = a # ys \<and> chain nxt (nxt a) ys"
  by (cases xs) auto

locale heap_list =
  fixes nxt prv :: "'w \<Rightarrow> nat \<Rightarrow> nat option" and head tail :: "'w \<Rightarrow> nat option"
    and data :: "'w \<Rightarrow> nat \<Rightarrow> 'd option" and rest :: "'w \<Rightarrow> 'r"
    and insert_node :: "nat \<Rightarrow> 'w \<Rightarrow> 'w option"
  assumes insert_first: "head w = None \<Longrightarrow> data w n \<noteq> None \<Longrightarrow>
      \<exists>w'. insert_node n w = Some w' \<and> data w' = data w \<and> rest w' = rest w \<and> head w' = Some n \<and> tail w' = Some n \<and>
           nxt w' = (nxt w)(n := None) \<and> prv w' = (prv w)(n := None)"
    and insert_last: "head w \<noteq> None \<Longrightarrow> tail w = Some t \<Longrightarrow> t \<noteq> n \<Longrightarrow> data w t \<noteq> None \<Longrightarrow> data w n \<noteq> None \<Longrightarrow>
      \<exists>w'. insert_node n w = Some w' \<and> data w' = data w \<and> rest w' = rest w \<and> head w' = head w \<and> tail w' = Some n \<and>
           nxt w' = (nxt w)(t := Some n, n := None) \<and> prv w' = (prv w)(n := Some t)"
begin

lemma insert_ok:
  assumes ok: "heap_list_ok (nxt w) (prv w) (head w) (tail w) (data w) xs" and n: "n \<notin> set xs" "data w n \<noteq> None"
  shows "\<exists>w'. insert_node n w = Some w' \<and> data w' = data w \<and> rest w' = rest w \<and>
    heap_list_ok (nxt w') (prv w') (head w') (tail w') (data w') (xs @ [n]) \<and>
    (\<forall>x. x \<notin> set xs \<longrightarrow> x \<noteq> n \<longrightarrow> nxt w' x = nxt w x \<and> prv w' x = prv w x)"
proof (cases "xs = []")
  case True
  then have "head w = None" using heap_list_okD(6)[OF ok] by simp
  from insert_first[OF this n(2)] obtain w' where "insert_node n w = Some w'" "data w' = data w" "rest w' = rest w"
    "head w' = Some n" "tail w' = Some n" "nxt w' = (nxt w)(n := None)" "prv w' = (prv w)(n := None)" by blast
  then show ?thesis using True n(2) by (auto simp: heap_list_ok_def)
next
  case False
  note D = heap_list_okD[OF ok]
  let ?t = "last xs"
  have t: "head w \<noteq> None" "tail w = Some ?t" "?t \<noteq> n" "data w ?t \<noteq> None"
    using False D(4,6) D(5)[of ?t] n(1) last_in_set[OF False] by auto
  from insert_last[OF t n(2)] obtain w' where w': "insert_node n w = Some w'" "data w' = data w" "rest w' = rest w"
    "head w' = head w" "tail w' = Some n" "nxt w' = (nxt w)(?t := Some n, n := None)" "prv w' = (prv w)(n := Some ?t)" by blast
  have "dchain (nxt w') (prv w') None (head w') (xs @ [n])"
    unfolding w'(4)
    by (rule dchain_append_node[OF D(1) False D(3) n(1)]) (use w' n(1) t(3) in auto)
  then show ?thesis using w' D(5) n(2) False by (auto simp: heap_list_ok_def)
qed

end

locale heap_list_delete = heap_list nxt prv head tail data rest insert_node
  for nxt prv :: "'w \<Rightarrow> nat \<Rightarrow> nat option" and head tail :: "'w \<Rightarrow> nat option"
    and data :: "'w \<Rightarrow> nat \<Rightarrow> 'd option" and rest :: "'w \<Rightarrow> 'r"
    and insert_node :: "nat \<Rightarrow> 'w \<Rightarrow> 'w option" +
  fixes unlink :: "nat \<Rightarrow> 'w \<Rightarrow> 'w option"
  assumes unlink_law: "data w n \<noteq> None \<Longrightarrow> prv w n \<noteq> None \<or> nxt w n \<noteq> None \<Longrightarrow>
      (\<And>p. prv w n = Some p \<Longrightarrow> p \<noteq> n \<and> data w p \<noteq> None) \<Longrightarrow> (\<And>m. nxt w n = Some m \<Longrightarrow> m \<noteq> n \<and> data w m \<noteq> None) \<Longrightarrow>
      \<exists>w'. unlink n w = Some w' \<and> data w' = data w \<and> rest w' = rest w \<and>
           head w' = (if prv w n = None then nxt w n else head w) \<and>
           tail w' = (if nxt w n = None then prv w n else tail w) \<and>
           nxt w' = (case prv w n of Some p \<Rightarrow> (nxt w)(p := nxt w n) | None \<Rightarrow> nxt w) \<and>
           prv w' = (case nxt w n of Some m \<Rightarrow> (prv w)(m := prv w n) | None \<Rightarrow> prv w)"
begin

lemma unlink_ok:
  assumes ok: "heap_list_ok (nxt w) (prv w) (head w) (tail w) (data w) xs" and n: "n \<in> set xs" and two: "xs \<noteq> [n]"
  shows "\<exists>w'. unlink n w = Some w' \<and> data w' = data w \<and> rest w' = rest w \<and>
    heap_list_ok (nxt w') (prv w') (head w') (tail w') (data w') (remove1 n xs) \<and>
    (\<forall>x. x \<notin> set xs \<longrightarrow> nxt w' x = nxt w x \<and> prv w' x = prv w x)"
proof -
  note D = heap_list_okD[OF ok]
  obtain as bs where xs: "xs = as @ n # bs" using n by (meson split_list)
  have nn: "n \<notin> set as" "n \<notin> set bs" "set as \<inter> set bs = {}" "distinct as" "distinct bs" using D(3) xs by auto
  have rem: "remove1 n xs = as @ bs" using xs nn by (simp add: remove1_append)
  have nx: "nxt w n = (if bs = [] then None else Some (hd bs))"
    using D(2) xs by (cases bs) (auto simp: chain_append split: if_splits)
  have pv: "prv w n = (if as = [] then None else Some (last as))" using dchain_middle_prv D(1) xs by blast
  have two': "as \<noteq> [] \<or> bs \<noteq> []" using two xs by auto
  have "\<exists>w'. unlink n w = Some w' \<and> data w' = data w \<and> rest w' = rest w \<and>
           head w' = (if prv w n = None then nxt w n else head w) \<and> tail w' = (if nxt w n = None then prv w n else tail w) \<and>
           nxt w' = (case prv w n of Some p \<Rightarrow> (nxt w)(p := nxt w n) | None \<Rightarrow> nxt w) \<and>
           prv w' = (case nxt w n of Some m \<Rightarrow> (prv w)(m := prv w n) | None \<Rightarrow> prv w)"
    by (rule unlink_law[OF D(5)[OF n]])
       (use dchain_prv_ne[OF D(1,3) n] dchain_nxt_ne[OF D(1,3) n] D(5) two' pv nx in auto)
  then obtain w' where w': "unlink n w = Some w'" "data w' = data w" "rest w' = rest w"
    "head w' = (if prv w n = None then nxt w n else head w)" "tail w' = (if nxt w n = None then prv w n else tail w)"
    "nxt w' = (case prv w n of Some p \<Rightarrow> (nxt w)(p := nxt w n) | None \<Rightarrow> nxt w)"
    "prv w' = (case nxt w n of Some m \<Rightarrow> (prv w)(m := prv w n) | None \<Rightarrow> prv w)" by blast
  have hd: "prv w n = None \<longleftrightarrow> n = hd xs" using pv xs nn by (cases as) auto
  have "dchain (nxt w') (prv w') None (if n = hd xs then nxt w n else head w) (remove1 n xs)"
    by (rule dchain_remove[OF D(1,3) n]) (use w'(6,7) in \<open>auto split: option.splits\<close>)
  moreover have "tail w' = (if remove1 n xs = [] then None else Some (last (remove1 n xs)))"
    using w'(5) nx pv D(4) rem xs two' by auto
  moreover have "as \<noteq> [] \<Longrightarrow> last as \<in> set xs" "bs \<noteq> [] \<Longrightarrow> hd bs \<in> set xs" using xs by auto
  then have "nxt w' x = nxt w x \<and> prv w' x = prv w x" if "x \<notin> set xs" for x
    using w'(6,7) nx pv that by auto
  ultimately show ?thesis
    using w' hd D(5) by (intro exI[of _ w']) (auto simp: heap_list_ok_def dest: notin_set_remove1)
qed

end

end
