(* ===== verification/V1_Rep.thy ===== *)
theory V1_Rep
  imports V1_Api Heap_Lists
begin

text \<open>
  The heap of \<^verbatim>\<open>v1.0.0/inifile.c\<close> as a document: the lists of key nodes and of section nodes are instances
  of the list contracts, \<open>v1_rep\<close> is the representation invariant of an open file, and \<open>doc_of_v1\<close> reads the
  document off the heap.
\<close>

section \<open>The two lists\<close>

definition kv_nxt_v1 :: "v1_world \<Rightarrow> nat \<Rightarrow> nat option" where
  "kv_nxt_v1 w x = Option.bind (kv_heap w x) kn_next"

definition kv_prv_v1 :: "v1_world \<Rightarrow> nat \<Rightarrow> nat option" where
  "kv_prv_v1 w x = Option.bind (kv_heap w x) kn_pre"

definition kv_data :: "v1_world \<Rightarrow> nat \<Rightarrow> (int \<times> string \<times> string) option" where
  "kv_data w x = map_option (\<lambda>n. (kn_isNote n, kn_key n, kn_value n)) (kv_heap w x)"

definition sec_nxt_v1 :: "v1_world \<Rightarrow> nat \<Rightarrow> nat option" where
  "sec_nxt_v1 w x = Option.bind (sec_heap w x) sn_next"

definition sec_prv_v1 :: "v1_world \<Rightarrow> nat \<Rightarrow> nat option" where
  "sec_prv_v1 w x = Option.bind (sec_heap w x) sn_pre"

definition sec_data :: "v1_world \<Rightarrow> nat \<Rightarrow> (int \<times> string \<times> ListkeyValueNode option) option" where
  "sec_data w x = map_option (\<lambda>n. (sn_isNote n, sn_section n, sn_list n)) (sec_heap w x)"

lemmas kv_views = kv_nxt_v1_def kv_prv_v1_def kv_data_def
lemmas sec_views = sec_nxt_v1_def sec_prv_v1_def sec_data_def

text \<open>What the operations on one list leave alone.\<close>

definition kv_rest :: "v1_world \<Rightarrow> (nat \<Rightarrow> IniFileNode option) \<times> nat \<times> file_system \<times> write_answer list" where
  "kv_rest w = (sec_heap w, next_addr w, v1_fs w, v1_writes w)"

definition sec_rest :: "v1_world \<Rightarrow> (nat \<Rightarrow> KeyValueNode option) \<times> nat \<times> file_system \<times> write_answer list" where
  "sec_rest w = (kv_heap w, next_addr w, v1_fs w, v1_writes w)"

lemma kv_data_None [simp]: "kv_data w x = None \<longleftrightarrow> kv_heap w x = None"
  by (simp add: kv_data_def)

lemma sec_data_None [simp]: "sec_data w x = None \<longleftrightarrow> sec_heap w x = None"
  by (simp add: sec_data_def)

interpretation kvl: heap_list_delete
  "\<lambda>(l, w). kv_nxt_v1 w" "\<lambda>(l, w). kv_prv_v1 w" "\<lambda>(l, w). kl_head l" "\<lambda>(l, w). kl_tail l"
  "\<lambda>(l, w). kv_data w" "\<lambda>(l, w). kv_rest w" listkeyValueNode_insert unlink_kv
proof (unfold_locales, goal_cases)
  case (1 w n)
  then show ?case
    by (cases w) (auto simp: listkeyValueNode_insert_def upd_kvn_def kv_rest_def kv_views fun_eq_iff)
next
  case (2 w t n)
  then show ?case
    by (cases w) (auto simp: listkeyValueNode_insert_def upd_kvn_def kv_rest_def kv_views fun_eq_iff)
next
  case (3 w n)
  then show ?case
    by (cases w) (auto simp: unlink_kv_def upd_kvn_def kv_rest_def kv_views fun_eq_iff split: option.splits)
qed

interpretation secl: heap_list_delete
  "\<lambda>(f, w). sec_nxt_v1 w" "\<lambda>(f, w). sec_prv_v1 w" "\<lambda>(f, w). if_head f" "\<lambda>(f, w). if_tail f"
  "\<lambda>(f, w). sec_data w" "\<lambda>(f, w). (if_fileName f, sec_rest w)" listIniFileNode_insert unlink_sec
proof (unfold_locales, goal_cases)
  case (1 w n)
  then show ?case
    by (cases w) (auto simp: listIniFileNode_insert_def upd_secn_def sec_rest_def sec_views fun_eq_iff)
next
  case (2 w t n)
  then show ?case
    by (cases w) (auto simp: listIniFileNode_insert_def upd_secn_def sec_rest_def sec_views fun_eq_iff)
next
  case (3 w n)
  then show ?case
    by (cases w) (auto simp: unlink_sec_def upd_secn_def sec_rest_def sec_views fun_eq_iff split: option.splits)
qed

abbreviation kvs_ok :: "v1_world \<Rightarrow> ListkeyValueNode \<Rightarrow> nat list \<Rightarrow> bool" where
  "kvs_ok w l ks \<equiv> heap_list_ok (kv_nxt_v1 w) (kv_prv_v1 w) (kl_head l) (kl_tail l) (kv_data w) ks"

abbreviation secs_ok :: "v1_world \<Rightarrow> INI_FILE_v1 \<Rightarrow> nat list \<Rightarrow> bool" where
  "secs_ok w f xs \<equiv> heap_list_ok (sec_nxt_v1 w) (sec_prv_v1 w) (if_head f) (if_tail f) (sec_data w) xs"

lemma kv_insert_ok:
  assumes "kvs_ok w l ks" "k \<notin> set ks" "kv_heap w k \<noteq> None"
  shows "\<exists>l' w'. listkeyValueNode_insert k (l, w) = Some (l', w') \<and> kv_data w' = kv_data w \<and> kv_rest w' = kv_rest w \<and>
    kvs_ok w' l' (ks @ [k]) \<and> (\<forall>x. x \<notin> set ks \<longrightarrow> x \<noteq> k \<longrightarrow> kv_nxt_v1 w' x = kv_nxt_v1 w x \<and> kv_prv_v1 w' x = kv_prv_v1 w x)"
  using kvl.insert_ok[of "(l, w)" ks k] assms by auto

lemma sec_insert_ok:
  assumes "secs_ok w f xs" "x \<notin> set xs" "sec_heap w x \<noteq> None"
  shows "\<exists>f' w'. listIniFileNode_insert x (f, w) = Some (f', w') \<and> sec_data w' = sec_data w \<and> sec_rest w' = sec_rest w \<and>
    if_fileName f' = if_fileName f \<and> secs_ok w' f' (xs @ [x])"
  using secl.insert_ok[of "(f, w)" xs x] assms by auto

section \<open>Deleting key nodes\<close>

lemma find_kv_chain:
  "chain (kv_nxt_v1 w) p ks \<Longrightarrow> (\<And>x. x \<in> set ks \<Longrightarrow> kv_heap w x \<noteq> None) \<Longrightarrow> find_kv w p k = Some (k \<in> set ks)"
proof (induction ks arbitrary: p)
  case Nil
  then show ?case by (simp add: find_kv.simps)
next
  case (Cons x ks)
  then obtain n where "kv_heap w x = Some n" by fastforce
  then show ?case using Cons by (auto simp: find_kv.simps[of w "Some x"] kv_nxt_v1_def)
qed

lemma find_sec_chain:
  "chain (sec_nxt_v1 w) p xs \<Longrightarrow> (\<And>x. x \<in> set xs \<Longrightarrow> sec_heap w x \<noteq> None) \<Longrightarrow> find_sec w p k = Some (k \<in> set xs)"
proof (induction xs arbitrary: p)
  case Nil
  then show ?case by (simp add: find_sec.simps)
next
  case (Cons x xs)
  then obtain n where "sec_heap w x = Some n" by fastforce
  then show ?case using Cons by (auto simp: find_sec.simps[of w "Some x"] sec_nxt_v1_def)
qed

lemma chain_one: "chain nxt p xs \<Longrightarrow> xs \<noteq> [] \<Longrightarrow> p = Some (last xs) \<Longrightarrow> xs = [last xs]"
  using chain_distinct[of nxt p xs] by (cases xs) (auto split: if_splits)

lemma kv_delete_ok:
  assumes ok: "kvs_ok w l ks" and k: "k \<in> set ks"
  shows "\<exists>l' w'. listkeyValueNode_delete k (l, w) = Some (l', w') \<and> kv_data w' = (kv_data w)(k := None) \<and>
    kv_rest w' = kv_rest w \<and> kvs_ok w' l' (remove1 k ks) \<and>
    (\<forall>x. x \<notin> set ks \<longrightarrow> kv_nxt_v1 w' x = kv_nxt_v1 w x \<and> kv_prv_v1 w' x = kv_prv_v1 w x)"
proof -
  note D = heap_list_okD[OF ok]
  have found: "find_kv w (kl_head l) k = Some True" using find_kv_chain[OF D(2)] D(5) k by simp
  show ?thesis
  proof (cases "kl_head l = kl_tail l \<and> kl_head l \<noteq> None")
    case True
    then have "ks = [k]" using chain_one[OF D(2)] D(4) k by (cases ks) auto
    then show ?thesis using True found D(5)[of k]
      by (auto simp: listkeyValueNode_delete_def free_kvn_def kv_rest_def kv_views fun_eq_iff)
  next
    case False
    then have two: "ks \<noteq> [k]" using D(2,4) by auto
    obtain l' v where v: "unlink_kv k (l, w) = Some (l', v)" "kv_data v = kv_data w" "kv_rest v = kv_rest w"
      "kvs_ok v l' (remove1 k ks)" "\<And>x. x \<notin> set ks \<Longrightarrow> kv_nxt_v1 v x = kv_nxt_v1 w x \<and> kv_prv_v1 v x = kv_prv_v1 w x"
      using kvl.unlink_ok[of "(l, w)" ks k] ok k two by auto
    have live: "kv_heap v k \<noteq> None" using D(5)[OF k] v(2) by (metis kv_data_None)
    let ?w = "v\<lparr>kv_heap := (kv_heap v)(k := None)\<rparr>"
    have "k \<notin> set (remove1 k ks)" using D(3) by simp
    then have "kvs_ok ?w l' (remove1 k ks) = kvs_ok v l' (remove1 k ks)"
      by (intro heap_list_ok_cong) (auto simp: kv_views)
    moreover have "listkeyValueNode_delete k (l, w) = Some (l', ?w)"
      using found False v(1) live by (auto simp: listkeyValueNode_delete_def free_kvn_def)
    moreover have "kv_data ?w = (kv_data w)(k := None)" using v(2) by (auto simp: kv_data_def fun_eq_iff)
    moreover have "kv_rest ?w = kv_rest w" using v(3) by (simp add: kv_rest_def)
    moreover have "kv_nxt_v1 ?w x = kv_nxt_v1 w x \<and> kv_prv_v1 ?w x = kv_prv_v1 w x" if "x \<notin> set ks" for x
      using v(5)[OF that] k that by (auto simp: kv_nxt_v1_def kv_prv_v1_def)
    ultimately show ?thesis using v(4) by blast
  qed
qed

text \<open>Releasing a whole list, from its tail.\<close>

lemma deleteall_loop_ok:
  "chain (kv_prv_v1 w) tail (rev (h # ks)) \<Longrightarrow> (\<And>x. x \<in> set (h # ks) \<Longrightarrow> kv_heap w x \<noteq> None) \<Longrightarrow>
   deleteall_loop (Some h) tail w = Some (w\<lparr>kv_heap := (\<lambda>x. if x \<in> set (h # ks) then None else kv_heap w x)\<rparr>)"
proof (induction ks arbitrary: w tail rule: rev_induct)
  case Nil
  then show ?case by (auto simp: deleteall_loop.simps[of "Some h"] free_kvn_def fun_eq_iff)
next
  case (snoc k ks)
  have c: "tail = Some k" "chain (kv_prv_v1 w) (kv_prv_v1 w k) (rev (h # ks))" using snoc.prems(1) by auto
  have kn: "k \<notin> set (h # ks)" using chain_distinct[OF snoc.prems(1)] by auto
  obtain n where n: "kv_heap w k = Some n" using snoc.prems(2)[of k] by auto
  let ?w = "w\<lparr>kv_heap := (kv_heap w)(k := None)\<rparr>"
  have "chain (kv_prv_v1 ?w) (kn_pre n) (rev (h # ks)) = chain (kv_prv_v1 w) (kn_pre n) (rev (h # ks))"
    by (rule chain_cong) (use kn in \<open>auto simp: kv_prv_v1_def\<close>)
  moreover have "kv_prv_v1 w k = kn_pre n" using n by (simp add: kv_prv_v1_def)
  ultimately have "deleteall_loop (Some h) (kn_pre n) ?w = Some (?w\<lparr>kv_heap := (\<lambda>x. if x \<in> set (h # ks) then None else kv_heap ?w x)\<rparr>)"
    using c(2) kn snoc.prems(2) by (intro snoc.IH) (auto split: if_splits)
  moreover have "(\<lambda>x. if x \<in> set (h # ks) then None else kv_heap ?w x) = (\<lambda>x. if x \<in> set (h # ks @ [k]) then None else kv_heap w x)"
    by auto
  ultimately show ?case using c(1) kn n by (simp add: deleteall_loop.simps[of "Some h" "Some k"])
qed

lemma dchain_rev:
  "dchain nxt prv q p xs \<Longrightarrow> chain prv q ys \<Longrightarrow> chain prv (if xs = [] then q else Some (last xs)) (rev xs @ ys)"
proof (induction xs arbitrary: p q ys)
  case (Cons x xs)
  then show ?case using Cons.IH[of "Some x" "nxt x" "x # ys"] by auto
qed simp

lemma deleteall_ok:
  assumes "kvs_ok w l ks"
  shows "listkeyValueNode_deleteall (Some l) w = Some (w\<lparr>kv_heap := (\<lambda>x. if x \<in> set ks then None else kv_heap w x)\<rparr>)"
proof (cases ks)
  case Nil
  then show ?thesis using assms by (simp add: listkeyValueNode_deleteall_def listkeyValueNode_is_empty_def)
next
  case (Cons h xs)
  note D = heap_list_okD[OF assms]
  have "chain (kv_prv_v1 w) (kl_tail l) (rev (h # xs))"
    using dchain_rev[OF D(1), of "[]"] D(4) Cons by simp
  then show ?thesis
    using deleteall_loop_ok[of w "kl_tail l" h xs] D(2,5) Cons
    by (simp add: listkeyValueNode_deleteall_def listkeyValueNode_is_empty_def)
qed

section \<open>The document\<close>

type_synonym v1_entry = "int \<times> string \<times> string"
type_synonym v1_doc = "(int \<times> string \<times> v1_entry list) list"

definition keys_ok :: "v1_world \<Rightarrow> ListkeyValueNode option \<Rightarrow> nat list \<Rightarrow> bool" where
  "keys_ok w lo ks = (case lo of None \<Rightarrow> ks = [] | Some l \<Rightarrow> kvs_ok w l ks)"

definition entry_at :: "v1_world \<Rightarrow> nat \<Rightarrow> v1_entry" where
  "entry_at w k = (case the (kv_data w k) of (note, key, val) \<Rightarrow> (note, cstr key, cstr val))"

definition section_at :: "v1_world \<Rightarrow> nat \<Rightarrow> int \<times> string" where
  "section_at w x = (case the (sec_data w x) of (note, sec, l) \<Rightarrow> (note, cstr sec))"

definition keys_at :: "v1_world \<Rightarrow> nat \<Rightarrow> ListkeyValueNode option" where
  "keys_at w x = (case the (sec_data w x) of (note, sec, l) \<Rightarrow> l)"

text \<open>
  The invariant of an open file, for the section nodes \<open>xs\<close> and the key nodes \<open>L x\<close> of each: the lists are
  well formed, share no node, and every node comes from \<^verbatim>\<open>malloc\<close>.
\<close>

definition v1_rep :: "INI_FILE_v1 \<Rightarrow> v1_world \<Rightarrow> nat list \<Rightarrow> (nat \<Rightarrow> nat list) \<Rightarrow> bool" where
  "v1_rep f w xs L \<longleftrightarrow> secs_ok w f xs \<and> (\<forall>x \<in> set xs. keys_ok w (keys_at w x) (L x)) \<and>
     (\<forall>x \<in> set xs. \<forall>y \<in> set xs. x \<noteq> y \<longrightarrow> set (L x) \<inter> set (L y) = {}) \<and>
     (\<forall>x \<in> set xs. x < next_addr w \<and> (\<forall>k \<in> set (L x). k < next_addr w))"

definition doc_of_v1 :: "v1_world \<Rightarrow> nat list \<Rightarrow> (nat \<Rightarrow> nat list) \<Rightarrow> v1_doc" where
  "doc_of_v1 w xs L = map (\<lambda>x. case section_at w x of (note, sec) \<Rightarrow> (note, sec, map (entry_at w) (L x))) xs"

text \<open>All strings of a document fit their arrays with a terminator.\<close>

definition entry_fits :: "v1_entry \<Rightarrow> bool" where
  "entry_fits = (\<lambda>(note, key, val). length key < NODE_STRING_LEN \<and> length val < NODE_STRING_LEN)"

definition doc_fits :: "v1_doc \<Rightarrow> bool" where
  "doc_fits d = list_all (\<lambda>(note, sec, es). length sec < NODE_STRING_LEN \<and> list_all entry_fits es) d"

definition holds_doc :: "INI_FILE_v1 \<Rightarrow> v1_world \<Rightarrow> v1_doc \<Rightarrow> bool" where
  "holds_doc f w d \<longleftrightarrow> (\<exists>xs L. v1_rep f w xs L \<and> doc_of_v1 w xs L = d)"

lemma v1_repD:
  assumes "v1_rep f w xs L"
  shows "secs_ok w f xs" "\<And>x. x \<in> set xs \<Longrightarrow> keys_ok w (keys_at w x) (L x)"
    "\<And>x y. x \<in> set xs \<Longrightarrow> y \<in> set xs \<Longrightarrow> x \<noteq> y \<Longrightarrow> set (L x) \<inter> set (L y) = {}"
    "\<And>x. x \<in> set xs \<Longrightarrow> x < next_addr w" "\<And>x k. x \<in> set xs \<Longrightarrow> k \<in> set (L x) \<Longrightarrow> k < next_addr w"
  using assms unfolding v1_rep_def by blast+

lemma keys_ok_live: "keys_ok w lo ks \<Longrightarrow> k \<in> set ks \<Longrightarrow> kv_heap w k \<noteq> None"
  by (auto simp: keys_ok_def heap_list_ok_def split: option.splits)

text \<open>A list of keys is not affected by changes elsewhere.\<close>

lemma keys_ok_cong:
  assumes "\<And>k. k \<in> set ks \<Longrightarrow> kv_nxt_v1 w' k = kv_nxt_v1 w k \<and> kv_prv_v1 w' k = kv_prv_v1 w k \<and> (kv_heap w' k = None) = (kv_heap w k = None)"
  shows "keys_ok w' lo ks = keys_ok w lo ks"
  using heap_list_ok_cong[of ks "kv_nxt_v1 w'" "kv_nxt_v1 w" "kv_prv_v1 w'" "kv_prv_v1 w" "kv_data w'" "kv_data w"] assms
  by (auto simp: keys_ok_def split: option.splits)

lemma kv_rest_views:
  assumes "kv_rest w' = kv_rest w"
  shows "sec_heap w' = sec_heap w" "sec_nxt_v1 w' = sec_nxt_v1 w" "sec_prv_v1 w' = sec_prv_v1 w" "sec_data w' = sec_data w"
    "next_addr w' = next_addr w" "v1_fs w' = v1_fs w" "v1_writes w' = v1_writes w"
  using assms by (auto simp: kv_rest_def sec_views fun_eq_iff)

lemma sec_rest_views:
  assumes "sec_rest w' = sec_rest w"
  shows "kv_heap w' = kv_heap w" "kv_nxt_v1 w' = kv_nxt_v1 w" "kv_prv_v1 w' = kv_prv_v1 w" "kv_data w' = kv_data w"
    "next_addr w' = next_addr w" "v1_fs w' = v1_fs w" "v1_writes w' = v1_writes w"
  using assms by (auto simp: sec_rest_def kv_views fun_eq_iff)

lemma sec_heap_at: "sec_heap w x = Some n \<Longrightarrow> section_at w x = (sn_isNote n, cstr (sn_section n)) \<and> keys_at w x = sn_list n"
  by (simp add: section_at_def keys_at_def sec_data_def)

lemma kv_heap_at: "kv_heap w k = Some n \<Longrightarrow> entry_at w k = (kn_isNote n, cstr (kn_key n), cstr (kn_value n))"
  by (simp add: entry_at_def kv_data_def)

end
