(* ===== verification/V1_Ops.thy ===== *)
theory V1_Ops
  imports V1_Rep
begin

text \<open>
  The steps that the operations of \<^verbatim>\<open>v1.0.0/inifile.c\<close> are made of, on the representation: searching,
  allocating, adding, changing and deleting nodes.
\<close>

section \<open>Names\<close>

text \<open>A stored name matches a searched one when only blanks follow it.\<close>

definition blank_v1 :: "char \<Rightarrow> bool" where
  "blank_v1 c \<longleftrightarrow> c = CONTENT_SPACE \<or> c = CONTENT_TAB"

definition same_name :: "string \<Rightarrow> string \<Rightarrow> bool" where
  "same_name stored name \<longleftrightarrow> take (length name) stored = name \<and> list_all blank_v1 (drop (length name) stored)"

lemma blank_loop_eq: "blank_loop s = list_all blank_v1 s"
  by (induction s) (auto simp: blank_v1_def)

lemma memcmp_zero: "length a = length b \<Longrightarrow> memcmp a b = 0 \<longleftrightarrow> a = b"
  by (induction a b rule: memcmp.induct) auto

lemma map_byte_at: "map (byte_at s) [0..<n] = take n s @ replicate (n - length s) NUL"
  by (rule nth_equalityI) (auto simp: byte_at_def nth_append)

lemma map_byte_at_cstr:
  assumes "NUL \<notin> set t" "length t = n"
  shows "map (byte_at s) [0..<n] = t \<longleftrightarrow> take n (cstr s) = t"
proof
  assume a: "map (byte_at s) [0..<n] = t"
  have "n \<le> length (cstr s)"
  proof (rule ccontr)
    assume "\<not> n \<le> length (cstr s)"
    then have "t ! length (cstr s) = NUL" using a byte_at_cstr_end[of s] by auto
    then show False using assms \<open>\<not> n \<le> length (cstr s)\<close> by (metis not_le nth_mem)
  qed
  then have "take n (cstr s) ! i = t ! i" if "i < n" for i using a that by (auto simp: cstr_nth)
  then show "take n (cstr s) = t" using assms(2) \<open>n \<le> length (cstr s)\<close> by (intro nth_equalityI) auto
next
  assume a: "take n (cstr s) = t"
  then have le: "n \<le> length (cstr s)" using assms(2) by (metis length_take min.cobounded1)
  have "t ! i = byte_at s i" if "i < n" for i using a le that by (metis cstr_nth nth_take order_less_le_trans)
  then show "map (byte_at s) [0..<n] = t" using assms(2) by (intro nth_equalityI) auto
qed

lemma name_matches_eq:
  assumes "length (cstr stored) < NODE_STRING_LEN" "length (cstr name) \<le> NODE_STRING_LEN"
  shows "name_matches stored name = Some (same_name (cstr stored) (cstr name))"
proof -
  let ?n = "length (cstr name)"
  have m: "memcmp (map (byte_at stored) [0..<?n]) (cstr name) = 0 \<longleftrightarrow> take ?n (cstr stored) = cstr name"
    using map_byte_at_cstr[of "cstr name" ?n stored] by (simp add: memcmp_zero)
  have "take ?n (cstr stored) = cstr name \<Longrightarrow> ?n \<le> length (cstr stored)"
    by (metis length_take min.cobounded1)
  then show ?thesis using assms m
    by (auto simp: name_matches_def Let_def arr_str_def same_name_def blank_loop_eq not_less)
qed

section \<open>Searching\<close>

definition fit_keys :: "v1_world \<Rightarrow> nat list \<Rightarrow> bool" where
  "fit_keys w ks \<longleftrightarrow> (\<forall>k \<in> set ks. entry_fits (entry_at w k))"

lemma key_loop_chain:
  "chain (kv_nxt_v1 w) p ks \<Longrightarrow> (\<And>k. k \<in> set ks \<Longrightarrow> kv_heap w k \<noteq> None) \<Longrightarrow> fit_keys w ks \<Longrightarrow>
   length (cstr key) \<le> NODE_STRING_LEN \<Longrightarrow>
   key_loop w p key = Some (map_option ((!) ks) (first_index (\<lambda>(note, k, v). same_name k (cstr key)) (map (entry_at w) ks)))"
proof (induction ks arbitrary: p)
  case Nil
  then show ?case by (simp add: key_loop.simps)
next
  case (Cons k ks)
  then obtain n where n: "kv_heap w k = Some n" by fastforce
  have e: "entry_at w k = (kn_isNote n, cstr (kn_key n), cstr (kn_value n))" using kv_heap_at[OF n] .
  have fit: "length (cstr (kn_key n)) < NODE_STRING_LEN" using Cons.prems(3) e by (simp add: fit_keys_def entry_fits_def)
  have m: "name_matches (kn_key n) key = Some (same_name (cstr (kn_key n)) (cstr key))" by (rule name_matches_eq[OF fit Cons.prems(4)])
  have "key_loop w (kn_next n) key =
      Some (map_option ((!) ks) (first_index (\<lambda>(note, k, v). same_name k (cstr key)) (map (entry_at w) ks)))"
    by (rule Cons.IH) (use Cons.prems n in \<open>auto simp: kv_nxt_v1_def fit_keys_def\<close>)
  then show ?case using Cons.prems(1) n m e by (auto simp: key_loop.simps[of w "Some k"] option.map_comp comp_def)
qed

lemma section_loop_chain:
  "chain (sec_nxt_v1 w) p xs \<Longrightarrow> (\<And>x. x \<in> set xs \<Longrightarrow> sec_heap w x \<noteq> None) \<Longrightarrow>
   (\<And>x. x \<in> set xs \<Longrightarrow> length (snd (section_at w x)) < NODE_STRING_LEN) \<Longrightarrow> length (cstr name) \<le> NODE_STRING_LEN \<Longrightarrow>
   section_loop w p name = Some (map_option ((!) xs) (first_index (\<lambda>(note, s). same_name s (cstr name)) (map (section_at w) xs)))"
proof (induction xs arbitrary: p)
  case Nil
  then show ?case by (simp add: section_loop.simps)
next
  case (Cons x xs)
  then obtain n where n: "sec_heap w x = Some n" by fastforce
  have e: "section_at w x = (sn_isNote n, cstr (sn_section n))" using sec_heap_at[OF n] by simp
  have fit: "length (cstr (sn_section n)) < NODE_STRING_LEN" using Cons.prems(3)[of x] e by simp
  have m: "name_matches (sn_section n) name = Some (same_name (cstr (sn_section n)) (cstr name))" by (rule name_matches_eq[OF fit Cons.prems(4)])
  have "section_loop w (sn_next n) name =
      Some (map_option ((!) xs) (first_index (\<lambda>(note, s). same_name s (cstr name)) (map (section_at w) xs)))"
    by (rule Cons.IH) (use Cons.prems n in \<open>auto simp: sec_nxt_v1_def\<close>)
  then show ?case using Cons.prems(1) n m e by (auto simp: section_loop.simps[of w "Some x"] option.map_comp comp_def)
qed

definition find_section_v1 :: "v1_doc \<Rightarrow> string \<Rightarrow> nat option" where
  "find_section_v1 d name = first_index (\<lambda>(note, sec, es). same_name sec name) d"

definition find_key_v1 :: "v1_entry list \<Rightarrow> string \<Rightarrow> nat option" where
  "find_key_v1 es name = first_index (\<lambda>(note, key, val). same_name key name) es"

lemma doc_of_v1_length [simp]: "length (doc_of_v1 w xs L) = length xs"
  by (simp add: doc_of_v1_def)

lemma doc_of_v1_nth: "i < length xs \<Longrightarrow> doc_of_v1 w xs L ! i = (fst (section_at w (xs ! i)), snd (section_at w (xs ! i)), map (entry_at w) (L (xs ! i)))"
  by (simp add: doc_of_v1_def case_prod_beta)

lemma doc_fits_at:
  assumes "doc_fits (doc_of_v1 w xs L)" "x \<in> set xs"
  shows "length (snd (section_at w x)) < NODE_STRING_LEN" "fit_keys w (L x)"
  using assms by (auto simp: doc_fits_def doc_of_v1_def list_all_iff fit_keys_def case_prod_beta)

lemma findIniFileNode_ok:
  assumes rep: "v1_rep f w xs L" and fit: "doc_fits (doc_of_v1 w xs L)" and len: "length (cstr name) \<le> NODE_STRING_LEN"
  shows "findIniFileNode f w name = Some (map_option ((!) xs) (find_section_v1 (doc_of_v1 w xs L) (cstr name)))"
proof -
  note D = heap_list_okD[OF v1_repD(1)[OF rep]]
  have "section_loop w (if_head f) name =
      Some (map_option ((!) xs) (first_index (\<lambda>(note, s). same_name s (cstr name)) (map (section_at w) xs)))"
    using section_loop_chain[OF D(2) _ _ len] D(5) doc_fits_at(1)[OF fit] by simp
  moreover have "first_index (\<lambda>(note, s). same_name s (cstr name)) (map (section_at w) xs) = find_section_v1 (doc_of_v1 w xs L) (cstr name)"
    unfolding find_section_v1_def doc_of_v1_def first_index_map
    by (rule arg_cong[where f = "\<lambda>P. first_index P xs"]) (auto simp: fun_eq_iff split: prod.splits)
  ultimately show ?thesis using D(6)
    by (cases "if_head f") (auto simp: findIniFileNode_def listIniFileNode_is_empty_def section_loop.simps)
qed

lemma findIniKeyValue_ok:
  assumes rep: "v1_rep f w xs L" and fit: "doc_fits (doc_of_v1 w xs L)" and x: "x \<in> set xs" and len: "length (cstr key) \<le> NODE_STRING_LEN"
  shows "findIniKeyValue w x key = Some (map_option ((!) (L x)) (find_key_v1 (map (entry_at w) (L x)) (cstr key)))"
proof -
  have "sec_heap w x \<noteq> None" using heap_list_okD(5)[OF v1_repD(1)[OF rep] x] by simp
  then obtain n where n: "sec_heap w x = Some n" by auto
  have k: "keys_ok w (sn_list n) (L x)" using v1_repD(2)[OF rep x] sec_heap_at[OF n] by simp
  show ?thesis
  proof (cases "sn_list n")
    case None
    then show ?thesis using k n by (simp add: findIniKeyValue_def keys_ok_def find_key_v1_def)
  next
    case (Some l)
    note D = heap_list_okD[OF k[unfolded keys_ok_def Some option.case]]
    have "key_loop w (kl_head l) key = Some (map_option ((!) (L x)) (find_key_v1 (map (entry_at w) (L x)) (cstr key)))"
      using key_loop_chain[OF D(2) _ doc_fits_at(2)[OF fit x] len] D(5) by (simp add: find_key_v1_def)
    then show ?thesis using n Some D(6)
      by (cases "kl_head l") (auto simp: findIniKeyValue_def listkeyValueNode_is_empty_def key_loop.simps)
  qed
qed

section \<open>Changing the heap\<close>

lemma rep_frame:
  assumes rep: "v1_rep f w xs L"
    and sec: "\<And>x. x \<in> set xs \<Longrightarrow> sec_heap w' x = sec_heap w x"
    and kv: "\<And>x k. x \<in> set xs \<Longrightarrow> k \<in> set (L x) \<Longrightarrow> kv_heap w' k = kv_heap w k"
    and na: "next_addr w \<le> next_addr w'"
  shows "v1_rep f w' xs L" "doc_of_v1 w' xs L = doc_of_v1 w xs L"
proof -
  note D = v1_repD[OF rep]
  have s: "sec_nxt_v1 w' x = sec_nxt_v1 w x" "sec_prv_v1 w' x = sec_prv_v1 w x" "sec_data w' x = sec_data w x" if "x \<in> set xs" for x
    using sec[OF that] by (simp_all add: sec_views)
  have "secs_ok w' f xs" using heap_list_ok_cong[of xs "sec_nxt_v1 w'" "sec_nxt_v1 w" "sec_prv_v1 w'" "sec_prv_v1 w" "sec_data w'" "sec_data w"]
    s D(1) by simp
  moreover have "keys_ok w' (keys_at w' x) (L x)" if "x \<in> set xs" for x
  proof -
    have "keys_at w' x = keys_at w x" using s(3)[OF that] by (simp add: keys_at_def)
    moreover have "keys_ok w' lo (L x) = keys_ok w lo (L x)" for lo
      by (rule keys_ok_cong) (use kv[OF that] in \<open>auto simp: kv_nxt_v1_def kv_prv_v1_def\<close>)
    ultimately show ?thesis using D(2)[OF that] by simp
  qed
  moreover have "x < next_addr w' \<and> (\<forall>k \<in> set (L x). k < next_addr w')" if "x \<in> set xs" for x
    using D(4)[OF that] D(5)[OF that] na by (meson order_less_le_trans)
  ultimately show "v1_rep f w' xs L" using D(3) by (simp add: v1_rep_def)
  show "doc_of_v1 w' xs L = doc_of_v1 w xs L"
    using s(3) kv by (auto simp: doc_of_v1_def section_at_def entry_at_def kv_data_def intro!: map_cong split: prod.splits)
qed

lemma rep_new_kv:
  assumes rep: "v1_rep f w xs L" and new: "new_kv w = (a, w')" and upd: "upd_kvn a g w' = Some w''"
  shows "v1_rep f w'' xs L" "doc_of_v1 w'' xs L = doc_of_v1 w xs L" "\<And>x. x \<in> set xs \<Longrightarrow> a \<notin> set (L x)"
    "kv_heap w'' a = Some (g zero_kv)" "a < next_addr w''" "sec_heap w'' = sec_heap w" "v1_fs w'' = v1_fs w" "v1_writes w'' = v1_writes w"
proof -
  note D = v1_repD[OF rep]
  have a: "a = next_addr w" "w'' = w\<lparr>kv_heap := (kv_heap w)(a \<mapsto> g zero_kv), next_addr := Suc a\<rparr>"
    using new upd by (auto simp: new_kv_def upd_kvn_def)
  have out: "k \<noteq> a" if "x \<in> set xs" "k \<in> set (L x)" for x k using D(5)[OF that] a(1) by simp
  show "v1_rep f w'' xs L" "doc_of_v1 w'' xs L = doc_of_v1 w xs L"
    by (rule rep_frame[OF rep]; use a out in auto)+
  show "a \<notin> set (L x)" if "x \<in> set xs" for x using out[OF that] by blast
qed (use new upd in \<open>auto simp: new_kv_def upd_kvn_def\<close>)

lemma rep_new_sec:
  assumes rep: "v1_rep f w xs L" and new: "new_sec w = (a, w')" and upd: "upd_secn a g w' = Some w''"
  shows "v1_rep f w'' xs L" "doc_of_v1 w'' xs L = doc_of_v1 w xs L" "a \<notin> set xs"
    "sec_heap w'' a = Some (g zero_sec)" "a < next_addr w''" "kv_heap w'' = kv_heap w" "v1_fs w'' = v1_fs w" "v1_writes w'' = v1_writes w"
proof -
  note D = v1_repD[OF rep]
  have a: "a = next_addr w" "w'' = w\<lparr>sec_heap := (sec_heap w)(a \<mapsto> g zero_sec), next_addr := Suc a\<rparr>"
    using new upd by (auto simp: new_sec_def upd_secn_def)
  have out: "x \<noteq> a" if "x \<in> set xs" for x using D(4)[OF that] a(1) by simp
  show "v1_rep f w'' xs L" "doc_of_v1 w'' xs L = doc_of_v1 w xs L"
    by (rule rep_frame[OF rep]; use a out in auto)+
  show "a \<notin> set xs" using out by blast
qed (use new upd in \<open>auto simp: new_sec_def upd_secn_def\<close>)

text \<open>Storing a new list in a section.\<close>

lemma rep_set_keys:
  assumes rep: "v1_rep f w xs L" and x: "x \<in> set xs" and rest: "kv_rest v = kv_rest w" and ks: "kvs_ok v l ks"
    and own: "set ks \<subseteq> set (L x) \<union> A" and A: "\<And>y. y \<in> set xs \<Longrightarrow> set (L y) \<inter> A = {}" and na: "\<And>k. k \<in> A \<Longrightarrow> k < next_addr w"
    and same: "\<And>y k. y \<in> set xs \<Longrightarrow> y \<noteq> x \<Longrightarrow> k \<in> set (L y) \<Longrightarrow>
       kv_nxt_v1 v k = kv_nxt_v1 w k \<and> kv_prv_v1 v k = kv_prv_v1 w k \<and> kv_data v k = kv_data w k"
  shows "\<exists>w'. upd_secn x (\<lambda>n. n\<lparr>sn_list := Some l\<rparr>) v = Some w' \<and> v1_rep f w' xs (L(x := ks)) \<and>
    section_at w' = section_at w \<and> kv_data w' = kv_data v \<and> v1_fs w' = v1_fs w \<and> v1_writes w' = v1_writes w"
proof -
  note D = v1_repD[OF rep] and R = kv_rest_views[OF rest]
  obtain n where n: "sec_heap v x = Some n" using heap_list_okD(5)[OF D(1) x] R(1) by auto
  let ?w = "v\<lparr>sec_heap := (sec_heap v)(x \<mapsto> n\<lparr>sn_list := Some l\<rparr>)\<rparr>"
  have kvv: "kv_nxt_v1 ?w = kv_nxt_v1 v" "kv_prv_v1 ?w = kv_prv_v1 v" "kv_data ?w = kv_data v" by (simp_all add: kv_views fun_eq_iff)
  have sv: "sec_nxt_v1 ?w = sec_nxt_v1 w" "sec_prv_v1 ?w = sec_prv_v1 w" "section_at ?w = section_at w" "\<And>y. (sec_data ?w y = None) = (sec_data w y = None)"
    "\<And>y. keys_at ?w y = (if y = x then Some l else keys_at w y)"
    using n R(1) by (auto simp: sec_views section_at_def keys_at_def fun_eq_iff)
  have "secs_ok ?w f xs" using heap_list_ok_cong[of xs "sec_nxt_v1 ?w" "sec_nxt_v1 w" "sec_prv_v1 ?w" "sec_prv_v1 w" "sec_data ?w" "sec_data w"]
    sv D(1) by simp
  moreover have "keys_ok ?w (keys_at ?w y) ((L(x := ks)) y)" if y: "y \<in> set xs" for y
  proof (cases "y = x")
    case True
    then show ?thesis using ks kvv sv(5) by (simp add: keys_ok_def)
  next
    case False
    have "keys_ok ?w lo (L y) = keys_ok w lo (L y)" for lo
      by (rule keys_ok_cong) (use same[OF y False] kvv in \<open>auto simp flip: kv_data_None\<close>)
    then show ?thesis using False D(2)[OF y] sv(5) by simp
  qed
  moreover have "set ((L(x := ks)) y) \<inter> set ((L(x := ks)) z) = {}" if "y \<in> set xs" "z \<in> set xs" "y \<noteq> z" for y z
    using D(3)[OF that] A[OF that(1)] A[OF that(2)] D(3)[OF x that(1)] D(3)[OF x that(2)] own that by (auto split: if_splits)
  moreover have "y < next_addr ?w \<and> (\<forall>k \<in> set ((L(x := ks)) y). k < next_addr ?w)" if y: "y \<in> set xs" for y
    using D(4)[OF y] D(5)[OF y] D(5)[OF x] own na R(5) by auto
  ultimately have "v1_rep f ?w xs (L(x := ks))" unfolding v1_rep_def by blast
  then show ?thesis using n sv(3) kvv(3) R(6,7) by (auto simp: upd_secn_def)
qed

definition add_entry :: "v1_entry \<Rightarrow> (int \<times> string \<times> v1_entry list) \<Rightarrow> (int \<times> string \<times> v1_entry list)" where
  "add_entry e = (\<lambda>(note, sec, es). (note, sec, es @ [e]))"

text \<open>The document after a change of one section.\<close>

lemma doc_of_v1_update:
  assumes "i < length xs" "distinct xs" "section_at w' = section_at w" "map (entry_at w') ks = es"
    and "\<And>y k. y \<in> set xs \<Longrightarrow> y \<noteq> xs ! i \<Longrightarrow> k \<in> set (L y) \<Longrightarrow> entry_at w' k = entry_at w k"
  shows "doc_of_v1 w' xs (L(xs ! i := ks)) = (doc_of_v1 w xs L)[i := (fst (section_at w (xs ! i)), snd (section_at w (xs ! i)), es)]"
proof (rule nth_equalityI)
  fix j assume "j < length (doc_of_v1 w' xs (L(xs ! i := ks)))"
  then have j: "j < length xs" by simp
  show "doc_of_v1 w' xs (L(xs ! i := ks)) ! j = (doc_of_v1 w xs L)[i := (fst (section_at w (xs ! i)), snd (section_at w (xs ! i)), es)] ! j"
  proof (cases "j = i")
    case True
    then show ?thesis using j assms(3,4) by (simp add: doc_of_v1_nth)
  next
    case False
    then have "xs ! j \<noteq> xs ! i" using assms(1,2) j by (simp add: nth_eq_iff_index_eq)
    then show ?thesis using False j assms(3) assms(5)[of "xs ! j"] by (simp add: doc_of_v1_nth)
  qed
qed simp

lemma insert_key_ok:
  assumes rep: "v1_rep f w xs L" and i: "i < length xs" and a: "kv_heap w a \<noteq> None" "a < next_addr w" "\<And>x. x \<in> set xs \<Longrightarrow> a \<notin> set (L x)"
  shows "\<exists>w' L'. insert_key (xs ! i) a w = Some w' \<and> v1_rep f w' xs L' \<and>
    doc_of_v1 w' xs L' = (doc_of_v1 w xs L)[i := add_entry (entry_at w a) (doc_of_v1 w xs L ! i)] \<and> v1_fs w' = v1_fs w \<and> v1_writes w' = v1_writes w"
proof -
  let ?x = "xs ! i"
  note D = v1_repD[OF rep]
  have x: "?x \<in> set xs" using i by simp
  obtain n where n: "sec_heap w ?x = Some n" using heap_list_okD(5)[OF D(1) x] by auto
  define l where "l = (case sn_list n of None \<Rightarrow> listkeyValueNode_init | Some l \<Rightarrow> l)"
  have l: "kvs_ok w l (L ?x)" using D(2)[OF x] sec_heap_at[OF n]
    by (auto simp: keys_ok_def l_def listkeyValueNode_init_def split: option.splits)
  obtain l' v where v: "listkeyValueNode_insert a (l, w) = Some (l', v)" "kv_data v = kv_data w" "kv_rest v = kv_rest w"
    "kvs_ok v l' (L ?x @ [a])" "\<And>k. k \<notin> set (L ?x) \<Longrightarrow> k \<noteq> a \<Longrightarrow> kv_nxt_v1 v k = kv_nxt_v1 w k \<and> kv_prv_v1 v k = kv_prv_v1 w k"
    using kv_insert_ok[OF l a(3)[OF x] a(1)] by blast
  have "\<exists>w'. upd_secn ?x (\<lambda>n. n\<lparr>sn_list := Some l'\<rparr>) v = Some w' \<and> v1_rep f w' xs (L(?x := L ?x @ [a])) \<and>
    section_at w' = section_at w \<and> kv_data w' = kv_data v \<and> v1_fs w' = v1_fs w \<and> v1_writes w' = v1_writes w"
    by (rule rep_set_keys[OF rep x v(3,4), of "{a}"]) (use a v(2,5) D(3)[OF x] in auto)
  then obtain w' where w': "upd_secn ?x (\<lambda>n. n\<lparr>sn_list := Some l'\<rparr>) v = Some w'" "v1_rep f w' xs (L(?x := L ?x @ [a]))"
    "section_at w' = section_at w" "kv_data w' = kv_data v" "v1_fs w' = v1_fs w" "v1_writes w' = v1_writes w" by blast
  have e: "entry_at w' = entry_at w" using w'(4) v(2) by (simp add: entry_at_def fun_eq_iff)
  have "insert_key ?x a w = Some w'" using n v(1) w'(1) by (simp add: insert_key_def l_def)
  moreover have "doc_of_v1 w' xs (L(?x := L ?x @ [a])) = (doc_of_v1 w xs L)[i := (fst (section_at w ?x), snd (section_at w ?x), map (entry_at w) (L ?x) @ [entry_at w a])]"
    by (rule doc_of_v1_update[OF i heap_list_okD(3)[OF D(1)] w'(3)]) (simp_all add: e)
  ultimately show ?thesis using w'(2,5,6) i by (intro exI[of _ w'] exI[of _ "L(?x := L ?x @ [a])"]) (simp add: doc_of_v1_nth add_entry_def)
qed

definition drop_nth :: "nat \<Rightarrow> 'a list \<Rightarrow> 'a list" where
  "drop_nth j xs = take j xs @ drop (Suc j) xs"

lemma drop_nth_map: "drop_nth j (map f xs) = map f (drop_nth j xs)"
  by (simp add: drop_nth_def take_map drop_map)

lemma remove1_nth: "distinct xs \<Longrightarrow> j < length xs \<Longrightarrow> remove1 (xs ! j) xs = drop_nth j xs"
proof (induction xs arbitrary: j)
  case (Cons x xs)
  then show ?case by (cases j) (auto simp: drop_nth_def)
qed simp

lemma set_drop_nth: "set (drop_nth j xs) \<subseteq> set xs"
  using set_take_subset set_drop_subset by (force simp: drop_nth_def)

lemma notin_drop_nth: "distinct xs \<Longrightarrow> j < length xs \<Longrightarrow> xs ! j \<notin> set (drop_nth j xs)"
  by (metis remove1_nth set_remove1_eq Diff_iff singletonI)

definition drop_entry :: "nat \<Rightarrow> (int \<times> string \<times> v1_entry list) \<Rightarrow> (int \<times> string \<times> v1_entry list)" where
  "drop_entry j = (\<lambda>(note, sec, es). (note, sec, drop_nth j es))"

definition delete_key :: "nat \<Rightarrow> nat \<Rightarrow> v1_world \<Rightarrow> v1_world option" where
  "delete_key s k w = do {
     n \<leftarrow> sec_heap w s;
     l \<leftarrow> sn_list n;
     (l, w) \<leftarrow> listkeyValueNode_delete k (l, w);
     upd_secn s (\<lambda>n. n\<lparr>sn_list := Some l\<rparr>) w
   }"

lemma delete_key_ok:
  assumes rep: "v1_rep f w xs L" and i: "i < length xs" and j: "j < length (L (xs ! i))"
  shows "\<exists>w' L'. delete_key (xs ! i) (L (xs ! i) ! j) w = Some w' \<and> v1_rep f w' xs L' \<and>
    doc_of_v1 w' xs L' = (doc_of_v1 w xs L)[i := drop_entry j (doc_of_v1 w xs L ! i)] \<and> v1_fs w' = v1_fs w \<and> v1_writes w' = v1_writes w"
proof -
  let ?x = "xs ! i" and ?k = "L (xs ! i) ! j"
  note D = v1_repD[OF rep]
  have x: "?x \<in> set xs" and k: "?k \<in> set (L ?x)" using i j by simp_all
  obtain n where n: "sec_heap w ?x = Some n" using heap_list_okD(5)[OF D(1) x] by auto
  obtain l where l: "sn_list n = Some l" "kvs_ok w l (L ?x)" using D(2)[OF x] sec_heap_at[OF n] j
    by (cases "sn_list n") (auto simp: keys_ok_def)
  have dis: "distinct (L ?x)" using heap_list_okD(3)[OF l(2)] .
  obtain l' v where v: "listkeyValueNode_delete ?k (l, w) = Some (l', v)" "kv_data v = (kv_data w)(?k := None)" "kv_rest v = kv_rest w"
    "kvs_ok v l' (drop_nth j (L ?x))" "\<And>k. k \<notin> set (L ?x) \<Longrightarrow> kv_nxt_v1 v k = kv_nxt_v1 w k \<and> kv_prv_v1 v k = kv_prv_v1 w k"
    using kv_delete_ok[OF l(2) k] remove1_nth[OF dis j] by auto
  have out: "k \<noteq> ?k" if "y \<in> set xs" "y \<noteq> ?x" "k \<in> set (L y)" for y k using D(3)[OF x that(1)] that k by auto
  have "\<exists>w'. upd_secn ?x (\<lambda>n. n\<lparr>sn_list := Some l'\<rparr>) v = Some w' \<and> v1_rep f w' xs (L(?x := drop_nth j (L ?x))) \<and>
    section_at w' = section_at w \<and> kv_data w' = kv_data v \<and> v1_fs w' = v1_fs w \<and> v1_writes w' = v1_writes w"
    by (rule rep_set_keys[OF rep x v(3,4), of "{}"]) (use v(2,5) D(3)[OF x] out set_drop_nth[of j "L ?x"] in auto)
  then obtain w' where w': "upd_secn ?x (\<lambda>n. n\<lparr>sn_list := Some l'\<rparr>) v = Some w'" "v1_rep f w' xs (L(?x := drop_nth j (L ?x)))"
    "section_at w' = section_at w" "kv_data w' = kv_data v" "v1_fs w' = v1_fs w" "v1_writes w' = v1_writes w" by blast
  have e: "entry_at w' k = entry_at w k" if "k \<noteq> ?k" for k using w'(4) v(2) that by (simp add: entry_at_def)
  have "delete_key ?x ?k w = Some w'" using n l(1) v(1) w'(1) by (simp add: delete_key_def)
  moreover have "map (entry_at w') (drop_nth j (L ?x)) = drop_nth j (map (entry_at w) (L ?x))"
    unfolding drop_nth_map using notin_drop_nth[OF dis j] by (intro map_cong) (auto intro!: e)
  then have "doc_of_v1 w' xs (L(?x := drop_nth j (L ?x))) =
      (doc_of_v1 w xs L)[i := (fst (section_at w ?x), snd (section_at w ?x), drop_nth j (map (entry_at w) (L ?x)))]"
    by (rule doc_of_v1_update[OF i heap_list_okD(3)[OF D(1)] w'(3)]) (use e out in auto)
  ultimately show ?thesis using w'(2,5,6) i
    by (intro exI[of _ w'] exI[of _ "L(?x := drop_nth j (L ?x))"]) (simp add: doc_of_v1_nth drop_entry_def)
qed

definition set_value :: "nat \<Rightarrow> string \<Rightarrow> (int \<times> string \<times> v1_entry list) \<Rightarrow> (int \<times> string \<times> v1_entry list)" where
  "set_value j v = (\<lambda>(note, sec, es). (note, sec, es[j := (case es ! j of (n, k, _) \<Rightarrow> (n, k, v))]))"

lemma update_value_ok:
  assumes rep: "v1_rep f w xs L" and i: "i < length xs" and j: "j < length (L (xs ! i))"
    and val: "\<And>n. kv_heap w (L (xs ! i) ! j) = Some n \<Longrightarrow> cstr (g (kn_value n)) = v"
  shows "\<exists>w'. upd_kvn (L (xs ! i) ! j) (\<lambda>n. n\<lparr>kn_value := g (kn_value n)\<rparr>) w = Some w' \<and> v1_rep f w' xs L \<and>
    doc_of_v1 w' xs L = (doc_of_v1 w xs L)[i := set_value j v (doc_of_v1 w xs L ! i)] \<and> v1_fs w' = v1_fs w \<and> v1_writes w' = v1_writes w"
proof -
  let ?x = "xs ! i" and ?k = "L (xs ! i) ! j"
  note D = v1_repD[OF rep]
  have x: "?x \<in> set xs" and k: "?k \<in> set (L ?x)" using i j by simp_all
  obtain n where n: "kv_heap w ?k = Some n" using keys_ok_live[OF D(2)[OF x] k] by auto
  let ?w = "w\<lparr>kv_heap := (kv_heap w)(?k \<mapsto> n\<lparr>kn_value := g (kn_value n)\<rparr>)\<rparr>"
  have kvv: "kv_nxt_v1 ?w = kv_nxt_v1 w" "kv_prv_v1 ?w = kv_prv_v1 w" "\<And>k. (kv_heap ?w k = None) = (kv_heap w k = None)"
    using n by (auto simp: kv_views fun_eq_iff)
  have sv: "sec_nxt_v1 ?w = sec_nxt_v1 w" "sec_prv_v1 ?w = sec_prv_v1 w" "sec_data ?w = sec_data w" "section_at ?w = section_at w" "keys_at ?w = keys_at w"
    by (simp_all add: sec_views section_at_def keys_at_def fun_eq_iff)
  have "keys_ok ?w lo ks = keys_ok w lo ks" for lo ks by (rule keys_ok_cong) (use kvv in auto)
  then have rep': "v1_rep f ?w xs L" using rep sv by (simp add: v1_rep_def)
  have e: "entry_at ?w k = (if k = ?k then (kn_isNote n, cstr (kn_key n), v) else entry_at w k)" for k
    using val[OF n] by (simp add: entry_at_def kv_data_def)
  have dis: "distinct (L ?x)" using D(2)[OF x] k by (auto simp: keys_ok_def dest: heap_list_okD(3) split: option.splits)
  have "map (entry_at ?w) (L ?x) = (map (entry_at w) (L ?x))[j := (kn_isNote n, cstr (kn_key n), v)]"
    using dis j by (intro nth_equalityI) (auto simp: e nth_list_update nth_eq_iff_index_eq)
  then have "doc_of_v1 ?w xs (L(?x := L ?x)) =
      (doc_of_v1 w xs L)[i := (fst (section_at w ?x), snd (section_at w ?x), (map (entry_at w) (L ?x))[j := (kn_isNote n, cstr (kn_key n), v)])]"
    by (rule doc_of_v1_update[OF i heap_list_okD(3)[OF D(1)] sv(4)]) (use D(3)[OF x] k e in auto)
  then show ?thesis using n rep' i j kv_heap_at[OF n] by (simp add: upd_kvn_def doc_of_v1_nth set_value_def)
qed

section \<open>Adding and deleting sections\<close>

lemma insert_section_ok:
  assumes rep: "v1_rep f w xs L" and a: "a \<notin> set xs" "sec_heap w a = Some n" "sn_list n = None" "a < next_addr w"
  shows "\<exists>f' w' L'. listIniFileNode_insert a (f, w) = Some (f', w') \<and> v1_rep f' w' (xs @ [a]) L' \<and>
    doc_of_v1 w' (xs @ [a]) L' = doc_of_v1 w xs L @ [(sn_isNote n, cstr (sn_section n), [])] \<and>
    if_fileName f' = if_fileName f \<and> v1_fs w' = v1_fs w \<and> v1_writes w' = v1_writes w"
proof -
  note D = v1_repD[OF rep]
  obtain f' w' where w': "listIniFileNode_insert a (f, w) = Some (f', w')" "sec_data w' = sec_data w" "sec_rest w' = sec_rest w"
    "if_fileName f' = if_fileName f" "secs_ok w' f' (xs @ [a])"
    using sec_insert_ok[OF D(1) a(1)] a(2) by auto
  note R = sec_rest_views[OF w'(3)]
  let ?L = "L(a := [])"
  have at: "section_at w' = section_at w" "keys_at w' = keys_at w" "entry_at w' = entry_at w"
    using w'(2) R(4) by (simp_all add: section_at_def keys_at_def entry_at_def fun_eq_iff)
  have k: "keys_ok w' lo ks = keys_ok w lo ks" for lo ks by (rule keys_ok_cong) (simp add: R)
  have ka: "keys_at w a = None" "section_at w a = (sn_isNote n, cstr (sn_section n))" using sec_heap_at[OF a(2)] a(3) by simp_all
  have "v1_rep f' w' (xs @ [a]) ?L" unfolding v1_rep_def
    using w'(5) D a k at ka R(5) by (auto simp: keys_ok_def)
  moreover have "doc_of_v1 w' (xs @ [a]) ?L = doc_of_v1 w xs L @ [(sn_isNote n, cstr (sn_section n), [])]"
    using a(1) ka at by (auto simp: doc_of_v1_def intro!: map_cong)
  ultimately show ?thesis using w'(1,4) R(6,7) by blast
qed

lemma chain_head_tail:
  assumes "heap_list_ok nxt prv head tail data xs" "x \<in> set xs"
  shows "head = tail \<longleftrightarrow> xs = [x]"
proof
  assume "head = tail"
  then show "xs = [x]" using chain_one[OF heap_list_okD(2)[OF assms(1)]] heap_list_okD(4)[OF assms(1)] assms(2) by (cases xs) auto
next
  assume "xs = [x]"
  then show "head = tail" using heap_list_okD(2,4)[OF assms(1)] by auto
qed

lemma deleteall_keys_ok:
  assumes "keys_ok w lo ks"
  shows "listkeyValueNode_deleteall lo w = Some (w\<lparr>kv_heap := (\<lambda>k. if k \<in> set ks then None else kv_heap w k)\<rparr>)"
  using assms deleteall_ok by (cases lo) (auto simp: keys_ok_def listkeyValueNode_deleteall_def)

lemma delete_section_ok:
  assumes rep: "v1_rep f w xs L" and i: "i < length xs" and two: "1 < length xs"
  shows "\<exists>f' w'. listIniFileNode_delete (xs ! i) (f, w) = Some (f', w') \<and> v1_rep f' w' (drop_nth i xs) L \<and>
    doc_of_v1 w' (drop_nth i xs) L = drop_nth i (doc_of_v1 w xs L) \<and> if_fileName f' = if_fileName f \<and> v1_fs w' = v1_fs w \<and> v1_writes w' = v1_writes w"
proof -
  let ?x = "xs ! i" and ?ys = "drop_nth i xs"
  note D = v1_repD[OF rep] and S = heap_list_okD[OF v1_repD(1)[OF rep]]
  have x: "?x \<in> set xs" using i by simp
  have ys: "set ?ys \<subseteq> set xs" "?x \<notin> set ?ys" using set_drop_nth[of i xs] notin_drop_nth[OF S(3) i] by auto
  have found: "find_sec w (if_head f) ?x = Some True" using find_sec_chain[OF S(2)] S(5) x by simp
  have ne: "xs \<noteq> [?x]" using two by (metis One_nat_def length_Cons less_irrefl list.size(3))
  then have ht: "if_head f \<noteq> if_tail f" using chain_head_tail[OF D(1) x] by simp
  obtain f' v where v: "unlink_sec ?x (f, w) = Some (f', v)" "sec_data v = sec_data w" "if_fileName f' = if_fileName f" "sec_rest v = sec_rest w"
    "secs_ok v f' ?ys"
    using secl.unlink_ok[of "(f, w)" xs ?x] D(1) x ne remove1_nth[OF S(3) i] by auto
  note R = sec_rest_views[OF v(4)]
  have at: "section_at v = section_at w" "keys_at v = keys_at w" "entry_at v = entry_at w"
    using v(2) R(4) by (simp_all add: section_at_def keys_at_def entry_at_def fun_eq_iff)
  have k: "keys_ok v lo ks = keys_ok w lo ks" for lo ks by (rule keys_ok_cong) (simp add: R)
  have "set (L y) \<inter> set (L z) = {}" if "y \<in> set ?ys" "z \<in> set ?ys" "y \<noteq> z" for y z using D(3) ys(1) that by blast
  then have repv: "v1_rep f' v ?ys L" unfolding v1_rep_def using v(5) ys D(2,4,5) at k R(5) by auto
  obtain n where n: "sec_heap v ?x = Some n" using S(5)[OF x] v(2) by (metis not_None_eq sec_data_None)
  let ?v = "v\<lparr>kv_heap := (\<lambda>k. if k \<in> set (L ?x) then None else kv_heap v k)\<rparr>"
  let ?w = "?v\<lparr>sec_heap := (sec_heap v)(?x := None)\<rparr>"
  have da: "listkeyValueNode_deleteall (sn_list n) v = Some ?v"
    using deleteall_keys_ok[of v "sn_list n" "L ?x"] D(2)[OF x] k at(2) sec_heap_at[OF n] by auto
  have "listIniFileNode_delete ?x (f, w) = Some (f', ?w)"
    using found ht v(1) n da by (simp add: listIniFileNode_delete_def free_secn_def)
  moreover have out: "k \<notin> set (L ?x)" "y \<noteq> ?x" if "y \<in> set ?ys" "k \<in> set (L y)" for y k using D(3)[of y ?x] x ys that by blast+
  have "v1_rep f' ?w ?ys L" "doc_of_v1 ?w ?ys L = doc_of_v1 v ?ys L"
    by (rule rep_frame[OF repv]; use out ys in auto)+
  moreover have "doc_of_v1 v ?ys L = drop_nth i (doc_of_v1 w xs L)" using at by (simp add: doc_of_v1_def drop_nth_map)
  ultimately show ?thesis using v(3) R(6,7) by (intro exI[of _ f'] exI[of _ ?w]) simp
qed

end
