(* ===== verification/V1_Write.thy ===== *)
theory V1_Write
  imports V1_Ops
begin

text \<open>
  What \<^verbatim>\<open>updateIniFile\<close> and \<^verbatim>\<open>destoryListIniFileNode\<close> of \<^verbatim>\<open>v1.0.0/inifile.c\<close> do to an open file: the text of
  the document replaces the file, whatever way \<^verbatim>\<open>write\<close> cuts it into pieces, and all nodes are freed.
\<close>

section \<open>The text of a document\<close>

definition print_entry :: "v1_entry \<Rightarrow> string" where
  "print_entry = (\<lambda>(note, key, val).
     if note = 1 then [CONTENT_COMMA] @ key @ [CONTENT_NEELINE]
     else if note = 0 then key @ [CONTENT_EQUALITY] @ val @ [CONTENT_NEELINE] else [])"

definition print_section :: "int \<Rightarrow> string \<Rightarrow> string" where
  "print_section note sec = [CONTENT_NEELINE] @
     (if note = 1 then [CONTENT_COMMA] @ sec @ [CONTENT_NEELINE]
      else if note = 0 then [CONTENT_SECTION] @ sec @ '']'' @ [CONTENT_NEELINE] else [])"

definition print_node :: "int \<times> string \<times> v1_entry list \<Rightarrow> string" where
  "print_node = (\<lambda>(note, sec, es). print_section note sec @ concat (map print_entry es))"

definition print_doc :: "v1_doc \<Rightarrow> string" where
  "print_doc d = concat (map print_node d)"

text \<open>Every line fits the buffer of \<^verbatim>\<open>updateIniFile\<close>.\<close>

definition doc_prints :: "v1_doc \<Rightarrow> bool" where
  "doc_prints d \<longleftrightarrow> doc_fits d \<and>
     list_all (\<lambda>(note, sec, es). list_all (\<lambda>e. length (print_entry e) < MAX_FILLINE_LEN + 4) es) d"

section \<open>Pieces\<close>

text \<open>Answers of \<^verbatim>\<open>write\<close> with progress: interrupted and partial writes are allowed, errors are not.\<close>

definition calm :: "write_answer list \<Rightarrow> bool" where
  "calm as = list_all (\<lambda>a. a \<noteq> Failed \<and> a \<noteq> Wrote 0) as"

lemma write_loop_calm: "calm as \<Longrightarrow> \<exists>as'. write_loop as ptr = (False, as', ptr) \<and> calm as'"
proof (induction as ptr rule: write_loop.induct)
  case (4 k as ptr)
  show ?case
  proof (cases "take k ptr = [] \<or> take k ptr = ptr")
    case True
    then show ?thesis using 4(2) by (auto simp: calm_def)
  next
    case False
    then obtain as' where "write_loop as (drop k ptr) = (False, as', drop k ptr)" "calm as'" using 4 by (auto simp: calm_def Let_def)
    then show ?thesis using False by (auto simp: Let_def)
  qed
qed (auto simp: calm_def)

lemma fs_write_simps [simp]:
  "fs_files (fs_write p c fs) = (fs_files fs)(p \<mapsto> c)" "fs_denied (fs_write p c fs) = fs_denied fs"
  "fs_write p c (fs_write p c' fs) = fs_write p c fs"
  by (simp_all add: fs_write_def)

text \<open>The world after the bytes \<open>out\<close> have been appended to a file.\<close>

definition appended :: "string \<Rightarrow> string \<Rightarrow> write_answer list \<Rightarrow> v1_world \<Rightarrow> v1_world" where
  "appended name out as w =
     w\<lparr>v1_writes := as, v1_fs := fs_write name (the (fs_files (v1_fs w) name) @ out) (v1_fs w)\<rparr>"

lemma appended_simps [simp]:
  "kv_heap (appended name out as w) = kv_heap w" "sec_heap (appended name out as w) = sec_heap w"
  "next_addr (appended name out as w) = next_addr w" "v1_writes (appended name out as w) = as"
  "appended name out' as' (appended name out as w) = appended name (out @ out') as' w"
  by (simp_all add: appended_def)

lemma appended_views [simp]:
  "kv_nxt_v1 (appended name out as w) = kv_nxt_v1 w" "entry_at (appended name out as w) = entry_at w"
  "sec_nxt_v1 (appended name out as w) = sec_nxt_v1 w" "section_at (appended name out as w) = section_at w"
  "keys_at (appended name out as w) = keys_at w" "kv_prv_v1 (appended name out as w) = kv_prv_v1 w" "kv_data (appended name out as w) = kv_data w"
  by (simp_all add: kv_views sec_views entry_at_def section_at_def keys_at_def fun_eq_iff)

lemma appended_keys_ok [simp]: "keys_ok (appended name out as w) lo ks = keys_ok w lo ks"
  by (simp add: keys_ok_def split: option.split)

lemma write_buffer_calm:
  assumes "calm (v1_writes w)"
  shows "\<exists>as'. write_buffer name buffer w = (False, appended name buffer as' w) \<and> calm as'"
  using write_loop_calm[OF assms, of buffer] by (auto simp: write_buffer_def appended_def)

lemma node_key_line_eq:
  assumes "kv_heap w k = Some n" "entry_fits (entry_at w k)" "length (print_entry (entry_at w k)) < MAX_FILLINE_LEN + 4"
  shows "node_key_line n = Some (print_entry (entry_at w k))"
  using assms kv_heap_at[OF assms(1)]
  by (auto simp: node_key_line_def print_entry_def entry_fits_def arr_str_def in_buffer_def)

lemma node_section_line_eq:
  assumes "sec_heap w x = Some n" "length (snd (section_at w x)) < NODE_STRING_LEN"
  shows "node_section_line n = Some (case_prod print_section (section_at w x))"
  using assms sec_heap_at[OF assms(1)]
  by (auto simp: node_section_line_def print_section_def arr_str_def in_buffer_def NODE_STRING_LEN_def v1_sizes)

text \<open>The file is there while it is written.\<close>

definition exists :: "string \<Rightarrow> v1_world \<Rightarrow> bool" where
  "exists name w \<longleftrightarrow> fs_files (v1_fs w) name \<noteq> None"

lemma exists_appended [simp]: "exists name (appended name out as w)"
  by (simp add: exists_def appended_def)

lemma appended_Nil: "exists name w \<Longrightarrow> appended name [] (v1_writes w) w = w"
proof -
  assume "exists name w"
  then have "(fs_files (v1_fs w))(name \<mapsto> the (fs_files (v1_fs w) name)) = fs_files (v1_fs w)" by (auto simp: exists_def fun_eq_iff)
  then show ?thesis by (simp add: appended_def fs_write_def)
qed

definition entry_prints :: "v1_entry \<Rightarrow> bool" where
  "entry_prints e \<longleftrightarrow> entry_fits e \<and> length (print_entry e) < MAX_FILLINE_LEN + 4"

lemma doc_prints_at:
  assumes "doc_prints (doc_of_v1 w xs L)" "x \<in> set xs"
  shows "length (snd (section_at w x)) < NODE_STRING_LEN" "\<And>k. k \<in> set (L x) \<Longrightarrow> entry_prints (entry_at w k)"
  using assms by (auto simp: doc_prints_def doc_fits_def doc_of_v1_def list_all_iff entry_prints_def case_prod_beta)

lemma write_keys_ok:
  "chain (kv_nxt_v1 w) p ks \<Longrightarrow> (\<And>k. k \<in> set ks \<Longrightarrow> kv_heap w k \<noteq> None) \<Longrightarrow> (\<And>k. k \<in> set ks \<Longrightarrow> entry_prints (entry_at w k)) \<Longrightarrow>
   calm (v1_writes w) \<Longrightarrow> exists name w \<Longrightarrow>
   \<exists>as'. write_keys name p w = Some (False, appended name (concat (map print_entry (map (entry_at w) ks))) as' w) \<and> calm as'"
proof (induction ks arbitrary: p w)
  case Nil
  then show ?case using appended_Nil[of name w]
    by (intro exI[of _ "v1_writes w"]) (simp add: write_keys.simps[of name None])
next
  case (Cons k ks)
  obtain n where n: "kv_heap w k = Some n" using Cons.prems(2)[of k] by auto
  let ?out = "print_entry (entry_at w k)"
  obtain as1 where b: "write_buffer name ?out w = (False, appended name ?out as1 w)" "calm as1"
    using write_buffer_calm[OF Cons.prems(4)] by blast
  have p: "p = Some k" "chain (kv_nxt_v1 w) (kv_nxt_v1 w k) ks" using Cons.prems(1) by auto
  have nx: "kv_nxt_v1 w k = kn_next n" using n by (simp add: kv_nxt_v1_def)
  have line: "node_key_line n = Some ?out" using node_key_line_eq[OF n] Cons.prems(3)[of k] by (simp add: entry_prints_def)
  have "write_keys name p w = write_keys name (kv_nxt_v1 w k) (appended name ?out as1 w)"
    using n b line p(1) nx by (simp add: write_keys.simps[of name "Some k"])
  moreover have "\<exists>as'. write_keys name (kv_nxt_v1 w k) (appended name ?out as1 w) =
      Some (False, appended name (concat (map print_entry (map (entry_at w) ks))) as' (appended name ?out as1 w)) \<and> calm as'"
    using Cons.IH[of "appended name ?out as1 w" "kv_nxt_v1 w k"] p(2) Cons.prems(2,3) b(2) by simp
  ultimately show ?case by auto
qed

lemma write_sections_ok:
  "chain (sec_nxt_v1 w) p xs \<Longrightarrow> (\<And>x. x \<in> set xs \<Longrightarrow> sec_heap w x \<noteq> None \<and> keys_ok w (keys_at w x) (L x)) \<Longrightarrow>
   (\<And>x. x \<in> set xs \<Longrightarrow> length (snd (section_at w x)) < NODE_STRING_LEN) \<Longrightarrow>
   (\<And>x k. x \<in> set xs \<Longrightarrow> k \<in> set (L x) \<Longrightarrow> entry_prints (entry_at w k)) \<Longrightarrow>
   calm (v1_writes w) \<Longrightarrow> exists name w \<Longrightarrow>
   \<exists>as'. write_sections name p w = Some (0, appended name (print_doc (doc_of_v1 w xs L)) as' w) \<and> calm as'"
proof (induction xs arbitrary: p w)
  case Nil
  then show ?case using appended_Nil[of name w]
    by (intro exI[of _ "v1_writes w"]) (simp add: write_sections.simps[of name None] print_doc_def doc_of_v1_def)
next
  case (Cons x xs)
  obtain n where n: "sec_heap w x = Some n" using Cons.prems(2)[of x] by auto
  let ?out = "case_prod print_section (section_at w x)"
  obtain as1 where b: "write_buffer name ?out w = (False, appended name ?out as1 w)" "calm as1"
    using write_buffer_calm[OF Cons.prems(5)] by blast
  let ?w = "appended name ?out as1 w"
  have p: "p = Some x" "chain (sec_nxt_v1 w) (sec_nxt_v1 w x) xs" using Cons.prems(1) by auto
  have nx: "sec_nxt_v1 w x = sn_next n" using n by (simp add: sec_nxt_v1_def)
  have line: "node_section_line n = Some ?out" by (rule node_section_line_eq[OF n]) (use Cons.prems(3)[of x] in simp)
  have k: "keys_ok w (sn_list n) (L x)" using Cons.prems(2)[of x] sec_heap_at[OF n] by simp
  have "\<exists>as2. (case sn_list n of None \<Rightarrow> Some (False, ?w) | Some l \<Rightarrow> write_keys name (kl_head l) ?w) =
      Some (False, appended name (concat (map print_entry (map (entry_at w) (L x)))) as2 ?w) \<and> calm as2"
  proof (cases "sn_list n")
    case None
    then show ?thesis using k b(2) appended_Nil[of name ?w] by (auto simp: keys_ok_def)
  next
    case (Some l)
    note D = heap_list_okD[OF k[unfolded keys_ok_def Some option.case]]
    show ?thesis using write_keys_ok[of ?w "kl_head l" "L x" name] D(2,5) Cons.prems(4)[of x] b(2) Some by simp
  qed
  then obtain as2 where keys: "(case sn_list n of None \<Rightarrow> Some (False, ?w) | Some l \<Rightarrow> write_keys name (kl_head l) ?w) =
      Some (False, appended name (concat (map print_entry (map (entry_at w) (L x)))) as2 ?w)" "calm as2" by blast
  let ?v = "appended name (?out @ concat (map print_entry (map (entry_at w) (L x)))) as2 w"
  have "write_sections name p w = write_sections name (sec_nxt_v1 w x) ?v"
    using n b line p(1) nx keys(1) by (simp add: write_sections.simps[of name "Some x"])
  moreover have pr: "entry_prints (entry_at w k)" if "y \<in> set xs" "k \<in> set (L y)" for y k
    using Cons.prems(4)[OF _ that(2)] that(1) by simp
  have d: "doc_of_v1 ?v xs L = doc_of_v1 w xs L" by (simp add: doc_of_v1_def)
  have "\<exists>as'. write_sections name (sec_nxt_v1 w x) ?v = Some (0, appended name (print_doc (doc_of_v1 w xs L)) as' ?v) \<and> calm as'"
    using Cons.IH[of ?v "sec_nxt_v1 w x"] p(2) Cons.prems(2,3) pr keys(2) unfolding d by simp
  ultimately show ?case by (auto simp: print_doc_def doc_of_v1_def print_node_def split: prod.splits)
qed

section \<open>Saving\<close>

text \<open>What a call of \<^verbatim>\<open>updateIniFile\<close> does to the files.\<close>

definition save_doc :: "string \<Rightarrow> v1_doc \<Rightarrow> file_system \<Rightarrow> file_system" where
  "save_doc name d fs = (if d \<noteq> [] \<and> can_open fs name then fs_write name (print_doc d) fs else fs)"

lemma fs_frame:
  assumes "v1_rep f w xs L" and "w' = w\<lparr>v1_fs := fs', v1_writes := as'\<rparr>"
  shows "v1_rep f w' xs L" "doc_of_v1 w' xs L = doc_of_v1 w xs L"
  by (rule rep_frame[OF assms(1)]; simp add: assms(2))+

lemma updateIniFile_ok:
  assumes rep: "v1_rep f w xs L" and pr: "doc_prints (doc_of_v1 w xs L)" and calm: "calm (v1_writes w)"
    and name: "length (cstr (if_fileName f)) < MAX_FILENAME_LEN"
  shows "\<exists>ret w'. updateIniFile f w = Some (ret, w') \<and> v1_rep f w' xs L \<and> doc_of_v1 w' xs L = doc_of_v1 w xs L \<and>
    v1_fs w' = save_doc (cstr (if_fileName f)) (doc_of_v1 w xs L) (v1_fs w) \<and> calm (v1_writes w') \<and>
    ret = (if doc_of_v1 w xs L = [] then EMPTYLIST else if can_open (v1_fs w) (cstr (if_fileName f)) then 0 else OPENFILEERROR)"
proof -
  note D = v1_repD[OF rep] and S = heap_list_okD[OF v1_repD(1)[OF rep]]
  let ?n = "cstr (if_fileName f)"
  consider "xs = []" | "xs \<noteq> []" "\<not> can_open (v1_fs w) ?n" | "xs \<noteq> []" "can_open (v1_fs w) ?n" by blast
  then show ?thesis
  proof cases
    case 1
    then show ?thesis using rep calm S(6) by (auto simp: updateIniFile_def listIniFileNode_is_empty_def save_doc_def doc_of_v1_def)
  next
    case 2
    then show ?thesis using rep calm S(6) name by (auto simp: updateIniFile_def listIniFileNode_is_empty_def save_doc_def doc_of_v1_def)
  next
    case 3
    let ?w = "w\<lparr>v1_fs := fs_write ?n [] (v1_fs w)\<rparr>"
    have r: "v1_rep f ?w xs L" "doc_of_v1 ?w xs L = doc_of_v1 w xs L" by (rule rep_frame[OF rep]; simp)+
    note D' = v1_repD[OF r(1)] and S' = heap_list_okD[OF v1_repD(1)[OF r(1)]]
    have "\<exists>as'. write_sections ?n (if_head f) ?w = Some (0, appended ?n (print_doc (doc_of_v1 ?w xs L)) as' ?w) \<and> calm as'"
      by (rule write_sections_ok[OF S'(2)]) (use S'(5) D'(2) doc_prints_at[of ?w xs L] pr r(2) calm in \<open>auto simp: exists_def\<close>)
    then obtain as' where as': "write_sections ?n (if_head f) ?w = Some (0, appended ?n (print_doc (doc_of_v1 w xs L)) as' ?w)" "calm as'"
      unfolding r(2) by blast
    have "appended ?n (print_doc (doc_of_v1 w xs L)) as' ?w = w\<lparr>v1_fs := fs_write ?n (print_doc (doc_of_v1 w xs L)) (v1_fs w), v1_writes := as'\<rparr>"
      by (simp add: appended_def)
    then show ?thesis using as' 3 name S(6) fs_frame[OF rep refl]
      by (auto simp: updateIniFile_def listIniFileNode_is_empty_def save_doc_def doc_of_v1_def)
  qed
qed

section \<open>Releasing\<close>

lemma destory_loop_ok:
  "chain (sec_prv_v1 w) tail (rev (h # xs)) \<Longrightarrow> (\<And>x. x \<in> set (h # xs) \<Longrightarrow> sec_heap w x \<noteq> None \<and> keys_ok w (keys_at w x) (L x)) \<Longrightarrow>
   (\<And>x y. x \<in> set (h # xs) \<Longrightarrow> y \<in> set (h # xs) \<Longrightarrow> x \<noteq> y \<Longrightarrow> set (L x) \<inter> set (L y) = {}) \<Longrightarrow>
   destory_loop (Some h) tail w = Some (w\<lparr>sec_heap := (\<lambda>x. if x \<in> set (h # xs) then None else sec_heap w x),
     kv_heap := (\<lambda>k. if \<exists>x \<in> set (h # xs). k \<in> set (L x) then None else kv_heap w k)\<rparr>)"
proof (induction xs arbitrary: w tail rule: rev_induct)
  case Nil
  then obtain n where n: "sec_heap w h = Some n" by auto
  have "keys_ok w (sn_list n) (L h)" using Nil.prems(2)[of h] sec_heap_at[OF n] by simp
  note da = deleteall_keys_ok[OF this]
  show ?case using n da Nil.prems(1) by (auto simp: destory_loop.simps[of "Some h" "Some h"] Let_def fun_eq_iff fun_upd_def)
next
  case (snoc x xs)
  have c: "tail = Some x" "chain (sec_prv_v1 w) (sec_prv_v1 w x) (rev (h # xs))" using snoc.prems(1) by auto
  have xn: "x \<notin> set (h # xs)" using chain_distinct[OF snoc.prems(1)] by auto
  obtain n where n: "sec_heap w x = Some n" using snoc.prems(2)[of x] by auto
  have "keys_ok w (sn_list n) (L x)" using snoc.prems(2)[of x] sec_heap_at[OF n] by simp
  note da = deleteall_keys_ok[OF this]
  let ?w = "w\<lparr>kv_heap := (\<lambda>k. if k \<in> set (L x) then None else kv_heap w k), sec_heap := (sec_heap w)(x := None)\<rparr>"
  have step: "destory_loop (Some h) tail w = destory_loop (Some h) (sec_prv_v1 w x) ?w"
    using n da c(1) xn by (simp add: destory_loop.simps[of "Some h" "Some x"] sec_prv_v1_def)
  have "chain (sec_prv_v1 ?w) (sec_prv_v1 w x) (rev (h # xs)) = chain (sec_prv_v1 w) (sec_prv_v1 w x) (rev (h # xs))"
    by (rule chain_cong) (use xn in \<open>auto simp: sec_prv_v1_def\<close>)
  moreover have "sec_heap ?w y \<noteq> None \<and> keys_ok ?w (keys_at ?w y) (L y)" if y: "y \<in> set (h # xs)" for y
  proof -
    have "keys_ok ?w lo (L y) = keys_ok w lo (L y)" for lo
      by (rule keys_ok_cong) (use snoc.prems(3)[of y x] y xn in \<open>auto simp: kv_nxt_v1_def kv_prv_v1_def\<close>)
    moreover have "keys_at ?w y = keys_at w y" using y xn by (auto simp: keys_at_def sec_data_def)
    ultimately show ?thesis using snoc.prems(2)[of y] y xn by auto
  qed
  ultimately have "destory_loop (Some h) (sec_prv_v1 w x) ?w = Some (?w\<lparr>sec_heap := (\<lambda>y. if y \<in> set (h # xs) then None else sec_heap ?w y),
     kv_heap := (\<lambda>k. if \<exists>y \<in> set (h # xs). k \<in> set (L y) then None else kv_heap ?w k)\<rparr>)"
    using c(2) snoc.prems(3) by (intro snoc.IH) auto
  moreover have "(\<lambda>y. if y \<in> set (h # xs) then None else sec_heap ?w y) = (\<lambda>y. if y \<in> set (h # xs @ [x]) then None else sec_heap w y)"
    "(\<lambda>k. if \<exists>y \<in> set (h # xs). k \<in> set (L y) then None else kv_heap ?w k) = (\<lambda>k. if \<exists>y \<in> set (h # xs @ [x]). k \<in> set (L y) then None else kv_heap w k)"
    by auto
  ultimately show ?case unfolding step by simp
qed

lemma destory_ok:
  assumes rep: "v1_rep f w xs L"
  shows "destoryListIniFileNode f w = Some (w\<lparr>sec_heap := (\<lambda>x. if x \<in> set xs then None else sec_heap w x),
     kv_heap := (\<lambda>k. if \<exists>x \<in> set xs. k \<in> set (L x) then None else kv_heap w k)\<rparr>)"
proof (cases xs)
  case Nil
  then show ?thesis using heap_list_okD(6)[OF v1_repD(1)[OF rep]] by (simp add: destoryListIniFileNode_def listIniFileNode_is_empty_def)
next
  case (Cons h ys)
  note D = v1_repD[OF rep] and S = heap_list_okD[OF v1_repD(1)[OF rep]]
  have "chain (sec_prv_v1 w) (if_tail f) (rev (h # ys))" using dchain_rev[OF S(1), of "[]"] S(4) Cons by simp
  then have "destory_loop (Some h) (if_tail f) w = Some (w\<lparr>sec_heap := (\<lambda>x. if x \<in> set (h # ys) then None else sec_heap w x),
     kv_heap := (\<lambda>k. if \<exists>x \<in> set (h # ys). k \<in> set (L x) then None else kv_heap w k)\<rparr>)"
    by (rule destory_loop_ok) (use S(5) D(2,3) Cons in auto)
  moreover have "if_head f = Some h" using S(2) Cons by simp
  ultimately show ?thesis using Cons by (simp add: destoryListIniFileNode_def listIniFileNode_is_empty_def)
qed

end
