(* ===== verification/V1_Correct.thy ===== *)
theory V1_Correct
  imports V1_Write
begin

text \<open>
  The exported operations of \<^verbatim>\<open>v1.0.0/inifile.c\<close> on an open file refine operations on its document, and
  the operations that change the document save its text.
\<close>

section \<open>Arguments\<close>

definition arg_v1 :: "string option \<Rightarrow> int \<Rightarrow> string \<Rightarrow> bool" where
  "arg_v1 so len t \<longleftrightarrow> so \<noteq> None \<and> cstr (the so) = t \<and> len = int (length t) \<and> t \<noteq> [] \<and> length t \<le> MAX_STRING_LEN"

lemma arg_v1D:
  assumes "arg_v1 so len t"
  shows "\<not> bad_arg so len" "ends_at so len = Some True" "arg_bytes_v1 so len = t" "cstr (the so) = t" "length t \<le> NODE_STRING_LEN"
proof -
  obtain s where s: "so = Some s" "cstr s = t" "len = int (length t)" "t \<noteq> []" "length t \<le> MAX_STRING_LEN"
    using assms by (auto simp: arg_v1_def)
  show "\<not> bad_arg so len" "ends_at so len = Some True" using s byte_at_cstr_end[of s] by (auto simp: bad_arg_def ends_at_def)
  show "arg_bytes_v1 so len = t" using s map_byte_at_cstr[of t "length t" s] by (auto simp: arg_bytes_v1_def)
  show "cstr (the so) = t" "length t \<le> NODE_STRING_LEN" using s by (auto simp: NODE_STRING_LEN_def)
qed

definition section_arg_v1 :: "INI_PARAMETER_v1 \<Rightarrow> string \<Rightarrow> bool" where
  "section_arg_v1 par s = arg_v1 (pr_section par) (pr_section_len par) s"

definition key_arg_v1 :: "INI_PARAMETER_v1 \<Rightarrow> string \<Rightarrow> bool" where
  "key_arg_v1 par k = arg_v1 (pr_key par) (pr_key_len par) k"

definition value_arg_v1 :: "INI_PARAMETER_v1 \<Rightarrow> string \<Rightarrow> bool" where
  "value_arg_v1 par v = arg_v1 (pr_value par) (pr_value_len par) v"

lemmas v1_args = section_arg_v1_def key_arg_v1_def value_arg_v1_def

lemma check_ok:
  assumes "section_arg_v1 par s" "key_arg_v1 par k"
  shows "ini_parameter_check par getValueOfKey_type = Some True" "ini_parameter_check par deleteValueOfKey_type = Some True"
    "ini_parameter_check par deleteSection_type = Some True" "ini_parameter_check par addSetction_type = Some True"
    "value_arg_v1 par v \<Longrightarrow> ini_parameter_check par updateValueOfKey_type = Some True"
    "value_arg_v1 par v \<Longrightarrow> ini_parameter_check par addValueOfKey_type = Some True"
  using assms arg_v1D(1,2) by (auto simp: v1_args ini_parameter_check_def all_end_def Let_def)

section \<open>Operations on documents\<close>

abbreviation entries :: "int \<times> string \<times> v1_entry list \<Rightarrow> v1_entry list" where
  "entries n \<equiv> snd (snd n)"

text \<open>The text of a value: without the blanks ahead, and none for a value that is only blanks.\<close>

definition trimmed :: "string \<Rightarrow> string option" where
  "trimmed v = (if v \<noteq> [] \<and> (hd v = CONTENT_NEELINE \<or> list_all blank_v1 v) then None else Some (dropWhile blank_v1 v))"

definition lookup_v1 :: "v1_doc \<Rightarrow> string \<Rightarrow> string \<Rightarrow> string option" where
  "lookup_v1 d s k =
     (case find_section_v1 d s of
        None \<Rightarrow> None
      | Some i \<Rightarrow> (case find_key_v1 (entries (d ! i)) k of
          None \<Rightarrow> None
        | Some j \<Rightarrow> trimmed (snd (snd (entries (d ! i) ! j)))))"

definition update_v1 :: "v1_doc \<Rightarrow> string \<Rightarrow> string \<Rightarrow> string \<Rightarrow> int \<times> v1_doc" where
  "update_v1 d s k v =
     (case find_section_v1 d s of
        None \<Rightarrow> (-2, d)
      | Some i \<Rightarrow> (case find_key_v1 (entries (d ! i)) k of
          None \<Rightarrow> (-3, d)
        | Some j \<Rightarrow> (0, d[i := set_value j ([CONTENT_SPACE] @ v @ [CONTENT_NEELINE]) (d ! i)])))"

definition add_v1 :: "v1_doc \<Rightarrow> string \<Rightarrow> string \<Rightarrow> string \<Rightarrow> int \<times> v1_doc" where
  "add_v1 d s k v =
     (case find_section_v1 d s of
        None \<Rightarrow> (-2, d)
      | Some i \<Rightarrow>
          if find_key_v1 (entries (d ! i)) k \<noteq> None then (-3, d)
          else (0, d[i := add_entry (0, k @ [CONTENT_TAB], [CONTENT_SPACE] @ v @ [CONTENT_NEELINE]) (d ! i)]))"

definition delete_v1 :: "v1_doc \<Rightarrow> string \<Rightarrow> string \<Rightarrow> int \<times> v1_doc" where
  "delete_v1 d s k =
     (case find_section_v1 d s of
        None \<Rightarrow> (-2, d)
      | Some i \<Rightarrow> (case find_key_v1 (entries (d ! i)) k of
          None \<Rightarrow> (-3, d)
        | Some j \<Rightarrow> (0, d[i := drop_entry j (d ! i)])))"

definition delete_section_v1 :: "v1_doc \<Rightarrow> string \<Rightarrow> int \<times> v1_doc" where
  "delete_section_v1 d s = (case find_section_v1 d s of None \<Rightarrow> (-2, d) | Some i \<Rightarrow> (0, drop_nth i d))"

definition add_section_v1 :: "v1_doc \<Rightarrow> string \<Rightarrow> int \<times> v1_doc" where
  "add_section_v1 d s = (if find_section_v1 d s \<noteq> None then (-2, d) else (0, d @ [(0, s, [])]))"

text \<open>What an operation leaves behind: the document, the saved text when it returned 0, and answers of \<^verbatim>\<open>write\<close>.\<close>

definition op_done :: "INI_FILE_v1 \<Rightarrow> v1_world \<Rightarrow> INI_FILE_v1 \<Rightarrow> v1_world \<Rightarrow> int \<times> v1_doc \<Rightarrow> bool" where
  "op_done f w f' w' r \<longleftrightarrow> holds_doc f' w' (snd r) \<and> if_fileName f' = if_fileName f \<and> calm (v1_writes w') \<and>
     v1_fs w' = (if fst r = 0 then save_doc (cstr (if_fileName f)) (snd r) (v1_fs w) else v1_fs w)"

section \<open>Searches in an open file\<close>

lemma find_section_index:
  assumes "find_section_v1 d s = Some i"
  shows "i < length d"
  using first_index_SomeD[OF assms[unfolded find_section_v1_def]] by simp

lemma find_key_index:
  assumes "find_key_v1 es k = Some j"
  shows "j < length es"
  using first_index_SomeD[OF assms[unfolded find_key_v1_def]] by simp

lemma entries_doc_of: "i < length xs \<Longrightarrow> entries (doc_of_v1 w xs L ! i) = map (entry_at w) (L (xs ! i))"
  by (simp add: doc_of_v1_nth)

lemma find_both:
  assumes rep: "v1_rep f w xs L" and fit: "doc_fits (doc_of_v1 w xs L)" and s: "section_arg_v1 par s" and k: "key_arg_v1 par k"
  shows "findIniFileNode f w (the (pr_section par)) = Some (map_option ((!) xs) (find_section_v1 (doc_of_v1 w xs L) s))"
    "find_section_v1 (doc_of_v1 w xs L) s = Some i \<Longrightarrow>
       findIniKeyValue w (xs ! i) (the (pr_key par)) =
         Some (map_option ((!) (L (xs ! i))) (find_key_v1 (entries (doc_of_v1 w xs L ! i)) k)) \<and> i < length xs"
    "find_section_v1 (doc_of_v1 w xs L) s = Some i \<Longrightarrow> find_key_v1 (entries (doc_of_v1 w xs L ! i)) k = Some j \<Longrightarrow> j < length (L (xs ! i))"
proof -
  note S = arg_v1D[OF s[unfolded v1_args]] and K = arg_v1D[OF k[unfolded v1_args]]
  show "findIniFileNode f w (the (pr_section par)) = Some (map_option ((!) xs) (find_section_v1 (doc_of_v1 w xs L) s))"
    using findIniFileNode_ok[OF rep fit] S(4,5) by simp
  assume i: "find_section_v1 (doc_of_v1 w xs L) s = Some i"
  then have il: "i < length xs" using find_section_index by fastforce
  then show "findIniKeyValue w (xs ! i) (the (pr_key par)) =
         Some (map_option ((!) (L (xs ! i))) (find_key_v1 (entries (doc_of_v1 w xs L ! i)) k)) \<and> i < length xs"
    using findIniKeyValue_ok[OF rep fit] K(4,5) by (simp add: entries_doc_of)
  show "j < length (L (xs ! i))" if "find_key_v1 (entries (doc_of_v1 w xs L ! i)) k = Some j"
    using find_key_index[OF that] il by (simp add: entries_doc_of)
qed

section \<open>Reading a value\<close>

lemma spacetab_loop_eq: "spacetab_loop v = (if v \<noteq> [] \<and> cstr v \<noteq> [] \<and> list_all blank_v1 (cstr v) then None else Some (length (takeWhile blank_v1 (cstr v))))"
proof (induction v)
  case (Cons c cs)
  have nb: "\<not> blank_v1 NUL" by (simp add: blank_v1_def v1_chars)
  have "byte_at cs 0 = NUL \<longleftrightarrow> cstr cs = []" by (cases cs) auto
  moreover have "spacetab_loop (c # cs) = (if blank_v1 c then (if byte_at cs 0 = NUL then None else map_option Suc (spacetab_loop cs)) else Some 0)"
    by (simp add: blank_v1_def)
  ultimately show ?case using Cons nb by (cases "c = NUL") (auto simp del: spacetab_loop.simps)
qed simp

lemma trimmed_eq: "map_option (\<lambda>i. cstr (drop i v)) (delete_spacetab_begin v) = trimmed (cstr v)"
proof -
  have "cstr (drop i v) = drop i (cstr v)" if "i \<le> length (cstr v)" for i
    using that by (induction v arbitrary: i) (auto simp: drop_Cons split: nat.splits if_splits)
  then have d: "cstr (drop (length (takeWhile blank_v1 (cstr v))) v) = dropWhile blank_v1 (cstr v)"
    by (simp add: dropWhile_eq_drop length_takeWhile_le)
  have hd: "byte_at v 0 = CONTENT_NEELINE \<longleftrightarrow> cstr v \<noteq> [] \<and> hd (cstr v) = CONTENT_NEELINE"
    by (cases v) (auto simp: v1_chars)
  have "v \<noteq> [] \<and> cstr v \<noteq> [] \<longleftrightarrow> cstr v \<noteq> []" by auto
  then show ?thesis using d hd by (auto simp: delete_spacetab_begin_def spacetab_loop_eq trimmed_def)
qed

text \<open>
  C13. \<^verbatim>\<open>getValueOfKey\<close> reads the document: the value of the first key that matches in the first section
  that matches, without leading blanks, and \<^verbatim>\<open>NULL\<close> when there is none.
\<close>

theorem v1_get_refines:
  assumes "holds_doc f w d" and "doc_fits d" and "section_arg_v1 par s" and "key_arg_v1 par k"
  shows "getValueOfKey (Some f) par w = Some (lookup_v1 d s k)"
proof -
  obtain xs L where rep: "v1_rep f w xs L" and d: "doc_of_v1 w xs L = d" using assms(1) by (auto simp: holds_doc_def)
  note F = find_both[OF rep _ assms(3,4), unfolded d, OF assms(2)]
  show ?thesis
  proof (cases "find_section_v1 d s")
    case None
    then show ?thesis using F(1) check_ok(1)[OF assms(3,4)] by (simp add: getValueOfKey_def lookup_v1_def)
  next
    case (Some i)
    note Fi = F(2)[OF Some]
    show ?thesis
    proof (cases "find_key_v1 (entries (d ! i)) k")
      case None
      then show ?thesis using F(1) Fi Some check_ok(1)[OF assms(3,4)] by (simp add: getValueOfKey_def lookup_v1_def)
    next
      case j: (Some j)
      have jl: "j < length (L (xs ! i))" using F(3)[OF Some j] .
      obtain n where n: "kv_heap w (L (xs ! i) ! j) = Some n"
        using keys_ok_live[OF v1_repD(2)[OF rep]] jl Fi by (metis not_None_eq nth_mem)
      have "entries (d ! i) ! j = (kn_isNote n, cstr (kn_key n), cstr (kn_value n))"
        using kv_heap_at[OF n] jl Fi d entries_doc_of[of i xs w L] by simp
      then show ?thesis using F(1) Fi Some j n check_ok(1)[OF assms(3,4)] trimmed_eq[of "kn_value n"]
        by (simp add: getValueOfKey_def lookup_v1_def)
    qed
  qed
qed

section \<open>Changing keys\<close>

lemma holds_docI: "v1_rep f w xs L \<Longrightarrow> holds_doc f w (doc_of_v1 w xs L)"
  by (auto simp: holds_doc_def)

lemma doc_prints_fits: "doc_prints d \<Longrightarrow> doc_fits d"
  by (simp add: doc_prints_def)

text \<open>The common end of the operations: the new document is saved.\<close>

lemma save_done:
  assumes "v1_rep f' w1 xs L" and "doc_of_v1 w1 xs L = d'" and "doc_prints d'" and "calm (v1_writes w1)" and "v1_fs w1 = v1_fs w"
    and "if_fileName f' = if_fileName f" and "length (cstr (if_fileName f)) < MAX_FILENAME_LEN"
  shows "\<exists>ret w'. updateIniFile f' w1 = Some (ret, w') \<and> op_done f w f' w' (0, d')"
  using updateIniFile_ok[OF assms(1)] assms by (fastforce simp: op_done_def dest: holds_docI)

lemma new_value_short:
  assumes "arg_bytes_v1 (pr_value par) (pr_value_len par) = v" "length v + 2 < MAX_STRING_LEN" "NUL \<notin> set v"
  shows "cstr (new_value old par) = [CONTENT_SPACE] @ v @ [CONTENT_NEELINE]"
proof (rule cstr_eqI)
  show "NUL \<notin> set ([CONTENT_SPACE] @ v @ [CONTENT_NEELINE])" using assms(3) by (simp add: v1_chars)
qed (use assms(1,2) in \<open>auto simp: new_value_def byte_at_put_bytes\<close>)

lemma arg_no_NUL: "arg_v1 so len t \<Longrightarrow> NUL \<notin> set t"
  by (auto simp: arg_v1_def)

text \<open>
  C14. \<^verbatim>\<open>updateValueOfKey\<close> with a value of at most 61 characters: the first matching key of the first matching
  section gets the value, with a space ahead and a newline behind it, and the file becomes the text of
  the new document; otherwise -2 or -3 tells what is missing and nothing changes. Interrupted and
  partial writes do not matter.
\<close>

theorem v1_update_refines:
  assumes "holds_doc f w d" and "doc_fits d" and "section_arg_v1 par s" and "key_arg_v1 par k" and "value_arg_v1 par v"
    and "length v + 2 < MAX_STRING_LEN" and "doc_prints (snd (update_v1 d s k v))" and "calm (v1_writes w)"
    and "length (cstr (if_fileName f)) < MAX_FILENAME_LEN"
  shows "\<exists>w'. updateValueOfKey (Some f) par w = Some (fst (update_v1 d s k v), w') \<and> op_done f w f w' (update_v1 d s k v)"
proof -
  obtain xs L where rep: "v1_rep f w xs L" and d: "doc_of_v1 w xs L = d" using assms(1) by (auto simp: holds_doc_def)
  note F = find_both[OF rep _ assms(3,4), unfolded d, OF assms(2)] and C = check_ok(5)[OF assms(3,4,5)]
  note V = arg_v1D[OF assms(5)[unfolded v1_args]] arg_no_NUL[OF assms(5)[unfolded v1_args]]
  show ?thesis
  proof (cases "find_section_v1 d s")
    case None
    then show ?thesis using F(1) C assms(1,8) by (simp add: updateValueOfKey_def update_v1_def op_done_def)
  next
    case i: (Some i)
    note Fi = F(2)[OF i]
    show ?thesis
    proof (cases "find_key_v1 (entries (d ! i)) k")
      case None
      then show ?thesis using F(1) Fi i C assms(1,8) by (simp add: updateValueOfKey_def update_v1_def op_done_def)
    next
      case j: (Some j)
      have jl: "j < length (L (xs ! i))" using F(3)[OF i j] .
      let ?v = "[CONTENT_SPACE] @ v @ [CONTENT_NEELINE]"
      have u: "update_v1 d s k v = (0, d[i := set_value j ?v (d ! i)])" using i j by (simp add: update_v1_def)
      obtain w1 where w1: "upd_kvn (L (xs ! i) ! j) (\<lambda>n. n\<lparr>kn_value := new_value (kn_value n) par\<rparr>) w = Some w1"
        "v1_rep f w1 xs L" "doc_of_v1 w1 xs L = d[i := set_value j ?v (d ! i)]" "v1_fs w1 = v1_fs w" "v1_writes w1 = v1_writes w"
        using update_value_ok[OF rep conjunct2[OF Fi] jl, of "\<lambda>old. new_value old par" ?v]
          new_value_short[OF V(3) assms(6) V(6)] unfolding d by auto
      obtain ret w' where "updateIniFile f w1 = Some (ret, w')" "op_done f w f w' (update_v1 d s k v)"
        using save_done[OF w1(2,3) _ _ w1(4) refl assms(9)] assms(7,8) w1(5) unfolding u by auto
      then show ?thesis using F(1) Fi i j C w1(1) u by (simp add: updateValueOfKey_def)
    qed
  qed
qed

text \<open>
  C15. \<^verbatim>\<open>addValueOfKey\<close>: the key, with a tab behind it, and the value, with a space ahead and a newline behind
  it, become the last entry of the first matching section, and the file becomes the text of the new
  document; -2 is a missing section and -3 an existing key, and then nothing changes.
\<close>

theorem v1_add_refines:
  assumes "holds_doc f w d" and "doc_fits d" and "section_arg_v1 par s" and "key_arg_v1 par k" and "value_arg_v1 par v"
    and "doc_prints (snd (add_v1 d s k v))" and "calm (v1_writes w)" and "length (cstr (if_fileName f)) < MAX_FILENAME_LEN"
  shows "\<exists>w'. addValueOfKey (Some f) par w = Some (fst (add_v1 d s k v), w') \<and> op_done f w f w' (add_v1 d s k v)"
proof -
  obtain xs L where rep: "v1_rep f w xs L" and d: "doc_of_v1 w xs L = d" using assms(1) by (auto simp: holds_doc_def)
  note F = find_both[OF rep _ assms(3,4), unfolded d, OF assms(2)] and C = check_ok(6)[OF assms(3,4,5)]
  note V = arg_v1D(3)[OF assms(5)[unfolded v1_args]] arg_no_NUL[OF assms(5)[unfolded v1_args]]
  note K = arg_v1D(3)[OF assms(4)[unfolded v1_args]] arg_no_NUL[OF assms(4)[unfolded v1_args]]
  show ?thesis
  proof (cases "find_section_v1 d s")
    case None
    then show ?thesis using F(1) C assms(1,7) by (simp add: addValueOfKey_def add_v1_def op_done_def)
  next
    case i: (Some i)
    note Fi = F(2)[OF i]
    show ?thesis
    proof (cases "find_key_v1 (entries (d ! i)) k")
      case (Some j)
      then show ?thesis using F(1) Fi i C assms(1,7) by (simp add: addValueOfKey_def add_v1_def op_done_def)
    next
      case None
      let ?e = "(0, k @ [CONTENT_TAB], [CONTENT_SPACE] @ v @ [CONTENT_NEELINE]) :: v1_entry"
      let ?g = "\<lambda>n. n\<lparr>kn_key := k @ [CONTENT_TAB], kn_value := [CONTENT_SPACE] @ v @ [CONTENT_NEELINE]\<rparr>"
      have a: "add_v1 d s k v = (0, d[i := add_entry ?e (d ! i)])" using i None by (simp add: add_v1_def)
      obtain b w0 where new: "new_kv w = (b, w0)" by (cases "new_kv w") auto
      then obtain w1 where upd: "upd_kvn b ?g w0 = Some w1" by (auto simp: new_kv_def upd_kvn_def)
      note N = rep_new_kv[OF rep new upd]
      have e: "entry_at w1 b = ?e" using kv_heap_at[OF N(4)] V(2) K(2)
        by (simp add: zero_kv_def cstr_no_NUL v1_chars)
      obtain w2 L' where w2: "insert_key (xs ! i) b w1 = Some w2" "v1_rep f w2 xs L'" "doc_of_v1 w2 xs L' = d[i := add_entry ?e (d ! i)]"
        "v1_fs w2 = v1_fs w" "v1_writes w2 = v1_writes w"
        using insert_key_ok[OF N(1) conjunct2[OF Fi] _ N(5,3)] N(2,4,7,8) d e by fastforce
      obtain ret w' where "updateIniFile f w2 = Some (ret, w')" "op_done f w f w' (add_v1 d s k v)"
        using save_done[OF w2(2,3) _ _ w2(4) refl assms(8)] assms(6,7) w2(5) unfolding a by auto
      then show ?thesis using F(1) Fi i None C new upd w2(1) a V(1) K(1) by (simp add: addValueOfKey_def)
    qed
  qed
qed

text \<open>
  C16. \<^verbatim>\<open>deleteValueOfKey\<close> removes the first matching key of the first matching section and saves the new
  document; -2 and -3 tell what is missing, and then nothing changes.
\<close>

theorem v1_delete_refines:
  assumes "holds_doc f w d" and "doc_fits d" and "section_arg_v1 par s" and "key_arg_v1 par k"
    and "doc_prints (snd (delete_v1 d s k))" and "calm (v1_writes w)" and "length (cstr (if_fileName f)) < MAX_FILENAME_LEN"
  shows "\<exists>w'. deleteValueOfKey (Some f) par w = Some (fst (delete_v1 d s k), w') \<and> op_done f w f w' (delete_v1 d s k)"
proof -
  obtain xs L where rep: "v1_rep f w xs L" and d: "doc_of_v1 w xs L = d" using assms(1) by (auto simp: holds_doc_def)
  note F = find_both[OF rep _ assms(3,4), unfolded d, OF assms(2)] and C = check_ok(2)[OF assms(3,4)]
  show ?thesis
  proof (cases "find_section_v1 d s")
    case None
    then show ?thesis using F(1) C assms(1,6) by (simp add: deleteValueOfKey_def delete_v1_def op_done_def)
  next
    case i: (Some i)
    note Fi = F(2)[OF i]
    show ?thesis
    proof (cases "find_key_v1 (entries (d ! i)) k")
      case None
      then show ?thesis using F(1) Fi i C assms(1,6) by (simp add: deleteValueOfKey_def delete_v1_def op_done_def)
    next
      case j: (Some j)
      have jl: "j < length (L (xs ! i))" using F(3)[OF i j] .
      have r: "delete_v1 d s k = (0, d[i := drop_entry j (d ! i)])" using i j by (simp add: delete_v1_def)
      obtain w1 L' where w1: "delete_key (xs ! i) (L (xs ! i) ! j) w = Some w1" "v1_rep f w1 xs L'"
        "doc_of_v1 w1 xs L' = d[i := drop_entry j (d ! i)]" "v1_fs w1 = v1_fs w" "v1_writes w1 = v1_writes w"
        using delete_key_ok[OF rep conjunct2[OF Fi] jl] unfolding d by auto
      obtain ret w' where "updateIniFile f w1 = Some (ret, w')" "op_done f w f w' (delete_v1 d s k)"
        using save_done[OF w1(2,3) _ _ w1(4) refl assms(7)] assms(5,6) w1(5) unfolding r by auto
      then show ?thesis using F(1) Fi i j C w1(1) r
        by (auto simp: deleteValueOfKey_def delete_key_def bind_eq_Some_conv split: option.splits)
    qed
  qed
qed

section \<open>Changing sections\<close>

text \<open>The check of the two section operations also reads the key.\<close>

definition unused_key :: "INI_PARAMETER_v1 \<Rightarrow> bool" where
  "unused_key par \<longleftrightarrow> ends_at (pr_key par) (pr_key_len par) = Some True"

lemma check_sections:
  assumes "section_arg_v1 par s" "unused_key par"
  shows "ini_parameter_check par deleteSection_type = Some True" "ini_parameter_check par addSetction_type = Some True"
  using assms arg_v1D(1,2) by (auto simp: v1_args unused_key_def ini_parameter_check_def all_end_def Let_def)

text \<open>
  \<^verbatim>\<open>deleteSection\<close> on a file with at least two sections removes the first matching section with its keys
  and saves the new document; -2 is a missing section.
\<close>

theorem v1_delete_section_refines:
  assumes "holds_doc f w d" and "doc_fits d" and "1 < length d" and "section_arg_v1 par s" and "unused_key par"
    and "doc_prints (snd (delete_section_v1 d s))" and "calm (v1_writes w)" and "length (cstr (if_fileName f)) < MAX_FILENAME_LEN"
  shows "\<exists>f' w'. deleteSection (Some f) par w = Some (fst (delete_section_v1 d s), Some f', w') \<and> op_done f w f' w' (delete_section_v1 d s)"
proof -
  obtain xs L where rep: "v1_rep f w xs L" and d: "doc_of_v1 w xs L = d" using assms(1) by (auto simp: holds_doc_def)
  note S = arg_v1D[OF assms(4)[unfolded v1_args]] and C = check_sections(1)[OF assms(4,5)]
  have F: "findIniFileNode f w (the (pr_section par)) = Some (map_option ((!) xs) (find_section_v1 d s))"
    using findIniFileNode_ok[OF rep] assms(2) S(4,5) d by simp
  show ?thesis
  proof (cases "find_section_v1 d s")
    case None
    then show ?thesis using F C assms(1,7) by (simp add: deleteSection_def delete_section_v1_def op_done_def)
  next
    case (Some i)
    then have r: "delete_section_v1 d s = (0, drop_nth i d)" by (simp add: delete_section_v1_def)
    have i: "i < length xs" "1 < length xs" using find_section_index[OF Some] assms(3) d by auto
    obtain f' w1 where w1: "listIniFileNode_delete (xs ! i) (f, w) = Some (f', w1)" "v1_rep f' w1 (drop_nth i xs) L"
      "doc_of_v1 w1 (drop_nth i xs) L = drop_nth i d" "if_fileName f' = if_fileName f" "v1_fs w1 = v1_fs w" "v1_writes w1 = v1_writes w"
      using delete_section_ok[OF rep i] unfolding d by auto
    obtain ret w' where "updateIniFile f' w1 = Some (ret, w')" "op_done f w f' w' (delete_section_v1 d s)"
      using save_done[OF w1(2,3) _ _ w1(5,4) assms(8)] assms(6,7) w1(6) unfolding r by auto
    then show ?thesis using F C Some w1(1) r by (simp add: deleteSection_def)
  qed
qed

text \<open>
  \<^verbatim>\<open>deleteSection\<close> on the only section of a file that can be opened frees the node, keeps pointing at it,
  truncates the file and reads the freed node: the call has no defined result.
\<close>

lemma v1_delete_last_section_undefined:
  assumes "holds_doc f w [n]" and "doc_fits [n]" and "section_arg_v1 par s" and "unused_key par" and "same_name (fst (snd n)) s"
    and "length (cstr (if_fileName f)) < MAX_FILENAME_LEN" and "can_open (v1_fs w) (cstr (if_fileName f))"
  shows "deleteSection (Some f) par w = None"
proof -
  obtain xs L where rep: "v1_rep f w xs L" and d: "doc_of_v1 w xs L = [n]" using assms(1) by (auto simp: holds_doc_def)
  note S = arg_v1D[OF assms(3)[unfolded v1_args]] and C = check_sections(1)[OF assms(3,4)]
  obtain x where xs: "xs = [x]" using d by (auto simp: doc_of_v1_def)
  note H = heap_list_okD[OF v1_repD(1)[OF rep]]
  have h: "if_head f = Some x" "if_tail f = Some x" "sec_heap w x \<noteq> None" using H xs by auto
  have "find_section_v1 [n] s = Some 0" using assms(5) by (auto simp: find_section_v1_def split: prod.splits)
  then have F: "findIniFileNode f w (the (pr_section par)) = Some (Some x)"
    using findIniFileNode_ok[OF rep, of "the (pr_section par)"] assms(2) S(4,5) d xs by simp
  have "find_sec w (if_head f) x = Some True" using find_sec_chain[OF H(2)] H(5) xs by simp
  then have D: "listIniFileNode_delete x (f, w) = Some (f, w\<lparr>sec_heap := (sec_heap w)(x := None)\<rparr>)"
    using h by (simp add: listIniFileNode_delete_def free_secn_def)
  have "updateIniFile f (w\<lparr>sec_heap := (sec_heap w)(x := None)\<rparr>) = None"
    using h assms(6,7) by (simp add: updateIniFile_def listIniFileNode_is_empty_def Let_def write_sections.simps[of _ "Some x"])
  then show ?thesis using C F D by (simp add: deleteSection_def)
qed

text \<open>
  \<^verbatim>\<open>addSetction\<close> appends a section without keys and saves the new document; -2 is a section that exists
  already.
\<close>

theorem v1_add_section_refines:
  assumes "holds_doc f w d" and "doc_fits d" and "section_arg_v1 par s" and "unused_key par"
    and "doc_prints (snd (add_section_v1 d s))" and "calm (v1_writes w)" and "length (cstr (if_fileName f)) < MAX_FILENAME_LEN"
  shows "\<exists>f' w'. addSetction (Some f) par w = Some (fst (add_section_v1 d s), Some f', w') \<and> op_done f w f' w' (add_section_v1 d s)"
proof -
  obtain xs L where rep: "v1_rep f w xs L" and d: "doc_of_v1 w xs L = d" using assms(1) by (auto simp: holds_doc_def)
  note S = arg_v1D[OF assms(3)[unfolded v1_args]] arg_no_NUL[OF assms(3)[unfolded v1_args]] and C = check_sections(2)[OF assms(3,4)]
  have F: "findIniFileNode f w (the (pr_section par)) = Some (map_option ((!) xs) (find_section_v1 d s))"
    using findIniFileNode_ok[OF rep] assms(2) S(4,5) d by simp
  show ?thesis
  proof (cases "find_section_v1 d s")
    case (Some i)
    then show ?thesis using F C assms(1,6) by (simp add: addSetction_def add_section_v1_def op_done_def)
  next
    case None
    then have r: "add_section_v1 d s = (0, d @ [(0, s, [])])" by (simp add: add_section_v1_def)
    have len: "length s \<le> MAX_STRING_LEN" "pr_section_len par = int (length s)" using assms(3) by (auto simp: v1_args arg_v1_def)
    have copy: "copyBeginEnd [] (the (pr_section par)) 0 (pr_section_len par) = Some s"
      using S(3) len by (simp add: copyBeginEnd_def arg_bytes_v1_def put_bytes_def NODE_STRING_LEN_def)
    let ?g = "\<lambda>n. n\<lparr>sn_isNote := 0, sn_section := s\<rparr>"
    obtain b w0 where new: "new_sec w = (b, w0)" by (cases "new_sec w") auto
    then obtain w1 where upd: "upd_secn b ?g w0 = Some w1" by (auto simp: new_sec_def upd_secn_def)
    note N = rep_new_sec[OF rep new upd]
    have arr: "arr_str s = Some s" using len S(6) by (simp add: arr_str_def cstr_no_NUL NODE_STRING_LEN_def)
    have F1: "findIniFileNode f w1 s = Some None"
      using findIniFileNode_ok[OF N(1), of s] N(2) d assms(2) S(5,6) None by (simp add: cstr_no_NUL)
    obtain f' w2 L' where w2: "listIniFileNode_insert b (f, w1) = Some (f', w2)" "v1_rep f' w2 (xs @ [b]) L'"
      "doc_of_v1 w2 (xs @ [b]) L' = d @ [(0, s, [])]" "if_fileName f' = if_fileName f" "v1_fs w2 = v1_fs w" "v1_writes w2 = v1_writes w"
      using insert_section_ok[OF N(1,3,4) _ N(5)] N(2,7,8) d S(6) by (auto simp: zero_sec_def cstr_no_NUL)
    obtain ret w' where "updateIniFile f' w2 = Some (ret, w')" "op_done f w f' w' (add_section_v1 d s)"
      using save_done[OF w2(2,3) _ _ w2(5,4) assms(7)] assms(5,6) w2(6) unfolding r by auto
    then show ?thesis using F C None copy new upd arr F1 w2(1) r by (simp add: addSetction_def)
  qed
qed

lemma section_ops_read_the_key:
  assumes "section_arg_v1 par s" and "pr_key par = None"
  shows "deleteSection (Some f) par w = None" "addSetction (Some f) par w = None"
  using assms arg_v1D(1,2)[OF assms(1)[unfolded v1_args]]
  by (auto simp: deleteSection_def addSetction_def ini_parameter_check_def all_end_def ends_at_def Let_def)

section \<open>Closing\<close>

text \<open>
  C17. \<^verbatim>\<open>exitOperationIniFile\<close> returns 0 and frees every section node and key node of the document exactly
  once; the nodes of other files and all files stay as they are.
\<close>

theorem v1_exit_frees_all:
  assumes "v1_rep f w xs L"
  shows "\<exists>w'. exitOperationIniFile (Some f) w = Some (0, None, w') \<and>
    (\<forall>x. sec_heap w' x = (if x \<in> set xs then None else sec_heap w x)) \<and>
    (\<forall>k. kv_heap w' k = (if k \<in> (\<Union>x \<in> set xs. set (L x)) then None else kv_heap w k)) \<and>
    v1_fs w' = v1_fs w"
  using destory_ok[OF assms] by (simp add: exitOperationIniFile_def)

end
