(* ===== verification/V1_Load.thy ===== *)
theory V1_Load
  imports V1_Correct
begin

text \<open>
  Loading a file in \<^verbatim>\<open>v1.0.0/inifile.c\<close>: \<open>parse_line_v1\<close> says what one line adds to the document, and
  \<^verbatim>\<open>initLineContext\<close> to \<^verbatim>\<open>initIniFile\<close> refine it. \<open>None\<close> is a line on which the code is undefined: a key or a
  value that does not fit its array, and a copy of negative length.
\<close>

section \<open>Lines\<close>

text \<open>Changing the last section.\<close>

definition add_to_last :: "v1_entry \<Rightarrow> v1_doc \<Rightarrow> v1_doc" where
  "add_to_last e d = d[length d - 1 := add_entry e (d ! (length d - 1))]"

definition in_notes :: "v1_doc \<Rightarrow> bool" where
  "in_notes d \<longleftrightarrow> d = [] \<or> fst (d ! (length d - 1)) = 1"

definition parse_section_v1 :: "string \<Rightarrow> v1_doc \<Rightarrow> (int \<times> v1_doc) option" where
  "parse_section_v1 p d =
     (if length p > MAX_STRING_LEN + 2 then Some (TOOLONG, d)
      else if length p < 3 then None
      else let name = take (length p - 3) (tl p) in
        if find_section_v1 d name \<noteq> None then Some (REPEATNODEKEY, d) else Some (NODETYPE, d @ [(0, name, [])]))"

definition parse_note_v1 :: "string \<Rightarrow> v1_doc \<Rightarrow> (int \<times> v1_doc) option" where
  "parse_note_v1 c d =
     (if length c > MAX_STRING_LEN then Some (TOOLONG, d)
      else Some (NOTESTYPE, if in_notes d then d @ [(1, tl c, [])] else add_to_last (1, tl c, []) d))"

definition parse_key_v1 :: "string \<Rightarrow> nat \<Rightarrow> v1_doc \<Rightarrow> (int \<times> v1_doc) option" where
  "parse_key_v1 c i d =
     (if length c > MAX_FILLINE_LEN then Some (TOOLONG, d)
      else if in_notes d then Some (KEYVALUE, d)
      else if i \<ge> NODE_STRING_LEN \<or> length c < i + 2 \<or> length c - (i + 2) \<ge> NODE_STRING_LEN then None
      else if find_key_v1 (entries (d ! (length d - 1))) (take i c) \<noteq> None then Some (REPEATNODEKEY, d)
      else Some (KEYVALUE, add_to_last (0, take i c, take (length c - (i + 2)) (drop (i + 1) c)) d))"

definition parse_line_v1 :: "string \<Rightarrow> v1_doc \<Rightarrow> (int \<times> v1_doc) option" where
  "parse_line_v1 c d =
     (let p = dropWhile blank_v1 c; i = length (takeWhile (\<lambda>x. x \<noteq> CONTENT_EQUALITY) c) in
      if p = [] \<or> hd p = CONTENT_NEELINE then Some (ERRORTYPR, d)
      else if hd p = CONTENT_SECTION then parse_section_v1 p d
      else if hd c = CONTENT_COMMA then parse_note_v1 c d
      else if 0 < i \<and> i < length c then parse_key_v1 c i d
      else Some (ERRORTYPR, d))"

fun parse_lines_v1 :: "string list \<Rightarrow> v1_doc \<Rightarrow> (int \<times> v1_doc) option" where
  "parse_lines_v1 [] d = Some (0, d)"
| "parse_lines_v1 (c # cs) d = do {
     (ret, d) \<leftarrow> parse_line_v1 c d;
     if ret < 0 then Some (ret, d) else parse_lines_v1 cs d
   }"

section \<open>Copies\<close>

lemma copy_prefix:
  assumes "b \<le> e" "e \<le> length c" "e - b \<le> NODE_STRING_LEN"
  shows "copyBeginEnd [] (c @ t) (int b) (int e) = Some (take (e - b) (drop b c))"
proof -
  have "map (byte_at (c @ t)) [b..<e] = take (e - b) (drop b c)"
    using assms by (intro nth_equalityI) (auto simp: byte_at_append)
  then show ?thesis using assms by (simp add: copyBeginEnd_def put_bytes_def)
qed

lemma no_NUL_take: "NUL \<notin> set c \<Longrightarrow> cstr (take n (drop m c)) = take n (drop m c)"
  by (rule cstr_no_NUL) (meson in_set_dropD in_set_takeD)

lemma equality_loop_eq:
  "NUL \<notin> set c \<Longrightarrow> c \<noteq> [] \<Longrightarrow> equality_loop (c @ [NUL]) index =
     (if CONTENT_EQUALITY \<in> set c then index + length (takeWhile (\<lambda>x. x \<noteq> CONTENT_EQUALITY) c) else 0)"
proof (induction c arbitrary: index)
  case (Cons x c)
  show ?case
  proof (cases c)
    case Nil
    then show ?thesis by simp
  next
    case (Cons y ys)
    then show ?thesis using Cons.IH[of "index + 1"] Cons.prems by auto
  qed
qed simp

section \<open>Nodes\<close>

text \<open>What a step of the loading has to keep.\<close>

definition loaded :: "INI_FILE_v1 \<Rightarrow> v1_world \<Rightarrow> INI_FILE_v1 \<Rightarrow> v1_world \<Rightarrow> v1_doc \<Rightarrow> bool" where
  "loaded f w f' w' d \<longleftrightarrow> holds_doc f' w' d \<and> doc_fits d \<and> if_fileName f' = if_fileName f \<and> v1_fs w' = v1_fs w \<and> v1_writes w' = v1_writes w"

lemma doc_fits_append: "doc_fits (d @ e) \<longleftrightarrow> doc_fits d \<and> doc_fits e"
  by (simp add: doc_fits_def)

lemma doc_fits_add_to_last: "doc_fits d \<Longrightarrow> entry_fits e \<Longrightarrow> d \<noteq> [] \<Longrightarrow> doc_fits (add_to_last e d)"
  by (cases d rule: rev_cases) (auto simp: doc_fits_def add_to_last_def add_entry_def nth_append)

lemma new_section_loaded:
  assumes rep: "v1_rep f w xs L" and fit: "doc_fits (doc_of_v1 w xs L)" and new: "new_sec w = (a, w0)"
    and upd: "upd_secn a (\<lambda>n. n\<lparr>sn_isNote := note, sn_section := s\<rparr>) w0 = Some w1" and s: "NUL \<notin> set s" "length s < NODE_STRING_LEN"
  shows "\<exists>f' w'. listIniFileNode_insert a (f, w1) = Some (f', w') \<and> loaded f w f' w' (doc_of_v1 w xs L @ [(note, s, [])])"
proof -
  note N = rep_new_sec[OF rep new upd]
  obtain f' w2 L' where "listIniFileNode_insert a (f, w1) = Some (f', w2)" "v1_rep f' w2 (xs @ [a]) L'"
    "doc_of_v1 w2 (xs @ [a]) L' = doc_of_v1 w xs L @ [(note, s, [])]" "if_fileName f' = if_fileName f" "v1_fs w2 = v1_fs w" "v1_writes w2 = v1_writes w"
    using insert_section_ok[OF N(1,3,4) _ N(5)] N(2,7,8) s by (auto simp: zero_sec_def cstr_no_NUL)
  then show ?thesis using fit s holds_docI by (fastforce simp: loaded_def doc_fits_append doc_fits_def)
qed

lemma tail_section:
  assumes rep: "v1_rep f w xs L"
  shows "if_tail f = (if doc_of_v1 w xs L = [] then None else Some (xs ! (length xs - 1)))"
    "doc_of_v1 w xs L \<noteq> [] \<Longrightarrow> \<exists>n. sec_heap w (xs ! (length xs - 1)) = Some n \<and> sn_isNote n = fst (doc_of_v1 w xs L ! (length xs - 1)) \<and>
       (sn_list n = None \<longrightarrow> entries (doc_of_v1 w xs L ! (length xs - 1)) = [])"
proof -
  note S = heap_list_okD[OF v1_repD(1)[OF rep]]
  have e: "doc_of_v1 w xs L = [] \<longleftrightarrow> xs = []" by (simp add: doc_of_v1_def)
  show "if_tail f = (if doc_of_v1 w xs L = [] then None else Some (xs ! (length xs - 1)))" using S(4) e by (simp add: last_conv_nth)
  assume "doc_of_v1 w xs L \<noteq> []"
  then have l: "length xs - 1 < length xs" using e by simp
  then have x: "xs ! (length xs - 1) \<in> set xs" by simp
  obtain n where n: "sec_heap w (xs ! (length xs - 1)) = Some n" using S(5)[OF x] by auto
  have "sn_list n = None \<Longrightarrow> L (xs ! (length xs - 1)) = []" using v1_repD(2)[OF rep x] sec_heap_at[OF n] by (simp add: keys_ok_def)
  then show "\<exists>n. sec_heap w (xs ! (length xs - 1)) = Some n \<and> sn_isNote n = fst (doc_of_v1 w xs L ! (length xs - 1)) \<and>
       (sn_list n = None \<longrightarrow> entries (doc_of_v1 w xs L ! (length xs - 1)) = [])"
    using n sec_heap_at[OF n] l by (simp add: doc_of_v1_nth)
qed

lemma new_key_loaded:
  assumes rep: "v1_rep f w xs L" and fit: "doc_fits (doc_of_v1 w xs L)" and ne: "doc_of_v1 w xs L \<noteq> []"
    and N: "v1_rep f w1 xs L" "doc_of_v1 w1 xs L = doc_of_v1 w xs L" "\<And>x. x \<in> set xs \<Longrightarrow> a \<notin> set (L x)"
      "kv_heap w1 a \<noteq> None" "a < next_addr w1" "v1_fs w1 = v1_fs w" "v1_writes w1 = v1_writes w"
    and e: "entry_at w1 a = e" "entry_fits e"
  shows "\<exists>w'. insert_key (xs ! (length xs - 1)) a w1 = Some w' \<and> loaded f w f w' (add_to_last e (doc_of_v1 w xs L))"
proof -
  have l: "length xs - 1 < length xs" using ne by (cases xs) (auto simp: doc_of_v1_def)
  obtain w2 L' where "insert_key (xs ! (length xs - 1)) a w1 = Some w2" "v1_rep f w2 xs L'"
    "doc_of_v1 w2 xs L' = add_to_last e (doc_of_v1 w xs L)" "v1_fs w2 = v1_fs w" "v1_writes w2 = v1_writes w"
    using insert_key_ok[OF N(1) l N(4,5,3)] N(2,6,7) e(1) by (auto simp: add_to_last_def)
  then show ?thesis using doc_fits_add_to_last[OF fit e(2) ne] holds_docI by (fastforce simp: loaded_def)
qed

section \<open>The line functions\<close>

lemma loaded_refl: "v1_rep f w xs L \<Longrightarrow> doc_fits (doc_of_v1 w xs L) \<Longrightarrow> loaded f w f w (doc_of_v1 w xs L)"
  by (simp add: loaded_def holds_docI)

text \<open>A node that is allocated and freed again leaves the document alone.\<close>

lemma freed_sec_loaded:
  assumes "v1_rep f w1 xs L" "doc_of_v1 w1 xs L = doc_of_v1 w xs L" "a \<notin> set xs" "sec_heap w1 a \<noteq> None"
    and "doc_fits (doc_of_v1 w xs L)" "v1_fs w1 = v1_fs w" "v1_writes w1 = v1_writes w"
  shows "\<exists>w'. free_secn a w1 = Some w' \<and> loaded f w f w' (doc_of_v1 w xs L)"
proof -
  let ?w = "w1\<lparr>sec_heap := (sec_heap w1)(a := None)\<rparr>"
  have "v1_rep f ?w xs L" "doc_of_v1 ?w xs L = doc_of_v1 w1 xs L" by (rule rep_frame[OF assms(1)]; use assms(3) in auto)+
  then show ?thesis using assms holds_docI[of f ?w xs L] by (auto simp: free_secn_def loaded_def)
qed

lemma freed_kv_loaded:
  assumes "v1_rep f w1 xs L" "doc_of_v1 w1 xs L = doc_of_v1 w xs L" "\<And>x. x \<in> set xs \<Longrightarrow> a \<notin> set (L x)" "kv_heap w1 a \<noteq> None"
    and "doc_fits (doc_of_v1 w xs L)" "v1_fs w1 = v1_fs w" "v1_writes w1 = v1_writes w"
  shows "\<exists>w'. free_kvn a w1 = Some w' \<and> loaded f w f w' (doc_of_v1 w xs L)"
proof -
  let ?w = "w1\<lparr>kv_heap := (kv_heap w1)(a := None)\<rparr>"
  have "v1_rep f ?w xs L" "doc_of_v1 ?w xs L = doc_of_v1 w1 xs L" by (rule rep_frame[OF assms(1)]; use assms(3) in auto)+
  then show ?thesis using assms holds_docI[of f ?w xs L] by (auto simp: free_kvn_def loaded_def)
qed

lemma initLineNode_ok:
  assumes rep: "v1_rep f w xs L" and fit: "doc_fits (doc_of_v1 w xs L)" and p: "NUL \<notin> set p" "3 \<le> length p" "length p \<le> MAX_STRING_LEN + 2"
    and name: "name = take (length p - 3) (tl p)"
  shows "\<exists>ret f' w'. initLineNode (p @ [NUL]) (f, w) = Some (ret, f', w') \<and>
    (if find_section_v1 (doc_of_v1 w xs L) name \<noteq> None then ret = REPEATNODEKEY \<and> loaded f w f' w' (doc_of_v1 w xs L)
     else ret = 0 \<and> loaded f w f' w' (doc_of_v1 w xs L @ [(0, name, [])]))"
proof -
  have c: "cstr (p @ [NUL]) = p" using p(1) by (simp add: cstr_no_NUL)
  have "int (length p) - 2 = int (length p - 2)" using p(2) by simp
  then have copy: "copyBeginEnd [] (p @ [NUL]) 1 (int (length p) - 2) = Some name"
    using copy_prefix[of 1 "length p - 2" p "[NUL]"] p(2,3) name by (simp add: NODE_STRING_LEN_def drop_Suc)
  have "NUL \<notin> set (tl p)" using p(1) by (cases p) auto
  then have s: "NUL \<notin> set name" "length name < NODE_STRING_LEN"
    using p name by (auto simp: NODE_STRING_LEN_def dest!: in_set_takeD)
  let ?g = "\<lambda>n. n\<lparr>sn_isNote := 0, sn_section := name\<rparr>"
  obtain a w0 where new: "new_sec w = (a, w0)" by (cases "new_sec w") auto
  then obtain w1 where upd: "upd_secn a ?g w0 = Some w1" by (auto simp: new_sec_def upd_secn_def)
  note N = rep_new_sec[OF rep new upd]
  have arr: "arr_str name = Some name" using s by (simp add: arr_str_def cstr_no_NUL)
  have F: "findIniFileNode f w1 name = Some (map_option ((!) xs) (find_section_v1 (doc_of_v1 w xs L) name))"
    using findIniFileNode_ok[OF N(1), of name] N(2) fit s by (simp add: cstr_no_NUL)
  show ?thesis
  proof (cases "find_section_v1 (doc_of_v1 w xs L) name")
    case None
    then show ?thesis using new_section_loaded[OF rep fit new upd s] copy c new upd arr F by (auto simp: initLineNode_def)
  next
    case (Some i)
    have "\<exists>w'. free_secn a w1 = Some w' \<and> loaded f w f w' (doc_of_v1 w xs L)"
      by (rule freed_sec_loaded[OF N(1,2,3) _ fit N(7,8)]) (simp add: N(4))
    then show ?thesis using Some copy c new upd arr F by (auto simp: initLineNode_def)
  qed
qed

lemma note_fits:
  assumes "NUL \<notin> set c" "c \<noteq> []" "length c \<le> MAX_STRING_LEN"
  shows "NUL \<notin> set (tl c)" "length (tl c) < NODE_STRING_LEN" "copyBeginEnd [] (c @ [NUL]) 1 (int (length (cstr (c @ [NUL])))) = Some (tl c)"
proof -
  show "NUL \<notin> set (tl c)" using assms by (meson list.set_sel(2))
  show "length (tl c) < NODE_STRING_LEN" using assms by (simp add: NODE_STRING_LEN_def)
  show "copyBeginEnd [] (c @ [NUL]) 1 (int (length (cstr (c @ [NUL])))) = Some (tl c)"
    using copy_prefix[of 1 "length c" c "[NUL]"] assms by (simp add: cstr_no_NUL NODE_STRING_LEN_def drop_Suc Suc_le_eq)
qed

lemma initLineNotes_ok:
  assumes rep: "v1_rep f w xs L" and fit: "doc_fits (doc_of_v1 w xs L)" and c: "NUL \<notin> set c" "c \<noteq> []" "length c \<le> MAX_STRING_LEN"
  shows "\<exists>f' w'. initLineNotes (c @ [NUL]) (f, w) = Some (f', w') \<and>
    loaded f w f' w' (if in_notes (doc_of_v1 w xs L) then doc_of_v1 w xs L @ [(1, tl c, [])] else add_to_last (1, tl c, []) (doc_of_v1 w xs L))"
proof -
  note C = note_fits[OF c] and T = tail_section[OF rep]
  have sec: "\<exists>f' w'. note_section (c @ [NUL]) (f, w) = Some (f', w') \<and> loaded f w f' w' (doc_of_v1 w xs L @ [(1, tl c, [])])"
  proof -
    obtain a w0 where new: "new_sec w = (a, w0)" by (cases "new_sec w") auto
    then obtain w1 where upd: "upd_secn a (\<lambda>n. n\<lparr>sn_isNote := 1, sn_section := tl c\<rparr>) w0 = Some w1" by (auto simp: new_sec_def upd_secn_def)
    then show ?thesis using new_section_loaded[OF rep fit new upd C(1,2)] new C(3) by (simp add: note_section_def)
  qed
  show ?thesis
  proof (cases "in_notes (doc_of_v1 w xs L)")
    case True
    then show ?thesis using sec T by (auto simp: initLineNotes_def in_notes_def)
  next
    case False
    then have ne: "doc_of_v1 w xs L \<noteq> []" "fst (doc_of_v1 w xs L ! (length xs - 1)) \<noteq> 1" by (auto simp: in_notes_def)
    obtain a w0 where new: "new_kv w = (a, w0)" by (cases "new_kv w") auto
    then obtain w1 where upd: "upd_kvn a (\<lambda>n. n\<lparr>kn_isNote := 1, kn_key := tl c\<rparr>) w0 = Some w1" by (auto simp: new_kv_def upd_kvn_def)
    note N = rep_new_kv[OF rep new upd]
    have "\<exists>w'. insert_key (xs ! (length xs - 1)) a w1 = Some w' \<and> loaded f w f w' (add_to_last (1, tl c, []) (doc_of_v1 w xs L))"
      by (rule new_key_loaded[OF rep fit ne(1) N(1,2,3) _ N(5,7,8)])
         (use kv_heap_at[OF N(4)] N(4) C in \<open>auto simp: zero_kv_def cstr_no_NUL entry_fits_def\<close>)
    then show ?thesis using False T(1) T(2)[OF ne(1)] ne new upd C(3) by (auto simp: initLineNotes_def note_key_def)
  qed
qed

lemma initLineKeyValue_ok:
  assumes rep: "v1_rep f w xs L" and fit: "doc_fits (doc_of_v1 w xs L)" and c: "NUL \<notin> set c" and i: "i + 2 \<le> length c" "i < NODE_STRING_LEN" "length c - (i + 2) < NODE_STRING_LEN"
    and ne: "\<not> in_notes (doc_of_v1 w xs L)"
  shows "\<exists>ret w'. initLineKeyValue (c @ [NUL]) i (f, w) = Some (ret, f, w') \<and>
    (if find_key_v1 (entries (doc_of_v1 w xs L ! (length xs - 1))) (take i c) \<noteq> None then ret = REPEATNODEKEY \<and> loaded f w f w' (doc_of_v1 w xs L)
     else ret = 0 \<and> loaded f w f w' (add_to_last (0, take i c, take (length c - (i + 2)) (drop (i + 1) c)) (doc_of_v1 w xs L)))"
proof -
  let ?x = "xs ! (length xs - 1)" and ?k = "take i c" and ?v = "take (length c - (i + 2)) (drop (i + 1) c)"
  note T = tail_section[OF rep]
  have ned: "doc_of_v1 w xs L \<noteq> []" "fst (doc_of_v1 w xs L ! (length xs - 1)) \<noteq> 1" using ne by (auto simp: in_notes_def)
  then obtain m where m: "sec_heap w ?x = Some m" "sn_isNote m \<noteq> 1" "sn_list m = None \<longrightarrow> entries (doc_of_v1 w xs L ! (length xs - 1)) = []"
    using T(2)[OF ned(1)] by auto
  have cc: "cstr (c @ [NUL]) = c" using c by (simp add: cstr_no_NUL)
  have ck: "copyBeginEnd [] (c @ [NUL]) 0 (int i) = Some ?k" using copy_prefix[of 0 i c "[NUL]"] i by simp
  have "int (length c) - 1 = int (length c - 1)" "int i + 1 = int (i + 1)" "i + 1 \<le> length c - 1" using i(1) by auto
  then have cv: "copyBeginEnd [] (c @ [NUL]) (int i + 1) (int (length c) - 1) = Some ?v"
    using copy_prefix[of "i + 1" "length c - 1" c "[NUL]"] i by (simp add: numeral_2_eq_2 add.commute)
  have nul: "cstr ?k = ?k" "cstr ?v = ?v" "length ?k < NODE_STRING_LEN" using no_NUL_take[OF c, of i 0] no_NUL_take[OF c] i by auto
  obtain a w0 where new: "new_kv w = (a, w0)" by (cases "new_kv w") auto
  then obtain w1 where upd: "upd_kvn a (\<lambda>n. n\<lparr>kn_isNote := 0, kn_key := ?k\<rparr>) w0 = Some w1" by (auto simp: new_kv_def upd_kvn_def)
  note N = rep_new_kv[OF rep new upd]
  have arr: "arr_str ?k = Some ?k" using nul by (simp add: arr_str_def)
  have "xs \<noteq> []" using ned(1) by (auto simp: doc_of_v1_def)
  then have x: "?x \<in> set xs" "length xs - 1 < length xs" by simp_all
  have "findIniKeyValue w1 ?x ?k = Some (map_option ((!) (L ?x)) (find_key_v1 (entries (doc_of_v1 w xs L ! (length xs - 1))) ?k))"
    using findIniKeyValue_ok[OF N(1) _ x(1), of ?k] N(2) fit nul entries_doc_of[OF x(2), of w1 L] by simp
  then have F: "(if sn_list m = None then Some None else do { k \<leftarrow> arr_str ?k; findIniKeyValue w1 ?x k }) =
      Some (map_option ((!) (L ?x)) (find_key_v1 (entries (doc_of_v1 w xs L ! (length xs - 1))) ?k))"
    using m(3) arr by (auto simp: find_key_v1_def)
  have start: "initLineKeyValue (c @ [NUL]) i (f, w) = do { (ret, w) \<leftarrow> line_key_value ?x (c @ [NUL]) i w; Some (ret, f, w) }"
    using T(1) ned m by (simp add: initLineKeyValue_def)
  show ?thesis
  proof (cases "find_key_v1 (entries (doc_of_v1 w xs L ! (length xs - 1))) ?k")
    case (Some j)
    have "\<exists>w'. free_kvn a w1 = Some w' \<and> loaded f w f w' (doc_of_v1 w xs L)"
      by (rule freed_kv_loaded[OF N(1,2,3) _ fit N(7,8)]) (simp_all add: N(4))
    then show ?thesis unfolding start using Some m(1) new upd ck F arr by (auto simp: line_key_value_def)
  next
    case None
    let ?w2 = "w1\<lparr>kv_heap := (kv_heap w1)(a \<mapsto> zero_kv\<lparr>kn_isNote := 0, kn_key := ?k, kn_value := ?v\<rparr>)\<rparr>"
    have w2: "upd_kvn a (\<lambda>n. n\<lparr>kn_value := ?v\<rparr>) w1 = Some ?w2" using N(4) by (simp add: upd_kvn_def)
    have r2: "v1_rep f ?w2 xs L" "doc_of_v1 ?w2 xs L = doc_of_v1 w1 xs L" by (rule rep_frame[OF N(1)]; use N(3) in auto)+
    have "\<exists>w'. insert_key ?x a ?w2 = Some w' \<and> loaded f w f w' (add_to_last (0, ?k, ?v) (doc_of_v1 w xs L))"
      by (rule new_key_loaded[OF rep fit ned(1) r2(1) _ N(3)])
         (use r2(2) N(2,5,7,8) nul i(3) in \<open>auto simp: entry_at_def kv_data_def entry_fits_def zero_kv_def\<close>)
    then show ?thesis unfolding start using None m(1) new upd ck cv cc F w2 arr by (auto simp: line_key_value_def)
  qed
qed

section \<open>Whole files\<close>

lemma fgets_into_empty [simp]: "fgets_into [] c = c @ [NUL]"
  by (simp add: fgets_into_def put_bytes_def)

lemma line_start:
  assumes "NUL \<notin> set c" "c \<noteq> []"
  shows "delete_spacetab_begin (c @ [NUL]) =
    (if hd c = CONTENT_NEELINE \<or> dropWhile blank_v1 c = [] then None else Some (length (takeWhile blank_v1 c)))"
    "drop (length (takeWhile blank_v1 c)) (c @ [NUL]) = dropWhile blank_v1 c @ [NUL]"
proof -
  have "cstr (c @ [NUL]) = c" using assms(1) by (simp add: cstr_no_NUL)
  moreover have "byte_at (c @ [NUL]) 0 = hd c" using assms(2) by (cases c) auto
  moreover have "list_all blank_v1 c \<longleftrightarrow> dropWhile blank_v1 c = []" by (auto simp: list_all_iff)
  ultimately show "delete_spacetab_begin (c @ [NUL]) =
    (if hd c = CONTENT_NEELINE \<or> dropWhile blank_v1 c = [] then None else Some (length (takeWhile blank_v1 c)))"
    using assms(2) by (simp add: delete_spacetab_begin_def spacetab_loop_eq)
  show "drop (length (takeWhile blank_v1 c)) (c @ [NUL]) = dropWhile blank_v1 c @ [NUL]"
    by (simp add: dropWhile_eq_drop length_takeWhile_le)
qed

lemma initLineContext_ok:
  assumes "holds_doc f w d" and fit: "doc_fits d" and c: "NUL \<notin> set c" "c \<noteq> []" and parse: "parse_line_v1 c d = Some (ret, d')"
  shows "\<exists>f' w'. initLineContext (fgets_into [] c) (f, w) = Some (ret, f', w') \<and> loaded f w f' w' d'"
proof -
  obtain xs L where rep: "v1_rep f w xs L" and d: "doc_of_v1 w xs L = d" using assms(1) by (auto simp: holds_doc_def)
  define p where "p = dropWhile blank_v1 c"
  let ?i = "length (takeWhile (\<lambda>x. x \<noteq> CONTENT_EQUALITY) c)"
  note S = line_start[OF c, folded p_def] and P = parse[unfolded parse_line_v1_def Let_def, folded p_def]
  have np: "NUL \<notin> set p" using c(1) unfolding p_def by (auto dest: set_dropWhileD)
  then have cc: "cstr (c @ [NUL]) = c" "cstr (p @ [NUL]) = p" "NUL \<notin> set p" using c(1) by (simp_all add: cstr_no_NUL)
  have hp: "byte_at (p @ [NUL]) 0 = (if p = [] then NUL else hd p)" for p by (cases p) auto
  have hc: "byte_at (c @ [NUL]) 0 = hd c" using c(2) by (cases c) auto
  have nb: "\<not> blank_v1 CONTENT_NEELINE" by (simp add: blank_v1_def v1_chars)
  have hcp: "hd c = CONTENT_NEELINE \<Longrightarrow> hd p = CONTENT_NEELINE" using c(2) nb unfolding p_def by (cases c) auto
  have idx: "isKeyValueLine (c @ [NUL]) = (if ?i < length c then ?i else 0)"
  proof -
    have "CONTENT_EQUALITY \<in> set c \<longleftrightarrow> ?i < length c"
      by (metis (mono_tags, lifting) length_takeWhile_le nat_less_le takeWhile_eq_all_conv takeWhile_eq_take take_all_iff)
    then show ?thesis using equality_loop_eq[OF c, of 0] by (simp add: isKeyValueLine_def)
  qed
  note rep' = rep fit[folded d]
  have same: "loaded f w f w d" using loaded_refl[OF rep'] d by simp
  consider "p = [] \<or> hd p = CONTENT_NEELINE"
    | "p \<noteq> []" "hd p \<noteq> CONTENT_NEELINE" "hd p = CONTENT_SECTION"
    | "p \<noteq> []" "hd p \<noteq> CONTENT_NEELINE" "hd p \<noteq> CONTENT_SECTION" "hd c = CONTENT_COMMA"
    | "p \<noteq> []" "hd p \<noteq> CONTENT_NEELINE" "hd p \<noteq> CONTENT_SECTION" "hd c \<noteq> CONTENT_COMMA" by blast
  then show ?thesis
  proof cases
    case 1
    then show ?thesis using P 1 S same hp by (auto simp: initLineContext_def Let_def)
  next
    case 2
    have q: "parse_section_v1 p d = Some (ret, d')" using P 2 by simp
    show ?thesis
    proof (cases "length p > MAX_STRING_LEN + 2")
      case True
      then show ?thesis using q 2 S same hp cc hcp by (auto simp: initLineContext_def parse_section_v1_def Let_def)
    next
      case False
      then have l: "3 \<le> length p" "length p \<le> MAX_STRING_LEN + 2" using q by (auto simp: parse_section_v1_def split: if_splits)
      show ?thesis using initLineNode_ok[OF rep' cc(3) l refl] q False l 2 S hp cc hcp d
        by (auto simp: initLineContext_def parse_section_v1_def Let_def v1_codes split: if_splits)
    qed
  next
    case 3
    have q: "parse_note_v1 c d = Some (ret, d')" using P 3 by simp
    show ?thesis
    proof (cases "length c > MAX_STRING_LEN")
      case True
      then show ?thesis using q 3 S same hp hc cc hcp by (auto simp: initLineContext_def parse_note_v1_def Let_def)
    next
      case False
      then show ?thesis using initLineNotes_ok[OF rep' c] q 3 S hp hc cc hcp d
        by (auto simp: initLineContext_def parse_note_v1_def Let_def not_less)
    qed
  next
    case 4
    show ?thesis
    proof (cases "0 < ?i \<and> ?i < length c")
      case False
      then show ?thesis using P 4 S same hp hc cc hcp idx by (auto simp: initLineContext_def Let_def)
    next
      case True
      have q: "parse_key_v1 c ?i d = Some (ret, d')" using P 4 True by simp
      have go: "initLineContext (fgets_into [] c) (f, w) = (if length c > MAX_FILLINE_LEN then Some (TOOLONG, f, w)
          else do { (ret, st) \<leftarrow> initLineKeyValue (c @ [NUL]) ?i (f, w); Some (if ret < 0 then ret else KEYVALUE, st) })"
        using 4 S hp hc cc hcp idx True by (auto simp: initLineContext_def Let_def)
      consider "length c > MAX_FILLINE_LEN" | "length c \<le> MAX_FILLINE_LEN" "in_notes d" | "length c \<le> MAX_FILLINE_LEN" "\<not> in_notes d" by linarith
      then show ?thesis
      proof cases
        case 1
        then show ?thesis unfolding go using q same by (simp add: parse_key_v1_def)
      next
        case 2
        then have "initLineKeyValue (c @ [NUL]) ?i (f, w) = Some (0, f, w)"
          using tail_section[OF rep] d by (auto simp: initLineKeyValue_def in_notes_def)
        then show ?thesis unfolding go using q same 2 by (simp add: parse_key_v1_def)
      next
        case 3
        then have l: "?i + 2 \<le> length c" "?i < NODE_STRING_LEN" "length c - (?i + 2) < NODE_STRING_LEN"
          using q by (auto simp: parse_key_v1_def split: if_splits)
        have "length d = length xs" using d by auto
        then show ?thesis unfolding go using initLineKeyValue_ok[OF rep' c(1) l] q 3 l d
          by (auto simp: parse_key_v1_def v1_codes split: if_splits)
      qed
    qed
  qed
qed

lemma read_loop_ok:
  "holds_doc f w d \<Longrightarrow> doc_fits d \<Longrightarrow> (\<And>c. c \<in> set cs \<Longrightarrow> NUL \<notin> set c \<and> c \<noteq> []) \<Longrightarrow> parse_lines_v1 cs d = Some (ret, d') \<Longrightarrow>
   \<exists>f' w'. read_loop cs (f, w) = Some (ret, f', w') \<and> loaded f w f' w' d'"
proof (induction cs arbitrary: f w d)
  case Nil
  then show ?case by (simp add: loaded_def)
next
  case (Cons c cs)
  obtain r e where r: "parse_line_v1 c d = Some (r, e)" using Cons.prems(4) by (cases "parse_line_v1 c d") auto
  obtain f1 w1 where l: "initLineContext (fgets_into [] c) (f, w) = Some (r, f1, w1)" "loaded f w f1 w1 e"
    using initLineContext_ok[OF Cons.prems(1,2) _ _ r] Cons.prems(3)[of c] by auto
  show ?case
  proof (cases "r < 0")
    case True
    then show ?thesis using l r Cons.prems(4) by auto
  next
    case False
    then have "\<exists>f' w'. read_loop cs (f1, w1) = Some (ret, f', w') \<and> loaded f1 w1 f' w' d'"
      using Cons.IH[of f1 w1 e] l(2) r Cons.prems(3,4) by (auto simp: loaded_def)
    then show ?thesis using l False by (auto simp: loaded_def)
  qed
qed

lemma fgets_chunks_clean:
  "NUL \<notin> set s \<Longrightarrow> c \<in> set (fgets_chunks k s) \<Longrightarrow> NUL \<notin> set c \<and> c \<noteq> []"
proof (induction k s rule: fgets_chunks.induct)
  case (1 k s)
  show ?case
  proof (cases "s = [] \<or> k = 0")
    case False
    obtain a b where ab: "fgets_split k s = (a, b)" by (cases "fgets_split k s") auto
    have s: "s = a @ b" by (rule fgets_split_append[OF ab])
    have ne: "a \<noteq> []" using ab False by (cases s; cases k) (auto split: if_splits prod.splits)
    have "c = a \<or> c \<in> set (fgets_chunks k b)" using "1.prems"(2) False ab by (simp add: fgets_chunks.simps[of k s])
    then show ?thesis using ne s "1.prems"(1) "1.IH"[OF False ab[symmetric] refl] by auto
  qed (use "1.prems" in \<open>simp add: fgets_chunks.simps\<close>)
qed

lemma chunks_NUL: "NUL \<notin> set content \<Longrightarrow> c \<in> set (v1_chunks content) \<Longrightarrow> NUL \<notin> set c \<and> c \<noteq> []"
  unfolding v1_chunks_def by (rule fgets_chunks_clean)

lemma load_ok:
  assumes "cstr name = path" and "len = int (length path)" and "path \<noteq> []" and "length path < MAX_FILENAME_LEN"
    and "fs_files (v1_fs w) path = Some content" and "\<not> fs_denied (v1_fs w) path" and "NUL \<notin> set content"
    and "parse_lines_v1 (v1_chunks content) [] = Some (ret, d)"
  shows "\<exists>r w'. initIniFile (Some name) len w = Some (r, w') \<and> v1_fs w' = v1_fs w \<and> v1_writes w' = v1_writes w \<and>
    (if ret < 0 then r = None
     else \<exists>f. r = Some f \<and> holds_doc f w' d \<and> doc_fits d \<and> if_fileName f = path)"
proof -
  have bytes: "map (byte_at name) [0..<length path] = path" "byte_at name (length path) = NUL"
    using map_byte_at_cstr[of path "length path" name] byte_at_cstr_end[of name] assms(1) by auto
  let ?f = "listIniFileNode_init\<lparr>if_fileName := path\<rparr>"
  have "v1_rep ?f w [] (\<lambda>_. [])" by (simp add: v1_rep_def listIniFileNode_init_def)
  then have "holds_doc ?f w []" using holds_docI[of ?f w "[]" "\<lambda>_. []"] by (simp add: doc_of_v1_def)
  then obtain f' w' where r: "read_loop (v1_chunks content) (?f, w) = Some (ret, f', w')" "loaded ?f w f' w' d"
    using read_loop_ok[OF _ _ chunks_NUL[OF assms(7)] assms(8), of ?f w] by (auto simp: doc_fits_def)
  have "readIniFile path (?f, w) = Some (ret, f', w')" using r assms(5,6) by (simp add: readIniFile_def)
  then have "initIniFile (Some name) len w = Some (if ret < 0 then None else Some f', w')"
    using assms(1-6) bytes by (simp add: initIniFile_def can_open_def Let_def)
  then show ?thesis using r(2) by (auto simp: loaded_def listIniFileNode_init_def)
qed

text \<open>
  C11. \<^verbatim>\<open>initIniFile\<close> on a readable text file whose lines are all defined returns, changes no file, and
  gives \<^verbatim>\<open>NULL\<close> exactly when a line is too long or repeats a section or a key; otherwise the file it returns
  holds the document that the text parses to.
\<close>

theorem v1_load_refines:
  assumes "cstr name = path" and "len = int (length path)" and "path \<noteq> []" and "length path < MAX_FILENAME_LEN"
    and "fs_files (v1_fs w) path = Some content" and "\<not> fs_denied (v1_fs w) path" and "NUL \<notin> set content"
    and "parse_lines_v1 (v1_chunks content) [] = Some (ret, d)"
  shows "\<exists>r w'. initIniFile (Some name) len w = Some (r, w') \<and> v1_fs w' = v1_fs w \<and> v1_writes w' = v1_writes w \<and>
    (if ret < 0 then r = None
     else \<exists>f. r = Some f \<and> holds_doc f w' d \<and> doc_fits d \<and> if_fileName f = path)"
  by (rule load_ok[OF assms])

end
