(* ===== verification/V1_Round.thy ===== *)
theory V1_Round
  imports V1_Load
begin

text \<open>
  Saving and loading in \<^verbatim>\<open>v1.0.0/inifile.c\<close>: the text that \<^verbatim>\<open>updateIniFile\<close> writes parses to the document again,
  up to the newlines at the end of comments and values.
\<close>

section \<open>Documents that are read back\<close>

text \<open>
  Reading leaves the newline in the text of a comment and drops it from a value; \<^verbatim>\<open>updateValueOfKey\<close> and
  \<^verbatim>\<open>addValueOfKey\<close> put one behind a value.
\<close>

definition strip_nl :: "string \<Rightarrow> string" where
  "strip_nl t = (if t \<noteq> [] \<and> last t = CONTENT_NEELINE then butlast t else t)"

definition plain :: "string \<Rightarrow> bool" where
  "plain t \<longleftrightarrow> NUL \<notin> set t \<and> CONTENT_NEELINE \<notin> set t"

definition norm_entry :: "v1_entry \<Rightarrow> v1_entry" where
  "norm_entry = (\<lambda>(note, key, val).
     if note = 1 then (1, strip_nl key @ [CONTENT_NEELINE], []) else (note, key, strip_nl val))"

definition norm_node :: "int \<times> string \<times> v1_entry list \<Rightarrow> int \<times> string \<times> v1_entry list" where
  "norm_node = (\<lambda>(note, sec, es).
     (note, if note = 1 then strip_nl sec @ [CONTENT_NEELINE] else sec, map norm_entry es))"

definition clean_note :: "string \<Rightarrow> bool" where
  "clean_note t \<longleftrightarrow> plain (strip_nl t) \<and> length (strip_nl t) + 2 \<le> MAX_STRING_LEN"

definition clean_pair :: "string \<Rightarrow> string \<Rightarrow> bool" where
  "clean_pair k v \<longleftrightarrow> k \<noteq> [] \<and> plain k \<and> CONTENT_EQUALITY \<notin> set k \<and> hd k \<noteq> CONTENT_COMMA \<and>
     (dropWhile blank_v1 k \<noteq> [] \<longrightarrow> hd (dropWhile blank_v1 k) \<noteq> CONTENT_SECTION) \<and> plain (strip_nl v) \<and>
     length k < NODE_STRING_LEN \<and> length (strip_nl v) < NODE_STRING_LEN \<and> length k + length (strip_nl v) + 2 < MAX_FILLINE_LEN"

definition clean_entry :: "v1_entry \<Rightarrow> bool" where
  "clean_entry = (\<lambda>(note, key, val). if note = 1 then clean_note key else note = 0 \<and> clean_pair key val)"

fun keys_fresh :: "v1_entry list \<Rightarrow> v1_entry list \<Rightarrow> bool" where
  "keys_fresh seen [] = True"
| "keys_fresh seen (e # es) =
     ((fst e = 0 \<longrightarrow> find_key_v1 seen (fst (snd e)) = None) \<and> keys_fresh (seen @ [norm_entry e]) es)"

text \<open>Comments ahead of the sections, and no section or key that matches an earlier one.\<close>

fun doc_clean :: "v1_doc \<Rightarrow> v1_doc \<Rightarrow> bool" where
  "doc_clean seen [] = True"
| "doc_clean seen ((note, sec, es) # ns) =
     ((if note = 1 then in_notes seen \<and> es = [] \<and> clean_note sec
       else note = 0 \<and> plain sec \<and> length sec + 3 \<le> MAX_STRING_LEN + 2 \<and> find_section_v1 seen sec = None \<and>
            list_all clean_entry es \<and> keys_fresh [] es) \<and>
      doc_clean (seen @ [norm_node (note, sec, es)]) ns)"

section \<open>Lines of the text\<close>

lemma fgets_split_line_v1: "CONTENT_NEELINE \<notin> set u \<Longrightarrow> length u < k \<Longrightarrow> fgets_split k (u @ CONTENT_NEELINE # rest) = (u @ [CONTENT_NEELINE], rest)"
proof (induction u arbitrary: k)
  case Nil
  then show ?case by (cases k) (auto simp: CONTENT_NEELINE_def CONTENT_NEELINE_SIGN_def)
next
  case (Cons c u)
  then show ?case by (cases k) (auto simp: CONTENT_NEELINE_def CONTENT_NEELINE_SIGN_def)
qed

lemma chunks_line:
  assumes "CONTENT_NEELINE \<notin> set u" "length u + 1 < MAX_FILLINE_LEN"
  shows "v1_chunks (u @ CONTENT_NEELINE # rest) = (u @ [CONTENT_NEELINE]) # v1_chunks rest"
  using fgets_split_line_v1[OF assms(1), of "MAX_FILLINE_LEN - 1"] assms(2)
  by (simp add: v1_chunks_def fgets_chunks.simps[of _ "u @ CONTENT_NEELINE # rest"])

lemma blank_line_v1: "parse_lines_v1 (v1_chunks (CONTENT_NEELINE # rest)) d = parse_lines_v1 (v1_chunks rest) d"
proof -
  have "\<not> blank_v1 CONTENT_NEELINE" by (simp add: blank_v1_def v1_chars)
  then have "parse_line_v1 [CONTENT_NEELINE] d = Some (0, d)" by (simp add: parse_line_v1_def v1_codes)
  then show ?thesis using chunks_line[of "[]" rest] by (simp add: v1_sizes)
qed

text \<open>A text that may end in one newline, followed by a newline, is one line and perhaps a blank one.\<close>

lemma parse_text_line:
  assumes "plain (strip_nl t)" "CONTENT_NEELINE \<notin> set u" "length u + length (strip_nl t) + 1 < MAX_FILLINE_LEN"
    and "parse_line_v1 (u @ strip_nl t @ [CONTENT_NEELINE]) d = Some (r, d')" "0 \<le> r"
  shows "parse_lines_v1 (v1_chunks (u @ t @ CONTENT_NEELINE # rest)) d = parse_lines_v1 (v1_chunks rest) d'"
proof -
  have line: "parse_lines_v1 (v1_chunks (u @ strip_nl t @ CONTENT_NEELINE # more)) d = parse_lines_v1 (v1_chunks more) d'" for more
    using chunks_line[of "u @ strip_nl t" more] assms by (simp add: plain_def)
  show ?thesis
  proof (cases "t \<noteq> [] \<and> last t = CONTENT_NEELINE")
    case True
    then have "t = strip_nl t @ [CONTENT_NEELINE]" using append_butlast_last_id[of t] by (simp add: strip_nl_def)
    then have eq: "u @ t @ CONTENT_NEELINE # rest = u @ strip_nl t @ CONTENT_NEELINE # CONTENT_NEELINE # rest"
      by (metis append.assoc append_Cons append_Nil)
    show ?thesis unfolding eq using line[of "CONTENT_NEELINE # rest"] blank_line_v1 by simp
  next
    case False
    then have "strip_nl t = t" by (auto simp: strip_nl_def)
    then show ?thesis using line[of rest] by simp
  qed
qed

lemma comma_no_blank: "\<not> blank_v1 CONTENT_COMMA" "CONTENT_COMMA \<noteq> CONTENT_NEELINE" "CONTENT_COMMA \<noteq> CONTENT_SECTION"
  by (auto simp: blank_v1_def v1_chars)

lemma parse_note_line:
  assumes "clean_note t"
  shows "parse_line_v1 ([CONTENT_COMMA] @ strip_nl t @ [CONTENT_NEELINE]) d =
    Some (NOTESTYPE, if in_notes d then d @ [(1, strip_nl t @ [CONTENT_NEELINE], [])] else add_to_last (1, strip_nl t @ [CONTENT_NEELINE], []) d)"
  using assms comma_no_blank by (simp add: parse_line_v1_def parse_note_v1_def clean_note_def)

lemma parse_section_line:
  assumes "plain s" "length s + 3 \<le> MAX_STRING_LEN + 2" "find_section_v1 d s = None"
  shows "parse_line_v1 ([CONTENT_SECTION] @ s @ '']'' @ [CONTENT_NEELINE]) d = Some (NODETYPE, d @ [(0, s, [])])"
proof -
  have "\<not> blank_v1 CONTENT_SECTION" "CONTENT_SECTION \<noteq> CONTENT_NEELINE" by (auto simp: blank_v1_def v1_chars)
  then show ?thesis using assms by (simp add: parse_line_v1_def parse_section_v1_def)
qed

lemma parse_pair_line:
  assumes c: "clean_pair k v" and d: "\<not> in_notes d" and f: "find_key_v1 (entries (d ! (length d - 1))) k = None"
  shows "parse_line_v1 (k @ [CONTENT_EQUALITY] @ strip_nl v @ [CONTENT_NEELINE]) d = Some (KEYVALUE, add_to_last (0, k, strip_nl v) d)"
proof -
  let ?c = "k @ [CONTENT_EQUALITY] @ strip_nl v @ [CONTENT_NEELINE]"
  note K = c[unfolded clean_pair_def]
  have eb: "\<not> blank_v1 CONTENT_EQUALITY" "CONTENT_EQUALITY \<noteq> CONTENT_NEELINE" "CONTENT_EQUALITY \<noteq> CONTENT_SECTION"
    by (auto simp: blank_v1_def v1_chars)
  have i: "takeWhile (\<lambda>x. x \<noteq> CONTENT_EQUALITY) ?c = k" using K by (auto simp: takeWhile_append)
  have p: "dropWhile blank_v1 ?c = dropWhile blank_v1 k @ [CONTENT_EQUALITY] @ strip_nl v @ [CONTENT_NEELINE]"
    using eb by (cases "\<forall>x \<in> set k. blank_v1 x") (auto simp: dropWhile_append)
  have hd: "hd (dropWhile blank_v1 ?c) \<noteq> CONTENT_NEELINE \<and> hd (dropWhile blank_v1 ?c) \<noteq> CONTENT_SECTION"
  proof (cases "dropWhile blank_v1 k = []")
    case True
    then show ?thesis using eb unfolding p True by simp
  next
    case False
    have "hd (dropWhile blank_v1 k) \<in> set k" using False set_dropWhileD hd_in_set by metis
    then show ?thesis using False K unfolding p by (auto simp: plain_def)
  qed
  have "dropWhile blank_v1 ?c \<noteq> []" unfolding p by simp
  moreover have "hd ?c = hd k" using K by simp
  ultimately have "parse_line_v1 ?c d = parse_key_v1 ?c (length k) d"
    using hd K i eb unfolding parse_line_v1_def Let_def by simp
  also have "\<dots> = Some (KEYVALUE, add_to_last (0, k, strip_nl v) d)"
    using K d f by (simp add: parse_key_v1_def)
  finally show ?thesis .
qed

section \<open>The whole text\<close>

lemma last_section [simp]:
  "add_to_last e (d @ [(note, s, es)]) = d @ [(note, s, es @ [e])]" "in_notes (d @ [n]) \<longleftrightarrow> fst n = 1"
  by (simp_all add: add_to_last_def add_entry_def in_notes_def)

lemma parse_entries:
  "list_all clean_entry es \<Longrightarrow> keys_fresh es0 es \<Longrightarrow>
   parse_lines_v1 (v1_chunks (concat (map print_entry es) @ rest)) (d @ [(0, s, es0)]) =
   parse_lines_v1 (v1_chunks rest) (d @ [(0, s, es0 @ map norm_entry es)])"
proof (induction es arbitrary: es0)
  case (Cons e es)
  obtain m k v where e: "e = (m, k, v)" by (cases e) auto
  let ?d = "d @ [(0, s, es0)]" and ?more = "concat (map print_entry es) @ rest"
  have "parse_lines_v1 (v1_chunks (print_entry e @ ?more)) ?d = parse_lines_v1 (v1_chunks ?more) (d @ [(0, s, es0 @ [norm_entry e])])"
  proof (cases "m = 1")
    case True
    then have c: "clean_note k" using Cons.prems(1) e by (simp add: clean_entry_def)
    have p: "parse_line_v1 ([CONTENT_COMMA] @ strip_nl k @ [CONTENT_NEELINE]) ?d = Some (NOTESTYPE, d @ [(0, s, es0 @ [norm_entry e])])"
      using parse_note_line[OF c, of ?d] True e by (simp add: norm_entry_def)
    have "parse_lines_v1 (v1_chunks ([CONTENT_COMMA] @ k @ CONTENT_NEELINE # ?more)) ?d =
        parse_lines_v1 (v1_chunks ?more) (d @ [(0, s, es0 @ [norm_entry e])])"
      by (rule parse_text_line[OF _ _ _ p]) (use c comma_no_blank in \<open>auto simp: clean_note_def v1_codes v1_sizes\<close>)
    then show ?thesis using True e by (simp add: print_entry_def)
  next
    case False
    then have c: "m = 0" "clean_pair k v" using Cons.prems(1) e by (auto simp: clean_entry_def)
    then have f: "find_key_v1 (entries (?d ! (length ?d - 1))) k = None" using Cons.prems(2) e by simp
    have p: "parse_line_v1 ((k @ [CONTENT_EQUALITY]) @ strip_nl v @ [CONTENT_NEELINE]) ?d = Some (KEYVALUE, d @ [(0, s, es0 @ [norm_entry e])])"
      using parse_pair_line[OF c(2) _ f] c(1) e by (simp add: norm_entry_def)
    have "parse_lines_v1 (v1_chunks ((k @ [CONTENT_EQUALITY]) @ v @ CONTENT_NEELINE # ?more)) ?d =
        parse_lines_v1 (v1_chunks ?more) (d @ [(0, s, es0 @ [norm_entry e])])"
      by (rule parse_text_line[OF _ _ _ p]) (use c(2) in \<open>auto simp: clean_pair_def plain_def v1_codes v1_chars\<close>)
    then show ?thesis using c(1) e by (simp add: print_entry_def)
  qed
  then show ?case using Cons.IH[of "es0 @ [norm_entry e]"] Cons.prems by simp
qed simp

lemma parse_node:
  assumes "doc_clean seen (n # ns)"
  shows "parse_lines_v1 (v1_chunks (print_node n @ rest)) seen = parse_lines_v1 (v1_chunks rest) (seen @ [norm_node n])"
proof -
  obtain m s es where n: "n = (m, s, es)" by (cases n) auto
  show ?thesis
  proof (cases "m = 1")
    case True
    then have c: "in_notes seen" "es = []" "clean_note s" using assms n by auto
    have p: "parse_line_v1 ([CONTENT_COMMA] @ strip_nl s @ [CONTENT_NEELINE]) seen = Some (NOTESTYPE, seen @ [norm_node n])"
      using parse_note_line[OF c(3), of seen] c True n by (simp add: norm_node_def)
    have "parse_lines_v1 (v1_chunks ([CONTENT_COMMA] @ s @ CONTENT_NEELINE # rest)) seen =
        parse_lines_v1 (v1_chunks rest) (seen @ [norm_node n])"
      by (rule parse_text_line[OF _ _ _ p]) (use c(3) comma_no_blank in \<open>auto simp: clean_note_def v1_codes v1_sizes\<close>)
    then show ?thesis using True n c(2) blank_line_v1 by (simp add: print_node_def print_section_def)
  next
    case False
    then have c: "m = 0" "plain s" "length s + 3 \<le> MAX_STRING_LEN + 2" "find_section_v1 seen s = None" "list_all clean_entry es" "keys_fresh [] es"
      using assms n by auto
    let ?more = "concat (map print_entry es) @ rest"
    have "v1_chunks (([CONTENT_SECTION] @ s @ '']'') @ CONTENT_NEELINE # ?more) = (([CONTENT_SECTION] @ s @ '']'') @ [CONTENT_NEELINE]) # v1_chunks ?more"
      by (rule chunks_line) (use c(2,3) in \<open>auto simp: plain_def v1_chars v1_sizes\<close>)
    then have "parse_lines_v1 (v1_chunks (([CONTENT_SECTION] @ s @ '']'') @ CONTENT_NEELINE # ?more)) seen = parse_lines_v1 (v1_chunks ?more) (seen @ [(0, s, [])])"
      using parse_section_line[OF c(2-4)] by (simp add: v1_codes)
    also have "\<dots> = parse_lines_v1 (v1_chunks rest) (seen @ [(0, s, map norm_entry es)])"
      using parse_entries[OF c(5,6)] by simp
    finally show ?thesis using c(1) n blank_line_v1 by (simp add: print_node_def print_section_def norm_node_def)
  qed
qed

lemma parse_print:
  "doc_clean seen d \<Longrightarrow> parse_lines_v1 (v1_chunks (print_doc d)) seen = Some (0, seen @ map norm_node d)"
proof (induction d arbitrary: seen)
  case Nil
  then show ?case by (simp add: print_doc_def v1_chunks_def fgets_chunks.simps)
next
  case (Cons n ns)
  have "doc_clean (seen @ [norm_node n]) ns" using Cons.prems by (cases n) auto
  then show ?case using parse_node[OF Cons.prems, of "print_doc ns"] Cons.IH by (simp add: print_doc_def)
qed

lemma strip_nl_no_NUL: "plain (strip_nl t) \<Longrightarrow> NUL \<notin> set t"
  by (cases t rule: rev_cases) (auto simp: plain_def strip_nl_def v1_chars split: if_splits)

lemma plain_no_NUL: "plain t \<Longrightarrow> NUL \<notin> set t"
  by (simp add: plain_def)

lemma chars_no_NUL: "CONTENT_NEELINE \<noteq> NUL" "CONTENT_COMMA \<noteq> NUL" "CONTENT_EQUALITY \<noteq> NUL" "CONTENT_SECTION \<noteq> NUL"
  by (simp_all add: v1_chars)

lemma print_clean_no_NUL: "doc_clean seen d \<Longrightarrow> NUL \<notin> set (print_doc d)"
proof (induction d arbitrary: seen)
  case Nil
  then show ?case by (simp add: print_doc_def)
next
  case (Cons n ns)
  obtain m s es where n: "n = (m, s, es)" by (cases n) auto
  have e: "NUL \<notin> set (print_entry e)" if "clean_entry e" for e
    using that chars_no_NUL
    by (auto simp: clean_entry_def clean_note_def clean_pair_def print_entry_def dest: strip_nl_no_NUL plain_no_NUL split: prod.splits if_splits)
  have "NUL \<notin> set (print_node n)"
    using Cons.prems n e chars_no_NUL
    by (auto simp: print_node_def print_section_def clean_note_def list_all_iff dest: strip_nl_no_NUL plain_no_NUL split: if_splits)
  moreover have "NUL \<notin> set (print_doc ns)" using Cons.IH Cons.prems n by (auto split: if_splits)
  ultimately show ?case by (simp add: print_doc_def)
qed


end
