(* ===== verification/V1_Sample.thy ===== *)
theory V1_Sample
  imports V1_Round
begin

text \<open>
  A concrete file for \<^verbatim>\<open>v1.0.0/inifile.c\<close>, the state after loading it, and the theorems at work on it.
\<close>

section \<open>A file\<close>

definition v1_text :: string where
  "v1_text = '';top'' @ [CONTENT_NEELINE] @ ''[main]'' @ [CONTENT_NEELINE] @ ''name = bob'' @ [CONTENT_NEELINE] @
     '';mid'' @ [CONTENT_NEELINE] @ ''age=3'' @ [CONTENT_NEELINE] @ [CONTENT_NEELINE] @ ''[x]'' @ [CONTENT_NEELINE]"

definition v1_sample_doc :: v1_doc where
  "v1_sample_doc = [(1, ''top'' @ [CONTENT_NEELINE], []),
     (0, ''main'', [(0, ''name '', '' bob''), (1, ''mid'' @ [CONTENT_NEELINE], []), (0, ''age'', ''3'')]), (0, ''x'', [])]"

definition v1_start :: "string \<Rightarrow> v1_world" where
  "v1_start text = \<lparr>kv_heap = \<lambda>_. None, sec_heap = \<lambda>_. None, next_addr = 1,
     v1_fs = \<lparr>fs_files = (\<lambda>p. if p = ''a.ini'' then Some text else None), fs_denied = \<lambda>_. False\<rparr>,
     v1_writes = [Wrote 3, Interrupted, Wrote 200, Wrote 1]\<rparr>"

definition v1_par :: "string \<Rightarrow> string \<Rightarrow> string \<Rightarrow> INI_PARAMETER_v1" where
  "v1_par s k v = \<lparr>pr_section = Some s, pr_section_len = int (length s), pr_key = Some k, pr_key_len = int (length k),
     pr_value = Some v, pr_value_len = int (length v)\<rparr>"

lemma v1_text_parses: "parse_lines_v1 (v1_chunks v1_text) [] = Some (0, v1_sample_doc)"
  by code_simp

lemma v1_one_parses: "parse_lines_v1 (v1_chunks (''[main]'' @ [CONTENT_NEELINE])) [] = Some (0, [(0, ''main'', [])])"
  by code_simp

lemma v1_par_args:
  "section_arg_v1 (v1_par ''main'' ''name'' ''ann'') ''main''" "key_arg_v1 (v1_par ''main'' ''name'' ''ann'') ''name''"
  "value_arg_v1 (v1_par ''main'' ''name'' ''ann'') ''ann''" "unused_key (v1_par ''main'' ''name'' ''ann'')"
  "section_arg_v1 (v1_par ''main'' ''city'' ''rome'') ''main''" "key_arg_v1 (v1_par ''main'' ''city'' ''rome'') ''city''"
  "value_arg_v1 (v1_par ''main'' ''city'' ''rome'') ''rome''"
  "section_arg_v1 (v1_par ''y'' ''k'' ''v'') ''y''" "unused_key (v1_par ''y'' ''k'' ''v'')"
  by code_simp+

lemma v1_sample_loads:
  assumes "parse_lines_v1 (v1_chunks text) [] = Some (0, d)" "NUL \<notin> set text"
  shows "\<exists>f w. initIniFile (Some ''a.ini'') 5 (v1_start text) = Some (Some f, w) \<and> holds_doc f w d \<and> doc_fits d \<and>
    cstr (if_fileName f) = ''a.ini'' \<and> calm (v1_writes w) \<and> can_open (v1_fs w) ''a.ini''"
proof -
  have "\<exists>r w'. initIniFile (Some ''a.ini'') 5 (v1_start text) = Some (r, w') \<and> v1_fs w' = v1_fs (v1_start text) \<and> v1_writes w' = v1_writes (v1_start text) \<and>
    (if (0 :: int) < 0 then r = None else \<exists>f. r = Some f \<and> holds_doc f w' d \<and> doc_fits d \<and> if_fileName f = ''a.ini'')"
    by (rule load_ok[OF _ _ _ _ _ _ assms(2,1)]) (simp_all add: v1_start_def v1_sizes)
  then show ?thesis by (auto simp: v1_start_def calm_def can_open_def)
qed

lemma v1_text_no_NUL: "NUL \<notin> set v1_text" "NUL \<notin> set (''[main]'' @ [CONTENT_NEELINE])"
  by code_simp+

lemmas v1_sample = v1_sample_loads[OF v1_text_parses v1_text_no_NUL(1)]
lemmas v1_one = v1_sample_loads[OF v1_one_parses v1_text_no_NUL(2)]

lemma v1_sample_ops:
  "doc_prints (snd (update_v1 v1_sample_doc ''main'' ''name'' ''ann''))" "fst (update_v1 v1_sample_doc ''main'' ''name'' ''ann'') = 0"
  "doc_prints (snd (add_v1 v1_sample_doc ''main'' ''city'' ''rome''))" "fst (add_v1 v1_sample_doc ''main'' ''city'' ''rome'') = 0"
  "doc_prints (snd (delete_v1 v1_sample_doc ''main'' ''name''))" "fst (delete_v1 v1_sample_doc ''main'' ''name'') = 0"
  "doc_prints (snd (delete_section_v1 v1_sample_doc ''main''))" "fst (delete_section_v1 v1_sample_doc ''main'') = 0"
  "doc_prints (snd (add_section_v1 v1_sample_doc ''y''))" "fst (add_section_v1 v1_sample_doc ''y'') = 0"
  "lookup_v1 v1_sample_doc ''main'' ''name'' = Some ''bob''"
  "doc_prints v1_sample_doc" "doc_clean [] v1_sample_doc" "v1_sample_doc \<noteq> []" "1 < length v1_sample_doc"
  by code_simp+

section \<open>The operations on it\<close>

theorem v1_load_refines_witness:
  "\<exists>f w. initIniFile (Some ''a.ini'') 5 (v1_start v1_text) = Some (Some f, w) \<and> holds_doc f w v1_sample_doc"
  using v1_load_refines[of "''a.ini''" "''a.ini''" 5 "v1_start v1_text" v1_text 0 v1_sample_doc] v1_text_parses v1_text_no_NUL
  by (auto simp: v1_start_def v1_sizes)

theorem v1_get_refines_witness:
  "\<exists>f w. initIniFile (Some ''a.ini'') 5 (v1_start v1_text) = Some (Some f, w) \<and>
    getValueOfKey (Some f) (v1_par ''main'' ''name'' ''ann'') w = Some (Some ''bob'')"
  using v1_sample v1_get_refines[OF _ _ v1_par_args(1,2)] v1_sample_ops(11) by metis

theorem v1_update_refines_witness:
  "\<exists>f w w'. initIniFile (Some ''a.ini'') 5 (v1_start v1_text) = Some (Some f, w) \<and>
    updateValueOfKey (Some f) (v1_par ''main'' ''name'' ''ann'') w = Some (0, w') \<and>
    op_done f w f w' (update_v1 v1_sample_doc ''main'' ''name'' ''ann'')"
proof -
  obtain f w where s: "initIniFile (Some ''a.ini'') 5 (v1_start v1_text) = Some (Some f, w)" "holds_doc f w v1_sample_doc" "doc_fits v1_sample_doc"
    "cstr (if_fileName f) = ''a.ini''" "calm (v1_writes w)" using v1_sample by blast
  show ?thesis using v1_update_refines[OF s(2,3) v1_par_args(1-3) _ v1_sample_ops(1) s(5)] s(1,4) v1_sample_ops(2) by (simp add: v1_sizes)
qed

theorem v1_add_refines_witness:
  "\<exists>f w w'. initIniFile (Some ''a.ini'') 5 (v1_start v1_text) = Some (Some f, w) \<and>
    addValueOfKey (Some f) (v1_par ''main'' ''city'' ''rome'') w = Some (0, w') \<and>
    op_done f w f w' (add_v1 v1_sample_doc ''main'' ''city'' ''rome'')"
proof -
  obtain f w where s: "initIniFile (Some ''a.ini'') 5 (v1_start v1_text) = Some (Some f, w)" "holds_doc f w v1_sample_doc" "doc_fits v1_sample_doc"
    "cstr (if_fileName f) = ''a.ini''" "calm (v1_writes w)" using v1_sample by blast
  show ?thesis using v1_add_refines[OF s(2,3) v1_par_args(5-7) v1_sample_ops(3) s(5)] s(1,4) v1_sample_ops(4) by (simp add: v1_sizes)
qed

theorem v1_delete_refines_witness:
  "\<exists>f w w'. initIniFile (Some ''a.ini'') 5 (v1_start v1_text) = Some (Some f, w) \<and>
    deleteValueOfKey (Some f) (v1_par ''main'' ''name'' ''ann'') w = Some (0, w') \<and>
    op_done f w f w' (delete_v1 v1_sample_doc ''main'' ''name'')"
proof -
  obtain f w where s: "initIniFile (Some ''a.ini'') 5 (v1_start v1_text) = Some (Some f, w)" "holds_doc f w v1_sample_doc" "doc_fits v1_sample_doc"
    "cstr (if_fileName f) = ''a.ini''" "calm (v1_writes w)" using v1_sample by blast
  show ?thesis using v1_delete_refines[OF s(2,3) v1_par_args(1,2) v1_sample_ops(5) s(5)] s(1,4) v1_sample_ops(6) by (simp add: v1_sizes)
qed

theorem v1_delete_section_refines_witness:
  "\<exists>f w f' w'. initIniFile (Some ''a.ini'') 5 (v1_start v1_text) = Some (Some f, w) \<and>
    deleteSection (Some f) (v1_par ''main'' ''name'' ''ann'') w = Some (0, Some f', w') \<and>
    op_done f w f' w' (delete_section_v1 v1_sample_doc ''main'')"
proof -
  obtain f w where s: "initIniFile (Some ''a.ini'') 5 (v1_start v1_text) = Some (Some f, w)" "holds_doc f w v1_sample_doc" "doc_fits v1_sample_doc"
    "cstr (if_fileName f) = ''a.ini''" "calm (v1_writes w)" using v1_sample by blast
  show ?thesis using v1_delete_section_refines[OF s(2,3) v1_sample_ops(15) v1_par_args(1,4) v1_sample_ops(7) s(5)] s(1,4) v1_sample_ops(8)
    by (simp add: v1_sizes)
qed

theorem v1_add_section_refines_witness:
  "\<exists>f w f' w'. initIniFile (Some ''a.ini'') 5 (v1_start v1_text) = Some (Some f, w) \<and>
    addSetction (Some f) (v1_par ''y'' ''k'' ''v'') w = Some (0, Some f', w') \<and>
    op_done f w f' w' (add_section_v1 v1_sample_doc ''y'')"
proof -
  obtain f w where s: "initIniFile (Some ''a.ini'') 5 (v1_start v1_text) = Some (Some f, w)" "holds_doc f w v1_sample_doc" "doc_fits v1_sample_doc"
    "cstr (if_fileName f) = ''a.ini''" "calm (v1_writes w)" using v1_sample by blast
  show ?thesis using v1_add_section_refines[OF s(2,3) v1_par_args(8,9) v1_sample_ops(9) s(5)] s(1,4) v1_sample_ops(10)
    by (simp add: v1_sizes)
qed

lemma v1_delete_last_section_undefined_witness:
  "\<exists>f w. initIniFile (Some ''a.ini'') 5 (v1_start (''[main]'' @ [CONTENT_NEELINE])) = Some (Some f, w) \<and>
    deleteSection (Some f) (v1_par ''main'' ''name'' ''ann'') w = None"
proof -
  obtain f w where s: "initIniFile (Some ''a.ini'') 5 (v1_start (''[main]'' @ [CONTENT_NEELINE])) = Some (Some f, w)"
    "holds_doc f w [(0, ''main'', [])]" "doc_fits [(0, ''main'', [])]" "cstr (if_fileName f) = ''a.ini''" "can_open (v1_fs w) ''a.ini''"
    using v1_one by blast
  show ?thesis using v1_delete_last_section_undefined[OF s(2,3) v1_par_args(1,4)] s(1,4,5) by (simp add: same_name_def v1_sizes)
qed

theorem v1_exit_frees_all_witness:
  "\<exists>f w w'. initIniFile (Some ''a.ini'') 5 (v1_start v1_text) = Some (Some f, w) \<and> exitOperationIniFile (Some f) w = Some (0, None, w')"
  using v1_sample v1_exit_frees_all unfolding holds_doc_def by metis


section \<open>A line that is too long to write\<close>

text \<open>
  Arguments of the largest size that the check admits: a key and a value of 64 characters make a line of
  133 characters, and the buffer of \<^verbatim>\<open>updateIniFile\<close> has 132 bytes.
\<close>

lemma add_overflows_buffer:
  "(case initIniFile (Some ''a.ini'') 5 (v1_start (''[main]'' @ [CONTENT_NEELINE])) of
      Some (Some f, w) \<Rightarrow> Option.is_none (addValueOfKey (Some f) (v1_par ''main'' (replicate 64 CHR ''k'') (replicate 64 CHR ''v'')) w)
    | _ \<Rightarrow> False)"
  by code_simp

end
