(* ===== verification/Spec2Isabelle.thy ===== *)
theory Spec2Isabelle
  imports Ini_Sample Ngx_Correct Thread_Queue Es_Race Es_Block Log_Mini Mac_Table Socket_Api Daemon Ftp_Client Ps_Threads Ps_Report Echo_Servers Xls_Reader Lottery V1_Sample
begin

text \<open>
  A verification of the C programs of this repository: two generations of a library for ini files
  (\<^verbatim>\<open>v1.0.0/inifile.c\<close> and \<^verbatim>\<open>v2.0.0/inifile.c\<close>); the building blocks of \<^verbatim>\<open>module_function\<close>: a memory pool, a
  thread pool, an Elasticsearch client over HTTP, an FTP client, a logger, a port scan with raw sockets, sockets, daemons, string and file helpers,
  linked lists of keys and values, a table converter and a sorting routine; the port scanner of \<^verbatim>\<open>portscan\<close>; the spreadsheet reader of
  \<^verbatim>\<open>c_execl\<close>; and the echo servers of \<^verbatim>\<open>demo\<close>. This theory imports the whole development and holds the properties of the second ini library.

  \<^bold>\<open>How C is represented\<close> (\<^verbatim>\<open>C_Prelude\<close>, \<^verbatim>\<open>C_Files\<close>). A character array is a string that is read as followed by zero bytes,
  a pointer into it is an offset, \<^verbatim>\<open>NULL\<close> is \<open>None\<close>. A function whose run may be undefined (an access
  outside an array, a use after free, an endless loop) has an option type, and \<open>None\<close> says that there is
  no defined result; error codes are ordinary values inside \<open>Some\<close>. Linked lists are related to Isabelle
  lists by \<open>chain\<close> and \<open>dchain\<close>. A file system is a map from names to contents with the set of names that
  cannot be opened. Loops over pointers are \<^verbatim>\<open>partial_function (option)\<close>, or have the size of the node array as
  fuel: a walk that visits more nodes than the array has is endless, so that is enough. All other loops
  are structural or have a termination proof. Lengths are natural numbers; where a conversion to \<^verbatim>\<open>int\<close> or an
  unsigned difference matters it is written out (\<open>c_int\<close>, \<open>size_sub\<close>).

  \<^bold>\<open>The second ini library\<close> (\<^verbatim>\<open>v2.0.0\<close>). Strings live in one of two static pools, sections and keys are nodes
  in static arrays, linked both ways, and an open file is a slot of a third array.
  \<^item> \<^verbatim>\<open>Ini_Strings\<close>, \<^verbatim>\<open>Ini_Line\<close>: the string helpers and the classification of lines; C10 compares it with a
    reference.
  \<^item> \<^verbatim>\<open>Ini_State\<close>, \<^verbatim>\<open>Ini_Pool\<close>: the records, the slot search (a locale, interpreted for the three arrays), the
    string pool and its compaction (C8, C9).
  \<^item> \<^verbatim>\<open>Ini_Parse\<close>, \<^verbatim>\<open>Ini_Rewrite\<close>, \<^verbatim>\<open>Ini_Api\<close>: reading a file line by line, the three rewriters that go through a temporary
    file, and the exported operations.
  \<^item> \<^verbatim>\<open>Node_Lists\<close>: the contract of list operations over a node array as the locales \<open>linked_nodes\<close> and
    \<open>appending_nodes\<close>; \<^verbatim>\<open>Ini_Inv\<close> interprets them for sections and keys and proves the invariant \<open>ini_inv\<close>.
  \<^item> \<^verbatim>\<open>Ini_Refine\<close>, \<^verbatim>\<open>Ini_Delete\<close>, \<^verbatim>\<open>Ini_Text\<close>, \<^verbatim>\<open>Ini_Load\<close>, \<^verbatim>\<open>Ini_LoadKv\<close>, \<^verbatim>\<open>Ini_Read\<close>, \<^verbatim>\<open>Ini_Add\<close>: the abstraction to documents (association
    lists of sections and keys) and the refinement of every operation (C2 to C7).
  \<^item> \<^verbatim>\<open>Ini_File\<close>, \<^verbatim>\<open>Ini_UpdateFile\<close>, \<^verbatim>\<open>Ini_Sync\<close>, \<^verbatim>\<open>Ini_Sample\<close>: what the rewriting of a value does to the text of the file, and
    that file and memory stay in step (C1); a sample file for the witnesses.

  \<^bold>\<open>The first ini library\<close> (\<^verbatim>\<open>v1.0.0\<close>). Nodes come from \<^verbatim>\<open>malloc\<close>, and every change writes the whole file again.
  \<^item> \<^verbatim>\<open>V1_Lists\<close>, \<^verbatim>\<open>V1_Parse\<close>, \<^verbatim>\<open>V1_Api\<close>: the heap, the lists, the parser and the operations; \<^verbatim>\<open>write\<close> may be interrupted and
    may write less than asked for.
  \<^item> \<^verbatim>\<open>Heap_Lists\<close>: the contract of lists with head and tail as the locales \<open>heap_list\<close> and \<open>heap_list_delete\<close>;
    \<^verbatim>\<open>V1_Rep\<close> interprets them for both node types and defines the representation invariant \<open>v1_rep\<close>.
  \<^item> \<^verbatim>\<open>V1_Ops\<close>, \<^verbatim>\<open>V1_Write\<close>, \<^verbatim>\<open>V1_Correct\<close>, \<^verbatim>\<open>V1_Load\<close>, \<^verbatim>\<open>V1_Round\<close>: the steps on the representation, saving and releasing, the refinement of the
    operations, loading, and the round trip of saving and loading; \<^verbatim>\<open>V1_Sample\<close> has the witnesses.

  \<^bold>\<open>The memory pool\<close> (\<^verbatim>\<open>memory_pool.c\<close>): \<^verbatim>\<open>Ngx_Pool\<close> has the operations with \<^verbatim>\<open>malloc\<close> as a parameter, \<^verbatim>\<open>Ngx_Inv\<close>, \<^verbatim>\<open>Ngx_Alloc\<close>
  and \<^verbatim>\<open>Ngx_Free\<close> the representation, \<^verbatim>\<open>Ngx_Correct\<close> the properties: allocations are disjoint, reset and destroy free what
  they should, and a pool whose size is no multiple of 8 hands out memory behind its block.

  \<^bold>\<open>The thread pool\<close> (\<^verbatim>\<open>frame_thread_pool.c\<close>): \<^verbatim>\<open>Thread_Pool\<close> has the program points of workers and submitters and the
  step relation of the whole process, \<^verbatim>\<open>Thread_Inv\<close> the invariant over all reachable states, the absence of deadlock,
  and a run in which a job is lost, \<^verbatim>\<open>Thread_Queue\<close> the refinement of a bounded queue (locale \<open>bounded_fifo\<close>).

  \<^bold>\<open>The Elasticsearch client\<close> (\<^verbatim>\<open>es_http_api.c\<close>). Callers put requests into a ring of ten slots; one thread sends them, one receives and
  analyses the answers, and one calls the callbacks. An eleventh slot is for a query that waits for its answer.
  \<^item> \<^verbatim>\<open>Http_Message\<close> (\<^verbatim>\<open>http_applayer.c\<close>): the texts of requests, with decimal numbers and \<^verbatim>\<open>atoi\<close>.
  \<^item> \<^verbatim>\<open>Es_Head\<close>, \<^verbatim>\<open>Es_Json\<close>, \<^verbatim>\<open>Es_Message\<close>: the analysis of an answer. Memory comes from the pool of the slot as numbered cells, and an
    argument says which allocations succeed. A printed head is read back, a message that comes in pieces is put together, and the receive
    buffer keeps what has not been used up.
  \<^item> \<^verbatim>\<open>Tcp_Socket\<close>, \<^verbatim>\<open>Socket_Api\<close> (\<^verbatim>\<open>socket_api.c\<close>): the loops around \<^verbatim>\<open>send\<close> and \<^verbatim>\<open>recv\<close>, and the system calls of the other functions.
  \<^item> \<^verbatim>\<open>Es_Ring\<close>: the ring, the program points of the threads and of the callers, and the step relation of them all; what the network and
    the analysis give is an argument of a step. \<^verbatim>\<open>Es_Ring_Inv\<close> has the invariant of all reachable states, from which the order of the callbacks
    and the exclusive use of the slots follow; \<^verbatim>\<open>Es_Race\<close> a run with a status that stays behind, and the loss of the mutex after a failed
    allocation.
  \<^item> \<^verbatim>\<open>Es_Block\<close>: the blocking query, its release, and the end of the client, whose polling loop ends.

  \<^bold>\<open>The FTP client\<close> (\<^verbatim>\<open>ftp_curl_operation.c\<close>). The slots of the client are a list; \<^verbatim>\<open>libcurl\<close>, which is not part of the repository, is the record
  \<open>curl_env\<close> of its answers, and the model keeps the transfers that were asked for, with their options. A function that ends without \<^verbatim>\<open>return\<close> takes the value its caller finds
  as an argument.
  \<^item> \<^verbatim>\<open>Ftp_List\<close>: the callback that cuts a directory listing, which arrives in pieces, into lines and finds size and name in them.
  \<^item> \<^verbatim>\<open>Ftp_Client\<close>: opening and resetting slots, the seven operations, and the end of the client. A scan reports every entry of a listing once, whatever the pieces are; every other
    operation makes one transfer with the right address and commands; and the texts of a new slot are the beginning of every address.

  \<^bold>\<open>The logger\<close> (\<^verbatim>\<open>log_mini.c\<close>): \<^verbatim>\<open>Log_Mini\<close> has its state with the streams it has written, and shows that roll-overs lose nothing.

  \<^bold>\<open>The ACK scan\<close> (\<^verbatim>\<open>tcp_ack_scan.c\<close>): \<^verbatim>\<open>Ack_Scan\<close> has the headers as bytes, the checksum as arithmetic in one's complement, the loop over the
  ports with the answers of the kernel as arguments, and shows that every datagram verifies and which ports are reported.

  \<^bold>\<open>The port scanner\<close> (\<^verbatim>\<open>portscan\<close>). The command line becomes lists of addresses and ports, from these come the jobs, and every job ends in
  a result in one table. All lists grow at the top; they are Isabelle lists with the newest element first, and \<^verbatim>\<open>malloc\<close> is taken to succeed.
  Names, captured packets, the clock and what services answer are arguments.
  \<^item> \<^verbatim>\<open>Ps_Setup\<close> (\<^verbatim>\<open>ps_setup.c\<close>): the options behind \<^verbatim>\<open>getopt_long\<close>, ports, networks, jobs and results; a network with a prefix from 16 to 32 gives
    exactly its hosts, a shorter prefix does not. \<^verbatim>\<open>Ps_Lists\<close> has the table of results as a function of what has been pushed.
  \<^item> \<^verbatim>\<open>Ps_Packet\<close> (\<^verbatim>\<open>ps_prepare.c\<close>): the packets as bytes and their checksums, with \<^verbatim>\<open>Ack_Scan\<close>.
  \<^item> \<^verbatim>\<open>Ps_Version\<close> (\<^verbatim>\<open>ps_version.c\<close>): the conversations that ask a service for its version, and the list of what they found.
  \<^item> \<^verbatim>\<open>Ps_Scan\<close> (\<^verbatim>\<open>ps_scan.c\<close>): the scan one job after another, the analysis of captured packets, the work of one thread, the datagrams that are sent, and the set-up of the capture session. The locale
    \<open>job_scanner\<close> is the contract of both ways to scan, and gives the table after a whole scan.
  \<^item> \<^verbatim>\<open>Ps_Threads\<close>: all threads together, as steps that read or write shared memory. Every run ends, takes each job once, and has at most 27 steps for a job, since the
    search through the table is one step and the six values of a record are looked at one by one; there is a run in which a result is lost.
  \<^item> \<^verbatim>\<open>Ps_Report\<close> (\<^verbatim>\<open>ps_setup.c\<close>, \<^verbatim>\<open>ps_version.c\<close>, \<^verbatim>\<open>main.c\<close>): the printed texts and the main program. From the command line to the report, every record with a conclusion is
    listed once.

  \<^bold>\<open>Helpers\<close>: \<^verbatim>\<open>Frame_Tool\<close> (\<^verbatim>\<open>frame_tool.c\<close>: substring search, file size, file copy, lock file, directory listing),
  \<^verbatim>\<open>Key_Value\<close> (\<^verbatim>\<open>key_value_part.c\<close>, \<^verbatim>\<open>es_obj_info.c\<close>; locale \<open>appended_chain\<close>), \<^verbatim>\<open>Mac_Table\<close> (\<^verbatim>\<open>file_trans_tools.c\<close>: from a table of prefixes to SQL),
  \<^verbatim>\<open>Lottery\<close> (\<^verbatim>\<open>lottery.c\<close>: \<^verbatim>\<open>bubble_sort\<close> and the draw), \<^verbatim>\<open>Daemon\<close> (\<^verbatim>\<open>daemon_process.c\<close>: a process with its descriptors).

  \<^bold>\<open>The echo servers\<close> (\<^verbatim>\<open>demo/select\<close>, \<^verbatim>\<open>demo/poll\<close>, \<^verbatim>\<open>demo/epoll\<close>): \<^verbatim>\<open>Echo_Servers\<close> has one round of each main loop, with the answers of the kernel as an argument. The poll server
  echoes in every reachable state, the select server up to its ninth connection, and the epoll server as long as one client is active.

  \<^bold>\<open>The spreadsheet reader\<close> (\<^verbatim>\<open>c_execl\<close>): \<^verbatim>\<open>Xls_Reader\<close> has every method of the class, with what \<^verbatim>\<open>libxls\<close> finds in a file as an argument and the handles that are open as part of
  the state, and the theorem on a whole session.

  \<^bold>\<open>Not modelled\<close>: the mutexes of the ini libraries, the FTP client and the logger, and output on the terminal except for that of the port scanner; hardware and library
  failures other than those named above; the interleaving of two calls into one ini library. Of the program, \<^verbatim>\<open>es_respond_mem_free\<close> (compiled only without the memory pool); the clock, the
  binding of threads to processors and the command shell, which consist of system calls without data of their own; the test drivers and the clients of the demos; three functions of
  \<^verbatim>\<open>frame_tool.c\<close> that are one system call each; and the help text of the port scanner.
\<close>

section \<open>The ini library: memory and file\<close>


lemma sample_valid_fd: "valid_fd 0"
  by (simp add: valid_fd_def size_defs)

lemma sample_update_args: "update_args (sample_par ''main'' ''name'' ''ann'') ''main'' ''name'' ''ann''"
  by (simp add: update_args_def sample_par_def arg_ok_def arg_string_def cstr_def)




text \<open>
  C3. Reading a value. \<^verbatim>\<open>get_value_ofkey\<close> returns the stored value of the key in the document of the
  slot, and the null pointer exactly when the document has no such section or no such key in it.
\<close>

theorem get_value_refines:
  assumes "ini_inv w" and "valid_fd fd" and "section_arg par a" and "key_arg par b"
  shows "\<exists>r. get_value_ofkey fd (Some par) w = Some r \<and>
    map_option (pool_string (pool_mem w)) r = doc_get a b (doc w (nat fd))"
proof -
  obtain s where s: "par_section par = Some s" "arg_ok s (par_section_len par)" "a = arg_string s (par_section_len par)"
    using assms(3) by (rule section_argE)
  obtain k where k: "par_key par = Some k" "arg_ok k (par_key_len par)" "b = arg_string k (par_key_len par)"
    using assms(4) by (rule key_argE)
  show ?thesis unfolding s(3) k(3) by (rule get_value_refines_aux[OF assms(1,2) s(1,2) k(1,2)])
qed

lemma sample_args: "section_arg (sample_par s k v) (cstr s)" "key_arg (sample_par s k v) (cstr k)"
  by (simp_all add: section_arg_def key_arg_def sample_par_def arg_ok_def arg_string_def)

theorem get_value_refines_witness:
  "\<exists>r. get_value_ofkey 0 (Some (sample_par ''main'' ''name'' [])) sample_world = Some r \<and>
    map_option (pool_string (pool_mem sample_world)) r = doc_get ''main'' ''name'' (doc sample_world (nat 0))"
  by (rule get_value_refines[OF sample_state(1) sample_valid_fd])
     (use sample_args[of "''main''" "''name''" "[]"] in \<open>simp_all add: cstr_def\<close>)

text \<open>
  C4. Deleting a key, in memory. \<^verbatim>\<open>delete_value_ofkey\<close> reports a missing section or a missing key and then
  changes nothing; otherwise it removes exactly that key from the document of the slot, keeps the
  invariant and every other document, and goes on to rewrite the file.
\<close>

theorem delete_value_refines:
  assumes "ini_inv w" and "valid_fd fd" and "section_arg par a" and "key_arg par b"
  shows "(map_of (doc w (nat fd)) a = None \<longrightarrow>
      delete_value_ofkey fd (Some par) w = Some (INIFILE_SECTION_NOFOUND, Some par, w)) \<and>
    (map_of (doc w (nat fd)) a \<noteq> None \<and> doc_get a b (doc w (nat fd)) = None \<longrightarrow>
      delete_value_ofkey fd (Some par) w = Some (INIFILE_KEYVALUE_NOFOUND, Some par, w)) \<and>
    (doc_get a b (doc w (nat fd)) \<noteq> None \<longrightarrow>
      (\<exists>w1. delete_value_ofkey fd (Some par) w = call_rewrite rewrite_after_delete fd par w1 \<and>
         only_doc (nat fd) (doc_delete a b (doc w (nat fd))) w w1))"
proof -
  obtain s where s: "par_section par = Some s" "arg_ok s (par_section_len par)" "a = arg_string s (par_section_len par)"
    using assms(3) by (rule section_argE)
  obtain k where k: "par_key par = Some k" "arg_ok k (par_key_len par)" "b = arg_string k (par_key_len par)"
    using assms(4) by (rule key_argE)
  note D = delete_memory[OF assms(1,2) s(1,2) k(1,2), folded s(3) k(3)]
  have "\<exists>w1. delete_value_ofkey fd (Some par) w = call_rewrite rewrite_after_delete fd par w1 \<and>
      only_doc (nat fd) (doc_delete a b (doc w (nat fd))) w w1" if "doc_get a b (doc w (nat fd)) \<noteq> None"
    using D(3)[OF that] only_docI[of _ w "nat fd" "doc_delete a b"] by blast
  then show ?thesis using D(1,2) by blast
qed

theorem delete_value_refines_witness:
  "\<exists>w1. delete_value_ofkey 0 (Some (sample_par ''main'' ''age'' [])) sample_world =
      call_rewrite rewrite_after_delete 0 (sample_par ''main'' ''age'' []) w1 \<and>
    only_doc 0 [(''main'', [(''name'', ''joe'')]), (''net'', [(''port'', ''80'')])] sample_world w1"
  using delete_value_refines[OF sample_state(1) sample_valid_fd, of "sample_par ''main'' ''age'' []" "''main''" "''age''"]
    sample_args[of "''main''" "''age''" "[]"]
  by (simp add: cstr_def sample_state sample_doc_def doc_get_def doc_delete_def)

text \<open>
  C5. Deleting a section, in memory: a missing section is reported and nothing changes; otherwise the
  first section of that name disappears from the document of the slot, and nothing else changes.
\<close>

theorem delete_section_refines:
  assumes "ini_inv w" and "valid_fd fd" and "section_arg par a"
  shows "(map_of (doc w (nat fd)) a = None \<longrightarrow>
      delete_ini_section fd (Some par) w = Some (INIFILE_SECTION_NOFOUND, Some par, w)) \<and>
    (map_of (doc w (nat fd)) a \<noteq> None \<longrightarrow>
      (\<exists>w1. delete_ini_section fd (Some par) w = call_rewrite rewrite_after_delete fd par w1 \<and>
         only_doc (nat fd) (del_first a (doc w (nat fd))) w w1))"
proof -
  obtain s where s: "par_section par = Some s" "arg_ok s (par_section_len par)" "a = arg_string s (par_section_len par)"
    using assms(3) by (rule section_argE)
  note D = delete_section_memory[OF assms(1,2) s(1,2), folded s(3)]
  have "\<exists>w1. delete_ini_section fd (Some par) w = call_rewrite rewrite_after_delete fd par w1 \<and>
      only_doc (nat fd) (del_first a (doc w (nat fd))) w w1" if "map_of (doc w (nat fd)) a \<noteq> None"
    using D(2)[OF that] only_docI[of _ w "nat fd" "del_first a"] by blast
  then show ?thesis using D(1) by blast
qed

theorem delete_section_refines_witness:
  "\<exists>w1. delete_ini_section 0 (Some (sample_par ''main'' [] [])) sample_world =
      call_rewrite rewrite_after_delete 0 (sample_par ''main'' [] []) w1 \<and>
    only_doc 0 [(''net'', [(''port'', ''80'')])] sample_world w1"
  using delete_section_refines[OF sample_state(1) sample_valid_fd, of "sample_par ''main'' [] []" "''main''"]
    sample_args(1)[of "''main''" "[]" "[]"]
  by (simp add: cstr_def sample_state sample_doc_def)





text \<open>
  Closing a file. \<^verbatim>\<open>destroy_ini_source\<close> on an open slot clears the slot, its sections and its keys, so
  that its document is empty; the invariant, the pool, the files on disk and every other slot are kept.
\<close>

theorem destroy_releases:
  assumes "ini_inv w" and "f < MAX_OPERATION_FILE_NUM" and "fil_flag (fil_at w f) = STRUCT_NODE_IN_USED"
  shows "\<exists>w'. destroy_ini_source (int f) w = Some w' \<and> ini_inv w' \<and> ini_fs w' = ini_fs w \<and>
    fil_at w' f = zero_file \<and> doc w' f = [] \<and> pool_mem w' = pool_mem w \<and>
    (\<forall>g < MAX_OPERATION_FILE_NUM. g \<noteq> f \<longrightarrow> doc w' g = doc w g \<and> fil_at w' g = fil_at w g)"
  using assms(1) destroy_ok[OF _ _ _ assms(2,3)] unfolding ini_inv_def[of w] by blast

theorem destroy_releases_witness:
  "\<exists>w'. destroy_ini_source (int 0) sample_world = Some w' \<and> ini_inv w' \<and> ini_fs w' = ini_fs sample_world \<and>
    fil_at w' 0 = zero_file \<and> doc w' 0 = [] \<and> pool_mem w' = pool_mem sample_world \<and>
    (\<forall>g < MAX_OPERATION_FILE_NUM. g \<noteq> 0 \<longrightarrow> doc w' g = doc sample_world g \<and> fil_at w' g = fil_at sample_world g)"
  by (rule destroy_releases[OF sample_state(1) _ sample_state(3)]) (simp add: size_defs)

section \<open>The ini library: the string pool\<close>

text \<open>
  C8. Storing a string, with at most one compaction. \<^verbatim>\<open>storage_char_memory\<close> never faults; it either stores
  the bytes behind a fresh pointer that reads them back, or fails with a negative code; in both cases the
  invariant holds, every pointer that was live stays live and reads the same string, and the strings seen
  through the nodes are the same as before.
\<close>

theorem storage_reads_back:
  assumes "store_inv w" and "NUL \<notin> set bs" and "room bs w"
  shows "\<exists>ret q w'. storage_char_memory bs w = Some (ret, q, w') \<and> store_inv w' \<and> same_view w w' \<and>
    (ret = 0 \<and> (\<exists>p. q = Some p \<and> live_ptr (pool_mem w') p \<and> pool_string (pool_mem w') p = bs) \<or> ret < 0 \<and> q = None) \<and>
    (\<forall>p. live_ptr (pool_mem w) p \<longrightarrow> live_ptr (pool_mem w') p \<and> pool_string (pool_mem w') p = pool_string (pool_mem w) p)"
  by (rule storage_ok[OF assms]) blast

theorem storage_reads_back_witness:
  "\<exists>ret q w'. storage_char_memory ''abc'' sample_world = Some (ret, q, w') \<and> store_inv w' \<and> same_view sample_world w' \<and>
    (ret = 0 \<and> (\<exists>p. q = Some p \<and> live_ptr (pool_mem w') p \<and> pool_string (pool_mem w') p = ''abc'') \<or> ret < 0 \<and> q = None) \<and>
    (\<forall>p. live_ptr (pool_mem sample_world) p \<longrightarrow>
       live_ptr (pool_mem w') p \<and> pool_string (pool_mem w') p = pool_string (pool_mem sample_world) p)"
  by (rule storage_reads_back) (use sample_state(1) sample_room in \<open>auto simp: ini_inv_def\<close>)

text \<open>
  C9. The first compaction. \<^verbatim>\<open>ini_file_memory_adjust\<close>, called while the first pool is in use, switches to
  the back pool, and the strings seen through every file, section and key node stay the same, also when
  it gives up with an error half way; the bytes of the first pool are not touched.
\<close>

theorem first_compaction_keeps_strings:
  assumes "store_inv w" and "pm_flag (pool_mem w) = INI_FILE_MEMORY_POOL_INTI"
  shows "\<exists>ret w'. ini_file_memory_adjust (account n w) = Some (ret, w') \<and> store_inv w' \<and> same_view w w' \<and>
    pm_flag (pool_mem w') = INI_FILE_MEMORY_POOL_BACK \<and> ret \<le> 0 \<and>
    region_bytes (pool_mem w') POOL = region_bytes (pool_mem w) POOL"
proof (rule adjust_ok[OF assms])
  fix ret w' assume "ini_file_memory_adjust (account n w) = Some (ret, w')" "store_inv w'" "same_view w w'"
    "pm_flag (pool_mem w') = INI_FILE_MEMORY_POOL_BACK" "ret = 0 \<or> ret < 0"
    "region_bytes (pool_mem w') POOL = region_bytes (pool_mem w) POOL"
  then show ?thesis by (intro exI[of _ ret] exI[of _ w']) auto
qed

theorem first_compaction_keeps_strings_witness:
  "\<exists>ret w'. ini_file_memory_adjust (account 3 sample_world) = Some (ret, w') \<and> store_inv w' \<and> same_view sample_world w' \<and>
    pm_flag (pool_mem w') = INI_FILE_MEMORY_POOL_BACK \<and> ret \<le> 0 \<and>
    region_bytes (pool_mem w') POOL = region_bytes (pool_mem sample_world) POOL"
  by (rule first_compaction_keeps_strings) (use sample_state(1) sample_init(3) in \<open>auto simp: ini_inv_def\<close>)

text \<open>
  A limit of the compaction. While the first slot is open, \<^verbatim>\<open>ini_file_memory_adjust\<close> never gets to the
  second one: its loop does not advance the file pointer behind an open slot, so the node of the second
  file still points into the pool that was left.
\<close>

lemma compaction_skips_second_file:
  assumes "ini_file_memory_adjust w = Some (ret, w')" and "fil_flag (fil_at w 0) \<noteq> STRUCT_NODE_UN_USED"
    and "length (ini_array w) = 2"
  shows "fil_at w' 1 = fil_at w 1"
proof -
  obtain ok where "adjust_files MAX_OPERATION_FILE_NUM (w\<lparr>pool_mem := switch_pool (pool_mem w)\<rparr>) 0 = Some (ok, w')"
    using assms(1) by (auto simp: ini_file_memory_adjust_def bind_eq_Some_conv)
  from adjust_files_stuck[OF this] assms(2,3) show ?thesis by simp
qed

lemma compaction_skips_second_file_witness:
  "\<exists>ret w'. ini_file_memory_adjust (account 3 sample_world) = Some (ret, w') \<and> fil_at w' 1 = fil_at (account 3 sample_world) 1"
proof -
  have a: "fil_at (account 3 sample_world) 0 = fil_at sample_world 0" "ini_array (account 3 sample_world) = ini_array sample_world"
    by (simp_all add: account_def)
  have st: "store_inv sample_world" using sample_state(1) by (simp add: ini_inv_def)
  have len: "length (ini_array sample_world) = 2" using st by (simp add: store_inv_def walkable_def size_defs)
  show ?thesis
  proof (rule adjust_ok[OF st sample_init(3), of 3])
    fix ret w' assume r: "ini_file_memory_adjust (account 3 sample_world) = Some (ret, w')"
    from compaction_skips_second_file[OF r] sample_state(3) a len have "fil_at w' 1 = fil_at (account 3 sample_world) 1"
      by (simp add: flag_defs)
    with r show ?thesis by blast
  qed
qed

section \<open>The ini library: lines\<close>

text \<open>
  C10. Classifying a line. The character by character scan of \<^verbatim>\<open>judge_ini_file_linetype\<close> agrees with a
  definition by what the line contains: blank when only blanks precede the newline; ahead of the first
  \<^verbatim>\<open>;\<close>, a bracket and no \<^verbatim>\<open>=\<close> make a section, a \<^verbatim>\<open>=\<close> and no bracket a key line; only blanks ahead of \<^verbatim>\<open>;\<close> a
  note; everything else is an error.
\<close>

theorem judge_eq_line_class: "judge_ini_file_linetype line = line_class (cstr line)"
  by (rule judge_eq_line_class_aux)

text \<open>
  Before the first call, all slots are free and the invariant holds with the pool set up.
\<close>

lemma start_state_ok:
  "ini_inv (ini_file_memory_init (ini_start fs)) \<and>
   map (doc (ini_file_memory_init (ini_start fs))) [0..<MAX_OPERATION_FILE_NUM] = replicate MAX_OPERATION_FILE_NUM []"
proof -
  have "doc (ini_file_memory_init (ini_start fs)) f = []" if "f < MAX_OPERATION_FILE_NUM" for f
    using that by (simp add: doc_def doc_of_def ini_file_memory_init_def ini_start_def zero_file_def)
  then have "map (doc (ini_file_memory_init (ini_start fs))) [0..<MAX_OPERATION_FILE_NUM] = replicate MAX_OPERATION_FILE_NUM []"
    by (intro nth_equalityI) auto
  then show ?thesis using ini_inv_start by blast
qed

text \<open>
  Reading by lines loses nothing: the pieces that \<^verbatim>\<open>fgets\<close> delivers into a line buffer, one after the
  other, are the file.
\<close>

lemma file_chunks_complete: "concat (file_chunks content) = content"
  by (simp add: file_chunks_def concat_fgets_chunks size_defs)

text \<open>
  Bad arguments. Every operation of the interface answers a null parameter block, or a slot number
  out of range, with an error (the null pointer for a lookup), and touches neither memory nor files.
\<close>

lemma bad_arguments_rejected:
  assumes "\<not> valid_fd fd \<or> parameter = None"
  shows "get_value_ofkey fd parameter w = Some None \<and>
    update_value_ofkey fd parameter w = Some (INIFILE_ERROR_PARAMETER, parameter, w) \<and>
    add_value_ofkey fd parameter w = Some (INIFILE_ERROR_PARAMETER, parameter, w) \<and>
    delete_value_ofkey fd parameter w = Some (INIFILE_ERROR_PARAMETER, parameter, w) \<and>
    delete_ini_section fd parameter w = Some (INIFILE_ERROR_PARAMETER, parameter, w) \<and>
    add_ini_section fd parameter w = Some (INIFILE_ERROR_PARAMETER, parameter, w)"
  using assms
  by (cases parameter)
     (simp_all add: get_value_ofkey_def update_value_ofkey_def add_value_ofkey_def delete_value_ofkey_def
      delete_ini_section_def add_ini_section_def)

lemma bad_arguments_rejected_witness:
  "get_value_ofkey (- 1) None sample_world = Some None \<and>
    update_value_ofkey (- 1) None sample_world = Some (INIFILE_ERROR_PARAMETER, None, sample_world) \<and>
    add_value_ofkey (- 1) None sample_world = Some (INIFILE_ERROR_PARAMETER, None, sample_world) \<and>
    delete_value_ofkey (- 1) None sample_world = Some (INIFILE_ERROR_PARAMETER, None, sample_world) \<and>
    delete_ini_section (- 1) None sample_world = Some (INIFILE_ERROR_PARAMETER, None, sample_world) \<and>
    add_ini_section (- 1) None sample_world = Some (INIFILE_ERROR_PARAMETER, None, sample_world)"
  by (rule bad_arguments_rejected) (simp add: valid_fd_def)

end
